(* ===== verification/Prelude.thy ===== *)
theory Prelude
  imports Main "HOL-Library.Word" "HOL-Library.Monad_Syntax"
begin

text \<open>
  What every component shares: the error codes of \<^verbatim>\<open>kernel/error.hpp\<close>, the pair of a value and
  an error that fallible functions return, integer widths, and generic facts on lists and bits.

  Conventions of the whole library.
  \<^item> A C++ class is a record, its methods are functions that take the record and return it updated.
  \<^item> \<open>None\<close> in an \<open>option\<close> result is behaviour that C++ leaves undefined (an index outside an array,
    a dereferenced null or dangling pointer) or, where stated, a loop that does not end.
    Errors that the code reports are values of \<open>Error_Code\<close>.
  \<^item> \<open>size_t\<close> and \<open>uint64_t\<close> counters are \<open>nat\<close> where the code cannot wrap them, and words of their
    width where it computes with bits or wraps. \<open>int\<close> coordinates are \<open>int\<close>.
\<close>

unbundle bit_operations_syntax

type_synonym u8 = "8 word"
type_synonym u16 = "16 word"
type_synonym u32 = "32 word"
type_synonym u64 = "64 word"

subsection \<open>Error codes\<close>

datatype Error_Code =
    kSuccess | kFull | kEmpty | kNoEnoughMemory | kIndexOutOfRange
  | kHostControllerNotHalted | kInvalidSlotID | kPortNotConnected
  | kInvalidEndpointNumber | kTransferRingNotSet | kAlreadyAllocated
  | kNotImplemented | kInvalidDescriptor | kBufferTooSmall | kUnknownDevice
  | kNoCorrespondingSetupStage | kTransferFailed | kInvalidPhase
  | kUnknownXHCISpeedID | kNoWaiter | kNoPCIMSI | kUnknownPixelFormat
  | kNoSuchTask | kInvalidFormat | kFrameTooSmall | kInvalidFile
  | kIsDirectory | kNoSuchEntry | kFreeTypeError

text \<open>
  An \<open>Error\<close> object also carries the file and line of its construction for log messages; nothing
  branches on them, so an error is its code. The conversion to \<open>bool\<close> is true for every code but
  \<open>kSuccess\<close>.
\<close>

definition is_error :: "Error_Code \<Rightarrow> bool" where
  "is_error c \<longleftrightarrow> c \<noteq> kSuccess"

type_synonym 'a WithError = "'a \<times> Error_Code"

lemma is_error_kSuccess [simp]: "\<not> is_error kSuccess"
  by (simp add: is_error_def)

fun Name :: "Error_Code \<Rightarrow> string" where
  "Name kSuccess = ''kSuccess''"
| "Name kFull = ''kFull''"
| "Name kEmpty = ''kEmpty''"
| "Name kNoEnoughMemory = ''kNoEnoughMemory''"
| "Name kIndexOutOfRange = ''kIndexOutOfRange''"
| "Name kHostControllerNotHalted = ''kHostControllerNotHalted''"
| "Name kInvalidSlotID = ''kInvalidSlotID''"
| "Name kPortNotConnected = ''kPortNotConnected''"
| "Name kInvalidEndpointNumber = ''kInvalidEndpointNumber''"
| "Name kTransferRingNotSet = ''kTransferRingNotSet''"
| "Name kAlreadyAllocated = ''kAlreadyAllocated''"
| "Name kNotImplemented = ''kNotImplemented''"
| "Name kInvalidDescriptor = ''kInvalidDescriptor''"
| "Name kBufferTooSmall = ''kBufferTooSmall''"
| "Name kUnknownDevice = ''kUnknownDevice''"
| "Name kNoCorrespondingSetupStage = ''kNoCorrespondingSetupStage''"
| "Name kTransferFailed = ''kTransferFailed''"
| "Name kInvalidPhase = ''kInvalidPhase''"
| "Name kUnknownXHCISpeedID = ''kUnknownXHCISpeedID''"
| "Name kNoWaiter = ''kNoWaiter''"
| "Name kNoPCIMSI = ''kNoPCIMSI''"
| "Name kUnknownPixelFormat = ''kUnknownPixelFormat''"
| "Name kNoSuchTask = ''kNoSuchTask''"
| "Name kInvalidFormat = ''kInvalidFormat''"
| "Name kFrameTooSmall = ''kFrameTooSmall''"
| "Name kInvalidFile = ''kInvalidFile''"
| "Name kIsDirectory = ''kIsDirectory''"
| "Name kNoSuchEntry = ''kNoSuchEntry''"
| "Name kFreeTypeError = ''kFreeTypeError''"

subsection \<open>Lists\<close>

lemma distinct_tl_hd: "distinct xs \<Longrightarrow> xs \<noteq> [] \<Longrightarrow> hd xs \<notin> set (tl xs)"
  by (cases xs) auto

lemma set_tl_distinct: "distinct xs \<Longrightarrow> xs \<noteq> [] \<Longrightarrow> set (tl xs) = set xs - {hd xs}"
  by (cases xs) auto

subsection \<open>Bits\<close>

text \<open>The mask test and the mask updates of the code, as single bits of the word.\<close>

lemma mask_test: "(w AND push_bit n 1 \<noteq> 0) = bit w n" for w :: "'a::len word"
  by (simp add: bit_iff_and_push_bit_not_eq_0)

lemma bit_mask_set:
  "n < LENGTH('a) \<Longrightarrow> bit (w OR push_bit n 1) m \<longleftrightarrow> bit w m \<or> m = n" for w :: "'a::len word"
  by (auto simp: bit_or_iff bit_exp_iff)

lemma bit_mask_clear:
  "n < LENGTH('a) \<Longrightarrow> bit (w AND NOT (push_bit n 1)) m \<longleftrightarrow> bit w m \<and> m \<noteq> n" for w :: "'a::len word"
  by (auto simp: bit_and_iff bit_not_iff bit_exp_iff dest: bit_imp_le_length)

lemma unat_ucast_up:
  "LENGTH('a) \<le> LENGTH('b) \<Longrightarrow> unat (ucast (w :: 'a::len word) :: 'b::len word) = unat w"
proof -
  assume "LENGTH('a) \<le> LENGTH('b)"
  then have "unat w < 2 ^ LENGTH('b)"
    using unsigned_less[of w, where 'a = nat] by (meson less_le_trans one_le_numeral power_increasing)
  then show ?thesis by (simp add: unsigned_ucast_eq take_bit_nat_eq_self)
qed

lemma nat_bit_bound: "bit v k \<Longrightarrow> v < 2 ^ n \<Longrightarrow> k < n" for v :: nat
proof -
  assume "bit v k" "v < 2 ^ n"
  then have "v div 2 ^ k \<noteq> 0" unfolding bit_iff_odd by (metis even_zero)
  then have "2 ^ k \<le> v" by (metis div_less not_le)
  then have "(2::nat) ^ k < 2 ^ n" using \<open>v < 2 ^ n\<close> by (rule le_less_trans)
  then show "k < n" by (rule power_less_imp_less_exp[rotated]) simp
qed

lemma word_bit_bound: "bit (w :: 'a::len word) k \<Longrightarrow> unat w < 2 ^ n \<Longrightarrow> k < n"
  using nat_bit_bound[of "unat w" k n] by (simp add: bit_unsigned_iff bit_imp_le_length)

lemma bit_of_nat_word: "bit (of_nat m :: 'a::len word) k \<longleftrightarrow> k < LENGTH('a) \<and> bit m k"
  by (simp add: bit_of_nat_iff)

subsection \<open>Little-endian bytes\<close>

text \<open>
  Packed structures in memory: \<open>of_bytes\<close> reads a little-endian integer, \<open>to_bytes n\<close> stores one in
  \<open>n\<close> bytes.
\<close>

definition of_bytes :: "u8 list \<Rightarrow> 'a::len word" where
  "of_bytes bs = foldr (\<lambda>b w. push_bit 8 w OR ucast b) bs 0"

definition to_bytes :: "nat \<Rightarrow> 'a::len word \<Rightarrow> u8 list" where
  "to_bytes n w = map (\<lambda>i. ucast (drop_bit (8 * i) w)) [0..<n]"

lemma of_bytes_simps [simp]:
  "of_bytes [] = 0" "of_bytes (b # bs) = push_bit 8 (of_bytes bs) OR ucast b"
  by (simp_all add: of_bytes_def)

lemma length_to_bytes [simp]: "length (to_bytes n w) = n"
  by (simp add: to_bytes_def)

lemma bit_of_bytes:
  "bit (of_bytes bs :: 'a::len word) k \<longleftrightarrow> k < LENGTH('a) \<and> k div 8 < length bs \<and> bit (bs ! (k div 8)) (k mod 8)"
proof (induction bs arbitrary: k)
  case (Cons b bs)
  show ?case
  proof (cases "k < 8")
    case True
    then show ?thesis by (auto simp: bit_or_iff bit_push_bit_iff bit_ucast_iff)
  next
    case False
    then obtain j where k: "k = j + 8" by (metis add.commute le_Suc_ex not_less)
    have d: "(j + 8) div 8 = Suc (j div 8)" by simp
    have "\<not> bit b (j + 8)" by (auto dest: bit_imp_le_length)
    then show ?thesis unfolding k d
      by (auto simp: bit_or_iff bit_push_bit_iff bit_ucast_iff Cons.IH dest: bit_imp_le_length)
  qed
qed simp

text \<open>Storing and reading back is lossless when the bytes hold the whole word.\<close>

lemma of_bytes_to_bytes:
  assumes "LENGTH('a) \<le> 8 * n"
  shows "of_bytes (to_bytes n w) = (w :: 'a::len word)"
proof (rule bit_word_eqI)
  fix k assume "k < LENGTH('a)"
  with assms have "k div 8 < n" by simp
  then show "bit (of_bytes (to_bytes n w) :: 'a word) k = bit w k"
    using \<open>k < LENGTH('a)\<close> by (simp add: bit_of_bytes to_bytes_def bit_ucast_iff bit_drop_bit_eq)
qed

lemma to_bytes_of_bytes:
  assumes "8 * length bs \<le> LENGTH('a)"
  shows "to_bytes (length bs) (of_bytes bs :: 'a::len word) = bs"
proof (rule nth_equalityI)
  fix i assume "i < length (to_bytes (length bs) (of_bytes bs :: 'a word))"
  then have i: "i < length bs" by simp
  show "to_bytes (length bs) (of_bytes bs :: 'a word) ! i = bs ! i"
  proof (rule bit_word_eqI)
    fix k assume "k < LENGTH(8)"
    then have k: "k < 8" by simp
    then have "(8 * i + k) div 8 = i" "(8 * i + k) mod 8 = k" "8 * i + k < LENGTH('a)" using i assms by auto
    then show "bit (to_bytes (length bs) (of_bytes bs :: 'a word) ! i) k = bit (bs ! i) k"
      using i k by (simp add: to_bytes_def bit_ucast_iff bit_drop_bit_eq bit_of_bytes)
  qed
qed simp

subsection \<open>Replacing a stretch of an array\<close>

text \<open>\<open>memcpy\<close> of \<open>bs\<close> to offset \<open>n\<close> of an array that is large enough.\<close>

definition blit :: "nat \<Rightarrow> 'a list \<Rightarrow> 'a list \<Rightarrow> 'a list" where
  "blit n bs xs = take n xs @ bs @ drop (n + length bs) xs"

lemma length_blit: "n + length bs \<le> length xs \<Longrightarrow> length (blit n bs xs) = length xs"
  by (simp add: blit_def)

lemma take_drop_blit: "n + length bs \<le> length xs \<Longrightarrow> take (length bs) (drop n (blit n bs xs)) = bs"
  by (simp add: blit_def)

lemma take_blit: "n + length bs \<le> length xs \<Longrightarrow> take (n + length bs) (blit n bs xs) = take n xs @ bs"
  by (simp add: blit_def)

lemma nth_blit:
  "n + length bs \<le> length xs \<Longrightarrow>
   blit n bs xs ! i = (if n \<le> i \<and> i < n + length bs then bs ! (i - n) else xs ! i)"
  by (auto simp: blit_def nth_append)

text \<open>The stretch of an array that another stretch does not touch.\<close>

lemma take_drop_blit_other:
  assumes "n + length bs \<le> length xs" and "k + m \<le> n \<or> n + length bs \<le> k" and "k + m \<le> length xs"
  shows "take m (drop k (blit n bs xs)) = take m (drop k xs)"
proof (rule nth_equalityI)
  show "length (take m (drop k (blit n bs xs))) = length (take m (drop k xs))"
    using assms(1) by (simp add: length_blit)
  fix i assume "i < length (take m (drop k (blit n bs xs)))"
  then show "take m (drop k (blit n bs xs)) ! i = take m (drop k xs) ! i"
    using assms by (auto simp: nth_blit length_blit)
qed

end
