(* ===== verification/MemoryManager.thy ===== *)
theory MemoryManager
  imports Prelude
begin

text \<open>
  The physical frame allocator: \<^verbatim>\<open>kernel/memory_manager.cpp\<close>, \<^verbatim>\<open>kernel/memory_manager.hpp\<close> and
  \<^verbatim>\<open>kernel/memory_map.hpp\<close>. The bitmap is an array of 64-bit lines; an access to a line past the
  array is \<open>None\<close>. Frame numbers and byte counts are \<open>nat\<close>: the scan compares every index with
  \<open>range_end\<close> before it goes on, so no \<open>size_t\<close> of it wraps.
  The locale \<open>frame_allocator\<close> is what the page tables rely on.
\<close>

subsection \<open>The UEFI memory map\<close>

datatype MemoryType =
    kEfiReservedMemoryType | kEfiLoaderCode | kEfiLoaderData | kEfiBootServicesCode
  | kEfiBootServicesData | kEfiRuntimeServicesCode | kEfiRuntimeServicesData
  | kEfiConventionalMemory | kEfiUnusableMemory | kEfiACPIReclaimMemory | kEfiACPIMemoryNVS
  | kEfiMemoryMappedIO | kEfiMemoryMappedIOPortSpace | kEfiPalCode | kEfiPersistentMemory
  | kEfiMaxMemoryType

fun IsAvailable :: "MemoryType \<Rightarrow> bool" where
  "IsAvailable t \<longleftrightarrow>
     t = kEfiBootServicesCode \<or> t = kEfiBootServicesData \<or> t = kEfiConventionalMemory"

declare IsAvailable.simps [simp del]

text \<open>
  The descriptors are read at multiples of \<open>descriptor_size\<close> in a buffer of \<open>map_size\<close> bytes; the
  model takes the list of them. \<open>virtual_start\<close> and \<open>attribute\<close> are never read by the kernel.
\<close>

record MemoryDescriptor =
  desc_type :: MemoryType
  physical_start :: nat
  virtual_start :: nat
  number_of_pages :: nat
  attribute :: nat

definition kUEFIPageSize :: nat where
  "kUEFIPageSize = 4096"

subsection \<open>The bitmap\<close>

definition kBytesPerFrame :: nat where
  "kBytesPerFrame = 4 * 1024"

definition kBitsPerMapLine :: nat where
  "kBitsPerMapLine = 8 * 8"

definition kFrameCount :: nat where
  "kFrameCount = 128 * 1024 * 1024 * 1024 div kBytesPerFrame"

text \<open>A \<open>FrameID\<close> wraps a frame number; \<open>kNullFrame\<close> is the largest \<open>size_t\<close>.\<close>

type_synonym FrameID = nat

definition kNullFrame :: FrameID where
  "kNullFrame = 2 ^ 64 - 1"

record BitmapMemoryManager =
  alloc_map :: "nat \<Rightarrow> u64"
  range_begin :: FrameID
  range_end :: FrameID

record MemoryStat =
  allocated_frames :: nat
  total_frames :: nat

definition new_BitmapMemoryManager :: BitmapMemoryManager where
  "new_BitmapMemoryManager = \<lparr>alloc_map = (\<lambda>_. 0), range_begin = 0, range_end = kFrameCount\<rparr>"

definition line_ok :: "FrameID \<Rightarrow> bool" where
  "line_ok frame \<longleftrightarrow> frame div kBitsPerMapLine < kFrameCount div kBitsPerMapLine"

definition GetBit :: "BitmapMemoryManager \<Rightarrow> FrameID \<Rightarrow> bool option" where
  "GetBit mm frame =
     (let line_index = frame div kBitsPerMapLine; bit_index = frame mod kBitsPerMapLine
      in if line_ok frame then Some (alloc_map mm line_index AND push_bit bit_index 1 \<noteq> 0) else None)"

definition SetBit :: "BitmapMemoryManager \<Rightarrow> FrameID \<Rightarrow> bool \<Rightarrow> BitmapMemoryManager option" where
  "SetBit mm frame allocated =
     (let line_index = frame div kBitsPerMapLine; bit_index = frame mod kBitsPerMapLine;
          line = alloc_map mm line_index;
          line' = (if allocated then line OR push_bit bit_index 1
                   else line AND NOT (push_bit bit_index 1))
      in if line_ok frame then Some (mm\<lparr>alloc_map := (alloc_map mm)(line_index := line')\<rparr>) else None)"

text \<open>The loops of \<open>Free\<close> and \<open>MarkAllocated\<close>: \<open>SetBit\<close> on \<open>n\<close> frames from \<open>start\<close> up.\<close>

fun set_bits :: "BitmapMemoryManager \<Rightarrow> FrameID \<Rightarrow> nat \<Rightarrow> bool \<Rightarrow> BitmapMemoryManager option" where
  "set_bits mm start 0 b = Some mm"
| "set_bits mm start (Suc n) b =
     (case SetBit mm start b of None \<Rightarrow> None | Some mm' \<Rightarrow> set_bits mm' (Suc start) n b)"

definition MarkAllocated :: "BitmapMemoryManager \<Rightarrow> FrameID \<Rightarrow> nat \<Rightarrow> BitmapMemoryManager option" where
  "MarkAllocated mm start_frame num_frames = set_bits mm start_frame num_frames True"

definition Free :: "BitmapMemoryManager \<Rightarrow> FrameID \<Rightarrow> nat \<Rightarrow> (BitmapMemoryManager \<times> Error_Code) option" where
  "Free mm start_frame num_frames =
     (case set_bits mm start_frame num_frames False of
        None \<Rightarrow> None | Some mm' \<Rightarrow> Some (mm', kSuccess))"

text \<open>
  The inner \<open>for\<close> of \<open>Allocate\<close>: \<open>Some None\<close> is the return with \<open>kNoEnoughMemory\<close>, \<open>Some (Some i)\<close>
  is the value of \<open>i\<close> after the loop.
\<close>

function alloc_scan :: "BitmapMemoryManager \<Rightarrow> FrameID \<Rightarrow> nat \<Rightarrow> nat \<Rightarrow> nat option option" where
  "alloc_scan mm start n i =
     (if i < n then
        if range_end mm \<le> start + i then Some None
        else (case GetBit mm (start + i) of
                None \<Rightarrow> None
              | Some True \<Rightarrow> Some (Some i)
              | Some False \<Rightarrow> alloc_scan mm start n (i + 1))
      else Some (Some i))"
  by pat_completeness auto
termination
  by (relation "measure (\<lambda>(mm, start, n, i). n - i)") auto

declare alloc_scan.simps [simp del]

lemma alloc_scan_stop:
  "alloc_scan mm start n i = Some (Some j) \<Longrightarrow> i \<le> n \<Longrightarrow>
     j \<le> n \<and> (j < n \<longrightarrow> start + j < range_end mm)"
proof (induction mm start n i rule: alloc_scan.induct)
  case (1 mm start n i)
  then show ?case
    by (subst (asm) (2) alloc_scan.simps) (auto split: if_splits option.splits bool.splits)
qed

function alloc_loop ::
  "BitmapMemoryManager \<Rightarrow> nat \<Rightarrow> FrameID \<Rightarrow> (BitmapMemoryManager \<times> FrameID WithError) option" where
  "alloc_loop mm n start =
     (case alloc_scan mm start n 0 of
        None \<Rightarrow> None
      | Some None \<Rightarrow> Some (mm, (kNullFrame, kNoEnoughMemory))
      | Some (Some i) \<Rightarrow>
          if i = n then
            (case MarkAllocated mm start n of
               None \<Rightarrow> None | Some mm' \<Rightarrow> Some (mm', (start, kSuccess)))
          else alloc_loop mm n (start + (i + 1)))"
  by pat_completeness auto
termination
  by (relation "measure (\<lambda>(mm, n, start). range_end mm - start)")
     (auto dest!: alloc_scan_stop)

declare alloc_loop.simps [simp del]

definition Allocate :: "BitmapMemoryManager \<Rightarrow> nat \<Rightarrow> (BitmapMemoryManager \<times> FrameID WithError) option" where
  "Allocate mm num_frames = alloc_loop mm num_frames (range_begin mm)"

definition SetMemoryRange :: "BitmapMemoryManager \<Rightarrow> FrameID \<Rightarrow> FrameID \<Rightarrow> BitmapMemoryManager" where
  "SetMemoryRange mm rb re = mm\<lparr>range_begin := rb, range_end := re\<rparr>"

text \<open>\<open>Stat\<close> counts the bits of whole map lines; \<open>popcount\<close> is \<open>std::bitset::count\<close>.\<close>

definition popcount :: "u64 \<Rightarrow> nat" where
  "popcount w = length (filter (bit w) [0..<64])"

definition Stat :: "BitmapMemoryManager \<Rightarrow> MemoryStat" where
  "Stat mm =
     \<lparr>allocated_frames =
        sum_list (map (\<lambda>i. popcount (alloc_map mm i))
                      [range_begin mm div kBitsPerMapLine ..< range_end mm div kBitsPerMapLine]),
      total_frames = range_end mm - range_begin mm\<rparr>"

subsection \<open>Initialisation from the memory map\<close>

text \<open>The loop over the descriptors, with the manager and \<open>available_end\<close> as its state.\<close>

fun init_loop :: "MemoryDescriptor list \<Rightarrow> BitmapMemoryManager \<Rightarrow> nat \<Rightarrow> (BitmapMemoryManager \<times> nat) option" where
  "init_loop [] mm available_end = Some (mm, available_end)"
| "init_loop (desc # ds) mm available_end =
     (case (if available_end < physical_start desc
            then MarkAllocated mm (available_end div kBytesPerFrame)
                   ((physical_start desc - available_end) div kBytesPerFrame)
            else Some mm) of
        None \<Rightarrow> None
      | Some mm1 \<Rightarrow>
          if IsAvailable (desc_type desc)
          then init_loop ds mm1 (physical_start desc + number_of_pages desc * kUEFIPageSize)
          else (case MarkAllocated mm1 (physical_start desc div kBytesPerFrame)
                       (number_of_pages desc * kUEFIPageSize div kBytesPerFrame) of
                  None \<Rightarrow> None
                | Some mm2 \<Rightarrow> init_loop ds mm2 available_end))"

definition kHeapFrames :: nat where
  "kHeapFrames = 64 * 512"

record KernelHeap =
  program_break :: nat
  program_break_end :: nat

definition InitializeHeap ::
  "BitmapMemoryManager \<Rightarrow> (BitmapMemoryManager \<times> KernelHeap option \<times> Error_Code) option" where
  "InitializeHeap mm =
     (case Allocate mm kHeapFrames of
        None \<Rightarrow> None
      | Some (mm', heap_start, err) \<Rightarrow>
          if is_error err then Some (mm', None, err)
          else Some (mm', Some \<lparr>program_break = heap_start * kBytesPerFrame,
                                program_break_end = heap_start * kBytesPerFrame + kHeapFrames * kBytesPerFrame\<rparr>,
                     kSuccess))"

text \<open>An error of \<open>InitializeHeap\<close> makes the kernel log it and \<open>exit(1)\<close>: the heap is then \<open>None\<close>.\<close>

definition InitializeMemoryManager ::
  "MemoryDescriptor list \<Rightarrow> (BitmapMemoryManager \<times> KernelHeap option \<times> Error_Code) option" where
  "InitializeMemoryManager memory_map =
     (case init_loop memory_map new_BitmapMemoryManager 0 of
        None \<Rightarrow> None
      | Some (mm, available_end) \<Rightarrow>
          InitializeHeap (SetMemoryRange mm 1 (available_end div kBytesPerFrame)))"


subsection \<open>The view of the bitmap as a set of used frames\<close>

definition used :: "BitmapMemoryManager \<Rightarrow> FrameID \<Rightarrow> bool" where
  "used mm f = bit (alloc_map mm (f div 64)) (f mod 64)"

lemmas mm_consts = kBytesPerFrame_def kBitsPerMapLine_def kFrameCount_def kUEFIPageSize_def

lemma line_ok_iff: "line_ok f \<longleftrightarrow> f < kFrameCount"
  by (simp add: line_ok_def mm_consts less_mult_imp_div_less div_less_iff_less_mult)

lemma GetBit_used: "GetBit mm f = (if f < kFrameCount then Some (used mm f) else None)"
  by (simp add: GetBit_def Let_def line_ok_iff used_def kBitsPerMapLine_def mask_test
      del: push_bit_of_1)

lemma used_range [simp]: "used (mm\<lparr>range_begin := a\<rparr>) f = used mm f" "used (mm\<lparr>range_end := a\<rparr>) f = used mm f"
  by (simp_all add: used_def)

lemma div_mod_eq: "f div 64 = g div 64 \<Longrightarrow> f mod 64 = g mod 64 \<Longrightarrow> f = g" for f g :: nat
  by (metis div_mult_mod_eq)

lemma SetBit_None: "SetBit mm f b = None \<longleftrightarrow> kFrameCount \<le> f"
  by (auto simp: SetBit_def Let_def line_ok_iff)

lemma SetBit_Some:
  assumes "SetBit mm f b = Some mm'"
  shows "used mm' g = (if g = f then b else used mm g)"
    and "range_begin mm' = range_begin mm" and "range_end mm' = range_end mm"
proof -
  have mm': "mm' = mm\<lparr>alloc_map := (alloc_map mm)(f div 64 :=
      (if b then alloc_map mm (f div 64) OR push_bit (f mod 64) 1
       else alloc_map mm (f div 64) AND NOT (push_bit (f mod 64) 1)))\<rparr>"
    using assms by (auto simp: SetBit_def Let_def kBitsPerMapLine_def split: if_splits)
  show "range_begin mm' = range_begin mm" "range_end mm' = range_end mm"
    by (simp_all add: mm')
  have lt: "f mod 64 < LENGTH(64)" by simp
  show "used mm' g = (if g = f then b else used mm g)"
    by (cases b; cases "g div 64 = f div 64")
       (auto simp: mm' used_def bit_mask_set[OF lt] bit_mask_clear[OF lt] dest: div_mod_eq
             simp del: push_bit_of_1)
qed

lemma set_bits_Some:
  "set_bits mm s n b = Some mm' \<Longrightarrow>
     used mm' g = (if s \<le> g \<and> g < s + n then b else used mm g) \<and>
     range_begin mm' = range_begin mm \<and> range_end mm' = range_end mm"
proof (induction mm s n b rule: set_bits.induct)
  case (2 mm s n b)
  then obtain mm1 where 1: "SetBit mm s b = Some mm1" "set_bits mm1 (Suc s) n b = Some mm'"
    by (auto split: option.splits)
  from "2.IH"[OF 1] SetBit_Some[OF 1(1)] show ?case by auto
qed auto

lemma set_bits_total: "s + n \<le> kFrameCount \<Longrightarrow> \<exists>mm'. set_bits mm s n b = Some mm'"
proof (induction mm s n b rule: set_bits.induct)
  case (2 mm s n b)
  then have "SetBit mm s b \<noteq> None" by (simp add: SetBit_None)
  with 2 show ?case by auto
qed auto

lemma set_bits_None: "set_bits mm s n b = None \<Longrightarrow> kFrameCount < s + n"
  using set_bits_total[of s n mm b] by fastforce

lemma alloc_loop_mono:
  "alloc_loop mm n s = Some (mm', r) \<Longrightarrow>
     range_end mm' = range_end mm \<and> range_begin mm' = range_begin mm \<and> (used mm g \<longrightarrow> used mm' g)"
proof (induction mm n s rule: alloc_loop.induct)
  case (1 mm n s)
  then show ?case
    by (subst (asm) (2) alloc_loop.simps)
       (auto split: option.splits if_splits simp: MarkAllocated_def dest!: set_bits_Some[where g = g])
qed

text \<open>
  What the scan finds when the range lies inside the bitmap: \<open>free_run\<close> is the condition that
  \<open>Allocate\<close> searches for.
\<close>

definition free_run :: "BitmapMemoryManager \<Rightarrow> FrameID \<Rightarrow> nat \<Rightarrow> bool" where
  "free_run mm s n \<longleftrightarrow> s + n \<le> range_end mm \<and> (\<forall>f. s \<le> f \<and> f < s + n \<longrightarrow> \<not> used mm f)"

lemma alloc_scan_spec:
  assumes "range_end mm \<le> kFrameCount" and "i \<le> n"
  shows "case alloc_scan mm s n i of
      None \<Rightarrow> False
    | Some None \<Rightarrow> range_end mm < s + n
    | Some (Some j) \<Rightarrow> i \<le> j \<and> j \<le> n \<and> (\<forall>k. i \<le> k \<and> k < j \<longrightarrow> s + k < range_end mm \<and> \<not> used mm (s + k)) \<and>
        (j < n \<longrightarrow> s + j < range_end mm \<and> used mm (s + j))"
  using assms
proof (induction mm s n i rule: alloc_scan.induct)
  case (1 mm s n i)
  show ?case
  proof (cases "i < n \<and> s + i < range_end mm \<and> \<not> used mm (s + i)")
    case True
    then have bit: "GetBit mm (s + i) = Some False"
      using "1.prems" by (simp add: GetBit_used)
    then have eq: "alloc_scan mm s n i = alloc_scan mm s n (i + 1)"
      using True by (subst alloc_scan.simps) simp
    from True bit "1.prems" "1.IH"[of False] have
      "case alloc_scan mm s n (i + 1) of
      None \<Rightarrow> False
    | Some None \<Rightarrow> range_end mm < s + n
    | Some (Some j) \<Rightarrow> i + 1 \<le> j \<and> j \<le> n \<and> (\<forall>k. i + 1 \<le> k \<and> k < j \<longrightarrow> s + k < range_end mm \<and> \<not> used mm (s + k)) \<and>
        (j < n \<longrightarrow> s + j < range_end mm \<and> used mm (s + j))"
      by simp
    then show ?thesis
      unfolding eq using True
      by (auto split: option.splits) (metis Suc_leI le_neq_implies_less)+
  next
    case False
    then show ?thesis using "1.prems"
      by (subst alloc_scan.simps) (auto simp: GetBit_used)
  qed
qed

lemma alloc_loop_spec:
  assumes "range_end mm \<le> kFrameCount" and "0 < n" and "alloc_loop mm n start = r"
  shows "(\<exists>s mm'. r = Some (mm', (s, kSuccess)) \<and> MarkAllocated mm s n = Some mm' \<and>
            start \<le> s \<and> free_run mm s n \<and> (\<forall>t. start \<le> t \<and> t < s \<longrightarrow> \<not> free_run mm t n)) \<or>
         (r = Some (mm, (kNullFrame, kNoEnoughMemory)) \<and> (\<forall>t \<ge> start. \<not> free_run mm t n))"
  using assms
proof (induction mm n start arbitrary: r rule: alloc_loop.induct)
  case (1 mm n start)
  have scan: "case alloc_scan mm start n 0 of
      None \<Rightarrow> False
    | Some None \<Rightarrow> range_end mm < start + n
    | Some (Some j) \<Rightarrow> j \<le> n \<and> (\<forall>k < j. start + k < range_end mm \<and> \<not> used mm (start + k)) \<and>
        (j < n \<longrightarrow> start + j < range_end mm \<and> used mm (start + j))"
    using alloc_scan_spec[OF "1.prems"(1), of 0 n start] by (simp split: option.splits)
  consider (full) "alloc_scan mm start n 0 = Some None" "range_end mm < start + n"
    | (found) "alloc_scan mm start n 0 = Some (Some n)"
        "\<forall>k < n. start + k < range_end mm \<and> \<not> used mm (start + k)"
    | (skip) j where "alloc_scan mm start n 0 = Some (Some j)" "j < n"
        "start + j < range_end mm" "used mm (start + j)"
    using scan by (auto split: option.splits simp: le_less)
  then show ?case
  proof cases
    case full
    then show ?thesis using "1.prems"
      by (auto simp: alloc_loop.simps[of mm n start] free_run_def)
  next
    case found
    have "start + (n - 1) < range_end mm" 
      using spec[OF found(2), of "n - 1"] "1.prems"(2) by simp
    moreover have "\<not> used mm f" if "start \<le> f" "f < start + n" for f
      using found(2) that by (auto dest: spec[of _ "f - start"])
    ultimately have run: "free_run mm start n"
      using "1.prems"(2) by (simp add: free_run_def)
    then have "start + n \<le> kFrameCount" using "1.prems"(1) by (simp add: free_run_def)
    then obtain mm' where "MarkAllocated mm start n = Some mm'"
      using set_bits_total unfolding MarkAllocated_def by blast
    then show ?thesis using found(1) run "1.prems"
      by (auto simp: alloc_loop.simps[of mm n start])
  next
    case skip
    then have eq: "alloc_loop mm n start = alloc_loop mm n (start + (j + 1))"
      by (subst alloc_loop.simps) simp
    have no: "\<not> free_run mm t n" if "start \<le> t" "t < start + (j + 1)" for t
      using skip that by (auto simp: free_run_def intro!: exI[of _ "start + j"])
    have no_lt: "\<not> free_run mm t n"
      if "start \<le> t" "t < s" "\<forall>t. start + (j + 1) \<le> t \<and> t < s \<longrightarrow> \<not> free_run mm t n" for t s
      using no[of t] that by (cases "t < start + (j + 1)") auto
    have no_ge: "\<not> free_run mm t n"
      if "start \<le> t" "\<forall>t \<ge> start + (j + 1). \<not> free_run mm t n" for t
      using no[of t] that by (cases "t < start + (j + 1)") auto
    have "alloc_loop mm n (start + (j + 1)) = r" using eq "1.prems"(3) by simp
    then consider
        (ok) s mm' where "r = Some (mm', (s, kSuccess))" "MarkAllocated mm s n = Some mm'"
          "start + (j + 1) \<le> s" "free_run mm s n"
          "\<forall>t. start + (j + 1) \<le> t \<and> t < s \<longrightarrow> \<not> free_run mm t n"
      | (full) "r = Some (mm, (kNullFrame, kNoEnoughMemory))"
          "\<forall>t \<ge> start + (j + 1). \<not> free_run mm t n"
      using "1.IH"[OF skip(1) refl _ "1.prems"(1,2), of r] skip(2) by auto
    then show ?thesis
    proof cases
      case ok
      then have "start \<le> s \<and> (\<forall>t. start \<le> t \<and> t < s \<longrightarrow> \<not> free_run mm t n)"
        using no_lt by auto
      with ok show ?thesis by blast
    next
      case full
      then show ?thesis using no_ge by blast
    qed
  qed
qed

lemma Allocate_spec:
  assumes "range_end mm \<le> kFrameCount" and "0 < n"
  shows "(\<exists>s mm'. Allocate mm n = Some (mm', (s, kSuccess)) \<and> MarkAllocated mm s n = Some mm' \<and>
            range_begin mm \<le> s \<and> free_run mm s n \<and>
            (\<forall>t. range_begin mm \<le> t \<and> t < s \<longrightarrow> \<not> free_run mm t n)) \<or>
         (Allocate mm n = Some (mm, (kNullFrame, kNoEnoughMemory)) \<and>
            (\<forall>t \<ge> range_begin mm. \<not> free_run mm t n))"
  using alloc_loop_spec[OF assms refl, of "range_begin mm"] unfolding Allocate_def by blast

lemma Allocate_0: "Allocate mm 0 = Some (mm, (range_begin mm, kSuccess))"
  by (simp add: Allocate_def alloc_loop.simps[of mm 0] alloc_scan.simps[of mm _ 0] MarkAllocated_def)

lemma MarkAllocated_used:
  "MarkAllocated mm s n = Some mm' \<Longrightarrow> used mm' g \<longleftrightarrow> used mm g \<or> (s \<le> g \<and> g < s + n)"
  "MarkAllocated mm s n = Some mm' \<Longrightarrow> range_begin mm' = range_begin mm"
  "MarkAllocated mm s n = Some mm' \<Longrightarrow> range_end mm' = range_end mm"
  using set_bits_Some[of mm s n True mm' g] by (auto simp: MarkAllocated_def split: if_splits)

lemma Allocate_success:
  assumes "range_end mm \<le> kFrameCount" and "Allocate mm n = Some (mm', s, kSuccess)"
  shows "used mm' g \<longleftrightarrow> used mm g \<or> (s \<le> g \<and> g < s + n)"
    and "s \<le> g \<Longrightarrow> g < s + n \<Longrightarrow> \<not> used mm g"
    and "0 < n \<Longrightarrow> range_begin mm \<le> s \<and> s + n \<le> range_end mm"
    and "range_begin mm' = range_begin mm" and "range_end mm' = range_end mm"
proof -
  have *: "n = 0 \<Longrightarrow> mm' = mm" using assms(2) by (simp add: Allocate_0)
  have **: "MarkAllocated mm s n = Some mm' \<and> range_begin mm \<le> s \<and> free_run mm s n" if "0 < n"
    using Allocate_spec[OF assms(1) that] assms(2) by auto
  show "used mm' g \<longleftrightarrow> used mm g \<or> (s \<le> g \<and> g < s + n)"
    using * ** MarkAllocated_used(1)[of mm s n mm' g] by (cases "n = 0") auto
  show "s \<le> g \<Longrightarrow> g < s + n \<Longrightarrow> \<not> used mm g"
    using ** by (cases "n = 0") (auto simp: free_run_def)
  show "0 < n \<Longrightarrow> range_begin mm \<le> s \<and> s + n \<le> range_end mm"
    using ** by (auto simp: free_run_def)
  show "range_begin mm' = range_begin mm" "range_end mm' = range_end mm"
    using * ** MarkAllocated_used(2,3)[of mm s n mm'] by (cases "n = 0"; auto)+
qed

lemma Allocate_cases:
  assumes "range_end mm \<le> kFrameCount"
  obtains (ok) mm' s where "Allocate mm n = Some (mm', s, kSuccess)"
    | (full) "Allocate mm n = Some (mm, kNullFrame, kNoEnoughMemory)"
  using Allocate_spec[OF assms, of n] Allocate_0[of mm] by (cases "n = 0") auto

lemma Free_used:
  assumes "s + n \<le> kFrameCount"
  shows "\<exists>mm'. Free mm s n = Some (mm', kSuccess) \<and> range_end mm' = range_end mm \<and>
    (\<forall>g. used mm' g \<longleftrightarrow> used mm g \<and> \<not> (s \<le> g \<and> g < s + n))"
proof -
  obtain mm' where "set_bits mm s n False = Some mm'" using set_bits_total[OF assms] by blast
  then show ?thesis using set_bits_Some[of mm s n False mm'] by (auto simp: Free_def split: if_splits)
qed

subsection \<open>The interface the page tables rely on\<close>

locale frame_allocator =
  fixes inv :: "'s \<Rightarrow> bool" and limit :: nat
    and taken :: "'s \<Rightarrow> nat \<Rightarrow> bool"
    and alloc :: "'s \<Rightarrow> nat \<Rightarrow> ('s \<times> nat WithError) option"
    and release :: "'s \<Rightarrow> nat \<Rightarrow> nat \<Rightarrow> ('s \<times> Error_Code) option"
  assumes alloc_total: "inv s \<Longrightarrow> \<exists>s' f e. alloc s n = Some (s', f, e)"
    and alloc_error: "inv s \<Longrightarrow> alloc s n = Some (s', f, e) \<Longrightarrow> is_error e \<Longrightarrow> s' = s"
    and alloc_inv: "inv s \<Longrightarrow> alloc s n = Some (s', f, e) \<Longrightarrow> inv s'"
    and alloc_taken: "inv s \<Longrightarrow> alloc s n = Some (s', f, e) \<Longrightarrow> \<not> is_error e \<Longrightarrow>
      taken s' g \<longleftrightarrow> taken s g \<or> (f \<le> g \<and> g < f + n)"
    and alloc_fresh: "inv s \<Longrightarrow> alloc s n = Some (s', f, e) \<Longrightarrow> \<not> is_error e \<Longrightarrow>
      f \<le> g \<Longrightarrow> g < f + n \<Longrightarrow> \<not> taken s g"
    and alloc_limit: "inv s \<Longrightarrow> alloc s n = Some (s', f, e) \<Longrightarrow> \<not> is_error e \<Longrightarrow> 0 < n \<Longrightarrow> f + n \<le> limit"
    and release_taken: "inv s \<Longrightarrow> f + n \<le> limit \<Longrightarrow>
      \<exists>s'. release s f n = Some (s', kSuccess) \<and> inv s' \<and>
           (\<forall>g. taken s' g \<longleftrightarrow> taken s g \<and> \<not> (f \<le> g \<and> g < f + n))"
begin

text \<open>Blocks that are live at the same time do not overlap.\<close>

lemma alloc_disjoint:
  assumes "inv s" and "alloc s n = Some (s1, f, kSuccess)" and "alloc s1 m = Some (s2, g, kSuccess)"
    and "f \<le> x" "x < f + n"
  shows "\<not> (g \<le> x \<and> x < g + m)"
proof -
  have "taken s1 x" using alloc_taken[OF assms(1,2), of x] assms(4,5) by simp
  moreover have "inv s1" by (rule alloc_inv[OF assms(1,2)])
  ultimately show ?thesis using alloc_fresh[OF _ assms(3), of x] by auto
qed

text \<open>Giving a block back leaves exactly the frames that were taken before it was allocated.\<close>

lemma alloc_release:
  assumes "inv s" and "alloc s n = Some (s1, f, kSuccess)" and "0 < n"
  shows "\<exists>s2. release s1 f n = Some (s2, kSuccess) \<and> inv s2 \<and> taken s2 = taken s"
proof -
  have i1: "inv s1" by (rule alloc_inv[OF assms(1,2)])
  have "f + n \<le> limit" using alloc_limit[OF assms(1,2)] assms(3) by simp
  from release_taken[OF i1 this] obtain s2 where 2: "release s1 f n = Some (s2, kSuccess)" "inv s2"
    "\<forall>g. taken s2 g \<longleftrightarrow> taken s1 g \<and> \<not> (f \<le> g \<and> g < f + n)" by blast
  have "taken s2 g = taken s g" for g
    using 2(3) alloc_taken[OF assms(1,2), of g] alloc_fresh[OF assms(1,2), of g] by auto
  with 2 show ?thesis by blast
qed

end

abbreviation mm_inv :: "BitmapMemoryManager \<Rightarrow> bool" where
  "mm_inv mm \<equiv> range_end mm \<le> kFrameCount"

interpretation frames: frame_allocator mm_inv kFrameCount used Allocate Free
proof (unfold_locales, goal_cases)
  case (1 s n)
  then show ?case by (rule Allocate_cases[of s n]) auto
next
  case (2 s n s' f e)
  then show ?case by (elim Allocate_cases[of s n]) auto
next
  case (3 s n s' f e)
  show ?case
    by (rule Allocate_cases[of s n]) (use 3 Allocate_success(5)[of s n s' f] in auto)
next
  case (4 s n s' f e g)
  then show ?case using Allocate_success(1)[of s n s' f g] by (simp add: is_error_def)
next
  case (5 s n s' f e g)
  then show ?case using Allocate_success(2)[of s n s' f g] by (simp add: is_error_def)
next
  case (6 s n s' f e)
  then show ?case using Allocate_success(3)[of s n s' f] by (simp add: is_error_def)
next
  case (7 s f n)
  then show ?case using Free_used[of f n s] by fastforce
qed

subsection \<open>The memory map and the frames left free at boot\<close>

definition desc_frame :: "MemoryDescriptor \<Rightarrow> FrameID \<Rightarrow> bool" where
  "desc_frame d f \<longleftrightarrow> physical_start d div 4096 \<le> f \<and> f < physical_start d div 4096 + number_of_pages d"

definition page_aligned :: "MemoryDescriptor \<Rightarrow> bool" where
  "page_aligned d \<longleftrightarrow> 4096 dvd physical_start d"

lemma gap_frames:
  assumes "4096 dvd (a::nat)" and "4096 dvd b" and "a < b"
  shows "a div 4096 + (b - a) div 4096 = b div 4096"
  using assms by (auto elim!: dvdE simp flip: diff_mult_distrib2)

text \<open>
  One descriptor of the loop: \<open>acc\<close> is what the loop guarantees for the descriptors already read,
  and \<open>init_loop\<close> carries it to the end of the list.
\<close>

definition boot_inv :: "MemoryDescriptor set \<Rightarrow> BitmapMemoryManager \<Rightarrow> nat \<Rightarrow> bool" where
  "boot_inv D mm e \<longleftrightarrow> 4096 dvd e \<and>
     (\<forall>f < e div 4096. used mm f \<or> (\<exists>d \<in> D. IsAvailable (desc_type d) \<and> desc_frame d f)) \<and>
     (\<forall>d \<in> D. \<not> IsAvailable (desc_type d) \<longrightarrow> (\<forall>f. desc_frame d f \<longrightarrow> used mm f))"

lemma init_loop_inv:
  assumes "init_loop ds mm e = Some (mm', e')" and "boot_inv D mm e" and "\<forall>d \<in> set ds. page_aligned d"
  shows "boot_inv (D \<union> set ds) mm' e'"
  using assms
proof (induction ds arbitrary: mm e D)
  case (Cons d ds)
  define mm1 where "mm1 = (if e < physical_start d
            then MarkAllocated mm (e div kBytesPerFrame) ((physical_start d - e) div kBytesPerFrame) else Some mm)"
  obtain m1 where m1: "mm1 = Some m1"
    using Cons.prems(1) by (auto simp: mm1_def split: option.splits)
  have al: "4096 dvd physical_start d" "4096 dvd e"
    using Cons.prems by (auto simp: page_aligned_def boot_inv_def)
  have up: "used m1 f" if "used mm f" for f
    using m1 that MarkAllocated_used(1)[of mm "e div 4096" "(physical_start d - e) div 4096" m1 f]
    by (auto simp: mm1_def mm_consts split: if_splits)
  have gap: "used m1 f" if "e div 4096 \<le> f" "f < physical_start d div 4096" for f
  proof -
    have "e < physical_start d" using that by (metis div_le_mono leI le_less_trans not_less)
    then show ?thesis
      using m1 that gap_frames[OF al(2,1)]
        MarkAllocated_used(1)[of mm "e div 4096" "(physical_start d - e) div 4096" m1 f]
      by (auto simp: mm1_def mm_consts)
  qed
  have keep: "boot_inv D m1 e" using Cons.prems(2) up unfolding boot_inv_def by blast
  show ?case
  proof (cases "IsAvailable (desc_type d)")
    case True
    have "boot_inv (insert d D) m1 (physical_start d + number_of_pages d * 4096)"
      unfolding boot_inv_def
    proof (intro conjI allI impI ballI)
      show "4096 dvd physical_start d + number_of_pages d * 4096" using al by simp
    next
      fix f assume f: "f < (physical_start d + number_of_pages d * 4096) div 4096"
      then have "f < physical_start d div 4096 + number_of_pages d" using al by auto
      then show "used m1 f \<or> (\<exists>d'\<in>insert d D. IsAvailable (desc_type d') \<and> desc_frame d' f)"
        using True gap[of f] keep
        by (cases "physical_start d div 4096 \<le> f"; cases "e div 4096 \<le> f")
           (auto simp: desc_frame_def boot_inv_def not_le)
    next
      fix d' f assume "d' \<in> insert d D" "\<not> IsAvailable (desc_type d')" "desc_frame d' f"
      then show "used m1 f" using True keep by (auto simp: boot_inv_def)
    qed
    from Cons.IH[OF _ this] Cons.prems(1,3) m1 True show ?thesis
      by (auto simp: mm1_def mm_consts split: option.splits)
  next
    case False
    then obtain m2 where m2: "MarkAllocated m1 (physical_start d div 4096) (number_of_pages d) = Some m2"
      "init_loop ds m2 e = Some (mm', e')"
      using Cons.prems(1) m1 by (auto simp: mm1_def mm_consts split: option.splits)
    have "boot_inv (insert d D) m2 e"
      using keep False MarkAllocated_used(1)[OF m2(1)] by (auto simp: boot_inv_def desc_frame_def)
    from Cons.IH[OF m2(2) this] Cons.prems(3) show ?thesis by auto
  qed
qed auto

lemma boot_inv_init: "boot_inv {} new_BitmapMemoryManager 0"
  by (simp add: boot_inv_def)

lemma InitializeMemoryManager_used:
  assumes "InitializeMemoryManager ds = Some (mm, heap, err)" and "\<forall>d \<in> set ds. page_aligned d"
    
  obtains m e where "boot_inv (set ds) m e" and "range_end mm = e div 4096" and "range_begin mm = 1"
    and "\<And>f. used m f \<Longrightarrow> used mm f"
proof -
  obtain m e where me: "init_loop ds new_BitmapMemoryManager 0 = Some (m, e)"
    and h: "InitializeHeap (SetMemoryRange m 1 (e div 4096)) = Some (mm, heap, err)"
    using assms(1) by (auto simp: InitializeMemoryManager_def mm_consts split: option.splits)
  have "boot_inv (set ds) m e" using init_loop_inv[OF me boot_inv_init assms(2)] by simp
  let ?m = "SetMemoryRange m 1 (e div 4096)"
  obtain f er where al: "Allocate ?m kHeapFrames = Some (mm, f, er)"
    using h by (auto simp: InitializeHeap_def split: option.splits if_splits)
  have "range_end mm = range_end ?m \<and> range_begin mm = range_begin ?m \<and> (used ?m g \<longrightarrow> used mm g)" for g
    using alloc_loop_mono al unfolding Allocate_def by blast
  with \<open>boot_inv (set ds) m e\<close> show ?thesis
    by (intro that[of m e]) (auto simp: SetMemoryRange_def)
qed

text \<open>The heap is taken.\<close>

lemma boot_heap_used:
  assumes "InitializeMemoryManager ds = Some (mm, Some h, err)" and "range_end mm \<le> kFrameCount"
  shows "\<exists>s. program_break h = s * kBytesPerFrame \<and> program_break_end h = (s + kHeapFrames) * kBytesPerFrame \<and>
    (\<forall>g. s \<le> g \<and> g < s + kHeapFrames \<longrightarrow> used mm g)"
proof -
  obtain m e where h: "InitializeHeap (SetMemoryRange m 1 (e div 4096)) = Some (mm, Some h, err)"
    using assms(1) by (auto simp: InitializeMemoryManager_def mm_consts split: option.splits)
  let ?m = "SetMemoryRange m 1 (e div 4096)"
  obtain s er where al: "Allocate ?m kHeapFrames = Some (mm, s, er)" "\<not> is_error er"
    "h = \<lparr>program_break = s * kBytesPerFrame, program_break_end = s * kBytesPerFrame + kHeapFrames * kBytesPerFrame\<rparr>"
    using h by (auto simp: InitializeHeap_def split: option.splits if_splits)
  have "range_end ?m = range_end mm" using alloc_loop_mono al(1) unfolding Allocate_def by metis
  then have "mm_inv ?m" using assms(2) by simp
  then have "used mm g" if "s \<le> g" "g < s + kHeapFrames" for g
    using frames.alloc_taken[OF _ al(1,2), of g] that by simp
  then show ?thesis using al(3) by (intro exI[of _ s]) (simp add: add_mult_distrib)
qed

lemma popcount_card: "popcount w = card {i. i < 64 \<and> bit w i}"
proof -
  have "popcount w = card (set (filter (bit w) [0..<64]))"
    unfolding popcount_def by (rule distinct_card[symmetric]) simp
  also have "set (filter (bit w) [0..<64]) = {i. i < 64 \<and> bit w i}" by auto
  finally show ?thesis .
qed

lemma popcount_frames: "popcount (alloc_map mm i) = card {f. f div 64 = i \<and> used mm f}"
proof -
  have "bij_betw (\<lambda>b. i * 64 + b) {b. b < 64 \<and> bit (alloc_map mm i) b} {f. f div 64 = i \<and> used mm f}"
    by (rule bij_betw_byWitness[where f' = "\<lambda>f. f mod 64"]) (auto simp: used_def)
  from bij_betw_same_card[OF this] show ?thesis by (simp add: popcount_card)
qed

lemma sum_lines:
  "a \<le> b \<Longrightarrow> sum_list (map (\<lambda>i. popcount (alloc_map mm i)) [a..<b]) =
     card {f. a \<le> f div 64 \<and> f div 64 < b \<and> used mm f}"
proof (induction b)
  case (Suc b)
  show ?case
  proof (cases "a = Suc b")
    case False
    have fin: "finite {f. P f \<and> f div 64 < c \<and> Q f}" for P Q :: "nat \<Rightarrow> bool" and c :: nat
      by (rule finite_subset[of _ "{..< c * 64}"]) (auto simp: div_less_iff_less_mult)
    have fin1: "finite {f. f div 64 = b \<and> used mm f}"
      by (rule finite_subset[OF _ fin[of "\<lambda>_. True" "Suc b" "\<lambda>_. True"]]) auto
    have "{f. a \<le> f div 64 \<and> f div 64 < Suc b \<and> used mm f} =
          {f. a \<le> f div 64 \<and> f div 64 < b \<and> used mm f} \<union> {f. f div 64 = b \<and> used mm f}"
      using False Suc.prems by auto
    moreover have "card ({f. a \<le> f div 64 \<and> f div 64 < b \<and> used mm f} \<union> {f. f div 64 = b \<and> used mm f}) =
      card {f. a \<le> f div 64 \<and> f div 64 < b \<and> used mm f} + card {f. f div 64 = b \<and> used mm f}"
      by (rule card_Un_disjoint[OF fin fin1]) auto
    ultimately show ?thesis using Suc False by (simp add: popcount_frames)
  next
    case True
    have e: "{f. Suc b \<le> f div 64 \<and> f div 64 < Suc b \<and> used mm f} = {}" by auto
    show ?thesis unfolding True e by simp
  qed
qed simp

subsection \<open>Properties\<close>

text \<open>C1: \<open>Allocate\<close> returns, reads no line outside the bitmap, and is a first-fit search. It succeeds
  exactly when the managed range holds a run of \<open>n\<close> free frames, takes the lowest such run and marks
  its frames and no others; otherwise it reports \<open>kNoEnoughMemory\<close> and changes nothing.\<close>

theorem Allocate_first_fit:
  assumes "range_end mm \<le> kFrameCount" and "0 < n"
  shows "if \<exists>t \<ge> range_begin mm. free_run mm t n
    then \<exists>s mm'. Allocate mm n = Some (mm', s, kSuccess) \<and>
           range_begin mm \<le> s \<and> free_run mm s n \<and>
           (\<forall>t. range_begin mm \<le> t \<and> t < s \<longrightarrow> \<not> free_run mm t n) \<and>
           (\<forall>g. used mm' g \<longleftrightarrow> used mm g \<or> (s \<le> g \<and> g < s + n))
    else Allocate mm n = Some (mm, kNullFrame, kNoEnoughMemory)"
  using Allocate_spec[OF assms] MarkAllocated_used(1)[of mm _ n] by (auto split: if_splits)

theorem Allocate_first_fit_witness:
  "\<exists>s mm'. Allocate new_BitmapMemoryManager 3 = Some (mm', s, kSuccess) \<and> s = 0"
  using Allocate_first_fit[of new_BitmapMemoryManager 3]
  by (auto simp: new_BitmapMemoryManager_def free_run_def used_def mm_consts split: if_splits)

text \<open>two blocks that \<open>Allocate\<close> hands out one after the other never share a frame.\<close>

theorem Allocate_disjoint:
  assumes "range_end mm \<le> kFrameCount"
    and "Allocate mm n = Some (mm1, f, kSuccess)" and "Allocate mm1 m = Some (mm2, g, kSuccess)"
  shows "{f ..< f + n} \<inter> {g ..< g + m} = {}"
  unfolding disjoint_iff using frames.alloc_disjoint[OF assms] by simp

theorem Allocate_disjoint_witness:
  "\<exists>mm1 mm2 f g. Allocate new_BitmapMemoryManager 3 = Some (mm1, f, kSuccess) \<and>
     Allocate mm1 2 = Some (mm2, g, kSuccess) \<and> {f ..< f + 3} \<inter> {g ..< g + 2} = {}"
proof -
  let ?mm = new_BitmapMemoryManager
  have 0: "mm_inv ?mm" "\<And>f. \<not> used ?mm f" "range_begin ?mm = 0" "range_end ?mm = kFrameCount"
    by (simp_all add: new_BitmapMemoryManager_def used_def)
  have run: "free_run ?mm 0 3" by (auto simp: free_run_def 0 mm_consts)
  obtain f mm1 where 1: "Allocate ?mm 3 = Some (mm1, f, kSuccess)" "f = 0"
    using Allocate_spec[OF 0(1), of 3] run 0(3) by auto
  note u1 = Allocate_success[OF 0(1) 1(1)]
  have inv1: "mm_inv mm1" using u1(5) 0(4) by simp
  have "free_run mm1 3 2" using u1(1,5) 0 1(2) by (auto simp: free_run_def mm_consts)
  then obtain g mm2 where 2: "Allocate mm1 2 = Some (mm2, g, kSuccess)"
    using Allocate_spec[OF inv1, of 2] u1(4) 0(3) by auto
  show ?thesis using 1(1) 2 Allocate_disjoint[OF 0(1) 1(1) 2] by blast
qed

text \<open>freeing a block right after it was allocated restores exactly the set of used frames.\<close>

theorem Allocate_Free_roundtrip:
  assumes "range_end mm \<le> kFrameCount" and "0 < n" and "Allocate mm n = Some (mm1, f, kSuccess)"
  shows "\<exists>mm2. Free mm1 f n = Some (mm2, kSuccess) \<and> used mm2 = used mm"
  using frames.alloc_release[OF assms(1,3,2)] by blast

theorem Allocate_Free_roundtrip_witness:
  "\<exists>mm1 f mm2. Allocate new_BitmapMemoryManager 5 = Some (mm1, f, kSuccess) \<and>
     Free mm1 f 5 = Some (mm2, kSuccess) \<and> (\<forall>g. \<not> used mm2 g)"
proof -
  let ?mm = new_BitmapMemoryManager
  have 0: "mm_inv ?mm" "\<And>f. \<not> used ?mm f" "range_begin ?mm = 0" "range_end ?mm = kFrameCount"
    by (simp_all add: new_BitmapMemoryManager_def used_def)
  have run: "free_run ?mm 0 5" by (auto simp: free_run_def 0 mm_consts)
  obtain f mm1 where 1: "Allocate ?mm 5 = Some (mm1, f, kSuccess)"
    using Allocate_spec[OF 0(1), of 5] run 0(3) by auto
  show ?thesis using 1 Allocate_Free_roundtrip[OF 0(1) _ 1] 0(2) by auto
qed

text \<open>Everything its clients can do to the memory manager after \<open>mm0\<close>: allocate, fail to, and give back a block they hold. The
  list has the blocks they hold.\<close>

inductive allocator_run :: "BitmapMemoryManager \<Rightarrow> BitmapMemoryManager \<Rightarrow> (FrameID \<times> nat) list \<Rightarrow> bool" for mm0 where
  run_start: "allocator_run mm0 mm0 []"
| run_alloc: "allocator_run mm0 mm bs \<Longrightarrow> Allocate mm n = Some (mm', s, kSuccess) \<Longrightarrow> allocator_run mm0 mm' ((s, n) # bs)"
| run_fail: "allocator_run mm0 mm bs \<Longrightarrow> Allocate mm n = Some (mm', s, e) \<Longrightarrow> is_error e \<Longrightarrow> allocator_run mm0 mm' bs"
| run_free: "allocator_run mm0 mm (xs @ (s, n) # ys) \<Longrightarrow> Free mm s n = Some (mm', e) \<Longrightarrow> allocator_run mm0 mm' (xs @ ys)"

definition in_frames :: "FrameID \<Rightarrow> FrameID \<times> nat \<Rightarrow> bool" where
  "in_frames f b \<longleftrightarrow> fst b \<le> f \<and> f < fst b + snd b"

definition blocks_ok :: "BitmapMemoryManager \<Rightarrow> BitmapMemoryManager \<Rightarrow> (FrameID \<times> nat) list \<Rightarrow> bool" where
  "blocks_ok mm0 mm bs \<longleftrightarrow> mm_inv mm \<and> range_end mm = range_end mm0 \<and>
     (\<forall>f. used mm f \<longleftrightarrow> used mm0 f \<or> (\<exists>b \<in> set bs. in_frames f b)) \<and>
     (\<forall>b \<in> set bs. \<forall>f. in_frames f b \<longrightarrow> \<not> used mm0 f \<and> f < range_end mm0) \<and>
     sorted_wrt (\<lambda>b c. \<forall>f. \<not> (in_frames f b \<and> in_frames f c)) bs"

lemma allocator_run_blocks:
  assumes "allocator_run mm0 mm bs" and "mm_inv mm0"
  shows "blocks_ok mm0 mm bs"
  using assms(1)
proof induction
  case run_start
  then show ?case using assms(2) by (simp add: blocks_ok_def)
next
  case (run_alloc mm bs n mm' s)
  have inv: "mm_inv mm" using run_alloc.IH by (simp add: blocks_ok_def)
  note A = Allocate_success[OF inv run_alloc.hyps(2)]
  have b: "in_frames f (s, n) \<Longrightarrow> \<not> used mm f \<and> f < range_end mm" for f
    using A(2)[of f] A(3) by (auto simp: in_frames_def)
  show ?case using run_alloc.IH A(1,5) b unfolding blocks_ok_def by (auto simp: in_frames_def)
next
  case (run_fail mm bs n mm' s e)
  have "mm' = mm" using frames.alloc_error[OF _ run_fail.hyps(2,3)] run_fail.IH by (simp add: blocks_ok_def)
  then show ?case using run_fail.IH by simp
next
  case (run_free mm xs s n ys mm' e)
  note I = run_free.IH[unfolded blocks_ok_def]
  show ?case
  proof (cases "n = 0")
    case True
    then have "mm' = mm" using run_free.hyps(2) by (simp add: Free_def)
    moreover have "\<not> in_frames f (s, n)" for f using True by (simp add: in_frames_def)
    ultimately show ?thesis using I by (auto simp: blocks_ok_def sorted_wrt_append)
  next
    case False
    have "in_frames (s + n - 1) (s, n)" using False by (simp add: in_frames_def)
    then have "s + n - 1 < range_end mm0" using I by auto
    then have "s + n \<le> kFrameCount" using I False by linarith
    from Free_used[OF this] obtain m where m: "Free mm s n = Some (m, kSuccess)" "range_end m = range_end mm"
      "\<forall>g. used m g \<longleftrightarrow> used mm g \<and> \<not> (s \<le> g \<and> g < s + n)" by blast
    have "mm' = m" using run_free.hyps(2) m(1) by simp
    then have u: "range_end mm' = range_end mm" "used mm' g \<longleftrightarrow> used mm g \<and> \<not> in_frames g (s, n)" for g
      using m(2,3) by (simp_all add: in_frames_def)
    have dis: "\<forall>b \<in> set xs \<union> set ys. \<forall>f. \<not> (in_frames f b \<and> in_frames f (s, n))"
      using I by (auto simp: sorted_wrt_append)
    have "used mm' f \<longleftrightarrow> used mm0 f \<or> (\<exists>b \<in> set (xs @ ys). in_frames f b)" for f
      using I dis u(2)[of f] by auto
    then show ?thesis using I u(1) by (auto simp: blocks_ok_def sorted_wrt_append)
  qed
qed

text \<open>C2: The memory manager that the kernel boots with, on a map of page-aligned descriptors within the range of the bitmap, never
  gives away memory that is not its own. Whatever its clients allocate and give back after \<open>InitializeMemoryManager\<close>, every frame of every block they hold lies in a descriptor of the UEFI map that is
  available and in none that is not, whatever the order of the descriptors, lies outside of the kernel heap, and in no other
  block that is held.\<close>

theorem boot_allocation_safe:
  assumes boot: "InitializeMemoryManager ds = Some (mm0, heap, err)" and al: "\<forall>d \<in> set ds. page_aligned d"
    and inv: "range_end mm0 \<le> kFrameCount" and run: "allocator_run mm0 mm bs"
  shows "(\<forall>(s, n) \<in> set bs. \<forall>f. s \<le> f \<and> f < s + n \<longrightarrow>
      (\<exists>d \<in> set ds. IsAvailable (desc_type d) \<and> desc_frame d f) \<and>
      (\<forall>d \<in> set ds. \<not> IsAvailable (desc_type d) \<longrightarrow> \<not> desc_frame d f) \<and>
      (\<forall>h. heap = Some h \<longrightarrow> (f + 1) * kBytesPerFrame \<le> program_break h \<or> program_break_end h \<le> f * kBytesPerFrame)) \<and>
    (\<forall>i < length bs. \<forall>j < i. \<forall>f. \<not> (fst (bs ! i) \<le> f \<and> f < fst (bs ! i) + snd (bs ! i) \<and>
       fst (bs ! j) \<le> f \<and> f < fst (bs ! j) + snd (bs ! j)))"
proof -
  have ok: "blocks_ok mm0 mm bs" by (rule allocator_run_blocks[OF run inv])
  obtain m e where me: "boot_inv (set ds) m e" "range_end mm0 = e div 4096" "\<And>f. used m f \<Longrightarrow> used mm0 f"
    by (rule InitializeMemoryManager_used[OF boot al]) blast
  have "(\<exists>d \<in> set ds. IsAvailable (desc_type d) \<and> desc_frame d f) \<and>
      (\<forall>d \<in> set ds. \<not> IsAvailable (desc_type d) \<longrightarrow> \<not> desc_frame d f) \<and>
      (\<forall>h. heap = Some h \<longrightarrow> (f + 1) * kBytesPerFrame \<le> program_break h \<or> program_break_end h \<le> f * kBytesPerFrame)"
    if b: "(s, n) \<in> set bs" and f: "s \<le> f" "f < s + n" for s n f
  proof -
    have fr: "\<not> used mm0 f" "f < range_end mm0" using ok b f by (auto simp: blocks_ok_def in_frames_def)
    have "\<not> used m f" "f < e div 4096" using fr me(2,3) by auto
    moreover have "(f + 1) * kBytesPerFrame \<le> program_break h \<or> program_break_end h \<le> f * kBytesPerFrame" if "heap = Some h" for h
      using boot_heap_used[OF boot[unfolded that] inv] fr(1) by (metis Suc_eq_plus1 Suc_leI mult_le_mono1 not_le)
    ultimately show ?thesis using me(1) unfolding boot_inv_def by blast
  qed
  moreover have "\<not> (in_frames f (bs ! i) \<and> in_frames f (bs ! j))" if "i < length bs" "j < i" for i j f
    using ok that by (auto simp: blocks_ok_def sorted_wrt_iff_nth_less)
  ultimately show ?thesis unfolding in_frames_def by blast
qed

text \<open>A map with one conventional region of 40000 pages and a reserved one above it.\<close>

definition sample_map :: "MemoryDescriptor list" where
  "sample_map =
    [\<lparr>desc_type = kEfiConventionalMemory, physical_start = 0, virtual_start = 0,
      number_of_pages = 40000, attribute = 0\<rparr>,
     \<lparr>desc_type = kEfiReservedMemoryType, physical_start = 163840000, virtual_start = 0,
      number_of_pages = 1, attribute = 0\<rparr>]"

theorem boot_allocation_safe_witness:
  "\<exists>mm h mm' s. InitializeMemoryManager sample_map = Some (mm, Some h, kSuccess) \<and> Allocate mm 1 = Some (mm', s, kSuccess) \<and>
     (\<exists>d \<in> set sample_map. IsAvailable (desc_type d) \<and> desc_frame d s) \<and>
     ((s + 1) * kBytesPerFrame \<le> program_break h \<or> program_break_end h \<le> s * kBytesPerFrame)"
proof -
  obtain m where m: "MarkAllocated new_BitmapMemoryManager 40000 1 = Some m"
    using set_bits_total[of 40000 1] by (auto simp: MarkAllocated_def mm_consts)
  note um = MarkAllocated_used[OF m]
  have il: "init_loop sample_map new_BitmapMemoryManager 0 = Some (m, 163840000)"
    using m by (simp add: sample_map_def IsAvailable.simps mm_consts)
  define M where "M = SetMemoryRange m 1 40000"
  have inv: "mm_inv M" by (simp add: M_def SetMemoryRange_def mm_consts)
  have n: "\<not> used new_BitmapMemoryManager f" for f
    by (simp add: new_BitmapMemoryManager_def used_def)
  have u: "\<And>f. used M f \<longleftrightarrow> f = 40000" "range_begin M = 1" "range_end M = 40000"
    unfolding M_def SetMemoryRange_def used_range by (auto simp: um(1) n)
  have "free_run M 1 kHeapFrames" by (auto simp: free_run_def u kHeapFrames_def)
  moreover obtain s mm where s: "Allocate M kHeapFrames = Some (mm, s, kSuccess)" "1 \<le> s"
      "\<forall>t. 1 \<le> t \<and> t < s \<longrightarrow> \<not> free_run M t kHeapFrames"
    using Allocate_spec[OF inv, of kHeapFrames] calculation u(2) by (auto simp: kHeapFrames_def)
  ultimately have mm: "Allocate M kHeapFrames = Some (mm, s, kSuccess)" "s = 1"
    using spec[OF s(3), of 1] by auto
  note umm = Allocate_success[OF inv mm(1)]
  obtain h where heap: "InitializeMemoryManager sample_map = Some (mm, Some h, kSuccess)"
    using mm(1) by (simp add: InitializeMemoryManager_def il InitializeHeap_def mm_consts M_def)
  have inv': "mm_inv mm" using umm(5) inv by simp
  have "free_run mm 35000 1" by (auto simp: free_run_def umm(1,5) u mm(2) kHeapFrames_def)
  then obtain mm' s' where s': "Allocate mm 1 = Some (mm', s', kSuccess)"
    using Allocate_spec[OF inv', of 1] umm(4) u(2) by auto
  have al: "\<forall>d \<in> set sample_map. page_aligned d"
    by (simp add: sample_map_def page_aligned_def)
  have "allocator_run mm mm' [(s', 1)]" by (rule run_alloc[OF run_start s'])
  from boot_allocation_safe[OF heap al inv' this] show ?thesis
    using heap s' by (intro exI[of _ mm] exI[of _ h] exI[of _ mm'] exI[of _ s']) auto
qed

text \<open>\<open>Stat\<close> counts the used frames of the whole map lines of the range: from the start of the line
  of \<open>range_begin_\<close> up to, and without, the line of \<open>range_end_\<close>.\<close>

theorem Stat_counts_lines:
  assumes "range_begin mm \<le> range_end mm"
  shows "allocated_frames (Stat mm) =
    card {f. range_begin mm div 64 \<le> f div 64 \<and> f div 64 < range_end mm div 64 \<and> used mm f}"
  using sum_lines[OF div_le_mono[OF assms, of 64]] by (simp add: Stat_def kBitsPerMapLine_def)

theorem Stat_counts_lines_witness:
  "range_begin new_BitmapMemoryManager \<le> range_end new_BitmapMemoryManager \<and>
   allocated_frames (Stat new_BitmapMemoryManager) = 0"
  using Stat_counts_lines[of new_BitmapMemoryManager]
  by (simp add: new_BitmapMemoryManager_def used_def)

end
