(* ===== verification/Message.thy ===== *)
theory Message
  imports Prelude
begin

text \<open>
  Messages between tasks (\<^verbatim>\<open>kernel/message.hpp\<close>). The tagged union is a datatype with one constructor
  per tag. The locale \<open>messenger\<close> is what senders of messages (timers, mouse, keyboard, pipes) rely
  on: every task has a first-in first-out mailbox and a send touches only the mailbox of its target.
\<close>

datatype LayerOperation = LMove | LMoveRelative | LDraw | LDrawArea

datatype Message_Arg =
    kInterruptXHCI
  | kTimerTimeout (timer_timeout: nat) (timer_value: int)
  | kKeyPush (key_modifier: u8) (key_keycode: u8) (key_unicode: u32) (key_press: bool)
  | kLayer (layer_op: LayerOperation) (msg_layer_id: nat) (layer_x: int) (layer_y: int) (layer_w: int) (layer_h: int)
  | kLayerFinish
  | kMouseMove (mouse_x: int) (mouse_y: int) (mouse_dx: int) (mouse_dy: int) (mouse_buttons: u8)
  | kMouseButton (button_x: int) (button_y: int) (button_press: int) (button_no: int)
  | kWindowActive (win_activate: int)
  | kPipe (pipe_data: "u8 list") (pipe_len: u8)
  | kWindowClose (close_layer_id: nat)

record Message =
  src_task :: nat
  arg :: Message_Arg

text \<open>\<open>Message msg{type}\<close> leaves \<open>src_task\<close> zero.\<close>

definition mk_Message :: "Message_Arg \<Rightarrow> Message" where
  "mk_Message a = \<lparr>src_task = 0, arg = a\<rparr>"

text \<open>A sender that posts several messages, one call after the other, and ignores the results.\<close>

fun send_all :: "('s \<Rightarrow> nat \<Rightarrow> Message \<Rightarrow> ('s \<times> Error_Code) option) \<Rightarrow> 's \<Rightarrow> (nat \<times> Message) list \<Rightarrow> 's option" where
  "send_all send s [] = Some s"
| "send_all send s ((t, m) # ms) =
     (case send s t m of None \<Rightarrow> None | Some (s', _) \<Rightarrow> send_all send s' ms)"

definition sent_to :: "nat \<Rightarrow> (nat \<times> Message) list \<Rightarrow> Message list" where
  "sent_to t ms = map snd (filter (\<lambda>(u, _). u = t) ms)"

lemma sent_to_simps [simp]:
  "sent_to t [] = []"
  "sent_to t ((u, m) # ms) = (if u = t then m # sent_to t ms else sent_to t ms)"
  "sent_to t (xs @ ys) = sent_to t xs @ sent_to t ys"
  by (simp_all add: sent_to_def)

locale messenger =
  fixes inv :: "'s \<Rightarrow> bool"
    and mailbox :: "'s \<Rightarrow> nat \<Rightarrow> Message list option"
    and send :: "'s \<Rightarrow> nat \<Rightarrow> Message \<Rightarrow> ('s \<times> Error_Code) option"
  assumes send_known: "inv s \<Longrightarrow> mailbox s t = Some ms \<Longrightarrow>
      \<exists>s'. send s t m = Some (s', kSuccess) \<and> inv s' \<and> mailbox s' = (mailbox s)(t \<mapsto> ms @ [m])"
    and send_unknown: "inv s \<Longrightarrow> mailbox s t = None \<Longrightarrow> send s t m = Some (s, kNoSuchTask)"
begin

lemma send_any:
  assumes "inv s"
  shows "\<exists>s' e. send s t m = Some (s', e) \<and> inv s' \<and>
    (\<forall>u. mailbox s' u = map_option (\<lambda>b. if u = t then b @ [m] else b) (mailbox s u))"
proof (cases "mailbox s t")
  case None
  have "mailbox s u = map_option (\<lambda>b. if u = t then b @ [m] else b) (mailbox s u)" for u
    using None by (cases "u = t"; cases "mailbox s u") auto
  then show ?thesis using send_unknown[OF assms None] assms by blast
next
  case (Some b)
  obtain s' where s': "send s t m = Some (s', kSuccess)" "inv s'" "mailbox s' = (mailbox s)(t \<mapsto> b @ [m])"
    using send_known[OF assms Some] by blast
  have "mailbox s' u = map_option (\<lambda>b. if u = t then b @ [m] else b) (mailbox s u)" for u
    using Some by (cases "u = t"; cases "mailbox s u") (auto simp: s'(3))
  with s' show ?thesis by blast
qed

text \<open>Posting a list of messages never fails and appends to every mailbox what was sent to it.\<close>

lemma send_all_mailboxes:
  assumes "inv s"
  shows "\<exists>s'. send_all send s ms = Some s' \<and> inv s' \<and>
    (\<forall>u. mailbox s' u = map_option (\<lambda>b. b @ sent_to u ms) (mailbox s u))"
  using assms
proof (induction ms arbitrary: s)
  case Nil
  then show ?case by (simp add: option.map_ident)
next
  case (Cons x ms)
  obtain t m where x: "x = (t, m)" by force
  obtain s1 e where 1: "send s t m = Some (s1, e)" "inv s1"
    "\<forall>u. mailbox s1 u = map_option (\<lambda>b. if u = t then b @ [m] else b) (mailbox s u)"
    using send_any[OF Cons.prems] by blast
  obtain s2 where 2: "send_all send s1 ms = Some s2" "inv s2"
    "\<forall>u. mailbox s2 u = map_option (\<lambda>b. b @ sent_to u ms) (mailbox s1 u)"
    using Cons.IH[OF 1(2)] by blast
  have "mailbox s2 u = map_option (\<lambda>b. b @ sent_to u (x # ms)) (mailbox s u)" for u
    using 1(3) 2(3) by (cases "mailbox s u") (auto simp: x)
  with 1 2 show ?case by (auto simp: x)
qed

end

end
