(* ===== verification/Task.thy ===== *)
theory Task
  imports Message
begin

text \<open>
  Tasks and the scheduler: \<^verbatim>\<open>kernel/task.cpp\<close> and \<^verbatim>\<open>kernel/task.hpp\<close>. A \<open>Task*\<close> is the task's id, which
  \<open>NewTask\<close> never gives twice; \<open>tasks_\<close>, only ever searched by id or by pointer, is the map from ids
  to live tasks, so a dangling pointer is an id outside its domain and using it is \<open>None\<close>.
  \<open>cpu\<close> arguments and results are the live register file: \<open>SwitchContext\<close> stores it in one
  task's context and loads another's (\<^verbatim>\<open>kernel/asmfunc.asm\<close>).
  The file descriptors of a task are a type parameter.
\<close>

record TaskContext =
  cr3 :: u64
  rip :: u64
  rflags :: u64
  reserved1 :: u64
  seg_cs :: u64
  seg_ss :: u64
  seg_fs :: u64
  seg_gs :: u64
  rax :: u64
  rbx :: u64
  rcx :: u64
  rdx :: u64
  rdi :: u64
  rsi :: u64
  rsp :: u64
  rbp :: u64
  r8_r15 :: "u64 list"
  fxsave_area :: "u8 list"

definition zero_context :: TaskContext where
  "zero_context = \<lparr>cr3 = 0, rip = 0, rflags = 0, reserved1 = 0, seg_cs = 0, seg_ss = 0, seg_fs = 0, seg_gs = 0,
     rax = 0, rbx = 0, rcx = 0, rdx = 0, rdi = 0, rsi = 0, rsp = 0, rbp = 0,
     r8_r15 = replicate 8 0, fxsave_area = replicate 512 0\<rparr>"

record FileMapping =
  map_fd :: int
  vaddr_begin :: nat
  vaddr_end :: nat

record 'f Task =
  task_id :: nat
  task_context :: TaskContext
  os_stack_ptr :: u64
  msgs :: "Message list"
  task_level :: nat
  task_running :: bool
  task_files :: "'f option list"
  dpaging_begin :: nat
  dpaging_end :: nat
  file_map_end :: nat
  file_maps :: "FileMapping list"

definition kDefaultLevel :: nat where
  "kDefaultLevel = 1"

definition new_Task :: "nat \<Rightarrow> 'f Task" where
  "new_Task i = \<lparr>task_id = i, task_context = zero_context, os_stack_ptr = 0, msgs = [],
     task_level = kDefaultLevel, task_running = False, task_files = [],
     dpaging_begin = 0, dpaging_end = 0, file_map_end = 0, file_maps = []\<rparr>"

text \<open>
  \<open>InitContext\<close>: the entry point \<open>f\<close> and \<open>data\<close> go to the context; \<open>stack_end\<close> is the address one past
  the task's freshly allocated stack and \<open>cur_cr3\<close> the current page table.
\<close>

definition kKernelCS :: u64 where "kKernelCS = 8"
definition kKernelSS :: u64 where "kKernelSS = 16"

definition InitContext :: "u64 \<Rightarrow> u64 \<Rightarrow> u64 \<Rightarrow> u64 \<Rightarrow> 'f Task \<Rightarrow> 'f Task" where
  "InitContext cur_cr3 stack_end f data t =
     t\<lparr>task_context := zero_context\<lparr>cr3 := cur_cr3, rflags := 0x202, seg_cs := kKernelCS, seg_ss := kKernelSS,
         rsp := (stack_end AND NOT 0xf) - 8, rip := f, rdi := of_nat (task_id t), rsi := data,
         fxsave_area := (replicate 512 0)[24 := 0x80, 25 := 0x1f]\<rparr>\<rparr>"

definition ReceiveMessage_task :: "'f Task \<Rightarrow> 'f Task \<times> Message option" where
  "ReceiveMessage_task t = (case msgs t of [] \<Rightarrow> (t, None) | m # ms \<Rightarrow> (t\<lparr>msgs := ms\<rparr>, Some m))"

subsection \<open>The task manager\<close>

definition kMaxLevel :: nat where
  "kMaxLevel = 3"

record 'f TaskManager =
  tasks :: "nat \<Rightarrow> 'f Task option"
  latest_id :: nat
  run_queue :: "nat \<Rightarrow> nat list"
  current_level :: nat
  level_changed :: bool
  finish_tasks :: "nat \<Rightarrow> int option"
  finish_waiter :: "nat \<Rightarrow> nat option"

text \<open>Updating one task in place, and one run queue in place.\<close>

definition upd_task :: "nat \<Rightarrow> ('f Task \<Rightarrow> 'f Task) \<Rightarrow> 'f TaskManager \<Rightarrow> 'f TaskManager" where
  "upd_task t g tm = tm\<lparr>tasks := (tasks tm)(t := map_option g (tasks tm t))\<rparr>"

definition upd_queue :: "nat \<Rightarrow> (nat list \<Rightarrow> nat list) \<Rightarrow> 'f TaskManager \<Rightarrow> 'f TaskManager" where
  "upd_queue lv g tm = tm\<lparr>run_queue := (run_queue tm)(lv := g (run_queue tm lv))\<rparr>"

definition NewTask :: "'f TaskManager \<Rightarrow> 'f TaskManager \<times> nat" where
  "NewTask tm = (let i = latest_id tm + 1
     in (tm\<lparr>latest_id := i, tasks := (tasks tm)(i \<mapsto> new_Task i)\<rparr>, i))"

definition empty_TaskManager :: "'f TaskManager" where
  "empty_TaskManager = \<lparr>tasks = (\<lambda>_. None), latest_id = 0, run_queue = (\<lambda>_. []),
     current_level = kMaxLevel, level_changed = False,
     finish_tasks = (\<lambda>_. None), finish_waiter = (\<lambda>_. None)\<rparr>"

text \<open>The constructor: the main task at the highest level, the idle task at level 0.\<close>

definition new_TaskManager :: "u64 \<Rightarrow> u64 \<Rightarrow> u64 \<Rightarrow> 'f TaskManager" where
  "new_TaskManager cur_cr3 idle_stack_end TaskIdle =
     (let (tm1, t) = NewTask empty_TaskManager;
          tm2 = upd_queue (current_level tm1) (\<lambda>q. q @ [t])
                  (upd_task t (\<lambda>k. k\<lparr>task_level := current_level tm1, task_running := True\<rparr>) tm1);
          (tm3, idle) = NewTask tm2
      in upd_queue 0 (\<lambda>q. q @ [idle])
           (upd_task idle (\<lambda>k. (InitContext cur_cr3 idle_stack_end TaskIdle 0 k)
                              \<lparr>task_level := 0, task_running := True\<rparr>) tm3))"

text \<open>\<open>CurrentTask\<close> is the front of the current level's queue; \<open>front()\<close> of an empty deque is undefined.\<close>

definition CurrentTask :: "'f TaskManager \<Rightarrow> nat option" where
  "CurrentTask tm = (case run_queue tm (current_level tm) of [] \<Rightarrow> None | t # _ \<Rightarrow> Some t)"

text \<open>The search for the highest level with a queued task, from \<open>lv\<close> down.\<close>

fun pick_level :: "(nat \<Rightarrow> nat list) \<Rightarrow> nat \<Rightarrow> nat \<Rightarrow> nat" where
  "pick_level q cur 0 = (if q 0 \<noteq> [] then 0 else cur)"
| "pick_level q cur (Suc lv) = (if q (Suc lv) \<noteq> [] then Suc lv else pick_level q cur lv)"

definition RotateCurrentRunQueue :: "'f TaskManager \<Rightarrow> bool \<Rightarrow> ('f TaskManager \<times> nat) option" where
  "RotateCurrentRunQueue tm current_sleep =
     (case run_queue tm (current_level tm) of
        [] \<Rightarrow> None
      | current_task # rest \<Rightarrow>
          (let q = (if current_sleep then rest else rest @ [current_task]);
               tm1 = upd_queue (current_level tm) (\<lambda>_. q) tm
           in if level_changed tm \<or> q = []
              then Some (tm1\<lparr>level_changed := False,
                             current_level := pick_level (run_queue tm1) (current_level tm1) kMaxLevel\<rparr>,
                         current_task)
              else Some (tm1, current_task)))"

definition RestoreContext :: "'f TaskManager \<Rightarrow> nat \<Rightarrow> TaskContext option" where
  "RestoreContext tm t = map_option task_context (tasks tm t)"

text \<open>\<open>SwitchContext(next, current)\<close>: the live registers go to the context of \<open>current\<close>.\<close>

definition SwitchContext ::
  "'f TaskManager \<Rightarrow> nat \<Rightarrow> nat \<Rightarrow> TaskContext \<Rightarrow> ('f TaskManager \<times> TaskContext) option" where
  "SwitchContext tm nxt cur cpu =
     (case tasks tm cur of
        None \<Rightarrow> None
      | Some _ \<Rightarrow>
          (let tm' = upd_task cur (\<lambda>k. k\<lparr>task_context := cpu\<rparr>) tm
           in case RestoreContext tm' nxt of None \<Rightarrow> None | Some c \<Rightarrow> Some (tm', c)))"

text \<open>
  \<open>SwitchTask\<close> runs in the timer interrupt with the interrupted registers; when it does not switch, the
  interrupt returns to them.
\<close>

definition SwitchTask :: "'f TaskManager \<Rightarrow> TaskContext \<Rightarrow> ('f TaskManager \<times> TaskContext) option" where
  "SwitchTask tm current_ctx = do {
     cur \<leftarrow> CurrentTask tm;
     _ \<leftarrow> tasks tm cur;
     let tm1 = upd_task cur (\<lambda>k. k\<lparr>task_context := current_ctx\<rparr>) tm;
     (tm2, current_task) \<leftarrow> RotateCurrentRunQueue tm1 False;
     nxt \<leftarrow> CurrentTask tm2;
     if nxt \<noteq> current_task
       then do { c \<leftarrow> RestoreContext tm2 nxt; Some (tm2, c) }
       else Some (tm2, current_ctx) }"

definition Sleep :: "'f TaskManager \<Rightarrow> TaskContext \<Rightarrow> nat \<Rightarrow> ('f TaskManager \<times> TaskContext) option" where
  "Sleep tm cpu t = do {
     task \<leftarrow> tasks tm t;
     if \<not> task_running task then Some (tm, cpu)
     else do {
       let tm1 = upd_task t (\<lambda>k. k\<lparr>task_running := False\<rparr>) tm;
       front \<leftarrow> CurrentTask tm1;
       if t = front
         then do {
           (tm2, current_task) \<leftarrow> RotateCurrentRunQueue tm1 True;
           nxt \<leftarrow> CurrentTask tm2;
           SwitchContext tm2 nxt current_task cpu }
         else Some (upd_queue (task_level task) (removeAll t) tm1, cpu) } }"

text \<open>\<open>Sleep\<close> by id; \<open>Wakeup\<close> and \<open>ChangeLevelRunning\<close> take \<open>level = -1\<close> for "as it was". A level above
  \<open>kMaxLevel\<close> indexes past the array of queues.\<close>

definition Sleep_id ::
  "'f TaskManager \<Rightarrow> TaskContext \<Rightarrow> nat \<Rightarrow> ('f TaskManager \<times> TaskContext \<times> Error_Code) option" where
  "Sleep_id tm cpu i =
     (case tasks tm i of
        None \<Rightarrow> Some (tm, cpu, kNoSuchTask)
      | Some _ \<Rightarrow> do { (tm', cpu') \<leftarrow> Sleep tm cpu i; Some (tm', cpu', kSuccess) })"

definition ChangeLevelRunning :: "'f TaskManager \<Rightarrow> nat \<Rightarrow> int \<Rightarrow> 'f TaskManager option" where
  "ChangeLevelRunning tm t lv = do {
     task \<leftarrow> tasks tm t;
     if lv < 0 \<or> lv = int (task_level task) then Some tm
     else if int kMaxLevel < lv then None
     else do {
       front \<leftarrow> CurrentTask tm;
       let level = nat lv;
       let set_level = upd_task t (\<lambda>k. k\<lparr>task_level := level\<rparr>);
       if t \<noteq> front
         then do {
           let tm1 = upd_queue level (\<lambda>q. q @ [t]) (upd_queue (task_level task) (removeAll t) tm);
           let tm2 = set_level tm1;
           Some (if current_level tm2 < level then tm2\<lparr>level_changed := True\<rparr> else tm2) }
         else do {
           let tm1 = upd_queue level (\<lambda>q. t # q) (upd_queue (current_level tm) tl tm);
           let tm2 = set_level tm1;
           Some (if current_level tm2 \<le> level then tm2\<lparr>current_level := level\<rparr>
                 else tm2\<lparr>current_level := level, level_changed := True\<rparr>) } } }"

definition Wakeup :: "'f TaskManager \<Rightarrow> nat \<Rightarrow> int \<Rightarrow> 'f TaskManager option" where
  "Wakeup tm t lv = do {
     task \<leftarrow> tasks tm t;
     if task_running task then ChangeLevelRunning tm t lv
     else do {
       let level = (if lv < 0 then task_level task else nat lv);
       if kMaxLevel < level then None
       else do {
         let tm1 = upd_queue level (\<lambda>q. q @ [t])
                     (upd_task t (\<lambda>k. k\<lparr>task_level := level, task_running := True\<rparr>) tm);
         Some (if current_level tm1 < level then tm1\<lparr>level_changed := True\<rparr> else tm1) } } }"

definition Wakeup_id :: "'f TaskManager \<Rightarrow> nat \<Rightarrow> int \<Rightarrow> ('f TaskManager \<times> Error_Code) option" where
  "Wakeup_id tm i lv =
     (case tasks tm i of
        None \<Rightarrow> Some (tm, kNoSuchTask)
      | Some _ \<Rightarrow> do { tm' \<leftarrow> Wakeup tm i lv; Some (tm', kSuccess) })"

definition SendMessage :: "'f TaskManager \<Rightarrow> nat \<Rightarrow> Message \<Rightarrow> ('f TaskManager \<times> Error_Code) option" where
  "SendMessage tm i m =
     (case tasks tm i of
        None \<Rightarrow> Some (tm, kNoSuchTask)
      | Some _ \<Rightarrow> do {
          tm' \<leftarrow> Wakeup (upd_task i (\<lambda>k. k\<lparr>msgs := msgs k @ [m]\<rparr>) tm) i (-1);
          Some (tm', kSuccess) })"

definition ReceiveMessage :: "'f TaskManager \<Rightarrow> nat \<Rightarrow> ('f TaskManager \<times> Message option) option" where
  "ReceiveMessage tm t =
     (case tasks tm t of
        None \<Rightarrow> None
      | Some k \<Rightarrow> (let (k', m) = ReceiveMessage_task k in Some (upd_task t (\<lambda>_. k') tm, m)))"

definition Finish :: "'f TaskManager \<Rightarrow> int \<Rightarrow> ('f TaskManager \<times> TaskContext) option" where
  "Finish tm exit_code = do {
     (tm1, current_task) \<leftarrow> RotateCurrentRunQueue tm True;
     k \<leftarrow> tasks tm1 current_task;
     let i = task_id k;
     let tm2 = tm1\<lparr>tasks := (tasks tm1)(current_task := None),
                   finish_tasks := (finish_tasks tm1)(i \<mapsto> exit_code)\<rparr>;
     tm3 \<leftarrow> (case finish_waiter tm2 i of
               None \<Rightarrow> Some tm2
             | Some w \<Rightarrow> Wakeup (tm2\<lparr>finish_waiter := (finish_waiter tm2)(i := None)\<rparr>) w (-1));
     nxt \<leftarrow> CurrentTask tm3;
     c \<leftarrow> RestoreContext tm3 nxt;
     Some (tm3, c) }"

text \<open>
  One turn of the loop of \<open>WaitFinish\<close>: \<open>Some code\<close> is the return, \<open>None\<close> means that the caller
  registered itself, went to sleep and will look again when it runs next.
\<close>

definition WaitFinish_step ::
  "'f TaskManager \<Rightarrow> TaskContext \<Rightarrow> nat \<Rightarrow> nat \<Rightarrow> ('f TaskManager \<times> TaskContext \<times> int option) option" where
  "WaitFinish_step tm cpu current_task i =
     (case finish_tasks tm i of
        Some exit_code \<Rightarrow> Some (tm\<lparr>finish_tasks := (finish_tasks tm)(i := None)\<rparr>, cpu, Some exit_code)
      | None \<Rightarrow> do {
          (tm', cpu') \<leftarrow> Sleep (tm\<lparr>finish_waiter := (finish_waiter tm)(i \<mapsto> current_task)\<rparr>) cpu current_task;
          Some (tm', cpu', None) })"


subsection \<open>The scheduler's invariant\<close>

text \<open>
  \<open>queues_ok\<close>: the queues hold exactly the running tasks, each once and at its own level; ids are
  those given so far; the idle task (id 2) is queued at level 0; the waiter registered for a task is live.
  \<open>level_ok\<close>: there is a current task, and unless \<open>level_changed_\<close> is set no higher level is queued.
\<close>

definition queues_ok :: "'f TaskManager \<Rightarrow> bool" where
  "queues_ok tm \<longleftrightarrow>
     (\<forall>lv t. t \<in> set (run_queue tm lv) \<longrightarrow> lv \<le> kMaxLevel \<and>
        (\<exists>k. tasks tm t = Some k \<and> task_level k = lv \<and> task_running k)) \<and>
     (\<forall>t k. tasks tm t = Some k \<longrightarrow> task_id k = t \<and> t \<le> latest_id tm \<and> task_level k \<le> kMaxLevel \<and>
        (task_running k \<longrightarrow> t \<in> set (run_queue tm (task_level k)))) \<and>
     (\<forall>lv. distinct (run_queue tm lv)) \<and>
     2 \<in> set (run_queue tm 0) \<and>
     (\<forall>i w. finish_waiter tm i = Some w \<longrightarrow> tasks tm w \<noteq> None)"

definition top_level :: "'f TaskManager \<Rightarrow> bool" where
  "top_level tm \<longleftrightarrow> (\<forall>lv > current_level tm. run_queue tm lv = [])"

definition level_ok :: "'f TaskManager \<Rightarrow> bool" where
  "level_ok tm \<longleftrightarrow> current_level tm \<le> kMaxLevel \<and> run_queue tm (current_level tm) \<noteq> [] \<and>
     (\<not> level_changed tm \<longrightarrow> top_level tm)"

definition sched_inv :: "'f TaskManager \<Rightarrow> bool" where
  "sched_inv tm \<longleftrightarrow> queues_ok tm \<and> level_ok tm"

lemma upd_task_simps [simp]:
  "tasks (upd_task t g tm) = (tasks tm)(t := map_option g (tasks tm t))"
  "run_queue (upd_task t g tm) = run_queue tm"
  "current_level (upd_task t g tm) = current_level tm"
  "level_changed (upd_task t g tm) = level_changed tm"
  "latest_id (upd_task t g tm) = latest_id tm"
  "finish_tasks (upd_task t g tm) = finish_tasks tm"
  "finish_waiter (upd_task t g tm) = finish_waiter tm"
  by (simp_all add: upd_task_def)

lemma upd_queue_simps [simp]:
  "tasks (upd_queue lv g tm) = tasks tm"
  "run_queue (upd_queue lv g tm) = (run_queue tm)(lv := g (run_queue tm lv))"
  "current_level (upd_queue lv g tm) = current_level tm"
  "level_changed (upd_queue lv g tm) = level_changed tm"
  "latest_id (upd_queue lv g tm) = latest_id tm"
  "finish_tasks (upd_queue lv g tm) = finish_tasks tm"
  "finish_waiter (upd_queue lv g tm) = finish_waiter tm"
  by (simp_all add: upd_queue_def)

lemma CurrentTask_iff: "CurrentTask tm = Some t \<longleftrightarrow> (\<exists>q. run_queue tm (current_level tm) = t # q)"
  by (auto simp: CurrentTask_def split: list.splits)

lemma level_ok_current: "level_ok tm \<Longrightarrow> \<exists>t q. CurrentTask tm = Some t \<and> run_queue tm (current_level tm) = t # q"
  by (auto simp: level_ok_def CurrentTask_def neq_Nil_conv)

lemma queues_ok_tasks:
  assumes "queues_ok tm"
  shows "t \<in> set (run_queue tm lv) \<Longrightarrow> lv \<le> kMaxLevel \<and> (\<exists>k. tasks tm t = Some k \<and> task_level k = lv \<and> task_running k)"
    and "tasks tm t = Some k \<Longrightarrow> task_id k = t \<and> t \<le> latest_id tm \<and> task_level k \<le> kMaxLevel"
    and "tasks tm t = Some k \<Longrightarrow> task_running k \<Longrightarrow> t \<in> set (run_queue tm (task_level k))"
    and "distinct (run_queue tm lv)" and "2 \<in> set (run_queue tm 0)"
    and "finish_waiter tm i = Some w \<Longrightarrow> tasks tm w \<noteq> None"
  using assms by (auto simp: queues_ok_def)

text \<open>A task is queued at one level only.\<close>

lemma queued_once:
  "queues_ok tm \<Longrightarrow> t \<in> set (run_queue tm a) \<Longrightarrow> t \<in> set (run_queue tm b) \<Longrightarrow> a = b"
  using queues_ok_tasks(1) by (metis option.inject)

lemma pick_level_top:
  "\<exists>lv \<le> n. q lv \<noteq> [] \<Longrightarrow> pick_level q cur n \<le> n \<and> q (pick_level q cur n) \<noteq> [] \<and>
     (\<forall>lv. pick_level q cur n < lv \<and> lv \<le> n \<longrightarrow> q lv = [])"
proof (induction n)
  case (Suc n)
  then show ?case by (auto simp: le_Suc_eq)
qed auto

lemma Rotate_Ex:
  "run_queue tm (current_level tm) = t # rest \<Longrightarrow> \<exists>tm'. RotateCurrentRunQueue tm b = Some (tm', t)"
  by (simp add: RotateCurrentRunQueue_def Let_def)

lemma Rotate_Some:
  assumes "RotateCurrentRunQueue tm b = Some (tm', t)"
  shows "run_queue tm (current_level tm) = t # tl (run_queue tm (current_level tm))"
    and "tasks tm' = tasks tm" and "latest_id tm' = latest_id tm"
    and "finish_tasks tm' = finish_tasks tm" and "finish_waiter tm' = finish_waiter tm"
    and "run_queue tm' = (run_queue tm)(current_level tm :=
           tl (run_queue tm (current_level tm)) @ (if b then [] else [t]))"
  using assms by (auto simp: RotateCurrentRunQueue_def Let_def split: list.splits if_splits)

text \<open>After a rotation the current level is the highest one with a task, provided any is queued.\<close>

lemma Rotate_level:
  assumes "RotateCurrentRunQueue tm b = Some (tm', t)" and "level_ok tm"
    and "\<exists>lv \<le> kMaxLevel. run_queue tm' lv \<noteq> []" and "\<forall>lv > kMaxLevel. run_queue tm lv = []"
  shows "level_ok tm' \<and> \<not> level_changed tm' \<and> top_level tm'"
proof (cases "level_changed tm \<or> tl (run_queue tm (current_level tm)) @ (if b then [] else [t]) = []")
  case True
  then have tm': "current_level tm' = pick_level (run_queue tm') (current_level tm) kMaxLevel"
      "level_changed tm' = False"
    using assms(1) by (auto simp: RotateCurrentRunQueue_def Let_def split: list.splits if_splits)
  have hi: "\<forall>lv > kMaxLevel. run_queue tm' lv = []"
    using assms(2,4) by (auto simp: Rotate_Some(6)[OF assms(1)] level_ok_def)
  from pick_level_top[OF assms(3), of "current_level tm"] show ?thesis
    unfolding level_ok_def top_level_def tm' using hi by (meson not_le)
next
  case False
  then have "current_level tm' = current_level tm" "level_changed tm' = False" "\<not> level_changed tm"
    using assms(1) by (auto simp: RotateCurrentRunQueue_def Let_def split: list.splits if_splits)
  then show ?thesis using False assms(2)
    by (auto simp: level_ok_def top_level_def Rotate_Some(6)[OF assms(1)])
qed

lemma queues_okI:
  assumes "\<And>lv t. t \<in> set (run_queue tm lv) \<Longrightarrow> lv \<le> kMaxLevel \<and>
             (\<exists>k. tasks tm t = Some k \<and> task_level k = lv \<and> task_running k)"
    and "\<And>t k. tasks tm t = Some k \<Longrightarrow> task_id k = t \<and> t \<le> latest_id tm \<and> task_level k \<le> kMaxLevel"
    and "\<And>t k. tasks tm t = Some k \<Longrightarrow> task_running k \<Longrightarrow> t \<in> set (run_queue tm (task_level k))"
    and "\<And>lv. distinct (run_queue tm lv)" and "2 \<in> set (run_queue tm 0)"
    and "\<And>i w. finish_waiter tm i = Some w \<Longrightarrow> tasks tm w \<noteq> None"
  shows "queues_ok tm"
  unfolding queues_ok_def using assms by blast

lemma queues_ok_high: "queues_ok tm \<Longrightarrow> \<forall>lv > kMaxLevel. run_queue tm lv = []"
  using queues_ok_tasks(1) by (metis last_in_set not_le)

text \<open>Changes to a task that touch neither its id nor its scheduling state.\<close>

lemma queues_ok_frame:
  assumes q: "queues_ok tm"
    and g: "\<And>k. task_id (g k) = task_id k" "\<And>k. task_level (g k) = task_level k"
      "\<And>k. task_running (g k) = task_running k"
  shows "queues_ok (upd_task t g tm)"
proof (rule queues_okI)
  fix lv u assume "u \<in> set (run_queue (upd_task t g tm) lv)"
  then show "lv \<le> kMaxLevel \<and> (\<exists>k. tasks (upd_task t g tm) u = Some k \<and> task_level k = lv \<and> task_running k)"
    using queues_ok_tasks(1)[OF q, of u lv] by (auto simp: g)
next
  fix u k assume *: "tasks (upd_task t g tm) u = Some k"
  then obtain k' where k': "tasks tm u = Some k'" "task_id k = task_id k'"
      "task_level k = task_level k'" "task_running k = task_running k'"
    by (auto simp: g split: if_splits)
  show "task_id k = u \<and> u \<le> latest_id (upd_task t g tm) \<and> task_level k \<le> kMaxLevel"
    using queues_ok_tasks(2)[OF q k'(1)] k' by simp
  show "task_running k \<Longrightarrow> u \<in> set (run_queue (upd_task t g tm) (task_level k))"
    using queues_ok_tasks(3)[OF q k'(1)] k' by simp
next
  fix i w assume "finish_waiter (upd_task t g tm) i = Some w"
  then show "tasks (upd_task t g tm) w \<noteq> None" using queues_ok_tasks(6)[OF q, of i w] by auto
qed (use queues_ok_tasks(4,5)[OF q] in auto)

lemma level_ok_upd_task [simp]: "level_ok (upd_task t g tm) = level_ok tm"
  by (simp add: level_ok_def top_level_def)

text \<open>A queue whose elements are only reordered.\<close>

lemma queues_ok_permute:
  assumes q: "queues_ok tm" and "set qs = set (run_queue tm lv)" and "distinct qs"
    and "tasks tm' = tasks tm" "latest_id tm' = latest_id tm" "finish_waiter tm' = finish_waiter tm"
    and "run_queue tm' = (run_queue tm)(lv := qs)"
  shows "queues_ok tm'"
proof -
  have s: "set (run_queue tm' l) = set (run_queue tm l)" for l using assms by simp
  show ?thesis
    by (rule queues_okI) (unfold s assms(4-6),
      use queues_ok_tasks[OF q] assms(3,7) in \<open>auto simp: assms(4-6)\<close>)
qed

text \<open>Taking a running task out of its queue: it is then asleep or gone.\<close>

lemma queues_ok_remove:
  assumes q: "queues_ok tm" and t: "tasks tm t = Some k" "task_running k" "t \<noteq> 2"
    and x: "\<And>k'. x = Some k' \<Longrightarrow> task_id k' = t \<and> task_level k' \<le> kMaxLevel \<and> \<not> task_running k'"
      "x = None \<Longrightarrow> \<forall>i. finish_waiter tm i \<noteq> Some t"
    and tm': "tasks tm' = (tasks tm)(t := x)" "latest_id tm' = latest_id tm"
      "\<And>i w. finish_waiter tm' i = Some w \<Longrightarrow> finish_waiter tm i = Some w"
      "run_queue tm' = (run_queue tm)(task_level k := removeAll t (run_queue tm (task_level k)))"
  shows "queues_ok tm'"
proof -
  have nt: "t \<notin> set (run_queue tm' lv)" for lv
    using queues_ok_tasks(1)[OF q, of t lv] t(1) by (auto simp: tm')
  have s: "u \<in> set (run_queue tm' lv) \<longleftrightarrow> u \<in> set (run_queue tm lv)" if "u \<noteq> t" for u lv
    using that by (simp add: tm')
  show ?thesis
  proof (rule queues_okI)
    fix lv u assume u: "u \<in> set (run_queue tm' lv)"
    with nt have "u \<noteq> t" by auto
    then show "lv \<le> kMaxLevel \<and> (\<exists>k. tasks tm' u = Some k \<and> task_level k = lv \<and> task_running k)"
      using queues_ok_tasks(1)[OF q, of u lv] u s by (simp add: tm'(1))
  next
    fix u k' assume u: "tasks tm' u = Some k'"
    show "task_id k' = u \<and> u \<le> latest_id tm' \<and> task_level k' \<le> kMaxLevel"
      using u x(1) queues_ok_tasks(2)[OF q] t(1) by (cases "u = t") (auto simp: tm')
    show "task_running k' \<Longrightarrow> u \<in> set (run_queue tm' (task_level k'))"
      using u x(1) queues_ok_tasks(3)[OF q, of u k'] s by (cases "u = t") (auto simp: tm'(1))
  next
    fix lv show "distinct (run_queue tm' lv)" using queues_ok_tasks(4)[OF q] by (simp add: tm' distinct_removeAll)
  next
    show "2 \<in> set (run_queue tm' 0)" using queues_ok_tasks(5)[OF q] t(3) s by auto
  next
    fix i w assume "finish_waiter tm' i = Some w"
    then show "tasks tm' w \<noteq> None"
      using tm'(3) queues_ok_tasks(6)[OF q, of i w] x(2) by (cases "w = t"; cases x) (auto simp: tm'(1))
  qed
qed

text \<open>Putting a sleeping task into a queue.\<close>

lemma queues_ok_add:
  assumes q: "queues_ok tm" and t: "tasks tm t = Some k" "\<not> task_running k"
    and k': "task_id k' = t" "task_level k' = lv" "task_running k'" "lv \<le> kMaxLevel"
    and tm': "tasks tm' = (tasks tm)(t \<mapsto> k')" "latest_id tm' = latest_id tm"
      "finish_waiter tm' = finish_waiter tm"
      "run_queue tm' = (run_queue tm)(lv := qs)" "set qs = insert t (set (run_queue tm lv))" "distinct qs"
  shows "queues_ok tm'"
proof -
  have nt: "t \<notin> set (run_queue tm l)" for l
    using queues_ok_tasks(1)[OF q, of t l] t by auto
  have s: "u \<in> set (run_queue tm' l) \<longleftrightarrow> u \<in> set (run_queue tm l)" if "u \<noteq> t" for u l
    using that by (simp add: tm')
  have st: "t \<in> set (run_queue tm' l) \<longleftrightarrow> l = lv" for l using nt by (simp add: tm')
  show ?thesis
  proof (rule queues_okI)
    fix l u assume u: "u \<in> set (run_queue tm' l)"
    show "l \<le> kMaxLevel \<and> (\<exists>k. tasks tm' u = Some k \<and> task_level k = l \<and> task_running k)"
      using queues_ok_tasks(1)[OF q, of u l] u s st k' by (cases "u = t") (auto simp: tm'(1))
  next
    fix u j assume u: "tasks tm' u = Some j"
    show "task_id j = u \<and> u \<le> latest_id tm' \<and> task_level j \<le> kMaxLevel"
      using u k' queues_ok_tasks(2)[OF q] t(1) by (cases "u = t") (auto simp: tm'(1,2))
    show "task_running j \<Longrightarrow> u \<in> set (run_queue tm' (task_level j))"
      using u k' st queues_ok_tasks(3)[OF q, of u j] s by (cases "u = t") (auto simp: tm'(1))
  next
    fix l show "distinct (run_queue tm' l)" using queues_ok_tasks(4)[OF q] tm'(6) by (simp add: tm'(4))
  next
    show "2 \<in> set (run_queue tm' 0)" using queues_ok_tasks(5)[OF q] by (simp add: tm'(4,5))
  next
    fix i w assume "finish_waiter tm' i = Some w"
    then show "tasks tm' w \<noteq> None" using queues_ok_tasks(6)[OF q, of i w] by (simp add: tm'(1,3))
  qed
qed

subsection \<open>Every operation keeps the invariant\<close>

lemma RestoreContext_Some: "tasks tm t = Some k \<Longrightarrow> RestoreContext tm t = Some (task_context k)"
  by (simp add: RestoreContext_def)

lemma sched_inv_frame:
  assumes "sched_inv tm" and "\<And>k. task_id (g k) = task_id k" "\<And>k. task_level (g k) = task_level k"
    and "\<And>k. task_running (g k) = task_running k"
  shows "sched_inv (upd_task t g tm)"
  using assms queues_ok_frame[of tm g t] by (simp add: sched_inv_def)

lemma sched_inv_current:
  assumes "sched_inv tm"
  obtains t rest k where "CurrentTask tm = Some t" "run_queue tm (current_level tm) = t # rest"
    "tasks tm t = Some k" "task_level k = current_level tm" "task_running k" "t \<notin> set rest"
proof -
  have lo: "level_ok tm" and qo: "queues_ok tm" using assms by (simp_all add: sched_inv_def)
  obtain t rest where q: "run_queue tm (current_level tm) = t # rest" "CurrentTask tm = Some t"
    using level_ok_current[OF lo] by blast
  show ?thesis
    using that q queues_ok_tasks(1)[OF qo, of t "current_level tm"] queues_ok_tasks(4)[OF qo, of "current_level tm"]
    by auto
qed

lemma queued_idle: "queues_ok tm \<Longrightarrow> \<exists>lv \<le> kMaxLevel. run_queue tm lv \<noteq> []"
  using queues_ok_tasks(5) by (metis empty_iff le0 list.set(1))

lemma SwitchTask_ok:
  assumes inv: "sched_inv tm"
  obtains tm' cpu' cur k nxt k' where "SwitchTask tm ctx = Some (tm', cpu')" and "sched_inv tm'"
    and "\<not> level_changed tm'" and "top_level tm'"
    and "CurrentTask tm = Some cur" "tasks tm cur = Some k" "CurrentTask tm' = Some nxt"
    and "tasks tm' = (tasks tm)(cur \<mapsto> k\<lparr>task_context := ctx\<rparr>)"
    and "tasks tm' nxt = Some k'" "cpu' = (if nxt = cur then ctx else task_context k')"
    and "run_queue tm' = (run_queue tm)(current_level tm := rotate1 (run_queue tm (current_level tm)))"
proof -
  obtain cur rest k where c: "CurrentTask tm = Some cur" "run_queue tm (current_level tm) = cur # rest"
      "tasks tm cur = Some k" "cur \<notin> set rest"
    by (rule sched_inv_current[OF inv]) blast
  let ?g = "\<lambda>k::'a Task. k\<lparr>task_context := ctx\<rparr>"
  let ?tm1 = "upd_task cur ?g tm"
  have inv1: "sched_inv ?tm1" by (rule sched_inv_frame[OF inv]) simp_all
  obtain tm2 where tm2: "RotateCurrentRunQueue ?tm1 False = Some (tm2, cur)"
    using Rotate_Ex[of ?tm1 cur rest False] c(2) by auto
  note r = Rotate_Some[OF tm2]
  have q2: "run_queue tm2 = (run_queue tm)(current_level tm := rest @ [cur])" using r(6) c(2) by simp
  have qo: "queues_ok tm2"
    by (rule queues_ok_permute[of ?tm1 "rest @ [cur]" "current_level tm"])
       (use inv1 c queues_ok_tasks(4)[of tm "current_level tm"] inv r(2-5) q2 in \<open>auto simp: sched_inv_def\<close>)
  have lo: "level_ok tm2 \<and> \<not> level_changed tm2 \<and> top_level tm2"
    using Rotate_level[OF tm2] inv1 queued_idle[OF qo] queues_ok_high[of ?tm1] by (simp add: sched_inv_def)
  have inv2: "sched_inv tm2" using qo lo by (simp add: sched_inv_def)
  obtain nxt k' where n: "CurrentTask tm2 = Some nxt" "tasks tm2 nxt = Some k'"
    by (rule sched_inv_current[OF inv2]) blast
  have "SwitchTask tm ctx = Some (tm2, if nxt = cur then ctx else task_context k')"
    using c(1,3) tm2 n by (simp add: SwitchTask_def RestoreContext_def)
  then show ?thesis
    using that[of tm2 "if nxt = cur then ctx else task_context k'" cur k nxt k'] inv2 lo c n r(2) q2 by simp
qed

lemma sched_invI: "queues_ok tm \<Longrightarrow> level_ok tm \<Longrightarrow> sched_inv tm"
  by (simp add: sched_inv_def)

lemma sched_invD: "sched_inv tm \<Longrightarrow> queues_ok tm" "sched_inv tm \<Longrightarrow> level_ok tm"
  by (simp_all add: sched_inv_def)

text \<open>A rotation that drops the front task, which the state already counts as asleep or gone.\<close>

lemma Rotate_drop:
  assumes inv: "sched_inv tm" and q: "run_queue tm (current_level tm) = t # rest" and "t \<noteq> 2"
    and k: "tasks tm t = Some k"
    and tm1: "run_queue tm1 = run_queue tm" "current_level tm1 = current_level tm"
      "level_changed tm1 = level_changed tm" "latest_id tm1 = latest_id tm"
    and rot: "RotateCurrentRunQueue tm1 True = Some (tm2, t)"
    and x: "\<And>k'. x = Some k' \<Longrightarrow> task_id k' = t \<and> task_level k' \<le> kMaxLevel \<and> \<not> task_running k'"
      "x = None \<Longrightarrow> \<forall>i. finish_waiter tm i \<noteq> Some t"
    and tm3: "tasks tm3 = (tasks tm)(t := x)" "latest_id tm3 = latest_id tm"
      "\<And>i w. finish_waiter tm3 i = Some w \<Longrightarrow> finish_waiter tm i = Some w"
      "run_queue tm3 = run_queue tm2" "current_level tm3 = current_level tm2"
      "level_changed tm3 = level_changed tm2"
  shows "sched_inv tm3 \<and> top_level tm3 \<and> \<not> level_changed tm3"
proof -
  note qo = sched_invD(1)[OF inv] and lo = sched_invD(2)[OF inv]
  have kk: "task_running k" "task_level k = current_level tm"
    using queues_ok_tasks(1)[OF qo, of t "current_level tm"] q k by auto
  have rm: "removeAll t rest = rest"
    using queues_ok_tasks(4)[OF qo, of "current_level tm"] q by simp
  have q2: "run_queue tm2 = (run_queue tm)(task_level k := removeAll t (run_queue tm (task_level k)))"
    using Rotate_Some(6)[OF rot] by (simp add: tm1 q rm kk)
  have qo3: "queues_ok tm3"
    by (rule queues_ok_remove[OF qo k kk(1) \<open>t \<noteq> 2\<close> x]) (use tm3 q2 in auto)
  have lo1: "level_ok tm1" using lo tm1 by (simp add: level_ok_def top_level_def)
  have "level_ok tm2 \<and> \<not> level_changed tm2 \<and> top_level tm2"
    using Rotate_level[OF rot lo1] queued_idle[OF qo3] queues_ok_high[OF qo] tm1 tm3 by simp
  then show ?thesis using qo3 tm3 by (simp add: sched_inv_def level_ok_def top_level_def)
qed

lemma Sleep_ok:
  assumes inv: "sched_inv tm" and k: "tasks tm t = Some k" and "t \<noteq> 2"
  shows "\<exists>tm' cpu' c. Sleep tm cpu t = Some (tm', cpu') \<and> sched_inv tm' \<and>
    tasks tm' = (tasks tm)(t \<mapsto> k\<lparr>task_running := False, task_context := c\<rparr>) \<and>
    latest_id tm' = latest_id tm \<and> finish_tasks tm' = finish_tasks tm \<and> finish_waiter tm' = finish_waiter tm"
proof (cases "task_running k")
  case False
  then show ?thesis using inv k
    by (intro exI[of _ tm] exI[of _ cpu] exI[of _ "task_context k"]) (auto simp: Sleep_def)
next
  case True
  note qo = sched_invD(1)[OF inv] and lo = sched_invD(2)[OF inv]
  let ?tm1 = "upd_task t (\<lambda>k. k\<lparr>task_running := False\<rparr>) tm"
  obtain f rest where c: "CurrentTask tm = Some f" "run_queue tm (current_level tm) = f # rest"
    by (rule sched_inv_current[OF inv]) blast
  have c1: "CurrentTask ?tm1 = Some f" using c by (simp add: CurrentTask_def)
  have tid: "task_id k = t" "task_level k \<le> kMaxLevel" using queues_ok_tasks(2)[OF qo k] by auto
  show ?thesis
  proof (cases "t = f")
    case True
    obtain tm2 where tm2: "RotateCurrentRunQueue ?tm1 True = Some (tm2, t)"
      using Rotate_Ex[of ?tm1 t rest True] c(2) True by auto
    note r = Rotate_Some[OF tm2]
    let ?tm3 = "upd_task t (\<lambda>k. k\<lparr>task_context := cpu\<rparr>) tm2"
    have inv3: "sched_inv ?tm3 \<and> top_level ?tm3 \<and> \<not> level_changed ?tm3"
      by (rule Rotate_drop[OF inv _ \<open>t \<noteq> 2\<close> k _ _ _ _ tm2,
            of rest "Some (k\<lparr>task_running := False, task_context := cpu\<rparr>)"])
         (use c True k tid r in auto)
    then obtain nxt k' where n: "CurrentTask ?tm3 = Some nxt" "tasks ?tm3 nxt = Some k'"
      by (meson sched_inv_current)
    have n2: "CurrentTask tm2 = Some nxt" using n(1) by (simp add: CurrentTask_def)
    have "Sleep tm cpu t = Some (?tm3, task_context k')"
      using True k c1 tm2 n n2 r(2) \<open>task_running k\<close>
      by (simp add: Sleep_def SwitchContext_def RestoreContext_def Let_def)
    then show ?thesis using inv3 k r by (intro exI[of _ ?tm3]) auto
  next
    case False
    let ?tm2 = "upd_queue (task_level k) (removeAll t) ?tm1"
    have s: "Sleep tm cpu t = Some (?tm2, cpu)"
      using False k c1 True by (simp add: Sleep_def)
    have qo2: "queues_ok ?tm2"
      by (rule queues_ok_remove[OF qo k True \<open>t \<noteq> 2\<close>, of "Some (k\<lparr>task_running := False\<rparr>)"])
         (use k tid in auto)
    have "level_ok ?tm2" using lo c False by (auto simp: level_ok_def top_level_def)
    with qo2 s show ?thesis using k
      by (intro exI[of _ ?tm2] exI[of _ cpu] exI[of _ "task_context k"]) (auto simp: sched_inv_def)
  qed
qed

text \<open>Waking appends to the queue of the level; a running task moves between queues.\<close>

lemma Wakeup_sleeping:
  assumes inv: "sched_inv tm" and k: "tasks tm t = Some k" "\<not> task_running k"
    and lv: "level = (if lv < 0 then task_level k else nat lv)" "level \<le> kMaxLevel"
  shows "\<exists>tm'. Wakeup tm t lv = Some tm' \<and> sched_inv tm' \<and>
    tasks tm' = (tasks tm)(t \<mapsto> k\<lparr>task_level := level, task_running := True\<rparr>) \<and>
    run_queue tm' = (run_queue tm)(level := run_queue tm level @ [t]) \<and>
    latest_id tm' = latest_id tm \<and> finish_tasks tm' = finish_tasks tm \<and> finish_waiter tm' = finish_waiter tm"
proof -
  note qo = sched_invD(1)[OF inv] and lo = sched_invD(2)[OF inv]
  let ?k = "k\<lparr>task_level := level, task_running := True\<rparr>"
  let ?tm1 = "upd_queue level (\<lambda>q. q @ [t]) (upd_task t (\<lambda>k. k\<lparr>task_level := level, task_running := True\<rparr>) tm)"
  let ?tm2 = "if current_level ?tm1 < level then ?tm1\<lparr>level_changed := True\<rparr> else ?tm1"
  have nt: "t \<notin> set (run_queue tm l)" for l using queues_ok_tasks(1)[OF qo, of t l] k by auto
  have eq: "tasks ?tm2 = (tasks tm)(t \<mapsto> ?k)" "latest_id ?tm2 = latest_id tm" "finish_waiter ?tm2 = finish_waiter tm"
      "finish_tasks ?tm2 = finish_tasks tm" "run_queue ?tm2 = (run_queue tm)(level := run_queue tm level @ [t])"
      "current_level ?tm2 = current_level tm" "level_changed ?tm2 = (level_changed tm \<or> current_level tm < level)"
    using k by simp_all
  have "queues_ok ?tm2"
    by (rule queues_ok_add[OF qo k, of ?k level _ "run_queue tm level @ [t]"])
       (use eq queues_ok_tasks(2)[OF qo k(1)] lv queues_ok_tasks(4)[OF qo] nt in simp_all)
  moreover have "level_ok ?tm2"
    using lo unfolding level_ok_def top_level_def eq by auto
  ultimately have "sched_inv ?tm2" by (rule sched_invI)
  moreover have "Wakeup tm t lv = Some ?tm2" using k lv by (simp add: Wakeup_def Let_def)
  ultimately show ?thesis using eq by blast
qed

lemma ChangeLevelRunning_ok:
  assumes inv: "sched_inv tm" and k: "tasks tm t = Some k" "task_running k"
    and lv: "level = (if lv < 0 then task_level k else nat lv)" "level \<le> kMaxLevel" "t = 2 \<Longrightarrow> level = task_level k"
  shows "\<exists>tm'. ChangeLevelRunning tm t lv = Some tm' \<and> sched_inv tm' \<and>
    tasks tm' = (tasks tm)(t \<mapsto> k\<lparr>task_level := level\<rparr>) \<and>
    latest_id tm' = latest_id tm \<and> finish_tasks tm' = finish_tasks tm \<and> finish_waiter tm' = finish_waiter tm"
proof (cases "lv < 0 \<or> lv = int (task_level k)")
  case True
  then have "level = task_level k" using lv(1) by auto
  then have "(tasks tm)(t \<mapsto> k\<lparr>task_level := level\<rparr>) = tasks tm" using k by auto
  moreover have "ChangeLevelRunning tm t lv = Some tm" using k True by (auto simp: ChangeLevelRunning_def)
  ultimately show ?thesis using inv by (intro exI[of _ tm]) auto
next
  case False
  then have level: "level = nat lv" "level \<noteq> task_level k" using lv(1) by auto
  then have t2: "t \<noteq> 2" using lv(3) by auto
  note qo = sched_invD(1)[OF inv] and lo = sched_invD(2)[OF inv]
  obtain f rest where c: "CurrentTask tm = Some f" "run_queue tm (current_level tm) = f # rest"
    by (rule sched_inv_current[OF inv]) blast
  have tid: "task_id k = t" "task_level k \<le> kMaxLevel" using queues_ok_tasks(2)[OF qo k(1)] by auto
  let ?gone = "upd_queue (task_level k) (removeAll t) (upd_task t (\<lambda>k. k\<lparr>task_running := False\<rparr>) tm)"
  have qg: "queues_ok ?gone"
    by (rule queues_ok_remove[OF qo k t2, of "Some (k\<lparr>task_running := False\<rparr>)"]) (use k tid in auto)
  have nt: "t \<notin> set (run_queue tm level)" using queued_once[OF qo, of t level "task_level k"]
      queues_ok_tasks(3)[OF qo k] level by auto
  have add: "queues_ok tm'" if "tasks tm' = (tasks tm)(t \<mapsto> k\<lparr>task_level := level\<rparr>)"
      "latest_id tm' = latest_id tm" "finish_waiter tm' = finish_waiter tm"
      "run_queue tm' = (run_queue tm)(task_level k := removeAll t (run_queue tm (task_level k)), level := qs)"
      "set qs = insert t (set (run_queue tm level))" "distinct qs" for tm' qs
    by (rule queues_ok_add[OF qg, of t "k\<lparr>task_running := False\<rparr>" "k\<lparr>task_level := level\<rparr>" level _ qs])
       (use that k tid lv level in auto)
  show ?thesis
  proof (cases "t = f")
    case False
    let ?tm1 = "upd_task t (\<lambda>k. k\<lparr>task_level := level\<rparr>)
      (upd_queue level (\<lambda>q. q @ [t]) (upd_queue (task_level k) (removeAll t) tm))"
    let ?tm2 = "if current_level ?tm1 < level then ?tm1\<lparr>level_changed := True\<rparr> else ?tm1"
    have eq: "tasks ?tm2 = (tasks tm)(t \<mapsto> k\<lparr>task_level := level\<rparr>)" "latest_id ?tm2 = latest_id tm"
        "finish_waiter ?tm2 = finish_waiter tm" "finish_tasks ?tm2 = finish_tasks tm"
        "run_queue ?tm2 = (run_queue tm)(task_level k := removeAll t (run_queue tm (task_level k)),
           level := run_queue tm level @ [t])"
        "current_level ?tm2 = current_level tm" "level_changed ?tm2 = (level_changed tm \<or> current_level tm < level)"
      using k level by auto
    have "ChangeLevelRunning tm t lv = Some ?tm2"
      using False k c \<open>\<not> (lv < 0 \<or> lv = int (task_level k))\<close> level lv by (simp add: ChangeLevelRunning_def Let_def)
    moreover have "queues_ok ?tm2" by (rule add[OF eq(1,2,3,5)]) (use nt queues_ok_tasks(4)[OF qo] in auto)
    moreover have "level_ok ?tm2" using lo c False unfolding level_ok_def top_level_def eq by auto
    ultimately show ?thesis using eq(1-4) sched_invI by blast
  next
    case True
    have cl: "current_level tm = task_level k" using queues_ok_tasks(1)[OF qo, of t "current_level tm"] c True k by auto
    have d: "removeAll t rest = rest" using queues_ok_tasks(4)[OF qo, of "current_level tm"] c True by simp
    let ?tm1 = "upd_task t (\<lambda>k. k\<lparr>task_level := level\<rparr>)
      (upd_queue level (\<lambda>q. t # q) (upd_queue (current_level tm) tl tm))"
    let ?tm2 = "if current_level ?tm1 \<le> level then ?tm1\<lparr>current_level := level\<rparr>
      else ?tm1\<lparr>current_level := level, level_changed := True\<rparr>"
    have eq: "tasks ?tm2 = (tasks tm)(t \<mapsto> k\<lparr>task_level := level\<rparr>)" "latest_id ?tm2 = latest_id tm"
        "finish_waiter ?tm2 = finish_waiter tm" "finish_tasks ?tm2 = finish_tasks tm"
        "run_queue ?tm2 = (run_queue tm)(task_level k := removeAll t (run_queue tm (task_level k)),
           level := t # run_queue tm level)"
        "current_level ?tm2 = level" "level_changed ?tm2 = (level_changed tm \<or> level < current_level tm)"
      using k level c cl True d by auto
    have "ChangeLevelRunning tm t lv = Some ?tm2"
      using True k c \<open>\<not> (lv < 0 \<or> lv = int (task_level k))\<close> level lv by (simp add: ChangeLevelRunning_def Let_def)
    moreover have "queues_ok ?tm2" by (rule add[OF eq(1,2,3,5)]) (use nt queues_ok_tasks(4)[OF qo] in auto)
    moreover have "level_ok ?tm2" using lo lv unfolding level_ok_def top_level_def eq by auto
    ultimately show ?thesis using eq(1-4) sched_invI by blast
  qed
qed

lemma Wakeup_ok:
  assumes inv: "sched_inv tm" and k: "tasks tm t = Some k"
    and lv: "level = (if lv < 0 then task_level k else nat lv)" "level \<le> kMaxLevel" "t = 2 \<Longrightarrow> level = task_level k"
  shows "\<exists>tm'. Wakeup tm t lv = Some tm' \<and> sched_inv tm' \<and>
    tasks tm' = (tasks tm)(t \<mapsto> k\<lparr>task_level := level, task_running := True\<rparr>) \<and>
    latest_id tm' = latest_id tm \<and> finish_tasks tm' = finish_tasks tm \<and> finish_waiter tm' = finish_waiter tm"
proof (cases "task_running k")
  case True
  then have "Wakeup tm t lv = ChangeLevelRunning tm t lv" using k by (simp add: Wakeup_def)
  moreover have "k\<lparr>task_level := level, task_running := True\<rparr> = k\<lparr>task_level := level\<rparr>" using True by simp
  ultimately show ?thesis using ChangeLevelRunning_ok[OF inv k True lv] by simp
next
  case False
  then show ?thesis using Wakeup_sleeping[OF inv k False lv(1,2)] by blast
qed

lemma SendMessage_ok:
  assumes inv: "sched_inv tm" and k: "tasks tm t = Some k"
  shows "\<exists>tm'. SendMessage tm t m = Some (tm', kSuccess) \<and> sched_inv tm' \<and>
    tasks tm' = (tasks tm)(t \<mapsto> k\<lparr>msgs := msgs k @ [m], task_running := True\<rparr>) \<and>
    latest_id tm' = latest_id tm \<and> finish_tasks tm' = finish_tasks tm \<and> finish_waiter tm' = finish_waiter tm"
proof -
  let ?k = "k\<lparr>msgs := msgs k @ [m]\<rparr>" and ?tm1 = "upd_task t (\<lambda>k. k\<lparr>msgs := msgs k @ [m]\<rparr>) tm"
  have inv1: "sched_inv ?tm1" by (rule sched_inv_frame[OF inv]) simp_all
  have k1: "tasks ?tm1 t = Some ?k" using k by simp
  have lv: "task_level k \<le> kMaxLevel" using queues_ok_tasks(2)[OF sched_invD(1)[OF inv] k] by simp
  obtain tm' where "Wakeup ?tm1 t (- 1) = Some tm'" "sched_inv tm'"
      "tasks tm' = (tasks ?tm1)(t \<mapsto> ?k\<lparr>task_level := task_level k, task_running := True\<rparr>)"
      "latest_id tm' = latest_id ?tm1" "finish_tasks tm' = finish_tasks ?tm1" "finish_waiter tm' = finish_waiter ?tm1"
    using Wakeup_ok[OF inv1 k1, of "task_level k" "- 1"] lv by auto
  then show ?thesis using k by (intro exI[of _ tm']) (simp add: SendMessage_def)
qed

lemma NewTask_ok:
  assumes inv: "sched_inv tm"
  shows "sched_inv (fst (NewTask tm)) \<and> tasks tm (snd (NewTask tm)) = None"
proof -
  note qo = sched_invD(1)[OF inv] and lo = sched_invD(2)[OF inv]
  let ?tm = "fst (NewTask tm)" and ?i = "latest_id tm + 1"
  have eq: "tasks ?tm = (tasks tm)(?i \<mapsto> new_Task ?i)" "latest_id ?tm = ?i" "run_queue ?tm = run_queue tm"
      "finish_waiter ?tm = finish_waiter tm" "current_level ?tm = current_level tm" "level_changed ?tm = level_changed tm"
    by (simp_all add: NewTask_def Let_def)
  have fresh: "tasks tm ?i = None"
  proof (rule ccontr)
    assume "tasks tm ?i \<noteq> None"
    then obtain k where "tasks tm ?i = Some k" by auto
    from queues_ok_tasks(2)[OF qo this] show False by simp
  qed
  have "queues_ok ?tm"
  proof (rule queues_okI)
    fix lv t assume "t \<in> set (run_queue ?tm lv)"
    then show "lv \<le> kMaxLevel \<and> (\<exists>k. tasks ?tm t = Some k \<and> task_level k = lv \<and> task_running k)"
      using queues_ok_tasks(1)[OF qo, of t lv] fresh by (auto simp: eq)
  next
    fix t k assume t: "tasks ?tm t = Some k"
    show "task_id k = t \<and> t \<le> latest_id ?tm \<and> task_level k \<le> kMaxLevel"
      using t queues_ok_tasks(2)[OF qo, of t k]
      by (cases "t = ?i") (auto simp: eq new_Task_def kDefaultLevel_def kMaxLevel_def)
    show "task_running k \<Longrightarrow> t \<in> set (run_queue ?tm (task_level k))"
      using t queues_ok_tasks(3)[OF qo, of t k] by (cases "t = ?i") (auto simp: eq new_Task_def)
  next
    fix i w assume "finish_waiter ?tm i = Some w"
    then show "tasks ?tm w \<noteq> None" using queues_ok_tasks(6)[OF qo, of i w] by (auto simp: eq)
  qed (use queues_ok_tasks(4,5)[OF qo] in \<open>simp_all add: eq\<close>)
  moreover have "level_ok ?tm" using lo by (simp add: level_ok_def top_level_def eq)
  ultimately show ?thesis using fresh by (simp add: sched_inv_def NewTask_def Let_def)
qed

lemma new_TaskManager_ok: "sched_inv (new_TaskManager cur se f)"
  by (simp add: sched_inv_def queues_ok_def level_ok_def top_level_def new_TaskManager_def NewTask_def
      empty_TaskManager_def upd_task_def upd_queue_def InitContext_def new_Task_def kMaxLevel_def)

text \<open>
  \<open>Finish\<close> of the current task: it is gone, its exit code is recorded, a registered waiter runs again,
  and some other live task gets the processor.
\<close>

lemma Finish_ok:
  assumes inv: "sched_inv tm" and c: "CurrentTask tm = Some t" "t \<noteq> 2" "\<forall>i. finish_waiter tm i \<noteq> Some t"
  shows "\<exists>tm' cpu'. Finish tm code = Some (tm', cpu') \<and> sched_inv tm' \<and> tasks tm' t = None \<and>
    finish_tasks tm' = (finish_tasks tm)(t \<mapsto> code) \<and> finish_waiter tm' = (finish_waiter tm)(t := None) \<and>
    (\<forall>w. finish_waiter tm t = Some w \<longrightarrow> (\<exists>k. tasks tm' w = Some k \<and> task_running k)) \<and>
    (\<forall>u. u \<noteq> t \<longrightarrow> finish_waiter tm t \<noteq> Some u \<longrightarrow> tasks tm' u = tasks tm u)"
proof -
  obtain rest k where q: "run_queue tm (current_level tm) = t # rest" and k: "tasks tm t = Some k"
    using sched_inv_current[OF inv] c(1) by (metis option.inject)
  have tid: "task_id k = t" using queues_ok_tasks(2)[OF sched_invD(1)[OF inv] k] by simp
  obtain tm1 where tm1: "RotateCurrentRunQueue tm True = Some (tm1, t)" using Rotate_Ex[OF q] by blast
  note r = Rotate_Some(2-6)[OF tm1]
  let ?tm2 = "tm1\<lparr>tasks := (tasks tm1)(t := None), finish_tasks := (finish_tasks tm1)(t \<mapsto> code)\<rparr>"
  let ?tm2' = "?tm2\<lparr>finish_waiter := (finish_waiter tm1)(t := None)\<rparr>"
  have drop: "sched_inv tm3" if "tasks tm3 = tasks ?tm2" "latest_id tm3 = latest_id tm1"
      "finish_waiter tm3 = (finish_waiter tm1)(t := None)" "run_queue tm3 = run_queue tm1"
      "current_level tm3 = current_level tm1" "level_changed tm3 = level_changed tm1" for tm3
  proof -
    have "finish_waiter tm i = Some w" if "finish_waiter tm3 i = Some w" for i w
      using that \<open>finish_waiter tm3 = _\<close> r by (auto split: if_splits)
    then have "sched_inv tm3 \<and> top_level tm3 \<and> \<not> level_changed tm3"
      by (intro Rotate_drop[OF inv q c(2) k refl refl refl refl tm1, of None tm3])
         (simp_all add: that r c(3))
    then show ?thesis by simp
  qed
  have inv2: "sched_inv ?tm2'" by (rule drop) simp_all
  have fin: "\<exists>tm' cpu'. Finish tm code = Some (tm', cpu') \<and> tm' = tm3"
    if "(case finish_waiter ?tm2 t of None \<Rightarrow> Some ?tm2
         | Some w \<Rightarrow> Wakeup ?tm2' w (- 1)) = Some tm3" and "sched_inv tm3" for tm3
  proof -
    obtain n k' where "CurrentTask tm3 = Some n" "tasks tm3 n = Some k'"
      using sched_inv_current[OF \<open>sched_inv tm3\<close>] by metis
    then show ?thesis using that(1) tm1 k tid r
      by (cases "finish_waiter tm t") (simp_all add: Finish_def RestoreContext_def Let_def)
  qed
  show ?thesis
  proof (cases "finish_waiter tm t")
    case None
    have "sched_inv ?tm2" by (rule drop) (use None r in auto)
    from fin[OF _ this] None r show ?thesis using \<open>sched_inv ?tm2\<close> by (auto simp: fun_upd_idem)
  next
    case (Some w)
    then have "tasks tm w \<noteq> None" "w \<noteq> t"
      using queues_ok_tasks(6)[OF sched_invD(1)[OF inv] Some] c(3) by auto
    then obtain kw where kw: "tasks ?tm2' w = Some kw" using r by auto
    have lv: "task_level kw \<le> kMaxLevel" using queues_ok_tasks(2)[OF sched_invD(1)[OF inv2] kw] by simp
    obtain tm3 where tm3: "Wakeup ?tm2' w (- 1) = Some tm3" "sched_inv tm3"
        "tasks tm3 = (tasks ?tm2')(w \<mapsto> kw\<lparr>task_running := True\<rparr>)"
        "finish_tasks tm3 = finish_tasks ?tm2'" "finish_waiter tm3 = finish_waiter ?tm2'"
      using Wakeup_ok[OF inv2 kw, of "task_level kw" "- 1"] lv by auto
    from fin[OF _ tm3(2)] Some tm3 r \<open>w \<noteq> t\<close> show ?thesis by auto
  qed
qed

lemma WaitFinish_step_ok:
  assumes inv: "sched_inv tm" and c: "CurrentTask tm = Some t" "t \<noteq> 2"
  shows "\<exists>tm' cpu' r. WaitFinish_step tm cpu t i = Some (tm', cpu', r) \<and> sched_inv tm' \<and>
    r = finish_tasks tm i \<and>
    (r = None \<longrightarrow> finish_waiter tm' i = Some t \<and> (\<exists>k. tasks tm' t = Some k \<and> \<not> task_running k)) \<and>
    (r \<noteq> None \<longrightarrow> finish_tasks tm' i = None)"
proof (cases "finish_tasks tm i")
  case (Some code)
  let ?tm = "tm\<lparr>finish_tasks := (finish_tasks tm)(i := None)\<rparr>"
  have "sched_inv ?tm" using inv by (simp add: sched_inv_def queues_ok_def level_ok_def top_level_def)
  then show ?thesis using Some by (simp add: WaitFinish_step_def)
next
  case None
  let ?tm = "tm\<lparr>finish_waiter := (finish_waiter tm)(i \<mapsto> t)\<rparr>"
  obtain k where k: "tasks tm t = Some k" using sched_inv_current[OF inv] c by (metis option.inject)
  have inv': "sched_inv ?tm"
    using inv k by (simp add: sched_inv_def queues_ok_def level_ok_def top_level_def)
  have k': "tasks ?tm t = Some k" using k by simp
  obtain tm' cpu' cx where "Sleep ?tm cpu t = Some (tm', cpu')" "sched_inv tm'"
      "tasks tm' = (tasks ?tm)(t \<mapsto> k\<lparr>task_running := False, task_context := cx\<rparr>)"
      "finish_waiter tm' = finish_waiter ?tm"
    using Sleep_ok[OF inv' k' c(2)] by blast
  then show ?thesis using None by (simp add: WaitFinish_step_def)
qed

subsection \<open>The task manager delivers messages\<close>

definition mailbox :: "'f TaskManager \<Rightarrow> nat \<Rightarrow> Message list option" where
  "mailbox tm t = map_option msgs (tasks tm t)"

interpretation task_mail: messenger sched_inv mailbox SendMessage
proof unfold_locales
  fix tm :: "'f TaskManager" and t ms m
  assume inv: "sched_inv tm" and "mailbox tm t = Some ms"
  then obtain k where k: "tasks tm t = Some k" "msgs k = ms" by (auto simp: mailbox_def)
  obtain tm' where tm': "SendMessage tm t m = Some (tm', kSuccess)" "sched_inv tm'"
      "tasks tm' = (tasks tm)(t \<mapsto> k\<lparr>msgs := msgs k @ [m], task_running := True\<rparr>)"
    using SendMessage_ok[OF inv k(1)] by blast
  have "mailbox tm' = (mailbox tm)(t \<mapsto> ms @ [m])" using tm'(3) k by (auto simp: mailbox_def)
  with tm' show "\<exists>tm'. SendMessage tm t m = Some (tm', kSuccess) \<and> sched_inv tm' \<and>
      mailbox tm' = (mailbox tm)(t \<mapsto> ms @ [m])" by blast
next
  fix tm :: "'f TaskManager" and t m
  assume "mailbox tm t = None"
  then show "SendMessage tm t m = Some (tm, kNoSuchTask)" by (simp add: mailbox_def SendMessage_def)
qed

subsection \<open>Every run of the scheduler\<close>

text \<open>
  What a kernel does to its scheduler, one call at a time: new tasks, preemption, sleeping and waking by
  id, messages, exit and waiting for an exit. The calls keep what their callers keep: levels are at most
  \<open>kMaxLevel\<close>, the idle task stays at level 0 and neither sleeps nor exits, and a task waiting in
  \<open>WaitFinish\<close> does not exit.
\<close>

inductive sched_step :: "'f TaskManager \<times> TaskContext \<Rightarrow> 'f TaskManager \<times> TaskContext \<Rightarrow> bool" where
  new: "sched_step (tm, cpu) (fst (NewTask tm), cpu)"
| init: "sched_step (tm, cpu) (upd_task t (InitContext cr se f d) tm, cpu)"
| switch: "SwitchTask tm ctx = Some s \<Longrightarrow> sched_step (tm, cpu) s"
| sleep: "t \<noteq> 2 \<Longrightarrow> Sleep_id tm cpu t = Some (tm', cpu', e) \<Longrightarrow> sched_step (tm, cpu) (tm', cpu')"
| wakeup: "lv \<le> int kMaxLevel \<Longrightarrow> (t = 2 \<Longrightarrow> lv \<le> 0) \<Longrightarrow> Wakeup_id tm t lv = Some (tm', e) \<Longrightarrow>
    sched_step (tm, cpu) (tm', cpu)"
| send: "SendMessage tm t m = Some (tm', e) \<Longrightarrow> sched_step (tm, cpu) (tm', cpu)"
| receive: "ReceiveMessage tm t = Some (tm', m) \<Longrightarrow> sched_step (tm, cpu) (tm', cpu)"
| finish: "CurrentTask tm = Some t \<Longrightarrow> t \<noteq> 2 \<Longrightarrow> \<forall>i. finish_waiter tm i \<noteq> Some t \<Longrightarrow>
    Finish tm code = Some s \<Longrightarrow> sched_step (tm, cpu) s"
| wait: "CurrentTask tm = Some t \<Longrightarrow> t \<noteq> 2 \<Longrightarrow> WaitFinish_step tm cpu t i = Some (tm', cpu', r) \<Longrightarrow>
    sched_step (tm, cpu) (tm', cpu')"

inductive sched_reach :: "'f TaskManager \<times> TaskContext \<Rightarrow> bool" where
  boot: "sched_reach (new_TaskManager cur se f, cpu)"
| step: "sched_reach s \<Longrightarrow> sched_step s s' \<Longrightarrow> sched_reach s'"

lemma Wakeup_id_ok:
  assumes inv: "sched_inv tm" and "lv \<le> int kMaxLevel" "t = 2 \<Longrightarrow> lv \<le> 0"
  shows "\<exists>tm' e. Wakeup_id tm t lv = Some (tm', e) \<and> sched_inv tm'"
proof (cases "tasks tm t")
  case None
  then show ?thesis using inv by (simp add: Wakeup_id_def)
next
  case (Some k)
  note qo = sched_invD(1)[OF inv]
  have l2: "task_level k = 0" if "t = 2" using queues_ok_tasks(1)[OF qo queues_ok_tasks(5)[OF qo]] Some that by auto
  let ?lv = "if lv < 0 then task_level k else nat lv"
  have "?lv \<le> kMaxLevel" using queues_ok_tasks(2)[OF qo Some] assms(2) by auto
  moreover have "t = 2 \<Longrightarrow> ?lv = task_level k" using l2 assms(3) by auto
  ultimately obtain tm' where "Wakeup tm t lv = Some tm'" "sched_inv tm'"
    using Wakeup_ok[OF inv Some refl, of lv] by blast
  then show ?thesis using Some by (simp add: Wakeup_id_def)
qed

lemma ReceiveMessage_ok:
  assumes inv: "sched_inv tm" and r: "ReceiveMessage tm t = Some (tm', m)"
  shows "sched_inv tm'"
proof -
  let ?g = "\<lambda>k::'a Task. fst (ReceiveMessage_task k)"
  obtain k where k: "tasks tm t = Some k" using r by (auto simp: ReceiveMessage_def split: option.splits)
  have "tm' = upd_task t ?g tm"
    using r k by (simp add: ReceiveMessage_def upd_task_def split: prod.splits)
  moreover have "sched_inv (upd_task t ?g tm)"
    by (rule sched_inv_frame[OF inv]) (auto simp: ReceiveMessage_task_def split: list.splits)
  ultimately show ?thesis by simp
qed

lemma sched_step_inv: "sched_step s s' \<Longrightarrow> sched_inv (fst s) \<Longrightarrow> sched_inv (fst s')"
proof (induction rule: sched_step.induct)
  case (new tm cpu)
  then show ?case using NewTask_ok by auto
next
  case (init tm cpu t cr se f d)
  then show ?case using sched_inv_frame[of tm "InitContext cr se f d" t] by (simp add: InitContext_def)
next
  case (switch tm ctx s cpu)
  then show ?case using SwitchTask_ok[of tm ctx] by (metis fst_conv option.inject)
next
  case (sleep t tm cpu tm' cpu' e)
  show ?case
  proof (cases "tasks tm t")
    case None
    then show ?thesis using sleep by (simp add: Sleep_id_def)
  next
    case (Some k)
    then show ?thesis using sleep Sleep_ok[of tm t k cpu] by (auto simp: Sleep_id_def)
  qed
next
  case (wakeup lv t tm tm' e cpu)
  then show ?case using Wakeup_id_ok[of tm lv t] by auto
next
  case (send tm t m tm' e cpu)
  then show ?case using task_mail.send_any[of tm t m] by auto
next
  case (receive tm t tm' m cpu)
  then show ?case using ReceiveMessage_ok by auto
next
  case (finish tm t code s cpu)
  then show ?case using Finish_ok[of tm t code] by auto
next
  case (wait tm t cpu i tm' cpu' r)
  then show ?case using WaitFinish_step_ok[of tm t cpu i] by auto
qed

lemma sched_reach_inv: "sched_reach s \<Longrightarrow> sched_inv (fst s)"
  by (induction rule: sched_reach.induct) (use new_TaskManager_ok sched_step_inv in auto)

text \<open>A run of consecutive preemptions, each given the registers it interrupts.\<close>

fun run_switches :: "'f TaskManager \<Rightarrow> TaskContext \<Rightarrow> TaskContext list \<Rightarrow> ('f TaskManager \<times> TaskContext) option" where
  "run_switches tm cpu [] = Some (tm, cpu)"
| "run_switches tm cpu (c # cs) = do { (tm', cpu') \<leftarrow> SwitchTask tm c; run_switches tm' cpu' cs }"

lemma SwitchTask_same_level:
  assumes inv: "sched_inv tm" and "\<not> level_changed tm"
  shows "\<exists>tm' cpu' k. SwitchTask tm ctx = Some (tm', cpu') \<and> sched_inv tm' \<and> \<not> level_changed tm' \<and>
    current_level tm' = current_level tm \<and>
    run_queue tm' = (run_queue tm)(current_level tm := rotate1 (run_queue tm (current_level tm))) \<and>
    tasks tm (hd (run_queue tm (current_level tm))) = Some k \<and>
    tasks tm' = (tasks tm)(hd (run_queue tm (current_level tm)) \<mapsto> k\<lparr>task_context := ctx\<rparr>) \<and>
    Some cpu' = map_option task_context (tasks tm' (hd (run_queue tm' (current_level tm))))"
proof -
  obtain tm' cpu' cur k nxt k' where s: "SwitchTask tm ctx = Some (tm', cpu')" "sched_inv tm'" "\<not> level_changed tm'"
      "CurrentTask tm = Some cur" "tasks tm cur = Some k" "CurrentTask tm' = Some nxt"
      "tasks tm' = (tasks tm)(cur \<mapsto> k\<lparr>task_context := ctx\<rparr>)"
      "tasks tm' nxt = Some k'" "cpu' = (if nxt = cur then ctx else task_context k')"
      "run_queue tm' = (run_queue tm)(current_level tm := rotate1 (run_queue tm (current_level tm)))"
    by (rule SwitchTask_ok[OF inv, of ctx]) blast
  obtain rest where q: "run_queue tm (current_level tm) = cur # rest" using s(4) by (auto simp: CurrentTask_iff)
  have lv: "current_level tm' = current_level tm"
    using s(1,4,5) assms(2) q by (auto simp: SwitchTask_def RotateCurrentRunQueue_def Let_def bind_eq_Some_conv split: if_splits)
  have n: "nxt = hd (run_queue tm' (current_level tm))" using s(6) lv by (auto simp: CurrentTask_iff)
  have "Some cpu' = map_option task_context (tasks tm' nxt)" using s(7-9) by auto
  with s lv q n show ?thesis by auto
qed

lemma run_switches_ok:
  assumes "sched_inv tm" and "\<not> level_changed tm" and "cs \<noteq> []"
  shows "\<exists>tm' cpu'. run_switches tm cpu cs = Some (tm', cpu') \<and> sched_inv tm' \<and>
    current_level tm' = current_level tm \<and>
    run_queue tm' (current_level tm) = rotate (length cs) (run_queue tm (current_level tm)) \<and>
    Some cpu' = map_option task_context (tasks tm' (hd (run_queue tm' (current_level tm)))) \<and>
    (length cs \<le> length (run_queue tm (current_level tm)) \<longrightarrow>
       (\<forall>u. u \<notin> set (take (length cs) (run_queue tm (current_level tm))) \<longrightarrow> tasks tm' u = tasks tm u))"
  using assms
proof (induction cs arbitrary: tm cpu)
  case (Cons c cs)
  obtain tm1 cpu1 k where s: "SwitchTask tm c = Some (tm1, cpu1)" "sched_inv tm1" "\<not> level_changed tm1"
      "current_level tm1 = current_level tm"
      "run_queue tm1 = (run_queue tm)(current_level tm := rotate1 (run_queue tm (current_level tm)))"
      "tasks tm1 = (tasks tm)(hd (run_queue tm (current_level tm)) \<mapsto> k\<lparr>task_context := c\<rparr>)"
      "Some cpu1 = map_option task_context (tasks tm1 (hd (run_queue tm1 (current_level tm))))"
    using SwitchTask_same_level[OF Cons.prems(1,2), of c] by blast
  obtain t rest where q: "run_queue tm (current_level tm) = t # rest"
    by (rule sched_inv_current[OF Cons.prems(1)]) blast
  show ?case
  proof (cases "cs = []")
    case True
    then show ?thesis using s q by (intro exI[of _ tm1] exI[of _ cpu1]) simp
  next
    case False
    then obtain tm2 cpu2 where t: "run_switches tm1 cpu1 cs = Some (tm2, cpu2)" "sched_inv tm2"
        "current_level tm2 = current_level tm1"
        "run_queue tm2 (current_level tm1) = rotate (length cs) (run_queue tm1 (current_level tm1))"
        "Some cpu2 = map_option task_context (tasks tm2 (hd (run_queue tm2 (current_level tm1))))"
        "length cs \<le> length (run_queue tm1 (current_level tm1)) \<Longrightarrow>
          \<forall>u. u \<notin> set (take (length cs) (run_queue tm1 (current_level tm1))) \<longrightarrow> tasks tm2 u = tasks tm1 u"
      using Cons.IH[OF s(2,3), of cpu1] by blast
    have "tasks tm2 u = tasks tm u"
      if "length (c # cs) \<le> length (t # rest)" "u \<notin> set (take (length (c # cs)) (t # rest))" for u
      using t(6) that s q by simp
    moreover have "rotate (length cs) (rotate1 (t # rest)) = rotate (length (c # cs)) (t # rest)"
      by (simp add: rotate1_rotate_swap)
    ultimately show ?thesis using s t q by (intro exI[of _ tm2] exI[of _ cpu2]) simp
  qed
qed simp

subsection \<open>Properties\<close>

text \<open>A small system for the examples: tasks 3 and 4 were created and woken at the level of the main task.\<close>

definition sample_task :: "nat \<Rightarrow> nat \<Rightarrow> unit Task" where
  "sample_task i lv = (new_Task i)\<lparr>task_level := lv, task_running := True\<rparr>"

definition sample_tm :: "unit TaskManager" where
  "sample_tm = \<lparr>tasks = [1 \<mapsto> sample_task 1 3, 2 \<mapsto> sample_task 2 0, 3 \<mapsto> sample_task 3 3, 4 \<mapsto> sample_task 4 3],
     latest_id = 4, run_queue = (\<lambda>_. [])(0 := [2], 3 := [1, 3, 4]), current_level = 3, level_changed = False,
     finish_tasks = (\<lambda>_. None), finish_waiter = (\<lambda>_. None)\<rparr>"

lemma sample_tm_inv: "sched_inv sample_tm"
  by (simp add: sched_inv_def queues_ok_def level_ok_def top_level_def sample_tm_def sample_task_def new_Task_def kMaxLevel_def)

lemma sample_tm_simps:
  "CurrentTask sample_tm = Some 1" "run_queue sample_tm (current_level sample_tm) = [1, 3, 4]"
  "\<not> level_changed sample_tm" "tasks sample_tm 1 = Some (sample_task 1 3)" "tasks sample_tm 3 = Some (sample_task 3 3)"
  "finish_waiter sample_tm i = None" "finish_tasks sample_tm i = None" "msgs (sample_task i l) = []"
  by (simp_all add: CurrentTask_def sample_tm_def sample_task_def new_Task_def)

text \<open>C3: The scheduler never gets stuck. In every state that a sequence of the kernel's calls reaches from
  boot, the front of the current level's queue exists and is a live running task at that level, no
  queue holds a dead or sleeping task, and every call (preempting, sleeping, waking, sending,
  finishing, waiting) is defined: none dereferences an empty queue or a dead task.\<close>

theorem scheduler_never_stuck:
  assumes "sched_reach (tm, cpu)"
  shows "(\<exists>t k. CurrentTask tm = Some t \<and> tasks tm t = Some k \<and> task_running k \<and> task_level k = current_level tm)
    \<and> (\<forall>lv t. t \<in> set (run_queue tm lv) \<longleftrightarrow> (\<exists>k. tasks tm t = Some k \<and> task_running k \<and> task_level k = lv))
    \<and> SwitchTask tm ctx \<noteq> None
    \<and> (t \<noteq> 2 \<longrightarrow> Sleep_id tm cpu t \<noteq> None)
    \<and> (lv \<le> int kMaxLevel \<longrightarrow> (t = 2 \<longrightarrow> lv \<le> 0) \<longrightarrow> Wakeup_id tm t lv \<noteq> None)
    \<and> SendMessage tm t m \<noteq> None
    \<and> (CurrentTask tm = Some c \<longrightarrow> c \<noteq> 2 \<longrightarrow> WaitFinish_step tm cpu c i \<noteq> None \<and>
        ((\<forall>i. finish_waiter tm i \<noteq> Some c) \<longrightarrow> Finish tm code \<noteq> None))"
proof -
  have inv: "sched_inv tm" using sched_reach_inv[OF assms] by simp
  have q: "t \<in> set (run_queue tm lv) \<longleftrightarrow> (\<exists>k. tasks tm t = Some k \<and> task_running k \<and> task_level k = lv)" for t lv
    using queues_ok_tasks(1,3)[OF sched_invD(1)[OF inv]] by blast
  have cur: "\<exists>t k. CurrentTask tm = Some t \<and> tasks tm t = Some k \<and> task_running k \<and> task_level k = current_level tm"
    by (rule sched_inv_current[OF inv]) blast
  have sw: "SwitchTask tm ctx \<noteq> None" by (rule SwitchTask_ok[OF inv, of ctx]) simp
  have sl: "Sleep_id tm cpu t \<noteq> None" if "t \<noteq> 2"
    using Sleep_ok[OF inv _ that, of _ cpu] by (cases "tasks tm t") (auto simp: Sleep_id_def)
  have wu: "Wakeup_id tm t lv \<noteq> None" if "lv \<le> int kMaxLevel" "t = 2 \<longrightarrow> lv \<le> 0"
    using Wakeup_id_ok[OF inv that(1)] that(2) by fastforce
  have sm: "SendMessage tm t m \<noteq> None" using task_mail.send_any[OF inv, of t m] by auto
  have wf: "WaitFinish_step tm cpu c i \<noteq> None" if "CurrentTask tm = Some c" "c \<noteq> 2"
    using WaitFinish_step_ok[OF inv that, of cpu i] by auto
  have fi: "Finish tm code \<noteq> None" if "CurrentTask tm = Some c" "c \<noteq> 2" "\<forall>i. finish_waiter tm i \<noteq> Some c"
    using Finish_ok[OF inv that, of code] by auto
  show ?thesis using cur by (intro conjI impI allI) (use q sw sl wu sm wf fi in \<open>assumption | simp\<close>)+
qed

lemma scheduler_never_stuck_witness:
  "\<exists>t k. CurrentTask (fst (NewTask (new_TaskManager 1 0x8000 0x100000 :: unit TaskManager))) = Some t \<and>
     tasks (fst (NewTask (new_TaskManager 1 0x8000 0x100000 :: unit TaskManager))) t = Some k \<and> task_running k"
proof -
  have "sched_reach (fst (NewTask (new_TaskManager 1 0x8000 0x100000 :: unit TaskManager)), zero_context)"
    by (rule sched_reach.step[OF sched_reach.boot sched_step.new])
  from scheduler_never_stuck[OF this] show ?thesis by blast
qed

text \<open>C4: Preemption runs the most urgent work. \<open>SwitchTask\<close> stores the interrupted registers in the
  task that was running, leaves as current a task of the highest level that has any, and
  returns to exactly the registers saved for that task; no other task changes.\<close>

theorem SwitchTask_highest_level:
  assumes "sched_inv tm" and "CurrentTask tm = Some cur" and "tasks tm cur = Some k"
  shows "\<exists>tm' nxt k'. SwitchTask tm ctx = Some (tm', task_context k')
    \<and> tasks tm' = (tasks tm)(cur \<mapsto> k\<lparr>task_context := ctx\<rparr>)
    \<and> CurrentTask tm' = Some nxt \<and> tasks tm' nxt = Some k' \<and> task_running k'
    \<and> (\<forall>u j. tasks tm' u = Some j \<longrightarrow> task_running j \<longrightarrow> task_level j \<le> task_level k')
    \<and> sched_inv tm'"
proof -
  obtain tm' cpu' nxt k' where s: "SwitchTask tm ctx = Some (tm', cpu')" "sched_inv tm'" "top_level tm'"
      "CurrentTask tm' = Some nxt" "tasks tm' = (tasks tm)(cur \<mapsto> k\<lparr>task_context := ctx\<rparr>)"
      "tasks tm' nxt = Some k'" "cpu' = (if nxt = cur then ctx else task_context k')"
    by (rule SwitchTask_ok[OF assms(1), of ctx]) (use assms(2,3) in auto)
  have "cpu' = task_context k'" using s(5-7) by auto
  moreover have k': "task_running k' \<and> task_level k' = current_level tm'"
    using sched_inv_current[OF s(2)] s(4,6) by (metis option.inject)
  moreover have "task_level j \<le> current_level tm'" if "tasks tm' u = Some j" "task_running j" for u j
    using queues_ok_tasks(3)[OF sched_invD(1)[OF s(2)] that] s(3) unfolding top_level_def
    by (metis empty_iff list.set(1) not_le)
  ultimately show ?thesis using s by auto
qed

lemma SwitchTask_highest_level_witness:
  "\<exists>tm' (k' :: unit Task). SwitchTask sample_tm zero_context = Some (tm', task_context k') \<and> sched_inv tm'"
  using SwitchTask_highest_level[OF sample_tm_inv sample_tm_simps(1,4), of zero_context] by blast

text \<open>C5: Round robin without starvation. When no task of another level wakes, \<open>n\<close> consecutive
  preemptions leave the run queue of the current level rotated by \<open>n\<close>: the task at position
  \<open>i\<close> runs after \<open>i\<close> time slices and again every \<open>length q\<close> slices.\<close>

theorem round_robin:
  assumes "sched_inv tm" and "\<not> level_changed tm" and "run_queue tm (current_level tm) = q"
  shows "\<exists>tm' cpu'. run_switches tm cpu ctxs = Some (tm', cpu') \<and> current_level tm' = current_level tm \<and>
    run_queue tm' (current_level tm) = rotate (length ctxs) q \<and>
    CurrentTask tm' = Some (q ! (length ctxs mod length q))"
proof -
  have q: "q \<noteq> []" using sched_invD(2)[OF assms(1)] assms(3) by (simp add: level_ok_def)
  obtain tm' cpu' where "run_switches tm cpu ctxs = Some (tm', cpu')" "current_level tm' = current_level tm"
      "run_queue tm' (current_level tm) = rotate (length ctxs) q"
    using run_switches_ok[OF assms(1,2), of ctxs cpu] assms(3) by (cases "ctxs = []") auto
  moreover have "rotate n q = q ! (n mod length q) # tl (rotate n q)" for n
    using q hd_rotate_conv_nth[of q n] by (metis hd_Cons_tl rotate_is_Nil_conv)
  ultimately show ?thesis by (auto simp: CurrentTask_iff)
qed

lemma round_robin_witness:
  "\<exists>tm' cpu'. run_switches sample_tm zero_context (replicate 5 zero_context) = Some (tm', cpu') \<and> CurrentTask tm' = Some 4"
  using round_robin[OF sample_tm_inv sample_tm_simps(3,2), of zero_context "replicate 5 zero_context"] by auto

text \<open>A preempted task resumes with its own registers. If the running task is interrupted with
  registers \<open>ctx\<close>, then after every other task of the queue had its slice the processor is
  back in that task with exactly \<open>ctx\<close>.\<close>

theorem preempted_task_resumes:
  assumes "sched_inv tm" and "\<not> level_changed tm"
    and "run_queue tm (current_level tm) = t # others" and "length ctxs = length others"
  shows "\<exists>tm'. run_switches tm cpu (ctx # ctxs) = Some (tm', ctx) \<and> CurrentTask tm' = Some t \<and> sched_inv tm'"
proof -
  obtain tm1 cpu1 k where s: "SwitchTask tm ctx = Some (tm1, cpu1)" "sched_inv tm1" "\<not> level_changed tm1"
      "current_level tm1 = current_level tm" "run_queue tm1 (current_level tm) = others @ [t]"
      "tasks tm1 t = Some (k\<lparr>task_context := ctx\<rparr>)"
      "Some cpu1 = map_option task_context (tasks tm1 (hd (others @ [t])))"
    using SwitchTask_same_level[OF assms(1,2), of ctx] assms(3) by fastforce
  show ?thesis
  proof (cases "ctxs = []")
    case True
    then show ?thesis using s assms(4) by (auto simp: CurrentTask_iff)
  next
    case False
    obtain tm2 cpu2 where r: "run_switches tm1 cpu1 ctxs = Some (tm2, cpu2)" "sched_inv tm2"
        "current_level tm2 = current_level tm" "run_queue tm2 (current_level tm) = rotate (length ctxs) (others @ [t])"
        "Some cpu2 = map_option task_context (tasks tm2 (hd (run_queue tm2 (current_level tm))))"
        "\<forall>u. u \<notin> set (take (length ctxs) (others @ [t])) \<longrightarrow> tasks tm2 u = tasks tm1 u"
      using run_switches_ok[OF s(2,3) False, of cpu1] s(4,5) assms(4) by auto
    have "t \<notin> set others" using queues_ok_tasks(4)[OF sched_invD(1)[OF assms(1)], of "current_level tm"] assms(3) by simp
    then have "tasks tm2 t = tasks tm1 t" using r(6) assms(4) by simp
    moreover have "rotate (length ctxs) (others @ [t]) = t # others" using assms(4) rotate_append[of others "[t]"] by simp
    ultimately show ?thesis using r s(1,6) by (auto simp: CurrentTask_iff)
  qed
qed

lemma preempted_task_resumes_witness:
  "\<exists>tm'. run_switches sample_tm zero_context [zero_context\<lparr>rip := 7\<rparr>, zero_context, zero_context] = Some (tm', zero_context\<lparr>rip := 7\<rparr>)
     \<and> CurrentTask tm' = Some 1"
  using preempted_task_resumes[OF sample_tm_inv sample_tm_simps(3,2), of "[zero_context, zero_context]" zero_context "zero_context\<lparr>rip := 7\<rparr>"]
  by auto

text \<open>C6: Messages are delivered in order and wake the receiver. Sending to a live task appends to its
  mailbox and leaves it running, no other mailbox changes, and a task that reads its mailbox
  gets what was there before first; sending to a dead task reports \<open>kNoSuchTask\<close> and changes nothing.\<close>

theorem SendMessage_delivers:
  assumes "sched_inv tm"
  shows "case tasks tm t of
      None \<Rightarrow> SendMessage tm t m = Some (tm, kNoSuchTask)
    | Some k \<Rightarrow> \<exists>tm' k' tm''. SendMessage tm t m = Some (tm', kSuccess) \<and> sched_inv tm'
        \<and> tasks tm' t = Some k' \<and> task_running k' \<and> msgs k' = msgs k @ [m]
        \<and> (\<forall>u. u \<noteq> t \<longrightarrow> tasks tm' u = tasks tm u)
        \<and> ReceiveMessage tm' t = Some (tm'', Some (hd (msgs k @ [m])))
        \<and> mailbox tm'' t = Some (tl (msgs k @ [m]))"
proof (cases "tasks tm t")
  case None
  then show ?thesis by (simp add: SendMessage_def)
next
  case (Some k)
  obtain tm' where s: "SendMessage tm t m = Some (tm', kSuccess)" "sched_inv tm'"
      "tasks tm' = (tasks tm)(t \<mapsto> k\<lparr>msgs := msgs k @ [m], task_running := True\<rparr>)"
    using SendMessage_ok[OF assms Some] by blast
  let ?tm'' = "upd_task t (\<lambda>j. j\<lparr>msgs := tl (msgs k @ [m])\<rparr>) tm'"
  have "ReceiveMessage tm' t = Some (?tm'', Some (hd (msgs k @ [m])))"
    using s(3) by (cases "msgs k") (simp_all add: ReceiveMessage_def ReceiveMessage_task_def upd_task_def)
  moreover have "mailbox ?tm'' t = Some (tl (msgs k @ [m]))" using s(3) by (simp add: mailbox_def)
  ultimately show ?thesis using Some s by auto
qed

lemma SendMessage_delivers_witness:
  "\<exists>tm'. SendMessage sample_tm 3 (mk_Message kLayerFinish) = Some (tm', kSuccess) \<and> sched_inv tm'"
  using SendMessage_delivers[OF sample_tm_inv, of 3 "mk_Message kLayerFinish"] by (auto simp: sample_tm_simps)

text \<open>An exit code reaches the waiting task. If \<open>w\<close> registered for task \<open>t\<close> and \<open>t\<close> is the running
  task, \<open>Finish\<close> removes \<open>t\<close>, wakes \<open>w\<close>, and in any later state that still records
  the exit, the next turn of \<open>w\<close>'s \<open>WaitFinish\<close> loop returns exactly that exit code and
  removes the record.\<close>

theorem Finish_wakes_waiter:
  fixes tm :: "'f TaskManager"
  assumes "sched_inv tm" and "CurrentTask tm = Some t" and "t \<noteq> 2"
    and "finish_waiter tm t = Some w" and "\<forall>i. finish_waiter tm i \<noteq> Some t"
  shows "\<exists>tm' cpu' k. Finish tm code = Some (tm', cpu') \<and> sched_inv tm'
    \<and> tasks tm' t = None \<and> tasks tm' w = Some k \<and> task_running k \<and> w \<in> set (run_queue tm' (task_level k))
    \<and> finish_waiter tm' t = None
    \<and> (\<forall>(s :: 'f TaskManager) cpu. finish_tasks s t = finish_tasks tm' t \<longrightarrow>
         (\<exists>s'. WaitFinish_step s cpu w t = Some (s', cpu, Some code) \<and> finish_tasks s' t = None))"
proof -
  obtain tm' cpu' where f: "Finish tm code = Some (tm', cpu')" "sched_inv tm'" "tasks tm' t = None"
      "finish_tasks tm' = (finish_tasks tm)(t \<mapsto> code)" "finish_waiter tm' = (finish_waiter tm)(t := None)"
      "\<exists>k. tasks tm' w = Some k \<and> task_running k"
    using Finish_ok[OF assms(1-3,5), of code] assms(4) by blast
  have w: "\<exists>s'. WaitFinish_step s cpu w t = Some (s', cpu, Some code) \<and> finish_tasks s' t = None"
    if "finish_tasks s t = finish_tasks tm' t" for s :: "'f TaskManager" and cpu
    using that f(4) by (simp add: WaitFinish_step_def)
  obtain k where k: "tasks tm' w = Some k" "task_running k" using f(6) by blast
  have "w \<in> set (run_queue tm' (task_level k))" by (rule queues_ok_tasks(3)[OF sched_invD(1)[OF f(2)] k])
  then show ?thesis using f(1-3,5) w k by (intro exI[of _ tm'] exI[of _ cpu'] exI[of _ k]) simp
qed

lemma Finish_wakes_waiter_witness:
  "\<exists>tm' cpu' k. Finish (sample_tm\<lparr>finish_waiter := [1 \<mapsto> 3]\<rparr>) 42 = Some (tm', cpu') \<and> tasks tm' 1 = None \<and>
     tasks tm' 3 = Some k \<and> task_running k"
proof -
  let ?tm = "sample_tm\<lparr>finish_waiter := [1 \<mapsto> 3]\<rparr>"
  have "sched_inv ?tm" using sample_tm_inv sample_tm_simps(5)
    by (simp add: sched_inv_def queues_ok_def level_ok_def top_level_def)
  moreover have "CurrentTask ?tm = Some 1" using sample_tm_simps(1) by (simp add: CurrentTask_def)
  moreover have "(1::nat) \<noteq> 2" "finish_waiter ?tm 1 = Some 3" "\<forall>i. finish_waiter ?tm i \<noteq> Some 1" by simp_all
  ultimately show ?thesis using Finish_wakes_waiter[of ?tm 1 3 42] by blast
qed

end
