(* ===== verification/Timer.thy ===== *)
theory Timer
  imports Task "HOL-Library.Multiset"
begin

text \<open>
  Timers: \<^verbatim>\<open>kernel/timer.cpp\<close> and \<^verbatim>\<open>kernel/timer.hpp\<close>. \<open>std::priority_queue\<close> promises only that
  \<open>top\<close> is an element no other comes before, so the loop of \<open>Tick\<close> takes the queue's operations as
  arguments, the locale \<open>timer_queue\<close> states that promise and the loop is proved for every queue that keeps it
  and every \<open>messenger\<close>. A list sorted by timeout and the task manager interpret the two.
\<close>

definition kTimerFreq :: nat where "kTimerFreq = 100"
definition kTaskTimerPeriod :: u64 where "kTaskTimerPeriod = 2"
definition kTaskTimerValue :: int where "kTaskTimerValue = 2 ^ 31 - 1"

subsection \<open>The local APIC timer\<close>

record LAPIC =
  divide_config :: u32
  lvt_timer :: u32
  initial_count :: u32
  current_count :: u32

definition kCountMax :: u32 where "kCountMax = 0xffffffff"

definition StartLAPICTimer :: "LAPIC \<Rightarrow> LAPIC" where
  "StartLAPICTimer r = r\<lparr>initial_count := kCountMax\<rparr>"

definition LAPICTimerElapsed :: "LAPIC \<Rightarrow> u32" where
  "LAPICTimerElapsed r = kCountMax - current_count r"

definition StopLAPICTimer :: "LAPIC \<Rightarrow> LAPIC" where
  "StopLAPICTimer r = r\<lparr>initial_count := 0\<rparr>"

text \<open>\<open>kLAPICTimer\<close> is the interrupt vector of \<^verbatim>\<open>interrupt.hpp\<close>; \<open>wait\<close> is what 100 ms do to the registers.\<close>

definition InterruptVector_kLAPICTimer :: u32 where "InterruptVector_kLAPICTimer = 0x41"

definition InitializeLAPICTimer :: "(LAPIC \<Rightarrow> LAPIC) \<Rightarrow> LAPIC \<Rightarrow> LAPIC \<times> u64" where
  "InitializeLAPICTimer wait r0 =
     (let r1 = wait (StartLAPICTimer (r0\<lparr>divide_config := 11, lvt_timer := push_bit 16 1\<rparr>));
          elapsed = LAPICTimerElapsed r1;
          freq = (ucast elapsed :: u64) * 10;
          r2 = (StopLAPICTimer r1)\<lparr>divide_config := 11,
                 lvt_timer := push_bit 16 2 OR InterruptVector_kLAPICTimer,
                 initial_count := ucast (freq div of_nat kTimerFreq)\<rparr>
      in (r2, freq))"

subsection \<open>Timers and the manager\<close>

record Timer =
  Timeout :: u64
  Value :: int
  TaskID :: nat

definition mk_Timer :: "u64 \<Rightarrow> int \<Rightarrow> nat \<Rightarrow> Timer" where
  "mk_Timer t v i = \<lparr>Timeout = t, Value = v, TaskID = i\<rparr>"

definition timer_less :: "Timer \<Rightarrow> Timer \<Rightarrow> bool" where
  "timer_less lhs rhs \<longleftrightarrow> Timeout lhs > Timeout rhs"

text \<open>The message a timer sends when it is due.\<close>

definition timer_message :: "Timer \<Rightarrow> Message" where
  "timer_message t = mk_Message (kTimerTimeout (unat (Timeout t)) (Value t))"

text \<open>The loop of \<open>Tick\<close>. \<open>None\<close>: an empty queue, a send that is undefined, or no end.\<close>

partial_function (option) tick_loop ::
  "('q \<Rightarrow> Timer option) \<Rightarrow> (Timer \<Rightarrow> 'q \<Rightarrow> 'q) \<Rightarrow> ('q \<Rightarrow> 'q) \<Rightarrow>
   ('s \<Rightarrow> nat \<Rightarrow> Message \<Rightarrow> ('s \<times> Error_Code) option) \<Rightarrow> u64 \<Rightarrow> 'q \<Rightarrow> 's \<Rightarrow> bool \<Rightarrow> ('q \<times> 's \<times> bool) option" where
  "tick_loop qtop qpush qpop send tick q s task_timer_timeout =
     (case qtop q of
        None \<Rightarrow> None
      | Some t \<Rightarrow>
          if Timeout t > tick then Some (q, s, task_timer_timeout)
          else if Value t = kTaskTimerValue
            then tick_loop qtop qpush qpop send tick
                   (qpush (mk_Timer (tick + kTaskTimerPeriod) kTaskTimerValue 1) (qpop q)) s True
            else (case send s (TaskID t) (timer_message t) of
                    None \<Rightarrow> None
                  | Some r \<Rightarrow> tick_loop qtop qpush qpop send tick (qpop q) (fst r) task_timer_timeout))"

record TimerManager =
  tick :: u64
  timers :: "Timer list"

fun timer_top :: "Timer list \<Rightarrow> Timer option" where
  "timer_top [] = None"
| "timer_top (t # ts) = Some t"

definition timer_push :: "Timer \<Rightarrow> Timer list \<Rightarrow> Timer list" where
  "timer_push t ts = insort_key Timeout t ts"

definition AddTimer :: "Timer \<Rightarrow> TimerManager \<Rightarrow> TimerManager" where
  "AddTimer t m = m\<lparr>timers := timer_push t (timers m)\<rparr>"

definition sentinel :: Timer where
  "sentinel = mk_Timer 0xffffffffffffffff 0 0"

definition new_TimerManager :: TimerManager where
  "new_TimerManager = \<lparr>tick = 0, timers = timer_push sentinel []\<rparr>"

definition Tick ::
  "('s \<Rightarrow> nat \<Rightarrow> Message \<Rightarrow> ('s \<times> Error_Code) option) \<Rightarrow> TimerManager \<Rightarrow> 's \<Rightarrow> (TimerManager \<times> 's \<times> bool) option" where
  "Tick send m s =
     (let now = tick m + 1
      in case tick_loop timer_top timer_push tl send now (timers m) s False of
           None \<Rightarrow> None
         | Some (q, s', b) \<Rightarrow> Some (\<lparr>tick = now, timers = q\<rparr>, s', b))"

text \<open>The timer interrupt: expired timers first, then, if a time slice ended, the task switch.\<close>

definition LAPICTimerOnInterrupt ::
  "TimerManager \<Rightarrow> 'f TaskManager \<Rightarrow> TaskContext \<Rightarrow> (TimerManager \<times> 'f TaskManager \<times> TaskContext) option" where
  "LAPICTimerOnInterrupt m tm ctx_stack = do {
     (m', tm', task_timer_timeout) \<leftarrow> Tick SendMessage m tm;
     if task_timer_timeout
       then do { (tm'', cpu) \<leftarrow> SwitchTask tm' ctx_stack; Some (m', tm'', cpu) }
       else Some (m', tm', ctx_stack) }"

definition InitializeTask_timer :: "TimerManager \<Rightarrow> TimerManager" where
  "InitializeTask_timer m = AddTimer (mk_Timer (tick m + kTaskTimerPeriod) kTaskTimerValue 1) m"

subsection \<open>What the loop needs of a priority queue\<close>

locale timer_queue =
  fixes qtop :: "'q \<Rightarrow> Timer option" and qpush :: "Timer \<Rightarrow> 'q \<Rightarrow> 'q" and qpop :: "'q \<Rightarrow> 'q"
    and elems :: "'q \<Rightarrow> Timer multiset" and ok :: "'q \<Rightarrow> bool"
  assumes top_None: "ok q \<Longrightarrow> qtop q = None \<Longrightarrow> elems q = {#}"
    and top_Some: "ok q \<Longrightarrow> qtop q = Some t \<Longrightarrow>
      t \<in># elems q \<and> (\<forall>u \<in># elems q. Timeout t \<le> Timeout u) \<and> ok (qpop q) \<and> elems (qpop q) = elems q - {#t#}"
    and push_ok: "ok q \<Longrightarrow> ok (qpush t q) \<and> elems (qpush t q) = add_mset t (elems q)"

definition due :: "u64 \<Rightarrow> Timer multiset \<Rightarrow> Timer multiset" where
  "due now ts = {#t \<in># ts. Timeout t \<le> now#}"

definition slice_timers :: "Timer multiset \<Rightarrow> Timer multiset" where
  "slice_timers ts = {#t \<in># ts. Value t = kTaskTimerValue#}"

definition app_timers :: "Timer multiset \<Rightarrow> Timer multiset" where
  "app_timers ts = {#t \<in># ts. Value t \<noteq> kTaskTimerValue#}"

lemma due_add: "due now (add_mset t ts) = (if Timeout t \<le> now then add_mset t (due now ts) else due now ts)"
  by (simp add: due_def)

lemma slice_timers_add:
  "slice_timers (add_mset t ts) = (if Value t = kTaskTimerValue then add_mset t (slice_timers ts) else slice_timers ts)"
  by (simp add: slice_timers_def)

lemma app_timers_add:
  "app_timers (add_mset t ts) = (if Value t \<noteq> kTaskTimerValue then add_mset t (app_timers ts) else app_timers ts)"
  by (simp add: app_timers_def)

lemmas timer_mset_simps = due_add slice_timers_add app_timers_add

lemma timer_mset_empty [simp]: "due now {#} = {#}" "slice_timers {#} = {#}" "app_timers {#} = {#}"
  by (simp_all add: due_def slice_timers_def app_timers_def)

text \<open>The pending timers that stay when \<open>now\<close> comes.\<close>

definition not_due :: "u64 \<Rightarrow> Timer multiset \<Rightarrow> Timer multiset" where
  "not_due now ts = {#t \<in># ts. \<not> Timeout t \<le> now#}"

lemma not_due_add: "not_due now (add_mset t ts) = (if Timeout t \<le> now then not_due now ts else add_mset t (not_due now ts))"
  by (simp add: not_due_def)

lemma not_due_all: "due now ts = {#} \<Longrightarrow> not_due now ts = ts \<and> (\<forall>u \<in># ts. now < Timeout u)"
  by (induction ts) (auto simp: due_add not_due_add not_due_def not_le split: if_splits)

locale timer_system = timer_queue qtop qpush qpop elems ok + messenger inv mailbox send
  for qtop :: "'q \<Rightarrow> Timer option" and qpush qpop elems ok
    and inv :: "'s \<Rightarrow> bool" and mailbox send
begin

text \<open>
  The loop ends, as long as some timer is still to come and the next time slice does not overflow the
  clock. Every due timer leaves the queue: the time-slice timers come back one period later, the
  others are sent in order of their timeouts.
\<close>

lemma tick_loop_correct:
  assumes "ok q" and "inv s" and "now < now + kTaskTimerPeriod" and "not_due now (elems q) \<noteq> {#}"
  shows "\<exists>q' s' fired. tick_loop qtop qpush qpop send now q s b = Some (q', s', b \<or> slice_timers (due now (elems q)) \<noteq> {#})
    \<and> ok q' \<and> inv s'
    \<and> elems q' = not_due now (elems q) +
        image_mset (\<lambda>_. mk_Timer (now + kTaskTimerPeriod) kTaskTimerValue 1) (slice_timers (due now (elems q)))
    \<and> mset fired = app_timers (due now (elems q)) \<and> sorted (map Timeout fired)
    \<and> send_all send s (map (\<lambda>t. (TaskID t, timer_message t)) fired) = Some s'"
  using assms
proof (induction "size (due now (elems q))" arbitrary: q s b)
  case 0
  then obtain t where t: "qtop q = Some t" using top_None[OF 0(2)] by (cases "qtop q") (auto simp: not_due_def)
  have d: "due now (elems q) = {#}" using 0(1) by simp
  note nd = not_due_all[OF d]
  have "now < Timeout t" using nd top_Some[OF 0(2) t] by blast
  then show ?case using 0(2-) t d nd
    by (subst tick_loop.simps) (intro exI[of _ q] exI[of _ s] exI[of _ "[]"], simp)
next
  case (Suc n)
  note ok = Suc.prems(1) and inv = Suc.prems(2) and now = Suc.prems(3) and later = Suc.prems(4)
  obtain t where t: "qtop q = Some t" using top_None[OF ok] later by (cases "qtop q") (auto simp: not_due_def)
  note tt = top_Some[OF ok t]
  obtain d where d: "d \<in># due now (elems q)" using Suc.hyps(2) by (metis size_eq_Suc_imp_elem)
  then have le: "Timeout t \<le> now" using tt by (auto simp: due_def dest: order_trans)
  obtain es where es: "elems q = add_mset t es" using tt by (metis insert_DiffM)
  have qpop: "ok (qpop q)" "elems (qpop q) = es" using tt es by auto
  have later': "not_due now es \<noteq> {#}" using later es le by (simp add: not_due_add)
  have n: "n = size (due now es)" using Suc.hyps(2) es le by (simp add: due_add)
  show ?case
  proof (cases "Value t = kTaskTimerValue")
    case True
    let ?new = "mk_Timer (now + kTaskTimerPeriod) kTaskTimerValue 1"
    have q2: "ok (qpush ?new (qpop q))" "elems (qpush ?new (qpop q)) = add_mset ?new es"
      using push_ok[OF qpop(1)] qpop(2) by auto
    have nd: "due now (add_mset ?new es) = due now es" "not_due now (add_mset ?new es) = add_mset ?new (not_due now es)"
      using now by (auto simp: due_add not_due_add mk_Timer_def)
    obtain q' s' fired where "tick_loop qtop qpush qpop send now (qpush ?new (qpop q)) s True = Some (q', s', True)"
      "ok q'" "inv s'" "elems q' = add_mset ?new (not_due now es) + image_mset (\<lambda>_. ?new) (slice_timers (due now es))"
      "mset fired = app_timers (due now es)" "sorted (map Timeout fired)"
      "send_all send s (map (\<lambda>t. (TaskID t, timer_message t)) fired) = Some s'"
      using Suc.hyps(1)[OF _ q2(1) inv now, of True] q2(2) nd n by auto
    then show ?thesis using es le True t
      by (subst tick_loop.simps) (intro exI[of _ q'] exI[of _ s'] exI[of _ fired],
        simp add: timer_mset_simps not_due_add not_less leD)
  next
    case False
    obtain s1 e where s1: "send s (TaskID t) (timer_message t) = Some (s1, e)" "inv s1"
      using send_any[OF inv] by blast
    obtain q' s' fired where r: "tick_loop qtop qpush qpop send now (qpop q) s1 b =
        Some (q', s', b \<or> slice_timers (due now es) \<noteq> {#})"
      "ok q'" "inv s'" "elems q' = not_due now es +
         image_mset (\<lambda>_. mk_Timer (now + kTaskTimerPeriod) kTaskTimerValue 1) (slice_timers (due now es))"
      "mset fired = app_timers (due now es)" "sorted (map Timeout fired)"
      "send_all send s1 (map (\<lambda>t. (TaskID t, timer_message t)) fired) = Some s'"
      using Suc.hyps(1)[OF _ qpop(1) s1(2) now, of b] qpop(2) later' n by auto
    have "set fired \<subseteq> set_mset (elems q)"
      using r(5) es by (metis app_timers_def due_def insertCI multiset_filter_subset set_mset_add_mset_insert
          set_mset_mono set_mset_mset subset_iff subset_mset.order_trans)
    then have "sorted (map Timeout (t # fired))" using r(6) tt by auto
    then show ?thesis using es le False t s1 r
      by (subst tick_loop.simps) (intro exI[of _ q'] exI[of _ s'] exI[of _ "t # fired"],
        simp add: timer_mset_simps not_due_add leD)
  qed
qed

end

subsection \<open>The sorted list and the task manager\<close>

definition timers_sorted :: "Timer list \<Rightarrow> bool" where
  "timers_sorted q = sorted (map Timeout q)"

interpretation timer_list: timer_queue timer_top timer_push tl mset timers_sorted
proof unfold_locales
  fix q t
  assume "timers_sorted q" "timer_top q = Some t"
  then show "t \<in># mset q \<and> (\<forall>u\<in>#mset q. Timeout t \<le> Timeout u) \<and> timers_sorted (tl q) \<and> mset (tl q) = mset q - {#t#}"
    by (cases q) (auto simp: timers_sorted_def)
next
  fix q :: "Timer list"
  assume "timer_top q = None"
  then show "mset q = {#}" by (cases q) auto
next
  fix q t
  assume "timers_sorted q"
  then show "timers_sorted (timer_push t q) \<and> mset (timer_push t q) = add_mset t (mset q)"
    by (simp add: timers_sorted_def timer_push_def sorted_insort_key)
qed

interpretation kernel_timers: timer_system timer_top timer_push tl mset timers_sorted sched_inv mailbox SendMessage ..

text \<open>
  \<open>timers_ok\<close>: the heap order, the sentinel that keeps \<open>top\<close> defined, and a clock far from its end.
\<close>

definition timers_ok :: "TimerManager \<Rightarrow> bool" where
  "timers_ok m \<longleftrightarrow> timers_sorted (timers m) \<and> sentinel \<in> set (timers m) \<and> tick m < 0xfffffffffffffffc"

lemma timers_ok_clock:
  assumes "tick m < 0xfffffffffffffffc"
  shows "tick m + 1 < tick m + 1 + kTaskTimerPeriod" and "\<not> Timeout sentinel \<le> tick m + 1"
    and "\<not> tick m + 1 + kTaskTimerPeriod \<le> tick m + 1"
proof -
  have t: "uint (tick m) < 2 ^ 64 - 4" using assms by (simp add: word_less_def)
  have u: "uint (tick m + 1) = uint (tick m) + 1" "uint (tick m + 1 + 2) = uint (tick m) + 3"
    using t by (simp_all add: uint_word_ariths mod_pos_pos_trivial)
  show "tick m + 1 < tick m + 1 + kTaskTimerPeriod" "\<not> Timeout sentinel \<le> tick m + 1"
    "\<not> tick m + 1 + kTaskTimerPeriod \<le> tick m + 1"
    unfolding kTaskTimerPeriod_def sentinel_def mk_Timer_def using t u
    by (simp_all add: word_less_def word_le_def)
qed

lemma Tick_ok:
  assumes "timers_ok m" and "sched_inv tm"
  shows "\<exists>m' tm' fired. Tick SendMessage m tm = Some (m', tm', slice_timers (due (tick m + 1) (mset (timers m))) \<noteq> {#})
    \<and> tick m' = tick m + 1 \<and> sched_inv tm' \<and> timers_sorted (timers m') \<and> sentinel \<in> set (timers m')
    \<and> mset (timers m') = not_due (tick m + 1) (mset (timers m)) +
        image_mset (\<lambda>_. mk_Timer (tick m + 1 + kTaskTimerPeriod) kTaskTimerValue 1)
          (slice_timers (due (tick m + 1) (mset (timers m))))
    \<and> mset fired = app_timers (due (tick m + 1) (mset (timers m))) \<and> sorted (map Timeout fired)
    \<and> (\<forall>u. mailbox tm' u = map_option (\<lambda>b. b @ sent_to u (map (\<lambda>t. (TaskID t, timer_message t)) fired)) (mailbox tm u))"
proof -
  let ?now = "tick m + 1"
  have q: "timers_sorted (timers m)" "sentinel \<in> set (timers m)" "tick m < 0xfffffffffffffffc" using assms(1) by (auto simp: timers_ok_def)
  have s: "sentinel \<in># not_due ?now (mset (timers m))"
    using q(2) timers_ok_clock(2)[OF q(3)] by (simp add: not_due_def)
  then have "not_due ?now (mset (timers m)) \<noteq> {#}" by auto
  from kernel_timers.tick_loop_correct[OF q(1) assms(2) timers_ok_clock(1)[OF q(3)] this, of False]
  obtain q' tm' fired where r: "tick_loop timer_top timer_push tl SendMessage ?now (timers m) tm False =
      Some (q', tm', slice_timers (due ?now (mset (timers m))) \<noteq> {#})"
    "timers_sorted q'" "sched_inv tm'"
    "mset q' = not_due ?now (mset (timers m)) +
        image_mset (\<lambda>_. mk_Timer (?now + kTaskTimerPeriod) kTaskTimerValue 1) (slice_timers (due ?now (mset (timers m))))"
    "mset fired = app_timers (due ?now (mset (timers m)))" "sorted (map Timeout fired)"
    "send_all SendMessage tm (map (\<lambda>t. (TaskID t, timer_message t)) fired) = Some tm'"
    by auto
  have "sentinel \<in># mset q'" using s r(4) by simp
  then have "sentinel \<in> set q'" by (metis set_mset_mset)
  moreover have "\<forall>u. mailbox tm' u = map_option (\<lambda>b. b @ sent_to u (map (\<lambda>t. (TaskID t, timer_message t)) fired)) (mailbox tm u)"
    using task_mail.send_all_mailboxes[OF assms(2), of "map (\<lambda>t. (TaskID t, timer_message t)) fired"] r(7) by auto
  ultimately show ?thesis using r
    by (intro exI[of _ "\<lparr>tick = ?now, timers = q'\<rparr>"] exI[of _ tm'] exI[of _ fired]) (simp add: Tick_def Let_def)
qed

lemma new_TimerManager_ok: "timers_ok new_TimerManager"
  by (simp add: timers_ok_def new_TimerManager_def timer_push_def timers_sorted_def)

lemma AddTimer_ok: "timers_ok m \<Longrightarrow> timers_ok (AddTimer t m)"
  by (simp add: timers_ok_def AddTimer_def timers_sorted_def timer_push_def sorted_insort_key set_insort_key)

subsection \<open>Properties\<close>

text \<open>C7: A tick fires exactly the timers that are due, each once, in order of their timeouts. For any
  priority-queue contents, \<open>Tick\<close> terminates, removes every timer whose timeout has come and
  no other, appends to each task's mailbox precisely the messages of that task's due timers,
  earliest first, and keeps the sentinel and the scheduler's invariant.\<close>

theorem Tick_fires_due_timers:
  assumes "timers_ok m" and "sched_inv tm"
  shows "\<exists>m' tm' b fired. Tick SendMessage m tm = Some (m', tm', b) \<and> sched_inv tm'
    \<and> mset fired = {#t \<in># mset (timers m). Timeout t \<le> tick m + 1 \<and> Value t \<noteq> kTaskTimerValue#}
    \<and> sorted (map Timeout fired)
    \<and> (\<forall>u. mailbox tm' u =
          map_option (\<lambda>b. b @ map timer_message (filter (\<lambda>t. TaskID t = u) fired)) (mailbox tm u))
    \<and> {#t \<in># mset (timers m'). Value t \<noteq> kTaskTimerValue#} =
        {#t \<in># mset (timers m). tick m + 1 < Timeout t \<and> Value t \<noteq> kTaskTimerValue#}
    \<and> sentinel \<in> set (timers m') \<and> tick m' = tick m + 1"
proof -
  obtain m' tm' fired where r: "Tick SendMessage m tm = Some (m', tm', slice_timers (due (tick m + 1) (mset (timers m))) \<noteq> {#})"
    "tick m' = tick m + 1" "sched_inv tm'" "sentinel \<in> set (timers m')"
    "mset (timers m') = not_due (tick m + 1) (mset (timers m)) +
        image_mset (\<lambda>_. mk_Timer (tick m + 1 + kTaskTimerPeriod) kTaskTimerValue 1)
          (slice_timers (due (tick m + 1) (mset (timers m))))"
    "mset fired = app_timers (due (tick m + 1) (mset (timers m)))" "sorted (map Timeout fired)"
    "\<forall>u. mailbox tm' u = map_option (\<lambda>b. b @ sent_to u (map (\<lambda>t. (TaskID t, timer_message t)) fired)) (mailbox tm u)"
    using Tick_ok[OF assms] by blast
  have st: "sent_to u (map (\<lambda>t. (TaskID t, timer_message t)) xs) = map timer_message (filter (\<lambda>t. TaskID t = u) xs)" for u xs
    by (induction xs) auto
  have ap: "mset fired = {#t \<in># mset (timers m). Timeout t \<le> tick m + 1 \<and> Value t \<noteq> kTaskTimerValue#}"
    using r(6) by (simp add: app_timers_def due_def filter_filter_mset conj_commute)
  have im: "filter_mset (\<lambda>t. Value t \<noteq> kTaskTimerValue) (image_mset (\<lambda>_. mk_Timer c kTaskTimerValue 1) M) = {#}" for c M
    by (induction M) (auto simp: mk_Timer_def)
  have "{#t \<in># mset (timers m'). Value t \<noteq> kTaskTimerValue#} =
      {#t \<in># mset (timers m). tick m + 1 < Timeout t \<and> Value t \<noteq> kTaskTimerValue#}"
    using im by (simp add: r(5) not_due_def filter_filter_mset not_le conj_commute)
  with r ap show ?thesis by (intro exI[of _ m'] exI[of _ tm'] exI[of _ "_ :: bool"] exI[of _ fired]) (auto simp: st)
qed

lemma Tick_fires_due_timers_witness:
  "\<exists>m' tm' b fired. Tick SendMessage (AddTimer (mk_Timer 1 (- 5) 3) new_TimerManager) sample_tm = Some (m', tm', b)
     \<and> mset fired = {#mk_Timer 1 (- 5) 3#}"
proof -
  let ?m = "AddTimer (mk_Timer 1 (- 5) 3) new_TimerManager"
  have "{#t \<in># mset (timers ?m). Timeout t \<le> tick ?m + 1 \<and> Value t \<noteq> kTaskTimerValue#} = {#mk_Timer 1 (- 5) 3#}"
    by (simp add: AddTimer_def new_TimerManager_def timer_push_def mk_Timer_def sentinel_def kTaskTimerValue_def word_le_def)
  then show ?thesis
    using Tick_fires_due_timers[OF AddTimer_ok[OF new_TimerManager_ok] sample_tm_inv] by metis
qed

text \<open>Time slices have a fixed length. When the only time-slice timer expires in two ticks, the next
  tick does not request a task switch, the one after it does, and again a single time-slice timer
  then expires two ticks later, whatever other timers are pending.\<close>

theorem time_slice_period:
  assumes "timers_ok m" and "tick m < 0xfffffffffffffff8" and "sched_inv tm"
    and "{#t \<in># mset (timers m). Value t = kTaskTimerValue#} = {#mk_Timer (tick m + kTaskTimerPeriod) kTaskTimerValue 1#}"
  shows "\<exists>m1 tm1 m2 tm2. Tick SendMessage m tm = Some (m1, tm1, False) \<and> Tick SendMessage m1 tm1 = Some (m2, tm2, True)
    \<and> timers_ok m2 \<and> sched_inv tm2 \<and> tick m2 = tick m + kTaskTimerPeriod
    \<and> {#t \<in># mset (timers m2). Value t = kTaskTimerValue#} = {#mk_Timer (tick m2 + kTaskTimerPeriod) kTaskTimerValue 1#}"
proof -
  let ?t = "mk_Timer (tick m + 2) kTaskTimerValue 1" and ?P = "\<lambda>t. Value t = kTaskTimerValue"
  have ft: "uint (tick m) < 2 ^ 64 - 8" using assms(2) by (simp add: word_less_def)
  have u: "uint (tick m + 1) = uint (tick m) + 1" "uint (tick m + 2) = uint (tick m) + 2"
    using ft by (simp_all add: uint_word_ariths mod_pos_pos_trivial)
  have lt: "tick m + 1 < tick m + 2" "\<not> tick m + 2 \<le> tick m + 1" "tick m + 1 < 0xfffffffffffffffc" "tick m + 2 < 0xfffffffffffffffc" using u ft by (simp_all add: word_less_def word_le_def)
  have sw: "slice_timers (due n M) = {#t \<in># slice_timers M. Timeout t \<le> n#}"
    "slice_timers (not_due n M) = {#t \<in># slice_timers M. \<not> Timeout t \<le> n#}" for n M
    by (simp_all add: slice_timers_def due_def not_due_def filter_filter_mset conj_commute)
  have im: "slice_timers (image_mset (\<lambda>_. mk_Timer c kTaskTimerValue 1) M) = image_mset (\<lambda>_. mk_Timer c kTaskTimerValue 1) M" for c M
    by (induction M) (auto simp: mk_Timer_def slice_timers_def)
  have s0: "slice_timers (mset (timers m)) = {#?t#}"
    using assms(4) by (simp add: slice_timers_def kTaskTimerPeriod_def)
  have tt: "Timeout (mk_Timer a b c) = a" for a b c by (simp add: mk_Timer_def)
  have d1: "slice_timers (due (tick m + 1) (mset (timers m))) = {#}" using lt by (simp add: sw s0 tt)
  obtain m1 tm1 where r1: "Tick SendMessage m tm = Some (m1, tm1, False)" "tick m1 = tick m + 1" "sched_inv tm1"
      "timers_sorted (timers m1)" "sentinel \<in> set (timers m1)" "mset (timers m1) = not_due (tick m + 1) (mset (timers m))"
    using Tick_ok[OF assms(1,3)] d1 by auto
  have ok1: "timers_ok m1" using r1 lt by (simp add: timers_ok_def)
  have s1: "slice_timers (mset (timers m1)) = {#?t#}" using lt by (simp add: r1(6) sw s0 tt)
  have t2: "tick m1 + 1 = tick m + 2" by (simp add: r1(2))
  have d2: "slice_timers (due (tick m1 + 1) (mset (timers m1))) = {#?t#}" by (simp add: sw s1 tt t2)
  have n2: "slice_timers (not_due (tick m1 + 1) (mset (timers m1))) = {#}" by (simp add: sw s1 tt t2)
  obtain m2 tm2 where r2: "Tick SendMessage m1 tm1 = Some (m2, tm2, True)" "tick m2 = tick m1 + 1" "sched_inv tm2"
      "timers_sorted (timers m2)" "sentinel \<in> set (timers m2)"
      "mset (timers m2) = not_due (tick m1 + 1) (mset (timers m1)) + {#mk_Timer (tick m1 + 1 + kTaskTimerPeriod) kTaskTimerValue 1#}"
    using Tick_ok[OF ok1 r1(3)] d2 by auto
  have "slice_timers (mset (timers m2)) = {#mk_Timer (tick m2 + kTaskTimerPeriod) kTaskTimerValue 1#}"
    using n2 by (simp add: r2(2,6) slice_timers_def mk_Timer_def)
  moreover have "timers_ok m2" using r2 lt t2 by (simp add: timers_ok_def)
  ultimately show ?thesis using r1 r2 t2 by (auto simp: slice_timers_def kTaskTimerPeriod_def)
qed

lemma time_slice_period_witness:
  "\<exists>m1 tm1 m2 tm2. Tick SendMessage (InitializeTask_timer new_TimerManager) sample_tm = Some (m1, tm1, False)
     \<and> Tick SendMessage m1 tm1 = Some (m2, tm2, True)"
proof -
  let ?m = "InitializeTask_timer new_TimerManager"
  have "tick ?m < 0xfffffffffffffff8"
    "{#t \<in># mset (timers ?m). Value t = kTaskTimerValue#} = {#mk_Timer (tick ?m + kTaskTimerPeriod) kTaskTimerValue 1#}"
    by (simp_all add: InitializeTask_timer_def AddTimer_def new_TimerManager_def timer_push_def mk_Timer_def
        sentinel_def kTaskTimerValue_def)
  moreover have "timers_ok ?m" unfolding InitializeTask_timer_def by (rule AddTimer_ok[OF new_TimerManager_ok])
  ultimately show ?thesis using time_slice_period[OF _ _ sample_tm_inv, of ?m] by blast
qed

end
