(* ===== verification/Fat.thy ===== *)
theory Fat
  imports Prelude "HOL-Library.Sublist"
begin

text \<open>
  The FAT32 file system of the boot volume: \<^verbatim>\<open>kernel/fat.cpp\<close> and \<^verbatim>\<open>kernel/fat.hpp\<close>, less the file
  descriptor. The volume is its boot sector, its first allocation table and its clusters;
  \<open>GetClusterAddr\<close> gives the addresses of the clusters and \<open>GetClusterAddr_disjoint\<close> shows that they
  overlap neither each other nor the tables, which is why they can be separate lists here.
  C strings are lists of their bytes before the terminator. A pointer to a directory entry is the
  cluster and the index in it.
\<close>

subsection \<open>The volume\<close>

record BPB =
  jump_boot :: "u8 list"
  oem_name :: "u8 list"
  bytes_per_sector :: u16
  sectors_per_cluster :: u8
  reserved_sector_count :: u16
  num_fats :: u8
  root_entry_count :: u16
  total_sectors_16 :: u16
  media :: u8
  fat_size_16 :: u16
  sectors_per_track :: u16
  num_heads :: u16
  hidden_sectors :: u32
  total_sectors_32 :: u32
  fat_size_32 :: u32
  ext_flags :: u16
  fs_version :: u16
  root_cluster :: u32
  fs_info :: u16
  backup_boot_sector :: u16
  reserved :: "u8 list"
  drive_number :: u8
  reserved_1 :: u8
  boot_signature :: u8
  volume_id :: u32
  volume_label :: "u8 list"
  fs_type :: "u8 list"

record Volume =
  boot_volume_image :: BPB
  table :: "u32 list"
  clusters :: "u8 list list"

text \<open>\<open>Initialize\<close> computes \<open>bytes_per_cluster\<close> once; it is a function of the boot sector.\<close>

definition bytes_per_cluster :: "Volume \<Rightarrow> nat" where
  "bytes_per_cluster v = unat (bytes_per_sector (boot_volume_image v)) * unat (sectors_per_cluster (boot_volume_image v))"

text \<open>
  Byte offsets from the start of the image: \<open>GetClusterAddr\<close> and \<open>GetFAT\<close> less the image's address.
  The number of reserved and table sectors is a 32-bit expression; the rest is 64-bit.
\<close>

definition GetClusterAddr :: "BPB \<Rightarrow> nat \<Rightarrow> nat" where
  "GetClusterAddr b cluster =
     (unat ((ucast (reserved_sector_count b) :: u32) + ucast (num_fats b) * fat_size_32 b)
        + (cluster - 2) * unat (sectors_per_cluster b)) * unat (bytes_per_sector b)"

definition GetFAT :: "BPB \<Rightarrow> nat" where
  "GetFAT b = unat (reserved_sector_count b) * unat (bytes_per_sector b)"

text \<open>\<open>GetSectorByCluster\<close>: the bytes of a cluster; a cluster outside the volume is outside the image.\<close>

definition GetSectorByCluster :: "Volume \<Rightarrow> nat \<Rightarrow> u8 list option" where
  "GetSectorByCluster v c =
     (if 2 \<le> c \<and> c < length (clusters v) + 2 then Some (clusters v ! (c - 2)) else None)"

definition set_cluster :: "nat \<Rightarrow> u8 list \<Rightarrow> Volume \<Rightarrow> Volume" where
  "set_cluster c bs v = v\<lparr>clusters := (clusters v)[c - 2 := bs]\<rparr>"

subsection \<open>Directory entries\<close>

definition kReadOnly :: u8 where "kReadOnly = 0x01"
definition kHidden :: u8 where "kHidden = 0x02"
definition kSystem :: u8 where "kSystem = 0x04"
definition kVolumeID :: u8 where "kVolumeID = 0x08"
definition kDirectory :: u8 where "kDirectory = 0x10"
definition kArchive :: u8 where "kArchive = 0x20"
definition kLongName :: u8 where "kLongName = 0x0f"

record DirectoryEntry =
  entry_name :: "u8 list"
  attr :: u8
  ntres :: u8
  create_time_tenth :: u8
  create_time :: u16
  create_date :: u16
  last_access_date :: u16
  first_cluster_high :: u16
  write_time :: u16
  write_date :: u16
  first_cluster_low :: u16
  file_size :: u32

definition FirstCluster :: "DirectoryEntry \<Rightarrow> u32" where
  "FirstCluster e = ucast (first_cluster_low e) OR push_bit 16 (ucast (first_cluster_high e))"

text \<open>The packed layout of an entry in memory.\<close>

definition decode_entry :: "u8 list \<Rightarrow> DirectoryEntry" where
  "decode_entry bs = \<lparr>entry_name = take 11 bs, attr = bs ! 11, ntres = bs ! 12, create_time_tenth = bs ! 13,
     create_time = of_bytes (take 2 (drop 14 bs)), create_date = of_bytes (take 2 (drop 16 bs)),
     last_access_date = of_bytes (take 2 (drop 18 bs)), first_cluster_high = of_bytes (take 2 (drop 20 bs)),
     write_time = of_bytes (take 2 (drop 22 bs)), write_date = of_bytes (take 2 (drop 24 bs)),
     first_cluster_low = of_bytes (take 2 (drop 26 bs)), file_size = of_bytes (take 4 (drop 28 bs))\<rparr>"

definition encode_entry :: "DirectoryEntry \<Rightarrow> u8 list" where
  "encode_entry e = entry_name e @ [attr e, ntres e, create_time_tenth e] @
     to_bytes 2 (create_time e) @ to_bytes 2 (create_date e) @ to_bytes 2 (last_access_date e) @
     to_bytes 2 (first_cluster_high e) @ to_bytes 2 (write_time e) @ to_bytes 2 (write_date e) @
     to_bytes 2 (first_cluster_low e) @ to_bytes 4 (file_size e)"

definition entry_size :: nat where "entry_size = 32"

definition dir_entry :: "u8 list \<Rightarrow> nat \<Rightarrow> DirectoryEntry" where
  "dir_entry bs i = decode_entry (take entry_size (drop (entry_size * i) bs))"

definition num_entries :: "Volume \<Rightarrow> nat" where
  "num_entries v = bytes_per_cluster v div entry_size"

text \<open>Reading and writing through a pointer to an entry.\<close>

type_synonym EntryPtr = "nat \<times> nat"

definition get_entry :: "Volume \<Rightarrow> EntryPtr \<Rightarrow> DirectoryEntry option" where
  "get_entry v p = (case GetSectorByCluster v (fst p) of
     None \<Rightarrow> None
   | Some bs \<Rightarrow> if snd p < num_entries v then Some (dir_entry bs (snd p)) else None)"

definition put_entry :: "EntryPtr \<Rightarrow> DirectoryEntry \<Rightarrow> Volume \<Rightarrow> Volume option" where
  "put_entry p e v = (case GetSectorByCluster v (fst p) of
     None \<Rightarrow> None
   | Some bs \<Rightarrow> if snd p < num_entries v
                then Some (set_cluster (fst p) (blit (entry_size * snd p) (encode_entry e) bs) v) else None)"

subsection \<open>Names\<close>

text \<open>\<open>toupper\<close> of the C locale.\<close>

definition toupper :: "u8 \<Rightarrow> u8" where
  "toupper c = (if 97 \<le> c \<and> c \<le> 122 then c - 32 else c)"

definition dot :: u8 where "dot = 46"
definition slash :: u8 where "slash = 47"

text \<open>The trailing spaces that \<open>ReadName\<close> overwrites with terminators.\<close>

definition strip_spaces :: "u8 list \<Rightarrow> u8 list" where
  "strip_spaces s = rev (dropWhile (\<lambda>c. c = 0x20) (rev s))"

definition c_str :: "u8 list \<Rightarrow> u8 list" where
  "c_str s = takeWhile (\<lambda>c. c \<noteq> 0) s"

definition ReadName :: "DirectoryEntry \<Rightarrow> u8 list \<times> u8 list" where
  "ReadName e = (c_str (strip_spaces (take 8 (entry_name e))), c_str (strip_spaces (take 3 (drop 8 (entry_name e)))))"

definition FormatName :: "DirectoryEntry \<Rightarrow> u8 list" where
  "FormatName e = (let (base, ext) = ReadName e in if ext \<noteq> [] then base @ dot # ext else base)"

text \<open>\<open>NameIsEqual\<close>: the loop over \<open>i\<close> and \<open>i83\<close>; a dot moves \<open>i83\<close> to the extension.\<close>

fun name83_loop :: "u8 list \<Rightarrow> nat \<Rightarrow> u8 list \<Rightarrow> u8 list" where
  "name83_loop [] i83 name83 = name83"
| "name83_loop (c # name) i83 name83 =
     (if i83 < 11
      then (if c = dot then name83_loop name 8 name83
            else name83_loop name (i83 + 1) (name83[i83 := toupper c]))
      else name83)"

definition NameIsEqual :: "DirectoryEntry \<Rightarrow> u8 list \<Rightarrow> bool" where
  "NameIsEqual e name \<longleftrightarrow> entry_name e = name83_loop name 0 (replicate 11 0x20)"

text \<open>\<open>strrchr\<close>: the text before and after the last occurrence.\<close>

definition split_last :: "u8 \<Rightarrow> u8 list \<Rightarrow> (u8 list \<times> u8 list) option" where
  "split_last c s = (if c \<in> set s
     then Some (rev (tl (dropWhile (\<lambda>x. x \<noteq> c) (rev s))), rev (takeWhile (\<lambda>x. x \<noteq> c) (rev s))) else None)"

definition SetFileName :: "DirectoryEntry \<Rightarrow> u8 list \<Rightarrow> DirectoryEntry" where
  "SetFileName e name = e\<lparr>entry_name :=
     (case split_last dot name of
        Some (base, ext) \<Rightarrow>
          blit 8 (map toupper (take 3 ext)) (blit 0 (map toupper (take 8 base)) (replicate 11 0x20))
      | None \<Rightarrow> blit 0 (map toupper (take 8 name)) (replicate 11 0x20))\<rparr>"

text \<open>
  \<open>NextPathElement\<close>: the element, the rest after the slash and whether there was one. The element is
  copied to a buffer of 13 bytes; a longer one overruns it.
\<close>

definition path_buffer :: nat where "path_buffer = 13"

definition NextPathElement :: "u8 list \<Rightarrow> (u8 list \<times> u8 list option \<times> bool) option" where
  "NextPathElement path =
     (let elem = takeWhile (\<lambda>c. c \<noteq> slash) path
      in if path_buffer \<le> length elem then None
         else if slash \<in> set path then Some (elem, Some (drop (length elem + 1) path), True)
         else Some (elem, None, False))"

subsection \<open>Cluster chains\<close>

definition kEndOfClusterchain :: nat where "kEndOfClusterchain = 0x0fffffff"

definition IsEndOfClusterchain :: "nat \<Rightarrow> bool" where
  "IsEndOfClusterchain c \<longleftrightarrow> c \<ge> 0x0ffffff8"

definition NextCluster :: "Volume \<Rightarrow> nat \<Rightarrow> nat option" where
  "NextCluster v cluster =
     (if cluster < length (table v)
      then Some (let nxt = unat (table v ! cluster) in if IsEndOfClusterchain nxt then kEndOfClusterchain else nxt)
      else None)"

text \<open>\<open>ExtendCluster\<close>: the walk to the end of the chain, then the search for free clusters.\<close>

partial_function (option) chain_end :: "u32 list \<Rightarrow> nat \<Rightarrow> nat option" where
  "chain_end fat c = (if c < length fat
     then (if IsEndOfClusterchain (unat (fat ! c)) then Some c else chain_end fat (unat (fat ! c)))
     else None)"

function extend_loop :: "u32 list \<Rightarrow> nat \<Rightarrow> nat \<Rightarrow> nat \<Rightarrow> (u32 list \<times> nat) option" where
  "extend_loop fat candidate current n =
     (if n = 0 then Some (fat, current)
      else if length fat \<le> candidate then None
      else if fat ! candidate \<noteq> 0 then extend_loop fat (candidate + 1) current n
      else extend_loop (fat[current := of_nat candidate]) (candidate + 1) candidate (n - 1))"
  by auto
termination by (relation "measure (\<lambda>(fat, candidate, _, _). length fat - candidate)") auto

declare extend_loop.simps [simp del]

definition ExtendCluster :: "Volume \<Rightarrow> nat \<Rightarrow> nat \<Rightarrow> (Volume \<times> nat) option" where
  "ExtendCluster v eoc_cluster n = do {
     eoc \<leftarrow> chain_end (table v) eoc_cluster;
     (fat, current) \<leftarrow> extend_loop (table v) 2 eoc n;
     Some (v\<lparr>table := fat[current := of_nat kEndOfClusterchain]\<rparr>, current) }"

fun first_free :: "u32 list \<Rightarrow> nat \<Rightarrow> nat option" where
  "first_free [] i = None"
| "first_free (x # fat) i = (if x = 0 then Some i else first_free fat (i + 1))"

definition AllocateClusterChain :: "Volume \<Rightarrow> nat \<Rightarrow> (Volume \<times> nat) option" where
  "AllocateClusterChain v n = do {
     first_cluster \<leftarrow> first_free (drop 2 (table v)) 2;
     let v1 = v\<lparr>table := (table v)[first_cluster := of_nat kEndOfClusterchain]\<rparr>;
     if n > 1
       then do { (v2, _) \<leftarrow> ExtendCluster v1 first_cluster (n - 1); Some (v2, first_cluster) }
       else Some (v1, first_cluster) }"

subsection \<open>Directories\<close>

datatype Scan = Not_found | Found nat | Next

text \<open>The loop over the entries of one cluster, from entry \<open>i\<close>.\<close>

fun scan_entries :: "DirectoryEntry list \<Rightarrow> u8 list \<Rightarrow> nat \<Rightarrow> Scan" where
  "scan_entries [] elem i = Next"
| "scan_entries (e # es) elem i =
     (if entry_name e ! 0 = 0 then Not_found
      else if \<not> NameIsEqual e elem then scan_entries es elem (i + 1)
      else Found i)"

definition dir_entries :: "Volume \<Rightarrow> u8 list \<Rightarrow> DirectoryEntry list" where
  "dir_entries v bs = map (dir_entry bs) [0..<num_entries v]"

text \<open>The loop over the clusters of a directory.\<close>

partial_function (option) search_dir :: "Volume \<Rightarrow> u8 list \<Rightarrow> nat \<Rightarrow> EntryPtr option option" where
  "search_dir v elem c =
     (if c = kEndOfClusterchain then Some None
      else case GetSectorByCluster v c of
        None \<Rightarrow> None
      | Some bs \<Rightarrow>
         (case scan_entries (dir_entries v bs) elem 0 of
            Not_found \<Rightarrow> Some None
          | Found i \<Rightarrow> Some (Some (c, i))
          | Next \<Rightarrow> (case NextCluster v c of None \<Rightarrow> None | Some c' \<Rightarrow> search_dir v elem c')))"

text \<open>
  \<open>FindFile\<close>. The recursive call gets the rest of the path and the cluster of the directory found, so
  the path is \<open>/\<close>-absolute or the directory is zero there too.
\<close>

definition path_start :: "Volume \<Rightarrow> u8 list \<Rightarrow> nat \<Rightarrow> u8 list \<times> nat" where
  "path_start v path directory_cluster =
     (if path \<noteq> [] \<and> hd path = slash then (tl path, unat (root_cluster (boot_volume_image v)))
      else if directory_cluster = 0 then (path, unat (root_cluster (boot_volume_image v)))
      else (path, directory_cluster))"

lemma NextPathElement_shorter:
  "NextPathElement path = Some (elem, Some rest, b) \<Longrightarrow> length rest < length path"
  by (auto simp: NextPathElement_def Let_def split: if_splits dest!: length_pos_if_in_set)

lemma path_start_length: "length (fst (path_start v path dir)) \<le> length path"
  by (simp add: path_start_def)

function FindFile :: "Volume \<Rightarrow> u8 list \<Rightarrow> nat \<Rightarrow> (EntryPtr option \<times> bool) option" where
  "FindFile v path0 dir0 =
     (let (path, dir) = path_start v path0 dir0
      in case NextPathElement path of
           None \<Rightarrow> None
         | Some (elem, next_path, post_slash) \<Rightarrow>
            (case search_dir v elem dir of
               None \<Rightarrow> None
             | Some None \<Rightarrow> Some (None, post_slash)
             | Some (Some p) \<Rightarrow>
                (case get_entry v p of
                   None \<Rightarrow> None
                 | Some e \<Rightarrow>
                    (case next_path of
                       Some rest \<Rightarrow>
                         if attr e = kDirectory \<and> rest \<noteq> [] then FindFile v rest (unat (FirstCluster e))
                         else Some (Some p, post_slash)
                     | None \<Rightarrow> Some (Some p, post_slash)))))"
  by pat_completeness auto

termination
proof (relation "measure (\<lambda>(_, path, _). length path)")
  fix v path0 dir0 x path dir x2 elem b next_path post_slash x2a p e rest
  assume "x = path_start v path0 dir0" "(path, dir) = x" "NextPathElement path = Some x2"
    "(elem, b) = x2" "(next_path, post_slash) = b" "next_path = Some rest"
  then have "length rest < length path" using NextPathElement_shorter by metis
  moreover have "length path \<le> length path0"
    using path_start_length[of v path0 dir0] \<open>x = _\<close> \<open>(path, dir) = x\<close> by (metis fst_conv)
  ultimately show "((v, rest, unat (FirstCluster e)), v, path0, dir0) \<in> measure (\<lambda>(_, path, _). length path)" by simp
qed simp

declare FindFile.simps [simp del]

text \<open>\<open>AllocateEntry\<close>: the first free or deleted entry, in a new zeroed cluster when there is none.\<close>

definition entry_free :: "DirectoryEntry \<Rightarrow> bool" where
  "entry_free e \<longleftrightarrow> entry_name e ! 0 = 0 \<or> entry_name e ! 0 = 0xe5"

fun first_index :: "('a \<Rightarrow> bool) \<Rightarrow> 'a list \<Rightarrow> nat \<Rightarrow> nat option" where
  "first_index P [] i = None"
| "first_index P (x # xs) i = (if P x then Some i else first_index P xs (i + 1))"

partial_function (option) free_entry :: "Volume \<Rightarrow> nat \<Rightarrow> (EntryPtr + nat) option" where
  "free_entry v c =
     (case GetSectorByCluster v c of
        None \<Rightarrow> None
      | Some bs \<Rightarrow>
         (case first_index entry_free (dir_entries v bs) 0 of
            Some i \<Rightarrow> Some (Inl (c, i))
          | None \<Rightarrow>
             (case NextCluster v c of
                None \<Rightarrow> None
              | Some c' \<Rightarrow> if c' = kEndOfClusterchain then Some (Inr c) else free_entry v c')))"

definition AllocateEntry :: "Volume \<Rightarrow> nat \<Rightarrow> (Volume \<times> EntryPtr) option" where
  "AllocateEntry v dir_cluster = do {
     r \<leftarrow> free_entry v dir_cluster;
     case r of
       Inl p \<Rightarrow> Some (v, p)
     | Inr c \<Rightarrow> do {
         (v1, c1) \<leftarrow> ExtendCluster v c 1;
         _ \<leftarrow> GetSectorByCluster v1 c1;
         Some (set_cluster c1 (replicate (bytes_per_cluster v1) 0) v1, (c1, 0)) } }"

definition CreateFile_at :: "Volume \<Rightarrow> nat \<Rightarrow> u8 list \<Rightarrow> (Volume \<times> EntryPtr option WithError) option" where
  "CreateFile_at v parent filename = do {
     (v1, p) \<leftarrow> AllocateEntry v parent;
     e \<leftarrow> get_entry v1 p;
     v2 \<leftarrow> put_entry p ((SetFileName e filename)\<lparr>file_size := 0\<rparr>) v1;
     Some (v2, (Some p, kSuccess)) }"

definition CreateFile :: "Volume \<Rightarrow> u8 list \<Rightarrow> (Volume \<times> EntryPtr option WithError) option" where
  "CreateFile v path =
     (let root = unat (root_cluster (boot_volume_image v))
      in case split_last slash path of
           None \<Rightarrow> CreateFile_at v root path
         | Some (parent_dir_name, filename) \<Rightarrow>
             if filename = [] then Some (v, (None, kIsDirectory))
             else if parent_dir_name = [] then CreateFile_at v root filename
             else (case FindFile v parent_dir_name 0 of
                     None \<Rightarrow> None
                   | Some (None, _) \<Rightarrow> Some (v, (None, kNoSuchEntry))
                   | Some (Some p, _) \<Rightarrow>
                      (case get_entry v p of
                         None \<Rightarrow> None
                       | Some e \<Rightarrow> CreateFile_at v (unat (FirstCluster e)) filename)))"

subsection \<open>Well-formed volumes and chains\<close>

text \<open>
  \<open>chain fat c cs\<close>: \<open>cs\<close> is the whole cluster chain that starts at \<open>c\<close>. A well-formed volume has a
  table entry for every cluster, clusters of the declared size that hold at least one
  directory entry, and few enough clusters for FAT32.
\<close>

fun chain :: "u32 list \<Rightarrow> nat \<Rightarrow> nat list \<Rightarrow> bool" where
  "chain fat c [] = False"
| "chain fat c [x] = (x = c \<and> 2 \<le> c \<and> c < length fat \<and> IsEndOfClusterchain (unat (fat ! c)))"
| "chain fat c (x # y # ys) = (x = c \<and> 2 \<le> c \<and> c < length fat \<and> \<not> IsEndOfClusterchain (unat (fat ! c)) \<and>
     unat (fat ! c) = y \<and> chain fat y (y # ys))"

definition volume_ok :: "Volume \<Rightarrow> bool" where
  "volume_ok v \<longleftrightarrow> entry_size \<le> bytes_per_cluster v \<and> (\<forall>bs \<in> set (clusters v). length bs = bytes_per_cluster v) \<and>
     length (table v) = length (clusters v) + 2 \<and> length (table v) < 0x0ffffff8"

lemma chain_head: "chain fat c cs \<Longrightarrow> \<exists>xs. cs = c # xs"
  by (cases "(fat, c, cs)" rule: chain.cases) auto

lemma chain_mem:
  "chain fat c cs \<Longrightarrow> x \<in> set cs \<Longrightarrow> 2 \<le> x \<and> x < length fat \<and> fat ! x \<noteq> 0"
proof (induction fat c cs rule: chain.induct)
  case (3 fat c x' y ys)
  have "2 \<le> y" using 3(2) chain_head[of fat y] by (cases ys) auto
  then have "fat ! c \<noteq> 0" using 3(2) by auto
  then show ?case using 3 by auto
qed (auto simp: IsEndOfClusterchain_def)

lemma chain_unique: "chain fat c cs \<Longrightarrow> chain fat c ds \<Longrightarrow> cs = ds"
proof (induction fat c cs arbitrary: ds rule: chain.induct)
  case (2 fat c x)
  then show ?case by (cases "(fat, c, ds)" rule: chain.cases) auto
next
  case (3 fat c x y ys)
  then show ?case by (cases "(fat, c, ds)" rule: chain.cases) auto
qed simp

lemma chain_suffix: "chain fat c (xs @ d # ys) \<Longrightarrow> chain fat d (d # ys)"
proof (induction xs arbitrary: c)
  case Nil
  then show ?case using chain_head by fastforce
next
  case (Cons x xs)
  then show ?case by (cases xs) auto
qed

lemma chain_distinct: "chain fat c cs \<Longrightarrow> distinct cs"
proof (induction fat c cs rule: chain.induct)
  case (3 fat c x y ys)
  have "x \<notin> set (y # ys)"
  proof
    assume "x \<in> set (y # ys)"
    then obtain as bs where s: "y # ys = as @ x # bs" by (metis split_list)
    have "chain fat y (y # ys)" using 3(2) by simp
    then have "chain fat x (x # bs)" unfolding s by (rule chain_suffix)
    moreover have "chain fat x (x # y # ys)" using 3(2) by auto
    ultimately have "x # bs = x # y # ys" by (rule chain_unique)
    then have "length bs = length (as @ x # bs)" using s by simp
    then show False by simp
  qed
  then show ?case using 3 by auto
qed auto

lemma chain_end_chain: "chain fat c cs \<Longrightarrow> chain_end fat c = Some (last cs)"
proof (induction fat c cs rule: chain.induct)
  case (2 fat c x)
  then show ?case by (subst chain_end.simps) simp
next
  case (3 fat c x y ys)
  then show ?case by (subst chain_end.simps) auto
qed simp

lemma chain_cong:
  "chain fat c cs \<Longrightarrow> \<forall>x \<in> set cs. fat' ! x = fat ! x \<Longrightarrow> length fat' = length fat \<Longrightarrow> chain fat' c cs"
  by (induction fat c cs rule: chain.induct) auto

text \<open>Continuing a chain at its last cluster.\<close>

lemma chain_join:
  "chain fat c cs \<Longrightarrow> \<forall>x \<in> set (butlast cs). fat' ! x = fat ! x \<Longrightarrow> length fat' = length fat \<Longrightarrow>
   chain fat' (last cs) (last cs # ds) \<Longrightarrow> chain fat' c (cs @ ds)"
proof (induction fat c cs rule: chain.induct)
  case (3 fat c x y ys)
  then show ?case by auto
qed auto

subsection \<open>Allocating clusters\<close>

definition free_clusters :: "u32 list \<Rightarrow> nat \<Rightarrow> nat list" where
  "free_clusters fat k = filter (\<lambda>i. fat ! i = 0) [k..<length fat]"

text \<open>Writing a path of links into the table.\<close>

fun link :: "u32 list \<Rightarrow> nat list \<Rightarrow> u32 list" where
  "link fat (a # b # xs) = link (fat[a := of_nat b]) (b # xs)"
| "link fat xs = fat"

lemma length_link [simp]: "length (link fat xs) = length fat"
  by (induction fat xs rule: link.induct) auto

lemma link_other: "i \<notin> set (butlast xs) \<Longrightarrow> link fat xs ! i = fat ! i"
  by (induction fat xs rule: link.induct) auto

lemma unat_cluster: "n < 0x0ffffff8 \<Longrightarrow> unat (of_nat n :: u32) = n"
  by (simp add: unat_of_nat)

lemma kEndOfClusterchain_end: "IsEndOfClusterchain (unat (of_nat kEndOfClusterchain :: u32))"
  by (simp add: IsEndOfClusterchain_def kEndOfClusterchain_def)

lemma link_chain:
  assumes "distinct (a # ds)" and "\<forall>x \<in> set (a # ds). 2 \<le> x \<and> x < length fat" and "length fat < 0x0ffffff8"
  shows "chain ((link fat (a # ds))[last (a # ds) := of_nat kEndOfClusterchain]) a (a # ds)"
  using assms
proof (induction ds arbitrary: fat a)
  case Nil
  then show ?case using kEndOfClusterchain_end by simp
next
  case (Cons d ds)
  let ?fat = "(link (fat[a := of_nat d]) (d # ds))[last (d # ds) := of_nat kEndOfClusterchain]"
  have c: "chain ?fat d (d # ds)" using Cons.IH[of d "fat[a := of_nat d]"] Cons.prems by auto
  have "a \<noteq> last (d # ds)" using Cons.prems(1) by (metis distinct.simps(2) last_in_set list.distinct(1))
  moreover have "a \<notin> set (butlast (d # ds))" using Cons.prems(1) by (metis distinct.simps(2) in_set_butlastD)
  ultimately have "?fat ! a = of_nat d" using Cons.prems(2) link_other[of a "d # ds"] by simp
  moreover have "unat (of_nat d :: u32) = d" "\<not> IsEndOfClusterchain d"
    using Cons.prems(2,3) unat_cluster[of d] by (auto simp: IsEndOfClusterchain_def)
  ultimately show ?case using c Cons.prems(2) by auto
qed

lemma free_clusters_Cons:
  "k < length fat \<Longrightarrow> free_clusters fat k = (if fat ! k = 0 then k # free_clusters fat (Suc k) else free_clusters fat (Suc k))"
  by (simp add: free_clusters_def upt_conv_Cons)

lemma free_clusters_update:
  "k \<le> length fat \<Longrightarrow> a < k \<or> fat ! a \<noteq> 0 \<and> x \<noteq> 0 \<Longrightarrow> free_clusters (fat[a := x]) k = free_clusters fat k"
  unfolding free_clusters_def by (cases "a < length fat") (auto simp: nth_list_update intro!: filter_cong split: if_splits)

lemma extend_loop_result:
  assumes "n \<le> length (free_clusters fat k)" and "cur < k \<or> fat ! cur \<noteq> 0" and "2 \<le> k" and "length fat < 0x0ffffff8"
  shows "extend_loop fat k cur n =
    Some (link fat (cur # take n (free_clusters fat k)), last (cur # take n (free_clusters fat k)))"
  using assms
proof (induction fat k cur n rule: extend_loop.induct)
  case (1 fat k cur n)
  show ?case
  proof (cases "n = 0 \<or> length fat \<le> k")
    case True
    then show ?thesis using "1.prems"(1) by (subst extend_loop.simps) (auto simp: free_clusters_def)
  next
    case False
    show ?thesis
    proof (cases "fat ! k = 0")
      case f: False
      then show ?thesis
        using False 1 by (subst extend_loop.simps) (auto simp: free_clusters_Cons)
    next
      case True
      have k: "k < length fat" "k < 0x0ffffff8" using False "1.prems"(4) by auto
      have "(of_nat k :: u32) \<noteq> 0" using unat_cluster[OF k(2)] "1.prems"(3) by auto
      then have fc: "free_clusters (fat[cur := of_nat k]) (Suc k) = free_clusters fat (Suc k)"
        using free_clusters_update[of "Suc k" fat cur "of_nat k"] k "1.prems"(2) by auto
      obtain m where m: "n = Suc m" using False by (cases n) auto
      have "extend_loop (fat[cur := of_nat k]) (Suc k) k m =
          Some (link (fat[cur := of_nat k]) (k # take m (free_clusters fat (Suc k))),
                last (k # take m (free_clusters fat (Suc k))))"
        using "1.IH"(2) False True m "1.prems" k fc by (simp add: free_clusters_Cons)
      then show ?thesis using False True m k by (subst extend_loop.simps) (simp add: free_clusters_Cons)
    qed
  qed
qed

lemma set_free_clusters: "x \<in> set (free_clusters fat k) \<longleftrightarrow> k \<le> x \<and> x < length fat \<and> fat ! x = 0"
  by (auto simp: free_clusters_def)

lemma distinct_free_clusters: "distinct (free_clusters fat k)"
  by (simp add: free_clusters_def)

text \<open>The chain gets \<open>n\<close> clusters that were free; nothing else in the table changes.\<close>

lemma ExtendCluster_ok:
  assumes "chain (table v) c cs" and "n \<le> length (free_clusters (table v) 2)" and "length (table v) < 0x0ffffff8"
  defines "ds \<equiv> take n (free_clusters (table v) 2)"
  shows "\<exists>fat'. ExtendCluster v c n = Some (v\<lparr>table := fat'\<rparr>, last (cs @ ds)) \<and> chain fat' c (cs @ ds) \<and>
    length fat' = length (table v) \<and> (\<forall>x. x \<noteq> last cs \<longrightarrow> x \<notin> set ds \<longrightarrow> fat' ! x = table v ! x)"
proof -
  let ?e = "last cs" and ?fat = "table v"
  have ne: "cs \<noteq> []" using assms(1) by auto
  have e: "2 \<le> ?e" "?e < length ?fat" "?fat ! ?e \<noteq> 0" using chain_mem[OF assms(1), of ?e] ne by auto
  have ds: "x \<in> set ds \<Longrightarrow> 2 \<le> x \<and> x < length ?fat \<and> ?fat ! x = 0" for x
    using in_set_takeD[of x n "free_clusters ?fat 2"] by (auto simp: ds_def set_free_clusters)
  have dist: "distinct (?e # ds)" using ds[of ?e] e(3) by (auto simp: ds_def distinct_free_clusters)
  let ?fat' = "(link ?fat (?e # ds))[last (?e # ds) := of_nat kEndOfClusterchain]"
  have other: "?fat' ! x = ?fat ! x" if "x \<noteq> ?e" "x \<notin> set ds" for x
  proof -
    have "x \<noteq> last (?e # ds)" using that by (metis last_in_set list.distinct(1) set_ConsD)
    moreover have "x \<notin> set (butlast (?e # ds))" using that by (metis in_set_butlastD set_ConsD)
    ultimately show ?thesis by (simp add: link_other)
  qed
  have "chain ?fat' ?e (?e # ds)" by (rule link_chain) (use dist ds e assms(3) in auto)
  moreover have "\<forall>x \<in> set (butlast cs). ?fat' ! x = ?fat ! x"
  proof
    fix x assume x: "x \<in> set (butlast cs)"
    have "x \<noteq> ?e" using chain_distinct[OF assms(1)] x ne
      by (metis append_butlast_last_id distinct_append disjoint_insert(1) empty_set insert_absorb list.simps(15))
    moreover have "?fat ! x \<noteq> 0" using chain_mem[OF assms(1)] x by (meson in_set_butlastD)
    ultimately show "?fat' ! x = ?fat ! x" using other ds by blast
  qed
  ultimately have "chain ?fat' c (cs @ ds)" using chain_join[OF assms(1)] by simp
  moreover have "extend_loop ?fat 2 ?e n = Some (link ?fat (?e # ds), last (?e # ds))"
    unfolding ds_def by (rule extend_loop_result) (use assms e in auto)
  moreover have "last (cs @ ds) = last (?e # ds)" using ne by simp
  ultimately show ?thesis
    using other chain_end_chain[OF assms(1)] by (intro exI[of _ ?fat']) (simp add: ExtendCluster_def)
qed

lemma first_free_result:
  "first_free (drop k fat) k = (case free_clusters fat k of [] \<Rightarrow> None | j # _ \<Rightarrow> Some j)"
proof (induction "length fat - k" arbitrary: k)
  case 0
  then show ?case by (simp add: free_clusters_def)
next
  case (Suc m)
  then have k: "k < length fat" by simp
  have "first_free (drop (Suc k) fat) (Suc k) = (case free_clusters fat (Suc k) of [] \<Rightarrow> None | j # _ \<Rightarrow> Some j)"
    by (rule Suc.hyps(1)) (use Suc.hyps(2) in simp)
  then show ?case using k by (simp add: Cons_nth_drop_Suc[symmetric] free_clusters_Cons)
qed

text \<open>\<open>AllocateClusterChain\<close> builds a chain of \<open>n\<close> free clusters, of one even for \<open>n = 0\<close>.\<close>

lemma AllocateClusterChain_ok:
  assumes "max n 1 \<le> length (free_clusters (table v) 2)" and "length (table v) < 0x0ffffff8"
  defines "ds \<equiv> take (max n 1) (free_clusters (table v) 2)"
  shows "\<exists>fat'. AllocateClusterChain v n = Some (v\<lparr>table := fat'\<rparr>, hd ds) \<and> chain fat' (hd ds) ds \<and>
    length fat' = length (table v) \<and> (\<forall>x. x \<notin> set ds \<longrightarrow> fat' ! x = table v ! x)"
proof -
  obtain f fs where fc: "free_clusters (table v) 2 = f # fs" using assms(1) by (cases "free_clusters (table v) 2") auto
  have f: "2 \<le> f" "f < length (table v)" using set_free_clusters[of f "table v" 2] fc by auto
  let ?fat = "(table v)[f := of_nat kEndOfClusterchain]" and ?eoc = "of_nat kEndOfClusterchain :: u32"
  let ?v = "v\<lparr>table := ?fat\<rparr>"
  have c: "chain ?fat f [f]" using f kEndOfClusterchain_end by simp
  have ds: "ds = f # take (n - 1) fs" by (cases n) (simp_all add: ds_def fc)
  have "?eoc \<noteq> 0" by (simp add: kEndOfClusterchain_def)
  then have "free_clusters ?fat 2 = filter (\<lambda>i. i \<noteq> f) (free_clusters (table v) 2)"
    using f by (auto simp: free_clusters_def nth_list_update intro!: filter_cong)
  also have "\<dots> = fs" using distinct_free_clusters[of "table v" 2] fc by (auto simp: filter_id_conv)
  finally have fs: "free_clusters ?fat 2 = fs" .
  show ?thesis
  proof (cases "n > 1")
    case False
    then show ?thesis using c fc kEndOfClusterchain_end
      by (intro exI[of _ ?fat]) (simp add: AllocateClusterChain_def first_free_result ds)
  next
    case True
    then have le: "n - 1 \<le> length (free_clusters (table ?v) 2)" using assms(1) fc fs by simp
    obtain fat' where "ExtendCluster ?v f (n - 1) = Some (?v\<lparr>table := fat'\<rparr>, last ([f] @ take (n - 1) fs))"
        "chain fat' f ([f] @ take (n - 1) fs)" "length fat' = length (table ?v)"
        "\<forall>x. x \<noteq> f \<longrightarrow> x \<notin> set (take (n - 1) fs) \<longrightarrow> fat' ! x = table ?v ! x"
      using ExtendCluster_ok[of ?v f "[f]" "n - 1"] c le assms(2) fs by auto
    then show ?thesis using True fc by (intro exI[of _ fat']) (simp add: AllocateClusterChain_def first_free_result ds)
  qed
qed

subsection \<open>Names\<close>

text \<open>The parts of an 8+3 name, and the padded form that a directory entry holds.\<close>

definition name_chars :: "u8 list \<Rightarrow> bool" where
  "name_chars s \<longleftrightarrow> (\<forall>c \<in> set s. c \<noteq> 0 \<and> c \<noteq> 0x20 \<and> c \<noteq> dot \<and> c \<noteq> slash)"

definition name_parts :: "u8 list \<Rightarrow> u8 list \<Rightarrow> bool" where
  "name_parts base ext \<longleftrightarrow> base \<noteq> [] \<and> length base \<le> 8 \<and> length ext \<le> 3 \<and> name_chars base \<and> name_chars ext"

definition join_name :: "u8 list \<Rightarrow> u8 list \<Rightarrow> u8 list" where
  "join_name base ext = (if ext = [] then base else base @ dot # ext)"

definition pad :: "nat \<Rightarrow> u8 list \<Rightarrow> u8 list" where
  "pad n s = s @ replicate (n - length s) 0x20"

definition name83 :: "u8 list \<Rightarrow> u8 list \<Rightarrow> u8 list" where
  "name83 base ext = pad 8 (map toupper base) @ pad 3 (map toupper ext)"

lemma toupper_special: "toupper c = 0 \<longleftrightarrow> c = 0" "toupper c = 0x20 \<longleftrightarrow> c = 0x20"
  by (auto simp: toupper_def diff_eq_eq)

lemma name83_loop_base:
  "dot \<notin> set s \<Longrightarrow> k + length s \<le> 11 \<Longrightarrow> length buf = 11 \<Longrightarrow>
   name83_loop (s @ rest) k buf = name83_loop rest (k + length s) (blit k (map toupper s) buf)"
proof (induction s arbitrary: k buf)
  case (Cons c s)
  have "blit (k + 1) (map toupper s) (buf[k := toupper c]) = blit k (map toupper (c # s)) buf"
    using Cons.prems by (intro nth_equalityI) (auto simp: nth_blit length_blit nth_list_update nth_Cons diff_Suc split: nat.split)
  moreover have "c \<noteq> dot" using Cons.prems by auto
  ultimately show ?case using Cons by simp
qed (simp add: blit_def)

lemma blit_pad: "length a \<le> 8 \<Longrightarrow> length b \<le> 3 \<Longrightarrow> blit 8 b (blit 0 a (replicate 11 0x20)) = pad 8 a @ pad 3 b"
  by (simp add: blit_def pad_def drop_append take_append min_def)

lemma blit_pad_base: "length a \<le> 8 \<Longrightarrow> blit 0 a (replicate 11 0x20) = pad 8 a @ pad 3 []"
  by (simp add: blit_def pad_def replicate_add[symmetric])

lemma NameIsEqual_name83:
  assumes "name_parts base ext"
  shows "NameIsEqual e (join_name base ext) \<longleftrightarrow> entry_name e = name83 base ext"
proof -
  have p: "dot \<notin> set base" "dot \<notin> set ext" "length base \<le> 8" "length ext \<le> 3"
    using assms by (auto simp: name_parts_def name_chars_def)
  have b: "name83_loop (base @ r) 0 (replicate 11 0x20) =
      name83_loop r (length base) (blit 0 (map toupper base) (replicate 11 0x20))" for r
    using name83_loop_base[of base 0 "replicate 11 0x20" r] p by simp
  have x: "name83_loop ext 8 (blit 0 (map toupper base) (replicate 11 0x20)) =
      blit 8 (map toupper ext) (blit 0 (map toupper base) (replicate 11 0x20))"
    using name83_loop_base[of ext 8 "blit 0 (map toupper base) (replicate 11 0x20)" "[]"] p
    by (simp add: length_blit)
  show ?thesis
  proof (cases "ext = []")
    case True
    then show ?thesis using b[of "[]"] p by (simp add: NameIsEqual_def join_name_def name83_def blit_pad_base)
  next
    case False
    then show ?thesis using b[of "dot # ext"] x p
      by (simp add: NameIsEqual_def join_name_def name83_def blit_pad)
  qed
qed

lemma while_append_stop:
  "\<forall>x \<in> set xs. P x \<Longrightarrow> \<not> P y \<Longrightarrow> dropWhile P (xs @ y # ys) = y # ys \<and> takeWhile P (xs @ y # ys) = xs"
  by (induction xs) auto

lemma split_last_append: "c \<notin> set b \<Longrightarrow> split_last c (a @ c # b) = Some (a, b)"
proof -
  assume "c \<notin> set b"
  then have "\<forall>x \<in> set (rev b). x \<noteq> c" by auto
  from while_append_stop[of "rev b" "\<lambda>x. x \<noteq> c" c "rev a", OF this] show ?thesis by (simp add: split_last_def)
qed

lemma split_last_None: "split_last c s = None \<longleftrightarrow> c \<notin> set s"
  by (simp add: split_last_def)

lemma SetFileName_name83:
  assumes "name_parts base ext"
  shows "entry_name (SetFileName e (join_name base ext)) = name83 base ext"
proof -
  have p: "dot \<notin> set base" "dot \<notin> set ext" "length base \<le> 8" "length ext \<le> 3"
    using assms by (auto simp: name_parts_def name_chars_def)
  show ?thesis
  proof (cases "ext = []")
    case True
    have "split_last dot base = None" using p by (simp add: split_last_None)
    then show ?thesis using True p by (simp add: SetFileName_def join_name_def name83_def blit_pad_base)
  next
    case False
    have "split_last dot (base @ dot # ext) = Some (base, ext)" by (rule split_last_append[OF p(2)])
    then show ?thesis using False p by (simp add: SetFileName_def join_name_def name83_def blit_pad)
  qed
qed

lemma strip_pad:
  assumes "0x20 \<notin> set a"
  shows "strip_spaces (pad n a) = a"
proof -
  have "dropWhile (\<lambda>c. c = 0x20) (replicate k 0x20 @ xs) = dropWhile (\<lambda>c. c = 0x20) xs" for k and xs :: "u8 list"
    by (induction k) auto
  moreover have "dropWhile (\<lambda>c. c = 0x20) (rev a) = rev a"
    using assms by (cases "rev a") (auto simp: dropWhile_eq_self_iff)
  ultimately show ?thesis by (simp add: strip_spaces_def pad_def)
qed

lemma pad_inj: "0x20 \<notin> set a \<Longrightarrow> 0x20 \<notin> set b \<Longrightarrow> pad n a = pad n b \<Longrightarrow> a = b"
  using strip_pad by metis

lemma toupper_chars:
  assumes "name_chars s"
  shows "0x20 \<notin> set (map toupper s)" and "0 \<notin> set (map toupper s)"
proof -
  have "toupper c \<noteq> 0x20 \<and> toupper c \<noteq> 0" if "c \<in> set s" for c
    using assms that unfolding name_chars_def toupper_special by blast
  then show "0x20 \<notin> set (map toupper s)" and "0 \<notin> set (map toupper s)"
    unfolding set_map by (metis imageE)+
qed

lemma name83_inj:
  assumes "name_parts b1 x1" and "name_parts b2 x2"
  shows "name83 b1 x1 = name83 b2 x2 \<longleftrightarrow> map toupper b1 = map toupper b2 \<and> map toupper x1 = map toupper x2"
proof -
  note sp = toupper_chars(1)
  have nc: "name_chars b1" "name_chars x1" "name_chars b2" "name_chars x2"
    and "length b1 \<le> 8" "length b2 \<le> 8" using assms by (simp_all add: name_parts_def)
  then have "length (pad 8 (map toupper b1)) = length (pad 8 (map toupper b2))" by (simp add: pad_def)
  then have "name83 b1 x1 = name83 b2 x2 \<longleftrightarrow>
      pad 8 (map toupper b1) = pad 8 (map toupper b2) \<and> pad 3 (map toupper x1) = pad 3 (map toupper x2)"
    unfolding name83_def by (rule append_eq_append_conv[OF disjI1])
  then show ?thesis using pad_inj[OF sp[OF nc(1)] sp[OF nc(3)], of 8] pad_inj[OF sp[OF nc(2)] sp[OF nc(4)], of 3]
    by metis
qed

subsection \<open>Entries in memory\<close>

lemma of_to_bytes [simp]:
  "of_bytes (to_bytes 2 w) = (w :: u16)" "of_bytes (to_bytes 4 x) = (x :: u32)"
  by (simp_all add: of_bytes_to_bytes)

lemma decode_encode_entry:
  assumes "length (entry_name e) = 11"
  shows "decode_entry (encode_entry e) = e" and "length (encode_entry e) = entry_size"
proof -
  obtain n0 n1 n2 n3 n4 n5 n6 n7 n8 n9 n10 where n: "entry_name e = [n0, n1, n2, n3, n4, n5, n6, n7, n8, n9, n10]"
    using assms by (auto simp: length_Suc_conv eval_nat_numeral)
  show "decode_entry (encode_entry e) = e" by (simp add: decode_entry_def encode_entry_def n)
  show "length (encode_entry e) = entry_size" using assms by (simp add: encode_entry_def entry_size_def)
qed

lemma encode_decode_entry:
  assumes "length bs = entry_size"
  shows "encode_entry (decode_entry bs) = bs"
proof -
  have t2: "to_bytes 2 (of_bytes (take 2 (drop k bs)) :: u16) = take 2 (drop k bs)" if "k + 2 \<le> 32" for k
    using to_bytes_of_bytes[of "take 2 (drop k bs)", where 'a = 16] that assms by (simp add: entry_size_def)
  have t4: "to_bytes 4 (of_bytes (take 4 (drop 28 bs)) :: u32) = take 4 (drop 28 bs)"
    using to_bytes_of_bytes[of "take 4 (drop 28 bs)", where 'a = 32] assms by (simp add: entry_size_def)
  have d: "take 11 bs @ [bs ! 11, bs ! 12, bs ! 13] @ drop 14 bs = bs"
    using Cons_nth_drop_Suc[of 11 bs] Cons_nth_drop_Suc[of 12 bs] Cons_nth_drop_Suc[of 13 bs]
      append_take_drop_id[of 11 bs] assms by (simp add: entry_size_def)
  have j: "take 2 (drop k bs) @ drop (k + 2) bs = drop k bs" for k
    using append_take_drop_id[of 2 "drop k bs"] by (simp add: add.commute)
  have e: "drop 28 bs = take 4 (drop 28 bs)" using assms by (simp add: entry_size_def)
  show ?thesis
    using d j[of 14] j[of 16] j[of 18] j[of 20] j[of 22] j[of 24] j[of 26] e t4
    by (simp add: encode_entry_def decode_entry_def t2)
qed

definition entry_at :: "Volume \<Rightarrow> EntryPtr \<Rightarrow> DirectoryEntry" where
  "entry_at v p = dir_entry (clusters v ! (fst p - 2)) (snd p)"

text \<open>All entries of a directory, in the order of its chain.\<close>

definition dir_ptrs :: "Volume \<Rightarrow> nat list \<Rightarrow> EntryPtr list" where
  "dir_ptrs v cs = concat (map (\<lambda>c. map (Pair c) [0..<num_entries v]) cs)"

lemma set_dir_ptrs: "set (dir_ptrs v cs) = set cs \<times> {0..<num_entries v}"
  by (auto simp: dir_ptrs_def)

lemma distinct_dir_ptrs: "distinct cs \<Longrightarrow> distinct (dir_ptrs v cs)"
  by (induction cs) (auto simp: dir_ptrs_def distinct_map inj_on_def)

lemma sector_of: "volume_ok v \<Longrightarrow> 2 \<le> c \<Longrightarrow> c < length (table v) \<Longrightarrow> GetSectorByCluster v c = Some (clusters v ! (c - 2))"
  by (auto simp: GetSectorByCluster_def volume_ok_def)

lemma cluster_length: "volume_ok v \<Longrightarrow> 2 \<le> c \<Longrightarrow> c < length (table v) \<Longrightarrow> length (clusters v ! (c - 2)) = bytes_per_cluster v"
  by (auto simp: volume_ok_def)

lemma num_entries_bytes: "i < num_entries v \<Longrightarrow> entry_size * i + entry_size \<le> bytes_per_cluster v"
proof -
  assume "i < num_entries v"
  then have "entry_size * (i + 1) \<le> entry_size * num_entries v" by (intro mult_le_mono) auto
  also have "\<dots> \<le> bytes_per_cluster v" by (simp add: num_entries_def)
  finally show ?thesis by (simp add: algebra_simps)
qed

lemma entry_name_length:
  assumes "volume_ok v" and "2 \<le> fst p" "fst p < length (table v)" and "snd p < num_entries v"
  shows "length (entry_name (entry_at v p)) = 11"
  using cluster_length[OF assms(1-3)] num_entries_bytes[OF assms(4)]
  by (simp add: entry_at_def dir_entry_def decode_entry_def entry_size_def)

text \<open>Both loops over a directory are a search over its entries.\<close>

lemma scan_entries_find:
  "scan_entries (map f [i..<n]) elem i = (case List.find (\<lambda>j. entry_name (f j) ! 0 = 0 \<or> NameIsEqual (f j) elem) [i..<n] of
     None \<Rightarrow> Next | Some j \<Rightarrow> if entry_name (f j) ! 0 = 0 then Not_found else Found j)"
proof (induction "n - i" arbitrary: i)
  case (Suc m)
  then have "[i..<n] = i # [Suc i..<n]" by (simp add: upt_conv_Cons)
  then show ?case using Suc.hyps(1)[of "Suc i"] Suc.hyps(2) by simp
qed simp

lemma first_index_find: "first_index P (map f [i..<n]) i = List.find (\<lambda>j. P (f j)) [i..<n]"
proof (induction "n - i" arbitrary: i)
  case (Suc m)
  then have "[i..<n] = i # [Suc i..<n]" by (simp add: upt_conv_Cons)
  then show ?case using Suc.hyps(1)[of "Suc i"] Suc.hyps(2) by simp
qed simp

lemma find_append: "List.find P (xs @ ys) = (case List.find P xs of None \<Rightarrow> List.find P ys | r \<Rightarrow> r)"
  by (induction xs) auto

lemma find_in_set: "List.find P xs = Some x \<Longrightarrow> x \<in> set xs"
  by (metis find_Some_iff nth_mem)

lemma find_map: "List.find P (map f xs) = map_option f (List.find (P \<circ> f) xs)"
  by (induction xs) auto

definition stops :: "Volume \<Rightarrow> u8 list \<Rightarrow> EntryPtr \<Rightarrow> bool" where
  "stops v elem p \<longleftrightarrow> entry_name (entry_at v p) ! 0 = 0 \<or> NameIsEqual (entry_at v p) elem"

definition lookup :: "Volume \<Rightarrow> u8 list \<Rightarrow> EntryPtr list \<Rightarrow> EntryPtr option" where
  "lookup v elem ps = (case List.find (stops v elem) ps of
     None \<Rightarrow> None | Some p \<Rightarrow> if entry_name (entry_at v p) ! 0 = 0 then None else Some p)"

lemma dir_ptrs_Cons: "dir_ptrs v (c # cs) = map (Pair c) [0..<num_entries v] @ dir_ptrs v cs"
  by (simp add: dir_ptrs_def)

lemma chain_next:
  assumes "volume_ok v" and "chain (table v) c (c # cs)"
  shows "NextCluster v c = Some (if cs = [] then kEndOfClusterchain else hd cs)" and "c \<noteq> kEndOfClusterchain"
    and "GetSectorByCluster v c = Some (clusters v ! (c - 2))" and "cs \<noteq> [] \<Longrightarrow> chain (table v) (hd cs) cs"
proof -
  have c: "2 \<le> c" "c < length (table v)" using chain_mem[OF assms(2), of c] by auto
  show "NextCluster v c = Some (if cs = [] then kEndOfClusterchain else hd cs)"
    using assms(2) c by (cases cs) (auto simp: NextCluster_def Let_def)
  show "c \<noteq> kEndOfClusterchain" using c assms(1) by (auto simp: volume_ok_def kEndOfClusterchain_def)
  show "GetSectorByCluster v c = Some (clusters v ! (c - 2))" by (rule sector_of[OF assms(1) c])
  show "cs \<noteq> [] \<Longrightarrow> chain (table v) (hd cs) cs" using assms(2) by (cases cs) auto
qed

lemma search_dir_end: "search_dir v elem kEndOfClusterchain = Some None"
  by (subst search_dir.simps) simp

lemma search_dir_lookup:
  assumes "volume_ok v" and "chain (table v) c cs"
  shows "search_dir v elem c = Some (lookup v elem (dir_ptrs v cs))"
  using assms(2)
proof (induction cs arbitrary: c)
  case (Cons x cs)
  have x: "x = c" using chain_head[OF Cons.prems] by simp
  note n = chain_next[OF assms(1) Cons.prems[unfolded x]]
  have s: "scan_entries (dir_entries v (clusters v ! (c - 2))) elem 0 =
      (case List.find (stops v elem \<circ> Pair c) [0..<num_entries v] of
         None \<Rightarrow> Next | Some j \<Rightarrow> if entry_name (entry_at v (c, j)) ! 0 = 0 then Not_found else Found j)"
    unfolding dir_entries_def scan_entries_find
    by (simp add: stops_def entry_at_def comp_def cong: option.case_cong)
  have r: "(if cs = [] then Some None else search_dir v elem (hd cs)) = Some (lookup v elem (dir_ptrs v cs))"
    using Cons.IH[of "hd cs"] n(4) by (simp add: dir_ptrs_def lookup_def)
  show ?case
    using n(1-3) s r search_dir_end unfolding x dir_ptrs_Cons lookup_def find_append find_map
    by (subst search_dir.simps) (auto split: option.splits if_splits)
qed simp

lemma free_entry_find:
  assumes "volume_ok v" and "chain (table v) c cs"
  shows "free_entry v c = Some (case List.find (\<lambda>p. entry_free (entry_at v p)) (dir_ptrs v cs) of
    Some p \<Rightarrow> Inl p | None \<Rightarrow> Inr (last cs))"
  using assms(2)
proof (induction cs arbitrary: c)
  case (Cons x cs)
  have x: "x = c" using chain_head[OF Cons.prems] by simp
  note n = chain_next[OF assms(1) Cons.prems[unfolded x]]
  have s: "first_index entry_free (dir_entries v (clusters v ! (c - 2))) 0 =
      List.find ((\<lambda>p. entry_free (entry_at v p)) \<circ> Pair c) [0..<num_entries v]"
    unfolding dir_entries_def first_index_find by (simp add: entry_at_def comp_def)
  show ?case
  proof (cases cs)
    case Nil
    then show ?thesis using n(1-3) s unfolding x dir_ptrs_Cons find_append find_map
      by (subst free_entry.simps) (auto simp: dir_ptrs_def split: option.splits)
  next
    case (Cons y ys)
    have "y \<noteq> kEndOfClusterchain" using chain_next(2)[OF assms(1), of y ys] n(4) Cons by simp
    then show ?thesis using n(1-3) n(4) s Cons.IH[of "hd cs"] Cons unfolding x dir_ptrs_Cons[of v c] find_append find_map
      by (subst free_entry.simps) (auto split: option.splits)
  qed
qed simp

subsection \<open>Changing an entry\<close>

definition valid_ptr :: "Volume \<Rightarrow> EntryPtr \<Rightarrow> bool" where
  "valid_ptr v p \<longleftrightarrow> 2 \<le> fst p \<and> fst p < length (table v) \<and> snd p < num_entries v"

lemma get_entry_at: "volume_ok v \<Longrightarrow> valid_ptr v p \<Longrightarrow> get_entry v p = Some (entry_at v p)"
  by (simp add: get_entry_def valid_ptr_def sector_of entry_at_def)

lemma dir_ptrs_valid: "chain (table v) c cs \<Longrightarrow> p \<in> set (dir_ptrs v cs) \<Longrightarrow> valid_ptr v p"
  using chain_mem by (fastforce simp: set_dir_ptrs valid_ptr_def)

lemma put_entry_ok:
  assumes v: "volume_ok v" and p: "valid_ptr v p" and e: "length (entry_name e) = 11"
  shows "\<exists>v'. put_entry p e v = Some v' \<and> volume_ok v' \<and> table v' = table v \<and>
    boot_volume_image v' = boot_volume_image v \<and> length (clusters v') = length (clusters v) \<and> entry_at v' p = e \<and>
    (\<forall>q. valid_ptr v q \<longrightarrow> q \<noteq> p \<longrightarrow> entry_at v' q = entry_at v q) \<and>
    (\<forall>x. 2 \<le> x \<longrightarrow> x \<noteq> fst p \<longrightarrow> clusters v' ! (x - 2) = clusters v ! (x - 2))"
proof -
  obtain c j where pc: "p = (c, j)" by force
  have c: "2 \<le> c" "c < length (table v)" "j < num_entries v" using p by (auto simp: valid_ptr_def pc)
  have cl: "c - 2 < length (clusters v)" using c v by (auto simp: volume_ok_def)
  let ?bs = "clusters v ! (c - 2)" and ?enc = "encode_entry e"
  have lb: "length ?bs = bytes_per_cluster v" by (rule cluster_length[OF v c(1,2)])
  have enc: "length ?enc = entry_size" "decode_entry ?enc = e" using decode_encode_entry[OF e] by auto
  have fit: "entry_size * j + length ?enc \<le> length ?bs" using num_entries_bytes[OF c(3)] enc lb by simp
  let ?v' = "set_cluster c (blit (entry_size * j) ?enc ?bs) v"
  have ok: "volume_ok ?v'"
    using v fit lb by (auto simp: volume_ok_def set_cluster_def bytes_per_cluster_def length_blit dest!: subsetD[OF set_update_subset_insert])
  have other: "entry_at ?v' q = entry_at v q" if q: "valid_ptr v q" "q \<noteq> p" for q
  proof (cases "fst q = c")
    case False
    then have "c - 2 \<noteq> fst q - 2" using q c by (auto simp: valid_ptr_def)
    then show ?thesis by (simp add: entry_at_def set_cluster_def)
  next
    case True
    then have i: "snd q \<noteq> j" "snd q < num_entries v" using q by (auto simp: valid_ptr_def pc prod_eq_iff)
    have "entry_size * snd q + entry_size \<le> entry_size * j \<or> entry_size * j + entry_size \<le> entry_size * snd q"
      using i(1) by (metis add.commute linorder_neqE_nat mult_Suc_right mult_le_mono2 not_less_eq_eq nat_le_linear not_le)
    then show ?thesis using take_drop_blit_other[OF fit, of "entry_size * snd q" entry_size] True num_entries_bytes[OF i(2)] enc lb cl
      by (simp add: entry_at_def set_cluster_def dir_entry_def)
  qed
  have "entry_at ?v' p = e"
    using take_drop_blit[OF fit] enc cl by (simp add: entry_at_def set_cluster_def dir_entry_def pc)
  moreover have "put_entry p e v = Some ?v'" using c by (simp add: put_entry_def pc sector_of[OF v c(1,2)])
  moreover have "clusters ?v' ! (x - 2) = clusters v ! (x - 2)" if "2 \<le> x" "x \<noteq> fst p" for x
  proof -
    have "c - 2 \<noteq> x - 2" using that c(1) by (auto simp: pc)
    then show ?thesis by (simp add: set_cluster_def)
  qed
  ultimately show ?thesis using ok other by (intro exI[of _ ?v']) (simp add: set_cluster_def)
qed

text \<open>
  \<open>AllocateEntry\<close>: no entry before the one it returns is free. Either the volume is unchanged, or the
  chain got one more, zeroed, cluster and its first entry is returned.
\<close>

lemma AllocateEntry_ok:
  assumes v: "volume_ok v" and ch: "chain (table v) dir cs" and fr: "free_clusters (table v) 2 \<noteq> []"
  shows "\<exists>v' p cs' xs ys. AllocateEntry v dir = Some (v', p) \<and> volume_ok v' \<and> chain (table v') dir cs' \<and>
    length (table v') = length (table v) \<and>
    boot_volume_image v' = boot_volume_image v \<and> dir_ptrs v' cs' = xs @ p # ys \<and>
    set (dir_ptrs v cs) \<subseteq> set (xs @ p # ys) \<and> prefix xs (dir_ptrs v cs) \<and>
    (\<forall>q \<in> set xs. \<not> entry_free (entry_at v q)) \<and>
    (\<forall>q \<in> set (dir_ptrs v cs). entry_at v' q = entry_at v q) \<and> entry_free (entry_at v' p)"
proof (cases "List.find (\<lambda>p. entry_free (entry_at v p)) (dir_ptrs v cs)")
  case (Some p)
  then obtain i where i: "i < length (dir_ptrs v cs)" "entry_free (entry_at v p)" "p = dir_ptrs v cs ! i"
      "\<forall>j < i. \<not> entry_free (entry_at v (dir_ptrs v cs ! j))"
    by (auto simp: find_Some_iff)
  let ?xs = "take i (dir_ptrs v cs)" and ?ys = "drop (Suc i) (dir_ptrs v cs)"
  have d: "dir_ptrs v cs = ?xs @ p # ?ys" using i by (simp add: id_take_nth_drop[symmetric])
  have "AllocateEntry v dir = Some (v, p)" using free_entry_find[OF v ch] Some by (simp add: AllocateEntry_def)
  moreover have "\<forall>q \<in> set ?xs. \<not> entry_free (entry_at v q)"
  proof
    fix q assume "q \<in> set ?xs"
    then obtain j where "j < i" "dir_ptrs v cs ! j = q" using i(1) by (auto simp: in_set_conv_nth simp del: split_paired_All)
    with i(4) show "\<not> entry_free (entry_at v q)" by blast
  qed
  moreover have "set (dir_ptrs v cs) \<subseteq> set (?xs @ p # ?ys)" using d by simp
  ultimately show ?thesis using v ch d i(2) take_is_prefix by blast
next
  case None
  let ?f = "hd (free_clusters (table v) 2)"
  have ne: "cs \<noteq> []" using ch by auto
  have tk: "take 1 (free_clusters (table v) 2) = [?f]" using fr by (cases "free_clusters (table v) 2") auto
  have len: "length (table v) < 0x0ffffff8" using v by (simp add: volume_ok_def)
  have lastc: "chain (table v) (last cs) [last cs]"
    using chain_suffix[of "table v" dir "butlast cs" "last cs" "[]"] ch ne by simp
  obtain fat' where E: "ExtendCluster v dir 1 = Some (v\<lparr>table := fat'\<rparr>, last (cs @ [?f]))"
      "chain fat' dir (cs @ [?f])" "length fat' = length (table v)"
    using ExtendCluster_ok[OF ch, of 1] tk fr len by (cases "free_clusters (table v) 2") auto
  have E': "ExtendCluster v (last cs) 1 = Some (v\<lparr>table := fat'\<rparr>, ?f)"
    using E(1) chain_end_chain[OF ch] chain_end_chain[OF lastc] by (simp add: ExtendCluster_def)
  have f: "2 \<le> ?f" "?f < length (table v)" "table v ! ?f = 0"
    using set_free_clusters[of ?f "table v" 2] fr by auto
  then have fcs: "?f \<notin> set cs" using chain_mem[OF ch] by blast
  let ?v1 = "v\<lparr>table := fat'\<rparr>"
  let ?v2 = "set_cluster ?f (replicate (bytes_per_cluster ?v1) 0) ?v1"
  have v1: "volume_ok ?v1" using v E(3) by (simp add: volume_ok_def bytes_per_cluster_def)
  have v2: "volume_ok ?v2"
    using v1 by (auto simp: volume_ok_def set_cluster_def bytes_per_cluster_def dest!: subsetD[OF set_update_subset_insert])
  have ne2: "num_entries ?v2 = num_entries v" by (simp add: num_entries_def bytes_per_cluster_def set_cluster_def)
  have pos: "0 < num_entries v" using v by (auto simp: volume_ok_def num_entries_def entry_size_def div_greater_zero_iff)
  have sec: "GetSectorByCluster ?v1 ?f = Some (clusters v ! (?f - 2))" using sector_of[OF v1, of ?f] f E(3) by simp
  have alloc: "AllocateEntry v dir = Some (?v2, (?f, 0))"
    using free_entry_find[OF v ch] None E' sec by (simp add: AllocateEntry_def)
  have ptrs: "dir_ptrs ?v2 (cs @ [?f]) = dir_ptrs v cs @ (?f, 0) # map (Pair ?f) [1..<num_entries v]"
    using pos by (simp add: dir_ptrs_def ne2 upt_conv_Cons)
  have same: "entry_at ?v2 q = entry_at v q" if "q \<in> set (dir_ptrs v cs)" for q
  proof -
    have q: "fst q \<in> set cs" using that by (auto simp: set_dir_ptrs)
    then have "fst q \<noteq> ?f" "2 \<le> fst q" using fcs chain_mem[OF ch] by auto
    then have "?f - 2 \<noteq> fst q - 2" using f by auto
    then show ?thesis by (simp add: entry_at_def set_cluster_def)
  qed
  have cl: "?f - 2 < length (clusters v)" using f v by (auto simp: volume_ok_def)
  have z: "entry_free (entry_at ?v2 (?f, 0))"
    using cl v by (simp add: entry_free_def entry_at_def set_cluster_def dir_entry_def decode_entry_def entry_size_def
        volume_ok_def bytes_per_cluster_def)
  have nf: "\<forall>q \<in> set (dir_ptrs v cs). \<not> entry_free (entry_at v q)" using None unfolding find_None_iff by blast
  have "chain (table ?v2) dir (cs @ [?f])" using E(2) by (simp add: set_cluster_def)
  moreover have "boot_volume_image ?v2 = boot_volume_image v" "length (table ?v2) = length (table v)"
    using E(3) by (simp_all add: set_cluster_def)
  moreover have "set (dir_ptrs v cs) \<subseteq> set (dir_ptrs v cs @ (?f, 0) # map (Pair ?f) [1..<num_entries v])" by auto
  ultimately show ?thesis using alloc v2 ptrs same nf z by blast
qed

lemma lookup_None_prefix:
  assumes "lookup v elem ps = None" and "prefix xs ps" and "\<forall>q \<in> set xs. entry_name (entry_at v q) ! 0 \<noteq> 0"
  shows "\<forall>q \<in> set xs. \<not> stops v elem q"
proof (rule ccontr)
  assume "\<not> ?thesis"
  then obtain q where q: "List.find (stops v elem) xs = Some q" by (metis find_None_iff option.exhaust)
  then have "q \<in> set xs" by (auto simp: find_Some_iff)
  moreover obtain zs where "ps = xs @ zs" using assms(2) by (auto elim: prefixE)
  ultimately show False using assms(1,3) q by (simp add: lookup_def find_append)
qed

text \<open>A new file is in its directory under its name, and the directory's other entries are as before.\<close>

lemma CreateFile_at_ok:
  assumes v: "volume_ok v" and ch: "chain (table v) dir cs" and fr: "free_clusters (table v) 2 \<noteq> []"
    and nm: "name_parts base ext" and absent: "lookup v (join_name base ext) (dir_ptrs v cs) = None"
  shows "\<exists>v' p cs'. CreateFile_at v dir (join_name base ext) = Some (v', (Some p, kSuccess)) \<and> volume_ok v' \<and>
    chain (table v') dir cs' \<and> boot_volume_image v' = boot_volume_image v \<and> length (table v') = length (table v) \<and>
    lookup v' (join_name base ext) (dir_ptrs v' cs') = Some p \<and> valid_ptr v' p \<and>
    entry_name (entry_at v' p) = name83 base ext \<and> file_size (entry_at v' p) = 0 \<and>
    (\<forall>q \<in> set (dir_ptrs v cs). q \<noteq> p \<longrightarrow> entry_at v' q = entry_at v q)"
proof -
  let ?nm = "join_name base ext"
  obtain v1 p cs' xs ys where a: "AllocateEntry v dir = Some (v1, p)" "volume_ok v1" "chain (table v1) dir cs'"
      "boot_volume_image v1 = boot_volume_image v" "dir_ptrs v1 cs' = xs @ p # ys"
      "set (dir_ptrs v cs) \<subseteq> set (xs @ p # ys)" "prefix xs (dir_ptrs v cs)"
      "\<forall>q \<in> set xs. \<not> entry_free (entry_at v q)"
      "\<forall>q \<in> set (dir_ptrs v cs). entry_at v1 q = entry_at v q" "length (table v1) = length (table v)"
    using AllocateEntry_ok[OF v ch fr] by blast
  have valid: "valid_ptr v1 q" if "q \<in> set (xs @ p # ys)" for q
    using dir_ptrs_valid[OF a(3)] that a(5) by simp
  have p: "valid_ptr v1 p" using valid by simp
  let ?e = "(SetFileName (entry_at v1 p) ?nm)\<lparr>file_size := 0\<rparr>"
  have en: "entry_name ?e = name83 base ext" using SetFileName_name83[OF nm] by simp
  have le: "length (entry_name ?e) = 11" using nm unfolding en by (simp add: name83_def pad_def name_parts_def)
  obtain v2 where p2: "put_entry p ?e v1 = Some v2" "volume_ok v2" "table v2 = table v1"
      "boot_volume_image v2 = boot_volume_image v1" "entry_at v2 p = ?e"
      "\<forall>q. valid_ptr v1 q \<longrightarrow> q \<noteq> p \<longrightarrow> entry_at v2 q = entry_at v1 q"
    using put_entry_ok[OF a(2) p le] by blast
  have ne: "num_entries v2 = num_entries v1" using p2(4) by (simp add: num_entries_def bytes_per_cluster_def)
  have ptrs: "dir_ptrs v2 cs' = xs @ p # ys" using a(5) by (simp add: dir_ptrs_def ne)
  have dist: "distinct (xs @ p # ys)" using distinct_dir_ptrs[OF chain_distinct[OF a(3)]] a(5) by metis
  have xs: "q \<in> set (dir_ptrs v cs)" if "q \<in> set xs" for q using a(7) that by (auto elim: prefixE)
  have same: "entry_at v2 q = entry_at v q" if "q \<in> set (dir_ptrs v cs)" "q \<noteq> p" for q
    using p2(6) a(6,9) valid that by (metis subsetD)
  have "\<forall>q \<in> set xs. \<not> stops v ?nm q"
    using lookup_None_prefix[OF absent a(7)] a(8) by (simp add: entry_free_def)
  moreover have "entry_at v2 q = entry_at v q" if "q \<in> set xs" for q
  proof -
    have "q \<noteq> p" using that dist by auto
    then show ?thesis using same xs[OF that] by blast
  qed
  ultimately have "\<forall>q \<in> set xs. \<not> stops v2 ?nm q" by (simp add: stops_def)
  then have xsN: "List.find (stops v2 ?nm) xs = None" by (simp add: find_None_iff)
  have stop: "stops v2 ?nm p" using NameIsEqual_name83[OF nm, of ?e] en p2(5) by (simp add: stops_def)
  obtain b bs where b: "base = b # bs" using nm by (cases base) (auto simp: name_parts_def)
  have "entry_name (entry_at v2 p) ! 0 \<noteq> 0"
    using nm toupper_special(1)[of b] unfolding p2(5) en by (simp add: b name83_def pad_def name_parts_def name_chars_def)
  then have "lookup v2 ?nm (dir_ptrs v2 cs') = Some p" using xsN stop by (simp add: ptrs lookup_def find_append)
  moreover have "CreateFile_at v dir ?nm = Some (v2, (Some p, kSuccess))"
    using a(1) get_entry_at[OF a(2) p] p2(1) by (simp add: CreateFile_at_def)
  moreover have "valid_ptr v2 p" using p p2(3) ne by (simp add: valid_ptr_def)
  ultimately show ?thesis using p2 a(3,4,10) en same by (intro exI[of _ v2] exI[of _ p] exI[of _ cs']) simp
qed

text \<open>A path of one name.\<close>

lemma join_name_no_slash: "name_parts base ext \<Longrightarrow> slash \<notin> set (join_name base ext)"
proof -
  assume "name_parts base ext"
  then have "slash \<notin> set base" "slash \<notin> set ext" unfolding name_parts_def name_chars_def by blast+
  moreover have "slash \<noteq> dot" by (simp add: dot_def slash_def)
  ultimately show ?thesis by (simp add: join_name_def)
qed

lemma FindFile_single:
  assumes "volume_ok v" and "chain (table v) (unat (root_cluster (boot_volume_image v))) cs" and "name_parts base ext"
  shows "FindFile v (join_name base ext) 0 = Some (lookup v (join_name base ext) (dir_ptrs v cs), False)"
proof -
  let ?nm = "join_name base ext" and ?root = "unat (root_cluster (boot_volume_image v))"
  have sl: "slash \<notin> set ?nm" by (rule join_name_no_slash[OF assms(3)])
  have len: "length ?nm < path_buffer" using assms(3) unfolding join_name_def name_parts_def path_buffer_def by simp
  have tw: "takeWhile (\<lambda>c. c \<noteq> slash) ?nm = ?nm" unfolding takeWhile_eq_all_conv using sl by blast
  have np: "NextPathElement ?nm = Some (?nm, None, False)"
    using len sl unfolding NextPathElement_def Let_def tw by simp
  have st: "path_start v ?nm 0 = (?nm, ?root)"
  proof -
    have "\<not> (?nm \<noteq> [] \<and> hd ?nm = slash)" using sl list.set_sel(1) by metis
    then show ?thesis unfolding path_start_def by auto
  qed
  have s: "search_dir v ?nm ?root = Some (lookup v ?nm (dir_ptrs v cs))" by (rule search_dir_lookup[OF assms(1,2)])
  show ?thesis
  proof (cases "lookup v ?nm (dir_ptrs v cs)")
    case None
    then show ?thesis using np st s by (subst FindFile.simps) simp
  next
    case (Some p)
    then have "p \<in> set (dir_ptrs v cs)"
      by (auto simp: lookup_def dest: find_in_set split: option.splits if_splits)
    then have "get_entry v p = Some (entry_at v p)" using get_entry_at[OF assms(1)] dir_ptrs_valid[OF assms(2)] by blast
    then show ?thesis using np st s Some by (subst FindFile.simps) simp
  qed
qed

subsection \<open>Properties\<close>

definition sample_volume :: Volume where
  "sample_volume = \<lparr>boot_volume_image = \<lparr>jump_boot = [], oem_name = [], bytes_per_sector = 64, sectors_per_cluster = 1,
       reserved_sector_count = 1, num_fats = 1, root_entry_count = 0, total_sectors_16 = 0, media = 0, fat_size_16 = 0,
       sectors_per_track = 0, num_heads = 0, hidden_sectors = 0, total_sectors_32 = 6, fat_size_32 = 1, ext_flags = 0,
       fs_version = 0, root_cluster = 2, fs_info = 0, backup_boot_sector = 0, reserved = [], drive_number = 0,
       reserved_1 = 0, boot_signature = 0, volume_id = 0, volume_label = [], fs_type = []\<rparr>,
     table = [0x0ffffff8, 0x0fffffff, 0x0fffffff, 0, 0, 0],
     clusters = replicate 4 (replicate 64 0)\<rparr>"

lemma sample_volume_ok:
  "volume_ok sample_volume" "chain (table sample_volume) 2 [2]"
  "unat (root_cluster (boot_volume_image sample_volume)) = 2" "free_clusters (table sample_volume) 2 = [3, 4, 5]"
  by (simp_all add: sample_volume_def volume_ok_def bytes_per_cluster_def entry_size_def IsEndOfClusterchain_def
      free_clusters_def upt_conv_Cons)

text \<open>The memory that clusters occupy is disjoint. When the number of reserved and table
  sectors fits 32 bits, two clusters never overlap in the memory image, and no
  cluster overlaps the allocation table, so writing a file changes nothing else.\<close>

theorem GetClusterAddr_disjoint:
  assumes "2 \<le> c" and "2 \<le> d" and "c \<noteq> d" and "boot_volume_image v = b"
    and "unat (reserved_sector_count b) + unat (num_fats b) * unat (fat_size_32 b) < 2 ^ 32" and "num_fats b \<noteq> 0"
  shows "(GetClusterAddr b c + bytes_per_cluster v \<le> GetClusterAddr b d \<or> GetClusterAddr b d + bytes_per_cluster v \<le> GetClusterAddr b c) \<and>
    GetFAT b + unat (fat_size_32 b) * unat (bytes_per_sector b) \<le> GetClusterAddr b c"
proof (intro conjI)
  let ?s = "unat (sectors_per_cluster b)" and ?n = "unat (bytes_per_sector b)"
  have step: "(A + (i - 2) * ?s) * ?n + ?n * ?s \<le> (A + (j - 2) * ?s) * ?n" if "2 \<le> i" "i < j" for i j A
  proof -
    have "Suc (i - 2) * ?s \<le> (j - 2) * ?s" using that by (intro mult_le_mono1) auto
    then have "(A + Suc (i - 2) * ?s) * ?n \<le> (A + (j - 2) * ?s) * ?n" by (intro mult_le_mono1) simp
    then show ?thesis by (simp add: algebra_simps)
  qed
  show "GetClusterAddr b c + bytes_per_cluster v \<le> GetClusterAddr b d \<or> GetClusterAddr b d + bytes_per_cluster v \<le> GetClusterAddr b c"
    using step[OF assms(1), of d] step[OF assms(2), of c] assms(3,4)
    by (cases "c < d") (simp_all add: GetClusterAddr_def bytes_per_cluster_def)
  have m: "unat (ucast (num_fats b) * fat_size_32 b :: u32) = unat (num_fats b) * unat (fat_size_32 b)"
    using assms(5) by (simp add: unat_word_ariths unat_ucast_up)
  have "unat (ucast (reserved_sector_count b) + ucast (num_fats b) * fat_size_32 b :: u32) =
      unat (reserved_sector_count b) + unat (num_fats b) * unat (fat_size_32 b)"
    using assms(5) m by (simp add: unat_word_ariths unat_ucast_up)
  moreover have "unat (fat_size_32 b) \<le> unat (num_fats b) * unat (fat_size_32 b)"
    using assms(6) mult_le_mono1[of 1 "unat (num_fats b)" "unat (fat_size_32 b)"] by (simp add: unat_gt_0 Suc_le_eq)
  ultimately have "unat (reserved_sector_count b) + unat (fat_size_32 b) \<le>
      unat (ucast (reserved_sector_count b) + ucast (num_fats b) * fat_size_32 b :: u32) + (c - 2) * ?s" by linarith
  then have "(unat (reserved_sector_count b) + unat (fat_size_32 b)) * ?n \<le> GetClusterAddr b c"
    unfolding GetClusterAddr_def by (rule mult_le_mono1)
  then show "GetFAT b + unat (fat_size_32 b) * unat (bytes_per_sector b) \<le> GetClusterAddr b c"
    by (simp add: GetFAT_def add_mult_distrib)
qed

lemma GetClusterAddr_disjoint_witness:
  "GetClusterAddr (boot_volume_image sample_volume) 2 + 64 \<le> GetClusterAddr (boot_volume_image sample_volume) 3"
  using GetClusterAddr_disjoint[of 2 3 sample_volume, OF _ _ _ refl]
  by (simp add: sample_volume_def GetClusterAddr_def bytes_per_cluster_def)

text \<open>Names survive the 8+3 form. For a base name of up to eight and an extension of up to three
  characters, the entry named by \<open>SetFileName\<close> is matched by \<open>NameIsEqual\<close> exactly by the names that
  differ from it in letter case only, and \<open>FormatName\<close> gives the name back in upper case.\<close>

theorem file_name_roundtrip:
  assumes "name_parts base ext" and "name_parts base2 ext2"
  shows "(NameIsEqual (SetFileName e (join_name base ext)) (join_name base2 ext2) \<longleftrightarrow>
      map toupper base = map toupper base2 \<and> map toupper ext = map toupper ext2) \<and>
    FormatName (SetFileName e (join_name base ext)) = join_name (map toupper base) (map toupper ext)"
proof (intro conjI)
  let ?e = "SetFileName e (join_name base ext)"
  have en: "entry_name ?e = name83 base ext" by (rule SetFileName_name83[OF assms(1)])
  show "NameIsEqual ?e (join_name base2 ext2) \<longleftrightarrow> map toupper base = map toupper base2 \<and> map toupper ext = map toupper ext2"
    unfolding NameIsEqual_name83[OF assms(2)] en by (rule name83_inj[OF assms])
  have c: "c_str (strip_spaces (pad n (map toupper s))) = map toupper s" if "name_chars s" for n s
  proof -
    have "\<forall>c \<in> set (map toupper s). c \<noteq> 0" using toupper_chars(2)[OF that] by blast
    then show ?thesis unfolding strip_pad[OF toupper_chars(1)[OF that]] c_str_def takeWhile_eq_all_conv .
  qed
  have l: "length (pad 8 (map toupper base)) = 8" "length (pad 3 (map toupper ext)) = 3"
    using assms(1) by (simp_all add: pad_def name_parts_def)
  have "ReadName ?e = (map toupper base, map toupper ext)"
    unfolding ReadName_def en name83_def using l c[of base 8] c[of ext 3] assms(1) by (simp add: name_parts_def)
  then show "FormatName ?e = join_name (map toupper base) (map toupper ext)" by (simp add: FormatName_def join_name_def)
qed

lemma name_parts_example: "name_parts [102, 111, 111] [116, 120, 116]" "name_parts [70, 111, 79] [84, 120, 116]"
  by (simp_all add: name_parts_def name_chars_def dot_def slash_def)

lemma file_name_roundtrip_witness:
  "NameIsEqual (SetFileName (decode_entry (replicate 32 0)) (join_name [102, 111, 111] [116, 120, 116]))
     (join_name [70, 111, 79] [84, 120, 116])"
  using file_name_roundtrip[OF name_parts_example, of "decode_entry (replicate 32 0)"] by (simp add: toupper_def)

text \<open>C8: A file that is created in the root directory under an 8+3 name is found. If no entry there has the name and one cluster
  is free, \<open>CreateFile\<close> succeeds, \<open>FindFile\<close> then finds the new entry, of size 0, under that name in any
  letter case, all other entries of the directory are unchanged, and the volume stays well-formed. Longer names are
  cut and not found again, and an entry that is reused keeps its attribute and first cluster: of these nothing is said.\<close>

theorem CreateFile_then_FindFile:
  assumes "volume_ok v" and "chain (table v) (unat (root_cluster (boot_volume_image v))) cs"
    and "free_clusters (table v) 2 \<noteq> []" and "name_parts base ext"
    and "FindFile v (join_name base ext) 0 = Some (None, False)"
    and "name_parts base2 ext2" and "map toupper base2 = map toupper base" and "map toupper ext2 = map toupper ext"
  shows "\<exists>v' p. CreateFile v (join_name base ext) = Some (v', (Some p, kSuccess))
    \<and> FindFile v' (join_name base2 ext2) 0 = Some (Some p, False) \<and> volume_ok v'
    \<and> file_size (entry_at v' p) = 0
    \<and> (\<forall>q \<in> set (dir_ptrs v cs). q \<noteq> p \<longrightarrow> get_entry v' q = get_entry v q)"
proof -
  let ?nm = "join_name base ext" and ?root = "unat (root_cluster (boot_volume_image v))"
  have absent: "lookup v ?nm (dir_ptrs v cs) = None" using FindFile_single[OF assms(1,2,4)] assms(5) by simp
  obtain v' p cs' where c: "CreateFile_at v ?root ?nm = Some (v', (Some p, kSuccess))" "volume_ok v'"
      "chain (table v') ?root cs'" "boot_volume_image v' = boot_volume_image v"
      "lookup v' ?nm (dir_ptrs v' cs') = Some p" "file_size (entry_at v' p) = 0" "length (table v') = length (table v)"
      "\<forall>q \<in> set (dir_ptrs v cs). q \<noteq> p \<longrightarrow> entry_at v' q = entry_at v q"
    using CreateFile_at_ok[OF assms(1-4) absent] by blast
  have "split_last slash ?nm = None" using join_name_no_slash[OF assms(4)] by (simp add: split_last_None)
  then have cf: "CreateFile v ?nm = Some (v', (Some p, kSuccess))" using c(1) by (simp add: CreateFile_def)
  have "name83 base2 ext2 = name83 base ext" by (simp add: name83_def assms(7,8))
  then have "stops v' (join_name base2 ext2) = stops v' ?nm"
    unfolding stops_def NameIsEqual_name83[OF assms(4)] NameIsEqual_name83[OF assms(6)] by simp
  then have "lookup v' (join_name base2 ext2) (dir_ptrs v' cs') = Some p" using c(5) by (simp add: lookup_def)
  moreover have "chain (table v') (unat (root_cluster (boot_volume_image v'))) cs'" using c(3,4) by simp
  ultimately have ff: "FindFile v' (join_name base2 ext2) 0 = Some (Some p, False)"
    using FindFile_single[OF c(2) _ assms(6)] by simp
  have "get_entry v' q = get_entry v q" if "q \<in> set (dir_ptrs v cs)" "q \<noteq> p" for q
  proof -
    have q: "valid_ptr v q" by (rule dir_ptrs_valid[OF assms(2) that(1)])
    moreover have "num_entries v' = num_entries v" using c(4) by (simp add: num_entries_def bytes_per_cluster_def)
    ultimately have "valid_ptr v' q" using c(7) by (simp add: valid_ptr_def)
    then show ?thesis using get_entry_at[OF assms(1) q] get_entry_at[OF c(2)] c(8) that by simp
  qed
  then show ?thesis using cf ff c(2,6) by blast
qed

lemma CreateFile_then_FindFile_witness:
  "\<exists>v' p. CreateFile sample_volume (join_name [102, 111, 111] [116, 120, 116]) = Some (v', (Some p, kSuccess))
    \<and> FindFile v' (join_name [70, 111, 79] [84, 120, 116]) 0 = Some (Some p, False)"
proof -
  note s = sample_volume_ok
  have r: "chain (table sample_volume) (unat (root_cluster (boot_volume_image sample_volume))) [2]" using s(2,3) by simp
  have "lookup sample_volume nm (dir_ptrs sample_volume [2]) = None" for nm
    by (simp add: lookup_def dir_ptrs_def stops_def entry_at_def dir_entry_def decode_entry_def sample_volume_def
        num_entries_def bytes_per_cluster_def entry_size_def upt_conv_Cons)
  then have f: "FindFile sample_volume (join_name [102, 111, 111] [116, 120, 116]) 0 = Some (None, False)"
    using FindFile_single[OF s(1) r name_parts_example(1)] by simp
  have fr: "free_clusters (table sample_volume) 2 \<noteq> []" using s(4) by simp
  have u: "map toupper [70, 111, 79] = map toupper [102, 111, 111]" "map toupper [84, 120, 116] = map toupper [116, 120, 116]"
    by (simp_all add: toupper_def)
  show ?thesis using CreateFile_then_FindFile[OF s(1) r fr name_parts_example(1) f name_parts_example(2) u] by blast
qed

text \<open>C9: Allocation takes free clusters only and never damages a chain. \<open>ExtendCluster\<close> on a chain, given
  enough free clusters, terminates and appends exactly \<open>n\<close> clusters that were free;
  every other chain of the table that is disjoint from it stays as it was.\<close>

theorem ExtendCluster_preserves_chains:
  assumes "chain (table v) c cs" and "n \<le> length (free_clusters (table v) 2)" and "length (table v) < 0x0ffffff8"
    and "chain (table v) d other" and "set other \<inter> set cs = {}"
  shows "\<exists>v' ds. ExtendCluster v c n = Some (v', last (cs @ ds)) \<and> chain (table v') c (cs @ ds) \<and> length ds = n
    \<and> (\<forall>x \<in> set ds. table v ! x = 0) \<and> chain (table v') d other \<and> set other \<inter> set ds = {} \<and> clusters v' = clusters v"
proof -
  let ?ds = "take n (free_clusters (table v) 2)"
  obtain fat' where f: "ExtendCluster v c n = Some (v\<lparr>table := fat'\<rparr>, last (cs @ ?ds))" "chain fat' c (cs @ ?ds)"
      "length fat' = length (table v)" "\<forall>x. x \<noteq> last cs \<longrightarrow> x \<notin> set ?ds \<longrightarrow> fat' ! x = table v ! x"
    using ExtendCluster_ok[OF assms(1-3)] by blast
  have ds: "\<forall>x \<in> set ?ds. table v ! x = 0" using set_free_clusters by (metis in_set_takeD)
  have dis: "set other \<inter> set ?ds = {}"
  proof (rule ccontr)
    assume "set other \<inter> set ?ds \<noteq> {}"
    then obtain x where "x \<in> set other" "x \<in> set ?ds" by blast
    then show False using ds chain_mem[OF assms(4), of x] by blast
  qed
  have "last cs \<in> set cs" using assms(1) by (cases cs) auto
  then have "x \<noteq> last cs \<and> x \<notin> set ?ds" if "x \<in> set other" for x using that dis assms(5) by blast
  then have "\<forall>x \<in> set other. fat' ! x = table v ! x" using f(4) by blast
  from chain_cong[OF assms(4) this f(3)] have "chain fat' d other" .
  then show ?thesis using f ds dis assms(2) by (intro exI[of _ "v\<lparr>table := fat'\<rparr>"] exI[of _ ?ds]) simp
qed

lemma ExtendCluster_preserves_chains_witness:
  defines "v \<equiv> sample_volume\<lparr>table := [0x0ffffff8, 0x0fffffff, 0x0fffffff, 0x0fffffff, 0, 0]\<rparr>"
  shows "\<exists>v' ds. ExtendCluster v 2 2 = Some (v', last ([2] @ ds)) \<and> length ds = 2 \<and> chain (table v') 3 [3]"
proof -
  have "chain (table v) 2 [2]" "2 \<le> length (free_clusters (table v) 2)" "length (table v) < 0x0ffffff8"
    "chain (table v) 3 [3]" "set [3] \<inter> set [2::nat] = {}"
    by (simp_all add: v_def IsEndOfClusterchain_def free_clusters_def upt_conv_Cons)
  from ExtendCluster_preserves_chains[OF this] show ?thesis by blast
qed

text \<open>Directory entries are stored without loss: decoding the 32 bytes that \<open>encode_entry\<close> writes gives the
  entry back, and re-encoding any 32 bytes gives those bytes, so updating one field leaves
  the others as they are on disk.\<close>

theorem directory_entry_roundtrip:
  shows "(length (entry_name e) = 11 \<longrightarrow> decode_entry (encode_entry e) = e) \<and>
    (length bs = 32 \<longrightarrow> encode_entry (decode_entry bs) = bs)"
  using decode_encode_entry(1) encode_decode_entry by (auto simp: entry_size_def)

lemma directory_entry_roundtrip_witness: "encode_entry (decode_entry (replicate 32 7)) = replicate 32 7"
  using directory_entry_roundtrip[of undefined "replicate 32 7"] by simp

end
