(* ===== verification/FatFile.thy ===== *)
theory FatFile
  imports Fat
begin

text \<open>
  Open files: \<open>fat::FileDescriptor\<close> of \<^verbatim>\<open>kernel/fat.cpp\<close>, and the helpers of \<^verbatim>\<open>kernel/file.cpp\<close>
  that read through any descriptor. A buffer to write from is the memory that starts at its address, which
  may go on after the \<open>len\<close> bytes meant; reading past that memory is \<open>None\<close>.
\<close>

subsection \<open>The descriptor\<close>

record FatFD =
  fat_entry :: EntryPtr
  rd_off :: nat
  rd_cluster :: nat
  rd_cluster_off :: nat
  wr_off :: nat
  wr_cluster :: nat
  wr_cluster_off :: nat

definition new_FatFD :: "EntryPtr \<Rightarrow> FatFD" where
  "new_FatFD p = \<lparr>fat_entry = p, rd_off = 0, rd_cluster = 0, rd_cluster_off = 0, wr_off = 0, wr_cluster = 0, wr_cluster_off = 0\<rparr>"

text \<open>\<open>size_t\<close> subtraction.\<close>

definition size_minus :: "nat \<Rightarrow> nat \<Rightarrow> nat" where
  "size_minus a b = (if b \<le> a then a - b else 2 ^ 64 + a - b)"

partial_function (option) read_loop ::
  "Volume \<Rightarrow> nat \<Rightarrow> nat \<Rightarrow> nat \<Rightarrow> nat \<Rightarrow> u8 list \<Rightarrow> (nat \<times> nat \<times> u8 list) option" where
  "read_loop v len cluster off tot buf =
     (if tot < len
      then (case GetSectorByCluster v cluster of
         None \<Rightarrow> None
       | Some sec \<Rightarrow>
          (let n = min (len - tot) (bytes_per_cluster v - off);
               buf' = buf @ take n (drop off sec)
           in if off + n = bytes_per_cluster v
              then (case NextCluster v cluster of
                 None \<Rightarrow> None
               | Some c \<Rightarrow> read_loop v len c 0 (tot + n) buf')
              else read_loop v len cluster (off + n) (tot + n) buf'))
      else Some (cluster, off, buf))"

definition fat_Read :: "Volume \<Rightarrow> FatFD \<Rightarrow> nat \<Rightarrow> (FatFD \<times> u8 list) option" where
  "fat_Read v fd len0 = do {
     e \<leftarrow> get_entry v (fat_entry fd);
     let start = (if rd_cluster fd = 0 then unat (FirstCluster e) else rd_cluster fd);
     let len = min len0 (size_minus (unat (file_size e)) (rd_off fd));
     (c, off, buf) \<leftarrow> read_loop v len start (rd_cluster_off fd) 0 [];
     Some (fd\<lparr>rd_cluster := c, rd_cluster_off := off, rd_off := rd_off fd + length buf\<rparr>, buf) }"

definition LoadFile :: "Volume \<Rightarrow> EntryPtr \<Rightarrow> nat \<Rightarrow> u8 list option" where
  "LoadFile v p len = map_option snd (fat_Read v (new_FatFD p) len)"

definition fat_Size :: "Volume \<Rightarrow> FatFD \<Rightarrow> nat option" where
  "fat_Size v fd = map_option (\<lambda>e. unat (file_size e)) (get_entry v (fat_entry fd))"

text \<open>\<open>Load\<close>: the walk to the cluster of \<open>offset\<close>, then a read through a second descriptor.\<close>

function skip_clusters :: "Volume \<Rightarrow> nat \<Rightarrow> nat \<Rightarrow> (nat \<times> nat) option" where
  "skip_clusters v cluster offset =
     (if bytes_per_cluster v = 0 then None
      else if bytes_per_cluster v \<le> offset
      then (case NextCluster v cluster of None \<Rightarrow> None | Some c \<Rightarrow> skip_clusters v c (offset - bytes_per_cluster v))
      else Some (cluster, offset))"
  by auto
termination by (relation "measure (\<lambda>(_, _, offset). offset)") auto

declare skip_clusters.simps [simp del]

definition fat_Load :: "Volume \<Rightarrow> FatFD \<Rightarrow> nat \<Rightarrow> nat \<Rightarrow> u8 list option" where
  "fat_Load v fd len offset = do {
     e \<leftarrow> get_entry v (fat_entry fd);
     (c, off) \<leftarrow> skip_clusters v (unat (FirstCluster e)) offset;
     (_, buf) \<leftarrow> fat_Read v ((new_FatFD (fat_entry fd))\<lparr>rd_off := offset, rd_cluster := c, rd_cluster_off := off\<rparr>) len;
     Some buf }"

definition num_cluster :: "Volume \<Rightarrow> nat \<Rightarrow> nat" where
  "num_cluster v bytes = (bytes + bytes_per_cluster v - 1) div bytes_per_cluster v"

text \<open>The loop of \<open>Write\<close>, with its \<open>n = std::min(len, bytes_per_cluster - wr_cluster_off_)\<close>.\<close>

partial_function (option) write_loop ::
  "u8 list \<Rightarrow> nat \<Rightarrow> Volume \<Rightarrow> nat \<Rightarrow> nat \<Rightarrow> nat \<Rightarrow> (Volume \<times> nat \<times> nat \<times> nat) option" where
  "write_loop buf len v cluster off tot =
     (if tot < len
      then (case (if off = bytes_per_cluster v
                  then (case NextCluster v cluster of
                     None \<Rightarrow> None
                   | Some c \<Rightarrow>
                       if c = kEndOfClusterchain
                       then (case ExtendCluster v cluster (num_cluster v (len - tot)) of
                              None \<Rightarrow> None | Some (v', c') \<Rightarrow> Some (v', c', 0))
                       else Some (v, c, 0))
                  else Some (v, cluster, off)) of
         None \<Rightarrow> None
       | Some r \<Rightarrow>
          (case GetSectorByCluster (fst r) (fst (snd r)) of
            None \<Rightarrow> None
          | Some sec \<Rightarrow>
             (let n = min len (bytes_per_cluster v - snd (snd r))
              in if length buf < tot + n then None
                 else write_loop buf len
                        (set_cluster (fst (snd r)) (blit (snd (snd r)) (take n (drop tot buf)) sec) (fst r))
                        (fst (snd r)) (snd (snd r) + n) (tot + n))))
      else Some (v, cluster, off, tot))"

definition fat_Write :: "Volume \<Rightarrow> FatFD \<Rightarrow> u8 list \<Rightarrow> nat \<Rightarrow> (Volume \<times> FatFD \<times> nat) option" where
  "fat_Write v fd buf len = do {
     e \<leftarrow> get_entry v (fat_entry fd);
     (v1, start) \<leftarrow>
       (if wr_cluster fd = 0
        then if FirstCluster e \<noteq> 0 then Some (v, unat (FirstCluster e))
             else do {
               (v', c) \<leftarrow> AllocateClusterChain v (num_cluster v len);
               v'' \<leftarrow> put_entry (fat_entry fd) (e\<lparr>first_cluster_low := of_nat c,
                        first_cluster_high := of_nat (c div 2 ^ 16)\<rparr>) v';
               Some (v'', c) }
        else Some (v, wr_cluster fd));
     (v2, c, off, tot) \<leftarrow> write_loop buf len v1 start (wr_cluster_off fd) 0;
     e2 \<leftarrow> get_entry v2 (fat_entry fd);
     v3 \<leftarrow> put_entry (fat_entry fd) (e2\<lparr>file_size := of_nat (wr_off fd + tot)\<rparr>) v2;
     Some (v3, fd\<lparr>wr_cluster := c, wr_cluster_off := off, wr_off := wr_off fd + tot\<rparr>, tot) }"

subsection \<open>Reading through any descriptor\<close>

text \<open>
  \<open>ReadBinary\<close> and \<open>ReadDelim\<close> call \<open>Read(&buf[i], 1)\<close>; \<open>read\<close> stands for the virtual call. The result is the
  number of bytes and what the buffer then holds; \<open>ReadDelim\<close> with \<open>len = 0\<close> compares with
  \<open>len - 1\<close> wrapped, so its loop bound is taken as a parameter \<open>m\<close>.
\<close>

fun read_bytes :: "('s \<Rightarrow> nat \<Rightarrow> ('s \<times> u8 list) option) \<Rightarrow> nat \<Rightarrow> 's \<Rightarrow> ('s \<times> u8 list) option" where
  "read_bytes read 0 s = Some (s, [])"
| "read_bytes read (Suc m) s =
     (case read s 1 of
        None \<Rightarrow> None
      | Some (s', []) \<Rightarrow> Some (s', [])
      | Some (s', b # _) \<Rightarrow> map_option (\<lambda>(s'', bs). (s'', b # bs)) (read_bytes read m s'))"

definition ReadBinary :: "('s \<Rightarrow> nat \<Rightarrow> ('s \<times> u8 list) option) \<Rightarrow> 's \<Rightarrow> nat \<Rightarrow> ('s \<times> u8 list) option" where
  "ReadBinary read s len = read_bytes read len s"

fun read_until :: "('s \<Rightarrow> nat \<Rightarrow> ('s \<times> u8 list) option) \<Rightarrow> u8 \<Rightarrow> nat \<Rightarrow> 's \<Rightarrow> ('s \<times> u8 list) option" where
  "read_until read delim 0 s = Some (s, [])"
| "read_until read delim (Suc m) s =
     (case read s 1 of
        None \<Rightarrow> None
      | Some (s', []) \<Rightarrow> Some (s', [])
      | Some (s', b # _) \<Rightarrow>
          if b = delim then Some (s', [b])
          else map_option (\<lambda>(s'', bs). (s'', b # bs)) (read_until read delim m s'))"

definition ReadDelim :: "('s \<Rightarrow> nat \<Rightarrow> ('s \<times> u8 list) option) \<Rightarrow> 's \<Rightarrow> u8 \<Rightarrow> nat \<Rightarrow> ('s \<times> u8 list \<times> nat) option" where
  "ReadDelim read s delim len =
     map_option (\<lambda>(s', bs). (s', bs @ [0], length bs)) (read_until read delim (size_minus len 1) s)"

text \<open>What a descriptor that reads from a stream promises: \<open>rest\<close> is what is still to come.\<close>

locale byte_stream =
  fixes ok :: "'s \<Rightarrow> bool" and rest :: "'s \<Rightarrow> u8 list"
    and read :: "'s \<Rightarrow> nat \<Rightarrow> ('s \<times> u8 list) option"
  assumes read_takes: "ok s \<Longrightarrow> \<exists>s'. read s n = Some (s', take n (rest s)) \<and> ok s' \<and> rest s' = drop n (rest s)"
begin

lemma ReadBinary_takes:
  "ok s \<Longrightarrow> \<exists>s'. ReadBinary read s n = Some (s', take n (rest s)) \<and> ok s' \<and> rest s' = drop n (rest s)"
  unfolding ReadBinary_def
proof (induction n arbitrary: s)
  case (Suc n)
  obtain s1 where 1: "read s 1 = Some (s1, take 1 (rest s))" "ok s1" "rest s1 = drop 1 (rest s)"
    using read_takes[OF Suc.prems] by blast
  show ?case
  proof (cases "rest s")
    case (Cons b bs)
    then obtain s2 where "read_bytes read n s1 = Some (s2, take n bs)" "ok s2" "rest s2 = drop n bs"
      using Suc.IH[OF 1(2)] 1(3) by auto
    then show ?thesis using 1 Cons by simp
  qed (use 1 in simp)
qed auto

text \<open>\<open>ReadDelim\<close> stops after the delimiter, at the end of the stream or when the buffer is full.\<close>

lemma ReadDelim_takes:
  fixes d :: u8
  assumes "ok s" and "0 < n"
  defines "line \<equiv> take (n - 1) (takeWhile (\<lambda>b. b \<noteq> d) (rest s) @ take 1 (dropWhile (\<lambda>b. b \<noteq> d) (rest s)))"
  shows "\<exists>s'. ReadDelim read s d n = Some (s', line @ [0], length line) \<and> ok s' \<and> rest s' = drop (length line) (rest s)"
proof -
  have u: "ok s \<Longrightarrow> \<exists>s'. read_until read d m s =
      Some (s', take m (takeWhile (\<lambda>b. b \<noteq> d) (rest s) @ take 1 (dropWhile (\<lambda>b. b \<noteq> d) (rest s)))) \<and> ok s' \<and>
      rest s' = drop (length (take m (takeWhile (\<lambda>b. b \<noteq> d) (rest s) @ take 1 (dropWhile (\<lambda>b. b \<noteq> d) (rest s))))) (rest s)"
    for m s
  proof (induction m arbitrary: s)
    case (Suc m)
    obtain s1 where 1: "read s 1 = Some (s1, take 1 (rest s))" "ok s1" "rest s1 = drop 1 (rest s)"
      using read_takes[OF Suc.prems] by blast
    show ?case
    proof (cases "rest s")
      case (Cons b bs)
      show ?thesis using Suc.IH[OF 1(2)] 1 Cons by (cases "b = d") auto
    qed (use 1 in simp)
  qed auto
  have "size_minus n 1 = n - 1" using assms(2) by (simp add: size_minus_def)
  then show ?thesis using u[OF assms(1), of "n - 1"] by (auto simp: ReadDelim_def line_def)
qed

end

subsection \<open>The content of a file\<close>

definition cluster_data :: "Volume \<Rightarrow> nat list \<Rightarrow> u8 list" where
  "cluster_data v cs = concat (map (\<lambda>c. clusters v ! (c - 2)) cs)"

text \<open>
  \<open>file_ok v e cs\<close>: \<open>cs\<close> are the clusters of the file of entry \<open>e\<close>, none for a file without a first cluster,
  and they hold the declared size.
\<close>

definition file_ok :: "Volume \<Rightarrow> DirectoryEntry \<Rightarrow> nat list \<Rightarrow> bool" where
  "file_ok v e cs \<longleftrightarrow> unat (file_size e) \<le> length cs * bytes_per_cluster v \<and>
     (if FirstCluster e = 0 then cs = [] else chain (table v) (unat (FirstCluster e)) cs)"

definition file_data :: "Volume \<Rightarrow> DirectoryEntry \<Rightarrow> nat list \<Rightarrow> u8 list" where
  "file_data v e cs = take (unat (file_size e)) (cluster_data v cs)"

lemma concat_stretch:
  "\<forall>x \<in> set xss. length x = b \<Longrightarrow> i < length xss \<Longrightarrow> off + n \<le> b \<Longrightarrow>
   take n (drop (i * b + off) (concat xss)) = take n (drop off (xss ! i))"
proof (induction xss arbitrary: i)
  case (Cons x xss)
  then show ?case by (cases i) (auto simp: add.assoc)
qed simp

lemma concat_blit:
  "\<forall>x \<in> set xss. length x = b \<Longrightarrow> i < length xss \<Longrightarrow> off + length bs \<le> b \<Longrightarrow>
   concat (xss[i := blit off bs (xss ! i)]) = blit (i * b + off) bs (concat xss)"
proof (induction xss arbitrary: i)
  case (Cons x xss)
  show ?case
  proof (cases i)
    case 0
    then show ?thesis using Cons.prems by (simp add: blit_def)
  next
    case (Suc j)
    then show ?thesis using Cons by (simp add: blit_def add.assoc)
  qed
qed simp

lemma length_concat_same: "\<forall>x \<in> set xss. length x = b \<Longrightarrow> length (concat xss) = length xss * b"
  by (induction xss) auto

lemma cluster_lengths:
  "volume_ok v \<Longrightarrow> chain (table v) c cs \<Longrightarrow> \<forall>x \<in> set (map (\<lambda>c. clusters v ! (c - 2)) cs). length x = bytes_per_cluster v"
  using chain_mem cluster_length by fastforce

text \<open>Position \<open>i\<close> of a chain, where position \<open>length cs\<close> is the end mark.\<close>

definition chain_pos :: "nat list \<Rightarrow> nat \<Rightarrow> nat" where
  "chain_pos cs i = (cs @ [kEndOfClusterchain]) ! i"

lemma chain_step:
  assumes "volume_ok v" and "chain (table v) c cs" and "i < length cs"
  shows "NextCluster v (chain_pos cs i) = Some (chain_pos cs (Suc i))"
    and "GetSectorByCluster v (chain_pos cs i) = Some (clusters v ! (cs ! i - 2))"
    and "chain_pos cs i = cs ! i"
proof -
  have d: "cs = take i cs @ cs ! i # drop (Suc i) cs" using assms(3) by (rule id_take_nth_drop)
  have ch: "chain (table v) (cs ! i) (cs ! i # drop (Suc i) cs)"
    by (rule chain_suffix[of _ c "take i cs"]) (use d assms(2) in simp)
  show p: "chain_pos cs i = cs ! i" using assms(3) by (simp add: chain_pos_def nth_append)
  have "chain_pos cs (Suc i) = (if drop (Suc i) cs = [] then kEndOfClusterchain else hd (drop (Suc i) cs))"
    using assms(3) by (auto simp: chain_pos_def nth_append hd_drop_conv_nth)
  then show "NextCluster v (chain_pos cs i) = Some (chain_pos cs (Suc i))"
    using chain_next(1)[OF assms(1) ch] p by simp
  show "GetSectorByCluster v (chain_pos cs i) = Some (clusters v ! (cs ! i - 2))"
    using chain_next(3)[OF assms(1) ch] p by simp
qed

lemma take_drop_split: "n \<le> m \<Longrightarrow> take m (drop k xs) = take n (drop k xs) @ take (m - n) (drop (k + n) xs)"
  using take_add[of n "m - n" "drop k xs"] by (simp add: add.commute)

lemma read_loop_reads:
  assumes v: "volume_ok v" and ch: "chain (table v) c cs"
    and "tot \<le> len" and "off < bytes_per_cluster v"
    and "i * bytes_per_cluster v + off + (len - tot) \<le> length cs * bytes_per_cluster v"
  shows "\<exists>j off'. read_loop v len (chain_pos cs i) off tot buf =
      Some (chain_pos cs j, off', buf @ take (len - tot) (drop (i * bytes_per_cluster v + off) (cluster_data v cs))) \<and>
    off' < bytes_per_cluster v \<and> j * bytes_per_cluster v + off' = i * bytes_per_cluster v + off + (len - tot)"
  using assms(3-)
proof (induction "len - tot" arbitrary: i off tot buf rule: less_induct)
  case less
  let ?b = "bytes_per_cluster v" and ?D = "cluster_data v cs"
  show ?case
  proof (cases "tot < len")
    case False
    then show ?thesis using less.prems by (subst read_loop.simps) (intro exI[of _ i] exI[of _ off], simp)
  next
    case True
    have i: "i < length cs"
    proof (rule ccontr)
      assume "\<not> i < length cs"
      then have "length cs * ?b \<le> i * ?b" by simp
      then show False using less.prems True by linarith
    qed
    note st = chain_step[OF v ch i]
    define n where "n = min (len - tot) (?b - off)"
    let ?buf = "buf @ take n (drop off (clusters v ! (cs ! i - 2)))"
    have n: "0 < n" "off + n \<le> ?b" "tot + n \<le> len" "n \<le> len - tot" using True less.prems(2) by (auto simp: n_def)
    have D: "take n (drop (i * ?b + off) ?D) = take n (drop off (clusters v ! (cs ! i - 2)))"
      using concat_stretch[OF cluster_lengths[OF v ch], of i off n] i n by (simp add: cluster_data_def)
    have split: "take (len - tot) (drop (i * ?b + off) ?D) =
        take n (drop (i * ?b + off) ?D) @ take (len - (tot + n)) (drop (i * ?b + off + n) ?D)"
      using take_drop_split[OF n(4), of "i * ?b + off" ?D] by simp
    obtain i' off1 where next1: "i' * ?b + off1 = i * ?b + off + n" "off1 < ?b"
      "(if off + n = ?b then i' = Suc i \<and> off1 = 0 else i' = i \<and> off1 = off + n)"
      using n(2) less.prems(2) by (cases "off + n = ?b") auto
    have dec: "len - (tot + n) < len - tot" using n True by linarith
    have fit: "i' * ?b + off1 + (len - (tot + n)) \<le> length cs * ?b" unfolding next1(1) using less.prems(3) n by linarith
    obtain j off' where r: "read_loop v len (chain_pos cs i') off1 (tot + n) ?buf =
        Some (chain_pos cs j, off', ?buf @ take (len - (tot + n)) (drop (i * ?b + off + n) ?D))"
        "off' < ?b" "j * ?b + off' = i * ?b + off + n + (len - (tot + n))"
      using less.hyps[OF dec n(3) next1(2) fit, of ?buf] unfolding next1(1) by blast
    have "j * ?b + off' = i * ?b + off + (len - tot)" using r(3) n(3) by linarith
    moreover have "read_loop v len (chain_pos cs i) off tot buf = read_loop v len (chain_pos cs i') off1 (tot + n) ?buf"
      using True st next1(3) by (subst read_loop.simps) (simp add: Let_def n_def[symmetric] split: if_splits)
    ultimately show ?thesis using r D split by (intro exI[of _ j] exI[of _ off']) simp
  qed
qed

subsection \<open>Reading a file\<close>

text \<open>
  The state of a descriptor that reads the file with clusters \<open>cs\<close>: either nothing was read yet or
  the current cluster and offset agree with the position.
\<close>

definition fd_reads :: "Volume \<Rightarrow> nat list \<Rightarrow> FatFD \<Rightarrow> bool" where
  "fd_reads v cs fd \<longleftrightarrow> volume_ok v \<and> (\<exists>e. get_entry v (fat_entry fd) = Some e \<and> file_ok v e cs \<and>
     rd_off fd \<le> unat (file_size e) \<and>
     (if rd_cluster fd = 0 then rd_off fd = 0 \<and> rd_cluster_off fd = 0
      else rd_cluster_off fd < bytes_per_cluster v \<and>
           (\<exists>i. rd_cluster fd = chain_pos cs i \<and> i * bytes_per_cluster v + rd_cluster_off fd = rd_off fd)))"

definition fd_rest :: "Volume \<Rightarrow> nat list \<Rightarrow> FatFD \<Rightarrow> u8 list" where
  "fd_rest v cs fd = drop (rd_off fd) (file_data v (the (get_entry v (fat_entry fd))) cs)"

lemma volume_bytes_pos: "volume_ok v \<Longrightarrow> 0 < bytes_per_cluster v"
  by (auto simp: volume_ok_def entry_size_def)

lemma chain_pos_nonzero: "chain fat c cs \<Longrightarrow> i \<le> length cs \<Longrightarrow> chain_pos cs i \<noteq> 0"
  using chain_mem[of fat c cs "cs ! i"]
  by (auto simp: chain_pos_def nth_append kEndOfClusterchain_def)

lemma length_cluster_data: "volume_ok v \<Longrightarrow> chain (table v) c cs \<Longrightarrow> length (cluster_data v cs) = length cs * bytes_per_cluster v"
  using length_concat_same[OF cluster_lengths] by (simp add: cluster_data_def)

lemma fat_Read_ok:
  assumes "fd_reads v cs fd"
  shows "\<exists>fd'. fat_Read v fd n = Some (fd', take n (fd_rest v cs fd)) \<and> fd_reads v cs fd' \<and>
    fd_rest v cs fd' = drop n (fd_rest v cs fd) \<and> fat_entry fd' = fat_entry fd \<and>
    wr_off fd' = wr_off fd \<and> wr_cluster fd' = wr_cluster fd \<and> wr_cluster_off fd' = wr_cluster_off fd"
proof -
  let ?b = "bytes_per_cluster v"
  obtain e where v: "volume_ok v" and e: "get_entry v (fat_entry fd) = Some e" "file_ok v e cs"
      "rd_off fd \<le> unat (file_size e)"
    and pos: "if rd_cluster fd = 0 then rd_off fd = 0 \<and> rd_cluster_off fd = 0
      else rd_cluster_off fd < ?b \<and> (\<exists>i. rd_cluster fd = chain_pos cs i \<and> i * ?b + rd_cluster_off fd = rd_off fd)"
    using assms unfolding fd_reads_def by blast
  let ?D = "cluster_data v cs" and ?size = "unat (file_size e)"
  let ?start = "if rd_cluster fd = 0 then unat (FirstCluster e) else rd_cluster fd"
  define len where "len = min n (?size - rd_off fd)"
  have len: "min n (size_minus ?size (rd_off fd)) = len" using e(3) by (simp add: size_minus_def len_def)
  have rest: "fd_rest v cs fd = drop (rd_off fd) (take ?size ?D)" using e(1) by (simp add: fd_rest_def file_data_def)
  show ?thesis
  proof (cases "FirstCluster e = 0")
    case True
    then have z: "cs = []" "?size = 0" "rd_off fd = 0" using e(2,3) by (auto simp: file_ok_def)
    have "read_loop v len ?start (rd_cluster_off fd) 0 [] = Some (?start, rd_cluster_off fd, [])"
      using z by (subst read_loop.simps) (simp add: len_def)
    then have r: "fat_Read v fd n = Some (fd\<lparr>rd_cluster := ?start, rd_cluster_off := rd_cluster_off fd, rd_off := rd_off fd + 0\<rparr>, [])"
      using e(1) len by (simp add: fat_Read_def)
    have st: "?start = rd_cluster fd" using True by simp
    show ?thesis using r assms rest z unfolding st by (intro exI[of _ fd]) simp
  next
    case False
    then have ch: "chain (table v) (unat (FirstCluster e)) cs" and cap: "?size \<le> length cs * ?b"
      using e(2) by (auto simp: file_ok_def)
    obtain i where i: "?start = chain_pos cs i" "i * ?b + rd_cluster_off fd = rd_off fd" "rd_cluster_off fd < ?b"
    proof (cases "rd_cluster fd = 0")
      case True
      have "unat (FirstCluster e) = chain_pos cs 0" using chain_head[OF ch] by (auto simp: chain_pos_def)
      then show ?thesis using that[of 0] True pos volume_bytes_pos[OF v] by simp
    next
      case False
      then show ?thesis using that pos by auto
    qed
    have fit: "i * ?b + rd_cluster_off fd + (len - 0) \<le> length cs * ?b"
      unfolding i(2) using cap e(3) by (simp add: len_def)
    obtain j off' where r: "read_loop v len (chain_pos cs i) (rd_cluster_off fd) 0 [] =
        Some (chain_pos cs j, off', take len (drop (rd_off fd) ?D))" "off' < ?b" "j * ?b + off' = rd_off fd + len"
      using read_loop_reads[OF v ch le0 i(3) fit, of "[]"] unfolding i(2) by auto
    have ll: "length (take len (drop (rd_off fd) ?D)) = len"
      using length_cluster_data[OF v ch] cap e(3) by (simp add: len_def)
    let ?fd = "fd\<lparr>rd_cluster := chain_pos cs j, rd_cluster_off := off', rd_off := rd_off fd + len\<rparr>"
    have "take len (drop (rd_off fd) ?D) = take n (drop (rd_off fd) (take ?size ?D))"
      by (simp add: drop_take len_def take_take min.commute)
    then have read: "fat_Read v fd n = Some (?fd, take n (fd_rest v cs fd))"
      using e(1) len r(1) ll i(1) unfolding rest by (simp add: fat_Read_def Let_def)
    have "j \<le> length cs"
    proof (rule ccontr)
      assume "\<not> j \<le> length cs"
      then have "Suc (length cs) * ?b \<le> j * ?b" by (intro mult_le_mono1) simp
      then show False using r(3) cap e(3) volume_bytes_pos[OF v] by (simp add: len_def)
    qed
    then have "chain_pos cs j \<noteq> 0" by (rule chain_pos_nonzero[OF ch])
    then have "fd_reads v cs ?fd"
      unfolding fd_reads_def using v e r(2,3) by (auto simp: len_def)
    moreover have "fd_rest v cs ?fd = drop n (fd_rest v cs fd)"
      using length_cluster_data[OF v ch] cap e(1,3) by (simp add: fd_rest_def file_data_def len_def min_def add.commute)
    ultimately show ?thesis using read by (intro exI[of _ ?fd]) simp
  qed
qed

interpretation fat_stream: byte_stream "fd_reads v cs" "fd_rest v cs" "fat_Read v" for v cs
  by unfold_locales (use fat_Read_ok in blast)

subsection \<open>Writing a file\<close>

text \<open>
  The state of a descriptor that writes the clusters \<open>cs\<close>. The directory entry is in an allocated cluster
  that is not one of the file's.
\<close>

definition fd_writes :: "Volume \<Rightarrow> nat list \<Rightarrow> FatFD \<Rightarrow> bool" where
  "fd_writes v cs fd \<longleftrightarrow> volume_ok v \<and> valid_ptr v (fat_entry fd) \<and>
     table v ! fst (fat_entry fd) \<noteq> 0 \<and> fst (fat_entry fd) \<notin> set cs \<and>
     length (entry_name (entry_at v (fat_entry fd))) = 11 \<and>
     (if FirstCluster (entry_at v (fat_entry fd)) = 0 then cs = []
      else chain (table v) (unat (FirstCluster (entry_at v (fat_entry fd)))) cs) \<and>
     (if wr_cluster fd = 0 then wr_off fd = 0 \<and> wr_cluster_off fd = 0
      else wr_cluster_off fd \<le> bytes_per_cluster v \<and>
        (\<exists>i < length cs. wr_cluster fd = cs ! i \<and> i * bytes_per_cluster v + wr_cluster_off fd = wr_off fd))"

lemma FirstCluster_set:
  assumes "c < 2 ^ 32"
  shows "unat (FirstCluster (e\<lparr>first_cluster_low := of_nat c, first_cluster_high := of_nat (c div 2 ^ 16)\<rparr>)) = c"
proof -
  have "FirstCluster (e\<lparr>first_cluster_low := of_nat c, first_cluster_high := of_nat (c div 2 ^ 16)\<rparr>) = of_nat c"
  proof (rule bit_word_eqI)
    fix n assume "n < LENGTH(32)"
    moreover have "bit (c div 65536) (n - 16) = bit c n" if "16 \<le> n"
      using fun_cong[OF bit_drop_bit_eq[of 16 c], of "n - 16"] that by (simp add: drop_bit_eq_div)
    ultimately show "bit (FirstCluster (e\<lparr>first_cluster_low := of_nat c, first_cluster_high := of_nat (c div 2 ^ 16)\<rparr>)) n =
        bit (of_nat c :: u32) n"
      unfolding FirstCluster_def
      by (cases "n < 16") (auto simp: bit_or_iff bit_ucast_iff bit_push_bit_iff bit_of_nat_word)
  qed
  then show ?thesis using assms by (simp add: unat_of_nat)
qed

text \<open>The loop body runs once when the bytes fit the current or the next cluster.\<close>

lemma write_loop_once:
  assumes v: "volume_ok v" and ch: "chain (table v) c cs" and i: "i < length cs"
    and fr: "free_clusters (table v) 2 \<noteq> []"
    and len: "0 < len" "len \<le> length buf" "off + len \<le> bytes_per_cluster v \<or> off = bytes_per_cluster v \<and> len \<le> bytes_per_cluster v"
  shows "\<exists>v' cs' j off'. write_loop buf len v (cs ! i) off 0 = Some (v', cs' ! j, off', len) \<and> volume_ok v' \<and>
    chain (table v') c cs' \<and> prefix cs cs' \<and> j < length cs' \<and> off' \<le> bytes_per_cluster v \<and>
    j * bytes_per_cluster v + off' = i * bytes_per_cluster v + off + len \<and>
    boot_volume_image v' = boot_volume_image v \<and> length (table v') = length (table v) \<and>
    take (j * bytes_per_cluster v + off') (cluster_data v' cs') =
      take (i * bytes_per_cluster v + off) (cluster_data v cs) @ take len buf \<and>
    (\<forall>x. 2 \<le> x \<longrightarrow> table v ! x \<noteq> 0 \<longrightarrow> x \<notin> set cs \<longrightarrow>
       x \<notin> set cs' \<and> table v' ! x = table v ! x \<and> clusters v' ! (x - 2) = clusters v ! (x - 2))"
proof -
  let ?b = "bytes_per_cluster v"
  note st = chain_step[OF v ch i]
  have ci: "2 \<le> cs ! i" "cs ! i < length (table v)" using chain_mem[OF ch, of "cs ! i"] i by auto
  text \<open>Where the bytes go: the same cluster, the next one, or a new one.\<close>
  have "\<exists>v1 cs1 j off1. (if off = ?b
        then (case NextCluster v (cs ! i) of None \<Rightarrow> None
              | Some c' \<Rightarrow> if c' = kEndOfClusterchain
                  then (case ExtendCluster v (cs ! i) (num_cluster v (len - 0)) of
                     None \<Rightarrow> None | Some (v', c') \<Rightarrow> Some (v', c', 0))
                  else Some (v, c', 0))
        else Some (v, cs ! i, off)) = Some (v1, cs1 ! j, off1) \<and> volume_ok v1 \<and> chain (table v1) c cs1 \<and>
      prefix cs cs1 \<and> j < length cs1 \<and> off1 + len \<le> ?b \<and> j * ?b + off1 = i * ?b + off \<and>
      clusters v1 = clusters v \<and> boot_volume_image v1 = boot_volume_image v \<and> length (table v1) = length (table v) \<and>
      (\<forall>x. table v ! x \<noteq> 0 \<longrightarrow> x \<notin> set cs \<longrightarrow> x \<notin> set cs1 \<and> table v1 ! x = table v ! x)"
  proof (cases "off = ?b")
    case False
    then show ?thesis using v ch i len(3) by (intro exI[of _ v] exI[of _ cs] exI[of _ i] exI[of _ off]) simp
  next
    case off: True
    then have lb: "len \<le> ?b" using len by auto
    show ?thesis
    proof (cases "Suc i < length cs")
      case True
      have "chain_pos cs (Suc i) = cs ! Suc i" "chain_pos cs (Suc i) \<noteq> kEndOfClusterchain"
      proof -
        show p: "chain_pos cs (Suc i) = cs ! Suc i" using True by (simp add: chain_pos_def nth_append)
        have "cs ! Suc i < length (table v)" using chain_mem[OF ch, of "cs ! Suc i"] True by simp
        then show "chain_pos cs (Suc i) \<noteq> kEndOfClusterchain" using p v by (simp add: volume_ok_def kEndOfClusterchain_def)
      qed
      then show ?thesis using off st True v ch lb
        by (intro exI[of _ v] exI[of _ cs] exI[of _ "Suc i"] exI[of _ 0]) simp
    next
      case False
      then have last: "Suc i = length cs" using i by simp
      let ?f = "hd (free_clusters (table v) 2)"
      have tk: "take 1 (free_clusters (table v) 2) = [?f]" using fr by (cases "free_clusters (table v) 2") auto
      have tl: "length (table v) < 0x0ffffff8" using v by (simp add: volume_ok_def)
      have one: "num_cluster v len = 1"
      proof -
        have e: "len + ?b - 1 = len - 1 + ?b" "len - 1 < ?b" "?b \<noteq> 0" using len(1) lb volume_bytes_pos[OF v] by auto
        have "num_cluster v len = (len - 1) div ?b + 1"
          unfolding num_cluster_def e(1) by (rule div_add_self2[OF e(3)])
        then show ?thesis using e(2) by simp
      qed
      have li: "cs ! i = last cs" using last i by (metis diff_Suc_1 last_conv_nth list.size(3) not_less0)
      have ne: "cs \<noteq> []" using i by auto
      have lastc: "chain (table v) (last cs) [last cs]"
        using chain_suffix[of "table v" c "butlast cs" "last cs" "[]"] ch ne by simp
      obtain fat' where E: "ExtendCluster v c 1 = Some (v\<lparr>table := fat'\<rparr>, last (cs @ [?f]))"
          "chain fat' c (cs @ [?f])" "length fat' = length (table v)"
          "\<forall>x. x \<noteq> last cs \<longrightarrow> x \<notin> set [?f] \<longrightarrow> fat' ! x = table v ! x"
        using ExtendCluster_ok[OF ch, of 1] tk fr tl by (cases "free_clusters (table v) 2") auto
      have E': "ExtendCluster v (last cs) 1 = Some (v\<lparr>table := fat'\<rparr>, ?f)"
        using E(1) chain_end_chain[OF ch] chain_end_chain[OF lastc] by (simp add: ExtendCluster_def)
      have f0: "table v ! ?f = 0" using set_free_clusters[of ?f "table v" 2] fr by auto
      have "chain_pos cs (Suc i) = kEndOfClusterchain" using last by (simp add: chain_pos_def nth_append)
      moreover have "volume_ok (v\<lparr>table := fat'\<rparr>)" using v E(3) by (simp add: volume_ok_def bytes_per_cluster_def)
      moreover have "x \<notin> set (cs @ [?f]) \<and> fat' ! x = table v ! x" if "table v ! x \<noteq> 0" "x \<notin> set cs" for x
      proof -
        have "x \<noteq> ?f" using that(1) f0 by auto
        moreover have "x \<noteq> last cs" using that(2) last_in_set[OF ne] by blast
        ultimately show ?thesis using E(4) that(2) by simp
      qed
      moreover have "length cs * ?b = i * ?b + ?b" unfolding last[symmetric] by simp
      ultimately show ?thesis using off st one E' E(2,3) li lb last
        by - (rule exI[of _ "v\<lparr>table := fat'\<rparr>"], rule exI[of _ "cs @ [?f]"], rule exI[of _ "Suc i"], rule exI[of _ 0],
          simp add: nth_append)
    qed
  qed
  then obtain v1 cs1 j off1 where w: "(if off = ?b
        then (case NextCluster v (cs ! i) of None \<Rightarrow> None
              | Some c' \<Rightarrow> if c' = kEndOfClusterchain
                  then (case ExtendCluster v (cs ! i) (num_cluster v (len - 0)) of
                     None \<Rightarrow> None | Some (v', c') \<Rightarrow> Some (v', c', 0))
                  else Some (v, c', 0))
        else Some (v, cs ! i, off)) = Some (v1, cs1 ! j, off1)"
      and v1: "volume_ok v1" "chain (table v1) c cs1" "prefix cs cs1" "j < length cs1" "off1 + len \<le> ?b"
        "j * ?b + off1 = i * ?b + off" "clusters v1 = clusters v" "boot_volume_image v1 = boot_volume_image v"
        "length (table v1) = length (table v)"
      and other: "\<forall>x. table v ! x \<noteq> 0 \<longrightarrow> x \<notin> set cs \<longrightarrow> x \<notin> set cs1 \<and> table v1 ! x = table v ! x"
    by blast
  have b1: "bytes_per_cluster v1 = ?b" using v1(8) by (simp add: bytes_per_cluster_def)
  note st1 = chain_step[OF v1(1,2,4)]
  let ?sec = "clusters v ! (cs1 ! j - 2)" and ?bs = "take len buf"
  have sec: "GetSectorByCluster v1 (cs1 ! j) = Some ?sec" using st1(2,3) v1(7) by simp
  have cj: "2 \<le> cs1 ! j" "cs1 ! j < length (table v)" using chain_mem[OF v1(2), of "cs1 ! j"] v1(4,9) by auto
  have ls: "length ?sec = ?b" by (rule cluster_length[OF v cj])
  have fit: "off1 + length ?bs \<le> length ?sec" using ls len(2) v1(5) by simp
  let ?v2 = "set_cluster (cs1 ! j) (blit off1 ?bs ?sec) v1"
  have v2: "volume_ok ?v2"
    using v1(1) fit ls b1 by (auto simp: volume_ok_def set_cluster_def bytes_per_cluster_def length_blit
        dest!: subsetD[OF set_update_subset_insert])
  have mn: "min len (?b - off1) = len" using v1(5) by simp
  have l1: "write_loop buf len v2 x y len = Some (v2, x, y, len)" for v2 x y by (subst write_loop.simps) simp
  have loop: "write_loop buf len v (cs ! i) off 0 = Some (?v2, cs1 ! j, off1 + len, len)"
    by (subst write_loop.simps) (use w len sec mn l1 in \<open>simp add: Let_def\<close>)
  have inj: "x - 2 \<noteq> cs1 ! j - 2" if "2 \<le> x" "x \<noteq> cs1 ! j" for x using that cj by auto
  have d: "cluster_data ?v2 cs1 = blit (j * ?b + off1) ?bs (cluster_data v cs1)"
  proof -
    let ?xss = "map (\<lambda>c. clusters v ! (c - 2)) cs1"
    have "map (\<lambda>c. clusters ?v2 ! (c - 2)) cs1 = ?xss[j := blit off1 ?bs (?xss ! j)]"
    proof (rule nth_equalityI)
      fix k assume "k < length (map (\<lambda>c. clusters ?v2 ! (c - 2)) cs1)"
      then have k: "k < length cs1" by simp
      have ck: "2 \<le> cs1 ! k" using chain_mem[OF v1(2), of "cs1 ! k"] k by simp
      have "cs1 ! j - 2 < length (clusters v)" using cj v by (auto simp: volume_ok_def)
      moreover have "k \<noteq> j \<Longrightarrow> cs1 ! k \<noteq> cs1 ! j" using chain_distinct[OF v1(2)] k v1(4) by (simp add: nth_eq_iff_index_eq)
      ultimately show "map (\<lambda>c. clusters ?v2 ! (c - 2)) cs1 ! k = ?xss[j := blit off1 ?bs (?xss ! j)] ! k"
        using k v1(4,7) inj[OF ck] by (cases "k = j") (auto simp: set_cluster_def)
    qed simp
    moreover have "\<forall>x \<in> set ?xss. length x = ?b" using cluster_lengths[OF v1(1,2)] v1(7) b1 by simp
    ultimately show ?thesis using concat_blit[of ?xss ?b j off1 ?bs] v1(4) fit ls by (simp add: cluster_data_def)
  qed
  have lD: "length (cluster_data v cs1) = length cs1 * ?b"
    using length_cluster_data[OF v1(1,2)] b1 v1(7) by (simp add: cluster_data_def)
  have "Suc j * ?b \<le> length cs1 * ?b" using v1(4) by (intro mult_le_mono1) simp
  then have room: "j * ?b + off1 + length ?bs \<le> length (cluster_data v cs1)" using lD v1(5) len(2) by simp
  have "take (j * ?b + (off1 + len)) (cluster_data ?v2 cs1) = take (j * ?b + off1) (cluster_data v cs1) @ ?bs"
    using take_blit[OF room] len(2) by (simp add: d add.assoc)
  moreover have "take (j * ?b + off1) (cluster_data v cs1) = take (i * ?b + off) (cluster_data v cs)"
  proof -
    have "Suc i * ?b \<le> length cs * ?b" using i by (intro mult_le_mono1) simp
    then have "i * ?b + off \<le> length (cluster_data v cs)" using length_cluster_data[OF v ch] len(3) by auto
    moreover obtain zs where "cs1 = cs @ zs" using v1(3) by (auto elim: prefixE)
    ultimately show ?thesis unfolding v1(6) by (simp add: cluster_data_def)
  qed
  moreover have "x \<notin> set cs1 \<and> table ?v2 ! x = table v ! x \<and> clusters ?v2 ! (x - 2) = clusters v ! (x - 2)"
    if "2 \<le> x" "table v ! x \<noteq> 0" "x \<notin> set cs" for x
  proof -
    have x: "x \<notin> set cs1" "table v1 ! x = table v ! x" using other that by auto
    then have "x \<noteq> cs1 ! j" using v1(4) by auto
    from inj[OF that(1) this] have "cs1 ! j - 2 \<noteq> x - 2" by simp
    then show ?thesis using x v1(7) by (simp add: set_cluster_def)
  qed
  moreover have "boot_volume_image ?v2 = boot_volume_image v" "length (table ?v2) = length (table v)" "chain (table ?v2) c cs1"
    using v1 by (simp_all add: set_cluster_def)
  ultimately show ?thesis using loop v2 v1(3,4,5,6)
    by (intro exI[of _ ?v2] exI[of _ cs1] exI[of _ j] exI[of _ "off1 + len"]) simp
qed

lemma file_size_small [simp]: "FirstCluster (e\<lparr>file_size := n\<rparr>) = FirstCluster e"
  by (simp add: FirstCluster_def)

text \<open>The cluster to start from: known, of the existing file, or newly allocated.\<close>

definition write_start :: "Volume \<Rightarrow> FatFD \<Rightarrow> nat \<Rightarrow> (Volume \<times> nat) option" where
  "write_start v fd len = (let e = entry_at v (fat_entry fd) in
     if wr_cluster fd = 0
     then if FirstCluster e \<noteq> 0 then Some (v, unat (FirstCluster e))
          else do {
            (v', c) \<leftarrow> AllocateClusterChain v (num_cluster v len);
            v'' \<leftarrow> put_entry (fat_entry fd) (e\<lparr>first_cluster_low := of_nat c,
                     first_cluster_high := of_nat (c div 2 ^ 16)\<rparr>) v';
            Some (v'', c) }
     else Some (v, wr_cluster fd))"

lemma write_start_ok:
  assumes w: "fd_writes v cs fd" and len: "len \<le> bytes_per_cluster v" and fr: "2 \<le> length (free_clusters (table v) 2)"
  shows "\<exists>v' cs' c i. write_start v fd len = Some (v', cs' ! i) \<and> volume_ok v' \<and> valid_ptr v' (fat_entry fd) \<and>
    chain (table v') c cs' \<and> i < length cs' \<and> i * bytes_per_cluster v + wr_cluster_off fd = wr_off fd \<and>
    wr_cluster_off fd \<le> bytes_per_cluster v \<and> boot_volume_image v' = boot_volume_image v \<and>
    c = unat (FirstCluster (entry_at v' (fat_entry fd))) \<and> length (entry_name (entry_at v' (fat_entry fd))) = 11 \<and>
    table v' ! fst (fat_entry fd) \<noteq> 0 \<and> fst (fat_entry fd) \<notin> set cs' \<and> free_clusters (table v') 2 \<noteq> [] \<and>
    length (table v') = length (table v) \<and>
    take (wr_off fd) (cluster_data v' cs') = take (wr_off fd) (cluster_data v cs) \<and>
    (\<forall>x. 2 \<le> x \<longrightarrow> table v ! x \<noteq> 0 \<longrightarrow> x \<notin> set cs \<longrightarrow> x \<noteq> fst (fat_entry fd) \<longrightarrow>
       x \<notin> set cs' \<and> table v' ! x = table v ! x \<and> clusters v' ! (x - 2) = clusters v ! (x - 2))"
proof -
  let ?p = "fat_entry fd" and ?b = "bytes_per_cluster v"
  let ?e = "entry_at v ?p"
  have v: "volume_ok v" and p: "valid_ptr v ?p" "table v ! fst ?p \<noteq> 0" "fst ?p \<notin> set cs" "length (entry_name ?e) = 11"
    and ch: "if FirstCluster ?e = 0 then cs = [] else chain (table v) (unat (FirstCluster ?e)) cs"
    and pos: "if wr_cluster fd = 0 then wr_off fd = 0 \<and> wr_cluster_off fd = 0
      else wr_cluster_off fd \<le> ?b \<and> (\<exists>i < length cs. wr_cluster fd = cs ! i \<and> i * ?b + wr_cluster_off fd = wr_off fd)"
    using w unfolding fd_writes_def by blast+
  have tl: "length (table v) < 0x0ffffff8" using v by (simp add: volume_ok_def)
  have fr1: "free_clusters (table v) 2 \<noteq> []" using fr by auto
  show ?thesis
  proof (cases "FirstCluster ?e = 0")
    case False
    then have ch: "chain (table v) (unat (FirstCluster ?e)) cs" using ch by simp
    obtain i where i: "write_start v fd len = Some (v, cs ! i)" "i < length cs" "i * ?b + wr_cluster_off fd = wr_off fd"
        "wr_cluster_off fd \<le> ?b"
    proof (cases "wr_cluster fd = 0")
      case True
      have "cs ! 0 = unat (FirstCluster ?e)" "0 < length cs" using chain_head[OF ch] by auto
      then show ?thesis using that[of 0] True pos \<open>FirstCluster ?e \<noteq> 0\<close> by (simp add: write_start_def Let_def)
    next
      case False
      then show ?thesis using that pos by (auto simp: write_start_def Let_def)
    qed
    then show ?thesis using v p ch fr1
      by (intro exI[of _ v] exI[of _ cs] exI[of _ "unat (FirstCluster ?e)"] exI[of _ i]) simp
  next
    case True
    then have cs: "cs = []" using ch by simp
    then have w0: "wr_cluster fd = 0" "wr_off fd = 0" "wr_cluster_off fd = 0" using pos by (auto split: if_splits)
    let ?n = "num_cluster v len"
    have n1: "max ?n 1 = 1"
    proof -
      have "len + ?b - 1 < 2 * ?b" using len volume_bytes_pos[OF v] by linarith
      then have "?n < 2" unfolding num_cluster_def by (rule less_mult_imp_div_less)
      then show ?thesis by simp
    qed
    obtain f g fs where fc: "free_clusters (table v) 2 = f # g # fs"
      using fr by (cases "free_clusters (table v) 2") (auto simp: Suc_le_length_iff)
    obtain fat' where A: "AllocateClusterChain v ?n = Some (v\<lparr>table := fat'\<rparr>, f)" "chain fat' f [f]"
        "length fat' = length (table v)" "\<forall>x. x \<noteq> f \<longrightarrow> fat' ! x = table v ! x"
      using AllocateClusterChain_ok[of ?n v] n1 fr1 tl fc by (auto simp: fc)
    have f: "2 \<le> f" "f < length (table v)" "table v ! f = 0" "g \<noteq> f" "2 \<le> g" "g < length (table v)" "table v ! g = 0"
      using set_free_clusters[of f "table v" 2] set_free_clusters[of g "table v" 2] distinct_free_clusters[of "table v" 2] fc by auto
    let ?v1 = "v\<lparr>table := fat'\<rparr>"
    let ?e1 = "?e\<lparr>first_cluster_low := of_nat f, first_cluster_high := of_nat (f div 2 ^ 16)\<rparr>"
    have v1: "volume_ok ?v1" using v A(3) by (simp add: volume_ok_def bytes_per_cluster_def)
    have p1: "valid_ptr ?v1 ?p" using p(1) A(3) by (simp add: valid_ptr_def num_entries_def bytes_per_cluster_def)
    have fp: "fst ?p \<noteq> f" using p(2) f(3) by auto
    obtain v2 where v2: "put_entry ?p ?e1 ?v1 = Some v2" "volume_ok v2" "table v2 = fat'"
        "boot_volume_image v2 = boot_volume_image v" "entry_at v2 ?p = ?e1"
        "\<forall>x. 2 \<le> x \<longrightarrow> x \<noteq> fst ?p \<longrightarrow> clusters v2 ! (x - 2) = clusters v ! (x - 2)"
      using put_entry_ok[OF v1 p1, of ?e1] p(4) by auto
    have "f < 2 ^ 32" using f(2) tl by simp
    then have fc2: "unat (FirstCluster ?e1) = f" by (rule FirstCluster_set)
    have ws: "write_start v fd len = Some (v2, f)" using True w0 A(1) v2(1) by (simp add: write_start_def Let_def)
    have p2: "valid_ptr v2 ?p" using p1 v2(3,4) by (simp add: valid_ptr_def num_entries_def bytes_per_cluster_def)
    have ch2: "chain (table v2) f [f]" using A(2) v2(3) by simp
    have "g \<in> set (free_clusters (table v2) 2)" using f A(3,4) v2(3) by (simp add: set_free_clusters)
    then have fr2: "free_clusters (table v2) 2 \<noteq> []" by auto
    have tp: "table v2 ! fst ?p \<noteq> 0" using fp A(4) v2(3) p(2) by simp
    have oth: "x \<notin> set [f] \<and> table v2 ! x = table v ! x \<and> clusters v2 ! (x - 2) = clusters v ! (x - 2)"
      if "2 \<le> x" "table v ! x \<noteq> 0" "x \<noteq> fst ?p" for x
      using that f(3) A(4) v2(3,6) by auto
    show ?thesis
      by (rule exI[of _ v2], rule exI[of _ "[f]"], rule exI[of _ f], rule exI[of _ 0])
         (use ws v2(2-5) p2 ch2 w0 fc2 p(4) tp fp fr2 A(3) oth in simp)
  qed
qed

lemma fat_Write_ok:
  assumes w: "fd_writes v cs fd" and fr: "2 \<le> length (free_clusters (table v) 2)"
    and len: "0 < len" "len \<le> length buf" "wr_off fd + len < 2 ^ 32"
      "wr_cluster_off fd + len \<le> bytes_per_cluster v \<or> wr_cluster_off fd = bytes_per_cluster v \<and> len \<le> bytes_per_cluster v"
  shows "\<exists>v' fd' cs'. fat_Write v fd buf len = Some (v', fd', len) \<and> fd_writes v' cs' fd' \<and>
    wr_off fd' = wr_off fd + len \<and> fat_entry fd' = fat_entry fd \<and>
    get_entry v' (fat_entry fd) = Some (entry_at v' (fat_entry fd)) \<and>
    file_ok v' (entry_at v' (fat_entry fd)) cs' \<and>
    file_data v' (entry_at v' (fat_entry fd)) cs' = take (wr_off fd) (cluster_data v cs) @ take len buf \<and>
    (\<forall>x. 2 \<le> x \<longrightarrow> table v ! x \<noteq> 0 \<longrightarrow> x \<notin> set cs \<longrightarrow> x \<noteq> fst (fat_entry fd) \<longrightarrow>
       x \<notin> set cs' \<and> table v' ! x = table v ! x \<and> clusters v' ! (x - 2) = clusters v ! (x - 2))"
proof -
  let ?p = "fat_entry fd" and ?b = "bytes_per_cluster v"
  have v: "volume_ok v" and p: "valid_ptr v ?p" using w by (auto simp: fd_writes_def)
  have lb: "len \<le> ?b" using len(4) by auto
  obtain v1 cs1 c i where s: "write_start v fd len = Some (v1, cs1 ! i)" "volume_ok v1" "valid_ptr v1 ?p"
      "chain (table v1) c cs1" "i < length cs1" "i * ?b + wr_cluster_off fd = wr_off fd" "wr_cluster_off fd \<le> ?b"
      "boot_volume_image v1 = boot_volume_image v" "c = unat (FirstCluster (entry_at v1 ?p))"
      "length (entry_name (entry_at v1 ?p)) = 11" "table v1 ! fst ?p \<noteq> 0" "fst ?p \<notin> set cs1"
      "free_clusters (table v1) 2 \<noteq> []" "length (table v1) = length (table v)"
      "take (wr_off fd) (cluster_data v1 cs1) = take (wr_off fd) (cluster_data v cs)"
      "\<forall>x. 2 \<le> x \<longrightarrow> table v ! x \<noteq> 0 \<longrightarrow> x \<notin> set cs \<longrightarrow> x \<noteq> fst ?p \<longrightarrow>
         x \<notin> set cs1 \<and> table v1 ! x = table v ! x \<and> clusters v1 ! (x - 2) = clusters v ! (x - 2)"
    using write_start_ok[OF w lb fr] by blast
  have b1: "bytes_per_cluster v1 = ?b" using s(8) by (simp add: bytes_per_cluster_def)
  have p2: "2 \<le> fst ?p" using p by (simp add: valid_ptr_def)
  obtain v2 cs2 j off' where l: "write_loop buf len v1 (cs1 ! i) (wr_cluster_off fd) 0 = Some (v2, cs2 ! j, off', len)"
      "volume_ok v2" "chain (table v2) c cs2" "prefix cs1 cs2" "j < length cs2" "off' \<le> ?b"
      "j * ?b + off' = wr_off fd + len"
      "boot_volume_image v2 = boot_volume_image v1" "length (table v2) = length (table v1)"
      "take (j * ?b + off') (cluster_data v2 cs2) = take (wr_off fd) (cluster_data v1 cs1) @ take len buf"
      "\<forall>x. 2 \<le> x \<longrightarrow> table v1 ! x \<noteq> 0 \<longrightarrow> x \<notin> set cs1 \<longrightarrow>
         x \<notin> set cs2 \<and> table v2 ! x = table v1 ! x \<and> clusters v2 ! (x - 2) = clusters v1 ! (x - 2)"
    using write_loop_once[OF s(2,4,5,13) len(1,2), of "wr_cluster_off fd"] len(4) unfolding b1 s(6) by blast
  have pp: "fst ?p \<notin> set cs2" "table v2 ! fst ?p \<noteq> 0" "entry_at v2 ?p = entry_at v1 ?p"
    using l(11) p2 s(11,12) by (auto simp: entry_at_def)
  have p2v: "valid_ptr v2 ?p" using s(3) l(8,9) by (simp add: valid_ptr_def num_entries_def bytes_per_cluster_def)
  let ?e = "(entry_at v2 ?p)\<lparr>file_size := of_nat (wr_off fd + len)\<rparr>"
  obtain v3 where v3: "put_entry ?p ?e v2 = Some v3" "volume_ok v3" "table v3 = table v2"
      "boot_volume_image v3 = boot_volume_image v2" "entry_at v3 ?p = ?e"
      "\<forall>x. 2 \<le> x \<longrightarrow> x \<noteq> fst ?p \<longrightarrow> clusters v3 ! (x - 2) = clusters v2 ! (x - 2)"
    using put_entry_ok[OF l(2) p2v, of ?e] s(10) pp(3) by auto
  have b3: "bytes_per_cluster v3 = ?b" "num_entries v3 = num_entries v2"
    using v3(4) l(8) s(8) by (simp_all add: bytes_per_cluster_def num_entries_def)
  have p3: "valid_ptr v3 ?p" using p2v v3(3) b3(2) by (simp add: valid_ptr_def)
  let ?fd = "fd\<lparr>wr_cluster := cs2 ! j, wr_cluster_off := off', wr_off := wr_off fd + len\<rparr>"
  have W: "fat_Write v fd buf len = Some (v3, ?fd, len)"
    using s(1) l(1) v3(1) get_entry_at[OF v p] get_entry_at[OF l(2) p2v]
    unfolding fat_Write_def write_start_def Let_def by simp
  have c: "c = unat (FirstCluster (entry_at v3 ?p))" "FirstCluster (entry_at v3 ?p) \<noteq> 0"
  proof -
    show c: "c = unat (FirstCluster (entry_at v3 ?p))" using s(9) pp(3) v3(5) by simp
    have "2 \<le> c" using l(3) chain_head[OF l(3)] chain_mem[OF l(3), of c] by auto
    then show "FirstCluster (entry_at v3 ?p) \<noteq> 0" using c by auto
  qed
  have ch3: "chain (table v3) (unat (FirstCluster (entry_at v3 ?p))) cs2" using l(3) v3(3) c(1) by simp
  have c2: "cs2 ! j \<noteq> 0" using chain_mem[OF l(3), of "cs2 ! j"] l(5) by auto
  have fw: "fd_writes v3 cs2 ?fd"
    unfolding fd_writes_def using v3(2,3,5) p3 pp s(10) ch3 c(2) c2 l(5,6,7) b3 by auto
  have sz: "unat (file_size (entry_at v3 ?p)) = wr_off fd + len" using v3(5) len(3) by (simp add: unat_of_nat del: of_nat_add)
  have "Suc j * ?b \<le> length cs2 * ?b" using l(5) by (intro mult_le_mono1) simp
  then have fo: "file_ok v3 (entry_at v3 ?p) cs2" unfolding file_ok_def using ch3 c(2) sz b3 l(6,7) by simp
  have "clusters v3 ! (x - 2) = clusters v2 ! (x - 2)" if "x \<in> set cs2" for x
    using v3(6) that pp(1) chain_mem[OF l(3) that] by auto
  then have "cluster_data v3 cs2 = cluster_data v2 cs2" unfolding cluster_data_def by (metis (no_types, lifting) map_cong)
  then have fdata: "file_data v3 (entry_at v3 ?p) cs2 = take (wr_off fd) (cluster_data v cs) @ take len buf"
    using l(7,10) sz s(15) by (simp add: file_data_def)
  have oth: "x \<notin> set cs2 \<and> table v3 ! x = table v ! x \<and> clusters v3 ! (x - 2) = clusters v ! (x - 2)"
    if "2 \<le> x" "table v ! x \<noteq> 0" "x \<notin> set cs" "x \<noteq> fst ?p" for x
    using s(16) l(11) v3(3,6) that by auto
  show ?thesis using W fw get_entry_at[OF v3(2) p3] fo fdata oth by (intro exI[of _ v3] exI[of _ ?fd] exI[of _ cs2]) simp
qed

subsection \<open>Properties\<close>

lemma new_FatFD_reads:
  assumes "volume_ok v" and "valid_ptr v p" and "file_ok v (entry_at v p) cs"
  shows "fd_reads v cs (new_FatFD p)" and "fd_rest v cs (new_FatFD p) = file_data v (entry_at v p) cs"
  using assms get_entry_at[OF assms(1,2)] by (simp_all add: fd_reads_def fd_rest_def new_FatFD_def)

text \<open>A volume with one file of 70 bytes in two clusters.\<close>

definition sample_entry :: DirectoryEntry where
  "sample_entry = \<lparr>entry_name = replicate 11 65, attr = 0x20, ntres = 0, create_time_tenth = 0, create_time = 0,
     create_date = 0, last_access_date = 0, first_cluster_high = 0, write_time = 0, write_date = 0,
     first_cluster_low = 3, file_size = 70\<rparr>"

definition sample_files :: Volume where
  "sample_files = sample_volume\<lparr>table := [0x0ffffff8, 0x0fffffff, 0x0fffffff, 4, 0x0fffffff, 0],
     clusters := [encode_entry sample_entry @ replicate 32 0, replicate 64 1, replicate 64 2, replicate 64 0]\<rparr>"

lemma sample_files_ok:
  "volume_ok sample_files" "valid_ptr sample_files (2, 0)" "entry_at sample_files (2, 0) = sample_entry"
  "file_ok sample_files sample_entry [3, 4]"
proof -
  have l: "length (encode_entry sample_entry) = 32" "decode_entry (encode_entry sample_entry) = sample_entry"
    using decode_encode_entry[of sample_entry] by (simp_all add: sample_entry_def entry_size_def)
  have b: "bytes_per_cluster sample_files = 64" by (simp add: bytes_per_cluster_def sample_files_def sample_volume_def)
  show "volume_ok sample_files" using l b by (simp add: volume_ok_def sample_files_def entry_size_def)
  show "valid_ptr sample_files (2, 0)" using b by (simp add: valid_ptr_def num_entries_def sample_files_def entry_size_def)
  show "entry_at sample_files (2, 0) = sample_entry" using l by (simp add: entry_at_def dir_entry_def sample_files_def entry_size_def)
  show "file_ok sample_files sample_entry [3, 4]"
    using b by (simp add: file_ok_def FirstCluster_def sample_entry_def sample_files_def IsEndOfClusterchain_def)
qed

lemma sample_content: "file_data sample_files sample_entry [3, 4] = replicate 64 1 @ replicate 6 2"
  by (simp add: file_data_def cluster_data_def sample_files_def sample_entry_def)

text \<open>C10: Reading returns the file, in order and to the end. For a file whose cluster chain holds its declared size,
  loading it gives the first bytes of its content, reading it in two pieces gives the same bytes as reading it in
  one, reading at the end gives nothing, and none of these reads outside the file's clusters.\<close>

theorem fat_Read_content:
  assumes "volume_ok v" and "valid_ptr v p" and "file_ok v (entry_at v p) cs"
  defines "content \<equiv> file_data v (entry_at v p) cs"
  shows "LoadFile v p n = Some (take n content) \<and>
    (\<exists>fd1 fd2. fat_Read v (new_FatFD p) n = Some (fd1, take n content)
      \<and> fat_Read v fd1 m = Some (fd2, take m (drop n content))
      \<and> take n content @ take m (drop n content) = take (n + m) content) \<and>
    length content = unat (file_size (entry_at v p))"
proof (intro conjI)
  note ok = new_FatFD_reads[OF assms(1-3)]
  obtain fd1 where 1: "fat_Read v (new_FatFD p) n = Some (fd1, take n content)" "fd_reads v cs fd1" "fd_rest v cs fd1 = drop n content"
    using fat_stream.read_takes[OF ok(1)] unfolding ok(2) content_def by blast
  then show "LoadFile v p n = Some (take n content)" by (simp add: LoadFile_def)
  obtain fd2 where "fat_Read v fd1 m = Some (fd2, take m (drop n content))"
    using fat_stream.read_takes[OF 1(2)] unfolding 1(3) by blast
  then show "\<exists>fd1 fd2. fat_Read v (new_FatFD p) n = Some (fd1, take n content)
      \<and> fat_Read v fd1 m = Some (fd2, take m (drop n content))
      \<and> take n content @ take m (drop n content) = take (n + m) content"
    using 1(1) by (simp add: take_add)
  show "length content = unat (file_size (entry_at v p))"
    using assms(3) length_cluster_data[OF assms(1)]
    by (cases "FirstCluster (entry_at v p) = 0") (auto simp: content_def file_data_def file_ok_def)
qed

lemma fat_Read_content_witness: "LoadFile sample_files (2, 0) 66 = Some (replicate 64 1 @ replicate 2 2)"
  using fat_Read_content[OF sample_files_ok(1,2), unfolded sample_files_ok(3), OF sample_files_ok(4), of 66]
  unfolding sample_content by simp

text \<open>Lines are read as lines. \<open>ReadDelim\<close> on an open file stores the bytes up to and including the next
  delimiter, or up to the end of the file or the size of the buffer, terminates them and leaves
  the descriptor right behind them; \<open>ReadBinary\<close> stores exactly the bytes that remain.\<close>

theorem ReadDelim_reads_line:
  fixes d :: u8
  assumes "fd_reads v cs fd" and "0 < n"
  defines "rest \<equiv> fd_rest v cs fd"
  defines "line \<equiv> take (n - 1) (takeWhile (\<lambda>b. b \<noteq> d) rest @ take 1 (dropWhile (\<lambda>b. b \<noteq> d) rest))"
  shows "(\<exists>fd'. ReadDelim (fat_Read v) fd d n = Some (fd', line @ [0], length line) \<and> fd_reads v cs fd' \<and>
      fd_rest v cs fd' = drop (length line) rest) \<and>
    (\<exists>fd'. ReadBinary (fat_Read v) fd n = Some (fd', take n rest) \<and> fd_rest v cs fd' = drop n rest)"
  using fat_stream.ReadDelim_takes[OF assms(1,2), of d] fat_stream.ReadBinary_takes[OF assms(1), of n]
  unfolding line_def rest_def by blast+

lemma ReadDelim_reads_line_witness:
  "\<exists>fd'. ReadDelim (fat_Read sample_files) (new_FatFD (2, 0)) 1 4 = Some (fd', [1, 0], 1)"
proof -
  note r = new_FatFD_reads[OF sample_files_ok(1,2), unfolded sample_files_ok(3), OF sample_files_ok(4)]
  show ?thesis
    using ReadDelim_reads_line[OF r(1), of 4 1] unfolding r(2) sample_content by auto
qed

text \<open>C11: What is written is read back. A write that fits the current cluster, or the next one when the current is
  full, stores exactly the bytes given behind those this descriptor wrote before, allocates
  clusters as needed, and changes no other allocated cluster; loading the file then returns all of them.\<close>

theorem fat_Write_then_read:
  assumes "fd_writes v cs fd" and "2 \<le> length (free_clusters (table v) 2)"
    and "0 < len" and "len \<le> length buf" and "wr_off fd + len < 2 ^ 32"
    and "wr_cluster_off fd + len \<le> bytes_per_cluster v \<or> wr_cluster_off fd = bytes_per_cluster v \<and> len \<le> bytes_per_cluster v"
  shows "\<exists>v' fd' cs'. fat_Write v fd buf len = Some (v', fd', len) \<and> fd_writes v' cs' fd'
    \<and> LoadFile v' (fat_entry fd) (wr_off fd + len) = Some (take (wr_off fd) (cluster_data v cs) @ take len buf)
    \<and> fat_Size v' fd' = Some (wr_off fd + len)
    \<and> (\<forall>x. 2 \<le> x \<longrightarrow> table v ! x \<noteq> 0 \<longrightarrow> x \<notin> set cs \<longrightarrow> x \<noteq> fst (fat_entry fd) \<longrightarrow>
         table v' ! x = table v ! x \<and> clusters v' ! (x - 2) = clusters v ! (x - 2))"
proof -
  let ?p = "fat_entry fd"
  obtain v' fd' cs' where w: "fat_Write v fd buf len = Some (v', fd', len)" "fd_writes v' cs' fd'"
      "fat_entry fd' = ?p" "get_entry v' ?p = Some (entry_at v' ?p)" "file_ok v' (entry_at v' ?p) cs'"
      "file_data v' (entry_at v' ?p) cs' = take (wr_off fd) (cluster_data v cs) @ take len buf" "wr_off fd' = wr_off fd + len"
      "\<forall>x. 2 \<le> x \<longrightarrow> table v ! x \<noteq> 0 \<longrightarrow> x \<notin> set cs \<longrightarrow> x \<noteq> fst ?p \<longrightarrow>
         x \<notin> set cs' \<and> table v' ! x = table v ! x \<and> clusters v' ! (x - 2) = clusters v ! (x - 2)"
    using fat_Write_ok[OF assms(1-6)] by blast
  let ?data = "take (wr_off fd) (cluster_data v cs) @ take len buf"
  have v': "volume_ok v'" "valid_ptr v' ?p" using w(2,3) by (auto simp: fd_writes_def)
  have ld: "length (file_data v' (entry_at v' ?p) cs') = unat (file_size (entry_at v' ?p))"
    using w(5) length_cluster_data[OF v'(1)]
    by (cases "FirstCluster (entry_at v' ?p) = 0") (auto simp: file_data_def file_ok_def)
  have lo: "wr_off fd \<le> length (cluster_data v cs)"
  proof (cases "wr_cluster fd = 0")
    case True
    then show ?thesis using assms(1) by (simp add: fd_writes_def)
  next
    case False
    then obtain i where i: "i < length cs" "i * bytes_per_cluster v + wr_cluster_off fd = wr_off fd"
        "wr_cluster_off fd \<le> bytes_per_cluster v" "volume_ok v" "chain (table v) (unat (FirstCluster (entry_at v ?p))) cs"
      using assms(1) unfolding fd_writes_def by (auto split: if_splits)
    have "Suc i * bytes_per_cluster v \<le> length cs * bytes_per_cluster v" using i(1) by (intro mult_le_mono1) simp
    then show ?thesis using i length_cluster_data[OF i(4,5)] by simp
  qed
  then have sz: "unat (file_size (entry_at v' ?p)) = wr_off fd + len" using ld w(6) assms(4) by simp
  obtain fd2 where "fat_Read v' (new_FatFD ?p) (wr_off fd + len) = Some (fd2, take (wr_off fd + len) ?data)"
    using fat_stream.read_takes[OF new_FatFD_reads(1)[OF v' w(5)]] unfolding new_FatFD_reads(2)[OF v' w(5)] w(6) by blast
  moreover have "take (wr_off fd + len) ?data = ?data" using lo assms(4) by simp
  ultimately have "LoadFile v' ?p (wr_off fd + len) = Some ?data" by (simp add: LoadFile_def)
  moreover have "fat_Size v' fd' = Some (wr_off fd + len)" using w(3,4) sz by (simp add: fat_Size_def)
  ultimately show ?thesis using w(1,2,8) by blast
qed

lemma of_bytes_zero: "of_bytes (replicate n 0) = 0"
  by (induction n) simp_all

lemma fat_Write_then_read_witness:
  "\<exists>v' fd'. fat_Write sample_volume (new_FatFD (2, 0)) [10, 20, 30] 3 = Some (v', fd', 3) \<and> LoadFile v' (2, 0) 3 = Some [10, 20, 30]"
proof -
  have z: "entry_at sample_volume (2, 0) = decode_entry (replicate 32 0)"
    by (simp add: entry_at_def dir_entry_def sample_volume_def entry_size_def)
  have "fd_writes sample_volume [] (new_FatFD (2, 0))"
    using sample_volume_ok(1) z by (simp add: fd_writes_def new_FatFD_def valid_ptr_def num_entries_def
        bytes_per_cluster_def entry_size_def sample_volume_def decode_entry_def FirstCluster_def of_bytes_zero)
  moreover have "bytes_per_cluster sample_volume = 64" by (simp add: bytes_per_cluster_def sample_volume_def)
  ultimately show ?thesis
    using fat_Write_then_read[of sample_volume "[]" "new_FatFD (2, 0)" 3 "[10, 20, 30]"] sample_volume_ok(4)
    by (simp add: new_FatFD_def) blast
qed

text \<open>A write across a cluster boundary reads past its buffer. The length of each chunk is bounded by \<open>len\<close> and not
  by the bytes that remain, so when a write does not fit the rest of the current cluster, its second chunk is
  again \<open>len\<close> bytes long: with a buffer of exactly \<open>len\<close> bytes the access is out of bounds.\<close>

theorem fat_Write_straddle_overruns:
  assumes "wr_cluster fd \<noteq> 0" and "wr_cluster_off fd < bytes_per_cluster v"
    and "bytes_per_cluster v < wr_cluster_off fd + len" and "len \<le> bytes_per_cluster v" and "length buf = len"
  shows "fat_Write v fd buf len = None"
proof -
  let ?b = "bytes_per_cluster v" and ?off = "wr_cluster_off fd"
  have two: "write_loop buf len v1 c ?b (?b - ?off) = None" if b1: "bytes_per_cluster v1 = ?b" for v1 c
  proof -
    let ?step = "case NextCluster v1 c of None \<Rightarrow> None
       | Some c' \<Rightarrow> if c' = kEndOfClusterchain
           then (case ExtendCluster v1 c (num_cluster v1 (len - (?b - ?off))) of
                  None \<Rightarrow> None | Some (v', c') \<Rightarrow> Some (v', c', 0))
           else Some (v1, c', 0)"
    have r0: "snd (snd r) = (0 :: nat)" if "?step = Some r" for r
      using that by (auto split: option.splits if_splits)
    have "?b - ?off < len" "min len ?b = len" using assms(2,3,4) by auto
    moreover have "length buf < (?b - ?off) + len" using assms(2,5) by simp
    ultimately show ?thesis
      using r0 b1 by (subst write_loop.simps) (cases ?step, auto simp: Let_def split: option.splits)
  qed
  have "min len (?b - ?off) = ?b - ?off" "0 < len" using assms(2,3,4) by auto
  then have "write_loop buf len v (wr_cluster fd) ?off 0 = None"
    using two[of "set_cluster (wr_cluster fd) bs v" for bs] assms(2,3,5)
    by (subst write_loop.simps) (simp add: Let_def set_cluster_def bytes_per_cluster_def split: option.split)
  then show ?thesis using assms(1) unfolding fat_Write_def by (cases "get_entry v (fat_entry fd)") simp_all
qed

lemma fat_Write_straddle_overruns_witness:
  "fat_Write sample_files ((new_FatFD (2, 0))\<lparr>wr_cluster := 3, wr_cluster_off := 40\<rparr>) (replicate 40 7) 40 = None"
  by (rule fat_Write_straddle_overruns) (simp_all add: bytes_per_cluster_def sample_files_def sample_volume_def new_FatFD_def)

end
