(* ===== verification/Paging.thy ===== *)
theory Paging
  imports MemoryManager "HOL-Library.Sublist"
begin

text \<open>
  Four-level page tables: \<^verbatim>\<open>kernel/paging.cpp\<close> and \<^verbatim>\<open>kernel/paging.hpp\<close>. Physical memory is a map from
  frame numbers to their 4096 bytes, so page tables and page contents live in the same memory and a wrong
  entry can damage either. A pointer to a table is its frame number. The frame allocator is
  \<open>BitmapMemoryManager\<close>, used through the laws of the locale \<open>frame_allocator\<close>.
\<close>

subsection \<open>Addresses and entries\<close>

definition kPageSize4K :: nat where "kPageSize4K = 4096"
definition kPageSize2M :: nat where "kPageSize2M = 512 * kPageSize4K"
definition kPageSize1G :: nat where "kPageSize1G = 512 * kPageSize2M"

text \<open>\<open>Part\<close> and \<open>SetPart\<close> of \<open>LinearAddress4Level\<close>: the offset of 12 bits and four indices of 9.\<close>

definition part_bits :: "nat \<Rightarrow> nat \<times> nat" where
  "part_bits level = (if level = 0 then (0, 12) else (12 + 9 * (level - 1), 9))"

definition Part :: "nat \<Rightarrow> u64 \<Rightarrow> nat" where
  "Part level a = (if level \<le> 4 then let (pos, n) = part_bits level in unat (take_bit n (drop_bit pos a)) else 0)"

definition SetPart :: "nat \<Rightarrow> nat \<Rightarrow> u64 \<Rightarrow> u64" where
  "SetPart level v a = (if level \<le> 4
     then let (pos, n) = part_bits level
          in (a AND NOT (push_bit pos (mask n))) OR push_bit pos (take_bit n (of_nat v))
     else a)"

definition present :: "u64 \<Rightarrow> bool" where "present e = bit e 0"
definition writable :: "u64 \<Rightarrow> bool" where "writable e = bit e 1"
definition user :: "u64 \<Rightarrow> bool" where "user e = bit e 2"
definition huge_page :: "u64 \<Rightarrow> bool" where "huge_page e = bit e 7"

definition set_present :: "u64 \<Rightarrow> u64" where "set_present e = set_bit 0 e"
definition set_writable :: "bool \<Rightarrow> u64 \<Rightarrow> u64" where "set_writable b e = (if b then set_bit 1 e else unset_bit 1 e)"
definition set_user :: "u64 \<Rightarrow> u64" where "set_user e = set_bit 2 e"

definition Pointer :: "u64 \<Rightarrow> nat" where
  "Pointer e = unat (take_bit 40 (drop_bit 12 e))"

definition SetPointer :: "nat \<Rightarrow> u64 \<Rightarrow> u64" where
  "SetPointer f e = (e AND NOT (push_bit 12 (mask 40))) OR push_bit 12 (take_bit 40 (of_nat f))"

subsection \<open>Memory\<close>

record Machine =
  mm :: BitmapMemoryManager
  phys :: "nat \<Rightarrow> u8 list"
  CR3 :: nat

definition entry :: "Machine \<Rightarrow> nat \<Rightarrow> nat \<Rightarrow> u64" where
  "entry st f i = of_bytes (take 8 (drop (8 * i) (phys st f)))"

definition set_entry :: "nat \<Rightarrow> nat \<Rightarrow> u64 \<Rightarrow> Machine \<Rightarrow> Machine" where
  "set_entry f i e st = st\<lparr>phys := (phys st)(f := blit (8 * i) (to_bytes 8 e) (phys st f))\<rparr>"

definition NewPageMap :: "Machine \<Rightarrow> (Machine \<times> nat WithError) option" where
  "NewPageMap st = (case Allocate (mm st) 1 of
     None \<Rightarrow> None
   | Some (mm', f, err) \<Rightarrow>
       if is_error err then Some (st\<lparr>mm := mm'\<rparr>, 0, err)
       else Some (st\<lparr>mm := mm', phys := (phys st)(f := replicate 4096 0)\<rparr>, f, kSuccess))"

definition FreePageMap :: "Machine \<Rightarrow> nat \<Rightarrow> (Machine \<times> Error_Code) option" where
  "FreePageMap st f = map_option (\<lambda>(mm', err). (st\<lparr>mm := mm'\<rparr>, err)) (Free (mm st) f 1)"

subsection \<open>The kernel's identity map\<close>

definition kPageDirectoryCount :: nat where "kPageDirectoryCount = 64"

definition ResetCR3 :: "nat \<Rightarrow> Machine \<Rightarrow> Machine" where
  "ResetCR3 pml4_table st = st\<lparr>CR3 := pml4_table\<rparr>"

text \<open>The tables are static arrays of the kernel: the frames \<open>pml4\<close>, \<open>pdp\<close> and, from \<open>pd\<close> on, the directories.\<close>

definition directory_entry :: "nat \<Rightarrow> nat \<Rightarrow> u64" where
  "directory_entry i_pdpt i_pd = of_nat (i_pdpt * kPageSize1G + i_pd * kPageSize2M) OR 0x083"

definition SetupDirectory :: "nat \<Rightarrow> nat \<Rightarrow> nat \<Rightarrow> Machine \<Rightarrow> Machine" where
  "SetupDirectory pdp pd i_pdpt st =
     fold (\<lambda>i_pd. set_entry (pd + i_pdpt) i_pd (directory_entry i_pdpt i_pd)) [0..<512]
       (set_entry pdp i_pdpt (of_nat (4096 * (pd + i_pdpt)) OR 0x003) st)"

definition SetupIdentityPageTable :: "nat \<Rightarrow> nat \<Rightarrow> nat \<Rightarrow> Machine \<Rightarrow> Machine" where
  "SetupIdentityPageTable pml4 pdp pd st = ResetCR3 pml4
     (fold (SetupDirectory pdp pd) [0..<kPageDirectoryCount]
       (set_entry pml4 0 (of_nat (4096 * pdp) OR 0x003) st))"

subsection \<open>Setting up maps\<close>

definition SetNewPageMapIfNotPresent :: "Machine \<Rightarrow> nat \<Rightarrow> nat \<Rightarrow> (Machine \<times> nat WithError) option" where
  "SetNewPageMapIfNotPresent st f i =
     (let e = entry st f i
      in if present e then Some (st, Pointer e, kSuccess)
         else (case NewPageMap st of
            None \<Rightarrow> None
          | Some (st1, child, err) \<Rightarrow>
              if is_error err then Some (st1, 0, err)
              else Some (set_entry f i (set_present (SetPointer child (entry st1 f i))) st1, child, kSuccess)))"

text \<open>The step to the next entry of a table: its index plus one, the lower indices zero.\<close>

fun clear_parts :: "nat \<Rightarrow> u64 \<Rightarrow> u64" where
  "clear_parts 0 a = a"
| "clear_parts (Suc level) a = clear_parts level (SetPart (Suc level) 0 a)"

definition next_addr :: "nat \<Rightarrow> u64 \<Rightarrow> u64" where
  "next_addr level a = clear_parts (level - 1) (SetPart level (Part level a + 1) a)"

lemma Part_lt: "1 \<le> level \<Longrightarrow> Part level a < 512"
  using unsigned_take_bit_eq[of 9 "drop_bit (12 + 9 * (level - 1)) a", where 'a = nat]
  by (simp add: Part_def part_bits_def take_bit_eq_mod)

lemma Part_bits:
  assumes "level \<le> 4"
  shows "bit (Part level a) k \<longleftrightarrow> k < snd (part_bits level) \<and> bit a (fst (part_bits level) + k)"
proof -
  have "Part level a = unat (take_bit (snd (part_bits level)) (drop_bit (fst (part_bits level)) a))"
    using assms by (simp add: Part_def case_prod_unfold Let_def)
  then show ?thesis
    by (auto simp: bit_unsigned_iff bit_take_bit_iff bit_drop_bit_eq dest: bit_imp_le_length)
qed

lemma SetPart_bits:
  assumes "level \<le> 4"
  shows "bit (SetPart level v a) k \<longleftrightarrow>
    (if fst (part_bits level) \<le> k \<and> k < fst (part_bits level) + snd (part_bits level)
     then bit v (k - fst (part_bits level)) \<and> k < 64 else bit a k)"
  using assms
  by (auto simp: SetPart_def case_prod_unfold Let_def bit_or_iff bit_and_iff bit_not_iff bit_push_bit_iff
      bit_take_bit_iff bit_mask_iff bit_of_nat_word dest: bit_imp_le_length)

lemma Part_SetPart_same:
  assumes "1 \<le> level" "level \<le> 4" "v < 512"
  shows "Part level (SetPart level v a) = v"
proof (rule bit_eqI)
  fix k
  have small: "bit v k \<Longrightarrow> k < 9"
  proof -
    assume "bit v k"
    then have "v div 2 ^ k \<noteq> 0" unfolding bit_iff_odd by (metis even_zero)
    then have "2 ^ k \<le> v" by (metis div_less not_le)
    then have "(2::nat) ^ k < 2 ^ 9" using assms(3) by (simp add: less_le_trans)
    then show "k < 9" by (rule power_less_imp_less_exp[rotated]) simp
  qed
  show "bit (Part level (SetPart level v a)) k = bit v k"
  proof (cases "k < 9")
    case True
    then show ?thesis using assms by (auto simp: Part_bits SetPart_bits part_bits_def)
  next
    case False
    then show ?thesis using assms small by (simp add: Part_bits part_bits_def) blast
  qed
qed

lemma Part_SetPart_other:
  assumes "level \<le> 4" "level' \<le> 4" "level \<noteq> level'"
  shows "Part level (SetPart level' v a) = Part level a"
proof (rule bit_eqI)
  fix k
  show "bit (Part level (SetPart level' v a)) k = bit (Part level a) k"
    using assms by (auto simp: Part_bits SetPart_bits part_bits_def)
qed

lemma Part_clear_parts: "level \<le> 4 \<Longrightarrow> n < level \<Longrightarrow> Part level (clear_parts n a) = Part level a"
  by (induction n arbitrary: a) (simp_all add: Part_SetPart_other)

lemma Part_next_addr: "1 \<le> level \<Longrightarrow> level \<le> 4 \<Longrightarrow> Part level a < 511 \<Longrightarrow> Part level (next_addr level a) = Part level a + 1"
  by (simp add: next_addr_def Part_clear_parts Part_SetPart_same)

text \<open>
  \<open>SetupPageMap\<close>, a loop over the entries of a table inside a recursion over the levels. A result is the
  number of pages that remain and the error.
\<close>

function SetupPageMap ::
  "Machine \<Rightarrow> nat \<Rightarrow> nat \<Rightarrow> u64 \<Rightarrow> nat \<Rightarrow> bool \<Rightarrow> (Machine \<times> nat WithError) option" where
  "SetupPageMap st page_map level addr num_4kpages w =
     (if num_4kpages = 0 then Some (st, 0, kSuccess)
      else if level = 0 \<or> 4 < level then None
      else (let i = Part level addr in
        case SetNewPageMapIfNotPresent st page_map i of
          None \<Rightarrow> None
        | Some (st1, child, err) \<Rightarrow>
            if is_error err then Some (st1, num_4kpages, err)
            else (let st2 = set_entry page_map i (set_user (entry st1 page_map i)) st1;
                      st3 = set_entry page_map i
                              (set_writable (if level = 1 then w else True) (entry st2 page_map i)) st2
              in case (if level = 1 then Some (st3, num_4kpages - 1, kSuccess)
                       else SetupPageMap st3 child (level - 1) addr num_4kpages w) of
                   None \<Rightarrow> None
                 | Some (st4, remain, err4) \<Rightarrow>
                     if is_error err4 then Some (st4, num_4kpages, err4)
                     else if i = 511 then Some (st4, remain, kSuccess)
                     else SetupPageMap st4 page_map level (next_addr level addr) remain w)))"
  by pat_completeness auto

termination
proof (relation "measures [\<lambda>(_, _, level, _). level, \<lambda>(_, _, level, addr, _). 512 - Part level addr]", goal_cases)
  case (3 st page_map level addr n w i _ st1 b child err st2 st3 _ st4 c remain err4)
  then have "1 \<le> level" "level \<le> 4" "Part level addr < 511"
    using Part_lt[of level addr] by auto
  then show ?case by (simp add: Part_next_addr)
qed auto

declare SetupPageMap.simps [simp del]

definition SetupPageMaps :: "Machine \<Rightarrow> u64 \<Rightarrow> nat \<Rightarrow> bool \<Rightarrow> (Machine \<times> Error_Code) option" where
  "SetupPageMaps st addr num_4kpages w =
     map_option (\<lambda>(st', _, err). (st', err)) (SetupPageMap st (CR3 st) 4 addr num_4kpages w)"

subsection \<open>Removing and copying maps\<close>

function CleanPageMap :: "Machine \<Rightarrow> nat \<Rightarrow> nat \<Rightarrow> u64 \<Rightarrow> nat \<Rightarrow> (Machine \<times> Error_Code) option" where
  "CleanPageMap st page_map level addr i =
     (if 512 \<le> i then Some (st, kSuccess)
      else if level = 0 \<or> 4 < level then None
      else (let e = entry st page_map i in
        if \<not> present e then CleanPageMap st page_map level addr (i + 1)
        else case (if 1 < level then CleanPageMap st (Pointer e) (level - 1) addr (Part (level - 1) addr)
                   else Some (st, kSuccess)) of
               None \<Rightarrow> None
             | Some (st1, err1) \<Rightarrow>
                 if is_error err1 then Some (st1, err1)
                 else (case (if writable e then FreePageMap st1 (Pointer e) else Some (st1, kSuccess)) of
                    None \<Rightarrow> None
                  | Some (st2, err2) \<Rightarrow>
                      if is_error err2 then Some (st2, err2)
                      else CleanPageMap (set_entry page_map i 0 st2) page_map level addr (i + 1))))"
  by pat_completeness auto
termination by (relation "measures [\<lambda>(_, _, level, _, _). level, \<lambda>(_, _, _, _, i). 512 - i]") auto

declare CleanPageMap.simps [simp del]

definition CleanPageMaps :: "Machine \<Rightarrow> u64 \<Rightarrow> (Machine \<times> Error_Code) option" where
  "CleanPageMaps st addr = CleanPageMap st (CR3 st) 4 addr (Part 4 addr)"

function CopyPageMaps :: "Machine \<Rightarrow> nat \<Rightarrow> nat \<Rightarrow> nat \<Rightarrow> nat \<Rightarrow> (Machine \<times> Error_Code) option" where
  "CopyPageMaps st dest src part i =
     (if 512 \<le> i then Some (st, kSuccess)
      else if part = 0 then None
      else if \<not> present (entry st src i) then CopyPageMaps st dest src part (i + 1)
      else if part = 1
        then CopyPageMaps (set_entry dest i (set_writable False (entry st src i)) st) dest src part (i + 1)
      else (case NewPageMap st of
         None \<Rightarrow> None
       | Some (st1, child, err) \<Rightarrow>
           if is_error err then Some (st1, err)
           else (let st2 = set_entry dest i (SetPointer child (entry st1 src i)) st1
                 in case CopyPageMaps st2 child (Pointer (entry st2 src i)) (part - 1) 0 of
                      None \<Rightarrow> None
                    | Some (st3, err3) \<Rightarrow>
                        if is_error err3 then Some (st3, err3)
                        else CopyPageMaps st3 dest src part (i + 1))))"
  by pat_completeness auto
termination by (relation "measures [\<lambda>(_, _, _, part, _). part, \<lambda>(_, _, _, _, i). 512 - i]") auto

declare CopyPageMaps.simps [simp del]

subsection \<open>Copy on write\<close>

fun SetPageContent :: "Machine \<Rightarrow> nat \<Rightarrow> nat \<Rightarrow> u64 \<Rightarrow> nat \<Rightarrow> Machine option" where
  "SetPageContent st tbl 0 addr content = None"
| "SetPageContent st tbl (Suc part) addr content =
     (let i = Part (Suc part) addr in
      if part = 0
      then (let st1 = set_entry tbl i (SetPointer content (entry st tbl i)) st
            in Some (set_entry tbl i (set_writable True (entry st1 tbl i)) st1))
      else SetPageContent st (Pointer (entry st tbl i)) part addr content)"

text \<open>
  The processor's translation of an address, which the code relies on when it copies through the faulting
  address: \<open>walk f is\<close> follows the indices \<open>is\<close> from the table \<open>f\<close> through present entries.
\<close>

fun walk :: "Machine \<Rightarrow> nat \<Rightarrow> nat list \<Rightarrow> nat option" where
  "walk st f [] = Some f"
| "walk st f (i # is) = (let e = entry st f i in if present e then walk st (Pointer e) is else None)"

definition indices :: "u64 \<Rightarrow> nat list" where
  "indices a = [Part 4 a, Part 3 a, Part 2 a, Part 1 a]"

definition translate :: "Machine \<Rightarrow> u64 \<Rightarrow> nat option" where
  "translate st a = walk st (CR3 st) (indices a)"

text \<open>
  The frame that the processor reaches through an address: a directory entry with the huge page bit maps 2 MiB
  itself, without a table below it.
\<close>

definition frame_at :: "Machine \<Rightarrow> u64 \<Rightarrow> nat option" where
  "frame_at st a = (case walk st (CR3 st) [Part 4 a, Part 3 a] of
     None \<Rightarrow> None
   | Some pd \<Rightarrow>
       (let e = entry st pd (Part 2 a)
        in if present e \<and> huge_page e then Some (Pointer e + Part 1 a) else translate st a))"

definition page_entry :: "Machine \<Rightarrow> u64 \<Rightarrow> u64 option" where
  "page_entry st a = map_option (\<lambda>t. entry st t (Part 1 a)) (walk st (CR3 st) [Part 4 a, Part 3 a, Part 2 a])"

definition CopyOnePage :: "Machine \<Rightarrow> u64 \<Rightarrow> (Machine \<times> Error_Code) option" where
  "CopyOnePage st causal_addr =
     (case NewPageMap st of
        None \<Rightarrow> None
      | Some (st1, p, err) \<Rightarrow>
          if is_error err then Some (st1, err)
          else (case frame_at st1 causal_addr of
             None \<Rightarrow> None
           | Some old \<Rightarrow>
               map_option (\<lambda>st2. (st2, kSuccess))
                 (SetPageContent (st1\<lparr>phys := (phys st1)(p := phys st1 old)\<rparr>) (CR3 st1) 4 causal_addr p)))"

subsection \<open>Entries are independent fields\<close>

lemma entry_set_entry:
  assumes "length (phys st f) = 4096" and "i < 512" and "j < 512"
  shows "entry (set_entry f i e st) g j = (if g = f \<and> j = i then e else entry st g j)"
proof (cases "g = f")
  case True
  have fit: "8 * i + length (to_bytes 8 e) \<le> length (phys st f)" using assms by simp
  have same: "of_bytes (to_bytes 8 e) = e" by (simp add: of_bytes_to_bytes)
  show ?thesis
  proof (cases "j = i")
    case True
    then show ?thesis using \<open>g = f\<close> take_drop_blit[OF fit] same by (simp add: entry_def set_entry_def)
  next
    case False
    then have "8 * j + 8 \<le> 8 * i \<or> 8 * i + length (to_bytes 8 e) \<le> 8 * j" by auto
    from take_drop_blit_other[OF fit this] show ?thesis using \<open>g = f\<close> False assms
      by (simp add: entry_def set_entry_def)
  qed
qed (simp add: entry_def set_entry_def)

lemma set_entry_simps [simp]:
  "mm (set_entry f i e st) = mm st" "CR3 (set_entry f i e st) = CR3 st"
  "g \<noteq> f \<Longrightarrow> phys (set_entry f i e st) g = phys st g"
  by (simp_all add: set_entry_def)

lemma length_phys_set_entry [simp]:
  "length (phys st f) = 4096 \<Longrightarrow> i < 512 \<Longrightarrow> length (phys (set_entry f i e st) g) = length (phys st g)"
  by (simp add: set_entry_def length_blit)

lemma entry_zero: "phys st f = replicate 4096 0 \<Longrightarrow> i < 512 \<Longrightarrow> entry st f i = 0"
proof -
  have "of_bytes (replicate n 0) = (0 :: u64)" for n by (induction n) simp_all
  then show "phys st f = replicate 4096 0 \<Longrightarrow> i < 512 \<Longrightarrow> entry st f i = 0" by (simp add: entry_def)
qed

lemma Pointer_bits: "bit (Pointer e) k \<longleftrightarrow> k < 40 \<and> bit e (12 + k)"
  by (auto simp: Pointer_def bit_unsigned_iff bit_take_bit_iff bit_drop_bit_eq dest: bit_imp_le_length)

lemma Pointer_cong: "(\<And>k. 12 \<le> k \<Longrightarrow> bit e k = bit e' k) \<Longrightarrow> Pointer e = Pointer e'"
  by (rule bit_eqI) (simp add: Pointer_bits)

lemma flag_simps [simp]:
  "present (set_present e)" "present (set_user e) = present e" "present (set_writable b e) = present e"
  "user (set_user e)" "user (set_present e) = user e" "user (set_writable b e) = user e"
  "writable (set_writable b e) = b" "writable (set_user e) = writable e" "writable (set_present e) = writable e"
  "huge_page (set_present e) = huge_page e" "huge_page (set_user e) = huge_page e" "huge_page (set_writable b e) = huge_page e"
  "Pointer (set_present e) = Pointer e" "Pointer (set_user e) = Pointer e" "Pointer (set_writable b e) = Pointer e"
  by (auto simp: present_def writable_def user_def huge_page_def set_present_def set_user_def set_writable_def
      bit_set_bit_iff bit_unset_bit_iff intro!: Pointer_cong)

lemma SetPointer_bits:
  "bit (SetPointer f e) k \<longleftrightarrow> (if 12 \<le> k \<and> k < 52 then bit f (k - 12) else bit e k)"
  by (auto simp: SetPointer_def bit_or_iff bit_and_iff bit_not_iff bit_push_bit_iff bit_mask_iff bit_take_bit_iff
      bit_of_nat_word dest: bit_imp_le_length)

lemma SetPointer_flags [simp]:
  "present (SetPointer f e) = present e" "user (SetPointer f e) = user e" "writable (SetPointer f e) = writable e"
  "huge_page (SetPointer f e) = huge_page e"
  by (simp_all add: present_def user_def writable_def huge_page_def SetPointer_bits)

lemma Pointer_SetPointer [simp]: "f < 2 ^ 40 \<Longrightarrow> Pointer (SetPointer f e) = f"
  using nat_bit_bound[of f _ 40] by (intro bit_eqI) (auto simp: Pointer_bits SetPointer_bits)

subsection \<open>Well-formed address spaces\<close>

text \<open>
  \<open>user_path\<close>: the indices of a table or page in the upper half, where applications live. \<open>space_ok\<close>: every table and
  page that is reached there is an allocated frame, and is reached along one path only, and no page is huge.
\<close>

definition user_path :: "nat list \<Rightarrow> bool" where
  "user_path is \<longleftrightarrow> length is \<le> 4 \<and> (\<forall>i \<in> set is. i < 512) \<and> (is \<noteq> [] \<longrightarrow> 256 \<le> hd is)"

definition mem_ok :: "Machine \<Rightarrow> bool" where
  "mem_ok st \<longleftrightarrow> range_end (mm st) \<le> kFrameCount \<and> (\<forall>f. length (phys st f) = 4096)"

definition space_ok :: "Machine \<Rightarrow> bool" where
  "space_ok st \<longleftrightarrow> mem_ok st \<and>
     (\<forall>is f. user_path is \<longrightarrow> walk st (CR3 st) is = Some f \<longrightarrow> used (mm st) f) \<and>
     (\<forall>is js f. user_path is \<longrightarrow> user_path js \<longrightarrow> walk st (CR3 st) is = Some f \<longrightarrow> walk st (CR3 st) js = Some f \<longrightarrow> is = js) \<and>
     (\<forall>q k g. user_path (q @ [k]) \<longrightarrow> length q < 3 \<longrightarrow> walk st (CR3 st) q = Some g \<longrightarrow> \<not> huge_page (entry st g k))"

definition is_table :: "Machine \<Rightarrow> nat \<Rightarrow> bool" where
  "is_table st g \<longleftrightarrow> (\<exists>q. user_path q \<and> length q < 4 \<and> walk st (CR3 st) q = Some g)"

lemma space_okD:
  assumes "space_ok st"
  shows "range_end (mm st) \<le> kFrameCount" and "length (phys st f) = 4096"
    and "user_path is \<Longrightarrow> walk st (CR3 st) is = Some f \<Longrightarrow> used (mm st) f"
    and "user_path is \<Longrightarrow> user_path js \<Longrightarrow> walk st (CR3 st) is = Some f \<Longrightarrow> walk st (CR3 st) js = Some f \<Longrightarrow> is = js"
    and "user_path (q @ [k]) \<Longrightarrow> length q < 3 \<Longrightarrow> walk st (CR3 st) q = Some f \<Longrightarrow> \<not> huge_page (entry st f k)"
  using assms unfolding space_ok_def mem_ok_def by blast+

lemma user_path_prefix: "user_path (p @ q) \<Longrightarrow> user_path p"
  by (cases p) (auto simp: user_path_def)

lemma user_path_snoc: "user_path (p @ [i]) \<Longrightarrow> i < 512 \<and> length p < 4 \<and> user_path p"
  using user_path_prefix[of p "[i]"] by (auto simp: user_path_def)

lemma walk_append: "walk st f (is @ js) = (case walk st f is of None \<Rightarrow> None | Some g \<Rightarrow> walk st g js)"
  by (induction "is" arbitrary: f) (auto simp: Let_def)

lemma walk_snoc:
  "walk st f (is @ [i]) = (case walk st f is of None \<Rightarrow> None
     | Some g \<Rightarrow> if present (entry st g i) then Some (Pointer (entry st g i)) else None)"
  by (simp add: walk_append Let_def split: option.split)

text \<open>Changing one entry of one table changes the walk below that entry only.\<close>

lemma walk_update:
  assumes sp: "space_ok st" and p: "user_path (p @ [i])" and f: "walk st (CR3 st) p = Some f"
    and e: "\<And>q k g. user_path (q @ [k]) \<Longrightarrow> walk st (CR3 st) q = Some g \<Longrightarrow>
      entry st' g k = (if g = f \<and> k = i then e else entry st g k)"
    and pr: "present e" "Pointer e = c"
    and c: "walk st (CR3 st) (p @ [i]) = Some c \<or>
      walk st (CR3 st) (p @ [i]) = None \<and> (\<forall>k < 512. \<not> present (entry st' c k))"
    and js: "user_path js"
  shows "walk st' (CR3 st) js = (if js = p @ [i] then Some c else walk st (CR3 st) js)"
  using js
proof (induction js rule: rev_induct)
  case (snoc k q)
  note sn = user_path_snoc[OF snoc.prems]
  have q: "user_path q" and k: "k < 512" using sn by auto
  have up: "user_path p" using user_path_snoc[OF p] by simp
  note IH = snoc.IH[OF q]
  consider "q = p" | "q = p @ [i]" | "q \<noteq> p" "q \<noteq> p @ [i]" by blast
  then show ?case
  proof cases
    case 1
    then show ?thesis using IH f e[OF snoc.prems, of f] pr by (cases "k = i") (simp_all add: walk_snoc)
  next
    case 2
    have ne: "q @ [k] \<noteq> p @ [i]" using 2 by simp
    show ?thesis
    proof (cases "walk st (CR3 st) q")
      case None
      then have "walk st' (CR3 st) q = Some c" "\<not> present (entry st' c k)" using IH 2 c k by auto
      then have "walk st' (CR3 st) (q @ [k]) = None" "walk st (CR3 st) (q @ [k]) = None" using None by (simp_all only: walk_snoc option.case if_False)
      then show ?thesis using ne by simp
    next
      case (Some g)
      then have g: "g = c" using c 2 by auto
      have "c \<noteq> f" using space_okD(4)[OF sp q up, of c] Some f g 2 by auto
      then have "entry st' c k = entry st c k" using e[OF snoc.prems Some] g by simp
      moreover have "walk st' (CR3 st) q = Some c" using IH 2 by simp
      ultimately have "walk st' (CR3 st) (q @ [k]) = walk st (CR3 st) (q @ [k])"
        using Some g by (simp only: walk_snoc option.case)
      then show ?thesis using ne by (simp only: if_False)
    qed
  next
    case 3
    show ?thesis
    proof (cases "walk st (CR3 st) q")
      case (Some g)
      have "g \<noteq> f" using space_okD(4)[OF sp q up, of g] Some f 3 by auto
      then show ?thesis using IH 3 Some e[OF snoc.prems Some] by (simp add: walk_snoc)
    qed (use IH 3 in \<open>simp add: walk_snoc\<close>)
  qed
qed simp

subsection \<open>One page at a time\<close>

text \<open>
  What setting up the page with path \<open>a\<close> may do to memory: all old walks stay, other pages and their entries are as
  before, and no frame in use changes unless it is a table of this address space.
\<close>

definition extends :: "Machine \<Rightarrow> Machine \<Rightarrow> nat list \<Rightarrow> bool" where
  "extends st st' a \<longleftrightarrow> space_ok st' \<and> CR3 st' = CR3 st \<and>
     (\<forall>js g. user_path js \<longrightarrow> walk st (CR3 st) js = Some g \<longrightarrow> walk st' (CR3 st) js = Some g) \<and>
     (\<forall>js. user_path js \<longrightarrow> length js = 4 \<longrightarrow> js \<noteq> a \<longrightarrow> walk st' (CR3 st) js = walk st (CR3 st) js) \<and>
     (\<forall>q k g. user_path (q @ [k]) \<longrightarrow> length q = 3 \<longrightarrow> q @ [k] \<noteq> a \<longrightarrow> walk st (CR3 st) q = Some g \<longrightarrow>
        entry st' g k = entry st g k) \<and>
     (\<forall>g. used (mm st) g \<longrightarrow> used (mm st') g \<and> (\<not> is_table st g \<longrightarrow> phys st' g = phys st g \<and> \<not> is_table st' g))"

lemma extends_refl: "space_ok st \<Longrightarrow> extends st st a"
  by (simp add: extends_def)

lemma extends_trans:
  assumes 1: "extends st st1 a" and 2: "extends st1 st2 a"
  shows "extends st st2 a"
proof -
  have c: "CR3 st1 = CR3 st" using 1 unfolding extends_def by blast
  note x = 1[unfolded extends_def] and y = 2[unfolded extends_def c]
  show ?thesis unfolding extends_def
  proof (intro conjI)
    show "space_ok st2" using y by blast
    show "CR3 st2 = CR3 st" using x y by simp
    show "\<forall>js g. user_path js \<longrightarrow> walk st (CR3 st) js = Some g \<longrightarrow> walk st2 (CR3 st) js = Some g" using x y by blast
    show "\<forall>js. user_path js \<longrightarrow> length js = 4 \<longrightarrow> js \<noteq> a \<longrightarrow> walk st2 (CR3 st) js = walk st (CR3 st) js" using x y by metis
    show "\<forall>q k g. user_path (q @ [k]) \<longrightarrow> length q = 3 \<longrightarrow> q @ [k] \<noteq> a \<longrightarrow> walk st (CR3 st) q = Some g \<longrightarrow>
        entry st2 g k = entry st g k"
    proof (intro allI impI)
      fix q k g assume h: "user_path (q @ [k])" "length q = 3" "q @ [k] \<noteq> a" "walk st (CR3 st) q = Some g"
      have "user_path q" by (rule user_path_prefix[OF h(1)])
      then have "walk st1 (CR3 st) q = Some g" using x h(4) by blast
      then have "entry st2 g k = entry st1 g k" using y h(1-3) by blast
      also have "\<dots> = entry st g k" using x h by blast
      finally show "entry st2 g k = entry st g k" .
    qed
    show "\<forall>g. used (mm st) g \<longrightarrow> used (mm st2) g \<and> (\<not> is_table st g \<longrightarrow> phys st2 g = phys st g \<and> \<not> is_table st2 g)"
    proof (intro allI impI)
      fix g assume g: "used (mm st) g"
      have x': "used (mm st1) g \<and> (\<not> is_table st g \<longrightarrow> phys st1 g = phys st g \<and> \<not> is_table st1 g)" using x g by blast
      then have "used (mm st2) g \<and> (\<not> is_table st1 g \<longrightarrow> phys st2 g = phys st1 g \<and> \<not> is_table st2 g)" using y by blast
      then show "used (mm st2) g \<and> (\<not> is_table st g \<longrightarrow> phys st2 g = phys st g \<and> \<not> is_table st2 g)" using x' by metis
    qed
  qed
qed

text \<open>An entry of a table on the path whose change keeps the child or adds a new, empty one.\<close>

lemma extends_entry:
  assumes sp: "space_ok st" and p: "user_path (p @ [i])" and f: "walk st (CR3 st) p = Some f"
    and mem: "mem_ok st'" "CR3 st' = CR3 st" "\<And>g. used (mm st) g \<Longrightarrow> used (mm st') g"
    and frames: "\<And>g. used (mm st) g \<Longrightarrow> g \<noteq> f \<Longrightarrow> phys st' g = phys st g"
    and tbl: "\<And>k. k < 512 \<Longrightarrow> entry st' f k = (if k = i then e else entry st f k)"
    and pr: "present e" "Pointer e = c" and hp: "length p < 3 \<Longrightarrow> \<not> huge_page e"
    and c: "walk st (CR3 st) (p @ [i]) = Some c \<or>
      walk st (CR3 st) (p @ [i]) = None \<and> \<not> used (mm st) c \<and> used (mm st') c \<and> phys st' c = replicate 4096 0"
    and a: "prefix (p @ [i]) a" "length a = 4"
  shows "extends st st' a" and "walk st' (CR3 st) (p @ [i]) = Some c"
    and "user_path js \<Longrightarrow> js \<noteq> p @ [i] \<Longrightarrow> walk st' (CR3 st) js = walk st (CR3 st) js"
proof -
  note upi = user_path_snoc[OF p]
  have ent: "entry st' g k = (if g = f \<and> k = i then e else entry st g k)"
    if "user_path (q @ [k])" "walk st (CR3 st) q = Some g" for q k g
  proof (cases "g = f")
    case True
    then show ?thesis using tbl user_path_snoc[OF that(1)] by simp
  next
    case False
    have "used (mm st) g" using space_okD(3)[OF sp _ that(2)] user_path_snoc[OF that(1)] by blast
    then show ?thesis using False frames by (simp add: entry_def)
  qed
  have c': "walk st (CR3 st) (p @ [i]) = Some c \<or>
      walk st (CR3 st) (p @ [i]) = None \<and> (\<forall>k < 512. \<not> present (entry st' c k))"
    using c entry_zero[of st' c] by (auto simp: present_def)
  have W: "walk st' (CR3 st) js = (if js = p @ [i] then Some c else walk st (CR3 st) js)" if "user_path js" for js
    by (rule walk_update[OF sp p f _ pr c' that]) (rule ent)
  show wc: "walk st' (CR3 st) (p @ [i]) = Some c" using W[OF p] by simp
  show "user_path js \<Longrightarrow> js \<noteq> p @ [i] \<Longrightarrow> walk st' (CR3 st) js = walk st (CR3 st) js" using W by simp
  have W': "walk st' (CR3 st) js = Some g \<longleftrightarrow> js = p @ [i] \<and> g = c \<or> walk st (CR3 st) js = Some g"
    if "user_path js" for js g
  proof -
    have "js = p @ [i] \<Longrightarrow> walk st (CR3 st) js = Some g \<Longrightarrow> g = c" using c by auto
    then show ?thesis unfolding W[OF that] by auto
  qed
  have fresh: "js = p @ [i]" if "user_path js" "walk st (CR3 st) js = Some c" for js
    using c
  proof
    assume "walk st (CR3 st) (p @ [i]) = Some c"
    then show ?thesis by (rule space_okD(4)[OF sp that(1) p that(2)])
  next
    assume "walk st (CR3 st) (p @ [i]) = None \<and> \<not> used (mm st) c \<and> used (mm st') c \<and> phys st' c = replicate 4096 0"
    then show ?thesis using space_okD(3)[OF sp that] by blast
  qed
  have sp': "space_ok st'"
    unfolding space_ok_def mem(2)
  proof (intro conjI allI impI)
    show "mem_ok st'" by (rule mem(1))
    fix "is" g assume h: "user_path is" "walk st' (CR3 st) is = Some g"
    have "used (mm st') c"
    proof -
      have "used (mm st) c \<or> used (mm st') c" using c space_okD(3)[OF sp p, of c] by blast
      then show ?thesis using mem(3) by blast
    qed
    then show "used (mm st') g" using W'[OF h(1), of g] h(2) space_okD(3)[OF sp h(1), of g] mem(3)[of g] by blast
  next
    fix "is" js g assume h: "user_path is" "user_path js" "walk st' (CR3 st) is = Some g" "walk st' (CR3 st) js = Some g"
    then show "is = js"
      using W'[OF h(1), of g] W'[OF h(2), of g] space_okD(4)[OF sp h(1,2), of g] fresh[OF h(1)] fresh[OF h(2)] by blast
  next
    fix q k g assume h: "user_path (q @ [k])" "length q < 3" "walk st' (CR3 st) q = Some g"
    have q: "user_path q" "k < 512" using user_path_snoc[OF h(1)] by auto
    show "\<not> huge_page (entry st' g k)"
    proof (cases "walk st (CR3 st) q = Some g")
      case True
      have "g = f \<and> k = i \<Longrightarrow> q = p" using space_okD(4)[OF sp q(1), of p g] upi f True by blast
      then show ?thesis using ent[OF h(1) True] space_okD(5)[OF sp h(1,2) True] hp h(2) by auto
    next
      case False
      then have "q = p @ [i]" "g = c" using W'[OF q(1), of g] h(3) by blast+
      then have "phys st' g = replicate 4096 0" using c False by blast
      then show ?thesis using entry_zero[of st' g k] q(2) by (simp add: huge_page_def)
    qed
  qed
  have tab: "is_table st' g \<Longrightarrow> used (mm st) g \<Longrightarrow> is_table st g" for g
  proof -
    assume t: "is_table st' g" "used (mm st) g"
    then obtain q where q: "user_path q" "length q < 4" "walk st' (CR3 st) q = Some g" unfolding is_table_def mem(2) by blast
    have "walk st (CR3 st) q = Some g" using W'[OF q(1), of g] q(3) c t(2) by blast
    then show "is_table st g" unfolding is_table_def using q by blast
  qed
  have ft: "is_table st f" unfolding is_table_def using upi f by blast
  show "extends st st' a"
    unfolding extends_def
  proof (intro conjI)
    show "space_ok st'" "CR3 st' = CR3 st" by (fact sp', fact mem(2))
    show "\<forall>js g. user_path js \<longrightarrow> walk st (CR3 st) js = Some g \<longrightarrow> walk st' (CR3 st) js = Some g" using W' by blast
    show "\<forall>js. user_path js \<longrightarrow> length js = 4 \<longrightarrow> js \<noteq> a \<longrightarrow> walk st' (CR3 st) js = walk st (CR3 st) js"
    proof (intro allI impI)
      fix js assume js: "user_path js" "length js = 4" "js \<noteq> a"
      have "js \<noteq> p @ [i]" using js a by (auto simp: prefix_def)
      then show "walk st' (CR3 st) js = walk st (CR3 st) js" using W[OF js(1)] by simp
    qed
    show "\<forall>q k g. user_path (q @ [k]) \<longrightarrow> length q = 3 \<longrightarrow> q @ [k] \<noteq> a \<longrightarrow> walk st (CR3 st) q = Some g \<longrightarrow>
        entry st' g k = entry st g k"
    proof (intro allI impI)
      fix q k g assume h: "user_path (q @ [k])" "length q = 3" "q @ [k] \<noteq> a" "walk st (CR3 st) q = Some g"
      have "\<not> (g = f \<and> k = i)"
      proof
        assume gk: "g = f \<and> k = i"
        then have "q = p" using space_okD(4)[OF sp, of q p g] user_path_snoc[OF h(1)] upi h(4) f by blast
        then show False using gk h(2,3) a by (auto simp: prefix_def)
      qed
      then show "entry st' g k = entry st g k" using ent[OF h(1,4)] by auto
    qed
    show "\<forall>g. used (mm st) g \<longrightarrow> used (mm st') g \<and> (\<not> is_table st g \<longrightarrow> phys st' g = phys st g \<and> \<not> is_table st' g)"
      using mem(3) frames tab ft by metis
  qed
qed

lemma NewPageMap_ok:
  assumes "space_ok st"
  shows "(NewPageMap st = Some (st, 0, kNoEnoughMemory)) \<or>
    (\<exists>g mm'. NewPageMap st = Some (st\<lparr>mm := mm', phys := (phys st)(g := replicate 4096 0)\<rparr>, g, kSuccess) \<and>
       range_end mm' \<le> kFrameCount \<and> \<not> used (mm st) g \<and> used mm' g \<and> g < 2 ^ 40 \<and> (\<forall>h. used (mm st) h \<longrightarrow> used mm' h))"
proof -
  have inv: "range_end (mm st) \<le> kFrameCount" using space_okD(1)[OF assms] .
  show ?thesis
  proof (cases "\<exists>t \<ge> range_begin (mm st). free_run (mm st) t 1")
    case False
    then have "Allocate (mm st) 1 = Some (mm st, kNullFrame, kNoEnoughMemory)"
      using Allocate_spec[OF inv, of 1] by (auto split: if_splits)
    then show ?thesis by (simp add: NewPageMap_def is_error_def)
  next
    case True
    then obtain g mm' where a: "Allocate (mm st) 1 = Some (mm', g, kSuccess)"
      using Allocate_spec[OF inv, of 1] by (auto split: if_splits)
    have "range_end mm' \<le> kFrameCount" by (rule frames.alloc_inv[OF inv a])
    moreover have "\<not> used (mm st) g" by (rule frames.alloc_fresh[OF inv a]) (simp_all add: is_error_def)
    moreover have t: "used mm' h \<longleftrightarrow> used (mm st) h \<or> (g \<le> h \<and> h < g + 1)" for h
      by (rule frames.alloc_taken[OF inv a]) (simp add: is_error_def)
    moreover have "g + 1 \<le> kFrameCount" by (rule frames.alloc_limit[OF inv a]) (simp_all add: is_error_def)
    then have "g < 2 ^ 40" by (simp add: mm_consts)
    moreover have "NewPageMap st = Some (st\<lparr>mm := mm', phys := (phys st)(g := replicate 4096 0)\<rparr>, g, kSuccess)"
      using a by (simp add: NewPageMap_def is_error_def)
    ultimately show ?thesis by (intro disjI2 exI[of _ g] exI[of _ mm']) simp
  qed
qed

text \<open>An allocation fails only when no frame is left.\<close>

definition out_of_frames :: "Machine \<Rightarrow> bool" where
  "out_of_frames st \<longleftrightarrow> (\<forall>t \<ge> range_begin (mm st). \<not> free_run (mm st) t 1)"

lemma NewPageMap_fails:
  assumes "space_ok st" and "NewPageMap st = Some (st1, f, e)" and "is_error e"
  shows "out_of_frames st \<and> st1 = st \<and> e = kNoEnoughMemory"
proof -
  have inv: "range_end (mm st) \<le> kFrameCount" using space_okD(1)[OF assms(1)] .
  from assms(2,3) Allocate_spec[OF inv, of 1] show ?thesis
    by (auto simp: NewPageMap_def is_error_def out_of_frames_def split: if_splits option.splits)
qed

lemma SetNewPageMap_fails:
  assumes "space_ok st" and "SetNewPageMapIfNotPresent st f i = Some (st, 0, kNoEnoughMemory)"
  shows "out_of_frames st"
  using assms(2) NewPageMap_fails[OF assms(1)]
  by (auto simp: SetNewPageMapIfNotPresent_def Let_def split: if_splits option.splits)

text \<open>One level: the child is there or new, and the entry gets its flags.\<close>

definition enter :: "Machine \<Rightarrow> nat \<Rightarrow> nat \<Rightarrow> bool \<Rightarrow> Machine" where
  "enter st1 f i w = (let st2 = set_entry f i (set_user (entry st1 f i)) st1
     in set_entry f i (set_writable w (entry st2 f i)) st2)"

lemma enter_entry:
  assumes "length (phys st f) = 4096" "i < 512" "j < 512"
  shows "entry (enter st f i w) g j = (if g = f \<and> j = i then set_writable w (set_user (entry st f i)) else entry st g j)"
  using assms by (simp add: enter_def Let_def entry_set_entry)

lemma enter_simps [simp]:
  "mm (enter st f i w) = mm st" "CR3 (enter st f i w) = CR3 st" "g \<noteq> f \<Longrightarrow> phys (enter st f i w) g = phys st g"
  by (simp_all add: enter_def Let_def)

lemma enter_length: "length (phys st f) = 4096 \<Longrightarrow> i < 512 \<Longrightarrow> length (phys (enter st f i w) g) = length (phys st g)"
  by (simp add: enter_def Let_def)

lemma level_step:
  assumes sp: "space_ok st" and p: "user_path (p @ [i])" and f: "walk st (CR3 st) p = Some f"
    and a: "prefix (p @ [i]) a" "length a = 4"
  shows "SetNewPageMapIfNotPresent st f i = Some (st, 0, kNoEnoughMemory) \<or>
    (\<exists>st1 c. SetNewPageMapIfNotPresent st f i = Some (st1, c, kSuccess) \<and>
       (let st3 = enter st1 f i w in
         extends st st3 a \<and> (\<forall>js. user_path js \<longrightarrow> js \<noteq> p @ [i] \<longrightarrow> walk st3 (CR3 st) js = walk st (CR3 st) js) \<and> walk st3 (CR3 st) (p @ [i]) = Some c \<and>
         walk st3 (CR3 st) p = Some f \<and>
         present (entry st3 f i) \<and> user (entry st3 f i) \<and> writable (entry st3 f i) = w \<and>
         (walk st (CR3 st) (p @ [i]) = None \<longrightarrow> \<not> used (mm st) c \<and> phys st3 c = replicate 4096 0)))"
proof -
  note up = user_path_snoc[OF p]
  have len: "length (phys st g) = 4096" for g by (rule space_okD(2)[OF sp])
  have uf: "used (mm st) f" using space_okD(3)[OF sp _ f] up by blast
  let ?e = "entry st f i"
  have hu: "length p < 3 \<Longrightarrow> \<not> huge_page ?e" using space_okD(5)[OF sp p _ f] .
  have fin: "extends st st3 a \<Longrightarrow> walk st3 (CR3 st) p = Some f" for st3
    using f up unfolding extends_def by blast
  show ?thesis
  proof (cases "present ?e")
    case True
    then have c: "walk st (CR3 st) (p @ [i]) = Some (Pointer ?e)" using f by (simp add: walk_snoc)
    have "extends st (enter st f i w) a" "walk (enter st f i w) (CR3 st) (p @ [i]) = Some (Pointer ?e)"
      "user_path js \<Longrightarrow> js \<noteq> p @ [i] \<Longrightarrow> walk (enter st f i w) (CR3 st) js = walk st (CR3 st) js" for js
      by (rule extends_entry[OF sp p f _ _ _ _ _ _ _ _ disjI1[OF c] a, where e = "set_writable w (set_user ?e)"],
          use sp hu True len up in \<open>auto simp: enter_entry mem_ok_def enter_length space_ok_def\<close>)+
    then show ?thesis using True c fin enter_entry[OF len[of f], of i i w f] up
      by (simp add: SetNewPageMapIfNotPresent_def Let_def)
  next
    case False
    then have c: "walk st (CR3 st) (p @ [i]) = None" using f by (simp add: walk_snoc)
    show ?thesis
    proof (cases "NewPageMap st = Some (st, 0, kNoEnoughMemory)")
      case True
      then show ?thesis using False by (simp add: SetNewPageMapIfNotPresent_def Let_def is_error_def)
    next
      case nf: False
      then obtain g mm' where n: "NewPageMap st = Some (st\<lparr>mm := mm', phys := (phys st)(g := replicate 4096 0)\<rparr>, g, kSuccess)"
          "range_end mm' \<le> kFrameCount" "\<not> used (mm st) g" "used mm' g" "g < 2 ^ 40" "\<forall>h. used (mm st) h \<longrightarrow> used mm' h"
        using NewPageMap_ok[OF sp] by blast
      have gf: "g \<noteq> f" using uf n(3) by auto
      let ?stn = "st\<lparr>mm := mm', phys := (phys st)(g := replicate 4096 0)\<rparr>"
      let ?e' = "set_present (SetPointer g ?e)"
      let ?st1 = "set_entry f i ?e' ?stn"
      have en: "entry ?stn f k = entry st f k" for k using gf by (simp add: entry_def)
      have ln: "length (phys ?stn h) = 4096" for h using len by simp
      have l1: "length (phys ?st1 h) = 4096" for h using ln up by (simp add: length_phys_set_entry)
      have e1: "entry ?st1 f k = (if k = i then ?e' else entry st f k)" if "k < 512" for k
        using entry_set_entry[OF ln[of f], of i k ?e' f] that up en by simp
      have s1: "SetNewPageMapIfNotPresent st f i = Some (?st1, g, kSuccess)"
        using False n(1) en by (simp add: SetNewPageMapIfNotPresent_def Let_def)
      let ?st3 = "enter ?st1 f i w"
      have e3: "entry ?st3 f k = (if k = i then set_writable w (set_user ?e') else entry st f k)" if "k < 512" for k
        using enter_entry[OF l1[of f], of i k w f] that up e1 by auto
      have fr: "phys ?st3 h = phys ?stn h" if "h \<noteq> f" for h using that by simp
      have z: "phys ?st3 g = replicate 4096 0" using fr[OF gf] by simp
      have r: "extends st ?st3 a \<and> walk ?st3 (CR3 st) (p @ [i]) = Some g \<and>
          (\<forall>js. user_path js \<longrightarrow> js \<noteq> p @ [i] \<longrightarrow> walk ?st3 (CR3 st) js = walk st (CR3 st) js)"
      proof -
        have A: "mem_ok ?st3" using n(2) l1 up by (simp add: mem_ok_def enter_length)
        have B: "CR3 ?st3 = CR3 st" by simp
        have C: "used (mm st) h \<Longrightarrow> used (mm ?st3) h" for h using n(6) by simp
        have D: "used (mm st) h \<Longrightarrow> h \<noteq> f \<Longrightarrow> phys ?st3 h = phys st h" for h using fr n(3) by auto
        have E: "present (set_writable w (set_user ?e'))" "Pointer (set_writable w (set_user ?e')) = g"
          using n(5) by simp_all
        have F: "walk st (CR3 st) (p @ [i]) = Some g \<or> walk st (CR3 st) (p @ [i]) = None \<and>
            \<not> used (mm st) g \<and> used (mm ?st3) g \<and> phys ?st3 g = replicate 4096 0" using c n z by simp
        have H: "length p < 3 \<Longrightarrow> \<not> huge_page (set_writable w (set_user ?e'))" using hu by simp
        from extends_entry[OF sp p f A B C D e3 E H F a] show ?thesis by simp
      qed
      then show ?thesis using s1 fin e3[of i] up n(3) z by (simp add: Let_def)
    qed
  qed
qed

lemma frame_at_translate:
  assumes "space_ok st" and "256 \<le> Part 4 a"
  shows "frame_at st a = translate st a"
proof -
  have up: "user_path ([Part 4 a, Part 3 a] @ [Part 2 a])" using assms(2) Part_lt[of _ a] by (simp add: user_path_def)
  have "\<not> huge_page (entry st g (Part 2 a))" if "walk st (CR3 st) [Part 4 a, Part 3 a] = Some g" for g
    using space_okD(5)[OF assms(1) up _ that] by simp
  moreover have "walk st (CR3 st) [Part 4 a, Part 3 a] = None \<Longrightarrow> translate st a = None"
    using walk_append[of st "CR3 st" "[Part 4 a, Part 3 a]" "[Part 2 a, Part 1 a]"]
    by (simp add: translate_def indices_def)
  ultimately show ?thesis by (cases "walk st (CR3 st) [Part 4 a, Part 3 a]") (simp_all add: frame_at_def Let_def)
qed

lemma indices_user_path: "256 \<le> Part 4 a \<Longrightarrow> user_path (indices a)"
  using Part_lt[of _ a] by (simp add: user_path_def indices_def)

lemma indices_suffix:
  assumes "p @ is = indices a" and "is = i # rest"
  shows "Part (length is) a = i" and "length is \<le> 4" and "length p = 4 - length is"
proof -
  have l: "length p + length is = 4" using arg_cong[OF assms(1), of length] by (simp add: indices_def)
  then show "length is \<le> 4" "length p = 4 - length is" by auto
  have "indices a ! (4 - length is) = i" using assms l by (metis diff_add_inverse2 nth_append_length)
  moreover have "length is = 1 \<or> length is = 2 \<or> length is = 3 \<or> length is = 4"
  proof -
    have "1 \<le> length is" using assms(2) by simp
    with l show ?thesis by linarith
  qed
  ultimately show "Part (length is) a = i" by (auto simp: indices_def)
qed

lemma SetupPageMap_zero: "SetupPageMap st f level a 0 w = Some (st, 0, kSuccess)"
  by (subst SetupPageMap.simps) simp

lemma SetupPageMap_page:
  assumes "space_ok st" and "walk st (CR3 st) p = Some f" and "p @ is = indices a" and "is \<noteq> []" and "256 \<le> Part 4 a"
  shows "\<exists>st' r e. SetupPageMap st f (length is) a 1 w = Some (st', r, e) \<and> extends st st' (indices a) \<and>
    (e = kNoEnoughMemory \<and> out_of_frames st' \<or> e = kSuccess \<and> r = 0 \<and>
      (\<exists>g ent. walk st' (CR3 st) (indices a) = Some g \<and> page_entry st' a = Some ent \<and>
         present ent \<and> user ent \<and> writable ent = w \<and>
         (walk st (CR3 st) (indices a) = None \<longrightarrow> \<not> used (mm st) g \<and> phys st' g = replicate 4096 0)))"
  using assms(1-4)
proof (induction "is" arbitrary: st p f)
  case (Cons i rest)
  note sfx = indices_suffix[OF Cons.prems(3) refl]
  have pre: "prefix (p @ [i]) (indices a)" using Cons.prems(3) by (metis append_Cons append_Nil append_assoc prefixI)
  have up: "user_path (p @ [i])"
    using user_path_prefix[of "p @ [i]" rest] Cons.prems(3) indices_user_path[OF assms(5)] by simp
  have la: "length (indices a) = 4" by (simp add: indices_def)
  have lv: "\<not> (length (i # rest) = 0 \<or> 4 < length (i # rest))" using sfx(2) by simp
  let ?w = "if length (i # rest) = 1 then w else True"
  note step = level_step[OF Cons.prems(1) up Cons.prems(2) pre la, of ?w]
  show ?case
  proof (cases "SetNewPageMapIfNotPresent st f i = Some (st, 0, kNoEnoughMemory)")
    case True
    then have "SetupPageMap st f (length (i # rest)) a 1 w = Some (st, 1, kNoEnoughMemory)"
      using sfx(1) lv by (subst SetupPageMap.simps) (simp add: Let_def is_error_def)
    then show ?thesis using extends_refl[OF Cons.prems(1)] SetNewPageMap_fails[OF Cons.prems(1) True] by blast
  next
    case False
    then obtain st1 c where n: "SetNewPageMapIfNotPresent st f i = Some (st1, c, kSuccess)" using step by blast
    define st3 where "st3 = enter st1 f i ?w"
    have s3: "extends st st3 (indices a)" "\<forall>js. user_path js \<longrightarrow> js \<noteq> p @ [i] \<longrightarrow> walk st3 (CR3 st) js = walk st (CR3 st) js"
        "walk st3 (CR3 st) (p @ [i]) = Some c" "walk st3 (CR3 st) p = Some f"
        "present (entry st3 f i)" "user (entry st3 f i)" "writable (entry st3 f i) = ?w"
        "walk st (CR3 st) (p @ [i]) = None \<longrightarrow> \<not> used (mm st) c \<and> phys st3 c = replicate 4096 0"
      using step False n unfolding st3_def Let_def by auto
    have ok3: "space_ok st3" "CR3 st3 = CR3 st" using s3(1) unfolding extends_def by blast+
    have loop: "SetupPageMap st f (length (i # rest)) a 1 w =
      (case (if length (i # rest) = 1 then Some (st3, 0, kSuccess) else SetupPageMap st3 c (length rest) a 1 w) of
         None \<Rightarrow> None
       | Some (st4, remain, err4) \<Rightarrow>
           if is_error err4 then Some (st4, 1, err4)
           else if i = 511 then Some (st4, remain, kSuccess)
           else SetupPageMap st4 f (length (i # rest)) (next_addr (length (i # rest)) a) remain w)"
      by (subst SetupPageMap.simps) (use sfx(1) lv n in \<open>simp add: Let_def st3_def enter_def split: option.split prod.split\<close>)
    show ?thesis
    proof (cases "rest = []")
      case True
      have pa: "p @ [i] = indices a" using Cons.prems(3) True by simp
      have pe: "p = [Part 4 a, Part 3 a, Part 2 a]" "i = Part 1 a" using pa by (auto simp: indices_def)
      have "page_entry st3 a = Some (entry st3 f i)" using s3(4) pe ok3(2) by (simp add: page_entry_def)
      moreover have "SetupPageMap st f (length (i # rest)) a 1 w = Some (st3, 0, kSuccess)"
        unfolding loop using True by (simp add: SetupPageMap_zero)
      ultimately show ?thesis using s3 True pa by (intro exI[of _ st3] exI[of _ 0] exI[of _ kSuccess]) auto
    next
      case False
      have pr: "(p @ [i]) @ rest = indices a" using Cons.prems(3) by simp
      have w3: "walk st3 (CR3 st3) (p @ [i]) = Some c" using s3(3) ok3(2) by simp
      obtain st' r e where r: "SetupPageMap st3 c (length rest) a 1 w = Some (st', r, e)" "extends st3 st' (indices a)"
          "e = kNoEnoughMemory \<and> out_of_frames st' \<or> e = kSuccess \<and> r = 0 \<and>
            (\<exists>g ent. walk st' (CR3 st) (indices a) = Some g \<and> page_entry st' a = Some ent \<and>
              present ent \<and> user ent \<and> writable ent = w \<and>
              (walk st3 (CR3 st) (indices a) = None \<longrightarrow> \<not> used (mm st3) g \<and> phys st' g = replicate 4096 0))"
        using Cons.IH[OF ok3(1) w3 pr False] unfolding ok3(2) by (elim exE conjE) (rule that)
      have ne: "indices a \<noteq> p @ [i]" using pr False by auto
      have same: "walk st3 (CR3 st) (indices a) = walk st (CR3 st) (indices a)"
        using s3(2) ne indices_user_path[OF assms(5)] by blast
      have nu: "\<not> used (mm st3) g \<Longrightarrow> \<not> used (mm st) g" for g using s3(1) unfolding extends_def by blast
      have ex: "extends st st' (indices a)" by (rule extends_trans[OF s3(1) r(2)])
      show ?thesis
      proof (cases "e = kNoEnoughMemory")
        case True
        then have "SetupPageMap st f (length (i # rest)) a 1 w = Some (st', 1, kNoEnoughMemory)"
          unfolding loop using False r(1) by (simp add: is_error_def)
        moreover have "out_of_frames st'" using r(3) True by (auto simp: is_error_def)
        ultimately show ?thesis using ex by blast
      next
        case ne: False
        then have e: "e = kSuccess" "r = 0" using r(3) by auto
        have "SetupPageMap st f (length (i # rest)) a 1 w = Some (st', 0, kSuccess)"
          unfolding loop using False r(1) e by (simp add: SetupPageMap_zero)
        then show ?thesis using ex r(3) e ne same nu by (intro exI[of _ st'] exI[of _ 0] exI[of _ kSuccess]) auto
      qed
    qed
  qed
qed simp

text \<open>The case of the page fault handler: one page.\<close>

lemma SetupPageMaps_page:
  assumes "space_ok st" and "256 \<le> Part 4 a"
  shows "\<exists>st' e. SetupPageMaps st a 1 w = Some (st', e) \<and> extends st st' (indices a) \<and>
    (e = kNoEnoughMemory \<and> out_of_frames st' \<or> e = kSuccess \<and>
      (\<exists>g ent. translate st' a = Some g \<and> page_entry st' a = Some ent \<and> present ent \<and> user ent \<and> writable ent = w \<and>
        (translate st a = None \<longrightarrow> \<not> used (mm st) g \<and> phys st' g = replicate 4096 0)))"
proof -
  have p: "[] @ indices a = indices a" "indices a \<noteq> []" "length (indices a) = 4" by (simp_all add: indices_def)
  obtain st' r e where r: "SetupPageMap st (CR3 st) 4 a 1 w = Some (st', r, e)" "extends st st' (indices a)"
      "e = kNoEnoughMemory \<and> out_of_frames st' \<or> e = kSuccess \<and> r = 0 \<and>
        (\<exists>g ent. walk st' (CR3 st) (indices a) = Some g \<and> page_entry st' a = Some ent \<and>
           present ent \<and> user ent \<and> writable ent = w \<and>
           (walk st (CR3 st) (indices a) = None \<longrightarrow> \<not> used (mm st) g \<and> phys st' g = replicate 4096 0))"
    using SetupPageMap_page[OF assms(1) _ p(1,2) assms(2), of "CR3 st" w] unfolding p(3) by auto
  have "CR3 st' = CR3 st" using r(2) unfolding extends_def by blast
  then show ?thesis using r by (intro exI[of _ st'] exI[of _ e]) (auto simp: SetupPageMaps_def translate_def)
qed

end
