(* ===== verification/PageFault.thy ===== *)
theory PageFault
  imports Paging Task
begin

text \<open>
  Page faults: the rest of \<^verbatim>\<open>kernel/paging.cpp\<close>. The handler reads the current task's demand paging
  range and file mappings, and changes the page tables. \<open>FileDescriptor::Load\<close> is virtual: the handler takes the
  function of the descriptor's class as \<open>load\<close>, which gets the length and the offset and returns the bytes that it
  stores in the buffer.
\<close>

subsection \<open>The handler\<close>

fun FindFileMapping :: "FileMapping list \<Rightarrow> nat \<Rightarrow> FileMapping option" where
  "FindFileMapping [] causal_vaddr = None"
| "FindFileMapping (m # fmaps) causal_vaddr =
     (if vaddr_begin m \<le> causal_vaddr \<and> causal_vaddr < vaddr_end m then Some m
      else FindFileMapping fmaps causal_vaddr)"

text \<open>The page of the faulting address gets the bytes that \<open>load\<close> returns, written through the new mapping.\<close>

definition store_page :: "Machine \<Rightarrow> u64 \<Rightarrow> u8 list \<Rightarrow> Machine option" where
  "store_page st vaddr bytes = map_option (\<lambda>f. st\<lparr>phys := (phys st)(f := blit 0 bytes (phys st f))\<rparr>) (frame_at st vaddr)"

definition PreparePageCache ::
  "('f \<Rightarrow> nat \<Rightarrow> int \<Rightarrow> u8 list option) \<Rightarrow> Machine \<Rightarrow> 'f \<Rightarrow> FileMapping \<Rightarrow> u64 \<Rightarrow> (Machine \<times> Error_Code) option" where
  "PreparePageCache load st fd m causal_vaddr =
     (let page_vaddr = SetPart 0 0 causal_vaddr in
      case SetupPageMaps st page_vaddr 1 True of
        None \<Rightarrow> None
      | Some (st1, err) \<Rightarrow>
          if is_error err then Some (st1, err)
          else (let file_offset = sint (page_vaddr - of_nat (vaddr_begin m)) in
            case load fd 4096 file_offset of
              None \<Rightarrow> None
            | Some bytes \<Rightarrow> map_option (\<lambda>st2. (st2, kSuccess)) (store_page st1 page_vaddr bytes)))"

definition HandlePageFault ::
  "('f \<Rightarrow> nat \<Rightarrow> int \<Rightarrow> u8 list option) \<Rightarrow> 'f TaskManager \<Rightarrow> Machine \<Rightarrow> u64 \<Rightarrow> u64 \<Rightarrow> (Machine \<times> Error_Code) option" where
  "HandlePageFault load tm st error_code causal_addr =
     (case CurrentTask tm of
        None \<Rightarrow> None
      | Some t \<Rightarrow>
     (case tasks tm t of
        None \<Rightarrow> None
      | Some task \<Rightarrow>
     (let present_bit = bit error_code 0; rw = bit error_code 1; user_bit = bit error_code 2; a = unat causal_addr in
      if present_bit \<and> rw \<and> user_bit then CopyOnePage st causal_addr
      else if present_bit then Some (st, kAlreadyAllocated)
      else if dpaging_begin task \<le> a \<and> a < dpaging_end task then SetupPageMaps st causal_addr 1 True
      else (case FindFileMapping (file_maps task) a of
              Some m \<Rightarrow>
                (if map_fd m < 0 \<or> int (length (task_files task)) \<le> map_fd m then None
                 else (case task_files task ! nat (map_fd m) of
                    None \<Rightarrow> None
                  | Some fd \<Rightarrow> PreparePageCache load st fd m causal_addr))
            | None \<Rightarrow> Some (st, kIndexOutOfRange)))))"

lemma HandlePageFault_task:
  assumes "CurrentTask tm = Some t" and "tasks tm t = Some task"
  shows "bit ec 0 \<Longrightarrow> bit ec 1 \<Longrightarrow> bit ec 2 \<Longrightarrow> HandlePageFault load tm st ec a = CopyOnePage st a"
    and "\<not> bit ec 0 \<Longrightarrow> dpaging_begin task \<le> unat a \<Longrightarrow> unat a < dpaging_end task \<Longrightarrow>
      HandlePageFault load tm st ec a = SetupPageMaps st a 1 True"
    and "\<not> bit ec 0 \<Longrightarrow> \<not> (dpaging_begin task \<le> unat a \<and> unat a < dpaging_end task) \<Longrightarrow>
      FindFileMapping (file_maps task) (unat a) = Some m \<Longrightarrow> 0 \<le> map_fd m \<Longrightarrow>
      map_fd m < int (length (task_files task)) \<Longrightarrow> task_files task ! nat (map_fd m) = Some fd \<Longrightarrow>
      HandlePageFault load tm st ec a = PreparePageCache load st fd m a"
  using assms by (auto simp: HandlePageFault_def Let_def)

lemma FindFileMapping_Some:
  "FindFileMapping fmaps a = Some m \<Longrightarrow> m \<in> set fmaps \<and> vaddr_begin m \<le> a \<and> a < vaddr_end m"
  by (induction fmaps) (auto split: if_splits)

subsection \<open>Replacing a page\<close>

text \<open>Changing the entry of a page changes the walk to that page only.\<close>

lemma walk_leaf:
  assumes sp: "space_ok st" and p: "user_path (p @ [i])" "length p = 3" and f: "walk st (CR3 st) p = Some f"
    and e: "\<And>q k g. user_path (q @ [k]) \<Longrightarrow> walk st (CR3 st) q = Some g \<Longrightarrow>
      entry st' g k = (if g = f \<and> k = i then e else entry st g k)"
    and pr: "present e" "Pointer e = c" and js: "user_path js"
  shows "walk st' (CR3 st) js = (if js = p @ [i] then Some c else walk st (CR3 st) js)"
  using js
proof (induction js rule: rev_induct)
  case (snoc k q)
  note sn = user_path_snoc[OF snoc.prems]
  have q: "user_path q" and k: "k < 512" and lq: "length q < 4" using sn by auto
  have ne: "q \<noteq> p @ [i]" using lq p(2) by auto
  have up: "user_path p" using user_path_snoc[OF p(1)] by simp
  have IH: "walk st' (CR3 st) q = walk st (CR3 st) q" using snoc.IH[OF q] ne by simp
  show ?case
  proof (cases "walk st (CR3 st) q")
    case None
    then show ?thesis using IH f by (auto simp: walk_snoc)
  next
    case (Some g)
    have gf: "g = f \<Longrightarrow> q = p" using space_okD(4)[OF sp q up, of g] Some f by blast
    show ?thesis
    proof (cases "g = f \<and> k = i")
      case True
      then show ?thesis using IH Some gf pr e[OF snoc.prems Some] by (simp add: walk_snoc)
    next
      case False
      then have "q @ [k] \<noteq> p @ [i]" using Some f by auto
      moreover have "entry st' g k = entry st g k" using e[OF snoc.prems Some] False by auto
      ultimately show ?thesis using IH Some by (simp only: walk_snoc option.case if_False)
    qed
  qed
qed simp

text \<open>\<open>SetPageContent\<close> changes the entry that the walk of the address reaches.\<close>

definition remap :: "nat \<Rightarrow> nat \<Rightarrow> nat \<Rightarrow> Machine \<Rightarrow> Machine" where
  "remap f i content st = (let st1 = set_entry f i (SetPointer content (entry st f i)) st
     in set_entry f i (set_writable True (entry st1 f i)) st1)"

lemma SetPageContent_walk:
  assumes "walk st tbl [Part 4 a, Part 3 a, Part 2 a] = Some f"
  shows "SetPageContent st tbl 4 a content = Some (remap f (Part 1 a) content st)"
  using assms by (simp add: numeral_eq_Suc remap_def Let_def split: if_splits)

lemma remap_facts:
  assumes "length (phys st f) = 4096" and "i < 512"
  shows "mm (remap f i p st) = mm st" "CR3 (remap f i p st) = CR3 st"
    and "g \<noteq> f \<Longrightarrow> phys (remap f i p st) g = phys st g"
    and "k < 512 \<Longrightarrow> entry (remap f i p st) g k =
      (if g = f \<and> k = i then set_writable True (SetPointer p (entry st f i)) else entry st g k)"
    and "length (phys (remap f i p st) g) = length (phys st g)"
  using assms by (simp_all add: remap_def Let_def entry_set_entry)

lemma page_walk:
  assumes "translate st a = Some g"
  obtains f where "walk st (CR3 st) [Part 4 a, Part 3 a, Part 2 a] = Some f" "present (entry st f (Part 1 a))"
    "Pointer (entry st f (Part 1 a)) = g" "page_entry st a = Some (entry st f (Part 1 a))"
proof -
  have "walk st (CR3 st) ([Part 4 a, Part 3 a, Part 2 a] @ [Part 1 a]) = Some g"
    using assms by (simp add: translate_def indices_def)
  then show ?thesis by (intro that[of "the (walk st (CR3 st) [Part 4 a, Part 3 a, Part 2 a])"])
    (auto simp only: walk_snoc page_entry_def option.map option.sel split: option.splits if_splits)
qed

text \<open>Memory changes that leave the tables alone keep the address space.\<close>

lemma space_ok_same:
  assumes sp: "space_ok st" and mem: "mem_ok st'" "CR3 st' = CR3 st" "\<And>g. used (mm st) g \<Longrightarrow> used (mm st') g"
    and same: "\<And>g. used (mm st) g \<Longrightarrow> phys st' g = phys st g"
  shows "space_ok st'" and "user_path js \<Longrightarrow> walk st' (CR3 st) js = walk st (CR3 st) js"
proof -
  have ent: "entry st' g k = entry st g k" if "user_path q" "walk st (CR3 st) q = Some g" for q g k
    using same[OF space_okD(3)[OF sp that]] by (simp add: entry_def)
  show W: "walk st' (CR3 st) js = walk st (CR3 st) js" if "user_path js" for js
    using that
  proof (induction js rule: rev_induct)
    case (snoc k q)
    have q: "user_path q" using user_path_snoc[OF snoc.prems] by simp
    show ?case using snoc.IH[OF q] ent[OF q] by (cases "walk st (CR3 st) q") (simp_all add: walk_snoc)
  qed simp
  show "space_ok st'"
    unfolding space_ok_def mem(2)
  proof (intro conjI allI impI)
    show "mem_ok st'" by (rule mem(1))
    show "used (mm st') f" if "user_path is" "walk st' (CR3 st) is = Some f" for "is" f
      using that W space_okD(3)[OF sp] mem(3) by simp
    show "is = js" if "user_path is" "user_path js" "walk st' (CR3 st) is = Some f" "walk st' (CR3 st) js = Some f" for "is" js f
      using that W space_okD(4)[OF sp] by simp
    show "\<not> huge_page (entry st' g k)" if "user_path (q @ [k])" "length q < 3" "walk st' (CR3 st) q = Some g" for q k g
    proof -
      have q: "user_path q" using user_path_prefix[OF that(1)] .
      have w: "walk st (CR3 st) q = Some g" using W[OF q] that(3) by simp
      show ?thesis using space_okD(5)[OF sp that(1,2) w] ent[OF q w] by simp
    qed
  qed
qed

lemma space_ok_leaf:
  assumes sp: "space_ok st" and p: "user_path (p @ [i])" "length p = 3" and f: "walk st (CR3 st) p = Some f"
    and mem: "mem_ok st'" "CR3 st' = CR3 st" "mm st' = mm st"
    and e: "\<And>g k. k < 512 \<Longrightarrow> entry st' g k = (if g = f \<and> k = i then e else entry st g k)"
    and pr: "present e" "Pointer e = c" and c: "used (mm st) c" "\<And>js. user_path js \<Longrightarrow> walk st (CR3 st) js \<noteq> Some c"
  shows "space_ok st'" and "user_path js \<Longrightarrow> walk st' (CR3 st) js = (if js = p @ [i] then Some c else walk st (CR3 st) js)"
proof -
  have k: "user_path (q @ [k]) \<Longrightarrow> k < 512" for q k using user_path_snoc by blast
  have up: "user_path p" using user_path_prefix[OF p(1)] .
  show W: "walk st' (CR3 st) js = (if js = p @ [i] then Some c else walk st (CR3 st) js)" if "user_path js" for js
    using e k by (intro walk_leaf[OF sp p f _ pr that]) blast
  show "space_ok st'"
    unfolding space_ok_def mem(2,3)
  proof (intro conjI allI impI)
    show "mem_ok st'" by (rule mem(1))
    show "used (mm st) g" if "user_path is" "walk st' (CR3 st) is = Some g" for "is" g
      using that W c(1) space_okD(3)[OF sp] by (auto split: if_splits)
    show "is = js" if "user_path is" "user_path js" "walk st' (CR3 st) is = Some g" "walk st' (CR3 st) js = Some g" for "is" js g
      using that W c(2) space_okD(4)[OF sp] by (auto split: if_splits)
    show "\<not> huge_page (entry st' g k)" if h: "user_path (q @ [k])" "length q < 3" "walk st' (CR3 st) q = Some g" for q k g
    proof -
      have q: "user_path q" "q \<noteq> p @ [i]" using user_path_prefix[OF h(1)] h(2) p(2) by auto
      have w: "walk st (CR3 st) q = Some g" using W[OF q(1)] q(2) h(3) by simp
      have "\<not> (g = f \<and> k = i)" using space_okD(4)[OF sp q(1) up, of g] w f h(2) p(2) by auto
      then show ?thesis using e[OF k[OF h(1)], of g] space_okD(5)[OF sp h(1,2) w] by auto
    qed
  qed
qed

lemma CopyOnePage_private:
  assumes sp: "space_ok st" and a: "256 \<le> Part 4 a" and g: "translate st a = Some g"
  shows "CopyOnePage st a = Some (st, kNoEnoughMemory) \<and> out_of_frames st \<or>
    (\<exists>st' p ent. CopyOnePage st a = Some (st', kSuccess) \<and> space_ok st' \<and> CR3 st' = CR3 st \<and>
      \<not> used (mm st) p \<and> used (mm st') p \<and> translate st' a = Some p \<and> phys st' p = phys st g \<and>
      page_entry st' a = Some ent \<and> writable ent \<and>
      (\<forall>js. user_path js \<longrightarrow> js \<noteq> indices a \<longrightarrow> walk st' (CR3 st) js = walk st (CR3 st) js) \<and>
      (\<forall>h. used (mm st) h \<longrightarrow> \<not> is_table st h \<longrightarrow> phys st' h = phys st h))"
proof (cases "\<exists>e st1 f. NewPageMap st = Some (st1, f, e) \<and> is_error e")
  case True
  then have "NewPageMap st = Some (st, 0, kNoEnoughMemory)" "out_of_frames st"
    using NewPageMap_fails[OF sp] NewPageMap_ok[OF sp] by (auto simp: is_error_def)
  then show ?thesis by (simp add: CopyOnePage_def is_error_def)
next
  case False
  then obtain p mm' where n: "NewPageMap st = Some (st\<lparr>mm := mm', phys := (phys st)(p := replicate 4096 0)\<rparr>, p, kSuccess)"
      "range_end mm' \<le> kFrameCount" "\<not> used (mm st) p" "used mm' p" "p < 2 ^ 40" "\<forall>h. used (mm st) h \<longrightarrow> used mm' h"
    using NewPageMap_ok[OF sp] by (auto simp: is_error_def)
  define st1 where "st1 = st\<lparr>mm := mm', phys := (phys st)(p := replicate 4096 0)\<rparr>"
  define st2 where "st2 = st1\<lparr>phys := (phys st1)(p := phys st1 g)\<rparr>"
  let ?path = "[Part 4 a, Part 3 a, Part 2 a]"
  have up: "user_path (?path @ [Part 1 a])" using indices_user_path[OF a] by (simp add: indices_def)
  have ia: "?path @ [Part 1 a] = indices a" by (simp add: indices_def)
  have gu: "used (mm st) g" "g \<noteq> p"
    using space_okD(3)[OF sp indices_user_path[OF a], of g] g n(3) by (auto simp: translate_def)
  have len: "length (phys st h) = 4096" for h by (rule space_okD(2)[OF sp])
  have m1: "mem_ok st1" "CR3 st1 = CR3 st" "mm st1 = mm'" "mem_ok st2" "CR3 st2 = CR3 st" "mm st2 = mm'"
    using n(2) len by (simp_all add: st1_def st2_def mem_ok_def)
  have fr: "phys st1 h = phys st h" "phys st2 h = phys st h" if "used (mm st) h" for h
    using that n(3) by (auto simp: st1_def st2_def)
  have s1: "space_ok st1" using space_ok_same(1)[OF sp m1(1,2)] n(6) fr m1(3) by simp
  have w1: "user_path js \<Longrightarrow> walk st1 (CR3 st) js = walk st (CR3 st) js" for js
    using space_ok_same(2)[OF sp m1(1,2)] n(6) fr m1(3) by simp
  have s2: "space_ok st2" using space_ok_same(1)[OF sp m1(4,5)] n(6) fr m1(6) by simp
  have w2: "user_path js \<Longrightarrow> walk st2 (CR3 st) js = walk st (CR3 st) js" for js
    using space_ok_same(2)[OF sp m1(4,5)] n(6) fr m1(6) by simp
  have fa: "frame_at st1 a = Some g"
    using frame_at_translate[OF s1 a] w1[OF indices_user_path[OF a]] g m1(2) by (simp add: translate_def)
  obtain f where f: "walk st (CR3 st) ?path = Some f" "present (entry st f (Part 1 a))" using page_walk[OF g] by blast
  have upp: "user_path ?path" using user_path_prefix[OF up] .
  have fu: "used (mm st) f" "f \<noteq> p" using space_okD(3)[OF sp upp f(1)] n(3) by auto
  have wf: "walk st2 (CR3 st2) ?path = Some f" using w2[OF upp] f(1) m1(5) by simp
  have ent2: "entry st2 f k = entry st f k" for k using fr(2)[OF fu(1)] by (simp add: entry_def)
  define st3 where "st3 = remap f (Part 1 a) p st2"
  have i: "Part 1 a < 512" by (simp add: Part_lt)
  have l2: "length (phys st2 h) = 4096" for h by (rule space_okD(2)[OF s2])
  note rf = remap_facts[OF l2[of f] i, where p = p, folded st3_def]
  let ?e = "set_writable True (SetPointer p (entry st2 f (Part 1 a)))"
  have run: "CopyOnePage st a = Some (st3, kSuccess)"
    using n(1) fa SetPageContent_walk[OF wf, of p] m1(5)
    by (simp add: CopyOnePage_def is_error_def st1_def[symmetric] st2_def[symmetric] st3_def m1(2))
  have m3: "mem_ok st3" using m1(4) rf(1,5) by (simp add: mem_ok_def)
  have c3: "CR3 st3 = CR3 st2" by (rule rf(2))
  have pe: "present ?e" "Pointer ?e = p" using f(2) ent2 n(5) by simp_all
  have fresh: "used (mm st2) p" "user_path js \<Longrightarrow> walk st2 (CR3 st2) js \<noteq> Some p" for js
    using n(4) m1(5,6) w2[of js] space_okD(3)[OF sp, of js p] n(3) by auto
  note leaf = space_ok_leaf[OF s2 up _ wf m3 c3 rf(1) rf(4) pe fresh]
  have s3: "space_ok st3" by (rule leaf(1)) simp_all
  have w3: "user_path js \<Longrightarrow> walk st3 (CR3 st) js = (if js = indices a then Some p else walk st (CR3 st) js)" for js
    using leaf(2)[of js, unfolded ia] w2[of js] m1(5) by simp
  have p3: "walk st3 (CR3 st) ?path = Some f" using w3[OF upp] f(1) by (simp add: indices_def)
  have "page_entry st3 a = Some ?e"
    using p3 rf(4)[OF i, of f] c3 m1(5) by (simp add: page_entry_def)
  moreover have "translate st3 a = Some p" using w3[OF indices_user_path[OF a]] c3 m1(5) by (simp add: translate_def)
  moreover have "phys st3 p = phys st g" using rf(3)[of p] fu(2) gu by (simp add: st2_def st1_def)
  moreover have "phys st3 h = phys st h" if "used (mm st) h" "\<not> is_table st h" for h
  proof -
    have "is_table st f" unfolding is_table_def using upp f(1) by (intro exI[of _ ?path]) simp
    then have "h \<noteq> f" using that(2) by blast
    then show ?thesis using rf(3) fr(2)[OF that(1)] by simp
  qed
  ultimately show ?thesis
    using run s3 c3 m1(5,6) n(3,4) w3 rf(1) by (intro disjI2 exI[of _ st3], intro exI[of _ p] exI[of _ ?e]) auto
qed

subsection \<open>Page addresses\<close>

lemma page_base:
  "Part 1 (SetPart 0 0 a) = Part 1 a" "Part 2 (SetPart 0 0 a) = Part 2 a"
  "Part 3 (SetPart 0 0 a) = Part 3 a" "Part 4 (SetPart 0 0 a) = Part 4 a"
  by (simp_all add: Part_SetPart_other)

lemma indices_page_base: "indices (SetPart 0 0 a) = indices a"
  unfolding indices_def page_base ..

lemma unat_page_base: "unat (SetPart 0 0 a) = unat a - unat a mod 4096"
proof -
  have "unat (SetPart 0 0 a) = push_bit 12 (drop_bit 12 (unat a))"
    by (rule bit_eqI) (auto simp: bit_unsigned_iff SetPart_bits part_bits_def bit_push_bit_iff bit_drop_bit_eq
        dest: bit_imp_le_length)
  then show ?thesis by (simp add: push_bit_eq_mult drop_bit_eq_div minus_mod_eq_div_mult)
qed

lemma sint_diff:
  assumes "b \<le> unat (a :: u64)" and "unat a - b < 2 ^ 63"
  shows "sint (a - of_nat b) = int (unat a) - int b"
proof -
  have e: "a - of_nat b = of_nat (unat a - b)" using assms(1) by (simp add: of_nat_diff)
  have n: "sint (of_nat n :: u64) = int n" if "n < 2 ^ 63" for n
    using that by (subst signed_of_nat) (simp add: signed_take_bit_int_eq_self)
  show ?thesis unfolding e n[OF assms(2)] using assms(1) by (simp add: of_nat_diff)
qed

subsection \<open>The identity map\<close>

lemma fold_entries:
  assumes len: "\<And>g. length (phys st g) = 4096" and n: "n \<le> 512"
  shows "length (phys (fold (\<lambda>j. set_entry f j (v j)) [0..<n] st) g) = 4096"
    and "k < 512 \<Longrightarrow> entry (fold (\<lambda>j. set_entry f j (v j)) [0..<n] st) g k =
      (if g = f \<and> k < n then v k else entry st g k)"
proof -
  have "(\<forall>g. length (phys (fold (\<lambda>j. set_entry f j (v j)) [0..<n] st) g) = 4096) \<and>
    (\<forall>g k. k < 512 \<longrightarrow> entry (fold (\<lambda>j. set_entry f j (v j)) [0..<n] st) g k =
      (if g = f \<and> k < n then v k else entry st g k))"
    using n
  proof (induction n)
    case (Suc n)
    then show ?case by (auto simp: entry_set_entry less_Suc_eq)
  qed (simp add: len)
  then show "length (phys (fold (\<lambda>j. set_entry f j (v j)) [0..<n] st) g) = 4096"
    "k < 512 \<Longrightarrow> entry (fold (\<lambda>j. set_entry f j (v j)) [0..<n] st) g k =
      (if g = f \<and> k < n then v k else entry st g k)" by blast+
qed

lemma SetupDirectory_facts:
  assumes len: "\<And>g. length (phys st g) = 4096" and ne: "pdp \<noteq> pd + i" and i: "i < 512"
  shows "length (phys (SetupDirectory pdp pd i st) g) = 4096"
    and "k < 512 \<Longrightarrow> entry (SetupDirectory pdp pd i st) g k =
      (if g = pd + i then directory_entry i k
       else if g = pdp \<and> k = i then of_nat (4096 * (pd + i)) OR 0x003 else entry st g k)"
proof -
  let ?st = "set_entry pdp i (of_nat (4096 * (pd + i)) OR 0x003) st"
  have l: "length (phys ?st h) = 4096" for h using len i by simp
  show "length (phys (SetupDirectory pdp pd i st) g) = 4096"
    unfolding SetupDirectory_def by (rule fold_entries(1)[OF l]) simp
  show "k < 512 \<Longrightarrow> entry (SetupDirectory pdp pd i st) g k =
      (if g = pd + i then directory_entry i k
       else if g = pdp \<and> k = i then of_nat (4096 * (pd + i)) OR 0x003 else entry st g k)"
    using fold_entries(2)[OF l, of 512 k "pd + i" "directory_entry i" g] entry_set_entry[OF len[of pdp] i, of k] ne
    by (simp add: SetupDirectory_def)
qed

lemma SetupDirectories:
  assumes len: "\<And>g. length (phys st g) = 4096" and d: "pdp \<notin> {pd ..< pd + n}" and n: "n \<le> 512"
  shows "(\<forall>g. length (phys (fold (SetupDirectory pdp pd) [0..<n] st) g) = 4096) \<and>
    (\<forall>g k. k < 512 \<longrightarrow> entry (fold (SetupDirectory pdp pd) [0..<n] st) g k =
      (if pd \<le> g \<and> g < pd + n then directory_entry (g - pd) k
       else if g = pdp \<and> k < n then of_nat (4096 * (pd + k)) OR 0x003 else entry st g k))"
  using d n
proof (induction n)
  case (Suc n)
  have ne: "pdp \<noteq> pd + n" "n < 512" using Suc.prems by auto
  let ?s = "fold (SetupDirectory pdp pd) [0..<n] st"
  have IH: "length (phys ?s g) = 4096" "k < 512 \<Longrightarrow> entry ?s g k =
      (if pd \<le> g \<and> g < pd + n then directory_entry (g - pd) k
       else if g = pdp \<and> k < n then of_nat (4096 * (pd + k)) OR 0x003 else entry st g k)" for g k
    using Suc by auto
  note F = SetupDirectory_facts[OF IH(1) ne]
  have "length (phys (fold (SetupDirectory pdp pd) [0..<Suc n] st) g) = 4096" for g using F(1) by simp
  moreover have "entry (fold (SetupDirectory pdp pd) [0..<Suc n] st) g k =
      (if pd \<le> g \<and> g < pd + Suc n then directory_entry (g - pd) k
       else if g = pdp \<and> k < Suc n then of_nat (4096 * (pd + k)) OR 0x003 else entry st g k)" if "k < 512" for g k
    using F(2)[OF that, of g] IH(2)[OF that, of g] ne(1) Suc.prems(1) by (auto simp: less_Suc_eq)
  ultimately show ?case by blast
qed (auto simp: len)

lemma table_link:
  assumes "f < 2 ^ 40"
  shows "present (of_nat (4096 * f) OR 0x003)" and "Pointer (of_nat (4096 * f) OR 0x003) = f"
    and "\<not> huge_page (of_nat (4096 * f) OR 0x003)"
proof -
  have e: "of_nat (4096 * f) = push_bit 12 (of_nat f :: u64)" by (simp add: push_bit_eq_mult)
  have m: "(0x003 :: u64) = mask 2" by (simp add: mask_eq_exp_minus_1)
  define w :: u64 where "w = of_nat (4096 * f) OR 0x003"
  have b: "bit w k \<longleftrightarrow> k < 64 \<and> (12 \<le> k \<and> bit f (k - 12) \<or> k = 0 \<or> k = 1)" for k
    unfolding w_def e m by (auto simp: bit_or_iff bit_mask_iff bit_push_bit_iff bit_of_nat_word dest: bit_imp_le_length)
  have "Pointer w = f"
    by (rule bit_eqI) (use nat_bit_bound[OF _ assms] in \<open>force simp: Pointer_bits b\<close>)
  then show "present (of_nat (4096 * f) OR 0x003)" "Pointer (of_nat (4096 * f) OR 0x003) = f"
      "\<not> huge_page (of_nat (4096 * f) OR 0x003)"
    unfolding present_def huge_page_def w_def[symmetric] b by simp_all
qed

lemma directory_link:
  assumes "i < 64" "j < 512"
  shows "present (directory_entry i j)" and "Pointer (directory_entry i j) = i * 2 ^ 18 + j * 2 ^ 9"
    and "huge_page (directory_entry i j)"
proof -
  let ?n = "i * 2 ^ 9 + j"
  have b: "bit (directory_entry i j) k \<longleftrightarrow> k < 64 \<and> (21 \<le> k \<and> bit ?n (k - 21) \<or> k = 0 \<or> k = 1 \<or> k = 7)" for k
  proof -
    have e: "i * kPageSize1G + j * kPageSize2M = push_bit 21 ?n"
      by (simp add: kPageSize1G_def kPageSize2M_def kPageSize4K_def push_bit_eq_mult algebra_simps)
    have m: "(0x083 :: u64) = mask 2 OR push_bit 7 1" by (simp add: mask_eq_exp_minus_1)
    have "bit (0x083 :: u64) k \<longleftrightarrow> k = 0 \<or> k = 1 \<or> k = 7"
      unfolding m by (auto simp: bit_or_iff bit_mask_iff bit_push_bit_iff bit_1_iff simp del: push_bit_of_1)
    then show ?thesis unfolding directory_entry_def e
      by (auto simp: bit_or_iff bit_of_nat_word bit_push_bit_iff dest: bit_imp_le_length)
  qed
  show "present (directory_entry i j)" "huge_page (directory_entry i j)" by (simp_all add: present_def huge_page_def b)
  have "?n < 2 ^ 16" using assms by simp
  then have nb: "bit ?n k \<Longrightarrow> k < 16" for k by (rule nat_bit_bound[rotated])
  have "Pointer (directory_entry i j) = push_bit 9 ?n"
  proof (rule bit_eqI)
    fix k
    show "bit (Pointer (directory_entry i j)) k \<longleftrightarrow> bit (push_bit 9 ?n) k"
      using nb[of "k - 9"] by (auto simp: Pointer_bits b bit_push_bit_iff)
  qed
  then show "Pointer (directory_entry i j) = i * 2 ^ 18 + j * 2 ^ 9" by (simp add: push_bit_eq_mult algebra_simps)
qed

text \<open>An address below 64 GiB in terms of its parts.\<close>

lemma Part_div:
  assumes "1 \<le> level" and "level \<le> 4"
  shows "Part level a = unat a div 2 ^ (12 + 9 * (level - 1)) mod 512"
proof -
  have "Part level a = take_bit 9 (drop_bit (12 + 9 * (level - 1)) (unat a))"
    using assms by (simp add: Part_def part_bits_def unsigned_take_bit_eq unat_drop_bit_eq)
  then show ?thesis by (simp add: take_bit_eq_mod drop_bit_eq_div)
qed

lemma radix_512: "m = q * 512 + r \<Longrightarrow> q = c * 512 + s \<Longrightarrow> m = c * 2 ^ 18 + s * 2 ^ 9 + r" for m :: nat
  by simp

lemma low_parts:
  assumes "unat a < 2 ^ 36"
  shows "Part 4 a = 0" and "Part 3 a < 64" and "unat a div 4096 = Part 3 a * 2 ^ 18 + Part 2 a * 2 ^ 9 + Part 1 a"
proof -
  define m where "m = unat a div 4096"
  have p: "Part 4 a = m div 512 div 512 div 512 mod 512" "Part 3 a = m div 512 div 512 mod 512"
    "Part 2 a = m div 512 mod 512" "Part 1 a = m mod 512"
    by (simp_all add: Part_div m_def flip: div_mult2_eq)
  have m: "m < 2 ^ 24" using assms by (simp add: m_def less_mult_imp_div_less)
  then have s: "m div 512 div 512 < 64" by (simp add: less_mult_imp_div_less flip: div_mult2_eq)
  then show "Part 4 a = 0" "Part 3 a < 64" unfolding p by simp_all
  have top: "m div 512 div 512 mod 512 = m div 512 div 512" using s by simp
  show "unat a div 4096 = Part 3 a * 2 ^ 18 + Part 2 a * 2 ^ 9 + Part 1 a"
    unfolding p m_def[symmetric] top
    by (rule radix_512[of _ "m div 512"]) (rule div_mult_mod_eq[symmetric])+
qed

subsection \<open>A sample machine\<close>

text \<open>One shared page at \<open>0xFFFF800000000000\<close>, not writable, and a 2 MiB page of the kernel at address 0.\<close>

definition sample_machine :: Machine where
  "sample_machine = fold (\<lambda>(f, i, e). set_entry f i e)
     [(7, 256, 0x8007), (8, 0, 0x9007), (9, 0, 0xA007), (10, 0, 0xB005), (7, 0, 0x3003), (3, 0, 0x4003), (4, 0, 0x200083)]
     \<lparr>mm = new_BitmapMemoryManager\<lparr>alloc_map := (\<lambda>_. 0)(0 := 0xF98, 8 := 1)\<rparr>, phys = (\<lambda>_. replicate 4096 0), CR3 = 7\<rparr>"

lemma sample_machine_simps:
  "CR3 sample_machine = 7" "length (phys sample_machine f) = 4096"
  "mm sample_machine = new_BitmapMemoryManager\<lparr>alloc_map := (\<lambda>_. 0)(0 := 0xF98, 8 := 1)\<rparr>"
  by (simp_all add: sample_machine_def)

lemma sample_entry:
  "i < 512 \<Longrightarrow> entry sample_machine f i =
    (if f = 7 \<and> i = 256 then 0x8007 else if f = 8 \<and> i = 0 then 0x9007 else if f = 9 \<and> i = 0 then 0xA007
     else if f = 10 \<and> i = 0 then 0xB005 else if f = 7 \<and> i = 0 then 0x3003 else if f = 3 \<and> i = 0 then 0x4003
     else if f = 4 \<and> i = 0 then 0x200083 else 0)"
  by (simp add: sample_machine_def entry_set_entry entry_zero)

lemma sample_used: "used (mm sample_machine) f \<longleftrightarrow> f \<in> {3, 4, 7, 8, 9, 10, 11, 512}"
proof -
  have "bit (0xF98 :: u64) k \<longleftrightarrow> k \<in> {3, 4, 7, 8, 9, 10, 11}" for k
  proof -
    have "(0xF98 :: u64) = push_bit 3 (mask 2) OR push_bit 7 (mask 5)" by (simp add: mask_eq_exp_minus_1)
    then have "bit (0xF98 :: u64) k \<longleftrightarrow> k < 64 \<and> (3 \<le> k \<and> k < 5 \<or> 7 \<le> k \<and> k < 12)"
      by (simp only: bit_or_iff bit_push_bit_iff bit_mask_iff) auto
    then show ?thesis by auto
  qed
  note low = this
  consider "f < 64" | "512 \<le> f" "f < 576" | "f div 64 \<noteq> 0" "f div 64 \<noteq> 8" "f \<notin> {3, 4, 7, 8, 9, 10, 11, 512}"
    by (cases "f < 64"; cases "512 \<le> f \<and> f < 576") auto
  then show ?thesis
  proof cases
    case 1
    then show ?thesis using low[of f] by (simp add: used_def sample_machine_simps)
  next
    case 2
    define r where "r = f - 512"
    have r: "f = 512 + r" "r < 64" using 2 by (simp_all add: r_def)
    then have "f div 64 = 8" "f mod 64 = r" using mod_mult_self1[of r 8 64] by (simp_all add: add.commute)
    then show ?thesis using r by (auto simp: used_def sample_machine_simps bit_1_iff)
  next
    case 3
    then show ?thesis by (simp add: used_def sample_machine_simps)
  qed
qed

lemma sample_links:
  "present 0x8007" "present 0x9007" "present 0xA007" "present 0xB005" "\<not> present 0"
  "Pointer 0x8007 = 8" "Pointer 0x9007 = 9" "Pointer 0xA007 = 10" "Pointer 0xB005 = 11"
  "present 0x3003" "present 0x4003" "present 0x200083" "Pointer 0x3003 = 3" "Pointer 0x4003 = 4" "Pointer 0x200083 = 512"
  by (simp_all add: present_def Pointer_def take_bit_eq_mod drop_bit_eq_div bit_0)

lemma sample_prefixes:
  "prefix q [256, 0, 0, 0 :: nat] \<longleftrightarrow> q = [] \<or> q = [256] \<or> q = [256, 0] \<or> q = [256, 0, 0] \<or> q = [256, 0, 0, 0]"
  by (auto simp: prefix_Cons)

lemma sample_walk:
  "user_path is \<Longrightarrow> walk sample_machine 7 is = Some f \<longleftrightarrow> prefix is [256, 0, 0, 0] \<and> f = 7 + length is"
proof (induction "is" arbitrary: f rule: rev_induct)
  case (snoc k q)
  have u: "k < 512" "user_path q" "q = [] \<Longrightarrow> 256 \<le> k" using snoc.prems by (auto simp: user_path_def)
  show ?case
  proof (cases "walk sample_machine 7 q")
    case None
    then have "\<not> prefix q [256, 0, 0, 0]" using snoc.IH[OF u(2)] by auto
    then show ?thesis using None by (auto simp: walk_snoc dest: append_prefixD)
  next
    case (Some g)
    then have g: "prefix q [256, 0, 0, 0]" "g = 7 + length q" using snoc.IH[OF u(2)] by auto
    have "length q < 4" using snoc.prems by (simp add: user_path_def)
    then have "q = [] \<or> q = [256] \<or> q = [256, 0] \<or> q = [256, 0, 0]" using g(1) sample_prefixes[of q] by auto
    moreover have w: "walk sample_machine 7 (q @ [k]) = (if present (entry sample_machine g k)
        then Some (Pointer (entry sample_machine g k)) else None)" using Some by (simp add: walk_snoc)
    ultimately have "walk sample_machine 7 (q @ [k]) = (if prefix (q @ [k]) [256, 0, 0, 0] then Some (7 + length (q @ [k])) else None)"
    proof (elim disjE)
      assume q: "q = []"
      then have "entry sample_machine g k = (if k = 256 then 0x8007 else 0)" using u g(2) by (simp add: sample_entry)
      then show ?thesis unfolding w using q by (cases "k = 256") (simp_all add: sample_links)
    next
      assume q: "q = [256]"
      then have "entry sample_machine g k = (if k = 0 then 0x9007 else 0)" using u(1) g(2) by (simp add: sample_entry)
      then show ?thesis unfolding w using q by (cases "k = 0") (simp_all add: sample_links)
    next
      assume q: "q = [256, 0]"
      then have "entry sample_machine g k = (if k = 0 then 0xA007 else 0)" using u(1) g(2) by (simp add: sample_entry)
      then show ?thesis unfolding w using q by (cases "k = 0") (simp_all add: sample_links)
    next
      assume q: "q = [256, 0, 0]"
      then have "entry sample_machine g k = (if k = 0 then 0xB005 else 0)" using u(1) g(2) by (simp add: sample_entry)
      then show ?thesis unfolding w using q by (cases "k = 0") (simp_all add: sample_links)
    qed
    then show ?thesis by auto
  qed
qed simp

lemma sample_machine_ok: "space_ok sample_machine"
  unfolding space_ok_def mem_ok_def sample_machine_simps(1)
proof (intro conjI allI impI)
  show "range_end (mm sample_machine) \<le> kFrameCount" by (simp add: sample_machine_simps new_BitmapMemoryManager_def)
  show "length (phys sample_machine f) = 4096" for f by (rule sample_machine_simps(2))
  show "used (mm sample_machine) f" if "user_path is" "walk sample_machine 7 is = Some f" for "is" f
  proof -
    have "length is \<le> 4" using that(1) by (simp add: user_path_def)
    then show ?thesis using that sample_walk[of "is" f] by (auto simp: sample_used numeral_eq_Suc le_Suc_eq)
  qed
  show "is = js" if "user_path is" "user_path js" "walk sample_machine 7 is = Some f" "walk sample_machine 7 js = Some f" for "is" js f
  proof -
    have "prefix is [256, 0, 0, 0]" "prefix js [256, 0, 0, 0]" "length is = length js"
      using that sample_walk[of "is" f] sample_walk[of js f] by auto
    then show ?thesis by (metis prefix_length_prefix prefix_order.antisym order_refl)
  qed
  show "\<not> huge_page (entry sample_machine g k)" if h: "user_path (q @ [k])" "length q < 3" "walk sample_machine 7 q = Some g" for q k g
  proof -
    have "g = 7 + length q" "k < 512" "g = 7 \<Longrightarrow> 256 \<le> k"
      using sample_walk[OF user_path_prefix[OF h(1)], of g] h user_path_snoc[OF h(1)] by (auto simp: user_path_def)
    then show ?thesis using h(2) by (auto simp: sample_entry huge_page_def)
  qed
qed

text \<open>Writing to a page of the application changes no translation.\<close>

lemma write_page:
  assumes sp: "space_ok st" and a: "256 \<le> Part 4 a" "translate st a = Some g" and l: "length bs = 4096"
  shows "\<And>js. user_path js \<Longrightarrow> walk (st\<lparr>phys := (phys st)(g := bs)\<rparr>) (CR3 st) js = walk st (CR3 st) js"
    and "space_ok (st\<lparr>phys := (phys st)(g := bs)\<rparr>)"
    and "\<And>b. 256 \<le> Part 4 b \<Longrightarrow> translate (st\<lparr>phys := (phys st)(g := bs)\<rparr>) b = translate st b"
proof -
  define s where "s = st\<lparr>phys := (phys st)(g := bs)\<rparr>"
  have sd: "CR3 s = CR3 st" "mm s = mm st" "\<And>h. h \<noteq> g \<Longrightarrow> phys s h = phys st h" "phys s g = bs" by (simp_all add: s_def)
  have leaf: "\<not> is_table st g"
  proof
    assume "is_table st g"
    then obtain q where q: "user_path q" "length q < 4" "walk st (CR3 st) q = Some g" unfolding is_table_def by blast
    then have "q = indices a"
      using space_okD(4)[OF sp q(1) indices_user_path[OF a(1)] q(3)] a(2) by (simp add: translate_def)
    then show False using q(2) by (simp add: indices_def)
  qed
  have ent: "entry s f k = entry st f k" if "user_path q" "length q < 4" "walk st (CR3 st) q = Some f" for q f k
  proof -
    have "f \<noteq> g" using leaf that unfolding is_table_def by blast
    then show ?thesis by (simp add: entry_def sd)
  qed
  have w: "walk s (CR3 st) js = walk st (CR3 st) js" if "user_path js" for js
    using that
  proof (induction js rule: rev_induct)
    case (snoc k q)
    have q: "user_path q" "length q < 4" using user_path_snoc[OF snoc.prems(1)] by auto
    show ?case using snoc.IH q ent[OF q] by (cases "walk st (CR3 st) q") (simp_all add: walk_snoc)
  qed simp
  then show "walk (st\<lparr>phys := (phys st)(g := bs)\<rparr>) (CR3 st) js = walk st (CR3 st) js" if "user_path js" for js
    using that by (simp only: s_def)
  have m: "mem_ok s" using sp l by (simp add: space_ok_def mem_ok_def s_def)
  have h: "\<not> huge_page (entry s f k)" if "user_path (q @ [k])" "length q < 3" "walk st (CR3 st) q = Some f" for q k f
    using ent[of q f k] user_path_prefix[OF that(1)] space_okD(5)[OF sp that] that(2,3) by simp
  have "space_ok s"
    unfolding space_ok_def sd(1,2)
  proof (intro conjI allI impI)
    show "used (mm st) f" if "user_path is" "walk s (CR3 st) is = Some f" for "is" f
      using space_okD(3)[OF sp that(1)] w[OF that(1)] that(2) by simp
    show "is = js" if "user_path is" "user_path js" "walk s (CR3 st) is = Some f" "walk s (CR3 st) js = Some f" for "is" js f
    proof (rule space_okD(4)[OF sp that(1,2), of f])
      show "walk st (CR3 st) is = Some f" using that(3) unfolding w[OF that(1)] .
      show "walk st (CR3 st) js = Some f" using that(4) unfolding w[OF that(2)] .
    qed
    show "\<not> huge_page (entry s f k)" if "user_path (q @ [k])" "length q < 3" "walk s (CR3 st) q = Some f" for q k f
      using h[OF that(1,2)] w[OF user_path_prefix[OF that(1)]] that(3) by simp
  qed (rule m)
  then show "space_ok (st\<lparr>phys := (phys st)(g := bs)\<rparr>)" by (simp only: s_def)
  have "translate s b = translate st b" if "256 \<le> Part 4 b" for b
    using w[OF indices_user_path[OF that]] by (simp add: translate_def sd)
  then show "translate (st\<lparr>phys := (phys st)(g := bs)\<rparr>) b = translate st b" if "256 \<le> Part 4 b" for b
    using that by (simp only: s_def)
qed

definition fault_task :: "unit Task" where
  "fault_task = (new_Task 1)\<lparr>dpaging_begin := 0xFFFF800000001000, dpaging_end := 0xFFFF800000003000,
     file_maps := [\<lparr>map_fd = 0, vaddr_begin = 0xFFFF800000010000, vaddr_end = 0xFFFF800000012000\<rparr>],
     task_files := [Some ()]\<rparr>"

definition fault_tm :: "unit TaskManager" where
  "fault_tm = empty_TaskManager\<lparr>tasks := [1 \<mapsto> fault_task], run_queue := (\<lambda>_. [1])\<rparr>"

lemma fault_tm_simps: "CurrentTask fault_tm = Some 1" "tasks fault_tm 1 = Some fault_task"
  by (simp_all add: CurrentTask_def fault_tm_def)

lemma fault_parts:
  "256 \<le> Part 4 0xFFFF800000000000" "256 \<le> Part 4 0xFFFF800000001000" "256 \<le> Part 4 0xFFFF800000010008"
  "indices 0xFFFF800000000000 = [256, 0, 0, 0]" "indices 0xFFFF800000010008 = [256, 0, 0, 16]"
  by (simp_all add: indices_def Part_div)

lemma user_path_indices: "256 \<le> Part 4 a \<Longrightarrow> user_path (indices a)"
  by (rule indices_user_path)

subsection \<open>Properties\<close>

text \<open>C12: a fault on an absent page in the demand paging range maps exactly that page: afterwards its address reaches
  a writable user page that, when nothing was mapped there, is a new zeroed frame; every other page keeps its frame and
  its entry's flags, and no allocated frame that is not a page table changes. It fails only when no frame is left.\<close>

theorem demand_fault_maps_zero_page:
  assumes "space_ok st" and "CurrentTask tm = Some t" and "tasks tm t = Some task" and "\<not> bit ec 0"
    and "dpaging_begin task \<le> unat a" and "unat a < dpaging_end task" and "256 \<le> Part 4 a"
  shows "\<exists>st' e. HandlePageFault load tm st ec a = Some (st', e) \<and> space_ok st' \<and>
    (\<forall>js. user_path js \<longrightarrow> length js = 4 \<longrightarrow> js \<noteq> indices a \<longrightarrow> walk st' (CR3 st) js = walk st (CR3 st) js) \<and>
    (\<forall>q k g. user_path (q @ [k]) \<longrightarrow> length q = 3 \<longrightarrow> q @ [k] \<noteq> indices a \<longrightarrow> walk st (CR3 st) q = Some g \<longrightarrow>
       entry st' g k = entry st g k) \<and>
    (\<forall>g. used (mm st) g \<longrightarrow> used (mm st') g \<and> (\<not> is_table st g \<longrightarrow> phys st' g = phys st g)) \<and>
    (e = kNoEnoughMemory \<and> out_of_frames st' \<or> e = kSuccess \<and>
      (\<exists>g ent. translate st' a = Some g \<and> page_entry st' a = Some ent \<and> present ent \<and> user ent \<and> writable ent \<and>
        (translate st a = None \<longrightarrow> \<not> used (mm st) g \<and> phys st' g = replicate 4096 0)))"
  using SetupPageMaps_page[OF assms(1,7), of True] HandlePageFault_task(2)[OF assms(2-6)]
  unfolding extends_def by fastforce

theorem demand_fault_maps_zero_page_witness:
  "\<exists>st' e. HandlePageFault (\<lambda>_ _ _. None) fault_tm sample_machine 0x6 0xFFFF800000001000 = Some (st', e) \<and> space_ok st' \<and>
     phys st' 11 = phys sample_machine 11"
proof -
  have "\<not> is_table sample_machine 11"
    using sample_walk[of _ 11] by (auto simp: is_table_def sample_machine_simps)
  then show ?thesis
    using demand_fault_maps_zero_page[OF sample_machine_ok fault_tm_simps _ _ _ fault_parts(2), of "0x6" "\<lambda>_ _ _. None"]
    by (auto simp: fault_task_def sample_used bit_0)
qed

text \<open>C13: a write to a present user page gives the task a private copy: the address reaches a frame that was free, with the
  bytes of the page it reached before, and its entry is writable; all other addresses keep their frames, the shared page and
  every other allocated frame that is not a page table keep their bytes. It fails only when no frame is left, and then
  nothing has changed.\<close>

theorem write_fault_copies_page:
  assumes "space_ok st" and "CurrentTask tm = Some t" and "tasks tm t = Some task"
    and "bit ec 0" and "bit ec 1" and "bit ec 2" and "256 \<le> Part 4 a" and "translate st a = Some g"
  shows "HandlePageFault load tm st ec a = Some (st, kNoEnoughMemory) \<and> out_of_frames st \<or>
    (\<exists>st' p ent. HandlePageFault load tm st ec a = Some (st', kSuccess) \<and> space_ok st' \<and> CR3 st' = CR3 st \<and>
      \<not> used (mm st) p \<and> used (mm st') p \<and> translate st' a = Some p \<and> phys st' p = phys st g \<and>
      page_entry st' a = Some ent \<and> writable ent \<and>
      (\<forall>js. user_path js \<longrightarrow> js \<noteq> indices a \<longrightarrow> walk st' (CR3 st) js = walk st (CR3 st) js) \<and>
      (\<forall>h. used (mm st) h \<longrightarrow> \<not> is_table st h \<longrightarrow> phys st' h = phys st h))"
  unfolding HandlePageFault_task(1)[OF assms(2-6)] by (rule CopyOnePage_private[OF assms(1,7,8)])

lemma sample_free_frame: "\<not> out_of_frames sample_machine"
proof -
  have "\<not> used (mm sample_machine) 1" by (simp add: sample_used)
  then have "free_run (mm sample_machine) 1 1"
    by (auto simp: free_run_def less_Suc_eq mm_consts sample_machine_simps(3) new_BitmapMemoryManager_def)
  moreover have "range_begin (mm sample_machine) \<le> 1" by (simp add: sample_machine_simps(3) new_BitmapMemoryManager_def)
  ultimately show ?thesis unfolding out_of_frames_def by blast
qed

theorem write_fault_copies_page_witness:
  "\<exists>st' p. HandlePageFault (\<lambda>_ _ _. None) fault_tm sample_machine 0x7 0xFFFF800000000000 = Some (st', kSuccess) \<and>
     p \<noteq> 11 \<and> translate st' 0xFFFF800000000000 = Some p \<and> phys st' p = phys sample_machine 11"
proof -
  have "translate sample_machine 0xFFFF800000000000 = Some 11"
    using sample_walk[of "[256, 0, 0, 0]" 11] by (simp add: translate_def sample_machine_simps fault_parts user_path_def)
  moreover have "bit (0x7 :: u64) 0" "bit (0x7 :: u64) 1" "bit (0x7 :: u64) 2" by (simp_all add: bit_0)
  ultimately show ?thesis
    using write_fault_copies_page[OF sample_machine_ok fault_tm_simps _ _ _ fault_parts(1), of "0x7" 11 "\<lambda>_ _ _. None"]
      sample_free_frame by (auto simp: sample_used)
qed

text \<open>A fault on an absent page of a mapped file fills a page with the file: when \<open>load\<close> returns the bytes at the page's
  offset in the file, the faulting address reaches a new frame that holds these bytes and zeros after them.\<close>

theorem mapped_file_fault_loads_page:
  assumes "space_ok st" and "CurrentTask tm = Some t" and "tasks tm t = Some task" and "\<not> bit ec 0"
    and "\<not> (dpaging_begin task \<le> unat a \<and> unat a < dpaging_end task)" and "256 \<le> Part 4 a"
    and m: "FindFileMapping (file_maps task) (unat a) = Some m" "4096 dvd vaddr_begin m" "vaddr_end m \<le> vaddr_begin m + 2 ^ 63"
    and "0 \<le> map_fd m" and "map_fd m < int (length (task_files task))" and "task_files task ! nat (map_fd m) = Some fd"
    and load: "load fd 4096 (int (unat a - unat a mod 4096 - vaddr_begin m)) = Some bytes" "length bytes \<le> 4096"
    and new: "translate st a = None"
  shows "\<exists>st' e. HandlePageFault load tm st ec a = Some (st', e) \<and>
    (e = kNoEnoughMemory \<and> out_of_frames st' \<or> e = kSuccess \<and>
      space_ok st' \<and>
      (\<exists>g. translate st' a = Some g \<and> \<not> used (mm st) g \<and> phys st' g = bytes @ replicate (4096 - length bytes) 0))"
proof -
  let ?b = "SetPart 0 0 a"
  have b4: "256 \<le> Part 4 ?b" using assms(6) by (simp add: page_base)
  have tr: "translate s ?b = translate s a" for s by (simp add: translate_def indices_page_base)
  have in_m: "vaddr_begin m \<le> unat a" "unat a < vaddr_end m" using FindFileMapping_Some[OF m(1)] by auto
  have lo: "vaddr_begin m \<le> unat ?b"
  proof -
    obtain k where k: "vaddr_begin m = 4096 * k" using m(2) by (elim dvdE)
    then have "k \<le> unat a div 4096" using in_m(1) by (simp add: less_eq_div_iff_mult_less_eq mult.commute)
    then show ?thesis unfolding unat_page_base minus_mod_eq_mult_div k by simp
  qed
  have "unat ?b \<le> unat a" unfolding unat_page_base by simp
  then have off: "sint (?b - of_nat (vaddr_begin m)) = int (unat a - unat a mod 4096 - vaddr_begin m)"
    using sint_diff[OF lo] lo in_m(2) m(3) by (simp add: of_nat_diff unat_page_base[symmetric])
  obtain st1 e where s: "SetupPageMaps st ?b 1 True = Some (st1, e)" "extends st st1 (indices ?b)"
      "e = kNoEnoughMemory \<and> out_of_frames st1 \<or> e = kSuccess \<and>
       (\<exists>g. translate st1 a = Some g \<and> \<not> used (mm st) g \<and> phys st1 g = replicate 4096 0)"
    using SetupPageMaps_page[OF assms(1) b4, of True] new unfolding tr by blast
  note h = HandlePageFault_task(3)[OF assms(2-5) m(1) assms(10-12), of load st]
  from s(3) show ?thesis
  proof (elim disjE conjE exE)
    assume "e = kNoEnoughMemory" "out_of_frames st1"
    then show ?thesis unfolding h by (simp add: PreparePageCache_def Let_def s(1)[unfolded One_nat_def] is_error_def)
  next
    fix g assume e: "e = kSuccess" and g: "translate st1 a = Some g" "\<not> used (mm st) g" "phys st1 g = replicate 4096 0"
    define st2 where "st2 = st1\<lparr>phys := (phys st1)(g := blit 0 bytes (phys st1 g))\<rparr>"
    have st2: "CR3 st2 = CR3 st1" "\<And>h. h \<noteq> g \<Longrightarrow> phys st2 h = phys st1 h" "phys st2 g = blit 0 bytes (phys st1 g)"
      by (simp_all add: st2_def)
    have s1: "space_ok st1" using s(2) unfolding extends_def by blast
    then have "frame_at st1 ?b = Some g" using frame_at_translate[OF s1 b4] g(1) tr by simp
    then have run: "PreparePageCache load st fd m a = Some (st2, kSuccess)"
      using load(1) e by (simp add: PreparePageCache_def Let_def s(1)[unfolded One_nat_def] is_error_def off store_page_def st2_def)
    have "length (blit 0 bytes (phys st1 g)) = 4096" using g(3) load(2) by (simp add: blit_def)
    note w = write_page[OF s1 assms(6) g(1) this, folded st2_def]
    have "space_ok st2" "translate st2 a = Some g" using w(2) w(3)[OF assms(6)] g(1) by auto
    then show ?thesis using run g(2,3) load(2) e unfolding h
      by (intro exI[of _ st2] exI[of _ kSuccess]) (simp add: blit_def st2(3))
  qed
qed

theorem mapped_file_fault_loads_page_witness:
  "\<exists>st' e. HandlePageFault (\<lambda>_ _ off. if off = 0 then Some [72, 105] else None) fault_tm sample_machine 0x6 0xFFFF800000010008
     = Some (st', e)"
proof -
  let ?m = "\<lparr>map_fd = 0, vaddr_begin = 0xFFFF800000010000, vaddr_end = 0xFFFF800000012000\<rparr>"
  have tr: "translate sample_machine 0xFFFF800000010008 = None"
  proof (cases "translate sample_machine 0xFFFF800000010008")
    case (Some f)
    then show ?thesis using sample_walk[of "[256, 0, 0, 16]" f]
      by (auto simp: translate_def sample_machine_simps fault_parts user_path_def sample_prefixes)
  qed simp
  show ?thesis
    using mapped_file_fault_loads_page[OF sample_machine_ok fault_tm_simps _ _ fault_parts(3), where m = ?m and fd = "()"
        and bytes = "[72, 105]" and load = "\<lambda>_ _ off. if off = 0 then Some [72, 105] else None" and ec = "0x6"] tr
    by (auto simp: fault_task_def bit_0)
qed

text \<open>after \<open>SetupIdentityPageTable\<close> every address below 64 GiB reaches the frame of its own number, when the static
  tables occupy different frames.\<close>

theorem SetupIdentityPageTable_identity:
  assumes "\<And>f. length (phys st f) = 4096" and "unat a < 64 * 2 ^ 30"
    and "pml4 \<noteq> pdp" and "pml4 \<notin> {pd ..< pd + 64}" and "pdp \<notin> {pd ..< pd + 64}" and "pdp < 2 ^ 40" and "pd + 64 \<le> 2 ^ 40"
  shows "frame_at (SetupIdentityPageTable pml4 pdp pd st) a = Some (unat a div 4096)"
proof -
  let ?st1 = "set_entry pml4 0 (of_nat (4096 * pdp) OR 0x003) st"
  let ?st2 = "fold (SetupDirectory pdp pd) [0..<kPageDirectoryCount] ?st1"
  let ?st = "SetupIdentityPageTable pml4 pdp pd st"
  have l1: "length (phys ?st1 f) = 4096" for f using assms(1) by simp
  have ent: "entry ?st g k = (if pd \<le> g \<and> g < pd + 64 then directory_entry (g - pd) k
      else if g = pdp \<and> k < 64 then of_nat (4096 * (pd + k)) OR 0x003
      else if g = pml4 \<and> k = 0 then of_nat (4096 * pdp) OR 0x003 else entry st g k)" if "k < 512" for g k
  proof -
    have "entry ?st g k = entry ?st2 g k" by (simp add: SetupIdentityPageTable_def ResetCR3_def entry_def)
    also have "\<dots> = (if pd \<le> g \<and> g < pd + 64 then directory_entry (g - pd) k
        else if g = pdp \<and> k < 64 then of_nat (4096 * (pd + k)) OR 0x003 else entry ?st1 g k)"
      using conjunct2[OF SetupDirectories[OF l1, of pdp pd 64]] assms(5) that by (simp only: kPageDirectoryCount_def) simp
    also have "entry ?st1 g k = (if g = pml4 \<and> k = 0 then of_nat (4096 * pdp) OR 0x003 else entry st g k)"
      by (rule entry_set_entry[OF assms(1) _ that]) simp
    finally show ?thesis .
  qed
  have low: "Part 4 a = 0" "Part 3 a < 64" "unat a div 4096 = Part 3 a * 2 ^ 18 + Part 2 a * 2 ^ 9 + Part 1 a"
    using low_parts[of a] assms(2) by simp_all
  have cr: "CR3 ?st = pml4" by (simp add: SetupIdentityPageTable_def ResetCR3_def)
  have e4: "entry ?st pml4 (Part 4 a) = of_nat (4096 * pdp) OR 0x003" using ent[of 0 pml4] assms(3,4) low(1) by auto
  have e3: "entry ?st pdp (Part 3 a) = of_nat (4096 * (pd + Part 3 a)) OR 0x003" using ent[of "Part 3 a" pdp] assms(5) low(2) by auto
  have e2: "entry ?st (pd + Part 3 a) (Part 2 a) = directory_entry (Part 3 a) (Part 2 a)"
    using ent[of "Part 2 a" "pd + Part 3 a"] low(2) Part_lt[of 2 a] by simp
  have p3: "pd + Part 3 a < 2 ^ 40" using low(2) assms(7) by linarith
  have d: "present (directory_entry (Part 3 a) (Part 2 a))" "huge_page (directory_entry (Part 3 a) (Part 2 a))"
    "Pointer (directory_entry (Part 3 a) (Part 2 a)) = Part 3 a * 2 ^ 18 + Part 2 a * 2 ^ 9"
    using directory_link[OF low(2) Part_lt[of 2 a]] by simp_all
  have "walk ?st (CR3 ?st) [Part 4 a, Part 3 a] = Some (pd + Part 3 a)"
    unfolding cr walk.simps Let_def e4 table_link(2)[OF assms(6)] e3 table_link(2)[OF p3]
    using table_link(1)[OF assms(6)] table_link(1)[OF p3] by (simp only: if_True)
  then show ?thesis unfolding frame_at_def low(3) by (simp only: option.case Let_def e2 d if_True simp_thms)
qed

theorem SetupIdentityPageTable_identity_witness:
  "frame_at (SetupIdentityPageTable 300 301 302 \<lparr>mm = new_BitmapMemoryManager, phys = (\<lambda>_. replicate 4096 0), CR3 = 0\<rparr>) 0x12345678
     = Some 0x12345"
  using SetupIdentityPageTable_identity[of "\<lparr>mm = new_BitmapMemoryManager, phys = (\<lambda>_. replicate 4096 0), CR3 = 0\<rparr>"
      "0x12345678" 300 301 302] by simp

text \<open>C14: a write from user mode to a kernel address, which the identity map holds in a 2 MiB page, is taken for a copy on write:
  the handler reports success, leaves the mapping as it was, and overwrites an entry's worth of the data at the start of
  the 2 MiB page with a pointer to the new frame.\<close>

theorem kernel_write_fault_overwrites_memory:
  assumes "space_ok st" and "CurrentTask tm = Some t" and "tasks tm t = Some task"
    and "bit ec 0" and "bit ec 1" and "bit ec 2" and "\<not> out_of_frames st"
    and w: "walk st (CR3 st) [Part 4 a] = Some pdp" "walk st (CR3 st) [Part 4 a, Part 3 a] = Some pd"
    and e: "present (entry st pd (Part 2 a))" "huge_page (entry st pd (Part 2 a))" "Pointer (entry st pd (Part 2 a)) = f"
    and u: "used (mm st) (CR3 st)" "used (mm st) pdp" "used (mm st) pd" "used (mm st) f" "used (mm st) (f + Part 1 a)"
    and ne: "f \<noteq> CR3 st" "f \<noteq> pdp" "f \<noteq> pd"
  shows "\<exists>st' p. HandlePageFault load tm st ec a = Some (st', kSuccess) \<and> \<not> used (mm st) p \<and>
    frame_at st' a = frame_at st a \<and> entry st' f (Part 1 a) = set_writable True (SetPointer p (entry st f (Part 1 a)))"
proof -
  obtain p mm' where n: "NewPageMap st = Some (st\<lparr>mm := mm', phys := (phys st)(p := replicate 4096 0)\<rparr>, p, kSuccess)"
      "\<not> used (mm st) p"
    using NewPageMap_ok[OF assms(1)] NewPageMap_fails[OF assms(1)] assms(7) by (fastforce simp: is_error_def)
  define st1 where "st1 = st\<lparr>mm := mm', phys := (phys st)(p := replicate 4096 0)\<rparr>"
  define st2 where "st2 = st1\<lparr>phys := (phys st1)(p := phys st1 (f + Part 1 a))\<rparr>"
  have en: "entry st1 h k = entry st h k" "entry st2 h k = entry st h k" if "used (mm st) h" for h k
    using that n(2) by (auto simp: st1_def st2_def entry_def)
  have cr: "CR3 st1 = CR3 st" "CR3 st2 = CR3 st" by (simp_all add: st1_def st2_def)
  have step: "present (entry st (CR3 st) (Part 4 a))" "Pointer (entry st (CR3 st) (Part 4 a)) = pdp"
    "present (entry st pdp (Part 3 a))" "Pointer (entry st pdp (Part 3 a)) = pd"
    using w by (auto simp: Let_def split: if_splits)
  have fa: "frame_at s a = Some (f + Part 1 a)"
    if "CR3 s = CR3 st" "\<And>h k. h \<in> {CR3 st, pdp, pd} \<Longrightarrow> entry s h k = entry st h k" for s
    using that step e by (simp add: frame_at_def Let_def)
  have ws: "walk st2 (CR3 st) [Part 4 a, Part 3 a, Part 2 a] = Some f"
    using step e en(2)[OF u(1)] en(2)[OF u(2)] en(2)[OF u(3)] by (simp add: Let_def)
  define st3 where "st3 = remap f (Part 1 a) p st2"
  have l2: "length (phys st2 h) = 4096" for h using space_okD(2)[OF assms(1)] by (simp add: st1_def st2_def)
  have i: "Part 1 a < 512" by (simp add: Part_lt)
  note rf = remap_facts[OF l2[of f] i, where p = p, folded st3_def]
  have f1: "frame_at st1 a = Some (f + Part 1 a)" by (rule fa) (use cr en(1) u in auto)
  have "CopyOnePage st a = Some (st3, kSuccess)"
    using n(1) f1 cr SetPageContent_walk[OF ws, of p]
    by (simp add: CopyOnePage_def is_error_def st1_def[symmetric] st2_def[symmetric, unfolded One_nat_def] st3_def)
  moreover have "entry st3 h k = entry st h k" if "h \<in> {CR3 st, pdp, pd}" for h k
    using rf(3)[of h] that ne en(2)[of h k] u by (auto simp: entry_def)
  then have "frame_at st3 a = frame_at st a" using fa[of st3] fa[of st] rf(2) cr by simp
  moreover have "entry st3 f (Part 1 a) = set_writable True (SetPointer p (entry st f (Part 1 a)))"
    using rf(4)[OF i, of f] en(2)[OF u(4)] by simp
  ultimately show ?thesis unfolding HandlePageFault_task(1)[OF assms(2-6)] using n(2) by blast
qed

theorem kernel_write_fault_overwrites_memory_witness:
  "\<exists>st' p. HandlePageFault (\<lambda>_ _ _. None) fault_tm sample_machine 0x7 0 = Some (st', kSuccess) \<and>
     entry st' 512 0 = set_writable True (SetPointer p 0)"
proof -
  have p: "Part 4 0 = 0" "Part 3 0 = 0" "Part 2 0 = 0" "Part 1 0 = 0" by (simp_all add: Part_div)
  have b: "bit (0x7 :: u64) 0" "bit (0x7 :: u64) 1" "bit (0x7 :: u64) 2" by (simp_all add: bit_0)
  have h: "huge_page 0x200083" by (simp add: huge_page_def)
  show ?thesis
    using kernel_write_fault_overwrites_memory[OF sample_machine_ok fault_tm_simps b sample_free_frame,
        where a = 0 and pdp = 3 and pd = 4 and f = 512 and load = "\<lambda>_ _ _. None"]
    by (simp add: p[unfolded One_nat_def] h sample_entry sample_links sample_machine_simps(1) sample_used Let_def) blast
qed

end
