(* ===== verification/Graphics.thy ===== *)
theory Graphics
  imports Prelude
begin

text \<open>
  Pixels, rectangles and frame buffers: \<^verbatim>\<open>kernel/graphics.hpp\<close>, \<^verbatim>\<open>kernel/graphics.cpp\<close>,
  \<^verbatim>\<open>kernel/frame_buffer.cpp\<close>, \<^verbatim>\<open>kernel/frame_buffer.hpp\<close> and \<^verbatim>\<open>kernel/frame_buffer_config.hpp\<close>.
  Coordinates are \<open>int\<close>, for overflow of the code's \<open>int\<close> is undefined there; what the code computes with
  \<open>uint32_t\<close> is \<open>32 word\<close>. A function that draws is the list of its calls of \<open>PixelWriter::Write\<close> in order; the
  locale \<open>pixel_writer\<close> says what a writer promises. An access outside the memory of a buffer is \<open>None\<close>.
\<close>

subsection \<open>Vectors, rectangles, colours\<close>

datatype Vector2D = Vec (vx: int) (vy: int)

instantiation Vector2D :: ab_group_add
begin

definition zero_Vector2D :: Vector2D where "0 = Vec 0 0"

definition plus_Vector2D :: "Vector2D \<Rightarrow> Vector2D \<Rightarrow> Vector2D" where
  "p + q = Vec (vx p + vx q) (vy p + vy q)"

definition minus_Vector2D :: "Vector2D \<Rightarrow> Vector2D \<Rightarrow> Vector2D" where
  "p - q = Vec (vx p - vx q) (vy p - vy q)"

definition uminus_Vector2D :: "Vector2D \<Rightarrow> Vector2D" where
  "- p = Vec (- vx p) (- vy p)"

instance
  by standard (simp_all add: zero_Vector2D_def plus_Vector2D_def minus_Vector2D_def uminus_Vector2D_def)

end

lemma vec_simps [simp]:
  "vx (p + q) = vx p + vx q" "vy (p + q) = vy p + vy q" "vx (p - q) = vx p - vx q" "vy (p - q) = vy p - vy q"
  "vx 0 = 0" "vy 0 = 0"
  by (simp_all add: plus_Vector2D_def minus_Vector2D_def zero_Vector2D_def)

lemma vec_eqI: "vx p = vx q \<Longrightarrow> vy p = vy q \<Longrightarrow> p = q"
  by (cases p; cases q) simp

definition ElementMax :: "Vector2D \<Rightarrow> Vector2D \<Rightarrow> Vector2D" where
  "ElementMax lhs rhs = Vec (max (vx lhs) (vx rhs)) (max (vy lhs) (vy rhs))"

definition ElementMin :: "Vector2D \<Rightarrow> Vector2D \<Rightarrow> Vector2D" where
  "ElementMin lhs rhs = Vec (min (vx lhs) (vx rhs)) (min (vy lhs) (vy rhs))"

datatype Rectangle = Rect (rpos: Vector2D) (rsize: Vector2D)

text \<open>The operator \<open>&\<close> of two rectangles.\<close>

definition rect_and :: "Rectangle \<Rightarrow> Rectangle \<Rightarrow> Rectangle" where
  "rect_and lhs rhs =
     (let lhs_end = rpos lhs + rsize lhs; rhs_end = rpos rhs + rsize rhs
      in if vx lhs_end < vx (rpos rhs) \<or> vy lhs_end < vy (rpos rhs) \<or>
            vx rhs_end < vx (rpos lhs) \<or> vy rhs_end < vy (rpos lhs)
         then Rect (Vec 0 0) (Vec 0 0)
         else let new_pos = ElementMax (rpos lhs) (rpos rhs);
                  new_size = ElementMin lhs_end rhs_end - new_pos
              in Rect new_pos new_size)"

definition in_rect :: "Vector2D \<Rightarrow> Rectangle \<Rightarrow> bool" where
  "in_rect p r \<longleftrightarrow> vx (rpos r) \<le> vx p \<and> vx p < vx (rpos r) + vx (rsize r) \<and>
     vy (rpos r) \<le> vy p \<and> vy p < vy (rpos r) + vy (rsize r)"

datatype PixelColor = Color (red: u8) (green: u8) (blue: u8)

definition ToColor :: "u32 \<Rightarrow> PixelColor" where
  "ToColor c = Color (ucast (drop_bit 16 c AND 0xff)) (ucast (drop_bit 8 c AND 0xff)) (ucast (c AND 0xff))"

definition kDesktopBGColor :: PixelColor where "kDesktopBGColor = Color 203 143 63"
definition kDesktopFGColor :: PixelColor where "kDesktopFGColor = Color 0 0 0"

subsection \<open>Drawing\<close>

type_synonym Drawing = "(Vector2D \<times> PixelColor) list"

definition FillRectangle :: "Vector2D \<Rightarrow> Vector2D \<Rightarrow> PixelColor \<Rightarrow> Drawing" where
  "FillRectangle pos sz c =
     concat (map (\<lambda>dy. map (\<lambda>dx. (pos + Vec dx dy, c)) [0..vx sz - 1]) [0..vy sz - 1])"

definition DrawRectangle :: "Vector2D \<Rightarrow> Vector2D \<Rightarrow> PixelColor \<Rightarrow> Drawing" where
  "DrawRectangle pos sz c =
     concat (map (\<lambda>dx. [(pos + Vec dx 0, c), (pos + Vec dx (vy sz - 1), c)]) [0..vx sz - 1]) @
     concat (map (\<lambda>dy. [(pos + Vec 0 dy, c), (pos + Vec (vx sz - 1) dy, c)]) [1..vy sz - 2])"

definition DrawDesktop :: "int \<Rightarrow> int \<Rightarrow> Drawing" where
  "DrawDesktop width height = FillRectangle (Vec 0 0) (Vec width height) kDesktopBGColor"

text \<open>A drawing on a writer, whose \<open>Write\<close> may leave the memory of the writer.\<close>

fun draw_on :: "('w \<Rightarrow> Vector2D \<Rightarrow> PixelColor \<Rightarrow> 'w option) \<Rightarrow> Drawing \<Rightarrow> 'w \<Rightarrow> 'w option" where
  "draw_on wr [] w = Some w"
| "draw_on wr ((p, c) # ds) w = (case wr w p c of None \<Rightarrow> None | Some w' \<Rightarrow> draw_on wr ds w')"

text \<open>The colour that a drawing leaves at a position, when it writes there.\<close>

definition drawn :: "Drawing \<Rightarrow> Vector2D \<Rightarrow> PixelColor option" where
  "drawn ds p = map_of (rev ds) p"

locale pixel_writer =
  fixes wf :: "'w \<Rightarrow> bool" and extent :: "'w \<Rightarrow> Rectangle"
    and wr :: "'w \<Rightarrow> Vector2D \<Rightarrow> PixelColor \<Rightarrow> 'w option"
    and pix :: "'w \<Rightarrow> Vector2D \<Rightarrow> PixelColor"
  assumes write_ok: "wf w \<Longrightarrow> in_rect p (extent w) \<Longrightarrow>
    \<exists>w'. wr w p c = Some w' \<and> wf w' \<and> extent w' = extent w \<and>
      (\<forall>q. in_rect q (extent w) \<longrightarrow> pix w' q = (if q = p then c else pix w q))"
begin

lemma draw_ok:
  assumes "wf w" and "\<forall>(p, c) \<in> set ds. in_rect p (extent w)"
  shows "\<exists>w'. draw_on wr ds w = Some w' \<and> wf w' \<and> extent w' = extent w \<and>
    (\<forall>q. in_rect q (extent w) \<longrightarrow> pix w' q = (case drawn ds q of None \<Rightarrow> pix w q | Some c \<Rightarrow> c))"
  using assms
proof (induction ds arbitrary: w)
  case (Cons d ds)
  obtain p c where d: "d = (p, c)" by (cases d)
  have p: "in_rect p (extent w)" using Cons.prems(2) d by simp
  from write_ok[OF Cons.prems(1) p, of c] obtain w1 where 1: "wr w p c = Some w1" "wf w1" "extent w1 = extent w"
    "\<forall>q. in_rect q (extent w) \<longrightarrow> pix w1 q = (if q = p then c else pix w q)" by blast
  have "\<forall>(p, c) \<in> set ds. in_rect p (extent w1)" using Cons.prems(2) 1(3) by simp
  from Cons.IH[OF 1(2) this] obtain w2 where 2: "draw_on wr ds w1 = Some w2" "wf w2" "extent w2 = extent w"
    "\<forall>q. in_rect q (extent w) \<longrightarrow> pix w2 q = (case drawn ds q of None \<Rightarrow> pix w1 q | Some c \<Rightarrow> c)"
    unfolding 1(3) by blast
  have "drawn (d # ds) q = (case drawn ds q of None \<Rightarrow> if q = p then Some c else None | Some c \<Rightarrow> Some c)" for q
    by (simp add: drawn_def d map_add_def split: option.split)
  then show ?case using 1(1,4) 2 d by (intro exI[of _ w2]) (auto split: option.split)
qed (simp add: drawn_def)

end

subsection \<open>Frame buffers\<close>

text \<open>A value outside the enumeration reaches the code from the boot loader, hence the third constructor.\<close>

datatype PixelFormat = kPixelRGBResv8BitPerColor | kPixelBGRResv8BitPerColor | other_PixelFormat nat

definition BytesPerPixel :: "PixelFormat \<Rightarrow> int" where
  "BytesPerPixel f = (case f of kPixelRGBResv8BitPerColor \<Rightarrow> 4 | kPixelBGRResv8BitPerColor \<Rightarrow> 4 | _ \<Rightarrow> - 1)"

text \<open>\<open>frame_buffer\<close> is the memory that the pointer leads to, \<open>None\<close> the null pointer.\<close>

record FrameBufferConfig =
  frame_buffer :: "u8 list option"
  pixels_per_scan_line :: u32
  horizontal_resolution :: u32
  vertical_resolution :: u32
  pixel_format :: PixelFormat

definition PixelAt :: "FrameBufferConfig \<Rightarrow> Vector2D \<Rightarrow> nat" where
  "PixelAt config pos = unat (4 * (pixels_per_scan_line config * of_int (vy pos) + of_int (vx pos)))"

definition store_bytes :: "FrameBufferConfig \<Rightarrow> nat \<Rightarrow> u8 list \<Rightarrow> FrameBufferConfig option" where
  "store_bytes fb i bs = (case frame_buffer fb of
     None \<Rightarrow> None
   | Some m \<Rightarrow> if i + length bs \<le> length m then Some (fb\<lparr>frame_buffer := Some (blit i bs m)\<rparr>) else None)"

definition color_bytes :: "PixelFormat \<Rightarrow> PixelColor \<Rightarrow> u8 list option" where
  "color_bytes f c = (case f of
     kPixelRGBResv8BitPerColor \<Rightarrow> Some [red c, green c, blue c]
   | kPixelBGRResv8BitPerColor \<Rightarrow> Some [blue c, green c, red c]
   | _ \<Rightarrow> None)"

text \<open>\<open>Write\<close> of the writer class that \<open>Initialize\<close> chose for the format.\<close>

definition FrameBuffer_Write :: "FrameBufferConfig \<Rightarrow> Vector2D \<Rightarrow> PixelColor \<Rightarrow> FrameBufferConfig option" where
  "FrameBuffer_Write fb pos c = (case color_bytes (pixel_format fb) c of
     None \<Rightarrow> None | Some bs \<Rightarrow> store_bytes fb (PixelAt fb pos) bs)"

definition PrimitivelyWritePixel :: "FrameBufferConfig \<Rightarrow> int \<Rightarrow> int \<Rightarrow> PixelColor \<Rightarrow> (FrameBufferConfig \<times> int) option" where
  "PrimitivelyWritePixel config x y c =
     (let pixel_position = sint (pixels_per_scan_line config * of_int y + of_int x :: u32)
      in case color_bytes (pixel_format config) c of
           None \<Rightarrow> Some (config, - 1)
         | Some bs \<Rightarrow> if pixel_position < 0 then None
             else map_option (\<lambda>fb. (fb, 0)) (store_bytes config (nat (4 * pixel_position)) bs))"

definition FrameAddrAt :: "Vector2D \<Rightarrow> FrameBufferConfig \<Rightarrow> nat" where
  "FrameAddrAt pos config =
     unat (of_int (BytesPerPixel (pixel_format config)) *
       (pixels_per_scan_line config * of_int (vy pos) + of_int (vx pos)) :: u32)"

definition BytesPerScanLine :: "FrameBufferConfig \<Rightarrow> int" where
  "BytesPerScanLine config = sint (of_int (BytesPerPixel (pixel_format config)) * pixels_per_scan_line config :: u32)"

definition FrameBufferSize :: "FrameBufferConfig \<Rightarrow> Vector2D" where
  "FrameBufferSize config = Vec (sint (horizontal_resolution config)) (sint (vertical_resolution config))"

definition FrameBuffer_Initialize :: "FrameBufferConfig \<Rightarrow> FrameBufferConfig \<times> Error_Code" where
  "FrameBuffer_Initialize config =
     (let bytes_per_pixel = BytesPerPixel (pixel_format config)
      in if bytes_per_pixel \<le> 0 then (config, kUnknownPixelFormat)
         else ((case frame_buffer config of
             Some _ \<Rightarrow> config
           | None \<Rightarrow> config\<lparr>frame_buffer := Some (replicate
               (unat (of_int bytes_per_pixel * horizontal_resolution config * vertical_resolution config)) 0),
               pixels_per_scan_line := horizontal_resolution config\<rparr>), kSuccess))"

text \<open>The loops over the lines; an offset is relative to the start of its buffer.\<close>

fun copy_lines :: "nat \<Rightarrow> int \<Rightarrow> int \<Rightarrow> u8 list \<Rightarrow> int \<Rightarrow> int \<Rightarrow> u8 list \<Rightarrow> int \<Rightarrow> u8 list option" where
  "copy_lines 0 dst dst_line m src src_line s n = Some m"
| "copy_lines (Suc k) dst dst_line m src src_line s n =
     (if n < 0 \<or> dst < 0 \<or> src < 0 \<or> int (length m) < dst + n \<or> int (length s) < src + n then None
      else copy_lines k (dst + dst_line) dst_line (blit (nat dst) (take (nat n) (drop (nat src) s)) m)
             (src + src_line) src_line s n)"

definition FrameBuffer_Copy ::
  "FrameBufferConfig \<Rightarrow> Vector2D \<Rightarrow> FrameBufferConfig \<Rightarrow> Rectangle \<Rightarrow> (FrameBufferConfig \<times> Error_Code) option" where
  "FrameBuffer_Copy fb dst_pos src src_area =
     (if pixel_format fb \<noteq> pixel_format src then Some (fb, kUnknownPixelFormat)
      else let bytes_per_pixel = BytesPerPixel (pixel_format fb)
      in if bytes_per_pixel \<le> 0 then Some (fb, kUnknownPixelFormat)
      else let src_area_shifted = Rect dst_pos (rsize src_area);
               src_outline = Rect (dst_pos - rpos src_area) (FrameBufferSize src);
               dst_outline = Rect (Vec 0 0) (FrameBufferSize fb);
               copy_area = rect_and (rect_and dst_outline src_outline) src_area_shifted;
               src_start_pos = rpos copy_area - (dst_pos - rpos src_area)
      in case (frame_buffer fb, frame_buffer src) of
           (Some m, Some s) \<Rightarrow>
             map_option (\<lambda>m'. (fb\<lparr>frame_buffer := Some m'\<rparr>, kSuccess))
               (copy_lines (nat (vy (rsize copy_area)))
                  (int (FrameAddrAt (rpos copy_area) fb)) (BytesPerScanLine fb) m
                  (int (FrameAddrAt src_start_pos src)) (BytesPerScanLine src) s
                  (bytes_per_pixel * vx (rsize copy_area)))
         | _ \<Rightarrow> None)"

text \<open>In one buffer the source is what the lines before have left; \<open>memcpy\<close> is undefined for areas that overlap.\<close>

fun move_lines :: "nat \<Rightarrow> int \<Rightarrow> int \<Rightarrow> int \<Rightarrow> int \<Rightarrow> u8 list \<Rightarrow> u8 list option" where
  "move_lines 0 dst src line n m = Some m"
| "move_lines (Suc k) dst src line n m =
     (if n < 0 \<or> dst < 0 \<or> src < 0 \<or> int (length m) < dst + n \<or> int (length m) < src + n \<or>
         (dst < src + n \<and> src < dst + n) then None
      else move_lines k (dst + line) (src + line) line n (blit (nat dst) (take (nat n) (drop (nat src) m)) m))"

definition FrameBuffer_Move :: "FrameBufferConfig \<Rightarrow> Vector2D \<Rightarrow> Rectangle \<Rightarrow> FrameBufferConfig option" where
  "FrameBuffer_Move fb dst_pos src =
     (let n = BytesPerPixel (pixel_format fb) * vx (rsize src); line = BytesPerScanLine fb; lines = nat (vy (rsize src))
      in case frame_buffer fb of
           None \<Rightarrow> None
         | Some m \<Rightarrow> map_option (\<lambda>m'. fb\<lparr>frame_buffer := Some m'\<rparr>)
             (if vy dst_pos < vy (rpos src)
              then move_lines lines (int (FrameAddrAt dst_pos fb)) (int (FrameAddrAt (rpos src) fb)) line n m
              else move_lines lines (int (FrameAddrAt (dst_pos + Vec 0 (vy (rsize src) - 1)) fb))
                     (int (FrameAddrAt (rpos src + Vec 0 (vy (rsize src) - 1)) fb)) (- line) n m))"

subsection \<open>Facts about rectangles and drawings\<close>

lemma in_rect_and: "in_rect p (rect_and r s) \<longleftrightarrow> in_rect p r \<and> in_rect p s"
  by (auto simp: rect_and_def in_rect_def Let_def ElementMax_def ElementMin_def)

lemma set_FillRectangle: "set (FillRectangle pos sz c) = {(p, c) | p. in_rect p (Rect pos sz)}"
proof -
  have "p \<in> fst ` set (FillRectangle pos sz c) \<longleftrightarrow> in_rect p (Rect pos sz)" for p
  proof -
    have eq: "p = pos + Vec dx dy \<longleftrightarrow> dx = vx p - vx pos \<and> dy = vy p - vy pos" for dx dy
      by (auto simp: vec_eqI)
    have "p \<in> fst ` set (FillRectangle pos sz c) \<longleftrightarrow> (\<exists>dy \<in> {0..vy sz - 1}. \<exists>dx \<in> {0..vx sz - 1}. p = pos + Vec dx dy)"
      by (force simp: FillRectangle_def)
    then show ?thesis unfolding eq by (auto simp: in_rect_def)
  qed
  moreover have "\<forall>d \<in> set (FillRectangle pos sz c). snd d = c" by (auto simp: FillRectangle_def)
  ultimately show ?thesis by (force simp: image_iff)
qed

lemma map_of_same: "(\<forall>(p, d) \<in> set ds. d = c) \<Longrightarrow> map_of ds q = (if q \<in> fst ` set ds then Some c else None)"
  by (induction ds) auto

lemma drawn_FillRectangle: "drawn (FillRectangle pos sz c) q = (if in_rect q (Rect pos sz) then Some c else None)"
  unfolding drawn_def by (subst map_of_same[where c = c]) (auto simp: set_FillRectangle image_iff)

lemma drawn_append: "drawn (ds @ es) q = (case drawn es q of None \<Rightarrow> drawn ds q | Some c \<Rightarrow> Some c)"
  by (simp add: drawn_def map_add_def split: option.split)

text \<open>The outline of a rectangle with a corner: exactly its border is drawn.\<close>

lemma drawn_DrawRectangle:
  assumes "1 \<le> vx sz" and "1 \<le> vy sz"
  shows "drawn (DrawRectangle pos sz c) q =
    (if in_rect q (Rect pos sz) \<and> \<not> in_rect q (Rect (pos + Vec 1 1) (sz - Vec 2 2)) then Some c else None)"
proof -
  have "q \<in> fst ` set (DrawRectangle pos sz c) \<longleftrightarrow>
      in_rect q (Rect pos sz) \<and> \<not> in_rect q (Rect (pos + Vec 1 1) (sz - Vec 2 2))"
  proof -
    have eq: "q = pos + Vec dx dy \<longleftrightarrow> dx = vx q - vx pos \<and> dy = vy q - vy pos" for dx dy
      by (auto simp: vec_eqI)
    have "q \<in> fst ` set (DrawRectangle pos sz c) \<longleftrightarrow>
        (\<exists>dx \<in> {0..vx sz - 1}. q = pos + Vec dx 0 \<or> q = pos + Vec dx (vy sz - 1)) \<or>
        (\<exists>dy \<in> {1..vy sz - 2}. q = pos + Vec 0 dy \<or> q = pos + Vec (vx sz - 1) dy)"
      unfolding DrawRectangle_def set_append set_concat image_Un Un_iff by (simp add: image_UN)
    also have "\<dots> \<longleftrightarrow> in_rect q (Rect pos sz) \<and> \<not> in_rect q (Rect (pos + Vec 1 1) (sz - Vec 2 2))"
    proof -
      define a b where "a = vx q - vx pos" and "b = vy q - vy pos"
      have "in_rect q (Rect pos sz) \<longleftrightarrow> 0 \<le> a \<and> a < vx sz \<and> 0 \<le> b \<and> b < vy sz"
        "in_rect q (Rect (pos + Vec 1 1) (sz - Vec 2 2)) \<longleftrightarrow> 1 \<le> a \<and> a < vx sz - 1 \<and> 1 \<le> b \<and> b < vy sz - 1"
        by (auto simp: in_rect_def a_def b_def)
      moreover have "(\<exists>dx \<in> {0..vx sz - 1}. dx = a \<and> 0 = b \<or> dx = a \<and> vy sz - 1 = b) \<or>
          (\<exists>dy \<in> {1..vy sz - 2}. 0 = a \<and> dy = b \<or> vx sz - 1 = a \<and> dy = b) \<longleftrightarrow>
          0 \<le> a \<and> a \<le> vx sz - 1 \<and> (b = 0 \<or> b = vy sz - 1) \<or> 1 \<le> b \<and> b \<le> vy sz - 2 \<and> (a = 0 \<or> a = vx sz - 1)"
        by auto
      moreover have "(0 \<le> a \<and> a \<le> w - 1 \<and> (b = 0 \<or> b = h - 1) \<or> 1 \<le> b \<and> b \<le> h - 2 \<and> (a = 0 \<or> a = w - 1)) \<longleftrightarrow>
          (0 \<le> a \<and> a < w \<and> 0 \<le> b \<and> b < h) \<and> \<not> (1 \<le> a \<and> a < w - 1 \<and> 1 \<le> b \<and> b < h - 1)"
        if "1 \<le> w" "1 \<le> h" for w h using that by presburger
      ultimately show ?thesis unfolding eq a_def[symmetric] b_def[symmetric] using assms by (simp only:)
    qed
    finally show ?thesis .
  qed
  then show ?thesis unfolding drawn_def
    by (subst map_of_same[where c = c]) (auto simp: DrawRectangle_def)
qed

subsection \<open>A well-formed frame buffer and its pixels\<close>

definition width :: "FrameBufferConfig \<Rightarrow> nat" where "width fb = unat (horizontal_resolution fb)"
definition height :: "FrameBufferConfig \<Rightarrow> nat" where "height fb = unat (vertical_resolution fb)"
definition stride :: "FrameBufferConfig \<Rightarrow> nat" where "stride fb = 4 * unat (pixels_per_scan_line fb)"

definition fb_ok :: "FrameBufferConfig \<Rightarrow> bool" where
  "fb_ok fb \<longleftrightarrow> pixel_format fb \<in> {kPixelRGBResv8BitPerColor, kPixelBGRResv8BitPerColor} \<and>
     4 * width fb \<le> stride fb \<and> stride fb * height fb < 2 ^ 31 \<and> stride fb < 2 ^ 31 \<and> height fb < 2 ^ 31 \<and>
     (\<exists>m. frame_buffer fb = Some m \<and> stride fb * height fb \<le> length m)"

definition fb_area :: "FrameBufferConfig \<Rightarrow> Rectangle" where
  "fb_area fb = Rect (Vec 0 0) (Vec (int (width fb)) (int (height fb)))"

definition pixel_offset :: "FrameBufferConfig \<Rightarrow> Vector2D \<Rightarrow> nat" where
  "pixel_offset fb p = stride fb * nat (vy p) + 4 * nat (vx p)"

definition pixel :: "FrameBufferConfig \<Rightarrow> Vector2D \<Rightarrow> PixelColor" where
  "pixel fb p = (let m = the (frame_buffer fb); i = pixel_offset fb p
     in if pixel_format fb = kPixelRGBResv8BitPerColor then Color (m ! i) (m ! (i + 1)) (m ! (i + 2))
        else Color (m ! (i + 2)) (m ! (i + 1)) (m ! i))"

lemma offset_word:
  assumes "fb_ok fb" and "0 \<le> vx p" and "0 \<le> vy p" and "vx p \<le> int (width fb)" and "vy p < int (height fb)"
  shows "unat (4 * (pixels_per_scan_line fb * of_int (vy p) + of_int (vx p)) :: u32) = pixel_offset fb p"
proof -
  let ?y = "nat (vy p)" and ?x = "nat (vx p)" and ?s = "unat (pixels_per_scan_line fb)"
  have s: "stride fb = 4 * ?s" by (simp add: stride_def)
  have ok: "4 * width fb \<le> stride fb" "stride fb * height fb < 2 ^ 31" using assms(1) by (simp_all add: fb_ok_def)
  have y: "?y + 1 \<le> height fb" and x: "4 * ?x \<le> stride fb" using assms ok by auto
  have "stride fb * ?y + stride fb \<le> stride fb * height fb"
    using mult_le_mono2[OF y, of "stride fb"] by simp
  then have b: "stride fb * ?y + 4 * ?x < 2 ^ 31" using x ok(2) by linarith
  have "(4 * (pixels_per_scan_line fb * of_int (vy p) + of_int (vx p)) :: u32) = of_nat (stride fb * ?y + 4 * ?x)"
    using assms(2,3) by (simp add: s algebra_simps flip: of_nat_nat)
  moreover have "unat (of_nat n :: u32) = n" if "n < 2 ^ 31" for n using that by (simp add: unat_of_nat)
  ultimately show ?thesis using b by (simp only: pixel_offset_def)
qed

lemma offset_bound:
  assumes "fb_ok fb" and "in_rect p (fb_area fb)"
  shows "pixel_offset fb p + 4 \<le> stride fb * height fb"
proof -
  have y: "nat (vy p) + 1 \<le> height fb" and x: "4 * nat (vx p) + 4 \<le> stride fb"
    using assms by (auto simp: in_rect_def fb_area_def fb_ok_def)
  have "stride fb * nat (vy p) + stride fb \<le> stride fb * height fb"
    using mult_le_mono2[OF y, of "stride fb"] by simp
  then show ?thesis using x by (simp add: pixel_offset_def)
qed

lemma offset_apart:
  assumes "fb_ok fb" and "in_rect p (fb_area fb)" and "in_rect q (fb_area fb)" and "p \<noteq> q"
  shows "pixel_offset fb p + 4 \<le> pixel_offset fb q \<or> pixel_offset fb q + 4 \<le> pixel_offset fb p"
proof -
  have x: "4 * nat (vx p) + 4 \<le> stride fb" "4 * nat (vx q) + 4 \<le> stride fb"
    using assms by (auto simp: in_rect_def fb_area_def fb_ok_def)
  have row: "nat (vy a) < nat (vy b) \<Longrightarrow> 4 * nat (vx a) + 4 \<le> stride fb \<Longrightarrow> pixel_offset fb a + 4 \<le> pixel_offset fb b" for a b
  proof -
    assume h: "nat (vy a) < nat (vy b)" "4 * nat (vx a) + 4 \<le> stride fb"
    have "stride fb * (nat (vy a) + 1) \<le> stride fb * nat (vy b)" by (intro mult_le_mono2) (use h(1) in linarith)
    then show ?thesis using h(2) by (simp add: pixel_offset_def)
  qed
  consider "nat (vy p) < nat (vy q)" | "nat (vy q) < nat (vy p)" | "nat (vy p) = nat (vy q)" by linarith
  then show ?thesis
  proof cases
    case 3
    then have "nat (vx p) \<noteq> nat (vx q)" using assms by (auto simp: in_rect_def fb_area_def intro: vec_eqI)
    then show ?thesis using 3 by (simp add: pixel_offset_def) linarith
  qed (use row x in auto)
qed

lemma FrameBuffer_Write_ok:
  assumes "fb_ok fb" and "in_rect p (fb_area fb)"
  shows "\<exists>fb'. FrameBuffer_Write fb p c = Some fb' \<and> fb_ok fb' \<and> fb_area fb' = fb_area fb \<and>
    (\<forall>q. in_rect q (fb_area fb) \<longrightarrow> pixel fb' q = (if q = p then c else pixel fb q))"
proof -
  obtain m where m: "frame_buffer fb = Some m" "stride fb * height fb \<le> length m" using assms(1) by (auto simp: fb_ok_def)
  obtain bs where bs: "color_bytes (pixel_format fb) c = Some bs" "length bs = 3"
      "bs = (if pixel_format fb = kPixelRGBResv8BitPerColor then [red c, green c, blue c] else [blue c, green c, red c])"
    using assms(1) by (auto simp: fb_ok_def color_bytes_def)
  let ?i = "pixel_offset fb p"
  define fb' where "fb' = fb\<lparr>frame_buffer := Some (blit ?i bs m)\<rparr>"
  have i: "?i + 4 \<le> length m" using offset_bound[OF assms] m(2) by simp
  have at: "PixelAt fb p = ?i"
    using offset_word[OF assms(1)] assms(2) by (simp add: PixelAt_def in_rect_def fb_area_def)
  have w: "FrameBuffer_Write fb p c = Some fb'"
    using bs(1,2) at i m(1) by (simp add: FrameBuffer_Write_def store_bytes_def fb'_def)
  have same: "stride fb' = stride fb" "width fb' = width fb" "height fb' = height fb" "fb_area fb' = fb_area fb"
    "pixel_offset fb' q = pixel_offset fb q"
    "frame_buffer fb' = Some (blit ?i bs m)" "pixel_format fb' = pixel_format fb" for q
    by (simp_all add: fb'_def stride_def width_def height_def fb_area_def pixel_offset_def)
  have "fb_ok fb'" using assms(1) m i bs(2) by (simp add: fb_ok_def same length_blit)
  moreover have "pixel fb' q = (if q = p then c else pixel fb q)" if q: "in_rect q (fb_area fb)" for q
  proof (cases "q = p")
    case True
    have "blit ?i bs m ! (?i + k) = bs ! k" if "k < 3" for k
      using that i bs(2) by (simp add: blit_def nth_append)
    from this[of 0] this[of 1] this[of 2] show ?thesis unfolding pixel_def Let_def same option.sel True using bs(3)
      by (cases "pixel_format fb = kPixelRGBResv8BitPerColor") (simp_all add: numeral_2_eq_2)
  next
    case False
    have "blit ?i bs m ! (pixel_offset fb q + k) = m ! (pixel_offset fb q + k)" if "k < 3" for k
      using offset_apart[OF assms(1) q assms(2) False] that i bs(2) offset_bound[OF assms(1) q] m(2)
      by (simp add: nth_blit) linarith?
    from this[of 0] this[of 1] this[of 2] show ?thesis using False m(1)
      unfolding pixel_def Let_def same option.sel by (simp add: numeral_2_eq_2)
  qed
  ultimately show ?thesis using w same(4) by blast
qed

interpretation fb_writer: pixel_writer fb_ok fb_area FrameBuffer_Write pixel
  by unfold_locales (rule FrameBuffer_Write_ok)

subsection \<open>Copying lines\<close>

definition lines_kept :: "nat \<Rightarrow> nat \<Rightarrow> nat \<Rightarrow> nat \<Rightarrow> u8 list \<Rightarrow> u8 list \<Rightarrow> bool" where
  "lines_kept k d l n m m' \<longleftrightarrow> length m' = length m \<and>
     (\<forall>i < length m. (\<forall>y < k. i < d + y * l \<or> d + y * l + n \<le> i) \<longrightarrow> m' ! i = m ! i)"

lemma copy_lines_ok:
  assumes "n \<le> dl" and "\<forall>y < k. d + y * dl + n \<le> length m \<and> s + y * sl + n \<le> length src"
  shows "\<exists>m'. copy_lines k (int d) (int dl) m (int s) (int sl) src (int n) = Some m' \<and> lines_kept k d dl n m m' \<and>
    (\<forall>y < k. \<forall>j < n. m' ! (d + y * dl + j) = src ! (s + y * sl + j))"
  using assms
proof (induction k arbitrary: d s m)
  case (Suc k)
  let ?row = "take n (drop s src)"
  have 0: "d + n \<le> length m" "s + n \<le> length src" using Suc.prems(2) by (auto dest: spec[of _ 0])
  have lr: "length ?row = n" using 0 by simp
  let ?m = "blit d ?row m"
  have lm: "length ?m = length m" using 0(1) lr by (simp add: length_blit)
  have nth: "?m ! i = (if d \<le> i \<and> i < d + n then src ! (s + (i - d)) else m ! i)" for i
    using nth_blit[of d ?row m i] 0 lr by auto
  have pr: "\<forall>y < k. d + dl + y * dl + n \<le> length ?m \<and> s + sl + y * sl + n \<le> length src"
  proof (intro allI impI)
    fix y assume "y < k"
    then show "d + dl + y * dl + n \<le> length ?m \<and> s + sl + y * sl + n \<le> length src"
      using Suc.prems(2)[rule_format, of "Suc y"] lm by (simp add: algebra_simps)
  qed
  from Suc.IH[OF Suc.prems(1) pr] obtain m' where m': "copy_lines k (int (d + dl)) (int dl) ?m (int (s + sl)) (int sl) src (int n) = Some m'"
    "lines_kept k (d + dl) dl n ?m m'" "\<forall>y < k. \<forall>j < n. m' ! (d + dl + y * dl + j) = src ! (s + sl + y * sl + j)" by blast
  have keep: "m' ! i = ?m ! i" if "i < length m" "\<forall>y < k. i < d + dl + y * dl \<or> d + dl + y * dl + n \<le> i" for i
    using m'(2) that lm by (simp add: lines_kept_def)
  have first: "m' ! (d + j) = src ! (s + j)" if "j < n" for j
    using keep[of "d + j"] nth[of "d + j"] that Suc.prems(1) 0(1) by simp
  have "lines_kept (Suc k) d dl n m m'"
    unfolding lines_kept_def
  proof (intro conjI allI impI)
    show "length m' = length m" using m'(2) lm by (simp add: lines_kept_def)
    fix i assume i: "i < length m" "\<forall>y < Suc k. i < d + y * dl \<or> d + y * dl + n \<le> i"
    have "\<forall>y < k. i < d + dl + y * dl \<or> d + dl + y * dl + n \<le> i"
    proof (intro allI impI)
      fix y assume "y < k"
      then show "i < d + dl + y * dl \<or> d + dl + y * dl + n \<le> i" using i(2)[rule_format, of "Suc y"] by (simp add: add.assoc)
    qed
    then show "m' ! i = m ! i" using keep[OF i(1)] nth[of i] i(2)[rule_format, of 0] by auto
  qed
  moreover have "m' ! (d + y * dl + j) = src ! (s + y * sl + j)" if "y < Suc k" "j < n" for y j
  proof (cases y)
    case (Suc z)
    then show ?thesis using m'(3)[rule_format, of z j] that by (simp add: add.assoc)
  qed (use first that in simp)
  ultimately show ?case using m'(1) 0 by (intro exI[of _ m']) simp
qed (simp add: lines_kept_def)

lemma move_lines_up:
  assumes "n \<le> l" and "d + n \<le> s" and "\<forall>y < k. s + y * l + n \<le> length m"
  shows "\<exists>m'. move_lines k (int d) (int s) (int l) (int n) m = Some m' \<and> lines_kept k d l n m m' \<and>
    (\<forall>y < k. \<forall>j < n. m' ! (d + y * l + j) = m ! (s + y * l + j))"
  using assms
proof (induction k arbitrary: d s m)
  case (Suc k)
  let ?row = "take n (drop s m)"
  have 0: "s + n \<le> length m" using Suc.prems(3) by (auto dest: spec[of _ 0])
  have lr: "length ?row = n" using 0 by simp
  let ?m = "blit d ?row m"
  have fit: "d + n \<le> length m" using 0 Suc.prems(2) by linarith
  have lm: "length ?m = length m" using fit lr by (simp add: length_blit)
  have nth: "?m ! i = (if d \<le> i \<and> i < d + n then m ! (s + (i - d)) else m ! i)" for i
    using nth_blit[of d ?row m i] 0 fit lr by auto
  have pr: "\<forall>y < k. s + l + y * l + n \<le> length ?m"
  proof (intro allI impI)
    fix y assume "y < k"
    then show "s + l + y * l + n \<le> length ?m" using Suc.prems(3)[rule_format, of "Suc y"] lm by (simp add: algebra_simps)
  qed
  have ds: "d + l + n \<le> s + l" using Suc.prems(2) by simp
  from Suc.IH[OF Suc.prems(1) ds pr] obtain m' where m': "move_lines k (int (d + l)) (int (s + l)) (int l) (int n) ?m = Some m'"
    "lines_kept k (d + l) l n ?m m'" "\<forall>y < k. \<forall>j < n. m' ! (d + l + y * l + j) = ?m ! (s + l + y * l + j)" by blast
  have keep: "m' ! i = ?m ! i" if "i < length m" "\<forall>y < k. i < d + l + y * l \<or> d + l + y * l + n \<le> i" for i
    using m'(2) that lm by (simp add: lines_kept_def)
  have "lines_kept (Suc k) d l n m m'"
    unfolding lines_kept_def
  proof (intro conjI allI impI)
    show "length m' = length m" using m'(2) lm by (simp add: lines_kept_def)
    fix i assume i: "i < length m" "\<forall>y < Suc k. i < d + y * l \<or> d + y * l + n \<le> i"
    have "\<forall>y < k. i < d + l + y * l \<or> d + l + y * l + n \<le> i"
    proof (intro allI impI)
      fix y assume "y < k"
      then show "i < d + l + y * l \<or> d + l + y * l + n \<le> i" using i(2)[rule_format, of "Suc y"] by (simp add: add.assoc)
    qed
    then show "m' ! i = m ! i" using keep[OF i(1)] nth[of i] i(2)[rule_format, of 0] by auto
  qed
  moreover have "m' ! (d + y * l + j) = m ! (s + y * l + j)" if "y < Suc k" "j < n" for y j
  proof (cases y)
    case 0
    then show ?thesis using keep[of "d + j"] nth[of "d + j"] that Suc.prems(1) fit by simp
  next
    case (Suc z)
    then show ?thesis using m'(3)[rule_format, of z j] nth[of "s + l + z * l + j"] that Suc.prems(2) by (simp add: add.assoc)
  qed
  ultimately show ?case using m'(1) 0 fit Suc.prems(2) by (intro exI[of _ m']) simp
qed (simp add: lines_kept_def)

lemma move_lines_down:
  assumes "n \<le> l" and "s + n \<le> d" and "\<forall>y < k. d + y * l + n \<le> length m" and "dd = int d + (int k - 1) * int l"
    and "ss = int s + (int k - 1) * int l"
  shows "\<exists>m'. move_lines k dd ss (- int l) (int n) m = Some m' \<and> lines_kept k d l n m m' \<and>
    (\<forall>y < k. \<forall>j < n. m' ! (d + y * l + j) = m ! (s + y * l + j))"
  using assms(3-5)
proof (induction k arbitrary: m dd ss)
  case (Suc k)
  let ?d = "d + k * l" and ?s = "s + k * l"
  have dd: "dd = int ?d" "ss = int ?s" using Suc.prems(2,3) by simp_all
  let ?row = "take n (drop ?s m)"
  have fit: "?d + n \<le> length m" using Suc.prems(1) by simp
  have 0: "?s + n \<le> length m" using fit assms(2) by linarith
  have lr: "length ?row = n" using 0 by simp
  let ?m = "blit ?d ?row m"
  have lm: "length ?m = length m" using fit lr by (simp add: length_blit)
  have nth: "?m ! i = (if ?d \<le> i \<and> i < ?d + n then m ! (?s + (i - ?d)) else m ! i)" for i
    using nth_blit[of ?d ?row m i] 0 fit lr by auto
  have pr: "\<forall>y < k. d + y * l + n \<le> length ?m" using Suc.prems(1) lm by simp
  have nxt: "dd + - int l = int d + (int k - 1) * int l" "ss + - int l = int s + (int k - 1) * int l"
    unfolding dd by (simp_all add: algebra_simps)
  from Suc.IH[OF pr nxt] obtain m' where m': "move_lines k (dd + - int l) (ss + - int l) (- int l) (int n) ?m = Some m'"
    "lines_kept k d l n ?m m'" "\<forall>y < k. \<forall>j < n. m' ! (d + y * l + j) = ?m ! (s + y * l + j)" by blast
  have below: "y < k \<Longrightarrow> d + y * l + n \<le> ?d" for y
  proof -
    assume "y < k"
    then have "(y + 1) * l \<le> k * l" by (intro mult_le_mono1) simp
    then show ?thesis using assms(1) by simp
  qed
  have "lines_kept (Suc k) d l n m m'"
    using m'(2) lm nth by (auto simp: lines_kept_def less_Suc_eq all_conj_distrib)
  moreover have "m' ! (d + y * l + j) = m ! (s + y * l + j)" if "y < Suc k" "j < n" for y j
  proof (cases "y = k")
    case True
    have "\<forall>y < k. ?d + j < d + y * l \<or> d + y * l + n \<le> ?d + j" using below by (auto simp: trans_le_add1)
    moreover have "?d + j < length ?m" using that(2) fit lm by simp
    ultimately have "m' ! (?d + j) = ?m ! (?d + j)" using m'(2) unfolding lines_kept_def by blast
    then show ?thesis using nth[of "?d + j"] that(2) True by simp
  next
    case False
    then have y: "y < k" using that(1) by simp
    then have "s + y * l + j < ?d" using below[OF y] assms(2) that(2) by linarith
    then show ?thesis using m'(3) nth[of "s + y * l + j"] y that(2) by simp
  qed
  moreover have "move_lines (Suc k) dd ss (- int l) (int n) m = Some m'"
    using m'(1) 0 fit assms(2) unfolding dd by (simp del: of_nat_add of_nat_mult)
  ultimately show ?case by blast
qed (simp add: lines_kept_def)

subsection \<open>Copies and moves of pixels\<close>

lemma fb_sizes:
  assumes "fb_ok fb"
  shows "FrameBufferSize fb = Vec (int (width fb)) (int (height fb))" and "BytesPerScanLine fb = int (stride fb)"
    and "BytesPerPixel (pixel_format fb) = 4"
proof -
  have w: "sint (of_nat n :: u32) = int n" if "n < 2 ^ 31" for n
    using that by (subst signed_of_nat) (simp add: signed_take_bit_int_eq_self)
  have b: "width fb < 2 ^ 31" "height fb < 2 ^ 31" "stride fb < 2 ^ 31" using assms by (auto simp: fb_ok_def)
  show p: "BytesPerPixel (pixel_format fb) = 4" using assms by (auto simp: fb_ok_def BytesPerPixel_def)
  show "FrameBufferSize fb = Vec (int (width fb)) (int (height fb))"
    using w[OF b(1)] w[OF b(2)] by (simp add: FrameBufferSize_def width_def height_def)
  have "of_int 4 * pixels_per_scan_line fb = (of_nat (stride fb) :: u32)" by (simp add: stride_def)
  then show "BytesPerScanLine fb = int (stride fb)" using w[OF b(3)] p by (simp add: BytesPerScanLine_def)
qed

lemma FrameAddrAt_offset:
  assumes "fb_ok fb" and "0 \<le> vx p" and "0 \<le> vy p" and "vx p \<le> int (width fb)" and "vy p < int (height fb)"
  shows "FrameAddrAt p fb = pixel_offset fb p"
  using offset_word[OF assms] fb_sizes(3)[OF assms(1)] by (simp add: FrameAddrAt_def)

text \<open>The byte rows of a rectangle inside the buffer.\<close>

lemma area_rows:
  assumes "fb_ok fb" and "0 \<le> vx (rpos r)" "0 \<le> vy (rpos r)" and "0 \<le> vx (rsize r)"
    and "vx (rpos r) + vx (rsize r) \<le> int (width fb)" and "vy (rpos r) + vy (rsize r) \<le> int (height fb)"
  defines "w \<equiv> nat (vx (rsize r))" and "h \<equiv> nat (vy (rsize r))" and "b \<equiv> pixel_offset fb (rpos r)"
  shows "y < h \<Longrightarrow> b + y * stride fb + 4 * w \<le> stride fb * height fb" and "4 * w \<le> stride fb"
    and "x < w \<Longrightarrow> y < h \<Longrightarrow> pixel_offset fb (rpos r + Vec (int x) (int y)) = b + y * stride fb + 4 * x"
    and "in_rect p (fb_area fb) \<Longrightarrow> \<not> in_rect p r \<Longrightarrow> y < h \<Longrightarrow> c < 4 \<Longrightarrow>
      pixel_offset fb p + c < b + y * stride fb \<or> b + y * stride fb + 4 * w \<le> pixel_offset fb p + c"
proof -
  have st: "4 * width fb \<le> stride fb" using assms(1) by (simp add: fb_ok_def)
  have xw: "4 * nat (vx (rpos r)) + 4 * w \<le> stride fb" using st assms(2,4,5) by (simp add: w_def)
  then show "4 * w \<le> stride fb" by simp
  have row: "b + y * stride fb = stride fb * (nat (vy (rpos r)) + y) + 4 * nat (vx (rpos r))" for y
    by (simp add: b_def pixel_offset_def algebra_simps)
  { assume "y < h"
    then have "nat (vy (rpos r)) + y + 1 \<le> height fb" using assms(3,6) by (simp add: h_def)
    from mult_le_mono2[OF this, of "stride fb"] show "b + y * stride fb + 4 * w \<le> stride fb * height fb"
      unfolding row using xw by simp }
  { assume "x < w" "y < h"
    then show "pixel_offset fb (rpos r + Vec (int x) (int y)) = b + y * stride fb + 4 * x"
      unfolding row using assms(2,3) by (simp add: pixel_offset_def nat_add_distrib algebra_simps) }
  assume p: "in_rect p (fb_area fb)" "\<not> in_rect p r" "y < h" "c < 4"
  have px: "4 * nat (vx p) + 4 \<le> stride fb" "0 \<le> vx p" "0 \<le> vy p" using p(1) st by (auto simp: in_rect_def fb_area_def)
  have off: "pixel_offset fb p + c = stride fb * nat (vy p) + (4 * nat (vx p) + c)" by (simp add: pixel_offset_def)
  let ?Y = "nat (vy (rpos r)) + y"
  consider "nat (vy p) < ?Y" | "?Y < nat (vy p)" | "nat (vy p) = ?Y" by linarith
  then show "pixel_offset fb p + c < b + y * stride fb \<or> b + y * stride fb + 4 * w \<le> pixel_offset fb p + c"
  proof cases
    case 1
    then have "stride fb * (nat (vy p) + 1) \<le> stride fb * ?Y" by (intro mult_le_mono2) simp
    then show ?thesis unfolding row off using px(1) p(4) by (simp add: algebra_simps)
  next
    case 2
    then have "stride fb * (?Y + 1) \<le> stride fb * nat (vy p)" by (intro mult_le_mono2) simp
    then show ?thesis unfolding row off using xw by (simp add: algebra_simps)
  next
    case 3
    then have "vy (rpos r) \<le> vy p" "vy p < vy (rpos r) + vy (rsize r)" using p(3) px(3) assms(3) by (auto simp: h_def)
    then have "vx p < vx (rpos r) \<or> vx (rpos r) + vx (rsize r) \<le> vx p" using p(2) by (auto simp: in_rect_def)
    then have "4 * nat (vx p) + c < 4 * nat (vx (rpos r)) \<or> 4 * nat (vx (rpos r)) + 4 * w \<le> 4 * nat (vx p) + c"
      using px(2) assms(2,4) p(4) by (auto simp: w_def)
    then show ?thesis unfolding row off 3 by auto
  qed
qed

text \<open>Pixels of a buffer after its bytes in a rectangle have been taken from another place.\<close>

lemma pixels_replaced:
  assumes ok: "fb_ok fb" and src: "fb_ok src" "pixel_format src = pixel_format fb" "frame_buffer src = Some s" "frame_buffer fb = Some m"
    and r: "0 \<le> vx (rpos r)" "0 \<le> vy (rpos r)" "0 \<le> vx (rsize r)"
      "vx (rpos r) + vx (rsize r) \<le> int (width fb)" "vy (rpos r) + vy (rsize r) \<le> int (height fb)"
    and q: "0 \<le> vx q" "0 \<le> vy q" "vx q + vx (rsize r) \<le> int (width src)" "vy q + vy (rsize r) \<le> int (height src)"
    and kept: "lines_kept (nat (vy (rsize r))) (pixel_offset fb (rpos r)) (stride fb) (4 * nat (vx (rsize r))) m m'"
    and new: "\<forall>y < nat (vy (rsize r)). \<forall>j < 4 * nat (vx (rsize r)).
      m' ! (pixel_offset fb (rpos r) + y * stride fb + j) = s ! (pixel_offset src q + y * stride src + j)"
    and fb': "fb' = fb\<lparr>frame_buffer := Some m'\<rparr>" and p: "in_rect p (fb_area fb)"
  shows "pixel fb' p = (if in_rect p r then pixel src (q + (p - rpos r)) else pixel fb p)"
proof -
  have same: "pixel_format fb' = pixel_format fb" "frame_buffer fb' = Some m'" "pixel_offset fb' a = pixel_offset fb a" for a
    by (simp_all add: fb' pixel_offset_def stride_def)
  note A = area_rows[OF ok r]
  note B = area_rows[where r = "Rect q (rsize r)", OF src(1), simplified, OF q(1,2) r(3) q(3,4)]
  show ?thesis
  proof (cases "in_rect p r")
    case True
    define x y where "x = nat (vx p - vx (rpos r))" and "y = nat (vy p - vy (rpos r))"
    have xy: "x < nat (vx (rsize r))" "y < nat (vy (rsize r))" "p = rpos r + Vec (int x) (int y)" "p - rpos r = Vec (int x) (int y)"
      using True by (auto simp: in_rect_def x_def y_def intro!: vec_eqI)
    have "m' ! (pixel_offset fb p + c) = s ! (pixel_offset src (q + (p - rpos r)) + c)" if "c < 4" for c
    proof -
      have "4 * x + c < 4 * nat (vx (rsize r))" using xy(1) that by linarith
      then show ?thesis using new[rule_format, OF xy(2), of "4 * x + c"] A(3)[OF xy(1,2)] B(3)[OF xy(1,2)]
        unfolding xy(4) xy(3)[symmetric] by (simp add: xy(3)[symmetric] add.assoc)
    qed
    from this[of 0] this[of 1] this[of 2] show ?thesis using True src(2,3)
      unfolding pixel_def Let_def same by (simp add: numeral_2_eq_2)
  next
    case False
    have "m' ! (pixel_offset fb p + c) = m ! (pixel_offset fb p + c)" if "c < 4" for c
    proof -
      have "pixel_offset fb p + c < length m"
        using offset_bound[OF ok p] that ok src(4) by (auto simp: fb_ok_def)
      then show ?thesis using kept A(4)[OF p False _ that] unfolding lines_kept_def by blast
    qed
    from this[of 0] this[of 1] this[of 2] show ?thesis using False src(4)
      unfolding pixel_def Let_def same by (simp add: numeral_2_eq_2)
  qed
qed

lemma rect_and_size: "0 \<le> vx (rsize r) \<Longrightarrow> 0 \<le> vx (rsize s) \<Longrightarrow> 0 \<le> vx (rsize (rect_and r s))"
  by (simp add: rect_and_def Let_def ElementMax_def ElementMin_def)

lemma rect_and_bounds:
  assumes "0 < vy (rsize (rect_and r s))"
  shows "vx (rpos r) \<le> vx (rpos (rect_and r s))" "vx (rpos s) \<le> vx (rpos (rect_and r s))"
    "vy (rpos r) \<le> vy (rpos (rect_and r s))" "vy (rpos s) \<le> vy (rpos (rect_and r s))"
    "vx (rpos (rect_and r s)) + vx (rsize (rect_and r s)) \<le> vx (rpos r) + vx (rsize r)"
    "vx (rpos (rect_and r s)) + vx (rsize (rect_and r s)) \<le> vx (rpos s) + vx (rsize s)"
    "vy (rpos (rect_and r s)) + vy (rsize (rect_and r s)) \<le> vy (rpos r) + vy (rsize r)"
    "vy (rpos (rect_and r s)) + vy (rsize (rect_and r s)) \<le> vy (rpos s) + vy (rsize s)"
  using assms by (auto simp: rect_and_def Let_def ElementMax_def ElementMin_def split: if_splits)

lemma FrameBuffer_Copy_pixels:
  assumes ok: "fb_ok fb" "fb_ok src" "pixel_format fb = pixel_format src" and sz: "0 \<le> vx (rsize area)"
  shows "\<exists>fb'. FrameBuffer_Copy fb dst_pos src area = Some (fb', kSuccess) \<and> fb_ok fb' \<and> fb_area fb' = fb_area fb \<and>
    pixel_format fb' = pixel_format fb \<and>
    (\<forall>p. in_rect p (fb_area fb) \<longrightarrow> pixel fb' p =
      (if in_rect p (Rect dst_pos (rsize area)) \<and> in_rect (p - (dst_pos - rpos area)) (fb_area src)
       then pixel src (p - (dst_pos - rpos area)) else pixel fb p))"
proof -
  let ?d = "dst_pos - rpos area"
  let ?so = "Rect ?d (FrameBufferSize src)" and ?do = "Rect (Vec 0 0) (FrameBufferSize fb)" and ?sh = "Rect dst_pos (rsize area)"
  define A where "A = rect_and (rect_and ?do ?so) ?sh"
  obtain m s where ms: "frame_buffer fb = Some m" "frame_buffer src = Some s" "stride fb * height fb \<le> length m"
      "stride src * height src \<le> length s" using ok by (auto simp: fb_ok_def)
  have inA: "in_rect p A \<longleftrightarrow> in_rect p (fb_area fb) \<and> in_rect (p - ?d) (fb_area src) \<and> in_rect p ?sh" for p
    unfolding A_def in_rect_and fb_sizes(1)[OF ok(1)] fb_sizes(1)[OF ok(2)] by (auto simp: in_rect_def fb_area_def)
  have wA: "0 \<le> vx (rsize A)" unfolding A_def
    by (intro rect_and_size) (simp_all add: fb_sizes(1)[OF ok(1)] fb_sizes(1)[OF ok(2)] sz)
  let ?h = "nat (vy (rsize A))" and ?w = "nat (vx (rsize A))"
  have run: "FrameBuffer_Copy fb dst_pos src area = map_option (\<lambda>m'. (fb\<lparr>frame_buffer := Some m'\<rparr>, kSuccess))
      (copy_lines ?h (int (FrameAddrAt (rpos A) fb)) (int (stride fb)) m (int (FrameAddrAt (rpos A - ?d) src)) (int (stride src)) s
        (int (4 * ?w)))"
    using ok(3) ms(1,2) wA fb_sizes(2,3)[OF ok(1)] fb_sizes(2)[OF ok(2)]
    by (simp add: FrameBuffer_Copy_def Let_def A_def[symmetric])
  have fin: ?thesis if L: "copy_lines ?h (int (FrameAddrAt (rpos A) fb)) (int (stride fb)) m (int (FrameAddrAt (rpos A - ?d) src))
        (int (stride src)) s (int (4 * ?w)) = Some m'" "length m' = length m"
    and P: "\<forall>p. in_rect p (fb_area fb) \<longrightarrow> pixel (fb\<lparr>frame_buffer := Some m'\<rparr>) p = (if in_rect p A then pixel src (p - ?d) else pixel fb p)" for m'
  proof -
    let ?fb = "fb\<lparr>frame_buffer := Some m'\<rparr>"
    have "fb_ok ?fb" using ok(1) ms(1,3) L(2) by (simp add: fb_ok_def width_def height_def stride_def)
    moreover have "fb_area ?fb = fb_area fb" by (simp add: fb_area_def width_def height_def)
    ultimately show ?thesis using run L(1) P inA by (intro exI[of _ ?fb]) auto
  qed
  show ?thesis
  proof (cases "0 < vy (rsize A)")
    case False
    have "\<not> in_rect p A" for p using False by (simp add: in_rect_def)
    moreover have "fb\<lparr>frame_buffer := Some m\<rparr> = fb" using ms(1) by simp
    ultimately show ?thesis using False by (intro fin[of m]) simp_all
  next
    case True
    then have h2: "0 < vy (rsize (rect_and (rect_and ?do ?so) ?sh))" by (simp add: A_def)
    have h1: "0 < vy (rsize (rect_and ?do ?so))"
      using rect_and_bounds(3,7)[OF h2] h2 by linarith
    note b = rect_and_bounds[OF h2, folded A_def] rect_and_bounds[OF h1]
    have r: "0 \<le> vx (rpos A)" "0 \<le> vy (rpos A)" "vx (rpos A) + vx (rsize A) \<le> int (width fb)"
        "vy (rpos A) + vy (rsize A) \<le> int (height fb)"
      using b fb_sizes(1)[OF ok(1)] by simp_all
    have q: "0 \<le> vx (rpos A - ?d)" "0 \<le> vy (rpos A - ?d)" "vx (rpos A - ?d) + vx (rsize A) \<le> int (width src)"
        "vy (rpos A - ?d) + vy (rsize A) \<le> int (height src)"
      using b fb_sizes(1)[OF ok(2)] by simp_all
    have off: "FrameAddrAt (rpos A) fb = pixel_offset fb (rpos A)"
      "FrameAddrAt (rpos A - ?d) src = pixel_offset src (rpos A - ?d)"
      using FrameAddrAt_offset[OF ok(1), of "rpos A"] FrameAddrAt_offset[OF ok(2), of "rpos A - ?d"] r q wA True by linarith+
    note RA = area_rows[OF ok(1) r(1,2) wA r(3,4)]
    note RB = area_rows[where r = "Rect (rpos A - ?d) (rsize A)", OF ok(2), simplified, OF q(1,2)[simplified] wA q(3,4)[simplified]]
    have lim: "\<forall>y < ?h. pixel_offset fb (rpos A) + y * stride fb + 4 * ?w \<le> length m \<and>
        pixel_offset src (rpos A - ?d) + y * stride src + 4 * ?w \<le> length s"
      using RA(1) RB(1) ms(3,4) by (meson le_trans)
    from copy_lines_ok[OF RA(2) lim] obtain m' where m': "copy_lines ?h (int (FrameAddrAt (rpos A) fb)) (int (stride fb)) m
        (int (FrameAddrAt (rpos A - ?d) src)) (int (stride src)) s (int (4 * ?w)) = Some m'"
        "lines_kept ?h (pixel_offset fb (rpos A)) (stride fb) (4 * ?w) m m'"
        "\<forall>y < ?h. \<forall>j < 4 * ?w. m' ! (pixel_offset fb (rpos A) + y * stride fb + j) = s ! (pixel_offset src (rpos A - ?d) + y * stride src + j)"
      unfolding off by blast
    have sh: "rpos A - ?d + (p - rpos A) = p - ?d" for p by (rule vec_eqI) simp_all
    have "pixel (fb\<lparr>frame_buffer := Some m'\<rparr>) p = (if in_rect p A then pixel src (p - ?d) else pixel fb p)" if "in_rect p (fb_area fb)" for p
      using pixels_replaced[OF ok(1,2) ok(3)[symmetric] ms(2,1) r(1,2) wA r(3,4) q m'(2,3) refl that] unfolding sh .
    then show ?thesis using m'(2) by (intro fin[OF m'(1)]) (auto simp: lines_kept_def)
  qed
qed

text \<open>\<open>Move\<close> to other lines inside the buffer: the order of the lines keeps what is still to be read.\<close>

lemma FrameBuffer_Move_pixels:
  assumes ok: "fb_ok fb" and ne: "vy dst \<noteq> vy (rpos src)"
    and q: "0 \<le> vx (rpos src)" "0 \<le> vy (rpos src)" "0 \<le> vx (rsize src)" "0 < vy (rsize src)"
      "vx (rpos src) + vx (rsize src) \<le> int (width fb)" "vy (rpos src) + vy (rsize src) \<le> int (height fb)"
    and d: "0 \<le> vx dst" "0 \<le> vy dst" "vx dst + vx (rsize src) \<le> int (width fb)" "vy dst + vy (rsize src) \<le> int (height fb)"
  shows "\<exists>fb'. FrameBuffer_Move fb dst src = Some fb' \<and> fb_ok fb' \<and> fb_area fb' = fb_area fb \<and>
    (\<forall>p. in_rect p (fb_area fb) \<longrightarrow> pixel fb' p =
      (if in_rect p (Rect dst (rsize src)) then pixel fb (rpos src + (p - dst)) else pixel fb p))"
proof -
  obtain m where m: "frame_buffer fb = Some m" "stride fb * height fb \<le> length m" using ok by (auto simp: fb_ok_def)
  let ?h = "nat (vy (rsize src))" and ?n = "4 * nat (vx (rsize src))" and ?l = "stride fb"
  let ?D = "pixel_offset fb dst" and ?S = "pixel_offset fb (rpos src)"
  note RD = area_rows[where r = "Rect dst (rsize src)", OF ok, simplified, OF d(1,2) q(3) d(3,4)]
  note RS = area_rows[OF ok q(1,2,3,5,6)]
  have lim: "\<forall>y < ?h. ?D + y * ?l + ?n \<le> length m" "\<forall>y < ?h. ?S + y * ?l + ?n \<le> length m"
    using RD(1) RS(1) m(2) by (meson le_trans)+
  have n: "BytesPerPixel (pixel_format fb) * vx (rsize src) = int ?n" using fb_sizes(3)[OF ok] q(3) by simp
  have w: "4 * nat (vx a) + ?n \<le> ?l" if "0 \<le> vx a" "vx a + vx (rsize src) \<le> int (width fb)" for a
    using that ok q(3) by (simp add: fb_ok_def) linarith?
  have before: "pixel_offset fb a + ?n \<le> pixel_offset fb b"
    if "vy a < vy b" "0 \<le> vy a" "0 \<le> vx a" "vx a + vx (rsize src) \<le> int (width fb)" for a b
  proof -
    have "?l * (nat (vy a) + 1) \<le> ?l * nat (vy b)" using that by (intro mult_le_mono2) linarith
    then show ?thesis using w[OF that(3,4)] by (simp add: pixel_offset_def algebra_simps)
  qed
  have off: "FrameAddrAt dst fb = ?D" "FrameAddrAt (rpos src) fb = ?S"
    using FrameAddrAt_offset[OF ok, of dst] FrameAddrAt_offset[OF ok, of "rpos src"] d q by linarith+
  have last: "int (FrameAddrAt (a + Vec 0 (vy (rsize src) - 1)) fb) = int (pixel_offset fb a) + (int ?h - 1) * int ?l"
    if "0 \<le> vx a" "0 \<le> vy a" "vx a + vx (rsize src) \<le> int (width fb)" "vy a + vy (rsize src) \<le> int (height fb)" for a
  proof -
    have "FrameAddrAt (a + Vec 0 (vy (rsize src) - 1)) fb = pixel_offset fb (a + Vec 0 (vy (rsize src) - 1))"
      using that q by (intro FrameAddrAt_offset[OF ok]) simp_all
    also have "int \<dots> = int (pixel_offset fb a) + (int ?h - 1) * int ?l"
      using that q by (simp add: pixel_offset_def algebra_simps nat_add_distrib)
    finally show ?thesis by simp
  qed
  have "\<exists>m'. FrameBuffer_Move fb dst src = Some (fb\<lparr>frame_buffer := Some m'\<rparr>) \<and> lines_kept ?h ?D ?l ?n m m' \<and>
    (\<forall>y < ?h. \<forall>j < ?n. m' ! (?D + y * ?l + j) = m ! (?S + y * ?l + j))"
  proof (cases "vy dst < vy (rpos src)")
    case True
    from move_lines_up[OF RD(2) before[OF True d(2,1,3)] lim(2)] obtain m' where
      "move_lines ?h (int ?D) (int ?S) (int ?l) (int ?n) m = Some m'" "lines_kept ?h ?D ?l ?n m m'"
      "\<forall>y < ?h. \<forall>j < ?n. m' ! (?D + y * ?l + j) = m ! (?S + y * ?l + j)" by blast
    then show ?thesis using True m(1) fb_sizes(2)[OF ok] off
      by (intro exI[of _ m']) (simp only: FrameBuffer_Move_def Let_def n option.case option.map if_True simp_thms)
  next
    case False
    then have sd: "vy (rpos src) < vy dst" using ne by simp
    from move_lines_down[OF RD(2) before[OF sd q(2,1,5)] lim(1) last[OF d] last[OF q(1,2,5,6)]] obtain m' where
      "move_lines ?h (int (FrameAddrAt (dst + Vec 0 (vy (rsize src) - 1)) fb)) (int (FrameAddrAt (rpos src + Vec 0 (vy (rsize src) - 1)) fb))
         (- int ?l) (int ?n) m = Some m'" "lines_kept ?h ?D ?l ?n m m'"
      "\<forall>y < ?h. \<forall>j < ?n. m' ! (?D + y * ?l + j) = m ! (?S + y * ?l + j)" by blast
    then show ?thesis using False m(1) fb_sizes(2)[OF ok]
      by (intro exI[of _ m']) (simp only: FrameBuffer_Move_def Let_def n option.case option.map if_False simp_thms)
  qed
  then obtain m' where m': "FrameBuffer_Move fb dst src = Some (fb\<lparr>frame_buffer := Some m'\<rparr>)" "lines_kept ?h ?D ?l ?n m m'"
    "\<forall>y < ?h. \<forall>j < ?n. m' ! (?D + y * ?l + j) = m ! (?S + y * ?l + j)" by blast
  let ?fb = "fb\<lparr>frame_buffer := Some m'\<rparr>"
  have "fb_ok ?fb" using ok m m'(2) by (simp add: fb_ok_def width_def height_def stride_def lines_kept_def)
  moreover have "fb_area ?fb = fb_area fb" by (simp add: fb_area_def width_def height_def)
  moreover have "pixel ?fb p = (if in_rect p (Rect dst (rsize src)) then pixel fb (rpos src + (p - dst)) else pixel fb p)"
    if "in_rect p (fb_area fb)" for p
    using pixels_replaced[where r = "Rect dst (rsize src)", OF ok ok refl m(1) m(1), simplified, OF d(1,2) q(3) d(3,4) q(1,2,5,6)
        m'(2,3) refl that] by simp
  ultimately show ?thesis using m'(1) by blast
qed

end
