(* ===== verification/Font.thy ===== *)
theory Font
  imports Graphics
begin

text \<open>
  UTF-8 and glyphs: \<^verbatim>\<open>kernel/lang/font.cpp\<close>, and \<open>ConvertUTF32toUTF8\<close> of \<^verbatim>\<open>kernel/terminal.cpp\<close>.
  The two glyph tables are files that the build makes; with the FreeType library they are the parameter \<open>Fonts\<close>.
  A C string is the memory from its first character on, as a list that holds the terminating zero; reading past the
  list is \<open>None\<close>, and so is a loop that makes no progress.
\<close>

subsection \<open>UTF-8\<close>

definition CountUTF8Size :: "u8 \<Rightarrow> nat" where
  "CountUTF8Size c =
     (if c < 0x80 then 1
      else if 0xc0 \<le> c \<and> c < 0xe0 then 2
      else if 0xe0 \<le> c \<and> c < 0xf0 then 3
      else if 0xf0 \<le> c \<and> c < 0xf8 then 4
      else 0)"

text \<open>\<open>static_cast<char32_t>\<close> of a \<open>char\<close>, which is signed.\<close>

definition char32 :: "u8 \<Rightarrow> u32" where "char32 c = scast c"

definition ConvertUTF8To32 :: "u8 list \<Rightarrow> (u32 \<times> nat) option" where
  "ConvertUTF8To32 s = (case s of
     [] \<Rightarrow> None
   | c # _ \<Rightarrow>
      (let n = CountUTF8Size c in
       if n = 0 then Some (0, 0)
       else if length s < n then None
       else if n = 1 then Some (char32 c, 1)
       else if n = 2 then Some (push_bit 6 (char32 c AND 0x1f) OR (char32 (s ! 1) AND 0x3f), 2)
       else if n = 3 then Some (push_bit 12 (char32 c AND 0x0f) OR push_bit 6 (char32 (s ! 1) AND 0x3f)
          OR (char32 (s ! 2) AND 0x3f), 3)
       else Some (push_bit 18 (char32 c AND 0x07) OR push_bit 12 (char32 (s ! 1) AND 0x3f)
          OR push_bit 6 (char32 (s ! 2) AND 0x3f) OR (char32 (s ! 3) AND 0x3f), 4)))"

definition ConvertUTF32toUTF8 :: "u32 \<Rightarrow> u8 list" where
  "ConvertUTF32toUTF8 c =
     (let b = (\<lambda>k. ucast (drop_bit k c) :: u8) in
      if c \<le> 0x7f then [b 0]
      else if c \<le> 0x07ff then [0xc0 OR b 6, 0x80 OR (b 0 AND 0x3f)]
      else if c \<le> 0xffff then [0xe0 OR b 12, 0x80 OR (b 6 AND 0x3f), 0x80 OR (b 0 AND 0x3f)]
      else [0xf0 OR b 18, 0x80 OR (b 12 AND 0x3f), 0x80 OR (b 6 AND 0x3f), 0x80 OR (b 0 AND 0x3f)])"

subsection \<open>Glyph tables\<close>

text \<open>
  A table, and the glyph-sized memory behind it: the code compares the code point that it finds at the position of
  \<open>std::lower_bound\<close> without testing for the end of the table.
\<close>

record 'g GlyphTable =
  glyphs :: "(u32 \<times> 'g) list"
  behind :: "u32 \<times> 'g"

definition lower_bound :: "(u32 \<times> 'g) list \<Rightarrow> u32 \<Rightarrow> nat" where
  "lower_bound gs c = length (takeWhile (\<lambda>g. fst g < c) gs)"

definition GetGlyph :: "'g GlyphTable \<Rightarrow> u32 \<Rightarrow> 'g option" where
  "GetGlyph t c =
     (let i = lower_bound (glyphs t) c;
          candidate = (if i < length (glyphs t) then glyphs t ! i else behind t)
      in if fst candidate = c then Some (snd candidate) else None)"

text \<open>What FreeType returns for a character: \<open>None\<close> is an error of one of its functions.\<close>

record FT_Face =
  baseline :: int
  bitmap_left :: int
  bitmap_top :: int
  bitmap_rows :: int
  bitmap_width :: int
  bitmap_pitch :: int
  bitmap_buffer :: "int \<Rightarrow> u8"

record Fonts =
  hankaku_bin :: "u8 list GlyphTable"
  zenkaku_bin :: "u16 list GlyphTable"
  ft_render :: "u32 \<Rightarrow> FT_Face option"

definition GetGlyphFromHankakuBin :: "Fonts \<Rightarrow> u32 \<Rightarrow> u8 list option" where
  "GetGlyphFromHankakuBin fonts c = GetGlyph (hankaku_bin fonts) c"

definition GetGlyphFromZenkakuBin :: "Fonts \<Rightarrow> u32 \<Rightarrow> u16 list option" where
  "GetGlyphFromZenkakuBin fonts c = GetGlyph (zenkaku_bin fonts) c"

definition IsHankaku :: "Fonts \<Rightarrow> u32 \<Rightarrow> bool" where
  "IsHankaku fonts c =
     (if GetGlyphFromHankakuBin fonts c \<noteq> None then True
      else if GetGlyphFromZenkakuBin fonts c \<noteq> None then False
      else if c \<le> 0x7f then True
      else False)"

definition IsGlyphImplemented :: "Fonts \<Rightarrow> u32 \<Rightarrow> bool" where
  "IsGlyphImplemented fonts c \<longleftrightarrow> GetGlyphFromHankakuBin fonts c \<noteq> None \<or> GetGlyphFromZenkakuBin fonts c \<noteq> None"

subsection \<open>Drawing characters\<close>

text \<open>The two loops over the bits of a glyph of 16 lines.\<close>

definition draw_bits :: "('a::len word) list \<Rightarrow> Vector2D \<Rightarrow> PixelColor \<Rightarrow> Drawing" where
  "draw_bits glyph pos color = concat (map (\<lambda>dy. concat (map (\<lambda>dx.
     if bit (glyph ! nat dy) (nat (int LENGTH('a) - 1 - dx)) then [(pos + Vec dx dy, color)] else [])
       [0..int LENGTH('a) - 1])) [0..15])"

definition glitched_glyph :: "u8 list" where
  "glitched_glyph = concat (replicate 8 [0x33, 0xcc])"

definition WriteGlitched :: "Vector2D \<Rightarrow> PixelColor \<Rightarrow> Drawing" where
  "WriteGlitched pos color = draw_bits glitched_glyph pos color"

definition WriteAscii :: "Fonts \<Rightarrow> Vector2D \<Rightarrow> u8 \<Rightarrow> PixelColor \<Rightarrow> Drawing" where
  "WriteAscii fonts pos c color = (case GetGlyphFromHankakuBin fonts (char32 c) of
     Some glyph \<Rightarrow> draw_bits glyph pos color | None \<Rightarrow> WriteGlitched pos color)"

text \<open>One pixel of the FreeType fallback, drawn with the colours inverted.\<close>

definition ft_pixel :: "FT_Face \<Rightarrow> int \<Rightarrow> int \<Rightarrow> bool" where
  "ft_pixel face dx dy =
     (let dy_relative = dy - (baseline face - bitmap_top face)
      in if 0 \<le> dy_relative \<and> dy_relative < bitmap_rows face
         then (let q = bitmap_pitch face * dy_relative -
                       (if bitmap_pitch face < 0 then bitmap_pitch face * bitmap_rows face else 0);
                   dx_relative = dx - bitmap_left face
               in if 0 \<le> dx_relative \<and> dx_relative < bitmap_width face
                  then \<not> bit (bitmap_buffer face (q + dx_relative div 8)) (nat (7 - dx_relative mod 8))
                  else True)
         else True)"

definition WriteUnicodeChar :: "Fonts \<Rightarrow> Vector2D \<Rightarrow> u32 \<Rightarrow> PixelColor \<Rightarrow> Drawing \<times> Error_Code" where
  "WriteUnicodeChar fonts pos c color =
     (case GetGlyphFromHankakuBin fonts c of
        Some glyph \<Rightarrow> (draw_bits glyph pos color, kSuccess)
      | None \<Rightarrow>
     (case GetGlyphFromZenkakuBin fonts c of
        Some glyph \<Rightarrow> (draw_bits glyph pos color, kSuccess)
      | None \<Rightarrow>
     (case ft_render fonts c of
        None \<Rightarrow> (WriteGlitched pos color @ (if 0x7f < c then WriteGlitched (pos + Vec 8 0) color else []), kFreeTypeError)
      | Some face \<Rightarrow>
          (let background_width = (if c \<le> 0x7f then 8 else 16)
           in (concat (map (\<lambda>dy. concat (map (\<lambda>dx.
                 if ft_pixel face dx dy then [(pos + Vec dx dy, color)] else [])
                   [0..background_width - 1])) [0..15]), kSuccess)))))"

subsection \<open>Drawing strings\<close>

definition char_width :: "Fonts \<Rightarrow> u32 \<Rightarrow> int" where
  "char_width fonts c = (if IsHankaku fonts c then 1 else 2)"

function write_utf8 :: "Fonts \<Rightarrow> Vector2D \<Rightarrow> u8 list \<Rightarrow> PixelColor \<Rightarrow> int \<Rightarrow> (Drawing \<times> int) option" where
  "write_utf8 fonts pos s color x =
     (case s of
        [] \<Rightarrow> None
      | c # _ \<Rightarrow>
          if c = 0 then Some ([], x)
          else (case ConvertUTF8To32 s of
             None \<Rightarrow> None
           | Some (u, bytes) \<Rightarrow>
               if bytes = 0 then None
               else map_option (\<lambda>(ds, x'). (fst (WriteUnicodeChar fonts (pos + Vec (8 * x) 0) u color) @ ds, x'))
                      (write_utf8 fonts pos (drop bytes s) color (x + char_width fonts u))))"
  by pat_completeness auto
termination by (relation "measure (\<lambda>(_, _, s, _, _). length s)") auto

declare write_utf8.simps [simp del]

definition WriteUTF8String :: "Fonts \<Rightarrow> Vector2D \<Rightarrow> u8 list \<Rightarrow> PixelColor \<Rightarrow> (Drawing \<times> int) option" where
  "WriteUTF8String fonts pos s color = write_utf8 fonts pos s color 0"

fun WriteUTF32CharVecWithUpperLimit ::
  "Fonts \<Rightarrow> Vector2D \<Rightarrow> u32 list \<Rightarrow> PixelColor \<Rightarrow> int \<Rightarrow> int \<Rightarrow> Drawing \<times> int" where
  "WriteUTF32CharVecWithUpperLimit fonts pos [] color max_width x = ([], x)"
| "WriteUTF32CharVecWithUpperLimit fonts pos (c # s) color max_width x =
     (let new_x = x + char_width fonts c
      in if max_width < new_x then ([], x)
         else let (ds, x') = WriteUTF32CharVecWithUpperLimit fonts pos s color max_width new_x
              in (fst (WriteUnicodeChar fonts (pos + Vec (8 * x) 0) c color) @ ds, x'))"

fun WriteUTF32CharVec :: "Fonts \<Rightarrow> Vector2D \<Rightarrow> u32 list \<Rightarrow> PixelColor \<Rightarrow> int \<Rightarrow> Drawing \<times> int" where
  "WriteUTF32CharVec fonts pos [] color x = ([], x)"
| "WriteUTF32CharVec fonts pos (c # s) color x =
     (let (ds, x') = WriteUTF32CharVec fonts pos s color (x + char_width fonts c)
      in (fst (WriteUnicodeChar fonts (pos + Vec (8 * x) 0) c color) @ ds, x'))"

text \<open>The same for strings that end with a zero.\<close>

fun WriteUTF32String :: "Fonts \<Rightarrow> Vector2D \<Rightarrow> u32 list \<Rightarrow> PixelColor \<Rightarrow> int \<Rightarrow> (Drawing \<times> int) option" where
  "WriteUTF32String fonts pos [] color x = None"
| "WriteUTF32String fonts pos (c # s) color x =
     (if c = 0 then Some ([], x)
      else map_option (\<lambda>(ds, x'). (fst (WriteUnicodeChar fonts (pos + Vec (8 * x) 0) c color) @ ds, x'))
             (WriteUTF32String fonts pos s color (x + char_width fonts c)))"

fun WriteUTF32StringWithUpperLimit ::
  "Fonts \<Rightarrow> Vector2D \<Rightarrow> u32 list \<Rightarrow> PixelColor \<Rightarrow> int \<Rightarrow> int \<Rightarrow> (Drawing \<times> int) option" where
  "WriteUTF32StringWithUpperLimit fonts pos [] color max_width x = None"
| "WriteUTF32StringWithUpperLimit fonts pos (c # s) color max_width x =
     (if c = 0 then Some ([], x)
      else let new_x = x + char_width fonts c
      in if max_width < new_x then Some ([], x)
         else map_option (\<lambda>(ds, x'). (fst (WriteUnicodeChar fonts (pos + Vec (8 * x) 0) c color) @ ds, x'))
                (WriteUTF32StringWithUpperLimit fonts pos s color max_width new_x))"

subsection \<open>Encoding and decoding are inverse\<close>

lemma low_bits: "char32 c AND mask k = ucast (take_bit k c)" if "k \<le> 7"
  by (rule bit_eqI) (use that in \<open>auto simp: char32_def bit_and_iff bit_mask_iff bit_signed_iff bit_unsigned_iff bit_take_bit_iff min_def dest: bit_imp_le_length\<close>)

lemma masks: "(0x1f :: u32) = mask 5" "(0x0f :: u32) = mask 4" "(0x07 :: u32) = mask 3" "(0x3f :: u32) = mask 6" "(0x3f :: u8) = mask 6"
  by (simp_all add: mask_eq_exp_minus_1)

lemma byte_bits:
  "bit (ucast (drop_bit k (c :: u32)) :: u8) n \<longleftrightarrow> n < 8 \<and> bit c (k + n)"
  by (auto simp: bit_unsigned_iff bit_drop_bit_eq dest: bit_imp_le_length)

lemma lead_masks: "(0xc0 :: u8) = push_bit 6 (mask 2)" "(0xe0 :: u8) = push_bit 5 (mask 3)" "(0xf0 :: u8) = push_bit 4 (mask 4)"
  by (simp_all add: mask_eq_exp_minus_1)

lemma lead_low: "m = push_bit j (mask i) \<Longrightarrow> k \<le> j \<Longrightarrow> k \<le> 7 \<Longrightarrow> char32 (m OR x) AND mask k = ucast (take_bit k x)"
  by (rule bit_eqI) (auto simp: low_bits bit_unsigned_iff bit_take_bit_iff bit_or_iff bit_push_bit_iff)

lemma lead_value:
  assumes "m = push_bit j (mask i)" and "unat (x :: u8) < 2 ^ j" and "unat m + unat x < 256"
  shows "unat (m OR x) = unat m + unat x"
proof -
  have "\<not> bit m n \<or> \<not> bit x n" for n
    using word_bit_bound[OF _ assms(2), of n] by (auto simp: assms(1) bit_push_bit_iff)
  then have "m + x = m OR x" by (rule disjunctive_add)
  moreover have "unat (m + x) = (unat m + unat x) mod 256" by (simp add: unat_word_ariths)
  ultimately show ?thesis using assms(3) by simp
qed

lemma cont_low: "char32 (0x80 OR (b AND 0x3f)) AND mask 6 = ucast (take_bit 6 b)"
proof -
  have m: "(0x80 :: u8) = push_bit 7 (mask 1)" by simp
  have t: "b AND 0x3f = take_bit 6 b" by (simp only: masks take_bit_eq_mask)
  show ?thesis using lead_low[OF m, of 6 "take_bit 6 b"] unfolding t by simp
qed

lemma part_value: "unat (c :: u32) < 2 ^ (k + j) \<Longrightarrow> j \<le> 8 \<Longrightarrow> unat (ucast (drop_bit k c) :: u8) = unat c div 2 ^ k"
proof -
  assume h: "unat c < 2 ^ (k + j)" "j \<le> 8"
  have d: "unat c div 2 ^ k < 2 ^ j" using h(1) by (simp add: less_mult_imp_div_less power_add mult.commute)
  also have "(2::nat) ^ j \<le> 2 ^ 8" using h(2) by (rule power_increasing) simp
  finally have s: "unat c div 2 ^ k < 256" by simp
  have "unat (drop_bit k c) = unat c div 2 ^ k" by (simp add: unat_drop_bit_eq drop_bit_eq_div[of k "unat c"])
  then show ?thesis using s by (simp only: unsigned_ucast_eq) (simp add: take_bit_eq_mod)
qed

lemma utf8_roundtrip:
  assumes "unat c < 2 ^ 21"
  shows "ConvertUTF8To32 (ConvertUTF32toUTF8 c @ rest) = Some (c, length (ConvertUTF32toUTF8 c))"
proof -
  let ?b = "\<lambda>k. ucast (drop_bit k c) :: u8" and ?t = "\<lambda>k. 0x80 OR ((ucast (drop_bit k c) :: u8) AND 0x3f)"
  have pb: "bit (ucast (take_bit j (?b k)) :: u32) n \<longleftrightarrow> n < j \<and> bit c (k + n)" if "j \<le> 8" for k j n
    using that by (auto simp: bit_unsigned_iff bit_take_bit_iff bit_drop_bit_eq dest: bit_imp_le_length)
  have pb0: "bit (ucast (take_bit 6 (ucast c :: u8)) :: u32) n \<longleftrightarrow> n < 6 \<and> bit c n" for n
    using pb[of 6 0 n] by simp
  consider "unat c < 2 ^ 7" | "unat c < 2 ^ 11" "0x7f < c" | "unat c < 2 ^ 16" "0x7ff < c" | "0xffff < c"
    by (cases "unat c < 2 ^ 7"; cases "unat c < 2 ^ 11"; cases "unat c < 2 ^ 16") (auto simp: word_less_nat_alt)
  then show ?thesis
  proof cases
    case 1
    have e: "ConvertUTF32toUTF8 c = [ucast c]" using 1 by (simp add: ConvertUTF32toUTF8_def word_le_nat_alt)
    have "unat (ucast c :: u8) = unat c" using 1 by (simp add: unsigned_ucast_eq take_bit_eq_mod)
    then have "CountUTF8Size (ucast c) = 1" using 1 by (simp add: CountUTF8Size_def word_less_nat_alt)
    moreover have "char32 (ucast c) = c"
    proof (rule bit_eqI)
      fix n
      show "bit (char32 (ucast c)) n = bit c n"
        using word_bit_bound[OF _ 1, of n] word_bit_bound[OF _ 1, of 7]
        by (auto simp: char32_def bit_signed_iff bit_unsigned_iff min_def dest: bit_imp_le_length)
    qed
    ultimately show ?thesis by (simp add: e ConvertUTF8To32_def)
  next
    case 2
    have e: "ConvertUTF32toUTF8 c = [0xc0 OR ?b 6, ?t 0]"
      using 2 by (simp add: ConvertUTF32toUTF8_def word_le_nat_alt word_less_nat_alt)
    have b: "unat (?b 6) = unat c div 2 ^ 6" "unat (?b 6) < 2 ^ 5"
      using part_value[of c 6 5] 2(1) by (simp_all add: less_mult_imp_div_less)
    have "unat (0xc0 OR ?b 6) = 192 + unat (?b 6)" using lead_value[OF lead_masks(1), of "?b 6"] b by simp
    then have "CountUTF8Size (0xc0 OR ?b 6) = 2" using b by (simp add: CountUTF8Size_def word_less_nat_alt word_le_nat_alt)
    moreover have "push_bit 6 (ucast (take_bit 5 (?b 6))) OR ucast (take_bit 6 (?b 0)) = c"
    proof (rule bit_eqI)
      fix n
      show "bit (push_bit 6 (ucast (take_bit 5 (?b 6))) OR ucast (take_bit 6 (?b 0)) :: u32) n = bit c n"
        using word_bit_bound[OF _ 2(1), of n] by (cases "n < 6"; cases "n < 12"; cases "n < 18"; auto simp: pb pb0 bit_or_iff bit_push_bit_iff)
    qed
    ultimately show ?thesis
      by (simp add: e ConvertUTF8To32_def masks lead_low[OF lead_masks(1)] cont_low[unfolded masks])
  next
    case 3
    have e: "ConvertUTF32toUTF8 c = [0xe0 OR ?b 12, ?t 6, ?t 0]"
      using 3 by (simp add: ConvertUTF32toUTF8_def word_le_nat_alt word_less_nat_alt)
    have b: "unat (?b 12) = unat c div 2 ^ 12" "unat (?b 12) < 2 ^ 4"
      using part_value[of c 12 4] 3(1) by (simp_all add: less_mult_imp_div_less)
    have "unat (0xe0 OR ?b 12) = 224 + unat (?b 12)" using lead_value[OF lead_masks(2), of "?b 12"] b by simp
    then have "CountUTF8Size (0xe0 OR ?b 12) = 3" using b by (simp add: CountUTF8Size_def word_less_nat_alt word_le_nat_alt)
    moreover have "push_bit 12 (ucast (take_bit 4 (?b 12))) OR push_bit 6 (ucast (take_bit 6 (?b 6))) OR ucast (take_bit 6 (?b 0)) = c"
    proof (rule bit_eqI)
      fix n
      show "bit (push_bit 12 (ucast (take_bit 4 (?b 12))) OR push_bit 6 (ucast (take_bit 6 (?b 6))) OR ucast (take_bit 6 (?b 0)) :: u32) n = bit c n"
        using word_bit_bound[OF _ 3(1), of n] by (cases "n < 6"; cases "n < 12"; cases "n < 18"; auto simp: pb pb0 bit_or_iff bit_push_bit_iff)
    qed
    ultimately show ?thesis
      by (simp add: e ConvertUTF8To32_def masks lead_low[OF lead_masks(2)] cont_low[unfolded masks])
  next
    case 4
    have e: "ConvertUTF32toUTF8 c = [0xf0 OR ?b 18, ?t 12, ?t 6, ?t 0]"
      using 4 by (simp add: ConvertUTF32toUTF8_def word_le_nat_alt word_less_nat_alt)
    have b: "unat (?b 18) = unat c div 2 ^ 18" "unat (?b 18) < 2 ^ 3"
      using part_value[of c 18 3] assms by (simp_all add: less_mult_imp_div_less)
    have "unat (0xf0 OR ?b 18) = 240 + unat (?b 18)" using lead_value[OF lead_masks(3), of "?b 18"] b by simp
    then have "CountUTF8Size (0xf0 OR ?b 18) = 4" using b by (simp add: CountUTF8Size_def word_less_nat_alt word_le_nat_alt)
    moreover have "push_bit 18 (ucast (take_bit 3 (?b 18))) OR push_bit 12 (ucast (take_bit 6 (?b 12))) OR
        push_bit 6 (ucast (take_bit 6 (?b 6))) OR ucast (take_bit 6 (?b 0)) = c"
    proof (rule bit_eqI)
      fix n
      show "bit (push_bit 18 (ucast (take_bit 3 (?b 18))) OR push_bit 12 (ucast (take_bit 6 (?b 12))) OR
        push_bit 6 (ucast (take_bit 6 (?b 6))) OR ucast (take_bit 6 (?b 0)) :: u32) n = bit c n"
        using word_bit_bound[OF _ assms, of n] by (cases "n < 6"; cases "n < 12"; cases "n < 18"; auto simp: pb pb0 bit_or_iff bit_push_bit_iff)
    qed
    ultimately show ?thesis
      by (simp add: e ConvertUTF8To32_def masks lead_low[OF lead_masks(3)] cont_low[unfolded masks])
  qed
qed

text \<open>An encoded string, drawn: the width is the sum of the widths of its characters.\<close>

definition encode :: "u32 list \<Rightarrow> u8 list" where
  "encode cs = concat (map ConvertUTF32toUTF8 cs)"

fun string_drawing :: "Fonts \<Rightarrow> Vector2D \<Rightarrow> u32 list \<Rightarrow> PixelColor \<Rightarrow> int \<Rightarrow> Drawing" where
  "string_drawing fonts pos [] color x = []"
| "string_drawing fonts pos (c # cs) color x =
     fst (WriteUnicodeChar fonts (pos + Vec (8 * x) 0) c color) @ string_drawing fonts pos cs color (x + char_width fonts c)"

lemma encode_head:
  assumes "0 < unat c" and "unat c < 2 ^ 21"
  shows "\<exists>b bs. ConvertUTF32toUTF8 c = b # bs \<and> b \<noteq> 0"
proof -
  have "(0xc0 :: u8) OR x \<noteq> 0" "(0xe0 :: u8) OR x \<noteq> 0" "(0xf0 :: u8) OR x \<noteq> 0" for x by (simp_all add: or_eq_0_iff)
  moreover have "c \<le> 0x7f \<Longrightarrow> (ucast c :: u8) \<noteq> 0"
  proof
    assume "c \<le> 0x7f" "(ucast c :: u8) = 0"
    then have "unat (ucast c :: u8) = 0" "unat c < 256" by (simp_all add: word_le_nat_alt)
    then show False using assms(1) by (simp add: unsigned_ucast_eq take_bit_eq_mod)
  qed
  ultimately show ?thesis by (auto simp: ConvertUTF32toUTF8_def Let_def)
qed

lemma WriteUTF8String_encoded:
  assumes "\<forall>c \<in> set cs. 0 < unat c \<and> unat c < 2 ^ 21"
  shows "WriteUTF8String fonts pos (encode cs @ 0 # rest) color =
    Some (string_drawing fonts pos cs color 0, sum_list (map (char_width fonts) cs))"
proof -
  have "write_utf8 fonts pos (encode cs @ 0 # rest) color x =
      Some (string_drawing fonts pos cs color x, x + sum_list (map (char_width fonts) cs))" for x
    using assms
  proof (induction cs arbitrary: x)
    case Nil
    then show ?case by (subst write_utf8.simps) (simp add: encode_def)
  next
    case (Cons c cs)
    have c: "0 < unat c" "unat c < 2 ^ 21" using Cons.prems by auto
    obtain b bs where b: "ConvertUTF32toUTF8 c = b # bs" "b \<noteq> 0" using encode_head[OF c] by blast
    have e: "encode (c # cs) @ 0 # rest = b # bs @ encode cs @ 0 # rest" by (simp add: encode_def b)
    have d: "ConvertUTF8To32 (b # bs @ encode cs @ 0 # rest) = Some (c, Suc (length bs))"
      using utf8_roundtrip[OF c(2), of "encode cs @ 0 # rest"] by (simp add: b)
    show ?case unfolding e
      by (subst write_utf8.simps) (use Cons b(2) d in \<open>simp add: add.assoc\<close>)
  qed
  then show ?thesis by (simp add: WriteUTF8String_def)
qed

text \<open>The table look-up is a map look-up when the table is sorted and nothing behind it looks like the character.\<close>

lemma GetGlyph_map_of:
  assumes "sorted_wrt (<) (map fst (glyphs t))" and "fst (behind t) \<noteq> c"
  shows "GetGlyph t c = map_of (glyphs t) c"
proof -
  have "(let i = lower_bound gs c; k = (if i < length gs then gs ! i else b) in if fst k = c then Some (snd k) else None) = map_of gs c"
    if "sorted_wrt (<) (map fst gs)" "fst b \<noteq> c" for gs :: "(u32 \<times> 'a) list" and b
    using that
  proof (induction gs)
    case (Cons g gs)
    show ?case
    proof (cases "fst g < c")
      case True
      then have lb: "lower_bound (g # gs) c = Suc (lower_bound gs c)" and ne: "fst g \<noteq> c" by (auto simp: lower_bound_def)
      have m: "map_of (g # gs) c = map_of gs c" using ne by (cases g) simp
      show ?thesis unfolding lb m using Cons.IH[OF _ Cons.prems(2)] Cons.prems(1) by (cases "lower_bound gs c < length gs") (simp_all only: Let_def if_True if_False sorted_wrt.simps list.map simp_thms, simp_all split: if_splits)
    next
      case False
      have "fst g \<noteq> c \<Longrightarrow> map_of gs c = None"
        using Cons.prems(1) False by (fastforce simp: map_of_eq_None_iff)
      then show ?thesis using False by (auto simp: lower_bound_def Let_def)
    qed
  qed (simp add: lower_bound_def)
  then show ?thesis using assms by (simp add: GetGlyph_def)
qed

subsection \<open>Characters stay in their box\<close>

lemma draw_bits_box:
  "(p, c) \<in> set (draw_bits (glyph :: 'a::len word list) pos color) \<Longrightarrow> in_rect p (Rect pos (Vec (int LENGTH('a)) 16)) \<and> c = color"
  by (auto simp: draw_bits_def in_rect_def split: if_splits)

lemma WriteUnicodeChar_box:
  assumes "(p, d) \<in> set (fst (WriteUnicodeChar fonts pos c color))"
  shows "in_rect p (Rect pos (Vec (8 * char_width fonts c) 16)) \<and> d = color"
proof -
  have wide: "in_rect p (Rect pos (Vec 8 16)) \<Longrightarrow> in_rect p (Rect pos (Vec 16 16))"
    "in_rect p (Rect (pos + Vec 8 0) (Vec 8 16)) \<Longrightarrow> in_rect p (Rect pos (Vec 16 16))" by (auto simp: in_rect_def)
  show ?thesis
  proof (cases "GetGlyphFromHankakuBin fonts c")
    case (Some g)
    then show ?thesis using assms draw_bits_box[of p d g pos color] by (simp add: WriteUnicodeChar_def char_width_def IsHankaku_def)
  next
    case nh: None
    show ?thesis
    proof (cases "GetGlyphFromZenkakuBin fonts c")
      case (Some g)
      then show ?thesis using assms nh draw_bits_box[of p d g pos color]
        by (simp add: WriteUnicodeChar_def char_width_def IsHankaku_def)
    next
      case None
      have w: "char_width fonts c = (if c \<le> 0x7f then 1 else 2)" using nh None by (simp add: char_width_def IsHankaku_def)
      show ?thesis
      proof (cases "ft_render fonts c")
        case err: None
        have "(p, d) \<in> set (WriteGlitched pos color) \<or> 0x7f < c \<and> (p, d) \<in> set (WriteGlitched (pos + Vec 8 0) color)"
          using assms nh None err by (auto simp: WriteUnicodeChar_def split: if_splits)
        then show ?thesis
          using draw_bits_box[of p d glitched_glyph pos color] draw_bits_box[of p d glitched_glyph "pos + Vec 8 0" color] wide
          by (auto simp: WriteGlitched_def w)
      next
        case (Some face)
        then show ?thesis using assms nh None
          by (auto simp: WriteUnicodeChar_def Let_def w in_rect_def split: if_splits)
      qed
    qed
  qed
qed

lemma WriteUTF32CharVecWithUpperLimit_width:
  "0 \<le> x \<Longrightarrow> x \<le> max_width \<Longrightarrow> x \<le> snd (WriteUTF32CharVecWithUpperLimit fonts pos s color max_width x) \<and>
     snd (WriteUTF32CharVecWithUpperLimit fonts pos s color max_width x) \<le> max_width \<and>
     (\<forall>(p, d) \<in> set (fst (WriteUTF32CharVecWithUpperLimit fonts pos s color max_width x)).
        in_rect p (Rect (pos + Vec (8 * x) 0) (Vec (8 * (max_width - x)) 16)))"
proof (induction s arbitrary: x)
  case (Cons c s)
  have w: "1 \<le> char_width fonts c" by (simp add: char_width_def)
  show ?case
  proof (cases "max_width < x + char_width fonts c")
    case True
    then show ?thesis using Cons.prems by (simp add: Let_def)
  next
    case False
    obtain ds x' where r: "WriteUTF32CharVecWithUpperLimit fonts pos s color max_width (x + char_width fonts c) = (ds, x')" by fastforce
    have IH: "x + char_width fonts c \<le> x'" "x' \<le> max_width"
      "\<forall>(p, d) \<in> set ds. in_rect p (Rect (pos + Vec (8 * (x + char_width fonts c)) 0) (Vec (8 * (max_width - (x + char_width fonts c))) 16))"
      using Cons.IH[of "x + char_width fonts c"] Cons.prems(1) False w r by simp_all
    have "in_rect p (Rect (pos + Vec (8 * x) 0) (Vec (8 * (max_width - x)) 16))"
      if "(p, d) \<in> set (fst (WriteUnicodeChar fonts (pos + Vec (8 * x) 0) c color))" for p d
      using WriteUnicodeChar_box[OF that] False by (auto simp: in_rect_def)
    moreover have "in_rect p (Rect (pos + Vec (8 * x) 0) (Vec (8 * (max_width - x)) 16))" if "(p, d) \<in> set ds" for p d
      using IH(3) that w by (fastforce simp: in_rect_def)
    ultimately show ?thesis using False r IH(1,2) w by (auto simp: Let_def)
  qed
qed simp

subsection \<open>Properties\<close>

text \<open>A continuation byte in the place of a first byte has no length: the loop over the string stays where it is.\<close>

lemma WriteUTF8String_invalid:
  assumes "CountUTF8Size b = 0"
  shows "ConvertUTF8To32 (b # s) = Some (0, 0)" and "WriteUTF8String fonts pos (b # s) color = None"
proof -
  have "b \<noteq> 0" using assms by (auto simp: CountUTF8Size_def)
  then show "ConvertUTF8To32 (b # s) = Some (0, 0)" "WriteUTF8String fonts pos (b # s) color = None"
    using assms by (simp_all add: ConvertUTF8To32_def WriteUTF8String_def write_utf8.simps)
qed

text \<open>UTF-8 round trip and termination of string drawing: a string of code points below \<open>2 ^ 21\<close> that
  \<open>ConvertUTF32toUTF8\<close> has encoded, and that ends with a zero byte, is drawn by \<open>WriteUTF8String\<close> to its end, one decoded
  character after the other, and the width returned is the sum of the characters' widths.\<close>

theorem WriteUTF8String_draws_encoded:
  assumes "\<forall>c \<in> set cs. 0 < unat c \<and> unat c < 2 ^ 21"
  shows "WriteUTF8String fonts pos (concat (map ConvertUTF32toUTF8 cs) @ 0 # rest) color =
      Some (string_drawing fonts pos cs color 0, sum_list (map (char_width fonts) cs)) \<and>
    (\<forall>c \<in> set cs. \<forall>t. ConvertUTF8To32 (ConvertUTF32toUTF8 c @ t) = Some (c, length (ConvertUTF32toUTF8 c)))"
  using WriteUTF8String_encoded[OF assms] utf8_roundtrip assms unfolding encode_def by blast

definition sample_fonts :: Fonts where
  "sample_fonts = \<lparr>hankaku_bin = \<lparr>glyphs = [(0x41, replicate 16 0xff)], behind = (0, [])\<rparr>,
     zenkaku_bin = \<lparr>glyphs = [(0x3042, replicate 16 0xffff)], behind = (0, [])\<rparr>, ft_render = (\<lambda>_. None)\<rparr>"

theorem WriteUTF8String_draws_encoded_witness:
  "snd (the (WriteUTF8String sample_fonts 0 (concat (map ConvertUTF32toUTF8 [0x41, 0x3042]) @ [0]) kDesktopFGColor)) = 3"
proof -
  have "char_width sample_fonts 0x41 = 1" "char_width sample_fonts 0x3042 = 2"
    by (simp_all add: char_width_def IsHankaku_def GetGlyphFromHankakuBin_def GetGlyphFromZenkakuBin_def GetGlyph_def
        lower_bound_def sample_fonts_def Let_def)
  then show ?thesis using WriteUTF8String_draws_encoded[of "[0x41, 0x3042]" sample_fonts 0 "[]" kDesktopFGColor] by simp
qed

text \<open>Drawing a character touches only pixels of its box, 8 pixels wide when \<open>IsHankaku\<close> holds and 16 otherwise, and 16
  high, on every path: both glyph tables, the FreeType fallback and the error path.\<close>

theorem WriteUnicodeChar_in_box:
  assumes "(p, d) \<in> set (fst (WriteUnicodeChar fonts pos c color))"
  shows "in_rect p (Rect pos (Vec (if IsHankaku fonts c then 8 else 16) 16)) \<and> d = color"
  using WriteUnicodeChar_box[OF assms] by (simp add: char_width_def split: if_splits)

theorem WriteUnicodeChar_in_box_witness:
  "in_rect (Vec 7 0) (Rect (Vec 0 0) (Vec (if IsHankaku sample_fonts 0x41 then 8 else 16) 16))"
proof -
  have b: "bit (0xff :: u8) 0" by (simp add: bit_0)
  have "(Vec 7 0, kDesktopFGColor) \<in> set (draw_bits (replicate 16 (0xff :: u8)) (Vec 0 0) kDesktopFGColor)"
    unfolding draw_bits_def using b by (simp add: plus_Vector2D_def upto.simps)
  then have "(Vec 7 0, kDesktopFGColor) \<in> set (fst (WriteUnicodeChar sample_fonts (Vec 0 0) 0x41 kDesktopFGColor))"
    by (simp add: WriteUnicodeChar_def GetGlyphFromHankakuBin_def GetGlyph_def lower_bound_def sample_fonts_def)
  from WriteUnicodeChar_in_box[OF this] show ?thesis by simp
qed

end
