(* ===== verification/Window.thy ===== *)
theory Window
  imports Font
begin

text \<open>
  Windows: \<^verbatim>\<open>kernel/window.hpp\<close> and \<^verbatim>\<open>kernel/window.cpp\<close>. A window keeps its pixels twice, as colours in
  \<open>data_\<close> and in the shadow frame buffer that is copied to the screen. \<open>win_class\<close> is the dynamic class: \<open>None\<close> for
  \<open>Window\<close>, the title and \<open>is_privileged_\<close> for \<open>ToplevelWindow\<close>.
\<close>

datatype WindowRegion = kTitleBar | kCloseButton | kBorder | kOther

record Window =
  win_width :: int
  win_height :: int
  win_data :: "PixelColor list list"
  transparent_color :: "PixelColor option"
  shadow_buffer :: FrameBufferConfig
  win_class :: "(u8 list \<times> bool) option"

definition kTopLeftMargin :: Vector2D where "kTopLeftMargin = Vec 4 24"
definition kBottomRightMargin :: Vector2D where "kBottomRightMargin = Vec 4 4"
definition kMarginX :: int where "kMarginX = vx kTopLeftMargin + vx kBottomRightMargin"
definition kMarginY :: int where "kMarginY = vy kTopLeftMargin + vy kBottomRightMargin"

subsection \<open>The window as a drawing area\<close>

definition new_Window :: "int \<Rightarrow> int \<Rightarrow> PixelFormat \<Rightarrow> Window" where
  "new_Window w h shadow_format =
     \<lparr>win_width = w, win_height = h, win_data = replicate (nat h) (replicate (nat w) (Color 0 0 0)),
      transparent_color = None,
      shadow_buffer = fst (FrameBuffer_Initialize \<lparr>frame_buffer = None, pixels_per_scan_line = 0,
        horizontal_resolution = of_int w, vertical_resolution = of_int h, pixel_format = shadow_format\<rparr>),
      win_class = None\<rparr>"

definition SetTransparentColor :: "PixelColor option \<Rightarrow> Window \<Rightarrow> Window" where
  "SetTransparentColor c w = w\<lparr>transparent_color := c\<rparr>"

definition in_data :: "Window \<Rightarrow> Vector2D \<Rightarrow> bool" where
  "in_data w pos \<longleftrightarrow> 0 \<le> vy pos \<and> vy pos < int (length (win_data w)) \<and>
     0 \<le> vx pos \<and> vx pos < int (length (win_data w ! nat (vy pos)))"

definition Window_At :: "Window \<Rightarrow> Vector2D \<Rightarrow> PixelColor option" where
  "Window_At w pos = (if in_data w pos then Some (win_data w ! nat (vy pos) ! nat (vx pos)) else None)"

definition Window_Write :: "Window \<Rightarrow> Vector2D \<Rightarrow> PixelColor \<Rightarrow> Window option" where
  "Window_Write w pos c =
     (if in_data w pos
      then map_option (\<lambda>sb. w\<lparr>win_data := (win_data w)[nat (vy pos) := (win_data w ! nat (vy pos))[nat (vx pos) := c]],
                              shadow_buffer := sb\<rparr>)
             (FrameBuffer_Write (shadow_buffer w) pos c)
      else None)"

definition Window_Size :: "Window \<Rightarrow> Vector2D" where
  "Window_Size w = Vec (win_width w) (win_height w)"

definition Window_Move :: "Window \<Rightarrow> Vector2D \<Rightarrow> Rectangle \<Rightarrow> Window option" where
  "Window_Move w dst_pos src = map_option (\<lambda>sb. w\<lparr>shadow_buffer := sb\<rparr>) (FrameBuffer_Move (shadow_buffer w) dst_pos src)"

text \<open>\<open>DrawTo\<close>: an opaque window is copied, one with a transparent colour is drawn pixel by pixel.\<close>

definition transparent_drawing :: "Window \<Rightarrow> PixelColor \<Rightarrow> Vector2D \<Rightarrow> Vector2D \<Rightarrow> Drawing option" where
  "transparent_drawing w tc pos dst_size =
     (let ys = [max 0 (0 - vy pos) .. min (win_height w) (vy dst_size - vy pos) - 1];
          xs = [max 0 (0 - vx pos) .. min (win_width w) (vx dst_size - vx pos) - 1];
          ps = concat (map (\<lambda>y. map (\<lambda>x. Vec x y) xs) ys)
      in if \<forall>p \<in> set ps. in_data w p
         then Some (concat (map (\<lambda>p. let c = the (Window_At w p) in if c \<noteq> tc then [(pos + p, c)] else []) ps))
         else None)"

definition Window_DrawTo :: "Window \<Rightarrow> FrameBufferConfig \<Rightarrow> Vector2D \<Rightarrow> Rectangle \<Rightarrow> FrameBufferConfig option" where
  "Window_DrawTo w dst pos area = (case transparent_color w of
     None \<Rightarrow>
       (let window_area = Rect pos (Window_Size w);
            intersection = rect_and area window_area
        in map_option fst (FrameBuffer_Copy dst (rpos intersection) (shadow_buffer w)
             (Rect (rpos intersection - pos) (rsize intersection))))
   | Some tc \<Rightarrow>
       (case transparent_drawing w tc pos (FrameBufferSize dst) of
          None \<Rightarrow> None
        | Some ds \<Rightarrow> draw_on FrameBuffer_Write ds dst))"

subsection \<open>Decorations\<close>

definition kCloseButtonWidth :: int where "kCloseButtonWidth = 36"
definition kCloseButtonHeight :: int where "kCloseButtonHeight = 15"

definition close_button :: "string list" where
  "close_button = [
    ''...................................@'',
    ''.:::::::::::::::::::@@@@@@@@@@@:::$@'',
    ''.::@@@@@@@@@@@@@::::::::::::::::::$@'',
    ''.:::::::::::::::::::::@@@@@@@:::::$@'',
    ''.:::::::::::::::::::::@:::::@:::::$@'',
    ''.::::@@@@@@@@@::::::::@:::::@:::::$@'',
    ''.::::@:::@:::@::::::::@:::::@:::::$@'',
    ''.::::@:::@:::@:::::@@@@@@@@@@@@@::$@'',
    ''.::::@@@@@@@@@::::::::@:::::@:::::$@'',
    ''.::::@:::@:::@::::::::@:::::@:::::$@'',
    ''.::::@:::@:::@:::::::@::::::@:::::$@'',
    ''.::::@@@@@@@@@:::::::@::::::@:::::$@'',
    ''.:::::::::::::::::::@::::::@@:::::$@'',
    ''.$$$$$$$$$$$$$$$$$$$$$$$$$$$$$$$$$$@'',
    ''@@@@@@@@@@@@@@@@@@@@@@@@@@@@@@@@@@@@'']"

datatype ClosingState = normal | closeButtonHovered | isPrivilegedAndUnclosable

definition DrawTextbox_colors :: "Vector2D \<Rightarrow> Vector2D \<Rightarrow> PixelColor \<Rightarrow> PixelColor \<Rightarrow> PixelColor \<Rightarrow> Drawing" where
  "DrawTextbox_colors pos sz background border_light border_dark =
     FillRectangle (pos + Vec 1 1) (sz - Vec 2 2) background @
     FillRectangle pos (Vec (vx sz) 1) border_dark @
     FillRectangle pos (Vec 1 (vy sz)) border_dark @
     FillRectangle (pos + Vec 0 (vy sz)) (Vec (vx sz) 1) border_light @
     FillRectangle (pos + Vec (vx sz) 0) (Vec 1 (vy sz)) border_light"

definition DrawTextbox :: "Vector2D \<Rightarrow> Vector2D \<Rightarrow> Drawing" where
  "DrawTextbox pos sz = DrawTextbox_colors pos sz (ToColor 0xffffff) (ToColor 0xc6c6c6) (ToColor 0x848484)"

definition DrawTerminal :: "Vector2D \<Rightarrow> Vector2D \<Rightarrow> Drawing" where
  "DrawTerminal pos sz = DrawTextbox_colors pos sz (ToColor 0x000000) (ToColor 0xc6c6c6) (ToColor 0x848484)"

definition close_button_color :: "ClosingState \<Rightarrow> char \<Rightarrow> PixelColor" where
  "close_button_color st ch =
     (if ch = CHR ''@'' then ToColor 0x000000
      else if ch = CHR ''$'' then ToColor 0x848484
      else if ch = CHR '':'' then (if st = closeButtonHovered then ToColor 0xffbf00 else ToColor 0xc6c6c6)
      else ToColor 0xffffff)"

text \<open>The label of an unclosable window, in UTF-8.\<close>

definition unclosable_label :: "u8 list" where
  "unclosable_label = [0xe5, 0xb8, 0xb8, 0xe5, 0x9c, 0xa8, 0]"

definition DrawWindowTitle :: "Fonts \<Rightarrow> int \<Rightarrow> u8 list \<Rightarrow> bool \<Rightarrow> ClosingState \<Rightarrow> Drawing option" where
  "DrawWindowTitle fonts win_w title active st =
     (let bgcolor = (if active then (if st = isPrivilegedAndUnclosable then 0x005242 else 0x000084) else 0x848484)
      in case WriteUTF8String fonts (Vec 24 4) title (ToColor 0xffffff) of
           None \<Rightarrow> None
         | Some (title_drawing, _) \<Rightarrow>
             (let base = FillRectangle (Vec 3 3) (Vec (win_w - 6) 18) (ToColor bgcolor) @ title_drawing
              in if st \<noteq> isPrivilegedAndUnclosable
                 then Some (base @ concat (map (\<lambda>y. map (\<lambda>x.
                        (Vec (win_w - 5 - kCloseButtonWidth + x) (5 + y), close_button_color st (close_button ! nat y ! nat x)))
                          [0..kCloseButtonWidth - 1]) [0..kCloseButtonHeight - 1]))
                 else map_option (\<lambda>(label, _). base @ label)
                        (WriteUTF8String fonts (Vec (win_w - 5 - kCloseButtonWidth) 4) unclosable_label (ToColor 0xffffff))))"

definition DrawWindow :: "Fonts \<Rightarrow> int \<Rightarrow> int \<Rightarrow> u8 list \<Rightarrow> bool \<Rightarrow> Drawing option" where
  "DrawWindow fonts win_w win_h title is_privileged =
     map_option (\<lambda>t.
       FillRectangle (Vec 0 0) (Vec win_w 1) (ToColor 0xc6c6c6) @
       FillRectangle (Vec 1 1) (Vec (win_w - 2) 1) (ToColor 0xffffff) @
       FillRectangle (Vec 0 0) (Vec 1 win_h) (ToColor 0xc6c6c6) @
       FillRectangle (Vec 1 1) (Vec 1 (win_h - 2)) (ToColor 0xffffff) @
       FillRectangle (Vec (win_w - 2) 1) (Vec 1 (win_h - 2)) (ToColor 0x848484) @
       FillRectangle (Vec (win_w - 1) 0) (Vec 1 win_h) (ToColor 0x000000) @
       FillRectangle (Vec 2 2) (Vec (win_w - 4) (win_h - 4)) (ToColor 0xc6c6c6) @
       FillRectangle (Vec 1 (win_h - 2)) (Vec (win_w - 2) 1) (ToColor 0x848484) @
       FillRectangle (Vec 0 (win_h - 1)) (Vec win_w 1) (ToColor 0x000000) @ t)
     (DrawWindowTitle fonts win_w title False (if is_privileged then isPrivilegedAndUnclosable else normal))"

subsection \<open>Top-level windows\<close>

definition new_ToplevelWindow :: "Fonts \<Rightarrow> int \<Rightarrow> int \<Rightarrow> PixelFormat \<Rightarrow> u8 list \<Rightarrow> bool \<Rightarrow> Window option" where
  "new_ToplevelWindow fonts w h shadow_format title is_privileged =
     (case DrawWindow fonts w h title is_privileged of
        None \<Rightarrow> None
      | Some ds \<Rightarrow> draw_on Window_Write ds ((new_Window w h shadow_format)\<lparr>win_class := Some (title, is_privileged)\<rparr>))"

text \<open>The four virtual functions that redraw the title bar; those of \<open>Window\<close> do nothing.\<close>

definition redraw_title :: "Fonts \<Rightarrow> bool \<Rightarrow> ClosingState \<Rightarrow> Window \<Rightarrow> Window option" where
  "redraw_title fonts active st w = (case win_class w of
     None \<Rightarrow> Some w
   | Some (title, is_privileged) \<Rightarrow>
       (case DrawWindowTitle fonts (win_width w) title active (if is_privileged then isPrivilegedAndUnclosable else st) of
          None \<Rightarrow> None
        | Some ds \<Rightarrow> draw_on Window_Write ds w))"

definition Window_Activate :: "Fonts \<Rightarrow> Window \<Rightarrow> Window option" where
  "Window_Activate fonts = redraw_title fonts True normal"

definition Window_Deactivate :: "Fonts \<Rightarrow> Window \<Rightarrow> Window option" where
  "Window_Deactivate fonts = redraw_title fonts False normal"

definition Window_MouseEnterIntoCloseButton :: "Fonts \<Rightarrow> bool \<Rightarrow> Window \<Rightarrow> Window option" where
  "Window_MouseEnterIntoCloseButton fonts is_already_active = redraw_title fonts is_already_active closeButtonHovered"

definition Window_MouseLeaveFromCloseButton :: "Fonts \<Rightarrow> bool \<Rightarrow> Window \<Rightarrow> Window option" where
  "Window_MouseLeaveFromCloseButton fonts is_already_active = redraw_title fonts is_already_active normal"

definition GetWindowRegion :: "Window \<Rightarrow> Vector2D \<Rightarrow> WindowRegion" where
  "GetWindowRegion w pos = (case win_class w of
     None \<Rightarrow> kOther
   | Some (_, is_privileged) \<Rightarrow>
       if vx pos < 2 \<or> win_width w - 2 \<le> vx pos \<or> vy pos < 2 \<or> win_height w - 2 \<le> vy pos then kBorder
       else if vy pos < vy kTopLeftMargin then
         (if win_width w - 5 - kCloseButtonWidth \<le> vx pos \<and> vx pos < win_width w - 5 \<and>
             5 \<le> vy pos \<and> vy pos < 5 + kCloseButtonHeight
          then (if is_privileged then kTitleBar else kCloseButton)
          else kTitleBar)
       else kOther)"

definition InnerSize :: "Window \<Rightarrow> Vector2D" where
  "InnerSize w = Window_Size w - kTopLeftMargin - kBottomRightMargin"

text \<open>\<open>InnerAreaWriter\<close>.\<close>

definition Inner_Write :: "Window \<Rightarrow> Vector2D \<Rightarrow> PixelColor \<Rightarrow> Window option" where
  "Inner_Write w pos c = Window_Write w (pos + kTopLeftMargin) c"

subsection \<open>Both copies of the pixels agree\<close>

definition win_area :: "Window \<Rightarrow> Rectangle" where
  "win_area w = Rect (Vec 0 0) (Window_Size w)"

definition win_pixel :: "Window \<Rightarrow> Vector2D \<Rightarrow> PixelColor" where
  "win_pixel w p = win_data w ! nat (vy p) ! nat (vx p)"

definition win_ok :: "Window \<Rightarrow> bool" where
  "win_ok w \<longleftrightarrow> length (win_data w) = nat (win_height w) \<and> (\<forall>row \<in> set (win_data w). length row = nat (win_width w)) \<and>
     0 \<le> win_width w \<and> 0 \<le> win_height w \<and> fb_ok (shadow_buffer w) \<and> fb_area (shadow_buffer w) = win_area w \<and>
     (\<forall>p. in_rect p (win_area w) \<longrightarrow> pixel (shadow_buffer w) p = win_pixel w p)"

lemma in_data_iff: "win_ok w \<Longrightarrow> in_data w p \<longleftrightarrow> in_rect p (win_area w)"
  by (auto simp: in_data_def in_rect_def win_area_def Window_Size_def win_ok_def)

lemma Window_Write_ok:
  assumes "win_ok w" and "in_rect p (win_area w)"
  shows "\<exists>w'. Window_Write w p c = Some w' \<and> win_ok w' \<and> win_area w' = win_area w \<and>
    (\<forall>q. in_rect q (win_area w) \<longrightarrow> win_pixel w' q = (if q = p then c else win_pixel w q))"
proof -
  have fb: "fb_ok (shadow_buffer w)" "fb_area (shadow_buffer w) = win_area w" using assms(1) by (auto simp: win_ok_def)
  obtain sb where sb: "FrameBuffer_Write (shadow_buffer w) p c = Some sb" "fb_ok sb" "fb_area sb = win_area w"
    "\<forall>q. in_rect q (win_area w) \<longrightarrow> pixel sb q = (if q = p then c else pixel (shadow_buffer w) q)"
    using fb_writer.write_ok[of "shadow_buffer w" p c] fb assms(2) by auto
  let ?w = "w\<lparr>win_data := (win_data w)[nat (vy p) := (win_data w ! nat (vy p))[nat (vx p) := c]], shadow_buffer := sb\<rparr>"
  have d: "nat (vy p) < length (win_data w)" "nat (vx p) < length (win_data w ! nat (vy p))" "0 \<le> vx p" "0 \<le> vy p"
    using in_data_iff[OF assms(1), of p] assms(2) by (auto simp: in_data_def)
  have pix: "win_pixel ?w q = (if q = p then c else win_pixel w q)" if "in_rect q (win_area w)" for q
  proof -
    have "0 \<le> vx q" "0 \<le> vy q" using that by (auto simp: in_rect_def win_area_def)
    then have "q = p \<longleftrightarrow> nat (vy q) = nat (vy p) \<and> nat (vx q) = nat (vx p)" using d by (auto intro: vec_eqI)
    then show ?thesis using d by (auto simp: win_pixel_def nth_list_update)
  qed
  have ar: "win_area ?w = win_area w" by (simp add: win_area_def Window_Size_def)
  have "\<forall>row \<in> set (win_data ?w). length row = nat (win_width w)"
  proof -
    have "\<forall>row \<in> set (win_data w). length row = nat (win_width w)" using assms(1) by (simp add: win_ok_def)
    moreover have "length ((win_data w ! nat (vy p))[nat (vx p) := c]) = nat (win_width w)" using d(1) calculation by simp
    ultimately show ?thesis by (auto dest!: set_update_subset_insert[THEN subsetD])
  qed
  then have "win_ok ?w" using assms(1) sb(2-4) pix ar by (auto simp: win_ok_def)
  then show ?thesis using sb(1) in_data_iff[OF assms(1)] assms(2) pix ar by (intro exI[of _ ?w]) (simp add: Window_Write_def)
qed

interpretation window_writer: pixel_writer win_ok win_area Window_Write win_pixel
  by unfold_locales (rule Window_Write_ok)

subsection \<open>What a window shows\<close>

text \<open>The colour that \<open>DrawTo\<close> gives the position \<open>p\<close> of the destination, if it draws there.\<close>

definition shown :: "Window \<Rightarrow> Vector2D \<Rightarrow> Rectangle \<Rightarrow> Vector2D \<Rightarrow> PixelColor option" where
  "shown w pos area p =
     (if in_rect (p - pos) (win_area w) \<and> (case transparent_color w of None \<Rightarrow> in_rect p area | Some tc \<Rightarrow> win_pixel w (p - pos) \<noteq> tc)
      then Some (win_pixel w (p - pos)) else None)"

lemma map_of_image:
  assumes "inj_on f (set ps)"
  shows "map_of (map (\<lambda>p. (f p, g p)) ps) q = (if q \<in> f ` set ps then Some (g (the_inv_into (set ps) f q)) else None)"
  using assms
proof (induction ps)
  case (Cons p ps)
  have i: "inj_on f (set ps)" using Cons.prems by simp
  show ?case
  proof (cases "q = f p")
    case True
    then show ?thesis using the_inv_into_f_f[OF Cons.prems, of p] by simp
  next
    case False
    have "q \<in> f ` set ps \<Longrightarrow> the_inv_into (set (p # ps)) f q = the_inv_into (set ps) f q"
      using Cons.prems i by (auto simp: the_inv_into_f_f)
    then show ?thesis using Cons.IH[OF i] False by auto
  qed
qed simp

lemma drawn_unique:
  assumes "(q, c) \<in> set ds" and "\<And>c'. (q, c') \<in> set ds \<Longrightarrow> c' = c"
  shows "drawn ds q = Some c"
proof -
  have "q \<in> fst ` set (rev ds)" using assms(1) by force
  then obtain c' where "map_of (rev ds) q = Some c'" by (metis map_of_eq_None_iff not_None_eq)
  moreover from map_of_SomeD[OF this] have "c' = c" using assms(2) by simp
  ultimately show ?thesis by (simp add: drawn_def)
qed

lemma drawn_None: "(\<And>c. (q, c) \<notin> set ds) \<Longrightarrow> drawn ds q = None"
  by (force simp: drawn_def map_of_eq_None_iff)

lemma Window_DrawTo_pixels:
  assumes w: "win_ok w" and d: "fb_ok dst" "pixel_format dst = pixel_format (shadow_buffer w)" and a: "0 \<le> vx (rsize area)"
  shows "\<exists>dst'. Window_DrawTo w dst pos area = Some dst' \<and> fb_ok dst' \<and> fb_area dst' = fb_area dst \<and>
    pixel_format dst' = pixel_format dst \<and>
    (\<forall>p. in_rect p (fb_area dst) \<longrightarrow> pixel dst' p = (case shown w pos area p of None \<Rightarrow> pixel dst p | Some c \<Rightarrow> c))"
proof (cases "transparent_color w")
  case None
  let ?W = "Rect pos (Window_Size w)" and ?I = "rect_and area (Rect pos (Window_Size w))"
  have ww: "0 \<le> win_width w" "fb_ok (shadow_buffer w)" "fb_area (shadow_buffer w) = win_area w"
    "\<forall>p. in_rect p (win_area w) \<longrightarrow> pixel (shadow_buffer w) p = win_pixel w p" using w by (auto simp: win_ok_def)
  have sz: "0 \<le> vx (rsize (Rect (rpos ?I - pos) (rsize ?I)))"
    using rect_and_size[of area ?W] a ww(1) by (simp add: Window_Size_def)
  have in_I: "in_rect p (Rect (rpos ?I) (rsize ?I)) \<longleftrightarrow> in_rect p area \<and> in_rect (p - pos) (win_area w)" for p
  proof -
    have "in_rect p (Rect (rpos ?I) (rsize ?I)) \<longleftrightarrow> in_rect p area \<and> in_rect p ?W" using in_rect_and[of p area ?W] by simp
    then show ?thesis by (auto simp: in_rect_def win_area_def)
  qed
  have sh: "p - (rpos ?I - (rpos ?I - pos)) = p - pos" for p by (rule vec_eqI) simp_all
  obtain dst' where r: "FrameBuffer_Copy dst (rpos ?I) (shadow_buffer w) (Rect (rpos ?I - pos) (rsize ?I)) = Some (dst', kSuccess)"
    "fb_ok dst'" "fb_area dst' = fb_area dst" "pixel_format dst' = pixel_format dst"
    "\<forall>p. in_rect p (fb_area dst) \<longrightarrow> pixel dst' p =
      (if in_rect p (Rect (rpos ?I) (rsize ?I)) \<and> in_rect (p - pos) (fb_area (shadow_buffer w))
       then pixel (shadow_buffer w) (p - pos) else pixel dst p)"
    using FrameBuffer_Copy_pixels[OF d(1) ww(2) d(2) sz, of "rpos ?I"] unfolding Rectangle.sel sh by blast
  have "pixel dst' p = (case shown w pos area p of None \<Rightarrow> pixel dst p | Some c \<Rightarrow> c)" if "in_rect p (fb_area dst)" for p
    using r(5) that ww(3,4) None unfolding in_I by (simp add: shown_def)
  then show ?thesis using r(1-4) None by (intro exI[of _ dst']) (simp add: Window_DrawTo_def Let_def)
next
  case (Some tc)
  define ys xs where "ys = [max 0 (0 - vy pos) .. min (win_height w) (vy (FrameBufferSize dst) - vy pos) - 1]"
    and "xs = [max 0 (0 - vx pos) .. min (win_width w) (vx (FrameBufferSize dst) - vx pos) - 1]"
  define ps where "ps = concat (map (\<lambda>y. map (\<lambda>x. Vec x y) xs) ys)"
  have ps: "p \<in> set ps \<longleftrightarrow> in_rect p (win_area w) \<and> in_rect (pos + p) (fb_area dst)" for p
  proof -
    have "p \<in> set ps \<longleftrightarrow> vx p \<in> set xs \<and> vy p \<in> set ys" by (cases p) (auto simp: ps_def)
    then show ?thesis using fb_sizes(1)[OF d(1)]
      by (auto simp: xs_def ys_def in_rect_def win_area_def Window_Size_def fb_area_def)
  qed
  have ok: "\<forall>p \<in> set ps. in_data w p" using ps in_data_iff[OF w] by blast
  have at: "Window_At w p = Some (win_pixel w p)" if "p \<in> set ps" for p
    using ok that by (simp add: Window_At_def win_pixel_def)
  define ds where "ds = concat (map (\<lambda>p. let c = the (Window_At w p) in if c \<noteq> tc then [(pos + p, c)] else []) ps)"
  have t: "transparent_drawing w tc pos (FrameBufferSize dst) = Some ds"
    using ok by (simp add: transparent_drawing_def Let_def ds_def ps_def xs_def ys_def)
  have ds: "(q, c) \<in> set ds \<longleftrightarrow> q - pos \<in> set ps \<and> c = win_pixel w (q - pos) \<and> c \<noteq> tc" for q c
  proof -
    have "(q, c) \<in> set ds \<longleftrightarrow> (\<exists>p \<in> set ps. win_pixel w p \<noteq> tc \<and> q = pos + p \<and> c = win_pixel w p)"
      using at by (force simp: ds_def Let_def split: if_splits)
    also have "\<dots> \<longleftrightarrow> q - pos \<in> set ps \<and> c = win_pixel w (q - pos) \<and> c \<noteq> tc"
      by (auto simp: algebra_simps intro!: bexI[of _ "q - pos"])
    finally show ?thesis .
  qed
  have in_dst: "\<forall>(p, c) \<in> set ds. in_rect p (fb_area dst)" using ds ps by (auto simp: algebra_simps)
  obtain dst' where r: "draw_on FrameBuffer_Write ds dst = Some dst'" "fb_ok dst'" "fb_area dst' = fb_area dst"
    "\<forall>q. in_rect q (fb_area dst) \<longrightarrow> pixel dst' q = (case drawn ds q of None \<Rightarrow> pixel dst q | Some c \<Rightarrow> c)"
    using fb_writer.draw_ok[OF d(1) in_dst] by blast
  have "drawn ds p = shown w pos area p" if "in_rect p (fb_area dst)" for p
  proof (cases "in_rect (p - pos) (win_area w) \<and> win_pixel w (p - pos) \<noteq> tc")
    case True
    then have "(p, win_pixel w (p - pos)) \<in> set ds" using ds ps that by (simp add: algebra_simps)
    from drawn_unique[OF this] show ?thesis using ds True Some by (simp add: shown_def)
  next
    case False
    then have "drawn ds p = None" using ds ps by (intro drawn_None) blast
    then show ?thesis using False Some by (auto simp: shown_def)
  qed
  moreover have "pixel_format dst' = pixel_format dst"
  proof -
    have "draw_on FrameBuffer_Write es a = Some b \<Longrightarrow> pixel_format b = pixel_format a" for es a b
      by (induction es arbitrary: a) (auto simp: FrameBuffer_Write_def store_bytes_def split: option.splits if_splits)
    then show ?thesis using r(1) by blast
  qed
  ultimately show ?thesis using r t Some by (intro exI[of _ dst']) (simp add: Window_DrawTo_def)
qed

subsection \<open>A new window is black\<close>

lemma FrameBuffer_Initialize_black:
  assumes "frame_buffer c = None" and "pixel_format c \<in> {kPixelRGBResv8BitPerColor, kPixelBGRResv8BitPerColor}"
    and "4 * width c * height c < 2 ^ 31" and "4 * width c < 2 ^ 31" and "height c < 2 ^ 31"
  shows "\<exists>fb. FrameBuffer_Initialize c = (fb, kSuccess) \<and> fb_ok fb \<and> fb_area fb = fb_area c \<and>
    pixel_format fb = pixel_format c \<and> (\<forall>p. in_rect p (fb_area c) \<longrightarrow> pixel fb p = Color 0 0 0)"
proof -
  define m where "m = replicate (unat (4 * horizontal_resolution c * vertical_resolution c)) (0 :: u8)"
  let ?fb = "c\<lparr>frame_buffer := Some m, pixels_per_scan_line := horizontal_resolution c\<rparr>"
  have i: "FrameBuffer_Initialize c = (?fb, kSuccess)"
    using assms(1,2) by (auto simp: FrameBuffer_Initialize_def BytesPerPixel_def m_def)
  have st: "stride ?fb = 4 * width c" "height ?fb = height c" "width ?fb = width c"
    by (simp_all add: stride_def width_def height_def)
  have "4 * horizontal_resolution c * vertical_resolution c = (of_nat (4 * width c * height c) :: u32)"
    by (simp add: width_def height_def)
  then have "unat (4 * horizontal_resolution c * vertical_resolution c) = 4 * width c * height c"
    using assms(3) by (simp only: unat_of_nat) simp
  then have "length m = 4 * width c * height c" by (simp add: m_def)
  then have len: "length m = stride ?fb * height ?fb" by (simp only: st)
  then have ok: "fb_ok ?fb" using assms(2-5) st by (auto simp: fb_ok_def)
  have ar: "fb_area ?fb = fb_area c" by (simp add: fb_area_def st)
  have "pixel ?fb p = Color 0 0 0" if "in_rect p (fb_area c)" for p
  proof -
    have "pixel_offset ?fb p + 4 \<le> length m"
      using offset_bound[OF ok, of p] that unfolding ar len by blast
    then show ?thesis by (simp add: pixel_def Let_def m_def)
  qed
  with i ok ar show ?thesis by (intro exI[of _ ?fb]) simp
qed

lemma new_Window_ok:
  assumes "0 \<le> w" "0 \<le> h" "4 * w * h < 2 ^ 31" "4 * w < 2 ^ 31" "h < 2 ^ 31"
    and "f \<in> {kPixelRGBResv8BitPerColor, kPixelBGRResv8BitPerColor}"
  shows "win_ok (new_Window w h f)" and "win_area (new_Window w h f) = Rect (Vec 0 0) (Vec w h)"
    and "pixel_format (shadow_buffer (new_Window w h f)) = f"
    and "in_rect p (Rect (Vec 0 0) (Vec w h)) \<Longrightarrow> win_pixel (new_Window w h f) p = Color 0 0 0"
proof -
  let ?c = "\<lparr>frame_buffer = None, pixels_per_scan_line = 0, horizontal_resolution = of_int w,
    vertical_resolution = of_int h, pixel_format = f\<rparr>"
  have u: "unat (of_int x :: u32) = nat x" if "0 \<le> x" "x < 2 ^ 31" for x
    using that by (simp add: unsigned_of_int take_bit_int_eq_self)
  have wh: "width ?c = nat w" "height ?c = nat h" using u[of w] u[of h] assms by (auto simp: width_def height_def)
  have "4 * width ?c * height ?c = nat (4 * w * h)" using assms(1,2) by (simp add: wh nat_mult_distrib)
  then have "4 * width ?c * height ?c < 2 ^ 31" "4 * width ?c < 2 ^ 31" "height ?c < 2 ^ 31"
    using assms(3-5) mult_nonneg_nonneg[OF assms(2,1)] nat_less_iff[of "4 * w * h" "2 ^ 31"] nat_less_iff[of "4 * w" "2 ^ 31"] nat_less_iff[of h "2 ^ 31"] wh
    by (simp_all add: \<open>4 * width ?c * height ?c = _\<close>[unfolded wh])
  then obtain fb where fb: "FrameBuffer_Initialize ?c = (fb, kSuccess)" "fb_ok fb" "fb_area fb = fb_area ?c"
    "pixel_format fb = f" "\<forall>p. in_rect p (fb_area ?c) \<longrightarrow> pixel fb p = Color 0 0 0"
    using FrameBuffer_Initialize_black[of ?c] assms(6) by auto
  show ar: "win_area (new_Window w h f) = Rect (Vec 0 0) (Vec w h)"
    by (simp add: win_area_def Window_Size_def new_Window_def)
  have fa: "fb_area ?c = Rect (Vec 0 0) (Vec w h)" using wh assms(1,2) by (simp add: fb_area_def)
  show pix: "in_rect p (Rect (Vec 0 0) (Vec w h)) \<Longrightarrow> win_pixel (new_Window w h f) p = Color 0 0 0" for p
    by (auto simp: win_pixel_def new_Window_def in_rect_def)
  show "pixel_format (shadow_buffer (new_Window w h f)) = f" using fb(1,4) by (simp add: new_Window_def)
  show "win_ok (new_Window w h f)"
    using assms(1,2) fb ar fa pix unfolding win_ok_def by (simp add: new_Window_def)
qed

subsection \<open>Decorations stay in the window\<close>

text \<open>A title in UTF-8 that ends before the right border.\<close>

definition title_ok :: "Fonts \<Rightarrow> int \<Rightarrow> u8 list \<Rightarrow> bool" where
  "title_ok fonts win_w title \<longleftrightarrow> (\<exists>cs rest. title = encode cs @ 0 # rest \<and>
     (\<forall>c \<in> set cs. 0 < unat c \<and> unat c < 2 ^ 21) \<and> 24 + 8 * sum_list (map (char_width fonts) cs) \<le> win_w)"

lemma sum_char_width: "0 \<le> sum_list (map (char_width fonts) cs)"
  by (induction cs) (auto simp: char_width_def)

lemma string_drawing_box:
  "(p, d) \<in> set (string_drawing fonts pos cs color x) \<Longrightarrow>
    in_rect p (Rect (pos + Vec (8 * x) 0) (Vec (8 * sum_list (map (char_width fonts) cs)) 16))"
proof (induction cs arbitrary: x)
  case (Cons c cs)
  have w: "1 \<le> char_width fonts c" by (simp add: char_width_def)
  consider "(p, d) \<in> set (fst (WriteUnicodeChar fonts (pos + Vec (8 * x) 0) c color))"
    | "(p, d) \<in> set (string_drawing fonts pos cs color (x + char_width fonts c))" using Cons.prems by auto
  then show ?case
  proof cases
    case 1
    from WriteUnicodeChar_box[OF this] sum_char_width[of fonts cs] show ?thesis by (auto simp: in_rect_def algebra_simps)
  next
    case 2
    from Cons.IH[OF this] w show ?thesis by (auto simp: in_rect_def algebra_simps)
  qed
qed simp

lemma unclosable_label_encode: "unclosable_label = encode [0x5e38, 0x5728] @ 0 # []"
  unfolding unclosable_label_def encode_def by code_simp

definition inside :: "Drawing \<Rightarrow> int \<Rightarrow> int \<Rightarrow> bool" where
  "inside ds w h \<longleftrightarrow> (\<forall>(p, c) \<in> set ds. in_rect p (Rect (Vec 0 0) (Vec w h)))"

lemma inside_append [simp]: "inside (ds @ es) w h \<longleftrightarrow> inside ds w h \<and> inside es w h"
  by (auto simp: inside_def)

lemma inside_Nil [simp]: "inside [] w h"
  by (simp add: inside_def)

lemma inside_FillRectangle:
  "0 \<le> vx pos \<Longrightarrow> 0 \<le> vy pos \<Longrightarrow> vx pos + vx sz \<le> w \<Longrightarrow> vy pos + vy sz \<le> h \<Longrightarrow> inside (FillRectangle pos sz c) w h"
  by (auto simp: inside_def set_FillRectangle in_rect_def)

lemma inside_rect:
  assumes "\<And>p d. (p, d) \<in> set ds \<Longrightarrow> in_rect p r"
    and "0 \<le> vx (rpos r)" "0 \<le> vy (rpos r)" "vx (rpos r) + vx (rsize r) \<le> w" "vy (rpos r) + vy (rsize r) \<le> h"
  shows "inside ds w h"
  using assms by (fastforce simp: inside_def in_rect_def)

lemma string_drawing_inside:
  assumes "0 \<le> vx pos + 8 * x" "0 \<le> vy pos" "vy pos + 16 \<le> h"
    and "vx pos + 8 * x + 8 * sum_list (map (char_width fonts) cs) \<le> w"
  shows "inside (string_drawing fonts pos cs color x) w h"
proof (rule inside_rect)
  fix p d assume "(p, d) \<in> set (string_drawing fonts pos cs color x)"
  then show "in_rect p (Rect (pos + Vec (8 * x) 0) (Vec (8 * sum_list (map (char_width fonts) cs)) 16))"
    by (rule string_drawing_box)
qed (use assms in auto)

lemma DrawWindowTitle_inside:
  assumes "title_ok fonts w title" and "42 \<le> w" and "24 \<le> h"
  shows "\<exists>ds. DrawWindowTitle fonts w title active st = Some ds \<and> inside ds w h"
proof -
  obtain cs rest where cs: "title = encode cs @ 0 # rest" "\<forall>c \<in> set cs. 0 < unat c \<and> unat c < 2 ^ 21"
    "24 + 8 * sum_list (map (char_width fonts) cs) \<le> w" using assms(1) by (auto simp: title_ok_def)
  let ?white = "ToColor 0xffffff" and ?label = "[0x5e38, 0x5728]"
  have t: "WriteUTF8String fonts (Vec 24 4) title ?white =
      Some (string_drawing fonts (Vec 24 4) cs ?white 0, sum_list (map (char_width fonts) cs))"
    unfolding cs(1) by (rule WriteUTF8String_encoded[OF cs(2)])
  have l: "WriteUTF8String fonts pos unclosable_label ?white =
      Some (string_drawing fonts pos ?label ?white 0, sum_list (map (char_width fonts) ?label))" for pos
    unfolding unclosable_label_encode by (rule WriteUTF8String_encoded) simp
  have it: "inside (string_drawing fonts (Vec 24 4) cs ?white 0) w h"
    by (rule string_drawing_inside) (use cs(3) assms(3) in auto)
  have "sum_list (map (char_width fonts) ?label) \<le> 4" by (simp add: char_width_def)
  note cw = this
  have il: "inside (string_drawing fonts (Vec (w - 5 - kCloseButtonWidth) 4) ?label ?white 0) w h"
    by (rule string_drawing_inside) (use assms(2,3) cw in \<open>auto simp: kCloseButtonWidth_def\<close>)
  have ib: "inside (concat (map (\<lambda>y. map (\<lambda>x. (Vec (w - 5 - kCloseButtonWidth + x) (5 + y), f y x))
      [0..kCloseButtonWidth - 1]) [0..kCloseButtonHeight - 1])) w h" for f
    using assms(2,3) by (auto simp: inside_def in_rect_def kCloseButtonWidth_def kCloseButtonHeight_def)
  have "inside (FillRectangle (Vec 3 3) (Vec (w - 6) 18) c) w h" for c
    by (rule inside_FillRectangle) (use assms(2,3) in auto)
  then show ?thesis using t l it il ib by (simp add: DrawWindowTitle_def Let_def)
qed

lemma DrawWindow_inside:
  assumes "title_ok fonts w title" and "42 \<le> w" and "24 \<le> h"
  shows "\<exists>ds. DrawWindow fonts w h title priv = Some ds \<and> inside ds w h"
  using DrawWindowTitle_inside[OF assms, of False "if priv then isPrivilegedAndUnclosable else normal"] assms(2,3)
  by (auto simp: DrawWindow_def intro!: inside_FillRectangle)

lemma draw_inside:
  assumes "win_ok w" and "inside ds (win_width w) (win_height w)"
  shows "\<exists>w'. draw_on Window_Write ds w = Some w' \<and> win_ok w' \<and> win_area w' = win_area w"
proof -
  have "\<forall>(p, c) \<in> set ds. in_rect p (win_area w)" using assms(2) by (simp add: inside_def win_area_def Window_Size_def)
  from window_writer.draw_ok[OF assms(1) this] show ?thesis by blast
qed

end
