(* ===== verification/Layer.thy ===== *)
theory Layer
  imports Window Task
begin

text \<open>
  Layers: \<^verbatim>\<open>kernel/layer.hpp\<close> and \<^verbatim>\<open>kernel/layer.cpp\<close>. Windows are shared objects: \<open>windows\<close> is the store
  they live in and a layer holds a pointer into it. A pointer to a layer is its id, for ids are never reused.
  \<open>None\<close> as a result is a null or dangling pointer, or an uninitialised rectangle, that the code would use.
\<close>

record Layer =
  layer_id :: nat
  layer_pos :: Vector2D
  layer_window :: "nat option"
  layer_draggable :: bool

record LayerManager =
  screen :: FrameBufferConfig
  back_buffer :: FrameBufferConfig
  layers :: "Layer list"
  layer_stack :: "nat list"
  latest_layer_id :: nat
  windows :: "nat \<rightharpoonup> Window"

definition new_Layer :: "nat \<Rightarrow> Layer" where
  "new_Layer i = \<lparr>layer_id = i, layer_pos = Vec 0 0, layer_window = None, layer_draggable = False\<rparr>"

definition Layer_DrawTo :: "(nat \<rightharpoonup> Window) \<Rightarrow> Layer \<Rightarrow> FrameBufferConfig \<Rightarrow> Rectangle \<Rightarrow> FrameBufferConfig option" where
  "Layer_DrawTo ws l dst area = (case layer_window l of
     None \<Rightarrow> Some dst
   | Some w \<Rightarrow> (case ws w of None \<Rightarrow> None | Some win \<Rightarrow> Window_DrawTo win dst (layer_pos l) area))"

subsection \<open>The layer manager\<close>

definition SetWriter :: "FrameBufferConfig \<Rightarrow> LayerManager \<Rightarrow> LayerManager" where
  "SetWriter scr lm = lm\<lparr>screen := scr, back_buffer := fst (FrameBuffer_Initialize (scr\<lparr>frame_buffer := None\<rparr>))\<rparr>"

definition NewLayer :: "LayerManager \<Rightarrow> LayerManager \<times> nat" where
  "NewLayer lm = (let i = latest_layer_id lm + 1
     in (lm\<lparr>latest_layer_id := i, layers := layers lm @ [new_Layer i]\<rparr>, i))"

definition FindLayer :: "LayerManager \<Rightarrow> nat \<Rightarrow> Layer option" where
  "FindLayer lm i = find (\<lambda>l. layer_id l = i) (layers lm)"

text \<open>An update through the pointer to a layer.\<close>

definition upd_layer :: "nat \<Rightarrow> (Layer \<Rightarrow> Layer) \<Rightarrow> LayerManager \<Rightarrow> LayerManager" where
  "upd_layer i f lm = lm\<lparr>layers := map (\<lambda>l. if layer_id l = i then f l else l) (layers lm)\<rparr>"

definition SetWindow :: "nat \<Rightarrow> nat \<Rightarrow> LayerManager \<Rightarrow> LayerManager" where
  "SetWindow i w = upd_layer i (\<lambda>l. l\<lparr>layer_window := Some w\<rparr>)"

definition SetDraggable :: "nat \<Rightarrow> bool \<Rightarrow> LayerManager \<Rightarrow> LayerManager" where
  "SetDraggable i d = upd_layer i (\<lambda>l. l\<lparr>layer_draggable := d\<rparr>)"

definition Layer_Move :: "nat \<Rightarrow> Vector2D \<Rightarrow> LayerManager \<Rightarrow> LayerManager" where
  "Layer_Move i p = upd_layer i (\<lambda>l. l\<lparr>layer_pos := p\<rparr>)"

definition Layer_MoveRelative :: "nat \<Rightarrow> Vector2D \<Rightarrow> LayerManager \<Rightarrow> LayerManager" where
  "Layer_MoveRelative i d = upd_layer i (\<lambda>l. l\<lparr>layer_pos := layer_pos l + d\<rparr>)"

text \<open>The window of a layer, as \<open>FindLayer(id)->GetWindow()\<close> reaches it.\<close>

definition GetWindow :: "LayerManager \<Rightarrow> Layer \<Rightarrow> Window option" where
  "GetWindow lm l = Option.bind (layer_window l) (windows lm)"

definition Hide :: "nat \<Rightarrow> LayerManager \<Rightarrow> LayerManager" where
  "Hide i lm = (case FindLayer lm i of None \<Rightarrow> lm | Some _ \<Rightarrow> lm\<lparr>layer_stack := remove1 i (layer_stack lm)\<rparr>)"

definition RemoveLayer :: "nat \<Rightarrow> LayerManager \<Rightarrow> LayerManager" where
  "RemoveLayer i lm = (let lm' = Hide i lm in lm'\<lparr>layers := filter (\<lambda>l. layer_id l \<noteq> i) (layers lm')\<rparr>)"

fun draw_layers :: "LayerManager \<Rightarrow> Rectangle \<Rightarrow> nat list \<Rightarrow> FrameBufferConfig \<Rightarrow> FrameBufferConfig option" where
  "draw_layers lm area [] fb = Some fb"
| "draw_layers lm area (i # is) fb = do {
     l \<leftarrow> FindLayer lm i;
     fb' \<leftarrow> Layer_DrawTo (windows lm) l fb area;
     draw_layers lm area is fb' }"

definition Draw_area :: "Rectangle \<Rightarrow> LayerManager \<Rightarrow> LayerManager option" where
  "Draw_area area lm = do {
     bb \<leftarrow> draw_layers lm area (layer_stack lm) (back_buffer lm);
     (scr, _) \<leftarrow> FrameBuffer_Copy (screen lm) (rpos area) bb area;
     Some (lm\<lparr>back_buffer := bb, screen := scr\<rparr>) }"

text \<open>
  The loop of the third \<open>Draw\<close>: \<open>window_area\<close> is \<open>None\<close> until the layer is met, which is when \<open>draw\<close> is false;
  the loop changes \<open>area\<close> too.
\<close>

fun draw_above :: "LayerManager \<Rightarrow> nat \<Rightarrow> nat list \<Rightarrow> Rectangle option \<Rightarrow> Rectangle \<Rightarrow> FrameBufferConfig \<Rightarrow>
    (Rectangle option \<times> FrameBufferConfig) option" where
  "draw_above lm i [] window_area area fb = Some (window_area, fb)"
| "draw_above lm i (j # js) window_area area fb = do {
     l \<leftarrow> FindLayer lm j;
     (window_area', area') \<leftarrow>
       (if layer_id l = i then do {
          w \<leftarrow> GetWindow lm l;
          let wa = Rect (layer_pos l) (Window_Size w);
          if 0 \<le> vx (rsize area) \<or> 0 \<le> vy (rsize area)
          then let a = Rect (rpos area + layer_pos l) (rsize area) in Some (Some (rect_and wa a), a)
          else Some (Some wa, area) }
        else Some (window_area, area));
     fb' \<leftarrow> (case window_area' of None \<Rightarrow> Some fb | Some wa \<Rightarrow> Layer_DrawTo (windows lm) l fb wa);
     draw_above lm i js window_area' area' fb' }"

definition Draw_id_area :: "nat \<Rightarrow> Rectangle \<Rightarrow> LayerManager \<Rightarrow> LayerManager option" where
  "Draw_id_area i area lm = do {
     (window_area, bb) \<leftarrow> draw_above lm i (layer_stack lm) None area (back_buffer lm);
     wa \<leftarrow> window_area;
     (scr, _) \<leftarrow> FrameBuffer_Copy (screen lm) (rpos wa) bb wa;
     Some (lm\<lparr>back_buffer := bb, screen := scr\<rparr>) }"

definition Draw_id :: "nat \<Rightarrow> LayerManager \<Rightarrow> LayerManager option" where
  "Draw_id i = Draw_id_area i (Rect (Vec 0 0) (Vec (- 1) (- 1)))"

definition LM_Move :: "nat \<Rightarrow> Vector2D \<Rightarrow> LayerManager \<Rightarrow> LayerManager option" where
  "LM_Move i new_pos lm = do {
     l \<leftarrow> FindLayer lm i;
     w \<leftarrow> GetWindow lm l;
     lm1 \<leftarrow> Draw_area (Rect (layer_pos l) (Window_Size w)) (Layer_Move i new_pos lm);
     Draw_id i lm1 }"

definition LM_MoveRelative :: "nat \<Rightarrow> Vector2D \<Rightarrow> LayerManager \<Rightarrow> LayerManager option" where
  "LM_MoveRelative i pos_diff lm = do {
     l \<leftarrow> FindLayer lm i;
     w \<leftarrow> GetWindow lm l;
     lm1 \<leftarrow> Draw_area (Rect (layer_pos l) (Window_Size w)) (Layer_MoveRelative i pos_diff lm);
     Draw_id i lm1 }"

text \<open>
  \<open>UpDown\<close>: \<open>new_pos\<close> is an index, taken before the layer is erased. For an unknown id the code puts a null pointer
  on the stack, which every later walk over the stack uses; the result is \<open>None\<close> here already.
\<close>

definition list_insert :: "nat \<Rightarrow> 'a \<Rightarrow> 'a list \<Rightarrow> 'a list" where
  "list_insert n x xs = take n xs @ x # drop n xs"

definition UpDown :: "nat \<Rightarrow> int \<Rightarrow> LayerManager \<Rightarrow> LayerManager option" where
  "UpDown i new_height lm =
     (if new_height < 0 then Some (Hide i lm)
      else case FindLayer lm i of
        None \<Rightarrow> None
      | Some _ \<Rightarrow>
          (let st = layer_stack lm;
               new_pos = min (nat new_height) (length st)
           in if i \<notin> set st then Some (lm\<lparr>layer_stack := list_insert new_pos i st\<rparr>)
              else let new_pos' = (if new_pos = length st then new_pos - 1 else new_pos)
                   in Some (lm\<lparr>layer_stack := list_insert new_pos' i (remove1 i st)\<rparr>)))"

definition layer_at :: "LayerManager \<Rightarrow> Vector2D \<Rightarrow> nat \<Rightarrow> nat \<Rightarrow> bool" where
  "layer_at lm pos exclude_id i =
     (case FindLayer lm i of
        None \<Rightarrow> False
      | Some l \<Rightarrow> if layer_id l = exclude_id then False
          else case GetWindow lm l of
            None \<Rightarrow> False
          | Some win \<Rightarrow> let win_pos = layer_pos l; win_end_pos = win_pos + Window_Size win
              in vx win_pos \<le> vx pos \<and> vx pos < vx win_end_pos \<and> vy win_pos \<le> vy pos \<and> vy pos < vy win_end_pos)"

definition FindLayerByPosition :: "LayerManager \<Rightarrow> Vector2D \<Rightarrow> nat \<Rightarrow> nat option" where
  "FindLayerByPosition lm pos exclude_id = find (layer_at lm pos exclude_id) (rev (layer_stack lm))"

fun height_in :: "nat list \<Rightarrow> int \<Rightarrow> nat \<Rightarrow> int" where
  "height_in [] h i = - 1"
| "height_in (j # js) h i = (if j = i then h else height_in js (h + 1) i)"

definition GetHeight :: "LayerManager \<Rightarrow> nat \<Rightarrow> int" where
  "GetHeight lm i = height_in (layer_stack lm) 0 i"

subsection \<open>The active layer\<close>

text \<open>The globals that these functions share; \<open>task_manager\<close> receives the messages.\<close>

record 'f Desktop =
  manager :: LayerManager
  active_layer :: nat
  mouse_layer :: nat
  layer_task_map :: "nat \<rightharpoonup> nat"
  task_manager :: "'f TaskManager"

definition SendWindowActiveMessage :: "nat \<Rightarrow> int \<Rightarrow> 'f Desktop \<Rightarrow> ('f Desktop \<times> Error_Code) option" where
  "SendWindowActiveMessage i activate d = (case layer_task_map d i of
     None \<Rightarrow> Some (d, kNoSuchTask)
   | Some t \<Rightarrow> do {
       (tm, e) \<leftarrow> SendMessage (task_manager d) t (mk_Message (kWindowActive activate));
       Some (d\<lparr>task_manager := tm\<rparr>, e) })"

definition SetMouseLayer :: "nat \<Rightarrow> 'f Desktop \<Rightarrow> 'f Desktop" where
  "SetMouseLayer i d = d\<lparr>mouse_layer := i\<rparr>"

text \<open>A virtual call on the window of a layer.\<close>

definition on_window :: "nat \<Rightarrow> (Window \<Rightarrow> Window option) \<Rightarrow> LayerManager \<Rightarrow> LayerManager option" where
  "on_window i f lm = do {
     l \<leftarrow> FindLayer lm i;
     p \<leftarrow> layer_window l;
     w \<leftarrow> windows lm p;
     w' \<leftarrow> f w;
     Some (lm\<lparr>windows := (windows lm)(p \<mapsto> w')\<rparr>) }"

definition Deactivate_active :: "Fonts \<Rightarrow> 'f Desktop \<Rightarrow> 'f Desktop option" where
  "Deactivate_active fonts d =
     (if 0 < active_layer d then do {
        lm1 \<leftarrow> on_window (active_layer d) (Window_Deactivate fonts) (manager d);
        lm2 \<leftarrow> Draw_id (active_layer d) lm1;
        (d', _) \<leftarrow> SendWindowActiveMessage (active_layer d) 0 (d\<lparr>manager := lm2\<rparr>);
        Some d' }
      else Some d)"

definition Activate :: "Fonts \<Rightarrow> nat \<Rightarrow> 'f Desktop \<Rightarrow> 'f Desktop option" where
  "Activate fonts i d =
     (if active_layer d = i then Some d
      else do {
        d0 \<leftarrow> Deactivate_active fonts d;
        let d1 = d0\<lparr>active_layer := i\<rparr>;
        if 0 < i then do {
          lm1 \<leftarrow> on_window i (Window_Activate fonts) (manager d1);
          lm2 \<leftarrow> UpDown i 0 lm1;
          lm3 \<leftarrow> UpDown i (GetHeight lm2 (mouse_layer d1) - 1) lm2;
          lm4 \<leftarrow> Draw_id i lm3;
          (d', _) \<leftarrow> SendWindowActiveMessage i 1 (d1\<lparr>manager := lm4\<rparr>);
          Some d' }
        else Some d1 })"

definition MouseEnterIntoCloseButton :: "Fonts \<Rightarrow> nat \<Rightarrow> 'f Desktop \<Rightarrow> 'f Desktop option" where
  "MouseEnterIntoCloseButton fonts i d =
     map_option (\<lambda>lm. d\<lparr>manager := lm\<rparr>)
       (on_window i (Window_MouseEnterIntoCloseButton fonts (active_layer d = i)) (manager d))"

definition MouseLeaveFromCloseButton :: "Fonts \<Rightarrow> nat \<Rightarrow> 'f Desktop \<Rightarrow> 'f Desktop option" where
  "MouseLeaveFromCloseButton fonts i d =
     map_option (\<lambda>lm. d\<lparr>manager := lm\<rparr>)
       (on_window i (Window_MouseLeaveFromCloseButton fonts (active_layer d = i)) (manager d))"

definition ProcessLayerMessage :: "Message \<Rightarrow> LayerManager \<Rightarrow> LayerManager option" where
  "ProcessLayerMessage msg lm = (case arg msg of
     kLayer op i x y w h \<Rightarrow>
       (case op of
          LMove \<Rightarrow> LM_Move i (Vec x y) lm
        | LMoveRelative \<Rightarrow> LM_MoveRelative i (Vec x y) lm
        | LDraw \<Rightarrow> Draw_id i lm
        | LDrawArea \<Rightarrow> Draw_id_area i (Rect (Vec x y) (Vec w h)) lm)
   | _ \<Rightarrow> None)"

definition MakeLayerMessage :: "nat \<Rightarrow> nat \<Rightarrow> LayerOperation \<Rightarrow> Rectangle \<Rightarrow> Message" where
  "MakeLayerMessage t i op area =
     \<lparr>src_task = t, arg = kLayer op i (vx (rpos area)) (vy (rpos area)) (vx (rsize area)) (vy (rsize area))\<rparr>"

definition CloseLayer :: "Fonts \<Rightarrow> nat \<Rightarrow> 'f Desktop \<Rightarrow> ('f Desktop \<times> Error_Code) option" where
  "CloseLayer fonts i d = (case FindLayer (manager d) i of
     None \<Rightarrow> Some (d, kNoSuchEntry)
   | Some l \<Rightarrow> do {
       w \<leftarrow> GetWindow (manager d) l;
       d1 \<leftarrow> Activate fonts 0 d;
       lm \<leftarrow> Draw_area (Rect (layer_pos l) (Window_Size w)) (RemoveLayer i (manager d1));
       Some (d1\<lparr>manager := lm, layer_task_map := (layer_task_map d1)(i := None)\<rparr>, kSuccess) })"

subsection \<open>What the layers show\<close>

text \<open>
  The abstract screen: at every position the topmost layer with a colour there. \<open>look\<close> is the colour of one layer,
  \<open>None\<close> outside its window and at its transparent pixels.
\<close>

definition win_look :: "Window \<Rightarrow> Vector2D \<Rightarrow> Vector2D \<Rightarrow> PixelColor option" where
  "win_look w pos p =
     (if in_rect (p - pos) (win_area w) \<and> transparent_color w \<noteq> Some (win_pixel w (p - pos))
      then Some (win_pixel w (p - pos)) else None)"

definition layer_view :: "LayerManager \<Rightarrow> nat \<Rightarrow> (Vector2D \<times> Window) option" where
  "layer_view lm i = Option.bind (FindLayer lm i) (\<lambda>l. map_option (Pair (layer_pos l)) (GetWindow lm l))"

definition look :: "LayerManager \<Rightarrow> nat \<Rightarrow> Vector2D \<Rightarrow> PixelColor option" where
  "look lm i p = (case layer_view lm i of None \<Rightarrow> None | Some (pos, w) \<Rightarrow> win_look w pos p)"

definition first_some :: "('a \<Rightarrow> 'b option) \<Rightarrow> 'a list \<Rightarrow> 'b option" where
  "first_some f xs = fold (\<lambda>x r. case f x of None \<Rightarrow> r | Some c \<Rightarrow> Some c) xs None"

definition visible :: "LayerManager \<Rightarrow> Vector2D \<Rightarrow> PixelColor option" where
  "visible lm p = first_some (\<lambda>i. look lm i p) (layer_stack lm)"

definition see_through :: "LayerManager \<Rightarrow> nat \<Rightarrow> bool" where
  "see_through lm i \<longleftrightarrow> (case layer_view lm i of None \<Rightarrow> True | Some (_, w) \<Rightarrow> transparent_color w \<noteq> None)"

definition layer_ok :: "LayerManager \<Rightarrow> nat \<Rightarrow> bool" where
  "layer_ok lm i \<longleftrightarrow> (\<exists>l. FindLayer lm i = Some l \<and> (\<forall>q. layer_window l = Some q \<longrightarrow>
     (\<exists>w. windows lm q = Some w \<and> win_ok w \<and> pixel_format (shadow_buffer w) = pixel_format (screen lm))))"

text \<open>Layers with a transparent colour are above all others: the mouse cursor is the only one.\<close>

fun opaque_first :: "(nat \<Rightarrow> bool) \<Rightarrow> nat list \<Rightarrow> bool" where
  "opaque_first t [] = True"
| "opaque_first t (i # is) \<longleftrightarrow> (t i \<longrightarrow> (\<forall>j \<in> set is. t j)) \<and> opaque_first t is"

definition layers_ok :: "LayerManager \<Rightarrow> bool" where
  "layers_ok lm \<longleftrightarrow> fb_ok (screen lm) \<and> fb_ok (back_buffer lm) \<and> fb_area (back_buffer lm) = fb_area (screen lm) \<and>
     pixel_format (back_buffer lm) = pixel_format (screen lm) \<and> distinct (layer_stack lm) \<and>
     (\<forall>i \<in> set (layer_stack lm). layer_ok lm i) \<and> opaque_first (see_through lm) (layer_stack lm)"

definition correct :: "LayerManager \<Rightarrow> FrameBufferConfig \<Rightarrow> Vector2D \<Rightarrow> bool" where
  "correct lm fb p \<longleftrightarrow> (\<forall>c. visible lm p = Some c \<longrightarrow> pixel fb p = c)"

text \<open>The screen and the back buffer show the abstract screen, but for the positions of \<open>D\<close>.\<close>

definition synced_but :: "Vector2D set \<Rightarrow> LayerManager \<Rightarrow> bool" where
  "synced_but D lm \<longleftrightarrow> layers_ok lm \<and>
     (\<forall>p. in_rect p (fb_area (screen lm)) \<longrightarrow> p \<notin> D \<longrightarrow> correct lm (screen lm) p \<and> correct lm (back_buffer lm) p)"

definition synced :: "LayerManager \<Rightarrow> bool" where
  "synced = synced_but {}"

subsection \<open>Drawing the layers\<close>

lemma first_some_append: "first_some f (xs @ ys) = (case first_some f ys of None \<Rightarrow> first_some f xs | Some c \<Rightarrow> Some c)"
proof -
  have "fold (\<lambda>x r. case f x of None \<Rightarrow> r | Some c \<Rightarrow> Some c) ys r =
      (case first_some f ys of None \<Rightarrow> r | Some c \<Rightarrow> Some c)" for r
  proof (induction ys rule: rev_induct)
    case (snoc y ys)
    then show ?case by (cases "f y") (simp_all add: first_some_def)
  qed (simp add: first_some_def)
  then show ?thesis unfolding first_some_def[of f "xs @ ys"] fold_append comp_def
    by (simp add: first_some_def[of f xs] split: option.split)
qed

lemma first_some_simps [simp]:
  "first_some f [] = None"
  "first_some f (x # xs) = (case first_some f xs of None \<Rightarrow> f x | Some c \<Rightarrow> Some c)"
  using first_some_append[of f "[x]" xs] by (simp_all add: first_some_def[of f "[]"] first_some_def[of f "[x]"] split: option.split)

lemma first_some_None: "first_some f xs = None \<longleftrightarrow> (\<forall>x \<in> set xs. f x = None)"
  by (induction xs) (auto split: option.splits)

lemma first_some_cong: "(\<And>x. x \<in> set xs \<Longrightarrow> f x = g x) \<Longrightarrow> first_some f xs = first_some g xs"
  by (induction xs) (auto split: option.splits)

text \<open>What drawing with an area paints: an opaque layer inside the area, a transparent one everywhere.\<close>

definition paints :: "LayerManager \<Rightarrow> Rectangle \<Rightarrow> Vector2D \<Rightarrow> nat \<Rightarrow> PixelColor option" where
  "paints lm area p i = (if in_rect p area \<or> see_through lm i then look lm i p else None)"

lemma shown_paints:
  "layer_view lm i = Some (pos, w) \<Longrightarrow> shown w pos area p = paints lm area p i"
  by (auto simp: shown_def paints_def look_def win_look_def see_through_def split: option.splits)

lemma Layer_DrawTo_paints:
  assumes ok: "layer_ok lm i" and l: "FindLayer lm i = Some l"
    and fb: "fb_ok fb" "pixel_format fb = pixel_format (screen lm)" and a: "0 \<le> vx (rsize area)"
  shows "\<exists>fb'. Layer_DrawTo (windows lm) l fb area = Some fb' \<and> fb_ok fb' \<and> fb_area fb' = fb_area fb \<and>
    pixel_format fb' = pixel_format fb \<and>
    (\<forall>p. in_rect p (fb_area fb) \<longrightarrow> pixel fb' p = (case paints lm area p i of None \<Rightarrow> pixel fb p | Some c \<Rightarrow> c))"
proof (cases "layer_window l")
  case None
  then have "paints lm area p i = None" for p using l by (simp add: paints_def look_def layer_view_def GetWindow_def)
  then show ?thesis using None fb by (simp add: Layer_DrawTo_def)
next
  case (Some q)
  then obtain w where w: "windows lm q = Some w" "win_ok w" "pixel_format (shadow_buffer w) = pixel_format (screen lm)"
    using ok l by (auto simp: layer_ok_def)
  have v: "layer_view lm i = Some (layer_pos l, w)" using Some w l by (simp add: layer_view_def GetWindow_def)
  show ?thesis using Window_DrawTo_pixels[OF w(2) fb(1) _ a, of "layer_pos l"] fb(2) w(1,3) Some
    by (simp add: Layer_DrawTo_def shown_paints[OF v])
qed

lemma draw_layers_paints:
  assumes "\<forall>i \<in> set is. layer_ok lm i" and "fb_ok fb" and "pixel_format fb = pixel_format (screen lm)"
    and "0 \<le> vx (rsize area)"
  shows "\<exists>fb'. draw_layers lm area is fb = Some fb' \<and> fb_ok fb' \<and> fb_area fb' = fb_area fb \<and>
    pixel_format fb' = pixel_format fb \<and>
    (\<forall>p. in_rect p (fb_area fb) \<longrightarrow> pixel fb' p = (case first_some (paints lm area p) is of None \<Rightarrow> pixel fb p | Some c \<Rightarrow> c))"
  using assms
proof (induction "is" arbitrary: fb)
  case (Cons i "is")
  obtain l where l: "FindLayer lm i = Some l" using Cons.prems(1) by (auto simp: layer_ok_def)
  obtain fb1 where 1: "Layer_DrawTo (windows lm) l fb area = Some fb1" "fb_ok fb1" "fb_area fb1 = fb_area fb"
    "pixel_format fb1 = pixel_format fb"
    "\<forall>p. in_rect p (fb_area fb) \<longrightarrow> pixel fb1 p = (case paints lm area p i of None \<Rightarrow> pixel fb p | Some c \<Rightarrow> c)"
    using Layer_DrawTo_paints[OF _ l Cons.prems(2-4)] Cons.prems(1) by auto
  obtain fb2 where 2: "draw_layers lm area is fb1 = Some fb2" "fb_ok fb2" "fb_area fb2 = fb_area fb"
    "pixel_format fb2 = pixel_format fb"
    "\<forall>p. in_rect p (fb_area fb) \<longrightarrow>
       pixel fb2 p = (case first_some (paints lm area p) is of None \<Rightarrow> pixel fb1 p | Some c \<Rightarrow> c)"
    using Cons.IH[OF _ 1(2) _ Cons.prems(4)] Cons.prems(1,3) 1(3,4) by auto
  show ?case using l 1(1,5) 2 by (auto split: option.splits)
qed simp

lemma opaque_first_append: "opaque_first t (xs @ ys) \<Longrightarrow> opaque_first t ys"
  by (induction xs) auto

text \<open>The drawing of the layers from one of the stack on is what it draws of the abstract screen.\<close>

lemma paints_visible:
  assumes "layers_ok lm" and "layer_stack lm = xs @ ys" and "first_some (paints lm area p) ys = Some c"
  shows "visible lm p = Some c"
proof -
  have "opaque_first (see_through lm) ys"
    using assms(1) opaque_first_append[of "see_through lm" xs ys] by (simp add: layers_ok_def assms(2))
  then have "first_some (\<lambda>i. look lm i p) ys = Some c" using assms(3)
  proof (induction ys)
    case (Cons i ys)
    show ?case
    proof (cases "first_some (paints lm area p) ys")
      case None
      then have i: "paints lm area p i = Some c" using Cons.prems(2) by simp
      have "first_some (\<lambda>i. look lm i p) ys = None"
      proof (cases "in_rect p area")
        case True
        then show ?thesis using None by (simp add: first_some_None paints_def)
      next
        case False
        then have "\<forall>j \<in> set ys. see_through lm j" using i Cons.prems(1) by (auto simp: paints_def split: if_splits)
        then show ?thesis using None by (auto simp: first_some_None paints_def)
      qed
      then show ?thesis using i by (auto simp: paints_def split: if_splits)
    qed (use Cons in auto)
  qed simp
  then show ?thesis using assms(2) by (simp add: visible_def first_some_append)
qed

lemma buffers_view [simp]:
  "FindLayer (lm\<lparr>back_buffer := bb, screen := scr\<rparr>) i = FindLayer lm i"
  "GetWindow (lm\<lparr>back_buffer := bb, screen := scr\<rparr>) l = GetWindow lm l"
  "layer_view (lm\<lparr>back_buffer := bb, screen := scr\<rparr>) i = layer_view lm i"
  "see_through (lm\<lparr>back_buffer := bb, screen := scr\<rparr>) i = see_through lm i"
  "look (lm\<lparr>back_buffer := bb, screen := scr\<rparr>) i p = look lm i p"
  "visible (lm\<lparr>back_buffer := bb, screen := scr\<rparr>) p = visible lm p"
  "correct (lm\<lparr>back_buffer := bb, screen := scr\<rparr>) fb p = correct lm fb p"
  by (simp_all add: FindLayer_def GetWindow_def layer_view_def see_through_def look_def visible_def correct_def)

lemma layer_ok_buffers:
  "pixel_format scr = pixel_format (screen lm) \<Longrightarrow> layer_ok (lm\<lparr>back_buffer := bb, screen := scr\<rparr>) i = layer_ok lm i"
  by (simp add: layer_ok_def)

text \<open>The layers from one of the stack on are drawn and copied to the screen.\<close>

lemma repaint:
  assumes ok: "layers_ok lm" and st: "layer_stack lm = xs @ ys" and a: "0 \<le> vx (rsize area)"
  obtains bb scr where "draw_layers lm area ys (back_buffer lm) = Some bb"
    and "FrameBuffer_Copy (screen lm) (rpos area) bb area = Some (scr, kSuccess)"
    and "fb_area scr = fb_area (screen lm)"
    and "\<And>D. synced_but D lm \<Longrightarrow>
      synced_but {p \<in> D. \<not> in_rect p area \<or> first_some (\<lambda>i. look lm i p) ys = None \<and> visible lm p \<noteq> None}
        (lm\<lparr>back_buffer := bb, screen := scr\<rparr>)"
proof -
  have fb: "fb_ok (screen lm)" "fb_ok (back_buffer lm)" "fb_area (back_buffer lm) = fb_area (screen lm)"
    "pixel_format (back_buffer lm) = pixel_format (screen lm)" "\<forall>i \<in> set ys. layer_ok lm i"
    using ok st by (auto simp: layers_ok_def)
  obtain bb where bb: "draw_layers lm area ys (back_buffer lm) = Some bb" "fb_ok bb" "fb_area bb = fb_area (screen lm)"
    "pixel_format bb = pixel_format (screen lm)"
    "\<forall>p. in_rect p (fb_area (screen lm)) \<longrightarrow>
       pixel bb p = (case first_some (paints lm area p) ys of None \<Rightarrow> pixel (back_buffer lm) p | Some c \<Rightarrow> c)"
    using draw_layers_paints[OF fb(5,2,4) a] unfolding fb(3,4) by blast
  obtain scr where scr: "FrameBuffer_Copy (screen lm) (rpos area) bb area = Some (scr, kSuccess)" "fb_ok scr"
    "fb_area scr = fb_area (screen lm)" "pixel_format scr = pixel_format (screen lm)"
    "\<forall>p. in_rect p (fb_area (screen lm)) \<longrightarrow> pixel scr p = (if in_rect p area then pixel bb p else pixel (screen lm) p)"
    using FrameBuffer_Copy_pixels[OF fb(1) bb(2) bb(4)[symmetric] a, of "rpos area"] bb(3) by auto
  let ?lm = "lm\<lparr>back_buffer := bb, screen := scr\<rparr>"
  have see: "see_through ?lm = see_through lm" by (rule ext) simp
  have ok': "layers_ok ?lm"
    using ok bb(2-4) scr(2-4) by (simp add: layers_ok_def layer_ok_buffers see)
  have "synced_but {p \<in> D. \<not> in_rect p area \<or> first_some (\<lambda>i. look lm i p) ys = None \<and> visible lm p \<noteq> None} ?lm"
    if sync: "synced_but D lm" for D
  proof -
    have painted: "correct lm bb p" if "in_rect p (fb_area (screen lm))"
      "first_some (paints lm area p) ys \<noteq> None \<or> correct lm (back_buffer lm) p" for p
      using that bb(5) paints_visible[OF ok st] by (auto simp: correct_def split: option.splits)
    have full: "first_some (paints lm area p) ys = first_some (\<lambda>i. look lm i p) ys" if "in_rect p area" for p
      using that by (intro first_some_cong) (simp add: paints_def)
    have bb_ok: "correct lm bb p" if p: "in_rect p (fb_area (screen lm))"
      and "p \<notin> D \<or> in_rect p area \<and> (first_some (\<lambda>i. look lm i p) ys \<noteq> None \<or> visible lm p = None)" for p
      using that(2) painted[OF p] sync p full by (auto simp: synced_but_def correct_def)
    have "correct lm scr p" if p: "in_rect p (fb_area (screen lm))"
      and "p \<notin> D \<or> in_rect p area \<and> (first_some (\<lambda>i. look lm i p) ys \<noteq> None \<or> visible lm p = None)" for p
      using that bb_ok[OF that] scr(5) sync by (auto simp: synced_but_def correct_def)
    then show ?thesis using ok' bb_ok scr(3) by (auto simp: synced_but_def)
  qed
  then show ?thesis using that bb(1) scr(1,3) by blast
qed

lemma synced_mono: "synced_but D lm \<Longrightarrow> D \<subseteq> E \<Longrightarrow> synced_but E lm"
  by (auto simp: synced_but_def)

lemma Draw_area_sync:
  assumes "synced_but D lm" and "0 \<le> vx (rsize area)"
  shows "\<exists>bb scr. Draw_area area lm = Some (lm\<lparr>back_buffer := bb, screen := scr\<rparr>) \<and> fb_area scr = fb_area (screen lm) \<and>
    synced_but {p \<in> D. \<not> in_rect p area} (lm\<lparr>back_buffer := bb, screen := scr\<rparr>)"
proof -
  have ok: "layers_ok lm" and st: "layer_stack lm = [] @ layer_stack lm" using assms(1) by (simp_all add: synced_but_def)
  from repaint[OF ok st assms(2)] obtain bb scr where
    1: "draw_layers lm area (layer_stack lm) (back_buffer lm) = Some bb"
    "FrameBuffer_Copy (screen lm) (rpos area) bb area = Some (scr, kSuccess)" "fb_area scr = fb_area (screen lm)"
    "synced_but {p \<in> D. \<not> in_rect p area \<or> first_some (\<lambda>i. look lm i p) (layer_stack lm) = None \<and> visible lm p \<noteq> None}
        (lm\<lparr>back_buffer := bb, screen := scr\<rparr>)" using assms(1) by blast
  have "{p \<in> D. \<not> in_rect p area \<or> first_some (\<lambda>i. look lm i p) (layer_stack lm) = None \<and> visible lm p \<noteq> None} =
    {p \<in> D. \<not> in_rect p area}" by (auto simp: visible_def)
  with 1 show ?thesis by (auto simp: Draw_area_def)
qed

subsection \<open>Redrawing one layer\<close>

lemma draw_above_below:
  assumes "\<forall>j \<in> set xs. layer_ok lm j" and "i \<notin> set xs"
  shows "draw_above lm i (xs @ ys) None area fb = draw_above lm i ys None area fb"
  using assms
proof (induction xs)
  case (Cons j xs)
  obtain l where "FindLayer lm j = Some l" using Cons.prems by (auto simp: layer_ok_def)
  moreover from this have "layer_id l = j" by (auto simp: FindLayer_def find_Some_iff)
  ultimately show ?case using Cons by simp
qed simp

lemma draw_above_rest:
  assumes "i \<notin> set ys" and "\<forall>j \<in> set ys. layer_ok lm j"
  shows "draw_above lm i ys (Some wa) area fb = map_option (Pair (Some wa)) (draw_layers lm wa ys fb)"
  using assms
proof (induction ys arbitrary: fb)
  case (Cons j ys)
  obtain l where "FindLayer lm j = Some l" using Cons.prems by (auto simp: layer_ok_def)
  moreover from this have "layer_id l = j" by (auto simp: FindLayer_def find_Some_iff)
  ultimately show ?case using Cons by (cases "Layer_DrawTo (windows lm) l fb wa") auto
qed simp

text \<open>The given area of a layer's window, or all of it when the size is negative, is redrawn.\<close>

definition whole_window :: "Rectangle \<Rightarrow> bool" where
  "whole_window area \<longleftrightarrow> vx (rsize area) < 0 \<and> vy (rsize area) < 0"

lemma Draw_id_area_sync:
  assumes sync: "synced_but D lm" and i: "i \<in> set (layer_stack lm)" and v: "layer_view lm i = Some (pos, w)"
    and ar: "whole_window area \<or> 0 \<le> vx (rsize area)"
  shows "\<exists>bb scr. Draw_id_area i area lm = Some (lm\<lparr>back_buffer := bb, screen := scr\<rparr>) \<and> fb_area scr = fb_area (screen lm) \<and>
    synced_but {p \<in> D. look lm i p = None \<or> \<not> whole_window area \<and> \<not> in_rect (p - pos) area}
      (lm\<lparr>back_buffer := bb, screen := scr\<rparr>)"
proof -
  have ok: "layers_ok lm" using sync by (simp add: synced_but_def)
  then obtain xs ys where st: "layer_stack lm = xs @ i # ys" "i \<notin> set xs" "i \<notin> set ys"
    "\<forall>j \<in> set (layer_stack lm). layer_ok lm j"
    using i by (auto simp: layers_ok_def dest!: split_list)
  obtain l where l: "FindLayer lm i = Some l" "pos = layer_pos l" "GetWindow lm l = Some w"
    using v by (auto simp: layer_view_def bind_eq_Some_conv)
  have li: "layer_id l = i" using l(1) by (auto simp: FindLayer_def find_Some_iff)
  let ?W = "Rect pos (Window_Size w)" and ?area = "Rect (rpos area + pos) (rsize area)"
  define wa where "wa = (if whole_window area then ?W else rect_and ?W ?area)"
  have "win_ok w" using st l by (auto simp: layer_ok_def GetWindow_def bind_eq_Some_conv)
  then have W: "0 \<le> vx (rsize ?W)" by (simp add: win_ok_def Window_Size_def)
  have a: "0 \<le> vx (rsize wa)" using W ar rect_and_size[of ?W ?area] by (auto simp: wa_def)
  from repaint[OF ok st(1) a] obtain bb scr where
    1: "draw_layers lm wa (i # ys) (back_buffer lm) = Some bb"
    "FrameBuffer_Copy (screen lm) (rpos wa) bb wa = Some (scr, kSuccess)" "fb_area scr = fb_area (screen lm)"
    and 2: "synced_but {p \<in> D. \<not> in_rect p wa \<or> first_some (\<lambda>i. look lm i p) (i # ys) = None \<and> visible lm p \<noteq> None}
        (lm\<lparr>back_buffer := bb, screen := scr\<rparr>)" using sync by blast
  have "{p \<in> D. \<not> in_rect p wa \<or> first_some (\<lambda>i. look lm i p) (i # ys) = None \<and> visible lm p \<noteq> None}
    \<subseteq> {p \<in> D. look lm i p = None \<or> \<not> whole_window area \<and> \<not> in_rect (p - pos) area}"
  proof -
    have "look lm i p = None" if "\<not> in_rect p ?W" for p
      using that v by (auto simp: look_def win_look_def in_rect_def win_area_def)
    moreover have "in_rect p ?area \<longleftrightarrow> in_rect (p - pos) area" for p by (auto simp: in_rect_def)
    ultimately show ?thesis by (auto simp: wa_def in_rect_and split: option.splits)
  qed
  from synced_mono[OF 2 this] have "synced_but {p \<in> D. look lm i p = None \<or> \<not> whole_window area \<and> \<not> in_rect (p - pos) area}
      (lm\<lparr>back_buffer := bb, screen := scr\<rparr>)" .
  moreover have "draw_above lm i (layer_stack lm) None area (back_buffer lm) = Some (Some wa, bb)"
    using 1(1) l li draw_above_rest[OF st(3), of lm wa] st(1,4) draw_above_below[OF _ st(2), of lm]
    by (auto simp: bind_eq_Some_conv wa_def whole_window_def Let_def)
  ultimately show ?thesis using 1(2,3) by (auto simp: Draw_id_area_def)
qed

lemma Draw_id_sync:
  assumes "synced_but D lm" and "i \<in> set (layer_stack lm)" and "layer_view lm i = Some (pos, w)"
  shows "\<exists>bb scr. Draw_id i lm = Some (lm\<lparr>back_buffer := bb, screen := scr\<rparr>) \<and> fb_area scr = fb_area (screen lm) \<and>
    synced_but {p \<in> D. look lm i p = None} (lm\<lparr>back_buffer := bb, screen := scr\<rparr>)"
  using Draw_id_area_sync[OF assms, of "Rect (Vec 0 0) (Vec (- 1) (- 1))"] by (simp add: Draw_id_def whole_window_def)

lemma Draw_id_synced:
  assumes "synced_but {p. look lm i p \<noteq> None} lm" and "i \<in> set (layer_stack lm)" and "layer_view lm i = Some (pos, w)"
  shows "\<exists>bb scr. Draw_id i lm = Some (lm\<lparr>back_buffer := bb, screen := scr\<rparr>) \<and> fb_area scr = fb_area (screen lm) \<and>
    synced (lm\<lparr>back_buffer := bb, screen := scr\<rparr>)"
proof -
  have none: "{p \<in> {p. look lm i p \<noteq> None}. look lm i p = None} = {}" by auto
  show ?thesis using Draw_id_sync[OF assms] unfolding none synced_def .
qed

text \<open>A change of the layers spoils only the positions where it changes the abstract screen.\<close>

lemma synced_change:
  assumes "synced_but D lm" and "layers_ok lm'" and "screen lm' = screen lm" and "back_buffer lm' = back_buffer lm"
    and "\<And>p. p \<notin> E \<Longrightarrow> visible lm' p = visible lm p"
  shows "synced_but (D \<union> E) lm'"
  using assms by (auto simp: synced_but_def correct_def)

subsection \<open>Moving a layer\<close>

lemma FindLayer_upd_layer:
  assumes "\<And>l. layer_id (f l) = layer_id l"
  shows "FindLayer (upd_layer i f lm) j = map_option (\<lambda>l. if j = i then f l else l) (FindLayer lm j)"
proof -
  have "find (\<lambda>l. layer_id l = j) (map (\<lambda>l. if layer_id l = i then f l else l) ls) =
      map_option (\<lambda>l. if j = i then f l else l) (find (\<lambda>l. layer_id l = j) ls)" for ls
    by (induction ls) (auto simp: assms)
  then show ?thesis by (simp add: FindLayer_def upd_layer_def)
qed

lemma upd_layer_frame [simp]:
  "screen (upd_layer i f lm) = screen lm" "back_buffer (upd_layer i f lm) = back_buffer lm"
  "layer_stack (upd_layer i f lm) = layer_stack lm" "windows (upd_layer i f lm) = windows lm"
  "GetWindow (upd_layer i f lm) l = GetWindow lm l"
  by (simp_all add: upd_layer_def GetWindow_def)

definition reposition :: "(Vector2D \<Rightarrow> Vector2D) \<Rightarrow> nat \<Rightarrow> LayerManager \<Rightarrow> LayerManager" where
  "reposition g i = upd_layer i (\<lambda>l. l\<lparr>layer_pos := g (layer_pos l)\<rparr>)"

lemma reposition_frame [simp]:
  "screen (reposition g i lm) = screen lm" "back_buffer (reposition g i lm) = back_buffer lm"
  "layer_stack (reposition g i lm) = layer_stack lm"
  by (simp_all add: reposition_def)

lemma reposition_view:
  "layer_view (reposition g i lm) j = map_option (\<lambda>(pos, w). (if j = i then g pos else pos, w)) (layer_view lm j)"
  by (cases "FindLayer lm j")
    (auto simp: layer_view_def reposition_def FindLayer_upd_layer GetWindow_def option.map_comp comp_def)

lemma reposition_ok:
  assumes "layers_ok lm"
  shows "layers_ok (reposition g i lm)"
proof -
  have "see_through (reposition g i lm) = see_through lm"
    by (rule ext) (auto simp: see_through_def reposition_view split: option.splits)
  moreover have "layer_ok (reposition g i lm) j = layer_ok lm j" for j
    by (cases "FindLayer lm j"; cases "j = i"; auto simp: layer_ok_def reposition_def FindLayer_upd_layer)
  ultimately show ?thesis using assms by (simp add: layers_ok_def)
qed

lemma move_layer_sync:
  assumes sync: "synced_but {p. look lm i p \<noteq> None} lm" and i: "i \<in> set (layer_stack lm)"
    and v: "layer_view lm i = Some (pos, w)"
  shows "\<exists>lm1 lm'. Draw_area (Rect pos (Window_Size w)) (reposition g i lm) = Some lm1 \<and> Draw_id i lm1 = Some lm' \<and> synced lm' \<and>
    fb_area (screen lm') = fb_area (screen lm) \<and> layer_stack lm' = layer_stack lm \<and>
    (\<forall>j. layer_view lm' j = layer_view (reposition g i lm) j)"
proof -
  let ?lm = "reposition g i lm" and ?old = "Rect pos (Window_Size w)"
  have ok: "layers_ok lm" using sync by (simp add: synced_but_def)
  have v': "layer_view ?lm i = Some (g pos, w)" using v by (simp add: reposition_view)
  have "win_ok w" using ok i v by (auto simp: layers_ok_def layer_ok_def layer_view_def GetWindow_def bind_eq_Some_conv)
  then have a: "0 \<le> vx (rsize ?old)" by (simp add: win_ok_def Window_Size_def)
  have other: "look ?lm j p = look lm j p" if "j \<noteq> i" for j p
    using that by (auto simp: look_def reposition_view split: option.splits)
  have "visible ?lm p = visible lm p" if "look lm i p = None" "look ?lm i p = None" for p
  proof -
    have "look ?lm j p = look lm j p" for j using that other by (cases "j = i") auto
    then show ?thesis by (simp add: visible_def)
  qed
  from synced_change[OF sync reposition_ok[OF ok], of _ _ "{p. look lm i p \<noteq> None \<or> look ?lm i p \<noteq> None}"] this
  have 1: "synced_but ({p. look lm i p \<noteq> None} \<union> {p. look lm i p \<noteq> None \<or> look ?lm i p \<noteq> None}) ?lm"
    by auto
  obtain bb scr where 2: "Draw_area ?old ?lm = Some (?lm\<lparr>back_buffer := bb, screen := scr\<rparr>)" "fb_area scr = fb_area (screen lm)"
    "synced_but {p \<in> {p. look lm i p \<noteq> None} \<union> {p. look lm i p \<noteq> None \<or> look ?lm i p \<noteq> None}. \<not> in_rect p ?old}
       (?lm\<lparr>back_buffer := bb, screen := scr\<rparr>)" using Draw_area_sync[OF 1 a] by auto
  have "look lm i p = None" if "\<not> in_rect p ?old" for p
    using that v by (auto simp: look_def win_look_def in_rect_def win_area_def)
  then have "synced_but {p. look ?lm i p \<noteq> None} (?lm\<lparr>back_buffer := bb, screen := scr\<rparr>)"
    by (intro synced_mono[OF 2(3)]) auto
  then have "synced_but {p. look (?lm\<lparr>back_buffer := bb, screen := scr\<rparr>) i p \<noteq> None} (?lm\<lparr>back_buffer := bb, screen := scr\<rparr>)" by simp
  from Draw_id_synced[OF this, of "g pos" w] v' i obtain bb' scr' where
    3: "Draw_id i (?lm\<lparr>back_buffer := bb, screen := scr\<rparr>) = Some (?lm\<lparr>back_buffer := bb', screen := scr'\<rparr>)"
    "fb_area scr' = fb_area scr" "synced (?lm\<lparr>back_buffer := bb', screen := scr'\<rparr>)"
    by auto
  show ?thesis using 2(1,2) 3
    by (intro exI[of _ "?lm\<lparr>back_buffer := bb, screen := scr\<rparr>"] exI[of _ "?lm\<lparr>back_buffer := bb', screen := scr'\<rparr>"]) auto
qed

text \<open>The positions that a layer message asks to be drawn again.\<close>

definition to_redraw :: "LayerManager \<Rightarrow> LayerOperation \<Rightarrow> nat \<Rightarrow> Rectangle \<Rightarrow> Vector2D set" where
  "to_redraw lm op i area = {p. look lm i p \<noteq> None \<and> (op = LDrawArea \<longrightarrow> whole_window area \<or>
     in_rect (p - (case layer_view lm i of None \<Rightarrow> 0 | Some (pos, _) \<Rightarrow> pos)) area)}"

definition new_position :: "LayerOperation \<Rightarrow> Vector2D \<Rightarrow> Vector2D \<Rightarrow> Vector2D" where
  "new_position op arg_pos pos = (case op of LMove \<Rightarrow> arg_pos | LMoveRelative \<Rightarrow> pos + arg_pos | _ \<Rightarrow> pos)"

text \<open>C15: When the screen shows the layers but for the positions that a layer message asks to redraw, it shows
  them everywhere after \<open>ProcessLayerMessage\<close>: the topmost layer at each pixel, with the named layer where the message
  put it and every other layer, and their order, as before.\<close>

theorem ProcessLayerMessage_shows_layers:
  assumes "synced_but (to_redraw lm op i (Rect (Vec x y) (Vec w h))) lm" and "i \<in> set (layer_stack lm)"
    and "layer_view lm i = Some (pos, win)" and "op = LDrawArea \<longrightarrow> 0 \<le> w"
  shows "\<exists>lm'. ProcessLayerMessage \<lparr>src_task = t, arg = kLayer op i x y w h\<rparr> lm = Some lm' \<and> synced lm' \<and>
    layer_stack lm' = layer_stack lm \<and> layer_view lm' i = Some (new_position op (Vec x y) pos, win) \<and>
    (\<forall>j. j \<noteq> i \<longrightarrow> layer_view lm' j = layer_view lm j)"
proof -
  obtain l where l: "FindLayer lm i = Some l" "GetWindow lm l = Some win" "layer_pos l = pos"
    using assms(3) by (auto simp: layer_view_def bind_eq_Some_conv)
  have sync: "synced_but {p. look lm i p \<noteq> None} lm" using assms(1) by (rule synced_mono) (auto simp: to_redraw_def)
  note move = move_layer_sync[OF sync assms(2,3)]
  show ?thesis
  proof (cases op)
    case LMove
    have "Layer_Move i (Vec x y) = reposition (\<lambda>_. Vec x y) i" by (simp add: Layer_Move_def reposition_def)
    then show ?thesis using move[of "\<lambda>_. Vec x y"] l LMove assms(3)
      by (auto simp: ProcessLayerMessage_def LM_Move_def new_position_def reposition_view option.map_id)
  next
    case LMoveRelative
    have "Layer_MoveRelative i (Vec x y) = reposition (\<lambda>pos. pos + Vec x y) i"
      by (simp add: Layer_MoveRelative_def reposition_def)
    then show ?thesis using move[of "\<lambda>pos. pos + Vec x y"] l LMoveRelative assms(3)
      by (auto simp: ProcessLayerMessage_def LM_MoveRelative_def new_position_def reposition_view option.map_id)
  next
    case LDraw
    then show ?thesis using Draw_id_synced[OF sync assms(2,3)] assms(3)
      by (auto simp: ProcessLayerMessage_def new_position_def)
  next
    case LDrawArea
    let ?a = "Rect (Vec x y) (Vec w h)"
    obtain bb scr where 1: "Draw_id_area i ?a lm = Some (lm\<lparr>back_buffer := bb, screen := scr\<rparr>)"
      "synced_but {p \<in> to_redraw lm op i ?a. look lm i p = None \<or> \<not> whole_window ?a \<and> \<not> in_rect (p - pos) ?a}
        (lm\<lparr>back_buffer := bb, screen := scr\<rparr>)"
      using Draw_id_area_sync[OF assms(1-3), of ?a] assms(4) LDrawArea by auto
    have none: "{p \<in> to_redraw lm op i ?a. look lm i p = None \<or> \<not> whole_window ?a \<and> \<not> in_rect (p - pos) ?a} = {}"
      using assms(3) LDrawArea by (auto simp: to_redraw_def)
    show ?thesis using 1(1) 1(2)[unfolded none] assms(3) LDrawArea
      by (auto simp: ProcessLayerMessage_def new_position_def synced_def)
  qed
qed

subsection \<open>The layer under a position\<close>

text \<open>The layer that \<open>FindLayerByPosition\<close> finds is the one that is seen at the position: when its window is
  opaque and the excluded layer (the mouse cursor) shows nothing there, a screen that shows the layers has at that pixel
  the colour of this layer's window.\<close>

theorem FindLayerByPosition_seen:
  assumes "synced lm" and "in_rect p (fb_area (screen lm))" and "look lm excluded p = None"
    and "FindLayerByPosition lm p excluded = Some i" and "\<not> see_through lm i"
  shows "\<exists>pos w. layer_view lm i = Some (pos, w) \<and> i \<in> set (layer_stack lm) \<and>
    in_rect (p - pos) (win_area w) \<and> pixel (screen lm) p = win_pixel w (p - pos)"
proof -
  let ?at = "layer_at lm p excluded"
  have view: "?at j \<longleftrightarrow> j \<noteq> excluded \<and> (\<exists>pos w. layer_view lm j = Some (pos, w) \<and> in_rect (p - pos) (win_area w))" for j
  proof (cases "FindLayer lm j")
    case (Some l)
    then have "layer_id l = j" by (auto simp: FindLayer_def find_Some_iff)
    then show ?thesis using Some
      by (auto simp: layer_at_def layer_view_def in_rect_def win_area_def Let_def split: option.splits)
  qed (simp add: layer_at_def layer_view_def)
  obtain k where k: "k < length (layer_stack lm)" "?at (rev (layer_stack lm) ! k)" "i = rev (layer_stack lm) ! k"
    "\<forall>j < k. \<not> ?at (rev (layer_stack lm) ! j)"
    using assms(4) by (auto simp: FindLayerByPosition_def find_Some_iff)
  have "rev (layer_stack lm) = take k (rev (layer_stack lm)) @ i # drop (Suc k) (rev (layer_stack lm))"
    using k(1,3) id_take_nth_drop[of k "rev (layer_stack lm)"] by simp
  then obtain xs ys where st: "layer_stack lm = xs @ i # ys" "ys = rev (take k (rev (layer_stack lm)))"
    by (metis append_assoc append_Cons append_Nil rev.simps(2) rev_append rev_rev_ident)
  have "look lm j p = None" if "j \<in> set ys" for j
  proof -
    have "\<not> ?at j" using that k(4) by (auto simp: st(2) in_set_conv_nth)
    then show ?thesis using assms(3) view[of j]
      by (cases "j = excluded") (auto simp: look_def win_look_def split: option.splits)
  qed
  then have "first_some (\<lambda>i. look lm i p) ys = None" by (auto simp: first_some_None)
  then have vis: "visible lm p = (case look lm i p of None \<Rightarrow> first_some (\<lambda>i. look lm i p) xs | Some c \<Rightarrow> Some c)"
    by (simp add: visible_def st(1) first_some_append split: option.split)
  obtain pos w where w: "layer_view lm i = Some (pos, w)" "in_rect (p - pos) (win_area w)" using k(2,3) view[of i] by auto
  then have "look lm i p = Some (win_pixel w (p - pos))"
    using assms(5) by (auto simp: look_def win_look_def see_through_def)
  then have "pixel (screen lm) p = win_pixel w (p - pos)"
    using vis assms(1,2) by (auto simp: synced_def synced_but_def correct_def)
  then show ?thesis using w st(1) by auto
qed

subsection \<open>The order of the layers\<close>

text \<open>\<open>UpDown\<close> puts the layer at its height among the others, which keep their order.\<close>

lemma UpDown_stack:
  assumes "FindLayer lm i = Some l" and "distinct (layer_stack lm)" and "0 \<le> h"
  shows "UpDown i h lm = Some (lm\<lparr>layer_stack := list_insert (min (nat h) (length (remove1 i (layer_stack lm)))) i
    (remove1 i (layer_stack lm))\<rparr>)"
proof (cases "layer_stack lm")
  case (Cons a as)
  then have "length (layer_stack lm) = Suc (length as)" by simp
  then show ?thesis using assms by (auto simp: UpDown_def Let_def remove1_idem length_remove1 min_def)
qed (use assms in \<open>simp add: UpDown_def Let_def\<close>)

lemma list_insert_set [simp]: "set (list_insert n x xs) = insert x (set xs)"
proof -
  have "set (take n xs) \<union> set (drop n xs) = set xs" by (metis append_take_drop_id set_append)
  then show ?thesis by (auto simp: list_insert_def)
qed

lemma list_insert_distinct: "distinct xs \<Longrightarrow> x \<notin> set xs \<Longrightarrow> distinct (list_insert n x xs)"
proof -
  assume "distinct xs" "x \<notin> set xs"
  then have "distinct (take n xs @ drop n xs)" "x \<notin> set (take n xs @ drop n xs)" by simp_all
  then show ?thesis by (auto simp: list_insert_def simp del: append_take_drop_id)
qed

lemma height_in_append: "i \<notin> set xs \<Longrightarrow> height_in (xs @ i # ys) h i = h + int (length xs)"
  by (induction xs arbitrary: h) auto

lemma opaque_first_iff: "opaque_first t (xs @ ys) \<longleftrightarrow> opaque_first t xs \<and> opaque_first t ys \<and> ((\<exists>i \<in> set xs. t i) \<longrightarrow> (\<forall>j \<in> set ys. t j))"
  by (induction xs) auto

lemma opaque_first_remove1: "opaque_first t zs \<Longrightarrow> opaque_first t (remove1 i zs)"
proof (induction zs)
  case (Cons z zs)
  then show ?case using set_remove1_subset[of i zs] by auto
qed simp

subsection \<open>Activating a layer\<close>

text \<open>The title of a window fits into its bar and can be drawn.\<close>

definition title_fits :: "Fonts \<Rightarrow> Window \<Rightarrow> bool" where
  "title_fits fonts w \<longleftrightarrow> (case win_class w of None \<Rightarrow> True
     | Some (title, _) \<Rightarrow> (\<forall>active st. \<exists>ds. DrawWindowTitle fonts (win_width w) title active st = Some ds \<and>
         (\<forall>(p, c) \<in> set ds. in_rect p (win_area w))))"

lemma Window_Write_frame:
  "Window_Write w p c = Some w' \<Longrightarrow> transparent_color w' = transparent_color w \<and> win_class w' = win_class w \<and>
    pixel_format (shadow_buffer w') = pixel_format (shadow_buffer w)"
  by (auto simp: Window_Write_def FrameBuffer_Write_def store_bytes_def split: if_splits option.splits)

lemma draw_on_Window_frame:
  "draw_on Window_Write ds w = Some w' \<Longrightarrow> transparent_color w' = transparent_color w \<and> win_class w' = win_class w \<and>
    pixel_format (shadow_buffer w') = pixel_format (shadow_buffer w)"
  by (induction ds arbitrary: w) (auto split: option.splits dest: Window_Write_frame)

lemma redraw_title_ok:
  assumes "win_ok w" and "title_fits fonts w"
  shows "\<exists>w'. redraw_title fonts active st w = Some w' \<and> win_ok w' \<and> win_area w' = win_area w \<and>
    transparent_color w' = transparent_color w \<and> pixel_format (shadow_buffer w') = pixel_format (shadow_buffer w)"
proof (cases "win_class w")
  case (Some c)
  obtain title priv where c: "c = (title, priv)" by (cases c)
  let ?st = "if priv then isPrivilegedAndUnclosable else st"
  obtain ds where ds: "DrawWindowTitle fonts (win_width w) title active ?st = Some ds" "\<forall>(p, c) \<in> set ds. in_rect p (win_area w)"
    using assms(2) Some c by (simp add: title_fits_def) blast
  show ?thesis using window_writer.draw_ok[OF assms(1) ds(2)] ds(1) Some c draw_on_Window_frame[of ds w]
    by (auto simp: redraw_title_def)
qed (use assms in \<open>simp add: redraw_title_def\<close>)

definition unshared :: "LayerManager \<Rightarrow> bool" where
  "unshared lm \<longleftrightarrow> (\<forall>i j l l' q. FindLayer lm i = Some l \<longrightarrow> FindLayer lm j = Some l' \<longrightarrow>
     layer_window l = Some q \<longrightarrow> layer_window l' = Some q \<longrightarrow> i = j)"

definition activatable :: "Fonts \<Rightarrow> LayerManager \<Rightarrow> nat \<Rightarrow> bool" where
  "activatable fonts lm i \<longleftrightarrow> layer_ok lm i \<and>
     (\<exists>pos w. layer_view lm i = Some (pos, w) \<and> transparent_color w = None \<and> title_fits fonts w)"

text \<open>What a new title bar changes: the pixels of one window.\<close>

definition retitled :: "nat \<Rightarrow> LayerManager \<Rightarrow> LayerManager \<Rightarrow> bool" where
  "retitled i lm lm' \<longleftrightarrow> (\<exists>ws. lm' = lm\<lparr>windows := ws\<rparr>) \<and> (\<forall>j. j \<noteq> i \<longrightarrow> layer_view lm' j = layer_view lm j) \<and>
     (\<forall>j. layer_ok lm j \<longrightarrow> layer_ok lm' j) \<and> (\<forall>j. see_through lm' j = see_through lm j) \<and>
     (\<forall>p. look lm' i p = None \<longleftrightarrow> look lm i p = None) \<and> (layer_view lm i \<noteq> None \<longrightarrow> layer_view lm' i \<noteq> None)"

lemma window_update_retitled:
  assumes un: "unshared lm" and l: "FindLayer lm i = Some l" "layer_window l = Some q" "windows lm q = Some w"
    and w: "transparent_color w = None" and w': "win_ok w'" "win_area w' = win_area w" "transparent_color w' = None"
      "pixel_format (shadow_buffer w') = pixel_format (screen lm)"
  shows "retitled i lm (lm\<lparr>windows := (windows lm)(q \<mapsto> w')\<rparr>)"
proof -
  let ?lm = "lm\<lparr>windows := (windows lm)(q \<mapsto> w')\<rparr>"
  have F: "FindLayer ?lm j = FindLayer lm j" for j by (simp add: FindLayer_def)
  have vi: "layer_view ?lm i = Some (layer_pos l, w')" "layer_view lm i = Some (layer_pos l, w)"
    using l by (simp_all add: layer_view_def F GetWindow_def)
  have vj: "layer_view ?lm j = layer_view lm j" if "j \<noteq> i" for j
  proof (cases "FindLayer lm j")
    case (Some l')
    then have "layer_window l' \<noteq> Some q" using un l that by (auto simp: unshared_def)
    then show ?thesis using Some by (auto simp: layer_view_def F GetWindow_def bind_eq_Some_conv
      intro!: arg_cong[of _ _ "map_option (Pair (layer_pos l'))"] split: Option.bind_split)
  qed (simp add: layer_view_def F)
  have "layer_ok lm j \<Longrightarrow> layer_ok ?lm j" for j using w' by (auto simp: layer_ok_def F)
  moreover have "see_through ?lm j = see_through lm j" for j
    using vi vj[of j] w w' by (cases "j = i") (auto simp: see_through_def)
  moreover have "look ?lm i p = None \<longleftrightarrow> look lm i p = None" for p
    using w w' vi by (auto simp: look_def win_look_def)
  ultimately show ?thesis using vi vj unfolding retitled_def by auto
qed

lemma on_window_retitled:
  assumes un: "unshared lm" and act: "activatable fonts lm i"
  shows "\<exists>lm'. on_window i (redraw_title fonts active st) lm = Some lm' \<and> retitled i lm lm'"
proof -
  obtain pos w where w: "layer_view lm i = Some (pos, w)" "transparent_color w = None" "title_fits fonts w"
    using act by (auto simp: activatable_def)
  obtain l q where l: "FindLayer lm i = Some l" "layer_window l = Some q" "windows lm q = Some w"
    using w(1) by (auto simp: layer_view_def GetWindow_def bind_eq_Some_conv)
  have ok: "win_ok w" "pixel_format (shadow_buffer w) = pixel_format (screen lm)"
    using act l by (auto simp: activatable_def layer_ok_def)
  obtain w' where w': "redraw_title fonts active st w = Some w'" "win_ok w'" "win_area w' = win_area w"
    "transparent_color w' = None" "pixel_format (shadow_buffer w') = pixel_format (screen lm)"
    using redraw_title_ok[OF ok(1) w(3)] w(2) ok(2) by metis
  from window_update_retitled[OF un l w(2) w'(2-5)] show ?thesis
    using l w'(1) by (intro exI[of _ "lm\<lparr>windows := (windows lm)(q \<mapsto> w')\<rparr>"]) (auto simp: on_window_def)
qed

lemma retitled_frame:
  assumes "retitled i lm lm'"
  shows "screen lm' = screen lm" "back_buffer lm' = back_buffer lm" "layer_stack lm' = layer_stack lm"
    "layers lm' = layers lm" "FindLayer lm' j = FindLayer lm j" "unshared lm \<Longrightarrow> unshared lm'"
    "layers_ok lm \<Longrightarrow> layers_ok lm'"
proof -
  show 1: "screen lm' = screen lm" "back_buffer lm' = back_buffer lm" "layer_stack lm' = layer_stack lm" "layers lm' = layers lm"
    using assms by (auto simp: retitled_def)
  show 2: "FindLayer lm' j = FindLayer lm j" for j using 1 by (simp add: FindLayer_def)
  show "unshared lm \<Longrightarrow> unshared lm'" by (simp add: unshared_def 2)
  have "see_through lm' = see_through lm" using assms by (auto simp: retitled_def)
  then show "layers_ok lm \<Longrightarrow> layers_ok lm'" using assms 1 by (auto simp: layers_ok_def retitled_def)
qed

text \<open>Changes that concern one layer: its window, or its place on the stack.\<close>

lemma first_some_remove1: "f i = None \<Longrightarrow> first_some f (remove1 i xs) = first_some f xs"
  by (induction xs) (auto split: option.splits)

lemma one_layer_sync:
  assumes sync: "synced lm" and ok: "layers_ok lm'" and fb: "screen lm' = screen lm" "back_buffer lm' = back_buffer lm"
    and st: "remove1 i (layer_stack lm') = remove1 i (layer_stack lm)"
    and others: "\<And>j. j \<noteq> i \<Longrightarrow> layer_view lm' j = layer_view lm j"
    and area: "\<And>p. look lm' i p = None \<Longrightarrow> look lm i p = None \<or> i \<notin> set (layer_stack lm)"
    and d: "distinct (layer_stack lm)" "distinct (layer_stack lm')"
  shows "synced_but {p. look lm' i p \<noteq> None} lm'"
proof -
  have *: "visible lm'' p = first_some (\<lambda>j. look lm'' j p) (remove1 i (layer_stack lm''))"
    if "look lm'' i p = None \<or> i \<notin> set (layer_stack lm'')" for lm'' p
    using that first_some_remove1[of "\<lambda>j. look lm'' j p" i "layer_stack lm''"] by (auto simp: visible_def remove1_idem)
  have "visible lm' p = visible lm p" if "p \<notin> {p. look lm' i p \<noteq> None}" for p
  proof -
    have "visible lm' p = first_some (\<lambda>j. look lm' j p) (remove1 i (layer_stack lm))"
      using * st that by simp
    also have "\<dots> = first_some (\<lambda>j. look lm j p) (remove1 i (layer_stack lm))"
      using others d by (intro first_some_cong) (auto simp: look_def)
    also have "\<dots> = visible lm p" using * area that by simp
    finally show ?thesis .
  qed
  then have "synced_but ({} \<union> {p. look lm' i p \<noteq> None}) lm'"
    by (rule synced_change[OF sync[unfolded synced_def] ok fb])
  then show ?thesis by simp
qed

lemma retitled_sync:
  assumes sync: "synced lm" and un: "unshared lm" and r: "retitled i lm lm1" and i: "i \<in> set (layer_stack lm)"
    and v0: "layer_view lm i \<noteq> None"
  shows "\<exists>lm2. Draw_id i lm1 = Some lm2 \<and> synced lm2 \<and> windows lm2 = windows lm1 \<and>
    unshared lm2 \<and> layer_stack lm2 = layer_stack lm \<and> fb_area (screen lm2) = fb_area (screen lm) \<and> layers lm2 = layers lm \<and>
    (\<forall>j. j \<noteq> i \<longrightarrow> layer_view lm2 j = layer_view lm j) \<and> (\<forall>j. see_through lm2 j = see_through lm j) \<and>
    (\<forall>j. layer_ok lm j \<longrightarrow> layer_ok lm2 j) \<and> (\<forall>p. look lm2 i p = None \<longleftrightarrow> look lm i p = None) \<and>
    layer_view lm2 i = layer_view lm1 i \<and> pixel_format (screen lm2) = pixel_format (screen lm)"
proof -
  have ok: "layers_ok lm" using sync by (simp add: synced_def synced_but_def)
  note fr = retitled_frame[OF r]
  obtain pos w where v: "layer_view lm1 i = Some (pos, w)" using v0 r by (auto simp: retitled_def)
  have "synced_but {p. look lm1 i p \<noteq> None} lm1"
    using ok r fr(1-3) by (intro one_layer_sync[OF sync fr(7)[OF ok]]) (auto simp: layers_ok_def retitled_def)
  from Draw_id_synced[OF this, of pos w] v i fr(3) obtain bb scr where
    2: "Draw_id i lm1 = Some (lm1\<lparr>back_buffer := bb, screen := scr\<rparr>)" "fb_area scr = fb_area (screen lm1)"
    "synced (lm1\<lparr>back_buffer := bb, screen := scr\<rparr>)" by auto
  have fmt: "pixel_format scr = pixel_format (screen lm1)"
  proof -
    obtain l where "FindLayer lm1 i = Some l" "\<forall>q. layer_window l = Some q \<longrightarrow> (\<exists>w. windows lm1 q = Some w \<and> win_ok w \<and>
        pixel_format (shadow_buffer w) = pixel_format (screen lm1))"
      using fr(7)[OF ok] i fr(3) by (auto simp: layers_ok_def layer_ok_def)
    moreover obtain l' where "FindLayer lm1 i = Some l'" "\<forall>q. layer_window l' = Some q \<longrightarrow> (\<exists>w. windows lm1 q = Some w \<and> win_ok w \<and>
        pixel_format (shadow_buffer w) = pixel_format scr)"
      using 2(3) i fr(3) by (auto simp: layers_ok_def layer_ok_def synced_def synced_but_def FindLayer_def)
    moreover obtain q where "layer_window l = Some q" using v \<open>FindLayer lm1 i = Some l\<close>
      by (auto simp: layer_view_def GetWindow_def bind_eq_Some_conv)
    ultimately show ?thesis by (metis option.inject)
  qed
  then have "layer_ok lm j \<longrightarrow> layer_ok (lm1\<lparr>back_buffer := bb, screen := scr\<rparr>) j" for j
    using r by (simp add: layer_ok_buffers retitled_def)
  moreover have "unshared (lm1\<lparr>back_buffer := bb, screen := scr\<rparr>)" using fr(6)[OF un] by (simp add: unshared_def)
  ultimately show ?thesis using 2 fr(1-4) r fmt
    by (intro exI[of _ "lm1\<lparr>back_buffer := bb, screen := scr\<rparr>"]) (auto simp: retitled_def)
qed

lemma retitle_sync:
  assumes sync: "synced lm" and un: "unshared lm" and act: "activatable fonts lm i" and i: "i \<in> set (layer_stack lm)"
  shows "\<exists>lm1 lm2. on_window i (redraw_title fonts active st) lm = Some lm1 \<and> Draw_id i lm1 = Some lm2 \<and> synced lm2 \<and>
    unshared lm2 \<and> layer_stack lm2 = layer_stack lm \<and> fb_area (screen lm2) = fb_area (screen lm) \<and> layers lm2 = layers lm \<and>
    (\<forall>j. j \<noteq> i \<longrightarrow> layer_view lm2 j = layer_view lm j) \<and> (\<forall>j. see_through lm2 j = see_through lm j) \<and>
    (\<forall>j. layer_ok lm j \<longrightarrow> layer_ok lm2 j) \<and> (\<forall>p. look lm2 i p = None \<longleftrightarrow> look lm i p = None)"
proof -
  obtain lm1 where 1: "on_window i (redraw_title fonts active st) lm = Some lm1" "retitled i lm lm1"
    using on_window_retitled[OF un act] by blast
  have "layer_view lm i \<noteq> None" using act by (auto simp: activatable_def)
  from retitled_sync[OF sync un 1(2) i this] 1(1) show ?thesis by blast
qed

text \<open>The messages that an activation sends.\<close>

definition focus_messages :: "'f Desktop \<Rightarrow> nat \<Rightarrow> (nat \<times> Message) list" where
  "focus_messages d i =
     (case layer_task_map d (active_layer d) of
        Some t \<Rightarrow> if 0 < active_layer d then [(t, mk_Message (kWindowActive 0))] else [] | None \<Rightarrow> []) @
     (case layer_task_map d i of Some t \<Rightarrow> if 0 < i then [(t, mk_Message (kWindowActive 1))] else [] | None \<Rightarrow> [])"

lemma SendWindowActiveMessage_ok:
  assumes "sched_inv (task_manager d)"
  shows "\<exists>tm e. SendWindowActiveMessage i a d = Some (d\<lparr>task_manager := tm\<rparr>, e) \<and> sched_inv tm \<and>
    (\<forall>u. mailbox tm u = map_option (\<lambda>b. b @ sent_to u (case layer_task_map d i of
        None \<Rightarrow> [] | Some t \<Rightarrow> [(t, mk_Message (kWindowActive a))])) (mailbox (task_manager d) u))"
proof (cases "layer_task_map d i")
  case None
  then show ?thesis using assms
    by (intro exI[of _ "task_manager d"] exI[of _ kNoSuchTask]) (simp add: SendWindowActiveMessage_def option.map_ident)
next
  case (Some t)
  then show ?thesis using task_mail.send_any[OF assms, of t "mk_Message (kWindowActive a)"]
    by (auto simp: SendWindowActiveMessage_def option.map_comp comp_def intro!: option.map_cong split: if_splits)
qed

lemma Deactivate_active_ok:
  assumes sync: "synced (manager d)" and un: "unshared (manager d)" and inv: "sched_inv (task_manager d)"
    and act: "0 < active_layer d \<Longrightarrow> active_layer d \<in> set (layer_stack (manager d)) \<and> activatable fonts (manager d) (active_layer d)"
  shows "\<exists>lm tm. Deactivate_active fonts d = Some (d\<lparr>manager := lm, task_manager := tm\<rparr>) \<and> synced lm \<and> unshared lm \<and>
    sched_inv tm \<and> layer_stack lm = layer_stack (manager d) \<and> fb_area (screen lm) = fb_area (screen (manager d)) \<and>
    layers lm = layers (manager d) \<and>
    (\<forall>j. j \<noteq> active_layer d \<longrightarrow> layer_view lm j = layer_view (manager d) j) \<and>
    (\<forall>j. see_through lm j = see_through (manager d) j) \<and> (\<forall>j. layer_ok (manager d) j \<longrightarrow> layer_ok lm j) \<and>
    (\<forall>p. look lm (active_layer d) p = None \<longleftrightarrow> look (manager d) (active_layer d) p = None) \<and>
    (\<forall>u. mailbox tm u = map_option (\<lambda>b. b @ sent_to u (focus_messages d 0)) (mailbox (task_manager d) u))"
proof (cases "0 < active_layer d")
  case True
  let ?a = "active_layer d"
  obtain lm1 lm2 where 1: "on_window ?a (Window_Deactivate fonts) (manager d) = Some lm1" "Draw_id ?a lm1 = Some lm2" "synced lm2"
    "unshared lm2" "layer_stack lm2 = layer_stack (manager d)" "fb_area (screen lm2) = fb_area (screen (manager d))"
    "layers lm2 = layers (manager d)" "\<forall>j. j \<noteq> ?a \<longrightarrow> layer_view lm2 j = layer_view (manager d) j"
    "\<forall>j. see_through lm2 j = see_through (manager d) j" "\<forall>j. layer_ok (manager d) j \<longrightarrow> layer_ok lm2 j"
    "\<forall>p. look lm2 ?a p = None \<longleftrightarrow> look (manager d) ?a p = None"
    using retitle_sync[OF sync un, of fonts ?a False normal] act[OF True] by (auto simp: Window_Deactivate_def)
  have "sched_inv (task_manager (d\<lparr>manager := lm2\<rparr>))" using inv by simp
  from SendWindowActiveMessage_ok[OF this, of ?a 0] obtain tm e where
    2: "SendWindowActiveMessage ?a 0 (d\<lparr>manager := lm2\<rparr>) = Some (d\<lparr>manager := lm2, task_manager := tm\<rparr>, e)" "sched_inv tm"
    "\<forall>u. mailbox tm u = map_option (\<lambda>b. b @ sent_to u (case layer_task_map d ?a of
        None \<Rightarrow> [] | Some t \<Rightarrow> [(t, mk_Message (kWindowActive 0))])) (mailbox (task_manager d) u)" by auto
  have "focus_messages d 0 = (case layer_task_map d ?a of None \<Rightarrow> [] | Some t \<Rightarrow> [(t, mk_Message (kWindowActive 0))])"
    using True by (simp add: focus_messages_def split: option.split)
  then show ?thesis using 1 2 True
    by (intro exI[of _ lm2] exI[of _ tm]) (simp add: Deactivate_active_def)
next
  case False
  then show ?thesis using assms
    by (intro exI[of _ "manager d"] exI[of _ "task_manager d"])
      (auto simp: Deactivate_active_def focus_messages_def option.map_ident split: option.splits)
qed

text \<open>C16: Activating a layer redraws the title bars of the old and the new active window, puts the new one directly below
  the mouse layer with the order of all others unchanged, tells both tasks in this order, and leaves a screen that shows
  the layers.\<close>

theorem Activate_raises_layer:
  assumes sync: "synced (manager d)" and un: "unshared (manager d)" and inv: "sched_inv (task_manager d)"
    and old: "0 < active_layer d \<Longrightarrow> active_layer d \<in> set (layer_stack (manager d)) \<and> activatable fonts (manager d) (active_layer d)"
    and new: "0 < i" "active_layer d \<noteq> i" "activatable fonts (manager d) i"
    and st: "remove1 i (layer_stack (manager d)) = xs @ mouse_layer d # ys"
    and xs: "\<forall>j \<in> set xs. \<not> see_through (manager d) j"
  shows "\<exists>d'. Activate fonts i d = Some d' \<and> synced (manager d') \<and> active_layer d' = i \<and>
    layer_stack (manager d') = xs @ i # mouse_layer d # ys \<and>
    (\<forall>u. mailbox (task_manager d') u = map_option (\<lambda>b. b @ sent_to u (focus_messages d i)) (mailbox (task_manager d) u))"
proof -
  let ?m = "mouse_layer d"
  obtain lm tm where 1: "Deactivate_active fonts d = Some (d\<lparr>manager := lm, task_manager := tm\<rparr>)" "synced lm" "unshared lm"
    "sched_inv tm" "layer_stack lm = layer_stack (manager d)" "layers lm = layers (manager d)"
    "\<forall>j. j \<noteq> active_layer d \<longrightarrow> layer_view lm j = layer_view (manager d) j"
    "\<forall>j. see_through lm j = see_through (manager d) j" "\<forall>j. layer_ok (manager d) j \<longrightarrow> layer_ok lm j"
    "\<forall>u. mailbox tm u = map_option (\<lambda>b. b @ sent_to u (focus_messages d 0)) (mailbox (task_manager d) u)"
    using Deactivate_active_ok[OF sync un inv old] by blast
  have "activatable fonts lm i" using new 1(7,9) by (simp add: activatable_def)
  from on_window_retitled[OF 1(3) this] obtain lm1 where
    2: "on_window i (Window_Activate fonts) lm = Some lm1" "retitled i lm lm1" by (auto simp: Window_Activate_def)
  note fr = retitled_frame[OF 2(2)]
  have ok: "layers_ok lm" using 1(2) by (simp add: synced_def synced_but_def)
  have d: "distinct (layer_stack lm)" using ok by (simp add: layers_ok_def)
  have st': "remove1 i (layer_stack lm1) = xs @ ?m # ys" using st 1(5) fr(3) by simp
  have nodup: "distinct (xs @ ?m # ys)" "i \<notin> set (xs @ ?m # ys)"
    using distinct_remove1[OF d, of i] set_remove1_eq[OF d, of i] st 1(5) by auto
  define lm3 where "lm3 = lm1\<lparr>layer_stack := xs @ i # ?m # ys\<rparr>"
  have v3 [simp]: "layer_view lm3 j = layer_view lm1 j" "layer_ok lm3 j = layer_ok lm1 j" "see_through lm3 j = see_through lm j"
    "look lm3 j p = look lm1 j p" "layer_stack lm3 = xs @ i # ?m # ys" "screen lm3 = screen lm" "back_buffer lm3 = back_buffer lm" for j p
    using 2(2) fr(1,2) by (simp_all add: lm3_def layer_view_def FindLayer_def GetWindow_def layer_ok_def see_through_def look_def retitled_def)
  have see: "see_through lm3 = see_through lm" by (rule ext) simp
  have up: "\<exists>lm2. UpDown i 0 lm1 = Some lm2 \<and> UpDown i (GetHeight lm2 ?m - 1) lm2 = Some lm3"
  proof -
    obtain l where l: "FindLayer lm1 i = Some l" using new(3) 1(6) fr(4) by (auto simp: activatable_def layer_ok_def FindLayer_def)
    let ?lm2 = "lm1\<lparr>layer_stack := i # xs @ ?m # ys\<rparr>"
    have "UpDown i 0 lm1 = Some ?lm2" using UpDown_stack[OF l, of 0] d fr(3) st' by (simp add: list_insert_def)
    moreover have "GetHeight ?lm2 ?m - 1 = int (length xs)"
      using height_in_append[of ?m "i # xs" ys 0] nodup by (simp add: GetHeight_def)
    moreover have "UpDown i (int (length xs)) ?lm2 = Some lm3"
      using UpDown_stack[of ?lm2 i l "int (length xs)"] l nodup by (simp add: FindLayer_def list_insert_def lm3_def)
    ultimately show ?thesis by auto
  qed
  have "layers_ok lm3"
  proof -
    have "\<forall>j \<in> set (xs @ ?m # ys). layer_ok lm1 j"
      using ok 2(2) st 1(5) set_remove1_subset[of i "layer_stack lm"] by (auto simp: layers_ok_def retitled_def)
    moreover have "layer_ok lm1 i" using new(3) 1(9) 2(2) by (simp add: activatable_def retitled_def)
    moreover have "opaque_first (see_through lm) (xs @ i # ?m # ys)"
    proof -
      have "opaque_first (see_through lm) (xs @ ?m # ys)"
        using opaque_first_remove1[of "see_through lm" "layer_stack lm" i] ok st 1(5) by (simp add: layers_ok_def)
      moreover have "\<not> see_through lm i" using new(3) 1(8) by (auto simp: activatable_def see_through_def)
      ultimately show ?thesis using xs 1(8) by (auto simp: opaque_first_iff)
    qed
    ultimately show ?thesis using ok nodup fr(1,2) by (auto simp: layers_ok_def see)
  qed
  then have "synced_but {p. look lm3 i p \<noteq> None} lm3"
    using 2(2) st 1(5) nodup d by (intro one_layer_sync[OF 1(2)]) (auto simp: retitled_def remove1_append)
  moreover obtain pos w where "layer_view lm3 i = Some (pos, w)"
    using \<open>activatable fonts lm i\<close> 2(2) by (auto simp: activatable_def retitled_def)
  ultimately obtain bb scr where 4: "Draw_id i lm3 = Some (lm3\<lparr>back_buffer := bb, screen := scr\<rparr>)"
    "synced (lm3\<lparr>back_buffer := bb, screen := scr\<rparr>)" using Draw_id_synced[of lm3 i pos w] by auto
  let ?d = "d\<lparr>task_manager := tm, active_layer := i, manager := lm3\<lparr>back_buffer := bb, screen := scr\<rparr>\<rparr>"
  have "sched_inv (task_manager ?d)" using 1(4) by simp
  from SendWindowActiveMessage_ok[OF this, of i 1] obtain tm' e where
    5: "SendWindowActiveMessage i 1 ?d = Some (?d\<lparr>task_manager := tm'\<rparr>, e)" "sched_inv tm'"
    "\<forall>u. mailbox tm' u = map_option (\<lambda>b. b @ sent_to u (case layer_task_map d i of
        None \<Rightarrow> [] | Some t \<Rightarrow> [(t, mk_Message (kWindowActive 1))])) (mailbox tm u)" by auto
  have "focus_messages d i = focus_messages d 0 @ (case layer_task_map d i of None \<Rightarrow> [] | Some t \<Rightarrow> [(t, mk_Message (kWindowActive 1))])"
    using new(1) by (simp add: focus_messages_def split: option.split)
  then have "mailbox tm' u = map_option (\<lambda>b. b @ sent_to u (focus_messages d i)) (mailbox (task_manager d) u)" for u
    using 5(3) 1(10) by (simp add: option.map_comp comp_def)
  moreover have "Activate fonts i d = Some (?d\<lparr>task_manager := tm'\<rparr>)"
    using new(1,2) 1(1) 2(1) up 4(1) 5(1) by (auto simp: Activate_def)
  ultimately show ?thesis using 4(2) by (intro exI[of _ "?d\<lparr>task_manager := tm'\<rparr>"]) simp
qed

subsection \<open>Closing a layer\<close>

lemma find_filter: "(\<And>x. P x \<Longrightarrow> Q x) \<Longrightarrow> find P (filter Q xs) = find P xs"
  by (induction xs) auto

text \<open>C17: Closing a layer that is not the mouse cursor takes the focus from the active window, removes the layer and its
  task entry, keeps the others in their order and leaves a screen that shows the remaining layers.\<close>

theorem CloseLayer_shows_rest:
  assumes sync: "synced (manager d)" and un: "unshared (manager d)" and inv: "sched_inv (task_manager d)"
    and old: "0 < active_layer d \<Longrightarrow> active_layer d \<in> set (layer_stack (manager d)) \<and> activatable fonts (manager d) (active_layer d)"
    and i: "layer_view (manager d) i = Some (pos, w)" "win_ok w"
  shows "\<exists>d'. CloseLayer fonts i d = Some (d', kSuccess) \<and> synced (manager d') \<and> active_layer d' = 0 \<and>
    FindLayer (manager d') i = None \<and> layer_stack (manager d') = remove1 i (layer_stack (manager d)) \<and>
    (\<forall>j. j \<noteq> i \<longrightarrow> FindLayer (manager d') j = FindLayer (manager d) j) \<and>
    layer_task_map d' = (layer_task_map d)(i := None)"
proof -
  obtain lm tm where 1: "Deactivate_active fonts d = Some (d\<lparr>manager := lm, task_manager := tm\<rparr>)" "synced lm"
    "layer_stack lm = layer_stack (manager d)" "layers lm = layers (manager d)"
    "\<forall>j. j \<noteq> active_layer d \<longrightarrow> layer_view lm j = layer_view (manager d) j"
    "\<forall>p. look lm (active_layer d) p = None \<longleftrightarrow> look (manager d) (active_layer d) p = None"
    using Deactivate_active_ok[OF sync un inv old] by blast
  obtain l where l: "FindLayer (manager d) i = Some l" "GetWindow (manager d) l = Some w" "pos = layer_pos l"
    using i(1) by (auto simp: layer_view_def bind_eq_Some_conv)
  let ?area = "Rect pos (Window_Size w)"
  define lm1 where "lm1 = RemoveLayer i lm"
  have lm1: "lm1 = lm\<lparr>layer_stack := remove1 i (layer_stack lm), layers := filter (\<lambda>l. layer_id l \<noteq> i) (layers lm)\<rparr>"
    using l(1) 1(4) by (simp add: lm1_def RemoveLayer_def Hide_def FindLayer_def Let_def)
  have F: "FindLayer lm1 j = (if j = i then None else FindLayer (manager d) j)" for j
    using find_filter[of "\<lambda>l. layer_id l = j" "\<lambda>l. layer_id l \<noteq> i"] 1(4) by (auto simp: lm1 FindLayer_def find_None_iff)
  have W: "windows lm1 = windows lm" "layer_stack lm1 = remove1 i (layer_stack lm)" "screen lm1 = screen lm"
    "back_buffer lm1 = back_buffer lm" by (simp_all add: lm1)
  have FL: "FindLayer lm j = FindLayer (manager d) j" for j using 1(4) by (simp add: FindLayer_def)
  have V: "layer_view lm1 j = (if j = i then None else layer_view lm j)" for j
    by (simp add: layer_view_def F FL GetWindow_def W)
  have ok: "layers_ok lm" using 1(2) by (simp add: synced_def synced_but_def)
  have ok1: "layers_ok lm1"
  proof -
    have "layer_ok lm1 j" if "layer_ok lm j" "j \<noteq> i" for j using that by (simp add: layer_ok_def F FL W)
    moreover have "opaque_first (see_through lm1) js" if "opaque_first (see_through lm) js" "i \<notin> set js" for js
      using that by (induction js) (auto simp: see_through_def V split: option.splits)
    ultimately show ?thesis using ok opaque_first_remove1[of "see_through lm" "layer_stack lm" i]
      by (simp add: layers_ok_def W)
  qed
  have "visible lm1 p = visible lm p" if "p \<notin> {p. look lm i p \<noteq> None}" for p
  proof -
    have "first_some (\<lambda>j. look lm1 j p) (remove1 i (layer_stack lm)) = first_some (\<lambda>j. look lm j p) (remove1 i (layer_stack lm))"
      using ok by (intro first_some_cong) (auto simp: look_def V layers_ok_def)
    then show ?thesis using that first_some_remove1[of "\<lambda>j. look lm j p" i "layer_stack lm"] by (simp add: visible_def W)
  qed
  then have "synced_but ({} \<union> {p. look lm i p \<noteq> None}) lm1"
    by (rule synced_change[OF 1(2)[unfolded synced_def] ok1 W(3,4)])
  moreover have a: "0 \<le> vx (rsize ?area)" using i(2) by (simp add: win_ok_def Window_Size_def)
  ultimately obtain bb scr where 2: "Draw_area ?area lm1 = Some (lm1\<lparr>back_buffer := bb, screen := scr\<rparr>)"
    "synced_but {p \<in> {} \<union> {p. look lm i p \<noteq> None}. \<not> in_rect p ?area} (lm1\<lparr>back_buffer := bb, screen := scr\<rparr>)"
    using Draw_area_sync by blast
  have "look lm i p = None" if "\<not> in_rect p ?area" for p
  proof -
    have "look (manager d) i p = None" using that i(1) by (auto simp: look_def win_look_def in_rect_def win_area_def)
    then show ?thesis using 1(5,6) by (cases "i = active_layer d") (auto simp: look_def)
  qed
  then have none: "{p \<in> {} \<union> {p. look lm i p \<noteq> None}. \<not> in_rect p ?area} = {}" by auto
  have act: "\<exists>tm. Activate fonts 0 d = Some (d\<lparr>manager := lm, task_manager := tm, active_layer := 0\<rparr>)"
  proof (cases "active_layer d = 0")
    case True
    then have "d\<lparr>active_layer := 0\<rparr> = d" by (cases d) simp
    moreover have "d\<lparr>manager := lm, task_manager := tm\<rparr> = d" using 1(1) True by (simp add: Deactivate_active_def)
    ultimately have "d\<lparr>manager := lm, task_manager := tm, active_layer := 0\<rparr> = d" by simp
    then show ?thesis using True by (intro exI[of _ tm]) (simp add: Activate_def)
  qed (use 1(1) in \<open>auto simp: Activate_def\<close>)
  show ?thesis using l 2(1) 2(2)[unfolded none] act 1(3) F
    by (auto simp: CloseLayer_def synced_def lm1_def[symmetric]) (simp_all add: W)
qed

subsection \<open>A desktop to try the operations on\<close>

text \<open>A background, a window and the mouse cursor, whose only pixel is transparent, on a small black screen.\<close>

definition sample_fb :: FrameBufferConfig where
  "sample_fb = shadow_buffer (new_Window 3 2 kPixelBGRResv8BitPerColor)"

definition sample_lm :: LayerManager where
  "sample_lm = \<lparr>screen = sample_fb, back_buffer = sample_fb,
     layers = [\<lparr>layer_id = 1, layer_pos = Vec 0 0, layer_window = Some 1, layer_draggable = False\<rparr>,
               \<lparr>layer_id = 2, layer_pos = Vec 1 0, layer_window = Some 2, layer_draggable = True\<rparr>,
               \<lparr>layer_id = 3, layer_pos = Vec 0 1, layer_window = Some 3, layer_draggable = False\<rparr>],
     layer_stack = [1, 2, 3], latest_layer_id = 3,
     windows = [1 \<mapsto> new_Window 3 2 kPixelBGRResv8BitPerColor, 2 \<mapsto> new_Window 2 1 kPixelBGRResv8BitPerColor,
       3 \<mapsto> SetTransparentColor (Some (Color 0 0 0)) (new_Window 1 1 kPixelBGRResv8BitPerColor)]\<rparr>"

lemma sample_fb_ok: "fb_ok sample_fb" "fb_area sample_fb = Rect (Vec 0 0) (Vec 3 2)"
    "pixel_format sample_fb = kPixelBGRResv8BitPerColor"
    "in_rect p (Rect (Vec 0 0) (Vec 3 2)) \<Longrightarrow> pixel sample_fb p = Color 0 0 0"
  using new_Window_ok[of 3 2 kPixelBGRResv8BitPerColor, simplified] by (auto simp: sample_fb_def win_ok_def)

lemma sample_windows:
  "win_ok (new_Window 3 2 kPixelBGRResv8BitPerColor)" "win_ok (new_Window 2 1 kPixelBGRResv8BitPerColor)"
  "win_ok (SetTransparentColor (Some (Color 0 0 0)) (new_Window 1 1 kPixelBGRResv8BitPerColor))"
proof -
  show "win_ok (new_Window 3 2 kPixelBGRResv8BitPerColor)" "win_ok (new_Window 2 1 kPixelBGRResv8BitPerColor)"
    by (rule new_Window_ok(1); simp)+
  have "win_ok (new_Window 1 1 kPixelBGRResv8BitPerColor)" by (rule new_Window_ok(1); simp)
  then show "win_ok (SetTransparentColor (Some (Color 0 0 0)) (new_Window 1 1 kPixelBGRResv8BitPerColor))"
    by (simp add: SetTransparentColor_def win_ok_def win_area_def Window_Size_def win_pixel_def)
qed

lemma sample_view:
  "layer_view sample_lm 1 = Some (Vec 0 0, new_Window 3 2 kPixelBGRResv8BitPerColor)"
  "layer_view sample_lm 2 = Some (Vec 1 0, new_Window 2 1 kPixelBGRResv8BitPerColor)"
  "layer_view sample_lm 3 = Some (Vec 0 1, SetTransparentColor (Some (Color 0 0 0)) (new_Window 1 1 kPixelBGRResv8BitPerColor))"
  "i \<notin> {1, 2, 3} \<Longrightarrow> layer_view sample_lm i = None"
  by (auto simp: layer_view_def sample_lm_def FindLayer_def GetWindow_def)

lemma sample_layers_ok: "layers_ok sample_lm"
proof -
  have 1: "layer_ok sample_lm i" if "i \<in> {1, 2, 3}" for i
    using that sample_windows new_Window_ok(3)[of 3 2 kPixelBGRResv8BitPerColor] new_Window_ok(3)[of 2 1 kPixelBGRResv8BitPerColor]
      new_Window_ok(3)[of 1 1 kPixelBGRResv8BitPerColor] sample_fb_ok(3)
    by (auto simp: layer_ok_def sample_lm_def FindLayer_def SetTransparentColor_def)
  have "opaque_first (see_through sample_lm) [1, 2, 3]"
    using sample_view by (simp add: see_through_def new_Window_def)
  with 1 show ?thesis using sample_fb_ok by (simp add: layers_ok_def) (simp add: sample_lm_def)
qed

lemma black_synced:
  assumes ok: "layers_ok lm"
    and wins: "\<And>i pos w. layer_view lm i = Some (pos, w) \<Longrightarrow>
      win_data w = replicate (nat (win_height w)) (replicate (nat (win_width w)) (Color 0 0 0))"
    and fbs: "\<And>fb p. fb \<in> {screen lm, back_buffer lm} \<Longrightarrow> in_rect p (fb_area (screen lm)) \<Longrightarrow> pixel fb p = Color 0 0 0"
  shows "synced lm"
proof -
  have black: "c = Color 0 0 0" if lk: "look lm i p = Some c" for i p c
  proof -
    obtain pos w where w: "layer_view lm i = Some (pos, w)" "win_look w pos p = Some c"
      using lk by (auto simp: look_def split: option.splits)
    from wins[OF w(1)] w(2) show ?thesis
      by (auto simp: win_look_def win_pixel_def in_rect_def win_area_def Window_Size_def split: if_splits)
  qed
  have "\<exists>i. look lm i p = Some c" if v: "visible lm p = Some c" for p c
  proof -
    have "first_some f xs = Some c \<Longrightarrow> \<exists>i. f i = Some c" for f xs
      by (induction xs) (auto split: option.splits)
    then show ?thesis using v by (auto simp: visible_def)
  qed
  with black have "visible lm p = Some c \<Longrightarrow> c = Color 0 0 0" for p c by blast
  then show ?thesis using fbs ok by (auto simp: synced_def synced_but_def correct_def)
qed

lemma sample_synced: "synced sample_lm"
proof (rule black_synced[OF sample_layers_ok])
  fix i pos w assume w: "layer_view sample_lm i = Some (pos, w)"
  then have "i \<in> {1, 2, 3}" using sample_view(4)[of i] by force
  then show "win_data w = replicate (nat (win_height w)) (replicate (nat (win_width w)) (Color 0 0 0))"
    using w sample_view(1-3)
    by (elim insertE) (simp_all add: new_Window_def SetTransparentColor_def split: prod.splits, auto)
qed (use sample_fb_ok in \<open>auto simp: sample_lm_def\<close>)

theorem ProcessLayerMessage_shows_layers_witness:
  "\<exists>lm'. ProcessLayerMessage \<lparr>src_task = 1, arg = kLayer LMoveRelative 2 (- 1) 1 0 0\<rparr> sample_lm = Some lm' \<and> synced lm' \<and>
    layer_view lm' 2 = Some (Vec 0 1, new_Window 2 1 kPixelBGRResv8BitPerColor)"
proof -
  have 1: "synced_but (to_redraw sample_lm LMoveRelative 2 (Rect (Vec (- 1) 1) (Vec 0 0))) sample_lm"
    using sample_synced unfolding synced_def by (rule synced_mono) simp
  have 2: "2 \<in> set (layer_stack sample_lm)" by (simp add: sample_lm_def)
  have "Vec 1 0 + Vec (- 1) 1 = Vec 0 1" by (simp add: plus_Vector2D_def)
  then show ?thesis
    using ProcessLayerMessage_shows_layers[OF 1 2 sample_view(2), of 1] by (auto simp: new_position_def)
qed

theorem FindLayerByPosition_seen_witness:
  "\<exists>pos w. layer_view sample_lm 2 = Some (pos, w) \<and> 2 \<in> set (layer_stack sample_lm) \<and>
    in_rect (Vec 2 0 - pos) (win_area w) \<and> pixel (screen sample_lm) (Vec 2 0) = win_pixel w (Vec 2 0 - pos)"
proof (rule FindLayerByPosition_seen[OF sample_synced, of _ 3])
  show "in_rect (Vec 2 0) (fb_area (screen sample_lm))" using sample_fb_ok by (simp add: sample_lm_def in_rect_def)
  show "look sample_lm 3 (Vec 2 0) = None"
    by (simp add: look_def sample_view win_look_def win_area_def in_rect_def Window_Size_def SetTransparentColor_def new_Window_def)
  show "FindLayerByPosition sample_lm (Vec 2 0) 3 = Some 2"
    by (simp add: FindLayerByPosition_def sample_lm_def layer_at_def FindLayer_def GetWindow_def Let_def
      SetTransparentColor_def new_Window_def Window_Size_def)
  show "\<not> see_through sample_lm 2" by (simp add: see_through_def sample_view new_Window_def)
qed

definition sample_desktop :: "unit Desktop" where
  "sample_desktop = \<lparr>manager = sample_lm, active_layer = 1, mouse_layer = 3, layer_task_map = [2 \<mapsto> 1],
     task_manager = new_TaskManager 0 0 0\<rparr>"

lemma sample_unshared: "unshared sample_lm"
  by (auto simp: unshared_def sample_lm_def FindLayer_def split: if_splits)

lemma sample_activatable: "activatable fonts sample_lm 1" "activatable fonts sample_lm 2"
proof -
  have "layer_ok sample_lm 1" "layer_ok sample_lm 2" using sample_layers_ok by (simp_all add: layers_ok_def) (simp_all add: sample_lm_def)
  then show "activatable fonts sample_lm 1" "activatable fonts sample_lm 2"
    using sample_view(1,2) by (simp_all add: activatable_def title_fits_def new_Window_def)
qed

theorem Activate_raises_layer_witness:
  "\<exists>d'. Activate sample_fonts 2 sample_desktop = Some d' \<and> synced (manager d') \<and> active_layer d' = 2 \<and>
    layer_stack (manager d') = [1, 2, 3] \<and>
    mailbox (task_manager d') 1 = map_option (\<lambda>b. b @ [mk_Message (kWindowActive 1)]) (mailbox (task_manager sample_desktop) 1)"
proof -
  note d = sample_desktop_def
  have "\<exists>d'. Activate sample_fonts 2 sample_desktop = Some d' \<and> synced (manager d') \<and> active_layer d' = 2 \<and>
    layer_stack (manager d') = [1] @ 2 # mouse_layer sample_desktop # [] \<and>
    (\<forall>u. mailbox (task_manager d') u = map_option (\<lambda>b. b @ sent_to u (focus_messages sample_desktop 2))
      (mailbox (task_manager sample_desktop) u))"
  proof (rule Activate_raises_layer)
    show "synced (manager sample_desktop)" "unshared (manager sample_desktop)" "sched_inv (task_manager sample_desktop)"
      using sample_synced sample_unshared new_TaskManager_ok by (simp_all add: d)
    show "active_layer sample_desktop \<in> set (layer_stack (manager sample_desktop)) \<and>
      activatable sample_fonts (manager sample_desktop) (active_layer sample_desktop)"
      using sample_activatable(1) by (simp add: d) (simp add: sample_lm_def)
    show "activatable sample_fonts (manager sample_desktop) 2" using sample_activatable(2) by (simp add: d)
    show "remove1 2 (layer_stack (manager sample_desktop)) = [1] @ mouse_layer sample_desktop # []"
      by (simp add: d sample_lm_def)
    show "\<forall>j \<in> set [1]. \<not> see_through (manager sample_desktop) j"
      using sample_view(1) by (simp add: d see_through_def new_Window_def)
  qed (simp_all add: d)
  moreover have "sent_to 1 (focus_messages sample_desktop 2) = [mk_Message (kWindowActive 1)]" by (simp add: focus_messages_def d)
  ultimately show ?thesis by (auto simp: d)
qed

theorem CloseLayer_shows_rest_witness:
  "\<exists>d'. CloseLayer sample_fonts 2 sample_desktop = Some (d', kSuccess) \<and> synced (manager d') \<and>
    layer_stack (manager d') = [1, 3] \<and> layer_task_map d' 2 = None"
proof -
  have "0 < active_layer sample_desktop \<Longrightarrow> active_layer sample_desktop \<in> set (layer_stack (manager sample_desktop)) \<and>
      activatable sample_fonts (manager sample_desktop) (active_layer sample_desktop)"
    using sample_activatable(1) by (simp add: sample_desktop_def) (simp add: sample_lm_def)
  from CloseLayer_shows_rest[OF _ _ _ this, of 2 "Vec 1 0" "new_Window 2 1 kPixelBGRResv8BitPerColor"]
  have "\<exists>d'. CloseLayer sample_fonts 2 sample_desktop = Some (d', kSuccess) \<and> synced (manager d') \<and> active_layer d' = 0 \<and>
    FindLayer (manager d') 2 = None \<and> layer_stack (manager d') = remove1 2 (layer_stack (manager sample_desktop)) \<and>
    (\<forall>j. j \<noteq> 2 \<longrightarrow> FindLayer (manager d') j = FindLayer (manager sample_desktop) j) \<and>
    layer_task_map d' = (layer_task_map sample_desktop)(2 := None)"
    by (simp add: sample_desktop_def sample_synced sample_unshared new_TaskManager_ok sample_view(2) sample_windows(2))
  then show ?thesis by (auto simp: sample_desktop_def sample_lm_def)
qed

end
