(* ===== verification/Console.thy ===== *)
theory Console
  imports Layer
begin

text \<open>
  The kernel console, \<^verbatim>\<open>kernel/console.hpp\<close> and \<^verbatim>\<open>kernel/console.cpp\<close>, and \<open>InitializeLayer\<close>, which gives it a
  window. An operation returns the console and, in order, what it does to its writer, its window and its layer.
  \<open>None\<close> is a character loop that leaves the buffer or does not end.
\<close>

definition kRows :: nat where "kRows = 25"
definition kColumns :: nat where "kColumns = 80"

lemma console_size [simp]: "0 < kRows" "0 < kColumns"
  by (simp_all add: kRows_def kColumns_def)

datatype ConsoleEffect = Draws Drawing | MoveLines Vector2D Rectangle | DrawLayer nat

text \<open>\<open>con_writer\<close> is the screen writer (\<open>None\<close>) or the writer of a window.\<close>

record Console =
  con_writer :: "nat option"
  con_window :: "nat option"
  fg_color :: PixelColor
  bg_color :: PixelColor
  con_buffer :: "u8 list list"
  cursor_row :: nat
  cursor_column :: nat
  con_layer_id :: nat

definition new_Console :: "PixelColor \<Rightarrow> PixelColor \<Rightarrow> Console" where
  "new_Console fg bg = \<lparr>con_writer = None, con_window = None, fg_color = fg, bg_color = bg,
     con_buffer = replicate kRows (replicate (kColumns + 1) 0), cursor_row = 0, cursor_column = 0, con_layer_id = 0\<rparr>"

text \<open>A row is drawn as a string: it ends at the first zero, which may be in a later row of the array.\<close>

definition draw_row :: "Fonts \<Rightarrow> Console \<Rightarrow> nat \<Rightarrow> Drawing option" where
  "draw_row fonts con row = map_option fst
     (WriteUTF8String fonts (Vec 0 (16 * int row)) (concat (drop row (con_buffer con))) (fg_color con))"

text \<open>The loop that scrolls the text when there is no window; \<open>n\<close> rows are left.\<close>

fun scroll_rows :: "Fonts \<Rightarrow> nat \<Rightarrow> Console \<Rightarrow> (Console \<times> Drawing) option" where
  "scroll_rows fonts 0 con = Some (con, [])"
| "scroll_rows fonts (Suc n) con = do {
     let row = kRows - 1 - Suc n;
     let con1 = con\<lparr>con_buffer := (con_buffer con)[row := con_buffer con ! (row + 1)]\<rparr>;
     d \<leftarrow> draw_row fonts con1 row;
     (con2, ds) \<leftarrow> scroll_rows fonts n con1;
     Some (con2, d @ ds) }"

definition Newline :: "Fonts \<Rightarrow> Console \<Rightarrow> (Console \<times> ConsoleEffect list) option" where
  "Newline fonts con =
     (let con0 = con\<lparr>cursor_column := 0\<rparr>;
          cw = int (8 * kColumns)
      in if cursor_row con0 < kRows - 1 then Some (con0\<lparr>cursor_row := cursor_row con0 + 1\<rparr>, [])
         else case con_window con0 of
           Some _ \<Rightarrow> Some (con0, [MoveLines (Vec 0 0) (Rect (Vec 0 16) (Vec cw (16 * (int kRows - 1)))),
             Draws (FillRectangle (Vec 0 (16 * (int kRows - 1))) (Vec cw 16) (bg_color con0))])
         | None \<Rightarrow> do {
             (con1, ds) \<leftarrow> scroll_rows fonts (kRows - 1) con0;
             Some (con1\<lparr>con_buffer := (con_buffer con1)[kRows - 1 := replicate (kColumns + 1) 0]\<rparr>,
               [Draws (FillRectangle (Vec 0 0) (Vec cw (16 * int kRows)) (bg_color con0) @ ds)]) })"

definition put_char :: "Fonts \<Rightarrow> u8 \<Rightarrow> Console \<Rightarrow> (Console \<times> ConsoleEffect list) option" where
  "put_char fonts c con =
     (if c = 10 then Newline fonts con
      else if cursor_column con < kColumns - 1
      then Some (con\<lparr>con_buffer := (con_buffer con)[cursor_row con := (con_buffer con ! cursor_row con)[cursor_column con := c]],
                     cursor_column := cursor_column con + 1\<rparr>,
             [Draws (WriteAscii fonts (Vec (8 * int (cursor_column con)) (16 * int (cursor_row con))) c (fg_color con))])
      else Some (con, []))"

fun put_chars :: "Fonts \<Rightarrow> u8 list \<Rightarrow> Console \<Rightarrow> (Console \<times> ConsoleEffect list) option" where
  "put_chars fonts [] con = None"
| "put_chars fonts (c # s) con =
     (if c = 0 then Some (con, [])
      else do {
        (con1, es1) \<leftarrow> put_char fonts c con;
        (con2, es2) \<leftarrow> put_chars fonts s con1;
        Some (con2, es1 @ es2) })"

definition PutString :: "Fonts \<Rightarrow> bool \<Rightarrow> u8 list \<Rightarrow> Console \<Rightarrow> (Console \<times> ConsoleEffect list) option" where
  "PutString fonts layer_manager s con =
     map_option (\<lambda>(con', es). (con', es @ (if layer_manager then [DrawLayer (con_layer_id con')] else []))) (put_chars fonts s con)"

fun draw_rows :: "Fonts \<Rightarrow> nat list \<Rightarrow> Console \<Rightarrow> Drawing option" where
  "draw_rows fonts [] con = Some []"
| "draw_rows fonts (row # rows) con = do {
     d \<leftarrow> draw_row fonts con row;
     ds \<leftarrow> draw_rows fonts rows con;
     Some (d @ ds) }"

definition Refresh :: "Fonts \<Rightarrow> Console \<Rightarrow> ConsoleEffect list option" where
  "Refresh fonts con = map_option
     (\<lambda>ds. [Draws (FillRectangle (Vec 0 0) (Vec (int (8 * kColumns)) (int (16 * kRows))) (bg_color con) @ ds)])
     (draw_rows fonts [0..<kRows] con)"

text \<open>\<open>writer_\<close> starts as a null pointer, so the first \<open>SetWriter\<close> is never the early return; \<open>initialized\<close> tells.\<close>

definition Console_SetWriter :: "Fonts \<Rightarrow> bool \<Rightarrow> nat option \<Rightarrow> Console \<Rightarrow> (Console \<times> ConsoleEffect list) option" where
  "Console_SetWriter fonts initialized w con =
     (if initialized \<and> w = con_writer con then Some (con, [])
      else let con' = con\<lparr>con_writer := w, con_window := None\<rparr> in map_option (Pair con') (Refresh fonts con'))"

definition Console_SetWindow :: "Fonts \<Rightarrow> nat \<Rightarrow> Console \<Rightarrow> (Console \<times> ConsoleEffect list) option" where
  "Console_SetWindow fonts w con =
     (if con_window con = Some w then Some (con, [])
      else let con' = con\<lparr>con_window := Some w, con_writer := Some w\<rparr> in map_option (Pair con') (Refresh fonts con'))"

definition SetLayerID :: "nat \<Rightarrow> Console \<Rightarrow> Console" where
  "SetLayerID i con = con\<lparr>con_layer_id := i\<rparr>"

definition InitializeConsole :: "Fonts \<Rightarrow> (Console \<times> ConsoleEffect list) option" where
  "InitializeConsole fonts = Console_SetWriter fonts False None (new_Console kDesktopFGColor kDesktopBGColor)"

text \<open>The effects of a console on its window, whose writer it uses.\<close>

fun on_console_window :: "ConsoleEffect list \<Rightarrow> Window \<Rightarrow> Window option" where
  "on_console_window [] w = Some w"
| "on_console_window (Draws ds # es) w = do { w' \<leftarrow> draw_on Window_Write ds w; on_console_window es w' }"
| "on_console_window (MoveLines dst src # es) w = do { w' \<leftarrow> Window_Move w dst src; on_console_window es w' }"
| "on_console_window (DrawLayer i # es) w = on_console_window es w"

definition ScreenSize :: "FrameBufferConfig \<Rightarrow> Vector2D" where
  "ScreenSize screen_config = FrameBufferSize screen_config"

text \<open>\<open>InitializeLayer\<close>: the background is window 0, the console's is window 1. \<open>exit(1)\<close> is \<open>None\<close>.\<close>

definition InitializeLayer :: "Fonts \<Rightarrow> FrameBufferConfig \<Rightarrow> Console \<Rightarrow> 'f TaskManager \<Rightarrow> (Console \<times> 'f Desktop) option" where
  "InitializeLayer fonts screen_config con tm = do {
     let screen_size = ScreenSize screen_config;
     bgwindow \<leftarrow> draw_on Window_Write (DrawDesktop (vx screen_size) (vy screen_size))
       (new_Window (vx screen_size) (vy screen_size) (pixel_format screen_config));
     let console_window0 = new_Window (int kColumns * 8) (int kRows * 16) (pixel_format screen_config);
     (con1, es) \<leftarrow> Console_SetWindow fonts 1 con;
     console_window \<leftarrow> on_console_window es console_window0;
     let (scr, err) = FrameBuffer_Initialize screen_config;
     if is_error err then None else do {
       let lm0 = SetWriter scr \<lparr>screen = scr, back_buffer = scr, layers = [], layer_stack = [], latest_layer_id = 0,
                                windows = [0 \<mapsto> bgwindow, 1 \<mapsto> console_window]\<rparr>;
       let (lm1, bglayer_id) = NewLayer lm0;
       let lm2 = Layer_Move bglayer_id (Vec 0 0) (SetWindow bglayer_id 0 lm1);
       let (lm3, console_layer) = NewLayer lm2;
       let lm4 = Layer_Move console_layer (Vec 0 0) (SetWindow console_layer 1 lm3);
       let con2 = SetLayerID console_layer con1;
       lm5 \<leftarrow> UpDown bglayer_id 0 lm4;
       lm6 \<leftarrow> UpDown (con_layer_id con2) 1 lm5;
       Some (con2, \<lparr>manager = lm6, active_layer = 0, mouse_layer = 0, layer_task_map = (\<lambda>_. None), task_manager = tm\<rparr>) } }"

subsection \<open>The console shows the last lines of its text\<close>

text \<open>The abstract console: all lines written so far, each cut after \<open>kColumns - 1\<close> characters.\<close>

definition type_char :: "u8 \<Rightarrow> u8 list list \<Rightarrow> u8 list list" where
  "type_char c ls = (if c = 10 then ls @ [[]]
     else if length (last ls) < kColumns - 1 then butlast ls @ [last ls @ [c]] else ls)"

definition last_rows :: "u8 list list \<Rightarrow> u8 list list" where
  "last_rows ls = drop (length ls - kRows) ls"

definition row_of :: "u8 list \<Rightarrow> u8 list" where
  "row_of l = l @ replicate (kColumns + 1 - length l) 0"

definition text_char :: "u8 \<Rightarrow> bool" where
  "text_char c \<longleftrightarrow> c \<noteq> 0 \<and> c < 0x80"

definition shows_text :: "u8 list list \<Rightarrow> Console \<Rightarrow> bool" where
  "shows_text ls con \<longleftrightarrow> ls \<noteq> [] \<and> (\<forall>l \<in> set ls. length l < kColumns \<and> (\<forall>c \<in> set l. text_char c)) \<and>
     con_buffer con = map row_of (last_rows ls @ replicate (kRows - length (last_rows ls)) []) \<and>
     cursor_row con = length (last_rows ls) - 1 \<and> cursor_column con = length (last ls)"

lemma text_char_encode: "text_char c \<Longrightarrow> ConvertUTF32toUTF8 (ucast c) = [c] \<and> 0 < unat (ucast c :: u32) \<and> unat (ucast c :: u32) < 2 ^ 21"
proof -
  assume c: "text_char c"
  have u: "unat (ucast c :: u32) = unat c" by (rule unat_ucast_up) simp
  have "unat c < 128" "unat c \<noteq> 0" using c by (auto simp: text_char_def word_less_nat_alt unat_eq_0)
  moreover have "(ucast (ucast c :: u32) :: u8) = c" by (rule bit_word_eqI) (simp add: bit_ucast_iff)
  ultimately show ?thesis using u by (auto simp: ConvertUTF32toUTF8_def word_le_nat_alt)
qed

lemma draw_row_ok:
  assumes "\<forall>r \<in> set (con_buffer con). \<exists>l. r = row_of l \<and> length l < kColumns \<and> (\<forall>c \<in> set l. text_char c)"
    and "row < length (con_buffer con)"
  shows "\<exists>d. draw_row fonts con row = Some d"
proof -
  obtain l where l: "con_buffer con ! row = row_of l" "length l < kColumns" "\<forall>c \<in> set l. text_char c"
    using assms by (metis nth_mem)
  have "concat (drop row (con_buffer con)) = row_of l @ concat (drop (Suc row) (con_buffer con))"
    using assms(2) l(1) by (simp add: Cons_nth_drop_Suc[symmetric])
  moreover have "row_of l = l @ 0 # replicate (kColumns - length l) 0" using l(2) by (simp add: row_of_def Suc_diff_le)
  moreover have "l = encode (map ucast l)" using l(3) text_char_encode by (induction l) (auto simp: encode_def)
  ultimately obtain rest where "concat (drop row (con_buffer con)) = encode (map ucast l) @ 0 # rest" by auto
  moreover have "\<forall>c \<in> set (map ucast l). 0 < unat (c :: u32) \<and> unat c < 2 ^ 21" using l(3) text_char_encode by auto
  ultimately show ?thesis by (simp add: draw_row_def WriteUTF8String_encoded)
qed

lemma scroll_rows_ok:
  assumes "\<forall>r \<in> set (con_buffer con). \<exists>l. r = row_of l \<and> length l < kColumns \<and> (\<forall>c \<in> set l. text_char c)"
    and "length (con_buffer con) = kRows" and "n < kRows"
  shows "\<exists>ds. scroll_rows fonts n con =
    Some (con\<lparr>con_buffer := take (kRows - 1 - n) (con_buffer con) @ drop (kRows - n) (con_buffer con) @ [last (con_buffer con)]\<rparr>, ds)"
  using assms
proof (induction n arbitrary: con)
  case 0
  then have "con_buffer con \<noteq> []" "length (con_buffer con) - 1 = kRows - 1" by (auto simp: kRows_def)
  then have "take (kRows - 1) (con_buffer con) @ [last (con_buffer con)] = con_buffer con"
    by (metis append_butlast_last_id butlast_conv_take)
  then show ?case using 0 by simp
next
  case (Suc n)
  let ?b = "con_buffer con" and ?row = "kRows - 1 - Suc n"
  have r: "Suc ?row < length ?b" "Suc ?row = kRows - Suc n" "Suc (Suc ?row) = kRows - n" using Suc.prems by (auto simp: kRows_def)
  define con1 where "con1 = con\<lparr>con_buffer := ?b[?row := ?b ! Suc ?row]\<rparr>"
  have rows: "\<forall>r \<in> set (con_buffer con1). \<exists>l. r = row_of l \<and> length l < kColumns \<and> (\<forall>c \<in> set l. text_char c)"
    using Suc.prems(1) r(1) by (auto simp: con1_def dest!: set_update_subset_insert[THEN subsetD])
  have len: "length (con_buffer con1) = kRows" "?row < length (con_buffer con1)" using Suc.prems r by (auto simp: con1_def)
  obtain d where d: "draw_row fonts con1 ?row = Some d" using draw_row_ok[OF rows len(2)] by blast
  obtain ds where ds: "scroll_rows fonts n con1 =
    Some (con1\<lparr>con_buffer := take (kRows - 1 - n) (con_buffer con1) @ drop (kRows - n) (con_buffer con1) @ [last (con_buffer con1)]\<rparr>, ds)"
    using Suc.IH[OF rows len(1)] Suc.prems(3) by auto
  have "take (Suc ?row) (con_buffer con1) = take ?row ?b @ [?b ! Suc ?row]"
    using r(1) by (simp add: con1_def take_Suc_conv_app_nth)
  moreover have "drop (kRows - n) (con_buffer con1) = drop (Suc (Suc ?row)) ?b" using r(3) by (simp add: con1_def drop_update_cancel)
  moreover have "last (con_buffer con1) = last ?b" using r(1) by (subst con1_def, simp, subst last_list_update) auto
  moreover have "drop (kRows - Suc n) ?b = ?b ! Suc ?row # drop (Suc (Suc ?row)) ?b"
    using r by (metis Cons_nth_drop_Suc)
  ultimately have "take (kRows - 1 - n) (con_buffer con1) @ drop (kRows - n) (con_buffer con1) @ [last (con_buffer con1)] =
      take ?row ?b @ drop (kRows - Suc n) ?b @ [last ?b]" using r(2) Suc.prems(3) by (simp add: Suc_diff_Suc)
  then have "scroll_rows fonts (Suc n) con = Some (con\<lparr>con_buffer := take ?row ?b @ drop (kRows - Suc n) ?b @ [last ?b]\<rparr>, d @ ds)"
    using d ds by (simp add: con1_def Let_def)
  then show ?case by blast
qed

lemma length_row_of: "length l < kColumns \<Longrightarrow> length (row_of l) = kColumns + 1"
  by (simp add: row_of_def)

lemma length_last_rows: "length (last_rows ls) = min (length ls) kRows"
  by (auto simp: last_rows_def)

text \<open>A line feed.\<close>

lemma Newline_text:
  assumes st: "shows_text ls con" and w: "con_window con = None"
  shows "\<exists>con' es. Newline fonts con = Some (con', es) \<and> shows_text (ls @ [[]]) con' \<and> con_window con' = None"
proof (cases "length ls < kRows")
  case True
  then have lr: "last_rows ls = ls" "last_rows (ls @ [[]]) = ls @ [[]]" by (simp_all add: last_rows_def)
  have b: "con_buffer con = map row_of (ls @ replicate (kRows - length ls) [])" "cursor_row con = length ls - 1" "ls \<noteq> []"
    using st lr(1) by (auto simp: shows_text_def)
  have "cursor_row con < kRows - 1" using b True by (cases ls) auto
  moreover have "ls @ replicate (kRows - length ls) [] = (ls @ [[]]) @ replicate (kRows - length (ls @ [[]])) []"
    using True by (simp add: Suc_diff_Suc[symmetric] flip: replicate_Suc)
  ultimately show ?thesis using st w b lr by (auto simp: Newline_def shows_text_def Let_def)
next
  case False
  then have len: "length (last_rows ls) = kRows" by (simp add: length_last_rows)
  let ?R = "map row_of (last_rows ls)" and ?con0 = "con\<lparr>cursor_column := 0\<rparr>"
  have b: "con_buffer con = ?R" "cursor_row con = kRows - 1" "\<forall>l \<in> set (last_rows ls). length l < kColumns \<and> (\<forall>c \<in> set l. text_char c)"
    using st len by (auto simp: shows_text_def last_rows_def dest: in_set_dropD)
  have "\<exists>ds. scroll_rows fonts (kRows - 1) ?con0 =
      Some (?con0\<lparr>con_buffer := take (kRows - 1 - (kRows - 1)) ?R @ drop (kRows - (kRows - 1)) ?R @ [last ?R]\<rparr>, ds)"
    using scroll_rows_ok[of ?con0 "kRows - 1" fonts] b len by (auto simp: kRows_def)
  then obtain ds where ds: "scroll_rows fonts (kRows - 1) ?con0 = Some (?con0\<lparr>con_buffer := tl ?R @ [last ?R]\<rparr>, ds)"
    by (auto simp: kRows_def drop_Suc)
  have "(tl ?R @ [last ?R])[kRows - 1 := replicate (kColumns + 1) 0] = tl ?R @ [row_of []]"
    using len by (simp add: list_update_append row_of_def)
  moreover have "last_rows (ls @ [[]]) = tl (last_rows ls) @ [[]]"
    using False console_size(1) by (cases kRows) (simp_all add: last_rows_def Suc_diff_le tl_drop drop_Suc)
  ultimately show ?thesis using ds w st b len
    by (auto simp: Newline_def shows_text_def Let_def map_tl)
qed

text \<open>A character.\<close>

lemma put_char_text:
  assumes st: "shows_text ls con" and w: "con_window con = None" and c: "text_char c"
  shows "\<exists>con' es. put_char fonts c con = Some (con', es) \<and> shows_text (type_char c ls) con' \<and> con_window con' = None"
proof (cases "c = 10")
  case True
  then show ?thesis using Newline_text[OF st w] by (simp add: put_char_def type_char_def)
next
  case nl: False
  have col: "cursor_column con = length (last ls)" "ls \<noteq> []" using st by (auto simp: shows_text_def)
  show ?thesis
  proof (cases "length (last ls) < kColumns - 1")
    case False
    then show ?thesis using nl st w col by (simp add: put_char_def type_char_def)
  next
    case True
    let ?l = "last ls" and ?ls = "butlast ls @ [last ls @ [c]]"
    let ?L = "last_rows ls" and ?pad = "replicate (kRows - length (last_rows ls)) []"
    have "length ls - kRows < length ls" using col(2) by simp
    then have L: "?L \<noteq> []" "last ?L = ?l" by (simp_all add: last_rows_def)
    have L': "last_rows ?ls = butlast ?L @ [?l @ [c]]"
      using col(2) console_size(1) by (cases ls rule: rev_cases; cases kRows) (simp_all add: last_rows_def butlast_drop)
    have b: "con_buffer con = map row_of (?L @ ?pad)" "cursor_row con = length ?L - 1"
      using st by (auto simp: shows_text_def)
    have split: "?L = butlast ?L @ [?l]" using L by (metis append_butlast_last_id)
    have row: "(row_of ?l)[length ?l := c] = row_of (?l @ [c])"
      using True by (simp add: row_of_def list_update_append Suc_diff_le)
    have "(con_buffer con)[length ?L - 1 := (con_buffer con ! (length ?L - 1))[length ?l := c]] =
        map row_of (last_rows ?ls @ ?pad)"
    proof -
      have "con_buffer con = map row_of (butlast ?L) @ row_of ?l # map row_of ?pad" unfolding b(1) by (subst split) simp
      then show ?thesis using row by (simp add: L' list_update_append nth_append)
    qed
    moreover have "\<forall>l \<in> set ?ls. length l < kColumns \<and> (\<forall>c \<in> set l. text_char c)"
    proof -
      have "\<forall>l \<in> set ls. length l < kColumns \<and> (\<forall>c \<in> set l. text_char c)" using st by (simp add: shows_text_def)
      then show ?thesis using True c col(2) by (auto dest: in_set_butlastD last_in_set)
    qed
    moreover have "length (last_rows ?ls) = length ?L" using L' split by (metis length_append_singleton)
    ultimately show ?thesis using nl True b col w
      by (simp add: put_char_def type_char_def shows_text_def)
  qed
qed

lemma put_chars_text:
  assumes "shows_text ls con" and "con_window con = None" and "\<forall>c \<in> set s. text_char c"
  shows "\<exists>con' es. put_chars fonts (s @ 0 # rest) con = Some (con', es) \<and> shows_text (fold type_char s ls) con' \<and> con_window con' = None"
  using assms
proof (induction s arbitrary: ls con)
  case (Cons c s)
  obtain con1 es1 where 1: "put_char fonts c con = Some (con1, es1)" "shows_text (type_char c ls) con1" "con_window con1 = None"
    using put_char_text[OF Cons.prems(1,2)] Cons.prems(3) by force
  obtain con2 es2 where "put_chars fonts (s @ 0 # rest) con1 = Some (con2, es2)" "shows_text (fold type_char s (type_char c ls)) con2"
    "con_window con2 = None" using Cons.IH[OF 1(2,3)] Cons.prems(3) by auto
  then show ?case using 1(1) Cons.prems(3) by (auto simp: text_char_def)
qed simp

lemma new_Console_text: "shows_text [[]] (new_Console fg bg)"
proof -
  have "replicate kRows (r :: u8 list) = r # replicate (kRows - 1) r" for r by (simp flip: replicate_Suc)
  then show ?thesis by (simp add: shows_text_def new_Console_def last_rows_def row_of_def Suc_leI)
qed

text \<open>C18: As long as the console draws to the screen and has no window, as before \<open>InitializeLayer\<close>, the buffer is the tail of the text written to it: any printable
  strings, one after the other, end, keep every access inside the buffer, and leave in it the last \<open>kRows\<close> lines, each cut
  at \<open>kColumns - 1\<close> characters, with the cursor behind the last one. With a window \<open>Newline\<close> does not scroll the buffer.\<close>

theorem PutString_shows_last_lines:
  assumes "shows_text ls con" and "con_window con = None" and "\<forall>c \<in> set s. text_char c"
  shows "\<exists>con' es. PutString fonts layer_manager (s @ 0 # rest) con = Some (con', es) \<and>
    shows_text (fold type_char s ls) con' \<and> con_window con' = None"
  using put_chars_text[OF assms] by (auto simp: PutString_def)

theorem PutString_shows_last_lines_witness:
  "\<exists>con' es. PutString sample_fonts False [0x48, 10, 0x69, 0] (new_Console kDesktopFGColor kDesktopBGColor) = Some (con', es) \<and>
    shows_text [[0x48], [0x69]] con'"
proof -
  have "\<forall>c \<in> set [0x48, 10, 0x69]. text_char c" by (simp add: text_char_def)
  from PutString_shows_last_lines[OF new_Console_text _ this, of kDesktopFGColor kDesktopBGColor sample_fonts False "[]"]
  show ?thesis by (auto simp: new_Console_def type_char_def kColumns_def)
qed

end
