(* ===== verification/TextBox.thy ===== *)
theory TextBox
  imports Layer Timer "HOL-Library.Signed_Division"
begin

text \<open>
  The text boxes of the desktop: \<^verbatim>\<open>kernel/cursored_textbox.hpp\<close>, \<^verbatim>\<open>kernel/cursored_textbox.cpp\<close>,
  \<^verbatim>\<open>kernel/textwindow.cpp\<close> and the Bhat keyboard \<^verbatim>\<open>kernel/lang/textwindowbhat.cpp\<close>. What an operation draws is a list of
  writes in the coordinates of the box's window; \<open>inner\<close> is a drawing through the window's \<open>InnerWriter\<close>.
\<close>

record PrivilegedCursoredTextBox =
  kTimer :: u64
  cursor_visible :: bool
  text_window :: nat
  cursor_index :: int
  cursorTimer :: int
  bottom_additional_margin :: int
  text_window_layer_id :: nat

definition inner :: "Drawing \<Rightarrow> Drawing" where
  "inner ds = map (\<lambda>(p, c). (p + kTopLeftMargin, c)) ds"

definition DrawTextCursor :: "bool \<Rightarrow> PrivilegedCursoredTextBox \<Rightarrow> Drawing" where
  "DrawTextCursor on box =
     (let color = (if on then ToColor 0 else ToColor 0xffffff);
          pos = Vec (4 + 8 * cursor_index box) 5
      in inner (FillRectangle pos (Vec 7 15) color))"

text \<open>The text area, above the additional margin.\<close>

definition text_area :: "PrivilegedCursoredTextBox \<Rightarrow> Window \<Rightarrow> Drawing" where
  "text_area box w = inner (DrawTextbox (Vec 0 0) (InnerSize w - Vec 0 (bottom_additional_margin box)))"

definition ClearTextWindow :: "Fonts \<Rightarrow> PrivilegedCursoredTextBox \<Rightarrow> Window \<Rightarrow> Drawing option" where
  "ClearTextWindow fonts box w = (case win_class w of
     None \<Rightarrow> None
   | Some (title, _) \<Rightarrow> map_option (\<lambda>ds. ds @ text_area box w) (DrawWindow fonts (win_width w) (win_height w) title True))"

text \<open>A drawing on the window of a box, and the redrawing of its layer that follows.\<close>

definition draw_box :: "Drawing \<Rightarrow> PrivilegedCursoredTextBox \<Rightarrow> LayerManager \<Rightarrow> LayerManager option" where
  "draw_box ds box lm = do {
     w \<leftarrow> windows lm (text_window box);
     w' \<leftarrow> draw_on Window_Write ds w;
     Some (lm\<lparr>windows := (windows lm)(text_window box \<mapsto> w')\<rparr>) }"

definition redraw_box :: "Drawing \<Rightarrow> PrivilegedCursoredTextBox \<Rightarrow> LayerManager \<Rightarrow> LayerManager option" where
  "redraw_box ds box lm = do { lm1 \<leftarrow> draw_box ds box lm; Draw_id (text_window_layer_id box) lm1 }"

text \<open>\<open>p\<close> is the address of the new window; \<open>numeric_limits<int>::max()\<close> puts the layer on top.\<close>

definition InitializeTextWindow ::
  "Fonts \<Rightarrow> nat \<Rightarrow> int \<Rightarrow> int \<Rightarrow> u8 list \<Rightarrow> Vector2D \<Rightarrow> int \<Rightarrow> PrivilegedCursoredTextBox \<Rightarrow> LayerManager \<Rightarrow>
    (PrivilegedCursoredTextBox \<times> LayerManager) option" where
  "InitializeTextWindow fonts p win_w win_h title pos margin box lm = do {
     w \<leftarrow> new_ToplevelWindow fonts win_w win_h (pixel_format (screen lm)) title True;
     let box1 = box\<lparr>text_window := p, bottom_additional_margin := margin\<rparr>;
     w1 \<leftarrow> draw_on Window_Write (text_area box1 w) w;
     let (lm1, i) = NewLayer (lm\<lparr>windows := (windows lm)(p \<mapsto> w1)\<rparr>);
     let lm2 = Layer_Move i pos (SetDraggable i True (SetWindow i p lm1));
     lm3 \<leftarrow> UpDown i (2 ^ 31 - 1) lm2;
     Some (box1\<lparr>text_window_layer_id := i\<rparr>, lm3) }"

text \<open>The period is half a second whatever \<open>timer_sec\<close> says.\<close>

definition SetTimer :: "int \<Rightarrow> PrivilegedCursoredTextBox \<Rightarrow> TimerManager \<Rightarrow> PrivilegedCursoredTextBox \<times> TimerManager" where
  "SetTimer timer_id box tm =
     (let box' = box\<lparr>cursorTimer := timer_id, kTimer := of_nat (kTimerFreq div 2)\<rparr>
      in (box', AddTimer (mk_Timer (kTimer box') (cursorTimer box') 1) tm))"

definition ManageCursor :: "u64 \<Rightarrow> PrivilegedCursoredTextBox \<Rightarrow> TimerManager \<Rightarrow> LayerManager \<Rightarrow>
    (PrivilegedCursoredTextBox \<times> TimerManager \<times> LayerManager) option" where
  "ManageCursor timeout box tm lm =
     (let tm' = AddTimer (mk_Timer (timeout + kTimer box) (cursorTimer box) 1) tm;
          box' = box\<lparr>cursor_visible := \<not> cursor_visible box\<rparr>
      in map_option (\<lambda>lm'. (box', tm', lm')) (redraw_box (DrawTextCursor (cursor_visible box') box') box' lm))"

subsection \<open>The plain text box\<close>

definition char_pos :: "PrivilegedCursoredTextBox \<Rightarrow> Vector2D" where
  "char_pos box = Vec (4 + 8 * cursor_index box) 6"

text \<open>C++ division rounds towards zero.\<close>

definition max_chars :: "Window \<Rightarrow> int" where
  "max_chars w = ((vx (InnerSize w) - 8) sdiv 8) - 1"

definition erase_char :: "PrivilegedCursoredTextBox \<Rightarrow> PrivilegedCursoredTextBox \<times> Drawing" where
  "erase_char box = (let box' = box\<lparr>cursor_index := cursor_index box - 1\<rparr>
     in (box', inner (FillRectangle (char_pos box') (Vec 8 16) (ToColor 0xffffff))))"

definition write_char :: "Fonts \<Rightarrow> u32 \<Rightarrow> PrivilegedCursoredTextBox \<Rightarrow> PrivilegedCursoredTextBox \<times> Drawing" where
  "write_char fonts c box =
     (box\<lparr>cursor_index := cursor_index box + 1\<rparr>, inner (fst (WriteUnicodeChar fonts (char_pos box) c (ToColor 0))))"

text \<open>What a key changes, with the drawing that it makes; then the layer is drawn again.\<close>

definition plain_step :: "Fonts \<Rightarrow> u32 \<Rightarrow> Window \<Rightarrow> PrivilegedCursoredTextBox \<Rightarrow> PrivilegedCursoredTextBox \<times> Drawing" where
  "plain_step fonts unicode w box =
     (if unicode = 8 \<and> 0 < cursor_index box
      then (let (b, d) = erase_char box in (b, DrawTextCursor False box @ d @ DrawTextCursor True b))
      else if 0x20 \<le> unicode \<and> cursor_index box < max_chars w
      then (let (b, d) = write_char fonts unicode box in (b, DrawTextCursor False box @ d @ DrawTextCursor True b))
      else (box, []))"

definition InputTextWindow :: "Fonts \<Rightarrow> u32 \<Rightarrow> PrivilegedCursoredTextBox \<Rightarrow> LayerManager \<Rightarrow>
    (PrivilegedCursoredTextBox \<times> LayerManager) option" where
  "InputTextWindow fonts unicode box lm =
     (if unicode = 0 then Some (box, lm)
      else do {
        w \<leftarrow> windows lm (text_window box);
        let (box', ds) = plain_step fonts unicode w box;
        lm' \<leftarrow> redraw_box ds box' lm;
        Some (box', lm') })"

subsection \<open>The Bhat keyboard\<close>

text \<open>The keys: character typed, and what it gives with no modifier, with Ctrl and with Alt; 0 is nothing.\<close>

definition keymap :: "(u32 \<times> u32 \<times> u32 \<times> u32) list" where
  "keymap = [
    (0x70, 0x092a, 0, 0x092b), (0x62, 0x092c, 0, 0x092d), (0x6d, 0x092e, 0, 0), (0x63, 0x0938, 0x0937, 0),
    (0x73, 0x095b, 0, 0), (0x78, 0x0936, 0, 0), (0x7a, 0x091a, 0, 0), (0x74, 0x0924, 0x091f, 0),
    (0x64, 0x0926, 0x0921, 0x0927), (0x6e, 0x0928, 0x0923, 0), (0x6c, 0x0932, 0x0933, 0), (0x72, 0x0930, 0, 0),
    (0x6b, 0x0915, 0, 0x0916), (0x67, 0x0917, 0, 0x095a), (0x68, 0x0959, 0, 0), (0x6a, 0x092f, 0, 0),
    (0x79, 0x095f, 0, 0), (0x77, 0x0935, 0, 0), (0x61, 0x0905, 0x0985, 0x0906), (0x65, 0x090f, 0, 0x0910),
    (0x69, 0x0907, 0x0987, 0x0908), (0x75, 0x0909, 0x0989, 0x090a), (0x6f, 0x0913, 0x0994, 0x0914),
    (0x22, 0x201e, 0x2836, 0x283f), (0x2c, 0x0964, 0, 0), (0x2e, 0x0965, 0, 0), (0x26, 0x10fb, 0, 0),
    (0x5f, 0x203e, 0, 0), (0x3f, 0x2e2e, 0, 0), (0x20, 0x20, 0, 0)]"

definition consonants :: "u32 list" where
  "consonants = [0x092a, 0x092b, 0x092c, 0x092d, 0x092e, 0x0938, 0x0937, 0x095b, 0x0936, 0x091a, 0x0924, 0x091f,
    0x0926, 0x0921, 0x0927, 0x0928, 0x0923, 0x0932, 0x0933, 0x0930, 0x0915, 0x0916, 0x0917, 0x095a, 0x0959, 0x092f,
    0x095f, 0x0935]"

definition isCtrlPressed :: "u8 \<Rightarrow> bool" where "isCtrlPressed modifier \<longleftrightarrow> modifier AND 0x11 \<noteq> 0"
definition isAltPressed :: "u8 \<Rightarrow> bool" where "isAltPressed modifier \<longleftrightarrow> modifier AND 0x44 \<noteq> 0"

definition keymap_step :: "u32 \<Rightarrow> u8 \<Rightarrow> u32 \<times> u32 \<times> u32 \<times> u32 \<Rightarrow> u32 \<Rightarrow> u32" where
  "keymap_step unicode modifier k c = (case k of (keycode, no_modifier, first_modifier, second_modifier) \<Rightarrow>
     if keycode = unicode
     then (if isCtrlPressed modifier then (if isAltPressed modifier then c else first_modifier)
           else if isAltPressed modifier then second_modifier else no_modifier)
     else c)"

definition keymap_char :: "u32 \<Rightarrow> u8 \<Rightarrow> u32" where
  "keymap_char unicode modifier = fold (keymap_step unicode modifier) keymap 0"

text \<open>\<open>content\<close> is a static variable of the function. Two rules depend on the last character.\<close>

definition bhat_step :: "Fonts \<Rightarrow> u32 \<Rightarrow> u8 \<Rightarrow> Window \<Rightarrow> PrivilegedCursoredTextBox \<Rightarrow> u32 list \<Rightarrow>
    PrivilegedCursoredTextBox \<times> u32 list \<times> Drawing" where
  "bhat_step fonts unicode modifier w box content =
     (if unicode = 8 \<and> 0 < cursor_index box
      then (let (b, d) = erase_char box
            in (b, butlast content, DrawTextCursor False box @ d @ DrawTextCursor True b))
      else if 0x20 \<le> unicode \<and> cursor_index box < max_chars w
      then (let c = keymap_char unicode modifier
            in if c = 0 then (box, content, DrawTextCursor False box @ DrawTextCursor True box)
               else let c1 = (if c = 0x0905 \<and> content \<noteq> [] \<and> last content \<in> set consonants then 0x094d else c);
                        ligature = (c1 = 0x201e \<and> content \<noteq> [] \<and> last content = 0x2e2e);
                        (b1, d1) = (if ligature then erase_char box else (box, []));
                        content1 = (if ligature then butlast content else content);
                        c2 = (if ligature then 0x2047 else c1);
                        (b2, d2) = write_char fonts c2 b1
                    in (b2, content1 @ [c2], DrawTextCursor False box @ d1 @ d2 @ DrawTextCursor True b2))
      else (box, content, []))"

definition InputTextWindowBhat :: "Fonts \<Rightarrow> u32 \<Rightarrow> u8 \<Rightarrow> PrivilegedCursoredTextBox \<Rightarrow> u32 list \<Rightarrow> LayerManager \<Rightarrow>
    (PrivilegedCursoredTextBox \<times> u32 list \<times> LayerManager) option" where
  "InputTextWindowBhat fonts unicode modifier box content lm =
     (if unicode = 0 then Some (box, content, lm)
      else do {
        w \<leftarrow> windows lm (text_window box);
        let (box', content', ds) = bhat_step fonts unicode modifier w box content;
        lm' \<leftarrow> redraw_box ds box' lm;
        Some (box', content', lm') })"

subsection \<open>A box on the desktop\<close>

text \<open>The layer of the box is on a screen that shows the layers, and its window has the given size and a title that fits.\<close>

definition box_ready :: "Fonts \<Rightarrow> PrivilegedCursoredTextBox \<Rightarrow> Vector2D \<Rightarrow> LayerManager \<Rightarrow> bool" where
  "box_ready fonts box sz lm \<longleftrightarrow> synced lm \<and> unshared lm \<and> text_window_layer_id box \<in> set (layer_stack lm) \<and>
     42 \<le> vx sz \<and> 52 \<le> vy sz \<and>
     (\<exists>l w title. FindLayer lm (text_window_layer_id box) = Some l \<and> layer_window l = Some (text_window box) \<and>
        windows lm (text_window box) = Some w \<and> transparent_color w = None \<and> win_class w = Some (title, True) \<and>
        title_ok fonts (vx sz) title \<and> Window_Size w = sz)"

lemma box_window:
  assumes "box_ready fonts box sz lm"
  obtains w title where "windows lm (text_window box) = Some w" "Window_Size w = sz" "win_ok w"
    "win_class w = Some (title, True)" "title_ok fonts (vx sz) title"
proof -
  obtain l w title where w: "FindLayer lm (text_window_layer_id box) = Some l" "layer_window l = Some (text_window box)"
    "windows lm (text_window box) = Some w" "Window_Size w = sz" "win_class w = Some (title, True)" "title_ok fonts (vx sz) title"
    using assms by (auto simp: box_ready_def)
  have "layer_ok lm (text_window_layer_id box)"
    using assms by (auto simp: box_ready_def synced_def synced_but_def layers_ok_def)
  then have "win_ok w" using w by (auto simp: layer_ok_def)
  with w that show ?thesis by blast
qed

lemma redraw_box_ok:
  assumes ready: "box_ready fonts box sz lm" and ds: "inside ds (vx sz) (vy sz)"
    and box': "text_window box' = text_window box" "text_window_layer_id box' = text_window_layer_id box"
  shows "\<exists>lm'. redraw_box ds box' lm = Some lm' \<and> box_ready fonts box' sz lm' \<and> layer_stack lm' = layer_stack lm \<and>
    (\<forall>j. j \<noteq> text_window_layer_id box \<longrightarrow> layer_view lm' j = layer_view lm j)"
proof -
  let ?i = "text_window_layer_id box" and ?q = "text_window box"
  obtain l w title where w: "FindLayer lm ?i = Some l" "layer_window l = Some ?q" "windows lm ?q = Some w"
    "transparent_color w = None" "win_class w = Some (title, True)" "title_ok fonts (vx sz) title" "Window_Size w = sz"
    and d: "synced lm" "unshared lm" "?i \<in> set (layer_stack lm)" "42 \<le> vx sz" "52 \<le> vy sz"
    using ready by (auto simp: box_ready_def)
  have "layer_ok lm ?i" using d by (auto simp: synced_def synced_but_def layers_ok_def)
  then have ok: "win_ok w" "pixel_format (shadow_buffer w) = pixel_format (screen lm)" using w by (auto simp: layer_ok_def)
  have "inside ds (win_width w) (win_height w)" using ds w(7) by (auto simp: Window_Size_def)
  then obtain w' where w': "draw_on Window_Write ds w = Some w'" "win_ok w'" "win_area w' = win_area w"
    using draw_inside[OF ok(1)] by blast
  have fr: "transparent_color w' = None" "win_class w' = win_class w" "pixel_format (shadow_buffer w') = pixel_format (screen lm)"
    using draw_on_Window_frame[OF w'(1)] w(4) ok(2) by simp_all
  define lm1 where "lm1 = lm\<lparr>windows := (windows lm)(?q \<mapsto> w')\<rparr>"
  have r: "retitled ?i lm lm1" unfolding lm1_def by (rule window_update_retitled[OF d(2) w(1-4) w'(2,3) fr(1,3)])
  have "layer_view lm ?i \<noteq> None" using w by (simp add: layer_view_def GetWindow_def)
  from retitled_sync[OF d(1,2) r d(3) this] obtain lm2 where
    2: "Draw_id ?i lm1 = Some lm2" "synced lm2" "windows lm2 = windows lm1" "unshared lm2" "layer_stack lm2 = layer_stack lm"
    "layers lm2 = layers lm" "\<forall>j. j \<noteq> ?i \<longrightarrow> layer_view lm2 j = layer_view lm j" by blast
  have "FindLayer lm2 ?i = Some l" using 2(6) w(1) by (simp add: FindLayer_def)
  moreover have "windows lm2 ?q = Some w'" by (simp add: 2(3) lm1_def)
  moreover have "Window_Size w' = sz" using w'(3) w(7) by (simp add: win_area_def)
  ultimately have "box_ready fonts box' sz lm2" unfolding box_ready_def using 2 d fr w box' by auto
  moreover have "redraw_box ds box' lm = Some lm2"
    using w(3) w'(1) 2(1) box' by (simp add: redraw_box_def draw_box_def lm1_def)
  ultimately show ?thesis using 2 by auto
qed

lemma inside_inner_fill:
  assumes "0 \<le> vx pos + 4" "0 \<le> vy pos + 24" "vx pos + vx sz + 4 \<le> w" "vy pos + vy sz + 24 \<le> h"
  shows "inside (inner (FillRectangle pos sz c)) w h"
  using assms by (auto simp: inside_def inner_def set_FillRectangle in_rect_def kTopLeftMargin_def)

lemma inside_inner:
  assumes "\<And>p d. (p, d) \<in> set ds \<Longrightarrow> in_rect p (Rect pos sz)"
    and "0 \<le> vx pos + 4" "0 \<le> vy pos + 24" "vx pos + vx sz + 4 \<le> w" "vy pos + vy sz + 24 \<le> h"
  shows "inside (inner ds) w h"
  using assms by (fastforce simp: inside_def inner_def in_rect_def kTopLeftMargin_def)

lemma inner_append [simp]: "inner (ds @ es) = inner ds @ inner es"
  by (simp add: inner_def)

definition room :: "Vector2D \<Rightarrow> int" where
  "room sz = (vx sz - 16) div 8 - 1"

lemma max_chars_room: "Window_Size w = sz \<Longrightarrow> 42 \<le> vx sz \<Longrightarrow> max_chars w = room sz"
  by (auto simp: max_chars_def room_def InnerSize_def kTopLeftMargin_def kBottomRightMargin_def signed_divide_int_def)

lemma room_bound: "8 * room sz \<le> vx sz - 24"
  unfolding room_def by presburger

lemma DrawTextCursor_inside:
  assumes "0 \<le> cursor_index box" "cursor_index box \<le> room sz" "52 \<le> vy sz"
  shows "inside (DrawTextCursor on box) (vx sz) (vy sz)"
proof -
  have "8 * cursor_index box \<le> vx sz - 24" using assms(2) room_bound[of sz] by linarith
  then show ?thesis unfolding DrawTextCursor_def Let_def by (intro inside_inner_fill) (use assms in auto)
qed

lemma erase_char_inside:
  assumes "0 < cursor_index box" "cursor_index box \<le> room sz" "52 \<le> vy sz"
  shows "inside (snd (erase_char box)) (vx sz) (vy sz)"
proof -
  have "8 * cursor_index box \<le> vx sz - 24" using assms(2) room_bound[of sz] by linarith
  then show ?thesis unfolding erase_char_def Let_def snd_conv char_pos_def
    by (intro inside_inner_fill) (use assms in auto)
qed

lemma write_char_inside:
  assumes "0 \<le> cursor_index box" "cursor_index box < room sz" "52 \<le> vy sz"
  shows "inside (snd (write_char fonts c box)) (vx sz) (vy sz)"
proof -
  have b: "8 * cursor_index box + 8 \<le> vx sz - 24" using assms(2) room_bound[of sz] by linarith
  have "char_width fonts c \<le> 2" by (simp add: char_width_def)
  then show ?thesis unfolding write_char_def snd_conv
    by (intro inside_inner[where pos = "char_pos box" and sz = "Vec (8 * char_width fonts c) 16"])
      (use assms b WriteUnicodeChar_box in \<open>auto simp: char_pos_def\<close>)
qed

lemma box_steps [simp]:
  "text_window (fst (erase_char box)) = text_window box" "text_window_layer_id (fst (erase_char box)) = text_window_layer_id box"
  "cursor_index (fst (erase_char box)) = cursor_index box - 1"
  "text_window (fst (write_char fonts c box)) = text_window box"
  "text_window_layer_id (fst (write_char fonts c box)) = text_window_layer_id box"
  "cursor_index (fst (write_char fonts c box)) = cursor_index box + 1"
  by (simp_all add: erase_char_def write_char_def Let_def)

subsection \<open>What the keys of the Bhat keyboard do\<close>

text \<open>The edit as a function on the text alone: the key gives a character by a table look-up; vowel \<open>a\<close> after a
  consonant is a halant, a double quote after a question mark makes one character of both, and a full box ignores keys.\<close>

definition key_letter :: "u32 \<Rightarrow> u8 \<Rightarrow> u32" where
  "key_letter unicode modifier = (case map_of keymap unicode of
     None \<Rightarrow> 0
   | Some (no_modifier, ctrl, alt) \<Rightarrow>
       if isCtrlPressed modifier \<and> isAltPressed modifier then 0
       else if isCtrlPressed modifier then ctrl
       else if isAltPressed modifier then alt
       else no_modifier)"

definition bhat_edit :: "int \<Rightarrow> u32 \<Rightarrow> u8 \<Rightarrow> u32 list \<Rightarrow> u32 list" where
  "bhat_edit space unicode modifier content =
     (let c = key_letter unicode modifier
      in if unicode = 8 then butlast content
         else if unicode < 0x20 \<or> space \<le> int (length content) \<or> c = 0 then content
         else if c = 0x0905 \<and> content \<noteq> [] \<and> last content \<in> set consonants then content @ [0x094d]
         else if c = 0x201e \<and> content \<noteq> [] \<and> last content = 0x2e2e then butlast content @ [0x2047]
         else content @ [c])"

lemma fold_keymap_step:
  "distinct (map fst ks) \<Longrightarrow> fold (keymap_step u m) ks c =
    (case map_of ks u of None \<Rightarrow> c | Some (n, ct, al) \<Rightarrow>
       if isCtrlPressed m then (if isAltPressed m then c else ct) else if isAltPressed m then al else n)"
proof (induction ks arbitrary: c)
  case (Cons k ks)
  obtain kc n ct al where k: "k = (kc, n, ct, al)" by (cases k) auto
  have "kc = u \<Longrightarrow> map_of ks u = None" using Cons.prems k by (auto simp: map_of_eq_None_iff)
  then show ?case using Cons k by (auto simp: keymap_step_def split: option.split)
qed simp

lemma keymap_char_letter: "keymap_char u m = key_letter u m"
proof -
  have "distinct (map fst keymap)" by (simp add: keymap_def)
  from fold_keymap_step[OF this] show ?thesis by (simp add: keymap_char_def key_letter_def split: option.split)
qed

lemma bhat_step_ok:
  assumes cur: "cursor_index box = int (length content)" "int (length content) \<le> room sz"
    and mc: "max_chars w = room sz" "52 \<le> vy sz"
  shows "\<exists>box' ds. bhat_step fonts unicode modifier w box content = (box', bhat_edit (room sz) unicode modifier content, ds) \<and>
    inside ds (vx sz) (vy sz) \<and> text_window box' = text_window box \<and> text_window_layer_id box' = text_window_layer_id box \<and>
    cursor_index box' = int (length (bhat_edit (room sz) unicode modifier content)) \<and> cursor_index box' \<le> room sz"
proof -
  note ins = DrawTextCursor_inside[OF _ _ mc(2)] erase_char_inside[OF _ _ mc(2)] write_char_inside[OF _ _ mc(2)]
  consider (del) "unicode = 8" "content \<noteq> []"
    | (none) "unicode = 8 \<and> content = [] \<or> unicode \<noteq> 8 \<and> (unicode < 0x20 \<or> room sz \<le> int (length content))"
    | (type) "unicode \<noteq> 8" "0x20 \<le> unicode" "int (length content) < room sz" by fastforce
  then show ?thesis
  proof cases
    case del
    then show ?thesis using cur ins by (auto simp: bhat_step_def bhat_edit_def case_prod_beta of_nat_diff Suc_le_eq)
  next
    case none
    then have "bhat_edit (room sz) unicode modifier content = content" by (auto simp: bhat_edit_def Let_def)
    moreover have "bhat_step fonts unicode modifier w box content = (box, content, [])"
      using none cur mc by (auto simp: bhat_step_def)
    ultimately show ?thesis using cur by simp
  next
    case type
    define c where "c = key_letter unicode modifier"
    define c1 where "c1 = (if c = 0x0905 \<and> content \<noteq> [] \<and> last content \<in> set consonants then 0x094d else c)"
    define lig where "lig \<longleftrightarrow> c1 = 0x201e \<and> content \<noteq> [] \<and> last content = 0x2e2e"
    define b1 where "b1 = (if lig then fst (erase_char box) else box)"
    define d1 where "d1 = (if lig then snd (erase_char box) else [])"
    define c2 where "c2 = (if lig then 0x2047 else c1)"
    define b2 where "b2 = fst (write_char fonts c2 b1)"
    show ?thesis
    proof (cases "c = 0")
      case True
      then have "bhat_edit (room sz) unicode modifier content = content" using type by (simp add: bhat_edit_def c_def)
      moreover have "bhat_step fonts unicode modifier w box content = (box, content, DrawTextCursor False box @ DrawTextCursor True box)"
        using type cur mc True by (simp add: bhat_step_def keymap_char_letter c_def[symmetric])
      ultimately show ?thesis using cur ins by simp
    next
      case False
      have "bhat_step fonts unicode modifier w box content =
          (b2, (if lig then butlast content else content) @ [c2], DrawTextCursor False box @ d1 @ snd (write_char fonts c2 b1) @ DrawTextCursor True b2)"
        using type cur mc False
        by (simp add: bhat_step_def keymap_char_letter c_def[symmetric] Let_def case_prod_beta b2_def c2_def d1_def b1_def lig_def c1_def)
      moreover have "bhat_edit (room sz) unicode modifier content = (if lig then butlast content else content) @ [c2]"
        using type False by (auto simp: bhat_edit_def c_def[symmetric] Let_def c2_def lig_def c1_def)
      moreover have "cursor_index b1 = int (length (if lig then butlast content else content))" "cursor_index b1 < room sz" "0 \<le> cursor_index b1"
        using cur type by (auto simp: b1_def lig_def of_nat_diff Suc_le_eq)
      moreover have "inside d1 (vx sz) (vy sz)" using cur ins by (simp add: d1_def lig_def)
      moreover have "text_window b2 = text_window box" "text_window_layer_id b2 = text_window_layer_id box"
        "cursor_index b2 = cursor_index b1 + 1" by (simp_all add: b2_def b1_def)
      ultimately show ?thesis using cur ins by simp
    qed
  qed
qed

text \<open>C19: Every key typed into the Bhat text box changes its text as \<open>bhat_edit\<close> says, the table included, keeps the cursor
  behind the last character and within the box, draws inside the window only and leaves a screen that shows the layers.\<close>

theorem InputTextWindowBhat_edits:
  assumes ready: "box_ready fonts box sz lm" and "unicode \<noteq> 0"
    and cur: "cursor_index box = int (length content)" "int (length content) \<le> room sz"
  shows "\<exists>box' lm'. InputTextWindowBhat fonts unicode modifier box content lm =
      Some (box', bhat_edit (room sz) unicode modifier content, lm') \<and>
    box_ready fonts box' sz lm' \<and> layer_stack lm' = layer_stack lm \<and>
    cursor_index box' = int (length (bhat_edit (room sz) unicode modifier content)) \<and> cursor_index box' \<le> room sz"
proof -
  obtain w where w: "windows lm (text_window box) = Some w" "Window_Size w = sz" using box_window[OF ready] by metis
  have sz: "42 \<le> vx sz" "52 \<le> vy sz" using ready by (auto simp: box_ready_def)
  obtain box' ds where b: "bhat_step fonts unicode modifier w box content = (box', bhat_edit (room sz) unicode modifier content, ds)"
    "inside ds (vx sz) (vy sz)" "text_window box' = text_window box" "text_window_layer_id box' = text_window_layer_id box"
    "cursor_index box' = int (length (bhat_edit (room sz) unicode modifier content))" "cursor_index box' \<le> room sz"
    using bhat_step_ok[OF cur max_chars_room[OF w(2) sz(1)] sz(2)] by blast
  from redraw_box_ok[OF ready b(2-4)] show ?thesis using b w assms(2) by (auto simp: InputTextWindowBhat_def)
qed

subsection \<open>A box to try the keys on\<close>

text \<open>A black desktop with the window of a text box, whose title is empty.\<close>

definition box_fb :: FrameBufferConfig where
  "box_fb = shadow_buffer (new_Window 60 80 kPixelBGRResv8BitPerColor)"

definition box_win :: Window where
  "box_win = (new_Window 50 70 kPixelBGRResv8BitPerColor)\<lparr>win_class := Some ([0], True)\<rparr>"

definition box_lm :: LayerManager where
  "box_lm = \<lparr>screen = box_fb, back_buffer = box_fb,
     layers = [\<lparr>layer_id = 1, layer_pos = Vec 3 4, layer_window = Some 1, layer_draggable = True\<rparr>],
     layer_stack = [1], latest_layer_id = 1, windows = [1 \<mapsto> box_win]\<rparr>"

definition sample_box :: PrivilegedCursoredTextBox where
  "sample_box = \<lparr>kTimer = 50, cursor_visible = False, text_window = 1, cursor_index = 0, cursorTimer = 1,
     bottom_additional_margin = 18, text_window_layer_id = 1\<rparr>"

lemma sample_box_ready: "box_ready fonts sample_box (Vec 50 70) box_lm"
proof -
  note W = new_Window_ok[of 60 80 kPixelBGRResv8BitPerColor, simplified] new_Window_ok[of 50 70 kPixelBGRResv8BitPerColor, simplified]
  have fb: "fb_ok box_fb" "fb_area box_fb = Rect (Vec 0 0) (Vec 60 80)" "pixel_format box_fb = kPixelBGRResv8BitPerColor"
    "\<And>p. in_rect p (Rect (Vec 0 0) (Vec 60 80)) \<Longrightarrow> pixel box_fb p = Color 0 0 0"
    using W by (auto simp: box_fb_def win_ok_def)
  have w: "win_ok box_win" "pixel_format (shadow_buffer box_win) = kPixelBGRResv8BitPerColor"
    using W by (simp_all add: box_win_def win_ok_def win_area_def Window_Size_def win_pixel_def)
  have v: "layer_view box_lm i = (if i = 1 then Some (Vec 3 4, box_win) else None)" for i
    by (simp add: layer_view_def box_lm_def FindLayer_def GetWindow_def)
  have "layer_ok box_lm 1" using w fb by (simp add: layer_ok_def box_lm_def FindLayer_def)
  then have "layers_ok box_lm" using fb by (simp add: layers_ok_def) (simp add: box_lm_def)
  moreover have "screen box_lm = box_fb" "back_buffer box_lm = box_fb" by (simp_all add: box_lm_def)
  moreover have "win_data box_win = replicate (nat (win_height box_win)) (replicate (nat (win_width box_win)) (Color 0 0 0))"
    by (simp add: box_win_def new_Window_def)
  ultimately have sync: "synced box_lm" using fb by (intro black_synced) (auto simp: v split: if_splits)
  have un: "unshared box_lm" by (auto simp: unshared_def box_lm_def FindLayer_def split: if_splits)
  have "title_ok fonts 50 [0]" by (auto simp: title_ok_def encode_def intro!: exI[of _ "[]"])
  then show ?thesis using sync un
    by (simp add: box_ready_def sample_box_def)
      (simp add: box_lm_def FindLayer_def box_win_def new_Window_def Window_Size_def)
qed

theorem InputTextWindowBhat_edits_witness:
  "\<exists>box' lm'. InputTextWindowBhat sample_fonts 0x61 0 (sample_box\<lparr>cursor_index := 1\<rparr>) [0x0915] box_lm =
      Some (box', [0x0915, 0x094d], lm') \<and> box_ready sample_fonts box' (Vec 50 70) lm' \<and> cursor_index box' = 2"
proof -
  have ready: "box_ready sample_fonts (sample_box\<lparr>cursor_index := 1\<rparr>) (Vec 50 70) box_lm"
    using sample_box_ready[of sample_fonts] by (simp add: box_ready_def)
  have "bhat_edit (room (Vec 50 70)) 0x61 0 [0x0915] = [0x0915, 0x094d]"
    by (simp add: bhat_edit_def key_letter_def keymap_def room_def isCtrlPressed_def isAltPressed_def consonants_def)
  moreover have "(0x61 :: u32) \<noteq> 0" by simp
  ultimately show ?thesis
    using InputTextWindowBhat_edits[OF ready, where unicode = "0x61" and content = "[0x0915]" and modifier = 0] by (auto simp: room_def)
qed

end
