(* ===== verification/IME.thy ===== *)
theory IME
  imports TextBox "HOL-Library.Sublist"
begin

text \<open>
  The input method: \<^verbatim>\<open>kernel/lang/textwindowpekzep.cpp\<close> and its dictionary \<^verbatim>\<open>kernel/lang/praige_r_dict.cpp\<close>.
  Typed letters are looked up in the dictionary; the space key puts the selected candidate into the text.
  Zero-terminated strings are lists without their terminator.
\<close>

subsection \<open>The dictionary\<close>

text \<open>Characters and spelling of each entry, in the order of the file.\<close>

definition dict_1 :: "(u32 list \<times> string) list" where
  "dict_1 = [
    ([0x6211], ''prai''), ([0x6c5d], ''mrua''), ([0x6b64], ''kar''), ([0x5176], ''zer''), ([0x5f7c], ''zrap''),
    ([0x4f55], ''nran''), ([0x6216], ''cuer''), ([0x5168], ''ber''), ([0x7121], ''murn''), ([0x5728], ''raim''),
    ([0x4e92], ''huart''), ([0x5df1], ''tirn''), ([0x7269], ''ku''), ([0x4eba], ''cruk''), ([0x5982], ''em''),
    ([0x4e4b], ''a''), ([0x51e6], ''hue''), ([0x6642], ''kak''), ([0x6545], ''xrit''), ([0x4f4d], ''puir''),
    ([0x4f4d], ''puri''), ([0x8853], ''sirt''), ([0x8a00], ''zerp''), ([0x5b57], ''marn''), ([0x7b46], ''krua''),
    ([0x66f8], ''ark''), ([0x58a8], ''hruo''), ([0x6587], ''taruk''), ([0x8ad6], ''zuir''), ([0x8ad6], ''zuri''),
    ([0x7d19], ''nirn''), ([0x7d75], ''lerk''), ([0x624b], ''horp''), ([0x8db3], ''xir''), ([0x5fc3], ''hiar''),
    ([0x76ee], ''tar''), ([0x53e3], ''iarm''), ([0x9aa8], ''hro''), ([0x5149], ''raik''), ([0x95c7], ''huet''),
    ([0x6728], ''hurp''), ([0x8349], ''kot''), ([0x706b], ''karn''), ([0x6c34], ''nrua''), ([0x98a8], ''prua''),
    ([0x77f3], ''sry''), ([0x91d1], ''krin''), ([0x81a0], ''bait''), ([0x82b1], ''xuor''), ([0x6cb9], ''dui''),
    ([0x5927], ''mar''), ([0x5c0f], ''nir''), ([0x5468], ''crei''), ([0x8ef8], ''lar''), ([0x8863], ''tark''),
    ([0x7cf8], ''brai''), ([0x65e5], ''kiar''), ([0x6708], ''xerm''), ([0x661f], ''pret''), ([0x5929], ''sryt''),
    ([0x5730], ''hruep''), ([0x5c71], ''zor''), ([0x5ddd], ''nrut''), ([0x5cf6], ''dorp''), ([0x4e0a], ''srau''),
    ([0x4e0b], ''rut''), ([0x5de6], ''tyrn''), ([0x53f3], ''kyr''), ([0x6771], ''kiark''), ([0x897f], ''ryk''),
    ([0x5357], ''tarn''), ([0x5317], ''hrak''), ([0x9ad8], ''suer''), ([0x59cb], ''hrut''), ([0x7d42], ''ta''),
    ([0x51fa], ''iarn''), ([0x751f], ''iarn''), ([0x5165], ''lirt''), ([0x4e00], ''ret''), ([0x4e8c], ''rik''),
    ([0x4e09], ''rom''), ([0x56db], ''arp''), ([0x4e94], ''urn''), ([0x516d], ''nret''), ([0x4e03], ''nrik''),
    ([0x516b], ''nrom''), ([0x4e5d], ''narp''), ([0x6483], ''krut''), ([0x884c], ''mork''), ([0x6765], ''srak''),
    ([0x8b58], ''cran''), ([0x7363], ''sarup''), ([0x9ce5], ''lurp''), ([0x9b5a], ''muir''), ([0x9b5a], ''muri''),
    ([0x9f8d], ''hrui''), ([0x6a5f], ''kirk''), ([0x7bb1], ''bur''), ([0x52a0], ''at''), ([0x5225], ''paru''),
    ([0x7537], ''kir''), ([0x5973], ''sar''), ([0x7687], ''tram''), ([0x795e], ''trun''), ([0x8239], ''muark''),
    ([0x5175], ''krauk''), ([0x5f13], ''grua''), ([0x8eca], ''karun''), ([0x864e], ''drau''), ([0x99ac], ''marun''),
    ([0x5deb], ''truk''), ([0x5c06], ''uari''), ([0x738b], ''io''), ([0x985e], ''sruo''), ([0x70ba], ''zau''),
    ([0x8c9d], ''dirt''), ([0x5200], ''grau''), ([0x58f0], ''cruop''), ([0x5bb6], ''mrut''), ([0x5584], ''kait''),
    ([0x53cb], ''hir''), ([0x7f8e], ''herm''), ([0x53d7], ''gruk''), ([0x4e0e], ''trui''), ([0x529b], ''py'')]"

definition dict_2 :: "(u32 list \<times> string) list" where
  "dict_2 = [
    ([0x9808], ''ly''), ([0x800c], ''ua''), ([0x5373], ''hem''), ([0x5fa1], ''am''), ([0x518d], ''ty''),
    ([0x4e4e], ''ryn''), ([0x65bc], ''ie''), ([0x9060], ''truai''), ([0x60aa], ''norn''), ([0x771f], ''put''),
    ([0x566b], ''a''), ([0x96ea], ''lert''), ([0x590f], ''xor''), ([0x51ac], ''iart''), ([0x6b62], ''muor''),
    ([0x5e83], ''zier''), ([0x6fc0], ''gark''), ([0x4ed8], ''krun''), ([0x7aef], ''trau''), ([0x5f8b], ''iark''),
    ([0x96c6], ''drat''), ([0x4ea6], ''y''), ([0x5024], ''mrak''), ([0x7a4d], ''xorm''), ([0x56fd], ''sirp''),
    ([0x540c], ''bap''), ([0x9589], ''rin''), ([0x958b], ''nram''), ([0x6625], ''riei''), ([0x79cb], ''krat''),
    ([0x5b50], ''kart''), ([0x6df7], ''tern''), ([0x5009], ''lir''), ([0x5b98], ''yr''), ([0x6c11], ''biar''),
    ([0x8ff7], ''brau''), ([0x610f], ''xra''), ([0x9023], ''nierk''), ([0x4e07], ''uer''), ([0x5e38], ''ket''),
    ([0x796d], ''grat''), ([0x7b11], ''hrau''), ([0x6226], ''kaik''), ([0x58ca], ''mrot''), ([0x7b49], ''ge''),
    ([0x5f62], ''cruau''), ([0x6bce], ''turt''), ([0x9759], ''nar''), ([0x5c64], ''gyr''), ([0x6975], ''kit''),
    ([0x8272], ''pok''), ([0x92ad], ''sur''), ([0x540d], ''sirn''), ([0x52b4], ''nraip''), ([0x52a9], ''ruaip''),
    ([0x51a0], ''rai''), ([0x6e80], ''bor''), ([0x65cf], ''nrim''), ([0x6e05], ''lin''), ([0x5b9a], ''huarp''),
    ([0x9318], ''xro''), ([0x8d64], ''kork''), ([0x679c], ''tuar''), ([0x83d3], ''tuar''), ([0x786c], ''perk''),
    ([0x724c], ''prek''), ([0x8edf], ''ho''), ([0x8c4a], ''hor''), ([0x8ca7], ''hrei''), ([0x5b63], ''xort''),
    ([0x5012], ''arip''), ([0x9577], ''rauk''), ([0x50be], ''raum''), ([0x5727], ''bret''), ([0x9f13], ''burm''),
    ([0x5305], ''buor''), ([0x673a], ''cret''), ([0x6563], ''cor''), ([0x5e2d], ''cry''), ([0x6df1], ''darut''),
    ([0x9580], ''giaru''), ([0x9580], ''giau''), ([0x50b7], ''grui''), ([0x8a8d], ''hior''), ([0x68da], ''hry''),
    ([0x5bdd], ''hork''), ([0x7dbf], ''horn''), ([0x633d], ''huar''), ([0x666e], ''hruai''), ([0x5c11], ''huer''),
    ([0x8f29], ''huork''), ([0x9ed2], ''hruok''), ([0x53cd], ''ri''), ([0x78e8], ''iar''), ([0x8f2a], ''ryt''),
    ([0x8840], ''kari''), ([0x5e2f], ''kry''), ([0x8986], ''kor''), ([0x8b1d], ''kuari''), ([0x8c46], ''kuort''),
    ([0x7236], ''kuark''), ([0x7434], ''liar''), ([0x767d], ''liork''), ([0x7159], ''lor''), ([0x5bd2], ''lork''),
    ([0x65b0], ''lru''), ([0x8033], ''luar''), ([0x6297], ''mark''), ([0x6bcd], ''marm''), ([0x8efd], ''mrit''),
    ([0x7c73], ''mor''), ([0x52ff], ''nau''), ([0x732b], ''nre''), ([0x9152], ''nor''), ([0x5b66], ''nrui''),
    ([0x5b88], ''nurm''), ([0x5341], ''nurn''), ([0x9752], ''nruok''), ([0x56f2], ''pria''), ([0x9053], ''por''),
    ([0x596e], ''pruat''), ([0x6025], ''sarm''), ([0x7d20], ''srat''), ([0x53e4], ''siar''), ([0x871c], ''srik'')]"

definition dict_3 :: "(u32 list \<times> string) list" where
  "dict_3 = [
    ([0x7956], ''sor''), ([0x524d], ''sorn''), ([0x4f7f], ''suir''), ([0x4f7f], ''suri''), ([0x4f53], ''trat''),
    ([0x552f], ''tet''), ([0x5f93], ''tiar''), ([0x8336], ''tria''), ([0x6b63], ''tirt''), ([0x6a3d], ''tro''),
    ([0x904a], ''tru''), ([0x5473], ''tuirk''), ([0x5473], ''turik''), ([0x7518], ''turm''), ([0x578b], ''xari''),
    ([0x6b4c], ''xaru''), ([0x8b0e], ''xrep''), ([0x88c1], ''xyr''), ([0x6016], ''zart''), ([0x8cea], ''zirt''),
    ([0x515a], ''zruit''), ([0x7247], ''zuor''), ([0x4e2d], ''kruai''), ([0x4ef6], ''uor''), ([0x9707], ''pirt''),
    ([0x55c5], ''cari''), ([0x5f8c], ''yp''), ([0x6b6a], ''brup''), ([0x8fd1], ''crei''), ([0x5e73], ''or''),
    ([0x6b3d], ''krin''), ([0x5e03], ''tark''), ([0x68b0], ''kirk''), ([0x51fd], ''bur''), ([0x8f1d], ''raik''),
    ([0x7d2f], ''xorm''), ([0x79a6], ''am''), ([0x7acb], ''lo''), ([0x9e97], ''herm''), ([0x5869], ''kuor''),
    ([0x8012], ''srak''), ([0x8c93], ''nre''), ([0x548d], ''tai''), ([0x80f8], ''haruk''), ([0x77ed], ''lrot''),
    ([0x76f4], ''ior''), ([0x68c9], ''horn''), ([0x7b8f], ''liar''), ([0x6bdb], ''irm''), ([0x8e8d], ''karn''),
    ([0x356e], ''kuark''), ([0x5401], ''a''), ([0x725b], ''rio''), ([0x591a], ''tarun''), ([0x5375], ''uet''),
    ([0x7403], ''cuet''), ([0x7db2], ''truk''), ([0x7f8a], ''por''), ([0x7a74], ''uep''), ([0x51f9], ''bort''),
    ([0x7b1b], ''lork''), ([0x54e9], ''lip''), ([0x6dee], ''uerp''), ([0x7ff0], ''kuari''), ([0x4eab], ''sep''),
    ([0x5931], ''zirp''), ([0x968a], ''nie''), ([0x6a4b], ''mit''), ([0x6c0f], ''nrim''), ([0x554c], ''hen''),
    ([0x554c], ''he''), ([0x54c7], ''ua''), ([0x767e], ''kirt''), ([0x4f70], ''kirt''), ([0x7523], ''iarn''),
    ([0x5449], ''krot''), ([0x7f85], ''lari''), ([0x866b], ''lri''), ([0x5e3d], ''rai''), ([0x7b52], ''bron''),
    ([0x67d4], ''ho''), ([0x76b7], ''burm''), ([0x7e82], ''kuari''), ([0x6551], ''ruaip''), ([0x805a], ''drat''),
    ([0x746a], ''marun''), ([0x5bd0], ''hork''), ([0x7a50], ''krat''), ([0x632f], ''pirt''), ([0x986b], ''pirt''),
    ([0x8089], ''gek''), ([0x540e], ''yp''), ([0x7b19], ''lork''), ([0x7a2e], ''det''), ([0x4ece], ''tiar''),
    ([0x5c5e], ''sruo''), ([0x8239], ''nuark''), ([0x5f85], ''tirm''), ([0x8a66], ''korp''), ([0x53ee], ''teri''),
    ([0x72ac], ''pra''), ([0x58c1], ''cor''), ([0x4fd0], ''cue''), ([0x786b], ''kue''), ([0x676f], ''nierp''),
    ([0x6ab8], ''siert''), ([0x53eb], ''puark''), ([0x6c7a], ''huarp''), ([0x5f15], ''mri''), ([0x8a34], ''ur''),
    ([0x8a34, 0x9580], ''ur_giau''), ([0x6c6a], ''bra''), ([0x54e6], ''o''), ([0x9045], ''baik''),
    ([0x698e], ''xerk''), ([0x7384], ''hruok''), ([0x5dfb], ''zre''), ([0x91dd], ''tirp''), ([0x91d8], ''kyrp''),
    ([0x5999], ''xorn''), ([0x7652], ''srep''), ([0x55da], ''a''), ([0x9806], ''puir''), ([0x9806], ''puri'')]"

definition u32s :: "string \<Rightarrow> u32 list" where
  "u32s s = map (\<lambda>c. of_nat (of_char c)) s"

definition dict :: "(u32 list \<times> u32 list) list" where
  "dict = map (\<lambda>(hanzi, praige). (hanzi, u32s praige)) (dict_1 @ dict_2 @ dict_3)"

subsection \<open>The state and its operations\<close>

record IMEState =
  solidified :: "u32 list"
  non_solidified :: "u32 list"
  candidate_index :: nat
  candidates :: "u32 list list"

definition new_IMEState :: IMEState where
  "new_IMEState = \<lparr>solidified = [], non_solidified = [], candidate_index = 0, candidates = []\<rparr>"

fun startsWith :: "u32 list \<Rightarrow> u32 list \<Rightarrow> bool" where
  "startsWith haystack [] = True"
| "startsWith [] (n # needle) = False"
| "startsWith (h # haystack) (n # needle) = (if h = 0 then False else if h \<noteq> n then False else startsWith haystack needle)"

definition AllGlyphsImplemented :: "Fonts \<Rightarrow> u32 list \<Rightarrow> bool" where
  "AllGlyphsImplemented fonts p = list_all (IsGlyphImplemented fonts) p"

definition ComputeCandidatesAndStore :: "Fonts \<Rightarrow> IMEState \<Rightarrow> IMEState" where
  "ComputeCandidatesAndStore fonts st =
     (let st0 = st\<lparr>candidates := []\<rparr>
      in if non_solidified st0 = [] then st0
         else st0\<lparr>candidates := map fst (filter (\<lambda>(hanzi, praige).
                    startsWith praige (non_solidified st0) \<and> AllGlyphsImplemented fonts hanzi) dict),
                  candidate_index := 0\<rparr>)"

definition candidate_display :: "IMEState \<Rightarrow> u32 list" where
  "candidate_display st =
     concat (map (\<lambda>i. (if i = candidate_index st then u32s ''<'' else if i = candidate_index st + 1 then u32s ''>'' else u32s '' '') @
                      candidates st ! i) [0..<length (candidates st)]) @
     (if length (candidates st) = candidate_index st + 1 then u32s ''>'' else [])"

definition Render :: "Fonts \<Rightarrow> Window \<Rightarrow> bool \<Rightarrow> PrivilegedCursoredTextBox \<Rightarrow> IMEState \<Rightarrow>
    (PrivilegedCursoredTextBox \<times> IMEState \<times> Drawing) option" where
  "Render fonts w non_solidified_is_updated box st = do {
     clear \<leftarrow> ClearTextWindow fonts box w;
     let max_width = max_chars w;
     let (d1, solidified_width) =
       WriteUTF32CharVecWithUpperLimit fonts (Vec 4 6) (solidified st) (ToColor 0) max_width 0;
     let (d2, unsolidified_width) =
       WriteUTF32CharVecWithUpperLimit fonts (Vec (4 + 8 * solidified_width) 6) (non_solidified st) (ToColor 0xe916c3)
         (max_width - solidified_width) 0;
     let box' = box\<lparr>cursor_index := solidified_width + unsolidified_width\<rparr>;
     let st' = (if non_solidified_is_updated then ComputeCandidatesAndStore fonts st else st);
     (d3, _) \<leftarrow> WriteUTF32StringWithUpperLimit fonts (Vec 4 (6 + 17 + 2)) (candidate_display st' @ [0]) (ToColor 0) max_width 0;
     Some (box', st', clear @ DrawTextCursor False box @ inner d1 @ inner d2 @ DrawTextCursor True box' @ inner d3) }"

text \<open>What a key changes. An index past the end of \<open>candidates\<close> is undefined.\<close>

definition pekzep_step :: "Fonts \<Rightarrow> u32 \<Rightarrow> u8 \<Rightarrow> Window \<Rightarrow> PrivilegedCursoredTextBox \<Rightarrow> IMEState \<Rightarrow>
    (PrivilegedCursoredTextBox \<times> IMEState \<times> Drawing) option" where
  "pekzep_step fonts unicode keycode w box st =
     (if keycode = 79 \<and> candidates st \<noteq> [] then
        (if candidate_index st \<noteq> length (candidates st) - 1
         then Render fonts w False box (st\<lparr>candidate_index := candidate_index st + 1\<rparr>)
         else Some (box, st, []))
      else if keycode = 80 \<and> candidates st \<noteq> [] then
        (if candidate_index st \<noteq> 0
         then Render fonts w False box (st\<lparr>candidate_index := candidate_index st - 1\<rparr>)
         else Some (box, st, []))
      else if unicode = 8 then
        map_option (\<lambda>(box', st', ds). (box', st', DrawTextCursor False box @ ds @ DrawTextCursor True box'))
          (if non_solidified st \<noteq> [] then Render fonts w True box (st\<lparr>non_solidified := butlast (non_solidified st)\<rparr>)
           else if solidified st \<noteq> [] then Render fonts w False box (st\<lparr>solidified := butlast (solidified st)\<rparr>)
           else Some (box, st, []))
      else if 0x61 \<le> unicode \<and> unicode \<le> 0x7a then
        Render fonts w True box (st\<lparr>non_solidified := non_solidified st @ [unicode]\<rparr>)
      else if unicode = 0x20 then
        (if non_solidified st = [] then Some (box, st\<lparr>solidified := solidified st @ [0x20]\<rparr>, [])
         else if candidate_index st < length (candidates st)
         then Render fonts w True box (st\<lparr>solidified := solidified st @ candidates st ! candidate_index st, non_solidified := []\<rparr>)
         else None)
      else Some (box, st, []))"

text \<open>Without a character, as for the arrow keys, the window is drawn but its layer is not.\<close>

definition InputTextWindowPekzep :: "Fonts \<Rightarrow> u32 \<Rightarrow> u8 \<Rightarrow> u8 \<Rightarrow> PrivilegedCursoredTextBox \<Rightarrow> IMEState \<Rightarrow> LayerManager \<Rightarrow>
    (PrivilegedCursoredTextBox \<times> IMEState \<times> LayerManager) option" where
  "InputTextWindowPekzep fonts unicode modifier keycode box st lm = do {
     w \<leftarrow> windows lm (text_window box);
     (box', st', ds) \<leftarrow> pekzep_step fonts unicode keycode w box st;
     lm1 \<leftarrow> draw_box ds box' lm;
     if unicode = 0 then Some (box', st', lm1)
     else do { lm2 \<leftarrow> Draw_id (text_window_layer_id box') lm1; Some (box', st', lm2) } }"

subsection \<open>Looking up a spelling\<close>

text \<open>No spelling contains a zero, so \<open>startsWith\<close> finds the entries that begin with what was typed.\<close>

lemma dict_nonzero: "(hanzi, praige) \<in> set dict \<Longrightarrow> 0 \<notin> set praige"
proof -
  have "list_all (\<lambda>(h, p). list_all (\<lambda>c. c \<noteq> CHR 0x00) p) (dict_1 @ dict_2 @ dict_3)" by code_simp
  moreover have "(of_nat (of_char c) :: u32) = 0 \<Longrightarrow> c = CHR 0x00" for c
  proof -
    assume "(of_nat (of_char c) :: u32) = 0"
    then have "unat (of_nat (of_char c) :: u32) = 0" by simp
    moreover have "(of_char c :: nat) < 256" using range_nat_of_char by auto
    ultimately have "(of_char c :: nat) = of_char (CHR 0x00)" by (simp add: unat_of_nat)
    then show "c = CHR 0x00" by (rule of_char_eqI)
  qed
  ultimately show "(hanzi, praige) \<in> set dict \<Longrightarrow> 0 \<notin> set praige"
    by (fastforce simp: dict_def u32s_def list_all_iff)
qed

lemma startsWith_prefix: "0 \<notin> set haystack \<Longrightarrow> startsWith haystack needle \<longleftrightarrow> prefix needle haystack"
  by (induction haystack needle rule: startsWith.induct) auto

text \<open>The entries for what was typed, which the state always holds.\<close>

definition candidates_for :: "Fonts \<Rightarrow> u32 list \<Rightarrow> u32 list list" where
  "candidates_for fonts typed =
     (if typed = [] then []
      else [hanzi. (hanzi, praige) \<leftarrow> dict, prefix typed praige \<and> list_all (IsGlyphImplemented fonts) hanzi])"

lemma candidates_filter:
  "map fst (filter (\<lambda>(hanzi, praige). startsWith praige typed \<and> AllGlyphsImplemented fonts hanzi) dict) =
    [hanzi. (hanzi, praige) \<leftarrow> dict, prefix typed praige \<and> list_all (IsGlyphImplemented fonts) hanzi]"
proof -
  have "filter (\<lambda>(hanzi, praige). startsWith praige typed \<and> AllGlyphsImplemented fonts hanzi) dict =
      filter (\<lambda>(hanzi, praige). prefix typed praige \<and> list_all (IsGlyphImplemented fonts) hanzi) dict"
    by (rule filter_cong[OF refl]) (use startsWith_prefix dict_nonzero in \<open>auto simp: AllGlyphsImplemented_def\<close>)
  moreover have "map fst (filter (\<lambda>(h, p). P h p) ds) = [h. (h, p) \<leftarrow> ds, P h p]" for P and ds :: "('a \<times> 'b) list"
    by (induction ds) auto
  ultimately show ?thesis by simp
qed

lemma ComputeCandidatesAndStore_for:
  "ComputeCandidatesAndStore fonts st =
    st\<lparr>candidates := candidates_for fonts (non_solidified st),
       candidate_index := (if non_solidified st = [] then candidate_index st else 0)\<rparr>"
  by (simp add: ComputeCandidatesAndStore_def candidates_for_def candidates_filter[symmetric] Let_def)

subsection \<open>Drawing stays in the window\<close>

definition ime_room :: "Vector2D \<Rightarrow> PrivilegedCursoredTextBox \<Rightarrow> bool" where
  "ime_room sz box \<longleftrightarrow> 66 \<le> vy sz \<and> 0 \<le> bottom_additional_margin box \<and> bottom_additional_margin box \<le> vy sz - 28 \<and>
     0 \<le> cursor_index box \<and> cursor_index box \<le> room sz"

lemma text_area_inside:
  assumes "Window_Size w = sz" "42 \<le> vx sz" "ime_room sz box"
  shows "inside (text_area box w) (vx sz) (vy sz)"
  using assms unfolding text_area_def DrawTextbox_def DrawTextbox_colors_def inner_append inside_append
  by (intro conjI inside_inner_fill)
    (auto simp: InnerSize_def kTopLeftMargin_def kBottomRightMargin_def ime_room_def)

lemma ClearTextWindow_inside:
  assumes "Window_Size w = sz" "42 \<le> vx sz" "ime_room sz box" "win_class w = Some (title, True)" "title_ok fonts (vx sz) title"
  shows "\<exists>ds. ClearTextWindow fonts box w = Some ds \<and> inside ds (vx sz) (vy sz)"
proof -
  have wh: "win_width w = vx sz" "win_height w = vy sz" using assms(1) by (auto simp: Window_Size_def)
  have "24 \<le> vy sz" using assms(3) by (simp add: ime_room_def)
  from DrawWindow_inside[OF assms(5,2) this, of True] obtain ds where
    "DrawWindow fonts (vx sz) (vy sz) title True = Some ds" "inside ds (vx sz) (vy sz)" by blast
  then show ?thesis using text_area_inside[OF assms(1-3)] assms(4) by (simp add: ClearTextWindow_def wh)
qed

lemma WriteUTF32StringWithUpperLimit_box:
  "0 \<le> x \<Longrightarrow> x \<le> max_width \<Longrightarrow> 0 \<notin> set s \<Longrightarrow> \<exists>ds x'. WriteUTF32StringWithUpperLimit fonts pos (s @ [0]) color max_width x = Some (ds, x') \<and>
    (\<forall>(p, d) \<in> set ds. in_rect p (Rect (pos + Vec (8 * x) 0) (Vec (8 * (max_width - x)) 16)))"
proof (induction s arbitrary: x)
  case (Cons c s)
  have w: "1 \<le> char_width fonts c" by (simp add: char_width_def)
  show ?case
  proof (cases "max_width < x + char_width fonts c")
    case False
    obtain ds x' where ih: "WriteUTF32StringWithUpperLimit fonts pos (s @ [0]) color max_width (x + char_width fonts c) = Some (ds, x')"
      "\<forall>(p, d) \<in> set ds. in_rect p (Rect (pos + Vec (8 * (x + char_width fonts c)) 0) (Vec (8 * (max_width - (x + char_width fonts c))) 16))"
      using Cons.IH[of "x + char_width fonts c"] Cons.prems w False by auto
    have "in_rect p (Rect (pos + Vec (8 * x) 0) (Vec (8 * (max_width - x)) 16))"
      if "(p, d) \<in> set (fst (WriteUnicodeChar fonts (pos + Vec (8 * x) 0) c color)) \<or> (p, d) \<in> set ds" for p d
      using that
    proof
      assume "(p, d) \<in> set (fst (WriteUnicodeChar fonts (pos + Vec (8 * x) 0) c color))"
      from WriteUnicodeChar_box[OF this] False show ?thesis by (auto simp: in_rect_def algebra_simps)
    next
      assume "(p, d) \<in> set ds"
      with ih(2) w show ?thesis by (fastforce simp: in_rect_def algebra_simps)
    qed
    then show ?thesis using ih(1) False Cons.prems(3) by auto
  qed (use Cons.prems in auto)
qed simp

lemma Render_ok:
  assumes w: "Window_Size w = sz" "42 \<le> vx sz" "win_class w = Some (title, True)" "title_ok fonts (vx sz) title"
    and room: "ime_room sz box"
    and nz: "0 \<notin> set (candidate_display (if upd then ComputeCandidatesAndStore fonts st else st))"
  shows "\<exists>box' ds. Render fonts w upd box st = Some (box', if upd then ComputeCandidatesAndStore fonts st else st, ds) \<and>
    inside ds (vx sz) (vy sz) \<and> ime_room sz box' \<and> text_window box' = text_window box \<and>
    text_window_layer_id box' = text_window_layer_id box"
proof -
  have mc: "max_chars w = room sz" using max_chars_room[OF w(1,2)] .
  have r: "0 \<le> room sz" "8 * room sz \<le> vx sz - 24" using w(2) room_bound[of sz] by (auto simp: room_def)
  have h: "66 \<le> vy sz" "0 \<le> cursor_index box" "cursor_index box \<le> room sz" using room by (auto simp: ime_room_def)
  obtain clear where clear: "ClearTextWindow fonts box w = Some clear" "inside clear (vx sz) (vy sz)"
    using ClearTextWindow_inside[OF w(1,2) room w(3,4)] by blast
  obtain d1 x1 where 1: "WriteUTF32CharVecWithUpperLimit fonts (Vec 4 6) (solidified st) (ToColor 0) (room sz) 0 = (d1, x1)" by force
  have b1: "0 \<le> x1" "x1 \<le> room sz" "\<forall>(p, d) \<in> set d1. in_rect p (Rect (Vec 4 6 + Vec 0 0) (Vec (8 * room sz) 16))"
    using WriteUTF32CharVecWithUpperLimit_width[of 0 "room sz" fonts "Vec 4 6" "solidified st" "ToColor 0"] r(1) 1 by auto
  obtain d2 x2 where 2: "WriteUTF32CharVecWithUpperLimit fonts (Vec (4 + 8 * x1) 6) (non_solidified st) (ToColor 0xe916c3) (room sz - x1) 0 = (d2, x2)"
    by force
  have b2: "0 \<le> x2" "x2 \<le> room sz - x1" "\<forall>(p, d) \<in> set d2. in_rect p (Rect (Vec (4 + 8 * x1) 6 + Vec 0 0) (Vec (8 * (room sz - x1)) 16))"
    using WriteUTF32CharVecWithUpperLimit_width[of 0 "room sz - x1" fonts "Vec (4 + 8 * x1) 6" "non_solidified st" "ToColor 0xe916c3"] b1 2 by auto
  obtain d3 x3 where 3: "WriteUTF32StringWithUpperLimit fonts (Vec 4 25)
      (candidate_display (if upd then ComputeCandidatesAndStore fonts st else st) @ [0]) (ToColor 0) (room sz) 0 = Some (d3, x3)"
    "\<forall>(p, d) \<in> set d3. in_rect p (Rect (Vec 4 25 + Vec 0 0) (Vec (8 * room sz) 16))"
    using WriteUTF32StringWithUpperLimit_box[OF order.refl r(1) nz, of fonts "Vec 4 25" "ToColor 0"] by auto
  let ?box = "box\<lparr>cursor_index := x1 + x2\<rparr>"
  have i1: "inside (inner d1) (vx sz) (vy sz)"
    by (rule inside_inner[where pos = "Vec 4 6 + Vec 0 0" and sz = "Vec (8 * room sz) 16"]) (use b1(3) r h in auto)
  have i2: "inside (inner d2) (vx sz) (vy sz)"
    by (rule inside_inner[where pos = "Vec (4 + 8 * x1) 6 + Vec 0 0" and sz = "Vec (8 * (room sz - x1)) 16"]) (use b1 b2(3) r h in auto)
  have i3: "inside (inner d3) (vx sz) (vy sz)"
    by (rule inside_inner[where pos = "Vec 4 25 + Vec 0 0" and sz = "Vec (8 * room sz) 16"]) (use 3(2) r h in auto)
  have "inside (DrawTextCursor False box) (vx sz) (vy sz)" "inside (DrawTextCursor True ?box) (vx sz) (vy sz)"
    by (rule DrawTextCursor_inside; use h b1 b2 in auto)+
  then show ?thesis using clear 1 2 3(1) i1 i2 i3 b1 b2 room
    by (simp add: Render_def mc Let_def ime_room_def)
qed

subsection \<open>What the keys of the input method do\<close>

text \<open>
  The input method as an editor on the content, the letters typed and the selected candidate. The arrow keys move the
  selection over the entries for the letters, the space key puts the selected entry into the content, backspace takes the
  last letter, or the last character of the content when there is none.
\<close>

type_synonym ime = "u32 list \<times> u32 list \<times> nat"

definition ime_edit :: "Fonts \<Rightarrow> u32 \<Rightarrow> u8 \<Rightarrow> ime \<Rightarrow> ime" where
  "ime_edit fonts unicode keycode s = (case s of (content, typed, sel) \<Rightarrow>
     let found = candidates_for fonts typed
     in if keycode = 79 \<and> found \<noteq> [] then (content, typed, min (sel + 1) (length found - 1))
        else if keycode = 80 \<and> found \<noteq> [] then (content, typed, sel - 1)
        else if unicode = 8 then (if typed \<noteq> [] then (content, butlast typed, 0) else (butlast content, [], sel))
        else if 0x61 \<le> unicode \<and> unicode \<le> 0x7a then (content, typed @ [unicode], 0)
        else if unicode = 0x20 then (if typed = [] then (content @ [0x20], [], sel) else (content @ found ! sel, [], 0))
        else s)"

definition ime_rel :: "Fonts \<Rightarrow> IMEState \<Rightarrow> ime \<Rightarrow> bool" where
  "ime_rel fonts st s \<longleftrightarrow> (case s of (content, typed, sel) \<Rightarrow>
     solidified st = content \<and> non_solidified st = typed \<and> candidates st = candidates_for fonts typed \<and>
     (candidates st \<noteq> [] \<longrightarrow> candidate_index st = sel \<and> sel < length (candidates st)))"

text \<open>The space key with letters that no entry begins with: the code indexes an empty vector.\<close>

definition no_candidate :: "Fonts \<Rightarrow> u32 \<Rightarrow> ime \<Rightarrow> bool" where
  "no_candidate fonts unicode s \<longleftrightarrow> (case s of (content, typed, sel) \<Rightarrow>
     unicode = 0x20 \<and> typed \<noteq> [] \<and> candidates_for fonts typed = [])"

lemma dict_hanzi_nonzero: "(hanzi, praige) \<in> set dict \<Longrightarrow> 0 \<notin> set hanzi"
proof -
  have "list_all (\<lambda>(h, p). list_all (\<lambda>c. c \<noteq> 0) h) (dict_1 @ dict_2 @ dict_3)" by code_simp
  then show "(hanzi, praige) \<in> set dict \<Longrightarrow> 0 \<notin> set hanzi" by (fastforce simp: dict_def list_all_iff)
qed

lemma candidate_display_nonzero:
  assumes "candidates st = candidates_for fonts typed"
  shows "0 \<notin> set (candidate_display st)"
proof -
  have "0 \<notin> set c" if "c \<in> set (candidates st)" for c
    using that dict_hanzi_nonzero by (auto simp: assms candidates_for_def split: if_splits)
  moreover have "0 \<notin> set (u32s ''<'')" "0 \<notin> set (u32s ''>'')" "0 \<notin> set (u32s '' '')" by (simp_all add: u32s_def)
  ultimately show ?thesis by (auto simp: candidate_display_def split: if_splits)
qed

lemma candidates_for_Nil [simp]: "candidates_for fonts [] = []"
  by (simp add: candidates_for_def)

lemma pekzep_step_ok:
  assumes w: "Window_Size w = sz" "42 \<le> vx sz" "win_class w = Some (title, True)" "title_ok fonts (vx sz) title"
    and room: "ime_room sz box" and rel: "ime_rel fonts st s" and nc: "\<not> no_candidate fonts unicode s"
  shows "\<exists>box' st' ds. pekzep_step fonts unicode keycode w box st = Some (box', st', ds) \<and>
    ime_rel fonts st' (ime_edit fonts unicode keycode s) \<and> inside ds (vx sz) (vy sz) \<and> ime_room sz box' \<and>
    text_window box' = text_window box \<and> text_window_layer_id box' = text_window_layer_id box"
proof -
  obtain content typed sel where s: "s = (content, typed, sel)" by (cases s)
  have st: "solidified st = content" "non_solidified st = typed" "candidates st = candidates_for fonts typed"
    "candidates st \<noteq> [] \<Longrightarrow> candidate_index st = sel \<and> sel < length (candidates st)"
    using rel by (auto simp: ime_rel_def s)
  have keep: "\<exists>box' ds. Render fonts w False box st1 = Some (box', st1, ds) \<and> inside ds (vx sz) (vy sz) \<and> ime_room sz box' \<and>
      text_window box' = text_window box \<and> text_window_layer_id box' = text_window_layer_id box"
    if "candidates st1 = candidates_for fonts typed" for st1
    using Render_ok[OF w room, of False st1] candidate_display_nonzero[OF that] by simp
  have recompute: "\<exists>box' ds. Render fonts w True box st1 = Some (box', ComputeCandidatesAndStore fonts st1, ds) \<and>
      inside ds (vx sz) (vy sz) \<and> ime_room sz box' \<and>
      text_window box' = text_window box \<and> text_window_layer_id box' = text_window_layer_id box" for st1
    using Render_ok[OF w room, of True st1]
      candidate_display_nonzero[of "ComputeCandidatesAndStore fonts st1" fonts "non_solidified st1"]
    by (simp add: ComputeCandidatesAndStore_for)
  have cursor: "inside (DrawTextCursor on b) (vx sz) (vy sz)" if "ime_room sz b" for on b
    using that by (intro DrawTextCursor_inside) (auto simp: ime_room_def)
  have rec_rel: "ime_rel fonts (ComputeCandidatesAndStore fonts st1) (t1, ty1, 0)"
    if "solidified st1 = t1" "non_solidified st1 = ty1" for st1 t1 ty1
    using that by (auto simp: ime_rel_def ComputeCandidatesAndStore_for)
  consider (right) "keycode = 79" "candidates st \<noteq> []" | (left) "keycode = 80" "candidates st \<noteq> []"
    | (bs) "\<not> (keycode = 79 \<and> candidates st \<noteq> [])" "\<not> (keycode = 80 \<and> candidates st \<noteq> [])" "unicode = 8"
    | (letter) "\<not> (keycode = 79 \<and> candidates st \<noteq> [])" "\<not> (keycode = 80 \<and> candidates st \<noteq> [])" "0x61 \<le> unicode \<and> unicode \<le> 0x7a"
    | (space) "\<not> (keycode = 79 \<and> candidates st \<noteq> [])" "\<not> (keycode = 80 \<and> candidates st \<noteq> [])" "unicode = 0x20"
    | (other) "\<not> (keycode = 79 \<and> candidates st \<noteq> [])" "\<not> (keycode = 80 \<and> candidates st \<noteq> [])" "unicode \<noteq> 8"
        "\<not> (0x61 \<le> unicode \<and> unicode \<le> 0x7a)" "unicode \<noteq> 0x20" by blast
  then show ?thesis
  proof cases
    case right
    show ?thesis
    proof (cases "candidate_index st = length (candidates st) - 1")
      case True
      then show ?thesis using right st room rel
        by (intro exI[of _ box] exI[of _ st] exI[of _ "[]"]) (auto simp: pekzep_step_def ime_edit_def ime_rel_def s Let_def)
    next
      case False
      have e: "ime_edit fonts unicode keycode s = (content, typed, sel + 1)" using right st False by (auto simp: ime_edit_def s Let_def)
      show ?thesis unfolding e using keep[of "st\<lparr>candidate_index := candidate_index st + 1\<rparr>"] right st False
        by (auto simp: pekzep_step_def ime_rel_def)
    qed
  next
    case left
    show ?thesis
    proof (cases "candidate_index st = 0")
      case True
      then show ?thesis using left st room rel
        by (intro exI[of _ box] exI[of _ st] exI[of _ "[]"]) (auto simp: pekzep_step_def ime_edit_def ime_rel_def s Let_def)
    next
      case False
      have e: "ime_edit fonts unicode keycode s = (content, typed, sel - 1)" using left st by (auto simp: ime_edit_def s Let_def)
      show ?thesis unfolding e using keep[of "st\<lparr>candidate_index := candidate_index st - 1\<rparr>"] left st False
        by (auto simp: pekzep_step_def ime_rel_def)
    qed
  next
    case bs
    consider "typed \<noteq> []" | "typed = []" "content \<noteq> []" | "typed = []" "content = []" by blast
    then show ?thesis
    proof cases
      case 1
      have e: "ime_edit fonts unicode keycode s = (content, butlast typed, 0)" using bs st 1 by (auto simp: ime_edit_def s Let_def)
      show ?thesis unfolding e using recompute[of "st\<lparr>non_solidified := butlast typed\<rparr>"] bs st 1 cursor[OF room] cursor
        rec_rel[of "st\<lparr>non_solidified := butlast typed\<rparr>" content "butlast typed"] by (auto simp: pekzep_step_def)
    next
      case 2
      have e: "ime_edit fonts unicode keycode s = (butlast content, [], sel)" using bs st 2 by (auto simp: ime_edit_def s Let_def)
      show ?thesis unfolding e using keep[of "st\<lparr>solidified := butlast content\<rparr>"] bs st 2 cursor[OF room] cursor
        by (auto simp: pekzep_step_def ime_rel_def)
    next
      case 3
      have e: "ime_edit fonts unicode keycode s = ([], [], sel)" using bs st 3 by (auto simp: ime_edit_def s Let_def)
      show ?thesis unfolding e using bs st 3 cursor[OF room] room by (auto simp: pekzep_step_def ime_rel_def)
    qed
  next
    case letter
    have e: "ime_edit fonts unicode keycode s = (content, typed @ [unicode], 0)" using letter st by (auto simp: ime_edit_def s Let_def)
    have n8: "unicode \<noteq> 8" using letter(3) by auto
    show ?thesis unfolding e using n8 recompute[of "st\<lparr>non_solidified := typed @ [unicode]\<rparr>"] letter st
      rec_rel[of "st\<lparr>non_solidified := typed @ [unicode]\<rparr>" content "typed @ [unicode]"] by (auto simp: pekzep_step_def)
  next
    case space
    show ?thesis
    proof (cases "typed = []")
      case True
      then show ?thesis using space st room by (auto simp: pekzep_step_def ime_edit_def ime_rel_def s Let_def)
    next
      case False
      then have found: "candidates st \<noteq> []" using nc space(3) st(3) by (auto simp: no_candidate_def s)
      have e: "ime_edit fonts unicode keycode s = (content @ candidates st ! sel, [], 0)"
        using space st False by (auto simp: ime_edit_def s Let_def)
      let ?st = "st\<lparr>solidified := content @ candidates st ! sel, non_solidified := []\<rparr>"
      show ?thesis unfolding e using recompute[of ?st] rec_rel[of ?st "content @ candidates st ! sel" "[]"] space st(1,2) st(4)[OF found] False
        by (auto simp: pekzep_step_def)
    qed
  next
    case other
    have e: "ime_edit fonts unicode keycode s = s" using other st by (auto simp: ime_edit_def s Let_def)
    show ?thesis unfolding e using other rel room by (auto simp: pekzep_step_def)
  qed
qed

text \<open>C20: The input method refines the editor \<open>ime_edit\<close>: every key, the letters, the space bar, backspace and the arrows,
  changes text, letters and selection as it says, with the candidates always the dictionary entries for the letters and
  the selection one of them; the window is drawn inside its area. The one exception is the space bar with letters that no
  entry begins with.\<close>

theorem InputTextWindowPekzep_refines:
  assumes ready: "box_ready fonts box sz lm" and room: "ime_room sz box" and rel: "ime_rel fonts st s"
    and nc: "\<not> no_candidate fonts unicode s"
  shows "\<exists>box' st' lm'. InputTextWindowPekzep fonts unicode modifier keycode box st lm = Some (box', st', lm') \<and>
    ime_rel fonts st' (ime_edit fonts unicode keycode s) \<and> ime_room sz box' \<and> (unicode \<noteq> 0 \<longrightarrow> box_ready fonts box' sz lm')"
proof -
  obtain w title where w: "windows lm (text_window box) = Some w" "Window_Size w = sz" "win_ok w"
    "win_class w = Some (title, True)" "title_ok fonts (vx sz) title" using box_window[OF ready] by metis
  have sz: "42 \<le> vx sz" using ready by (auto simp: box_ready_def)
  obtain box' st' ds where 1: "pekzep_step fonts unicode keycode w box st = Some (box', st', ds)"
    "ime_rel fonts st' (ime_edit fonts unicode keycode s)" "inside ds (vx sz) (vy sz)" "ime_room sz box'"
    "text_window box' = text_window box" "text_window_layer_id box' = text_window_layer_id box"
    using pekzep_step_ok[OF w(2) sz w(4,5) room rel nc] by blast
  obtain lm2 where 2: "redraw_box ds box' lm = Some lm2" "box_ready fonts box' sz lm2"
    using redraw_box_ok[OF ready 1(3,5,6)] by blast
  then obtain lm1 where "draw_box ds box' lm = Some lm1" "Draw_id (text_window_layer_id box') lm1 = Some lm2"
    by (auto simp: redraw_box_def bind_eq_Some_conv)
  then show ?thesis using 1 2 w(1) by (auto simp: InputTextWindowPekzep_def)
qed

lemma InputTextWindowPekzep_no_candidate:
  assumes "ime_rel fonts st s" and "no_candidate fonts unicode s"
  shows "InputTextWindowPekzep fonts unicode modifier keycode box st lm = None"
  using assms by (auto simp: ime_rel_def no_candidate_def InputTextWindowPekzep_def pekzep_step_def split: prod.splits
      option.split Option.bind_split)

theorem InputTextWindowPekzep_refines_witness:
  "\<exists>box' st' lm'. InputTextWindowPekzep sample_fonts 0x6b 0 14 sample_box new_IMEState box_lm = Some (box', st', lm') \<and>
    solidified st' = [] \<and> non_solidified st' = [0x6b] \<and> candidates st' = candidates_for sample_fonts [0x6b] \<and>
    box_ready sample_fonts box' (Vec 50 70) lm'"
proof -
  have room: "ime_room (Vec 50 70) sample_box" by (simp add: ime_room_def sample_box_def room_def)
  have rel: "ime_rel sample_fonts new_IMEState ([], [], 0)" by (simp add: ime_rel_def new_IMEState_def)
  have nc: "\<not> no_candidate sample_fonts 0x6b ([], [], 0)" by (simp add: no_candidate_def)
  have "ime_edit sample_fonts 0x6b 14 ([], [], 0) = ([], [0x6b], 0)" by (simp add: ime_edit_def)
  with InputTextWindowPekzep_refines[OF sample_box_ready room rel nc, of 0 14]
  show ?thesis by (auto simp: ime_rel_def)
qed

end
