(* ===== verification/Bits.thy ===== *)
theory Bits
  imports Prelude
begin

text \<open>
  Bit fields of machine words: a C bit field of \<open>n\<close> bits at offset \<open>lo\<close> is read with \<open>get_field\<close>
  and assigned with \<open>set_field\<close>. The registers, descriptors and request blocks of the device drivers
  are words with such fields.
\<close>

definition get_field :: "nat \<Rightarrow> nat \<Rightarrow> 'a::len word \<Rightarrow> 'a word" where
  "get_field lo n w = take_bit n (drop_bit lo w)"

definition set_field :: "nat \<Rightarrow> nat \<Rightarrow> 'a::len word \<Rightarrow> 'a word \<Rightarrow> 'a word" where
  "set_field lo n v w = (w AND NOT (push_bit lo (mask n))) OR push_bit lo (take_bit n v)"

named_theorems fields \<open>reading and writing bit fields\<close>

lemma bit_get_field: "bit (get_field lo n w) k \<longleftrightarrow> k < n \<and> bit w (lo + k)"
  by (auto simp: get_field_def bit_take_bit_iff bit_drop_bit_eq)

lemma bit_set_field:
  "bit (set_field lo n v w) k \<longleftrightarrow> k < LENGTH('a) \<and> (if lo \<le> k \<and> k < lo + n then bit v (k - lo) else bit w k)"
  for w :: "'a::len word"
  unfolding set_field_def bit_or_iff bit_and_iff bit_not_iff bit_push_bit_iff bit_take_bit_iff bit_mask_iff
  by (auto dest: bit_imp_le_length)

lemma get_set_same [fields]:
  "lo + n \<le> LENGTH('a) \<Longrightarrow> get_field lo n (set_field lo n v w) = take_bit n v" for w :: "'a::len word"
  by (rule bit_word_eqI) (auto simp: bit_get_field bit_set_field bit_take_bit_iff)

lemma get_set_other [fields]:
  "lo + n \<le> k \<or> k + m \<le> lo \<Longrightarrow> get_field k m (set_field lo n v w) = get_field k m w" for w :: "'a::len word"
  by (rule bit_word_eqI) (auto simp: bit_get_field bit_set_field dest: bit_imp_le_length)

lemma set_get_field: "set_field lo n (get_field lo n w) w = w"
  by (rule bit_word_eqI) (auto simp: bit_get_field bit_set_field dest: bit_imp_le_length)

lemma set_field_twice: "set_field lo n v (set_field lo n u w) = set_field lo n v w"
  by (rule bit_word_eqI) (auto simp: bit_set_field)

lemma get_field_less: "get_field lo n w = take_bit n (get_field lo n w)"
  by (simp add: get_field_def)

lemma unat_get_field: "unat (get_field lo n w) < 2 ^ n"
  unfolding get_field_def unsigned_take_bit_eq by simp

end
