(* ===== verification/Pci.thy ===== *)
theory Pci
  imports Bits
begin

text \<open>
  The PCI bus driver (\<^verbatim>\<open>kernel/pci.cpp\<close>, \<^verbatim>\<open>kernel/pci.hpp\<close>): configuration accesses, the recursive scan
  for devices, base addresses and the set-up of message signalled interrupts.

  The hardware is a parameter: \<open>rd h a\<close> is the 32-bit register that the configuration address \<open>a\<close>
  selects and \<open>wr h a v\<close> the hardware after \<open>v\<close> is written there. \<open>IoOut32\<close> and \<open>IoIn32\<close> on the two
  ports of the configuration mechanism are the accesses through \<open>cfg_address\<close>. The array \<open>devices\<close>
  with \<open>num_device\<close> is the list of its valid elements.
\<close>

subsection \<open>Data\<close>

record ClassCode =
  cc_base :: u8
  cc_sub :: u8
  cc_interface :: u8

definition Match :: "u8 \<Rightarrow> u8 \<Rightarrow> ClassCode \<Rightarrow> bool" where
  "Match b s c \<longleftrightarrow> b = cc_base c \<and> s = cc_sub c"

record Device =
  dev_bus :: u8
  dev_device :: u8
  dev_function :: u8
  header_type :: u8
  class_code :: ClassCode

record 'h PciState =
  cfg_address :: u32
  devices :: "Device list"
  hw :: 'h

definition kMaxDevices :: nat where
  "kMaxDevices = 32"

subsection \<open>Configuration accesses\<close>

definition MakeAddress :: "u8 \<Rightarrow> u8 \<Rightarrow> u8 \<Rightarrow> u8 \<Rightarrow> u32" where
  "MakeAddress bus device function reg_addr =
     push_bit 31 1 OR push_bit 16 (ucast bus) OR push_bit 11 (ucast device) OR push_bit 8 (ucast function)
       OR (ucast reg_addr AND 0xfc)"

definition WriteAddress :: "u32 \<Rightarrow> 'h PciState \<Rightarrow> 'h PciState" where
  "WriteAddress address s = s\<lparr>cfg_address := address\<rparr>"

definition WriteData :: "('h \<Rightarrow> u32 \<Rightarrow> u32 \<Rightarrow> 'h) \<Rightarrow> u32 \<Rightarrow> 'h PciState \<Rightarrow> 'h PciState" where
  "WriteData wr v s = s\<lparr>hw := wr (hw s) (cfg_address s) v\<rparr>"

definition ReadData :: "('h \<Rightarrow> u32 \<Rightarrow> u32) \<Rightarrow> 'h PciState \<Rightarrow> u32" where
  "ReadData rd s = rd (hw s) (cfg_address s)"

definition ReadVendorId :: "('h \<Rightarrow> u32 \<Rightarrow> u32) \<Rightarrow> u8 \<Rightarrow> u8 \<Rightarrow> u8 \<Rightarrow> 'h PciState \<Rightarrow> 'h PciState \<times> u16" where
  "ReadVendorId rd bus device function s =
     (let s1 = WriteAddress (MakeAddress bus device function 0x00) s
      in (s1, ucast (ReadData rd s1 AND 0xffff)))"

definition ReadDeviceId :: "('h \<Rightarrow> u32 \<Rightarrow> u32) \<Rightarrow> u8 \<Rightarrow> u8 \<Rightarrow> u8 \<Rightarrow> 'h PciState \<Rightarrow> 'h PciState \<times> u16" where
  "ReadDeviceId rd bus device function s =
     (let s1 = WriteAddress (MakeAddress bus device function 0x00) s
      in (s1, ucast (drop_bit 16 (ReadData rd s1))))"

definition ReadHeaderType :: "('h \<Rightarrow> u32 \<Rightarrow> u32) \<Rightarrow> u8 \<Rightarrow> u8 \<Rightarrow> u8 \<Rightarrow> 'h PciState \<Rightarrow> 'h PciState \<times> u8" where
  "ReadHeaderType rd bus device function s =
     (let s1 = WriteAddress (MakeAddress bus device function 0x0c) s
      in (s1, ucast (drop_bit 16 (ReadData rd s1) AND 0xff)))"

definition ReadClassCode :: "('h \<Rightarrow> u32 \<Rightarrow> u32) \<Rightarrow> u8 \<Rightarrow> u8 \<Rightarrow> u8 \<Rightarrow> 'h PciState \<Rightarrow> 'h PciState \<times> ClassCode" where
  "ReadClassCode rd bus device function s =
     (let s1 = WriteAddress (MakeAddress bus device function 0x08) s; reg = ReadData rd s1
      in (s1, \<lparr>cc_base = ucast (drop_bit 24 reg AND 0xff), cc_sub = ucast (drop_bit 16 reg AND 0xff),
               cc_interface = ucast (drop_bit 8 reg AND 0xff)\<rparr>))"

definition ReadBusNumbers :: "('h \<Rightarrow> u32 \<Rightarrow> u32) \<Rightarrow> u8 \<Rightarrow> u8 \<Rightarrow> u8 \<Rightarrow> 'h PciState \<Rightarrow> 'h PciState \<times> u32" where
  "ReadBusNumbers rd bus device function s =
     (let s1 = WriteAddress (MakeAddress bus device function 0x18) s in (s1, ReadData rd s1))"

definition IsSingleFunctionDevice :: "u8 \<Rightarrow> bool" where
  "IsSingleFunctionDevice h \<longleftrightarrow> h AND 0x80 = 0"

definition ReadConfReg :: "('h \<Rightarrow> u32 \<Rightarrow> u32) \<Rightarrow> Device \<Rightarrow> u8 \<Rightarrow> 'h PciState \<Rightarrow> 'h PciState \<times> u32" where
  "ReadConfReg rd dev reg_addr s =
     (let s1 = WriteAddress (MakeAddress (dev_bus dev) (dev_device dev) (dev_function dev) reg_addr) s
      in (s1, ReadData rd s1))"

definition WriteConfReg :: "('h \<Rightarrow> u32 \<Rightarrow> u32 \<Rightarrow> 'h) \<Rightarrow> Device \<Rightarrow> u8 \<Rightarrow> u32 \<Rightarrow> 'h PciState \<Rightarrow> 'h PciState" where
  "WriteConfReg wr dev reg_addr v s =
     WriteData wr v (WriteAddress (MakeAddress (dev_bus dev) (dev_device dev) (dev_function dev) reg_addr) s)"

subsection \<open>The scan\<close>

definition AddDevice :: "Device \<Rightarrow> 'h PciState \<Rightarrow> 'h PciState \<times> Error_Code" where
  "AddDevice dev s =
     (if length (devices s) = kMaxDevices then (s, kFull)
      else (s\<lparr>devices := devices s @ [dev]\<rparr>, kSuccess))"

text \<open>
  \<open>ScanFunction\<close>, \<open>ScanDevice\<close> and \<open>ScanBus\<close> call each other in a circle: the recursion follows the
  bridges that the hardware reports, so \<open>ScanBus\<close> takes fuel, the number of nested buses, and is
  \<open>None\<close> when it runs out. The other two take the recursive call as an argument.
\<close>

type_synonym 'h scan = "'h PciState \<Rightarrow> ('h PciState \<times> Error_Code) option"

definition ScanFunction :: "('h \<Rightarrow> u32 \<Rightarrow> u32) \<Rightarrow> (u8 \<Rightarrow> 'h scan) \<Rightarrow> u8 \<Rightarrow> u8 \<Rightarrow> u8 \<Rightarrow> 'h scan" where
  "ScanFunction rd scan_bus bus device function s =
     (let (s1, cc) = ReadClassCode rd bus device function s;
          (s2, ht) = ReadHeaderType rd bus device function s1;
          dev = \<lparr>dev_bus = bus, dev_device = device, dev_function = function, header_type = ht, class_code = cc\<rparr>;
          (s3, err) = AddDevice dev s2
      in if is_error err then Some (s3, err)
         else if Match 0x06 0x04 cc
           then (let (s4, bus_numbers) = ReadBusNumbers rd bus device function s3;
                     secondary_bus = ucast (drop_bit 8 bus_numbers AND 0xff)
                 in scan_bus secondary_bus s4)
         else Some (s3, kSuccess))"

text \<open>The loops of the scan: over a list of numbers, stopping at the first error.\<close>

fun scan_each :: "(u8 \<Rightarrow> 'h scan) \<Rightarrow> u8 list \<Rightarrow> 'h scan" where
  "scan_each f [] s = Some (s, kSuccess)"
| "scan_each f (n # ns) s =
     (case f n s of
        None \<Rightarrow> None
      | Some (s1, err) \<Rightarrow> if is_error err then Some (s1, err) else scan_each f ns s1)"

definition ScanDevice :: "('h \<Rightarrow> u32 \<Rightarrow> u32) \<Rightarrow> (u8 \<Rightarrow> 'h scan) \<Rightarrow> u8 \<Rightarrow> u8 \<Rightarrow> 'h scan" where
  "ScanDevice rd scan_bus bus device s =
     (case ScanFunction rd scan_bus bus device 0 s of
        None \<Rightarrow> None
      | Some (s1, err) \<Rightarrow>
          if is_error err then Some (s1, err)
          else (let (s2, ht) = ReadHeaderType rd bus device 0 s1
                in if IsSingleFunctionDevice ht then Some (s2, kSuccess)
                   else scan_each (\<lambda>function s.
                     let (s1, vendor) = ReadVendorId rd bus device function s
                     in if vendor = 0xffff then Some (s1, kSuccess)
                        else ScanFunction rd scan_bus bus device function s1) [1, 2, 3, 4, 5, 6, 7] s2))"

primrec ScanBus :: "('h \<Rightarrow> u32 \<Rightarrow> u32) \<Rightarrow> nat \<Rightarrow> u8 \<Rightarrow> 'h scan" where
  "ScanBus rd 0 bus = (\<lambda>s. None)"
| "ScanBus rd (Suc fuel) bus =
     scan_each (\<lambda>device s.
       let (s1, vendor) = ReadVendorId rd bus device 0 s
       in if vendor = 0xffff then Some (s1, kSuccess)
          else ScanDevice rd (ScanBus rd fuel) bus device s1) (map of_nat [0..<32])"

definition ScanAllBus :: "('h \<Rightarrow> u32 \<Rightarrow> u32) \<Rightarrow> nat \<Rightarrow> 'h scan" where
  "ScanAllBus rd fuel s =
     (let (s1, ht) = ReadHeaderType rd 0 0 0 (s\<lparr>devices := []\<rparr>)
      in if IsSingleFunctionDevice ht then ScanBus rd fuel 0 s1
         else scan_each (\<lambda>function s.
           let (s1, vendor) = ReadVendorId rd 0 0 function s
           in if vendor = 0xffff then Some (s1, kSuccess)
              else ScanBus rd fuel function s1) [0, 1, 2, 3, 4, 5, 6, 7] s1)"

subsection \<open>Base addresses\<close>

definition CalcBarAddress :: "nat \<Rightarrow> u8" where
  "CalcBarAddress bar_index = of_nat (0x10 + 4 * bar_index)"

definition ReadBar :: "('h \<Rightarrow> u32 \<Rightarrow> u32) \<Rightarrow> Device \<Rightarrow> nat \<Rightarrow> 'h PciState \<Rightarrow> 'h PciState \<times> u64 WithError" where
  "ReadBar rd device bar_index s =
     (if 6 \<le> bar_index then (s, 0, kIndexOutOfRange)
      else (let addr = CalcBarAddress bar_index; (s1, bar) = ReadConfReg rd device addr s
        in if bar AND 4 = 0 then (s1, ucast bar, kSuccess)
           else if 5 \<le> bar_index then (s1, 0, kIndexOutOfRange)
           else (let (s2, bar_upper) = ReadConfReg rd device (addr + 4) s1
             in (s2, ucast bar OR push_bit 32 (ucast bar_upper), kSuccess))))"

subsection \<open>Message signalled interrupts\<close>

definition kCapabilityMSI :: u32 where "kCapabilityMSI = 0x05"
definition kCapabilityMSIX :: u32 where "kCapabilityMSIX = 0x11"

text \<open>The bit fields of a capability header and of the header of an MSI capability.\<close>

definition cap_id :: "u32 \<Rightarrow> u32" where "cap_id = get_field 0 8"
definition next_ptr :: "u32 \<Rightarrow> u32" where "next_ptr = get_field 8 8"
definition multi_msg_capable :: "u32 \<Rightarrow> u32" where "multi_msg_capable = get_field 17 3"
definition addr_64_capable :: "u32 \<Rightarrow> bool" where "addr_64_capable w \<longleftrightarrow> bit w 23"
definition per_vector_mask_capable :: "u32 \<Rightarrow> bool" where "per_vector_mask_capable w \<longleftrightarrow> bit w 24"
definition set_msi_enable :: "u32 \<Rightarrow> u32 \<Rightarrow> u32" where "set_msi_enable = set_field 16 1"
definition set_multi_msg_enable :: "u32 \<Rightarrow> u32 \<Rightarrow> u32" where "set_multi_msg_enable = set_field 20 3"

record MSICapability =
  msi_header :: u32
  msg_addr :: u32
  msg_upper_addr :: u32
  msg_data :: u32
  mask_bits :: u32
  pending_bits :: u32

definition ReadMSICapability :: "('h \<Rightarrow> u32 \<Rightarrow> u32) \<Rightarrow> Device \<Rightarrow> u8 \<Rightarrow> 'h PciState \<Rightarrow> 'h PciState \<times> MSICapability" where
  "ReadMSICapability rd dev cap_addr s =
     (let (s1, h) = ReadConfReg rd dev cap_addr s;
          (s2, addr) = ReadConfReg rd dev (cap_addr + 4) s1;
          (s3, upper) = (if addr_64_capable h then ReadConfReg rd dev (cap_addr + 8) s2 else (s2, 0));
          msg_data_addr = (if addr_64_capable h then cap_addr + 12 else cap_addr + 8);
          (s4, data) = ReadConfReg rd dev msg_data_addr s3;
          (s5, mask) = (if per_vector_mask_capable h then ReadConfReg rd dev (msg_data_addr + 4) s4 else (s4, 0));
          (s6, pending) = (if per_vector_mask_capable h then ReadConfReg rd dev (msg_data_addr + 8) s5 else (s5, 0))
      in (s6, \<lparr>msi_header = h, msg_addr = addr, msg_upper_addr = upper, msg_data = data,
               mask_bits = mask, pending_bits = pending\<rparr>))"

definition WriteMSICapability :: "('h \<Rightarrow> u32 \<Rightarrow> u32 \<Rightarrow> 'h) \<Rightarrow> Device \<Rightarrow> u8 \<Rightarrow> MSICapability \<Rightarrow> 'h PciState \<Rightarrow> 'h PciState" where
  "WriteMSICapability wr dev cap_addr msi_cap s =
     (let s1 = WriteConfReg wr dev cap_addr (msi_header msi_cap) s;
          s2 = WriteConfReg wr dev (cap_addr + 4) (msg_addr msi_cap) s1;
          s3 = (if addr_64_capable (msi_header msi_cap)
                then WriteConfReg wr dev (cap_addr + 8) (msg_upper_addr msi_cap) s2 else s2);
          msg_data_addr = (if addr_64_capable (msi_header msi_cap) then cap_addr + 12 else cap_addr + 8);
          s4 = WriteConfReg wr dev msg_data_addr (msg_data msi_cap) s3
      in if per_vector_mask_capable (msi_header msi_cap)
         then WriteConfReg wr dev (msg_data_addr + 8) (pending_bits msi_cap)
                (WriteConfReg wr dev (msg_data_addr + 4) (mask_bits msi_cap) s4)
         else s4)"

definition ConfigureMSIRegister ::
  "('h \<Rightarrow> u32 \<Rightarrow> u32) \<Rightarrow> ('h \<Rightarrow> u32 \<Rightarrow> u32 \<Rightarrow> 'h) \<Rightarrow> Device \<Rightarrow> u8 \<Rightarrow> u32 \<Rightarrow> u32 \<Rightarrow> u32 \<Rightarrow> 'h PciState \<Rightarrow>
   'h PciState \<times> Error_Code" where
  "ConfigureMSIRegister rd wr dev cap_addr maddr mdata num_vector_exponent s =
     (let (s1, msi_cap) = ReadMSICapability rd dev cap_addr s;
          h = msi_header msi_cap;
          h1 = (if multi_msg_capable h \<le> num_vector_exponent
                then set_multi_msg_enable (multi_msg_capable h) h
                else set_multi_msg_enable num_vector_exponent h);
          msi_cap' = msi_cap\<lparr>msi_header := set_msi_enable 1 h1, msg_addr := maddr, msg_data := mdata\<rparr>
      in (WriteMSICapability wr dev cap_addr msi_cap' s1, kSuccess))"

definition ConfigureMSIXRegister :: "'h PciState \<Rightarrow> 'h PciState \<times> Error_Code" where
  "ConfigureMSIXRegister s = (s, kNotImplemented)"

text \<open>
  The walk along the capability list of \<open>ConfigureMSI\<close>: the addresses of the last MSI and MSI-X
  capabilities found so far. The links come from the hardware, so the loop may not end.
\<close>

partial_function (option) find_capabilities ::
  "('h \<Rightarrow> u32 \<Rightarrow> u32) \<Rightarrow> Device \<Rightarrow> u8 \<Rightarrow> u8 \<Rightarrow> u8 \<Rightarrow> 'h PciState \<Rightarrow> ('h PciState \<times> u8 \<times> u8) option" where
  "find_capabilities rd dev cap_addr msi msix s =
     (if cap_addr = 0 then Some (s, msi, msix)
      else (let r = ReadConfReg rd dev cap_addr s; header = snd r
        in find_capabilities rd dev (ucast (next_ptr header))
             (if cap_id header = kCapabilityMSI then cap_addr else msi)
             (if cap_id header = kCapabilityMSI then msix
              else if cap_id header = kCapabilityMSIX then cap_addr else msix) (fst r)))"

definition ConfigureMSI ::
  "('h \<Rightarrow> u32 \<Rightarrow> u32) \<Rightarrow> ('h \<Rightarrow> u32 \<Rightarrow> u32 \<Rightarrow> 'h) \<Rightarrow> Device \<Rightarrow> u32 \<Rightarrow> u32 \<Rightarrow> u32 \<Rightarrow> 'h scan" where
  "ConfigureMSI rd wr dev maddr mdata num_vector_exponent s =
     (let (s1, cap) = ReadConfReg rd dev 0x34 s in
      case find_capabilities rd dev (ucast (cap AND 0xff)) 0 0 s1 of
        None \<Rightarrow> None
      | Some (s2, msi_cap_addr, msix_cap_addr) \<Rightarrow>
          if msi_cap_addr \<noteq> 0
          then Some (ConfigureMSIRegister rd wr dev msi_cap_addr maddr mdata num_vector_exponent s2)
          else if msix_cap_addr \<noteq> 0 then Some (ConfigureMSIXRegister s2)
          else Some (s2, kNoPCIMSI))"

datatype MSITriggerMode = kEdge | kLevel
datatype MSIDeliveryMode = kFixed | kLowestPriority | kSMI | kNMI | kINIT | kExtINT

fun delivery_code :: "MSIDeliveryMode \<Rightarrow> u32" where
  "delivery_code kFixed = 0" | "delivery_code kLowestPriority = 1" | "delivery_code kSMI = 2"
| "delivery_code kNMI = 4" | "delivery_code kINIT = 5" | "delivery_code kExtINT = 7"

definition ConfigureMSIFixedDestination ::
  "('h \<Rightarrow> u32 \<Rightarrow> u32) \<Rightarrow> ('h \<Rightarrow> u32 \<Rightarrow> u32 \<Rightarrow> 'h) \<Rightarrow> Device \<Rightarrow> u8 \<Rightarrow> MSITriggerMode \<Rightarrow> MSIDeliveryMode \<Rightarrow>
   u8 \<Rightarrow> u32 \<Rightarrow> 'h scan" where
  "ConfigureMSIFixedDestination rd wr dev apic_id trigger_mode delivery_mode vector num_vector_exponent s =
     (let maddr = 0xfee00000 OR push_bit 12 (ucast apic_id);
          mdata = push_bit 8 (delivery_code delivery_mode) OR ucast vector;
          mdata' = (if trigger_mode = kLevel then mdata OR 0xc000 else mdata)
      in ConfigureMSI rd wr dev maddr mdata' num_vector_exponent s)"

subsection \<open>What the hardware reports\<close>

text \<open>
  The functions a scan should find, read directly off the configuration space: function 0 of every
  device that answers, and the other functions of multi-function devices that answer. A bridge leads
  to the functions of its secondary bus.
\<close>

definition vendor_of :: "('h \<Rightarrow> u32 \<Rightarrow> u32) \<Rightarrow> 'h \<Rightarrow> u8 \<Rightarrow> u8 \<Rightarrow> u8 \<Rightarrow> u16" where
  "vendor_of rd h b d f = ucast (rd h (MakeAddress b d f 0x00) AND 0xffff)"

definition header_of :: "('h \<Rightarrow> u32 \<Rightarrow> u32) \<Rightarrow> 'h \<Rightarrow> u8 \<Rightarrow> u8 \<Rightarrow> u8 \<Rightarrow> u8" where
  "header_of rd h b d f = ucast (drop_bit 16 (rd h (MakeAddress b d f 0x0c)) AND 0xff)"

definition class_of :: "('h \<Rightarrow> u32 \<Rightarrow> u32) \<Rightarrow> 'h \<Rightarrow> u8 \<Rightarrow> u8 \<Rightarrow> u8 \<Rightarrow> ClassCode" where
  "class_of rd h b d f = (let reg = rd h (MakeAddress b d f 0x08) in
     \<lparr>cc_base = ucast (drop_bit 24 reg AND 0xff), cc_sub = ucast (drop_bit 16 reg AND 0xff),
      cc_interface = ucast (drop_bit 8 reg AND 0xff)\<rparr>)"

definition secondary_of :: "('h \<Rightarrow> u32 \<Rightarrow> u32) \<Rightarrow> 'h \<Rightarrow> u8 \<Rightarrow> u8 \<Rightarrow> u8 \<Rightarrow> u8" where
  "secondary_of rd h b d f = ucast (drop_bit 8 (rd h (MakeAddress b d f 0x18)) AND 0xff)"

definition device_at :: "('h \<Rightarrow> u32 \<Rightarrow> u32) \<Rightarrow> 'h \<Rightarrow> u8 \<Rightarrow> u8 \<Rightarrow> u8 \<Rightarrow> Device" where
  "device_at rd h b d f = \<lparr>dev_bus = b, dev_device = d, dev_function = f,
     header_type = header_of rd h b d f, class_code = class_of rd h b d f\<rparr>"

definition answers :: "('h \<Rightarrow> u32 \<Rightarrow> u32) \<Rightarrow> 'h \<Rightarrow> u8 \<Rightarrow> u8 \<Rightarrow> u8 \<Rightarrow> bool" where
  "answers rd h b d f \<longleftrightarrow> d < 32 \<and> f < 8 \<and> vendor_of rd h b d 0 \<noteq> 0xffff \<and>
     (f = 0 \<or> \<not> IsSingleFunctionDevice (header_of rd h b d 0) \<and> vendor_of rd h b d f \<noteq> 0xffff)"

definition is_bridge :: "('h \<Rightarrow> u32 \<Rightarrow> u32) \<Rightarrow> 'h \<Rightarrow> u8 \<Rightarrow> u8 \<Rightarrow> u8 \<Rightarrow> bool" where
  "is_bridge rd h b d f \<longleftrightarrow> Match 0x06 0x04 (class_of rd h b d f)"

inductive bus_below :: "('h \<Rightarrow> u32 \<Rightarrow> u32) \<Rightarrow> 'h \<Rightarrow> u8 \<Rightarrow> u8 \<Rightarrow> bool" for rd h where
  same_bus: "bus_below rd h a a"
| secondary_bus: "answers rd h a d f \<Longrightarrow> is_bridge rd h a d f \<Longrightarrow>
    bus_below rd h (secondary_of rd h a d f) c \<Longrightarrow> bus_below rd h a c"

definition root_buses :: "('h \<Rightarrow> u32 \<Rightarrow> u32) \<Rightarrow> 'h \<Rightarrow> u8 set" where
  "root_buses rd h = (if IsSingleFunctionDevice (header_of rd h 0 0 0) then {0}
     else {f. f < 8 \<and> vendor_of rd h 0 0 f \<noteq> 0xffff})"

definition bus_devices :: "('h \<Rightarrow> u32 \<Rightarrow> u32) \<Rightarrow> 'h \<Rightarrow> u8 \<Rightarrow> Device set" where
  "bus_devices rd h b = {device_at rd h b d f |d f. answers rd h b d f}"

definition all_devices :: "('h \<Rightarrow> u32 \<Rightarrow> u32) \<Rightarrow> 'h \<Rightarrow> Device set" where
  "all_devices rd h = (\<Union>a \<in> root_buses rd h. \<Union>b \<in> {b. bus_below rd h a b}. bus_devices rd h b)"

lemmas reads = ReadVendorId_def ReadHeaderType_def ReadClassCode_def ReadBusNumbers_def
  WriteAddress_def ReadData_def Let_def

subsection \<open>The scan ends\<close>

text \<open>Only the list of devices grows, and never beyond its capacity.\<close>

definition fills :: "'h PciState \<Rightarrow> 'h PciState \<Rightarrow> bool" where
  "fills s s' \<longleftrightarrow> hw s' = hw s \<and> length (devices s) \<le> length (devices s') \<and> length (devices s') \<le> kMaxDevices"

lemma fills_trans: "fills s t \<Longrightarrow> fills t u \<Longrightarrow> fills s u"
  by (auto simp: fills_def)

lemma scan_each_ends:
  assumes "\<And>n s. length (devices s) \<le> kMaxDevices \<Longrightarrow> m \<le> length (devices s) \<Longrightarrow>
      \<exists>s' e. f n s = Some (s', e) \<and> fills s s'"
    and "length (devices s) \<le> kMaxDevices" and "m \<le> length (devices s)"
  shows "\<exists>s' e. scan_each f ns s = Some (s', e) \<and> fills s s'"
  using assms(2,3)
proof (induction ns arbitrary: s)
  case Nil
  then show ?case by (simp add: fills_def)
next
  case (Cons n ns)
  obtain s1 e where 1: "f n s = Some (s1, e)" "fills s s1" using assms(1)[OF Cons.prems] by blast
  then have "length (devices s1) \<le> kMaxDevices" "m \<le> length (devices s1)"
    using Cons.prems by (auto simp: fills_def)
  with Cons.IH[of s1] 1 show ?case by (auto intro: fills_trans)
qed

lemma ScanFunction_ends:
  assumes rec: "\<And>b s. length (devices s) \<le> kMaxDevices \<Longrightarrow> Suc m \<le> length (devices s) \<Longrightarrow>
      \<exists>s' e. scan_bus b s = Some (s', e) \<and> fills s s'"
    and "length (devices s) \<le> kMaxDevices" and "m \<le> length (devices s)"
  shows "\<exists>s' e. ScanFunction rd scan_bus bus device function s = Some (s', e) \<and> fills s s'"
proof (cases "length (devices s) = kMaxDevices")
  case True
  then show ?thesis
    by (auto simp: ScanFunction_def AddDevice_def reads is_error_def fills_def)
next
  case False
  define s3 where "s3 = s\<lparr>devices := devices s @ [device_at rd (hw s) bus device function]\<rparr>"
  have l: "length (devices (s3\<lparr>cfg_address := a\<rparr>)) \<le> kMaxDevices" "Suc m \<le> length (devices (s3\<lparr>cfg_address := a\<rparr>))" for a
    using assms(2,3) False by (auto simp: s3_def)
  have "fills s s'" if "fills (s3\<lparr>cfg_address := a\<rparr>) s'" for s' a
    using that by (auto simp: fills_def s3_def)
  moreover have "ScanFunction rd scan_bus bus device function s =
      (if is_bridge rd (hw s) bus device function
       then scan_bus (secondary_of rd (hw s) bus device function) (s3\<lparr>cfg_address := MakeAddress bus device function 0x18\<rparr>)
       else Some (s3\<lparr>cfg_address := MakeAddress bus device function 0x0c\<rparr>, kSuccess))"
    using False by (simp add: ScanFunction_def AddDevice_def reads s3_def device_at_def header_of_def class_of_def
        is_bridge_def secondary_of_def)
  moreover have "fills s (s3\<lparr>cfg_address := a\<rparr>)" for a
    using l(1)[of a] by (auto simp: fills_def s3_def)
  ultimately show ?thesis using rec[OF l] by (metis (full_types))
qed

lemma ScanDevice_ends:
  assumes rec: "\<And>b s. length (devices s) \<le> kMaxDevices \<Longrightarrow> Suc m \<le> length (devices s) \<Longrightarrow>
      \<exists>s' e. scan_bus b s = Some (s', e) \<and> fills s s'"
    and s: "length (devices s) \<le> kMaxDevices" "m \<le> length (devices s)"
  shows "\<exists>s' e. ScanDevice rd scan_bus bus device s = Some (s', e) \<and> fills s s'"
proof -
  note F = ScanFunction_ends[of m scan_bus, OF rec]
  obtain s1 e where 1: "ScanFunction rd scan_bus bus device 0 s = Some (s1, e)" "fills s s1"
    using F[OF _ _ s] by blast
  define s2 where "s2 = s1\<lparr>cfg_address := MakeAddress bus device 0 0x0c\<rparr>"
  have 2: "fills s s2" "length (devices s2) \<le> kMaxDevices" "m \<le> length (devices s2)"
    using 1(2) s by (auto simp: fills_def s2_def)
  define g where "g = (\<lambda>function s. let (s1, vendor) = ReadVendorId rd bus device function s
     in if vendor = 0xffff then Some (s1, kSuccess) else ScanFunction rd scan_bus bus device function s1)"
  have "\<exists>s' e. g n t = Some (s', e) \<and> fills t s'"
    if t: "length (devices t) \<le> kMaxDevices" "m \<le> length (devices t)" for n t
  proof -
    define t1 where "t1 = t\<lparr>cfg_address := MakeAddress bus device n 0x00\<rparr>"
    have "fills t t1" "length (devices t1) \<le> kMaxDevices" "m \<le> length (devices t1)"
      using t by (auto simp: fills_def t1_def)
    moreover have "g n t = (if vendor_of rd (hw t) bus device n = 0xffff then Some (t1, kSuccess)
        else ScanFunction rd scan_bus bus device n t1)"
      by (simp add: g_def reads t1_def vendor_of_def)
    ultimately show ?thesis using F[of t1 rd bus device n] by (auto intro: fills_trans)
  qed
  from scan_each_ends[of m g, OF this 2(2,3)]
  obtain s3 e3 where 3: "scan_each g [1, 2, 3, 4, 5, 6, 7] s2 = Some (s3, e3)" "fills s2 s3" by blast
  have "ScanDevice rd scan_bus bus device s = (if is_error e then Some (s1, e)
     else if IsSingleFunctionDevice (header_of rd (hw s1) bus device 0) then Some (s2, kSuccess)
     else scan_each g [1, 2, 3, 4, 5, 6, 7] s2)"
    using 1 by (simp add: ScanDevice_def g_def s2_def header_of_def reads)
  then show ?thesis using 1(2) 2 3 by (auto intro: fills_trans)
qed

text \<open>Every nested bus is entered with one more device in the list, so the free places bound the nesting.\<close>

lemma ScanBus_ends:
  "length (devices s) \<le> kMaxDevices \<Longrightarrow> kMaxDevices < fuel + length (devices s) \<Longrightarrow>
   \<exists>s' e. ScanBus rd fuel bus s = Some (s', e) \<and> fills s s'"
proof (induction fuel arbitrary: bus s)
  case 0
  then show ?case by simp
next
  case (Suc fuel)
  define m where "m = length (devices s)"
  have rec: "\<exists>s' e. ScanBus rd fuel b t = Some (s', e) \<and> fills t s'"
    if "length (devices t) \<le> kMaxDevices" "Suc m \<le> length (devices t)" for b t
    using Suc.IH[of t b] Suc.prems that by (auto simp: m_def)
  define g where "g = (\<lambda>device s. let (s1, vendor) = ReadVendorId rd bus device 0 s
     in if vendor = 0xffff then Some (s1, kSuccess) else ScanDevice rd (ScanBus rd fuel) bus device s1)"
  have "\<exists>s' e. g n t = Some (s', e) \<and> fills t s'"
    if t: "length (devices t) \<le> kMaxDevices" "m \<le> length (devices t)" for n t
  proof -
    define t1 where "t1 = t\<lparr>cfg_address := MakeAddress bus n 0 0x00\<rparr>"
    have 1: "fills t t1" "length (devices t1) \<le> kMaxDevices" "m \<le> length (devices t1)"
      using t by (auto simp: fills_def t1_def)
    have "g n t = (if vendor_of rd (hw t) bus n 0 = 0xffff then Some (t1, kSuccess)
        else ScanDevice rd (ScanBus rd fuel) bus n t1)"
      by (simp add: g_def reads t1_def vendor_of_def)
    with 1 show ?thesis using ScanDevice_ends[of m "ScanBus rd fuel" t1 rd bus n, OF rec 1(2,3)] by (auto intro: fills_trans)
  qed
  from scan_each_ends[of m g, OF this Suc.prems(1)] show ?case by (simp add: g_def m_def)
qed

text \<open>More fuel does not change a result.\<close>

lemma scan_each_mono:
  assumes "\<And>n s r. f n s = Some r \<Longrightarrow> g n s = Some r"
  shows "scan_each f ns s = Some r \<Longrightarrow> scan_each g ns s = Some r"
  by (induction ns arbitrary: s) (auto split: option.splits if_splits dest!: assms)

lemma ScanFunction_mono:
  assumes "\<And>b s r. sb b s = Some r \<Longrightarrow> sb' b s = Some r"
  shows "ScanFunction rd sb bus device function s = Some r \<Longrightarrow> ScanFunction rd sb' bus device function s = Some r"
  by (auto simp: ScanFunction_def Let_def split: prod.splits if_splits dest: assms)

lemma ScanDevice_mono:
  assumes rec: "\<And>b s r. sb b s = Some r \<Longrightarrow> sb' b s = Some r"
    and "ScanDevice rd sb bus device s = Some r"
  shows "ScanDevice rd sb' bus device s = Some r"
proof -
  have F: "ScanFunction rd sb bus device n t = Some r' \<Longrightarrow> ScanFunction rd sb' bus device n t = Some r'" for n t r'
    by (rule ScanFunction_mono[of sb sb']) (erule rec)
  define g1 where "g1 = (\<lambda>function s. let (s1, vendor) = ReadVendorId rd bus device function s
     in if vendor = 0xffff then Some (s1, kSuccess) else ScanFunction rd sb bus device function s1)"
  define g2 where "g2 = (\<lambda>function s. let (s1, vendor) = ReadVendorId rd bus device function s
     in if vendor = 0xffff then Some (s1, kSuccess) else ScanFunction rd sb' bus device function s1)"
  have "g1 n t = Some r' \<Longrightarrow> g2 n t = Some r'" for n t r'
    by (auto simp: g1_def g2_def Let_def split: prod.splits if_splits dest: F)
  then have G: "scan_each g1 ns t = Some r' \<Longrightarrow> scan_each g2 ns t = Some r'" for ns t r'
    by (rule scan_each_mono[of g1 g2])
  obtain s1 e where 1: "ScanFunction rd sb bus device 0 s = Some (s1, e)"
    using assms(2) by (auto simp: ScanDevice_def split: option.splits)
  show ?thesis using assms(2) F[OF 1] 1
    unfolding ScanDevice_def g1_def[symmetric] g2_def[symmetric]
    by (auto simp: Let_def simp del: scan_each.simps split: prod.splits if_splits dest: G)
qed

lemma ScanBus_mono: "ScanBus rd fuel bus s = Some r \<Longrightarrow> ScanBus rd (fuel + k) bus s = Some r"
proof (induction fuel arbitrary: bus s r)
  case (Suc fuel)
  have D: "ScanDevice rd (ScanBus rd fuel) bus n t = Some r' \<Longrightarrow>
      ScanDevice rd (ScanBus rd (fuel + k)) bus n t = Some r'" for n t r'
    by (rule ScanDevice_mono[of "ScanBus rd fuel"]) (erule Suc.IH)
  show ?case using Suc.prems unfolding add_Suc ScanBus.simps
    by (elim scan_each_mono[rotated]) (auto simp: Let_def split: prod.splits if_splits dest: D)
qed simp

lemma ScanAllBus_mono:
  assumes "ScanAllBus rd fuel s = Some r"
  shows "ScanAllBus rd (fuel + k) s = Some r"
proof -
  define g1 where "g1 = (\<lambda>function s. let (s1, vendor) = ReadVendorId rd 0 0 function s
     in if vendor = 0xffff then Some (s1, kSuccess) else ScanBus rd fuel function s1)"
  define g2 where "g2 = (\<lambda>function s. let (s1, vendor) = ReadVendorId rd 0 0 function s
     in if vendor = 0xffff then Some (s1, kSuccess) else ScanBus rd (fuel + k) function s1)"
  have "g1 n t = Some r' \<Longrightarrow> g2 n t = Some r'" for n t r'
    by (auto simp: g1_def g2_def Let_def split: prod.splits if_splits dest: ScanBus_mono)
  then have G: "scan_each g1 ns t = Some r' \<Longrightarrow> scan_each g2 ns t = Some r'" for ns t r'
    by (rule scan_each_mono[of g1 g2])
  show ?thesis using assms
    unfolding ScanAllBus_def g1_def[symmetric] g2_def[symmetric]
    by (auto simp: Let_def simp del: scan_each.simps split: prod.splits if_splits dest: ScanBus_mono G)
qed

text \<open>C22: The scan of the PCI buses ends on every hardware, also on one whose bridges form a circle:
  each nested bus costs a place in the device table, so at most 33 buses are ever nested (fuel 33, and
  more fuel changes nothing). The device table never overflows and nothing is written to the hardware.\<close>

theorem ScanAllBus_terminates:
  "\<exists>s' e. (\<forall>k. ScanAllBus rd (33 + k) s = Some (s', e)) \<and> length (devices s') \<le> kMaxDevices \<and> hw s' = hw s"
proof -
  define s1 where "s1 = s\<lparr>devices := [], cfg_address := MakeAddress 0 0 0 0x0c\<rparr>"
  have B: "\<exists>s' e. ScanBus rd 33 b t = Some (s', e) \<and> fills t s'" if "length (devices t) \<le> kMaxDevices" for b and t :: "'a PciState"
    using ScanBus_ends[of t 33 rd b] that by (simp add: kMaxDevices_def)
  define g where "g = (\<lambda>function s. let (s1, vendor) = ReadVendorId rd 0 0 function s
     in if vendor = 0xffff then Some (s1, kSuccess) else ScanBus rd 33 function s1)"
  have "\<exists>s' e. g n t = Some (s', e) \<and> fills t s'" if t: "length (devices t) \<le> kMaxDevices" for n t
  proof -
    define t1 where "t1 = t\<lparr>cfg_address := MakeAddress 0 0 n 0x00\<rparr>"
    have t1: "fills t t1" "length (devices t1) \<le> kMaxDevices" using t by (auto simp: fills_def t1_def)
    have "g n t = (if vendor_of rd (hw t) 0 0 n = 0xffff then Some (t1, kSuccess) else ScanBus rd 33 n t1)"
      by (simp add: g_def reads t1_def vendor_of_def)
    with t1 B[OF t1(2), of n] show ?thesis by (auto intro: fills_trans)
  qed
  from scan_each_ends[of 0 g s1, OF this] B[of s1 0]
  have "\<exists>s' e. scan_each g ns s1 = Some (s', e) \<and> fills s1 s'"
    "\<exists>s' e. ScanBus rd 33 0 s1 = Some (s', e) \<and> fills s1 s'" for ns
    by (auto simp: s1_def)
  moreover have "ScanAllBus rd 33 s = (if IsSingleFunctionDevice (header_of rd (hw s) 0 0 0) then ScanBus rd 33 0 s1
      else scan_each g [0, 1, 2, 3, 4, 5, 6, 7] s1)"
    by (simp only: ScanAllBus_def g_def[symmetric]) (simp add: reads s1_def header_of_def del: scan_each.simps)
  ultimately have "\<exists>s' e. ScanAllBus rd 33 s = Some (s', e) \<and> fills s1 s'" by presburger
  then obtain s' e where 1: "ScanAllBus rd 33 s = Some (s', e)" "fills s1 s'" by blast
  from ScanAllBus_mono[OF 1(1)] have "\<forall>k. ScanAllBus rd (33 + k) s = Some (s', e)" by blast
  with 1(2) show ?thesis by (auto simp: fills_def s1_def)
qed

subsection \<open>What the scan finds\<close>

text \<open>
  A successful part of the scan that starts at bus \<open>a\<close>: it appends devices that answer on buses below
  \<open>a\<close>, among them all of \<open>want\<close>, and for every bridge it appends all devices of the secondary bus.
\<close>

definition closed_under_bridges :: "('h \<Rightarrow> u32 \<Rightarrow> u32) \<Rightarrow> 'h \<Rightarrow> Device set \<Rightarrow> bool" where
  "closed_under_bridges rd h N \<longleftrightarrow> (\<forall>b d f. answers rd h b d f \<longrightarrow> device_at rd h b d f \<in> N \<longrightarrow> is_bridge rd h b d f \<longrightarrow>
     bus_devices rd h (secondary_of rd h b d f) \<subseteq> N)"

definition below :: "('h \<Rightarrow> u32 \<Rightarrow> u32) \<Rightarrow> 'h \<Rightarrow> u8 \<Rightarrow> Device set" where
  "below rd h a = (\<Union>b \<in> {b. bus_below rd h a b}. bus_devices rd h b)"

definition found :: "('h \<Rightarrow> u32 \<Rightarrow> u32) \<Rightarrow> Device set \<Rightarrow> Device set \<Rightarrow> 'h PciState \<Rightarrow> 'h PciState \<Rightarrow> bool" where
  "found rd bound want s s' \<longleftrightarrow> hw s' = hw s \<and> (\<exists>new. devices s' = devices s @ new \<and> want \<subseteq> set new \<and>
     set new \<subseteq> bound \<and> closed_under_bridges rd (hw s) (set new))"

lemma found_none: "devices s' = devices s \<Longrightarrow> hw s' = hw s \<Longrightarrow> found rd bound {} s s'"
  by (auto simp: found_def closed_under_bridges_def)

lemma found_trans:
  assumes "found rd bound w1 s t" and "found rd bound w2 t u"
  shows "found rd bound (w1 \<union> w2) s u"
proof -
  obtain n1 where 1: "hw t = hw s" "devices t = devices s @ n1" "w1 \<subseteq> set n1" "set n1 \<subseteq> bound"
    "closed_under_bridges rd (hw s) (set n1)" using assms(1) by (auto simp: found_def)
  obtain n2 where 2: "hw u = hw t" "devices u = devices t @ n2" "w2 \<subseteq> set n2" "set n2 \<subseteq> bound"
    "closed_under_bridges rd (hw t) (set n2)" using assms(2) by (auto simp: found_def)
  have "devices u = devices s @ n1 @ n2" using 1(2) 2(2) by simp
  moreover have "closed_under_bridges rd (hw s) (set (n1 @ n2))"
    using 1(5) 2(5)[unfolded 1(1)] unfolding closed_under_bridges_def set_append by blast
  moreover have "w1 \<union> w2 \<subseteq> set (n1 @ n2)" "set (n1 @ n2) \<subseteq> bound" using 1(3,4) 2(3,4) by auto
  moreover have "hw u = hw s" using 1(1) 2(1) by simp
  ultimately show ?thesis unfolding found_def by blast
qed

lemma found_eq_view: "found rd bound w s t \<Longrightarrow> devices s' = devices s \<Longrightarrow> hw s' = hw s \<Longrightarrow> found rd bound w s' t"
  by (simp add: found_def)

lemma found_weaken: "found rd bound w s t \<Longrightarrow> bound \<subseteq> bound' \<Longrightarrow> w' \<subseteq> w \<Longrightarrow> found rd bound' w' s t"
  unfolding found_def by blast

lemma scan_each_found:
  assumes "\<And>n s s'. n \<in> set ns \<Longrightarrow> f n s = Some (s', kSuccess) \<Longrightarrow> hw s = h \<Longrightarrow> found rd bound (W n) s s'"
    and "scan_each f ns s = Some (s', kSuccess)" and "hw s = h"
  shows "found rd bound (\<Union>n \<in> set ns. W n) s s'"
  using assms
proof (induction ns arbitrary: s)
  case Nil
  then show ?case by (simp add: found_none)
next
  case (Cons n ns)
  then obtain s1 where 1: "f n s = Some (s1, kSuccess)" "scan_each f ns s1 = Some (s', kSuccess)"
    by (auto simp: is_error_def split: option.splits if_splits)
  have 2: "found rd bound (W n) s s1" by (rule Cons.prems(1)[OF _ 1(1) Cons.prems(3)]) simp
  then have "hw s1 = h" using Cons.prems(3) by (simp add: found_def)
  then have "found rd bound (\<Union>n \<in> set ns. W n) s1 s'"
    using Cons.IH[of s1] Cons.prems(1) 1(2) by simp
  from found_trans[OF 2 this] show ?case by simp
qed

lemma device_at_inj: "device_at rd h b d f = device_at rd h b' d' f' \<Longrightarrow> b = b' \<and> d = d' \<and> f = f'"
  by (simp add: device_at_def)

lemma below_self: "bus_devices rd h a \<subseteq> below rd h a"
  by (auto simp: below_def intro: same_bus)

lemma below_secondary:
  "answers rd h b d f \<Longrightarrow> is_bridge rd h b d f \<Longrightarrow> below rd h (secondary_of rd h b d f) \<subseteq> below rd h b"
  by (auto simp: below_def intro: secondary_bus)

lemma ScanFunction_found:
  assumes rec: "\<And>b s s'. scan_bus b s = Some (s', kSuccess) \<Longrightarrow> hw s = h \<Longrightarrow> found rd (below rd h b) (bus_devices rd h b) s s'"
    and run: "ScanFunction rd scan_bus b d f s = Some (s', kSuccess)" and h: "hw s = h" and a: "answers rd h b d f"
  shows "found rd (below rd h b) {device_at rd h b d f} s s'"
proof -
  define x where "x = device_at rd h b d f"
  define s3 where "s3 = s\<lparr>devices := devices s @ [x]\<rparr>"
  have in_bus: "x \<in> below rd h b" using a below_self[of rd h b] by (auto simp: bus_devices_def x_def)
  have eq: "ScanFunction rd scan_bus b d f s =
      (if is_bridge rd h b d f then scan_bus (secondary_of rd h b d f) (s3\<lparr>cfg_address := MakeAddress b d f 0x18\<rparr>)
       else Some (s3\<lparr>cfg_address := MakeAddress b d f 0x0c\<rparr>, kSuccess))"
    using run h by (auto simp: ScanFunction_def AddDevice_def reads s3_def x_def device_at_def header_of_def class_of_def
        is_bridge_def secondary_of_def is_error_def split: if_splits)
  show ?thesis
  proof (cases "is_bridge rd h b d f")
    case False
    then have "devices s' = devices s @ [x]" "hw s' = hw s" using run eq by (auto simp: s3_def)
    then show ?thesis using in_bus False
      by (auto simp: found_def x_def[symmetric] closed_under_bridges_def h) (auto simp: x_def dest!: device_at_inj)
  next
    case True
    let ?t = "s3\<lparr>cfg_address := MakeAddress b d f 0x18\<rparr>"
    have "scan_bus (secondary_of rd h b d f) ?t = Some (s', kSuccess)" using run eq True by simp
    from rec[OF this] obtain new where new: "hw s' = hw ?t" "devices s' = devices ?t @ new"
      "bus_devices rd h (secondary_of rd h b d f) \<subseteq> set new" "set new \<subseteq> below rd h (secondary_of rd h b d f)"
      "closed_under_bridges rd h (set new)"
      using h by (auto simp: found_def s3_def)
    have "devices s' = devices s @ (x # new)" "hw s' = hw s" using new(1,2) by (auto simp: s3_def)
    moreover have "set (x # new) \<subseteq> below rd h b" using new(4) in_bus below_secondary[OF a True] by auto
    moreover have "closed_under_bridges rd h (set (x # new))"
      using new(3,5) unfolding closed_under_bridges_def x_def by (auto dest!: device_at_inj) blast
    ultimately show ?thesis unfolding found_def x_def[symmetric] using h by auto
  qed
qed

lemma answers_function: "n \<in> {1, 2, 3, 4, 5, 6, 7 :: u8} \<longleftrightarrow> n < 8 \<and> n \<noteq> 0"
proof
  assume "n < 8 \<and> n \<noteq> 0"
  then have "unat n < 8" "unat n \<noteq> 0" by (auto simp: word_less_nat_alt unat_eq_zero)
  then have "unat n \<in> {1, 2, 3, 4, 5, 6, 7}" by auto
  then show "n \<in> {1, 2, 3, 4, 5, 6, 7}" by (auto simp: word_unat_eq_iff)
qed auto

lemma ScanDevice_found:
  assumes rec: "\<And>b s s'. scan_bus b s = Some (s', kSuccess) \<Longrightarrow> hw s = h \<Longrightarrow> found rd (below rd h b) (bus_devices rd h b) s s'"
    and run: "ScanDevice rd scan_bus b d s = Some (s', kSuccess)" and h: "hw s = h"
    and d: "d < 32" "vendor_of rd h b d 0 \<noteq> 0xffff"
  shows "found rd (below rd h b) {device_at rd h b d f |f. answers rd h b d f} s s'"
proof -
  note F = ScanFunction_found[of scan_bus h rd, OF rec]
  define g where "g = (\<lambda>function s. let (s1, vendor) = ReadVendorId rd b d function s
     in if vendor = 0xffff then Some (s1, kSuccess) else ScanFunction rd scan_bus b d function s1)"
  have a0: "answers rd h b d 0" using d by (simp add: answers_def)
  obtain s1 where 1: "ScanFunction rd scan_bus b d 0 s = Some (s1, kSuccess)"
    using run by (auto simp: ScanDevice_def is_error_def split: option.splits if_splits)
  have f1: "found rd (below rd h b) {device_at rd h b d 0} s s1" by (rule F[OF _ _ 1 h a0])
  then have h1: "hw s1 = h" using h by (simp add: found_def)
  define s2 where "s2 = s1\<lparr>cfg_address := MakeAddress b d 0 0x0c\<rparr>"
  have run2: "(if IsSingleFunctionDevice (header_of rd h b d 0) then Some (s2, kSuccess)
      else scan_each g [1, 2, 3, 4, 5, 6, 7] s2) = Some (s', kSuccess)"
    using run 1 h1 unfolding ScanDevice_def g_def[symmetric]
    by (auto simp: reads s2_def header_of_def simp del: scan_each.simps split: if_splits)
  show ?thesis
  proof (cases "IsSingleFunctionDevice (header_of rd h b d 0)")
    case True
    then have "found rd (below rd h b) {} s1 s'" using run2 by (auto simp: s2_def intro!: found_none)
    from found_trans[OF f1 this] show ?thesis using True by (auto simp: answers_def elim!: found_weaken)
  next
    case False
    define W where "W n = (if vendor_of rd h b d n = 0xffff \<or> 8 \<le> n then {} else {device_at rd h b d n})" for n
    have G: "found rd (below rd h b) (W n) t t'"
      if n: "n \<in> set [1, 2, 3, 4, 5, 6, 7]" and gt: "g n t = Some (t', kSuccess)" "hw t = h" for n t t'
    proof (cases "vendor_of rd h b d n = 0xffff")
      case True
      then have "t' = t\<lparr>cfg_address := MakeAddress b d n 0x00\<rparr>"
        using gt by (auto simp: g_def reads vendor_of_def)
      then show ?thesis using True by (auto simp: W_def intro!: found_none)
    next
      case v: False
      then have 2: "ScanFunction rd scan_bus b d n (t\<lparr>cfg_address := MakeAddress b d n 0x00\<rparr>) = Some (t', kSuccess)"
        using gt by (auto simp: g_def reads vendor_of_def)
      have n8: "n < 8" using n answers_function[of n] by simp
      then have "answers rd h b d n" using d v False by (simp add: answers_def)
      from F[OF _ _ 2 _ this] gt(2) have "found rd (below rd h b) {device_at rd h b d n} (t\<lparr>cfg_address := MakeAddress b d n 0x00\<rparr>) t'" by simp
      then show ?thesis using v n8 by (auto simp: W_def not_le[symmetric] intro: found_eq_view)
    qed
    have r: "scan_each g [1, 2, 3, 4, 5, 6, 7] s2 = Some (s', kSuccess)" using run2 False by (simp only: if_False)
    have "found rd (below rd h b) (\<Union>n \<in> set [1, 2, 3, 4, 5, 6, 7]. W n) s2 s'"
      by (rule scan_each_found[where f = g and h = h], erule (2) G, rule r) (simp add: s2_def h1)
    then have "found rd (below rd h b) (\<Union>n \<in> {1, 2, 3, 4, 5, 6, 7}. W n) s1 s'"
      by (simp add: found_def s2_def)
    from found_trans[OF f1 this] show ?thesis
    proof (rule found_weaken)
      show "{device_at rd h b d f |f. answers rd h b d f} \<subseteq> {device_at rd h b d 0} \<union> (\<Union>n \<in> {1, 2, 3, 4, 5, 6, 7}. W n)"
      proof
        fix x assume "x \<in> {device_at rd h b d f |f. answers rd h b d f}"
        then obtain f where f: "x = device_at rd h b d f" "answers rd h b d f" by blast
        show "x \<in> {device_at rd h b d 0} \<union> (\<Union>n \<in> {1, 2, 3, 4, 5, 6, 7}. W n)"
        proof (cases "f = 0")
          case False
          then have "f \<in> {1, 2, 3, 4, 5, 6, 7}" "x \<in> W f"
            using f unfolding answers_function by (simp_all add: answers_def W_def not_le)
          then show ?thesis by blast
        qed (simp add: f)
      qed
    qed simp
  qed
qed

lemma device_numbers: "set (map of_nat [0..<32]) = {d :: u8. d < 32}"
proof -
  have "d \<in> set (map of_nat [0..<32])" if "d < 32" for d :: u8
  proof -
    have "unat d < 32" using that by (simp add: word_less_nat_alt)
    then have "of_nat (unat d) \<in> set (map of_nat [0..<32] :: u8 list)" by (metis atLeastLessThan_iff imageI le0 list.set_map set_upt)
    then show ?thesis by simp
  qed
  then show ?thesis by (auto simp: word_less_nat_alt unat_of_nat)
qed

lemma ScanBus_found:
  "ScanBus rd fuel b s = Some (s', kSuccess) \<Longrightarrow> hw s = h \<Longrightarrow> found rd (below rd h b) (bus_devices rd h b) s s'"
proof (induction fuel arbitrary: b s s')
  case (Suc fuel)
  define g where "g = (\<lambda>device s. let (s1, vendor) = ReadVendorId rd b device 0 s
     in if vendor = 0xffff then Some (s1, kSuccess) else ScanDevice rd (ScanBus rd fuel) b device s1)"
  define W where "W d = {device_at rd h b d f |f. answers rd h b d f}" for d
  have G: "found rd (below rd h b) (W d) t t'"
    if d: "d \<in> set (map of_nat [0..<32])" and gt: "g d t = Some (t', kSuccess)" "hw t = h" for d t t'
  proof (cases "vendor_of rd h b d 0 = 0xffff")
    case True
    then have "t' = t\<lparr>cfg_address := MakeAddress b d 0 0x00\<rparr>" using gt by (auto simp: g_def reads vendor_of_def)
    then show ?thesis using True by (auto simp: W_def answers_def intro!: found_none)
  next
    case False
    then have 1: "ScanDevice rd (ScanBus rd fuel) b d (t\<lparr>cfg_address := MakeAddress b d 0 0x00\<rparr>) = Some (t', kSuccess)"
      using gt by (auto simp: g_def reads vendor_of_def)
    have "d < 32" using d unfolding device_numbers by simp
    from ScanDevice_found[OF Suc.IH 1 _ this False] gt(2)
    have "found rd (below rd h b) (W d) (t\<lparr>cfg_address := MakeAddress b d 0 0x00\<rparr>) t'" by (simp add: W_def)
    then show ?thesis by (auto intro: found_eq_view)
  qed
  have r: "scan_each g (map of_nat [0..<32]) s = Some (s', kSuccess)" using Suc.prems(1) by (simp add: g_def)
  have "found rd (below rd h b) (\<Union>n \<in> set (map of_nat [0..<32]). W n) s s'"
    by (rule scan_each_found[where f = g and h = h], erule (2) G, rule r) (rule Suc.prems(2))
  then show ?case
  proof (rule found_weaken)
    show "bus_devices rd h b \<subseteq> (\<Union>n \<in> set (map of_nat [0..<32]). W n)"
      unfolding device_numbers by (auto simp: bus_devices_def W_def answers_def)
  qed simp
qed simp

lemma below_trans: "bus_below rd h a b \<Longrightarrow> bus_devices rd h b \<subseteq> below rd h a"
  by (auto simp: below_def)

lemma closed_below:
  assumes "bus_below rd h a c" and "closed_under_bridges rd h N" and "bus_devices rd h a \<subseteq> N"
  shows "bus_devices rd h c \<subseteq> N"
  using assms
proof (induction rule: bus_below.induct)
  case (secondary_bus a d f c)
  then have "device_at rd h a d f \<in> bus_devices rd h a" unfolding bus_devices_def by blast
  with secondary_bus show ?case unfolding closed_under_bridges_def by blast
qed simp

lemma below_8: "{f :: u8. f < 8} = set [0, 1, 2, 3, 4, 5, 6, 7]"
proof -
  have "f \<in> set [0, 1, 2, 3, 4, 5, 6, 7] \<longleftrightarrow> f < 8" for f :: u8
    using answers_function[of f] by (cases "f = 0") simp_all
  then show ?thesis by blast
qed

text \<open>C21: A scan of the PCI buses that reports success has found exactly the functions that answer on
  the root buses and on the buses behind bridges, however deep: none is missed and none is invented.\<close>

theorem ScanAllBus_finds_all:
  assumes "ScanAllBus rd fuel s = Some (s', kSuccess)"
  shows "set (devices s') = all_devices rd (hw s)"
proof -
  define h where "h = hw s"
  define s1 where "s1 = s\<lparr>devices := [], cfg_address := MakeAddress 0 0 0 0x0c\<rparr>"
  define g where "g = (\<lambda>function s. let (s1, vendor) = ReadVendorId rd 0 0 function s
     in if vendor = 0xffff then Some (s1, kSuccess) else ScanBus rd fuel function s1)"
  define A where "A = (\<Union>a \<in> root_buses rd h. below rd h a)"
  define W where "W = (\<Union>a \<in> root_buses rd h. bus_devices rd h a)"
  have run: "(if IsSingleFunctionDevice (header_of rd h 0 0 0) then ScanBus rd fuel 0 s1
      else scan_each g [0, 1, 2, 3, 4, 5, 6, 7] s1) = Some (s', kSuccess)"
    using assms unfolding ScanAllBus_def g_def[symmetric]
    by (auto simp: reads s1_def header_of_def h_def simp del: scan_each.simps split: if_splits)
  have "found rd A W s1 s'"
  proof (cases "IsSingleFunctionDevice (header_of rd h 0 0 0)")
    case True
    with run ScanBus_found[of rd fuel 0 s1 s' h] show ?thesis
      by (simp add: A_def W_def root_buses_def s1_def h_def)
  next
    case False
    define V where "V n = (if vendor_of rd h 0 0 n = 0xffff then {} else bus_devices rd h n)" for n
    have G: "found rd A (V n) t t'"
      if n: "n \<in> set [0, 1, 2, 3, 4, 5, 6, 7]" and gt: "g n t = Some (t', kSuccess)" "hw t = h" for n t t'
    proof (cases "vendor_of rd h 0 0 n = 0xffff")
      case True
      then have "t' = t\<lparr>cfg_address := MakeAddress 0 0 n 0x00\<rparr>" using gt by (auto simp: g_def reads vendor_of_def)
      then show ?thesis using True by (auto simp: V_def intro!: found_none)
    next
      case v: False
      then have 1: "ScanBus rd fuel n (t\<lparr>cfg_address := MakeAddress 0 0 n 0x00\<rparr>) = Some (t', kSuccess)"
        using gt by (auto simp: g_def reads vendor_of_def)
      have "n \<in> root_buses rd h" using n v False below_8 by (auto simp: root_buses_def)
      then have "below rd h n \<subseteq> A" by (auto simp: A_def)
      from found_weaken[OF ScanBus_found[OF 1, of h] this] gt(2)
      have "found rd A (bus_devices rd h n) (t\<lparr>cfg_address := MakeAddress 0 0 n 0x00\<rparr>) t'" by simp
      then show ?thesis using v by (auto simp: V_def intro: found_eq_view)
    qed
    have r: "scan_each g [0, 1, 2, 3, 4, 5, 6, 7] s1 = Some (s', kSuccess)" using run False by (simp only: if_False)
    have "found rd A (\<Union>n \<in> {f. f < 8}. V n) s1 s'"
      unfolding below_8
      by (rule scan_each_found[where f = g and h = h], erule (2) G, rule r) (simp add: s1_def h_def)
    then show ?thesis by (rule found_weaken) (auto simp: W_def V_def root_buses_def False)
  qed
  then have "W \<subseteq> set (devices s')" "set (devices s') \<subseteq> A" "closed_under_bridges rd h (set (devices s'))"
    by (auto simp: found_def s1_def h_def)
  moreover have "A \<subseteq> set (devices s')" if "W \<subseteq> set (devices s')" "closed_under_bridges rd h (set (devices s'))"
    using closed_below[OF _ that(2)] that(1) unfolding A_def W_def below_def by blast
  ultimately show ?thesis by (auto simp: all_devices_def below_def A_def h_def)
qed

text \<open>A machine with a host bridge, a PCI bridge to bus 1 and one device behind it.\<close>

definition sample_rd :: "unit \<Rightarrow> u32 \<Rightarrow> u32" where
  "sample_rd h a = (if a = 0x80000000 then 0x29c08086 else if a = 0x80000008 then 0x06000000
     else if a = 0x80000800 then 0x1b361234 else if a = 0x80000808 then 0x06040000
     else if a = 0x8000080c then 0x00010000 else if a = 0x80000818 then 0x00010100
     else if a = 0x80010000 then 0x000d1033 else if a = 0x80010008 then 0x0c033000
     else if a = 0x8000000c \<or> a = 0x8001000c then 0 else 0xffffffff)"

definition sample_pci :: "unit PciState" where
  "sample_pci = \<lparr>cfg_address = 0, devices = [], hw = ()\<rparr>"

lemma scan_absent:
  assumes "\<forall>d \<in> set ds. vendor_of rd (hw s) b d 0 = 0xffff" and "ds \<noteq> []"
  shows "scan_each (\<lambda>device s. let (s1, vendor) = ReadVendorId rd b device 0 s
       in if vendor = 0xffff then Some (s1, kSuccess) else f device s1) ds s =
     Some (s\<lparr>cfg_address := MakeAddress b (last ds) 0 0\<rparr>, kSuccess)"
  using assms by (induction ds arbitrary: s) (auto simp: reads vendor_of_def)

lemma sample_absent:
  "\<forall>d \<in> set (map of_nat [2..<32]). vendor_of sample_rd () 0 d 0 = 0xffff"
  "\<forall>d \<in> set (map of_nat [1..<32]). vendor_of sample_rd () 1 d 0 = 0xffff"
  by (simp_all add: vendor_of_def MakeAddress_def sample_rd_def upt_rec[of _ "numeral k" for k])

lemmas sample_steps = reads MakeAddress_def sample_rd_def Match_def IsSingleFunctionDevice_def ScanDevice_def
  ScanFunction_def AddDevice_def kMaxDevices_def is_error_def

lemma sample_bus1:
  "hw s = () \<Longrightarrow> devices s = [x, y] \<Longrightarrow>
   \<exists>a z. ScanBus sample_rd (Suc 0) 1 s = Some (s\<lparr>devices := [x, y, z], cfg_address := a\<rparr>, kSuccess)"
  unfolding ScanBus.simps upt_conv_Cons[of 0 32, simplified] list.map scan_each.simps
  by (subst scan_absent, simp_all add: sample_steps sample_absent) (intro exI, rule refl)

lemma sample_bus0:
  assumes "hw s = ()" and "devices s = []"
  shows "\<exists>s'. ScanBus sample_rd (Suc (Suc 0)) 0 s = Some (s', kSuccess) \<and> length (devices s') = 3"
proof -
  define g where "g = (\<lambda>device s. let (s1, vendor) = ReadVendorId sample_rd 0 device 0 s
     in if vendor = 0xffff then Some (s1, kSuccess)
        else ScanDevice sample_rd (ScanBus sample_rd (Suc 0)) 0 device s1)"
  have "\<exists>x a. g 0 s = Some (s\<lparr>devices := [x], cfg_address := a\<rparr>, kSuccess)"
    using assms by (simp add: g_def sample_steps) (intro exI, rule refl)
  then obtain x a where 1: "g 0 s = Some (s\<lparr>devices := [x], cfg_address := a\<rparr>, kSuccess)" by blast
  define s1 where "s1 = s\<lparr>devices := [x], cfg_address := a\<rparr>"
  define y where "y = device_at sample_rd () 0 1 0"
  obtain z c where "ScanBus sample_rd (Suc 0) 1 (s1\<lparr>devices := [x, y], cfg_address := 0x80000818\<rparr>) =
      Some (s1\<lparr>devices := [x, y, z], cfg_address := c\<rparr>, kSuccess)"
    using sample_bus1[of "s1\<lparr>devices := [x, y], cfg_address := 0x80000818\<rparr>" x y] by auto
  then have 2: "g 1 s1 = Some (s1\<lparr>devices := [x, y, z], cfg_address := 0x8000080c\<rparr>, kSuccess)"
    by (simp add: g_def sample_steps y_def device_at_def header_of_def class_of_def s1_def del: ScanBus.simps)
  define s2 where "s2 = s1\<lparr>devices := [x, y, z], cfg_address := 0x8000080c\<rparr>"
  have 3: "scan_each g (map of_nat [2..<32]) s2 = Some (s2\<lparr>cfg_address := MakeAddress 0 (last (map of_nat [2..<32])) 0 0\<rparr>, kSuccess)"
    unfolding g_def by (rule scan_absent) (simp_all add: sample_absent)
  have l: "map of_nat [0..<32] = (0 :: u8) # 1 # map of_nat [2..<32]"
    by (simp add: upt_conv_Cons numeral_2_eq_2)
  have "ScanBus sample_rd (Suc (Suc 0)) 0 s = scan_each g (map of_nat [0..<32]) s" by (simp add: g_def)
  also have "\<dots> = Some (s2\<lparr>cfg_address := MakeAddress 0 (last (map of_nat [2..<32])) 0 0\<rparr>, kSuccess)"
    unfolding l scan_each.simps 1 s1_def[symmetric] using 2 3 by (simp add: s2_def)
  finally show ?thesis by (simp add: s2_def)
qed

theorem ScanAllBus_finds_all_witness:
  "\<exists>s'. ScanAllBus sample_rd (Suc (Suc 0)) sample_pci = Some (s', kSuccess) \<and> length (devices s') = 3 \<and>
    set (devices s') = all_devices sample_rd ()"
proof -
  obtain s' where s': "ScanAllBus sample_rd (Suc (Suc 0)) sample_pci = Some (s', kSuccess)" "length (devices s') = 3"
    using sample_bus0[of "sample_pci\<lparr>cfg_address := 0x8000000c\<rparr>"]
    by (auto simp: ScanAllBus_def reads MakeAddress_def sample_rd_def sample_pci_def IsSingleFunctionDevice_def
        simp del: ScanBus.simps)
  with ScanAllBus_finds_all[OF s'(1)] show ?thesis by (simp add: sample_pci_def)
qed

subsection \<open>Programming message signalled interrupts\<close>

text \<open>The configuration address of a register of a device; aligned registers have different addresses.\<close>

definition reg_at :: "Device \<Rightarrow> u8 \<Rightarrow> u32" where
  "reg_at dev r = MakeAddress (dev_bus dev) (dev_device dev) (dev_function dev) r"

lemma MakeAddress_low: "take_bit 8 (MakeAddress b d f r) = ucast r AND 0xfc"
proof (rule bit_word_eqI)
  fix n assume "n < LENGTH(32)"
  have "\<not> bit (0xfc :: u32) n" if "8 \<le> n"
  proof -
    have "unat (0xfc :: u32) < 2 ^ 8" by simp
    then show ?thesis using word_bit_bound[of "0xfc :: u32" n 8] that by linarith
  qed
  then show "bit (take_bit 8 (MakeAddress b d f r)) n = bit (ucast r AND 0xfc :: u32) n"
    by (cases "n < 8") (auto simp: MakeAddress_def bit_take_bit_iff bit_or_iff bit_push_bit_iff bit_and_iff bit_1_iff)
qed

lemma reg_at_eq:
  assumes "a AND 3 = 0" and "b AND 3 = 0"
  shows "reg_at dev a = reg_at dev b \<longleftrightarrow> a = b"
proof
  assume "reg_at dev a = reg_at dev b"
  then have e: "ucast a AND 0xfc = (ucast b AND 0xfc :: u32)"
    using MakeAddress_low[of "dev_bus dev" "dev_device dev" "dev_function dev"] by (metis reg_at_def)
  show "a = b"
  proof (rule bit_word_eqI)
    fix n assume n: "n < LENGTH(8)"
    have c: "(0xfc :: u32) = push_bit 2 (mask 6)" "(3 :: u8) = mask 2" by (simp_all add: mask_eq_exp_minus_1)
    show "bit a n = bit b n"
    proof (cases "n < 2")
      case True
      have "\<not> bit a n" "\<not> bit b n"
        using arg_cong[OF assms(1)[unfolded c(2)], of "\<lambda>w. bit w n"]
          arg_cong[OF assms(2)[unfolded c(2)], of "\<lambda>w. bit w n"] True n
        by (simp_all add: bit_and_iff bit_mask_iff)
      then show ?thesis by simp
    next
      case False
      have "bit (ucast a AND 0xfc :: u32) n = bit (ucast b AND 0xfc :: u32) n" by (simp only: e)
      then show ?thesis using False n unfolding c(1)
        by (auto simp: bit_and_iff bit_push_bit_iff bit_mask_iff bit_ucast_iff)
    qed
  qed
qed simp

lemma aligned_iff: "a AND 3 = 0 \<longleftrightarrow> unat a mod 4 = 0" for a :: u8
proof -
  have m: "(3 :: u8) = mask 2" by (simp add: mask_eq_exp_minus_1)
  have "a AND 3 = take_bit 2 a" unfolding m by (simp only: take_bit_eq_mask)
  then have "unat (a AND 3) = unat a mod 4" by (simp add: take_bit_eq_mod unat_mod_distrib)
  then show ?thesis by (metis unat_eq_zero)
qed

lemma aligned_add: "a AND 3 = 0 \<Longrightarrow> k AND 3 = 0 \<Longrightarrow> a + k AND 3 = 0" for a k :: u8
proof -
  assume "a AND 3 = 0" "k AND 3 = 0"
  then have "(unat a + unat k) mod 4 = 0" unfolding aligned_iff by presburger
  moreover have "unat (a + k) mod 4 = (unat a + unat k) mod 4"
    by (simp add: unat_word_ariths mod_mod_cancel)
  ultimately show ?thesis unfolding aligned_iff by simp
qed

text \<open>Programming the MSI capability at an aligned address of a device whose registers keep what is
  written to them enables it, with as many vectors as are asked for and the device is capable of, sets the
  message address and the message data in the 32-bit or 64-bit layout that the device announces, and
  changes no other register.\<close>

theorem ConfigureMSIRegister_programs:
  assumes mem: "\<forall>h a v b. rd (wr h a v) b = (if b = a then v else rd h b)"
    and aligned: "cap_addr AND 3 = 0"
    and run: "ConfigureMSIRegister rd wr dev cap_addr maddr mdata n s = (s', e)"
    and h: "h = rd (hw s) (reg_at dev cap_addr)"
    and data_addr: "data_addr = (if addr_64_capable h then cap_addr + 12 else cap_addr + 8)"
  shows "rd (hw s') a =
    (if a = reg_at dev cap_addr
     then set_field 16 1 1 (set_field 20 3 (min (get_field 17 3 h) n) h)
     else if a = reg_at dev (cap_addr + 4) then maddr
     else if a = reg_at dev data_addr then mdata
     else rd (hw s) a)"
proof -
  have al: "cap_addr + 4 AND 3 = 0" "cap_addr + 8 AND 3 = 0" "cap_addr + 12 AND 3 = 0"
      "cap_addr + 16 AND 3 = 0" "cap_addr + 20 AND 3 = 0"
    by (rule aligned_add[OF aligned], simp)+
  have al': "12 + cap_addr AND 3 = 0" "16 + cap_addr AND 3 = 0" "20 + cap_addr AND 3 = 0"
    using al(3-5) by (simp_all add: add.commute)
  have m: "rd (wr x y v) b = (if b = y then v else rd x b)" for x y v b using mem by blast
  define h' where "h' = set_field 16 1 1 (set_field 20 3 (min (get_field 17 3 h) n) h)"
  have b: "bit h' 23 = bit h 23" "bit h' 24 = bit h 24" by (simp_all add: h'_def bit_set_field)
  have h'_eq: "set_msi_enable 1 (if multi_msg_capable h \<le> n then set_multi_msg_enable (multi_msg_capable h) h
      else set_multi_msg_enable n h) = h'"
    by (simp add: h'_def set_msi_enable_def set_multi_msg_enable_def multi_msg_capable_def min_def)
  have R: "ReadConfReg rd dev r t = (t\<lparr>cfg_address := reg_at dev r\<rparr>, rd (hw t) (reg_at dev r))" for r t
    by (simp add: ReadConfReg_def reg_at_def WriteAddress_def ReadData_def Let_def)
  have Wr: "WriteConfReg wr dev r v t = t\<lparr>cfg_address := reg_at dev r, hw := wr (hw t) (reg_at dev r) v\<rparr>" for r v t
    by (simp add: WriteConfReg_def reg_at_def WriteAddress_def WriteData_def)
  define c where "c = \<lparr>msi_header = h, msg_addr = rd (hw s) (reg_at dev (cap_addr + 4)),
     msg_upper_addr = (if bit h 23 then rd (hw s) (reg_at dev (cap_addr + 8)) else 0),
     msg_data = rd (hw s) (reg_at dev data_addr),
     mask_bits = (if bit h 24 then rd (hw s) (reg_at dev (data_addr + 4)) else 0),
     pending_bits = (if bit h 24 then rd (hw s) (reg_at dev (data_addr + 8)) else 0)\<rparr>"
  have da: "data_addr = (if bit h 23 then cap_addr + 12 else cap_addr + 8)"
    by (simp add: data_addr addr_64_capable_def)
  define x where "x = reg_at dev (if bit h 24 then data_addr + 8 else data_addr)"
  have rc: "ReadMSICapability rd dev cap_addr s = (s\<lparr>cfg_address := x\<rparr>, c)"
    unfolding ReadMSICapability_def R c_def x_def addr_64_capable_def per_vector_mask_capable_def da
    by (cases "bit h 23"; cases "bit h 24") (simp_all add: h[symmetric] Let_def)
  have hc: "msi_header c = h" by (simp add: c_def)
  have s': "s' = WriteMSICapability wr dev cap_addr (c\<lparr>msi_header := h', msg_addr := maddr, msg_data := mdata\<rparr>)
      (s\<lparr>cfg_address := x\<rparr>)"
    using run unfolding ConfigureMSIRegister_def rc Let_def prod.case hc h'_eq
    by simp
  show ?thesis
    unfolding h'_def[symmetric] s' WriteMSICapability_def Wr addr_64_capable_def per_vector_mask_capable_def da
    by (cases "bit h 23"; cases "bit h 24") (simp_all add: Let_def b c_def m reg_at_eq aligned al al' da h[symmetric])
qed

definition sample_dev :: Device where
  "sample_dev = \<lparr>dev_bus = 0, dev_device = 4, dev_function = 0, header_type = 0,
     class_code = \<lparr>cc_base = 0x0c, cc_sub = 0x03, cc_interface = 0x30\<rparr>\<rparr>"

definition sample_config :: "(u32 \<Rightarrow> u32) PciState" where
  "sample_config = \<lparr>cfg_address = 0, devices = [sample_dev],
     hw = (\<lambda>_. 0)(reg_at sample_dev 0x50 := 0x00860005)\<rparr>"

text \<open>A 64-bit capability of a device that offers 8 vectors, of which 2 are asked for.\<close>

theorem ConfigureMSIRegister_programs_witness:
  "let s' = fst (ConfigureMSIRegister (\<lambda>h. h) (\<lambda>h a v. h(a := v)) sample_dev 0x50 0xfee01000 0x4041 1 sample_config)
   in hw s' (reg_at sample_dev 0x50) = 0x00970005 \<and> hw s' (reg_at sample_dev 0x54) = 0xfee01000 \<and>
      hw s' (reg_at sample_dev 0x5c) = 0x4041"
proof -
  define r where "r = ConfigureMSIRegister (\<lambda>h. h) (\<lambda>h a v. h(a := v)) sample_dev 0x50 0xfee01000 0x4041 1 sample_config"
  have h: "hw sample_config (reg_at sample_dev 0x50) = 0x00860005"
    by (simp add: sample_config_def)
  have d: "addr_64_capable 0x00860005" by (simp add: addr_64_capable_def)
  have e: "reg_at sample_dev 0x54 \<noteq> reg_at sample_dev 0x50" "reg_at sample_dev 0x5c \<noteq> reg_at sample_dev 0x50"
    "reg_at sample_dev 0x5c \<noteq> reg_at sample_dev 0x54"
    by (simp_all add: reg_at_eq)
  have f: "set_field 16 1 1 (set_field 20 3 (min (get_field 17 3 0x00860005) 1) (0x00860005 :: u32)) = 0x00970005"
    by code_simp
  note P = ConfigureMSIRegister_programs[of "\<lambda>h. h" "\<lambda>h a v. h(a := v)" "0x50" sample_dev "0xfee01000" "0x4041" 1
      sample_config "fst r" "snd r" "0x00860005" "0x5c"]
  have "hw (fst r) a = (if a = reg_at sample_dev 0x50 then 0x00970005 else if a = reg_at sample_dev (0x50 + 4) then 0xfee01000
     else if a = reg_at sample_dev 0x5c then 0x4041 else hw sample_config a)" for a
    using P[of a] h d f by (simp add: r_def)
  then show ?thesis using e by (simp add: r_def Let_def)
qed

end
