(* ===== verification/Channel.thy ===== *)
theory Channel
  imports Prelude
begin

text \<open>
  Bounded first-in first-out channels, the contract of every ring in the library: \<open>put\<close> appends,
  \<open>get\<close> returns the oldest element, if there is one. \<open>cap\<close> is how many elements a channel can hold,
  \<open>accept\<close> the elements it takes, and \<open>view\<close> what the receiver sees of an element.
\<close>

datatype 'a chan_op = Send 'a | Recv

fun chan_run :: "('a \<Rightarrow> 's \<Rightarrow> 's option) \<Rightarrow> ('s \<Rightarrow> ('a option \<times> 's) option) \<Rightarrow> 'a chan_op list \<Rightarrow> 's \<Rightarrow> 'a option list option" where
  "chan_run put get [] s = Some []"
| "chan_run put get (Send x # ops) s = (case put x s of None \<Rightarrow> None | Some s' \<Rightarrow> chan_run put get ops s')"
| "chan_run put get (Recv # ops) s =
     (case get s of None \<Rightarrow> None | Some (x, s') \<Rightarrow> map_option (\<lambda>xs. x # xs) (chan_run put get ops s'))"

text \<open>The same run on a list, and the condition that it never holds more than \<open>cap\<close> elements.\<close>

fun fifo_run :: "'a chan_op list \<Rightarrow> 'a list \<Rightarrow> 'a option list" where
  "fifo_run [] q = []"
| "fifo_run (Send x # ops) q = fifo_run ops (q @ [x])"
| "fifo_run (Recv # ops) [] = None # fifo_run ops []"
| "fifo_run (Recv # ops) (x # q) = Some x # fifo_run ops q"

fun fits :: "('a \<Rightarrow> bool) \<Rightarrow> nat \<Rightarrow> 'a chan_op list \<Rightarrow> nat \<Rightarrow> bool" where
  "fits accept cap [] k = True"
| "fits accept cap (Send x # ops) k = (k < cap \<and> accept x \<and> fits accept cap ops (k + 1))"
| "fits accept cap (Recv # ops) k = fits accept cap ops (k - 1)"

locale fifo_channel =
  fixes inv :: "'s \<Rightarrow> 'a list \<Rightarrow> bool"
    and put :: "'a \<Rightarrow> 's \<Rightarrow> 's option"
    and get :: "'s \<Rightarrow> ('a option \<times> 's) option"
    and cap :: "'s \<Rightarrow> nat"
    and accept :: "'a \<Rightarrow> bool"
    and view :: "'a \<Rightarrow> 'b"
  assumes put_law: "inv s q \<Longrightarrow> length q < cap s \<Longrightarrow> accept x \<Longrightarrow>
      \<exists>s'. put x s = Some s' \<and> inv s' (q @ [x]) \<and> cap s' = cap s"
    and get_law: "inv s q \<Longrightarrow> \<exists>x s'. get s = Some (x, s') \<and>
      map_option view x = (case q of [] \<Rightarrow> None | y # ys \<Rightarrow> Some (view y)) \<and> inv s' (tl q) \<and> cap s' = cap s"
begin

text \<open>Every interleaving of sends and receives that fits behaves like the list.\<close>

lemma run_is_fifo:
  "inv s q \<Longrightarrow> fits accept (cap s) ops (length q) \<Longrightarrow>
   \<exists>xs. chan_run put get ops s = Some xs \<and> map (map_option view) xs = map (map_option view) (fifo_run ops q)"
proof (induction ops arbitrary: s q)
  case (Cons op ops)
  show ?case
  proof (cases op)
    case (Send x)
    obtain s' where "put x s = Some s'" "inv s' (q @ [x])" "cap s' = cap s"
      using put_law[OF Cons.prems(1), of x] Cons.prems(2) Send by auto
    then show ?thesis using Cons.IH[of s' "q @ [x]"] Cons.prems(2) Send by simp
  next
    case Recv
    obtain x s' where "get s = Some (x, s')" "inv s' (tl q)" "cap s' = cap s"
      "map_option view x = (case q of [] \<Rightarrow> None | y # ys \<Rightarrow> Some (view y))"
      using get_law[OF Cons.prems(1)] by blast
    then show ?thesis using Cons.IH[of s' "tl q"] Cons.prems(2) Recv by (cases q) auto
  qed
qed simp

end

end
