(* ===== verification/UsbMemory.thy ===== *)
theory UsbMemory
  imports Prelude
begin

text \<open>
  Memory of the USB driver (\<^verbatim>\<open>kernel/usb/memory.cpp\<close>, \<^verbatim>\<open>usb/arraymap.hpp\<close>): a bump allocator over a fixed
  pool, with alignment and a boundary that an allocation must not cross, and the small fixed maps in
  which the driver keeps its pending requests. Addresses and sizes are \<open>nat\<close> below \<open>2 ^ 64\<close>, the wrap-around of
  \<open>uintptr_t\<close> and \<open>size_t\<close> is written out; \<open>memory_pool\<close> is the address of the pool, which the linker chooses.
\<close>

subsection \<open>The allocator\<close>

definition kMemoryPoolSize :: nat where
  "kMemoryPoolSize = 4096 * 32"

record Pool =
  memory_pool :: nat
  alloc_ptr :: nat

definition new_Pool :: "nat \<Rightarrow> Pool" where
  "new_Pool base = \<lparr>memory_pool = base, alloc_ptr = base\<rparr>"

text \<open>\<open>x & ~m\<close> for addresses. An alignment or boundary is an \<open>unsigned int\<close> and not zero where \<open>Ceil\<close> is called.\<close>

definition and_not :: "nat \<Rightarrow> nat \<Rightarrow> nat" where
  "and_not x m = x - (x AND m)"

definition Ceil :: "nat \<Rightarrow> nat \<Rightarrow> nat" where
  "Ceil v alignment = and_not ((v + alignment - 1) mod 2 ^ 64) (alignment - 1)"

definition AllocMem :: "nat \<Rightarrow> nat \<Rightarrow> nat \<Rightarrow> Pool \<Rightarrow> Pool \<times> nat option" where
  "AllocMem sz alignment boundary s =
     (let p = (if 0 < alignment then Ceil (alloc_ptr s) alignment else alloc_ptr s);
          p' = (if 0 < boundary
                then (let next_boundary = Ceil p boundary in if next_boundary < (p + sz) mod 2 ^ 64 then next_boundary else p)
                else p)
      in if (memory_pool s + kMemoryPoolSize) mod 2 ^ 64 < (p' + sz) mod 2 ^ 64 then (s\<lparr>alloc_ptr := p'\<rparr>, None)
         else (s\<lparr>alloc_ptr := (p' + sz) mod 2 ^ 64\<rparr>, Some p'))"

definition AllocArray :: "nat \<Rightarrow> nat \<Rightarrow> nat \<Rightarrow> nat \<Rightarrow> Pool \<Rightarrow> Pool \<times> nat option" where
  "AllocArray sizeof_T num_obj alignment boundary = AllocMem (sizeof_T * num_obj mod 2 ^ 64) alignment boundary"

definition FreeMem :: "nat \<Rightarrow> Pool \<Rightarrow> Pool" where
  "FreeMem p s = s"

text \<open>A run of the driver: allocations and frees in any order, with the blocks it was given.\<close>

datatype pool_call = Alloc_call nat nat nat | Free_call nat

fun pool_run :: "pool_call list \<Rightarrow> Pool \<Rightarrow> Pool \<times> (nat \<times> pool_call) list" where
  "pool_run [] s = (s, [])"
| "pool_run (Alloc_call sz alignment boundary # cs) s =
     (let (s1, r) = AllocMem sz alignment boundary s; (s2, bs) = pool_run cs s1
      in (s2, (case r of None \<Rightarrow> bs | Some p \<Rightarrow> (p, Alloc_call sz alignment boundary) # bs)))"
| "pool_run (Free_call p # cs) s = pool_run cs (FreeMem p s)"

lemma and_not_mask: "and_not x (2 ^ k - 1) = x - x mod 2 ^ k"
proof -
  have "x AND (2 ^ k - 1) = x mod 2 ^ k"
    using take_bit_eq_mask[of k x] by (simp add: mask_eq_exp_minus_1 take_bit_eq_mod)
  then show ?thesis by (simp add: and_not_def)
qed

text \<open>The same arithmetic without wrap-around.\<close>

definition ceil_exact :: "nat \<Rightarrow> nat \<Rightarrow> nat" where
  "ceil_exact v alignment = and_not (v + alignment - 1) (alignment - 1)"

lemma Ceil_exact: "v + alignment \<le> 2 ^ 64 \<Longrightarrow> 0 < alignment \<Longrightarrow> Ceil v alignment = ceil_exact v alignment"
  by (simp add: Ceil_def ceil_exact_def)

lemma ceil_exact_power:
  shows "v \<le> ceil_exact v (2 ^ k)" and "ceil_exact v (2 ^ k) < v + 2 ^ k" and "2 ^ k dvd ceil_exact v (2 ^ k)"
proof -
  let ?m = "2 ^ k :: nat"
  have m: "0 < ?m" by simp
  have c: "ceil_exact v ?m = (v + ?m - 1) - (v + ?m - 1) mod ?m" unfolding ceil_exact_def by (rule and_not_mask)
  have d: "(v + ?m - 1) mod ?m < ?m" using m by (rule mod_less_divisor)
  show "v \<le> ceil_exact v ?m" unfolding c using d m by linarith
  show "ceil_exact v ?m < v + ?m" unfolding c using m by linarith
  show "?m dvd ceil_exact v ?m" unfolding c by (rule dvd_minus_mod)
qed

lemma ceil_exact_le: "2 ^ k dvd w \<Longrightarrow> v \<le> w \<Longrightarrow> ceil_exact v (2 ^ k) \<le> w"
proof -
  assume w: "2 ^ k dvd w" "v \<le> w"
  have "ceil_exact v (2 ^ k) < w + 2 ^ k" using ceil_exact_power(2)[of v k] w(2) by linarith
  moreover have "2 ^ k dvd ceil_exact v (2 ^ k)" by (rule ceil_exact_power(3))
  ultimately obtain a b where ab: "ceil_exact v (2 ^ k) = 2 ^ k * a" "w = 2 ^ k * b" "2 ^ k * a < 2 ^ k * b + 2 ^ k"
    using w(1) by (auto elim!: dvdE)
  from ab(3) have "2 ^ k * a < 2 ^ k * Suc b" by simp
  then have "a < Suc b" unfolding mult_less_cancel1 by simp
  then show ?thesis unfolding ab by simp
qed

text \<open>What one allocation promises about its block.\<close>

definition block_ok :: "Pool \<Rightarrow> nat \<times> pool_call \<Rightarrow> bool" where
  "block_ok s b = (case b of
     (p, Alloc_call sz alignment boundary) \<Rightarrow>
       memory_pool s \<le> p \<and> p + sz \<le> memory_pool s + kMemoryPoolSize \<and>
       (0 < alignment \<longrightarrow> alignment dvd p) \<and>
       (0 < boundary \<and> sz \<le> boundary \<longrightarrow> (\<forall>w. boundary dvd w \<longrightarrow> \<not> (p < w \<and> w < p + sz)))
   | (p, Free_call q) \<Rightarrow> False)"

text \<open>The alignment and the boundary are powers of two that fit an \<open>unsigned int\<close>, the boundary not below the alignment; the
  size is far from the end of the address space.\<close>

fun good_call :: "pool_call \<Rightarrow> bool" where
  "good_call (Alloc_call sz alignment boundary) \<longleftrightarrow>
     (alignment = 0 \<or> alignment \<in> (^) 2 ` {..<32}) \<and> (boundary = 0 \<or> boundary \<in> (^) 2 ` {..<32} \<and> alignment \<le> boundary) \<and>
     sz < 2 ^ 62"
| "good_call (Free_call p) \<longleftrightarrow> True"

text \<open>The allocation pointer never passes the first multiple of \<open>2 ^ 31\<close> behind the pool, so nothing wraps.\<close>

definition pool_limit :: "Pool \<Rightarrow> nat" where
  "pool_limit s = ((memory_pool s + kMemoryPoolSize) div 2 ^ 31 + 1) * 2 ^ 31"

definition pool_ok :: "Pool \<Rightarrow> bool" where
  "pool_ok s \<longleftrightarrow> memory_pool s \<le> alloc_ptr s \<and> memory_pool s < 2 ^ 62 \<and> alloc_ptr s \<le> pool_limit s"

lemma pool_limit:
  "memory_pool s + kMemoryPoolSize \<le> pool_limit s" "memory_pool s < 2 ^ 62 \<Longrightarrow> pool_limit s < 2 ^ 63" "2 ^ 31 dvd pool_limit s"
proof -
  let ?n = "memory_pool s + kMemoryPoolSize"
  have d: "?n div 2 ^ 31 * 2 ^ 31 + ?n mod 2 ^ 31 = ?n" "?n mod 2 ^ 31 < 2 ^ 31" by simp_all
  have l: "pool_limit s = ?n div 2 ^ 31 * 2 ^ 31 + 2 ^ 31" by (simp add: pool_limit_def)
  show "?n \<le> pool_limit s" using d l by linarith
  show "memory_pool s < 2 ^ 62 \<Longrightarrow> pool_limit s < 2 ^ 63" using d l by (simp add: kMemoryPoolSize_def)
  show "2 ^ 31 dvd pool_limit s" by (simp add: pool_limit_def)
qed

lemma ceil_exact_limit:
  assumes "v \<le> pool_limit s" and "a \<in> (^) 2 ` {..<32}"
  shows "ceil_exact v a \<le> pool_limit s"
proof -
  obtain k where k: "a = 2 ^ k" "k < 32" using assms(2) by auto
  have "(2 :: nat) ^ k dvd 2 ^ 31" using k(2) by (intro le_imp_power_dvd) simp
  then show ?thesis using ceil_exact_le[OF dvd_trans[OF _ pool_limit(3)] assms(1)] k(1) by blast
qed

lemma AllocMem_exact:
  assumes "good_call (Alloc_call sz alignment boundary)" and "pool_ok s"
  obtains p p' where
    "p = (if 0 < alignment then ceil_exact (alloc_ptr s) alignment else alloc_ptr s)"
    "p' = (if 0 < boundary then (if ceil_exact p boundary < p + sz then ceil_exact p boundary else p) else p)"
    "AllocMem sz alignment boundary s = (if memory_pool s + kMemoryPoolSize < p' + sz then (s\<lparr>alloc_ptr := p'\<rparr>, None)
       else (s\<lparr>alloc_ptr := p' + sz\<rparr>, Some p'))"
    "p' \<le> pool_limit s"
proof -
  define p where "p = (if 0 < alignment then ceil_exact (alloc_ptr s) alignment else alloc_ptr s)"
  define q where "q = (if 0 < boundary then (if ceil_exact p boundary < p + sz then ceil_exact p boundary else p) else p)"
  have lim: "pool_limit s < 2 ^ 63" "alloc_ptr s \<le> pool_limit s" "memory_pool s < 2 ^ 62"
    using assms(2) pool_limit(2) by (auto simp: pool_ok_def)
  have sz: "sz < 2 ^ 62" using assms(1) by simp
  have small: "a < (2 :: nat) ^ 32" if "a \<in> (^) 2 ` {..<32}" for a :: nat
    using that power_strict_increasing[of _ 32 "2 :: nat"] by auto
  have al: "alignment = 0 \<or> alignment \<in> (^) 2 ` {..<32}" and bo: "boundary = 0 \<or> boundary \<in> (^) 2 ` {..<32}"
    using assms(1) by auto
  have ab: "alignment < 2 ^ 32" "boundary < 2 ^ 32" using al bo small[of alignment] small[of boundary] by auto
  have p: "p \<le> pool_limit s" using lim(2) al ceil_exact_limit[OF lim(2)] by (auto simp: p_def)
  have q: "q \<le> pool_limit s" using p bo ceil_exact_limit[OF p] by (auto simp: q_def)
  have "Ceil (alloc_ptr s) alignment = ceil_exact (alloc_ptr s) alignment" if "0 < alignment"
    using that ab(1) lim(1,2) by (intro Ceil_exact) simp_all
  then have c1: "(if 0 < alignment then Ceil (alloc_ptr s) alignment else alloc_ptr s) = p" by (simp add: p_def)
  have c2: "Ceil p boundary = ceil_exact p boundary" if "0 < boundary"
    using that ab(2) lim(1) p by (intro Ceil_exact) simp_all
  have "p + sz < 2 ^ 64" "q + sz < 2 ^ 64" "memory_pool s + kMemoryPoolSize < 2 ^ 64"
    using p q lim sz pool_limit(1)[of s] by simp_all
  note m = this[THEN mod_less]
  have nx: "(if 0 < boundary then if Ceil p boundary < p + sz then Ceil p boundary else p else p) = q"
    using c2 by (simp add: q_def)
  have "AllocMem sz alignment boundary s = (if memory_pool s + kMemoryPoolSize < q + sz then (s\<lparr>alloc_ptr := q\<rparr>, None)
       else (s\<lparr>alloc_ptr := q + sz\<rparr>, Some q))"
    unfolding AllocMem_def Let_def c1 m(1,3) nx m(2) ..
  then show thesis using that[OF p_def q_def _ q] by blast
qed

lemma AllocMem_block:
  assumes "good_call (Alloc_call sz alignment boundary)" and "pool_ok s"
    and "AllocMem sz alignment boundary s = (s', r)"
  shows "memory_pool s' = memory_pool s" and "alloc_ptr s \<le> alloc_ptr s'" and "pool_ok s'"
    and "r = Some p \<Longrightarrow> block_ok s (p, Alloc_call sz alignment boundary) \<and> alloc_ptr s \<le> p \<and> alloc_ptr s' = p + sz"
proof -
  obtain q q' where qd: "q = (if 0 < alignment then ceil_exact (alloc_ptr s) alignment else alloc_ptr s)"
    and q'd: "q' = (if 0 < boundary then (if ceil_exact q boundary < q + sz then ceil_exact q boundary else q) else q)"
    and run0: "AllocMem sz alignment boundary s = (if memory_pool s + kMemoryPoolSize < q' + sz then (s\<lparr>alloc_ptr := q'\<rparr>, None)
      else (s\<lparr>alloc_ptr := q' + sz\<rparr>, Some q'))"
    and lim: "q' \<le> pool_limit s"
    by (rule AllocMem_exact[OF assms(1,2)])
  note run = run0[unfolded assms(3), symmetric]
  define b where "b = ceil_exact q boundary"
  note q'_def = q'd[folded b_def]
  have q: "alloc_ptr s \<le> q" "0 < alignment \<longrightarrow> alignment dvd q"
    using assms(1) by (auto simp: qd intro: ceil_exact_power)
  have b: "0 < boundary \<longrightarrow> q \<le> b \<and> boundary dvd b \<and> (\<forall>w. boundary dvd w \<longrightarrow> q \<le> w \<longrightarrow> b \<le> w)"
    using assms(1) by (auto simp: b_def intro: ceil_exact_power ceil_exact_le)
  have ab: "0 < alignment \<longrightarrow> 0 < boundary \<longrightarrow> alignment dvd boundary"
    using assms(1) by (auto intro!: le_imp_power_dvd)
  have q'1: "alloc_ptr s \<le> q'" using q(1) b by (auto simp: q'_def)
  have "alignment dvd q'" if "0 < alignment"
  proof (cases "0 < boundary \<and> b < q + sz")
    case True
    then have "alignment dvd b" using ab b that dvd_trans[of alignment boundary b] by blast
    then show ?thesis using True by (simp add: q'_def)
  next
    case False
    then have "q' = q" by (auto simp: q'_def)
    then show ?thesis using q(2) that by simp
  qed
  note q' = q'1 this
  have cross: "\<not> (q' < w \<and> w < q' + sz)" if "0 < boundary" "sz \<le> boundary" "boundary dvd w" for w
  proof (cases "b < q + sz")
    case True
    then have e: "q' = b" using that(1) by (simp add: q'_def)
    have "w < b + boundary \<Longrightarrow> b < w \<Longrightarrow> False"
      using dvd_imp_le[OF dvd_diff_nat[of boundary w b]] that(1,3) b by auto
    then show ?thesis using e that(2) by force
  next
    case False
    then have "q' = q" by (simp add: q'_def)
    then show ?thesis using b that(1,3) False by force
  qed
  show m: "memory_pool s' = memory_pool s" and a: "alloc_ptr s \<le> alloc_ptr s'"
    using run q'(1) by (auto split: if_splits)
  have "alloc_ptr s' \<le> pool_limit s"
    using run lim pool_limit(1)[of s] by (auto split: if_splits)
  then show "pool_ok s'" using assms(2) m a by (simp add: pool_ok_def pool_limit_def)
  show "block_ok s (p, Alloc_call sz alignment boundary) \<and> alloc_ptr s \<le> p \<and> alloc_ptr s' = p + sz" if "r = Some p"
  proof -
    have p: "p = q'" "alloc_ptr s' = q' + sz" "q' + sz \<le> memory_pool s + kMemoryPoolSize"
      using run that by (auto split: if_splits)
    then show ?thesis using q' cross assms(2) by (auto simp: block_ok_def pool_ok_def)
  qed
qed

text \<open>Blocks as intervals of addresses.\<close>

fun block_range :: "nat \<times> pool_call \<Rightarrow> nat set" where
  "block_range (p, Alloc_call sz alignment boundary) = {p..<p + sz}"
| "block_range (p, Free_call q) = {}"

lemma pool_run_blocks:
  assumes "\<forall>c \<in> set cs. good_call c" and "pool_ok s" and "pool_run cs s = (s', bs)"
  shows "(\<forall>b \<in> set bs. block_ok s b \<and> (\<forall>a \<in> block_range b. alloc_ptr s \<le> a)) \<and>
    (\<forall>i < length bs. \<forall>j < i. block_range (bs ! i) \<inter> block_range (bs ! j) = {})"
  using assms
proof (induction cs arbitrary: s s' bs)
  case (Cons c cs)
  show ?case
  proof (cases c)
  case (Free_call q)
  then show ?thesis using Cons.IH[of s s' bs] Cons.prems by (simp add: FreeMem_def)
next
  case (Alloc_call sz alignment boundary)
  obtain s1 r where a: "AllocMem sz alignment boundary s = (s1, r)" by force
  obtain s2 cs2 where c: "pool_run cs s1 = (s2, cs2)" by force
  have good: "good_call (Alloc_call sz alignment boundary)" using Cons.prems(1) Alloc_call by simp
  note A = AllocMem_block[OF good Cons.prems(2) a]
  from Cons.IH[OF _ A(3) c] Cons.prems(1)
  have rest: "\<forall>b \<in> set cs2. block_ok s1 b \<and> (\<forall>a \<in> block_range b. alloc_ptr s1 \<le> a)"
    "\<forall>i < length cs2. \<forall>j < i. block_range (cs2 ! i) \<inter> block_range (cs2 ! j) = {}" by auto
  have ok: "block_ok s1 b = block_ok s b" for b
    using A(1) by (auto simp: block_ok_def split: prod.split pool_call.split)
  have rest': "\<forall>b \<in> set cs2. block_ok s b \<and> (\<forall>a \<in> block_range b. alloc_ptr s1 \<le> a \<and> alloc_ptr s \<le> a)"
    using rest(1) A(2) ok by force
  show ?thesis
  proof (cases r)
    case None
    then have "bs = cs2" using Cons.prems(3) a c Alloc_call by simp
    then show ?thesis using rest(2) rest' by blast
  next
    case (Some p)
    then have bs: "bs = (p, Alloc_call sz alignment boundary) # cs2" using Cons.prems(3) a c Alloc_call by auto
    note B = A(4)[OF Some]
    have dis: "block_range b \<inter> block_range (p, Alloc_call sz alignment boundary) = {}" if "b \<in> set cs2" for b
      using B rest' that by force
    have "block_range (bs ! i) \<inter> block_range (bs ! j) = {}" if "i < length bs" "j < i" for i j
      using that rest(2) dis unfolding bs by (cases i; cases j) auto
    moreover have "\<forall>b \<in> set bs. block_ok s b \<and> (\<forall>a \<in> block_range b. alloc_ptr s \<le> a)"
      using B rest' unfolding bs by auto
    ultimately show ?thesis by blast
  qed
  qed
qed simp

text \<open>C24: Whatever the USB driver allocates and frees, in any order, with sizes below \<open>2 ^ 62\<close> and a pool in the lower
  quarter of the address space, no sum of addresses wraps, the blocks it is given lie in the memory pool, have the alignment
  that was asked for, do not cross the boundary that was asked for if they fit between two boundaries, and never overlap.\<close>

theorem AllocMem_blocks_disjoint:
  assumes "\<forall>c \<in> set cs. good_call c" and "pool_run cs (new_Pool base) = (s', bs)" and "base < 2 ^ 62"
  shows "(\<forall>b \<in> set bs. block_ok (new_Pool base) b) \<and>
    (\<forall>i < length bs. \<forall>j < i. block_range (bs ! i) \<inter> block_range (bs ! j) = {})"
proof -
  have "pool_ok (new_Pool base)" using assms(3) pool_limit(1)[of "new_Pool base"] by (simp add: pool_ok_def new_Pool_def)
  from pool_run_blocks[OF assms(1) this assms(2)] show ?thesis by blast
qed

text \<open>With a size close to \<open>2 ^ 64\<close> the test against the end of the pool wraps: the block that is returned is not in the pool, and
  the next one lies before it.\<close>

lemma AllocMem_huge_wraps:
  "AllocMem (2 ^ 64 - 1) 0 0 (new_Pool 0x1000) = (\<lparr>memory_pool = 0x1000, alloc_ptr = 0xfff\<rparr>, Some 0x1000)"
  by (simp add: AllocMem_def new_Pool_def kMemoryPoolSize_def)

theorem AllocMem_blocks_disjoint_witness:
  "\<exists>s' p q r. pool_run [Alloc_call 512 64 4096, Alloc_call 4096 64 4096, Free_call 0x1000, Alloc_call 10 0 0] (new_Pool 0x1000) =
      (s', [(p, Alloc_call 512 64 4096), (q, Alloc_call 4096 64 4096), (r, Alloc_call 10 0 0)]) \<and>
    p = 0x1000 \<and> q = 0x2000 \<and> r = 0x3000 \<and> {p..<p + 512} \<inter> {q..<q + 4096} = {}"
proof -
  define cs where "cs = [Alloc_call 512 64 4096, Alloc_call 4096 64 4096, Free_call 0x1000, Alloc_call 10 0 0]"
  have C: "Ceil 0x1000 64 = 0x1000" "Ceil 0x1000 4096 = 0x1000" "Ceil 0x1200 64 = 0x1200" "Ceil 0x1200 4096 = 0x2000"
    by (simp_all add: Ceil_def and_not_def)
  have "(64 :: nat) \<in> (^) 2 ` {..<32}" by (rule image_eqI[where x = 6]) simp_all
  moreover have "(4096 :: nat) \<in> (^) 2 ` {..<32}" by (rule image_eqI[where x = 12]) simp_all
  ultimately have "\<forall>c \<in> set cs. good_call c" by (simp add: cs_def)
  moreover have "\<exists>s'. pool_run cs (new_Pool 0x1000) =
      (s', [(0x1000, Alloc_call 512 64 4096), (0x2000, Alloc_call 4096 64 4096), (0x3000, Alloc_call 10 0 0)])"
    unfolding cs_def by (simp add: AllocMem_def new_Pool_def kMemoryPoolSize_def FreeMem_def Let_def C[simplified])
  ultimately show ?thesis
    using AllocMem_blocks_disjoint[of cs "0x1000"] unfolding cs_def by fastforce
qed

subsection \<open>Fixed maps\<close>

text \<open>
  \<open>ArrayMap<K, V, N>\<close>: \<open>N\<close> slots with an optional key. \<open>Put\<close> takes the first free slot, without a look
  for the key, and does nothing when there is none.
\<close>

type_synonym ('k, 'v) ArrayMap = "('k option \<times> 'v) list"

fun Get :: "'k \<Rightarrow> ('k, 'v) ArrayMap \<Rightarrow> 'v option" where
  "Get key [] = None"
| "Get key ((k, v) # m) = (if k = Some key then Some v else Get key m)"

fun Put :: "'k \<Rightarrow> 'v \<Rightarrow> ('k, 'v) ArrayMap \<Rightarrow> ('k, 'v) ArrayMap" where
  "Put key val [] = []"
| "Put key val ((k, v) # m) = (if k = None then (Some key, val) # m else (k, v) # Put key val m)"

fun Delete :: "'k \<Rightarrow> ('k, 'v) ArrayMap \<Rightarrow> ('k, 'v) ArrayMap" where
  "Delete key [] = []"
| "Delete key ((k, v) # m) = (if k = Some key then (None, v) # m else (k, v) # Delete key m)"

definition keys_of :: "('k, 'v) ArrayMap \<Rightarrow> 'k list" where
  "keys_of m = List.map_filter fst m"

lemma keys_of_simps [simp]:
  "keys_of [] = []" "keys_of ((None, v) # m) = keys_of m" "keys_of ((Some k, v) # m) = k # keys_of m"
  by (simp_all add: keys_of_def List.map_filter_simps)

lemma Get_None: "Get k m = None \<longleftrightarrow> k \<notin> set (keys_of m)"
  by (induction k m rule: Get.induct) (auto simp: keys_of_def List.map_filter_simps split: option.splits)

lemma Get_Put:
  "k \<notin> set (keys_of m) \<Longrightarrow> None \<in> fst ` set m \<Longrightarrow> Get j (Put k v m) = (if j = k then Some v else Get j m)"
  by (induction k v m rule: Put.induct) (auto simp: Get_None split: option.splits)

lemma Get_Delete:
  "distinct (keys_of m) \<Longrightarrow> Get j (Delete k m) = (if j = k then None else Get j m)"
  by (induction k m rule: Delete.induct) (auto simp: Get_None keys_of_def List.map_filter_simps split: option.splits)

lemma length_Put [simp]: "length (Put k v m) = length m"
  by (induction k v m rule: Put.induct) auto

lemma length_Delete [simp]: "length (Delete k m) = length m"
  by (induction k m rule: Delete.induct) auto

lemma Put_full: "None \<notin> fst ` set m \<Longrightarrow> Put k v m = m"
  by (induction k v m rule: Put.induct) auto

end
