(* ===== verification/Trb.thy ===== *)
theory Trb
  imports Bits
begin

text \<open>
  Transfer request blocks of the xHCI driver (\<^verbatim>\<open>kernel/usb/xhci/trb.hpp\<close>). Every block type is a union over
  the same four 32-bit words with its own bit fields; here a block is the four words and a field of a
  block type is a pair of an accessor and an update of one word. \<open>Trb_Init\<close> has one constructor per C++
  constructor with its arguments.
\<close>

record TRB =
  data0 :: u32
  data1 :: u32
  data2 :: u32
  data3 :: u32

definition zero_TRB :: TRB where
  "zero_TRB = \<lparr>data0 = 0, data1 = 0, data2 = 0, data3 = 0\<rparr>"

subsection \<open>Fields that every block has\<close>

definition cycle_bit :: "TRB \<Rightarrow> bool" where
  "cycle_bit t \<longleftrightarrow> bit (data3 t) 0"

definition trb_type :: "TRB \<Rightarrow> u32" where
  "trb_type t = get_field 10 6 (data3 t)"

definition set_trb_type :: "u32 \<Rightarrow> TRB \<Rightarrow> TRB" where
  "set_trb_type n t = t\<lparr>data3 := set_field 10 6 n (data3 t)\<rparr>"

text \<open>The 64-bit word of \<open>data0\<close> and \<open>data1\<close>, and pointers of which the low four bits are other fields.\<close>

definition parameter :: "TRB \<Rightarrow> u64" where
  "parameter t = ucast (data0 t) OR push_bit 32 (ucast (data1 t))"

definition set_parameter :: "u64 \<Rightarrow> TRB \<Rightarrow> TRB" where
  "set_parameter p t = t\<lparr>data0 := ucast p, data1 := ucast (drop_bit 32 p)\<rparr>"

definition pointer60 :: "TRB \<Rightarrow> u64" where
  "pointer60 t = push_bit 4 (get_field 4 60 (parameter t))"

definition set_pointer60 :: "u64 \<Rightarrow> TRB \<Rightarrow> TRB" where
  "set_pointer60 p t = set_parameter (set_field 4 60 (drop_bit 4 p) (parameter t)) t"

definition trb_transfer_length :: "TRB \<Rightarrow> u32" where
  "trb_transfer_length t = get_field 0 17 (data2 t)"

definition set_trb_transfer_length :: "u32 \<Rightarrow> TRB \<Rightarrow> TRB" where
  "set_trb_transfer_length n t = t\<lparr>data2 := set_field 0 17 n (data2 t)\<rparr>"

definition set_interrupt_on_short_packet :: "TRB \<Rightarrow> TRB" where
  "set_interrupt_on_short_packet t = t\<lparr>data3 := set_field 2 1 1 (data3 t)\<rparr>"

definition set_interrupt_on_completion :: "TRB \<Rightarrow> TRB" where
  "set_interrupt_on_completion t = t\<lparr>data3 := set_field 5 1 1 (data3 t)\<rparr>"

subsection \<open>Normal, set-up, data and status stage blocks\<close>

definition new_NormalTRB :: TRB where
  "new_NormalTRB = set_trb_type 1 zero_TRB"

definition kNoDataStage :: u32 where "kNoDataStage = 0"
definition kOutDataStage :: u32 where "kOutDataStage = 2"
definition kInDataStage :: u32 where "kInDataStage = 3"

definition new_SetupStageTRB :: TRB where
  "new_SetupStageTRB =
     (let t = set_trb_type 2 zero_TRB; t1 = t\<lparr>data3 := set_field 6 1 1 (data3 t)\<rparr>
      in set_trb_transfer_length 8 t1)"

definition stage_request_type :: "TRB \<Rightarrow> u8" where "stage_request_type t = ucast (get_field 0 8 (data0 t))"
definition stage_request :: "TRB \<Rightarrow> u8" where "stage_request t = ucast (get_field 8 8 (data0 t))"
definition stage_value :: "TRB \<Rightarrow> u16" where "stage_value t = ucast (get_field 16 16 (data0 t))"
definition stage_index :: "TRB \<Rightarrow> u16" where "stage_index t = ucast (get_field 0 16 (data1 t))"
definition stage_length :: "TRB \<Rightarrow> u16" where "stage_length t = ucast (get_field 16 16 (data1 t))"

definition set_setup_stage :: "u8 \<Rightarrow> u8 \<Rightarrow> u16 \<Rightarrow> u16 \<Rightarrow> u16 \<Rightarrow> TRB \<Rightarrow> TRB" where
  "set_setup_stage request_type request val index len t =
     t\<lparr>data0 := set_field 16 16 (ucast val) (set_field 8 8 (ucast request) (set_field 0 8 (ucast request_type) (data0 t))),
       data1 := set_field 16 16 (ucast len) (set_field 0 16 (ucast index) (data1 t))\<rparr>"

definition set_transfer_type :: "u32 \<Rightarrow> TRB \<Rightarrow> TRB" where
  "set_transfer_type n t = t\<lparr>data3 := set_field 16 2 n (data3 t)\<rparr>"

definition new_DataStageTRB :: TRB where
  "new_DataStageTRB = set_trb_type 3 zero_TRB"

definition set_td_size :: "u32 \<Rightarrow> TRB \<Rightarrow> TRB" where
  "set_td_size n t = t\<lparr>data2 := set_field 17 5 n (data2 t)\<rparr>"

definition set_direction :: "bool \<Rightarrow> TRB \<Rightarrow> TRB" where
  "set_direction d t = t\<lparr>data3 := set_field 16 1 (if d then 1 else 0) (data3 t)\<rparr>"

definition new_StatusStageTRB :: TRB where
  "new_StatusStageTRB = set_trb_type 4 zero_TRB"

subsection \<open>Link and command blocks\<close>

definition new_LinkTRB :: "u64 \<Rightarrow> TRB" where
  "new_LinkTRB ring_segment_pointer = set_pointer60 ring_segment_pointer (set_trb_type 6 zero_TRB)"

definition toggle_cycle :: "TRB \<Rightarrow> bool" where
  "toggle_cycle t \<longleftrightarrow> bit (data3 t) 1"

definition set_toggle_cycle :: "TRB \<Rightarrow> TRB" where
  "set_toggle_cycle t = t\<lparr>data3 := set_field 1 1 1 (data3 t)\<rparr>"

definition set_slot_id :: "u8 \<Rightarrow> TRB \<Rightarrow> TRB" where
  "set_slot_id slot t = t\<lparr>data3 := set_field 24 8 (ucast slot) (data3 t)\<rparr>"

definition trb_slot_id :: "TRB \<Rightarrow> u8" where
  "trb_slot_id t = ucast (get_field 24 8 (data3 t))"

definition new_AddressDeviceCommandTRB :: "u64 \<Rightarrow> u8 \<Rightarrow> TRB" where
  "new_AddressDeviceCommandTRB input_context slot = set_pointer60 input_context (set_slot_id slot (set_trb_type 11 zero_TRB))"

definition new_ConfigureEndpointCommandTRB :: "u64 \<Rightarrow> u8 \<Rightarrow> TRB" where
  "new_ConfigureEndpointCommandTRB input_context slot = set_pointer60 input_context (set_slot_id slot (set_trb_type 12 zero_TRB))"

definition new_StopEndpointCommandTRB :: "u32 \<Rightarrow> u8 \<Rightarrow> TRB" where
  "new_StopEndpointCommandTRB endpoint_id slot =
     (let t = set_trb_type 15 zero_TRB; t1 = t\<lparr>data3 := set_field 16 5 endpoint_id (data3 t)\<rparr> in set_slot_id slot t1)"

subsection \<open>Event blocks\<close>

definition event_endpoint_id :: "TRB \<Rightarrow> u32" where "event_endpoint_id t = get_field 16 5 (data3 t)"
definition completion_code :: "TRB \<Rightarrow> u32" where "completion_code t = get_field 24 8 (data2 t)"
definition residual_length :: "TRB \<Rightarrow> u32" where "residual_length t = get_field 0 24 (data2 t)"
definition port_id :: "TRB \<Rightarrow> u8" where "port_id t = ucast (get_field 24 8 (data0 t))"

subsection \<open>The block types\<close>

datatype Trb_Kind =
    NormalTRB | SetupStageTRB | DataStageTRB | StatusStageTRB | LinkTRB | NoOpTRB | EnableSlotCommandTRB
  | AddressDeviceCommandTRB | ConfigureEndpointCommandTRB | StopEndpointCommandTRB | NoOpCommandTRB
  | TransferEventTRB | CommandCompletionEventTRB | PortStatusChangeEventTRB

fun Type :: "Trb_Kind \<Rightarrow> u32" where
  "Type NormalTRB = 1" | "Type SetupStageTRB = 2" | "Type DataStageTRB = 3" | "Type StatusStageTRB = 4"
| "Type LinkTRB = 6" | "Type NoOpTRB = 8" | "Type EnableSlotCommandTRB = 9" | "Type AddressDeviceCommandTRB = 11"
| "Type ConfigureEndpointCommandTRB = 12" | "Type StopEndpointCommandTRB = 15" | "Type NoOpCommandTRB = 23"
| "Type TransferEventTRB = 32" | "Type CommandCompletionEventTRB = 33" | "Type PortStatusChangeEventTRB = 34"

definition TRBDynamicCast :: "Trb_Kind \<Rightarrow> TRB \<Rightarrow> TRB option" where
  "TRBDynamicCast k t = (if Type k = trb_type t then Some t else None)"

text \<open>The constructors with their arguments; those without arguments only set the type.\<close>

datatype Trb_Init =
    Init_Normal | Init_SetupStage | Init_DataStage | Init_StatusStage | Init_Link u64 | Init_NoOp | Init_EnableSlot
  | Init_AddressDevice u64 u8 | Init_ConfigureEndpoint u64 u8 | Init_StopEndpoint u32 u8 | Init_NoOpCommand
  | Init_TransferEvent | Init_CommandCompletionEvent | Init_PortStatusChangeEvent

fun kind_of :: "Trb_Init \<Rightarrow> Trb_Kind" where
  "kind_of Init_Normal = NormalTRB" | "kind_of Init_SetupStage = SetupStageTRB"
| "kind_of Init_DataStage = DataStageTRB" | "kind_of Init_StatusStage = StatusStageTRB"
| "kind_of (Init_Link p) = LinkTRB" | "kind_of Init_NoOp = NoOpTRB" | "kind_of Init_EnableSlot = EnableSlotCommandTRB"
| "kind_of (Init_AddressDevice p s) = AddressDeviceCommandTRB"
| "kind_of (Init_ConfigureEndpoint p s) = ConfigureEndpointCommandTRB"
| "kind_of (Init_StopEndpoint e s) = StopEndpointCommandTRB" | "kind_of Init_NoOpCommand = NoOpCommandTRB"
| "kind_of Init_TransferEvent = TransferEventTRB" | "kind_of Init_CommandCompletionEvent = CommandCompletionEventTRB"
| "kind_of Init_PortStatusChangeEvent = PortStatusChangeEventTRB"

fun new_trb :: "Trb_Init \<Rightarrow> TRB" where
  "new_trb Init_Normal = new_NormalTRB" | "new_trb Init_SetupStage = new_SetupStageTRB"
| "new_trb Init_DataStage = new_DataStageTRB" | "new_trb Init_StatusStage = new_StatusStageTRB"
| "new_trb (Init_Link p) = new_LinkTRB p" | "new_trb Init_NoOp = set_trb_type 8 zero_TRB"
| "new_trb Init_EnableSlot = set_trb_type 9 zero_TRB"
| "new_trb (Init_AddressDevice p s) = new_AddressDeviceCommandTRB p s"
| "new_trb (Init_ConfigureEndpoint p s) = new_ConfigureEndpointCommandTRB p s"
| "new_trb (Init_StopEndpoint e s) = new_StopEndpointCommandTRB e s"
| "new_trb Init_NoOpCommand = set_trb_type 23 zero_TRB" | "new_trb Init_TransferEvent = set_trb_type 32 zero_TRB"
| "new_trb Init_CommandCompletionEvent = set_trb_type 33 zero_TRB"
| "new_trb Init_PortStatusChangeEvent = set_trb_type 34 zero_TRB"

subsection \<open>Lemmas\<close>

named_theorems trb_fields \<open>fields of blocks after updates\<close>

lemma data3_simps [trb_fields]:
  "data3 (set_parameter p t) = data3 t" "data3 (set_pointer60 p t) = data3 t"
  "data3 (set_trb_transfer_length n t) = data3 t" "data3 (set_setup_stage a b c j l t) = data3 t"
  "data3 (set_td_size n t) = data3 t"
  by (simp_all add: set_parameter_def set_pointer60_def set_trb_transfer_length_def set_setup_stage_def set_td_size_def)

lemma trb_type_simps [trb_fields]:
  "trb_type (set_trb_type n t) = take_bit 6 n"
  "trb_type (set_slot_id s t) = trb_type t"
  "trb_type (set_interrupt_on_short_packet t) = trb_type t"
  "trb_type (set_interrupt_on_completion t) = trb_type t"
  "trb_type (set_transfer_type m t) = trb_type t"
  "trb_type (set_direction d t) = trb_type t"
  "trb_type (set_toggle_cycle t) = trb_type t"
  "trb_type (set_parameter p t) = trb_type t" "trb_type (set_pointer60 p t) = trb_type t"
  "trb_type (set_trb_transfer_length n t) = trb_type t" "trb_type (set_setup_stage a b c j l t) = trb_type t"
  "trb_type (set_td_size n t) = trb_type t"
  by (simp_all add: trb_type_def set_trb_type_def set_slot_id_def set_interrupt_on_short_packet_def
      set_interrupt_on_completion_def set_transfer_type_def set_direction_def set_toggle_cycle_def fields trb_fields)

lemma parameter_set_parameter [trb_fields]: "parameter (set_parameter p t) = p"
proof (rule bit_word_eqI)
  fix n assume "n < LENGTH(64)"
  then show "bit (parameter (set_parameter p t)) n = bit p n"
    by (cases "n < 32")
      (auto simp: parameter_def set_parameter_def bit_or_iff bit_push_bit_iff bit_ucast_iff bit_drop_bit_eq
        dest: bit_imp_le_length)
qed

lemma parameter_upd3 [trb_fields]: "parameter (t\<lparr>data3 := w\<rparr>) = parameter t" "parameter (t\<lparr>data2 := w\<rparr>) = parameter t"
  by (simp_all add: parameter_def)

text \<open>A pointer that is aligned to 16 bytes is stored losslessly.\<close>

lemma pointer60_set [trb_fields]: "take_bit 4 p = 0 \<Longrightarrow> pointer60 (set_pointer60 p t) = p"
proof -
  assume p: "take_bit 4 p = 0"
  have "pointer60 (set_pointer60 p t) = push_bit 4 (take_bit 60 (drop_bit 4 p))"
    by (simp add: pointer60_def set_pointer60_def trb_fields fields)
  also have "\<dots> = p"
  proof (rule bit_word_eqI)
    fix n assume n: "n < LENGTH(64)"
    have "\<not> bit p n" if "n < 4"
      using arg_cong[OF p, of "\<lambda>w. bit w n"] that by (simp add: bit_take_bit_iff)
    then show "bit (push_bit 4 (take_bit 60 (drop_bit 4 p))) n = bit p n"
      using n by (cases "n < 4") (auto simp: bit_push_bit_iff bit_take_bit_iff bit_drop_bit_eq)
  qed
  finally show ?thesis .
qed

lemma new_trb_type: "trb_type (new_trb i) = Type (kind_of i)"
  by (cases i) (simp_all add: new_NormalTRB_def new_SetupStageTRB_def new_DataStageTRB_def new_StatusStageTRB_def
      new_LinkTRB_def new_AddressDeviceCommandTRB_def new_ConfigureEndpointCommandTRB_def
      new_StopEndpointCommandTRB_def Let_def trb_fields take_bit_eq_mod trb_type_def[of "_\<lparr>data3 := _\<rparr>"] fields
      trb_type_def[symmetric])

lemma Type_inj: "Type j = Type k \<longleftrightarrow> j = k"
  by (cases j; cases k) simp_all

lemma stage_fields [trb_fields]:
  "stage_request_type (set_setup_stage a b c j l t) = a" "stage_request (set_setup_stage a b c j l t) = b"
  "stage_value (set_setup_stage a b c j l t) = c" "stage_index (set_setup_stage a b c j l t) = j"
  "stage_length (set_setup_stage a b c j l t) = l"
proof -
  have u: "(ucast (take_bit 8 (ucast x :: u32)) :: u8) = x" "(ucast (take_bit 16 (ucast y :: u32)) :: u16) = y"
    for x :: u8 and y :: u16
    by (rule bit_word_eqI, simp add: bit_ucast_iff bit_take_bit_iff)+
  show "stage_request_type (set_setup_stage a b c j l t) = a" "stage_request (set_setup_stage a b c j l t) = b"
    "stage_value (set_setup_stage a b c j l t) = c" "stage_index (set_setup_stage a b c j l t) = j"
    "stage_length (set_setup_stage a b c j l t) = l"
    by (simp_all add: stage_request_type_def stage_request_def stage_value_def stage_index_def stage_length_def
        set_setup_stage_def fields u)
qed

text \<open>The fields of a set-up stage depend on the first two words only.\<close>

lemma stage_fields_cong:
  "data0 t = data0 u \<Longrightarrow> data1 t = data1 u \<Longrightarrow>
   stage_request_type t = stage_request_type u \<and> stage_request t = stage_request u \<and> stage_value t = stage_value u \<and>
   stage_index t = stage_index u \<and> stage_length t = stage_length u"
  by (simp add: stage_request_type_def stage_request_def stage_value_def stage_index_def stage_length_def)

end
