(* ===== verification/UsbRing.thy ===== *)
theory UsbRing
  imports Trb UsbMemory Channel
begin

text \<open>
  The rings that driver and host controller share (\<^verbatim>\<open>kernel/usb/xhci/ring.cpp\<close>, \<^verbatim>\<open>ring.hpp\<close>). On a
  command or transfer ring the driver is the producer: \<open>Push\<close> stamps every block with the current cycle
  bit and writes a link block at the end. On the event ring the driver is the consumer: \<open>HasFront\<close>,
  \<open>Front\<close> and \<open>Pop\<close>. A ring is the memory of its blocks, at address \<open>buf_addr\<close>, 16 bytes per block.

  The other side of each ring is the host controller. It is not code of the repository; the protocol
  that the driver relies on is stated as specification: \<open>fetch\<close> reads a producer ring the way xHCI
  prescribes, \<open>post\<close> writes an event ring.
\<close>

record Ring =
  buf_addr :: nat
  buf :: "TRB list"
  buf_size :: nat
  ring_cycle :: bool
  write_index :: nat

text \<open>\<open>CopyToLast\<close>: a block with the given cycle bit.\<close>

definition stamp :: "bool \<Rightarrow> TRB \<Rightarrow> TRB" where
  "stamp c t = t\<lparr>data3 := (data3 t AND 0xfffffffe) OR (if c then 1 else 0)\<rparr>"

definition CopyToLast :: "TRB \<Rightarrow> Ring \<Rightarrow> Ring option" where
  "CopyToLast data r =
     (if write_index r < length (buf r)
      then Some (r\<lparr>buf := (buf r)[write_index r := stamp (ring_cycle r) data]\<rparr>) else None)"

text \<open>\<open>Push\<close> returns the address of the block it wrote.\<close>

definition Push :: "TRB \<Rightarrow> Ring \<Rightarrow> (Ring \<times> nat) option" where
  "Push data r = do {
     let trb_ptr = buf_addr r + 16 * write_index r;
     r1 \<leftarrow> CopyToLast data r;
     let r2 = r1\<lparr>write_index := write_index r1 + 1\<rparr>;
     if write_index r2 = buf_size r2 - 1 then do {
       r3 \<leftarrow> CopyToLast (set_toggle_cycle (new_LinkTRB (of_nat (buf_addr r2)))) r2;
       Some (r3\<lparr>write_index := 0, ring_cycle := \<not> ring_cycle r3\<rparr>, trb_ptr) }
     else Some (r2, trb_ptr) }"

definition Ring_Initialize :: "nat \<Rightarrow> Pool \<Rightarrow> Pool \<times> Ring option \<times> Error_Code" where
  "Ring_Initialize n s =
     (let (s1, p) = AllocArray 16 n 64 (64 * 1024) s in
      case p of
        None \<Rightarrow> (s1, None, kNoEnoughMemory)
      | Some a \<Rightarrow> (s1, Some \<lparr>buf_addr = a, buf = replicate n zero_TRB, buf_size = n, ring_cycle = True, write_index = 0\<rparr>,
                   kSuccess))"

subsection \<open>The event ring\<close>

text \<open>
  The event ring in memory, the dequeue pointer register \<open>ERDP\<close> (its low four bits are other fields)
  and the segment table with its one entry.
\<close>

record EventRing =
  er_addr :: nat
  er_buf :: "TRB list"
  er_cycle :: bool
  ERDP :: u64
  segment_base :: nat
  segment_size :: nat

definition ERDP_Pointer :: "u64 \<Rightarrow> u64" where
  "ERDP_Pointer w = push_bit 4 (get_field 4 60 w)"

definition ERDP_SetPointer :: "u64 \<Rightarrow> u64 \<Rightarrow> u64" where
  "ERDP_SetPointer p w = set_field 4 60 (drop_bit 4 p) w"

definition ReadDequeuePointer :: "EventRing \<Rightarrow> nat" where
  "ReadDequeuePointer e = unat (ERDP_Pointer (ERDP e))"

definition WriteDequeuePointer :: "nat \<Rightarrow> EventRing \<Rightarrow> EventRing" where
  "WriteDequeuePointer p e = e\<lparr>ERDP := ERDP_SetPointer (of_nat p) (ERDP e)\<rparr>"

text \<open>Reading the block at an address of the ring's memory.\<close>

definition block_at :: "EventRing \<Rightarrow> nat \<Rightarrow> TRB option" where
  "block_at e p = (if er_addr e \<le> p \<and> (p - er_addr e) mod 16 = 0 \<and> (p - er_addr e) div 16 < length (er_buf e)
     then Some (er_buf e ! ((p - er_addr e) div 16)) else None)"

definition Front :: "EventRing \<Rightarrow> TRB option" where
  "Front e = block_at e (ReadDequeuePointer e)"

definition HasFront :: "EventRing \<Rightarrow> bool option" where
  "HasFront e = map_option (\<lambda>t. cycle_bit t = er_cycle e) (Front e)"

definition Pop :: "EventRing \<Rightarrow> EventRing" where
  "Pop e =
     (let p = ReadDequeuePointer e + 16;
          segment_begin = segment_base e;
          segment_end = segment_begin + 16 * segment_size e
      in if p = segment_end then WriteDequeuePointer segment_begin (e\<lparr>er_cycle := \<not> er_cycle e\<rparr>)
         else WriteDequeuePointer p e)"

text \<open>
  \<open>EventRing::Initialize\<close>: the memory of the ring and of the segment table; \<open>erdp\<close> is what the register
  holds before. The other two registers it writes only tell the controller where the table is.
\<close>

definition EventRing_Initialize :: "nat \<Rightarrow> u64 \<Rightarrow> Pool \<Rightarrow> Pool \<times> EventRing option \<times> Error_Code" where
  "EventRing_Initialize n erdp s =
     (let (s1, p) = AllocArray 16 n 64 (64 * 1024) s in
      case p of
        None \<Rightarrow> (s1, None, kNoEnoughMemory)
      | Some a \<Rightarrow>
          (let (s2, erst) = AllocArray 16 1 64 (64 * 1024) s1 in
           case erst of
             None \<Rightarrow> (FreeMem a s2, None, kNoEnoughMemory)
           | Some _ \<Rightarrow> (s2, Some (WriteDequeuePointer a \<lparr>er_addr = a, er_buf = replicate n zero_TRB, er_cycle = True,
                 ERDP = erdp, segment_base = a, segment_size = n mod 2 ^ 16\<rparr>), kSuccess)))"

subsection \<open>Stamped blocks\<close>

lemma bit_stamp: "bit (data3 (stamp c t)) n \<longleftrightarrow> (if n = 0 then c else bit (data3 t) n)"
proof -
  have e: "(0xfffffffe :: u32) = NOT 1" by simp
  have "bit (0xfffffffe :: u32) n \<longleftrightarrow> n < 32 \<and> n \<noteq> 0"
    unfolding e bit_not_iff bit_1_iff by (simp add: possible_bit_word)
  then show ?thesis
    by (cases "n = 0") (auto simp: stamp_def bit_or_iff bit_and_iff bit_1_iff dest: bit_imp_le_length)
qed

lemma stamp_simps [simp]:
  "cycle_bit (stamp c t) = c" "data0 (stamp c t) = data0 t" "data1 (stamp c t) = data1 t" "data2 (stamp c t) = data2 t"
  by (simp_all add: cycle_bit_def bit_stamp) (simp_all add: stamp_def)

lemma trb_type_stamp [simp]: "trb_type (stamp c t) = trb_type t"
  unfolding trb_type_def by (rule bit_word_eqI) (simp add: bit_get_field bit_stamp)

lemma toggle_cycle_stamp [simp]: "toggle_cycle (stamp c t) = toggle_cycle t"
  by (simp add: toggle_cycle_def bit_stamp)

lemma pointer60_stamp [simp]: "pointer60 (stamp c t) = pointer60 t"
  by (simp add: pointer60_def parameter_def)

text \<open>Casting a block that was taken from a ring never confuses block types: a block that the driver
  constructed as one type, with whatever arguments, and that went through a ring with either cycle bit,
  is accepted by the cast to that type and refused by the cast to any other.\<close>

theorem TRBDynamicCast_of_new:
  "TRBDynamicCast k (stamp c (new_trb i)) = (if k = kind_of i then Some (stamp c (new_trb i)) else None)"
  by (simp add: TRBDynamicCast_def new_trb_type Type_inj)

subsection \<open>Cycle bits as a queue\<close>

text \<open>
  A circular array of \<open>n\<close> slots with a producer at \<open>w\<close> that writes cycle bit \<open>C\<close> and a consumer at \<open>d\<close>
  that expects cycle bit \<open>c\<close>. If they agree on the bit they are in the same lap, otherwise the producer is
  one lap ahead. \<open>window\<close> lists the slots that hold pending blocks, oldest first; \<open>queued\<close> says that the
  cycle bits of the slots tell pending from free ones and that the pending ones hold \<open>q\<close>. Blocks are
  compared up to their cycle bit.
\<close>

definition window :: "nat \<Rightarrow> nat \<times> bool \<Rightarrow> nat \<times> bool \<Rightarrow> nat list" where
  "window n dc wC = (case dc of (d, c) \<Rightarrow> case wC of (w, C) \<Rightarrow> if c = C then [d..<w] else [d..<n] @ [0..<w])"

definition unstamp :: "TRB \<Rightarrow> TRB" where
  "unstamp t = stamp False t"

lemma unstamp_stamp [simp]: "unstamp (stamp c t) = unstamp t"
proof (rule TRB.equality)
  show "data3 (unstamp (stamp c t)) = data3 (unstamp t)"
    unfolding unstamp_def by (rule bit_word_eqI) (simp add: bit_stamp)
qed (simp_all add: unstamp_def)

lemma unstamp_type: "unstamp t = unstamp u \<Longrightarrow> trb_type t = trb_type u"
  unfolding unstamp_def by (metis trb_type_stamp)

definition queued :: "nat \<Rightarrow> TRB list \<Rightarrow> nat \<times> bool \<Rightarrow> nat \<times> bool \<Rightarrow> TRB list \<Rightarrow> bool" where
  "queued n slots dc wC q \<longleftrightarrow>
     (case dc of (d, c) \<Rightarrow> case wC of (w, C) \<Rightarrow>
       n \<le> length slots \<and> w < n \<and> (if c = C then d \<le> w else w \<le> d \<and> d \<le> n) \<and>
       (\<forall>i < n. cycle_bit (slots ! i) \<longleftrightarrow> (C \<longleftrightarrow> i < w)) \<and>
       map (\<lambda>i. unstamp (slots ! i)) (window n dc wC) = map unstamp q)"

lemma queued_cong:
  assumes q: "queued n slots (d, c) (w, C) q" and e: "\<forall>i < n. slots' ! i = slots ! i" "length slots' = length slots"
  shows "queued n slots' (d, c) (w, C) q"
proof -
  have "set (window n (d, c) (w, C)) \<subseteq> {..<n}" using q by (auto simp: queued_def window_def)
  then have "map (\<lambda>i. unstamp (slots' ! i)) (window n (d, c) (w, C)) = map (\<lambda>i. unstamp (slots ! i)) (window n (d, c) (w, C))"
    using e by (intro map_cong refl arg_cong[of _ _ unstamp]) blast
  also have "\<dots> = map unstamp q" using q by (simp add: queued_def)
  finally have "map (\<lambda>i. unstamp (slots' ! i)) (window n (d, c) (w, C)) = map unstamp q" .
  then show ?thesis using q e unfolding queued_def prod.case by (intro conjI) simp_all
qed

lemma queued_empty: "0 < n \<Longrightarrow> queued n (replicate n zero_TRB @ rest) (0, True) (0, True) []"
  by (simp add: queued_def window_def cycle_bit_def zero_TRB_def nth_append)

lemma queued_length: "queued n slots (d, c) (w, C) q \<Longrightarrow> length q = (if c = C then w - d else n - d + w)"
proof -
  assume q: "queued n slots (d, c) (w, C) q"
  then have "map (\<lambda>i. unstamp (slots ! i)) (window n (d, c) (w, C)) = map unstamp q" by (simp add: queued_def)
  then have "length q = length (window n (d, c) (w, C))" by (metis length_map)
  then show ?thesis using q by (auto simp: window_def queued_def)
qed

text \<open>Writing the next slot appends a block.\<close>

lemma queued_write:
  assumes q: "queued n slots (d, c) (w, C) q" and free: "c \<noteq> C \<longrightarrow> w < d"
    and s': "length slots' = length slots" "slots' ! w = stamp C t" "\<forall>i < n. i \<noteq> w \<longrightarrow> slots' ! i = slots ! i"
  shows "w + 1 < n \<Longrightarrow> queued n slots' (d, c) (w + 1, C) (q @ [t])"
    and "w + 1 = n \<Longrightarrow> c = C \<Longrightarrow> queued n slots' (d, c) (0, \<not> C) (q @ [t])"
    and "w + 1 = n \<Longrightarrow> c \<noteq> C \<Longrightarrow> queued n slots' (0, C) (0, \<not> C) (q @ [t]) \<and> d = n"
proof -
  have w: "w < n" "n \<le> length slots" using q by (auto simp: queued_def)
  have cyc: "\<forall>i < n. cycle_bit (slots' ! i) \<longleftrightarrow> (C \<longleftrightarrow> i < w + 1)"
  proof (intro allI impI)
    fix i assume "i < n"
    then show "cycle_bit (slots' ! i) \<longleftrightarrow> (C \<longleftrightarrow> i < w + 1)"
      using q s' by (cases "i = w") (auto simp: queued_def)
  qed
  have old: "map (\<lambda>i. unstamp (slots' ! i)) (window n (d, c) (w, C)) = map unstamp q"
  proof -
    have "w \<notin> set (window n (d, c) (w, C))" "set (window n (d, c) (w, C)) \<subseteq> {..<n}"
      using free w by (auto simp: window_def)
    then have "map (\<lambda>i. unstamp (slots' ! i)) (window n (d, c) (w, C)) = map (\<lambda>i. unstamp (slots ! i)) (window n (d, c) (w, C))"
      using s'(3) by (intro map_cong refl arg_cong[of _ _ unstamp]) blast
    also have "\<dots> = map unstamp q" using q by (simp add: queued_def)
    finally show ?thesis .
  qed
  have new: "map (\<lambda>i. unstamp (slots' ! i)) (window n (d, c) (w, C) @ [w]) = map unstamp (q @ [t])"
    using old s'(2) by simp
  show "queued n slots' (d, c) (w + 1, C) (q @ [t])" if "w + 1 < n"
  proof -
    have "window n (d, c) (w + 1, C) = window n (d, c) (w, C) @ [w]"
      using q that by (auto simp: window_def queued_def)
    then show ?thesis using new cyc q free that w s'(1) by (auto simp: queued_def)
  qed
  show "queued n slots' (d, c) (0, \<not> C) (q @ [t])" if "w + 1 = n" "c = C"
  proof -
    have "window n (d, c) (0, \<not> C) = window n (d, c) (w, C) @ [w]"
      using q that by (auto simp: window_def queued_def)
    then show ?thesis using new cyc q that w s'(1) by (auto simp: queued_def)
  qed
  show "queued n slots' (0, C) (0, \<not> C) (q @ [t]) \<and> d = n" if "w + 1 = n" "c \<noteq> C"
  proof -
    have d: "d = n" using q free that by (auto simp: queued_def)
    have "window n (0, C) (0, \<not> C) = window n (d, c) (w, C) @ [w]"
      using d that by (auto simp: window_def simp flip: upt_Suc_append)
    then show ?thesis using new cyc d that w s'(1) by (auto simp: queued_def)
  qed
qed

text \<open>The cycle bit of the next slot tells whether a block is pending, and reading it removes the block.\<close>

lemma queued_read:
  assumes q: "queued n slots (d, c) (w, C) q" and d: "d < n"
  shows "(cycle_bit (slots ! d) = c) = (q \<noteq> [])"
    and "q \<noteq> [] \<Longrightarrow> unstamp (slots ! d) = unstamp (hd q) \<and> queued n slots (d + 1, c) (w, C) (tl q)"
proof -
  have cyc: "cycle_bit (slots ! d) \<longleftrightarrow> (C \<longleftrightarrow> d < w)" using q d by (simp add: queued_def)
  have len: "length q = (if c = C then w - d else n - d + w)" using queued_length[OF q] .
  show "(cycle_bit (slots ! d) = c) = (q \<noteq> [])"
  proof (cases "c = C")
    case True
    then have "q \<noteq> [] \<longleftrightarrow> d < w" using len by (metis length_0_conv zero_less_diff gr_zeroI less_numeral_extra(3))
    then show ?thesis using cyc True by auto
  next
    case False
    then have "q \<noteq> []" "w \<le> d" using len d q by (auto simp: queued_def)
    then show ?thesis using cyc False by auto
  qed
  show "unstamp (slots ! d) = unstamp (hd q) \<and> queued n slots (d + 1, c) (w, C) (tl q)" if ne: "q \<noteq> []"
  proof -
    have "window n (d, c) (w, C) = d # window n (d + 1, c) (w, C)"
    proof (cases "c = C")
      case True
      then have "d < w" using ne len by (cases q) auto
      then show ?thesis using True by (simp add: window_def upt_conv_Cons)
    qed (use d in \<open>simp add: window_def upt_conv_Cons\<close>)
    moreover have "map (\<lambda>i. unstamp (slots ! i)) (window n (d, c) (w, C)) = map unstamp q" using q by (simp add: queued_def)
    moreover obtain x xs where "q = x # xs" using ne by (cases q) auto
    ultimately have "unstamp (slots ! d) = unstamp x" "map (\<lambda>i. unstamp (slots ! i)) (window n (d + 1, c) (w, C)) = map unstamp xs"
      by simp_all
    then show ?thesis using \<open>q = x # xs\<close> q d len by (auto simp: queued_def)
  qed
qed

text \<open>A consumer at the end of the array goes on at its start with the other cycle bit.\<close>

lemma queued_wrap: "queued n slots (n, c) (w, C) q \<Longrightarrow> c \<noteq> C \<and> queued n slots (0, \<not> c) (w, C) q"
  by (auto simp: queued_def window_def split: if_splits)

lemma queued_window: "queued n slots (d, c) (w, C) q \<Longrightarrow> d \<le> n"
  by (auto simp: queued_def split: if_splits)

subsection \<open>The producer ring\<close>

text \<open>
  How the controller reads a ring (specification): at the block \<open>d\<close>, expecting the cycle bit \<open>c\<close>, it
  follows a link block of its lap to the block the link points to, toggling its bit if the link says so,
  and takes the block there if it is of its lap.
\<close>

definition follow :: "Ring \<Rightarrow> nat \<times> bool \<Rightarrow> nat \<times> bool" where
  "follow r dc = (case dc of (d, c) \<Rightarrow>
     (let t = buf r ! d in
      if cycle_bit t = c \<and> trb_type t = Type LinkTRB
      then ((unat (pointer60 t) - buf_addr r) div 16, c \<noteq> toggle_cycle t) else (d, c)))"

definition fetch :: "Ring \<Rightarrow> nat \<times> bool \<Rightarrow> TRB option \<times> nat \<times> bool" where
  "fetch r dc = (case follow r dc of (d, c) \<Rightarrow>
     if cycle_bit (buf r ! d) = c then (Some (buf r ! d), d + 1, c) else (None, d, c))"

text \<open>The ring with the position of the controller, as a channel.\<close>

definition ring_put :: "TRB \<Rightarrow> Ring \<times> nat \<times> bool \<Rightarrow> (Ring \<times> nat \<times> bool) option" where
  "ring_put t s = (case s of (r, dc) \<Rightarrow> map_option (\<lambda>(r', p). (r', dc)) (Push t r))"

definition ring_get :: "Ring \<times> nat \<times> bool \<Rightarrow> (TRB option \<times> Ring \<times> nat \<times> bool) option" where
  "ring_get s = (case s of (r, dc) \<Rightarrow> case fetch r dc of (t, dc') \<Rightarrow> Some (t, r, dc'))"

definition not_link :: "TRB \<Rightarrow> bool" where
  "not_link t \<longleftrightarrow> trb_type t \<noteq> Type LinkTRB"

definition ring_link :: "Ring \<Rightarrow> TRB" where
  "ring_link r = set_toggle_cycle (new_LinkTRB (of_nat (buf_addr r)))"

definition ring_inv :: "Ring \<Rightarrow> nat \<times> bool \<Rightarrow> TRB list \<Rightarrow> bool" where
  "ring_inv r dc q \<longleftrightarrow>
     length (buf r) = buf_size r \<and> 2 \<le> buf_size r \<and> 16 dvd buf_addr r \<and> buf_addr r < 2 ^ 64 \<and>
     queued (buf_size r - 1) (buf r) dc (write_index r, ring_cycle r) q \<and>
     (snd dc \<noteq> ring_cycle r \<longrightarrow> buf r ! (buf_size r - 1) = stamp (\<not> ring_cycle r) (ring_link r)) \<and>
     (\<forall>t \<in> set q. trb_type t \<noteq> Type LinkTRB)"

lemma ring_link_fields:
  assumes "16 dvd buf_addr r" and "buf_addr r < 2 ^ 64"
  shows "trb_type (ring_link r) = Type LinkTRB" "toggle_cycle (ring_link r)"
    "unat (pointer60 (ring_link r)) = buf_addr r"
proof -
  have m: "take_bit 4 (of_nat (buf_addr r) :: u64) = 0"
  proof -
    have "take_bit 4 (buf_addr r) = 0" using assms(1) by (simp add: take_bit_eq_mod)
    then have "(of_nat (take_bit 4 (buf_addr r)) :: u64) = 0" by simp
    then show ?thesis by (simp add: of_nat_take_bit)
  qed
  have "trb_type (new_LinkTRB (of_nat (buf_addr r))) = Type LinkTRB"
    using new_trb_type[of "Init_Link (of_nat (buf_addr r))"] by simp
  then show "trb_type (ring_link r) = Type LinkTRB" by (simp add: ring_link_def trb_fields)
  show "toggle_cycle (ring_link r)"
    by (simp add: ring_link_def toggle_cycle_def set_toggle_cycle_def bit_set_field)
  have "pointer60 (ring_link r) = pointer60 (new_LinkTRB (of_nat (buf_addr r)))"
    by (simp add: ring_link_def set_toggle_cycle_def pointer60_def trb_fields)
  also have "\<dots> = of_nat (buf_addr r)" unfolding new_LinkTRB_def by (rule pointer60_set) (rule m)
  finally show "unat (pointer60 (ring_link r)) = buf_addr r"
    using assms(2) by (simp add: unat_of_nat)
qed

lemma Push_inv:
  assumes inv: "ring_inv r (d, c) q" and room: "length q < buf_size r - 2" and t: "trb_type t \<noteq> Type LinkTRB"
  shows "\<exists>r'. Push t r = Some (r', buf_addr r + 16 * write_index r) \<and> buf_addr r' = buf_addr r \<and> buf_size r' = buf_size r \<and>
    ring_inv r' (d, c) (q @ [t])"
proof -
  let ?n = "buf_size r - 1" and ?w = "write_index r" and ?C = "ring_cycle r"
  have q: "queued ?n (buf r) (d, c) (?w, ?C) q" using inv by (simp add: ring_inv_def)
  have w: "?w < ?n" "length (buf r) = buf_size r" "2 \<le> buf_size r" using inv by (auto simp: ring_inv_def queued_def)
  have free: "c \<noteq> ?C \<longrightarrow> ?w + 1 < d \<and> d \<le> ?n"
    using queued_length[OF q] room queued_window[OF q] by auto
  define bf where "bf = (buf r)[?w := stamp ?C t]"
  define r2 where "r2 = r\<lparr>buf := bf, write_index := ?w + 1\<rparr>"
  have types: "\<forall>x \<in> set (q @ [t]). trb_type x \<noteq> Type LinkTRB" using inv t by (auto simp: ring_inv_def)
  have same: "length bf = length (buf r)" "bf ! ?w = stamp ?C t" "\<forall>i < ?n. i \<noteq> ?w \<longrightarrow> bf ! i = buf r ! i"
    using w by (auto simp: bf_def)
  show ?thesis
  proof (cases "?w + 1 = ?n")
    case False
    then have w1: "?w + 1 < ?n" using w by simp
    have "queued ?n bf (d, c) (?w + 1, ?C) (q @ [t])"
      by (rule queued_write(1)[OF q _ same w1]) (use free in auto)
    moreover have "Push t r = Some (r2, buf_addr r + 16 * ?w)"
      using w False by (simp add: Push_def CopyToLast_def r2_def bf_def)
    moreover have "bf ! ?n = buf r ! ?n" using w by (simp add: bf_def)
    moreover have "ring_link r2 = ring_link r" by (simp add: ring_link_def r2_def)
    ultimately have "ring_inv r2 (d, c) (q @ [t])"
      using inv types same(1) by (simp add: ring_inv_def r2_def ring_link_def)
    then show ?thesis using \<open>Push t r = _\<close> by (auto simp: r2_def)
  next
    case True
    then have c: "c = ?C" using free by auto
    define r4 where "r4 = r\<lparr>buf := bf[?n := stamp ?C (ring_link r)], write_index := 0, ring_cycle := \<not> ?C\<rparr>"
    have push: "Push t r = Some (r4, buf_addr r + 16 * ?w)"
    proof -
      have 1: "CopyToLast t r = Some (r\<lparr>buf := bf\<rparr>)" using w by (simp add: CopyToLast_def bf_def)
      have 2: "CopyToLast (ring_link r) r2 = Some (r2\<lparr>buf := bf[?n := stamp ?C (ring_link r)]\<rparr>)"
        unfolding CopyToLast_def using w same(1) True by (simp add: r2_def)
      have "Push t r = do { r3 \<leftarrow> CopyToLast (ring_link r) r2;
          Some (r3\<lparr>write_index := 0, ring_cycle := \<not> ring_cycle r3\<rparr>, buf_addr r + 16 * ?w) }"
        using True by (simp add: Push_def 1 r2_def ring_link_def)
      then show ?thesis unfolding 2 by (simp add: r4_def r2_def)
    qed
    have "queued ?n bf (d, c) (0, \<not> ?C) (q @ [t])"
      by (rule queued_write(2)[OF q _ same True c]) (use c in auto)
    then have "queued ?n (bf[?n := stamp ?C (ring_link r)]) (d, c) (0, \<not> ?C) (q @ [t])"
      by (rule queued_cong) simp_all
    moreover have "bf[?n := stamp ?C (ring_link r)] ! ?n = stamp ?C (ring_link r)"
      using w same(1) by simp
    moreover have "ring_link r4 = ring_link r" by (simp add: ring_link_def r4_def)
    ultimately have "ring_inv r4 (d, c) (q @ [t])"
      using inv types same(1) c by (simp add: ring_inv_def r4_def ring_link_def)
    then show ?thesis using push by (auto simp: r4_def)
  qed
qed

lemma follow_inv:
  assumes inv: "ring_inv r (d, c) q"
  obtains d' c' where "follow r (d, c) = (d', c')" "d' < buf_size r - 1" "ring_inv r (d', c') q"
proof (cases "d < buf_size r - 1")
  case True
  have q: "queued (buf_size r - 1) (buf r) (d, c) (write_index r, ring_cycle r) q" using inv by (simp add: ring_inv_def)
  have "\<not> (cycle_bit (buf r ! d) = c \<and> trb_type (buf r ! d) = Type LinkTRB)"
  proof
    assume l: "cycle_bit (buf r ! d) = c \<and> trb_type (buf r ! d) = Type LinkTRB"
    then have ne: "q \<noteq> []" using queued_read(1)[OF q True] by simp
    then have "trb_type (buf r ! d) = trb_type (hd q)" using queued_read(2)[OF q True] unstamp_type by blast
    moreover have "trb_type (hd q) \<noteq> Type LinkTRB" using inv ne by (simp add: ring_inv_def)
    ultimately show False using l by simp
  qed
  then have "follow r (d, c) = (d, c)" by (auto simp: follow_def Let_def)
  with True inv that show ?thesis by blast
next
  case False
  have q: "queued (buf_size r - 1) (buf r) (d, c) (write_index r, ring_cycle r) q" using inv by (simp add: ring_inv_def)
  then have d: "d = buf_size r - 1" using False queued_window by fastforce
  have c: "c \<noteq> ring_cycle r" "queued (buf_size r - 1) (buf r) (0, \<not> c) (write_index r, ring_cycle r) q"
    using queued_wrap[OF q[unfolded d]] by auto
  have l: "buf r ! d = stamp (\<not> ring_cycle r) (ring_link r)" using inv c(1) d by (simp add: ring_inv_def)
  have al: "16 dvd buf_addr r" "buf_addr r < 2 ^ 64" using inv by (simp_all add: ring_inv_def)
  have "follow r (d, c) = (0, \<not> c)"
    using c(1) ring_link_fields[OF al] by (auto simp: follow_def l Let_def)
  moreover have "ring_inv r (0, \<not> c) q" using inv c by (auto simp: ring_inv_def)
  moreover have "0 < buf_size r - 1" using inv by (auto simp: ring_inv_def)
  ultimately show ?thesis using that by blast
qed

lemma fetch_inv:
  assumes "ring_inv r (d, c) q"
  shows "\<exists>d' c' t. fetch r (d, c) = (t, d', c') \<and> map_option unstamp t = (if q = [] then None else Some (unstamp (hd q))) \<and>
    ring_inv r (d', c') (tl q)"
proof -
  obtain d1 c1 where 1: "follow r (d, c) = (d1, c1)" "d1 < buf_size r - 1" "ring_inv r (d1, c1) q"
    by (rule follow_inv[OF assms])
  have q: "queued (buf_size r - 1) (buf r) (d1, c1) (write_index r, ring_cycle r) q" using 1(3) by (simp add: ring_inv_def)
  note R = queued_read[OF q 1(2)]
  show ?thesis
  proof (cases "q = []")
    case True
    then show ?thesis using R(1) 1 by (simp add: fetch_def)
  next
    case False
    then have "ring_inv r (d1 + 1, c1) (tl q)"
      using 1(3) R(2) by (auto simp: ring_inv_def dest: list.set_sel(2))
    then show ?thesis using R False 1(1) by (simp add: fetch_def)
  qed
qed

interpretation ring: fifo_channel "\<lambda>(r, dc) q. ring_inv r dc q" ring_put ring_get "\<lambda>(r, dc). buf_size r - 2" not_link unstamp
proof (unfold_locales, goal_cases)
  case (1 s q t)
  obtain r d c where s: "s = (r, d, c)" by (cases s) auto
  with Push_inv[of r d c q t] 1 show ?case by (auto simp: ring_put_def not_link_def)
next
  case (2 s q)
  obtain r d c where s: "s = (r, d, c)" by (cases s) auto
  with fetch_inv[of r d c q] 2 show ?case by (cases q) (auto simp: ring_get_def)
qed

text \<open>C23: A command or transfer ring of \<open>n\<close> blocks is a lossless queue to the controller: for every
  interleaving of pushes by the driver and reads by a controller that follows the cycle bits and the link
  block, over any number of laps, each read returns the oldest block that was pushed and not yet read, and
  nothing when there is none, as long as at most \<open>n - 2\<close> blocks are pending.\<close>

theorem Ring_is_fifo:
  assumes "Ring_Initialize n pool = (pool', Some r, e)" and "2 \<le> n" and "16 dvd buf_addr r" and "buf_addr r < 2 ^ 64"
    and "fits not_link (n - 2) ops 0"
  shows "\<exists>ts. chan_run ring_put ring_get ops (r, 0, True) = Some ts \<and>
    map (map_option unstamp) ts = map (map_option unstamp) (fifo_run ops [])"
proof -
  have r: "buf r = replicate n zero_TRB" "buf_size r = n" "ring_cycle r" "write_index r = 0"
    using assms(1) by (auto simp: Ring_Initialize_def split: prod.splits option.splits)
  have "replicate n zero_TRB = replicate (n - 1) zero_TRB @ [zero_TRB]"
    using assms(2) by (cases n) (simp_all add: replicate_append_same)
  then have "queued (n - 1) (buf r) (0, True) (0, True) []"
    using queued_empty[of "n - 1" "[zero_TRB]"] assms(2) r(1) by simp
  then have "ring_inv r (0, True) []" using assms r by (simp add: ring_inv_def)
  with ring.run_is_fifo[of "(r, 0, True)" "[]" ops] show ?thesis using assms(5) r(2) by simp
qed

theorem Ring_is_fifo_witness:
  "\<exists>pool' r ts. Ring_Initialize 4 (new_Pool 0x1000) = (pool', Some r, kSuccess) \<and>
     chan_run ring_put ring_get [Send (new_trb Init_NoOpCommand), Send (new_trb Init_EnableSlot), Recv, Recv,
       Send (new_trb Init_Normal), Send (new_trb Init_DataStage), Recv, Recv, Recv] (r, 0, True) = Some ts \<and>
     map (map_option unstamp) ts = map (map_option unstamp)
       [Some (new_trb Init_NoOpCommand), Some (new_trb Init_EnableSlot), Some (new_trb Init_Normal), Some (new_trb Init_DataStage), None]"
proof -
  define ops where "ops = [Send (new_trb Init_NoOpCommand), Send (new_trb Init_EnableSlot), Recv, Recv,
       Send (new_trb Init_Normal), Send (new_trb Init_DataStage), Recv, Recv, Recv]"
  define r where "r = \<lparr>buf_addr = 0x1000, buf = replicate 4 zero_TRB, buf_size = 4, ring_cycle = True, write_index = 0\<rparr>"
  obtain pool' where init: "Ring_Initialize 4 (new_Pool 0x1000) = (pool', Some r, kSuccess)"
    by (simp add: Ring_Initialize_def AllocArray_def AllocMem_def new_Pool_def Ceil_def and_not_def kMemoryPoolSize_def r_def)
  have "fits not_link 2 ops 0" by (simp add: ops_def not_link_def new_trb_type del: new_trb.simps)
  then obtain ts where "chan_run ring_put ring_get ops (r, 0, True) = Some ts"
    "map (map_option unstamp) ts = map (map_option unstamp) (fifo_run ops [])"
    using Ring_is_fifo[OF init, of ops] by (auto simp: r_def)
  with init show ?thesis unfolding ops_def by simp
qed

subsection \<open>The consumer ring\<close>

text \<open>
  The controller writes an event at its position \<open>h\<close> with its cycle bit \<open>hc\<close> (specification); the driver
  takes an event the way \<open>ProcessEvent\<close> does.
\<close>

definition post :: "TRB \<Rightarrow> EventRing \<Rightarrow> nat \<times> bool \<Rightarrow> EventRing \<times> nat \<times> bool" where
  "post t e hw = (case hw of (h, hc) \<Rightarrow>
     (e\<lparr>er_buf := (er_buf e)[h := stamp hc t]\<rparr>, if h + 1 = length (er_buf e) then (0, \<not> hc) else (h + 1, hc)))"

definition poll :: "EventRing \<Rightarrow> (TRB option \<times> EventRing) option" where
  "poll e = (case HasFront e of
     None \<Rightarrow> None
   | Some False \<Rightarrow> Some (None, e)
   | Some True \<Rightarrow> map_option (\<lambda>t. (Some t, Pop e)) (Front e))"

text \<open>The ring with the position of the controller, as a channel.\<close>

definition event_put :: "TRB \<Rightarrow> EventRing \<times> nat \<times> bool \<Rightarrow> (EventRing \<times> nat \<times> bool) option" where
  "event_put t s = (case s of (e, hw) \<Rightarrow> Some (post t e hw))"

definition event_get :: "EventRing \<times> nat \<times> bool \<Rightarrow> (TRB option \<times> EventRing \<times> nat \<times> bool) option" where
  "event_get s = (case s of (e, hw) \<Rightarrow> map_option (\<lambda>(t, e'). (t, e', hw)) (poll e))"

definition event_inv :: "EventRing \<Rightarrow> nat \<times> bool \<Rightarrow> TRB list \<Rightarrow> bool" where
  "event_inv e hw q \<longleftrightarrow> segment_base e = er_addr e \<and> segment_size e = length (er_buf e) \<and> 16 dvd er_addr e \<and>
     er_addr e + 16 * length (er_buf e) < 2 ^ 64 \<and>
     (\<exists>d < length (er_buf e). ReadDequeuePointer e = er_addr e + 16 * d \<and>
        queued (length (er_buf e)) (er_buf e) (d, er_cycle e) hw q)"

lemma ReadDequeuePointer_Write:
  assumes "16 dvd p" and "p < 2 ^ 64"
  shows "ReadDequeuePointer (WriteDequeuePointer p e) = p"
proof -
  have "take_bit 4 p = 0" using assms(1) by (simp add: take_bit_eq_mod)
  then have "(of_nat (take_bit 4 p) :: u64) = 0" by simp
  then have m: "take_bit 4 (of_nat p :: u64) = 0" by (simp add: of_nat_take_bit)
  define t where "t = set_parameter (ERDP e) zero_TRB"
  have "ERDP_Pointer (ERDP_SetPointer (of_nat p) (ERDP e)) = pointer60 (set_pointer60 (of_nat p) t)"
    by (simp add: ERDP_Pointer_def ERDP_SetPointer_def pointer60_def set_pointer60_def t_def trb_fields)
  also have "\<dots> = of_nat p" by (rule pointer60_set[OF m])
  finally show ?thesis
    using assms(2) by (simp add: ReadDequeuePointer_def WriteDequeuePointer_def unat_of_nat)
qed

lemma post_inv:
  assumes inv: "event_inv e (h, hc) q" and room: "length q < length (er_buf e)" and p: "post t e (h, hc) = (e', hw')"
  shows "event_inv e' hw' (q @ [t]) \<and> length (er_buf e') = length (er_buf e)"
proof -
  let ?n = "length (er_buf e)"
  obtain d where d: "d < ?n" "ReadDequeuePointer e = er_addr e + 16 * d"
    and q: "queued ?n (er_buf e) (d, er_cycle e) (h, hc) q" using inv by (auto simp: event_inv_def)
  define bf where "bf = (er_buf e)[h := stamp hc t]"
  have h: "h < ?n" using q by (simp add: queued_def)
  have same: "length bf = ?n" "bf ! h = stamp hc t" "\<forall>i < ?n. i \<noteq> h \<longrightarrow> bf ! i = er_buf e ! i"
    using h by (auto simp: bf_def)
  have free: "er_cycle e \<noteq> hc \<longrightarrow> h < d" using queued_length[OF q] room d(1) by auto
  have e': "e' = e\<lparr>er_buf := bf\<rparr>" "hw' = (if h + 1 = ?n then (0, \<not> hc) else (h + 1, hc))"
    using p by (simp_all add: post_def bf_def)
  have "queued ?n bf (d, er_cycle e) hw' (q @ [t])"
  proof (cases "h + 1 = ?n")
    case True
    then have "er_cycle e = hc" using free d(1) by auto
    with queued_write(2)[OF q free same True] True e'(2) show ?thesis by simp
  next
    case False
    with queued_write(1)[OF q free same] h e'(2) show ?thesis by simp
  qed
  moreover have "ReadDequeuePointer e' = ReadDequeuePointer e" by (simp add: e' ReadDequeuePointer_def)
  ultimately show ?thesis using inv d same(1) by (auto simp: event_inv_def e'(1))
qed

lemma poll_inv:
  assumes inv: "event_inv e hw q"
  shows "\<exists>t e'. poll e = Some (t, e') \<and> map_option unstamp t = (if q = [] then None else Some (unstamp (hd q))) \<and>
    event_inv e' hw (tl q) \<and> length (er_buf e') = length (er_buf e)"
proof -
  let ?n = "length (er_buf e)"
  obtain h hc where hw: "hw = (h, hc)" by force
  obtain d where d: "d < ?n" "ReadDequeuePointer e = er_addr e + 16 * d"
    and q: "queued ?n (er_buf e) (d, er_cycle e) (h, hc) q" using inv by (auto simp: event_inv_def hw)
  have front: "Front e = Some (er_buf e ! d)" using d by (simp add: Front_def block_at_def)
  have has: "HasFront e = Some (q \<noteq> [])" using queued_read(1)[OF q d(1)] by (simp add: HasFront_def front)
  show ?thesis
  proof (cases "q = []")
    case True
    then show ?thesis using inv has by (simp add: poll_def hw)
  next
    case False
    note R = queued_read(2)[OF q d(1) False]
    have ea: "16 dvd er_addr e" "er_addr e + 16 * ?n < 2 ^ 64" "segment_base e = er_addr e" "segment_size e = ?n"
      using inv by (simp_all add: event_inv_def)
    have "event_inv (Pop e) hw (tl q) \<and> er_buf (Pop e) = er_buf e"
    proof (cases "d + 1 = ?n")
      case True
      have p: "Pop e = WriteDequeuePointer (er_addr e) (e\<lparr>er_cycle := \<not> er_cycle e\<rparr>)"
        using True ea d by (simp add: Pop_def Let_def)
      have "queued ?n (er_buf e) (0, \<not> er_cycle e) (h, hc) (tl q)"
        using queued_wrap[of ?n "er_buf e" "er_cycle e" h hc "tl q"] R[unfolded True] by blast
      moreover have "ReadDequeuePointer (Pop e) = er_addr e + 16 * 0"
        using ea unfolding p by (subst ReadDequeuePointer_Write) auto
      ultimately show ?thesis using ea d
        by (auto simp: event_inv_def p WriteDequeuePointer_def hw intro!: exI[of _ 0])
    next
      case False
      have "er_addr e + 16 * d + 16 \<noteq> er_addr e + 16 * ?n" using False by simp
      then have p: "Pop e = WriteDequeuePointer (er_addr e + 16 * (d + 1)) e"
        using ea d by (simp add: Pop_def Let_def algebra_simps)
      have "ReadDequeuePointer (Pop e) = er_addr e + 16 * (d + 1)"
        using ea d False unfolding p by (intro ReadDequeuePointer_Write) auto
      then show ?thesis using ea d R False
        by (auto simp: event_inv_def p WriteDequeuePointer_def hw intro!: exI[of _ "d + 1"])
    qed
    then show ?thesis using False R by (simp add: poll_def has front)
  qed
qed

interpretation event: fifo_channel "\<lambda>(e, hw) q. event_inv e hw q" event_put event_get
    "\<lambda>(e, hw). length (er_buf e)" "\<lambda>t. True" unstamp
proof (unfold_locales, goal_cases)
  case (1 s q t)
  obtain e h hc where s: "s = (e, h, hc)" by (cases s) auto
  obtain e' hw' where p: "post t e (h, hc) = (e', hw')" by (cases "post t e (h, hc)") auto
  from post_inv[OF _ _ p, of q] 1 s show ?case by (auto simp: event_put_def p)
next
  case (2 s q)
  obtain e h hc where s: "s = (e, h, hc)" by (cases s) auto
  with poll_inv[of e "(h, hc)" q] 2 show ?case by (cases q) (auto simp: event_get_def)
qed

text \<open>The event ring is a lossless queue in the other direction: the driver gets every event the controller
  posts once and in order, as long as the controller does not overrun the ring.\<close>

lemma EventRing_is_fifo:
  assumes "EventRing_Initialize n erdp pool = (pool', Some e, err)" and "0 < n" and "n < 2 ^ 16"
    and "16 dvd er_addr e" and "er_addr e + 16 * n < 2 ^ 64" and "fits (\<lambda>t. True) n ops 0"
  shows "\<exists>ts. chan_run event_put event_get ops (e, 0, True) = Some ts \<and>
    map (map_option unstamp) ts = map (map_option unstamp) (fifo_run ops [])"
proof -
  obtain a where e: "e = WriteDequeuePointer a \<lparr>er_addr = a, er_buf = replicate n zero_TRB, er_cycle = True,
      ERDP = erdp, segment_base = a, segment_size = n\<rparr>"
    using assms(1,3) by (auto simp: EventRing_Initialize_def Let_def split: prod.splits option.splits)
  have "queued n (replicate n zero_TRB) (0, True) (0, True) []"
    using queued_empty[of n "[]"] assms(2) by simp
  moreover have "ReadDequeuePointer e = a" using assms(4,5) unfolding e
    by (intro ReadDequeuePointer_Write) (auto simp: WriteDequeuePointer_def)
  ultimately have "event_inv e (0, True) []"
    using assms by (auto simp: event_inv_def e WriteDequeuePointer_def intro!: exI[of _ 0])
  with event.run_is_fifo[of "(e, 0, True)" "[]" ops] show ?thesis
    using assms(6) by (simp add: e WriteDequeuePointer_def)
qed

end
