(* ===== verification/Keyboard.thy ===== *)
theory Keyboard
  imports Bits Message
begin

text \<open>
  Input devices: the HID class drivers of keyboard and mouse (\<^verbatim>\<open>kernel/usb/classdriver/\<close>) and the keyboard
  observer that turns key codes into messages to the main task (\<^verbatim>\<open>kernel/keyboard.cpp\<close>). The driver
  state is the report buffer that the controller fills and a copy of the report before.
\<close>

subsection \<open>Key codes\<close>

definition kLControlBitMask :: u8 where "kLControlBitMask = 0x01"
definition kLShiftBitMask :: u8 where "kLShiftBitMask = 0x02"
definition kRControlBitMask :: u8 where "kRControlBitMask = 0x10"
definition kRShiftBitMask :: u8 where "kRShiftBitMask = 0x20"

text \<open>The tables are filled up with zeros to 256 entries.\<close>

definition keycode_map :: "u32 list" where
  "keycode_map = [
     0, 0, 0, 0, 97, 98, 99, 100, 101, 102, 103, 104, 105, 106, 107, 108,
     109, 110, 111, 112, 113, 114, 115, 116, 117, 118, 119, 120, 121, 122, 49, 50,
     51, 52, 53, 54, 55, 56, 57, 48, 10, 8, 8, 9, 32, 45, 61, 91,
     93, 92, 35, 59, 39, 96, 44, 46, 47, 0, 0, 0, 0, 0, 0, 0,
     0, 0, 0, 0, 0, 0, 0, 0, 0, 0, 0, 0, 0, 0, 0, 0,
     0, 0, 0, 0, 47, 42, 45, 43, 10, 49, 50, 51, 52, 53, 54, 55,
     56, 57, 48, 46, 92, 0, 0, 61, 0, 0, 0, 0, 0, 0, 0, 0,
     0, 0, 0, 0, 0, 0, 0, 0, 0, 0, 0, 0, 0, 0, 0, 0,
     0, 0, 0, 0, 0, 0, 0, 0, 0, 92, 0, 0, 0, 0, 0, 0] @ replicate 112 0"

definition keycode_map_shifted :: "u32 list" where
  "keycode_map_shifted = [
     0, 0, 0, 0, 65, 66, 1096, 1076, 69, 966, 71, 72, 73, 74, 1082, 76,
     77, 78, 79, 80, 81, 82, 1078, 84, 85, 946, 87, 1078, 89, 1094, 33, 64,
     35, 36, 37, 94, 38, 42, 40, 41, 10, 8, 8, 9, 32, 95, 43, 123,
     125, 124, 126, 58, 34, 126, 60, 62, 63, 0, 0, 0, 0, 0, 0, 0,
     0, 0, 0, 0, 0, 0, 0, 0, 0, 0, 0, 0, 0, 0, 0, 0,
     0, 0, 0, 0, 47, 42, 45, 43, 10, 49, 50, 51, 52, 53, 54, 55,
     56, 57, 48, 46, 92, 0, 0, 61, 0, 0, 0, 0, 0, 0, 0, 0,
     0, 0, 0, 0, 0, 0, 0, 0, 0, 0, 0, 0, 0, 0, 0, 0,
     0, 0, 0, 0, 0, 0, 0, 0, 0, 124, 0, 0, 0, 0, 0, 0] @ replicate 112 0"

definition key_unicode_of :: "u8 \<Rightarrow> u8 \<Rightarrow> u32" where
  "key_unicode_of modifier keycode =
     (if modifier AND (kLShiftBitMask OR kRShiftBitMask) \<noteq> 0 then keycode_map_shifted ! unat keycode
      else keycode_map ! unat keycode)"

text \<open>The observer of \<open>InitializeKeyboard\<close>: the message it sends to task 1.\<close>

definition keyboard_observer :: "u8 \<Rightarrow> u8 \<Rightarrow> bool \<Rightarrow> nat \<times> Message" where
  "keyboard_observer modifier keycode press =
     (1, mk_Message (kKeyPush modifier keycode (key_unicode_of modifier keycode) press))"

subsection \<open>The HID drivers\<close>

definition kBufferSize :: nat where "kBufferSize = 1024"

record HIDDriver =
  ep_interrupt_in :: nat
  ep_interrupt_out :: nat
  interface_index :: nat
  in_packet_size :: nat
  hid_phase :: nat
  hid_buf :: "u8 list"
  hid_previous :: "u8 list"
  num_observers :: nat

definition new_HIDDriver :: "nat \<Rightarrow> nat \<Rightarrow> HIDDriver" where
  "new_HIDDriver interface packet_size = \<lparr>ep_interrupt_in = 0, ep_interrupt_out = 0, interface_index = interface,
     in_packet_size = packet_size, hid_phase = 0, hid_buf = replicate kBufferSize 0,
     hid_previous = replicate kBufferSize 0, num_observers = 0\<rparr>"

definition new_HIDKeyboardDriver :: "nat \<Rightarrow> HIDDriver" where
  "new_HIDKeyboardDriver interface = new_HIDDriver interface 8"

definition new_HIDMouseDriver :: "nat \<Rightarrow> HIDDriver" where
  "new_HIDMouseDriver interface = new_HIDDriver interface 3"

text \<open>All observers are the default observer, so a driver keeps how many it has, at most four.\<close>

definition Subscribe :: "HIDDriver \<Rightarrow> HIDDriver option" where
  "Subscribe d = (if num_observers d < 4 then Some (d\<lparr>num_observers := num_observers d + 1\<rparr>) else None)"

text \<open>\<open>NotifyKeyPush\<close>: every observer sends its message.\<close>

definition NotifyKeyPush :: "HIDDriver \<Rightarrow> u8 \<Rightarrow> u8 \<Rightarrow> bool \<Rightarrow> (nat \<times> Message) list" where
  "NotifyKeyPush d modifier keycode press = replicate (num_observers d) (keyboard_observer modifier keycode press)"

text \<open>The bits that the six key bytes of a boot report set.\<close>

definition report_keys :: "u8 list \<Rightarrow> u8 set" where
  "report_keys bf = set (take 6 (drop 2 bf))"

definition Keyboard_OnDataReceived :: "HIDDriver \<Rightarrow> (nat \<times> Message) list" where
  "Keyboard_OnDataReceived d =
     (let prev = report_keys (hid_previous d); current = report_keys (hid_buf d)
      in concat (map (\<lambda>i. let key = of_nat i; changed = ((key \<in> prev) \<noteq> (key \<in> current))
           in if changed then NotifyKeyPush d (hid_buf d ! 0) key (key \<in> current) else []) [1..<256]))"

text \<open>A mouse report: the buttons and the signed displacements.\<close>

definition Mouse_OnDataReceived :: "HIDDriver \<Rightarrow> u8 \<times> int \<times> int" where
  "Mouse_OnDataReceived d = (hid_buf d ! 0, sint (hid_buf d ! 1), sint (hid_buf d ! 2))"

text \<open>
  \<open>OnInterruptCompleted\<close> of the base driver, the part that handles the report: it is processed, then the
  first \<open>len\<close> bytes of the buffer are copied to the previous report. The controller writes the next
  report to the start of the same buffer.
\<close>

definition keep_report :: "nat \<Rightarrow> HIDDriver \<Rightarrow> HIDDriver option" where
  "keep_report len d =
     (if len \<le> kBufferSize then Some (d\<lparr>hid_previous := take len (hid_buf d) @ drop len (hid_previous d)\<rparr>) else None)"

definition dma_report :: "u8 list \<Rightarrow> HIDDriver \<Rightarrow> HIDDriver" where
  "dma_report report d = d\<lparr>hid_buf := blit 0 report (hid_buf d)\<rparr>"

text \<open>One report from the device, as the messages that it causes.\<close>

definition keyboard_report :: "u8 list \<Rightarrow> HIDDriver \<Rightarrow> (HIDDriver \<times> (nat \<times> Message) list) option" where
  "keyboard_report report d =
     (let d1 = dma_report report d; ms = Keyboard_OnDataReceived d1
      in map_option (\<lambda>d2. (d2, ms)) (keep_report (length report) d1))"

fun keyboard_reports :: "u8 list list \<Rightarrow> HIDDriver \<Rightarrow> (HIDDriver \<times> (nat \<times> Message) list) option" where
  "keyboard_reports [] d = Some (d, [])"
| "keyboard_reports (r # rs) d = (case keyboard_report r d of None \<Rightarrow> None
     | Some (d1, ms) \<Rightarrow> map_option (\<lambda>(d2, ms'). (d2, ms @ ms')) (keyboard_reports rs d1))"

subsection \<open>The messages follow the keys\<close>

text \<open>
  Replaying keyboard messages on the set of keys that are held (specification): every message must be
  the one the observer makes for its key, a press must be of a key that is up and a release of one that
  is down.
\<close>

fun replay :: "(nat \<times> Message) list \<Rightarrow> u8 set \<Rightarrow> u8 set option" where
  "replay [] held = Some held"
| "replay ((t, m) # ms) held =
     (case arg m of
        kKeyPush modifier keycode unicode press \<Rightarrow>
          if (t, m) = keyboard_observer modifier keycode press \<and> press = (keycode \<notin> held)
          then replay ms (if press then insert keycode held else held - {keycode}) else None
      | _ \<Rightarrow> None)"

lemma replay_append: "replay (xs @ ys) held = Option.bind (replay xs held) (replay ys)"
  by (induction xs held rule: replay.induct) (auto split: Message_Arg.split)

lemma replay_keys:
  assumes "num_observers d = 1" and "distinct ks" and "\<forall>k \<in> set ks. k \<in> held \<longleftrightarrow> k \<in> P"
  shows "replay (concat (map (\<lambda>key. if (key \<in> P) \<noteq> (key \<in> C) then NotifyKeyPush d m key (key \<in> C) else []) ks)) held =
    Some {k. if k \<in> set ks then k \<in> C else k \<in> held}"
  using assms(2,3)
proof (induction ks arbitrary: held)
  case (Cons k ks)
  define held' where "held' = {x. if x = k then x \<in> C else x \<in> held}"
  have "replay (if (k \<in> P) \<noteq> (k \<in> C) then NotifyKeyPush d m k (k \<in> C) else []) held = Some held'"
    using Cons.prems assms(1)
    by (auto simp: NotifyKeyPush_def keyboard_observer_def mk_Message_def held'_def)
  moreover have "\<forall>x \<in> set ks. x \<in> held' \<longleftrightarrow> x \<in> P" using Cons.prems by (auto simp: held'_def)
  ultimately show ?case
    using Cons.IH[of held'] Cons.prems(1) by (auto simp: replay_append held'_def)
qed simp

lemma all_keys: "set (map of_nat [1..<256]) = - {0 :: u8}" "distinct (map of_nat [1..<256] :: u8 list)"
proof -
  have "k \<in> set (map of_nat [1..<256])" if "k \<noteq> 0" for k :: u8
  proof -
    have "unat k \<noteq> 0" "unat k < 256" using that unsigned_less[of k, where 'a = nat] by (auto simp: unat_eq_zero)
    then have "unat k \<in> set [1..<256]" by auto
    then have "of_nat (unat k) \<in> set (map of_nat [1..<256] :: u8 list)" unfolding list.set_map by (rule imageI)
    then show ?thesis by simp
  qed
  moreover have "(of_nat i :: u8) \<noteq> 0" if "i \<in> {1..<256}" for i
  proof
    assume "(of_nat i :: u8) = 0"
    then have "unat (of_nat i :: u8) = 0" by simp
    then show False using that by (simp add: unat_of_nat)
  qed
  ultimately show "set (map of_nat [1..<256]) = - {0 :: u8}" by auto
  show "distinct (map of_nat [1..<256] :: u8 list)"
    unfolding distinct_map
  proof (intro conjI inj_onI)
    fix i j assume "i \<in> set [1..<256]" "j \<in> set [1..<256]" "(of_nat i :: u8) = of_nat j"
    then have "unat (of_nat i :: u8) = unat (of_nat j :: u8)" "i < 256" "j < 256" by auto
    then show "i = j" by (simp add: unat_of_nat)
  qed simp
qed

lemma OnDataReceived_replay:
  assumes "num_observers d = 1"
  shows "replay (Keyboard_OnDataReceived d) (report_keys (hid_previous d) - {0}) = Some (report_keys (hid_buf d) - {0})"
proof -
  let ?P = "report_keys (hid_previous d)" and ?C = "report_keys (hid_buf d)"
  have "Keyboard_OnDataReceived d = concat (map (\<lambda>key. if (key \<in> ?P) \<noteq> (key \<in> ?C)
      then NotifyKeyPush d (hid_buf d ! 0) key (key \<in> ?C) else []) (map of_nat [1..<256]))"
    by (simp add: Keyboard_OnDataReceived_def Let_def comp_def)
  also have "replay \<dots> (?P - {0}) = Some {k. if k \<in> set (map of_nat [1..<256]) then k \<in> ?C else k \<in> ?P - {0}}"
    by (rule replay_keys[OF assms all_keys(2)]) (simp only: all_keys(1), auto)
  also have "{k. if k \<in> set (map of_nat [1..<256]) then k \<in> ?C else k \<in> ?P - {0}} = ?C - {0}"
    unfolding all_keys(1) by auto
  finally show ?thesis .
qed

text \<open>The buffers of the driver always have their full length.\<close>

definition hid_ok :: "HIDDriver \<Rightarrow> bool" where
  "hid_ok d \<longleftrightarrow> length (hid_buf d) = kBufferSize \<and> length (hid_previous d) = kBufferSize \<and> num_observers d = 1"

lemma keyboard_report_replay:
  assumes "hid_ok d" and "length r = 8"
  shows "\<exists>d' ms. keyboard_report r d = Some (d', ms) \<and> hid_ok d' \<and> report_keys (hid_previous d') = report_keys r \<and>
    replay ms (report_keys (hid_previous d) - {0}) = Some (report_keys r - {0})"
proof -
  define d1 where "d1 = dma_report r d"
  have 8: "take 8 (hid_buf d1) = r" using assms by (simp add: d1_def dma_report_def blit_def hid_ok_def kBufferSize_def)
  have k: "report_keys bf = set (drop 2 (take 8 bf))" for bf by (simp add: report_keys_def drop_take)
  have b: "report_keys (hid_buf d1) = report_keys r" using assms(2) by (simp add: k 8)
  have l: "length (hid_buf d1) = kBufferSize" "hid_previous d1 = hid_previous d" "num_observers d1 = 1"
    using assms by (simp_all add: d1_def dma_report_def length_blit hid_ok_def kBufferSize_def)
  define d2 where "d2 = d1\<lparr>hid_previous := take 8 (hid_buf d1) @ drop 8 (hid_previous d1)\<rparr>"
  have "keyboard_report r d = Some (d2, Keyboard_OnDataReceived d1)"
    using assms(2) by (simp add: keyboard_report_def d1_def[symmetric] keep_report_def d2_def kBufferSize_def)
  moreover have "hid_ok d2" using assms l by (simp add: hid_ok_def d2_def kBufferSize_def)
  moreover have "report_keys (hid_previous d2) = report_keys r"
    using assms(2) by (simp add: k d2_def 8)
  ultimately show ?thesis using OnDataReceived_replay[of d1] l b by auto
qed

lemma keyboard_reports_replay_from:
  "hid_ok d \<Longrightarrow> \<forall>r \<in> set rs. length r = 8 \<Longrightarrow>
   \<exists>d' ms. keyboard_reports rs d = Some (d', ms) \<and>
     replay ms (report_keys (hid_previous d) - {0}) = Some (report_keys (last (hid_previous d # rs)) - {0})"
proof (induction rs arbitrary: d)
  case (Cons r rs)
  obtain d1 ms where 1: "keyboard_report r d = Some (d1, ms)" "hid_ok d1" "report_keys (hid_previous d1) = report_keys r"
    "replay ms (report_keys (hid_previous d) - {0}) = Some (report_keys r - {0})"
    using keyboard_report_replay[of d r] Cons.prems by auto
  obtain d2 ms' where 2: "keyboard_reports rs d1 = Some (d2, ms')"
    "replay ms' (report_keys (hid_previous d1) - {0}) = Some (report_keys (last (hid_previous d1 # rs)) - {0})"
    using Cons.IH[OF 1(2)] Cons.prems by auto
  have "report_keys (last (hid_previous d1 # rs)) = report_keys (last (r # rs))" using 1(3) by simp
  then show ?case using 1 2 by (simp add: replay_append)
qed simp

text \<open>C25: The key messages that the main task gets describe the keyboard exactly: after any sequence of
  boot reports from a keyboard that was just connected, replaying the messages, in which a key is only
  pressed when it is up and only released when it is down and every message carries the character of its
  key and modifier, ends with exactly the keys held that the last report names.\<close>

theorem keyboard_messages_follow_keys:
  assumes "Subscribe (new_HIDKeyboardDriver interface) = Some d" and "\<forall>r \<in> set rs. length r = 8"
  shows "\<exists>d' ms. keyboard_reports rs d = Some (d', ms) \<and>
    replay ms {} = Some (report_keys (last (replicate 8 0 # rs)) - {0})"
proof -
  have d: "hid_ok d" "hid_previous d = replicate kBufferSize 0"
    using assms(1) by (auto simp: Subscribe_def new_HIDKeyboardDriver_def new_HIDDriver_def hid_ok_def)
  have z: "report_keys (replicate kBufferSize 0) = {0}" "report_keys (replicate 8 0) = {0}"
    by (simp_all add: report_keys_def kBufferSize_def set_replicate_conv_if)
  then have "report_keys (last (hid_previous d # rs)) = report_keys (last (replicate 8 0 # rs))" by (simp add: d)
  with keyboard_reports_replay_from[OF d(1) assms(2)] show ?thesis by (simp add: d z)
qed

text \<open>The keys a and b are pressed together, then a is released.\<close>

theorem keyboard_messages_follow_keys_witness:
  "\<exists>d d' ms. Subscribe (new_HIDKeyboardDriver 0) = Some d \<and>
     keyboard_reports [[2, 0, 4, 5, 0, 0, 0, 0], [0, 0, 5, 0, 0, 0, 0, 0]] d = Some (d', ms) \<and> replay ms {} = Some {5}"
proof -
  obtain d where d: "Subscribe (new_HIDKeyboardDriver 0) = Some d"
    by (simp add: Subscribe_def new_HIDKeyboardDriver_def new_HIDDriver_def)
  have "report_keys [0, 0, 5, 0, 0, 0, 0, 0] - {0} = {5}" by (auto simp: report_keys_def)
  with d keyboard_messages_follow_keys[OF d, of "[[2, 0, 4, 5, 0, 0, 0, 0], [0, 0, 5, 0, 0, 0, 0, 0]]"]
  show ?thesis by auto
qed

end
