(* ===== verification/UsbDevice.thy ===== *)
theory UsbDevice
  imports UsbRing Keyboard
begin

text \<open>
  USB devices (\<^verbatim>\<open>kernel/usb/device.cpp\<close>, \<^verbatim>\<open>usb/xhci/device.cpp\<close>) and the parts of the HID class drivers
  that talk to their device (\<^verbatim>\<open>usb/classdriver/hid.cpp\<close>): control and interrupt transfers, the start up of
  a device from its descriptors, and the dispatch of finished transfers. Memory is addressed where the
  driver hands addresses to the controller; the layout of the objects is up to the compiler and a
  parameter (\<open>Layout\<close>).
\<close>

subsection \<open>Endpoints and set-up data\<close>

type_synonym EndpointID = nat

definition mk_EndpointID :: "nat \<Rightarrow> bool \<Rightarrow> EndpointID" where
  "mk_EndpointID ep_num dir_in = 2 * ep_num + (if dir_in then 1 else 0)"

definition ep_Number :: "EndpointID \<Rightarrow> nat" where
  "ep_Number ep = ep div 2"

definition IsIn :: "EndpointID \<Rightarrow> bool" where
  "IsIn ep \<longleftrightarrow> ep mod 2 = 1"

definition kDefaultControlPipeID :: EndpointID where
  "kDefaultControlPipeID = mk_EndpointID 0 True"

datatype EndpointType = kControl | kIsochronous | kBulk | kInterrupt

record EndpointConfig =
  ep_id :: EndpointID
  ep_type :: EndpointType
  max_packet_size :: nat
  interval :: nat

record SetupData =
  sd_request_type :: u8
  sd_request :: u8
  sd_value :: u16
  sd_index :: u16
  sd_length :: u16

definition request_type_of :: "u8 \<Rightarrow> u8 \<Rightarrow> u8 \<Rightarrow> u8" where
  "request_type_of direction type recipient =
     set_field 0 5 recipient (set_field 5 2 type (set_field 7 1 direction 0))"

definition kGetDescriptor :: u8 where "kGetDescriptor = 6"
definition kSetConfiguration :: u8 where "kSetConfiguration = 9"
definition kSetProtocol :: u8 where "kSetProtocol = 11"

subsection \<open>State\<close>

datatype DriverKind = HIDKeyboard | HIDMouse

record ClassDriver =
  kind :: DriverKind
  buf_at :: nat
  hid :: HIDDriver

text \<open>
  A device: the fields of \<open>usb::Device\<close>, then those of \<open>usb::xhci::Device\<close>. Pointers to class drivers are
  positions in \<open>drivers\<close>, the drivers created for the device. \<open>doorbells\<close> lists what was written to the
  doorbell of the device. Keys and values of \<open>setup_stage_map\<close> are addresses of blocks.
\<close>

record UsbDevice =
  usb_buf_at :: nat
  usb_buf :: "u8 list"
  drivers :: "ClassDriver list"
  class_drivers :: "nat option list"
  num_configurations :: u8
  config_index :: u8
  is_initialized :: bool
  initialize_phase :: nat
  ep_configs :: "EndpointConfig list"
  num_ep_configs :: nat
  event_waiters :: "(SetupData, nat) ArrayMap"
  slot_id :: u8
  transfer_rings :: "Ring option list"
  setup_stage_map :: "(nat, nat) ArrayMap"
  doorbells :: "nat list"

text \<open>Sizes and offsets that the compiler chooses, and which default observers are set.\<close>

record Layout =
  sizeof_Device :: nat
  sizeof_Ring :: nat
  sizeof_Keyboard :: nat
  sizeof_Mouse :: nat
  offset_buf :: nat
  offset_hid_buf :: nat
  keyboard_observed :: bool
  mouse_observed :: bool

definition no_EndpointConfig :: EndpointConfig where
  "no_EndpointConfig = \<lparr>ep_id = 0, ep_type = kControl, max_packet_size = 0, interval = 0\<rparr>"

definition no_SetupData :: SetupData where
  "no_SetupData = \<lparr>sd_request_type = 0, sd_request = 0, sd_value = 0, sd_index = 0, sd_length = 0\<rparr>"

text \<open>
  A device in fresh memory of the pool. The pool is static and never reused, so memory without an
  initialiser is zero.
\<close>

definition new_Device :: "Layout \<Rightarrow> nat \<Rightarrow> u8 \<Rightarrow> UsbDevice" where
  "new_Device L addr slot =
     \<lparr>usb_buf_at = addr + offset_buf L, usb_buf = replicate 256 0, drivers = [], class_drivers = replicate 16 None,
      num_configurations = 0, config_index = 0, is_initialized = False, initialize_phase = 0,
      ep_configs = replicate 16 no_EndpointConfig, num_ep_configs = 0,
      event_waiters = replicate 4 (None, 0), slot_id = slot, transfer_rings = replicate 31 None,
      setup_stage_map = replicate 16 (None, 0), doorbells = []\<rparr>"

definition AllocTransferRing :: "Layout \<Rightarrow> nat \<Rightarrow> nat \<Rightarrow> Pool \<times> UsbDevice \<Rightarrow> Pool \<times> UsbDevice" where
  "AllocTransferRing L dci n s =
     (let (pool, dev) = s; (pool1, p) = AllocArray (sizeof_Ring L) 1 64 4096 pool in
      case p of
        None \<Rightarrow> (pool1, dev\<lparr>transfer_rings := (transfer_rings dev)[dci - 1 := None]\<rparr>)
      | Some _ \<Rightarrow>
          (let (pool2, tr, err) = Ring_Initialize n pool1;
               no_buf = \<lparr>buf_addr = 0, buf = [], buf_size = n, ring_cycle = True, write_index = 0\<rparr>
           in (pool2, dev\<lparr>transfer_rings := (transfer_rings dev)[dci - 1 := Some (case_option no_buf id tr)]\<rparr>)))"

subsection \<open>Transfers\<close>

definition MakeSetupStageTRB :: "SetupData \<Rightarrow> u32 \<Rightarrow> TRB" where
  "MakeSetupStageTRB sd transfer_type =
     set_transfer_type transfer_type
       (set_setup_stage (sd_request_type sd) (sd_request sd) (sd_value sd) (sd_index sd) (sd_length sd) new_SetupStageTRB)"

definition MakeDataStageTRB :: "nat \<Rightarrow> nat \<Rightarrow> bool \<Rightarrow> TRB" where
  "MakeDataStageTRB b len dir_in =
     set_direction dir_in (set_td_size 0 (set_trb_transfer_length (of_nat len) (set_parameter (of_nat b) new_DataStageTRB)))"

text \<open>Reading the block at an address of a ring; \<open>TRBDynamicCast\<close> of a pointer, 0 for \<open>nullptr\<close>.\<close>

definition ring_block :: "Ring \<Rightarrow> nat \<Rightarrow> TRB option" where
  "ring_block r p =
     (if buf_addr r \<le> p \<and> (p - buf_addr r) mod 16 = 0 \<and> (p - buf_addr r) div 16 < length (buf r)
      then Some (buf r ! ((p - buf_addr r) div 16)) else None)"

definition trb_cast :: "Trb_Kind \<Rightarrow> Ring \<Rightarrow> nat \<Rightarrow> nat option" where
  "trb_cast k r p = map_option (\<lambda>t. case_option 0 (\<lambda>_. p) (TRBDynamicCast k t)) (ring_block r p)"

text \<open>
  The base class records who issued the request. A null \<open>b\<close> is a request without data stage. The index
  \<open>dci - 1\<close> into the transfer rings is not checked by the code.
\<close>

definition base_Control :: "SetupData \<Rightarrow> nat option \<Rightarrow> UsbDevice \<Rightarrow> UsbDevice" where
  "base_Control setup_data issuer dev =
     (case issuer of None \<Rightarrow> dev | Some i \<Rightarrow> dev\<lparr>event_waiters := Put setup_data i (event_waiters dev)\<rparr>)"

definition transfer_ring :: "nat \<Rightarrow> UsbDevice \<Rightarrow> Ring option option" where
  "transfer_ring dci dev = (if 1 \<le> dci \<and> dci - 1 < length (transfer_rings dev)
     then Some (transfer_rings dev ! (dci - 1)) else None)"

definition ControlIn :: "EndpointID \<Rightarrow> SetupData \<Rightarrow> nat \<Rightarrow> nat \<Rightarrow> nat option \<Rightarrow> UsbDevice \<Rightarrow> (UsbDevice \<times> Error_Code) option" where
  "ControlIn ep setup_data b len issuer dev0 =
     (let dev = base_Control setup_data issuer dev0 in
      if 15 < ep_Number ep then Some (dev, kInvalidEndpointNumber)
      else case transfer_ring ep dev of
        None \<Rightarrow> None
      | Some None \<Rightarrow> Some (dev, kTransferRingNotSet)
      | Some (Some tr) \<Rightarrow> do {
          let status = new_StatusStageTRB;
          (tr', position, setup_position) \<leftarrow>
            (if b \<noteq> 0 then do {
               (tr1, p) \<leftarrow> Push (MakeSetupStageTRB setup_data kInDataStage) tr;
               setup_trb_position \<leftarrow> trb_cast SetupStageTRB tr1 p;
               (tr2, data_trb_position) \<leftarrow> Push (set_interrupt_on_completion (MakeDataStageTRB b len True)) tr1;
               (tr3, q) \<leftarrow> Push status tr2;
               Some (tr3, data_trb_position, setup_trb_position) }
             else do {
               (tr1, p) \<leftarrow> Push (MakeSetupStageTRB setup_data kNoDataStage) tr;
               setup_trb_position \<leftarrow> trb_cast SetupStageTRB tr1 p;
               (tr2, status_trb_position) \<leftarrow> Push (set_interrupt_on_completion (set_direction True status)) tr1;
               Some (tr2, status_trb_position, setup_trb_position) });
          Some (dev\<lparr>transfer_rings := (transfer_rings dev)[ep - 1 := Some tr'],
                    setup_stage_map := Put position setup_position (setup_stage_map dev),
                    doorbells := doorbells dev @ [ep]\<rparr>, kSuccess) })"

definition ControlOut :: "EndpointID \<Rightarrow> SetupData \<Rightarrow> nat \<Rightarrow> nat \<Rightarrow> nat option \<Rightarrow> UsbDevice \<Rightarrow> (UsbDevice \<times> Error_Code) option" where
  "ControlOut ep setup_data b len issuer dev0 =
     (let dev = base_Control setup_data issuer dev0 in
      if 15 < ep_Number ep then Some (dev, kInvalidEndpointNumber)
      else case transfer_ring ep dev of
        None \<Rightarrow> None
      | Some None \<Rightarrow> Some (dev, kTransferRingNotSet)
      | Some (Some tr) \<Rightarrow> do {
          let status = set_direction True new_StatusStageTRB;
          (tr', position, setup_position) \<leftarrow>
            (if b \<noteq> 0 then do {
               (tr1, p) \<leftarrow> Push (MakeSetupStageTRB setup_data kOutDataStage) tr;
               setup_trb_position \<leftarrow> trb_cast SetupStageTRB tr1 p;
               (tr2, data_trb_position) \<leftarrow> Push (set_interrupt_on_completion (MakeDataStageTRB b len False)) tr1;
               (tr3, q) \<leftarrow> Push status tr2;
               Some (tr3, data_trb_position, setup_trb_position) }
             else do {
               (tr1, p) \<leftarrow> Push (MakeSetupStageTRB setup_data kNoDataStage) tr;
               setup_trb_position \<leftarrow> trb_cast SetupStageTRB tr1 p;
               (tr2, status_trb_position) \<leftarrow> Push (set_interrupt_on_completion status) tr1;
               Some (tr2, status_trb_position, setup_trb_position) });
          Some (dev\<lparr>transfer_rings := (transfer_rings dev)[ep - 1 := Some tr'],
                    setup_stage_map := Put position setup_position (setup_stage_map dev),
                    doorbells := doorbells dev @ [ep]\<rparr>, kSuccess) })"

definition InterruptIn :: "EndpointID \<Rightarrow> nat \<Rightarrow> nat \<Rightarrow> UsbDevice \<Rightarrow> (UsbDevice \<times> Error_Code) option" where
  "InterruptIn ep b len dev =
     (case transfer_ring ep dev of
        None \<Rightarrow> None
      | Some None \<Rightarrow> Some (dev, kTransferRingNotSet)
      | Some (Some tr) \<Rightarrow> do {
          let normal = set_interrupt_on_completion (set_interrupt_on_short_packet
            (set_trb_transfer_length (of_nat len) (set_parameter (of_nat b) new_NormalTRB)));
          (tr1, p) \<leftarrow> Push normal tr;
          Some (dev\<lparr>transfer_rings := (transfer_rings dev)[ep - 1 := Some tr1], doorbells := doorbells dev @ [ep]\<rparr>,
                kSuccess) })"

definition InterruptOut :: "EndpointID \<Rightarrow> nat \<Rightarrow> nat \<Rightarrow> UsbDevice \<Rightarrow> UsbDevice \<times> Error_Code" where
  "InterruptOut ep b len dev = (dev, kNotImplemented)"

definition GetDescriptor :: "EndpointID \<Rightarrow> u8 \<Rightarrow> u8 \<Rightarrow> nat \<Rightarrow> nat \<Rightarrow> UsbDevice \<Rightarrow> (UsbDevice \<times> Error_Code) option" where
  "GetDescriptor ep desc_type desc_index b len dev =
     ControlIn ep \<lparr>sd_request_type = request_type_of 1 0 0, sd_request = kGetDescriptor,
       sd_value = push_bit 8 (ucast desc_type) OR ucast desc_index, sd_index = 0, sd_length = of_nat len\<rparr> b len None dev"

definition SetConfiguration :: "EndpointID \<Rightarrow> u8 \<Rightarrow> UsbDevice \<Rightarrow> (UsbDevice \<times> Error_Code) option" where
  "SetConfiguration ep config_value dev =
     ControlOut ep \<lparr>sd_request_type = request_type_of 0 0 0, sd_request = kSetConfiguration,
       sd_value = ucast config_value, sd_index = 0, sd_length = 0\<rparr> 0 0 None dev"

subsection \<open>HID class drivers and their device\<close>

definition upd_driver :: "nat \<Rightarrow> (HIDDriver \<Rightarrow> HIDDriver) \<Rightarrow> UsbDevice \<Rightarrow> UsbDevice" where
  "upd_driver i f dev = dev\<lparr>drivers := (drivers dev)[i := (drivers dev ! i)\<lparr>hid := f (hid (drivers dev ! i))\<rparr>]\<rparr>"

definition SetEndpoint :: "EndpointConfig \<Rightarrow> HIDDriver \<Rightarrow> HIDDriver" where
  "SetEndpoint config d =
     (if ep_type config = kInterrupt \<and> IsIn (ep_id config) then d\<lparr>ep_interrupt_in := ep_id config\<rparr>
      else if ep_type config = kInterrupt \<and> \<not> IsIn (ep_id config) then d\<lparr>ep_interrupt_out := ep_id config\<rparr>
      else d)"

definition HID_OnEndpointsConfigured :: "nat \<Rightarrow> UsbDevice \<Rightarrow> (UsbDevice \<times> Error_Code) option" where
  "HID_OnEndpointsConfigured i dev =
     ControlOut kDefaultControlPipeID \<lparr>sd_request_type = request_type_of 0 1 1, sd_request = kSetProtocol,
         sd_value = 0, sd_index = of_nat (interface_index (hid (drivers dev ! i))), sd_length = 0\<rparr> 0 0 (Some i)
       (upd_driver i (\<lambda>d. d\<lparr>hid_phase := 1\<rparr>) dev)"

definition request_report :: "nat \<Rightarrow> UsbDevice \<Rightarrow> (UsbDevice \<times> Error_Code) option" where
  "request_report i dev =
     (let c = drivers dev ! i in InterruptIn (ep_interrupt_in (hid c)) (buf_at c) (in_packet_size (hid c)) dev)"

definition HID_OnControlCompleted :: "nat \<Rightarrow> UsbDevice \<Rightarrow> (UsbDevice \<times> Error_Code) option" where
  "HID_OnControlCompleted i dev =
     (if hid_phase (hid (drivers dev ! i)) = 1
      then request_report i (upd_driver i (\<lambda>d. d\<lparr>hid_phase := 2\<rparr>) dev)
      else Some (dev, kNotImplemented))"

text \<open>What the observers of the drivers are told.\<close>

datatype Input = Key_message "nat \<times> Message" | Mouse_move "u8 \<times> int \<times> int"

definition OnDataReceived :: "ClassDriver \<Rightarrow> Input list" where
  "OnDataReceived c =
     (case kind c of
        HIDKeyboard \<Rightarrow> map Key_message (Keyboard_OnDataReceived (hid c))
      | HIDMouse \<Rightarrow> replicate (num_observers (hid c)) (Mouse_move (Mouse_OnDataReceived (hid c))))"

text \<open>A negative length copies nothing.\<close>

definition HID_OnInterruptCompleted :: "EndpointID \<Rightarrow> int \<Rightarrow> nat \<Rightarrow> UsbDevice \<Rightarrow> (UsbDevice \<times> Input list \<times> Error_Code) option" where
  "HID_OnInterruptCompleted ep len i dev =
     (if IsIn ep then do {
        let inputs = OnDataReceived (drivers dev ! i);
        d \<leftarrow> keep_report (nat len) (hid (drivers dev ! i));
        (dev1, err) \<leftarrow> request_report i (upd_driver i (\<lambda>_. d) dev);
        Some (dev1, inputs, err) }
      else Some (dev, [], kNotImplemented))"

subsection \<open>Descriptors\<close>

text \<open>
  A descriptor is found by its position in the buffer. Reading outside the buffer is \<open>None\<close>. \<open>Next\<close> is the
  untyped step, \<open>NextOf\<close> the loop of the template, which does not end on a descriptor of length zero.
\<close>

definition rd :: "u8 list \<Rightarrow> nat \<Rightarrow> u8 option" where
  "rd b i = (if i < length b then Some (b ! i) else None)"

definition kDeviceDescriptor :: u8 where "kDeviceDescriptor = 1"
definition kConfigurationDescriptor :: u8 where "kConfigurationDescriptor = 2"
definition kInterfaceDescriptor :: u8 where "kInterfaceDescriptor = 4"
definition kEndpointDescriptor :: u8 where "kEndpointDescriptor = 5"

definition DescriptorDynamicCast :: "u8 \<Rightarrow> u8 list \<Rightarrow> nat \<Rightarrow> bool option" where
  "DescriptorDynamicCast kType b p = map_option (\<lambda>t. t = kType) (rd b (p + 1))"

definition Next :: "u8 list \<Rightarrow> int \<Rightarrow> nat \<Rightarrow> (nat \<times> nat option) option" where
  "Next b len p = map_option (\<lambda>l. let q = p + unat l in (q, if int q < len then Some q else None)) (rd b p)"

partial_function (option) NextOf :: "u8 \<Rightarrow> u8 list \<Rightarrow> int \<Rightarrow> nat \<Rightarrow> (nat \<times> nat option) option" where
  "NextOf kType b len p = do {
     r \<leftarrow> Next b len p;
     case snd r of
       None \<Rightarrow> Some r
     | Some n \<Rightarrow> do {
         found \<leftarrow> DescriptorDynamicCast kType b n;
         if found then Some r else NextOf kType b len (fst r) } }"

record InterfaceDescriptor =
  interface_number :: u8
  num_endpoints :: u8
  interface_class :: u8
  interface_sub_class :: u8
  interface_protocol :: u8

definition read_interface :: "u8 list \<Rightarrow> nat \<Rightarrow> InterfaceDescriptor option" where
  "read_interface b p = do {
     n \<leftarrow> rd b (p + 2); e \<leftarrow> rd b (p + 4); c \<leftarrow> rd b (p + 5); s \<leftarrow> rd b (p + 6); q \<leftarrow> rd b (p + 7);
     Some \<lparr>interface_number = n, num_endpoints = e, interface_class = c, interface_sub_class = s, interface_protocol = q\<rparr> }"

definition endpoint_type :: "u8 \<Rightarrow> EndpointType" where
  "endpoint_type a = (let t = get_field 0 2 a in
     if t = 0 then kControl else if t = 1 then kIsochronous else if t = 2 then kBulk else kInterrupt)"

definition MakeEPConfig :: "u8 list \<Rightarrow> nat \<Rightarrow> EndpointConfig option" where
  "MakeEPConfig b p = do {
     a \<leftarrow> rd b (p + 2); t \<leftarrow> rd b (p + 3); m0 \<leftarrow> rd b (p + 4); m1 \<leftarrow> rd b (p + 5); i \<leftarrow> rd b (p + 6);
     Some \<lparr>ep_id = mk_EndpointID (unat (get_field 0 4 a)) (get_field 7 1 a = 1), ep_type = endpoint_type t,
           max_packet_size = unat m0 + 256 * unat m1, interval = unat i\<rparr> }"

text \<open>
  \<open>NewClassDriver\<close>: the outer option is undefined behaviour (the constructor runs on a null pointer when
  the pool is empty), the inner one is \<open>nullptr\<close>.
\<close>

definition observe :: "bool \<Rightarrow> HIDDriver \<Rightarrow> HIDDriver option" where
  "observe observed d = (if observed then Subscribe d else Some d)"

definition NewClassDriver :: "Layout \<Rightarrow> InterfaceDescriptor \<Rightarrow> Pool \<Rightarrow> (Pool \<times> ClassDriver option) option" where
  "NewClassDriver L if_desc pool =
     (if interface_class if_desc = 3 \<and> interface_sub_class if_desc = 1 \<and> interface_protocol if_desc = 1 then
        (case AllocMem (sizeof_Keyboard L) 0 0 pool of
           (pool1, None) \<Rightarrow> None
         | (pool1, Some p) \<Rightarrow> map_option (\<lambda>d. (pool1, Some \<lparr>kind = HIDKeyboard, buf_at = p + offset_hid_buf L, hid = d\<rparr>))
             (observe (keyboard_observed L) (new_HIDKeyboardDriver (unat (interface_number if_desc)))))
      else if interface_class if_desc = 3 \<and> interface_sub_class if_desc = 1 \<and> interface_protocol if_desc = 2 then
        (case AllocMem (sizeof_Mouse L) 0 0 pool of
           (pool1, None) \<Rightarrow> None
         | (pool1, Some p) \<Rightarrow> map_option (\<lambda>d. (pool1, Some \<lparr>kind = HIDMouse, buf_at = p + offset_hid_buf L, hid = d\<rparr>))
             (observe (mouse_observed L) (new_HIDMouseDriver (unat (interface_number if_desc)))))
      else Some (pool, None))"

subsection \<open>Start up of a device\<close>

text \<open>The loop over the endpoint descriptors of an interface, from position \<open>p\<close>, for driver \<open>c\<close>.\<close>

partial_function (option) read_endpoints :: "u8 list \<Rightarrow> int \<Rightarrow> nat \<Rightarrow> nat \<Rightarrow> nat \<Rightarrow> UsbDevice \<Rightarrow> UsbDevice option" where
  "read_endpoints b len n c p dev =
     (if num_ep_configs dev < n then do {
        r \<leftarrow> Next b len p;
        q \<leftarrow> snd r;
        is_endpoint \<leftarrow> DescriptorDynamicCast kEndpointDescriptor b q;
        if is_endpoint then do {
          conf \<leftarrow> MakeEPConfig b q;
          (if num_ep_configs dev < length (ep_configs dev)
           then read_endpoints b len n c (fst r)
             (dev\<lparr>ep_configs := (ep_configs dev)[num_ep_configs dev := conf],
                  num_ep_configs := num_ep_configs dev + 1,
                  class_drivers := (class_drivers dev)[ep_Number (ep_id conf) := Some c]\<rparr>)
           else None) }
        else read_endpoints b len n c (fst r) dev }
      else Some dev)"

text \<open>The loop over the interfaces; the result says whether a driver was found.\<close>

partial_function (option) read_interfaces :: "Layout \<Rightarrow> u8 list \<Rightarrow> int \<Rightarrow> nat \<Rightarrow> Pool \<Rightarrow> UsbDevice \<Rightarrow> (Pool \<times> UsbDevice \<times> bool) option" where
  "read_interfaces L b len p pool dev = do {
     r \<leftarrow> NextOf kInterfaceDescriptor b len p;
     case snd r of
       None \<Rightarrow> Some (pool, dev, False)
     | Some q \<Rightarrow> do {
         if_desc \<leftarrow> read_interface b q;
         drv \<leftarrow> NewClassDriver L if_desc pool;
         case snd drv of
           None \<Rightarrow> read_interfaces L b len (fst r) (fst drv) dev
         | Some c \<Rightarrow> do {
             dev1 \<leftarrow> read_endpoints b len (unat (num_endpoints if_desc)) (length (drivers dev)) (fst r)
               (dev\<lparr>drivers := drivers dev @ [c], num_ep_configs := 0\<rparr>);
             Some (fst drv, dev1, True) } } }"

definition StartInitialize :: "UsbDevice \<Rightarrow> (UsbDevice \<times> Error_Code) option" where
  "StartInitialize dev =
     GetDescriptor kDefaultControlPipeID kDeviceDescriptor 0 (usb_buf_at dev) 256
       (dev\<lparr>is_initialized := False, initialize_phase := 1\<rparr>)"

definition InitializePhase1 :: "u8 list \<Rightarrow> UsbDevice \<Rightarrow> (UsbDevice \<times> Error_Code) option" where
  "InitializePhase1 b dev = do {
     n \<leftarrow> rd b 17;
     GetDescriptor kDefaultControlPipeID kConfigurationDescriptor 0 (usb_buf_at dev) 256
       (dev\<lparr>num_configurations := n, config_index := 0, initialize_phase := 2\<rparr>) }"

definition InitializePhase2 :: "Layout \<Rightarrow> u8 list \<Rightarrow> int \<Rightarrow> Pool \<times> UsbDevice \<Rightarrow> ((Pool \<times> UsbDevice) \<times> Error_Code) option" where
  "InitializePhase2 L b len s = do {
     is_conf \<leftarrow> DescriptorDynamicCast kConfigurationDescriptor b 0;
     if \<not> is_conf then Some (s, kInvalidDescriptor)
     else do {
       (pool, dev, found) \<leftarrow> read_interfaces L b len 0 (fst s) (snd s);
       if \<not> found then Some ((pool, dev), kSuccess)
       else do {
         configuration_value \<leftarrow> rd b 5;
         (dev1, err) \<leftarrow> SetConfiguration kDefaultControlPipeID configuration_value (dev\<lparr>initialize_phase := 3\<rparr>);
         Some ((pool, dev1), err) } } }"

definition set_endpoint_of :: "EndpointConfig \<Rightarrow> UsbDevice \<Rightarrow> UsbDevice option" where
  "set_endpoint_of conf dev = map_option (\<lambda>i. upd_driver i (SetEndpoint conf) dev) (class_drivers dev ! ep_Number (ep_id conf))"

fun set_endpoints :: "EndpointConfig list \<Rightarrow> UsbDevice \<Rightarrow> UsbDevice option" where
  "set_endpoints [] dev = Some dev"
| "set_endpoints (conf # confs) dev = Option.bind (set_endpoint_of conf dev) (set_endpoints confs)"

definition InitializePhase3 :: "UsbDevice \<Rightarrow> (UsbDevice \<times> Error_Code) option" where
  "InitializePhase3 dev = do {
     dev1 \<leftarrow> set_endpoints (take (num_ep_configs dev) (ep_configs dev)) dev;
     Some (dev1\<lparr>initialize_phase := 4, is_initialized := True\<rparr>, kSuccess) }"

text \<open>\<open>OnEndpointsConfigured\<close>: every endpoint number that has a driver calls it, until one fails.\<close>

fun configure_drivers :: "nat option list \<Rightarrow> UsbDevice \<Rightarrow> (UsbDevice \<times> Error_Code) option" where
  "configure_drivers [] dev = Some (dev, kSuccess)"
| "configure_drivers (None # ds) dev = configure_drivers ds dev"
| "configure_drivers (Some i # ds) dev = do {
     (dev1, err) \<leftarrow> HID_OnEndpointsConfigured i dev;
     if is_error err then Some (dev1, err) else configure_drivers ds dev1 }"

definition OnEndpointsConfigured :: "UsbDevice \<Rightarrow> (UsbDevice \<times> Error_Code) option" where
  "OnEndpointsConfigured dev = configure_drivers (class_drivers dev) dev"

subsection \<open>Finished transfers\<close>

text \<open>
  A buffer address is resolved to the buffer of the device; the start up uses no other. The pool is part
  of the state because start up creates class drivers.
\<close>

definition buffer_at :: "nat \<Rightarrow> UsbDevice \<Rightarrow> u8 list option" where
  "buffer_at b dev = (if b = usb_buf_at dev then Some (usb_buf dev) else None)"

definition buffer_is :: "u8 \<Rightarrow> nat \<Rightarrow> UsbDevice \<Rightarrow> bool option" where
  "buffer_is kType b dev = Option.bind (buffer_at b dev) (\<lambda>bf. DescriptorDynamicCast kType bf 0)"

definition with_pool :: "Pool \<Rightarrow> (UsbDevice \<times> Error_Code) option \<Rightarrow> ((Pool \<times> UsbDevice) \<times> Error_Code) option" where
  "with_pool pool r = map_option (\<lambda>(dev, err). ((pool, dev), err)) r"

definition OnControlCompleted :: "Layout \<Rightarrow> SetupData \<Rightarrow> nat \<Rightarrow> int \<Rightarrow> Pool \<times> UsbDevice \<Rightarrow> ((Pool \<times> UsbDevice) \<times> Error_Code) option" where
  "OnControlCompleted L setup_data b len s =
     (let (pool, dev) = s in
      if is_initialized dev then
        (case Get setup_data (event_waiters dev) of
           Some i \<Rightarrow> with_pool pool (HID_OnControlCompleted i dev)
         | None \<Rightarrow> Some (s, kNoWaiter))
      else if initialize_phase dev = 1 then do {
        ok \<leftarrow> (if sd_request setup_data = kGetDescriptor then buffer_is kDeviceDescriptor b dev else Some False);
        if ok then Option.bind (buffer_at b dev) (\<lambda>bf. with_pool pool (InitializePhase1 bf dev)) else Some (s, kInvalidPhase) }
      else if initialize_phase dev = 2 then do {
        ok \<leftarrow> (if sd_request setup_data = kGetDescriptor then buffer_is kConfigurationDescriptor b dev else Some False);
        if ok then Option.bind (buffer_at b dev) (\<lambda>bf. InitializePhase2 L bf len s) else Some (s, kInvalidPhase) }
      else if initialize_phase dev = 3 then
        (if sd_request setup_data = kSetConfiguration then with_pool pool (InitializePhase3 dev)
         else Some (s, kInvalidPhase))
      else Some (s, kNotImplemented))"

definition OnInterruptCompleted :: "EndpointID \<Rightarrow> int \<Rightarrow> UsbDevice \<Rightarrow> (UsbDevice \<times> Input list \<times> Error_Code) option" where
  "OnInterruptCompleted ep len dev =
     (if length (class_drivers dev) \<le> ep_Number ep then None
      else case class_drivers dev ! ep_Number ep of
        Some i \<Rightarrow> HID_OnInterruptCompleted ep len i dev
      | None \<Rightarrow> Some (dev, [], kNoWaiter))"

text \<open>The block at an address: it is in one of the transfer rings of the device.\<close>

definition issuer_block :: "nat \<Rightarrow> UsbDevice \<Rightarrow> TRB option" where
  "issuer_block p dev =
     (case concat (map (\<lambda>r. case r of None \<Rightarrow> [] | Some tr \<Rightarrow> (case ring_block tr p of None \<Rightarrow> [] | Some t \<Rightarrow> [t]))
             (transfer_rings dev)) of
        [] \<Rightarrow> None
      | t # ts \<Rightarrow> Some t)"

definition transferred :: "TRB \<Rightarrow> u32 \<Rightarrow> int" where
  "transferred t residual = sint (trb_transfer_length t - residual)"

definition stage_setup_data :: "TRB \<Rightarrow> SetupData" where
  "stage_setup_data t = \<lparr>sd_request_type = stage_request_type t, sd_request = stage_request t, sd_value = stage_value t,
     sd_index = stage_index t, sd_length = stage_length t\<rparr>"

definition OnTransferEventReceived :: "Layout \<Rightarrow> TRB \<Rightarrow> Pool \<times> UsbDevice \<Rightarrow> ((Pool \<times> UsbDevice) \<times> Input list \<times> Error_Code) option" where
  "OnTransferEventReceived L trb s =
     (let (pool, dev) = s in
      if completion_code trb \<noteq> 1 \<and> completion_code trb \<noteq> 13 then Some (s, [], kTransferFailed)
      else do {
        let p = unat (parameter trb);
        issuer_trb \<leftarrow> issuer_block p dev;
        if trb_type issuer_trb = Type NormalTRB then do {
          (dev1, inputs, err) \<leftarrow> OnInterruptCompleted (unat (event_endpoint_id trb))
            (transferred issuer_trb (residual_length trb)) dev;
          Some ((pool, dev1), inputs, err) }
        else case Get p (setup_stage_map dev) of
          None \<Rightarrow> Some (s, [], kNoCorrespondingSetupStage)
        | Some setup_position \<Rightarrow> do {
            let dev1 = dev\<lparr>setup_stage_map := Delete p (setup_stage_map dev)\<rparr>;
            setup_stage_trb \<leftarrow> issuer_block setup_position dev1;
            let setup_data = stage_setup_data setup_stage_trb;
            if trb_type issuer_trb = Type DataStageTRB then
              map_option (\<lambda>(s1, err). (s1, [], err))
                (OnControlCompleted L setup_data (unat (parameter issuer_trb))
                   (transferred issuer_trb (residual_length trb)) (pool, dev1))
            else if trb_type issuer_trb = Type StatusStageTRB then
              map_option (\<lambda>(s1, err). (s1, [], err)) (OnControlCompleted L setup_data 0 0 (pool, dev1))
            else Some ((pool, dev1), [], kNotImplemented) } })"

subsection \<open>A finished control transfer is the one that was issued\<close>

definition ring_ok :: "Ring \<Rightarrow> bool" where
  "ring_ok r \<longleftrightarrow> length (buf r) = buf_size r \<and> 4 < buf_size r \<and> write_index r < buf_size r - 1"

lemma Push_ok:
  assumes "ring_ok r"
  obtains r' where "Push t r = Some (r', buf_addr r + 16 * write_index r)" "ring_ok r'" "buf_addr r' = buf_addr r"
    "buf_size r' = buf_size r" "write_index r' = (if write_index r + 2 = buf_size r then 0 else write_index r + 1)"
    "buf r' ! write_index r = stamp (ring_cycle r) t"
    "\<And>j. j < buf_size r - 1 \<Longrightarrow> j \<noteq> write_index r \<Longrightarrow> buf r' ! j = buf r ! j"
proof (cases "write_index r + 2 = buf_size r")
  case True
  define r' where "r' = r\<lparr>buf := (buf r)[write_index r := stamp (ring_cycle r) t,
      write_index r + 1 := stamp (ring_cycle r) (ring_link r)], write_index := 0, ring_cycle := \<not> ring_cycle r\<rparr>"
  have "Push t r = Some (r', buf_addr r + 16 * write_index r)"
    using assms True by (auto simp: ring_ok_def Push_def CopyToLast_def r'_def ring_link_def Let_def)
  then show thesis using assms True by (intro that[of r']) (auto simp: ring_ok_def r'_def nth_list_update)
next
  case False
  define r' where "r' = r\<lparr>buf := (buf r)[write_index r := stamp (ring_cycle r) t], write_index := write_index r + 1\<rparr>"
  have "Push t r = Some (r', buf_addr r + 16 * write_index r)"
    using assms False by (auto simp: ring_ok_def Push_def CopyToLast_def r'_def Let_def)
  then show thesis using assms False by (intro that[of r']) (auto simp: ring_ok_def r'_def nth_list_update)
qed

lemma ring_block_at: "j < length (buf r) \<Longrightarrow> ring_block r (buf_addr r + 16 * j) = Some (buf r ! j)"
  by (simp add: ring_block_def)

lemma sint_diff_small:
  fixes x y :: u32
  assumes "unat x < 2 ^ 24" and "unat y < 2 ^ 24"
  shows "sint (x - y) = int (unat x) - int (unat y)"
proof -
  have e: "x - y = word_of_int (int (unat x) - int (unat y))" unfolding word_sub_wi[of x y] by simp
  have w: "sint (word_of_int z :: u32) = z" if "- (2 ^ 31) \<le> z" "z < 2 ^ 31" for z
    using that by (subst signed_of_int) (simp add: signed_take_bit_int_eq_self)
  have u: "int n < 2 ^ 31" if "n < 2 ^ 24" for n :: nat using that by simp
  have "int (unat x) < 2 ^ 31" "int (unat y) < 2 ^ 31" by (rule u[OF assms(1)], rule u[OF assms(2)])
  then show ?thesis unfolding e by (intro w) linarith+
qed

definition in_ring :: "Ring \<Rightarrow> nat \<Rightarrow> bool" where
  "in_ring r p \<longleftrightarrow> buf_addr r \<le> p \<and> p < buf_addr r + 16 * length (buf r)"

lemma ring_block_None: "\<not> in_ring r p \<Longrightarrow> ring_block r p = None"
  by (auto simp: ring_block_def in_ring_def)

text \<open>The rings of a device lie in memory of their own.\<close>

definition rings_apart :: "UsbDevice \<Rightarrow> bool" where
  "rings_apart dev \<longleftrightarrow> (\<forall>i < length (transfer_rings dev). \<forall>j < length (transfer_rings dev). \<forall>r s p.
     transfer_rings dev ! i = Some r \<longrightarrow> transfer_rings dev ! j = Some s \<longrightarrow> in_ring r p \<longrightarrow> in_ring s p \<longrightarrow> i = j)"

lemma concat_single:
  "i < length xs \<Longrightarrow> f (xs ! i) = [t] \<Longrightarrow> (\<And>j. j < length xs \<Longrightarrow> j \<noteq> i \<Longrightarrow> f (xs ! j) = []) \<Longrightarrow> concat (map f xs) = [t]"
proof (induction xs arbitrary: i)
  case (Cons x xs)
  show ?case
  proof (cases i)
    case 0
    have "f y = []" if "y \<in> set xs" for y
      using that Cons.prems(3)[of "Suc j" for j] 0 by (auto simp: in_set_conv_nth)
    then show ?thesis using Cons.prems(2) 0 by simp
  next
    case (Suc k)
    have "concat (map f xs) = [t]"
      using Cons.prems Suc Cons.prems(3)[of "Suc j" for j] by (intro Cons.IH[of k]) auto
    then show ?thesis using Cons.prems(3)[of 0] Suc by simp
  qed
qed simp

lemma issuer_block_ring:
  assumes "rings_apart dev" and "transfer_ring ep dev = Some (Some tr)"
    and "k < length (buf tr)"
  shows "issuer_block (buf_addr tr + 16 * k) dev = Some (buf tr ! k)"
proof -
  have i: "ep - 1 < length (transfer_rings dev)" "transfer_rings dev ! (ep - 1) = Some tr"
    using assms(2) by (auto simp: transfer_ring_def split: if_splits)
  have "in_ring tr (buf_addr tr + 16 * k)" using assms(3) by (simp add: in_ring_def)
  then have o: "ring_block r (buf_addr tr + 16 * k) = None"
    if "j < length (transfer_rings dev)" "j \<noteq> ep - 1" "transfer_rings dev ! j = Some r" for j r
    using assms(1) i that by (intro ring_block_None) (auto simp: rings_apart_def)
  show ?thesis
    unfolding issuer_block_def
    by (subst concat_single[where i = "ep - 1" and t = "buf tr ! k"])
      (use i o assms(3) in \<open>auto simp: ring_block_at split: option.splits\<close>)
qed

text \<open>The blocks of one control transfer on a ring: the set-up stage at \<open>j\<close> and the next block at \<open>k\<close>.\<close>

definition stages_at :: "Ring \<Rightarrow> Ring \<Rightarrow> nat \<Rightarrow> nat \<Rightarrow> TRB \<Rightarrow> TRB \<Rightarrow> bool" where
  "stages_at r r' j k setup next \<longleftrightarrow>
     ring_ok r' \<and> buf_addr r' = buf_addr r \<and> buf_size r' = buf_size r \<and> j < buf_size r - 1 \<and> k < buf_size r - 1 \<and>
     (\<exists>c. buf r' ! j = stamp c setup) \<and> (\<exists>c. buf r' ! k = stamp c next)"

text \<open>The block that completes the next transfer of a ring comes after the set-up stage.\<close>

definition last_index :: "Ring \<Rightarrow> nat" where
  "last_index r = (if write_index r + 2 = buf_size r then 0 else write_index r + 1)"

lemma push_stages:
  assumes "ring_ok r"
  defines "j \<equiv> write_index r" and "k \<equiv> last_index r"
  obtains r1 r2 r3 q where "Push setup r = Some (r1, buf_addr r + 16 * j)" "ring_block r1 (buf_addr r + 16 * j) = Some (stamp (ring_cycle r) setup)"
    "Push next r1 = Some (r2, buf_addr r + 16 * k)" "Push status r2 = Some (r3, q)"
    "stages_at r r2 j k setup next" "stages_at r r3 j k setup next"
proof -
  obtain r1 where 1: "Push setup r = Some (r1, buf_addr r + 16 * j)" "ring_ok r1" "buf_addr r1 = buf_addr r"
    "buf_size r1 = buf_size r" "write_index r1 = k" "buf r1 ! j = stamp (ring_cycle r) setup"
    using Push_ok[OF assms(1)] unfolding j_def k_def last_index_def by metis
  obtain r2 where 2: "Push next r1 = Some (r2, buf_addr r + 16 * k)" "ring_ok r2" "buf_addr r2 = buf_addr r"
    "buf_size r2 = buf_size r" "write_index r2 = (if k + 2 = buf_size r then 0 else k + 1)"
    "buf r2 ! k = stamp (ring_cycle r1) next" "\<And>i. i < buf_size r - 1 \<Longrightarrow> i \<noteq> k \<Longrightarrow> buf r2 ! i = buf r1 ! i"
    using Push_ok[OF 1(2), of "next"] unfolding 1 by metis
  obtain r3 q where 3: "Push status r2 = Some (r3, q)" "ring_ok r3" "buf_addr r3 = buf_addr r" "buf_size r3 = buf_size r"
    "\<And>i. i < buf_size r - 1 \<Longrightarrow> i \<noteq> write_index r2 \<Longrightarrow> buf r3 ! i = buf r2 ! i"
    using Push_ok[OF 2(2), of status] unfolding 2(3,4) by metis
  have b: "j < buf_size r - 1" "4 < buf_size r" using assms by (auto simp: ring_ok_def j_def)
  then have k: "k < buf_size r - 1" "j \<noteq> k" "write_index r2 \<noteq> j" "write_index r2 \<noteq> k"
    unfolding 2(5) by (auto simp: k_def j_def last_index_def)
  have l: "j < length (buf r1)" using b 1 by (simp add: ring_ok_def)
  have s2: "stages_at r r2 j k setup next" using 1 2 b k by (auto simp: stages_at_def)
  then have s3: "stages_at r r3 j k setup next" using 3 b k by (auto simp: stages_at_def)
  show thesis using that[OF 1(1) _ 2(1) 3(1) s2 s3] ring_block_at[OF l] 1 by simp
qed

definition Control :: "bool \<Rightarrow> EndpointID \<Rightarrow> SetupData \<Rightarrow> nat \<Rightarrow> nat \<Rightarrow> nat option \<Rightarrow> UsbDevice \<Rightarrow> (UsbDevice \<times> Error_Code) option" where
  "Control dir_in = (if dir_in then ControlIn else ControlOut)"

definition last_stage :: "bool \<Rightarrow> nat \<Rightarrow> nat \<Rightarrow> TRB" where
  "last_stage dir_in b len = set_interrupt_on_completion
     (if b \<noteq> 0 then MakeDataStageTRB b len dir_in else set_direction True new_StatusStageTRB)"

lemma setup_stage_type: "trb_type (MakeSetupStageTRB sd tt) = Type SetupStageTRB"
  by (simp add: MakeSetupStageTRB_def new_SetupStageTRB_def trb_fields Let_def take_bit_eq_mod
      trb_type_def[of "_\<lparr>data3 := _\<rparr>"] fields trb_type_def[symmetric])

lemma transfer_ring_base [simp]: "transfer_ring ep (base_Control sd issuer dev) = transfer_ring ep dev"
  by (auto simp: transfer_ring_def base_Control_def split: option.splits)

lemma Control_stages:
  assumes "ring_ok tr" and "transfer_ring ep dev = Some (Some tr)" and "ep_Number ep \<le> 15"
  obtains tr' j tt where
    "Control dir_in ep sd b len issuer dev =
       (let d = base_Control sd issuer dev in
        Some (d\<lparr>transfer_rings := (transfer_rings d)[ep - 1 := Some tr'],
          setup_stage_map := Put (buf_addr tr + 16 * last_index tr) (buf_addr tr + 16 * j) (setup_stage_map d),
          doorbells := doorbells d @ [ep]\<rparr>, kSuccess))"
    "stages_at tr tr' j (last_index tr) (MakeSetupStageTRB sd tt) (last_stage dir_in b len)"
proof -
  define k where "k = last_index tr"
  define tt where "tt = (if b = 0 then kNoDataStage else if dir_in then kInDataStage else kOutDataStage)"
  define status where "status = (if dir_in then new_StatusStageTRB else set_direction True new_StatusStageTRB)"
  obtain r1 r2 r3 q j where p:
    "Push (MakeSetupStageTRB sd tt) tr = Some (r1, buf_addr tr + 16 * j)"
    "ring_block r1 (buf_addr tr + 16 * j) = Some (stamp (ring_cycle tr) (MakeSetupStageTRB sd tt))"
    "Push (last_stage dir_in b len) r1 = Some (r2, buf_addr tr + 16 * k)" "Push status r2 = Some (r3, q)"
    "stages_at tr r2 j k (MakeSetupStageTRB sd tt) (last_stage dir_in b len)"
    "stages_at tr r3 j k (MakeSetupStageTRB sd tt) (last_stage dir_in b len)"
    using push_stages[OF assms(1)] unfolding k_def by metis
  have c: "trb_cast SetupStageTRB r1 (buf_addr tr + 16 * j) = Some (buf_addr tr + 16 * j)"
    by (simp add: trb_cast_def p(2) TRBDynamicCast_def setup_stage_type)
  have n: "\<not> 15 < ep_Number ep" using assms(3) by simp
  show thesis
  proof (rule that[where tr' = "if b = 0 then r2 else r3" and j = j and tt = tt])
    show "stages_at tr (if b = 0 then r2 else r3) j (last_index tr) (MakeSetupStageTRB sd tt) (last_stage dir_in b len)"
      using p(5,6) unfolding k_def by (cases "b = 0") simp_all
    show "Control dir_in ep sd b len issuer dev =
       (let d = base_Control sd issuer dev in
        Some (d\<lparr>transfer_rings := (transfer_rings d)[ep - 1 := Some (if b = 0 then r2 else r3)],
          setup_stage_map := Put (buf_addr tr + 16 * last_index tr) (buf_addr tr + 16 * j) (setup_stage_map d),
          doorbells := doorbells d @ [ep]\<rparr>, kSuccess))"
      using p c n assms(2) unfolding k_def
      by (cases "b = 0"; cases dir_in)
        (simp_all add: Control_def ControlIn_def ControlOut_def Let_def tt_def last_stage_def status_def)
  qed
qed

lemma Get_Delete_Put:
  "Get p m = None \<Longrightarrow> None \<in> fst ` set m \<Longrightarrow> Get q (Delete p (Put p v m)) = Get q m"
  by (induction p v m rule: Put.induct) (auto split: if_splits)

lemma Get_Put_same: "Get p m = None \<Longrightarrow> None \<in> fst ` set m \<Longrightarrow> Get p (Put p v m) = Some v"
  by (simp add: Get_Put Get_None)

lemma stage_data: "stage_setup_data (stamp c (MakeSetupStageTRB sd tt)) = sd"
  by (simp add: stage_setup_data_def MakeSetupStageTRB_def trb_fields set_transfer_type_def
      stage_fields_cong[of "stamp c (t\<lparr>data3 := w\<rparr>)" t for t w])

lemma last_stage_type: "trb_type (last_stage dir_in b len) = Type (if b \<noteq> 0 then DataStageTRB else StatusStageTRB)"
  by (simp add: last_stage_def MakeDataStageTRB_def new_DataStageTRB_def new_StatusStageTRB_def trb_fields take_bit_eq_mod)

lemma last_stage_data:
  assumes "b \<noteq> 0" and "b < 2 ^ 64" and "len < 2 ^ 17"
  shows "unat (parameter (stamp c (last_stage dir_in b len))) = b"
    and "unat (trb_transfer_length (stamp c (last_stage dir_in b len))) = len"
proof -
  have p: "parameter (stamp c (last_stage dir_in b len)) = of_nat b"
    using assms(1)
    by (simp add: last_stage_def MakeDataStageTRB_def parameter_def[of "stamp _ _"] parameter_def[symmetric]
        set_interrupt_on_completion_def set_direction_def set_td_size_def set_trb_transfer_length_def trb_fields)
  show "unat (parameter (stamp c (last_stage dir_in b len))) = b"
    unfolding p using assms(2) by (simp add: unat_of_nat)
  have l: "trb_transfer_length (stamp c (last_stage dir_in b len)) = take_bit 17 (of_nat len)"
    using assms(1)
    by (simp add: last_stage_def MakeDataStageTRB_def trb_transfer_length_def set_interrupt_on_completion_def
        set_direction_def set_td_size_def set_trb_transfer_length_def fields)
  show "unat (trb_transfer_length (stamp c (last_stage dir_in b len))) = len"
    unfolding l unsigned_take_bit_eq using assms(3) by (simp add: unat_of_nat take_bit_eq_mod)
qed

definition completes :: "TRB \<Rightarrow> nat \<Rightarrow> bool" where
  "completes trb p \<longleftrightarrow> (completion_code trb = 1 \<or> completion_code trb = 13) \<and> unat (parameter trb) = p"

lemma residual_small: "unat (residual_length t) < 2 ^ 24"
  unfolding residual_length_def by (rule unat_get_field)

text \<open>A ring that is replaced by one at the same place stays apart from the others.\<close>

lemma rings_apart_update:
  assumes "rings_apart dev" and "transfer_rings dev' = (transfer_rings dev)[e := Some tr']"
    and "transfer_rings dev ! e = Some tr" and "\<And>q. in_ring tr' q \<longleftrightarrow> in_ring tr q"
  shows "rings_apart dev'"
  unfolding rings_apart_def
proof (intro allI impI)
  have old: "\<exists>r'. transfer_rings dev ! x = Some r' \<and> in_ring r' q"
    if "x < length (transfer_rings dev)" "(transfer_rings dev)[e := Some tr'] ! x = Some r" "in_ring r q" for x r q
    using that assms(3) assms(4)[of q] by (cases "x = e") auto
  fix x y r s q
  assume "x < length (transfer_rings dev')" "y < length (transfer_rings dev')"
    "transfer_rings dev' ! x = Some r" "transfer_rings dev' ! y = Some s" "in_ring r q" "in_ring s q"
  then have "x < length (transfer_rings dev)" "y < length (transfer_rings dev)"
    "\<exists>r'. transfer_rings dev ! x = Some r' \<and> in_ring r' q" "\<exists>s'. transfer_rings dev ! y = Some s' \<and> in_ring s' q"
    using old[of x r q] old[of y s q] by (simp_all add: assms(2))
  then show "x = y" using assms(1) unfolding rings_apart_def by blast
qed

text \<open>C27: Control transfers come back as they were issued: after a request in either direction, with or
  without a data buffer, was put on the ring of an endpoint, the event for the last block of exactly that
  transfer makes the driver handle the very set-up data of the request, with its buffer and the number of
  bytes that were transferred; the entry of the request is gone from the table of pending transfers and
  every other one is still there.\<close>

theorem control_transfer_completes:
  assumes "ring_ok tr" and "transfer_ring ep dev = Some (Some tr)" and "ep_Number ep \<le> 15" and "rings_apart dev"
    and "b < 2 ^ 64" and "len < 2 ^ 17"
    and "None \<in> fst ` set (setup_stage_map dev)"
    and "Get (buf_addr tr + 16 * last_index tr) (setup_stage_map dev) = None"
  shows "\<exists>dev1 m. Control dir_in ep sd b len issuer dev = Some (dev1, kSuccess) \<and>
    (\<forall>q. Get q m = Get q (setup_stage_map dev)) \<and>
    (\<forall>trb. completes trb (buf_addr tr + 16 * last_index tr) \<longrightarrow>
       OnTransferEventReceived L trb (pool, dev1) =
       map_option (\<lambda>(s, e). (s, [], e))
         (OnControlCompleted L sd b (if b = 0 then 0 else int len - int (unat (residual_length trb)))
           (pool, dev1\<lparr>setup_stage_map := m\<rparr>)))"
proof -
  let ?p = "buf_addr tr + 16 * last_index tr"
  obtain tr' j tt where c: "Control dir_in ep sd b len issuer dev =
       (let d = base_Control sd issuer dev in
        Some (d\<lparr>transfer_rings := (transfer_rings d)[ep - 1 := Some tr'],
          setup_stage_map := Put ?p (buf_addr tr + 16 * j) (setup_stage_map d), doorbells := doorbells d @ [ep]\<rparr>, kSuccess))"
    and st: "stages_at tr tr' j (last_index tr) (MakeSetupStageTRB sd tt) (last_stage dir_in b len)"
    using Control_stages[OF assms(1-3)] by metis
  define d where "d = base_Control sd issuer dev"
  have d: "transfer_rings d = transfer_rings dev" "setup_stage_map d = setup_stage_map dev"
    by (auto simp: d_def base_Control_def split: option.splits)
  define dev1 where "dev1 = d\<lparr>transfer_rings := (transfer_rings d)[ep - 1 := Some tr'],
    setup_stage_map := Put ?p (buf_addr tr + 16 * j) (setup_stage_map d), doorbells := doorbells d @ [ep]\<rparr>"
  define m where "m = Delete ?p (setup_stage_map dev1)"
  have m: "Get q m = Get q (setup_stage_map dev)" for q
    using Get_Delete_Put[OF assms(8,7)] by (simp add: m_def dev1_def d)
  have i: "ep - 1 < length (transfer_rings dev)" "transfer_rings dev ! (ep - 1) = Some tr" "1 \<le> ep"
    using assms(2) by (auto simp: transfer_ring_def split: if_splits)
  have tr': "buf_addr tr' = buf_addr tr" "length (buf tr') = length (buf tr)"
    "j < length (buf tr')" "last_index tr < length (buf tr')"
    using st assms(1) by (auto simp: stages_at_def ring_ok_def)
  have t1: "transfer_ring ep (dev1\<lparr>setup_stage_map := n\<rparr>) = Some (Some tr')" for n
    using i by (simp add: transfer_ring_def dev1_def d)
  have in': "in_ring tr' q \<longleftrightarrow> in_ring tr q" for q using tr' by (simp add: in_ring_def)
  have apart: "rings_apart (dev1\<lparr>setup_stage_map := n\<rparr>)" for n
    by (rule rings_apart_update[OF assms(4) _ i(2) in']) (simp add: dev1_def d)
  have ib: "issuer_block (buf_addr tr + 16 * k) (dev1\<lparr>setup_stage_map := n\<rparr>) = Some (buf tr' ! k)" if "k < length (buf tr')" for k n
    using issuer_block_ring[OF apart t1 that] by (simp add: tr')
  obtain c1 c2 where bl: "buf tr' ! j = stamp c1 (MakeSetupStageTRB sd tt)"
    "buf tr' ! last_index tr = stamp c2 (last_stage dir_in b len)"
    using st by (auto simp: stages_at_def)
  have ib1: "issuer_block ?p dev1 = Some (stamp c2 (last_stage dir_in b len))"
    using ib[OF tr'(4), of "setup_stage_map dev1"] bl by simp
  have g: "Get ?p (setup_stage_map dev1) = Some (buf_addr tr + 16 * j)"
    using Get_Put_same[OF assms(8,7)] by (simp add: dev1_def d)
  have "OnTransferEventReceived L trb (pool, dev1) =
       map_option (\<lambda>(s, e). (s, [], e))
         (OnControlCompleted L sd b (if b = 0 then 0 else int len - int (unat (residual_length trb)))
           (pool, dev1\<lparr>setup_stage_map := m\<rparr>))" if trb: "completes trb ?p" for trb
  proof (cases "b = 0")
    case True
    then show ?thesis
      using trb ib1 g ib[OF tr'(3), of m] bl
      by (cases "completion_code trb = 1")
        (simp_all add: OnTransferEventReceived_def completes_def last_stage_type stage_data Let_def m_def)
  next
    case False
    have l: "transferred (stamp c2 (last_stage dir_in b len)) (residual_length trb) =
        int len - int (unat (residual_length trb))"
      using assms(6) residual_small[of trb] last_stage_data(2)[OF False assms(5,6), of c2 dir_in]
      by (simp add: transferred_def sint_diff_small)
    show ?thesis
      using False trb ib1 g ib[OF tr'(3), of m] bl last_stage_data(1)[OF False assms(5,6)]
      by (cases "completion_code trb = 1")
        (simp_all add: OnTransferEventReceived_def completes_def last_stage_type stage_data Let_def m_def l)
  qed
  moreover have "Control dir_in ep sd b len issuer dev = Some (dev1, kSuccess)"
    unfolding c Let_def d_def[symmetric] dev1_def ..
  ultimately show ?thesis using m by blast
qed

definition example_ring :: Ring where
  "example_ring = \<lparr>buf_addr = 4096, buf = replicate 32 zero_TRB, buf_size = 32, ring_cycle = True, write_index = 0\<rparr>"

definition example_Layout :: Layout where
  "example_Layout = \<lparr>sizeof_Device = 4096, sizeof_Ring = 64, sizeof_Keyboard = 2304, sizeof_Mouse = 2304,
     offset_buf = 192, offset_hid_buf = 40, keyboard_observed = True, mouse_observed = True\<rparr>"

definition example_device :: UsbDevice where
  "example_device = (new_Device example_Layout 8192 1)\<lparr>transfer_rings := Some example_ring # replicate 30 None\<rparr>"

lemma example_device_ok:
  "ring_ok example_ring" "transfer_ring 1 example_device = Some (Some example_ring)" "ep_Number 1 \<le> 15"
  "rings_apart example_device" "None \<in> fst ` set (setup_stage_map example_device)"
  "Get p (setup_stage_map example_device) = None"
proof -
  have "i = 0" if "(Some example_ring # replicate 30 None) ! i = Some r" "i < 31" for i r
    using that by (cases i) simp_all
  then show "rings_apart example_device" unfolding rings_apart_def example_device_def by (auto simp: less_Suc_eq_0_disj)
  show "Get p (setup_stage_map example_device) = None"
    by (simp add: example_device_def new_Device_def numeral_eq_Suc)
qed (simp_all add: ring_ok_def example_ring_def transfer_ring_def example_device_def ep_Number_def new_Device_def)

theorem control_transfer_completes_witness:
  "\<exists>dev1 m. Control True 1 no_SetupData 64 8 None example_device = Some (dev1, kSuccess) \<and>
     (\<forall>trb. completes trb 4112 \<longrightarrow>
        OnTransferEventReceived example_Layout trb (new_Pool 0, dev1) =
        map_option (\<lambda>(s, e). (s, [], e))
          (OnControlCompleted example_Layout no_SetupData 64 (8 - int (unat (residual_length trb)))
            (new_Pool 0, dev1\<lparr>setup_stage_map := m\<rparr>)))"
proof -
  have l: "buf_addr example_ring + 16 * last_index example_ring = 4112" by (simp add: example_ring_def last_index_def)
  show ?thesis
    using control_transfer_completes[OF example_device_ok(1-4), of 64 8 True no_SetupData None example_Layout "new_Pool 0"]
      example_device_ok(5,6)
    unfolding l by auto
qed

subsection \<open>Start up reads the descriptors\<close>

text \<open>
  What the configuration descriptors of a device say (specification): a list of descriptors, each with its
  length in the first byte and its type in the second. The driver takes the first interface of the HID boot
  class and as many of the endpoint descriptors after it as the interface announces.
\<close>

definition is_endpoint :: "u8 list \<Rightarrow> bool" where
  "is_endpoint d \<longleftrightarrow> d ! 1 = kEndpointDescriptor"

definition wf_descriptor :: "u8 list \<Rightarrow> bool" where
  "wf_descriptor d \<longleftrightarrow> 2 \<le> length d \<and> length d = unat (d ! 0) \<and> (d ! 1 = kInterfaceDescriptor \<longrightarrow> 9 \<le> length d) \<and>
     (is_endpoint d \<longrightarrow> 7 \<le> length d)"

definition hid_boot :: "u8 list \<Rightarrow> bool" where
  "hid_boot d \<longleftrightarrow> d ! 1 = kInterfaceDescriptor \<and> d ! 5 = 3 \<and> d ! 6 = 1 \<and> (d ! 7 = 1 \<or> d ! 7 = 2)"

fun find_hid :: "u8 list list \<Rightarrow> (u8 list \<times> u8 list list) option" where
  "find_hid [] = None"
| "find_hid (d # ds) = (if hid_boot d then Some (d, ds) else find_hid ds)"

definition ep_config_of :: "u8 list \<Rightarrow> EndpointConfig" where
  "ep_config_of d = \<lparr>ep_id = 2 * unat (take_bit 4 (d ! 2)) + (if bit (d ! 2) 7 then 1 else 0), ep_type = endpoint_type (d ! 3),
     max_packet_size = unat (d ! 4) + 256 * unat (d ! 5), interval = unat (d ! 6)\<rparr>"

definition endpoint_configs :: "nat \<Rightarrow> u8 list list \<Rightarrow> EndpointConfig list" where
  "endpoint_configs n ds = map ep_config_of (take n (filter is_endpoint ds))"

text \<open>The buffer with the reader at descriptor \<open>c\<close>; \<open>ds\<close> are the descriptors after it.\<close>

definition reader_at :: "u8 list \<Rightarrow> int \<Rightarrow> nat \<Rightarrow> u8 list \<Rightarrow> u8 list list \<Rightarrow> bool" where
  "reader_at b len p c ds \<longleftrightarrow> wf_descriptor c \<and> (\<forall>d \<in> set ds. wf_descriptor d) \<and>
     (\<exists>xs ys. b = xs @ c @ concat ds @ ys \<and> p = length xs \<and> len = int (length xs + length c + length (concat ds)))"

lemma reader_rd: "reader_at b len p c ds \<Longrightarrow> i < length c \<Longrightarrow> rd b (p + i) = Some (c ! i)"
  by (auto simp: reader_at_def rd_def nth_append)

lemma reader_length:
  assumes "reader_at b len p c ds"
  shows "rd b p = Some (c ! 0)" "unat (c ! 0) = length c" "2 \<le> length c"
proof -
  have "wf_descriptor c" using assms by (simp only: reader_at_def)
  then have w: "2 \<le> length c \<and> length c = unat (c ! 0)" unfolding wf_descriptor_def by blast
  show "unat (c ! 0) = length c" by (rule sym) (rule conjunct2[OF w])
  show "2 \<le> length c" by (rule conjunct1[OF w])
  then have "0 < length c" by linarith
  from reader_rd[OF assms this] show "rd b p = Some (c ! 0)" by simp
qed

lemma reader_step:
  assumes "reader_at b len p c (d # ds)"
  shows "Next b len p = Some (p + length c, Some (p + length c))" "reader_at b len (p + length c) d ds"
proof -
  have "2 \<le> length d" using assms by (simp add: reader_at_def wf_descriptor_def)
  moreover have "len = int p + int (length c) + int (length d) + int (length (concat ds))"
    using assms by (auto simp: reader_at_def)
  ultimately show "Next b len p = Some (p + length c, Some (p + length c))"
    by (simp only: Next_def reader_length[OF assms] Let_def option.map) simp
  obtain xs ys where "b = xs @ c @ concat (d # ds) @ ys" "p = length xs"
    "len = int (length xs + length c + length (concat (d # ds)))" using assms by (auto simp: reader_at_def)
  then have "b = (xs @ c) @ d @ concat ds @ ys" "p + length c = length (xs @ c)"
    "len = int (length (xs @ c) + length d + length (concat ds))" by simp_all
  then show "reader_at b len (p + length c) d ds"
    using assms unfolding reader_at_def by (intro conjI exI[of _ "xs @ c"] exI[of _ ys]) simp_all
qed

lemma reader_end:
  assumes "reader_at b len p c []"
  shows "Next b len p = Some (p + length c, None)"
proof -
  have "len = int p + int (length c)" using assms by (auto simp: reader_at_def)
  then show ?thesis by (simp only: Next_def reader_length[OF assms] Let_def option.map) simp
qed

lemma reader_cast: "reader_at b len p c ds \<Longrightarrow> DescriptorDynamicCast t b p = Some (c ! 1 = t)"
proof -
  assume r: "reader_at b len p c ds"
  then have "1 < length c" using reader_length(3)[OF r] by linarith
  from reader_rd[OF r this] show ?thesis by (simp add: DescriptorDynamicCast_def)
qed

lemma reader_MakeEPConfig:
  assumes "reader_at b len p c ds" and "is_endpoint c"
  shows "MakeEPConfig b p = Some (ep_config_of c)"
proof -
  have "wf_descriptor c" using assms(1) by (simp only: reader_at_def)
  then have l: "7 \<le> length c" using assms(2) unfolding wf_descriptor_def by blast
  have r: "rd b (p + i) = Some (c ! i)" if "i < 7" for i using reader_rd[OF assms(1)] l that by simp
  have "get_field 7 1 a = 1 \<longleftrightarrow> bit a 7" for a :: u8
  proof
    assume "get_field 7 1 a = 1"
    then show "bit a 7" using bit_get_field[of 7 1 a 0] by simp
  next
    assume "bit a 7"
    then show "get_field 7 1 a = 1"
      by (intro bit_word_eqI) (auto simp: bit_get_field bit_1_iff)
  qed
  then show ?thesis
    by (simp add: MakeEPConfig_def r ep_config_of_def mk_EndpointID_def get_field_def[of 0] del: add_2_eq_Suc')
qed

definition add_endpoint :: "nat \<Rightarrow> EndpointConfig \<Rightarrow> UsbDevice \<Rightarrow> UsbDevice" where
  "add_endpoint c conf dev = dev\<lparr>ep_configs := (ep_configs dev)[num_ep_configs dev := conf],
     num_ep_configs := num_ep_configs dev + 1, class_drivers := (class_drivers dev)[ep_Number (ep_id conf) := Some c]\<rparr>"

lemma read_endpoints_list:
  "reader_at b len p c ds \<Longrightarrow> n - num_ep_configs dev \<le> length (filter is_endpoint ds) \<Longrightarrow>
   n \<le> length (ep_configs dev) \<Longrightarrow>
   read_endpoints b len n drv p dev = Some (fold (add_endpoint drv) (endpoint_configs (n - num_ep_configs dev) ds) dev)"
proof (induction ds arbitrary: p c dev)
  case Nil
  then show ?case by (subst read_endpoints.simps) (simp add: endpoint_configs_def)
next
  case (Cons d ds)
  note s = reader_step[OF Cons.prems(1)]
  show ?case
  proof (cases "num_ep_configs dev < n")
    case False
    then show ?thesis by (subst read_endpoints.simps) (simp add: endpoint_configs_def)
  next
    case True
    show ?thesis
    proof (cases "is_endpoint d")
      case e: True
      have m: "n - num_ep_configs dev = Suc (n - num_ep_configs (add_endpoint drv (ep_config_of d) dev))"
        using True by (simp add: add_endpoint_def)
      have "read_endpoints b len n drv p dev = read_endpoints b len n drv (p + length c) (add_endpoint drv (ep_config_of d) dev)"
        using True e Cons.prems(3)
        by (subst read_endpoints.simps) (simp add: s(1) reader_cast[OF s(2)] reader_MakeEPConfig[OF s(2) e] add_endpoint_def is_endpoint_def)
      also have "\<dots> = Some (fold (add_endpoint drv) (endpoint_configs (n - num_ep_configs (add_endpoint drv (ep_config_of d) dev)) ds)
          (add_endpoint drv (ep_config_of d) dev))"
        by (rule Cons.IH[OF s(2)]) (use Cons.prems(2,3) m e in \<open>simp_all add: add_endpoint_def\<close>)
      finally show ?thesis using e by (simp add: m endpoint_configs_def)
    next
      case e: False
      have "read_endpoints b len n drv p dev = read_endpoints b len n drv (p + length c) dev"
        using True e by (subst read_endpoints.simps) (simp add: s(1) reader_cast[OF s(2)] is_endpoint_def)
      also have "\<dots> = Some (fold (add_endpoint drv) (endpoint_configs (n - num_ep_configs dev) ds) dev)"
        by (rule Cons.IH[OF s(2)]) (use Cons.prems(2,3) e in simp_all)
      finally show ?thesis using e by (simp add: endpoint_configs_def)
    qed
  qed
qed

text \<open>The class driver of an interface, when the pool has room for one.\<close>

definition driver_room :: "Layout \<Rightarrow> Pool \<Rightarrow> bool" where
  "driver_room L pool \<longleftrightarrow> alloc_ptr pool + sizeof_Keyboard L \<le> memory_pool pool + kMemoryPoolSize \<and>
     alloc_ptr pool + sizeof_Mouse L \<le> memory_pool pool + kMemoryPoolSize \<and> memory_pool pool + kMemoryPoolSize < 2 ^ 64"

definition serves :: "ClassDriver \<Rightarrow> u8 list \<Rightarrow> bool" where
  "serves c d \<longleftrightarrow> kind c = (if d ! 7 = 1 then HIDKeyboard else HIDMouse) \<and> interface_index (hid c) = unat (d ! 2) \<and>
     in_packet_size (hid c) = (if d ! 7 = 1 then 8 else 3)"

lemma reader_interface:
  assumes "reader_at b len p d ds" and "d ! 1 = kInterfaceDescriptor"
  shows "read_interface b p = Some \<lparr>interface_number = d ! 2, num_endpoints = d ! 4, interface_class = d ! 5,
    interface_sub_class = d ! 6, interface_protocol = d ! 7\<rparr>"
proof -
  have "wf_descriptor d" using assms(1) by (simp only: reader_at_def)
  then have l: "9 \<le> length d" using assms(2) unfolding wf_descriptor_def by blast
  have "rd b (p + i) = Some (d ! i)" if "i < 9" for i using reader_rd[OF assms(1)] l that by simp
  then show ?thesis by (simp add: read_interface_def del: add_2_eq_Suc')
qed

lemma NewClassDriver_hid:
  assumes "driver_room L pool" and "if_desc = \<lparr>interface_number = d ! 2, num_endpoints = d ! 4, interface_class = d ! 5,
    interface_sub_class = d ! 6, interface_protocol = d ! 7\<rparr>" and "d ! 1 = kInterfaceDescriptor"
  shows "hid_boot d \<Longrightarrow> \<exists>pool' c. NewClassDriver L if_desc pool = Some (pool', Some c) \<and> serves c d"
    and "\<not> hid_boot d \<Longrightarrow> NewClassDriver L if_desc pool = Some (pool, None)"
proof -
  have "alloc_ptr pool + sizeof_Keyboard L \<le> memory_pool pool + kMemoryPoolSize"
    "alloc_ptr pool + sizeof_Mouse L \<le> memory_pool pool + kMemoryPoolSize" "memory_pool pool + kMemoryPoolSize < 2 ^ 64"
    using assms(1) by (simp_all add: driver_room_def)
  then have room: "(alloc_ptr pool + sizeof_Keyboard L) mod 2 ^ 64 = alloc_ptr pool + sizeof_Keyboard L"
    "(alloc_ptr pool + sizeof_Mouse L) mod 2 ^ 64 = alloc_ptr pool + sizeof_Mouse L"
    "(memory_pool pool + kMemoryPoolSize) mod 2 ^ 64 = memory_pool pool + kMemoryPoolSize"
    "\<not> memory_pool pool + kMemoryPoolSize < alloc_ptr pool + sizeof_Keyboard L"
    "\<not> memory_pool pool + kMemoryPoolSize < alloc_ptr pool + sizeof_Mouse L"
    by (simp_all only: mod_less order_le_less_trans not_less)
  show "hid_boot d \<Longrightarrow> \<exists>pool' c. NewClassDriver L if_desc pool = Some (pool', Some c) \<and> serves c d"
    and "\<not> hid_boot d \<Longrightarrow> NewClassDriver L if_desc pool = Some (pool, None)"
    using assms(2,3) unfolding NewClassDriver_def AllocMem_def
    by (auto simp: hid_boot_def Let_def observe_def Subscribe_def serves_def room room[simplified]
        new_HIDKeyboardDriver_def new_HIDMouseDriver_def new_HIDDriver_def)
qed

lemma NextOf_simps:
  "reader_at b len p c [] \<Longrightarrow> NextOf t b len p = Some (p + length c, None)"
  "reader_at b len p c (d # ds) \<Longrightarrow> NextOf t b len p =
     (if d ! 1 = t then Some (p + length c, Some (p + length c)) else NextOf t b len (p + length c))"
proof -
  show "reader_at b len p c [] \<Longrightarrow> NextOf t b len p = Some (p + length c, None)"
    by (subst NextOf.simps) (simp add: reader_end)
  assume r: "reader_at b len p c (d # ds)"
  show "NextOf t b len p =
     (if d ! 1 = t then Some (p + length c, Some (p + length c)) else NextOf t b len (p + length c))"
    by (subst NextOf.simps) (simp add: reader_step(1)[OF r] reader_cast[OF reader_step(2)[OF r]])
qed

definition with_endpoints :: "ClassDriver \<Rightarrow> EndpointConfig list \<Rightarrow> UsbDevice \<Rightarrow> UsbDevice" where
  "with_endpoints drv confs dev =
     fold (add_endpoint (length (drivers dev))) confs (dev\<lparr>drivers := drivers dev @ [drv], num_ep_configs := 0\<rparr>)"

lemma read_interfaces_list:
  assumes "reader_at b len p c ds" and "driver_room L pool"
  shows "(find_hid ds = None \<longrightarrow> read_interfaces L b len p pool dev = Some (pool, dev, False)) \<and>
    (\<forall>d ds'. find_hid ds = Some (d, ds') \<longrightarrow> unat (d ! 4) \<le> length (filter is_endpoint ds') \<longrightarrow>
       unat (d ! 4) \<le> length (ep_configs dev) \<longrightarrow>
       (\<exists>pool' drv. serves drv d \<and> read_interfaces L b len p pool dev =
          Some (pool', with_endpoints drv (endpoint_configs (unat (d ! 4)) ds') dev, True)))"
  using assms(1)
proof (induction ds arbitrary: p c)
  case Nil
  show ?case by (subst read_interfaces.simps) (simp add: NextOf_simps(1)[OF Nil])
next
  case (Cons d ds)
  note s = reader_step[OF Cons.prems]
  show ?case
  proof (cases "d ! 1 = kInterfaceDescriptor")
    case False
    then have n: "NextOf kInterfaceDescriptor b len p = NextOf kInterfaceDescriptor b len (p + length c)"
      using NextOf_simps(2)[OF Cons.prems] by simp
    have "read_interfaces L b len p pool dev = read_interfaces L b len (p + length c) pool dev"
      by (subst (1 2) read_interfaces.simps) (simp only: n)
    moreover have "find_hid (d # ds) = find_hid ds" using False by (simp add: hid_boot_def)
    ultimately show ?thesis using Cons.IH[OF s(2)] by simp
  next
    case True
    let ?i = "\<lparr>interface_number = d ! 2, num_endpoints = d ! 4, interface_class = d ! 5,
      interface_sub_class = d ! 6, interface_protocol = d ! 7\<rparr>"
    note n = NewClassDriver_hid[OF assms(2) refl True] and i = reader_interface[OF s(2) True]
    show ?thesis
    proof (cases "hid_boot d")
      case h: False
      have "read_interfaces L b len p pool dev = read_interfaces L b len (p + length c) pool dev"
        by (subst read_interfaces.simps) (simp add: NextOf_simps(2)[OF Cons.prems] True[simplified] i n(2)[OF h])
      then show ?thesis using Cons.IH[OF s(2)] h by simp
    next
      case h: True
      obtain pool' drv where new: "NewClassDriver L ?i pool = Some (pool', Some drv)" "serves drv d"
        using n(1)[OF h] by blast
      have "read_interfaces L b len p pool dev = Some (pool', with_endpoints drv (endpoint_configs (unat (d ! 4)) ds) dev, True)"
        if "unat (d ! 4) \<le> length (filter is_endpoint ds)" "unat (d ! 4) \<le> length (ep_configs dev)"
        by (subst read_interfaces.simps)
          (use that in \<open>simp add: NextOf_simps(2)[OF Cons.prems] True[simplified] i new read_endpoints_list[OF s(2)] with_endpoints_def\<close>)
      then show ?thesis using new(2) h by auto
    qed
  qed
qed

lemma with_endpoints_fields:
  fixes dev drv confs
  defines "d \<equiv> with_endpoints drv confs dev"
  assumes "length confs \<le> length (ep_configs dev)"
  shows "drivers d = drivers dev @ [drv]" "num_ep_configs d = length confs" "take (length confs) (ep_configs d) = confs"
    "transfer_rings d = transfer_rings dev" "setup_stage_map d = setup_stage_map dev" "initialize_phase d = initialize_phase dev"
    "length (class_drivers d) = length (class_drivers dev)"
    "e < length (class_drivers dev) \<Longrightarrow> class_drivers d ! e =
      (if e \<in> (\<lambda>conf. ep_Number (ep_id conf)) ` set confs then Some (length (drivers dev)) else class_drivers dev ! e)"
proof -
  have f: "drivers (fold (add_endpoint k) confs x) = drivers x \<and> num_ep_configs (fold (add_endpoint k) confs x) = num_ep_configs x + length confs
      \<and> take (num_ep_configs x + length confs) (ep_configs (fold (add_endpoint k) confs x)) = take (num_ep_configs x) (ep_configs x) @ confs
      \<and> transfer_rings (fold (add_endpoint k) confs x) = transfer_rings x \<and> setup_stage_map (fold (add_endpoint k) confs x) = setup_stage_map x
      \<and> initialize_phase (fold (add_endpoint k) confs x) = initialize_phase x
      \<and> length (class_drivers (fold (add_endpoint k) confs x)) = length (class_drivers x)
      \<and> (\<forall>e < length (class_drivers x). class_drivers (fold (add_endpoint k) confs x) ! e =
          (if e \<in> (\<lambda>conf. ep_Number (ep_id conf)) ` set confs then Some k else class_drivers x ! e))"
    if "num_ep_configs x + length confs \<le> length (ep_configs x)" for x k
    using that
  proof (induction confs arbitrary: x)
    case (Cons conf confs)
    let ?y = "add_endpoint k conf x"
    have y: "num_ep_configs ?y + length confs \<le> length (ep_configs ?y)" using Cons.prems by (simp add: add_endpoint_def)
    have t: "take (num_ep_configs ?y) (ep_configs ?y) = take (num_ep_configs x) (ep_configs x) @ [conf]"
      using Cons.prems by (simp add: add_endpoint_def take_Suc_conv_app_nth)
    have n: "num_ep_configs ?y + length confs = num_ep_configs x + length (conf # confs)" by (simp add: add_endpoint_def)
    note IH = Cons.IH[OF y, unfolded t n]
    show ?case using IH by (auto simp: add_endpoint_def nth_list_update)
  qed simp
  note g = f[of "dev\<lparr>drivers := drivers dev @ [drv], num_ep_configs := 0\<rparr>" "length (drivers dev)", folded with_endpoints_def]
  show "drivers d = drivers dev @ [drv]" "num_ep_configs d = length confs" "take (length confs) (ep_configs d) = confs"
    "transfer_rings d = transfer_rings dev" "setup_stage_map d = setup_stage_map dev" "initialize_phase d = initialize_phase dev"
    "length (class_drivers d) = length (class_drivers dev)"
    "e < length (class_drivers dev) \<Longrightarrow> class_drivers d ! e =
      (if e \<in> (\<lambda>conf. ep_Number (ep_id conf)) ` set confs then Some (length (drivers dev)) else class_drivers dev ! e)"
    using g assms by simp_all
qed

lemma SetConfiguration_ok:
  assumes "ring_ok tr" and "transfer_ring kDefaultControlPipeID dev = Some (Some tr)"
  shows "\<exists>dev'. SetConfiguration kDefaultControlPipeID v dev = Some (dev', kSuccess) \<and>
    initialize_phase dev' = initialize_phase dev \<and> drivers dev' = drivers dev \<and> num_ep_configs dev' = num_ep_configs dev \<and>
    ep_configs dev' = ep_configs dev \<and> class_drivers dev' = class_drivers dev"
proof -
  have n: "ep_Number kDefaultControlPipeID \<le> 15" by (simp add: kDefaultControlPipeID_def mk_EndpointID_def ep_Number_def)
  show ?thesis
    unfolding SetConfiguration_def
    by (rule Control_stages[OF assms n, where dir_in = False and issuer = None and b = 0 and len = 0])
      (auto simp: Control_def base_Control_def)
qed

text \<open>C26: Start up understands every well-formed configuration: however the descriptors of a device are
  arranged in its answer, the driver finds the first HID boot interface, creates the class driver for its
  protocol, takes over exactly the endpoints the interface announces, with their number, direction, type,
  packet size and interval, serves their endpoint numbers and no others with the new driver, and selects
  the configuration; a device without such an interface is left as it was.\<close>

theorem InitializePhase2_reads_configuration:
  assumes "\<forall>d \<in> set (conf # ds). wf_descriptor d" and "conf ! 1 = kConfigurationDescriptor" and "9 \<le> length conf"
    and "b = concat (conf # ds) @ rest" and "len = int (length (concat (conf # ds)))"
    and "driver_room L pool" and "length (ep_configs dev) = 16"
    and "transfer_ring kDefaultControlPipeID dev = Some (Some tr)" and "ring_ok tr"
  shows "case find_hid ds of
      None \<Rightarrow> InitializePhase2 L b len (pool, dev) = Some ((pool, dev), kSuccess)
    | Some (d, ds') \<Rightarrow> unat (d ! 4) \<le> length (filter is_endpoint ds') \<longrightarrow> unat (d ! 4) \<le> 16 \<longrightarrow>
      (\<exists>pool' dev' dev0 drv. InitializePhase2 L b len (pool, dev) = Some ((pool', dev'), kSuccess) \<and>
        SetConfiguration kDefaultControlPipeID (conf ! 5) dev0 = Some (dev', kSuccess) \<and>
        initialize_phase dev' = 3 \<and> drivers dev' = drivers dev @ [drv] \<and> serves drv d \<and>
        take (num_ep_configs dev') (ep_configs dev') = endpoint_configs (unat (d ! 4)) ds' \<and>
        (\<forall>e < length (class_drivers dev). class_drivers dev' ! e =
          (if e \<in> (\<lambda>c. ep_Number (ep_id c)) ` set (endpoint_configs (unat (d ! 4)) ds') then Some (length (drivers dev))
           else class_drivers dev ! e)))"
proof -
  have r: "reader_at b len 0 conf ds"
    unfolding reader_at_def using assms(1,4,5) by (intro conjI exI[of _ "[]"] exI[of _ rest]) simp_all
  have c: "DescriptorDynamicCast kConfigurationDescriptor b 0 = Some True" using reader_cast[OF r] assms(2) by simp
  have v: "rd b 5 = Some (conf ! 5)" using reader_rd[OF r, of 5] assms(3) by simp
  note l = read_interfaces_list[OF r assms(6), of dev, unfolded assms(7)]
  have none: "find_hid ds = None \<Longrightarrow> InitializePhase2 L b len (pool, dev) = Some ((pool, dev), kSuccess)"
    using l by (simp add: InitializePhase2_def c)
  have some: "\<exists>pool' dev' dev0 drv. InitializePhase2 L b len (pool, dev) = Some ((pool', dev'), kSuccess) \<and>
        SetConfiguration kDefaultControlPipeID (conf ! 5) dev0 = Some (dev', kSuccess) \<and>
        initialize_phase dev' = 3 \<and> drivers dev' = drivers dev @ [drv] \<and> serves drv d \<and>
        take (num_ep_configs dev') (ep_configs dev') = endpoint_configs (unat (d ! 4)) ds' \<and>
        (\<forall>e < length (class_drivers dev). class_drivers dev' ! e =
          (if e \<in> (\<lambda>c. ep_Number (ep_id c)) ` set (endpoint_configs (unat (d ! 4)) ds') then Some (length (drivers dev))
           else class_drivers dev ! e))"
    if f: "find_hid ds = Some (d, ds')" "unat (d ! 4) \<le> length (filter is_endpoint ds')" "unat (d ! 4) \<le> 16" for d ds'
  proof -
    let ?confs = "endpoint_configs (unat (d ! 4)) ds'"
    obtain pool' drv where drv: "serves drv d"
      "read_interfaces L b len 0 pool dev = Some (pool', with_endpoints drv ?confs dev, True)"
      using l f by blast
    define dev0 where "dev0 = (with_endpoints drv ?confs dev)\<lparr>initialize_phase := 3\<rparr>"
    have len: "length ?confs \<le> length (ep_configs dev)"
      using f assms(7) by (simp add: endpoint_configs_def)
    note w = with_endpoints_fields[OF len, where drv = drv]
    have t: "transfer_ring kDefaultControlPipeID dev0 = Some (Some tr)"
      using assms(8) unfolding transfer_ring_def by (simp add: dev0_def w split: if_splits)
    obtain dev' where dev': "SetConfiguration kDefaultControlPipeID (conf ! 5) dev0 = Some (dev', kSuccess)"
      "initialize_phase dev' = initialize_phase dev0" "drivers dev' = drivers dev0" "num_ep_configs dev' = num_ep_configs dev0"
      "ep_configs dev' = ep_configs dev0" "class_drivers dev' = class_drivers dev0"
      using SetConfiguration_ok[OF assms(9) t] by blast
    have "InitializePhase2 L b len (pool, dev) = Some ((pool', dev'), kSuccess)"
      using dev'(1) by (simp add: InitializePhase2_def c drv(2) v dev0_def)
    moreover have "initialize_phase dev' = 3" "drivers dev' = drivers dev @ [drv]"
      unfolding dev'(2,3) by (simp_all add: dev0_def w(1))
    moreover have "take (num_ep_configs dev') (ep_configs dev') = ?confs"
      unfolding dev'(4,5) using w(2,3) by (simp add: dev0_def)
    moreover have "class_drivers dev' ! e =
        (if e \<in> (\<lambda>c. ep_Number (ep_id c)) ` set ?confs then Some (length (drivers dev)) else class_drivers dev ! e)"
      if "e < length (class_drivers dev)" for e
      unfolding dev'(6) using w(8)[OF that] by (simp add: dev0_def)
    ultimately show ?thesis using dev'(1) drv(1) by blast
  qed
  show ?thesis
  proof (cases "find_hid ds")
    case None
    then show ?thesis using none by simp
  next
    case (Some x)
    then obtain d ds' where x: "find_hid ds = Some (d, ds')" by (cases x) simp
    show ?thesis unfolding x option.case prod.case using some[OF x] by blast
  qed
qed

text \<open>A keyboard as it answers: configuration, an interface that is not HID, the HID boot keyboard interface
  with its HID descriptor, and an interrupt endpoint.\<close>

definition example_descriptors :: "u8 list list" where
  "example_descriptors = [[9, 4, 0, 0, 0, 8, 6, 80, 0], [9, 4, 1, 0, 1, 3, 1, 1, 0], [9, 33, 17, 1, 0, 1, 34, 63, 0],
     [7, 5, 129, 3, 8, 0, 10]]"

definition example_configuration :: "u8 list" where
  "example_configuration = [9, 2, 43, 0, 2, 1, 0, 160, 50]"

theorem InitializePhase2_reads_configuration_witness:
  "\<exists>pool' dev' drv. InitializePhase2 example_Layout (concat (example_configuration # example_descriptors)) 43
      (new_Pool 0, example_device) = Some ((pool', dev'), kSuccess) \<and>
     drivers dev' = [drv] \<and> kind drv = HIDKeyboard \<and>
     take (num_ep_configs dev') (ep_configs dev') = [\<lparr>ep_id = 3, ep_type = kInterrupt, max_packet_size = 8, interval = 10\<rparr>] \<and>
     class_drivers dev' ! 1 = Some 0"
proof -
  let ?d = "[9, 4, 1, 0, 1, 3, 1, 1, 0] :: u8 list" and ?ds = "[[9, 33, 17, 1, 0, 1, 34, 63, 0], [7, 5, 129, 3, 8, 0, 10]] :: u8 list list"
  have wf: "\<forall>d \<in> set (example_configuration # example_descriptors). wf_descriptor d"
    by (simp add: example_configuration_def example_descriptors_def wf_descriptor_def kInterfaceDescriptor_def
        is_endpoint_def kEndpointDescriptor_def)
  have f: "find_hid example_descriptors = Some (?d, ?ds)"
    by (simp add: example_descriptors_def hid_boot_def kInterfaceDescriptor_def)
  have e: "endpoint_configs 1 ?ds = [\<lparr>ep_id = 3, ep_type = kInterrupt, max_packet_size = 8, interval = 10\<rparr>]"
    by (simp add: endpoint_configs_def is_endpoint_def kEndpointDescriptor_def ep_config_of_def endpoint_type_def
        get_field_def take_bit_eq_mod)
  have dev: "drivers example_device = []" "length (class_drivers example_device) = 16" "length (ep_configs example_device) = 16"
    "transfer_ring kDefaultControlPipeID example_device = Some (Some example_ring)" "driver_room example_Layout (new_Pool 0)"
    using example_device_ok(2)
    by (simp_all add: example_device_def new_Device_def kDefaultControlPipeID_def mk_EndpointID_def driver_room_def
        example_Layout_def new_Pool_def kMemoryPoolSize_def)
  have u: "unat (?d ! 4) = 1" by simp
  have c: "example_configuration ! 1 = kConfigurationDescriptor" "9 \<le> length example_configuration"
    by (simp_all add: example_configuration_def kConfigurationDescriptor_def)
  have b: "concat (example_configuration # example_descriptors) = concat (example_configuration # example_descriptors) @ []"
    "(43 :: int) = int (length (concat (example_configuration # example_descriptors)))"
    by (simp_all add: example_configuration_def example_descriptors_def)
  note t = InitializePhase2_reads_configuration[OF wf c b dev(5,3,4) example_device_ok(1), unfolded f option.case prod.case u e dev(1,2)]
  have l: "(1 :: nat) \<le> length (filter is_endpoint ?ds)" by (simp add: is_endpoint_def kEndpointDescriptor_def)
  obtain pool' dev' drv where r: "InitializePhase2 example_Layout (concat (example_configuration # example_descriptors)) 43
      (new_Pool 0, example_device) = Some ((pool', dev'), kSuccess)" "drivers dev' = [] @ [drv]" "serves drv ?d"
    "take (num_ep_configs dev') (ep_configs dev') = [\<lparr>ep_id = 3, ep_type = kInterrupt, max_packet_size = 8, interval = 10\<rparr>]"
    "class_drivers dev' ! 1 = (if 1 \<in> (\<lambda>c. ep_Number (ep_id c)) ` set [\<lparr>ep_id = 3, ep_type = kInterrupt, max_packet_size = 8,
       interval = 10\<rparr> :: EndpointConfig] then Some (length ([] :: ClassDriver list)) else class_drivers example_device ! 1)"
    using t l by fastforce
  have "ep_Number 3 = 1" by (simp add: ep_Number_def)
  with r show ?thesis by (intro exI[of _ pool'] exI[of _ dev'] exI[of _ drv]) (simp add: serves_def)
qed

end
