(* ===== verification/Xhci.thy ===== *)
theory Xhci
  imports UsbDevice
begin

text \<open>
  The host controller driver (\<^verbatim>\<open>kernel/usb/xhci/xhci.cpp\<close>, \<^verbatim>\<open>devmgr.cpp\<close>, \<^verbatim>\<open>port.cpp\<close>, \<^verbatim>\<open>context.hpp\<close>): the table
  of devices, the contexts that describe them to the controller, and the machine that brings every
  connected port through reset, slot assignment, addressing, start up and configuration. Ports share the
  default address until they have one of their own, so only one port at a time may be between reset and
  addressing.

  Registers that the controller writes are an input: \<open>PORTSC\<close> holds what the next read of a port returns
  and \<open>port_writes\<close> records what the driver wrote. The driver's wait for the end of a port reset only reads.
\<close>

subsection \<open>Ports\<close>

datatype ConfigPhase =
  kNotConnected | kWaitingAddressed | kResettingPort | kEnablingSlot | kAddressingDevice | kInitializingDevice
| kConfiguringEndpoints | kConfigured

definition current_connect_status :: "u32 \<Rightarrow> bool" where "current_connect_status w \<longleftrightarrow> bit w 0"
definition port_enabled_disabled :: "u32 \<Rightarrow> bool" where "port_enabled_disabled w \<longleftrightarrow> bit w 1"
definition port_reset_change :: "u32 \<Rightarrow> bool" where "port_reset_change w \<longleftrightarrow> bit w 21"
definition port_speed :: "u32 \<Rightarrow> nat" where "port_speed w = unat (get_field 10 4 w)"

subsection \<open>Contexts\<close>

record SlotContext =
  route_string :: nat
  speed :: nat
  context_entries :: nat
  root_hub_port_num :: nat

record EndpointContext =
  ec_type :: nat
  ec_max_packet_size :: nat
  ec_max_burst_size :: nat
  ec_interval :: nat
  ec_max_primary_streams :: nat
  ec_mult :: nat
  ec_error_count :: nat
  ec_dequeue_cycle_state :: nat
  ec_dequeue_pointer :: nat
  ec_average_trb_length :: nat

record InputContext =
  add_context_flags :: u32
  drop_context_flags :: u32
  in_slot :: SlotContext
  in_endpoints :: "EndpointContext list"

definition zero_SlotContext :: SlotContext where
  "zero_SlotContext = \<lparr>route_string = 0, speed = 0, context_entries = 0, root_hub_port_num = 0\<rparr>"

definition zero_EndpointContext :: EndpointContext where
  "zero_EndpointContext = \<lparr>ec_type = 0, ec_max_packet_size = 0, ec_max_burst_size = 0, ec_interval = 0,
     ec_max_primary_streams = 0, ec_mult = 0, ec_error_count = 0, ec_dequeue_cycle_state = 0, ec_dequeue_pointer = 0,
     ec_average_trb_length = 0\<rparr>"

definition zero_InputContext :: InputContext where
  "zero_InputContext = \<lparr>add_context_flags = 0, drop_context_flags = 0, in_slot = zero_SlotContext,
     in_endpoints = replicate 31 zero_EndpointContext\<rparr>"

definition EnableSlotContext :: "InputContext \<Rightarrow> InputContext" where
  "EnableSlotContext c = c\<lparr>add_context_flags := add_context_flags c OR 1\<rparr>"

definition EnableEndpoint :: "nat \<Rightarrow> InputContext \<Rightarrow> InputContext" where
  "EnableEndpoint dci c = c\<lparr>add_context_flags := add_context_flags c OR push_bit dci 1\<rparr>"

definition SetTransferRingBuffer :: "nat \<Rightarrow> EndpointContext \<Rightarrow> EndpointContext" where
  "SetTransferRingBuffer b c = c\<lparr>ec_dequeue_pointer := b div 16\<rparr>"

definition TransferRingBuffer :: "EndpointContext \<Rightarrow> nat" where
  "TransferRingBuffer c = 16 * ec_dequeue_pointer c"

subsection \<open>The controller\<close>

text \<open>
  A slot holds the device with its device context, which the controller fills in, and its input context.
\<close>

record Slot =
  usb :: UsbDevice
  ctx :: SlotContext
  input_ctx :: InputContext
  input_ctx_at :: nat
  ctx_at :: nat

record Controller =
  max_ports :: nat
  max_slots :: nat
  slots :: "Slot option list"
  device_context_pointers :: "nat list"
  cr :: Ring
  er :: EventRing
  pool :: Pool
  PORTSC :: "nat \<Rightarrow> u32"
  port_writes :: "(nat \<times> u32) list"
  command_doorbells :: nat
  port_config_phase :: "nat \<Rightarrow> ConfigPhase"
  addressing_port :: nat
  inputs :: "Input list"

definition kDeviceSize :: nat where "kDeviceSize = 8"

definition set_phase :: "nat \<Rightarrow> ConfigPhase \<Rightarrow> Controller \<Rightarrow> Controller" where
  "set_phase p ph c = c\<lparr>port_config_phase := (port_config_phase c)(p := ph)\<rparr>"

text \<open>Reading a port outside the register set is undefined.\<close>

definition read_port :: "nat \<Rightarrow> Controller \<Rightarrow> u32 option" where
  "read_port p c = (if 1 \<le> p \<and> p \<le> max_ports c then Some (PORTSC c p) else None)"

definition write_port :: "nat \<Rightarrow> u32 \<Rightarrow> Controller \<Rightarrow> Controller" where
  "write_port p w c = c\<lparr>port_writes := port_writes c @ [(p, w)]\<rparr>"

definition Port_Reset :: "nat \<Rightarrow> Controller \<Rightarrow> Controller" where
  "Port_Reset p c = write_port p ((PORTSC c p AND 0x0e00c3e0) OR 0x00020010) c"

definition ClearPortResetChange :: "nat \<Rightarrow> Controller \<Rightarrow> Controller" where
  "ClearPortResetChange p c = write_port p (set_field 21 1 1 (PORTSC c p AND 0x0e01c3e0)) c"

text \<open>A command: it is pushed on the command ring and doorbell 0 is rung.\<close>

definition issue_command :: "TRB \<Rightarrow> Controller \<Rightarrow> Controller option" where
  "issue_command t c = map_option (\<lambda>(r, p). c\<lparr>cr := r, command_doorbells := command_doorbells c + 1\<rparr>) (Push t (cr c))"

subsection \<open>The device manager\<close>

definition DeviceManager_Initialize :: "nat \<Rightarrow> Controller \<Rightarrow> Controller \<times> Error_Code" where
  "DeviceManager_Initialize n c =
     (let c0 = c\<lparr>max_slots := n\<rparr>; (p1, d) = AllocArray 8 (n + 1) 0 0 (pool c0) in
      case d of
        None \<Rightarrow> (c0\<lparr>pool := p1\<rparr>, kNoEnoughMemory)
      | Some devs \<Rightarrow>
          (let (p2, q) = AllocArray 8 (n + 1) 64 4096 p1 in
           case q of
             None \<Rightarrow> (c0\<lparr>pool := FreeMem devs p2\<rparr>, kNoEnoughMemory)
           | Some _ \<Rightarrow> (c0\<lparr>pool := p2, slots := replicate (n + 1) None, device_context_pointers := replicate (n + 1) 0\<rparr>,
                        kSuccess)))"

definition FindBySlot :: "nat \<Rightarrow> Controller \<Rightarrow> Slot option" where
  "FindBySlot slot c = (if max_slots c < slot then None else slots c ! slot)"

definition FindByPort :: "nat \<Rightarrow> Controller \<Rightarrow> Slot option" where
  "FindByPort port_num c =
     Option.bind (find (\<lambda>i. case slots c ! i of None \<Rightarrow> False | Some d \<Rightarrow> root_hub_port_num (ctx d) = port_num) [1..<max_slots c + 1])
       (\<lambda>i. slots c ! i)"

text \<open>
  \<open>offset_ctx\<close> and \<open>offset_input_ctx\<close> are where the compiler puts the contexts in a device. The constructor
  runs on a null pointer when the pool is empty.
\<close>

definition AllocDevice :: "Layout \<Rightarrow> nat \<Rightarrow> nat \<Rightarrow> nat \<Rightarrow> Controller \<Rightarrow> (Controller \<times> Error_Code) option" where
  "AllocDevice L offset_ctx offset_input_ctx slot c =
     (if max_slots c < slot then Some (c, kInvalidSlotID)
      else if slots c ! slot \<noteq> None then Some (c, kAlreadyAllocated)
      else (case AllocArray (sizeof_Device L) 1 64 4096 (pool c) of
          (p, None) \<Rightarrow> None
        | (p, Some a) \<Rightarrow>
            Some (c\<lparr>pool := p, slots := (slots c)[slot := Some \<lparr>usb = new_Device L a (of_nat slot), ctx = zero_SlotContext,
                input_ctx = zero_InputContext, input_ctx_at = a + offset_input_ctx, ctx_at = a + offset_ctx\<rparr>]\<rparr>, kSuccess)))"

definition LoadDCBAA :: "nat \<Rightarrow> Controller \<Rightarrow> (Controller \<times> Error_Code) option" where
  "LoadDCBAA slot c =
     (if max_slots c < slot then Some (c, kInvalidSlotID)
      else map_option (\<lambda>d. (c\<lparr>device_context_pointers := (device_context_pointers c)[slot := ctx_at d]\<rparr>, kSuccess)) (slots c ! slot))"

definition Remove :: "nat \<Rightarrow> Controller \<Rightarrow> Controller" where
  "Remove slot c = c\<lparr>device_context_pointers := (device_context_pointers c)[slot := 0], slots := (slots c)[slot := None]\<rparr>"

definition set_slot :: "nat \<Rightarrow> Slot \<Rightarrow> Controller \<Rightarrow> Controller" where
  "set_slot i d c = c\<lparr>slots := (slots c)[i := Some d]\<rparr>"

subsection \<open>Steps of the configuration\<close>

definition InitializeSlotContext :: "nat \<Rightarrow> u32 \<Rightarrow> SlotContext \<Rightarrow> SlotContext" where
  "InitializeSlotContext port portsc s = s\<lparr>route_string := 0, root_hub_port_num := port, context_entries := 1, speed := port_speed portsc\<rparr>"

definition DetermineMaxPacketSizeForControlPipe :: "nat \<Rightarrow> nat" where
  "DetermineMaxPacketSizeForControlPipe slot_speed = (if slot_speed = 4 then 512 else if slot_speed = 3 then 64 else 8)"

definition InitializeEP0Context :: "nat \<Rightarrow> nat \<Rightarrow> EndpointContext \<Rightarrow> EndpointContext" where
  "InitializeEP0Context ring_buffer max_packet c =
     (SetTransferRingBuffer ring_buffer (c\<lparr>ec_type := 4, ec_max_packet_size := max_packet, ec_max_burst_size := 0\<rparr>))
       \<lparr>ec_dequeue_cycle_state := 1, ec_interval := 0, ec_max_primary_streams := 0, ec_mult := 0, ec_error_count := 3\<rparr>"

definition ResetPort :: "nat \<Rightarrow> Controller \<Rightarrow> (Controller \<times> Error_Code) option" where
  "ResetPort port c =
     map_option (\<lambda>w.
       if \<not> current_connect_status w then (c, kSuccess)
       else if addressing_port c \<noteq> 0 then (set_phase port kWaitingAddressed c, kSuccess)
       else if port_config_phase c port \<noteq> kNotConnected \<and> port_config_phase c port \<noteq> kWaitingAddressed
         then (c, kInvalidPhase)
       else (Port_Reset port (set_phase port kResettingPort (c\<lparr>addressing_port := port\<rparr>)), kSuccess))
     (read_port port c)"

definition EnableSlot :: "nat \<Rightarrow> Controller \<Rightarrow> (Controller \<times> Error_Code) option" where
  "EnableSlot port c = do {
     w \<leftarrow> read_port port c;
     if port_enabled_disabled w \<and> port_reset_change w then do {
       c1 \<leftarrow> issue_command (new_trb Init_EnableSlot) (set_phase port kEnablingSlot (ClearPortResetChange port c));
       Some (c1, kSuccess) }
     else Some (c, kSuccess) }"

text \<open>A ring for an endpoint of a slot; \<open>None\<close> when there is no memory for its object (the code goes on with the null pointer).\<close>

definition slot_ring :: "Layout \<Rightarrow> nat \<Rightarrow> nat \<Rightarrow> Slot \<Rightarrow> Pool \<Rightarrow> (Pool \<times> Slot \<times> nat) option" where
  "slot_ring L dci n d p =
     (case AllocTransferRing L dci n (p, usb d) of (p1, dev) \<Rightarrow>
        map_option (\<lambda>tr. (p1, d\<lparr>usb := dev\<rparr>, buf_addr tr)) (transfer_rings dev ! (dci - 1)))"

definition AddressDevice :: "Layout \<Rightarrow> nat \<Rightarrow> nat \<Rightarrow> nat \<Rightarrow> nat \<Rightarrow> Controller \<Rightarrow> (Controller \<times> Error_Code) option" where
  "AddressDevice L offset_ctx offset_input_ctx port slot c = do {
     (c1, ignored) \<leftarrow> AllocDevice L offset_ctx offset_input_ctx slot c;
     case FindBySlot slot c1 of
       None \<Rightarrow> Some (c1, kInvalidSlotID)
     | Some d \<Rightarrow> do {
         w \<leftarrow> read_port port c1;
         let i = EnableEndpoint 1 (EnableSlotContext ((input_ctx d)\<lparr>add_context_flags := 0, drop_context_flags := 0\<rparr>));
         let slot_ctx = InitializeSlotContext port w (in_slot i);
         (p1, d1, b) \<leftarrow> slot_ring L 1 32 d (pool c1);
         let i1 = i\<lparr>in_slot := slot_ctx, in_endpoints := (in_endpoints i)[0 :=
           InitializeEP0Context b (DetermineMaxPacketSizeForControlPipe (speed slot_ctx)) (in_endpoints i ! 0)]\<rparr>;
         let c2 = set_slot slot (d1\<lparr>input_ctx := i1\<rparr>) (c1\<lparr>pool := p1\<rparr>);
         (c3, ignored) \<leftarrow> LoadDCBAA slot c2;
         c4 \<leftarrow> issue_command (new_AddressDeviceCommandTRB (of_nat (input_ctx_at d1)) (of_nat slot)) (set_phase port kAddressingDevice c3);
         Some (c4, kSuccess) } }"

definition InitializeDevice :: "nat \<Rightarrow> nat \<Rightarrow> Controller \<Rightarrow> (Controller \<times> Error_Code) option" where
  "InitializeDevice port slot c =
     (case FindBySlot slot c of
        None \<Rightarrow> Some (c, kInvalidSlotID)
      | Some d \<Rightarrow> do {
          (dev, ignored) \<leftarrow> StartInitialize (usb d);
          Some (set_slot slot (d\<lparr>usb := dev\<rparr>) (set_phase port kInitializingDevice c), kSuccess) })"

definition CompleteConfiguration :: "nat \<Rightarrow> nat \<Rightarrow> Controller \<Rightarrow> (Controller \<times> Error_Code) option" where
  "CompleteConfiguration port slot c =
     (case FindBySlot slot c of
        None \<Rightarrow> Some (c, kInvalidSlotID)
      | Some d \<Rightarrow> do {
          (dev, ignored) \<leftarrow> OnEndpointsConfigured (usb d);
          Some (set_phase port kConfigured (set_slot slot (d\<lparr>usb := dev\<rparr>) c), kSuccess) })"

subsection \<open>Configuring endpoints\<close>

definition kFullSpeed :: nat where "kFullSpeed = 1"
definition kLowSpeed :: nat where "kLowSpeed = 2"
definition kSuperSpeedPlus :: nat where "kSuperSpeedPlus = 5"

text \<open>The instruction \<open>bsr\<close>: the position of the highest bit that is set.\<close>

fun bsr :: "nat \<Rightarrow> nat" where
  "bsr v = (if v < 2 then 0 else Suc (bsr (v div 2)))"

declare bsr.simps [simp del]

definition MostSignificantBit :: "nat \<Rightarrow> int" where
  "MostSignificantBit v = (if v = 0 then -1 else int (bsr v))"

text \<open>The value is stored in a field of eight bits.\<close>

definition convert_interval :: "nat \<Rightarrow> EndpointType \<Rightarrow> nat \<Rightarrow> nat" where
  "convert_interval port_sp type iv =
     nat ((if port_sp = kFullSpeed \<or> port_sp = kLowSpeed
           then (if type = kIsochronous then int iv + 2 else MostSignificantBit iv + 3)
           else int iv - 1) mod 256)"

definition endpoint_context_type :: "EndpointConfig \<Rightarrow> nat" where
  "endpoint_context_type conf =
     (case ep_type conf of
        kControl \<Rightarrow> 4
      | kIsochronous \<Rightarrow> (if IsIn (ep_id conf) then 5 else 1)
      | kBulk \<Rightarrow> (if IsIn (ep_id conf) then 6 else 2)
      | kInterrupt \<Rightarrow> (if IsIn (ep_id conf) then 7 else 3))"

definition configure_endpoint :: "Layout \<Rightarrow> nat \<Rightarrow> EndpointConfig \<Rightarrow> Pool \<times> Slot \<Rightarrow> (Pool \<times> Slot) option" where
  "configure_endpoint L port_sp conf s =
     (let (p, d) = s; dci = ep_id conf; i = EnableEndpoint dci (input_ctx d) in
      if dci = 0 \<or> 31 < dci then None
      else do {
        let ec = (in_endpoints i ! (dci - 1))\<lparr>ec_type := endpoint_context_type conf,
          ec_max_packet_size := max_packet_size conf mod 2 ^ 16,
          ec_interval := convert_interval port_sp (ep_type conf) (interval conf), ec_average_trb_length := 1\<rparr>;
        (p1, d1, b) \<leftarrow> slot_ring L dci 32 d p;
        let ec1 = (SetTransferRingBuffer b ec)\<lparr>ec_dequeue_cycle_state := 1, ec_max_primary_streams := 0, ec_mult := 0,
          ec_error_count := 3\<rparr>;
        Some (p1, d1\<lparr>input_ctx := i\<lparr>in_endpoints := (in_endpoints i)[dci - 1 := ec1]\<rparr>\<rparr>) })"

fun configure_endpoints :: "Layout \<Rightarrow> nat \<Rightarrow> EndpointConfig list \<Rightarrow> Pool \<times> Slot \<Rightarrow> (Pool \<times> Slot) option" where
  "configure_endpoints L port_sp [] s = Some s"
| "configure_endpoints L port_sp (conf # confs) s =
     Option.bind (configure_endpoint L port_sp conf s) (configure_endpoints L port_sp confs)"

definition ConfigureEndpoints :: "Layout \<Rightarrow> nat \<Rightarrow> Controller \<Rightarrow> (Controller \<times> Error_Code) option" where
  "ConfigureEndpoints L slot c = do {
     d \<leftarrow> FindBySlot slot c;
     let i = EnableSlotContext ((input_ctx d)\<lparr>add_context_flags := 0, drop_context_flags := 0, in_slot := ctx d\<rparr>);
     let d1 = d\<lparr>input_ctx := i\<lparr>in_slot := (in_slot i)\<lparr>context_entries := 31\<rparr>\<rparr>\<rparr>;
     let port = root_hub_port_num (ctx d);
     w \<leftarrow> read_port port c;
     let port_sp = port_speed w;
     if port_sp = 0 \<or> kSuperSpeedPlus < port_sp then Some (set_slot slot d1 c, kUnknownXHCISpeedID)
     else do {
       (p, d2) \<leftarrow> configure_endpoints L port_sp (take (num_ep_configs (usb d)) (ep_configs (usb d))) (pool c, d1);
       c1 \<leftarrow> issue_command (new_ConfigureEndpointCommandTRB (of_nat (input_ctx_at d2)) (slot_id (usb d2)))
         (set_phase port kConfiguringEndpoints (set_slot slot d2 (c\<lparr>pool := p\<rparr>)));
       Some (c1, kSuccess) } }"

definition ConfigurePort :: "nat \<Rightarrow> Controller \<Rightarrow> (Controller \<times> Error_Code) option" where
  "ConfigurePort port c = (if port_config_phase c port = kNotConnected then ResetPort port c else Some (c, kSuccess))"

subsection \<open>Events\<close>

definition OnPortStatusChange :: "TRB \<Rightarrow> Controller \<Rightarrow> (Controller \<times> Error_Code) option" where
  "OnPortStatusChange trb c =
     (let port = unat (port_id trb) in
      case port_config_phase c port of
        kNotConnected \<Rightarrow> ResetPort port c
      | kResettingPort \<Rightarrow> EnableSlot port c
      | _ \<Rightarrow> Some (c, kInvalidPhase))"

definition OnTransfer :: "Layout \<Rightarrow> TRB \<Rightarrow> Controller \<Rightarrow> (Controller \<times> Error_Code) option" where
  "OnTransfer L trb c =
     (let slot = unat (trb_slot_id trb) in
      case FindBySlot slot c of
        None \<Rightarrow> Some (c, kInvalidSlotID)
      | Some d \<Rightarrow> do {
          ((p, dev), ins, err) \<leftarrow> OnTransferEventReceived L trb (pool c, usb d);
          let c1 = (set_slot slot (d\<lparr>usb := dev\<rparr>) c)\<lparr>pool := p, inputs := inputs c @ ins\<rparr>;
          if is_error err then Some (c1, err)
          else if is_initialized dev \<and> port_config_phase c1 (root_hub_port_num (ctx d)) = kInitializingDevice
          then ConfigureEndpoints L slot c1
          else Some (c1, kSuccess) })"

text \<open>The next port that waits, in the order of the port numbers.\<close>

definition reset_waiting :: "Controller \<Rightarrow> (Controller \<times> Error_Code) option" where
  "reset_waiting c =
     (case find (\<lambda>i. port_config_phase c i = kWaitingAddressed) [0..<256] of
        None \<Rightarrow> Some (c, kSuccess)
      | Some i \<Rightarrow> ResetPort i c)"

definition OnCommandCompletion :: "Layout \<Rightarrow> nat \<Rightarrow> nat \<Rightarrow> TRB \<Rightarrow> Controller \<Rightarrow> (Controller \<times> Error_Code) option" where
  "OnCommandCompletion L offset_ctx offset_input_ctx trb c = do {
     issuer \<leftarrow> ring_block (cr c) (unat (pointer60 trb));
     let issuer_type = trb_type issuer;
     let slot = unat (trb_slot_id trb);
     if issuer_type = Type EnableSlotCommandTRB then
       (if port_config_phase c (addressing_port c) \<noteq> kEnablingSlot then Some (c, kInvalidPhase)
        else AddressDevice L offset_ctx offset_input_ctx (addressing_port c) slot c)
     else if issuer_type = Type AddressDeviceCommandTRB then
       (case FindBySlot slot c of
          None \<Rightarrow> Some (c, kInvalidSlotID)
        | Some d \<Rightarrow>
            (let port = root_hub_port_num (ctx d) in
             if port \<noteq> addressing_port c then Some (c, kInvalidPhase)
             else if port_config_phase c port \<noteq> kAddressingDevice then Some (c, kInvalidPhase)
             else do {
               (c1, err) \<leftarrow> reset_waiting (c\<lparr>addressing_port := 0\<rparr>);
               if is_error err then Some (c1, err) else InitializeDevice port slot c1 }))
     else if issuer_type = Type ConfigureEndpointCommandTRB then
       (case FindBySlot slot c of
          None \<Rightarrow> Some (c, kInvalidSlotID)
        | Some d \<Rightarrow>
            (let port = root_hub_port_num (ctx d) in
             if port_config_phase c port \<noteq> kConfiguringEndpoints then Some (c, kInvalidPhase)
             else CompleteConfiguration port slot c))
     else Some (c, kInvalidPhase) }"

definition dispatch_event :: "Layout \<Rightarrow> nat \<Rightarrow> nat \<Rightarrow> TRB \<Rightarrow> Controller \<Rightarrow> (Controller \<times> Error_Code) option" where
  "dispatch_event L offset_ctx offset_input_ctx trb c =
     (if trb_type trb = Type TransferEventTRB then OnTransfer L trb c
      else if trb_type trb = Type PortStatusChangeEventTRB then OnPortStatusChange trb c
      else if trb_type trb = Type CommandCompletionEventTRB
      then OnCommandCompletion L offset_ctx offset_input_ctx trb c
      else Some (c, kNotImplemented))"

definition ProcessEvent :: "Layout \<Rightarrow> nat \<Rightarrow> nat \<Rightarrow> Controller \<Rightarrow> (Controller \<times> Error_Code) option" where
  "ProcessEvent L offset_ctx offset_input_ctx c = do {
     present \<leftarrow> HasFront (er c);
     if \<not> present then Some (c, kSuccess)
     else do {
       trb \<leftarrow> Front (er c);
       (c1, err) \<leftarrow> dispatch_event L offset_ctx offset_input_ctx trb c;
       Some (c1\<lparr>er := Pop (er c1)\<rparr>, err) } }"

text \<open>\<open>ProcessEvents\<close> goes on while there are events; errors are only logged.\<close>

partial_function (option) ProcessEvents :: "Layout \<Rightarrow> nat \<Rightarrow> nat \<Rightarrow> Controller \<Rightarrow> Controller option" where
  "ProcessEvents L offset_ctx offset_input_ctx c = do {
     present \<leftarrow> HasFront (er c);
     if \<not> present then Some c
     else Option.bind (ProcessEvent L offset_ctx offset_input_ctx c) (\<lambda>r. ProcessEvents L offset_ctx offset_input_ctx (fst r)) }"

subsection \<open>The machine of the ports\<close>

text \<open>
  What can happen to the driver: an event is processed, a port is configured at start-up, or the
  controller changes registers, rings, contexts and buffers. The last step leaves only the driver's own
  variables of the configuration alone.
\<close>

inductive xhc_step :: "Layout \<Rightarrow> nat \<Rightarrow> nat \<Rightarrow> Controller \<Rightarrow> Controller \<Rightarrow> bool" for L offset_ctx offset_input_ctx where
  event: "ProcessEvent L offset_ctx offset_input_ctx c = Some (c', err) \<Longrightarrow> xhc_step L offset_ctx offset_input_ctx c c'"
| configure: "ConfigurePort port c = Some (c', err) \<Longrightarrow> xhc_step L offset_ctx offset_input_ctx c c'"
| hardware: "port_config_phase c' = port_config_phase c \<Longrightarrow> addressing_port c' = addressing_port c \<Longrightarrow>
    max_ports c' = max_ports c \<Longrightarrow> xhc_step L offset_ctx offset_input_ctx c c'"

inductive_cases xhc_stepE: "xhc_step L offset_ctx offset_input_ctx c c'"

definition busy :: "ConfigPhase \<Rightarrow> bool" where
  "busy ph \<longleftrightarrow> ph \<in> {kResettingPort, kEnablingSlot, kAddressingDevice}"

definition ports_inv :: "Controller \<Rightarrow> bool" where
  "ports_inv c \<longleftrightarrow> (\<forall>p. busy (port_config_phase c p) \<longleftrightarrow> p = addressing_port c \<and> p \<noteq> 0) \<and>
     (\<forall>p. port_config_phase c p \<noteq> kNotConnected \<longrightarrow> 1 \<le> p \<and> p \<le> max_ports c)"

text \<open>The edges of the configuration of one port.\<close>

fun next_phase :: "ConfigPhase \<Rightarrow> ConfigPhase set" where
  "next_phase kNotConnected = {kWaitingAddressed, kResettingPort}"
| "next_phase kWaitingAddressed = {kResettingPort}"
| "next_phase kResettingPort = {kEnablingSlot}"
| "next_phase kEnablingSlot = {kAddressingDevice}"
| "next_phase kAddressingDevice = {kInitializingDevice}"
| "next_phase kInitializingDevice = {kConfiguringEndpoints}"
| "next_phase kConfiguringEndpoints = {kConfigured}"
| "next_phase kConfigured = {}"

definition moves :: "Controller \<Rightarrow> Controller \<Rightarrow> bool" where
  "moves c c' \<longleftrightarrow> ports_inv c' \<and> max_ports c' = max_ports c \<and>
     (\<forall>p. port_config_phase c' p = port_config_phase c p \<or> port_config_phase c' p \<in> next_phase (port_config_phase c p))"

named_theorems phase_frame \<open>what leaves the configuration variables alone\<close>

definition same_phases :: "Controller \<Rightarrow> Controller \<Rightarrow> bool" where
  "same_phases c c' \<longleftrightarrow> port_config_phase c' = port_config_phase c \<and> addressing_port c' = addressing_port c \<and>
     max_ports c' = max_ports c"

lemma moves_same: "ports_inv c \<Longrightarrow> same_phases c c' \<Longrightarrow> moves c c'"
  by (simp add: moves_def same_phases_def ports_inv_def)

lemma moves_cong: "moves c d \<Longrightarrow> same_phases d c' \<Longrightarrow> moves c c'"
  by (auto simp: moves_def same_phases_def ports_inv_def)

text \<open>One port takes one step and stays in the same part of the machine.\<close>

lemma moves_set_phase:
  assumes "ports_inv c" and "ph \<in> next_phase (port_config_phase c p)" and "1 \<le> p" and "p \<le> max_ports c"
    and "busy ph \<longleftrightarrow> busy (port_config_phase c p)"
  shows "moves c (set_phase p ph c)"
  using assms unfolding moves_def ports_inv_def set_phase_def by auto

lemma issue_command_frame: "issue_command t c = Some c' \<Longrightarrow> same_phases c c'"
  by (auto simp: issue_command_def same_phases_def)

lemma ResetPort_moves:
  assumes "ports_inv c" and "port_config_phase c port \<in> {kNotConnected, kWaitingAddressed}" and "ResetPort port c = Some (c', err)"
    and "addressing_port c = 0 \<or> port_config_phase c port = kNotConnected"
  shows "moves c c' \<and> \<not> is_error err"
proof -
  obtain w where w: "read_port port c = Some w" using assms(3) by (auto simp: ResetPort_def)
  then have p: "1 \<le> port" "port \<le> max_ports c" by (auto simp: read_port_def split: if_splits)
  show ?thesis
  proof (cases "current_connect_status w")
    case False
    then show ?thesis using assms(1,3) w by (simp add: ResetPort_def moves_same same_phases_def)
  next
    case conn: True
    show ?thesis
    proof (cases "addressing_port c = 0")
      case False
      then have "c' = set_phase port kWaitingAddressed c" "err = kSuccess" using assms(3) w conn by (auto simp: ResetPort_def)
      then show ?thesis using False assms p by (auto intro!: moves_set_phase simp: busy_def)
    next
      case True
      then have "c' = Port_Reset port (set_phase port kResettingPort (c\<lparr>addressing_port := port\<rparr>))" "err = kSuccess"
        using assms(2,3) w conn by (auto simp: ResetPort_def)
      moreover have "\<not> busy (port_config_phase c q)" for q using assms(1) True by (auto simp: ports_inv_def)
      ultimately show ?thesis
        using assms(1,2) p by (auto simp: moves_def ports_inv_def Port_Reset_def write_port_def set_phase_def busy_def)
    qed
  qed
qed

lemma EnableSlot_moves:
  assumes "ports_inv c" and "port_config_phase c port = kResettingPort" and "EnableSlot port c = Some (c', err)"
  shows "moves c c'"
proof -
  obtain w where w: "read_port port c = Some w" using assms(3) by (auto simp: EnableSlot_def bind_eq_Some_conv)
  show ?thesis
  proof (cases "port_enabled_disabled w \<and> port_reset_change w")
    case False
    then show ?thesis using assms(1,3) w by (auto simp: EnableSlot_def moves_same same_phases_def)
  next
    case True
    let ?c = "set_phase port kEnablingSlot (ClearPortResetChange port c)"
    obtain c1 where "issue_command (new_trb Init_EnableSlot) ?c = Some c1" "c' = c1"
      using assms(3) w True by (auto simp: EnableSlot_def bind_eq_Some_conv)
    moreover have "moves c ?c"
      using assms w
      by (auto simp: moves_def ports_inv_def set_phase_def ClearPortResetChange_def write_port_def busy_def read_port_def
          split: if_splits)
    ultimately show ?thesis using moves_cong issue_command_frame by blast
  qed
qed

lemma AllocDevice_frame: "AllocDevice L a b slot c = Some (c', err) \<Longrightarrow> same_phases c c'"
  by (auto simp: AllocDevice_def same_phases_def split: if_splits prod.splits option.splits)

lemma LoadDCBAA_frame: "LoadDCBAA slot c = Some (c', err) \<Longrightarrow> same_phases c c'"
  by (auto simp: LoadDCBAA_def same_phases_def split: if_splits)

lemma AddressDevice_moves:
  assumes "ports_inv c" and "port_config_phase c port = kEnablingSlot" and "AddressDevice L a b port slot c = Some (c', err)"
  shows "moves c c'"
proof -
  obtain c1 e1 where 1: "AllocDevice L a b slot c = Some (c1, e1)"
    using assms(3) by (auto simp: AddressDevice_def bind_eq_Some_conv)
  note f1 = AllocDevice_frame[OF 1]
  show ?thesis
  proof (cases "FindBySlot slot c1")
    case None
    then show ?thesis using assms(1,3) 1 f1 by (auto simp: AddressDevice_def moves_same)
  next
    case (Some d)
    obtain c2 p1 s c3 e3 t where s: "c2 = set_slot slot s (c1\<lparr>pool := p1\<rparr>)" "LoadDCBAA slot c2 = Some (c3, e3)"
      "issue_command t (set_phase port kAddressingDevice c3) = Some c'"
      using assms(3) 1 Some by (auto simp: AddressDevice_def bind_eq_Some_conv Let_def)
    have f3: "same_phases c c3"
      using f1 LoadDCBAA_frame[OF s(2)] by (auto simp: same_phases_def s(1) set_slot_def)
    then have i3: "ports_inv c3" using assms(1) by (simp add: ports_inv_def same_phases_def)
    have "1 \<le> port" "port \<le> max_ports c3" using i3 f3 assms(2) by (auto simp: ports_inv_def same_phases_def)
    then have "moves c3 (set_phase port kAddressingDevice c3)"
      using i3 f3 assms(2) by (intro moves_set_phase) (auto simp: same_phases_def busy_def)
    then have "moves c (set_phase port kAddressingDevice c3)" using f3 by (simp add: moves_def same_phases_def)
    then show ?thesis using moves_cong issue_command_frame[OF s(3)] by blast
  qed
qed

lemma InitializeDevice_phases:
  assumes "InitializeDevice port slot c = Some (c', err)" and "FindBySlot slot c \<noteq> None"
  shows "same_phases (set_phase port kInitializingDevice c) c'"
  using assms by (auto simp: InitializeDevice_def same_phases_def set_slot_def set_phase_def bind_eq_Some_conv)

lemma CompleteConfiguration_moves:
  assumes "ports_inv c" and "port_config_phase c port = kConfiguringEndpoints" and "CompleteConfiguration port slot c = Some (c', err)"
  shows "moves c c'"
proof (cases "FindBySlot slot c")
  case None
  then show ?thesis using assms by (auto simp: CompleteConfiguration_def moves_same same_phases_def)
next
  case (Some d)
  then have "same_phases (set_phase port kConfigured c) c'"
    using assms(3) by (auto simp: CompleteConfiguration_def same_phases_def set_slot_def set_phase_def bind_eq_Some_conv)
  moreover have "moves c (set_phase port kConfigured c)"
    using assms(1,2) by (intro moves_set_phase) (auto simp: ports_inv_def busy_def)
  ultimately show ?thesis by (rule moves_cong[rotated])
qed

lemma ConfigureEndpoints_moves:
  assumes "ports_inv c" and "FindBySlot slot c = Some d" and "port_config_phase c (root_hub_port_num (ctx d)) = kInitializingDevice"
    and "ConfigureEndpoints L slot c = Some (c', err)"
  shows "moves c c'"
proof -
  let ?port = "root_hub_port_num (ctx d)"
  obtain w where w: "read_port ?port c = Some w"
    using assms(2,4) by (auto simp: ConfigureEndpoints_def bind_eq_Some_conv Let_def)
  show ?thesis
  proof (cases "port_speed w = 0 \<or> kSuperSpeedPlus < port_speed w")
    case True
    then have "same_phases c c'"
      using assms(2,4) w by (auto simp: ConfigureEndpoints_def Let_def same_phases_def set_slot_def)
    then show ?thesis using assms(1) by (rule moves_same[rotated])
  next
    case False
    then obtain t s p c1 where c1: "issue_command t c1 = Some c'" "c1 = set_phase ?port kConfiguringEndpoints (set_slot slot s (c\<lparr>pool := p\<rparr>))"
      using assms(2,4) w by (auto simp: ConfigureEndpoints_def Let_def bind_eq_Some_conv)
    then have "same_phases (set_phase ?port kConfiguringEndpoints c) c'"
      using issue_command_frame[OF c1(1)] by (simp add: same_phases_def set_phase_def set_slot_def)
    moreover have "moves c (set_phase ?port kConfiguringEndpoints c)"
      using assms(1,3) by (intro moves_set_phase) (auto simp: ports_inv_def busy_def)
    ultimately show ?thesis by (rule moves_cong[rotated])
  qed
qed

lemma slots_upd: "FindBySlot slot c = Some d \<Longrightarrow> slot < length (slots c) \<Longrightarrow> FindBySlot slot ((set_slot slot e c)\<lparr>pool := p, inputs := ins\<rparr>) = Some e"
  by (auto simp: FindBySlot_def set_slot_def split: if_splits)

lemma reset_waiting_phases:
  assumes "ports_inv c" and "addressing_port c = port" and "port_config_phase c port = kAddressingDevice"
    and "reset_waiting (c\<lparr>addressing_port := 0\<rparr>) = Some (c1, err)"
  shows "\<not> is_error err" "moves c (set_phase port kInitializingDevice c1)" "slots c1 = slots c" "max_slots c1 = max_slots c"
proof -
  have port: "1 \<le> port" "port \<le> max_ports c" using assms(1,3) by (auto simp: ports_inv_def)
  let ?d = "set_phase port kInitializingDevice (c\<lparr>addressing_port := 0\<rparr>)"
  have d: "moves c ?d" using assms(1-3) port by (auto simp: moves_def ports_inv_def set_phase_def busy_def)
  then have i: "ports_inv ?d" by (simp add: moves_def)
  consider (none) "c1 = c\<lparr>addressing_port := 0\<rparr>" "err = kSuccess"
    | (port) q where "port_config_phase c q = kWaitingAddressed" "ResetPort q (c\<lparr>addressing_port := 0\<rparr>) = Some (c1, err)"
    using assms(4) by (auto simp: reset_waiting_def find_Some_iff split: option.splits)
  then have "\<not> is_error err \<and> moves c (set_phase port kInitializingDevice c1) \<and> slots c1 = slots c \<and> max_slots c1 = max_slots c"
  proof cases
    case none
    then show ?thesis using d by simp
  next
    case (port q)
    then have q: "q \<noteq> port" using assms(3) by auto
    have "ResetPort q ?d = Some (set_phase port kInitializingDevice c1, err)"
      using port q
      by (auto simp: ResetPort_def read_port_def set_phase_def Port_Reset_def write_port_def fun_upd_twist split: if_splits)
    moreover have w: "port_config_phase ?d q = kWaitingAddressed" using port(1) q by (simp add: set_phase_def)
    ultimately have m: "moves ?d (set_phase port kInitializingDevice c1) \<and> \<not> is_error err"
      using ResetPort_moves[OF i, of q] by (simp add: set_phase_def)
    have "port_config_phase (set_phase port kInitializingDevice c1) p = port_config_phase c p \<or>
        port_config_phase (set_phase port kInitializingDevice c1) p \<in> next_phase (port_config_phase c p)" for p
    proof -
      have "port_config_phase (set_phase port kInitializingDevice c1) p = port_config_phase ?d p \<or>
          port_config_phase (set_phase port kInitializingDevice c1) p \<in> next_phase (port_config_phase ?d p)"
        using m unfolding moves_def by blast
      then show ?thesis using assms(3) by (cases "p = port") (auto simp: set_phase_def)
    qed
    then have "moves c (set_phase port kInitializingDevice c1)" using m by (simp add: moves_def set_phase_def)
    moreover have "slots c1 = slots c \<and> max_slots c1 = max_slots c"
      using port(2) by (auto simp: ResetPort_def set_phase_def Port_Reset_def write_port_def split: if_splits)
    ultimately show ?thesis using m by simp
  qed
  then show "\<not> is_error err" "moves c (set_phase port kInitializingDevice c1)" "slots c1 = slots c" "max_slots c1 = max_slots c"
    by simp_all
qed

lemma OnCommandCompletion_moves:
  assumes "ports_inv c" and "OnCommandCompletion L a b trb c = Some (c', err)"
  shows "moves c c'"
proof -
  let ?slot = "unat (trb_slot_id trb)"
  obtain t where t: "ring_block (cr c) (unat (pointer60 trb)) = Some t"
    using assms(2) by (auto simp: OnCommandCompletion_def bind_eq_Some_conv)
  have same: "moves c c" using assms(1) by (simp add: moves_same same_phases_def)
  consider (enable) "trb_type t = Type EnableSlotCommandTRB" | (address) "trb_type t = Type AddressDeviceCommandTRB"
    | (conf) "trb_type t = Type ConfigureEndpointCommandTRB"
    | (other) "trb_type t \<noteq> Type EnableSlotCommandTRB" "trb_type t \<noteq> Type AddressDeviceCommandTRB" "trb_type t \<noteq> Type ConfigureEndpointCommandTRB"
    by blast
  then show ?thesis
  proof cases
    case enable
    then show ?thesis
      using assms t same AddressDevice_moves[OF assms(1)]
      by (auto simp: OnCommandCompletion_def split: if_splits)
  next
    case other
    then show ?thesis using assms t same by (auto simp: OnCommandCompletion_def)
  next
    case conf
    then show ?thesis
      using assms t same CompleteConfiguration_moves[OF assms(1)]
      by (auto simp: OnCommandCompletion_def Let_def split: if_splits option.splits)
  next
    case address
    show ?thesis
    proof (cases "\<exists>d. FindBySlot ?slot c = Some d \<and> root_hub_port_num (ctx d) = addressing_port c \<and>
        port_config_phase c (addressing_port c) = kAddressingDevice")
      case False
      then show ?thesis
        using assms t same address by (auto simp: OnCommandCompletion_def Let_def split: if_splits option.splits)
    next
      case True
      then obtain d where d: "FindBySlot ?slot c = Some d" "root_hub_port_num (ctx d) = addressing_port c"
        "port_config_phase c (addressing_port c) = kAddressingDevice" by blast
      then obtain c1 e1 where 1: "reset_waiting (c\<lparr>addressing_port := 0\<rparr>) = Some (c1, e1)"
        and 2: "(if is_error e1 then Some (c1, e1) else InitializeDevice (addressing_port c) ?slot c1) = Some (c', err)"
        using assms(2) t address by (auto simp: OnCommandCompletion_def Let_def bind_eq_Some_conv)
      note r = reset_waiting_phases[OF assms(1) refl d(3) 1]
      have "FindBySlot ?slot c1 \<noteq> None" using d(1) r(3,4) by (simp add: FindBySlot_def split: if_splits)
      moreover have "InitializeDevice (addressing_port c) ?slot c1 = Some (c', err)" using 2 r(1) by simp
      ultimately show ?thesis using InitializeDevice_phases r(2) moves_cong by blast
    qed
  qed
qed

lemma OnTransfer_moves:
  assumes "ports_inv c" and "OnTransfer L trb c = Some (c', err)"
  shows "moves c c'"
proof (cases "FindBySlot (unat (trb_slot_id trb)) c")
  case None
  then show ?thesis using assms by (auto simp: OnTransfer_def moves_same same_phases_def)
next
  case (Some d)
  let ?slot = "unat (trb_slot_id trb)"
  obtain p dev ins e where o: "OnTransferEventReceived L trb (pool c, usb d) = Some ((p, dev), ins, e)"
    using assms(2) Some by (auto simp: OnTransfer_def Let_def bind_eq_Some_conv)
  define c1 where "c1 = (set_slot ?slot (d\<lparr>usb := dev\<rparr>) c)\<lparr>pool := p, inputs := inputs c @ ins\<rparr>"
  have s: "same_phases c c1" by (simp add: c1_def same_phases_def set_slot_def)
  have i: "ports_inv c1" using assms(1) s by (simp add: ports_inv_def same_phases_def)
  have r: "(if is_error e then Some (c1, e)
      else if is_initialized dev \<and> port_config_phase c1 (root_hub_port_num (ctx d)) = kInitializingDevice
      then ConfigureEndpoints L ?slot c1 else Some (c1, kSuccess)) = Some (c', err)"
    using assms(2) by (simp only: OnTransfer_def Let_def Some option.case o Option.bind.bind_lunit prod.case c1_def)
  show ?thesis
  proof (cases "\<not> is_error e \<and> is_initialized dev \<and> port_config_phase c1 (root_hub_port_num (ctx d)) = kInitializingDevice")
    case True
    then have ce: "ConfigureEndpoints L ?slot c1 = Some (c', err)" using r by simp
    then obtain d1 where d1: "FindBySlot ?slot c1 = Some d1" by (auto simp: ConfigureEndpoints_def bind_eq_Some_conv)
    have "ctx d1 = ctx d"
      using d1 Some by (cases "?slot < length (slots c)") (auto simp: FindBySlot_def c1_def set_slot_def list_update_beyond split: if_splits)
    then have "moves c1 c'" using ConfigureEndpoints_moves[OF i d1 _ ce] True by simp
    then show ?thesis using s by (simp add: moves_def same_phases_def)
  next
    case False
    then have "c' = c1" using r by (auto split: if_splits)
    then show ?thesis using moves_same[OF assms(1) s] by simp
  qed
qed

lemma ConfigurePort_moves:
  assumes "ports_inv c" and "ConfigurePort port c = Some (c', err)"
  shows "moves c c'"
proof (cases "port_config_phase c port = kNotConnected")
  case True
  then show ?thesis using ResetPort_moves[OF assms(1), of port c' err] assms(2) by (simp add: ConfigurePort_def)
next
  case False
  then show ?thesis using assms by (simp add: ConfigurePort_def moves_same same_phases_def)
qed

lemma OnPortStatusChange_moves:
  assumes "ports_inv c" and "OnPortStatusChange trb c = Some (c', err)"
  shows "moves c c'"
proof -
  let ?port = "unat (port_id trb)"
  consider (reset) "port_config_phase c ?port = kNotConnected" | (enable) "port_config_phase c ?port = kResettingPort"
    | (other) "c' = c"
    using assms(2) by (cases "port_config_phase c ?port") (simp_all add: OnPortStatusChange_def)
  then show ?thesis
  proof cases
    case reset
    then show ?thesis using ResetPort_moves[OF assms(1), of ?port c' err] assms(2) by (simp add: OnPortStatusChange_def)
  next
    case enable
    then show ?thesis using EnableSlot_moves[OF assms(1) enable] assms(2) by (simp add: OnPortStatusChange_def)
  next
    case other
    then show ?thesis using assms(1) by (simp add: moves_same same_phases_def)
  qed
qed

lemma ProcessEvent_moves:
  assumes "ports_inv c" and "ProcessEvent L a b c = Some (c', err)"
  shows "moves c c'"
proof -
  have pop: "same_phases d (d\<lparr>er := Pop (er d)\<rparr>)" for d by (simp add: same_phases_def)
  consider (none) "c' = c" | (event) trb c1 e1 where "c' = c1\<lparr>er := Pop (er c1)\<rparr>"
    "dispatch_event L a b trb c = Some (c1, e1)"
    using assms(2) by (auto simp: ProcessEvent_def bind_eq_Some_conv split: if_splits)
  then show ?thesis
  proof cases
    case none
    then show ?thesis using assms(1) by (simp add: moves_same same_phases_def)
  next
    case event
    consider "OnTransfer L trb c = Some (c1, e1)" | "OnPortStatusChange trb c = Some (c1, e1)"
      | "OnCommandCompletion L a b trb c = Some (c1, e1)" | "c1 = c"
      using event(2) by (auto simp: dispatch_event_def simp del: Type.simps split: if_splits)
    then have "moves c c1"
    proof cases
      case 4
      then show ?thesis using assms(1) by (simp add: moves_same same_phases_def)
    qed (use assms(1) in \<open>blast intro: OnTransfer_moves OnPortStatusChange_moves OnCommandCompletion_moves\<close>)+
    then show ?thesis unfolding event(1) using pop moves_cong by blast
  qed
qed

lemma xhc_step_moves: "xhc_step L a b c c' \<Longrightarrow> ports_inv c \<Longrightarrow> moves c c'"
  by (erule xhc_stepE) (blast intro: ProcessEvent_moves, blast intro: ConfigurePort_moves, simp add: moves_same same_phases_def)

text \<open>The driver starts with no port configured.\<close>

definition fresh_ports :: "Controller \<Rightarrow> bool" where
  "fresh_ports c \<longleftrightarrow> addressing_port c = 0 \<and> (\<forall>p. port_config_phase c p = kNotConnected)"

lemma reachable_inv: "(xhc_step L a b)\<^sup>*\<^sup>* c0 c \<Longrightarrow> fresh_ports c0 \<Longrightarrow> ports_inv c"
proof (induction rule: rtranclp_induct)
  case base
  then show ?case by (auto simp: fresh_ports_def ports_inv_def busy_def)
next
  case (step c d)
  then show ?case using xhc_step_moves[OF step.hyps(2)] unfolding moves_def by blast
qed

text \<open>C28: Never more than one USB port answers to the default address: in every state that the driver can
  reach, whatever events the controller sends, in whatever order and with whatever contents, whatever its
  registers and memory show, the only port that may be between its reset and its addressing is the one the
  driver remembers in \<open>addressing_port\<close>, which is 0 exactly when there is none, and no port outside the
  register set is ever configured.\<close>

theorem one_port_is_addressed:
  assumes "fresh_ports c0" and "(xhc_step L a b)\<^sup>*\<^sup>* c0 c"
  shows "(\<forall>p. port_config_phase c p \<in> {kResettingPort, kEnablingSlot, kAddressingDevice} \<longleftrightarrow>
      p = addressing_port c \<and> addressing_port c \<noteq> 0) \<and>
    (\<forall>p. port_config_phase c p \<noteq> kNotConnected \<longrightarrow> 1 \<le> p \<and> p \<le> max_ports c)"
  using reachable_inv[OF assms(2,1)] unfolding ports_inv_def busy_def by metis

text \<open>C29: A port is configured in the prescribed order: whatever the driver processes from a state it can
  reach, every port stays in its phase or takes one edge of the machine (waiting or reset, enabling of a
  slot, addressing, start up, configuration of its endpoints, configured), never back and never past a
  phase.\<close>

theorem port_phases_in_order:
  assumes "fresh_ports c0" and "(xhc_step L a b)\<^sup>*\<^sup>* c0 c" and "xhc_step L a b c c'"
  shows "port_config_phase c' p = port_config_phase c p \<or> port_config_phase c' p \<in> next_phase (port_config_phase c p)"
  using xhc_step_moves[OF assms(3) reachable_inv[OF assms(2,1)]] unfolding moves_def by blast

text \<open>A controller with one port, to which a device is connected.\<close>

definition example_controller :: Controller where
  "example_controller = \<lparr>max_ports = 1, max_slots = 8, slots = replicate 9 None, device_context_pointers = replicate 9 0,
     cr = example_ring, er = \<lparr>er_addr = 0, er_buf = [], er_cycle = True, ERDP = 0, segment_base = 0, segment_size = 0\<rparr>,
     pool = new_Pool 0, PORTSC = (\<lambda>_. 1), port_writes = [], command_doorbells = 0,
     port_config_phase = (\<lambda>_. kNotConnected), addressing_port = 0, inputs = []\<rparr>"

lemma example_controller_step:
  "fresh_ports example_controller"
  "\<exists>c. xhc_step example_Layout 0 0 example_controller c \<and> port_config_phase c 1 = kResettingPort \<and> addressing_port c = 1"
proof -
  show "fresh_ports example_controller" by (simp add: fresh_ports_def example_controller_def)
  let ?c = "Port_Reset 1 (set_phase 1 kResettingPort (example_controller\<lparr>addressing_port := 1\<rparr>))"
  have "ConfigurePort 1 example_controller = Some (?c, kSuccess)"
    by (simp add: ConfigurePort_def ResetPort_def read_port_def example_controller_def current_connect_status_def)
  then have "xhc_step example_Layout 0 0 example_controller ?c" by (rule xhc_step.configure)
  then show "\<exists>c. xhc_step example_Layout 0 0 example_controller c \<and> port_config_phase c 1 = kResettingPort \<and> addressing_port c = 1"
    by (intro exI[of _ ?c]) (simp add: Port_Reset_def write_port_def set_phase_def)
qed

theorem one_port_is_addressed_witness:
  "\<exists>c. (xhc_step example_Layout 0 0)\<^sup>*\<^sup>* example_controller c \<and> port_config_phase c 1 = kResettingPort \<and>
     (\<forall>p. p \<noteq> 1 \<longrightarrow> port_config_phase c p \<notin> {kResettingPort, kEnablingSlot, kAddressingDevice})"
proof -
  obtain c where c: "xhc_step example_Layout 0 0 example_controller c" "port_config_phase c 1 = kResettingPort" "addressing_port c = 1"
    using example_controller_step(2) by blast
  from one_port_is_addressed[OF example_controller_step(1) r_into_rtranclp[where r = "xhc_step example_Layout 0 0", OF c(1)]]
  have "\<forall>p. p \<noteq> 1 \<longrightarrow> port_config_phase c p \<notin> {kResettingPort, kEnablingSlot, kAddressingDevice}" unfolding c(3) by blast
  then show ?thesis using c(2) r_into_rtranclp[where r = "xhc_step example_Layout 0 0", OF c(1)] by blast
qed

theorem port_phases_in_order_witness:
  "\<exists>c. xhc_step example_Layout 0 0 example_controller c \<and> port_config_phase c 1 \<noteq> kNotConnected \<and>
     port_config_phase c 1 \<in> next_phase kNotConnected"
proof -
  obtain c where c: "xhc_step example_Layout 0 0 example_controller c" "port_config_phase c 1 = kResettingPort"
    using example_controller_step(2) by blast
  have "port_config_phase example_controller 1 = kNotConnected" by (simp add: example_controller_def)
  then show ?thesis
    using port_phases_in_order[OF example_controller_step(1) rtranclp.rtrancl_refl c(1), of 1] c by auto
qed

end
