(* ===== verification/Mouse.thy ===== *)
theory Mouse
  imports Layer Console
begin

text \<open>
  The mouse pointer (\<^verbatim>\<open>kernel/mouse.cpp\<close>): the pointer is a layer above all others. A report of the mouse moves it
  inside the screen; the left button activates, drags and closes windows, everything else is told to the task
  of the active layer. \<open>screen_config\<close> is the frame buffer the loader hands over.
\<close>

definition kMouseCursorWidth :: nat where "kMouseCursorWidth = 18"
definition kMouseCursorHeight :: nat where "kMouseCursorHeight = 24"
definition kMouseTransparentColor :: PixelColor where "kMouseTransparentColor = Color 0 0 1"

definition mouse_cursor_shape :: "string list" where
  "mouse_cursor_shape = [
      ''         @@       '',
      ''        @!!@@@    '',
      ''      @@@!!@!!@   '',
      ''     @!!@!!@!!@   '',
      ''     @!!@!!@!!@   '',
      ''     @!!@!!@!!@@@ '',
      ''     @!!@!!@!!@!!@'',
      ''     @!!@!!@!!@!!@'',
      ''     @!!@!!@!!@!!@'',
      ''     @!!@!!@!!@!!@'',
      ''     @!!@!!@!!@!!@'',
      '' @@  @!!@!!@!!@!!@'',
      ''@!!@ @!!@!!@!!@!!@'',
      ''@!!!@@!!!!!!!!!!!@'',
      ''@!!!!@!!!!!!!!!!!@'',
      '' @!!!!@!!!!!!!!!!@'',
      ''  @!!!@!!!!!!!!!!@'',
      ''  @!!!!!!!!!!!!!!@'',
      ''   @!!!!!!!!!!!!@ '',
      ''   @!!!!!!!!!!!!@ '',
      ''    @!!!!!!!!!!!@ '',
      ''    @!!!!!!!!!!@  '',
      ''    @!!!!!!!!!!@  '',
      ''     @@@@@@@@@@   '']"

definition mouse_cursor_hitbox_offset :: Vector2D where
  "mouse_cursor_hitbox_offset = Vec 10 0"

definition cursor_color :: "char \<Rightarrow> PixelColor" where
  "cursor_color c = (if c = CHR ''@'' then Color 0 0 0 else if c = CHR ''.'' then Color 255 255 255
     else if c = CHR ''!'' then Color 220 191 138 else kMouseTransparentColor)"

definition DrawMouseCursor :: "Vector2D \<Rightarrow> Drawing" where
  "DrawMouseCursor position =
     concat (map (\<lambda>dy. map (\<lambda>dx. (position + Vec (int dx) (int dy), cursor_color (mouse_cursor_shape ! dy ! dx)))
       [0..<kMouseCursorWidth]) [0..<kMouseCursorHeight])"

record Mouse =
  cursor_layer :: nat
  visual_position :: Vector2D
  drag_layer_id :: nat
  previous_buttons :: u8

definition new_Mouse :: "nat \<Rightarrow> Mouse" where
  "new_Mouse i = \<lparr>cursor_layer = i, visual_position = Vec 0 0, drag_layer_id = 0, previous_buttons = 0\<rparr>"

definition move_layer :: "nat \<Rightarrow> Vector2D \<Rightarrow> 'f Desktop \<Rightarrow> 'f Desktop option" where
  "move_layer i p d = map_option (\<lambda>lm. d\<lparr>manager := lm\<rparr>) (LM_Move i p (manager d))"

definition move_layer_relative :: "nat \<Rightarrow> Vector2D \<Rightarrow> 'f Desktop \<Rightarrow> 'f Desktop option" where
  "move_layer_relative i p d = map_option (\<lambda>lm. d\<lparr>manager := lm\<rparr>) (LM_MoveRelative i p (manager d))"

definition SetLogicalPosition :: "Vector2D \<Rightarrow> Mouse \<times> 'f Desktop \<Rightarrow> (Mouse \<times> 'f Desktop) option" where
  "SetLogicalPosition logical_position s =
     (let (m, d) = s; m' = m\<lparr>visual_position := logical_position - mouse_cursor_hitbox_offset\<rparr>
      in map_option (Pair m') (move_layer (cursor_layer m') (visual_position m') d))"

subsection \<open>Messages to the active task\<close>

definition FindActiveLayerTask :: "'f Desktop \<Rightarrow> (Layer \<times> nat) option" where
  "FindActiveLayerTask d =
     (if active_layer d = 0 then None
      else case FindLayer (manager d) (active_layer d) of
        None \<Rightarrow> None
      | Some l \<Rightarrow> Some (l, case layer_task_map d (active_layer d) of None \<Rightarrow> 0 | Some t \<Rightarrow> t))"

definition button_message :: "Vector2D \<Rightarrow> u8 \<Rightarrow> nat \<Rightarrow> Message" where
  "button_message relpos buttons i =
     mk_Message (kMouseButton (vx relpos) (vy relpos) (if bit buttons i then 1 else 0) (int i))"

definition mouse_messages :: "Vector2D \<Rightarrow> Vector2D \<Rightarrow> u8 \<Rightarrow> u8 \<Rightarrow> Message list" where
  "mouse_messages relpos posdiff buttons previous =
     (if vx posdiff \<noteq> 0 \<or> vy posdiff \<noteq> 0
      then [mk_Message (kMouseMove (vx relpos) (vy relpos) (vx posdiff) (vy posdiff) buttons)] else []) @
     (if previous \<noteq> buttons
      then map (button_message relpos buttons) (filter (\<lambda>i. bit (previous XOR buttons) i) [0..<8]) else [])"

text \<open>The results of the sends are not looked at.\<close>

definition SendMouseMessage :: "Vector2D \<Rightarrow> Vector2D \<Rightarrow> u8 \<Rightarrow> u8 \<Rightarrow> 'f Desktop \<Rightarrow> 'f Desktop option" where
  "SendMouseMessage newpos posdiff buttons previous d =
     (case FindActiveLayerTask d of
        None \<Rightarrow> Some d
      | Some (l, task) \<Rightarrow>
          if task = 0 then Some d
          else map_option (\<lambda>tm. d\<lparr>task_manager := tm\<rparr>) (send_all SendMessage (task_manager d)
            (map (Pair task) (mouse_messages (newpos - layer_pos l) posdiff buttons previous))))"

definition SendCloseMessage :: "'f Desktop \<Rightarrow> 'f Desktop option" where
  "SendCloseMessage d =
     (case FindActiveLayerTask d of
        None \<Rightarrow> Some d
      | Some (l, task) \<Rightarrow>
          if task = 0 then Some d
          else map_option (\<lambda>(tm, err). d\<lparr>task_manager := tm\<rparr>)
            (SendMessage (task_manager d) task (mk_Message (kWindowClose (layer_id l)))))"

subsection \<open>A report of the mouse\<close>

definition region_at :: "Vector2D \<Rightarrow> Layer \<Rightarrow> 'f Desktop \<Rightarrow> WindowRegion option" where
  "region_at p l d = map_option (\<lambda>w. GetWindowRegion w (p + mouse_cursor_hitbox_offset - layer_pos l)) (GetWindow (manager d) l)"

text \<open>The left button goes down: the result is the layer that is dragged, the one to close, and the desktop.\<close>

definition press :: "Fonts \<Rightarrow> Mouse \<Rightarrow> 'f Desktop \<Rightarrow> (nat \<times> nat \<times> 'f Desktop) option" where
  "press fonts m d =
     (case Option.bind (FindLayerByPosition (manager d) (visual_position m) (cursor_layer m)) (FindLayer (manager d)) of
        None \<Rightarrow> map_option (\<lambda>d'. (drag_layer_id m, 0, d')) (Activate fonts 0 d)
      | Some l \<Rightarrow>
          if layer_draggable l then do {
            region \<leftarrow> region_at (visual_position m) l d;
            d' \<leftarrow> Activate fonts (layer_id l) d;
            Some (if region = kTitleBar then layer_id l else drag_layer_id m,
                  if region = kCloseButton then layer_id l else 0, d') }
          else map_option (\<lambda>d'. (drag_layer_id m, 0, d')) (Activate fonts 0 d))"

definition hover :: "Fonts \<Rightarrow> Mouse \<Rightarrow> 'f Desktop \<Rightarrow> 'f Desktop option" where
  "hover fonts m d =
     (case Option.bind (FindLayerByPosition (manager d) (visual_position m) (cursor_layer m)) (FindLayer (manager d)) of
        None \<Rightarrow> Some d
      | Some l \<Rightarrow> do {
          region \<leftarrow> region_at (visual_position m) l d;
          if region = kCloseButton then MouseEnterIntoCloseButton fonts (layer_id l) d
          else MouseLeaveFromCloseButton fonts (layer_id l) d })"

definition OnInterrupt :: "Fonts \<Rightarrow> FrameBufferConfig \<Rightarrow> u8 \<Rightarrow> int \<Rightarrow> int \<Rightarrow> Mouse \<times> 'f Desktop \<Rightarrow> (Mouse \<times> 'f Desktop) option" where
  "OnInterrupt fonts screen_config buttons displacement_x displacement_y s = do {
     let (m0, d0) = s;
     let oldpos = visual_position m0;
     let newpos = ElementMin (oldpos + Vec displacement_x displacement_y) (ScreenSize screen_config + Vec (- 1) (- 1));
     let m = m0\<lparr>visual_position := ElementMax newpos (Vec 0 0)\<rparr>;
     let posdiff = visual_position m - oldpos;
     d1 \<leftarrow> move_layer (cursor_layer m) (visual_position m) d0;
     let previous_left_pressed = bit (previous_buttons m) 0;
     let left_pressed = bit buttons 0;
     (drag, close_layer, d2) \<leftarrow>
       (if \<not> previous_left_pressed \<and> left_pressed then press fonts m d1
        else if previous_left_pressed \<and> left_pressed then
          (if 0 < drag_layer_id m
           then map_option (\<lambda>d'. (drag_layer_id m, 0, d')) (move_layer_relative (drag_layer_id m) posdiff d1)
           else Some (drag_layer_id m, 0, d1))
        else if previous_left_pressed \<and> \<not> left_pressed then Some (0, 0, d1)
        else map_option (\<lambda>d'. (drag_layer_id m, 0, d')) (hover fonts m d1));
     d3 \<leftarrow>
       (if drag = 0 then
          (if close_layer = 0 then SendMouseMessage newpos posdiff buttons (previous_buttons m) d2 else SendCloseMessage d2)
        else Some d2);
     Some (m\<lparr>drag_layer_id := drag, previous_buttons := buttons\<rparr>, d3) }"

text \<open>\<open>InitializeMouse\<close>: the cursor window under the given address of the window store.\<close>

definition InitializeMouse :: "FrameBufferConfig \<Rightarrow> nat \<Rightarrow> 'f Desktop \<Rightarrow> (Mouse \<times> 'f Desktop) option" where
  "InitializeMouse screen_config ptr d = do {
     let w = SetTransparentColor (Some kMouseTransparentColor)
       (new_Window (int kMouseCursorWidth) (int kMouseCursorHeight) (pixel_format screen_config));
     w1 \<leftarrow> draw_on Window_Write (DrawMouseCursor (Vec 0 0)) w;
     let (lm, i) = NewLayer (manager d);
     let lm1 = SetWindow i ptr (lm\<lparr>windows := (windows lm)(ptr \<mapsto> w1)\<rparr>);
     (m, d1) \<leftarrow> SetLogicalPosition (Vec 200 200) (new_Mouse i, d\<lparr>manager := lm1\<rparr>);
     lm2 \<leftarrow> UpDown (cursor_layer m) (2 ^ 31 - 1) (manager d1);
     Some (m, SetMouseLayer i (d1\<lparr>manager := lm2\<rparr>)) }"

subsection \<open>Dragging a window\<close>

text \<open>Moving a layer, to a place or by a distance, keeps the screen right and all other layers where they are.\<close>

lemma reposition_sync:
  assumes "synced lm" and "i \<in> set (layer_stack lm)" and v: "layer_view lm i = Some (pos, w)"
  shows "\<exists>lm1 lm'. Draw_area (Rect pos (Window_Size w)) (reposition g i lm) = Some lm1 \<and> Draw_id i lm1 = Some lm' \<and> synced lm' \<and>
    layer_stack lm' = layer_stack lm \<and> (\<forall>j. layer_view lm' j = (if j = i then Some (g pos, w) else layer_view lm j))"
proof -
  have sync: "synced_but {p. look lm i p \<noteq> None} lm" using assms(1) unfolding synced_def by (rule synced_mono) simp
  have m: "map_option (\<lambda>(pos, w). (if j = i then g pos else pos, w)) x = (if j = i then map_option (\<lambda>(pos, w). (g pos, w)) x else x)"
    for j x by (cases x) auto
  have "layer_view (reposition g i lm) j = (if j = i then Some (g pos, w) else layer_view lm j)" for j
    unfolding reposition_view m using v by simp
  then show ?thesis using move_layer_sync[OF sync assms(2) v, of g] by auto
qed

lemma LM_Move_sync:
  assumes "synced lm" and "i \<in> set (layer_stack lm)" and "layer_view lm i = Some (pos, w)"
  shows "\<exists>lm'. LM_Move i p lm = Some lm' \<and> synced lm' \<and> layer_stack lm' = layer_stack lm \<and>
    (\<forall>j. layer_view lm' j = (if j = i then Some (p, w) else layer_view lm j))"
proof -
  obtain l where l: "FindLayer lm i = Some l" "GetWindow lm l = Some w" "layer_pos l = pos"
    using assms(3) by (auto simp: layer_view_def bind_eq_Some_conv)
  obtain lm1 lm' where m: "Draw_area (Rect pos (Window_Size w)) (reposition (\<lambda>_. p) i lm) = Some lm1" "Draw_id i lm1 = Some lm'"
    "synced lm'" "layer_stack lm' = layer_stack lm" "\<forall>j. layer_view lm' j = (if j = i then Some (p, w) else layer_view lm j)"
    using reposition_sync[OF assms, of "\<lambda>_. p"] by blast
  have "LM_Move i p lm = Some lm'"
    unfolding LM_Move_def using l m(1,2) by (simp add: Layer_Move_def reposition_def)
  then show ?thesis using m(3-5) by blast
qed

lemma LM_MoveRelative_sync:
  assumes "synced lm" and "i \<in> set (layer_stack lm)" and "layer_view lm i = Some (pos, w)"
  shows "\<exists>lm'. LM_MoveRelative i p lm = Some lm' \<and> synced lm' \<and> layer_stack lm' = layer_stack lm \<and>
    (\<forall>j. layer_view lm' j = (if j = i then Some (pos + p, w) else layer_view lm j))"
proof -
  obtain l where l: "FindLayer lm i = Some l" "GetWindow lm l = Some w" "layer_pos l = pos"
    using assms(3) by (auto simp: layer_view_def bind_eq_Some_conv)
  obtain lm1 lm' where m: "Draw_area (Rect pos (Window_Size w)) (reposition (\<lambda>q. q + p) i lm) = Some lm1" "Draw_id i lm1 = Some lm'"
    "synced lm'" "layer_stack lm' = layer_stack lm" "\<forall>j. layer_view lm' j = (if j = i then Some (pos + p, w) else layer_view lm j)"
    using reposition_sync[OF assms, of "\<lambda>q. q + p"] by blast
  have "LM_MoveRelative i p lm = Some lm'"
    unfolding LM_MoveRelative_def using l m(1,2) by (simp add: Layer_MoveRelative_def reposition_def)
  then show ?thesis using m(3-5) by blast
qed

fun mouse_run :: "Fonts \<Rightarrow> FrameBufferConfig \<Rightarrow> (u8 \<times> int \<times> int) list \<Rightarrow> Mouse \<times> 'f Desktop \<Rightarrow> (Mouse \<times> 'f Desktop) option" where
  "mouse_run fonts screen_config [] s = Some s"
| "mouse_run fonts screen_config ((buttons, dx, dy) # es) s =
     Option.bind (OnInterrupt fonts screen_config buttons dx dy s) (mouse_run fonts screen_config es)"

definition on_screen :: "FrameBufferConfig \<Rightarrow> Vector2D \<Rightarrow> bool" where
  "on_screen screen_config p \<longleftrightarrow> 0 \<le> vx p \<and> vx p < vx (ScreenSize screen_config) \<and> 0 \<le> vy p \<and> vy p < vy (ScreenSize screen_config)"

text \<open>A desktop on which layer \<open>i\<close> is dragged: its window \<open>w\<close> is at a distance \<open>off\<close> from the pointer.\<close>

definition dragging :: "nat \<Rightarrow> Vector2D \<Rightarrow> Window \<Rightarrow> Window \<Rightarrow> Mouse \<times> 'f Desktop \<Rightarrow> bool" where
  "dragging i off w cursor s = (case s of (m, d) \<Rightarrow>
     0 < i \<and> i \<noteq> cursor_layer m \<and> drag_layer_id m = i \<and> bit (previous_buttons m) 0 \<and> synced (manager d) \<and>
     i \<in> set (layer_stack (manager d)) \<and> cursor_layer m \<in> set (layer_stack (manager d)) \<and>
     layer_view (manager d) (cursor_layer m) = Some (visual_position m, cursor) \<and>
     layer_view (manager d) i = Some (visual_position m + off, w))"

definition same_but :: "nat set \<Rightarrow> 'f Desktop \<Rightarrow> 'f Desktop \<Rightarrow> bool" where
  "same_but I d d' \<longleftrightarrow> layer_stack (manager d') = layer_stack (manager d) \<and> active_layer d' = active_layer d \<and>
     layer_task_map d' = layer_task_map d \<and> task_manager d' = task_manager d \<and>
     (\<forall>j. j \<notin> I \<longrightarrow> layer_view (manager d') j = layer_view (manager d) j)"

lemma same_but_trans: "same_but I d1 d2 \<Longrightarrow> same_but I d2 d3 \<Longrightarrow> same_but I d1 d3"
  by (simp add: same_but_def)

lemma OnInterrupt_dragging:
  assumes "dragging i off w cursor (m, d)" and "bit buttons 0"
    and scr: "0 < vx (ScreenSize screen_config)" "0 < vy (ScreenSize screen_config)"
  shows "\<exists>m' d'. OnInterrupt fonts screen_config buttons dx dy (m, d) = Some (m', d') \<and> dragging i off w cursor (m', d') \<and>
    same_but {i, cursor_layer m} d d' \<and> on_screen screen_config (visual_position m') \<and> cursor_layer m' = cursor_layer m"
proof -
  define old where "old = visual_position m"
  define p where "p = ElementMax (ElementMin (old + Vec dx dy) (ScreenSize screen_config + Vec (- 1) (- 1))) (Vec 0 0)"
  let ?c = "cursor_layer m"
  have D: "0 < i" "i \<noteq> ?c" "drag_layer_id m = i" "bit (previous_buttons m) 0" "synced (manager d)"
    "i \<in> set (layer_stack (manager d))" "?c \<in> set (layer_stack (manager d))"
    "layer_view (manager d) ?c = Some (old, cursor)" "layer_view (manager d) i = Some (old + off, w)"
    using assms(1) by (simp_all add: dragging_def old_def)
  obtain lm1 where 1: "LM_Move ?c p (manager d) = Some lm1" "synced lm1" "layer_stack lm1 = layer_stack (manager d)"
    "\<forall>j. layer_view lm1 j = (if j = ?c then Some (p, cursor) else layer_view (manager d) j)"
    using LM_Move_sync[OF D(5,7,8)] by blast
  have i1: "i \<in> set (layer_stack lm1)" "layer_view lm1 i = Some (old + off, w)" using D 1 by simp_all
  obtain lm2 where 2: "LM_MoveRelative i (p - old) lm1 = Some lm2" "synced lm2" "layer_stack lm2 = layer_stack lm1"
    "\<forall>j. layer_view lm2 j = (if j = i then Some (old + off + (p - old), w) else layer_view lm1 j)"
    using LM_MoveRelative_sync[OF 1(2) i1] by blast
  let ?m' = "m\<lparr>visual_position := p, previous_buttons := buttons\<rparr>" and ?d' = "d\<lparr>manager := lm2\<rparr>"
  have "m\<lparr>visual_position := p, drag_layer_id := i, previous_buttons := buttons\<rparr> = ?m'" using D(3) by (cases m) simp
  then have "OnInterrupt fonts screen_config buttons dx dy (m, d) = Some (?m', ?d')"
    using 1(1) 2(1) D(1,3,4) assms(2)
    by (simp add: OnInterrupt_def Let_def p_def[symmetric] old_def[symmetric] move_layer_def move_layer_relative_def)
  moreover have "old + off + (p - old) = p + off" by simp
  then have "dragging i off w cursor (?m', ?d')" using D 1(2-4) 2(2-4) assms(2) by (simp add: dragging_def)
  moreover have "same_but {i, ?c} d ?d'" using 1(3,4) 2(3,4) by (simp add: same_but_def)
  moreover have "on_screen screen_config p" using scr by (simp add: on_screen_def p_def ElementMax_def ElementMin_def min_less_iff_disj)
  ultimately show ?thesis by (intro exI[of _ ?m'] exI[of _ ?d']) simp
qed

lemma mouse_run_dragging:
  assumes "0 < vx (ScreenSize screen_config)" "0 < vy (ScreenSize screen_config)"
  shows "dragging i off w cursor (m, d) \<Longrightarrow> \<forall>(b, dx, dy) \<in> set es. bit b 0 \<Longrightarrow>
    \<exists>m' d'. mouse_run fonts screen_config es (m, d) = Some (m', d') \<and> dragging i off w cursor (m', d') \<and>
      same_but {i, cursor_layer m} d d' \<and> cursor_layer m' = cursor_layer m \<and>
      (es \<noteq> [] \<longrightarrow> on_screen screen_config (visual_position m'))"
proof (induction es arbitrary: m d)
  case Nil
  then show ?case by (simp add: same_but_def)
next
  case (Cons e es)
  obtain b dx dy where e: "e = (b, dx, dy)" by (cases e)
  obtain m1 d1 where 1: "OnInterrupt fonts screen_config b dx dy (m, d) = Some (m1, d1)" "dragging i off w cursor (m1, d1)"
    "same_but {i, cursor_layer m} d d1" "on_screen screen_config (visual_position m1)" "cursor_layer m1 = cursor_layer m"
    using OnInterrupt_dragging[OF Cons.prems(1) _ assms, of b] Cons.prems(2) e by fastforce
  obtain m2 d2 where 2: "mouse_run fonts screen_config es (m1, d1) = Some (m2, d2)" "dragging i off w cursor (m2, d2)"
    "same_but {i, cursor_layer m1} d1 d2" "cursor_layer m2 = cursor_layer m1"
    "es \<noteq> [] \<longrightarrow> on_screen screen_config (visual_position m2)"
    using Cons.IH[OF 1(2)] Cons.prems(2) by auto
  have "on_screen screen_config (visual_position m2)" using 1(4) 2(1,5) by (cases es) auto
  then show ?case using 1 2 same_but_trans[OF 1(3)] by (auto simp: e)
qed

text \<open>C30: A dragged window follows the pointer: while the left button is held after it was pressed in a title
  bar, whatever movements the mouse reports, the pointer stays on the screen, the window keeps its distance
  from the pointer exactly, also where the pointer is stopped by an edge, the screen shows all layers
  correctly after every report, and no other layer, the focus and no task's mailbox are touched.\<close>

theorem drag_follows_pointer:
  assumes "dragging i off w cursor (m, d)" and "\<forall>(b, dx, dy) \<in> set es. bit b 0"
    and "0 < vx (ScreenSize screen_config)" and "0 < vy (ScreenSize screen_config)"
  shows "\<exists>m' d'. mouse_run fonts screen_config es (m, d) = Some (m', d') \<and> synced (manager d') \<and>
    layer_view (manager d') i = Some (visual_position m' + off, w) \<and>
    layer_view (manager d') (cursor_layer m) = Some (visual_position m', cursor) \<and>
    (es \<noteq> [] \<longrightarrow> on_screen screen_config (visual_position m')) \<and>
    layer_stack (manager d') = layer_stack (manager d) \<and> active_layer d' = active_layer d \<and> task_manager d' = task_manager d \<and>
    (\<forall>j. j \<noteq> i \<and> j \<noteq> cursor_layer m \<longrightarrow> layer_view (manager d') j = layer_view (manager d) j)"
proof -
  obtain m' d' where r: "mouse_run fonts screen_config es (m, d) = Some (m', d')" "dragging i off w cursor (m', d')"
    "same_but {i, cursor_layer m} d d'" "cursor_layer m' = cursor_layer m" "es \<noteq> [] \<longrightarrow> on_screen screen_config (visual_position m')"
    using mouse_run_dragging[OF assms(3,4,1,2), of fonts] by blast
  show ?thesis
    using r(2-5) by (intro exI[of _ m'] exI[of _ d']) (simp add: r(1) dragging_def same_but_def)
qed

text \<open>The pointer stands at the bottom left of the sample desktop and drags window 2 to the right, past the edge.\<close>

theorem drag_follows_pointer_witness:
  "\<exists>m' d'. mouse_run sample_fonts sample_fb [(1, 1, -5), (1, 100, 0)]
      (\<lparr>cursor_layer = 3, visual_position = Vec 0 1, drag_layer_id = 2, previous_buttons = 1\<rparr>, sample_desktop) = Some (m', d') \<and>
     synced (manager d') \<and> on_screen sample_fb (visual_position m') \<and>
     layer_view (manager d') 2 = Some (visual_position m' + Vec 1 (- 1), new_Window 2 1 kPixelBGRResv8BitPerColor)"
proof -
  let ?cursor = "SetTransparentColor (Some (Color 0 0 0)) (new_Window 1 1 kPixelBGRResv8BitPerColor)"
  let ?m = "\<lparr>cursor_layer = 3, visual_position = Vec 0 1, drag_layer_id = 2, previous_buttons = 1\<rparr>"
  have "Vec 0 1 + Vec 1 (- 1) = Vec 1 0" by (simp add: plus_Vector2D_def)
  then have d: "dragging 2 (Vec 1 (- 1)) (new_Window 2 1 kPixelBGRResv8BitPerColor) ?cursor (?m, sample_desktop)"
    using sample_synced sample_view(2,3) by (simp add: dragging_def sample_desktop_def) (simp add: sample_lm_def)
  have s: "0 < vx (ScreenSize sample_fb)" "0 < vy (ScreenSize sample_fb)"
    using sample_fb_ok(2) by (simp_all add: ScreenSize_def FrameBufferSize_def sample_fb_def new_Window_def FrameBuffer_Initialize_def Let_def)
  have b: "\<forall>(b, dx, dy) \<in> set [(1 :: u8, 1 :: int, - 5 :: int), (1, 100, 0)]. bit b 0" by simp
  show ?thesis using drag_follows_pointer[OF d b s, of sample_fonts] by auto
qed

subsection \<open>What the active task is told\<close>

text \<open>Replaying button messages on the set of buttons that are down: each must change the state of its button.\<close>

fun replay_buttons :: "Message list \<Rightarrow> nat set \<Rightarrow> nat set option" where
  "replay_buttons [] down = Some down"
| "replay_buttons (msg # ms) down =
     (case arg msg of
        kMouseButton x y pr button \<Rightarrow>
          if (pr = 1) = (nat button \<notin> down) then
            replay_buttons ms (if pr = 1 then insert (nat button) down else down - {nat button}) else None
      | _ \<Rightarrow> None)"

lemma replay_button:
  "replay_buttons (button_message relpos buttons i # ms) down =
     (if bit buttons i = (i \<notin> down) then replay_buttons ms (if bit buttons i then insert i down else down - {i}) else None)"
  by (simp add: button_message_def mk_Message_def)

lemma replay_button_list:
  "distinct is \<Longrightarrow> (\<And>i. i \<in> set is \<Longrightarrow> bit buttons i \<longleftrightarrow> i \<notin> down) \<Longrightarrow>
   replay_buttons (map (button_message relpos buttons) is) down = Some {i. if i \<in> set is then bit buttons i else i \<in> down}"
proof (induction "is" arbitrary: down)
  case (Cons i "is")
  let ?down = "if bit buttons i then insert i down else down - {i}"
  have "replay_buttons (map (button_message relpos buttons) is) ?down = Some {j. if j \<in> set is then bit buttons j else j \<in> ?down}"
    using Cons.prems by (intro Cons.IH) auto
  moreover have "{j. if j \<in> set is then bit buttons j else j \<in> ?down} = {j. if j \<in> set (i # is) then bit buttons j else j \<in> down}"
    by auto
  moreover have "bit buttons i = (i \<notin> down)" using Cons.prems(2)[of i] by simp
  ultimately show ?case unfolding list.map replay_button by simp
qed simp

text \<open>The task of the active window knows the mouse: after a report that is not part of a drag its mailbox
  has got, and no other mailbox has, first the movement with the position relative to the window when the
  pointer moved, then one message per button that changed; replaying these messages on the buttons that were
  down before gives exactly the buttons that are down now.\<close>

theorem SendMouseMessage_tells_buttons:
  assumes "sched_inv (task_manager d)" and "FindActiveLayerTask d = Some (l, t)" and "t \<noteq> 0"
  shows "\<exists>d' button_msgs. SendMouseMessage newpos posdiff buttons previous d = Some d' \<and>
    (\<forall>u. mailbox (task_manager d') u = map_option (\<lambda>b. b @ (if u = t then
       (if posdiff = 0 then [] else [mk_Message (kMouseMove (vx (newpos - layer_pos l)) (vy (newpos - layer_pos l))
          (vx posdiff) (vy posdiff) buttons)]) @ button_msgs else [])) (mailbox (task_manager d) u)) \<and>
    replay_buttons button_msgs {i. bit previous i} = Some {i. bit buttons i}"
proof -
  let ?rel = "newpos - layer_pos l"
  define changed where "changed = filter (\<lambda>i. bit (previous XOR buttons) i) [0..<8]"
  define bm where "bm = map (button_message ?rel buttons) changed"
  have c: "i \<in> set changed \<longleftrightarrow> bit previous i \<noteq> bit buttons i" for i
    using bit_imp_le_length[of previous i] bit_imp_le_length[of buttons i] by (auto simp: changed_def bit_xor_iff)
  have "{i. if i \<in> set changed then bit buttons i else i \<in> {i. bit previous i}} = {i. bit buttons i}"
    by (auto simp: c)
  then have replay: "replay_buttons bm {i. bit previous i} = Some {i. bit buttons i}"
    unfolding bm_def by (subst replay_button_list) (auto simp: c changed_def bit_xor_iff)
  have bm: "(if previous \<noteq> buttons then map (button_message ?rel buttons) (filter (\<lambda>i. bit (previous XOR buttons) i) [0..<8]) else []) = bm"
    by (auto simp: bm_def changed_def)
  have z: "(vx posdiff \<noteq> 0 \<or> vy posdiff \<noteq> 0) = (posdiff \<noteq> 0)" by (auto intro: vec_eqI)
  let ?ms = "(if posdiff = 0 then [] else [mk_Message (kMouseMove (vx ?rel) (vy ?rel) (vx posdiff) (vy posdiff) buttons)]) @ bm"
  have mm: "mouse_messages ?rel posdiff buttons previous = ?ms" unfolding mouse_messages_def z bm by simp
  obtain tm where tm: "send_all SendMessage (task_manager d) (map (Pair t) ?ms) = Some tm"
    "\<forall>u. mailbox tm u = map_option (\<lambda>b. b @ sent_to u (map (Pair t) ?ms)) (mailbox (task_manager d) u)"
    using task_mail.send_all_mailboxes[OF assms(1)] by blast
  have st: "sent_to u (map (Pair t) ms) = (if u = t then ms else [])" for u ms
    by (induction ms) auto
  have "SendMouseMessage newpos posdiff buttons previous d = Some (d\<lparr>task_manager := tm\<rparr>)"
    using assms(2,3) tm(1) by (simp add: SendMouseMessage_def mm)
  then show ?thesis using tm(2) replay
    by (intro exI[of _ "d\<lparr>task_manager := tm\<rparr>"] exI[of _ bm]) (simp add: st)
qed

theorem SendMouseMessage_tells_buttons_witness:
  "\<exists>d' button_msgs. SendMouseMessage (Vec 2 1) (Vec 1 0) 1 2 (sample_desktop\<lparr>active_layer := 2\<rparr>) = Some d' \<and>
     mailbox (task_manager d') 1 = map_option (\<lambda>b. b @ mk_Message (kMouseMove 1 1 1 0 1) # button_msgs)
       (mailbox (task_manager sample_desktop) 1) \<and>
     replay_buttons button_msgs {1} = Some {0}"
proof -
  let ?d = "sample_desktop\<lparr>active_layer := 2\<rparr>"
  have inv: "sched_inv (task_manager ?d)" by (simp add: sample_desktop_def new_TaskManager_ok)
  have f: "FindActiveLayerTask ?d = Some (\<lparr>layer_id = 2, layer_pos = Vec 1 0, layer_window = Some 2, layer_draggable = True\<rparr>, 1)"
    by (simp add: FindActiveLayerTask_def sample_desktop_def sample_lm_def FindLayer_def)
  have "bit (2 ^ 1 :: u8) i = (i = 1)" "bit (2 ^ 0 :: u8) i = (i = 0)" for i
    unfolding bit_exp_iff by (auto simp: possible_bit_word)
  then have b: "{i. bit (2 :: u8) i} = {1}" "{i. bit (1 :: u8) i} = {0}" by simp_all
  have v: "Vec 1 0 \<noteq> 0" "Vec 2 1 - Vec 1 0 = Vec 1 1" by (simp_all add: zero_Vector2D_def minus_Vector2D_def)
  let ?l = "\<lparr>layer_id = 2, layer_pos = Vec 1 0, layer_window = Some 2, layer_draggable = True\<rparr>"
  obtain d' bm where r: "SendMouseMessage (Vec 2 1) (Vec 1 0) 1 2 ?d = Some d'"
    "\<forall>u. mailbox (task_manager d') u = map_option (\<lambda>b. b @ (if u = 1 then
       (if Vec 1 0 = 0 then [] else [mk_Message (kMouseMove (vx (Vec 2 1 - layer_pos ?l)) (vy (Vec 2 1 - layer_pos ?l))
          (vx (Vec 1 0)) (vy (Vec 1 0)) 1)]) @ bm else [])) (mailbox (task_manager ?d) u)"
    "replay_buttons bm {i. bit (2 :: u8) i} = Some {i. bit (1 :: u8) i}"
    using SendMouseMessage_tells_buttons[OF inv f one_neq_zero, of "Vec 2 1" "Vec 1 0" 1 2] by blast
  have "mailbox (task_manager d') 1 = map_option (\<lambda>b. b @ mk_Message (kMouseMove 1 1 1 0 1) # bm) (mailbox (task_manager ?d) 1)"
    using spec[OF r(2), of 1] by (simp add: v)
  then have "mailbox (task_manager d') 1 = map_option (\<lambda>b. b @ mk_Message (kMouseMove 1 1 1 0 1) # bm) (mailbox (task_manager sample_desktop) 1)"
    by simp
  moreover have "replay_buttons bm {1} = Some {0}" using r(3) unfolding b .
  ultimately show ?thesis using r(1) by (intro exI conjI)
qed

text \<open>\<open>InitializeMouse\<close> moves the cursor layer before it is on the layer stack, so \<open>Draw\<close> copies an area that
  was never initialised.\<close>

lemma InitializeMouse_undefined:
  assumes "\<forall>j \<in> set (layer_stack (manager d)). j \<le> latest_layer_id (manager d)"
  shows "InitializeMouse screen_config ptr d = None"
proof -
  let ?i = "latest_layer_id (manager d) + 1"
  have above: "draw_above lm i js None area fb = Some (wa, fb') \<Longrightarrow> i \<notin> set js \<Longrightarrow> wa = None" for lm i js area fb wa fb'
  proof (induction js arbitrary: area fb)
    case (Cons j js)
    then obtain l where l: "FindLayer lm j = Some l" by (auto simp: bind_eq_Some_conv)
    then have "layer_id l = j" by (auto simp: FindLayer_def find_Some_iff)
    then show ?case using Cons l by simp
  qed simp
  have move: "LM_Move i p lm = None" if "i \<notin> set (layer_stack lm)" for i p lm
  proof (rule ccontr)
    assume "LM_Move i p lm \<noteq> None"
    then obtain area lm1 lm2 where m: "Draw_area area (Layer_Move i p lm) = Some lm1" "Draw_id i lm1 = Some lm2"
      by (auto simp: LM_Move_def bind_eq_Some_conv)
    have "layer_stack lm1 = layer_stack lm"
      using m(1) by (auto simp: Draw_area_def Layer_Move_def bind_eq_Some_conv)
    then show False
      using m(2) above[of lm1 i "layer_stack lm1"] that by (auto simp: Draw_id_def Draw_id_area_def bind_eq_Some_conv)
  qed
  have "?i \<notin> set (layer_stack (manager d))" using assms by force
  then have n: "LM_Move ?i p (SetWindow ?i ptr (fst (NewLayer (manager d))\<lparr>windows := ws\<rparr>)) = None" for p ws
    by (intro move) (simp add: SetWindow_def NewLayer_def)
  have "SetLogicalPosition q (new_Mouse ?i, d\<lparr>manager := SetWindow ?i ptr (fst (NewLayer (manager d))\<lparr>windows := ws\<rparr>)\<rparr>) = None" for q ws
    by (simp add: SetLogicalPosition_def move_layer_def new_Mouse_def n[simplified])
  then show ?thesis
    by (cases "draw_on Window_Write (DrawMouseCursor (Vec 0 0)) (SetTransparentColor (Some kMouseTransparentColor)
       (new_Window (int kMouseCursorWidth) (int kMouseCursorHeight) (pixel_format screen_config)))")
      (simp_all add: InitializeMouse_def NewLayer_def)
qed

end
