(* ===== verification/Pipe.thy ===== *)
theory Pipe
  imports Task
begin

text \<open>
  The pipe between two terminal commands: \<open>PipeDescriptor\<close> of \<^verbatim>\<open>kernel/terminal.cpp\<close>. The writer cuts its bytes into
  messages of at most 16 bytes for the reading task; the reader keeps what one read leaves over. The locale
  \<open>byte_pipe\<close> is the contract of a pipe; its client is every sequence of writes, reads and the closing.
\<close>

subsection \<open>Byte streams\<close>

text \<open>\<open>pending\<close> is what was written and not yet read, \<open>ended\<close> that the writer has closed. A read waits (\<open>None\<close>)
  only when nothing is pending and the stream is open.\<close>

datatype 'b stream_op = Put "'b list" | Get nat | Close

fun stream_run :: "('b list \<Rightarrow> 's \<Rightarrow> 's option) \<Rightarrow> (nat \<Rightarrow> 's \<Rightarrow> ('s \<times> 'b list option) option) \<Rightarrow> ('s \<Rightarrow> 's option) \<Rightarrow>
    'b stream_op list \<Rightarrow> 's \<Rightarrow> ('s \<times> 'b list) option" where
  "stream_run put get close [] s = Some (s, [])"
| "stream_run put get close (Put bs # ops) s = Option.bind (put bs s) (stream_run put get close ops)"
| "stream_run put get close (Close # ops) s = Option.bind (close s) (stream_run put get close ops)"
| "stream_run put get close (Get n # ops) s =
     (case get n s of
        None \<Rightarrow> None
      | Some (s1, r) \<Rightarrow> map_option (\<lambda>(s', out). (s', (case r of None \<Rightarrow> [] | Some bs \<Rightarrow> bs) @ out)) (stream_run put get close ops s1))"

fun written :: "'b stream_op list \<Rightarrow> 'b list" where
  "written [] = []"
| "written (Put bs # ops) = bs @ written ops"
| "written (_ # ops) = written ops"

text \<open>Reads ask for at least a byte, and nothing is written after the closing.\<close>

fun proper :: "bool \<Rightarrow> 'b stream_op list \<Rightarrow> bool" where
  "proper closed [] = True"
| "proper closed (Put bs # ops) = (\<not> closed \<and> proper closed ops)"
| "proper closed (Close # ops) = (\<not> closed \<and> proper True ops)"
| "proper closed (Get n # ops) = (0 < n \<and> proper closed ops)"

locale byte_pipe =
  fixes inv :: "'s \<Rightarrow> bool"
    and pending :: "'s \<Rightarrow> 'b list"
    and ended :: "'s \<Rightarrow> bool"
    and put :: "'b list \<Rightarrow> 's \<Rightarrow> 's option"
    and get :: "nat \<Rightarrow> 's \<Rightarrow> ('s \<times> 'b list option) option"
    and close :: "'s \<Rightarrow> 's option"
  assumes put_law: "inv s \<Longrightarrow> \<not> ended s \<Longrightarrow>
      \<exists>s'. put bs s = Some s' \<and> inv s' \<and> pending s' = pending s @ bs \<and> \<not> ended s'"
    and close_law: "inv s \<Longrightarrow> \<not> ended s \<Longrightarrow>
      \<exists>s'. close s = Some s' \<and> inv s' \<and> pending s' = pending s \<and> ended s'"
    and get_law: "inv s \<Longrightarrow> 0 < n \<Longrightarrow>
      \<exists>s' r. get n s = Some (s', r) \<and> inv s' \<and> ended s' = ended s \<and>
        (if pending s = [] then pending s' = [] \<and> r = (if ended s then Some [] else None)
         else \<exists>bs. r = Some bs \<and> bs \<noteq> [] \<and> length bs \<le> n \<and> pending s = bs @ pending s')"
begin

text \<open>Whatever the interleaving, nothing is lost, made up or reordered.\<close>

lemma run_in_order:
  "inv s \<Longrightarrow> proper (ended s) ops \<Longrightarrow>
   \<exists>s' out. stream_run put get close ops s = Some (s', out) \<and> inv s' \<and> pending s @ written ops = out @ pending s' \<and>
     ended s' = (ended s \<or> Close \<in> set ops)"
proof (induction ops arbitrary: s)
  case (Cons op ops)
  show ?case
  proof (cases op)
    case (Put bs)
    obtain s1 where s1: "put bs s = Some s1" "inv s1" "pending s1 = pending s @ bs" "\<not> ended s1" "\<not> ended s"
      using put_law[OF Cons.prems(1), of bs] Cons.prems(2) Put by auto
    show ?thesis using Cons.IH[OF s1(2)] Cons.prems(2) s1 Put by auto
  next
    case Close
    obtain s1 where s1: "close s = Some s1" "inv s1" "pending s1 = pending s" "ended s1"
      using close_law[OF Cons.prems(1)] Cons.prems(2) Close by auto
    show ?thesis using Cons.IH[OF s1(2)] Cons.prems(2) s1 Close by auto
  next
    case (Get n)
    obtain s1 r where s1: "get n s = Some (s1, r)" "inv s1" "ended s1 = ended s"
        "if pending s = [] then pending s1 = [] \<and> r = (if ended s then Some [] else None)
         else \<exists>bs. r = Some bs \<and> bs \<noteq> [] \<and> length bs \<le> n \<and> pending s = bs @ pending s1"
      using get_law[OF Cons.prems(1), of n] Cons.prems(2) Get by auto
    have p: "pending s = (case r of None \<Rightarrow> [] | Some bs \<Rightarrow> bs) @ pending s1"
      using s1(4) by (auto split: if_splits)
    have "proper (ended s1) ops" using Cons.prems(2) s1(3) Get by simp
    then obtain s' out where "stream_run put get close ops s1 = Some (s', out)" "inv s'"
      "pending s1 @ written ops = out @ pending s'" "ended s' = (ended s1 \<or> Close \<in> set ops)"
      using Cons.IH[OF s1(2)] by blast
    then show ?thesis using s1(1,3) Get p by simp
  qed
qed simp

text \<open>After the closing as many reads as there are bytes return all of them.\<close>

lemma drain:
  "inv s \<Longrightarrow> ended s \<Longrightarrow> \<forall>n \<in> set ns. 0 < n \<Longrightarrow> length (pending s) \<le> length ns \<Longrightarrow>
   \<exists>s'. stream_run put get close (map Get ns) s = Some (s', pending s) \<and> inv s' \<and> ended s' \<and> pending s' = []"
proof (induction ns arbitrary: s)
  case (Cons n ns)
  obtain s1 r where s1: "get n s = Some (s1, r)" "inv s1" "ended s1"
      "if pending s = [] then pending s1 = [] \<and> r = Some []
       else \<exists>bs. r = Some bs \<and> bs \<noteq> [] \<and> length bs \<le> n \<and> pending s = bs @ pending s1"
    using get_law[OF Cons.prems(1), of n] Cons.prems(2,3) by auto
  have p: "pending s = (case r of None \<Rightarrow> [] | Some bs \<Rightarrow> bs) @ pending s1"
    using s1(4) by (auto split: if_splits)
  have "length (pending s1) < length (pending s) \<or> pending s = [] \<and> pending s1 = []"
    using s1(4) by (auto split: if_splits)
  then have l: "length (pending s1) \<le> length ns" using Cons.prems(4) by auto
  obtain s' where "stream_run put get close (map Get ns) s1 = Some (s', pending s1)" "inv s'" "ended s'" "pending s' = []"
    using Cons.IH[OF s1(2,3) _ l] Cons.prems(3) by auto
  then show ?case using s1(1) p by simp
qed simp

end

subsection \<open>The pipe descriptor\<close>

definition kPipeChunk :: nat where "kPipeChunk = 16"

record PipeDescriptor =
  pipe_task :: nat
  held :: "u8 list"
  held_len :: nat
  closed :: bool

definition new_PipeDescriptor :: "nat \<Rightarrow> PipeDescriptor" where
  "new_PipeDescriptor t = \<lparr>pipe_task = t, held = replicate kPipeChunk 0, held_len = 0, closed = False\<rparr>"

text \<open>\<open>memcpy\<close> to the start of a buffer.\<close>

definition overlay :: "'b list \<Rightarrow> 'b list \<Rightarrow> 'b list" where
  "overlay bs buf = bs @ drop (length bs) buf"

text \<open>The loop of \<open>Write\<close>: the message is reused, so its unused bytes are those of the chunk before.\<close>

function write_chunks :: "nat \<Rightarrow> u8 list \<Rightarrow> u8 list \<Rightarrow> 'f TaskManager \<Rightarrow> 'f TaskManager option" where
  "write_chunks t old rest tm =
     (if rest = [] then Some tm
      else do {
        let n = min (length rest) kPipeChunk;
        let bytes = overlay (take n rest) old;
        (tm', err) \<leftarrow> SendMessage tm t (mk_Message (kPipe bytes (of_nat n)));
        write_chunks t bytes (drop n rest) tm' })"
  by pat_completeness auto
termination by (relation "measure (\<lambda>(_, _, rest, _). length rest)") (auto simp: kPipeChunk_def)

declare write_chunks.simps [simp del]

definition Pipe_Write :: "PipeDescriptor \<Rightarrow> u8 list \<Rightarrow> 'f TaskManager \<Rightarrow> ('f TaskManager \<times> nat) option" where
  "Pipe_Write p buf tm = map_option (\<lambda>tm'. (tm', length buf)) (write_chunks (pipe_task p) (replicate kPipeChunk 0) buf tm)"

definition FinishWrite :: "PipeDescriptor \<Rightarrow> 'f TaskManager \<Rightarrow> 'f TaskManager option" where
  "FinishWrite p tm = map_option fst (SendMessage tm (pipe_task p) (mk_Message (kPipe (replicate kPipeChunk 0) 0)))"

text \<open>The loop of \<open>Read\<close> over the mailbox: messages of other kinds are thrown away. \<open>None\<close> as message means that the
  mailbox is empty; the task then sleeps and looks again when it is woken.\<close>

partial_function (option) next_pipe_message ::
  "nat \<Rightarrow> 'f TaskManager \<Rightarrow> ('f TaskManager \<times> (u8 list \<times> u8) option) option" where
  "next_pipe_message t tm = do {
     r \<leftarrow> ReceiveMessage tm t;
     (case snd r of
        None \<Rightarrow> Some (fst r, None)
      | Some msg \<Rightarrow>
          (case arg msg of
             kPipe bytes n \<Rightarrow> Some (fst r, Some (bytes, n))
           | _ \<Rightarrow> next_pipe_message t (fst r))) }"

text \<open>\<open>Read\<close>: the bytes it returns, or \<open>None\<close> when it waits; as it waits with nothing held and not closed, the task
  goes on, once woken, like a new call.\<close>

definition Pipe_Read :: "PipeDescriptor \<Rightarrow> nat \<Rightarrow> 'f TaskManager \<Rightarrow> TaskContext \<Rightarrow>
    ('f TaskManager \<times> TaskContext \<times> PipeDescriptor \<times> u8 list option) option" where
  "Pipe_Read p n tm cpu =
     (if 0 < held_len p then
        (let copy_bytes = min (held_len p) n;
             left = held_len p - copy_bytes
         in Some (tm, cpu, p\<lparr>held_len := left, held := overlay (take left (drop copy_bytes (held p))) (held p)\<rparr>,
                  Some (take copy_bytes (held p))))
      else if closed p then Some (tm, cpu, p, Some [])
      else do {
        (tm1, m) \<leftarrow> next_pipe_message (pipe_task p) tm;
        (case m of
           None \<Rightarrow> do { (tm2, cpu2) \<leftarrow> Sleep tm1 cpu (pipe_task p); Some (tm2, cpu2, p, None) }
         | Some (bytes, len) \<Rightarrow>
             if len = 0 then Some (tm1, cpu, p\<lparr>closed := True\<rparr>, Some [])
             else (let copy_bytes = min (unat len) n;
                       left = unat len - copy_bytes
                   in Some (tm1, cpu, p\<lparr>held_len := left, held := overlay (take left (drop copy_bytes bytes)) (held p)\<rparr>,
                            Some (take copy_bytes bytes)))) })"

subsection \<open>The pipe is a byte stream\<close>

text \<open>What a mailbox holds for the reader of a pipe: the chunks up to the message that closes it.\<close>

fun in_mail :: "Message list \<Rightarrow> u8 list" where
  "in_mail [] = []"
| "in_mail (m # ms) =
     (case arg m of kPipe bytes n \<Rightarrow> if n = 0 then [] else take (unat n) bytes @ in_mail ms | _ \<Rightarrow> in_mail ms)"

fun closes :: "Message \<Rightarrow> bool" where
  "closes m = (case arg m of kPipe _ n \<Rightarrow> n = 0 | _ \<Rightarrow> False)"

fun chunk_ok :: "Message \<Rightarrow> bool" where
  "chunk_ok m = (case arg m of kPipe bytes n \<Rightarrow> length bytes = kPipeChunk \<and> unat n \<le> kPipeChunk | _ \<Rightarrow> True)"

type_synonym 'f pipe_state = "'f TaskManager \<times> TaskContext \<times> PipeDescriptor"

fun pipe_mail :: "'f pipe_state \<Rightarrow> Message list" where
  "pipe_mail (tm, cpu, p) = (case mailbox tm (pipe_task p) of None \<Rightarrow> [] | Some ms \<Rightarrow> ms)"

fun pipe_inv :: "'f pipe_state \<Rightarrow> bool" where
  "pipe_inv (tm, cpu, p) \<longleftrightarrow> sched_inv tm \<and> mailbox tm (pipe_task p) \<noteq> None \<and> pipe_task p \<noteq> 2 \<and>
     length (held p) = kPipeChunk \<and> held_len p \<le> kPipeChunk \<and> (\<forall>m \<in> set (pipe_mail (tm, cpu, p)). chunk_ok m)"

fun pipe_pending :: "'f pipe_state \<Rightarrow> u8 list" where
  "pipe_pending (tm, cpu, p) = take (held_len p) (held p) @ (if closed p then [] else in_mail (pipe_mail (tm, cpu, p)))"

fun pipe_ended :: "'f pipe_state \<Rightarrow> bool" where
  "pipe_ended (tm, cpu, p) \<longleftrightarrow> closed p \<or> (\<exists>m \<in> set (pipe_mail (tm, cpu, p)). closes m)"

fun pipe_put :: "u8 list \<Rightarrow> 'f pipe_state \<Rightarrow> 'f pipe_state option" where
  "pipe_put bs (tm, cpu, p) = map_option (\<lambda>(tm', n). (tm', cpu, p)) (Pipe_Write p bs tm)"

fun pipe_close :: "'f pipe_state \<Rightarrow> 'f pipe_state option" where
  "pipe_close (tm, cpu, p) = map_option (\<lambda>tm'. (tm', cpu, p)) (FinishWrite p tm)"

fun pipe_get :: "nat \<Rightarrow> 'f pipe_state \<Rightarrow> ('f pipe_state \<times> u8 list option) option" where
  "pipe_get n (tm, cpu, p) = map_option (\<lambda>(tm', cpu', p', r). ((tm', cpu', p'), r)) (Pipe_Read p n tm cpu)"

lemma in_mail_append:
  "\<forall>m \<in> set xs. \<not> closes m \<Longrightarrow> in_mail (xs @ ys) = in_mail xs @ in_mail ys"
  by (induction xs) (auto split: Message_Arg.splits)

lemma chunk_le: "min (length rest) kPipeChunk \<le> 16"
  by (simp add: kPipeChunk_def)

lemma write_chunks_sends:
  assumes "sched_inv tm" and "mailbox tm t = Some ms" and "length old = kPipeChunk"
  shows "\<exists>tm' new. write_chunks t old rest tm = Some tm' \<and> sched_inv tm' \<and> mailbox tm' = (mailbox tm)(t \<mapsto> ms @ new) \<and>
    in_mail new = rest \<and> (\<forall>m \<in> set new. chunk_ok m \<and> \<not> closes m)"
  using assms
proof (induction t old rest tm arbitrary: ms rule: write_chunks.induct)
  case (1 t old rest tm)
  show ?case
  proof (cases "rest = []")
    case True
    then show ?thesis using 1(2,3) by (intro exI[of _ tm] exI[of _ "[]"]) (auto simp: write_chunks.simps)
  next
    case False
    let ?n = "min (length rest) kPipeChunk"
    let ?bytes = "overlay (take ?n rest) old"
    let ?m = "mk_Message (kPipe ?bytes (of_nat ?n))"
    have len: "length ?bytes = kPipeChunk" using 1(4) by (simp add: overlay_def)
    obtain tm1 where tm1: "SendMessage tm t ?m = Some (tm1, kSuccess)" "sched_inv tm1" "mailbox tm1 = (mailbox tm)(t \<mapsto> ms @ [?m])"
      using task_mail.send_known[OF 1(2,3)] by blast
    have mb: "mailbox tm1 t = Some (ms @ [?m])" using tm1(3) by simp
    obtain tm' new where tm': "write_chunks t ?bytes (drop ?n rest) tm1 = Some tm'" "sched_inv tm'"
      "mailbox tm' = (mailbox tm1)(t \<mapsto> (ms @ [?m]) @ new)" "in_mail new = drop ?n rest" "\<forall>m \<in> set new. chunk_ok m \<and> \<not> closes m"
      using 1(1)[OF False refl refl tm1(1) refl tm1(2) mb len] by blast
    have u: "unat (of_nat ?n :: u8) = ?n" using chunk_le[of rest] by (simp add: unat_of_nat take_bit_nat_eq_self)
    have nz: "(of_nat ?n :: u8) \<noteq> 0" using u False by (metis kPipeChunk_def length_0_conv min_def unat_0 zero_neq_numeral)
    have tk: "take ?n ?bytes = take ?n rest" by (simp add: overlay_def)
    have "in_mail (?m # new) = rest" using u nz tk tm'(4) by (simp add: mk_Message_def del: of_nat_min)
    moreover have "chunk_ok ?m" "\<not> closes ?m" using len u nz by (simp_all add: mk_Message_def del: of_nat_min)
    moreover have "write_chunks t old rest tm = Some tm'" using False tm1(1) tm'(1) by (simp add: write_chunks.simps[of t old rest])
    ultimately show ?thesis using tm'(2,3,5) tm1(3) by (intro exI[of _ tm'] exI[of _ "?m # new"]) simp
  qed
qed

lemma next_pipe_message_ok:
  assumes "sched_inv tm" and "mailbox tm t = Some ms"
  shows "\<exists>tm' m ms'. next_pipe_message t tm = Some (tm', m) \<and> sched_inv tm' \<and> mailbox tm' = (mailbox tm)(t \<mapsto> ms') \<and>
    (\<exists>skipped. (\<forall>x \<in> set skipped. \<not> closes x \<and> in_mail [x] = []) \<and> set ms' \<subseteq> set ms \<and>
      (case m of None \<Rightarrow> ms = skipped \<and> ms' = []
       | Some (bytes, n) \<Rightarrow> \<exists>x. ms = skipped @ x # ms' \<and> arg x = kPipe bytes n))"
  using assms
proof (induction ms arbitrary: tm)
  case Nil
  then obtain k where k: "tasks tm t = Some k" "msgs k = []" by (auto simp: mailbox_def)
  have r: "ReceiveMessage tm t = Some (upd_task t (\<lambda>_. k) tm, None)"
    using k by (simp add: ReceiveMessage_def ReceiveMessage_task_def)
  have "mailbox (upd_task t (\<lambda>_. k) tm) = (mailbox tm)(t \<mapsto> [])" using k by (auto simp: mailbox_def upd_task_def)
  then show ?case using r ReceiveMessage_ok[OF Nil(1) r] by (subst next_pipe_message.simps) auto
next
  case (Cons x ms)
  then obtain k where k: "tasks tm t = Some k" "msgs k = x # ms" by (auto simp: mailbox_def)
  let ?tm = "upd_task t (\<lambda>_. k\<lparr>msgs := ms\<rparr>) tm"
  have r: "ReceiveMessage tm t = Some (?tm, Some x)"
    using k by (simp add: ReceiveMessage_def ReceiveMessage_task_def)
  have inv: "sched_inv ?tm" by (rule ReceiveMessage_ok[OF Cons.prems(1) r])
  have mb: "mailbox ?tm = (mailbox tm)(t \<mapsto> ms)" using k by (auto simp: mailbox_def upd_task_def)
  show ?case
  proof (cases "\<exists>bytes n. arg x = kPipe bytes n")
    case True
    then obtain bytes n where a: "arg x = kPipe bytes n" by blast
    have "next_pipe_message t tm = Some (?tm, Some (bytes, n))" using r a by (subst next_pipe_message.simps) simp
    then show ?thesis using inv mb a by (intro exI[of _ ?tm] exI[of _ "Some (bytes, n)"] exI[of _ ms]) auto
  next
    case False
    then have skip: "\<not> closes x" "in_mail [x] = []" by (auto split: Message_Arg.splits)
    have "mailbox ?tm t = Some ms" using mb by simp
    then obtain tm' m ms' skipped where ih: "next_pipe_message t ?tm = Some (tm', m)" "sched_inv tm'" "mailbox tm' = (mailbox ?tm)(t \<mapsto> ms')"
      "\<forall>x \<in> set skipped. \<not> closes x \<and> in_mail [x] = []" "set ms' \<subseteq> set ms"
      "case m of None \<Rightarrow> ms = skipped \<and> ms' = [] | Some (bytes, n) \<Rightarrow> \<exists>x. ms = skipped @ x # ms' \<and> arg x = kPipe bytes n"
      using Cons.IH[OF inv] by blast
    have "next_pipe_message t tm = next_pipe_message t ?tm"
      using r False by (subst next_pipe_message.simps) (auto split: Message_Arg.splits)
    then show ?thesis using ih mb skip
      by (intro exI[of _ tm'] exI[of _ m] exI[of _ ms']) (auto intro!: exI[of _ "x # skipped"] split: option.splits)
  qed
qed

lemma in_mail_skipped: "\<forall>x \<in> set xs. \<not> closes x \<and> in_mail [x] = [] \<Longrightarrow> in_mail (xs @ ys) = in_mail ys"
  by (induction xs) (auto split: Message_Arg.splits if_splits)

lemma take_overlay: "length bs \<le> length buf \<Longrightarrow> take (length bs) (overlay bs buf) = bs \<and> length (overlay bs buf) = length buf"
  by (simp add: overlay_def)

text \<open>One read, from what is held, after the end, and from the mailbox.\<close>

definition get_ok :: "nat \<Rightarrow> 'f pipe_state \<Rightarrow> bool" where
  "get_ok n s \<longleftrightarrow> (\<exists>s' r. pipe_get n s = Some (s', r) \<and> pipe_inv s' \<and> pipe_ended s' = pipe_ended s \<and>
     (if pipe_pending s = [] then pipe_pending s' = [] \<and> r = (if pipe_ended s then Some [] else None)
      else \<exists>bs. r = Some bs \<and> bs \<noteq> [] \<and> length bs \<le> n \<and> pipe_pending s = bs @ pipe_pending s'))"

lemma Read_held:
  assumes a: "pipe_inv (tm, cpu, p)" and n: "0 < n" and h: "0 < held_len p"
  shows "get_ok n (tm, cpu, p)"
proof -
  let ?c = "min (held_len p) n"
  let ?left = "take (held_len p - ?c) (drop ?c (held p))"
  let ?p = "p\<lparr>held_len := held_len p - ?c, held := overlay ?left (held p)\<rparr>"
  have len: "held_len p \<le> length (held p)" "length (held p) = kPipeChunk" using a by auto
  have l: "length ?left = held_len p - ?c" using len by simp
  have "length ?left \<le> length (held p)" using l len(1) by linarith
  from take_overlay[OF this] have left: "take (held_len p - ?c) (overlay ?left (held p)) = ?left" "length (overlay ?left (held p)) = kPipeChunk"
    unfolding l len(2) by simp_all
  have split: "take (held_len p) (held p) = take ?c (held p) @ ?left"
    by (metis le_add_diff_inverse min.cobounded1 take_add)
  have g: "pipe_get n (tm, cpu, p) = Some ((tm, cpu, ?p), Some (take ?c (held p)))"
    using h by (simp add: Pipe_Read_def Let_def)
  have "take ?c (held p) \<noteq> []" "length (take ?c (held p)) \<le> n" using h n len by auto
  moreover have "pipe_pending (tm, cpu, p) = take ?c (held p) @ pipe_pending (tm, cpu, ?p)" using split left by simp
  moreover have "pipe_inv (tm, cpu, ?p)" using a left by auto
  moreover have "pipe_ended (tm, cpu, ?p) = pipe_ended (tm, cpu, p)" by simp
  ultimately show ?thesis unfolding get_ok_def using g by (auto simp del: pipe_inv.simps pipe_pending.simps pipe_ended.simps pipe_get.simps)
qed

lemma Read_mail:
  assumes a: "pipe_inv (tm, cpu, p)" and n: "0 < n" and h: "held_len p = 0" and c: "\<not> closed p"
  shows "get_ok n (tm, cpu, p)"
proof -
  let ?t = "pipe_task p"
  obtain ms where ms: "mailbox tm ?t = Some ms" using a by auto
  have inv: "sched_inv tm" using a by simp
  obtain tm1 m ms' skipped where r: "next_pipe_message ?t tm = Some (tm1, m)" "sched_inv tm1" "mailbox tm1 = (mailbox tm)(?t \<mapsto> ms')"
      and sk: "\<forall>x \<in> set skipped. \<not> closes x \<and> in_mail [x] = []" "set ms' \<subseteq> set ms"
      and m: "case m of None \<Rightarrow> ms = skipped \<and> ms' = [] | Some (bytes, n) \<Rightarrow> \<exists>x. ms = skipped @ x # ms' \<and> arg x = kPipe bytes n"
    using next_pipe_message_ok[OF inv ms] by blast
  have mb: "mailbox tm1 ?t = Some ms'" using r(3) by simp
  have pend: "pipe_pending (tm, cpu, p) = in_mail ms" using h c ms by simp
  have ok: "\<forall>m \<in> set ms'. chunk_ok m" using a ms sk(2) by auto
  show ?thesis
  proof (cases m)
    case None
    then have e: "ms = skipped" "ms' = []" using m by auto
    have none: "pipe_pending (tm, cpu, p) = []" "\<not> pipe_ended (tm, cpu, p)"
      using pend in_mail_skipped[OF sk(1), of "[]"] sk(1) c ms e by auto
    obtain k where k: "tasks tm1 ?t = Some k" "msgs k = []" using mb e by (auto simp: mailbox_def)
    obtain tm2 cpu2 ctx where sl: "Sleep tm1 cpu ?t = Some (tm2, cpu2)" "sched_inv tm2"
        "tasks tm2 = (tasks tm1)(?t \<mapsto> k\<lparr>task_running := False, task_context := ctx\<rparr>)"
      using Sleep_ok[OF r(2) k(1)] a by (metis pipe_inv.simps)
    have mb2: "mailbox tm2 ?t = Some []" using sl(3) k(2) by (simp add: mailbox_def)
    have "pipe_get n (tm, cpu, p) = Some ((tm2, cpu2, p), None)"
      using h c r(1) None sl(1) by (simp add: Pipe_Read_def)
    moreover have "pipe_inv (tm2, cpu2, p)" using a sl(2) mb2 by simp
    moreover have "pipe_pending (tm2, cpu2, p) = []" "\<not> pipe_ended (tm2, cpu2, p)" using h c mb2 by simp_all
    ultimately show ?thesis using none unfolding get_ok_def by (simp del: pipe_inv.simps pipe_pending.simps pipe_ended.simps pipe_get.simps)
  next
    case (Some bn)
    obtain bytes k where bn: "bn = (bytes, k)" by force
    then obtain x where x: "ms = skipped @ x # ms'" "arg x = kPipe bytes k" using m Some by auto
    have rest: "in_mail ms = in_mail (x # ms')" using in_mail_skipped[OF sk(1)] x(1) by simp
    have xo: "length bytes = kPipeChunk" "unat k \<le> kPipeChunk" using a ms x by auto
    have lh: "length (held p) = kPipeChunk" using a by simp
    have ended: "pipe_ended (tm, cpu, p) = (k = 0 \<or> (\<exists>m \<in> set ms'. closes m))" using sk(1) c ms x by auto
    show ?thesis
    proof (cases "k = 0")
      case True
      let ?p = "p\<lparr>closed := True\<rparr>"
      have "pipe_get n (tm, cpu, p) = Some ((tm1, cpu, ?p), Some [])"
        using h c r(1) Some bn True by (simp add: Pipe_Read_def)
      moreover have "pipe_pending (tm, cpu, p) = []" using pend rest x(2) True by simp
      moreover have "pipe_inv (tm1, cpu, ?p)" using a r(2) mb ok by simp
      ultimately show ?thesis using h ended True unfolding get_ok_def by simp
    next
      case False
      let ?c = "min (unat k) n"
      let ?left = "take (unat k - ?c) (drop ?c bytes)"
      let ?p = "p\<lparr>held_len := unat k - ?c, held := overlay ?left (held p)\<rparr>"
      have pos: "0 < unat k" using False by (simp add: unat_gt_0)
      have l: "length ?left = unat k - ?c" using xo by simp
      have left: "take (unat k - ?c) (overlay ?left (held p)) = ?left" "length (overlay ?left (held p)) = kPipeChunk"
        using take_overlay[of ?left "held p"] lh l xo by (metis diff_le_self le_trans)+
      have split: "take (unat k) bytes = take ?c bytes @ ?left"
        by (metis le_add_diff_inverse min.cobounded1 take_add)
      have g: "pipe_get n (tm, cpu, p) = Some ((tm1, cpu, ?p), Some (take ?c bytes))"
        using h c r(1) Some bn False by (simp add: Pipe_Read_def Let_def)
      have "take ?c bytes \<noteq> []" "length (take ?c bytes) \<le> n" using pos n xo by auto
      moreover have "pipe_pending (tm, cpu, p) = take ?c bytes @ pipe_pending (tm1, cpu, ?p)"
        using pend rest x(2) False split left c mb by simp
      moreover have "pipe_inv (tm1, cpu, ?p)" using a r(2) mb ok left xo by auto
      moreover have "pipe_ended (tm1, cpu, ?p) = pipe_ended (tm, cpu, p)" using ended False mb c by simp
      ultimately show ?thesis unfolding get_ok_def using g by (auto simp del: pipe_inv.simps pipe_pending.simps pipe_ended.simps pipe_get.simps)
    qed
  qed
qed

lemma pipe_get_ok: "pipe_inv s \<Longrightarrow> 0 < n \<Longrightarrow> get_ok n s"
proof -
  assume a: "pipe_inv s" "0 < n"
  obtain tm cpu p where s: "s = (tm, cpu, p)" by (cases s)
  consider "0 < held_len p" | "held_len p = 0" "closed p" | "held_len p = 0" "\<not> closed p" by auto
  then show ?thesis
  proof cases
    case 2
    then show ?thesis using a unfolding s get_ok_def by (simp add: Pipe_Read_def)
    next
    case 1
    then show ?thesis using a unfolding s by (intro Read_held)
  next
    case 3
    then show ?thesis using a unfolding s by (intro Read_mail)
  qed
qed

interpretation pipe: byte_pipe pipe_inv pipe_pending pipe_ended pipe_put pipe_get pipe_close
proof unfold_locales
  fix s :: "'f pipe_state" and bs
  assume a: "pipe_inv s" "\<not> pipe_ended s"
  obtain tm cpu p where s: "s = (tm, cpu, p)" by (cases s)
  obtain ms where ms: "mailbox tm (pipe_task p) = Some ms" using a s by auto
  obtain tm' new where w: "write_chunks (pipe_task p) (replicate kPipeChunk 0) bs tm = Some tm'" "sched_inv tm'"
    "mailbox tm' = (mailbox tm)(pipe_task p \<mapsto> ms @ new)" "in_mail new = bs" "\<forall>m \<in> set new. chunk_ok m \<and> \<not> closes m"
    using write_chunks_sends[OF _ ms, of "replicate kPipeChunk 0" bs] a s by auto
  show "\<exists>s'. pipe_put bs s = Some s' \<and> pipe_inv s' \<and> pipe_pending s' = pipe_pending s @ bs \<and> \<not> pipe_ended s'"
    using a w ms in_mail_append[of ms new] by (intro exI[of _ "(tm', cpu, p)"]) (auto simp: s Pipe_Write_def)
next
  fix s :: "'f pipe_state"
  assume a: "pipe_inv s" "\<not> pipe_ended s"
  obtain tm cpu p where s: "s = (tm, cpu, p)" by (cases s)
  obtain ms where ms: "mailbox tm (pipe_task p) = Some ms" using a s by auto
  let ?m = "mk_Message (kPipe (replicate kPipeChunk 0) 0)"
  have inv: "sched_inv tm" using a s by simp
  obtain tm' where w: "SendMessage tm (pipe_task p) ?m = Some (tm', kSuccess)" "sched_inv tm'"
    "mailbox tm' = (mailbox tm)(pipe_task p \<mapsto> ms @ [?m])"
    using task_mail.send_known[OF inv ms] by blast
  have m: "chunk_ok ?m" "closes ?m" "in_mail [?m] = []" by (simp_all add: mk_Message_def)
  show "\<exists>s'. pipe_close s = Some s' \<and> pipe_inv s' \<and> pipe_pending s' = pipe_pending s \<and> pipe_ended s'"
    using a w ms in_mail_append[of ms "[?m]"] m by (intro exI[of _ "(tm', cpu, p)"]) (auto simp: s FinishWrite_def)
next
  fix s :: "'f pipe_state" and n :: nat
  assume a: "pipe_inv s" and n: "0 < n"
  obtain tm cpu p where s: "s = (tm, cpu, p)" by (cases s)
  show "\<exists>s' r. pipe_get n s = Some (s', r) \<and> pipe_inv s' \<and> pipe_ended s' = pipe_ended s \<and>
        (if pipe_pending s = [] then pipe_pending s' = [] \<and> r = (if pipe_ended s then Some [] else None)
         else \<exists>bs. r = Some bs \<and> bs \<noteq> [] \<and> length bs \<le> n \<and> pipe_pending s = bs @ pipe_pending s')"
    using pipe_get_ok[OF a n] unfolding get_ok_def .
qed

subsection \<open>Properties\<close>

lemma new_pipe:
  assumes "sched_inv tm" and "mailbox tm t = Some []" and "t \<noteq> 2"
  shows "pipe_inv (tm, cpu, new_PipeDescriptor t)" "pipe_pending (tm, cpu, new_PipeDescriptor t) = []"
    "\<not> pipe_ended (tm, cpu, new_PipeDescriptor t)"
  using assms by (simp_all add: new_PipeDescriptor_def)

declare pipe_inv.simps [simp del] pipe_pending.simps [simp del] pipe_ended.simps [simp del]
  pipe_put.simps [simp del] pipe_get.simps [simp del] pipe_close.simps [simp del]

text \<open>The pipe to a task that has just been made is a byte stream. However the writes of the left command, of any
  length, and the reads of the right one are interleaved, every call is defined, and what was read followed by what
  is still in the pipe is exactly what was written.\<close>

lemma pipe_in_order:
  assumes "sched_inv tm" and "mailbox tm t = Some []" and "t \<noteq> 2" and "proper False ops"
  shows "\<exists>s out. stream_run pipe_put pipe_get pipe_close ops (tm, cpu, new_PipeDescriptor t) = Some (s, out) \<and>
    written ops = out @ pipe_pending s"
proof -
  have "pipe_ended (tm, cpu, new_PipeDescriptor t) = False" using new_pipe(3)[OF assms(1-3)] by (simp only: HOL.simp_thms)
  then have "proper (pipe_ended (tm, cpu, new_PipeDescriptor t)) ops" using assms(4) by (simp only:)
  from pipe.run_in_order[OF new_pipe(1)[OF assms(1-3)] this] show ?thesis unfolding new_pipe(2)[OF assms(1-3)] by auto
qed

text \<open>C31: The reader gets everything and then the end of the file: once the writer has finished, as many reads as
  bytes were left return all of them in order, and every further read returns 0 bytes instead of waiting.\<close>

theorem pipe_drains:
  assumes "sched_inv tm" and "mailbox tm t = Some []" and "t \<noteq> 2" and "proper False (ops @ [Close])"
    and "\<forall>n \<in> set ns. 0 < n" and "length (written ops) \<le> length ns" and "0 < n"
  shows "\<exists>s out s' s''. stream_run pipe_put pipe_get pipe_close (ops @ [Close]) (tm, cpu, new_PipeDescriptor t) = Some (s, out) \<and>
    stream_run pipe_put pipe_get pipe_close (map Get ns) s = Some (s', drop (length out) (written ops)) \<and>
    out = take (length out) (written ops) \<and> pipe_get n s' = Some (s'', Some [])"
proof -
  let ?s = "(tm, cpu, new_PipeDescriptor t)" and ?run = "stream_run pipe_put pipe_get pipe_close"
  have wr: "written (xs @ [Close]) = written xs" for xs :: "u8 stream_op list"
    by (induction xs rule: written.induct) auto
  have "pipe_ended ?s = False" using new_pipe(3)[OF assms(1-3)] by (simp only: HOL.simp_thms)
  then have "proper (pipe_ended ?s) (ops @ [Close])" using assms(4) by (simp only:)
  then obtain s out where s: "?run (ops @ [Close]) ?s = Some (s, out)" "pipe_inv s" "pipe_ended s"
    "written ops = out @ pipe_pending s"
    using pipe.run_in_order[OF new_pipe(1)[OF assms(1-3)], of cpu "ops @ [Close]"] unfolding new_pipe(2)[OF assms(1-3)] wr by auto
  have len: "length (pipe_pending s) \<le> length ns" using s(4) assms(6) by simp
  obtain s' where s': "?run (map Get ns) s = Some (s', pipe_pending s)" "pipe_inv s'" "pipe_ended s'" "pipe_pending s' = []"
    using pipe.drain[OF s(2,3) assms(5) len] by blast
  obtain s'' where "pipe_get n s' = Some (s'', Some [])" using pipe.get_law[OF s'(2) assms(7)] s'(3,4) by auto
  then show ?thesis using s(1,4) s'(1) by (metis append_eq_conv_conj)
qed

lemma sample_mail: "mailbox sample_tm 3 = Some []"
  by (simp add: mailbox_def sample_tm_simps)

theorem pipe_drains_witness:
  "\<exists>s out s' s''. stream_run pipe_put pipe_get pipe_close ([Put [1, 2], Get 1] @ [Close]) (sample_tm, zero_context, new_PipeDescriptor 3) = Some (s, out) \<and>
    stream_run pipe_put pipe_get pipe_close (map Get [5, 5]) s = Some (s', drop (length out) [1, 2]) \<and>
    out = take (length out) [1, 2] \<and> pipe_get 8 s' = Some (s'', Some [])"
proof -
  have p: "proper False ([Put [1, 2 :: u8], Get 1] @ [Close])" by simp
  have n: "\<forall>n \<in> set [5, 5 :: nat]. 0 < n" by simp
  have l: "length (written [Put [1, 2 :: u8], Get 1]) \<le> length [5, 5 :: nat]" by simp
  have e: "(8 :: nat) > 0" by simp
  from pipe_drains[OF sample_tm_inv sample_mail _ p n l e, of zero_context] show ?thesis by simp
qed

end
