(* ===== verification/Terminal.thy ===== *)
theory Terminal
  imports TextBox
begin

text \<open>
  The terminal window and its line editor: the class \<open>Terminal\<close> of \<^verbatim>\<open>kernel/terminal.cpp\<close> up to the execution of a
  line. An operation returns the terminal and, in order, what it does: drawings on its window, scrolling of the window
  and messages that it sends. The executor of a line is an argument of \<open>InputKey\<close>; \<^verbatim>\<open>Shell\<close> gives the real one.
\<close>

definition kTerminalRows :: nat where "kTerminalRows = 17"
definition kTerminalColumns :: nat where "kTerminalColumns = 48"
definition kLineMax :: nat where "kLineMax = 128"

datatype TermEffect = Paint Drawing | MoveText Vector2D Rectangle | Post nat Message

text \<open>A terminal without a window has a null \<open>term_window\<close>. \<open>linebuf\<close> and each line of the history is an array of
  \<open>kLineMax\<close> bytes that holds a C string.\<close>

record Terminal =
  term_task :: nat
  term_window :: "nat option"
  term_layer :: nat
  cursor :: Vector2D
  term_cursor_visible :: bool
  linebuf :: "u8 list"
  linebuf_index :: nat
  cmd_history :: "u8 list list"
  cmd_history_index :: int
  show_window :: bool
  term_files :: "nat list"
  last_exit_code :: int

definition term_size :: Vector2D where
  "term_size = Vec (int kTerminalColumns * 8 + 8 + kMarginX) (int kTerminalRows * 16 + 8 + kMarginY)"

text \<open>The size of the inside of the window. Through a null window pointer the code reads it from low memory: \<open>null_size\<close>
  is what it finds there.\<close>

definition term_inner_size :: "Vector2D \<Rightarrow> Terminal \<Rightarrow> Vector2D" where
  "term_inner_size null_size t =
     (case term_window t of None \<Rightarrow> null_size | Some _ \<Rightarrow> term_size - kTopLeftMargin - kBottomRightMargin)"

definition CalcCursorPos :: "Terminal \<Rightarrow> Vector2D" where
  "CalcCursorPos t = kTopLeftMargin + Vec (4 + 8 * vx (cursor t)) (4 + 16 * vy (cursor t))"

definition DrawCursor :: "bool \<Rightarrow> Terminal \<Rightarrow> TermEffect list" where
  "DrawCursor on t =
     (if show_window t
      then [Paint (FillRectangle (CalcCursorPos t) (Vec 7 15) (if on then ToColor 0xffffff else ToColor 0))] else [])"

definition BlinkCursor :: "Terminal \<Rightarrow> Terminal \<times> TermEffect list \<times> Rectangle" where
  "BlinkCursor t =
     (let t' = t\<lparr>term_cursor_visible := \<not> term_cursor_visible t\<rparr>
      in (t', DrawCursor (term_cursor_visible t') t', Rect (CalcCursorPos t') (Vec 7 15)))"

subsection \<open>Printing\<close>

definition Scroll1 :: "Terminal \<Rightarrow> TermEffect list option" where
  "Scroll1 t = (case term_window t of
     None \<Rightarrow> None
   | Some _ \<Rightarrow> Some [MoveText (kTopLeftMargin + Vec 4 4)
         (Rect (kTopLeftMargin + Vec 4 (4 + 16)) (Vec (8 * int kTerminalColumns) (16 * (int kTerminalRows - 1)))),
       Paint (inner (FillRectangle (Vec 4 (4 + 16 * vy (cursor t))) (Vec (8 * int kTerminalColumns) 16) (Color 0 0 0)))])"

definition term_newline :: "Terminal \<Rightarrow> (Terminal \<times> TermEffect list) option" where
  "term_newline t =
     (let t0 = t\<lparr>cursor := Vec 0 (vy (cursor t))\<rparr>
      in if vy (cursor t0) < int kTerminalRows - 1 then Some (t0\<lparr>cursor := Vec 0 (vy (cursor t0) + 1)\<rparr>, [])
         else map_option (\<lambda>es. (t0, es)) (Scroll1 t0))"

text \<open>A character at the cursor, which then moves on by \<open>cells\<close>; \<open>Writer()\<close> of a null window is undefined.\<close>

definition put_glyph :: "Fonts \<Rightarrow> u32 \<Rightarrow> int \<Rightarrow> Terminal \<Rightarrow> (Terminal \<times> TermEffect list) option" where
  "put_glyph fonts c cells t = (case term_window t of
     None \<Rightarrow> None
   | Some _ \<Rightarrow> Some (t\<lparr>cursor := Vec (vx (cursor t) + cells) (vy (cursor t))\<rparr>,
       [Paint (fst (WriteUnicodeChar fonts (CalcCursorPos t) c (Color 255 255 255)))]))"

definition Print_char :: "Fonts \<Rightarrow> u32 \<Rightarrow> Terminal \<Rightarrow> (Terminal \<times> TermEffect list) option" where
  "Print_char fonts c t =
     (if \<not> show_window t then Some (t, [])
      else if c = 10 then term_newline t
      else if IsHankaku fonts c then do {
        (t1, es1) \<leftarrow> (if vx (cursor t) = int kTerminalColumns then term_newline t else Some (t, []));
        (t2, es2) \<leftarrow> put_glyph fonts c 1 t1;
        Some (t2, es1 @ es2) }
      else do {
        (t1, es1) \<leftarrow> (if int kTerminalColumns - 1 \<le> vx (cursor t) then term_newline t else Some (t, []));
        (t2, es2) \<leftarrow> put_glyph fonts c 2 t1;
        Some (t2, es1 @ es2) })"

text \<open>The loop over the bytes of a string, up to its zero or to \<open>len\<close> bytes. \<open>None\<close> is a read behind the buffer, or
  a byte at which the decoder does not advance: the loop then prints for ever.\<close>

function print_string :: "Fonts \<Rightarrow> u8 list \<Rightarrow> nat option \<Rightarrow> Terminal \<Rightarrow> (Terminal \<times> TermEffect list) option" where
  "print_string fonts s len t =
     (case s of
        [] \<Rightarrow> None
      | c # _ \<Rightarrow>
          if c = 0 \<or> len = Some 0 then Some (t, [])
          else (case ConvertUTF8To32 s of
             None \<Rightarrow> None
           | Some (u, bytes) \<Rightarrow>
               if bytes = 0 then None
               else (case Print_char fonts u t of
                  None \<Rightarrow> None
                | Some (t1, es1) \<Rightarrow>
                    map_option (\<lambda>(t2, es2). (t2, es1 @ es2))
                      (print_string fonts (drop bytes s) (map_option (\<lambda>n. n - bytes) len) t1))))"
  by pat_completeness auto
termination by (relation "measure (\<lambda>(_, s, _, _). length s)") auto

declare print_string.simps [simp del]

definition draw_message :: "Rectangle \<Rightarrow> Terminal \<Rightarrow> TermEffect" where
  "draw_message area t = Post 1 (MakeLayerMessage (term_task t) (term_layer t) LDrawArea area)"

definition Print :: "Fonts \<Rightarrow> Vector2D \<Rightarrow> u8 list \<Rightarrow> nat option \<Rightarrow> Terminal \<Rightarrow> (Terminal \<times> TermEffect list) option" where
  "Print fonts null_size s len t = do {
     let cursor_before = CalcCursorPos t;
     (t', es) \<leftarrow> print_string fonts s len t;
     let cursor_after = CalcCursorPos t';
     let draw_area = Rect (Vec (vx kTopLeftMargin) (vy cursor_before))
                       (Vec (vx (term_inner_size null_size t')) (vy cursor_after - vy cursor_before + 16));
     Some (t', DrawCursor False t @ es @ DrawCursor True t' @ [draw_message draw_area t']) }"

definition Redraw :: "Vector2D \<Rightarrow> Terminal \<Rightarrow> TermEffect list" where
  "Redraw null_size t = [draw_message (Rect kTopLeftMargin (term_inner_size null_size t)) t]"

subsection \<open>Editing a line\<close>

text \<open>The C string at the start of an array, without its zero.\<close>

definition c_string :: "u8 list \<Rightarrow> u8 list option" where
  "c_string a = (if 0 \<in> set a then Some (takeWhile (\<lambda>c. c \<noteq> 0) a) else None)"

definition HistoryUpDown :: "Fonts \<Rightarrow> int \<Rightarrow> Terminal \<Rightarrow> (Terminal \<times> TermEffect list \<times> Rectangle) option" where
  "HistoryUpDown fonts direction t = do {
     let index = (if direction = -1 \<and> 0 \<le> cmd_history_index t then cmd_history_index t - 1
                  else if direction = 1 \<and> cmd_history_index t + 1 < int (length (cmd_history t)) then cmd_history_index t + 1
                  else cmd_history_index t);
     let t1 = t\<lparr>cmd_history_index := index, cursor := Vec 1 (vy (cursor t))\<rparr>;
     let first_pos = CalcCursorPos t1;
     let draw_area = Rect first_pos (Vec (8 * (int kTerminalColumns - 1)) 16);
     _ \<leftarrow> term_window t1;
     history \<leftarrow> (if 0 \<le> index then c_string (cmd_history t1 ! nat index) else Some []);
     let t2 = t1\<lparr>linebuf := (history @ [0]) @ drop (length history + 1) (linebuf t1), linebuf_index := length history\<rparr>;
     (ds, n) \<leftarrow> WriteUTF8String fonts first_pos (history @ [0]) (Color 255 255 255);
     Some (t2\<lparr>cursor := Vec (int (linebuf_index t2) + 1) (vy (cursor t2))\<rparr>,
           [Paint (FillRectangle (rpos draw_area) (rsize draw_area) (Color 0 0 0)), Paint ds], draw_area) }"

text \<open>\<open>ExecuteLine\<close> on the terminal and the rest of the system.\<close>

type_synonym 'w executor = "Terminal \<Rightarrow> 'w \<Rightarrow> (Terminal \<times> 'w \<times> TermEffect list) option"

definition enter_key :: "Fonts \<Rightarrow> Vector2D \<Rightarrow> 'w executor \<Rightarrow> Terminal \<Rightarrow> 'w \<Rightarrow>
    (Terminal \<times> 'w \<times> TermEffect list \<times> Rectangle) option" where
  "enter_key fonts null_size ExecuteLine t w =
     (if linebuf_index t < length (linebuf t) then do {
        let t1 = t\<lparr>linebuf := (linebuf t)[linebuf_index t := 0]\<rparr>;
        let t2 = (if 0 < linebuf_index t1 then t1\<lparr>cmd_history := linebuf t1 # butlast (cmd_history t1)\<rparr> else t1);
        (t3, es3) \<leftarrow> term_newline (t2\<lparr>linebuf_index := 0, cmd_history_index := -1\<rparr>);
        (t4, w', es4) \<leftarrow> ExecuteLine t3 w;
        (t5, es5) \<leftarrow> Print fonts null_size [0x3e, 0] None t4;
        Some (t5, w', es3 @ es4 @ es5, Rect kTopLeftMargin (term_inner_size null_size t5)) }
      else None)"

definition backspace_key :: "Rectangle \<Rightarrow> Terminal \<Rightarrow> (Terminal \<times> TermEffect list \<times> Rectangle) option" where
  "backspace_key area t =
     (if 0 < vx (cursor t) then
        (let t1 = t\<lparr>cursor := Vec (vx (cursor t) - 1) (vy (cursor t))\<rparr>
         in Some (t1\<lparr>linebuf_index := (if 0 < linebuf_index t then linebuf_index t - 1 else 0)\<rparr>,
              (if show_window t1 then [Paint (FillRectangle (CalcCursorPos t1) (Vec 8 16) (Color 0 0 0))] else []),
              Rect (CalcCursorPos t1) (rsize area)))
      else Some (t, [], area))"

definition char_key :: "Fonts \<Rightarrow> u32 \<Rightarrow> Rectangle \<Rightarrow> Terminal \<Rightarrow> (Terminal \<times> TermEffect list \<times> Rectangle) option" where
  "char_key fonts unicode area t =
     (if vx (cursor t) < int kTerminalColumns - 1 \<and> linebuf_index t < kLineMax - 1 then
        Some (t\<lparr>linebuf := (linebuf t)[linebuf_index t := ucast unicode], linebuf_index := linebuf_index t + 1,
                cursor := Vec (vx (cursor t) + 1) (vy (cursor t))\<rparr>,
              (if show_window t then [Paint (fst (WriteUnicodeChar fonts (CalcCursorPos t) unicode (Color 255 255 255)))] else []),
              area)
      else Some (t, [], area))"

definition InputKey :: "Fonts \<Rightarrow> Vector2D \<Rightarrow> 'w executor \<Rightarrow> u8 \<Rightarrow> u8 \<Rightarrow> u32 \<Rightarrow> Terminal \<times> 'w \<Rightarrow>
    ((Terminal \<times> 'w) \<times> TermEffect list \<times> Rectangle) option" where
  "InputKey fonts null_size ExecuteLine modifier keycode unicode s = do {
     let (t, w) = s;
     let area = Rect (CalcCursorPos t) (Vec (8 * 2) 16);
     (t', w', es, area') \<leftarrow>
       (if unicode = 10 then enter_key fonts null_size ExecuteLine t w
        else map_option (\<lambda>(t', es, area'). (t', w, es, area'))
          (if unicode = 8 then backspace_key area t
           else if unicode \<noteq> 0 then char_key fonts unicode area t
           else if keycode = 0x51 then HistoryUpDown fonts (-1) t
           else if keycode = 0x52 then HistoryUpDown fonts 1 t
           else Some (t, [], area)));
     Some ((t', w'), DrawCursor False t @ es @ DrawCursor True t', area') }"

subsection \<open>The editor as a function on lists\<close>

text \<open>The line that is typed, the column in which it starts, the eight lines of the history with the position in
  it, and what the executed lines act on. \<open>run\<close> is what executing a line does: the new state of that and the column in
  which the output ends.\<close>

record 'w editor =
  typed :: "u8 list"
  start :: nat
  past :: "u8 list list"
  place :: int
  world :: 'w

definition recall :: "int \<Rightarrow> 'w editor \<Rightarrow> 'w editor" where
  "recall i e = e\<lparr>place := i, typed := (if 0 \<le> i then past e ! nat i else []), start := 1\<rparr>"

definition submit :: "(u8 list \<Rightarrow> 'w \<Rightarrow> 'w \<times> nat) \<Rightarrow> 'w editor \<Rightarrow> 'w editor" where
  "submit run e = (let (w, column) = run (typed e) (world e) in
     \<lparr>typed = [], start = (if column = kTerminalColumns then 0 else column) + 1,
      past = (if typed e = [] then past e else typed e # butlast (past e)), place = -1, world = w\<rparr>)"

fun edit_key :: "(u8 list \<Rightarrow> 'w \<Rightarrow> 'w \<times> nat) \<Rightarrow> u8 \<times> u32 \<Rightarrow> 'w editor \<Rightarrow> 'w editor" where
  "edit_key run (keycode, unicode) e =
     (if unicode = 10 then submit run e
      else if unicode = 8 then (if typed e \<noteq> [] then e\<lparr>typed := butlast (typed e)\<rparr> else e\<lparr>start := start e - 1\<rparr>)
      else if unicode \<noteq> 0 then
        (if start e + length (typed e) < kTerminalColumns - 1 then e\<lparr>typed := typed e @ [ucast unicode]\<rparr> else e)
      else if keycode = 0x51 then recall (if 0 \<le> place e then place e - 1 else place e) e
      else if keycode = 0x52 then recall (if place e + 1 < int (length (past e)) then place e + 1 else place e) e
      else e)"

fun type_keys :: "Fonts \<Rightarrow> Vector2D \<Rightarrow> 'w executor \<Rightarrow> (u8 \<times> u32) list \<Rightarrow> Terminal \<times> 'w \<Rightarrow>
    ((Terminal \<times> 'w) \<times> TermEffect list) option" where
  "type_keys fonts null_size ExecuteLine [] s = Some (s, [])"
| "type_keys fonts null_size ExecuteLine ((keycode, unicode) # keys) s =
     (case InputKey fonts null_size ExecuteLine 0 keycode unicode s of
        None \<Rightarrow> None
      | Some (s', es, _) \<Rightarrow> map_option (\<lambda>(s'', es'). (s'', es @ es')) (type_keys fonts null_size ExecuteLine keys s'))"

definition printable :: "u8 list \<Rightarrow> bool" where
  "printable l \<longleftrightarrow> (\<forall>c \<in> set l. 0x20 \<le> c \<and> c < 0x7f)"

text \<open>Keys with a character that the line editor handles: the ASCII characters, line feed, backspace, and none.\<close>

definition ascii_key :: "u8 \<times> u32 \<Rightarrow> bool" where
  "ascii_key k \<longleftrightarrow> (let c = unat (snd k) in c = 0 \<or> c = 8 \<or> c = 10 \<or> (0x20 \<le> c \<and> c < 0x7f))"

definition ascii_fonts :: "Fonts \<Rightarrow> bool" where
  "ascii_fonts fonts \<longleftrightarrow> (\<forall>c. 0x20 \<le> unat c \<and> unat c < 0x7f \<longrightarrow> IsHankaku fonts c)"

definition in_window :: "TermEffect list \<Rightarrow> bool" where
  "in_window es \<longleftrightarrow> (\<forall>ds. Paint ds \<in> set es \<longrightarrow> inside ds (vx term_size) (vy term_size))"

definition screen_ok :: "Terminal \<Rightarrow> bool" where
  "screen_ok t \<longleftrightarrow> show_window t \<and> term_window t \<noteq> None \<and> 0 \<le> vx (cursor t) \<and> vx (cursor t) \<le> int kTerminalColumns \<and>
     0 \<le> vy (cursor t) \<and> vy (cursor t) < int kTerminalRows \<and> length (linebuf t) = kLineMax"

definition cmd_line_ok :: "u8 list \<Rightarrow> bool" where
  "cmd_line_ok l \<longleftrightarrow> printable l \<and> length l < kTerminalColumns"

text \<open>\<open>sim\<close> relates the terminal and the rest of the system to the state that the reference editor acts on.\<close>

definition term_shows :: "(Terminal \<Rightarrow> 'w \<Rightarrow> 'v \<Rightarrow> bool) \<Rightarrow> Terminal \<times> 'w \<Rightarrow> 'v editor \<Rightarrow> bool" where
  "term_shows sim s e \<longleftrightarrow> (case s of (t, w) \<Rightarrow> screen_ok t \<and> sim t w (world e) \<and>
     linebuf_index t = length (typed e) \<and> take (length (typed e)) (linebuf t) = typed e \<and> cmd_line_ok (typed e) \<and>
     vx (cursor t) = int (start e + length (typed e)) \<and>
     list_all2 (\<lambda>a l. c_string a = Some l \<and> cmd_line_ok l) (cmd_history t) (past e) \<and>
     cmd_history_index t = place e \<and> -1 \<le> place e \<and> place e < int (length (past e)))"

text \<open>Every line that the reference editor submits satisfies \<open>okay\<close> where it is submitted.\<close>

fun submits :: "(u8 list \<Rightarrow> 'v \<Rightarrow> bool) \<Rightarrow> (u8 list \<Rightarrow> 'v \<Rightarrow> 'v \<times> nat) \<Rightarrow> (u8 \<times> u32) list \<Rightarrow> 'v editor \<Rightarrow> bool" where
  "submits okay run [] e \<longleftrightarrow> True"
| "submits okay run (k # ks) e \<longleftrightarrow> (snd k = 10 \<longrightarrow> okay (typed e) (world e)) \<and> submits okay run ks (edit_key run k e)"

text \<open>What the line editor relies on: on the lines it accepts, at the start of a row, the executor simulates \<open>run\<close>. It may
  print, but it leaves the editor alone and the cursor on the screen; and editing a line does not matter to it.\<close>

locale line_executor =
  fixes sim :: "Terminal \<Rightarrow> 'w \<Rightarrow> 'v \<Rightarrow> bool" and okay :: "u8 list \<Rightarrow> 'v \<Rightarrow> bool"
    and run :: "u8 list \<Rightarrow> 'v \<Rightarrow> 'v \<times> nat" and ExecuteLine :: "'w executor"
  assumes edits: "sim t w v \<Longrightarrow> term_files t' = term_files t \<Longrightarrow> last_exit_code t' = last_exit_code t \<Longrightarrow> sim t' w v"
    and executes: "screen_ok t \<Longrightarrow> vx (cursor t) = 0 \<Longrightarrow> sim t w v \<Longrightarrow> c_string (linebuf t) = Some l \<Longrightarrow> cmd_line_ok l \<Longrightarrow> okay l v \<Longrightarrow>
      \<exists>t' w' es. ExecuteLine t w = Some (t', w', es) \<and> screen_ok t' \<and> in_window es \<and> sim t' w' (fst (run l v)) \<and>
        vx (cursor t') = int (snd (run l v)) \<and> linebuf_index t' = linebuf_index t \<and>
        cmd_history t' = cmd_history t \<and> cmd_history_index t' = cmd_history_index t"

subsection \<open>Drawings stay on the window\<close>

lemma term_size_simps [simp]: "vx term_size = 400" "vy term_size = 308"
  by (simp_all add: term_size_def kTerminalColumns_def kTerminalRows_def kMarginX_def kMarginY_def kTopLeftMargin_def kBottomRightMargin_def)

lemma in_window_simps [simp]:
  "in_window []" "in_window (Paint ds # es) = (inside ds 400 308 \<and> in_window es)"
  "in_window (MoveText p r # es) = in_window es" "in_window (Post i m # es) = in_window es"
  "in_window (es @ es') = (in_window es \<and> in_window es')"
  by (auto simp: in_window_def)

lemma DrawCursor_in_window: "screen_ok t \<Longrightarrow> in_window (DrawCursor on t)"
  by (auto simp: DrawCursor_def screen_ok_def CalcCursorPos_def kTopLeftMargin_def kTerminalColumns_def kTerminalRows_def intro!: inside_FillRectangle)

lemma term_newline_ok:
  assumes "screen_ok t"
  shows "\<exists>es y. term_newline t = Some (t\<lparr>cursor := Vec 0 y\<rparr>, es) \<and> screen_ok (t\<lparr>cursor := Vec 0 y\<rparr>) \<and> in_window es"
proof (cases "vy (cursor t) < int kTerminalRows - 1")
  case True
  then show ?thesis using assms
    by (intro exI[of _ "[]"] exI[of _ "vy (cursor t) + 1"]) (simp add: term_newline_def screen_ok_def)
next
  case False
  then have y: "vy (cursor t) = 16" using assms by (simp add: screen_ok_def kTerminalRows_def)
  have "inside (inner (FillRectangle (Vec 4 (4 + 16 * 16)) (Vec (8 * int kTerminalColumns) 16) (Color 0 0 0))) 400 308"
    by (intro inside_inner_fill) (simp_all add: kTerminalColumns_def)
  then show ?thesis using False assms y
    by (intro exI[of _ "the (Scroll1 (t\<lparr>cursor := Vec 0 16\<rparr>))"] exI[of _ 16]) (auto simp: term_newline_def Scroll1_def screen_ok_def)
qed

lemma glyph_inside:
  assumes "0 \<le> x" "x + char_width fonts c \<le> int kTerminalColumns" "0 \<le> y" "y < int kTerminalRows"
  shows "inside (fst (WriteUnicodeChar fonts (kTopLeftMargin + Vec (4 + 8 * x) (4 + 16 * y)) c color)) 400 308"
proof (rule inside_rect[where r = "Rect (kTopLeftMargin + Vec (4 + 8 * x) (4 + 16 * y)) (Vec (8 * char_width fonts c) 16)"])
  fix p d
  assume "(p, d) \<in> set (fst (WriteUnicodeChar fonts (kTopLeftMargin + Vec (4 + 8 * x) (4 + 16 * y)) c color))"
  then show "in_rect p (Rect (kTopLeftMargin + Vec (4 + 8 * x) (4 + 16 * y)) (Vec (8 * char_width fonts c) 16))"
    using WriteUnicodeChar_box by blast
qed (use assms in \<open>simp_all add: kTopLeftMargin_def kTerminalColumns_def kTerminalRows_def\<close>)

text \<open>Every character is printed inside the window, wherever the cursor is, and leaves the cursor in it.\<close>

lemma Print_char_ok:
  assumes "screen_ok t"
  shows "\<exists>p es. Print_char fonts c t = Some (t\<lparr>cursor := p\<rparr>, es) \<and> screen_ok (t\<lparr>cursor := p\<rparr>) \<and> in_window es \<and>
    (c \<noteq> 10 \<and> IsHankaku fonts c \<longrightarrow> vx p = (if vx (cursor t) = int kTerminalColumns then 0 else vx (cursor t)) + 1)"
proof -
  obtain es0 y where nl: "term_newline t = Some (t\<lparr>cursor := Vec 0 y\<rparr>, es0)" "screen_ok (t\<lparr>cursor := Vec 0 y\<rparr>)" "in_window es0"
    using term_newline_ok[OF assms] by blast
  have sw: "show_window t" "term_window t \<noteq> None" using assms by (auto simp: screen_ok_def)
  consider "c = 10" | "c \<noteq> 10" "IsHankaku fonts c" | "c \<noteq> 10" "\<not> IsHankaku fonts c" by blast
  then show ?thesis
  proof cases
    case 1
    then show ?thesis using nl sw by (auto simp: Print_char_def)
  next
    case 2
    have w: "char_width fonts c = 1" using 2(2) by (simp add: char_width_def)
    define wrap where "wrap = (vx (cursor t) = int kTerminalColumns)"
    define t1 es1 where "t1 = (if wrap then t\<lparr>cursor := Vec 0 y\<rparr> else t)" and "es1 = (if wrap then es0 else [])"
    have st: "(if vx (cursor t) = int kTerminalColumns then term_newline t else Some (t, [])) = Some (t1, es1)" "in_window es1" "screen_ok t1"
      using nl assms by (auto simp: t1_def es1_def wrap_def)
    have x: "vx (cursor t1) = (if vx (cursor t) = int kTerminalColumns then 0 else vx (cursor t))" "vx (cursor t1) + 1 \<le> int kTerminalColumns"
      using assms by (auto simp: t1_def wrap_def screen_ok_def kTerminalColumns_def)
    have g: "inside (fst (WriteUnicodeChar fonts (CalcCursorPos t1) c (Color 255 255 255))) 400 308"
      unfolding CalcCursorPos_def by (rule glyph_inside) (use st(3) x w in \<open>auto simp: screen_ok_def\<close>)
    have tw: "t1\<lparr>cursor := p\<rparr> = t\<lparr>cursor := p\<rparr>" "term_window t1 = term_window t" for p by (simp_all add: t1_def)
    have "Print_char fonts c t = Some (t\<lparr>cursor := Vec (vx (cursor t1) + 1) (vy (cursor t1))\<rparr>,
        es1 @ [Paint (fst (WriteUnicodeChar fonts (CalcCursorPos t1) c (Color 255 255 255)))])"
      using 2 sw st(1) tw by (auto simp: Print_char_def put_glyph_def)
    moreover have "screen_ok (t\<lparr>cursor := Vec (vx (cursor t1) + 1) (vy (cursor t1))\<rparr>)"
      using st(3) x(2) assms by (simp add: screen_ok_def)
    ultimately show ?thesis using st(2) g x(1) by auto
  next
    case 3
    have w: "char_width fonts c = 2" using 3(2) by (simp add: char_width_def)
    define wrap where "wrap = (int kTerminalColumns - 1 \<le> vx (cursor t))"
    define t1 es1 where "t1 = (if wrap then t\<lparr>cursor := Vec 0 y\<rparr> else t)" and "es1 = (if wrap then es0 else [])"
    have st: "(if int kTerminalColumns - 1 \<le> vx (cursor t) then term_newline t else Some (t, [])) = Some (t1, es1)" "in_window es1" "screen_ok t1"
      using nl assms by (auto simp: t1_def es1_def wrap_def)
    have x: "vx (cursor t1) + 2 \<le> int kTerminalColumns"
      using assms by (auto simp: t1_def wrap_def screen_ok_def kTerminalColumns_def)
    have g: "inside (fst (WriteUnicodeChar fonts (CalcCursorPos t1) c (Color 255 255 255))) 400 308"
      unfolding CalcCursorPos_def by (rule glyph_inside) (use st(3) x w in \<open>auto simp: screen_ok_def\<close>)
    have tw: "t1\<lparr>cursor := p\<rparr> = t\<lparr>cursor := p\<rparr>" "term_window t1 = term_window t" for p by (simp_all add: t1_def)
    have "Print_char fonts c t = Some (t\<lparr>cursor := Vec (vx (cursor t1) + 2) (vy (cursor t1))\<rparr>,
        es1 @ [Paint (fst (WriteUnicodeChar fonts (CalcCursorPos t1) c (Color 255 255 255)))])"
      using 3 sw st(1) tw by (auto simp: Print_char_def put_glyph_def)
    moreover have "screen_ok (t\<lparr>cursor := Vec (vx (cursor t1) + 2) (vy (cursor t1))\<rparr>)"
      using st(3) x assms by (simp add: screen_ok_def)
    ultimately show ?thesis using 3(2) st(2) g by auto
  qed
qed

lemma print_string_ok:
  assumes "\<forall>c \<in> set cs. 0 < unat c \<and> unat c < 2 ^ 21" and "screen_ok t"
  shows "\<exists>p es. print_string fonts (encode cs @ 0 # rest) None t = Some (t\<lparr>cursor := p\<rparr>, es) \<and>
    screen_ok (t\<lparr>cursor := p\<rparr>) \<and> in_window es \<and>
    (cs = [c] \<and> c \<noteq> 10 \<and> IsHankaku fonts c \<longrightarrow> vx p = (if vx (cursor t) = int kTerminalColumns then 0 else vx (cursor t)) + 1)"
  using assms
proof (induction cs arbitrary: t)
  case Nil
  then show ?case
    by (intro exI[of _ "cursor t"] exI[of _ "[]"]) (simp add: print_string.simps encode_def)
next
  case (Cons u us)
  have u: "0 < unat u" "unat u < 2 ^ 21" using Cons.prems(1) by auto
  obtain h hs where h: "ConvertUTF32toUTF8 u = h # hs" "h \<noteq> 0" using encode_head[OF u] by auto
  have conv: "ConvertUTF8To32 (encode (u # us) @ 0 # rest) = Some (u, length (ConvertUTF32toUTF8 u))"
    using utf8_roundtrip[OF u(2), of "encode us @ 0 # rest"] by (simp add: encode_def)
  have dr: "drop (length (ConvertUTF32toUTF8 u)) (encode (u # us) @ 0 # rest) = encode us @ 0 # rest" by (simp add: encode_def)
  obtain p1 es1 where 1: "Print_char fonts u t = Some (t\<lparr>cursor := p1\<rparr>, es1)" "screen_ok (t\<lparr>cursor := p1\<rparr>)" "in_window es1"
    "u \<noteq> 10 \<and> IsHankaku fonts u \<longrightarrow> vx p1 = (if vx (cursor t) = int kTerminalColumns then 0 else vx (cursor t)) + 1"
    using Print_char_ok[OF Cons.prems(2), of fonts u] by blast
  have pre: "\<forall>c \<in> set us. 0 < unat c \<and> unat c < 2 ^ 21" using Cons.prems(1) by simp
  obtain p2 es2 where 2: "print_string fonts (encode us @ 0 # rest) None (t\<lparr>cursor := p1\<rparr>) = Some (t\<lparr>cursor := p1, cursor := p2\<rparr>, es2)"
    "screen_ok (t\<lparr>cursor := p1, cursor := p2\<rparr>)" "in_window es2"
    using Cons.IH[OF pre 1(2)] by blast
  have same: "p2 = p1" if "us = []"
  proof -
    have "print_string fonts (0 # rest) None t' = Some (t', [])" for t' by (subst print_string.simps) simp
    then have "t\<lparr>cursor := p1\<rparr> = t\<lparr>cursor := p2\<rparr>" using 2(1) that by (simp add: encode_def)
    then have "cursor (t\<lparr>cursor := p1\<rparr>) = cursor (t\<lparr>cursor := p2\<rparr>)" by (rule arg_cong)
    then show ?thesis by simp
  qed
  have "print_string fonts (encode (u # us) @ 0 # rest) None t = Some (t\<lparr>cursor := p2\<rparr>, es1 @ es2)"
  proof -
    have "encode (u # us) @ 0 # rest = h # (hs @ encode us @ 0 # rest)" by (simp add: encode_def h(1))
    then show ?thesis
      using conv dr h 1(1) 2(1) by (subst print_string.simps) (simp add: h(1))
  qed
  moreover have "screen_ok (t\<lparr>cursor := p2\<rparr>)" using 2(2) by simp
  moreover have "in_window (es1 @ es2)" using 1(3) 2(3) by simp
  moreover have "u # us = [c] \<and> c \<noteq> 10 \<and> IsHankaku fonts c \<longrightarrow> vx p2 = (if vx (cursor t) = int kTerminalColumns then 0 else vx (cursor t)) + 1"
    using 1(4) same by simp
  ultimately show ?case by blast
qed

lemma Print_ok:
  assumes "\<forall>c \<in> set cs. 0 < unat c \<and> unat c < 2 ^ 21" and "screen_ok t"
  shows "\<exists>p es. Print fonts ns (encode cs @ 0 # rest) None t = Some (t\<lparr>cursor := p\<rparr>, es) \<and>
    screen_ok (t\<lparr>cursor := p\<rparr>) \<and> in_window es \<and>
    (cs = [c] \<and> c \<noteq> 10 \<and> IsHankaku fonts c \<longrightarrow> vx p = (if vx (cursor t) = int kTerminalColumns then 0 else vx (cursor t)) + 1)"
proof -
  obtain p es where p: "print_string fonts (encode cs @ 0 # rest) None t = Some (t\<lparr>cursor := p\<rparr>, es)"
    "screen_ok (t\<lparr>cursor := p\<rparr>)" "in_window es"
    "cs = [c] \<and> c \<noteq> 10 \<and> IsHankaku fonts c \<longrightarrow> vx p = (if vx (cursor t) = int kTerminalColumns then 0 else vx (cursor t)) + 1"
    using print_string_ok[OF assms, of fonts rest c] by blast
  show ?thesis
    using p DrawCursor_in_window[OF assms(2)] DrawCursor_in_window[OF p(2)]
    by (intro exI[of _ p]) (simp add: Print_def draw_message_def Let_def)
qed

subsection \<open>One key\<close>

lemma c_string_append: "\<forall>c \<in> set l. c \<noteq> 0 \<Longrightarrow> c_string (l @ 0 # r) = Some l"
  by (simp add: c_string_def takeWhile_append2)

lemma printable_nz: "printable l \<Longrightarrow> \<forall>c \<in> set l. c \<noteq> 0"
  by (auto simp: printable_def word_le_nat_alt)

lemma printable_char:
  assumes "0x20 \<le> c" and "c < 0x7f"
  shows "ConvertUTF32toUTF8 (ucast c) = [c]" "0x20 \<le> unat (ucast c :: u32)" "unat (ucast c :: u32) < 0x7f"
proof -
  have u: "unat (ucast c :: u32) = unat (c :: u8)" by (rule unat_ucast_up) simp
  have r: "0x20 \<le> unat c" "unat c < 0x7f" using assms by (simp_all add: word_le_nat_alt word_less_nat_alt)
  show "0x20 \<le> unat (ucast c :: u32)" "unat (ucast c :: u32) < 0x7f" using r u by simp_all
  have "(ucast (ucast c :: u32) :: u8) = c" by (rule bit_word_eqI) (simp add: bit_ucast_iff)
  then show "ConvertUTF32toUTF8 (ucast c) = [c]" using r u by (simp add: ConvertUTF32toUTF8_def word_le_nat_alt)
qed

lemma encode_printable:
  assumes "printable l"
  shows "encode (map ucast l) = l" "\<forall>c \<in> set (map ucast l). 0 < unat (c :: u32) \<and> unat c < 2 ^ 21"
    "ascii_fonts fonts \<Longrightarrow> sum_list (map (char_width fonts) (map ucast l)) = int (length l)"
proof -
  have c: "ConvertUTF32toUTF8 (ucast c) = [c]" "0x20 \<le> unat (ucast c :: u32)" "unat (ucast c :: u32) < 0x7f" if "c \<in> set l" for c
    using printable_char assms that by (auto simp: printable_def)
  show "encode (map ucast l) = l" using c(1) by (induction l) (auto simp: encode_def)
  show "\<forall>c \<in> set (map ucast l). 0 < unat (c :: u32) \<and> unat c < 2 ^ 21" using c(2,3) by fastforce
  show "sum_list (map (char_width fonts) (map ucast l)) = int (length l)" if "ascii_fonts fonts"
  proof -
    have "char_width fonts (ucast c) = 1" if "c \<in> set l" for c
      using \<open>ascii_fonts fonts\<close> c(2,3)[OF that] by (simp add: ascii_fonts_def char_width_def)
    then show ?thesis by (induction l) auto
  qed
qed

lemma list_all2_butlast: "list_all2 P xs ys \<Longrightarrow> list_all2 P (butlast xs) (butlast ys)"
  using list_all2_takeI[of P xs ys "length ys - 1"] list_all2_lengthD[of P xs ys] by (simp add: butlast_conv_take)

text \<open>What the cases of \<open>InputKey\<close> have in common.\<close>

definition key_ok :: "(Terminal \<Rightarrow> 'w \<Rightarrow> 'v \<Rightarrow> bool) \<Rightarrow> (Terminal \<times> 'w \<times> TermEffect list \<times> Rectangle) option \<Rightarrow> 'v editor \<Rightarrow> bool" where
  "key_ok sim r e \<longleftrightarrow> (\<exists>t w es area. r = Some (t, w, es, area) \<and> term_shows sim (t, w) e \<and> in_window es)"

context line_executor begin

lemma enter_ok:
  assumes st: "term_shows sim (t, w) e" and ex: "okay (typed e) (world e)" and f: "ascii_fonts fonts"
  shows "key_ok sim (enter_key fonts ns ExecuteLine t w) (submit run e)"
proof -
  let ?l = "typed e" and ?i = "linebuf_index t"
  have e: "screen_ok t" "sim t w (world e)" "?i = length ?l" "take (length ?l) (linebuf t) = ?l" "cmd_line_ok ?l"
    "list_all2 (\<lambda>a l. c_string a = Some l \<and> cmd_line_ok l) (cmd_history t) (past e)" "cmd_history_index t = place e"
    using st by (auto simp: term_shows_def)
  have i: "?i < length (linebuf t)" using e(1,3,5) by (simp add: screen_ok_def cmd_line_ok_def kTerminalColumns_def kLineMax_def)
  define t1 where "t1 = t\<lparr>linebuf := (linebuf t)[?i := 0]\<rparr>"
  have "(linebuf t)[?i := 0] = ?l @ 0 # drop (Suc ?i) (linebuf t)"
    using i e(3,4) upd_conv_take_nth_drop[OF i] by simp
  then have c: "c_string (linebuf t1) = Some ?l"
    using c_string_append[OF printable_nz[of ?l]] e(5) by (simp add: t1_def cmd_line_ok_def)
  define t2 where "t2 = (if 0 < linebuf_index t1 then t1\<lparr>cmd_history := linebuf t1 # butlast (cmd_history t1)\<rparr> else t1)"
  let ?past = "if ?l = [] then past e else ?l # butlast (past e)"
  have hist: "list_all2 (\<lambda>a l. c_string a = Some l \<and> cmd_line_ok l) (cmd_history t2) ?past"
    using e(3,5,6) c list_all2_butlast[OF e(6)] by (simp add: t2_def t1_def)
  let ?t2 = "t2\<lparr>linebuf_index := 0, cmd_history_index := -1\<rparr>"
  have "screen_ok ?t2" using e(1) by (simp add: t2_def t1_def screen_ok_def)
  from term_newline_ok[OF this] obtain es3 y where 3: "term_newline ?t2 = Some (?t2\<lparr>cursor := Vec 0 y\<rparr>, es3)"
    "screen_ok (?t2\<lparr>cursor := Vec 0 y\<rparr>)" "in_window es3" by blast
  have c3: "c_string (linebuf (?t2\<lparr>cursor := Vec 0 y\<rparr>)) = Some ?l" using c by (simp add: t2_def)
  obtain v' col where run: "run ?l (world e) = (v', col)" by (cases "run ?l (world e)")
  have s3: "sim (?t2\<lparr>cursor := Vec 0 y\<rparr>) w (world e)" using edits[OF e(2)] by (simp add: t2_def t1_def)
  obtain t4 w' es4 where 4: "ExecuteLine (?t2\<lparr>cursor := Vec 0 y\<rparr>) w = Some (t4, w', es4)" "screen_ok t4" "in_window es4"
    "vx (cursor t4) = int col" "linebuf_index t4 = 0" "cmd_history t4 = cmd_history t2" "cmd_history_index t4 = -1" "sim t4 w' v'"
    using executes[OF 3(2) _ s3 c3 e(5) ex] run by auto
  have enc: "encode [0x3e] @ 0 # [] = [0x3e, 0]" by (simp add: encode_def ConvertUTF32toUTF8_def)
  have pr: "\<forall>c \<in> set [0x3e :: u32]. 0 < unat c \<and> unat c < 2 ^ 21" by simp
  have h: "IsHankaku fonts 0x3e" using f by (simp add: ascii_fonts_def)
  obtain p es5 where 5: "Print fonts ns [0x3e, 0] None t4 = Some (t4\<lparr>cursor := p\<rparr>, es5)" "screen_ok (t4\<lparr>cursor := p\<rparr>)" "in_window es5"
    "vx p = (if vx (cursor t4) = int kTerminalColumns then 0 else vx (cursor t4)) + 1"
    using Print_ok[OF pr 4(2), of fonts ns "[]" "0x3e"] h unfolding enc by auto
  have sub: "submit run e = \<lparr>typed = [], start = (if col = kTerminalColumns then 0 else col) + 1, past = ?past, place = -1, world = v'\<rparr>"
    using run by (simp add: submit_def)
  have "term_shows sim (t4\<lparr>cursor := p\<rparr>, w') (submit run e)"
    using 4(4-7) 5(2,4) hist edits[OF 4(8)] unfolding sub by (simp add: term_shows_def cmd_line_ok_def printable_def kTerminalColumns_def)
  moreover have "enter_key fonts ns ExecuteLine t w = Some (t4\<lparr>cursor := p\<rparr>, w', es3 @ es4 @ es5,
      Rect kTopLeftMargin (term_inner_size ns (t4\<lparr>cursor := p\<rparr>)))"
    using i 3(1) 4(1) 5(1) unfolding enter_key_def t1_def[symmetric] Let_def t2_def[symmetric] by simp
  ultimately show ?thesis using 3(3) 4(3) 5(3) by (auto simp: key_ok_def)
qed

lemma backspace_ok:
  assumes st: "term_shows sim (t, w) e"
  shows "key_ok sim (map_option (\<lambda>(t', es, area'). (t', w, es, area')) (backspace_key area t)) (edit_key run (keycode, 8) e)"
proof -
  let ?l = "typed e"
  have e: "screen_ok t" "linebuf_index t = length ?l" "take (length ?l) (linebuf t) = ?l" "cmd_line_ok ?l"
    "vx (cursor t) = int (start e + length ?l)"
    using st by (auto simp: term_shows_def)
  show ?thesis
  proof (cases "0 < vx (cursor t)")
    case False
    then have "start e + length ?l = 0" using e(5) by linarith
    then have "typed e = []" "start e = 0" by simp_all
    then have "edit_key run (keycode, 8) e = e" by (cases e) simp
    then show ?thesis using False st by (auto simp: key_ok_def backspace_key_def)
  next
    case True
    let ?t1 = "t\<lparr>cursor := Vec (vx (cursor t) - 1) (vy (cursor t))\<rparr>"
    let ?t = "?t1\<lparr>linebuf_index := (if 0 < linebuf_index t then linebuf_index t - 1 else 0)\<rparr>"
    have ok: "screen_ok ?t" using e(1) True by (simp add: screen_ok_def)
    have "inside (FillRectangle (CalcCursorPos ?t1) (Vec 8 16) (Color 0 0 0)) 400 308"
      using e(1) True by (intro inside_FillRectangle) (auto simp: screen_ok_def CalcCursorPos_def kTopLeftMargin_def kTerminalColumns_def kTerminalRows_def)
    moreover have "take (length (butlast ?l)) (linebuf t) = butlast ?l"
      using e(3) by (metis butlast_take length_butlast length_take min.cobounded1 take_all_iff butlast_conv_take take_take min.absorb1 diff_le_self)
    moreover have "cmd_line_ok (butlast ?l)" using e(4) by (auto simp: cmd_line_ok_def printable_def dest: in_set_butlastD)
    moreover have "int (length ?l - Suc 0) = int (length ?l) - 1" if "?l \<noteq> []" using that by (cases ?l) auto
    moreover have "sim ?t w (world e)" using st edits[of t w "world e" ?t] by (simp add: term_shows_def)
    ultimately show ?thesis using True st ok e(2,5)
      by (cases "?l = []") (auto simp: key_ok_def backspace_key_def term_shows_def Let_def)
  qed
qed

lemma char_ok:
  assumes st: "term_shows sim (t, w) e" and f: "ascii_fonts fonts" and u: "0x20 \<le> unat u" "unat u < 0x7f"
  shows "key_ok sim (map_option (\<lambda>(t', es, area'). (t', w, es, area')) (char_key fonts u area t)) (edit_key run (keycode, u) e)"
proof -
  let ?l = "typed e" and ?c = "ucast u :: u8"
  have e: "screen_ok t" "linebuf_index t = length ?l" "take (length ?l) (linebuf t) = ?l" "cmd_line_ok ?l"
    "vx (cursor t) = int (start e + length ?l)"
    using st by (auto simp: term_shows_def)
  have nz: "u \<noteq> 10" "u \<noteq> 8" "u \<noteq> 0" using u by auto
  have room: "vx (cursor t) < int kTerminalColumns - 1 \<and> linebuf_index t < kLineMax - 1 \<longleftrightarrow> start e + length ?l < kTerminalColumns - 1"
    using e(2,4,5) by (auto simp: cmd_line_ok_def kTerminalColumns_def kLineMax_def)
  show ?thesis
  proof (cases "start e + length ?l < kTerminalColumns - 1")
    case False
    then show ?thesis using nz room st by (auto simp: key_ok_def char_key_def)
  next
    case True
    let ?t = "t\<lparr>linebuf := (linebuf t)[linebuf_index t := ?c], linebuf_index := linebuf_index t + 1,
                cursor := Vec (vx (cursor t) + 1) (vy (cursor t))\<rparr>"
    have len: "length (linebuf t) = 128" using e(1) by (simp add: screen_ok_def kLineMax_def)
    have sz: "length ?l < 128" using True by (simp add: kTerminalColumns_def)
    have "take (Suc (length ?l)) ((linebuf t)[length ?l := ?c]) = ?l @ [?c]"
      using sz len e(3) by (simp add: take_Suc_conv_app_nth)
    moreover have "unat ?c = unat u" using u by (simp add: unsigned_ucast_eq take_bit_eq_mod)
    then have "printable [?c]" using u by (simp add: printable_def word_le_nat_alt word_less_nat_alt)
    then have "cmd_line_ok (?l @ [?c])" using e(4) True by (simp add: cmd_line_ok_def printable_def)
    moreover have "screen_ok ?t" using e(1) True e(5) by (simp add: screen_ok_def)
    ultimately have sh: "term_shows sim (?t, w) (e\<lparr>typed := ?l @ [?c]\<rparr>)"
      using st e(2) edits[of t w "world e" ?t] by (simp add: term_shows_def)
    have "char_width fonts u = 1" using f u by (simp add: ascii_fonts_def char_width_def)
    then have "inside (fst (WriteUnicodeChar fonts (CalcCursorPos t) u (Color 255 255 255))) 400 308"
      unfolding CalcCursorPos_def using e(1,5) True by (intro glyph_inside) (auto simp: screen_ok_def)
    then show ?thesis using nz room True sh by (auto simp: key_ok_def char_key_def)
  qed
qed

lemma recall_ok:
  assumes st: "term_shows sim (t, w) e" and f: "ascii_fonts fonts"
    and i: "i = (if direction = -1 \<and> 0 \<le> place e then place e - 1
                 else if direction = 1 \<and> place e + 1 < int (length (past e)) then place e + 1 else place e)"
  shows "key_ok sim (map_option (\<lambda>(t', es, area'). (t', w, es, area')) (HistoryUpDown fonts direction t)) (recall i e)"
proof -
  have e: "screen_ok t" "list_all2 (\<lambda>a l. c_string a = Some l \<and> cmd_line_ok l) (cmd_history t) (past e)"
    "cmd_history_index t = place e" "-1 \<le> place e" "place e < int (length (past e))"
    using st by (auto simp: term_shows_def)
  have hl: "length (cmd_history t) = length (past e)" using list_all2_lengthD[OF e(2)] .
  have ir: "-1 \<le> i" "i < int (length (past e))" using i e(4,5) by auto
  have ic: "i = (if direction = -1 \<and> 0 \<le> cmd_history_index t then cmd_history_index t - 1
      else if direction = 1 \<and> cmd_history_index t + 1 < int (length (cmd_history t)) then cmd_history_index t + 1
      else cmd_history_index t)" using i e(3) hl by simp
  define l where "l = (if 0 \<le> i then past e ! nat i else [])"
  have hist: "(if 0 \<le> i then c_string (cmd_history t ! nat i) else Some []) = Some l" "cmd_line_ok l"
    using list_all2_nthD2[OF e(2), of "nat i"] ir(2) by (auto simp: l_def cmd_line_ok_def printable_def kTerminalColumns_def)
  have len: "length l < 48" "length (linebuf t) = 128" using hist(2) e(1) by (simp_all add: cmd_line_ok_def kTerminalColumns_def screen_ok_def kLineMax_def)
  have pl: "printable l" using hist(2) by (simp add: cmd_line_ok_def)
  let ?pos = "CalcCursorPos (t\<lparr>cursor := Vec 1 (vy (cursor t))\<rparr>)"
  have wr: "WriteUTF8String fonts ?pos (l @ [0]) (Color 255 255 255) =
      Some (string_drawing fonts ?pos (map ucast l) (Color 255 255 255) 0, int (length l))"
    using WriteUTF8String_encoded[OF encode_printable(2)[OF pl], of fonts ?pos "[]"] encode_printable(1)[OF pl] encode_printable(3)[OF pl f] by simp
  obtain q where q: "term_window t = Some q" "0 \<le> vy (cursor t)" "vy (cursor t) < 17" "show_window t"
    using e(1) by (auto simp: screen_ok_def kTerminalRows_def)
  have "inside (string_drawing fonts ?pos (map ucast l) (Color 255 255 255) 0) 400 308"
    by (rule string_drawing_inside) (use q encode_printable(3)[OF pl f] len in \<open>simp_all add: CalcCursorPos_def kTopLeftMargin_def\<close>)
  moreover have "inside (FillRectangle ?pos (Vec (8 * (int kTerminalColumns - 1)) 16) (Color 0 0 0)) 400 308"
    by (rule inside_FillRectangle) (use q in \<open>simp_all add: CalcCursorPos_def kTopLeftMargin_def kTerminalColumns_def\<close>)
  moreover define t' where "t' = t\<lparr>cmd_history_index := i, linebuf := (l @ [0]) @ drop (length l + 1) (linebuf t),
    linebuf_index := length l, cursor := Vec (int (length l) + 1) (vy (cursor t))\<rparr>"
  have "HistoryUpDown fonts direction t = Some (t', [Paint (FillRectangle ?pos (Vec (8 * (int kTerminalColumns - 1)) 16) (Color 0 0 0)),
      Paint (string_drawing fonts ?pos (map ucast l) (Color 255 255 255) 0)], Rect ?pos (Vec (8 * (int kTerminalColumns - 1)) 16))"
  proof -
    have p: "CalcCursorPos (t\<lparr>cmd_history_index := i, cursor := Vec 1 (vy (cursor t))\<rparr>) = ?pos" by (simp add: CalcCursorPos_def)
    show ?thesis unfolding HistoryUpDown_def Let_def ic[symmetric] p using hist(1) q(1) wr
      by (cases "0 \<le> i") (simp_all add: t'_def)
  qed
  moreover have "screen_ok t'" using e(1) len by (simp add: t'_def screen_ok_def kTerminalColumns_def kLineMax_def)
  then have "term_shows sim (t', w) (recall i e)"
    using st hist(2) ir edits[of t w "world e" t'] unfolding term_shows_def recall_def l_def[symmetric] by (simp add: t'_def)
  ultimately show ?thesis by (simp add: key_ok_def)
qed

text \<open>Every key.\<close>

lemma InputKey_ok:
  assumes st: "term_shows sim (t, w) e" and ex: "u = 10 \<longrightarrow> okay (typed e) (world e)" and f: "ascii_fonts fonts"
    and k: "ascii_key (keycode, u)"
  shows "\<exists>s es area. InputKey fonts ns ExecuteLine modifier keycode u (t, w) = Some (s, es, area) \<and>
    term_shows sim s (edit_key run (keycode, u) e) \<and> in_window es"
proof -
  let ?area = "Rect (CalcCursorPos t) (Vec (8 * 2) 16)"
  let ?lift = "map_option (\<lambda>(t', es, area'). (t', w, es, area'))"
  let ?r = "if u = 10 then enter_key fonts ns ExecuteLine t w
        else ?lift
          (if u = 8 then backspace_key ?area t
           else if u \<noteq> 0 then char_key fonts u ?area t
           else if keycode = 0x51 then HistoryUpDown fonts (-1) t
           else if keycode = 0x52 then HistoryUpDown fonts 1 t
           else Some (t, [], ?area))"
  consider "u = 10" | "u = 8" | "0x20 \<le> unat u" "unat u < 0x7f" | "u = 0" "keycode = 0x51" | "u = 0" "keycode = 0x52"
    | "u = 0" "keycode \<noteq> 0x51" "keycode \<noteq> 0x52"
    using k by (auto simp: ascii_key_def Let_def word_unat_eq_iff)
  then have "key_ok sim ?r (edit_key run (keycode, u) e)"
  proof cases
    case 1
    then show ?thesis using enter_ok[OF st _ f] ex by simp
  next
    case 2
    then show ?thesis using backspace_ok[OF st, of ?area keycode] by simp
  next
    case 3
    then have "u \<noteq> 10" "u \<noteq> 8" "u \<noteq> 0" by auto
    then show ?thesis using char_ok[OF st f 3, of ?area keycode] by simp
  next
    case 4
    have "(if 0 \<le> place e then place e - 1 else place e) = (if (-1 :: int) = -1 \<and> 0 \<le> place e then place e - 1
        else if (-1 :: int) = 1 \<and> place e + 1 < int (length (past e)) then place e + 1 else place e)" by simp
    from 4 recall_ok[OF st f this] show ?thesis by simp
  next
    case 5
    have "(if place e + 1 < int (length (past e)) then place e + 1 else place e) = (if (1 :: int) = -1 \<and> 0 \<le> place e then place e - 1
        else if (1 :: int) = 1 \<and> place e + 1 < int (length (past e)) then place e + 1 else place e)" by simp
    from 5 recall_ok[OF st f this] show ?thesis by simp
  next
    case 6
    then show ?thesis using st by (auto simp: key_ok_def)
  qed
  then obtain t' w' es area where r: "?r = Some (t', w', es, area)" "term_shows sim (t', w') (edit_key run (keycode, u) e)" "in_window es"
    unfolding key_ok_def by blast
  have "screen_ok t" "screen_ok t'" using st r(2) by (auto simp: term_shows_def)
  then have "in_window (DrawCursor False t @ es @ DrawCursor True t')" using r(3) DrawCursor_in_window by simp
  moreover have "InputKey fonts ns ExecuteLine modifier keycode u (t, w) =
      Some ((t', w'), DrawCursor False t @ es @ DrawCursor True t', area)"
    unfolding InputKey_def Let_def prod.case r(1) by simp
  ultimately show ?thesis using r(2) by blast
qed

lemma type_keys_ok:
  "term_shows sim s e \<Longrightarrow> submits okay run keys e \<Longrightarrow> ascii_fonts fonts \<Longrightarrow> \<forall>k \<in> set keys. ascii_key k \<Longrightarrow>
   \<exists>s' es. type_keys fonts ns ExecuteLine keys s = Some (s', es) \<and> term_shows sim s' (fold (edit_key run) keys e) \<and> in_window es"
proof (induction keys arbitrary: s e)
  case (Cons k keys)
  obtain t w where s: "s = (t, w)" by force
  obtain keycode u where k: "k = (keycode, u)" by force
  have sub: "u = 10 \<longrightarrow> okay (typed e) (world e)" "submits okay run keys (edit_key run (keycode, u) e)"
    using Cons.prems(2) unfolding k submits.simps snd_conv by blast+
  have ak: "ascii_key (keycode, u)" using Cons.prems(4) k by simp
  obtain s1 es1 area where 1: "InputKey fonts ns ExecuteLine 0 keycode u (t, w) = Some (s1, es1, area)"
    "term_shows sim s1 (edit_key run (keycode, u) e)" "in_window es1"
    using InputKey_ok[OF Cons.prems(1)[unfolded s] sub(1) Cons.prems(3) ak] by blast
  obtain s2 es2 where "type_keys fonts ns ExecuteLine keys s1 = Some (s2, es2)"
    "term_shows sim s2 (fold (edit_key run) keys (edit_key run (keycode, u) e))" "in_window es2"
    using Cons.IH[OF 1(2) sub(2) Cons.prems(3)] Cons.prems(4) by auto
  then show ?case using 1 by (auto simp: s k)
qed simp

subsection \<open>Properties\<close>

text \<open>The line editor of the terminal is the editor on lists. Whatever ASCII keys, line feeds, backspaces and arrow keys are
  typed, no access leaves the line buffer or the history, the buffer holds the line that the reference editor has, the
  eight arrays of the history hold its last non-empty lines, each line feed executes exactly the line that the reference
  submits, and all that is drawn is inside the window.\<close>

lemma type_keys_refines:
  assumes "term_shows sim s e" and "submits okay run keys e" and "ascii_fonts fonts" and "\<forall>k \<in> set keys. ascii_key k"
  shows "\<exists>t w es. type_keys fonts null_size ExecuteLine keys s = Some ((t, w), es) \<and>
    (let e' = fold (edit_key run) keys e in
       sim t w (world e') \<and> take (linebuf_index t) (linebuf t) = typed e' \<and> linebuf_index t < length (linebuf t) \<and>
       map c_string (cmd_history t) = map Some (past e') \<and> vx (cursor t) = int (start e' + length (typed e'))) \<and>
    (\<forall>ds. Paint ds \<in> set es \<longrightarrow> inside ds (vx term_size) (vy term_size))"
proof -
  obtain t w es where r: "type_keys fonts null_size ExecuteLine keys s = Some ((t, w), es)"
    "term_shows sim (t, w) (fold (edit_key run) keys e)" "in_window es"
    using type_keys_ok[OF assms] by (metis surj_pair)
  have "map c_string xs = map Some ys" if "list_all2 (\<lambda>a l. c_string a = Some l \<and> cmd_line_ok l) xs ys" for xs ys
    using that by induction auto
  then show ?thesis using r
    by (intro exI[of _ t] exI[of _ w] exI[of _ es])
      (auto simp: term_shows_def in_window_def Let_def cmd_line_ok_def screen_ok_def kLineMax_def kTerminalColumns_def)
qed

end

text \<open>Examples.\<close>

definition sample_terminal :: Terminal where
  "sample_terminal = \<lparr>term_task = 3, term_window = Some 7, term_layer = 4, cursor = Vec 1 0, term_cursor_visible = False,
     linebuf = replicate kLineMax 0, linebuf_index = 0, cmd_history = replicate 8 (replicate kLineMax 0), cmd_history_index = -1,
     show_window = True, term_files = [], last_exit_code = 0\<rparr>"

definition ascii_table :: Fonts where
  "ascii_table = \<lparr>hankaku_bin = \<lparr>glyphs = [], behind = (0, [])\<rparr>, zenkaku_bin = \<lparr>glyphs = [], behind = (0, [])\<rparr>, ft_render = (\<lambda>_. None)\<rparr>"

lemma sample_terminal_shows:
  "sim (sample_terminal\<lparr>term_files := fs\<rparr>) w v \<Longrightarrow>
   term_shows sim (sample_terminal\<lparr>term_files := fs\<rparr>, w) \<lparr>typed = [], start = 1, past = replicate 8 [], place = -1, world = v\<rparr>"
  by (simp add: term_shows_def screen_ok_def sample_terminal_def cmd_line_ok_def printable_def c_string_def list_all2_conv_all_nth
      kTerminalColumns_def kTerminalRows_def kLineMax_def takeWhile_replicate)

end
