(* ===== verification/AppLoad.thy ===== *)
theory AppLoad
  imports Paging FatFile Task
begin

text \<open>
  Starting an application: the argument vector, the ELF loader and the page maps of \<^verbatim>\<open>kernel/terminal.cpp\<close>
  (\<open>MakeArgVector\<close>, \<open>LoadELF\<close>, \<open>LoadApp\<close>). Virtual memory is written through the page maps of the machine; an address
  that is not mapped is \<open>None\<close>.
\<close>

subsection \<open>The argument vector\<close>

text \<open>\<open>isspace\<close> of the C library; its argument is a \<open>char\<close>.\<close>

definition isspace :: "u8 \<Rightarrow> bool" where
  "isspace c \<longleftrightarrow> c = 32 \<or> (9 \<le> c \<and> c \<le> 13)"

text \<open>The pointers in \<open>argv\<close> are offsets into \<open>argbuf\<close>. \<open>args\<close> is the memory of the buffer, which may be longer than
  the bound that the code tests; a copy past it is \<open>None\<close>.\<close>

record ArgVector =
  argv :: "nat list"
  arg_index :: nat
  args :: "u8 list"

definition push_to_argv :: "nat \<Rightarrow> nat \<Rightarrow> u8 list \<Rightarrow> ArgVector \<Rightarrow> (ArgVector \<times> Error_Code) option" where
  "push_to_argv argv_len argbuf_len s a =
     (if argv_len \<le> length (argv a) \<or> argbuf_len \<le> arg_index a then Some (a, kFull)
      else if length (args a) < arg_index a + length s + 1 then None
      else Some (\<lparr>argv = argv a @ [arg_index a], arg_index = arg_index a + length s + 1,
                  args = blit (arg_index a) (s @ [0]) (args a)\<rparr>, kSuccess))"

text \<open>The loop over the argument string; \<open>p\<close> is what is left of it.\<close>

function push_args :: "nat \<Rightarrow> nat \<Rightarrow> u8 list \<Rightarrow> ArgVector \<Rightarrow> (ArgVector \<times> Error_Code) option" where
  "push_args argv_len argbuf_len p a =
     (let p1 = dropWhile isspace p in
      if p1 = [] then Some (a, kSuccess)
      else (let arg = takeWhile (\<lambda>c. \<not> isspace c) p1; p2 = dropWhile (\<lambda>c. \<not> isspace c) p1 in
        case push_to_argv argv_len argbuf_len arg a of
          None \<Rightarrow> None
        | Some (a', err) \<Rightarrow>
            if is_error err then Some (a', err)
            else if p2 = [] then Some (a', kSuccess)
            else push_args argv_len argbuf_len (tl p2) a'))"
  by pat_completeness auto
termination
proof (relation "measure (\<lambda>(_, _, p, _). length p)", simp, goal_cases)
  case (1 argv_len argbuf_len p a p1 arg p2 _ a' err)
  have "length p2 \<le> length p1" using 1 by (simp add: length_dropWhile_le)
  moreover have "length p1 \<le> length p" using 1 by (simp add: length_dropWhile_le)
  moreover have "p2 \<noteq> []" using 1 by simp
  ultimately have "length (tl p2) < length p" by (cases p2) auto
  then show ?case by simp
qed

declare push_args.simps [simp del]

text \<open>Strings are given without their terminating zero; \<open>None\<close> as first argument is the null pointer.\<close>

definition MakeArgVector :: "u8 list \<Rightarrow> u8 list option \<Rightarrow> nat \<Rightarrow> u8 list \<Rightarrow> nat \<Rightarrow> (ArgVector \<times> Error_Code) option" where
  "MakeArgVector command first_arg argv_len argbuf argbuf_len = do {
     (a, err) \<leftarrow> push_to_argv argv_len argbuf_len command \<lparr>argv = [], arg_index = 0, args = argbuf\<rparr>;
     if is_error err then Some (a, err)
     else (case first_arg of
        None \<Rightarrow> Some (a, kSuccess)
      | Some p \<Rightarrow> push_args argv_len argbuf_len p a) }"

text \<open>What the application sees behind \<open>argv[i]\<close>.\<close>

definition arg_string :: "ArgVector \<Rightarrow> nat \<Rightarrow> u8 list" where
  "arg_string a i = takeWhile (\<lambda>c. c \<noteq> 0) (drop (argv a ! i) (args a))"

subsection \<open>ELF images\<close>

text \<open>The fields of \<^verbatim>\<open>kernel/elf.hpp\<close> that are used, read from the bytes of the file.\<close>

definition field :: "u8 list \<Rightarrow> nat \<Rightarrow> nat \<Rightarrow> 'a::len word" where
  "field bs off n = of_bytes (take n (drop off bs))"

record Phdr =
  p_type :: u32
  p_offset :: u64
  p_vaddr :: u64
  p_filesz :: u64
  p_memsz :: u64

definition e_type :: "u8 list \<Rightarrow> u16" where "e_type ehdr = field ehdr 16 2"
definition e_entry :: "u8 list \<Rightarrow> u64" where "e_entry ehdr = field ehdr 24 8"
definition e_phoff :: "u8 list \<Rightarrow> u64" where "e_phoff ehdr = field ehdr 32 8"
definition e_phnum :: "u8 list \<Rightarrow> u16" where "e_phnum ehdr = field ehdr 56 2"

definition ET_EXEC :: u16 where "ET_EXEC = 2"
definition PT_LOAD :: u32 where "PT_LOAD = 1"
definition sizeof_Ehdr :: nat where "sizeof_Ehdr = 64"
definition sizeof_Phdr :: nat where "sizeof_Phdr = 56"

definition decode_Phdr :: "u8 list \<Rightarrow> Phdr" where
  "decode_Phdr bs = \<lparr>p_type = field bs 0 4, p_offset = field bs 8 8, p_vaddr = field bs 16 8,
     p_filesz = field bs 32 8, p_memsz = field bs 40 8\<rparr>"

text \<open>The table of program headers; a table that leaves the file buffer is \<open>None\<close>.\<close>

definition GetProgramHeader :: "u8 list \<Rightarrow> Phdr list option" where
  "GetProgramHeader ehdr =
     (let off = unat (e_phoff ehdr); n = unat (e_phnum ehdr)
      in if length ehdr < sizeof_Ehdr \<or> length ehdr < off + n * sizeof_Phdr then None
         else Some (map (\<lambda>i. decode_Phdr (drop (off + i * sizeof_Phdr) ehdr)) [0..<n]))"

definition GetFirstLoadAddress :: "Phdr list \<Rightarrow> u64" where
  "GetFirstLoadAddress phdr = (case filter (\<lambda>p. p_type p = PT_LOAD) phdr of [] \<Rightarrow> 0 | p # _ \<Rightarrow> p_vaddr p)"

text \<open>Writing through the page maps, byte by byte.\<close>

fun write_virtual :: "u64 \<Rightarrow> u8 list \<Rightarrow> Machine \<Rightarrow> Machine option" where
  "write_virtual a [] st = Some st"
| "write_virtual a (b # bs) st =
     (case frame_at st a of
        None \<Rightarrow> None
      | Some f \<Rightarrow> write_virtual (a + 1) bs (st\<lparr>phys := (phys st)(f := (phys st f)[Part 0 a := b])\<rparr>))"

definition segment_pages :: "Phdr \<Rightarrow> nat" where
  "segment_pages p = unat (((p_vaddr p AND 4095) + p_memsz p + 4095) div 4096)"

text \<open>The copy of a segment: \<open>memset\<close> with a size below zero never returns.\<close>

definition copy_segment :: "u8 list \<Rightarrow> Phdr \<Rightarrow> Machine \<Rightarrow> Machine option" where
  "copy_segment ehdr p st =
     (if length ehdr < unat (p_offset p) + unat (p_filesz p) \<or> p_memsz p < p_filesz p then None
      else write_virtual (p_vaddr p)
             (take (unat (p_filesz p)) (drop (unat (p_offset p)) ehdr) @ replicate (unat (p_memsz p - p_filesz p)) 0) st)"

fun copy_segments :: "u8 list \<Rightarrow> Phdr list \<Rightarrow> u64 \<Rightarrow> Machine \<Rightarrow> (Machine \<times> u64 WithError) option" where
  "copy_segments ehdr [] last_addr st = Some (st, last_addr, kSuccess)"
| "copy_segments ehdr (p # ps) last_addr st =
     (if p_type p \<noteq> PT_LOAD then copy_segments ehdr ps last_addr st
      else (let last_addr' = max last_addr (p_vaddr p + p_memsz p) in
        case SetupPageMaps st (p_vaddr p) (segment_pages p) False of
          None \<Rightarrow> None
        | Some (st1, err) \<Rightarrow>
            if is_error err then Some (st1, last_addr', err)
            else (case copy_segment ehdr p st1 of
               None \<Rightarrow> None
             | Some st2 \<Rightarrow> copy_segments ehdr ps last_addr' st2)))"

definition CopyLoadSegments :: "u8 list \<Rightarrow> Machine \<Rightarrow> (Machine \<times> u64 WithError) option" where
  "CopyLoadSegments ehdr st = do { phdr \<leftarrow> GetProgramHeader ehdr; copy_segments ehdr phdr 0 st }"

definition LoadELF :: "u8 list \<Rightarrow> Machine \<Rightarrow> (Machine \<times> u64 WithError) option" where
  "LoadELF ehdr st =
     (if length ehdr < sizeof_Ehdr then None
      else if e_type ehdr \<noteq> ET_EXEC then Some (st, 0, kInvalidFormat)
      else do {
        phdr \<leftarrow> GetProgramHeader ehdr;
        let addr_first = GetFirstLoadAddress phdr;
        if addr_first < 0xffff800000000000 then Some (st, 0, kInvalidFormat)
        else CopyLoadSegments ehdr st })"

subsection \<open>Page maps and loaded applications\<close>

text \<open>\<open>cr3\<close> of a context is the address of the frame of its top map.\<close>

definition SetupPML4 :: "nat \<Rightarrow> Machine \<times> 'f TaskManager \<Rightarrow> ((Machine \<times> 'f TaskManager) \<times> nat WithError) option" where
  "SetupPML4 task s = do {
     let (st, tm) = s;
     (st1, pml4, err) \<leftarrow> NewPageMap st;
     if is_error err then Some ((st1, tm), pml4, err)
     else do {
       let st2 = st1\<lparr>phys := (phys st1)(pml4 := blit 0 (take (256 * 8) (phys st1 (CR3 st1))) (phys st1 pml4))\<rparr>;
       let st3 = st2\<lparr>CR3 := pml4\<rparr>;
       _ \<leftarrow> tasks tm task;
       let tm1 = upd_task task (\<lambda>k. k\<lparr>task_context := (task_context k)\<lparr>cr3 := of_nat (4096 * pml4)\<rparr>\<rparr>) tm;
       Some ((st3, tm1), pml4, kSuccess) } }"

definition FreePML4 :: "nat \<Rightarrow> nat \<Rightarrow> Machine \<times> 'f TaskManager \<Rightarrow> ((Machine \<times> 'f TaskManager) \<times> Error_Code) option" where
  "FreePML4 kernel_pml4 task s = do {
     let (st, tm) = s;
     k \<leftarrow> tasks tm task;
     let old = unat (cr3 (task_context k)) div 4096;
     let tm1 = upd_task task (\<lambda>k. k\<lparr>task_context := (task_context k)\<lparr>cr3 := 0\<rparr>\<rparr>) tm;
     (st1, err) \<leftarrow> FreePageMap (ResetCR3 kernel_pml4 st) old;
     Some ((st1, tm1), err) }"

record AppLoadInfo =
  app_vaddr_end :: u64
  app_entry :: u64
  app_pml4 :: nat

record 'f AppState =
  app_machine :: Machine
  app_tasks :: "'f TaskManager"
  app_loads :: "EntryPtr \<Rightarrow> AppLoadInfo option"

definition elf_magic :: "u8 list" where "elf_magic = [0x7f, 0x45, 0x4c, 0x46]"

text \<open>The first run of a file loads it and keeps the map as a template; every run gets a copy of the template whose
  pages are read-only. The size of the file is that of its directory entry.\<close>

definition LoadApp :: "Volume \<Rightarrow> EntryPtr \<Rightarrow> nat \<Rightarrow> 'f AppState \<Rightarrow> ('f AppState \<times> AppLoadInfo WithError) option" where
  "LoadApp v file_entry task s = do {
     let no_app = \<lparr>app_vaddr_end = 0, app_entry = 0, app_pml4 = 0\<rparr>;
     ((st1, tm1), temp_pml4, err) \<leftarrow> SetupPML4 task (app_machine s, app_tasks s);
     let s1 = s\<lparr>app_machine := st1, app_tasks := tm1\<rparr>;
     if is_error err then Some (s1, no_app, err)
     else (case app_loads s1 file_entry of
        Some app_load \<Rightarrow> do {
          (st2, err2) \<leftarrow> CopyPageMaps st1 temp_pml4 (app_pml4 app_load) 4 256;
          Some (s1\<lparr>app_machine := st2\<rparr>, app_load\<lparr>app_pml4 := temp_pml4\<rparr>, err2) }
      | None \<Rightarrow> do {
          e \<leftarrow> get_entry v file_entry;
          buf \<leftarrow> LoadFile v file_entry (unat (file_size e));
          let file_buf = buf @ replicate (unat (file_size e) - length buf) 0;
          if length file_buf < 4 then None
          else if take 4 file_buf \<noteq> elf_magic then Some (s1, no_app, kInvalidFile)
          else do {
            (st2, last_addr, err_load) \<leftarrow> LoadELF file_buf st1;
            let s2 = s1\<lparr>app_machine := st2\<rparr>;
            if is_error err_load then Some (s2, no_app, err_load)
            else do {
              let app_load = \<lparr>app_vaddr_end = last_addr, app_entry = e_entry file_buf, app_pml4 = temp_pml4\<rparr>;
              let s3 = s2\<lparr>app_loads := (app_loads s2)(file_entry \<mapsto> app_load)\<rparr>;
              ((st3, tm3), pml4, err3) \<leftarrow> SetupPML4 task (app_machine s3, app_tasks s3);
              let s4 = s3\<lparr>app_machine := st3, app_tasks := tm3\<rparr>;
              if is_error err3 then Some (s4, app_load, err3)
              else do {
                (st4, err4) \<leftarrow> CopyPageMaps st3 pml4 temp_pml4 4 256;
                Some (s4\<lparr>app_machine := st4\<rparr>, app_load\<lparr>app_pml4 := pml4\<rparr>, err4) } } } }) }"

subsection \<open>The arguments reach the application\<close>

text \<open>Words separated by white space: each pair is the space before a word and the word.\<close>

definition spaced :: "(u8 list \<times> u8 list) list \<Rightarrow> u8 list \<Rightarrow> u8 list" where
  "spaced ps trail = concat (map (\<lambda>(sp, w). sp @ w) ps) @ trail"

definition word_ok :: "u8 list \<Rightarrow> bool" where
  "word_ok w \<longleftrightarrow> w \<noteq> [] \<and> (\<forall>c \<in> set w. \<not> isspace c \<and> c \<noteq> 0)"

definition args_size :: "u8 list list \<Rightarrow> nat" where
  "args_size ws = sum_list (map (\<lambda>w. length w + 1) ws)"

text \<open>\<open>holds a ws\<close>: the vector holds exactly the strings \<open>ws\<close>, one after the other from the start of the buffer.\<close>

definition holds :: "ArgVector \<Rightarrow> u8 list list \<Rightarrow> bool" where
  "holds a ws \<longleftrightarrow> arg_index a = args_size ws \<and> arg_index a \<le> length (args a) \<and>
     take (arg_index a) (args a) = concat (map (\<lambda>w. w @ [0]) ws) \<and>
     argv a = map (\<lambda>i. args_size (take i ws)) [0..<length ws] \<and> (\<forall>w \<in> set ws. 0 \<notin> set w)"

lemma args_size_simps [simp]:
  "args_size [] = 0" "args_size (w # ws) = length w + 1 + args_size ws" "args_size (xs @ ys) = args_size xs + args_size ys"
  by (simp_all add: args_size_def)

lemma args_size_concat: "length (concat (map (\<lambda>w. w @ [0]) ws)) = args_size ws"
  by (induction ws) auto

lemma holdsD:
  assumes "holds a ws"
  shows "take (arg_index a) (args a) = concat (map (\<lambda>w. w @ [0]) ws)"
  using assms unfolding holds_def by (elim conjE)

lemma push_holds:
  assumes h: "holds a ws" and w: "0 \<notin> set w" and n: "length ws < argv_len" and m: "args_size ws < argbuf_len"
    and sz: "args_size ws + length w + 1 \<le> length (args a)"
  shows "\<exists>a'. push_to_argv argv_len argbuf_len w a = Some (a', kSuccess) \<and> holds a' (ws @ [w]) \<and> length (args a') = length (args a)"
proof -
  let ?i = "arg_index a"
  have i: "?i = args_size ws" "length (argv a) = length ws" using h by (auto simp: holds_def)
  let ?a = "\<lparr>argv = argv a @ [?i], arg_index = ?i + length w + 1, args = blit ?i (w @ [0]) (args a)\<rparr>"
  have p: "push_to_argv argv_len argbuf_len w a = Some (?a, kSuccess)" using i n m sz by (simp add: push_to_argv_def)
  have len: "length (blit ?i (w @ [0]) (args a)) = length (args a)" using sz i by (intro length_blit) simp
  have "take (?i + length (w @ [0])) (blit ?i (w @ [0]) (args a)) = take ?i (args a) @ w @ [0]"
    using sz i by (intro take_blit) simp
  moreover note holdsD[OF h]
  ultimately have "take (?i + length w + 1) (blit ?i (w @ [0]) (args a)) = concat (map (\<lambda>w. w @ [0]) (ws @ [w]))"
    by (simp add: add.assoc)
  moreover have "argv a @ [?i] = map (\<lambda>i. args_size (take i (ws @ [w]))) [0..<length (ws @ [w])]"
    using h i by (simp add: holds_def)
  ultimately have "holds ?a (ws @ [w])" using h w i sz len by (auto simp: holds_def)
  then show ?thesis using p len by auto
qed

lemma holds_string:
  assumes "holds a ws" and "i < length ws"
  shows "arg_string a i = ws ! i"
proof -
  let ?off = "args_size (take i ws)"
  have "ws = take i ws @ ws ! i # drop (Suc i) ws" using assms(2) by (simp add: id_take_nth_drop)
  then have "concat (map (\<lambda>w. w @ [0]) ws) = concat (map (\<lambda>w. w @ [0]) (take i ws)) @ ws ! i @ 0 # concat (map (\<lambda>w. w @ [0]) (drop (Suc i) ws))"
    by (metis (no_types, lifting) append.assoc append_Cons append_Nil concat.simps(2) concat_append list.simps(9) map_append)
  moreover have "take (arg_index a) (args a) @ drop (arg_index a) (args a) = args a" by simp
  moreover note holdsD[OF assms(1)]
  ultimately have "args a = concat (map (\<lambda>w. w @ [0]) (take i ws)) @ ws ! i @ 0 # concat (map (\<lambda>w. w @ [0]) (drop (Suc i) ws)) @ drop (arg_index a) (args a)"
    by (metis append.assoc append_Cons)
  moreover have "argv a ! i = length (concat (map (\<lambda>w. w @ [0 :: u8]) (take i ws)))"
    using assms by (simp add: holds_def args_size_concat)
  ultimately have "drop (argv a ! i) (args a) = ws ! i @ 0 # concat (map (\<lambda>w. w @ [0]) (drop (Suc i) ws)) @ drop (arg_index a) (args a)"
    by (metis append_eq_conv_conj)
  moreover have "\<forall>w \<in> set ws. 0 \<notin> set w" using assms(1) unfolding holds_def by (elim conjE)
  then have "\<And>c. c \<in> set (ws ! i) \<Longrightarrow> c \<noteq> 0" using assms(2) by (metis nth_mem)
  ultimately show ?thesis unfolding arg_string_def by (simp only: takeWhile_append2) simp
qed

lemma push_args_skip: "isspace c \<Longrightarrow> push_args argv_len argbuf_len (c # p) a = push_args argv_len argbuf_len p a"
  by (subst push_args.simps, subst (2) push_args.simps) simp

lemma push_args_holds:
  assumes "holds a ws" and "\<forall>(sp, w) \<in> set ps. (\<forall>c \<in> set sp. isspace c) \<and> word_ok w" and "\<forall>(sp, w) \<in> set (tl ps). sp \<noteq> []"
    and "\<forall>c \<in> set trail. isspace c" and "length ws + length ps \<le> argv_len"
    and "args_size ws + args_size (map snd ps) \<le> argbuf_len" and "argbuf_len \<le> length (args a)"
  shows "\<exists>a'. push_args argv_len argbuf_len (spaced ps trail) a = Some (a', kSuccess) \<and> holds a' (ws @ map snd ps)"
  using assms
proof (induction ps arbitrary: a ws)
  case Nil
  have "dropWhile isspace trail = []" using Nil.prems(4) by simp
  then show ?case using Nil.prems(1) by (subst push_args.simps) (simp add: spaced_def)
next
  case (Cons q ps)
  obtain sp w where q: "q = (sp, w)" by force
  have sp: "\<forall>c \<in> set sp. isspace c" and w: "w \<noteq> []" "\<forall>c \<in> set w. \<not> isspace c \<and> c \<noteq> 0"
    using Cons.prems(2) by (auto simp: q word_ok_def)
  let ?rest = "spaced ps trail"
  have s: "spaced (q # ps) trail = sp @ w @ ?rest" by (simp add: spaced_def q)
  have hd: "?rest = [] \<or> isspace (hd ?rest)"
  proof (cases ps)
    case Nil
    then show ?thesis using Cons.prems(4) by (cases trail) (auto simp: spaced_def)
  next
    case (Cons r rs)
    then obtain sp' w' where r: "r = (sp', w')" by force
    then have "sp' \<noteq> []" "\<forall>c \<in> set sp'. isspace c" using Cons.prems(2,3) Cons by auto
    then show ?thesis using Cons r by (cases sp') (auto simp: spaced_def)
  qed
  have p1: "dropWhile isspace (sp @ w @ ?rest) = w @ ?rest"
    using sp w by (cases w) (auto simp: dropWhile_append2)
  have p2: "takeWhile (\<lambda>c. \<not> isspace c) (w @ ?rest) = w" "dropWhile (\<lambda>c. \<not> isspace c) (w @ ?rest) = ?rest"
    using w(2) hd by (cases ?rest; simp add: takeWhile_append2 dropWhile_append2)+
  have z: "0 \<notin> set w" using w(2) by auto
  obtain a1 where a1: "push_to_argv argv_len argbuf_len w a = Some (a1, kSuccess)" "holds a1 (ws @ [w])" "length (args a1) = length (args a)"
    using push_holds[OF Cons.prems(1) z, of argv_len argbuf_len] Cons.prems(5-7) by (auto simp: q)
  have "push_args argv_len argbuf_len (spaced (q # ps) trail) a =
      (if ?rest = [] then Some (a1, kSuccess) else push_args argv_len argbuf_len (tl ?rest) a1)"
    unfolding s by (subst push_args.simps) (use p1 p2 a1(1) w(1) in \<open>simp add: Let_def\<close>)
  also have "\<dots> = push_args argv_len argbuf_len ?rest a1"
    using hd push_args_skip by (cases ?rest) (auto simp: push_args.simps[of _ _ "[]"])
  finally have go: "push_args argv_len argbuf_len (spaced (q # ps) trail) a = push_args argv_len argbuf_len ?rest a1" .
  have ps: "\<forall>(sp, w) \<in> set ps. (\<forall>c \<in> set sp. isspace c) \<and> word_ok w" "\<forall>(sp, w) \<in> set (tl ps). sp \<noteq> []"
    using Cons.prems(2,3) by (cases ps; auto)+
  have "\<exists>a'. push_args argv_len argbuf_len ?rest a1 = Some (a', kSuccess) \<and> holds a' ((ws @ [w]) @ map snd ps)"
    by (rule Cons.IH[OF a1(2) ps Cons.prems(4)]) (use Cons.prems(5-7) a1(3) in \<open>auto simp: q\<close>)
  then show ?case using go by (simp add: q)
qed

lemma push_to_argv_length: "push_to_argv argv_len argbuf_len s a = Some (a', e) \<Longrightarrow> length (args a') = length (args a)"
  by (auto simp: push_to_argv_def length_blit split: if_splits)

lemma push_args_length:
  "push_args argv_len argbuf_len p a = Some (a', e) \<Longrightarrow> length (args a') = length (args a)"
proof (induction argv_len argbuf_len p a rule: push_args.induct)
  case (1 argv_len argbuf_len p a)
  let ?p = "dropWhile isspace p"
  show ?case
  proof (cases "?p = []")
    case True
    then show ?thesis using 1(2) by (simp add: push_args.simps[of _ _ p])
  next
    case False
    then have u: "push_args argv_len argbuf_len p a =
       (case push_to_argv argv_len argbuf_len (takeWhile (\<lambda>c. \<not> isspace c) ?p) a of
          None \<Rightarrow> None
        | Some (a', err) \<Rightarrow>
            if is_error err then Some (a', err)
            else if dropWhile (\<lambda>c. \<not> isspace c) ?p = [] then Some (a', kSuccess)
            else push_args argv_len argbuf_len (tl (dropWhile (\<lambda>c. \<not> isspace c) ?p)) a')"
      by (subst push_args.simps) (simp add: Let_def del: dropWhile_eq_Nil_conv)
    then obtain a1 err where a1: "push_to_argv argv_len argbuf_len (takeWhile (\<lambda>c. \<not> isspace c) ?p) a = Some (a1, err)"
      using 1(2) by (auto split: option.splits)
    show ?thesis
    proof (cases "is_error err \<or> dropWhile (\<lambda>c. \<not> isspace c) ?p = []")
      case True
      then have "a1 = a'" using 1(2) unfolding u a1 by (auto split: if_splits)
      then show ?thesis using push_to_argv_length[OF a1] by simp
    next
      case go: False
      then have "push_args argv_len argbuf_len (tl (dropWhile (\<lambda>c. \<not> isspace c) ?p)) a1 = Some (a', e)"
        using 1(2) unfolding u a1 by (simp del: dropWhile_eq_Nil_conv)
      then show ?thesis using 1(1)[OF refl False refl refl a1 refl] go push_to_argv_length[OF a1] by simp
    qed
  qed
qed

text \<open>C33: The command and its arguments reach the application. For words without white space, separated by any white
  space, that fit into the vector and its buffer, \<open>MakeArgVector\<close> reports success and, for every \<open>i\<close>, the string behind
  \<open>argv[i]\<close> is the command for \<open>i = 0\<close> and the \<open>i\<close>th word otherwise; nothing is written outside the buffer.\<close>

theorem MakeArgVector_passes_words:
  assumes "0 \<notin> set command" and "\<forall>(sp, w) \<in> set ps. (\<forall>c \<in> set sp. isspace c) \<and> word_ok w"
    and "\<forall>(sp, w) \<in> set (tl ps). sp \<noteq> []" and "\<forall>c \<in> set trail. isspace c"
    and "Suc (length ps) \<le> argv_len" and "args_size (command # map snd ps) \<le> argbuf_len" and "argbuf_len \<le> length argbuf"
  shows "\<exists>a. MakeArgVector command (Some (spaced ps trail)) argv_len argbuf argbuf_len = Some (a, kSuccess) \<and>
    length (argv a) = Suc (length ps) \<and> map (arg_string a) [0..<length (argv a)] = command # map snd ps \<and>
    length (args a) = length argbuf"
proof -
  let ?a0 = "\<lparr>argv = [], arg_index = 0, args = argbuf\<rparr>"
  have h0: "holds ?a0 []" by (simp add: holds_def)
  obtain a1 where a1: "push_to_argv argv_len argbuf_len command ?a0 = Some (a1, kSuccess)" "holds a1 [command]" "length (args a1) = length argbuf"
    using push_holds[OF h0 assms(1), of argv_len argbuf_len] assms(5-7) by auto
  obtain a where a: "push_args argv_len argbuf_len (spaced ps trail) a1 = Some (a, kSuccess)" "holds a ([command] @ map snd ps)"
    using push_args_holds[OF a1(2) assms(2-4), of argv_len argbuf_len] assms(5-7) a1(3) by auto
  have n: "length (argv a) = Suc (length ps)" using a(2) by (simp add: holds_def)
  have "map (arg_string a) [0..<length (argv a)] = command # map snd ps"
  proof -
    have "map (arg_string a) [0..<length (argv a)] = map (\<lambda>i. (command # map snd ps) ! i) [0..<length (command # map snd ps)]"
      using holds_string[OF a(2)] n by (intro map_cong) (auto simp del: upt_Suc)
    then show ?thesis by (simp only: map_nth)
  qed
  moreover note push_args_length[OF a(1)]
  ultimately show ?thesis using a(1) a1(1,3) n by (auto simp: MakeArgVector_def)
qed

theorem MakeArgVector_passes_words_witness:
  "\<exists>a. MakeArgVector [0x6c, 0x73] (Some (spaced [([], [0x61]), ([32, 9], [0x62, 0x63])] [32])) 32 [0, 0, 0, 0, 0, 0, 0, 0] 8 = Some (a, kSuccess) \<and>
    map (arg_string a) [0..<length (argv a)] = [[0x6c, 0x73], [0x61], [0x62, 0x63]]"
proof -
  let ?ps = "[([], [0x61]), ([32, 9], [0x62, 0x63])] :: (u8 list \<times> u8 list) list"
  have p: "\<forall>(sp, w) \<in> set ?ps. (\<forall>c \<in> set sp. isspace c) \<and> word_ok w" by (simp add: word_ok_def isspace_def)
  have q: "\<forall>(sp, w) \<in> set (tl ?ps). sp \<noteq> []" by simp
  have t: "\<forall>c \<in> set [32]. isspace c" by (simp add: isspace_def)
  have n: "Suc (length ?ps) \<le> 32" by simp
  have m: "args_size ([0x6c, 0x73] # map snd ?ps) \<le> 8" by simp
  have z: "(0 :: u8) \<notin> set [0x6c, 0x73]" by simp
  have l: "8 \<le> length [0, 0, 0, 0, 0, 0, 0, 0 :: u8]" by simp
  have r: "\<exists>a. MakeArgVector [0x6c, 0x73] (Some (spaced ?ps [32])) 32 [0, 0, 0, 0, 0, 0, 0, 0] 8 = Some (a, kSuccess) \<and>
    length (argv a) = Suc (length ?ps) \<and> map (arg_string a) [0..<length (argv a)] = [0x6c, 0x73] # map snd ?ps \<and>
    length (args a) = length [0, 0, 0, 0, 0, 0, 0, 0 :: u8]"
    by (rule MakeArgVector_passes_words[OF z p q t n m l])
  then obtain a where "MakeArgVector [0x6c, 0x73] (Some (spaced ?ps [32])) 32 [0, 0, 0, 0, 0, 0, 0, 0] 8 = Some (a, kSuccess)"
    "map (arg_string a) [0..<length (argv a)] = [0x6c, 0x73] # map snd ?ps" by (elim exE conjE)
  then show ?thesis by (intro exI[of _ a] conjI) (simp_all only: list.map snd_conv)
qed

end
