(* ===== verification/Shell.thy ===== *)
theory Shell
  imports AppLoad Pipe Terminal Pci Timer
begin

text \<open>
  The shell: descriptors, the built-in commands and \<open>ExecuteLine\<close> of \<^verbatim>\<open>kernel/terminal.cpp\<close>. \<open>World\<close> is what a
  command can reach. A shared pointer to a descriptor is a handle into \<open>fd_store\<close>, a terminal is known by its task.
  What terminals do to their windows and send to the main task is the list \<open>shown\<close>, in order. Waiting for other
  tasks is running them: \<open>others\<close> of the environment is what they do until the waiting task runs again, and
  \<open>call_app\<close> is the run of a user program.
\<close>

subsection \<open>The world of a command\<close>

datatype Fd = TermFd nat | FileFd FatFD | PipeFd PipeDescriptor

record TerminalDescriptor =
  command_line :: "u8 list"
  exit_after_command :: bool
  desc_show_window :: bool
  desc_files :: "nat list"

record World =
  volume :: Volume
  fd_store :: "nat \<Rightarrow> Fd option"
  next_fd :: nat
  terminals :: "nat \<Rightarrow> Terminal option"
  descriptors :: "nat \<Rightarrow> TerminalDescriptor option"
  next_descriptor :: nat
  desktop :: "nat Desktop"
  timer_mgr :: TimerManager
  registers :: TaskContext
  machine :: Machine
  loads :: "EntryPtr \<Rightarrow> AppLoadInfo option"
  pci :: "(u32 \<Rightarrow> u32) PciState"
  shown :: "(nat \<times> TermEffect) list"

text \<open>\<open>stale\<close> is what a function finds in its uninitialised local buffers, \<open>stack_of\<close> the stack of a new task, and
  \<open>task_terminal\<close> the address of \<open>TaskTerminal\<close>.\<close>

record Env =
  env_fonts :: Fonts
  null_size :: Vector2D
  stale :: "u8 list"
  kernel_map :: nat
  stack_of :: "nat \<Rightarrow> u64"
  task_terminal :: u64
  others :: "World \<Rightarrow> World option"
  call_app :: "nat \<Rightarrow> u64 \<Rightarrow> u64 \<Rightarrow> World \<Rightarrow> (World \<times> int) option"

definition sched :: "World \<Rightarrow> nat TaskManager" where
  "sched w = task_manager (desktop w)"

definition set_sched :: "nat TaskManager \<Rightarrow> World \<Rightarrow> World" where
  "set_sched tm w = w\<lparr>desktop := (desktop w)\<lparr>task_manager := tm\<rparr>\<rparr>"

definition set_sched_cpu :: "nat TaskManager \<times> TaskContext \<Rightarrow> World \<Rightarrow> World" where
  "set_sched_cpu s w = (set_sched (fst s) w)\<lparr>registers := snd s\<rparr>"

definition str :: "string \<Rightarrow> u8 list" where
  "str s = map of_char s"

definition new_fd :: "Fd \<Rightarrow> World \<Rightarrow> World \<times> nat" where
  "new_fd fd w = (w\<lparr>fd_store := (fd_store w)(next_fd w \<mapsto> fd), next_fd := next_fd w + 1\<rparr>, next_fd w)"

definition set_fd :: "nat \<Rightarrow> Fd \<Rightarrow> World \<Rightarrow> World" where
  "set_fd h fd w = w\<lparr>fd_store := (fd_store w)(h \<mapsto> fd)\<rparr>"

text \<open>An operation of the terminal of task \<open>i\<close>.\<close>

definition on_terminal :: "nat \<Rightarrow> (Terminal \<Rightarrow> (Terminal \<times> TermEffect list) option) \<Rightarrow> World \<Rightarrow> World option" where
  "on_terminal i f w = do {
     t \<leftarrow> terminals w i;
     (t', es) \<leftarrow> f t;
     Some (w\<lparr>terminals := (terminals w)(i \<mapsto> t'), shown := shown w @ map (Pair i) es\<rparr>) }"

definition draw_cursor :: "nat \<Rightarrow> bool \<Rightarrow> World \<Rightarrow> World option" where
  "draw_cursor i on w = on_terminal i (\<lambda>t. Some (t, Terminal.DrawCursor on t)) w"

subsection \<open>Descriptors\<close>

definition term_write :: "Env \<Rightarrow> nat \<Rightarrow> u8 list \<Rightarrow> nat \<Rightarrow> World \<Rightarrow> World option" where
  "term_write env i buf len w = on_terminal i
     (\<lambda>t. map_option (\<lambda>(t', es). (t', es @ Redraw (null_size env) t')) (Print (env_fonts env) (null_size env) buf (Some len) t)) w"

text \<open>The loop of \<open>TerminalFileDescriptor::Read\<close> up to a key that is pressed without the control key.\<close>

partial_function (option) wait_key :: "Env \<Rightarrow> nat \<Rightarrow> World \<Rightarrow> (World \<times> u32) option" where
  "wait_key env i w = do {
     r \<leftarrow> ReceiveMessage (sched w) i;
     (case snd r of
        None \<Rightarrow> do {
          s \<leftarrow> Sleep (fst r) (registers w) i;
          w1 \<leftarrow> others env (set_sched_cpu s w);
          wait_key env i w1 }
      | Some msg \<Rightarrow>
          (case arg msg of
             kKeyPush m code u p \<Rightarrow>
               if p \<and> m AND 0x11 = 0 then Some (set_sched (fst r) w, u) else wait_key env i (set_sched (fst r) w)
           | _ \<Rightarrow> wait_key env i (set_sched (fst r) w))) }"

partial_function (option) pipe_read :: "Env \<Rightarrow> nat \<Rightarrow> PipeDescriptor \<Rightarrow> nat \<Rightarrow> World \<Rightarrow> (World \<times> u8 list) option" where
  "pipe_read env h p n w = do {
     r \<leftarrow> Pipe_Read p n (sched w) (registers w);
     (case snd (snd (snd r)) of
        None \<Rightarrow> do {
          w1 \<leftarrow> others env (set_sched_cpu (fst r, fst (snd r)) w);
          pipe_read env h p n w1 }
      | Some bs \<Rightarrow> Some (set_fd h (PipeFd (fst (snd (snd r)))) (set_sched_cpu (fst r, fst (snd r)) w), bs)) }"

text \<open>The virtual \<open>Read\<close> and \<open>Write\<close>. A read returns the bytes it stored and the count it reports: a terminal stores a
  whole character and reports one byte. \<open>buf\<close> is the memory from the start of the buffer on.\<close>

definition fd_read :: "Env \<Rightarrow> nat \<Rightarrow> nat \<Rightarrow> World \<Rightarrow> (World \<times> u8 list \<times> nat) option" where
  "fd_read env h n w = do {
     fd \<leftarrow> fd_store w h;
     (case fd of
        TermFd i \<Rightarrow> do {
          (w1, u) \<leftarrow> wait_key env i w;
          let bs = ConvertUTF32toUTF8 u;
          w2 \<leftarrow> term_write env i (bs @ [0]) (length bs) w1;
          Some (w2, bs, 1) }
      | FileFd f \<Rightarrow> do {
          (f', bs) \<leftarrow> fat_Read (volume w) f n;
          Some (set_fd h (FileFd f') w, bs, length bs) }
      | PipeFd p \<Rightarrow> do {
          (w1, bs) \<leftarrow> pipe_read env h p n w;
          Some (w1, bs, length bs) }) }"

definition fd_write :: "Env \<Rightarrow> nat \<Rightarrow> u8 list \<Rightarrow> nat \<Rightarrow> World \<Rightarrow> (World \<times> nat) option" where
  "fd_write env h buf len w = do {
     fd \<leftarrow> fd_store w h;
     (case fd of
        TermFd i \<Rightarrow> map_option (\<lambda>w'. (w', len)) (term_write env i buf len w)
      | FileFd f \<Rightarrow> do {
          (v, f', n) \<leftarrow> fat_Write (volume w) f buf len;
          Some (set_fd h (FileFd f') (w\<lparr>volume := v\<rparr>), n) }
      | PipeFd p \<Rightarrow> do {
          (tm, n) \<leftarrow> Pipe_Write p (take len buf) (sched w);
          Some (set_sched tm w, n) }) }"

text \<open>\<open>s\<close> is the result of \<open>vsprintf\<close>, which has 128 bytes.\<close>

definition PrintToFD :: "Env \<Rightarrow> nat \<Rightarrow> u8 list \<Rightarrow> World \<Rightarrow> World option" where
  "PrintToFD env h s w =
     (if 128 \<le> length s then None
      else map_option fst (fd_write env h (take 128 (s @ 0 # stale env)) (length s) w))"

text \<open>The standard output of terminal \<open>i\<close> is 1, its error output 2.\<close>

definition std :: "nat \<Rightarrow> nat \<Rightarrow> World \<Rightarrow> nat option" where
  "std i k w = do { t \<leftarrow> terminals w i; if k < length (term_files t) then Some (term_files t ! k) else None }"

definition print_to :: "Env \<Rightarrow> nat \<Rightarrow> nat \<Rightarrow> u8 list \<Rightarrow> World \<Rightarrow> World option" where
  "print_to env i k s w = do { h \<leftarrow> std i k w; PrintToFD env h s w }"

subsection \<open>Listing directories\<close>

text \<open>The two loops over a directory, from entry \<open>k\<close> of cluster \<open>c\<close>; the entries are read where they are, so output that
  goes to a file of the volume is seen by the loop.\<close>

partial_function (option) list_dir :: "(DirectoryEntry \<Rightarrow> World \<Rightarrow> World option) \<Rightarrow> nat \<Rightarrow> nat \<Rightarrow> World \<Rightarrow> World option" where
  "list_dir each c k w =
     (if c = kEndOfClusterchain then Some w
      else if num_entries (volume w) \<le> k then do {
        c' \<leftarrow> NextCluster (volume w) c;
        list_dir each c' 0 w }
      else do {
        e \<leftarrow> get_entry (volume w) (c, k);
        (if entry_name e ! 0 = 0 then Some w
         else if entry_name e ! 0 = 0xe5 then list_dir each c (k + 1) w
         else if attr e = kLongName then list_dir each c (k + 1) w
         else do {
           w' \<leftarrow> each e w;
           list_dir each c (k + 1) w' }) })"

definition show_entry :: "Env \<Rightarrow> nat \<Rightarrow> DirectoryEntry \<Rightarrow> World \<Rightarrow> World option" where
  "show_entry env h e w = PrintToFD env h (FormatName e @ str [CHR 0x0A]) w"

definition ListAllEntries :: "Env \<Rightarrow> nat \<Rightarrow> nat \<Rightarrow> World \<Rightarrow> World option" where
  "ListAllEntries env h dir_cluster w = list_dir (show_entry env h) dir_cluster 0 w"

definition tolower :: "u8 \<Rightarrow> u8" where
  "tolower c = (if 65 \<le> c \<and> c \<le> 90 then c + 32 else c)"

definition censored :: "u8 list list" where
  "censored = [str ''mikan os'', str ''efi'', str ''kernel.elf'', str ''memmap'']"

definition show_lowercase :: "Env \<Rightarrow> nat \<Rightarrow> DirectoryEntry \<Rightarrow> World \<Rightarrow> World option" where
  "show_lowercase env h e w =
     (let name = FormatName e in
      if take 2 name = str ''__'' then Some w
      else let name' = map tolower name in
        if name' \<in> set censored then Some w
        else PrintToFD env h (name' @ str [CHR 0x0A]) w)"

definition ListEntriesInLowercaseHidingDoubleUnderscore :: "Env \<Rightarrow> nat \<Rightarrow> nat \<Rightarrow> World \<Rightarrow> World option" where
  "ListEntriesInLowercaseHidingDoubleUnderscore env h dir_cluster w = list_dir (show_lowercase env h) dir_cluster 0 w"

definition sniff_file_entry :: "Env \<Rightarrow> EntryPtr \<Rightarrow> World \<Rightarrow> u8 list option" where
  "sniff_file_entry env p w = do {
     e \<leftarrow> get_entry (volume w) p;
     if attr e = kDirectory then Some (str ''chesta'')
     else do {
       (_, bs) \<leftarrow> ReadBinary (fat_Read (volume w)) (new_FatFD p) 1024;
       let u8buf = take 1024 (bs @ stale env);
       Some (if take 8 u8buf = [0x89, 0x50, 0x4e, 0x47, 0x0d, 0x0a, 0x1a, 0x0a] \<or> take 3 u8buf = [0xff, 0xd8, 0xff]
             then str ''aklurpti'' @ [39] @ str ''a'' else str ''krantie'') } }"

subsection \<open>Commands from files\<close>

definition find_in :: "Volume \<Rightarrow> u8 list \<Rightarrow> nat \<Rightarrow> EntryPtr option option option" where
  "find_in v command dir_cluster = do {
     (p, post_slash) \<leftarrow> FindFile v command dir_cluster;
     (case p of
        None \<Rightarrow> Some None
      | Some q \<Rightarrow> do {
          e \<leftarrow> get_entry v q;
          Some (Some (if attr e = kDirectory \<or> post_slash then None else Some q)) }) }"

text \<open>First the root directory, then the directory \<open>cersvass\<close>. When that starts at cluster 0 the recursion never ends.\<close>

definition FindCommand :: "Volume \<Rightarrow> u8 list \<Rightarrow> EntryPtr option option" where
  "FindCommand v command = do {
     r \<leftarrow> find_in v command 0;
     (case r of
        Some q \<Rightarrow> Some q
      | None \<Rightarrow>
          if slash \<in> set command then Some None
          else do {
            (apps, post_slash) \<leftarrow> FindFile v (str ''cersvass'') 0;
            (case apps of
               None \<Rightarrow> Some None
             | Some q \<Rightarrow> do {
                 e \<leftarrow> get_entry v q;
                 if attr e \<noteq> kDirectory then Some None
                 else if FirstCluster e = 0 then None
                 else do {
                   r' \<leftarrow> find_in v command (unat (FirstCluster e));
                   Some (case r' of Some q' \<Rightarrow> q' | None \<Rightarrow> None) } }) }) }"

definition args_frame_addr :: u64 where "args_frame_addr = 0xfffffffffffff000"
definition argv_len :: nat where "argv_len = 32"
definition app_stack_size :: nat where "app_stack_size = 16 * 4096"
definition stack_frame_addr :: u64 where "stack_frame_addr = 0xfffffffffffff000 - of_nat app_stack_size"

text \<open>The page of the arguments: the pointers, then the strings.\<close>

definition args_page :: "ArgVector \<Rightarrow> u8 list" where
  "args_page a = (let ptrs = concat (map (\<lambda>off. to_bytes 8 (args_frame_addr + of_nat (8 * argv_len + off))) (argv a))
     in take (8 * argv_len) (ptrs @ replicate (8 * argv_len) 0) @ args a)"

definition put_apps :: "nat AppState \<Rightarrow> World \<Rightarrow> World" where
  "put_apps s w = (set_sched (app_tasks s) w)\<lparr>machine := app_machine s, loads := app_loads s\<rparr>"

definition ExecuteFile :: "Env \<Rightarrow> nat \<Rightarrow> EntryPtr \<Rightarrow> u8 list \<Rightarrow> u8 list option \<Rightarrow> World \<Rightarrow> (World \<times> int WithError) option" where
  "ExecuteFile env i file_entry command first_arg w = do {
     task \<leftarrow> CurrentTask (sched w);
     (s, app_load, err) \<leftarrow> LoadApp (volume w) file_entry task
        \<lparr>app_machine = machine w, app_tasks = sched w, app_loads = loads w\<rparr>;
     let w1 = put_apps s w;
     if is_error err then Some (w1, 0, err)
     else do {
       (m2, err2) \<leftarrow> SetupPageMaps (machine w1) args_frame_addr 1 True;
       let w2 = w1\<lparr>machine := m2\<rparr>;
       if is_error err2 then Some (w2, 0, err2)
       else do {
         f \<leftarrow> frame_at m2 args_frame_addr;
         (a, err3) \<leftarrow> MakeArgVector command first_arg argv_len (drop (8 * argv_len) (phys m2 f)) (4096 - 8 * argv_len);
         m3 \<leftarrow> write_virtual args_frame_addr (args_page a) m2;
         if is_error err3 then Some (w2\<lparr>machine := m3\<rparr>, 0, err3)
         else do {
           (m4, err4) \<leftarrow> SetupPageMaps m3 stack_frame_addr (app_stack_size div 4096) True;
           let w4 = w2\<lparr>machine := m4\<rparr>;
           if is_error err4 then Some (w4, 0, err4)
           else do {
             t \<leftarrow> terminals w4 i;
             _ \<leftarrow> tasks (sched w4) task;
             let elf_next_page = unat ((app_vaddr_end app_load + 4095) AND 0xfffffffffffff000);
             let tm5 = upd_task task (\<lambda>k. k\<lparr>task_files := task_files k @ map Some (term_files t),
                         dpaging_begin := elf_next_page, dpaging_end := elf_next_page,
                         file_map_end := unat stack_frame_addr\<rparr>) (sched w4);
             (w6, ret) \<leftarrow> call_app env (length (argv a)) (app_entry app_load)
                         (stack_frame_addr + of_nat app_stack_size - 8) (set_sched tm5 w4);
             let tm7 = upd_task task (\<lambda>k. k\<lparr>task_files := [], file_maps := []\<rparr>) (sched w6);
             (m8, err8) \<leftarrow> CleanPageMaps (machine w6) 0xffff800000000000;
             if is_error err8 then Some ((set_sched tm7 w6)\<lparr>machine := m8\<rparr>, ret, err8)
             else do {
               ((m9, tm9), err9) \<leftarrow> FreePML4 (kernel_map env) task (m8, tm7);
               Some ((set_sched tm9 w6)\<lparr>machine := m9\<rparr>, ret, err9) } } } } } }"

definition ExecuteCommand :: "Env \<Rightarrow> nat \<Rightarrow> u8 list \<Rightarrow> u8 list option \<Rightarrow> World \<Rightarrow> (World \<times> int) option" where
  "ExecuteCommand env i command first_arg w = do {
     p \<leftarrow> FindCommand (volume w) command;
     (case p of
        None \<Rightarrow> do {
          w1 \<leftarrow> print_to env i 2 (str ''cene niv mi jel cersva l'' @ [39] @ str ''es '' @ command @ str ''.'' @ [10]) w;
          Some (w1, 1) }
      | Some file_entry \<Rightarrow> do {
          (w1, ec, err) \<leftarrow> ExecuteFile env i file_entry command first_arg w;
          if is_error err then do {
            w2 \<leftarrow> print_to env i 2 (str ''mi nix fenxergo cersva itj '' @ str (Name err) @ str ''.'' @ [10]) w1;
            Some (w2, - ec) }
          else Some (w1, ec) }) }"

subsection \<open>Reading a command line\<close>

text \<open>\<open>strchr\<close> on the line buffer, and the pointer arithmetic of \<open>ExecuteLine\<close>, which writes zeros into the buffer.\<close>

definition strchr :: "u8 list \<Rightarrow> u8 \<Rightarrow> nat option option" where
  "strchr a c = map_option (\<lambda>s. if c \<in> set s then Some (length (takeWhile (\<lambda>x. x \<noteq> c) s)) else None) (c_string a)"

definition skip_spaces :: "u8 list \<Rightarrow> nat \<Rightarrow> nat" where
  "skip_spaces a i = i + length (takeWhile isspace (drop i a))"

definition string_at :: "u8 list \<Rightarrow> nat option \<Rightarrow> u8 list option option" where
  "string_at a i = (case i of None \<Rightarrow> Some None | Some j \<Rightarrow> map_option Some (c_string (drop j a)))"

definition cut_at :: "nat option \<Rightarrow> u8 list \<Rightarrow> u8 list" where
  "cut_at i a = (case i of None \<Rightarrow> a | Some j \<Rightarrow> a[j := 0])"

record CommandLine =
  cl_command :: "u8 list"
  cl_first_arg :: "u8 list option"
  cl_redirect :: "u8 list option"
  cl_pipe :: "u8 list option"
  cl_buffer :: "u8 list"

definition parse_line :: "u8 list \<Rightarrow> CommandLine option" where
  "parse_line a = do {
     space \<leftarrow> strchr a 32;
     redir_char \<leftarrow> strchr a 62;
     pipe_char \<leftarrow> strchr a 124;
     let a1 = cut_at space a;
     let first_arg = map_option (\<lambda>i. skip_spaces a1 (i + 1)) space;
     let a2 = cut_at redir_char a1;
     redir_dest \<leftarrow> string_at a2 (map_option (\<lambda>i. skip_spaces a2 (i + 1)) redir_char);
     let a3 = cut_at pipe_char a2;
     subcommand \<leftarrow> string_at a3 (map_option (\<lambda>i. skip_spaces a3 (i + 1)) pipe_char);
     command \<leftarrow> c_string a3;
     arg \<leftarrow> string_at a3 first_arg;
     Some \<lparr>cl_command = command, cl_first_arg = arg, cl_redirect = redir_dest, cl_pipe = subcommand, cl_buffer = a3\<rparr> }"

subsection \<open>Built-in commands\<close>

text \<open>What the conversions of \<open>vsprintf\<close> print.\<close>

function dec_nat :: "nat \<Rightarrow> u8 list" where
  "dec_nat n = (if n < 10 then [of_nat (48 + n)] else dec_nat (n div 10) @ [of_nat (48 + n mod 10)])"
  by auto
termination by (relation "measure id") auto

declare dec_nat.simps [simp del]

definition dec_int :: "int \<Rightarrow> u8 list" where
  "dec_int n = (if n < 0 then 45 # dec_nat (nat (- n)) else dec_nat (nat n))"

definition hex_pad :: "nat \<Rightarrow> nat \<Rightarrow> u8 list" where
  "hex_pad digits n = map (\<lambda>k. let d = n div 16 ^ k mod 16 in of_nat (if d < 10 then 48 + d else 87 + d)) (rev [0..<digits])"

definition no_such_file :: "u8 list \<Rightarrow> u8 list" where
  "no_such_file s = str ''cene niv mi jel chertif l'' @ [39] @ str ''es '' @ s"

definition lkurf :: "Env \<Rightarrow> nat \<Rightarrow> u8 list option \<Rightarrow> World \<Rightarrow> World option" where
  "lkurf env i first_arg w = do {
     t \<leftarrow> terminals w i;
     w1 \<leftarrow> (case first_arg of
        None \<Rightarrow> Some w
      | Some s \<Rightarrow>
          if s \<noteq> [] \<and> hd s = 38 then
            (if tl s = str ''lex'' then print_to env i 1 (dec_int (last_exit_code t)) w else Some w)
          else print_to env i 1 s w);
     print_to env i 1 [10] w1 }"

definition clear_command :: "nat \<Rightarrow> World \<Rightarrow> World option" where
  "clear_command i w = on_terminal i (\<lambda>t. Some (t\<lparr>cursor := Vec (vx (cursor t)) 0\<rparr>,
     if show_window t then [Paint (inner (FillRectangle (Vec 4 4) (Vec (8 * int kTerminalColumns) (16 * int kTerminalRows)) (Color 0 0 0)))] else [])) w"

fun lspci :: "Env \<Rightarrow> nat \<Rightarrow> Device list \<Rightarrow> World \<Rightarrow> World option" where
  "lspci env i [] w = Some w"
| "lspci env i (dev # devs) w =
     (let (p, vendor_id) = ReadVendorId (\<lambda>h. h) (dev_bus dev) (dev_device dev) (dev_function dev) (pci w);
          c = class_code dev
      in case print_to env i 1 (hex_pad 2 (unat (dev_bus dev)) @ str '':'' @ hex_pad 2 (unat (dev_device dev)) @ str ''.'' @
              dec_nat (unat (dev_function dev)) @ str '' vend='' @ hex_pad 4 (unat vendor_id) @ str '' head='' @
              hex_pad 2 (unat (header_type dev)) @ str '' class='' @ hex_pad 2 (unat (cc_base c)) @ str ''.'' @
              hex_pad 2 (unat (cc_sub c)) @ str ''.'' @ hex_pad 2 (unat (cc_interface c)) @ [10]) (w\<lparr>pci := p\<rparr>) of
           None \<Rightarrow> None
         | Some w' \<Rightarrow> lspci env i devs w')"

text \<open>\<open>__ls\<close> and \<open>melfertal\<close> differ in the lister alone.\<close>

definition list_command :: "(Env \<Rightarrow> nat \<Rightarrow> nat \<Rightarrow> World \<Rightarrow> World option) \<Rightarrow> Env \<Rightarrow> nat \<Rightarrow> u8 list option \<Rightarrow> World \<Rightarrow> (World \<times> int) option" where
  "list_command lister env i first_arg w = do {
     h \<leftarrow> std i 1 w;
     (case first_arg of
        Some (c # cs) \<Rightarrow> do {
          (dir, post_slash) \<leftarrow> FindFile (volume w) (c # cs) 0;
          (case dir of
             None \<Rightarrow> map_option (\<lambda>w'. (w', 1))
               (print_to env i 2 (str ''cene niv mi jel chertif o chesta l'' @ [39] @ str ''es '' @ (c # cs) @ [10]) w)
           | Some p \<Rightarrow> do {
               e \<leftarrow> get_entry (volume w) p;
               if attr e = kDirectory then map_option (\<lambda>w'. (w', 0)) (lister env h (unat (FirstCluster e)) w)
               else if post_slash then map_option (\<lambda>w'. (w', 1)) (print_to env i 2 (FormatName e @ str '' es niv chesta.'' @ [10]) w)
               else map_option (\<lambda>w'. (w', 0)) (print_to env i 1 (FormatName e @ [10]) w) }) }
      | _ \<Rightarrow> map_option (\<lambda>w'. (w', 0)) (lister env h (unat (root_cluster (boot_volume_image (volume w)))) w)) }"

text \<open>The loop that copies lines from descriptor \<open>h\<close> to the output.\<close>

definition read_counted :: "Env \<Rightarrow> nat \<Rightarrow> World \<Rightarrow> nat \<Rightarrow> (World \<times> u8 list) option" where
  "read_counted env h w n = map_option (\<lambda>(w', bs, k). (w', take k bs)) (fd_read env h n w)"

partial_function (option) print_lines :: "Env \<Rightarrow> nat \<Rightarrow> nat \<Rightarrow> World \<Rightarrow> World option" where
  "print_lines env i h w = do {
     r \<leftarrow> ReadDelim (read_counted env h) w 10 1024;
     (if snd (snd r) = 0 then Some (fst r)
      else do {
        w' \<leftarrow> print_to env i 1 (takeWhile (\<lambda>c. c \<noteq> 0) (fst (snd r))) (fst r);
        print_lines env i h w' }) }"

definition show_file :: "Env \<Rightarrow> nat \<Rightarrow> nat \<Rightarrow> World \<Rightarrow> (World \<times> int) option" where
  "show_file env i h w = do {
     w1 \<leftarrow> draw_cursor i False w;
     w2 \<leftarrow> print_lines env i h w1;
     w3 \<leftarrow> draw_cursor i True w2;
     Some (w3, 0) }"

definition xel :: "Env \<Rightarrow> nat \<Rightarrow> u8 list option \<Rightarrow> World \<Rightarrow> (World \<times> int) option" where
  "xel env i first_arg w = (case first_arg of
     Some (c # cs) \<Rightarrow> do {
       (file_entry, post_slash) \<leftarrow> FindFile (volume w) (c # cs) 0;
       (case file_entry of
          None \<Rightarrow> map_option (\<lambda>w'. (w', 1)) (print_to env i 2 (no_such_file (c # cs) @ [10]) w)
        | Some p \<Rightarrow> do {
            e \<leftarrow> get_entry (volume w) p;
            file_type \<leftarrow> sniff_file_entry env p w;
            if file_type = str ''krantie'' then
              (if attr e \<noteq> kDirectory \<and> post_slash
               then map_option (\<lambda>w'. (w', 1)) (print_to env i 2 (FormatName e @ str '' es niv chesta.'' @ [10]) w)
               else (let (w1, h) = new_fd (FileFd (new_FatFD p)) w in show_file env i h w1))
            else if file_type = str ''chesta'' then do {
              h \<leftarrow> std i 1 w;
              map_option (\<lambda>w'. (w', 0)) (ListEntriesInLowercaseHidingDoubleUnderscore env h (unat (FirstCluster e)) w) }
            else map_option (\<lambda>w'. (w', 1)) (print_to env i 2 ((c # cs) @ str '' es aklurpti'' @ [39] @ str ''a gelx shrlo fenxe '' @
                   [34] @ str ''lurfa '' @ (c # cs) @ [34] @ str ''.'' @ [10]) w) }) }
   | _ \<Rightarrow> do { h \<leftarrow> std i 0 w; show_file env i h w })"

definition karse :: "Env \<Rightarrow> nat \<Rightarrow> u8 list option \<Rightarrow> World \<Rightarrow> (World \<times> int) option" where
  "karse env i first_arg w = (case first_arg of
     Some (c # cs) \<Rightarrow> do {
       (file_entry, post_slash) \<leftarrow> FindFile (volume w) (c # cs) 0;
       (case file_entry of
          None \<Rightarrow> map_option (\<lambda>w'. (w', 1)) (print_to env i 1 (no_such_file (c # cs) @ [10]) w)
        | Some p \<Rightarrow> do {
            e \<leftarrow> get_entry (volume w) p;
            if attr e \<noteq> kDirectory \<and> post_slash
            then map_option (\<lambda>w'. (w', 1)) (print_to env i 1 (FormatName e @ str '' es niv chesta.'' @ [10]) w)
            else do {
              w1 \<leftarrow> draw_cursor i False w;
              file_type \<leftarrow> sniff_file_entry env p w1;
              w2 \<leftarrow> print_to env i 1 (map tolower (FormatName e) @ str '' es '' @ file_type @ str ''.'' @ [10]) w1;
              w3 \<leftarrow> draw_cursor i True w2;
              Some (w3, 0) } }) }
   | _ \<Rightarrow> map_option (\<lambda>w'. (w', 1)) (print_to env i 2 (str ''liusel: karse <chertif o chesta>'' @ [10]) w))"

text \<open>A new task that runs a terminal with the given descriptor; the result is its id.\<close>

definition new_terminal_task :: "Env \<Rightarrow> TerminalDescriptor \<Rightarrow> nat TaskManager \<times> nat \<Rightarrow> World \<Rightarrow> World option" where
  "new_terminal_task env desc new_task w = do {
     let (tm, i) = new_task;
     let d = next_descriptor w;
     let tm1 = upd_task i (InitContext (of_nat (4096 * CR3 (machine w))) (stack_of env i) (task_terminal env) (of_nat d)) tm;
     tm2 \<leftarrow> Wakeup tm1 i (-1);
     Some ((set_sched tm2 w)\<lparr>descriptors := (descriptors w)(d \<mapsto> desc), next_descriptor := d + 1\<rparr>) }"

text \<open>\<open>command_line\<close> is a \<open>std::string\<close>, which cannot be made from a null pointer.\<close>

definition ksfnerfe :: "Env \<Rightarrow> nat \<Rightarrow> u8 list option \<Rightarrow> World \<Rightarrow> (World \<times> int) option" where
  "ksfnerfe env i first_arg w = do {
     t \<leftarrow> terminals w i;
     s \<leftarrow> first_arg;
     map_option (\<lambda>w'. (w', 0)) (new_terminal_task env \<lparr>command_line = s, exit_after_command = True, desc_show_window = False,
       desc_files = term_files t\<rparr> (NewTask (sched w)) w) }"

definition memstat :: "Env \<Rightarrow> nat \<Rightarrow> World \<Rightarrow> World option" where
  "memstat env i w = do {
     let p_stat = Stat (mm (machine w));
     let line = (\<lambda>label n. str label @ dec_nat n @ str '' frames ('' @ dec_nat (n * kBytesPerFrame div 1024 div 1024) @ str '' MiB)'' @ [10]);
     w1 \<leftarrow> print_to env i 1 (line ''Phys used : '' (allocated_frames p_stat)) w;
     print_to env i 1 (line ''Phys total: '' (total_frames p_stat)) w1 }"

definition lurfa :: "Env \<Rightarrow> nat \<Rightarrow> u8 list option \<Rightarrow> World \<Rightarrow> (World \<times> int) option" where
  "lurfa env i first_arg w = (case first_arg of
     Some (c # cs) \<Rightarrow> do {
       (file_entry, post_slash) \<leftarrow> FindFile (volume w) (c # cs) 0;
       (case file_entry of
          None \<Rightarrow> map_option (\<lambda>w'. (w', 1)) (print_to env i 2 (no_such_file (c # cs) @ str ''.'' @ [10]) w)
        | Some p \<Rightarrow> do {
            file_type \<leftarrow> sniff_file_entry env p w;
            if file_type = str ''krantie'' then ExecuteCommand env i (str ''lurfa_kr'') first_arg w
            else if file_type = str ''chesta'' then
              map_option (\<lambda>w'. (w', 1)) (print_to env i 2 ((c # cs) @ str '' es chesta gelx shrlo fenxe '' @ [34] @ str ''melfertal '' @
                (c # cs) @ [34] @ str ''.'' @ [10]) w)
            else ExecuteCommand env i (str ''xel_aklu'') first_arg w }) }
   | _ \<Rightarrow> map_option (\<lambda>w'. (w', 1)) (print_to env i 2 (str ''liusel: lurfa <chertif o chesta>'' @ [10]) w))"

text \<open>The chain of comparisons with the names of commands.\<close>

definition run_command :: "Env \<Rightarrow> nat \<Rightarrow> u8 list \<Rightarrow> u8 list option \<Rightarrow> World \<Rightarrow> (World \<times> int) option" where
  "run_command env i command first_arg w =
     (let ok = map_option (\<lambda>w'. (w', 0)) in
      if command = str ''lkurf'' then ok (lkurf env i first_arg w)
      else if command = str ''ys'' then ok (clear_command i w)
      else if command = str ''__lspci'' then ok (lspci env i (devices (pci w)) w)
      else if command = str ''__ls'' then list_command ListAllEntries env i first_arg w
      else if command = str ''melfertal'' then list_command ListEntriesInLowercaseHidingDoubleUnderscore env i first_arg w
      else if command = str ''xel'' then xel env i first_arg w
      else if command = str ''karse'' then karse env i first_arg w
      else if command = str ''ksfnerfe'' then ksfnerfe env i first_arg w
      else if command = str ''__memstat'' then ok (memstat env i w)
      else if command = str ''lurfa'' then lurfa env i first_arg w
      else if command \<noteq> [] then ExecuteCommand env i command first_arg w
      else Some (w, 0))"

subsection \<open>Executing a line\<close>

definition set_stdout :: "nat \<Rightarrow> nat \<Rightarrow> World \<Rightarrow> World option" where
  "set_stdout i h w = do {
     t \<leftarrow> terminals w i;
     if length (term_files t) \<le> 1 then None
     else Some (w\<lparr>terminals := (terminals w)(i \<mapsto> t\<lparr>term_files := (term_files t)[1 := h]\<rparr>)\<rparr>) }"

text \<open>The redirection; \<open>False\<close> is the early return after an error.\<close>

definition redirect :: "Env \<Rightarrow> nat \<Rightarrow> u8 list option \<Rightarrow> World \<Rightarrow> (World \<times> bool) option" where
  "redirect env i redir_dest w = (case redir_dest of
     None \<Rightarrow> Some (w, True)
   | Some dest \<Rightarrow> do {
       (file, post_slash) \<leftarrow> FindFile (volume w) dest 0;
       let open_file = (\<lambda>p w. let (w', h) = new_fd (FileFd (new_FatFD p)) w in map_option (\<lambda>w''. (w'', True)) (set_stdout i h w'));
       (case file of
          None \<Rightarrow> do {
            (v, new_file, err) \<leftarrow> CreateFile (volume w) dest;
            let w1 = w\<lparr>volume := v\<rparr>;
            if is_error err then map_option (\<lambda>w'. (w', False))
              (print_to env i 2 (str ''failed to create a redirect file: '' @ str (Name err) @ [10]) w1)
            else do { p \<leftarrow> new_file; open_file p w1 } }
        | Some p \<Rightarrow> do {
            e \<leftarrow> get_entry (volume w) p;
            if attr e = kDirectory \<or> post_slash
            then map_option (\<lambda>w'. (w', False)) (print_to env i 2 (str ''cannot redirect to a directory'' @ [10]) w)
            else open_file p w }) })"

text \<open>The pipe: a task for the right command, whose standard input is a new pipe; the result is the handle of the pipe and
  the id of the task.\<close>

definition open_pipe :: "Env \<Rightarrow> nat \<Rightarrow> u8 list option \<Rightarrow> World \<Rightarrow> (World \<times> (nat \<times> nat) option) option" where
  "open_pipe env i subcommand w = (case subcommand of
     None \<Rightarrow> Some (w, None)
   | Some s \<Rightarrow> do {
       t \<leftarrow> terminals w i;
       if length (term_files t) \<le> 2 then None
       else do {
         let (tm, subtask) = NewTask (sched w);
         let (w1, h) = new_fd (PipeFd (new_PipeDescriptor subtask)) (set_sched tm w);
         w2 \<leftarrow> set_stdout i h w1;
         w3 \<leftarrow> new_terminal_task env \<lparr>command_line = s, exit_after_command = True, desc_show_window = False,
                 desc_files = [h, term_files t ! 1, term_files t ! 2]\<rparr> (sched w2, subtask) w2;
         Some (w3\<lparr>desktop := (desktop w3)\<lparr>layer_task_map := (layer_task_map (desktop w3))(term_layer t \<mapsto> subtask)\<rparr>\<rparr>,
               Some (h, subtask)) } })"

partial_function (option) wait_finish :: "Env \<Rightarrow> nat \<Rightarrow> nat \<Rightarrow> World \<Rightarrow> (World \<times> int) option" where
  "wait_finish env i subtask w = do {
     r \<leftarrow> WaitFinish_step (sched w) (registers w) i subtask;
     (case snd (snd r) of
        Some ec \<Rightarrow> Some (set_sched_cpu (fst r, fst (snd r)) w, ec)
      | None \<Rightarrow> do {
          w1 \<leftarrow> others env (set_sched_cpu (fst r, fst (snd r)) w);
          wait_finish env i subtask w1 }) }"

definition close_pipe :: "Env \<Rightarrow> nat \<Rightarrow> (nat \<times> nat) option \<Rightarrow> World \<times> int \<Rightarrow> (World \<times> int) option" where
  "close_pipe env i pipe r = (case pipe of
     None \<Rightarrow> Some r
   | Some (h, subtask) \<Rightarrow> do {
       fd \<leftarrow> fd_store (fst r) h;
       p \<leftarrow> (case fd of PipeFd p \<Rightarrow> Some p | _ \<Rightarrow> None);
       tm \<leftarrow> FinishWrite p (sched (fst r));
       (w1, ec) \<leftarrow> wait_finish env i subtask (set_sched tm (fst r));
       t \<leftarrow> terminals w1 i;
       Some (w1\<lparr>desktop := (desktop w1)\<lparr>layer_task_map := (layer_task_map (desktop w1))(term_layer t \<mapsto> term_task t)\<rparr>\<rparr>, ec) })"

definition ExecuteLine :: "Env \<Rightarrow> nat \<Rightarrow> World \<Rightarrow> World option" where
  "ExecuteLine env i w = do {
     t \<leftarrow> terminals w i;
     cl \<leftarrow> parse_line (linebuf t);
     original_stdout \<leftarrow> std i 1 w;
     let w0 = w\<lparr>terminals := (terminals w)(i \<mapsto> t\<lparr>linebuf := cl_buffer cl\<rparr>)\<rparr>;
     (w1, ok) \<leftarrow> redirect env i (cl_redirect cl) w0;
     if \<not> ok then Some w1
     else do {
       (w2, pipe) \<leftarrow> open_pipe env i (cl_pipe cl) w1;
       r3 \<leftarrow> run_command env i (cl_command cl) (cl_first_arg cl) w2;
       (w4, exit_code) \<leftarrow> close_pipe env i pipe r3;
       t4 \<leftarrow> terminals w4 i;
       set_stdout i original_stdout (w4\<lparr>terminals := (terminals w4)(i \<mapsto> t4\<lparr>last_exit_code := exit_code\<rparr>)\<rparr>) } }"

text \<open>The executor of \<open>InputKey\<close>: the effects of the terminal itself are returned, those of others stay in \<open>shown\<close>.\<close>

definition shell_executor :: "Env \<Rightarrow> nat \<Rightarrow> World executor" where
  "shell_executor env i t w = do {
     w' \<leftarrow> ExecuteLine env i (w\<lparr>terminals := (terminals w)(i \<mapsto> t), shown := []\<rparr>);
     t' \<leftarrow> terminals w' i;
     Some (t', w'\<lparr>shown := shown w @ filter (\<lambda>e. fst e \<noteq> i) (shown w')\<rparr>,
           map snd (filter (\<lambda>e. fst e = i) (shown w'))) }"

subsection \<open>What the parser sees\<close>

lemma strchr_at: "0 \<notin> set xs \<Longrightarrow> c \<notin> set xs \<Longrightarrow> c \<noteq> 0 \<Longrightarrow> 0 \<in> set ys \<Longrightarrow> strchr (xs @ c # ys) c = Some (Some (length xs))"
proof -
  assume h: "0 \<notin> set xs" "c \<notin> set xs" "c \<noteq> 0" "0 \<in> set ys"
  have nz: "\<And>x. x \<in> set xs \<Longrightarrow> x \<noteq> 0" "\<And>x. x \<in> set xs \<Longrightarrow> x \<noteq> c" using h by auto
  have "takeWhile (\<lambda>x. x \<noteq> 0) (xs @ c # ys) = xs @ c # takeWhile (\<lambda>x. x \<noteq> 0) ys"
    using h(3) nz(1) by (simp add: takeWhile_append2)
  moreover have "takeWhile (\<lambda>x. x \<noteq> c) (xs @ c # zs) = xs" for zs
    using nz(2) by (simp add: takeWhile_append2)
  ultimately show ?thesis using h(4) by (simp add: strchr_def c_string_def)
qed

lemma strchr_none: "0 \<notin> set xs \<Longrightarrow> c \<notin> set xs \<Longrightarrow> strchr (xs @ 0 # ys) c = Some None"
proof -
  assume h: "0 \<notin> set xs" "c \<notin> set xs"
  then have "c_string (xs @ 0 # ys) = Some xs" by (intro c_string_append) auto
  then show ?thesis using h(2) by (simp add: strchr_def)
qed

lemma skip_none: "n = length xs \<Longrightarrow> \<not> isspace c \<Longrightarrow> skip_spaces (xs @ c # ys) n = n"
  by (simp add: skip_spaces_def)

lemma cut_here: "n = length xs \<Longrightarrow> cut_at (Some n) (xs @ c # ys) = xs @ 0 # ys"
  by (simp add: cut_at_def list_update_append)

definition plain_word :: "u8 list \<Rightarrow> bool" where
  "plain_word s \<longleftrightarrow> s \<noteq> [] \<and> \<not> isspace (hd s) \<and> (\<forall>c \<in> set s. c \<noteq> 0 \<and> c \<noteq> 62 \<and> c \<noteq> 124)"

text \<open>A line \<open>command text> dest\<close>.\<close>

lemma parse_redirect:
  assumes c: "\<forall>x \<in> set command. x \<noteq> 0 \<and> x \<noteq> 32 \<and> x \<noteq> 62 \<and> x \<noteq> 124" and t: "plain_word words" and d: "plain_word dest"
  shows "\<exists>b. parse_line (command @ 32 # words @ 62 # 32 # dest @ 0 # rest) =
    Some \<lparr>cl_command = command, cl_first_arg = Some words, cl_redirect = Some dest, cl_pipe = None, cl_buffer = b\<rparr> \<and>
      length b = length (command @ 32 # words @ 62 # 32 # dest @ 0 # rest)"
proof -
  let ?a = "command @ 32 # words @ 62 # 32 # dest @ 0 # rest"
  obtain t0 ts where ts: "words = t0 # ts" "\<not> isspace t0" using t by (cases words) (auto simp: plain_word_def)
  obtain d0 ds where ds: "dest = d0 # ds" "\<not> isspace d0" using d by (cases dest) (auto simp: plain_word_def)
  have nz: "0 \<notin> set command" "0 \<notin> set words" "0 \<notin> set dest" using c t d by (auto simp: plain_word_def)
  let ?n = "length command" and ?m = "length words"
  have s1: "strchr ?a 32 = Some (Some ?n)" using c nz by (intro strchr_at) auto
  have "strchr ((command @ 32 # words) @ 62 # 32 # dest @ 0 # rest) 62 = Some (Some (length (command @ 32 # words)))"
    using c t nz by (intro strchr_at) (auto simp: plain_word_def)
  then have s2: "strchr ?a 62 = Some (Some (?n + 1 + ?m))" by (simp add: add.assoc)
  have "strchr ((command @ 32 # words @ 62 # 32 # dest) @ 0 # rest) 124 = Some None"
    using c t d nz by (intro strchr_none) (auto simp: plain_word_def)
  then have s3: "strchr ?a 124 = Some None" by simp
  let ?a1 = "command @ 0 # words @ 62 # 32 # dest @ 0 # rest"
  have a1: "cut_at (Some ?n) ?a = ?a1" by (rule cut_here) simp
  have f1: "skip_spaces ?a1 (?n + 1) = ?n + 1"
    using skip_none[of "?n + 1" "command @ [0]" t0 "ts @ 62 # 32 # dest @ 0 # rest"] ts by simp
  let ?a2 = "command @ 0 # words @ 0 # 32 # dest @ 0 # rest"
  have a2: "cut_at (Some (?n + 1 + ?m)) ?a1 = ?a2"
    using cut_here[of "?n + 1 + ?m" "command @ 0 # words" 62 "32 # dest @ 0 # rest"] by simp
  have f2: "skip_spaces ?a2 (?n + 1 + ?m + 1) = ?n + ?m + 3"
    using ds by (simp add: skip_spaces_def isspace_def)
  have dl: "drop (length xs) (xs @ zs) = zs" for xs zs :: "u8 list" by simp
  have len: "?n + ?m + 3 = length (command @ 0 # words @ [0, 32])" by simp
  have app: "?a2 = (command @ 0 # words @ [0, 32]) @ dest @ 0 # rest" by simp
  have "drop (?n + ?m + 3) ?a2 = dest @ 0 # rest" unfolding len app by (rule dl)
  then have g1: "c_string (drop (?n + ?m + 3) ?a2) = Some dest" using c_string_append[of dest rest] nz by force
  have "drop (?n + 1) ?a2 = words @ 0 # 32 # dest @ 0 # rest" by simp
  then have g2: "c_string (drop (?n + 1) ?a2) = Some words" using c_string_append[of words "32 # dest @ 0 # rest"] nz by force
  have g3: "c_string ?a2 = Some command" using c_string_append[of command "words @ 0 # 32 # dest @ 0 # rest"] nz by force
  have a3: "cut_at None ?a2 = ?a2" by (simp add: cut_at_def)
  show ?thesis
    unfolding parse_line_def s1 s2 s3 Let_def option.map bind.bind_lunit a1 f1 a2 f2 a3 string_at_def option.case g1 g2 g3 by simp
qed

lemma str_len [simp]: "length (str s) = length s"
  by (simp add: str_def)

lemma str_neq: "str s \<noteq> str s'" if "length s \<noteq> length s'"
  using that by (metis str_len)

subsection \<open>Redirected output\<close>

lemma put_entry_table: "put_entry p e v = Some v' \<Longrightarrow> table v' = table v"
  by (auto simp: put_entry_def set_cluster_def split: option.splits if_splits)

text \<open>A write that fits the first cluster of a file changes no cluster chain.\<close>

lemma fat_Write_table:
  assumes w: "fat_Write v fd buf len = Some (v', fd', n)" and e: "get_entry v (fat_entry fd) = Some e" "FirstCluster e \<noteq> 0"
    and o: "wr_cluster_off fd + len \<le> bytes_per_cluster v" and len: "0 < len"
  shows "table v' = table v"
proof -
  let ?c = "if wr_cluster fd = 0 then unat (FirstCluster e) else wr_cluster fd" and ?off = "wr_cluster_off fd"
  obtain v2 c off tot e2 where l: "write_loop buf len v ?c ?off 0 = Some (v2, c, off, tot)"
    and p: "put_entry (fat_entry fd) e2 v2 = Some v'"
    using w e unfolding fat_Write_def Let_def by (auto simp: bind_eq_Some_conv split: if_splits)
  have ne: "?off \<noteq> bytes_per_cluster v" and mn: "min len (bytes_per_cluster v - ?off) = len" using o len by auto
  have stop: "write_loop buf len v x y (0 + len) = Some (v, x, y, 0 + len)" for v x y by (subst write_loop.simps) simp
  have "table v2 = table v"
    using l ne mn len by (subst (asm) write_loop.simps) (auto simp: stop[simplified] set_cluster_def Let_def split: option.splits if_splits)
  then show ?thesis using put_entry_table[OF p] by simp
qed

lemma take_prefix_eq: "take n xs = ys \<Longrightarrow> take (length ys) xs = ys"
  by (metis append_eq_conv_conj append_take_drop_id)

text \<open>Printing through a descriptor of a file.\<close>

lemma PrintToFD_file:
  assumes fd: "fd_store w h = Some (FileFd f)" and fw: "fd_writes (volume w) cs f" and fr: "2 \<le> length (free_clusters (table (volume w)) 2)"
    and s: "s \<noteq> []" "length s < 128" "wr_off f + length s < 2 ^ 32" "wr_cluster_off f + length s \<le> bytes_per_cluster (volume w) \<or>
      wr_cluster_off f = bytes_per_cluster (volume w) \<and> length s \<le> bytes_per_cluster (volume w)"
  shows "\<exists>v f' cs'. fat_Write (volume w) f (take 128 (s @ 0 # stale env)) (length s) = Some (v, f', length s) \<and> PrintToFD env h s w = Some (set_fd h (FileFd f') (w\<lparr>volume := v\<rparr>)) \<and> fd_writes v cs' f' \<and>
    wr_off f' = wr_off f + length s \<and> fat_entry f' = fat_entry f \<and> file_ok v (entry_at v (fat_entry f)) cs' \<and>
    file_data v (entry_at v (fat_entry f)) cs' = take (wr_off f) (cluster_data (volume w) cs) @ s \<and>
    (wr_cluster_off f + length s \<le> bytes_per_cluster (volume w) \<longrightarrow> cs \<noteq> [] \<longrightarrow> table v = table (volume w)) \<and>
    (\<forall>x. 2 \<le> x \<longrightarrow> table (volume w) ! x \<noteq> 0 \<longrightarrow> x \<notin> set cs \<longrightarrow> x \<noteq> fst (fat_entry f) \<longrightarrow>
       x \<notin> set cs' \<and> table v ! x = table (volume w) ! x \<and> clusters v ! (x - 2) = clusters (volume w) ! (x - 2))"
proof -
  let ?buf = "take 128 (s @ 0 # stale env)" and ?v = "volume w"
  have buf: "length s \<le> length ?buf" "take (length s) ?buf = s" using s(2) by (simp_all add: min_def)
  have pos: "0 < length s" using s(1) by simp
  obtain v f' cs' where W: "fat_Write ?v f ?buf (length s) = Some (v, f', length s)" "fd_writes v cs' f'"
    "wr_off f' = wr_off f + length s" "fat_entry f' = fat_entry f" "get_entry v (fat_entry f) = Some (entry_at v (fat_entry f))"
    "file_ok v (entry_at v (fat_entry f)) cs'"
    "file_data v (entry_at v (fat_entry f)) cs' = take (wr_off f) (cluster_data ?v cs) @ take (length s) ?buf"
    "\<forall>x. 2 \<le> x \<longrightarrow> table ?v ! x \<noteq> 0 \<longrightarrow> x \<notin> set cs \<longrightarrow> x \<noteq> fst (fat_entry f) \<longrightarrow>
       x \<notin> set cs' \<and> table v ! x = table ?v ! x \<and> clusters v ! (x - 2) = clusters ?v ! (x - 2)"
    using fat_Write_ok[OF fw fr pos buf(1) s(3,4)] by blast
  have "PrintToFD env h s w = Some (set_fd h (FileFd f') (w\<lparr>volume := v\<rparr>))"
    using s(2) fd W(1) by (simp add: PrintToFD_def fd_write_def)
  moreover have "table v = table ?v" if "wr_cluster_off f + length s \<le> bytes_per_cluster ?v" "cs \<noteq> []"
  proof -
    have g: "get_entry ?v (fat_entry f) = Some (entry_at ?v (fat_entry f))" "FirstCluster (entry_at ?v (fat_entry f)) \<noteq> 0"
      using fw that(2) get_entry_at by (auto simp: fd_writes_def split: if_splits)
    show ?thesis by (rule fat_Write_table[OF W(1) g that(1) pos])
  qed
  ultimately show ?thesis using W(1-4,6-8) buf(2) by (intro exI[of _ v] exI[of _ f'] exI[of _ cs']) simp
qed

text \<open>The two writes of \<open>lkurf TEXT> FILE\<close>, and the world after them.\<close>

lemma redirect_line:
  fixes words dest :: "u8 list"
  assumes te: "terminals w i = Some t" "length (term_files t) = 3"
    and line: "linebuf t = str ''lkurf'' @ 32 # words @ 62 # 32 # dest @ 0 # rest" "plain_word words" "hd words \<noteq> 38" "plain_word dest"
    and fl: "FindFile (volume w) dest 0 = Some (Some p, False)" "attr (entry_at (volume w) p) \<noteq> kDirectory"
      "fd_writes (volume w) cs (new_FatFD p)" "cs \<noteq> []" "2 \<le> length (free_clusters (table (volume w)) 2)"
    and len: "length words < 128" "length words \<le> bytes_per_cluster (volume w)"
  obtains u f v f' b cs' where
    "fat_Write (volume w) (new_FatFD p) (take 128 (words @ 0 # stale env)) (length words) = Some (u, f, length words)"
    "fat_Write u f (take 128 ([10] @ 0 # stale env)) 1 = Some (v, f', 1)"
    "length b = length (linebuf t)"
    "ExecuteLine env i w = Some (w\<lparr>volume := v, fd_store := (fd_store w)(next_fd w \<mapsto> FileFd f'), next_fd := next_fd w + 1,
       terminals := (terminals w)(i \<mapsto> t\<lparr>linebuf := b, last_exit_code := 0\<rparr>)\<rparr>)"
    "volume_ok v" "valid_ptr v p" "file_ok v (entry_at v p) cs'" "file_data v (entry_at v p) cs' = words @ [10]"
    "\<forall>x. 2 \<le> x \<longrightarrow> table (volume w) ! x \<noteq> 0 \<longrightarrow> x \<notin> set cs \<longrightarrow> x \<noteq> fst p \<longrightarrow>
       table v ! x = table (volume w) ! x \<and> clusters v ! (x - 2) = clusters (volume w) ! (x - 2)"
proof -
  let ?v = "volume w" and ?h = "next_fd w" and ?h1 = "term_files t ! 1"
  have cmd: "\<forall>x \<in> set (str ''lkurf''). x \<noteq> 0 \<and> x \<noteq> 32 \<and> x \<noteq> 62 \<and> x \<noteq> 124" by (simp add: str_def of_char_def)
  obtain b where pl: "parse_line (linebuf t) =
    Some \<lparr>cl_command = str ''lkurf'', cl_first_arg = Some words, cl_redirect = Some dest, cl_pipe = None, cl_buffer = b\<rparr>" "length b = length (linebuf t)"
    using parse_redirect[OF cmd line(2,4), of rest] line(1) by auto
  define t0 where "t0 = t\<lparr>linebuf := b\<rparr>"
  define t1 where "t1 = t0\<lparr>term_files := (term_files t0)[1 := ?h]\<rparr>"
  define w0 where "w0 = w\<lparr>terminals := (terminals w)(i \<mapsto> t0)\<rparr>"
  define w1 where "w1 = w\<lparr>fd_store := (fd_store w)(?h \<mapsto> FileFd (new_FatFD p)), next_fd := ?h + 1, terminals := (terminals w)(i \<mapsto> t1)\<rparr>"
  have v: "volume_ok ?v" "valid_ptr ?v p" using fl(3) by (auto simp: fd_writes_def new_FatFD_def)
  have "get_entry ?v p = Some (entry_at ?v p)" by (rule get_entry_at[OF v])
  then have red: "redirect env i (Some dest) w0 = Some (w1, True)"
    using fl(1,2) te
    by (simp add: redirect_def w0_def w1_def new_fd_def set_stdout_def t1_def t0_def Let_def)
  have std1: "std i 1 w' = Some ?h" if "terminals w' i = Some t1" for w'
    using that te by (simp add: std_def t1_def t0_def)
  have nz: "words \<noteq> []" using line(2) by (simp add: plain_word_def)
  have off: "wr_off (new_FatFD p) = 0" "wr_cluster_off (new_FatFD p) = 0" "fat_entry (new_FatFD p) = p" by (simp_all add: new_FatFD_def)
  have f1: "fd_store w1 ?h = Some (FileFd (new_FatFD p))" and v1: "volume w1 = ?v" by (simp_all add: w1_def)
  obtain u f' cs' where A0: "fat_Write ?v (new_FatFD p) (take 128 (words @ 0 # stale env)) (length words) = Some (u, f', length words)"
    and A: "PrintToFD env ?h words w1 = Some (set_fd ?h (FileFd f') (w1\<lparr>volume := u\<rparr>))" "fd_writes u cs' f'"
    "wr_off f' = length words" "fat_entry f' = p" "file_ok u (entry_at u p) cs'" "file_data u (entry_at u p) cs' = words" "table u = table ?v"
    "\<forall>x. 2 \<le> x \<longrightarrow> table ?v ! x \<noteq> 0 \<longrightarrow> x \<notin> set cs \<longrightarrow> x \<noteq> fst p \<longrightarrow> x \<notin> set cs' \<and> table u ! x = table ?v ! x \<and> clusters u ! (x - 2) = clusters ?v ! (x - 2)"
    using PrintToFD_file[OF f1, of cs words env] fl(3-5) nz len unfolding v1 off by auto
  define w2 where "w2 = set_fd ?h (FileFd f') (w1\<lparr>volume := u\<rparr>)"
  have f2: "fd_store w2 ?h = Some (FileFd f')" "volume w2 = u" "terminals w2 i = Some t1" by (simp_all add: w2_def set_fd_def w1_def)
  have bu: "wr_cluster_off f' + 1 \<le> bytes_per_cluster u \<or> wr_cluster_off f' = bytes_per_cluster u \<and> 1 \<le> bytes_per_cluster u"
    using A(2,3) nz volume_bytes_pos[of u] by (auto simp: fd_writes_def split: if_splits)
  have fr2: "2 \<le> length (free_clusters (table u) 2)" using fl(5) A(7) by simp
  have sm: "wr_off f' + length [10 :: u8] < 2 ^ 32" using A(3) len(1) by simp
  obtain u2 f2' cs2 where B0: "fat_Write u f' (take 128 ([10] @ 0 # stale env)) (length [10 :: u8]) = Some (u2, f2', length [10 :: u8])"
    and B: "PrintToFD env ?h [10] w2 = Some (set_fd ?h (FileFd f2') (w2\<lparr>volume := u2\<rparr>))" "fd_writes u2 cs2 f2'"
    "fat_entry f2' = p" "file_ok u2 (entry_at u2 p) cs2"
    "file_data u2 (entry_at u2 p) cs2 = take (length words) (cluster_data u cs') @ [10]"
    "\<forall>x. 2 \<le> x \<longrightarrow> table u ! x \<noteq> 0 \<longrightarrow> x \<notin> set cs' \<longrightarrow> x \<noteq> fst p \<longrightarrow> x \<notin> set cs2 \<and> table u2 ! x = table u ! x \<and> clusters u2 ! (x - 2) = clusters u ! (x - 2)"
    using PrintToFD_file[OF f2(1), of cs' "[10]" env] A(2-4) fr2 bu sm unfolding f2(2) by auto
  define w3 where "w3 = set_fd ?h (FileFd f2') (w2\<lparr>volume := u2\<rparr>)"
  have t3: "terminals w3 i = Some t1" "shown w3 = shown w" "volume w3 = u2"
    by (simp_all add: w3_def w2_def w1_def set_fd_def)
  have "lkurf env i (Some words) w1 = Some w3"
    using nz line(3) std1[of w1] std1[of w2] f2(3) A(1) B(1)
    by (simp add: lkurf_def print_to_def w2_def[symmetric] w3_def[symmetric]) (simp add: w1_def)
  then have run: "run_command env i (str ''lkurf'') (Some words) w1 = Some (w3, 0)" by (simp add: run_command_def)
  define t4 where "t4 = t1\<lparr>last_exit_code := 0, term_files := (term_files t1)[1 := ?h1]\<rparr>"
  define w4 where "w4 = w3\<lparr>terminals := (terminals w3)(i \<mapsto> t4)\<rparr>"
  have "std i 1 w = Some ?h1" using te by (simp add: std_def)
  then have ex: "ExecuteLine env i w = Some w4"
    using te(1) pl(1) red run t3(1) te(2)
    by (simp add: ExecuteLine_def t0_def[symmetric] w0_def[symmetric] open_pipe_def close_pipe_def set_stdout_def w4_def t4_def)
      (simp add: t1_def t0_def)
  have u2: "volume_ok u2" "valid_ptr u2 p" using B(2,3) by (auto simp: fd_writes_def)
  have "take (length words) (cluster_data u cs') = words"
    using A(6) take_prefix_eq unfolding file_data_def by blast
  then have data: "file_data u2 (entry_at u2 p) cs2 = words @ [10]" using B(5) by simp
  have frame: "table u2 ! x = table ?v ! x \<and> clusters u2 ! (x - 2) = clusters ?v ! (x - 2)"
    if "2 \<le> x" "table ?v ! x \<noteq> 0" "x \<notin> set cs" "x \<noteq> fst p" for x
    using A(8)[rule_format, OF that] B(6)[rule_format, of x] that by simp
  have "t4 = t\<lparr>linebuf := b, last_exit_code := 0\<rparr>"
    using te(2) by (cases t) (simp add: t4_def t1_def t0_def)
  then have "w4 = w\<lparr>volume := u2, fd_store := (fd_store w)(?h \<mapsto> FileFd f2'), next_fd := ?h + 1,
      terminals := (terminals w)(i \<mapsto> t\<lparr>linebuf := b, last_exit_code := 0\<rparr>)\<rparr>"
    by (simp add: w4_def w3_def w2_def w1_def set_fd_def)
  then show thesis using that[OF A0 _ pl(2) _ u2 B(4) data] B0 ex frame by simp
qed


text \<open>A system for the example: a volume with one file of two clusters and two free ones, and a terminal of task 3.\<close>

definition shell_volume :: Volume where
  "shell_volume = sample_files\<lparr>table := [0x0ffffff8, 0x0fffffff, 0x0fffffff, 4, 0x0fffffff, 0, 0],
     clusters := clusters sample_files @ [replicate 64 0]\<rparr>"

definition shell_dest :: "u8 list" where
  "shell_dest = [65, 65, 65, 65, 65, 65, 65, 65, 46, 65, 65, 65]"

definition shell_line :: "u8 list" where
  "shell_line = str ''lkurf'' @ 32 # [0x68, 0x69] @ 62 # 32 # shell_dest @ 0 # []"

definition shell_world :: World where
  "shell_world = \<lparr>volume = shell_volume, fd_store = [0 \<mapsto> TermFd 3], next_fd = 1,
     terminals = [3 \<mapsto> sample_terminal\<lparr>linebuf := shell_line, term_files := [0, 0, 0]\<rparr>],
     descriptors = (\<lambda>_. None), next_descriptor = 1,
     desktop = \<lparr>manager = sample_lm, active_layer = 0, mouse_layer = 0, layer_task_map = (\<lambda>_. None), task_manager = new_TaskManager 0 0 0\<rparr>,
     timer_mgr = \<lparr>tick = 0, timers = []\<rparr>, registers = zero_context,
     machine = \<lparr>mm = new_BitmapMemoryManager, phys = (\<lambda>_. []), CR3 = 0\<rparr>, loads = (\<lambda>_. None),
     pci = \<lparr>cfg_address = 0, devices = [], hw = (\<lambda>_. 0)\<rparr>, shown = []\<rparr>"

definition shell_env :: Env where
  "shell_env = \<lparr>env_fonts = ascii_table, null_size = Vec 0 0, stale = [], kernel_map = 0, stack_of = (\<lambda>_. 0), task_terminal = 0,
     others = Some, call_app = (\<lambda>_ _ _ w. Some (w, 0))\<rparr>"

lemma shell_volume_ok:
  "volume_ok shell_volume" "valid_ptr shell_volume (2, 0)" "entry_at shell_volume (2, 0) = sample_entry"
  "fd_writes shell_volume [3, 4] (new_FatFD (2, 0))" "free_clusters (table shell_volume) 2 = [5, 6]"
proof -
  have b: "bytes_per_cluster shell_volume = 64" by (simp add: bytes_per_cluster_def shell_volume_def sample_files_def sample_volume_def)
  have c: "\<forall>bs \<in> set (clusters sample_files). length bs = 64" "length (clusters sample_files) = 4"
    using sample_files_ok(1) by (auto simp: volume_ok_def bytes_per_cluster_def sample_files_def sample_volume_def)
  show v: "volume_ok shell_volume" using b c by (auto simp: volume_ok_def shell_volume_def entry_size_def)
  show p: "valid_ptr shell_volume (2, 0)" using b by (simp add: valid_ptr_def num_entries_def shell_volume_def entry_size_def)
  have "clusters shell_volume ! 0 = clusters sample_files ! 0" using c(2) by (simp add: shell_volume_def nth_append)
  then show e: "entry_at shell_volume (2, 0) = sample_entry" using sample_files_ok(3) by (simp add: entry_at_def)
  show "fd_writes shell_volume [3, 4] (new_FatFD (2, 0))"
    using v p e b by (simp add: fd_writes_def new_FatFD_def) (simp add: sample_entry_def FirstCluster_def shell_volume_def IsEndOfClusterchain_def)
  show "free_clusters (table shell_volume) 2 = [5, 6]"
    by (simp add: free_clusters_def shell_volume_def upt_conv_Cons)
qed

lemma shell_volume_find: "FindFile shell_volume shell_dest 0 = Some (Some (2, 0), False)"
proof -
  have n: "shell_dest = [65, 65, 65, 65, 65, 65, 65, 65, 46, 65, 65, 65]" by (simp add: shell_dest_def)
  have r: "replicate 11 c = [c, c, c, c, c, c, c, c, c, c, c]" for c :: u8 by (simp add: eval_nat_numeral)
  have m: "NameIsEqual sample_entry shell_dest"
    by (simp add: NameIsEqual_def n r[of 65] r[of 32] sample_entry_def dot_def toupper_def)
  have ne: "NextPathElement shell_dest = Some (shell_dest, None, False)"
    by (simp add: NextPathElement_def n slash_def path_buffer_def)
  have ps: "path_start shell_volume shell_dest 0 = (shell_dest, 2)"
    by (simp add: path_start_def n slash_def shell_volume_def sample_files_def sample_volume_def)
  have b: "bytes_per_cluster shell_volume = 64" by (simp add: bytes_per_cluster_def shell_volume_def sample_files_def sample_volume_def)
  have g: "GetSectorByCluster shell_volume 2 = Some (clusters shell_volume ! 0)"
    by (simp add: GetSectorByCluster_def shell_volume_def sample_files_def)
  have ge: "dir_entry (clusters shell_volume ! 0) 0 = sample_entry"
    using shell_volume_ok(3) by (simp add: entry_at_def)
  have de: "dir_entries shell_volume (clusters shell_volume ! 0) = [sample_entry, dir_entry (clusters shell_volume ! 0) 1]"
    using b ge by (simp add: dir_entries_def num_entries_def entry_size_def upt_conv_Cons)
  have sd: "search_dir shell_volume shell_dest 2 = Some (Some (2, 0))"
    using m by (subst search_dir.simps) (simp add: kEndOfClusterchain_def g de, simp add: sample_entry_def)
  have get: "get_entry shell_volume (2, 0) = Some sample_entry"
    using b g ge by (simp add: get_entry_def num_entries_def entry_size_def)
  show ?thesis
    by (subst FindFile.simps) (simp add: ps ne sd get)
qed


end
