(* ===== verification/ShellSession.thy ===== *)
theory ShellSession
  imports Shell
begin

text \<open>
  The line editor of \<^verbatim>\<open>Terminal\<close> over the shell: typed lines run through \<open>ExecuteLine\<close> of \<^verbatim>\<open>kernel/terminal.cpp\<close>. The locale
  \<open>line_executor\<close> is interpreted on \<open>shell_executor\<close>, for the lines that the shell runs by itself.
\<close>

subsection \<open>Output on the own terminal\<close>

lemma print_bytes_ok:
  assumes "\<forall>c \<in> set s. c \<noteq> 0 \<and> c < 0x80" and "screen_ok t"
  shows "\<exists>p es. print_string fonts (s @ 0 # rest) (Some (length s)) t = Some (t\<lparr>cursor := p\<rparr>, es) \<and> screen_ok (t\<lparr>cursor := p\<rparr>) \<and>
    in_window es \<and> (s \<noteq> [] \<and> last s = 10 \<longrightarrow> vx p = 0)"
  using assms
proof (induction s arbitrary: t)
  case Nil
  then show ?case by (intro exI[of _ "cursor t"] exI[of _ "[]"]) (simp add: print_string.simps)
next
  case (Cons c s)
  have c: "c \<noteq> 0" "c < 0x80" using Cons.prems(1) by simp_all
  have conv: "ConvertUTF8To32 (c # s @ 0 # rest) = Some (char32 c, 1)"
    using c(2) by (simp add: ConvertUTF8To32_def CountUTF8Size_def)
  have "(ucast (char32 c) :: u8) = c" unfolding char32_def by (rule bit_word_eqI) (auto simp: bit_ucast_iff bit_signed_iff)
  then have c32: "char32 c = 10 \<longleftrightarrow> c = 10" by (auto simp: char32_def)
  obtain p1 es1 where 1: "Print_char fonts (char32 c) t = Some (t\<lparr>cursor := p1\<rparr>, es1)" "screen_ok (t\<lparr>cursor := p1\<rparr>)" "in_window es1"
    "c = 10 \<longrightarrow> vx p1 = 0"
  proof (cases "c = 10")
    case True
    then show ?thesis using that term_newline_ok[OF Cons.prems(2)] Cons.prems(2) c32 by (auto simp: Print_char_def screen_ok_def)
  next
    case False
    then show ?thesis using that Print_char_ok[OF Cons.prems(2), of fonts "char32 c"] by blast
  qed
  obtain p2 es2 where 2: "print_string fonts (s @ 0 # rest) (Some (length s)) (t\<lparr>cursor := p1\<rparr>) = Some (t\<lparr>cursor := p2\<rparr>, es2)"
    "screen_ok (t\<lparr>cursor := p2\<rparr>)" "in_window es2" "s \<noteq> [] \<and> last s = 10 \<longrightarrow> vx p2 = 0"
    using Cons.IH[OF _ 1(2)] Cons.prems(1) by auto
  have same: "vx p2 = vx p1" if "s = []"
  proof -
    have "t\<lparr>cursor := p1\<rparr> = t\<lparr>cursor := p2\<rparr>" using 2(1) that by (simp add: print_string.simps)
    then have "cursor (t\<lparr>cursor := p1\<rparr>) = cursor (t\<lparr>cursor := p2\<rparr>)" by (rule arg_cong)
    then show ?thesis by simp
  qed
  have "print_string fonts ((c # s) @ 0 # rest) (Some (length (c # s))) t = Some (t\<lparr>cursor := p2\<rparr>, es1 @ es2)"
    using c(1) conv 1(1) 2(1) by (subst print_string.simps) simp
  moreover have "vx p2 = 0" if "last (c # s) = 10" using that 1(4) 2(4) same by (cases "s = []") auto
  ultimately show ?case using 1(3) 2(2,3) by (intro exI[of _ p2] exI[of _ "es1 @ es2"]) simp
qed

text \<open>What a line may print: bytes that are neither zero nor part of a longer character.\<close>

definition ascii_text :: "u8 list \<Rightarrow> bool" where
  "ascii_text s \<longleftrightarrow> length s < 128 \<and> (\<forall>c \<in> set s. c \<noteq> 0 \<and> c < 0x80)"

text \<open>A world whose terminal \<open>i\<close> has moved its cursor to \<open>p\<close> and shown \<open>es\<close>.\<close>

definition printed :: "nat \<Rightarrow> Terminal \<Rightarrow> Vector2D \<Rightarrow> TermEffect list \<Rightarrow> World \<Rightarrow> World" where
  "printed i t p es w = w\<lparr>terminals := (terminals w)(i \<mapsto> t\<lparr>cursor := p\<rparr>), shown := shown w @ map (Pair i) es\<rparr>"

lemma PrintToFD_terminal:
  assumes "terminals w i = Some t" "screen_ok t" and "fd_store w h = Some (TermFd i)" and "ascii_text s"
  shows "\<exists>p es. PrintToFD env h s w = Some (printed i t p es w) \<and> screen_ok (t\<lparr>cursor := p\<rparr>) \<and> in_window es \<and>
    (s \<noteq> [] \<and> last s = 10 \<longrightarrow> vx p = 0)"
proof -
  have s: "length s < 128" "\<forall>c \<in> set s. c \<noteq> 0 \<and> c < 0x80" using assms(4) by (auto simp: ascii_text_def)
  have buf: "take 128 (s @ 0 # stale env) = s @ 0 # take (127 - length s) (stale env)"
    using s(1) by (simp add: take_Cons' )
  obtain p es where p: "print_string (env_fonts env) (s @ 0 # take (127 - length s) (stale env)) (Some (length s)) t = Some (t\<lparr>cursor := p\<rparr>, es)"
    "screen_ok (t\<lparr>cursor := p\<rparr>)" "in_window es" "s \<noteq> [] \<and> last s = 10 \<longrightarrow> vx p = 0"
    using print_bytes_ok[OF s(2) assms(2)] by blast
  define E where "E = (DrawCursor False t @ es @ DrawCursor True (t\<lparr>cursor := p\<rparr>) @ [draw_message (Rect (Vec (vx kTopLeftMargin) (vy (CalcCursorPos t)))
      (Vec (vx (term_inner_size (null_size env) (t\<lparr>cursor := p\<rparr>))) (vy (CalcCursorPos (t\<lparr>cursor := p\<rparr>)) - vy (CalcCursorPos t) + 16)))
      (t\<lparr>cursor := p\<rparr>)]) @ Redraw (null_size env) (t\<lparr>cursor := p\<rparr>)"
  have "in_window E"
    using p(3) DrawCursor_in_window[OF assms(2)] DrawCursor_in_window[OF p(2)] by (simp add: E_def Redraw_def draw_message_def)
  moreover have "PrintToFD env h s w = Some (printed i t p E w)"
    using s(1) assms(1,3) p(1) unfolding PrintToFD_def buf
    by (simp add: fd_write_def term_write_def on_terminal_def Print_def printed_def E_def Let_def)
  ultimately show ?thesis using p(2,4) by blast
qed

text \<open>Terminal \<open>i\<close> is its own output and error output.\<close>

definition own_output :: "nat \<Rightarrow> Terminal \<Rightarrow> World \<Rightarrow> bool" where
  "own_output i t w \<longleftrightarrow> length (term_files t) = 3 \<and> fd_store w (term_files t ! 1) = Some (TermFd i) \<and>
     fd_store w (term_files t ! 2) = Some (TermFd i)"

lemma printed_simps [simp]:
  "terminals (printed i t p es w) i = Some (t\<lparr>cursor := p\<rparr>)" "volume (printed i t p es w) = volume w"
  "own_output i t' (printed i t p es w) = own_output i t' w" "own_output i (t\<lparr>cursor := p\<rparr>) w = own_output i t w"
  "printed i (t\<lparr>cursor := p\<rparr>) q es' (printed i t p es w) = printed i t q (es @ es') w"
  by (simp_all add: printed_def own_output_def)

lemma print_to_ok:
  assumes "terminals w i = Some t" "screen_ok t" "own_output i t w" and "k = 1 \<or> k = 2" and "ascii_text s"
  shows "\<exists>p es. print_to env i k s w = Some (printed i t p es w) \<and> screen_ok (t\<lparr>cursor := p\<rparr>) \<and> in_window es \<and>
    (s \<noteq> [] \<and> last s = 10 \<longrightarrow> vx p = 0)"
proof -
  have "fd_store w (term_files t ! k) = Some (TermFd i)" "k < length (term_files t)" using assms(3,4) by (auto simp: own_output_def)
  then show ?thesis using PrintToFD_terminal[OF assms(1,2) _ assms(5)] assms(1) by (simp add: print_to_def std_def)
qed

subsection \<open>The lines\<close>

definition builtins :: "u8 list list" where
  "builtins = [str ''lkurf'', str ''ys'', str ''__lspci'', str ''__ls'', str ''melfertal'', str ''xel'', str ''karse'', str ''ksfnerfe'',
     str ''__memstat'', str ''lurfa'', []]"

text \<open>A line that neither redirects nor pipes: its command and its argument.\<close>

definition line_command :: "u8 list \<Rightarrow> u8 list" where
  "line_command l = takeWhile (\<lambda>c. c \<noteq> 32) l"

definition line_arg :: "u8 list \<Rightarrow> u8 list option" where
  "line_arg l = (if 32 \<in> set l then Some (dropWhile isspace (tl (dropWhile (\<lambda>c. c \<noteq> 32) l))) else None)"

text \<open>What the shell does by itself: it prints a text, clears the screen, does nothing, or complains about an unknown command.\<close>

definition command_ok :: "u8 list \<Rightarrow> World \<Rightarrow> bool" where
  "command_ok c w \<longleftrightarrow> c \<in> {[], str ''lkurf'', str ''ys''} \<or> c \<notin> set builtins \<and> FindCommand (volume w) c = Some None"

definition command_exit :: "u8 list \<Rightarrow> int" where
  "command_exit c = (if c \<in> {[], str ''lkurf'', str ''ys''} then 0 else 1)"

lemma ascii_text_simps:
  "ascii_text [10]" "ascii_text (str ''cene niv mi jel cersva l'' @ [39] @ str ''es '' @ c @ str ''.'' @ [10]) \<longleftrightarrow>
    length c < 98 \<and> (\<forall>x \<in> set c. x \<noteq> 0 \<and> x < 0x80)"
  by (auto simp: ascii_text_def str_def of_char_def)

lemma dec_nat_digit: "n < 10 \<Longrightarrow> dec_nat n = [of_nat (48 + n)]"
  by (subst dec_nat.simps) simp

lemma run_command_ok:
  assumes t: "terminals w i = Some t" "screen_ok t" "own_output i t w" "vx (cursor t) = 0" "last_exit_code t \<in> {0, 1}"
    and c: "command_ok c w" "ascii_text c" "length c < 98" and a: "\<forall>s. a = Some s \<longrightarrow> ascii_text s"
  shows "\<exists>p es. run_command env i c a w = Some (printed i t p es w, command_exit c) \<and> screen_ok (t\<lparr>cursor := p\<rparr>) \<and>
    in_window es \<and> vx p = 0"
proof -
  have newline: "\<exists>q es'. print_to env i 1 [10] (printed i t p es w) = Some (printed i t q (es @ es') w) \<and> screen_ok (t\<lparr>cursor := q\<rparr>) \<and>
      in_window es' \<and> vx q = 0" if "screen_ok (t\<lparr>cursor := p\<rparr>)" for p es
    using print_to_ok[of "printed i t p es w" i "t\<lparr>cursor := p\<rparr>" 1 "[10]" env] that t(3) by (simp add: ascii_text_simps)
  have start: "printed i t (cursor t) [] w = w" using t(1) by (simp add: printed_def fun_upd_idem)
  consider "c = []" | "c = str ''lkurf''" | "c = str ''ys''" | "c \<notin> set builtins" "FindCommand (volume w) c = Some None"
    using c(1) by (auto simp: command_ok_def)
  then show ?thesis
  proof cases
    case 1
    then have "run_command env i c a w = Some (printed i t (cursor t) [] w, command_exit c)"
      by (simp add: run_command_def command_exit_def start str_def)
    then show ?thesis using t(2,4) by (intro exI[of _ "cursor t"] exI[of _ "[]"]) simp
  next
    case 2
    have "\<exists>p es. (case a of None \<Rightarrow> Some w | Some s \<Rightarrow> if s \<noteq> [] \<and> hd s = 38
        then (if tl s = str ''lex'' then print_to env i 1 (dec_int (last_exit_code t)) w else Some w)
        else print_to env i 1 s w) = Some (printed i t p es w) \<and> screen_ok (t\<lparr>cursor := p\<rparr>) \<and> in_window es"
    proof (cases "\<exists>s. (a = Some s \<and> \<not> (s \<noteq> [] \<and> hd s = 38) \<or> s = dec_int (last_exit_code t) \<and> a = Some (38 # str ''lex'')) \<and> ascii_text s")
      case True
      then obtain s where s: "a = Some s \<and> \<not> (s \<noteq> [] \<and> hd s = 38) \<or> s = dec_int (last_exit_code t) \<and> a = Some (38 # str ''lex'')"
        "ascii_text s" by blast
      obtain p es where "print_to env i 1 s w = Some (printed i t p es w)" "screen_ok (t\<lparr>cursor := p\<rparr>)" "in_window es"
        using print_to_ok[OF t(1-3) _ s(2), of 1 env] by blast
      then show ?thesis using s(1) by (intro exI[of _ p] exI[of _ es]) (auto simp: str_def)
    next
      case False
      have d: "ascii_text (dec_int (last_exit_code t))"
        using t(5) by (auto simp: dec_int_def dec_nat_digit ascii_text_def)
      have "s \<noteq> [] \<and> hd s = 38 \<and> tl s \<noteq> str ''lex''" if s: "a = Some s" for s
      proof -
        have "ascii_text s" using a s by simp
        then have h: "s \<noteq> [] \<and> hd s = 38" using False s by blast
        then have "tl s = str ''lex'' \<Longrightarrow> a = Some (38 # str ''lex'')" using s by (metis list.collapse)
        then show ?thesis using False d h by blast
      qed
      then have "a = None \<or> (\<exists>s. a = Some s \<and> s \<noteq> [] \<and> hd s = 38 \<and> tl s \<noteq> str ''lex'')" by (cases a) blast+
      then show ?thesis using t(2) by (intro exI[of _ "cursor t"] exI[of _ "[]"]) (auto simp: start)
    qed
    then obtain p es where 1: "(case a of None \<Rightarrow> Some w | Some s \<Rightarrow> if s \<noteq> [] \<and> hd s = 38
        then (if tl s = str ''lex'' then print_to env i 1 (dec_int (last_exit_code t)) w else Some w)
        else print_to env i 1 s w) = Some (printed i t p es w)" "screen_ok (t\<lparr>cursor := p\<rparr>)" "in_window es" by blast
    obtain q es' where 2: "print_to env i 1 [10] (printed i t p es w) = Some (printed i t q (es @ es') w)" "screen_ok (t\<lparr>cursor := q\<rparr>)"
      "in_window es'" "vx q = 0" using newline[OF 1(2)] by blast
    have "run_command env i c a w = Some (printed i t q (es @ es') w, command_exit c)"
      using \<open>c = str ''lkurf''\<close> 1(1) 2(1) t(1) by (simp add: run_command_def lkurf_def command_exit_def)
    then show ?thesis using 1(3) 2 by (intro exI[of _ q] exI[of _ "es @ es'"]) simp
  next
    case 3
    let ?es = "if show_window t then [Paint (inner (FillRectangle (Vec 4 4) (Vec (8 * int kTerminalColumns) (16 * int kTerminalRows)) (Color 0 0 0)))] else []"
    have "inside (inner (FillRectangle (Vec 4 4) (Vec (8 * int kTerminalColumns) (16 * int kTerminalRows)) (Color 0 0 0))) 400 308"
      by (intro inside_inner_fill) (simp_all add: kTerminalColumns_def kTerminalRows_def)
    then have "in_window ?es" by simp
    moreover have "run_command env i c a w = Some (printed i t (Vec 0 0) ?es w, command_exit c)"
      using 3 t(1,4) by (simp add: run_command_def str_def clear_command_def on_terminal_def printed_def command_exit_def)
    moreover have "screen_ok (t\<lparr>cursor := Vec 0 0\<rparr>)" using t(2) by (simp add: screen_ok_def kTerminalRows_def)
    ultimately show ?thesis by (intro exI[of _ "Vec 0 0"] exI[of _ ?es]) simp
  next
    case 4
    let ?msg = "str ''cene niv mi jel cersva l'' @ [39] @ str ''es '' @ c @ str ''.'' @ [10]"
    have "ascii_text ?msg" using c(2,3) unfolding ascii_text_simps by (simp add: ascii_text_def)
    then obtain p es where p: "print_to env i 2 ?msg w = Some (printed i t p es w)" "screen_ok (t\<lparr>cursor := p\<rparr>)" "in_window es" "vx p = 0"
      using print_to_ok[OF t(1-3), of 2 ?msg env] by auto
    have "run_command env i c a w = ExecuteCommand env i c a w"
      using 4(1) unfolding run_command_def by (simp add: builtins_def)
    also have "\<dots> = Some (printed i t p es w, command_exit c)"
      using 4 p(1) by (simp add: ExecuteCommand_def command_exit_def builtins_def)
    finally show ?thesis using p(2-4) by blast
  qed
qed


text \<open>A line without redirection and pipe.\<close>

lemma parse_plain:
  assumes "\<forall>x \<in> set l. x \<noteq> 0 \<and> x \<noteq> 62 \<and> x \<noteq> 124"
  shows "\<exists>b. length b = length (l @ 0 # rest) \<and> parse_line (l @ 0 # rest) =
    Some \<lparr>cl_command = line_command l, cl_first_arg = line_arg l, cl_redirect = None, cl_pipe = None, cl_buffer = b\<rparr>"
proof -
  let ?a = "l @ 0 # rest"
  have nz: "0 \<notin> set l" "62 \<notin> set l" "124 \<notin> set l" using assms by auto
  have n: "strchr ?a 62 = Some None" "strchr ?a 124 = Some None" using strchr_none[OF nz(1)] nz(2,3) by blast+
  have no: "cut_at None a = a" for a by (simp add: cut_at_def)
  show ?thesis
  proof (cases "32 \<in> set l")
    case False
    then have "takeWhile (\<lambda>c. c \<noteq> 32) l = l" by (subst takeWhile_eq_all_conv) auto
    then have "line_command l = l" "line_arg l = None" using False by (simp_all add: line_command_def line_arg_def)
    moreover have "strchr ?a 32 = Some None" using strchr_none[OF nz(1) False] .
    moreover have "c_string ?a = Some l" using nz(1) by (intro c_string_append) auto
    ultimately show ?thesis using n by (intro exI[of _ ?a]) (simp add: parse_line_def no string_at_def)
  next
    case True
    then obtain c r where l: "l = c @ 32 # r" "32 \<notin> set c" by (metis split_list_first)
    have cz: "\<forall>x \<in> set c. x \<noteq> 0" "\<forall>x \<in> set r. x \<noteq> 0" using nz(1) l(1) by auto
    let ?b = "c @ 0 # r @ 0 # rest" and ?r = "dropWhile isspace r"
    have "takeWhile (\<lambda>x. x \<noteq> 32) (c @ 32 # r) = c" "dropWhile (\<lambda>x. x \<noteq> 32) (c @ 32 # r) = 32 # r"
      using l(2) by (induction c) auto
    then have tw: "line_command l = c" "line_arg l = Some ?r" using l(1) by (simp_all add: line_command_def line_arg_def)
    have s: "strchr ?a 32 = Some (Some (length c))" using strchr_at[of c 32 "r @ 0 # rest"] l cz(1) by auto
    have cut: "cut_at (Some (length c)) ?a = ?b" using cut_here[of "length c" c 32 "r @ 0 # rest"] l(1) by simp
    have k: "skip_spaces ?b (length c + 1) = length c + 1 + length (takeWhile isspace r)"
    proof -
      have "takeWhile isspace (r @ 0 # rest) = takeWhile isspace r" by (induction r) (simp_all add: isspace_def)
      then show ?thesis by (simp add: skip_spaces_def)
    qed
    have "drop (length c + 1 + length (takeWhile isspace r)) ?b = drop (length (takeWhile isspace r)) (r @ 0 # rest)" by simp
    also have "\<dots> = ?r @ 0 # rest" by (metis append_assoc append_eq_conv_conj takeWhile_dropWhile_id)
    finally have g: "c_string (drop (length c + 1 + length (takeWhile isspace r)) ?b) = Some ?r"
      using c_string_append[of ?r rest] cz(2) set_dropWhileD[of _ isspace r] by force
    have h: "c_string ?b = Some c" using c_string_append[OF cz(1)] .
    have "parse_line ?a = Some \<lparr>cl_command = c, cl_first_arg = Some ?r, cl_redirect = None, cl_pipe = None, cl_buffer = ?b\<rparr>"
      unfolding parse_line_def s n Let_def option.map bind.bind_lunit cut k no string_at_def option.case g h by simp
    then show ?thesis unfolding tw by (intro exI[of _ ?b]) (simp add: l(1))
  qed
qed

lemma line_parts_ascii:
  assumes "\<forall>x \<in> set l. x \<noteq> 0 \<and> x < 0x80" and "length l < 98"
  shows "ascii_text (line_command l)" "length (line_command l) < 98" "line_arg l = Some s \<Longrightarrow> ascii_text s"
proof -
  have "length (line_command l) \<le> length l" "set (line_command l) \<subseteq> set l"
    using length_takeWhile_le set_takeWhileD by (force simp: line_command_def)+
  then show "ascii_text (line_command l)" "length (line_command l) < 98" using assms by (auto simp: ascii_text_def)
  show "ascii_text s" if "line_arg l = Some s"
  proof -
    have s: "s = dropWhile isspace (tl (dropWhile (\<lambda>c. c \<noteq> 32) l))" using that by (simp add: line_arg_def split: if_splits)
    then have "set s \<subseteq> set l" using set_dropWhileD list.set_sel(2) by (metis subsetI tl_Nil)
    moreover have "length s \<le> length l"
      unfolding s using length_dropWhile_le[of isspace "tl (dropWhile (\<lambda>c. c \<noteq> 32) l)"] length_dropWhile_le[of "\<lambda>c. c \<noteq> 32" l] by simp
    ultimately show ?thesis using assms by (auto simp: ascii_text_def)
  qed
qed

lemma ExecuteLine_plain:
  assumes t: "terminals w i = Some t" "screen_ok t" "own_output i t w" "vx (cursor t) = 0" "last_exit_code t \<in> {0, 1}"
    and l: "linebuf t = l @ 0 # rest" "\<forall>x \<in> set l. x \<noteq> 0 \<and> x < 0x80 \<and> x \<noteq> 62 \<and> x \<noteq> 124" "length l < 98"
      "command_ok (line_command l) w"
  shows "\<exists>b p es. ExecuteLine env i w = Some (w\<lparr>terminals := (terminals w)(i \<mapsto> t\<lparr>linebuf := b, cursor := p,
      last_exit_code := command_exit (line_command l)\<rparr>), shown := shown w @ map (Pair i) es\<rparr>) \<and>
    length b = length (linebuf t) \<and> screen_ok (t\<lparr>cursor := p\<rparr>) \<and> in_window es \<and> vx p = 0"
proof -
  obtain b where b: "length b = length (linebuf t)" "parse_line (linebuf t) =
    Some \<lparr>cl_command = line_command l, cl_first_arg = line_arg l, cl_redirect = None, cl_pipe = None, cl_buffer = b\<rparr>"
    using parse_plain[of l rest] l(1,2) by auto
  let ?t = "t\<lparr>linebuf := b\<rparr>"
  let ?w = "w\<lparr>terminals := (terminals w)(i \<mapsto> ?t)\<rparr>"
  have ok: "screen_ok ?t" "own_output i ?t ?w" "command_ok (line_command l) ?w"
    using t(2,3) b(1) l(4) by (simp_all add: screen_ok_def own_output_def command_ok_def)
  obtain p es where r: "run_command env i (line_command l) (line_arg l) ?w = Some (printed i ?t p es ?w, command_exit (line_command l))"
    "screen_ok (?t\<lparr>cursor := p\<rparr>)" "in_window es" "vx p = 0"
    using run_command_ok[of ?w i ?t "line_command l" "line_arg l" env] ok t(4,5) line_parts_ascii[of l] l(2,3) by auto
  have std: "std i 1 w = Some (term_files t ! 1)" "length (term_files t) = 3" using t(1,3) by (simp_all add: std_def own_output_def)
  have "t\<lparr>linebuf := b, cursor := p, last_exit_code := e, term_files := (term_files t)[1 := term_files t ! 1]\<rparr> =
      t\<lparr>linebuf := b, cursor := p, last_exit_code := e\<rparr>" for e by (cases t) simp
  then have "ExecuteLine env i w = Some (w\<lparr>terminals := (terminals w)(i \<mapsto> t\<lparr>linebuf := b, cursor := p,
      last_exit_code := command_exit (line_command l)\<rparr>), shown := shown w @ map (Pair i) es\<rparr>)"
    using t(1) b(2) std r(1)
    by (simp add: ExecuteLine_def redirect_def open_pipe_def close_pipe_def set_stdout_def) (simp add: printed_def)
  then show ?thesis using b(1) r(2-4) by (intro exI[of _ b] exI[of _ p] exI[of _ es]) (simp add: screen_ok_def)
qed

subsection \<open>Lines of the shell\<close>

text \<open>\<open>lkurf TEXT> FILE\<close>: the text, the name, and the world after the text and a line feed are written to the file.\<close>

definition redir_text :: "u8 list \<Rightarrow> u8 list" where
  "redir_text l = takeWhile (\<lambda>c. c \<noteq> 62) (drop 6 l)"

definition redir_file :: "u8 list \<Rightarrow> u8 list" where
  "redir_file l = drop 2 (dropWhile (\<lambda>c. c \<noteq> 62) (drop 6 l))"

definition redirect_okay :: "u8 list \<Rightarrow> World \<Rightarrow> bool" where
  "redirect_okay l w \<longleftrightarrow> l = str ''lkurf'' @ 32 # redir_text l @ 62 # 32 # redir_file l \<and>
     plain_word (redir_text l) \<and> hd (redir_text l) \<noteq> 38 \<and> plain_word (redir_file l) \<and>
     (\<exists>p cs. FindFile (volume w) (redir_file l) 0 = Some (Some p, False) \<and> attr (entry_at (volume w) p) \<noteq> kDirectory \<and>
        fd_writes (volume w) cs (new_FatFD p) \<and> cs \<noteq> []) \<and>
     2 \<le> length (free_clusters (table (volume w)) 2) \<and> length (redir_text l) \<le> bytes_per_cluster (volume w)"

definition stored_text :: "Env \<Rightarrow> Volume \<Rightarrow> FatFD \<Rightarrow> u8 list \<Rightarrow> Volume \<times> FatFD" where
  "stored_text env v f s = (case fat_Write v f (take 128 (s @ 0 # stale env)) (length s) of
     Some (v', f', _) \<Rightarrow> (v', f') | None \<Rightarrow> (v, f))"

definition redirected :: "Env \<Rightarrow> u8 list \<Rightarrow> World \<Rightarrow> World" where
  "redirected env l w = (case FindFile (volume w) (redir_file l) 0 of
     Some (Some p, _) \<Rightarrow>
       (let (v, f) = stored_text env (volume w) (new_FatFD p) (redir_text l); (v', f') = stored_text env v f [10]
        in w\<lparr>volume := v', fd_store := (fd_store w)(next_fd w \<mapsto> FileFd f'), next_fd := next_fd w + 1\<rparr>)
   | _ \<Rightarrow> w)"

text \<open>The lines, and what they do to the rest of the system and to the exit code. All of them end at the start of a row.\<close>

definition shell_okay :: "u8 list \<Rightarrow> World \<times> int \<Rightarrow> bool" where
  "shell_okay l v \<longleftrightarrow> 124 \<notin> set l \<and> (if 62 \<in> set l then redirect_okay l (fst v) else command_ok (line_command l) (fst v))"

definition shell_run :: "Env \<Rightarrow> u8 list \<Rightarrow> World \<times> int \<Rightarrow> (World \<times> int) \<times> nat" where
  "shell_run env l v =
     (if 62 \<in> set l then ((redirected env l (fst v), 0), 0) else ((fst v, command_exit (line_command l)), 0))"

text \<open>The world without terminal \<open>i\<close>, and what the line editor needs of it.\<close>

definition without :: "nat \<Rightarrow> World \<Rightarrow> World" where
  "without i w = w\<lparr>terminals := (terminals w)(i := None)\<rparr>"

definition shell_sim :: "nat \<Rightarrow> Terminal \<Rightarrow> World \<Rightarrow> World \<times> int \<Rightarrow> bool" where
  "shell_sim i t w v \<longleftrightarrow> own_output i t w \<and> term_files t ! 1 < next_fd w \<and> term_files t ! 2 < next_fd w \<and>
     last_exit_code t \<in> {0, 1} \<and> v = (without i w, last_exit_code t)"

lemma shell_executes:
  assumes t: "screen_ok t" "vx (cursor t) = 0" "shell_sim i t w v" "c_string (linebuf t) = Some l" "cmd_line_ok l" "shell_okay l v"
  shows "\<exists>t' w' es. shell_executor env i t w = Some (t', w', es) \<and> screen_ok t' \<and> in_window es \<and> shell_sim i t' w' (fst (shell_run env l v)) \<and>
    vx (cursor t') = int (snd (shell_run env l v)) \<and> linebuf_index t' = linebuf_index t \<and>
    cmd_history t' = cmd_history t \<and> cmd_history_index t' = cmd_history_index t"
proof -
  let ?w = "w\<lparr>terminals := (terminals w)(i \<mapsto> t), shown := []\<rparr>"
  obtain rest where rest: "linebuf t = l @ 0 # rest"
  proof -
    have z: "0 \<in> set (linebuf t)" "l = takeWhile (\<lambda>c. c \<noteq> 0) (linebuf t)" using t(4) by (auto simp: c_string_def split: if_splits)
    then obtain a r where a: "linebuf t = a @ 0 # r" "0 \<notin> set a" by (metis split_list_first)
    then have "c_string (linebuf t) = Some a" using c_string_append[of a r] by force
    then have "l = a" using t(4) by simp
    then show ?thesis using that a(1) by blast
  qed
  have l: "\<forall>x \<in> set l. x \<noteq> 0 \<and> x < 0x80" "length l < 48"
    using t(5) by (auto simp: cmd_line_ok_def printable_def kTerminalColumns_def word_less_nat_alt word_le_nat_alt)
  have sim: "own_output i t w" "term_files t ! 1 < next_fd w" "term_files t ! 2 < next_fd w" "last_exit_code t \<in> {0, 1}"
    "v = (without i w, last_exit_code t)" using t(3) by (simp_all add: shell_sim_def)
  show ?thesis
  proof (cases "62 \<in> set l")
    case False
    then have ok: "124 \<notin> set l" "command_ok (line_command l) w" using t(6) sim(5) by (simp_all add: shell_okay_def command_ok_def without_def)
    obtain b p es where r: "ExecuteLine env i ?w = Some (?w\<lparr>terminals := (terminals ?w)(i \<mapsto> t\<lparr>linebuf := b, cursor := p,
        last_exit_code := command_exit (line_command l)\<rparr>), shown := shown ?w @ map (Pair i) es\<rparr>)"
      "length b = length (linebuf t)" "screen_ok (t\<lparr>cursor := p\<rparr>)" "in_window es" "vx p = 0"
      using ExecuteLine_plain[of ?w i t l rest env] t(1,2) sim(1,4) rest l ok False
      by (auto simp: own_output_def command_ok_def)
    let ?t = "t\<lparr>linebuf := b, cursor := p, last_exit_code := command_exit (line_command l)\<rparr>"
    have f: "filter (\<lambda>e. fst e \<noteq> i) (map (Pair i) es) = []" "filter (\<lambda>e. fst e = i) (map (Pair i) es) = map (Pair i) es"
      "map snd (map (Pair i) es) = es" by (induction es) auto
    have "shell_executor env i t w = Some (?t, w\<lparr>terminals := (terminals w)(i \<mapsto> ?t)\<rparr>, es)"
      unfolding shell_executor_def r(1) by (simp add: f(1,2) f(3)[simplified])
    moreover have "screen_ok ?t" using r(2,3) by (simp add: screen_ok_def)
    moreover have "shell_sim i ?t (w\<lparr>terminals := (terminals w)(i \<mapsto> ?t)\<rparr>) (fst (shell_run env l v))"
      using sim False by (simp add: shell_sim_def shell_run_def own_output_def without_def command_exit_def)
    ultimately show ?thesis using r(4,5) False by (simp add: shell_run_def)
  next
    case True
    then have ok: "redirect_okay l w" using t(6) sim(5) by (simp add: shell_okay_def redirect_okay_def without_def)
    let ?x = "redir_text l" and ?d = "redir_file l"
    obtain p cs where ro: "FindFile (volume w) ?d 0 = Some (Some p, False)" "attr (entry_at (volume w) p) \<noteq> kDirectory"
      "fd_writes (volume w) cs (new_FatFD p)" "cs \<noteq> []" "2 \<le> length (free_clusters (table (volume w)) 2)"
      "length ?x \<le> bytes_per_cluster (volume w)" "l = str ''lkurf'' @ 32 # ?x @ 62 # 32 # ?d"
      "plain_word ?x" "hd ?x \<noteq> 38" "plain_word ?d" using ok by (auto simp: redirect_okay_def)
    have "length l = length (str ''lkurf'' @ 32 # ?x @ 62 # 32 # ?d)" using ro(7) by (rule arg_cong)
    then have len: "length ?x < 128" using l(2) by simp
    have line: "linebuf t = str ''lkurf'' @ 32 # ?x @ 62 # 32 # ?d @ 0 # rest" unfolding rest by (subst ro(7)) simp
    have te: "terminals ?w i = Some t" "length (term_files t) = 3" using sim(1) by (simp_all add: own_output_def)
    have vol: "volume ?w = volume w" by simp
    obtain u f vo f' b where r:
      "fat_Write (volume w) (new_FatFD p) (take 128 (?x @ 0 # stale env)) (length ?x) = Some (u, f, length ?x)"
      "fat_Write u f (take 128 ([10] @ 0 # stale env)) 1 = Some (vo, f', 1)"
      "length b = length (linebuf t)"
      "ExecuteLine env i ?w = Some (?w\<lparr>volume := vo, fd_store := (fd_store w)(next_fd w \<mapsto> FileFd f'), next_fd := next_fd w + 1,
         terminals := (terminals ?w)(i \<mapsto> t\<lparr>linebuf := b, last_exit_code := 0\<rparr>)\<rparr>)"
      by (rule redirect_line[OF te line ro(8-10), of p cs env]) (use ro len in simp_all)
    let ?t = "t\<lparr>linebuf := b, last_exit_code := 0\<rparr>"
    let ?w' = "w\<lparr>volume := vo, fd_store := (fd_store w)(next_fd w \<mapsto> FileFd f'), next_fd := next_fd w + 1, terminals := (terminals w)(i \<mapsto> ?t)\<rparr>"
    have "shell_executor env i t w = Some (?t, ?w', [])"
      unfolding shell_executor_def r(4) by simp
    moreover have "screen_ok ?t" using r(3) t(1) by (simp add: screen_ok_def)
    moreover have "redirected env l (without i w) = without i ?w'"
      using ro(1) r(1,2) by (simp add: redirected_def without_def stored_text_def)
    then have "shell_sim i ?t ?w' (fst (shell_run env l v))"
      using sim True by (simp add: shell_sim_def shell_run_def own_output_def)
    ultimately show ?thesis using t(2) True by (simp add: shell_run_def)
  qed
qed

lemma shell_edits:
  "shell_sim i t w v \<Longrightarrow> term_files t' = term_files t \<Longrightarrow> last_exit_code t' = last_exit_code t \<Longrightarrow> shell_sim i t' w v"
  by (simp add: shell_sim_def own_output_def)

interpretation shell: line_executor "shell_sim i" shell_okay "shell_run env" "shell_executor env i" for i env
  by unfold_locales (rule shell_edits, assumption+, rule shell_executes)

text \<open>C32: Lines that are typed at a terminal with a window and its own output run in the shell. Whatever ASCII keys, line feeds, backspaces and arrow keys are
  typed, as long as every line that is entered is empty, prints a text, clears the screen, names an unknown command, or writes one
  word, no longer than a cluster, to an existing file while clusters are free, nothing is read or written outside of the line buffer and the history, the line buffer and the history are
  those of the editor on lists, \<open>ExecuteLine\<close> gets exactly the lines that this editor submits, in their order and with their
  effect on the volume, the descriptors and the exit code, nothing else of the system changes, and all that is drawn lies inside
  the window.\<close>

theorem shell_runs_typed_lines:
  assumes "term_shows (shell_sim i) (t, w) e" and "submits shell_okay (shell_run env) keys e"
    and "ascii_fonts (env_fonts env)" and "\<forall>k \<in> set keys. ascii_key k"
  shows "\<exists>t' w' es. type_keys (env_fonts env) (null_size env) (shell_executor env i) keys (t, w) = Some ((t', w'), es) \<and>
    (let e' = fold (edit_key (shell_run env)) keys e in
       (w'\<lparr>terminals := (terminals w')(i := None)\<rparr>, last_exit_code t') = world e' \<and>
       take (linebuf_index t') (linebuf t') = typed e' \<and> linebuf_index t' < length (linebuf t') \<and>
       map c_string (cmd_history t') = map Some (past e') \<and> vx (cursor t') = int (start e' + length (typed e'))) \<and>
    (\<forall>ds. Paint ds \<in> set es \<longrightarrow> inside ds (vx term_size) (vy term_size))"
  using shell.type_keys_refines[OF assms, of "null_size env"] by (auto simp: Let_def shell_sim_def without_def)

text \<open>A printable line that fits is typed as it is.\<close>

definition type_line_keys :: "u8 list \<Rightarrow> (u8 \<times> u32) list" where
  "type_line_keys l = map (\<lambda>c. (0, ucast c)) l"

lemma type_line_keys_edit:
  assumes "printable l" and "start e + length (typed e) + length l < kTerminalColumns"
  shows "fold (edit_key run) (type_line_keys l) e = e\<lparr>typed := typed e @ l\<rparr> \<and>
    submits okay run (type_line_keys l @ ks) e = submits okay run ks (e\<lparr>typed := typed e @ l\<rparr>) \<and>
    (\<forall>k \<in> set (type_line_keys l). ascii_key k)"
  using assms
proof (induction l arbitrary: e)
  case (Cons c l)
  have c: "printable l" "0x20 \<le> unat (ucast c :: u32)" "unat (ucast c :: u32) < 0x7f"
    using Cons.prems(1) printable_char[of c] by (auto simp: printable_def)
  have n: "(ucast c :: u32) \<noteq> 10" "(ucast c :: u32) \<noteq> 8" "(ucast c :: u32) \<noteq> 0" using c(2) by auto
  have u: "(ucast (ucast c :: u32) :: u8) = c" by (rule bit_word_eqI) (simp add: bit_ucast_iff)
  have k: "edit_key run (0, ucast c) e = e\<lparr>typed := typed e @ [c]\<rparr>" using n u Cons.prems(2) by simp
  have room: "start (e\<lparr>typed := typed e @ [c]\<rparr>) + length (typed (e\<lparr>typed := typed e @ [c]\<rparr>)) + length l < kTerminalColumns"
    using Cons.prems(2) by simp
  note IH = Cons.IH[OF c(1) room]
  have l: "type_line_keys (c # l) = (0, ucast c) # type_line_keys l" by (simp add: type_line_keys_def)
  show ?case unfolding l using k IH n c by (auto simp: ascii_key_def Let_def)
qed (simp_all add: type_line_keys_def)

text \<open>The file has the text and a line feed.\<close>

lemma redirected_file:
  assumes "redirect_okay l w" and "FindFile (volume w) (redir_file l) 0 = Some (Some p, False)" and "length (redir_text l) < 128"
  shows "LoadFile (volume (redirected env l w)) p (length (redir_text l) + 1) = Some (redir_text l @ [10])"
proof -
  let ?x = "redir_text l" and ?d = "redir_file l"
  let ?t = "sample_terminal\<lparr>linebuf := str ''lkurf'' @ 32 # ?x @ 62 # 32 # ?d @ 0 # [], term_files := [0, 0, 0]\<rparr>"
  let ?w = "w\<lparr>terminals := [0 \<mapsto> ?t]\<rparr>"
  obtain cs where ro: "attr (entry_at (volume w) p) \<noteq> kDirectory" "fd_writes (volume w) cs (new_FatFD p)" "cs \<noteq> []"
    "2 \<le> length (free_clusters (table (volume w)) 2)" "length ?x \<le> bytes_per_cluster (volume w)"
    "plain_word ?x" "hd ?x \<noteq> 38" "plain_word ?d" using assms(1,2) by (auto simp: redirect_okay_def)
  have te: "terminals ?w 0 = Some ?t" "length (term_files ?t) = 3" by simp_all
  have line: "linebuf ?t = str ''lkurf'' @ 32 # ?x @ 62 # 32 # ?d @ 0 # []" by simp
  obtain u f v f' cs' where r:
    "fat_Write (volume ?w) (new_FatFD p) (take 128 (?x @ 0 # stale env)) (length ?x) = Some (u, f, length ?x)"
    "fat_Write u f (take 128 ([10] @ 0 # stale env)) 1 = Some (v, f', 1)"
    "volume_ok v" "valid_ptr v p" "file_ok v (entry_at v p) cs'" "file_data v (entry_at v p) cs' = ?x @ [10]"
    by (rule redirect_line[OF te line ro(6-8), of p cs env]) (use assms(2,3) ro in simp_all)
  obtain g where "fat_Read v (new_FatFD p) (length ?x + 1) = Some (g, take (length ?x + 1) (?x @ [10]))"
    using fat_stream.read_takes[OF new_FatFD_reads(1)[OF r(3-5)]] unfolding new_FatFD_reads(2)[OF r(3-5)] r(6) by blast
  then have "LoadFile v p (length ?x + 1) = Some (?x @ [10])" by (simp add: LoadFile_def)
  then show ?thesis using assms(2) r(1,2) by (simp add: redirected_def stored_text_def)
qed

definition session_line :: "u8 list" where
  "session_line = str ''lkurf'' @ 32 # [0x68, 0x69] @ 62 # 32 # shell_dest"

theorem shell_runs_typed_lines_witness:
  "\<exists>t' w' es. type_keys ascii_table (Vec 0 0) (shell_executor shell_env 3) (type_line_keys session_line @ [(0, 10), (0, 10)])
      (sample_terminal\<lparr>term_files := [0, 0, 0]\<rparr>, shell_world) = Some ((t', w'), es) \<and>
    LoadFile (volume w') (2, 0) 3 = Some [0x68, 0x69, 10] \<and> last_exit_code t' = 0 \<and> linebuf_index t' = 0 \<and>
    map c_string (cmd_history t') = map Some (session_line # replicate 7 [])"
proof -
  let ?t = "sample_terminal\<lparr>term_files := [0, 0, 0]\<rparr>" and ?run = "shell_run shell_env"
  let ?v = "(without 3 shell_world, 0 :: int)"
  let ?e = "\<lparr>typed = [], start = 1, past = replicate 8 [], place = -1, world = ?v\<rparr>"
  have sl: "session_line = [108, 107, 117, 114, 102, 32, 0x68, 0x69, 62, 32, 65, 65, 65, 65, 65, 65, 65, 65, 46, 65, 65, 65]"
    by (simp add: session_line_def str_def of_char_def shell_dest_def)
  have parts: "redir_text session_line = [0x68, 0x69]" "redir_file session_line = shell_dest" "62 \<in> set session_line" "124 \<notin> set session_line"
    by (simp_all add: redir_text_def redir_file_def sl shell_dest_def)
  have vol: "volume (without 3 shell_world) = shell_volume" by (simp add: without_def shell_world_def)
  have b: "bytes_per_cluster shell_volume = 64" by (simp add: bytes_per_cluster_def shell_volume_def sample_files_def sample_volume_def)
  have "attr (entry_at shell_volume (2, 0)) \<noteq> kDirectory" using shell_volume_ok(3) by (simp add: sample_entry_def kDirectory_def)
  then have ro: "redirect_okay session_line (without 3 shell_world)"
    unfolding redirect_okay_def parts vol
    using shell_volume_find shell_volume_ok(4,5) b
    by (auto simp: session_line_def plain_word_def isspace_def shell_dest_def)
  have sim: "shell_sim 3 ?t shell_world ?v"
    by (simp add: shell_sim_def own_output_def shell_world_def sample_terminal_def without_def)
  have st: "term_shows (shell_sim 3) (?t, shell_world) ?e"
    by (rule sample_terminal_shows) (rule sim)
  have ne: "session_line \<noteq> []" by (simp add: sl)
  have pl: "printable session_line" by (simp add: printable_def sl)
  have room: "start ?e + length (typed ?e) + length session_line < kTerminalColumns" by (simp add: sl kTerminalColumns_def)
  note ty = type_line_keys_edit[OF pl room]
  have run: "?run session_line ?v = ((redirected shell_env session_line (without 3 shell_world), 0), 0)" using parts by (simp add: shell_run_def)
  have sub: "submits shell_okay ?run (type_line_keys session_line @ [(0, 10), (0, 10)]) ?e"
    unfolding ty[THEN conjunct2, THEN conjunct1] using ro parts run by (simp add: shell_okay_def submit_def command_ok_def line_command_def)
  have f: "ascii_fonts (env_fonts shell_env)" 
    by (auto simp: shell_env_def ascii_fonts_def ascii_table_def IsHankaku_def GetGlyphFromZenkakuBin_def GetGlyph_def lower_bound_def word_le_nat_alt)
  have k: "\<forall>k \<in> set (type_line_keys session_line @ [(0, 10), (0, 10)]). ascii_key k" using ty[THEN conjunct2, THEN conjunct2] by (auto simp: ascii_key_def)
  have bl: "butlast (replicate 8 ([] :: u8 list)) = replicate 7 []" by (simp add: numeral_eq_Suc)
  have e: "fold (edit_key ?run) (type_line_keys session_line @ [(0, 10), (0, 10)]) ?e =
    \<lparr>typed = [], start = 1, past = session_line # replicate 7 [], place = -1, world = (redirected shell_env session_line (without 3 shell_world), 0)\<rparr>"
    unfolding fold_append o_apply ty[THEN conjunct1] using run ne
    by (simp add: submit_def shell_run_def command_exit_def line_command_def kTerminalColumns_def bl)
  have stored: "LoadFile (volume (redirected shell_env session_line (without 3 shell_world))) (2, 0) 3 = Some [0x68, 0x69, 10]"
    using redirected_file[OF ro, of "(2, 0)" shell_env] shell_volume_find unfolding vol parts by (simp add: numeral_3_eq_3)
  have env: "env_fonts shell_env = ascii_table" "null_size shell_env = Vec 0 0" by (simp_all add: shell_env_def)
  obtain t' w' es where r: "type_keys ascii_table (Vec 0 0) (shell_executor shell_env 3) (type_line_keys session_line @ [(0, 10), (0, 10)])
      (?t, shell_world) = Some ((t', w'), es)"
    "(w'\<lparr>terminals := (terminals w')(3 := None)\<rparr>, last_exit_code t') = (redirected shell_env session_line (without 3 shell_world), 0)"
    "take (linebuf_index t') (linebuf t') = []" "linebuf_index t' < length (linebuf t')"
    "map c_string (cmd_history t') = map Some (session_line # replicate 7 [])"
    using shell_runs_typed_lines[OF st sub f k] unfolding e env Let_def editor.simps by blast
  have "volume w' = volume (redirected shell_env session_line (without 3 shell_world))" using r(2) by (auto dest: arg_cong[where f = volume])
  then show ?thesis using r stored by (intro exI[of _ t'] exI[of _ w'] exI[of _ es]) auto
qed

end
