(* ===== verification/TermTask.thy ===== *)
theory TermTask
  imports Shell
begin

text \<open>
  The task of a terminal: the constructor of \<open>Terminal\<close> and \<open>TaskTerminal\<close> of \<^verbatim>\<open>kernel/terminal.cpp\<close>. A terminal is made
  for a key (no descriptor: with a window and its own input and output) or for a command of another terminal. What
  it draws and posts is appended to \<open>shown\<close>.
\<close>

subsection \<open>Making a terminal\<close>

text \<open>\<open>window_address\<close> is where \<open>make_shared\<close> puts the window. The layer of a terminal without a window is never set:
  \<open>stale_layer\<close> is what is found there.\<close>

record TermEnv =
  term_env :: Env
  window_address :: "World \<Rightarrow> nat"
  stale_layer :: nat

definition blank_line :: "u8 list" where
  "blank_line = replicate kLineMax 0"

definition blank_Terminal :: "nat \<Rightarrow> bool \<Rightarrow> nat list \<Rightarrow> nat \<Rightarrow> Terminal" where
  "blank_Terminal i shows_window files layer = \<lparr>term_task = i, term_window = None, term_layer = layer, cursor = Vec 0 0,
     term_cursor_visible = False, linebuf = blank_line, linebuf_index = 0, cmd_history = replicate 8 blank_line,
     cmd_history_index = -1, show_window = shows_window, term_files = files, last_exit_code = 0\<rparr>"

definition put_terminal :: "nat \<Rightarrow> Terminal \<Rightarrow> World \<Rightarrow> World" where
  "put_terminal i t w = w\<lparr>terminals := (terminals w)(i \<mapsto> t)\<rparr>"

definition new_terminal_window :: "TermEnv \<Rightarrow> nat \<Rightarrow> Terminal \<Rightarrow> World \<Rightarrow> World option" where
  "new_terminal_window e i t w = do {
     let lm = manager (desktop w);
     win \<leftarrow> new_ToplevelWindow (env_fonts (term_env e)) (vx term_size) (vy term_size) (pixel_format (screen lm))
              (str ''duvuvurkerserfer'') False;
     win1 \<leftarrow> draw_on Window_Write (inner (DrawTerminal (Vec 0 0) (InnerSize win))) win;
     let p = window_address e w;
     let (lm1, layer) = NewLayer (lm\<lparr>windows := (windows lm)(p \<mapsto> win1)\<rparr>);
     let lm2 = SetDraggable layer True (SetWindow layer p lm1);
     on_terminal i (Print (env_fonts (term_env e)) (null_size (term_env e)) [0x3e, 0] None)
       (put_terminal i (t\<lparr>term_window := Some p, term_layer := layer\<rparr>) (w\<lparr>desktop := (desktop w)\<lparr>manager := lm2\<rparr>\<rparr>)) }"

definition new_Terminal :: "TermEnv \<Rightarrow> nat \<Rightarrow> TerminalDescriptor option \<Rightarrow> World \<Rightarrow> World option" where
  "new_Terminal e i term_desc w = (case term_desc of
     Some d \<Rightarrow> let t = blank_Terminal i (desc_show_window d) (desc_files d) (stale_layer e)
       in if show_window t then new_terminal_window e i t w else Some (put_terminal i t w)
   | None \<Rightarrow>
       let (w1, h0) = new_fd (TermFd i) w; (w2, h1) = new_fd (TermFd i) w1; (w3, h2) = new_fd (TermFd i) w2
       in new_terminal_window e i (blank_Terminal i True [h0, h1, h2] (stale_layer e)) w3)"

subsection \<open>Keys\<close>

definition input_key :: "Env \<Rightarrow> nat \<Rightarrow> u8 \<Rightarrow> u8 \<Rightarrow> u32 \<Rightarrow> World \<Rightarrow> (World \<times> Rectangle) option" where
  "input_key env i modifier keycode unicode w = do {
     t \<leftarrow> terminals w i;
     ((t', w'), es, area) \<leftarrow> InputKey (env_fonts env) (null_size env) (shell_executor env i) modifier keycode unicode (t, w);
     Some ((put_terminal i t' w')\<lparr>shown := shown w' @ map (Pair i) es\<rparr>, area) }"

text \<open>The bytes of a command line as keys; a byte is a signed \<open>char\<close>.\<close>

fun type_line :: "Env \<Rightarrow> nat \<Rightarrow> u8 list \<Rightarrow> World \<Rightarrow> World option" where
  "type_line env i [] w = Some w"
| "type_line env i (c # cs) w = do { (w', _) \<leftarrow> input_key env i 0 0 (char32 c) w; type_line env i cs w' }"

definition add_blink_timer :: "nat \<Rightarrow> u64 \<Rightarrow> World \<Rightarrow> World" where
  "add_blink_timer i t w = w\<lparr>timer_mgr := AddTimer (mk_Timer (t + of_nat (kTimerFreq div 2)) 1 i) (timer_mgr w)\<rparr>"

definition finish_task :: "int \<Rightarrow> World \<Rightarrow> World option" where
  "finish_task exit_code w = do { s \<leftarrow> Finish (sched w) exit_code; Some (set_sched_cpu s w) }"

subsection \<open>The task\<close>

text \<open>The task up to its loop. The result tells whether it goes on; \<open>False\<close> is a task that finished.\<close>

definition TaskTerminal_start :: "TermEnv \<Rightarrow> nat \<Rightarrow> u64 \<Rightarrow> World \<Rightarrow> (World \<times> bool) option" where
  "TaskTerminal_start e i data w = do {
     let env = term_env e;
     let term_desc = (if data = 0 then None else descriptors w (unat data));
     if data \<noteq> 0 \<and> term_desc = None then None
     else do {
       w1 \<leftarrow> new_Terminal e i term_desc w;
       t \<leftarrow> terminals w1 i;
       w2 \<leftarrow> (if show_window t then do {
                let d = desktop w1;
                lm \<leftarrow> LM_Move (term_layer t) (Vec 100 200) (manager d);
                let ltm = layer_task_map d;
                d1 \<leftarrow> Activate (env_fonts env) (term_layer t)
                       (d\<lparr>manager := lm, layer_task_map := (if term_layer t \<in> dom ltm then ltm else ltm(term_layer t \<mapsto> i))\<rparr>);
                Some (w1\<lparr>desktop := d1\<rparr>) }
              else Some w1);
       w3 \<leftarrow> (case term_desc of
                Some d \<Rightarrow> if command_line d = [] then Some w2
                          else do { w' \<leftarrow> type_line env i (command_line d) w2; type_line env i [10] w' }
              | None \<Rightarrow> Some w2);
       if (case term_desc of Some d \<Rightarrow> exit_after_command d | None \<Rightarrow> False) then do {
         t3 \<leftarrow> terminals w3 i;
         w4 \<leftarrow> finish_task (last_exit_code t3) (w3\<lparr>descriptors := (descriptors w3)(unat data := None)\<rparr>);
         Some (w4, False) }
       else Some (add_blink_timer i (tick (timer_mgr w3)) w3, True) } }"

text \<open>A drawing message of the loop.\<close>

definition post_area :: "nat \<Rightarrow> Rectangle \<Rightarrow> World \<Rightarrow> World option" where
  "post_area i area w = on_terminal i (\<lambda>t. Some (t, [draw_message area t])) w"

text \<open>One message; \<open>window_isactive\<close> is the local variable of the loop. The last result is as above.\<close>

definition TaskTerminal_message :: "TermEnv \<Rightarrow> nat \<Rightarrow> Message \<Rightarrow> World \<times> bool \<Rightarrow> ((World \<times> bool) \<times> bool) option" where
  "TaskTerminal_message e i msg s = do {
     let (w, window_isactive) = s;
     let env = term_env e;
     t \<leftarrow> terminals w i;
     (case arg msg of
        kTimerTimeout timeout v \<Rightarrow> do {
          let w1 = add_blink_timer i (of_nat timeout) w;
          if show_window t \<and> window_isactive then do {
            let (t', es, area) = BlinkCursor t;
            w2 \<leftarrow> post_area i area ((put_terminal i t' w1)\<lparr>shown := shown w1 @ map (Pair i) es\<rparr>);
            Some ((w2, window_isactive), True) }
          else Some ((w1, window_isactive), True) }
      | kKeyPush modifier keycode unicode press \<Rightarrow>
          if press then do {
            (w1, area) \<leftarrow> input_key env i modifier keycode unicode w;
            w2 \<leftarrow> (if show_window t then post_area i area w1 else Some w1);
            Some ((w2, window_isactive), True) }
          else Some ((w, window_isactive), True)
      | kWindowActive activate \<Rightarrow> Some ((w, activate \<noteq> 0), True)
      | kWindowClose layer \<Rightarrow> do {
          (d, _) \<leftarrow> CloseLayer (env_fonts env) layer (desktop w);
          w1 \<leftarrow> finish_task (last_exit_code t) (w\<lparr>desktop := d\<rparr>);
          Some ((w1, window_isactive), False) }
      | _ \<Rightarrow> Some ((w, window_isactive), True)) }"

text \<open>The loop never ends by itself: its value is the world in which the task has finished.\<close>

partial_function (option) TaskTerminal_loop :: "TermEnv \<Rightarrow> nat \<Rightarrow> World \<times> bool \<Rightarrow> World option" where
  "TaskTerminal_loop e i s = do {
     r \<leftarrow> ReceiveMessage (sched (fst s)) i;
     (case snd r of
        None \<Rightarrow> do {
          p \<leftarrow> Sleep (fst r) (registers (fst s)) i;
          w \<leftarrow> others (term_env e) (set_sched_cpu p (fst s));
          TaskTerminal_loop e i (w, snd s) }
      | Some msg \<Rightarrow> do {
          q \<leftarrow> TaskTerminal_message e i msg (set_sched (fst r) (fst s), snd s);
          (if snd q then TaskTerminal_loop e i (fst q) else Some (fst (fst q))) }) }"

definition TaskTerminal :: "TermEnv \<Rightarrow> nat \<Rightarrow> u64 \<Rightarrow> World \<Rightarrow> World option" where
  "TaskTerminal e i data w = do {
     r \<leftarrow> TaskTerminal_start e i data w;
     (if snd r then TaskTerminal_loop e i (fst r, False) else Some (fst r)) }"

subsection \<open>A command in a task of its own\<close>

lemma put_terminal_simps [simp]:
  "terminals (put_terminal i t w) i = Some t" "put_terminal i t' (put_terminal i t w) = put_terminal i t' w"
  "shown (put_terminal i t w) = shown w"
  by (simp_all add: put_terminal_def)

lemma put_terminal_shown: "(put_terminal i t w)\<lparr>shown := es\<rparr> = put_terminal i t (w\<lparr>shown := es\<rparr>)"
  "put_terminal i t (w\<lparr>shown := es'\<rparr>)\<lparr>shown := es\<rparr> = put_terminal i t (w\<lparr>shown := es\<rparr>)"
  by (simp_all add: put_terminal_def)

lemma char_byte: "(ucast (char32 c) :: u8) = c" "0x20 \<le> c \<Longrightarrow> char32 c \<noteq> 10 \<and> char32 c \<noteq> 8 \<and> char32 c \<noteq> 0"
proof -
  show u: "(ucast (char32 c) :: u8) = c" for c
    by (rule bit_word_eqI) (simp add: char32_def bit_ucast_iff bit_signed_iff)
  assume h: "0x20 \<le> c"
  show "char32 c \<noteq> 10 \<and> char32 c \<noteq> 8 \<and> char32 c \<noteq> 0"
    using u[of c] h by auto
qed

text \<open>Typing at a terminal without a window fills the line buffer and shows nothing.\<close>

lemma type_line_chars:
  assumes "\<forall>c \<in> set cs. 0x20 \<le> c" and "\<not> show_window t" and "n + length cs < kTerminalColumns" and "length lb = kLineMax"
    and "linebuf t = lb" "linebuf_index t = n" "cursor t = Vec (int n) 0"
  shows "type_line env i cs (put_terminal i t w) =
    Some (put_terminal i (t\<lparr>linebuf := take n lb @ cs @ drop (n + length cs) lb, linebuf_index := n + length cs,
      cursor := Vec (int (n + length cs)) 0\<rparr>) w)"
  using assms
proof (induction cs arbitrary: n lb t)
  case Nil
  then have "t\<lparr>linebuf := lb, linebuf_index := n, cursor := Vec (int n) 0\<rparr> = t" by simp
  then show ?case by simp
next
  case (Cons c cs)
  let ?t = "t\<lparr>linebuf := lb[n := c], linebuf_index := n + 1, cursor := Vec (int (n + 1)) 0\<rparr>"
  have c: "char32 c \<noteq> 10" "char32 c \<noteq> 8" "char32 c \<noteq> 0" "(ucast (char32 c) :: u8) = c"
    using char_byte[of c] Cons.prems(1) by simp_all
  have lim: "int n < int kTerminalColumns - 1" "n < kLineMax - 1" using Cons.prems(3) by (simp_all add: kTerminalColumns_def kLineMax_def)
  have "InputKey (env_fonts env) (null_size env) (shell_executor env i) 0 0 (char32 c) (t, put_terminal i t w) =
      Some ((?t, put_terminal i t w), [], Rect (CalcCursorPos t) (Vec (8 * 2) 16))"
    using Cons.prems(2,5-7) c lim by (simp add: InputKey_def Let_def char_key_def DrawCursor_def)
  then have step: "input_key env i 0 0 (char32 c) (put_terminal i t w) =
      Some (put_terminal i ?t w, Rect (CalcCursorPos t) (Vec (8 * 2) 16))"
    by (simp add: input_key_def)
  have "type_line env i cs (put_terminal i ?t w) =
    Some (put_terminal i (?t\<lparr>linebuf := take (n + 1) (lb[n := c]) @ cs @ drop (n + 1 + length cs) (lb[n := c]),
      linebuf_index := n + 1 + length cs, cursor := Vec (int (n + 1 + length cs)) 0\<rparr>) w)"
    by (rule Cons.IH) (use Cons.prems in simp_all)
  moreover have "take (n + 1) (lb[n := c]) @ cs @ drop (n + 1 + length cs) (lb[n := c]) = take n lb @ (c # cs) @ drop (n + length (c # cs)) lb"
    using lim(2) Cons.prems(4) by (simp add: take_Suc_conv_app_nth)
  ultimately show ?case using step by simp
qed

text \<open>What a hidden terminal leaves in \<open>shown\<close> for a command that has shown \<open>es\<close>: its new prompt is posted for a layer
  although it has none.\<close>

definition command_shown :: "nat \<Rightarrow> Terminal \<Rightarrow> Rectangle \<Rightarrow> (nat \<times> TermEffect) list \<Rightarrow> (nat \<times> TermEffect) list" where
  "command_shown i t area es = filter (\<lambda>e. fst e \<noteq> i) es @ filter (\<lambda>e. fst e = i) es @ [(i, draw_message area t)]"

lemma own_shown: "map (\<lambda>x. (i, snd x)) (filter (\<lambda>e. fst e = i) es) = filter (\<lambda>e. fst e = i) es"
  by (induction es) auto

lemma enter_runs:
  assumes "\<not> show_window t" and "linebuf t = cs @ replicate (kLineMax - length cs) 0" and "linebuf_index t = length cs"
    and "cs \<noteq> []" and "length cs < kLineMax" and "cursor t = Vec x 0"
    and t0: "t0 = t\<lparr>cmd_history := linebuf t # butlast (cmd_history t), linebuf_index := 0, cmd_history_index := -1, cursor := Vec 0 1\<rparr>"
    and run: "ExecuteLine env i (w\<lparr>terminals := (terminals w)(i \<mapsto> t0), shown := []\<rparr>) = Some w1"
    and t1: "terminals w1 i = Some t1" "\<not> show_window t1"
  shows "\<exists>area. type_line env i [10] (put_terminal i t w) =
    Some (put_terminal i t1 (w1\<lparr>shown := shown w @ command_shown i t1 area (shown w1)\<rparr>))"
proof -
  have z: "(linebuf t)[length cs := 0] = linebuf t" using assms(2,5) by (cases "kLineMax - length cs") simp_all
  have t2: "t\<lparr>linebuf := (linebuf t)[linebuf_index t := 0]\<rparr> = t" unfolding assms(3) z by simp
  have nl: "term_newline (t\<lparr>cmd_history := linebuf t # butlast (cmd_history t), linebuf_index := 0, cmd_history_index := -1\<rparr>) = Some (t0, [])"
    using assms(6) by (simp add: term_newline_def t0 kTerminalRows_def Let_def)
  have w: "(put_terminal i t w)\<lparr>terminals := (terminals (put_terminal i t w))(i \<mapsto> t0), shown := []\<rparr> =
    w\<lparr>terminals := (terminals w)(i \<mapsto> t0), shown := []\<rparr>"
    by (simp add: put_terminal_def)
  let ?es = "shown w @ filter (\<lambda>e. fst e \<noteq> i) (shown w1)" and ?es' = "map snd (filter (\<lambda>e. fst e = i) (shown w1))"
  have ex: "shell_executor env i t0 (put_terminal i t w) = Some (t1, w1\<lparr>shown := ?es\<rparr>, ?es')"
    using run t1(1) by (simp add: shell_executor_def w)
  have "ConvertUTF8To32 [0x3e, 0] = Some (0x3e, 1)"
    by (simp add: ConvertUTF8To32_def CountUTF8Size_def char32_def)
  then have "print_string (env_fonts env) [0x3e, 0] None t1 = Some (t1, [])"
    using t1(2) by (subst print_string.simps) (simp add: Print_char_def print_string.simps[of _ "[0]"])
  then have "\<exists>area. Print (env_fonts env) (null_size env) [0x3e, 0] None t1 = Some (t1, [draw_message area t1])"
    using t1(2) by (simp add: Print_def Let_def DrawCursor_def) blast
  then obtain area where pr: "Print (env_fonts env) (null_size env) [0x3e, 0] None t1 = Some (t1, [draw_message area t1])" by blast
  have lt: "linebuf_index t < length (linebuf t)" using assms(2,3,5) by simp
  have ek: "enter_key (env_fonts env) (null_size env) (shell_executor env i) t (put_terminal i t w) =
    Some (t1, w1\<lparr>shown := ?es\<rparr>, [] @ ?es' @ [draw_message area t1], Rect kTopLeftMargin (term_inner_size (null_size env) t1))"
    using lt t2 nl ex pr assms(3,4) by (simp add: enter_key_def Let_def)
  have "char32 10 = 10" by (simp add: char32_def)
  then show ?thesis using ek assms(1) t1(2)
    by (intro exI[of _ area])
      (simp add: input_key_def InputKey_def Let_def DrawCursor_def put_terminal_shown command_shown_def own_shown o_def)
qed

text \<open>The terminal of a piped command when its line is entered.\<close>

definition command_terminal :: "TermEnv \<Rightarrow> nat \<Rightarrow> TerminalDescriptor \<Rightarrow> u8 list \<Rightarrow> Terminal" where
  "command_terminal e i d cs = (blank_Terminal i (desc_show_window d) (desc_files d) (stale_layer e))\<lparr>
     linebuf := cs @ replicate (kLineMax - length cs) 0, cmd_history := (cs @ replicate (kLineMax - length cs) 0) # replicate 7 blank_line,
     cursor := Vec 0 1\<rparr>"

lemma command_typed:
  assumes "\<forall>c \<in> set cs. 0x20 \<le> c" and "cs \<noteq> []" "length cs < kTerminalColumns - 1" and "\<not> desc_show_window d"
    and run: "ExecuteLine env i (w\<lparr>terminals := (terminals w)(i \<mapsto> command_terminal e i d cs), shown := []\<rparr>) = Some w1"
    and t1: "terminals w1 i = Some t1" "\<not> show_window t1"
  shows "\<exists>w2 area. type_line env i cs (put_terminal i (blank_Terminal i (desc_show_window d) (desc_files d) (stale_layer e)) w) = Some w2 \<and>
    type_line env i [10] w2 = Some (put_terminal i t1 (w1\<lparr>shown := shown w @ command_shown i t1 area (shown w1)\<rparr>))"
proof -
  let ?b = "blank_Terminal i (desc_show_window d) (desc_files d) (stale_layer e)"
  let ?z = "replicate (kLineMax - length cs) 0 :: u8 list"
  define t where "t = ?b\<lparr>linebuf := cs @ ?z, linebuf_index := length cs, cursor := Vec (int (length cs)) 0\<rparr>"
  have lim: "length cs < kTerminalColumns" "length cs < kLineMax" using assms(3) by (simp_all add: kTerminalColumns_def kLineMax_def)
  have b: "linebuf ?b = blank_line" "linebuf_index ?b = 0" "cursor ?b = Vec (int 0) 0" "\<not> show_window ?b"
    using assms(4) by (simp_all add: blank_Terminal_def)
  have chars: "type_line env i cs (put_terminal i ?b w) = Some (put_terminal i t w)"
    using type_line_chars[OF assms(1) b(4) _ _ b(1-3), of env i w] lim by (simp add: t_def blank_line_def)
  have "command_terminal e i d cs = t\<lparr>cmd_history := linebuf t # butlast (cmd_history t), linebuf_index := 0,
      cmd_history_index := -1, cursor := Vec 0 1\<rparr>"
    by (simp add: command_terminal_def t_def blank_Terminal_def blank_line_def butlast_conv_take)
  moreover have "\<not> show_window t" "linebuf t = cs @ ?z" "linebuf_index t = length cs" "cursor t = Vec (int (length cs)) 0"
    using b(4) by (simp_all add: t_def)
  ultimately have "\<exists>area. type_line env i [10] (put_terminal i t w) =
      Some (put_terminal i t1 (w1\<lparr>shown := shown w @ command_shown i t1 area (shown w1)\<rparr>))"
    using enter_runs[OF _ _ _ assms(2) lim(2) _ _ run t1] by simp
  then show ?thesis using chars by blast
qed

text \<open>C37: A command of a pipe or of \<open>ksfnerfe\<close> in its own task. A terminal without a window that is started on a printable line
  types the line to itself, runs exactly that line with the descriptors it was given, and finishes: the world is then the
  one \<open>ExecuteLine\<close> leaves, without the descriptor of the command, and the scheduler has recorded the exit code of the command and
  switched to the next task.\<close>

theorem TaskTerminal_runs_command:
  assumes "data \<noteq> 0" and d: "descriptors w (unat data) = Some d" "command_line d = cs" "exit_after_command d" "\<not> desc_show_window d"
    and cs: "\<forall>c \<in> set cs. 0x20 \<le> c" "cs \<noteq> []" "length cs < kTerminalColumns - 1"
    and run: "ExecuteLine (term_env e) i (w\<lparr>terminals := (terminals w)(i \<mapsto> command_terminal e i d cs), shown := []\<rparr>) = Some w1"
    and t1: "terminals w1 i = Some t1" "\<not> show_window t1"
    and fin: "Finish (sched w1) (last_exit_code t1) = Some s"
  shows "\<exists>area. TaskTerminal e i data w = Some ((set_sched_cpu s w1)\<lparr>descriptors := (descriptors w1)(unat data := None),
    shown := shown w @ command_shown i t1 area (shown w1)\<rparr>)"
proof -
  let ?b = "blank_Terminal i (desc_show_window d) (desc_files d) (stale_layer e)"
  let ?es = "\<lambda>area. shown w @ command_shown i t1 area (shown w1)"
  obtain w2 area where typed: "type_line (term_env e) i cs (put_terminal i ?b w) = Some w2"
    "type_line (term_env e) i [10] w2 = Some (put_terminal i t1 (w1\<lparr>shown := ?es area\<rparr>))"
    using command_typed[OF cs d(4) run t1] by blast
  have new: "new_Terminal e i (Some d) w = Some (put_terminal i ?b w)" and b: "\<not> show_window ?b"
    using d(4) by (simp_all add: new_Terminal_def blank_Terminal_def)
  have t1': "put_terminal i t1 (w1\<lparr>shown := es\<rparr>) = w1\<lparr>shown := es\<rparr>" for es
    using t1(1) by (cases w1) (simp add: put_terminal_def fun_upd_idem)
  have f: "finish_task (last_exit_code t1) (w1\<lparr>shown := es, descriptors := (descriptors w1)(unat data := None)\<rparr>) =
    Some ((set_sched_cpu s w1)\<lparr>descriptors := (descriptors w1)(unat data := None), shown := es\<rparr>)" for es
    using fin by (simp add: finish_task_def sched_def set_sched_cpu_def set_sched_def)
  have "TaskTerminal_start e i data w =
    Some ((set_sched_cpu s w1)\<lparr>descriptors := (descriptors w1)(unat data := None), shown := ?es area\<rparr>, False)"
    using assms(1) d(1-3) cs(2) new b typed t1(1) f
    by (simp add: TaskTerminal_start_def Let_def t1' del: type_line.simps)
  then show ?thesis by (intro exI[of _ area]) (simp add: TaskTerminal_def)
qed

text \<open>The example: \<open>lkurf\<close> run by a hidden terminal of task 1, whose output is the terminal of task 5.\<close>

definition pipe_env :: TermEnv where
  "pipe_env = \<lparr>term_env = shell_env, window_address = (\<lambda>_. 0), stale_layer = 0\<rparr>"

definition pipe_world :: World where
  "pipe_world = shell_world\<lparr>fd_store := [0 \<mapsto> TermFd 5], terminals := [5 \<mapsto> sample_terminal],
     descriptors := [8 \<mapsto> \<lparr>command_line = str ''lkurf'', exit_after_command = True, desc_show_window = False, desc_files = [0, 0, 0]\<rparr>]\<rparr>"

lemma parse_word:
  assumes "\<forall>x \<in> set command. x \<noteq> 0 \<and> x \<noteq> 32 \<and> x \<noteq> 62 \<and> x \<noteq> 124"
  shows "parse_line (command @ 0 # rest) =
    Some \<lparr>cl_command = command, cl_first_arg = None, cl_redirect = None, cl_pipe = None, cl_buffer = command @ 0 # rest\<rparr>"
proof -
  have "strchr (command @ 0 # rest) c = Some None" if "c \<in> {32, 62, 124}" for c
    using assms that by (intro strchr_none) auto
  moreover have "c_string (command @ 0 # rest) = Some command" using assms by (intro c_string_append) auto
  ultimately show ?thesis by (simp add: parse_line_def cut_at_def string_at_def)
qed

lemma pipe_world_runs:
  "\<exists>w1 t1. ExecuteLine shell_env 1 (pipe_world\<lparr>terminals := (terminals pipe_world)(1 \<mapsto> command_terminal pipe_env 1
      \<lparr>command_line = str ''lkurf'', exit_after_command = True, desc_show_window = False, desc_files = [0, 0, 0]\<rparr> (str ''lkurf'')),
      shown := []\<rparr>) = Some w1 \<and>
    terminals w1 1 = Some t1 \<and> \<not> show_window t1 \<and> last_exit_code t1 = 0 \<and> sched w1 = new_TaskManager 0 0 0"
proof -
  let ?d = "\<lparr>command_line = str ''lkurf'', exit_after_command = True, desc_show_window = False, desc_files = [0, 0, 0]\<rparr>"
  define t where "t = command_terminal pipe_env 1 ?d (str ''lkurf'')"
  define w where "w = pipe_world\<lparr>terminals := (terminals pipe_world)(1 \<mapsto> t), shown := []\<rparr>"
  have "kLineMax - length (str ''lkurf'') = Suc (kLineMax - 6)" by (simp add: kLineMax_def)
  then have z: "replicate (kLineMax - length (str ''lkurf'')) 0 = 0 # replicate (kLineMax - 6) (0 :: u8)"
    by (simp only: replicate_Suc)
  have lb: "linebuf t = str ''lkurf'' @ 0 # replicate (kLineMax - 6) 0"
    by (simp only: t_def command_terminal_def z Terminal.simps) simp
  have cmd: "\<forall>x \<in> set (str ''lkurf''). x \<noteq> 0 \<and> x \<noteq> 32 \<and> x \<noteq> 62 \<and> x \<noteq> 124" by (simp add: str_def of_char_def)
  have pl: "parse_line (linebuf t) =
    Some \<lparr>cl_command = str ''lkurf'', cl_first_arg = None, cl_redirect = None, cl_pipe = None, cl_buffer = linebuf t\<rparr>"
    unfolding lb by (rule parse_word[OF cmd])
  have t: "term_files t = [0, 0, 0]" "\<not> show_window t" "last_exit_code t = 0"
    by (simp_all add: t_def command_terminal_def blank_Terminal_def)
  have w: "terminals w 1 = Some t" "terminals w 5 = Some sample_terminal" "fd_store w 0 = Some (TermFd 5)" "sched w = new_TaskManager 0 0 0"
    by (simp_all add: w_def pipe_world_def shell_world_def sched_def)
  have "ConvertUTF8To32 [10, 0] = Some (10, 1)"
    by (simp add: ConvertUTF8To32_def CountUTF8Size_def char32_def)
  then obtain t5 es where pr: "Print ascii_table (Vec 0 0) [10, 0] (Some 1) sample_terminal = Some (t5, es)"
    by (simp add: Print_def print_string.simps[of _ "[10, 0]"] print_string.simps[of _ "[0]"] Print_char_def term_newline_def
        Let_def sample_terminal_def kTerminalRows_def)
  define w1 where "w1 = w\<lparr>terminals := (terminals w)(5 \<mapsto> t5), shown := shown w @ map (Pair 5) (es @ Redraw (Vec 0 0) t5)\<rparr>"
  have pt: "print_to shell_env 1 1 [10] w = Some w1"
    using w t pr by (simp add: print_to_def std_def PrintToFD_def fd_write_def term_write_def on_terminal_def shell_env_def w1_def)
  have run: "run_command shell_env 1 (str ''lkurf'') None w = Some (w1, 0)"
    using pt w(1) by (simp add: run_command_def lkurf_def)
  have w1: "terminals w1 1 = Some t" "sched w1 = new_TaskManager 0 0 0"
    using w by (simp_all add: w1_def sched_def)
  have "w\<lparr>terminals := (terminals w)(1 \<mapsto> t)\<rparr> = w" using w(1) by (cases w) (simp add: fun_upd_idem)
  then have "ExecuteLine shell_env 1 w = Some (w1\<lparr>terminals := (terminals w1)(1 \<mapsto> t)\<rparr>)"
    using w(1) w1(1) t pl run
    by (simp add: ExecuteLine_def redirect_def open_pipe_def close_pipe_def set_stdout_def std_def) (simp add: t_def command_terminal_def blank_Terminal_def)
  then show ?thesis using w1(2) t by (simp add: w_def t_def sched_def)
qed

theorem TaskTerminal_runs_command_witness:
  "\<exists>w'. TaskTerminal pipe_env 1 8 pipe_world = Some w' \<and> descriptors w' 8 = None \<and> tasks (sched w') 1 = None \<and>
     finish_tasks (sched w') 1 = Some 0"
proof -
  let ?d = "\<lparr>command_line = str ''lkurf'', exit_after_command = True, desc_show_window = False, desc_files = [0, 0, 0]\<rparr>"
  obtain w1 t1 where r: "ExecuteLine (term_env pipe_env) 1 (pipe_world\<lparr>terminals := (terminals pipe_world)(1 \<mapsto>
      command_terminal pipe_env 1 ?d (str ''lkurf'')), shown := []\<rparr>) = Some w1"
    "terminals w1 1 = Some t1" "\<not> show_window t1" "last_exit_code t1 = 0" "sched w1 = new_TaskManager 0 0 0"
    using pipe_world_runs by (auto simp: pipe_env_def)
  have cur: "CurrentTask (new_TaskManager 0 0 0 :: nat TaskManager) = Some 1" "\<forall>i. finish_waiter (new_TaskManager 0 0 0 :: nat TaskManager) i \<noteq> Some 1"
    by (simp_all add: CurrentTask_def new_TaskManager_def NewTask_def empty_TaskManager_def upd_task_def upd_queue_def kMaxLevel_def Let_def)
  obtain tm cpu where f: "Finish (sched w1) (last_exit_code t1) = Some (tm, cpu)" "tasks tm 1 = None" "finish_tasks tm 1 = Some 0"
    using Finish_ok[OF new_TaskManager_ok cur(1) _ cur(2), of 0] r(4,5) by auto
  have d: "descriptors pipe_world (unat (8 :: u64)) = Some ?d" by (simp add: pipe_world_def)
  have cs: "\<forall>c \<in> set (str ''lkurf''). 0x20 \<le> c" "str ''lkurf'' \<noteq> []" "length (str ''lkurf'') < kTerminalColumns - 1"
    by (simp_all add: str_def of_char_def kTerminalColumns_def)
  show ?thesis
    using TaskTerminal_runs_command[OF _ d _ _ _ cs r(1-3) f(1)] f(2,3)
    by (auto simp: set_sched_cpu_def set_sched_def sched_def)
qed

end
