(* ===== verification/Logger.thy ===== *)
theory Logger
  imports Console UsbMemory
begin

text \<open>
  The kernel log (\<^verbatim>\<open>kernel/logger.cpp\<close>, \<open>printk\<close> of \<^verbatim>\<open>kernel/main.cpp\<close>) and the support of the C library
  (\<^verbatim>\<open>kernel/newlib_support.c\<close>). A text is what \<open>vsprintf\<close> makes of its arguments; it has 1024 bytes with its zero, a
  longer one overruns the stack.
\<close>

subsection \<open>The log\<close>

definition LogLevel_kError :: nat where "LogLevel_kError = 3"
definition LogLevel_kWarn :: nat where "LogLevel_kWarn = 4"
definition LogLevel_kInfo :: nat where "LogLevel_kInfo = 6"
definition LogLevel_kDebug :: nat where "LogLevel_kDebug = 7"

record Logger =
  log_level :: nat
  log_console :: Console
  log_shown :: "ConsoleEffect list"

definition SetLogLevel :: "nat \<Rightarrow> Logger \<Rightarrow> Logger" where
  "SetLogLevel level l = l\<lparr>log_level := level\<rparr>"

text \<open>\<open>has_layers\<close> tells whether there is a layer manager yet.\<close>

definition printk :: "Fonts \<Rightarrow> bool \<Rightarrow> u8 list \<Rightarrow> Logger \<Rightarrow> (Logger \<times> int) option" where
  "printk fonts has_layers s l =
     (if 1024 \<le> length s then None
      else do {
        (con, es) \<leftarrow> PutString fonts has_layers (s @ [0]) (log_console l);
        Some (l\<lparr>log_console := con, log_shown := log_shown l @ es\<rparr>, int (length s)) })"

definition Log :: "Fonts \<Rightarrow> bool \<Rightarrow> nat \<Rightarrow> u8 list \<Rightarrow> Logger \<Rightarrow> (Logger \<times> int) option" where
  "Log fonts has_layers level s l = (if log_level l < level then Some (l, 0) else printk fonts has_layers s l)"

subsection \<open>The heap of the C library\<close>

text \<open>Addresses are 64 bits wide, so \<open>program_break + incr\<close> may wrap around.\<close>

record Heap =
  program_break :: u64
  program_break_end :: u64
  errno :: int

definition ENOMEM :: int where "ENOMEM = 12"

definition sbrk :: "int \<Rightarrow> Heap \<Rightarrow> Heap \<times> u64" where
  "sbrk incr h =
     (if program_break h = 0 \<or> program_break_end h \<le> program_break h + of_int incr then (h\<lparr>errno := ENOMEM\<rparr>, -1)
      else (h\<lparr>program_break := program_break h + of_int incr\<rparr>, program_break h))"

text \<open>Blocks handed out one after the other never overlap and stay inside the heap.\<close>

fun sbrks :: "int list \<Rightarrow> Heap \<Rightarrow> (u64 \<times> int) list" where
  "sbrks [] h = []"
| "sbrks (n # ns) h = (let (h', p) = sbrk n h in (if p = -1 then [] else [(p, n)]) @ sbrks ns h')"

definition heap_ok :: "Heap \<Rightarrow> bool" where
  "heap_ok h \<longleftrightarrow> 0 < program_break h \<and> program_break h \<le> program_break_end h \<and> unat (program_break_end h) < 2 ^ 63"

lemma sbrk_ok:
  assumes "heap_ok h" and "0 \<le> n" and "n < 2 ^ 31"
  shows "sbrk n h = (h\<lparr>errno := ENOMEM\<rparr>, -1) \<and> int (unat (program_break_end h)) \<le> int (unat (program_break h)) + n \<or>
    sbrk n h = (h\<lparr>program_break := program_break h + of_int n\<rparr>, program_break h) \<and>
    int (unat (program_break h + of_int n)) = int (unat (program_break h)) + n \<and>
    heap_ok (h\<lparr>program_break := program_break h + of_int n\<rparr>) \<and> program_break h \<noteq> -1"
proof -
  have b: "unat (program_break h) \<le> unat (program_break_end h)" "unat (program_break_end h) < 2 ^ 63" "0 < unat (program_break h)"
    using assms(1) by (auto simp: heap_ok_def word_le_nat_alt word_less_nat_alt)
  have n: "(of_int n :: u64) = of_nat (nat n)" "nat n < 2 ^ 31" using assms(2,3) by (simp_all add: nat_less_iff)
  have u: "unat (program_break h + of_int n) = unat (program_break h) + nat n"
    using b n by (simp add: unat_word_ariths unat_of_nat)
  have m: "program_break h \<noteq> -1" using b by (auto simp: unsigned_minus_1_eq_mask mask_eq_exp_minus_1)
  show ?thesis
  proof (cases "unat (program_break_end h) \<le> unat (program_break h) + nat n")
    case True
    then have "program_break_end h \<le> program_break h + of_int n" using u by (simp add: word_le_nat_alt)
    moreover have "int (unat (program_break_end h)) \<le> int (unat (program_break h)) + n" using True assms(2) by linarith
    ultimately show ?thesis by (simp add: sbrk_def)
  next
    case False
    have z: "program_break h \<noteq> 0" using b(3) by auto
    have p: "0 < unat (program_break h + of_int n)" using u b(3) by simp
    have "heap_ok (h\<lparr>program_break := program_break h + of_int n\<rparr>)"
      using False b(2) u p by (simp add: heap_ok_def word_le_nat_alt word_less_nat_alt)
    then show ?thesis using False u z m assms(2) by (simp add: sbrk_def word_le_nat_alt)
  qed
qed

lemma sbrks_disjoint:
  assumes "heap_ok h" and "\<forall>n \<in> set ns. 0 \<le> n \<and> n < 2 ^ 31"
  shows "sorted_wrt (\<lambda>b c. int (unat (fst b)) + snd b \<le> int (unat (fst c))) (sbrks ns h) \<and>
    (\<forall>b \<in> set (sbrks ns h). int (unat (program_break h)) \<le> int (unat (fst b)) \<and>
       int (unat (fst b)) + snd b \<le> int (unat (program_break_end h)))"
  using assms
proof (induction ns arbitrary: h)
  case (Cons n ns)
  have n: "0 \<le> n" "n < 2 ^ 31" "\<forall>n \<in> set ns. 0 \<le> n \<and> n < 2 ^ 31" using Cons.prems(2) by auto
  from sbrk_ok[OF Cons.prems(1) n(1,2)] show ?case
  proof
    assume a: "sbrk n h = (h\<lparr>errno := ENOMEM\<rparr>, -1) \<and> int (unat (program_break_end h)) \<le> int (unat (program_break h)) + n"
    have "heap_ok (h\<lparr>errno := ENOMEM\<rparr>)" using Cons.prems(1) by (simp add: heap_ok_def)
    from Cons.IH[OF this n(3)] show ?thesis using a by simp
  next
    let ?h = "h\<lparr>program_break := program_break h + of_int n\<rparr>"
    assume a: "sbrk n h = (?h, program_break h) \<and> int (unat (program_break h + of_int n)) = int (unat (program_break h)) + n \<and>
      heap_ok ?h \<and> program_break h \<noteq> -1"
    have "unat (program_break h + of_int n) \<le> unat (program_break_end h)" using a by (simp add: heap_ok_def word_le_nat_alt)
    moreover have "int (unat (program_break h + of_int n)) = int (unat (program_break h)) + n" using a by blast
    ultimately have e: "int (unat (program_break h)) + n \<le> int (unat (program_break_end h))" by linarith
    have l: "sbrks (n # ns) h = (program_break h, n) # sbrks ns ?h" using a by simp
    have "heap_ok ?h" using a by blast
    from Cons.IH[OF this n(3)] have ih: "sorted_wrt (\<lambda>b c. int (unat (fst b)) + snd b \<le> int (unat (fst c))) (sbrks ns ?h)"
      "\<And>b. b \<in> set (sbrks ns ?h) \<Longrightarrow> int (unat (program_break h + of_int n)) \<le> int (unat (fst b)) \<and>
        int (unat (fst b)) + snd b \<le> int (unat (program_break_end h))" by auto
    have ih2: "int (unat (program_break h)) + n \<le> int (unat (fst b)) \<and> int (unat (fst b)) + snd b \<le> int (unat (program_break_end h))"
      if "b \<in> set (sbrks ns ?h)" for b using ih(2)[OF that] a by linarith
    have ih3: "int (unat (program_break h)) \<le> int (unat (fst b))" if "b \<in> set (sbrks ns ?h)" for b
      using ih2[OF that] n(1) by linarith
    show ?thesis unfolding l using ih(1) ih2 ih3 e by (simp only: sorted_wrt.simps list.set ball_simps fst_conv snd_conv) blast
  qed
qed simp

end
