(* ===== verification/Pektak.thy ===== *)
theory Pektak
  imports Font FatFile
begin

text \<open>
  Text in the script pektak: \<^verbatim>\<open>kernel/lang/fontpktk.cpp\<close>. FreeType is a parameter: \<open>pektak_render\<close> gives, for the pixel
  size and the character, the rendered glyph and its advance in 64ths of a pixel; \<open>None\<close> is an error of one of its
  functions.
\<close>

record PektakGlyph =
  glyph_face :: FT_Face
  glyph_advance :: int

type_synonym PektakFont = "u16 \<Rightarrow> u32 \<Rightarrow> PektakGlyph option"

text \<open>The index of the byte that holds a pixel, and the pixel itself.\<close>

definition pektak_pixel :: "FT_Face \<Rightarrow> int \<Rightarrow> int \<Rightarrow> bool" where
  "pektak_pixel face dx dy =
     (let q = bitmap_pitch face * dy - (if bitmap_pitch face < 0 then bitmap_pitch face * bitmap_rows face else 0)
      in bit (bitmap_buffer face (q + dx div 8)) (nat (7 - dx mod 8)))"

definition WriteUnicodeCharInPektak :: "PektakFont \<Rightarrow> Vector2D \<Rightarrow> u32 \<Rightarrow> PixelColor \<Rightarrow> u16 \<Rightarrow> u16 \<Rightarrow> Drawing \<times> Error_Code \<times> u16" where
  "WriteUnicodeCharInPektak font pos c color font_height horizontal_advance =
     (case font font_height c of
        None \<Rightarrow> ([], kFreeTypeError, horizontal_advance)
      | Some g \<Rightarrow>
          (let face = glyph_face g;
               glyph_topleft = pos + Vec (bitmap_left face) (baseline face - bitmap_top face)
           in (concat (map (\<lambda>dy. concat (map (\<lambda>dx.
                 if pektak_pixel face dx dy then [(glyph_topleft + Vec dx dy, color)] else [])
                   [0..bitmap_width face - 1])) [0..bitmap_rows face - 1]),
               kSuccess, of_int (glyph_advance g div 64))))"

text \<open>The loop over a string, from \<open>x_in_pixel\<close> on. \<open>None\<close> is a read behind the string, or a byte at which the decoder
  does not advance.\<close>

function write_pektak :: "PektakFont \<Rightarrow> Vector2D \<Rightarrow> u8 list \<Rightarrow> PixelColor \<Rightarrow> u16 \<Rightarrow> int \<Rightarrow> (Drawing \<times> int) option" where
  "write_pektak font pos s color font_height x_in_pixel =
     (case s of
        [] \<Rightarrow> None
      | b # _ \<Rightarrow>
          if b = 0 then Some ([], x_in_pixel)
          else (case ConvertUTF8To32 s of
             None \<Rightarrow> None
           | Some (u, bytes) \<Rightarrow>
               if bytes = 0 then None
               else (let (ds, _, advance) = WriteUnicodeCharInPektak font (pos + Vec x_in_pixel 0) u color font_height font_height
                     in map_option (\<lambda>(ds', x). (ds @ ds', x))
                          (write_pektak font pos (drop bytes s) color font_height (x_in_pixel + uint advance)))))"
  by pat_completeness auto
termination by (relation "measure (\<lambda>(_, _, s, _). length s)") auto

declare write_pektak.simps [simp del]

definition WriteStringInPektak :: "PektakFont \<Rightarrow> Vector2D \<Rightarrow> u8 list \<Rightarrow> PixelColor \<Rightarrow> u16 \<Rightarrow> (Drawing \<times> u64) option" where
  "WriteStringInPektak font pos s color font_height =
     map_option (\<lambda>(ds, x). (ds, of_int x)) (write_pektak font pos s color font_height 0)"

text \<open>The file of the font is read whole; \<open>Inl\<close> is \<open>exit(1)\<close> with the code 1.\<close>

definition pektak_path :: "u8 list" where
  "pektak_path = map of_char ''/__duvuv.ttf''"

definition InitializePektakFont :: "bool \<Rightarrow> Volume \<Rightarrow> (int + u8 list) option" where
  "InitializePektakFont ft_init_ok v =
     (if \<not> ft_init_ok then Some (Inl 1)
      else do {
        (p, post_slash) \<leftarrow> FindFile v pektak_path 0;
        (case p of
           None \<Rightarrow> Some (Inl 1)
         | Some q \<Rightarrow>
             if post_slash then Some (Inl 1)
             else do {
               e \<leftarrow> get_entry v q;
               buf \<leftarrow> LoadFile v q (unat (file_size e));
               Some (if length buf = unat (file_size e) then Inr buf else Inl 1) }) })"

text \<open>The width of a string is the sum of the advances of its characters, where one without a glyph counts as a square.\<close>

fun pektak_width :: "PektakFont \<Rightarrow> u16 \<Rightarrow> u32 list \<Rightarrow> int" where
  "pektak_width font h [] = 0"
| "pektak_width font h (c # cs) =
     (case font h c of None \<Rightarrow> uint h | Some g \<Rightarrow> (glyph_advance g div 64) mod 2 ^ 16) + pektak_width font h cs"

fun pektak_drawing :: "PektakFont \<Rightarrow> Vector2D \<Rightarrow> u32 list \<Rightarrow> PixelColor \<Rightarrow> u16 \<Rightarrow> int \<Rightarrow> Drawing" where
  "pektak_drawing font pos [] color h x = []"
| "pektak_drawing font pos (c # cs) color h x =
     fst (WriteUnicodeCharInPektak font (pos + Vec x 0) c color h h) @ pektak_drawing font pos cs color h (x + pektak_width font h [c])"

lemma pektak_advance: "uint (snd (snd (WriteUnicodeCharInPektak font pos c color h h))) = pektak_width font h [c]"
  by (simp add: WriteUnicodeCharInPektak_def Let_def uint_word_of_int split: option.splits)

lemma WriteStringInPektak_encoded:
  assumes "\<forall>c \<in> set cs. 0 < unat c \<and> unat c < 2 ^ 21"
  shows "WriteStringInPektak font pos (encode cs @ 0 # rest) color h =
    Some (pektak_drawing font pos cs color h 0, of_int (pektak_width font h cs))"
proof -
  have w: "pektak_width font h (c # cs) = pektak_width font h [c] + pektak_width font h cs" for c cs by simp
  have "write_pektak font pos (encode cs @ 0 # rest) color h x =
      Some (pektak_drawing font pos cs color h x, x + pektak_width font h cs)" for x
    using assms
  proof (induction cs arbitrary: x)
    case Nil
    then show ?case by (subst write_pektak.simps) (simp add: encode_def)
  next
    case (Cons c cs)
    have c: "0 < unat c" "unat c < 2 ^ 21" using Cons.prems by auto
    obtain b bs where b: "ConvertUTF32toUTF8 c = b # bs" "b \<noteq> 0" using encode_head[OF c] by blast
    have e: "encode (c # cs) @ 0 # rest = b # bs @ encode cs @ 0 # rest" by (simp add: encode_def b)
    have d: "ConvertUTF8To32 (b # bs @ encode cs @ 0 # rest) = Some (c, Suc (length bs))"
      using utf8_roundtrip[OF c(2), of "encode cs @ 0 # rest"] by (simp add: b)
    obtain ds er adv where g: "WriteUnicodeCharInPektak font (pos + Vec x 0) c color h h = (ds, er, adv)"
      by (cases "WriteUnicodeCharInPektak font (pos + Vec x 0) c color h h")
    have a: "uint adv = pektak_width font h [c]" using pektak_advance[of font "pos + Vec x 0" c color h] g by simp
    have ih: "write_pektak font pos (encode cs @ 0 # rest) color h y =
      Some (pektak_drawing font pos cs color h y, y + pektak_width font h cs)" for y
      using Cons.IH Cons.prems by simp
    show ?case unfolding e w[of c cs]
      by (subst write_pektak.simps) (simp add: b(2) d g a ih add.assoc del: pektak_width.simps)
  qed
  then show ?thesis by (simp add: WriteStringInPektak_def)
qed

end
