(* ===== verification/Syscall.thy ===== *)
theory Syscall
  imports Shell Logger Pektak PageFault "HOL-Library.Log_Nat"
begin

text \<open>
  The system calls (\<^verbatim>\<open>kernel/syscall.cpp\<close>, \<^verbatim>\<open>kernel/app_event.hpp\<close>) and the table that \<open>SyscallEntry\<close> of
  \<^verbatim>\<open>kernel/asmfunc.asm\<close> calls through. A call gets six words and returns a value and an error number. Pointers of
  the application are followed through the page maps of the current task, with the page fault handler for pages that
  are not there yet; the kernel runs with write protection off, so it writes to read-only pages too.
\<close>

subsection \<open>The kernel, and the memory of the application\<close>

record Kernel =
  os :: World
  logger :: Logger

text \<open>\<open>fresh_address\<close> is where \<open>make_shared\<close> puts a new window.\<close>

record SysEnv =
  env :: Env
  pektak_font :: PektakFont
  fresh_address :: "World \<Rightarrow> nat"

type_synonym Result = "u64 \<times> int"

definition EPERM :: int where "EPERM = 1"
definition ENOENT :: int where "ENOENT = 2"
definition E2BIG :: int where "E2BIG = 7"
definition EBADF :: int where "EBADF = 9"
definition EFAULT :: int where "EFAULT = 14"
definition EISDIR :: int where "EISDIR = 21"
definition EINVAL :: int where "EINVAL = 22"
definition ENOSPC :: int where "ENOSPC = 28"

text \<open>The conversions of a word to \<open>int\<close>.\<close>

definition to_int :: "u64 \<Rightarrow> int" where
  "to_int a = sint (ucast a :: u32)"

definition on_os :: "(World \<Rightarrow> (World \<times> 'a) option) \<Rightarrow> Kernel \<Rightarrow> (Kernel \<times> 'a) option" where
  "on_os f k = map_option (\<lambda>(w, r). (k\<lparr>os := w\<rparr>, r)) (f (os k))"

text \<open>\<open>Load\<close> of the class of a descriptor, for the page fault handler.\<close>

definition fd_load :: "World \<Rightarrow> nat \<Rightarrow> nat \<Rightarrow> int \<Rightarrow> u8 list option" where
  "fd_load w h n off = (case fd_store w h of
     None \<Rightarrow> None
   | Some (FileFd f) \<Rightarrow> fat_Load (volume w) f n (nat (off mod 2 ^ 64))
   | Some _ \<Rightarrow> Some [])"

text \<open>The page of an address, brought in when it is missing; a fault that is not resolved in kernel mode halts.\<close>

definition page_in :: "bool \<Rightarrow> u64 \<Rightarrow> World \<Rightarrow> (World \<times> nat) option" where
  "page_in is_write a w = (case frame_at (machine w) a of
     Some f \<Rightarrow> Some (w, f)
   | None \<Rightarrow> do {
       (m, err) \<leftarrow> HandlePageFault (fd_load w) (sched w) (machine w) (if is_write then 2 else 0) a;
       if is_error err then None
       else do { f \<leftarrow> frame_at m a; Some (w\<lparr>machine := m\<rparr>, f) } })"

definition user_byte :: "u64 \<Rightarrow> World \<Rightarrow> (World \<times> u8) option" where
  "user_byte a w = map_option (\<lambda>(w', f). (w', phys (machine w') f ! Part 0 a)) (page_in False a w)"

fun user_bytes :: "nat \<Rightarrow> u64 \<Rightarrow> World \<Rightarrow> (World \<times> u8 list) option" where
  "user_bytes 0 a w = Some (w, [])"
| "user_bytes (Suc n) a w = do {
     (w1, b) \<leftarrow> user_byte a w;
     (w2, bs) \<leftarrow> user_bytes n (a + 1) w1;
     Some (w2, b # bs) }"

fun user_store :: "u64 \<Rightarrow> u8 list \<Rightarrow> World \<Rightarrow> World option" where
  "user_store a [] w = Some w"
| "user_store a (b # bs) w = do {
     (w1, f) \<leftarrow> page_in True a w;
     let m = machine w1;
     user_store (a + 1) bs (w1\<lparr>machine := m\<lparr>phys := (phys m)(f := (phys m f)[Part 0 a := b])\<rparr>\<rparr>) }"

text \<open>A string up to its zero, which is not part of the result.\<close>

partial_function (option) user_string :: "u64 \<Rightarrow> World \<Rightarrow> (World \<times> u8 list) option" where
  "user_string a w = do {
     r \<leftarrow> user_byte a w;
     (if snd r = 0 then Some (fst r, [])
      else do {
        s \<leftarrow> user_string (a + 1) (fst r);
        Some (fst s, snd r # snd s) }) }"

text \<open>What is mapped behind a buffer.\<close>

fun peek_bytes :: "nat \<Rightarrow> u64 \<Rightarrow> Machine \<Rightarrow> u8 list" where
  "peek_bytes 0 a m = []"
| "peek_bytes (Suc n) a m = (case frame_at m a of None \<Rightarrow> [] | Some f \<Rightarrow> (phys m f ! Part 0 a) # peek_bytes n (a + 1) m)"

subsection \<open>Texts\<close>

definition LogString :: "SysEnv \<Rightarrow> u64 \<Rightarrow> u64 \<Rightarrow> Kernel \<Rightarrow> (Kernel \<times> Result) option" where
  "LogString e arg1 arg2 k =
     (if arg1 \<noteq> of_nat LogLevel_kError \<and> arg1 \<noteq> of_nat LogLevel_kWarn \<and> arg1 \<noteq> of_nat LogLevel_kInfo \<and>
         arg1 \<noteq> of_nat LogLevel_kDebug
      then Some (k, 0, EPERM)
      else do {
        (w, s) \<leftarrow> user_string arg2 (os k);
        if 1024 < length s then Some (k\<lparr>os := w\<rparr>, 0, E2BIG)
        else do {
          (l, _) \<leftarrow> Log (env_fonts (env e)) True (unat arg1) s (logger k);
          Some (\<lparr>os = w, logger = l\<rparr>, of_nat (length s), 0) } })"

text \<open>A descriptor of the current task; \<open>None\<close> is the test that leads to \<open>EBADF\<close>.\<close>

definition task_file :: "nat Task \<Rightarrow> nat \<Rightarrow> nat option" where
  "task_file task fd = (if length (task_files task) \<le> fd then None else task_files task ! fd)"

definition current :: "World \<Rightarrow> (nat \<times> nat Task) option" where
  "current w = do { t \<leftarrow> CurrentTask (sched w); task \<leftarrow> tasks (sched w) t; Some (t, task) }"

definition sys_PutString :: "SysEnv \<Rightarrow> u64 \<Rightarrow> u64 \<Rightarrow> u64 \<Rightarrow> World \<Rightarrow> (World \<times> Result) option" where
  "sys_PutString e fd arg2 len w =
     (if 1024 < len then Some (w, 0, E2BIG)
      else do {
        (t, task) \<leftarrow> current w;
        (case task_file task (unat fd) of
           None \<Rightarrow> Some (w, 0, EBADF)
         | Some h \<Rightarrow> do {
             (w1, s) \<leftarrow> user_bytes (unat len) arg2 w;
             let behind = peek_bytes 4 (arg2 + len) (machine w1);
             (w2, n) \<leftarrow> fd_write (env e) h (s @ behind) (unat len) w1;
             Some (w2, of_nat n, 0) }) })"

text \<open>\<open>Exit\<close> returns the saved stack pointer, to which \<open>SyscallEntry\<close> then returns with the code as the result of
  \<open>CallApp\<close>.\<close>

definition Exit :: "u64 \<Rightarrow> World \<Rightarrow> (World \<times> Result) option" where
  "Exit arg1 w = do { (t, task) \<leftarrow> current w; Some (w, os_stack_ptr task, to_int arg1) }"

subsection \<open>Windows\<close>

definition OpenWindow :: "SysEnv \<Rightarrow> u64 \<Rightarrow> u64 \<Rightarrow> u64 \<Rightarrow> u64 \<Rightarrow> u64 \<Rightarrow> World \<Rightarrow> (World \<times> Result) option" where
  "OpenWindow e arg1 arg2 arg3 arg4 arg5 w = do {
     (w1, title) \<leftarrow> user_string arg5 w;
     let d = desktop w1;
     win \<leftarrow> new_ToplevelWindow (env_fonts (env e)) (to_int arg1) (to_int arg2) (pixel_format (screen (manager d))) title False;
     let p = fresh_address e w1;
     let (lm, layer_id) = NewLayer ((manager d)\<lparr>windows := (windows (manager d))(p \<mapsto> win)\<rparr>);
     let lm1 = Layer_Move layer_id (Vec (to_int arg3) (to_int arg4)) (SetDraggable layer_id True (SetWindow layer_id p lm));
     d1 \<leftarrow> Activate (env_fonts (env e)) layer_id (d\<lparr>manager := lm1\<rparr>);
     task_id \<leftarrow> CurrentTask (task_manager d1);
     let ltm = layer_task_map d1;
     let d2 = d1\<lparr>layer_task_map := (if layer_id \<in> dom ltm then ltm else ltm(layer_id \<mapsto> task_id))\<rparr>;
     Some (w1\<lparr>desktop := d2\<rparr>, of_nat layer_id, 0) }"

definition set_manager :: "LayerManager \<Rightarrow> World \<Rightarrow> World" where
  "set_manager lm w = w\<lparr>desktop := (desktop w)\<lparr>manager := lm\<rparr>\<rparr>"

text \<open>Bit 0 of the upper half of \<open>layer_id_flags\<close> says that the layer is not redrawn.\<close>

definition DoWinFunc :: "(Window \<Rightarrow> (Window \<times> Result) option) \<Rightarrow> u64 \<Rightarrow> World \<Rightarrow> (World \<times> Result) option" where
  "DoWinFunc f layer_id_flags w =
     (let layer_flags = (ucast (drop_bit 32 layer_id_flags) :: u32); layer_id = unat (layer_id_flags AND 0xffffffff);
          lm = manager (desktop w)
      in case FindLayer lm layer_id of
           None \<Rightarrow> Some (w, 0, EBADF)
         | Some layer \<Rightarrow> do {
             p \<leftarrow> layer_window layer;
             win \<leftarrow> windows lm p;
             (win', res) \<leftarrow> f win;
             let lm1 = lm\<lparr>windows := (windows lm)(p \<mapsto> win')\<rparr>;
             if snd res \<noteq> 0 then Some (set_manager lm1 w, res)
             else if layer_flags AND 1 = 0 then do {
               lm2 \<leftarrow> Draw_id layer_id lm1;
               Some (set_manager lm2 w, res) }
             else Some (set_manager lm1 w, res) })"

text \<open>A function that draws and returns \<open>{0, 0}\<close>.\<close>

definition win_draw :: "Drawing \<Rightarrow> Window \<Rightarrow> (Window \<times> Result) option" where
  "win_draw ds win = map_option (\<lambda>win'. (win', 0, 0)) (draw_on Window_Write ds win)"

definition WinWriteString :: "SysEnv \<Rightarrow> u64 \<Rightarrow> u64 \<Rightarrow> u64 \<Rightarrow> u64 \<Rightarrow> u64 \<Rightarrow> World \<Rightarrow> (World \<times> Result) option" where
  "WinWriteString e arg1 arg2 arg3 arg4 arg5 w =
     (if FindLayer (manager (desktop w)) (unat (arg1 AND 0xffffffff)) = None then Some (w, 0, EBADF)
      else do {
        (w1, s) \<leftarrow> user_string arg5 w;
        DoWinFunc (\<lambda>win. do {
          (ds, _) \<leftarrow> WriteUTF8String (env_fonts (env e)) (Vec (to_int arg2) (to_int arg3)) (s @ [0]) (ToColor (ucast arg4));
          win_draw ds win }) arg1 w1 })"

definition WinFillRectangle :: "u64 \<Rightarrow> u64 \<Rightarrow> u64 \<Rightarrow> u64 \<Rightarrow> u64 \<Rightarrow> u64 \<Rightarrow> World \<Rightarrow> (World \<times> Result) option" where
  "WinFillRectangle arg1 arg2 arg3 arg4 arg5 arg6 w = DoWinFunc
     (win_draw (FillRectangle (Vec (to_int arg2) (to_int arg3)) (Vec (to_int arg4) (to_int arg5)) (ToColor (ucast arg6)))) arg1 w"

definition WinRedraw :: "u64 \<Rightarrow> World \<Rightarrow> (World \<times> Result) option" where
  "WinRedraw arg1 w = DoWinFunc (\<lambda>win. Some (win, 0, 0)) arg1 w"

definition WinWriteStringInPektak :: "SysEnv \<Rightarrow> u64 \<Rightarrow> u64 \<Rightarrow> u64 \<Rightarrow> u64 \<Rightarrow> u64 \<Rightarrow> u64 \<Rightarrow> World \<Rightarrow> (World \<times> Result) option" where
  "WinWriteStringInPektak e arg1 arg2 arg3 arg4 arg5 arg6 w =
     (if FindLayer (manager (desktop w)) (unat (arg1 AND 0xffffffff)) = None then Some (w, 0, EBADF)
      else do {
        (w1, s) \<leftarrow> user_string arg5 w;
        DoWinFunc (\<lambda>win. do {
          (ds, resulting_width) \<leftarrow> WriteStringInPektak (pektak_font e) (Vec (to_int arg2) (to_int arg3)) (s @ [0])
             (ToColor (ucast arg4)) (ucast arg6);
          win' \<leftarrow> draw_on Window_Write ds win;
          Some (win', resulting_width, 0) }) arg1 w1 })"

text \<open>
  Arithmetic on doubles: a result is the nearest number with 53 binary digits, ties to even. The numbers of
  \<open>WinDrawLine\<close> are far from the limits of the exponent.
\<close>

definition round_half_even :: "rat \<Rightarrow> int" where
  "round_half_even q = (let f = \<lfloor>q\<rfloor>; d = q - of_int f
     in if d < 1 / 2 then f else if 1 / 2 < d then f + 1 else if even f then f else f + 1)"

definition floor_log2 :: "rat \<Rightarrow> int" where
  "floor_log2 q = (if 1 \<le> q then bitlen \<lfloor>q\<rfloor> - 1 else - bitlen (\<lceil>1 / q\<rceil> - 1))"

definition to_double :: "rat \<Rightarrow> rat" where
  "to_double q = (if q = 0 then 0
     else let s = 2 powi (floor_log2 \<bar>q\<bar> - 52) in of_int (round_half_even (q / s)) * s)"

text \<open>\<open>roundish(m * (x - x0) + y0)\<close> with \<open>m = dy / dx\<close>.\<close>

definition line_coordinate :: "int \<Rightarrow> int \<Rightarrow> int \<Rightarrow> int \<Rightarrow> int \<Rightarrow> int \<Rightarrow> int" where
  "line_coordinate dy dx x0 y0 y1 x =
     (let m = to_double (of_int dy / of_int dx);
          y = to_double (to_double (m * of_int (x - x0)) + of_int y0)
      in if y0 \<le> y1 then \<lfloor>y\<rfloor> else \<lceil>y\<rceil>)"

definition sign :: "int \<Rightarrow> int" where
  "sign x = (if 0 < x then 1 else if x < 0 then -1 else 0)"

definition int_ok :: "int \<Rightarrow> bool" where
  "int_ok x \<longleftrightarrow> - (2 ^ 31) \<le> x \<and> x < 2 ^ 31"

definition line_drawing :: "int \<Rightarrow> int \<Rightarrow> int \<Rightarrow> int \<Rightarrow> PixelColor \<Rightarrow> Drawing option" where
  "line_drawing x0 y0 x1 y1 color =
     (let dx = x1 - x0 + sign (x1 - x0); dy = y1 - y0 + sign (y1 - y0)
      in if \<not> (int_ok dx \<and> int_ok dy) then None
         else if dx = 0 \<and> dy = 0 then Some [(Vec x0 y0, color)]
         else if \<bar>dy\<bar> \<le> \<bar>dx\<bar> then
           (let (a0, b0, a1, b1) = (if dx < 0 then (x1, y1, x0, y0) else (x0, y0, x1, y1))
            in Some (map (\<lambda>x. (Vec x (line_coordinate dy dx a0 b0 b1 x), color)) [a0..a1]))
         else
           (let (a0, b0, a1, b1) = (if dy < 0 then (x1, y1, x0, y0) else (x0, y0, x1, y1))
            in Some (map (\<lambda>y. (Vec (line_coordinate dx dy b0 a0 a1 y) y, color)) [b0..b1])))"

definition WinDrawLine :: "u64 \<Rightarrow> u64 \<Rightarrow> u64 \<Rightarrow> u64 \<Rightarrow> u64 \<Rightarrow> u64 \<Rightarrow> World \<Rightarrow> (World \<times> Result) option" where
  "WinDrawLine arg1 arg2 arg3 arg4 arg5 arg6 w = DoWinFunc
     (\<lambda>win. do {
        ds \<leftarrow> line_drawing (to_int arg2) (to_int arg3) (to_int arg4) (to_int arg5) (ToColor (ucast arg6));
        win_draw ds win }) arg1 w"

definition CloseWindow :: "SysEnv \<Rightarrow> u64 \<Rightarrow> World \<Rightarrow> (World \<times> Result) option" where
  "CloseWindow e arg1 w = do {
     (d, err) \<leftarrow> CloseLayer (env_fonts (env e)) (unat (arg1 AND 0xffffffff)) (desktop w);
     Some (w\<lparr>desktop := d\<rparr>, 0, if err = kNoSuchEntry then EBADF else 0) }"

definition GetCurrentTick :: "World \<Rightarrow> (World \<times> Result) option" where
  "GetCurrentTick w = Some (w, tick (timer_mgr w), int kTimerFreq)"

subsection \<open>Events\<close>

datatype AppEvent =
    Quit
  | MouseMove (move_x: int) (move_y: int) (move_dx: int) (move_dy: int) (move_buttons: u8)
  | MouseButton (mb_x: int) (mb_y: int) (mb_press: int) (mb_button: int)
  | TimerTimeout (te_timeout: u64) (te_value: int)
  | KeyPush (kp_modifier: u8) (kp_keycode: u8) (kp_unicode: u32) (kp_press: bool)

definition int_bytes :: "int \<Rightarrow> u8 list" where
  "int_bytes x = to_bytes 4 (of_int x :: u32)"

text \<open>What is stored for an event, as offsets in the structure and bytes; its size is 32.\<close>

definition sizeof_AppEvent :: nat where "sizeof_AppEvent = 32"

definition event_fields :: "AppEvent \<Rightarrow> (nat \<times> u8 list) list" where
  "event_fields ev = (case ev of
     Quit \<Rightarrow> [(0, int_bytes 0)]
   | MouseMove x y dx dy buttons \<Rightarrow>
       [(0, int_bytes 1), (8, int_bytes x), (12, int_bytes y), (16, int_bytes dx), (20, int_bytes dy), (24, [buttons])]
   | MouseButton x y press button \<Rightarrow>
       [(0, int_bytes 2), (8, int_bytes x), (12, int_bytes y), (16, int_bytes press), (20, int_bytes button)]
   | TimerTimeout timeout v \<Rightarrow> [(0, int_bytes 3), (8, to_bytes 8 timeout), (16, int_bytes v)]
   | KeyPush modifier keycode unicode press \<Rightarrow>
       [(0, int_bytes 4), (8, [modifier]), (9, [keycode]), (12, to_bytes 4 unicode), (16, int_bytes (if press then 1 else 0))])"

fun store_fields :: "u64 \<Rightarrow> (nat \<times> u8 list) list \<Rightarrow> World \<Rightarrow> World option" where
  "store_fields a [] w = Some w"
| "store_fields a ((off, bs) # fs) w = do { w1 \<leftarrow> user_store (a + of_nat off) bs w; store_fields a fs w1 }"

text \<open>The event of a message; \<open>Inr\<close> tells the messages without one, with \<open>True\<close> for those that are logged.\<close>

definition message_event :: "Message \<Rightarrow> AppEvent + bool" where
  "message_event msg = (case arg msg of
     kKeyPush modifier keycode unicode press \<Rightarrow>
       Inl (if keycode = 20 \<and> modifier AND 0x11 \<noteq> 0 then Quit else KeyPush modifier keycode unicode press)
   | kMouseMove x y dx dy buttons \<Rightarrow> Inl (MouseMove x y dx dy buttons)
   | kMouseButton x y press button \<Rightarrow> Inl (MouseButton x y press button)
   | kTimerTimeout timeout v \<Rightarrow> if v < 0 then Inl (TimerTimeout (of_nat timeout) (- v)) else Inr False
   | kWindowClose _ \<Rightarrow> Inl Quit
   | _ \<Rightarrow> Inr True)"

definition message_type :: "Message_Arg \<Rightarrow> nat" where
  "message_type a = (case a of
     kInterruptXHCI \<Rightarrow> 0 | kTimerTimeout _ _ \<Rightarrow> 1 | kKeyPush _ _ _ _ \<Rightarrow> 2 | kLayer _ _ _ _ _ _ \<Rightarrow> 3 | kLayerFinish \<Rightarrow> 4
   | kMouseMove _ _ _ _ _ \<Rightarrow> 5 | kMouseButton _ _ _ _ \<Rightarrow> 6 | kWindowActive _ \<Rightarrow> 7 | kPipe _ _ \<Rightarrow> 8 | kWindowClose _ \<Rightarrow> 9)"

definition log_uncaught :: "SysEnv \<Rightarrow> Message \<Rightarrow> Kernel \<Rightarrow> Kernel option" where
  "log_uncaught e msg k = map_option (\<lambda>(l, _). k\<lparr>logger := l\<rparr>)
     (Log (env_fonts (env e)) True LogLevel_kInfo (str ''uncaught event type: '' @ dec_nat (message_type (arg msg)) @ [10]) (logger k))"

text \<open>The loop: it sleeps only while no event has been stored, and ends at an empty mailbox or a full buffer.\<close>

partial_function (option) read_events :: "SysEnv \<Rightarrow> nat \<Rightarrow> u64 \<Rightarrow> nat \<Rightarrow> nat \<Rightarrow> Kernel \<Rightarrow> (Kernel \<times> nat) option" where
  "read_events e t app_events len i k =
     (if len \<le> i then Some (k, i)
      else do {
        r \<leftarrow> ReceiveMessage (sched (os k)) t;
        (case snd r of
           None \<Rightarrow>
             if i = 0 then do {
               s \<leftarrow> Sleep (fst r) (registers (os k)) t;
               w \<leftarrow> others (env e) (set_sched_cpu s (os k));
               read_events e t app_events len i (k\<lparr>os := w\<rparr>) }
             else Some (k, i)
         | Some msg \<Rightarrow>
             (let k1 = k\<lparr>os := set_sched (fst r) (os k)\<rparr>
              in case message_event msg of
                   Inl ev \<Rightarrow> do {
                     w \<leftarrow> store_fields (app_events + of_nat (sizeof_AppEvent * i)) (event_fields ev) (os k1);
                     read_events e t app_events len (i + 1) (k1\<lparr>os := w\<rparr>) }
                 | Inr uncaught \<Rightarrow> do {
                     k2 \<leftarrow> (if uncaught then log_uncaught e msg k1 else Some k1);
                     read_events e t app_events len i k2 })) })"

definition ReadEvent :: "SysEnv \<Rightarrow> u64 \<Rightarrow> u64 \<Rightarrow> Kernel \<Rightarrow> (Kernel \<times> Result) option" where
  "ReadEvent e arg1 arg2 k =
     (if arg1 < 0x8000000000000000 then Some (k, 0, EFAULT)
      else do {
        (t, _) \<leftarrow> current (os k);
        (k1, i) \<leftarrow> read_events e t arg1 (unat arg2) 0 k;
        Some (k1, of_nat i, 0) })"

definition CreateTimer :: "u64 \<Rightarrow> u64 \<Rightarrow> u64 \<Rightarrow> World \<Rightarrow> (World \<times> Result) option" where
  "CreateTimer arg1 arg2 arg3 w =
     (let mode = (ucast arg1 :: u32); timer_value = to_int arg2
      in if timer_value \<le> 0 then Some (w, 0, EINVAL)
         else do {
           (task_id, _) \<leftarrow> current w;
           let t0 = arg3 * of_nat kTimerFreq div 1000;
           let timeout = (if mode AND 1 \<noteq> 0 then t0 + tick (timer_mgr w) else t0);
           Some (w\<lparr>timer_mgr := AddTimer (mk_Timer timeout (- timer_value) task_id) (timer_mgr w)\<rparr>,
                 timeout * 1000 div of_nat kTimerFreq, 0) })"

subsection \<open>Files\<close>

fun free_slot :: "nat option list \<Rightarrow> nat \<Rightarrow> nat option" where
  "free_slot [] i = None"
| "free_slot (f # fs) i = (if f = None then Some i else free_slot fs (i + 1))"

definition AllocateFD :: "nat Task \<Rightarrow> nat Task \<times> nat" where
  "AllocateFD task = (case free_slot (task_files task) 0 of
     Some i \<Rightarrow> (task, i)
   | None \<Rightarrow> (task\<lparr>task_files := task_files task @ [None]\<rparr>, length (task_files task)))"

definition sys_CreateFile :: "Volume \<Rightarrow> u8 list \<Rightarrow> (Volume \<times> EntryPtr option \<times> int) option" where
  "sys_CreateFile v path = map_option (\<lambda>(v', file, err). (v', file,
     if err = kIsDirectory then EISDIR else if err = kNoSuchEntry then ENOENT
     else if err = kNoEnoughMemory then ENOSPC else 0)) (CreateFile v path)"

definition O_CREAT :: u32 where "O_CREAT = 0x200"

text \<open>The entry that is opened, or an error number.\<close>

definition find_or_create :: "u8 list \<Rightarrow> u32 \<Rightarrow> Volume \<Rightarrow> (Volume \<times> (int + EntryPtr)) option" where
  "find_or_create path flags v = do {
     (file, post_slash) \<leftarrow> FindFile v path 0;
     (case file of
        None \<Rightarrow>
          if flags AND O_CREAT = 0 then Some (v, Inl ENOENT)
          else do {
            (v1, new_file, err) \<leftarrow> sys_CreateFile v path;
            if err \<noteq> 0 then Some (v1, Inl err)
            else do { p \<leftarrow> new_file; Some (v1, Inr p) } }
      | Some p \<Rightarrow> do {
          e \<leftarrow> get_entry v p;
          Some (v, if attr e \<noteq> kDirectory \<and> post_slash then Inl ENOENT else Inr p) }) }"

definition OpenFile :: "u64 \<Rightarrow> u64 \<Rightarrow> World \<Rightarrow> (World \<times> Result) option" where
  "OpenFile arg1 arg2 w = do {
     (t, _) \<leftarrow> current w;
     (w1, path) \<leftarrow> user_string arg1 w;
     if path = str ''@stdin'' then Some (w1, 0, 0)
     else do {
       (v, r) \<leftarrow> find_or_create path (ucast arg2) (volume w1);
       let w2 = w1\<lparr>volume := v\<rparr>;
       (case r of
          Inl err \<Rightarrow> Some (w2, 0, err)
        | Inr file \<Rightarrow> do {
            task \<leftarrow> tasks (sched w2) t;
            let (task1, fd) = AllocateFD task;
            let (w3, h) = new_fd (FileFd (new_FatFD file)) w2;
            let w4 = set_sched (upd_task t (\<lambda>_. task1\<lparr>task_files := (task_files task1)[fd := Some h]\<rparr>) (sched w3)) w3;
            Some (w4, of_nat fd, 0) }) } }"

definition ReadFile :: "SysEnv \<Rightarrow> u64 \<Rightarrow> u64 \<Rightarrow> u64 \<Rightarrow> World \<Rightarrow> (World \<times> Result) option" where
  "ReadFile e arg1 arg2 arg3 w = do {
     (t, task) \<leftarrow> current w;
     let fd = to_int arg1;
     if fd < 0 then Some (w, 0, EBADF)
     else (case task_file task (nat fd) of
        None \<Rightarrow> Some (w, 0, EBADF)
      | Some h \<Rightarrow> do {
          (w1, bs, n) \<leftarrow> fd_read (env e) h (unat arg3) w;
          w2 \<leftarrow> user_store arg2 bs w1;
          Some (w2, of_nat n, 0) }) }"

definition DemandPages :: "u64 \<Rightarrow> World \<Rightarrow> (World \<times> Result) option" where
  "DemandPages num_pages w = do {
     (t, task) \<leftarrow> current w;
     let dp_end = (of_nat (dpaging_end task) :: u64);
     Some (set_sched (upd_task t (\<lambda>k. k\<lparr>dpaging_end := unat (dp_end + 4096 * num_pages)\<rparr>) (sched w)) w, dp_end, 0) }"

definition fd_size :: "World \<Rightarrow> nat \<Rightarrow> nat option" where
  "fd_size w h = (case fd_store w h of
     None \<Rightarrow> None
   | Some (FileFd f) \<Rightarrow> fat_Size (volume w) f
   | Some _ \<Rightarrow> Some 0)"

definition MapFile :: "u64 \<Rightarrow> u64 \<Rightarrow> World \<Rightarrow> (World \<times> Result) option" where
  "MapFile arg1 arg2 w = do {
     (t, task) \<leftarrow> current w;
     let fd = to_int arg1;
     if fd < 0 then Some (w, 0, EBADF)
     else (case task_file task (nat fd) of
        None \<Rightarrow> Some (w, 0, EBADF)
      | Some h \<Rightarrow> do {
          n \<leftarrow> fd_size w h;
          w1 \<leftarrow> user_store arg2 (to_bytes 8 (of_nat n :: u64)) w;
          let end_addr = (of_nat (file_map_end task) :: u64);
          let begin_addr = (end_addr - of_nat n) AND 0xfffffffffffff000;
          Some (set_sched (upd_task t (\<lambda>k. k\<lparr>file_map_end := unat begin_addr,
                  file_maps := file_maps k @ [\<lparr>map_fd = fd, vaddr_begin = unat begin_addr, vaddr_end = unat end_addr\<rparr>]\<rparr>) (sched w1)) w1,
                begin_addr, 0) }) }"

definition IsHalfwidth :: "SysEnv \<Rightarrow> u64 \<Rightarrow> World \<Rightarrow> (World \<times> Result) option" where
  "IsHalfwidth e arg1 w = Some (w, if IsHankaku (env_fonts (env e)) (ucast arg1) then 1 else 0, 0)"

subsection \<open>The table\<close>

text \<open>\<open>SyscallEntry\<close> calls through the table with the lower 31 bits of the number and no test of its range.\<close>

definition syscall_table :: "SysEnv \<Rightarrow> nat \<Rightarrow> u64 list \<Rightarrow> Kernel \<Rightarrow> (Kernel \<times> Result) option" where
  "syscall_table e n a =
     (let a1 = a ! 0; a2 = a ! 1; a3 = a ! 2; a4 = a ! 3; a5 = a ! 4; a6 = a ! 5
      in if n = 0x00 then LogString e a1 a2
         else if n = 0x01 then on_os (sys_PutString e a1 a2 a3)
         else if n = 0x02 then on_os (Exit a1)
         else if n = 0x03 then on_os (OpenWindow e a1 a2 a3 a4 a5)
         else if n = 0x04 then on_os (WinWriteString e a1 a2 a3 a4 a5)
         else if n = 0x05 then on_os (WinFillRectangle a1 a2 a3 a4 a5 a6)
         else if n = 0x06 then on_os GetCurrentTick
         else if n = 0x07 then on_os (WinRedraw a1)
         else if n = 0x08 then on_os (WinDrawLine a1 a2 a3 a4 a5 a6)
         else if n = 0x09 then on_os (CloseWindow e a1)
         else if n = 0x0a then ReadEvent e a1 a2
         else if n = 0x0b then on_os (CreateTimer a1 a2 a3)
         else if n = 0x0c then on_os (OpenFile a1 a2)
         else if n = 0x0d then on_os (ReadFile e a1 a2 a3)
         else if n = 0x0e then on_os (DemandPages a1)
         else if n = 0x0f then on_os (MapFile a1 a2)
         else if n = 0x10 then on_os (IsHalfwidth e a1)
         else if n = 0x11 then on_os (WinWriteStringInPektak e a1 a2 a3 a4 a5 a6)
         else (\<lambda>_. None))"

definition SyscallEntry :: "SysEnv \<Rightarrow> u64 \<Rightarrow> u64 list \<Rightarrow> Kernel \<Rightarrow> (Kernel \<times> Result) option" where
  "SyscallEntry e number a k = syscall_table e (unat (number AND 0x7fffffff)) a k"

subsection \<open>Pages of the application\<close>

text \<open>Addresses inside one page.\<close>

lemma page_add:
  assumes "Part 0 a + i < 4096"
  shows "Part 0 (a + of_nat i) = Part 0 a + i" and "translate st (a + of_nat i) = translate st a" and "Part 4 (a + of_nat i) = Part 4 a"
proof -
  have p0: "Part 0 x = unat x mod 4096" for x by (simp add: Part_def part_bits_def unsigned_take_bit_eq) (simp add: take_bit_eq_mod)
  have lt: "unat a + i < 2 ^ 64"
  proof -
    have "unat a div 4096 \<le> 4503599627370495" using unsigned_less[of a, where 'a = nat] by simp
    then have "unat a + i < 18446744073709551616" using assms div_mult_mod_eq[of "unat a" 4096] unfolding p0 by linarith
    then show ?thesis by simp
  qed
  have u: "unat (a + of_nat i) = unat a + i" using lt by (simp add: unat_word_ariths unat_of_nat)
  have sum: "unat a + i = (unat a mod 4096 + i) + unat a div 4096 * 4096" by simp
  have "(unat a + i) mod 4096 = unat a mod 4096 + i"
    using assms by (subst sum) (simp only: mod_mult_self1 p0 mod_less)
  then show "Part 0 (a + of_nat i) = Part 0 a + i" unfolding p0 u .
  have d: "unat (a + of_nat i) div 4096 = unat a div 4096"
    unfolding u using div_mult_self1[of 4096 "unat a mod 4096 + i" "unat a div 4096"] assms unfolding sum[symmetric] p0 by simp
  have "drop_bit 12 (a + of_nat i) = drop_bit 12 a"
    using d by (simp add: word_eq_iff_unsigned[where 'a = nat] drop_bit_eq_div unat_div_distrib)
  then have s: "drop_bit n (a + of_nat i) = drop_bit n a" if "12 \<le> n" for n
    using drop_bit_drop_bit[of "n - 12" 12 "a + of_nat i"] drop_bit_drop_bit[of "n - 12" 12 a] that by simp
  have p: "Part l (a + of_nat i) = Part l a" if "1 \<le> l" for l
    using that s by (auto simp: Part_def part_bits_def)
  show "translate st (a + of_nat i) = translate st a" by (simp add: translate_def indices_def p)
  show "Part 4 (a + of_nat i) = Part 4 a" by (simp add: p)
qed

text \<open>A page of the application is written and read in one piece.\<close>

definition put_page :: "nat \<Rightarrow> u8 list \<Rightarrow> World \<Rightarrow> World" where
  "put_page g page w = w\<lparr>machine := (machine w)\<lparr>phys := (phys (machine w))(g := page)\<rparr>\<rparr>"

definition user_page :: "World \<Rightarrow> u64 \<Rightarrow> nat \<Rightarrow> bool" where
  "user_page w a g \<longleftrightarrow> space_ok (machine w) \<and> 256 \<le> Part 4 a \<and> translate (machine w) a = Some g"

lemma user_pageD:
  assumes "user_page w a g"
  shows "page_in wr a w = Some (w, g)" and "length (phys (machine w) g) = 4096"
  using assms frame_at_translate space_okD(2) by (auto simp: user_page_def page_in_def)

lemma user_page_next: "user_page w a g \<Longrightarrow> Part 0 a + i < 4096 \<Longrightarrow> user_page w (a + of_nat i) g"
  using page_add[of a i] by (simp add: user_page_def)

lemma user_page_put:
  assumes "user_page w a g" and "length page = 4096"
  shows "user_page (put_page g page w) a g"
  using write_page[of "machine w" a g page] assms by (simp add: user_page_def put_page_def)

lemma user_store_page:
  assumes "user_page w a g" and "Part 0 a + length bs \<le> 4096"
  shows "user_store a bs w = Some (put_page g (blit (Part 0 a) bs (phys (machine w) g)) w)"
  using assms
proof (induction bs arbitrary: a w)
  case Nil
  then show ?case using user_pageD(2)[OF Nil(1)] by (simp add: blit_def put_page_def)
next
  case (Cons b bs)
  let ?page = "(phys (machine w) g)[Part 0 a := b]"
  note p = user_pageD[OF Cons.prems(1)]
  have l: "length ?page = 4096" using p(2) by simp
  have s: "user_store a (b # bs) w = user_store (a + 1) bs (put_page g ?page w)"
    using p(1)[of True] by (simp add: put_page_def Let_def)
  show ?case
  proof (cases "bs = []")
    case True
    then show ?thesis unfolding s using p(2) Cons.prems(2)
      by (simp add: blit_def upd_conv_take_nth_drop put_page_def)
  next
    case False
    then have lt: "Part 0 a + 1 < 4096" using Cons.prems(2) by (cases bs) auto
    have u: "user_page (put_page g ?page w) (a + 1) g"
      using user_page_put[OF user_page_next[OF Cons.prems(1) lt] l] by simp
    have n: "Part 0 (a + 1) = Part 0 a + 1" using page_add(1)[OF lt] by simp
    have "user_store (a + 1) bs (put_page g ?page w) =
      Some (put_page g (blit (Part 0 (a + 1)) bs (phys (machine (put_page g ?page w)) g)) (put_page g ?page w))"
      by (rule Cons.IH[OF u]) (use Cons.prems(2) n in simp)
    then show ?thesis unfolding s n using p(2) Cons.prems(2)
      by (simp add: put_page_def blit_def upd_conv_take_nth_drop)
  qed
qed

lemma user_bytes_page:
  assumes "user_page w a g" and "Part 0 a + n \<le> 4096"
  shows "user_bytes n a w = Some (w, take n (drop (Part 0 a) (phys (machine w) g)))"
  using assms
proof (induction n arbitrary: a)
  case (Suc n)
  note p = user_pageD[OF Suc.prems(1)]
  have b: "user_byte a w = Some (w, phys (machine w) g ! Part 0 a)" by (simp add: user_byte_def p(1))
  have c: "phys (machine w) g ! Part 0 a # drop (Part 0 a + 1) (phys (machine w) g) = drop (Part 0 a) (phys (machine w) g)"
    using Cons_nth_drop_Suc[of "Part 0 a" "phys (machine w) g"] p(2) Suc.prems(2) by simp
  have "user_bytes n (a + 1) w = Some (w, take n (drop (Part 0 a + 1) (phys (machine w) g)))"
  proof (cases n)
    case (Suc k)
    then have lt: "Part 0 a + 1 < 4096" using Suc.prems(2) by simp
    show ?thesis using Suc.IH[of "a + 1"] user_page_next[OF Suc.prems(1) lt] page_add(1)[OF lt] Suc.prems(2) by simp
  qed simp
  then show ?case using b c by (simp add: take_Suc_conv_app_nth[symmetric] flip: c)
qed simp

subsection \<open>Descriptors\<close>

lemma free_slot_Some: "free_slot fs i = Some j \<Longrightarrow> i \<le> j \<and> j - i < length fs \<and> fs ! (j - i) = None \<and> (\<forall>k < j - i. fs ! k \<noteq> None)"
proof (induction fs arbitrary: i)
  case (Cons f fs)
  show ?case
  proof (cases "f = None")
    case True
    then show ?thesis using Cons.prems by simp
  next
    case False
    then have h: "i + 1 \<le> j \<and> j - (i + 1) < length fs \<and> fs ! (j - (i + 1)) = None \<and> (\<forall>k < j - (i + 1). fs ! k \<noteq> None)"
      using Cons.IH[of "i + 1"] Cons.prems False by simp
    then have d: "j - i = Suc (j - (i + 1))" by linarith
    show ?thesis using h False unfolding d by (auto simp: nth_Cons split: nat.splits)
  qed
qed simp

lemma free_slot_None: "free_slot fs i = None \<Longrightarrow> \<forall>k < length fs. fs ! k \<noteq> None"
proof (induction fs arbitrary: i)
  case (Cons f fs)
  then show ?case by (auto simp: nth_Cons split: if_splits nat.splits)
qed simp

definition opens_at :: "nat option list \<Rightarrow> nat \<Rightarrow> nat option list \<Rightarrow> bool" where
  "opens_at files fd fs \<longleftrightarrow> fd \<le> length files \<and> fd < length fs \<and> (fd < length files \<longrightarrow> files ! fd = None) \<and>
     (\<forall>k < fd. files ! k \<noteq> None) \<and> (\<forall>k < length files. fs ! k = files ! k) \<and> length fs = max (length files) (fd + 1)"

lemma AllocateFD_opens:
  "\<exists>fs fd. AllocateFD task = (task\<lparr>task_files := fs\<rparr>, fd) \<and> opens_at (task_files task) fd fs"
proof (cases "free_slot (task_files task) 0")
  case None
  then show ?thesis using free_slot_None[OF None]
    by (intro exI[of _ "task_files task @ [None]"] exI[of _ "length (task_files task)"])
      (simp add: AllocateFD_def opens_at_def nth_append)
next
  case (Some i)
  then show ?thesis using free_slot_Some[OF Some]
    by (intro exI[of _ "task_files task"] exI[of _ i]) (simp add: AllocateFD_def opens_at_def)
qed

lemma current_simps:
  "current w = Some (t, task) \<longleftrightarrow> CurrentTask (sched w) = Some t \<and> tasks (sched w) t = Some task"
  by (auto simp: current_def split: bind_splits)

lemma to_int_of_nat: "n < 2 ^ 31 \<Longrightarrow> to_int (of_nat n) = int n"
  by (simp add: to_int_def unsigned_of_nat signed_of_nat take_bit_nat_eq_self signed_take_bit_int_eq_self)

text \<open>C35: A file that is opened can be read. Opening the path of an existing file gives the task the lowest free
  descriptor and no other change of its table; reading from that descriptor then returns as many bytes as the
  file has, up to the size asked for, and stores exactly them in the buffer of the application.\<close>

theorem OpenFile_ReadFile_content:
  assumes cur: "current w = Some (t, task)" and room: "length (task_files task) < 2 ^ 31 - 1"
    and path: "user_string arg1 w = Some (w, path)" "path \<noteq> str ''@stdin''"
    and found: "FindFile (volume w) path 0 = Some (Some p, False)"
    and vol: "volume_ok (volume w)" "valid_ptr (volume w) p" "file_ok (volume w) (entry_at (volume w) p) cs"
    and buf: "user_page w buf g" "Part 0 buf + n \<le> 4096"
  defines "content \<equiv> file_data (volume w) (entry_at (volume w) p) cs"
  shows "\<exists>w1 w2 fd task2. OpenFile arg1 flags w = Some (w1, of_nat fd, 0) \<and>
    ReadFile e (of_nat fd) buf (of_nat n) w1 = Some (w2, of_nat (min n (length content)), 0) \<and>
    user_bytes (min n (length content)) buf w2 = Some (w2, take n content) \<and> volume w2 = volume w \<and>
    current w2 = Some (t, task2) \<and> fd \<le> length (task_files task) \<and>
    (fd < length (task_files task) \<longrightarrow> task_files task ! fd = None) \<and> (\<forall>k < fd. task_files task ! k \<noteq> None) \<and>
    (\<forall>k < length (task_files task). k \<noteq> fd \<longrightarrow> task_files task2 ! k = task_files task ! k)"
proof -
  let ?v = "volume w" and ?h = "next_fd w"
  obtain fs fd where a: "AllocateFD task = (task\<lparr>task_files := fs\<rparr>, fd)" and o: "opens_at (task_files task) fd fs"
    using AllocateFD_opens by blast
  define task1 where "task1 = task\<lparr>task_files := fs[fd := Some ?h]\<rparr>"
  define w1 where "w1 = set_sched (upd_task t (\<lambda>_. task1) (sched w)) (w\<lparr>fd_store := (fd_store w)(?h \<mapsto> FileFd (new_FatFD p)), next_fd := ?h + 1\<rparr>)"
  have cur': "CurrentTask (sched w) = Some t" "tasks (sched w) t = Some task" using cur by (simp_all add: current_simps)
  have e: "get_entry ?v p = Some (entry_at ?v p)" using get_entry_at[OF vol(1,2)] .
  have foc: "find_or_create path (ucast flags) ?v = Some (?v, Inr p)" using found e by (simp add: find_or_create_def)
  have open1: "OpenFile arg1 flags w = Some (w1, of_nat fd, 0)"
    using cur path foc a cur'(2) by (simp add: OpenFile_def Let_def new_fd_def w1_def task1_def set_sched_def sched_def)
  have w1: "current w1 = Some (t, task1)" "volume w1 = ?v" "fd_store w1 ?h = Some (FileFd (new_FatFD p))" "machine w1 = machine w"
    using cur' by (simp_all add: current_simps w1_def set_sched_def sched_def upd_task_def CurrentTask_def)
  have fd: "fd < 2 ^ 31" using o room by (simp add: opens_at_def)
  have tf: "task_file task1 (nat (int fd)) = Some ?h" using o by (simp add: task_file_def task1_def opens_at_def)
  note ok = new_FatFD_reads[OF vol]
  obtain f' where r: "fat_Read ?v (new_FatFD p) n = Some (f', take n content)"
    using fat_stream.read_takes[OF ok(1)] unfolding ok(2) content_def by blast
  have n: "unat (of_nat n :: u64) = n" using buf(2) by (simp add: unat_of_nat)
  define w2 where "w2 = set_fd ?h (FileFd f') w1"
  have up: "user_page w2 buf g" using buf(1) w1(4) by (simp add: user_page_def w2_def set_fd_def)
  have st: "user_store buf (take n content) w2 = Some (put_page g (blit (Part 0 buf) (take n content) (phys (machine w2) g)) w2)"
    by (rule user_store_page[OF up]) (use buf(2) in simp)
  define w3 where "w3 = put_page g (blit (Part 0 buf) (take n content) (phys (machine w2) g)) w2"
  have read: "ReadFile e (of_nat fd) buf (of_nat n) w1 = Some (w3, of_nat (min n (length content)), 0)"
    using w1 tf r st n unfolding ReadFile_def to_int_of_nat[OF fd]
    by (simp add: fd_read_def w2_def[symmetric] w3_def min.commute)
  have l: "length (phys (machine w2) g) = 4096" using user_pageD(2)[OF up] .
  have lb: "length (blit (Part 0 buf) (take n content) (phys (machine w2) g)) = 4096" using l buf(2) by (simp add: blit_def)
  have ph: "phys (machine w3) g = blit (Part 0 buf) (take n content) (phys (machine w2) g)" by (simp add: w3_def put_page_def)
  have "user_bytes (min n (length content)) buf w3 = Some (w3, take (min n (length content)) (drop (Part 0 buf) (phys (machine w3) g)))"
    using user_bytes_page[OF user_page_put[OF up lb, folded w3_def]] buf(2) by simp
  also have "take (min n (length content)) (drop (Part 0 buf) (phys (machine w3) g)) = take n content"
    using l buf(2) unfolding ph by (cases "n \<le> length content") (simp_all add: blit_def)
  finally have bytes: "user_bytes (min n (length content)) buf w3 = Some (w3, take n content)" .
  have c3: "current w3 = Some (t, task1)" "volume w3 = ?v"
    using w1(1,2) by (simp_all add: w3_def w2_def put_page_def set_fd_def current_simps sched_def)
  have "\<forall>k < length (task_files task). k \<noteq> fd \<longrightarrow> task_files task1 ! k = task_files task ! k"
    using o by (simp add: task1_def opens_at_def)
  then show ?thesis using open1 read bytes c3 o unfolding opens_at_def by blast
qed

lemma user_string_page:
  assumes "user_page w a g" and "drop (Part 0 a) (phys (machine w) g) = path @ 0 # rest" and "0 \<notin> set path"
  shows "user_string a w = Some (w, path)"
  using assms
proof (induction path arbitrary: a)
  case Nil
  have "Part 0 a < 4096" using Nil(2) user_pageD(2)[OF Nil(1)] by (metis drop_all append_is_Nil_conv list.distinct(1) not_le)
  then have "phys (machine w) g ! Part 0 a = 0" using Nil(2) user_pageD(2)[OF Nil(1)] by (metis append_Nil hd_drop_conv_nth list.sel(1))
  then show ?case by (subst user_string.simps) (simp add: user_byte_def user_pageD(1)[OF Nil(1)])
next
  case (Cons b path)
  note l = user_pageD[OF Cons.prems(1)]
  have lt: "Part 0 a < 4096" using Cons.prems(2) l(2) by (metis drop_all append_is_Nil_conv list.distinct(1) not_le)
  have hd: "phys (machine w) g ! Part 0 a = b" using Cons.prems(2) l(2) lt by (metis append_Cons hd_drop_conv_nth list.sel(1))
  have tl: "drop (Part 0 a + 1) (phys (machine w) g) = path @ 0 # rest"
    using Cons.prems(2) by (metis Suc_eq_plus1 append_Cons drop_Suc list.sel(3) tl_drop)
  then have lt1: "Part 0 a + 1 < 4096" using l(2) by (metis drop_all append_is_Nil_conv list.distinct(1) not_le)
  have u: "user_page w (a + 1) g" using user_page_next[OF Cons.prems(1), of 1] lt1 by simp
  have n: "Part 0 (a + 1) = Part 0 a + 1" using page_add(1)[of a 1] lt1 by simp
  have "user_string (a + 1) w = Some (w, path)" using Cons.IH[OF u] tl n Cons.prems(3) by simp
  then show ?case using hd Cons.prems(3)
    by (subst user_string.simps) (simp add: user_byte_def l(1))
qed

text \<open>A task with two open descriptors and the path of the file of \<open>shell_volume\<close> in its only page.\<close>

definition sys_world :: World where
  "sys_world = put_page 11 (shell_dest @ 0 # replicate 4083 0)
     (set_sched (empty_TaskManager\<lparr>tasks := [1 \<mapsto> (new_Task 1)\<lparr>task_files := [Some 0, None, Some 0]\<rparr>], run_queue := (\<lambda>_. [1])\<rparr>)
       (shell_world\<lparr>machine := sample_machine\<rparr>))"

definition sys_env :: SysEnv where
  "sys_env = \<lparr>env = shell_env, pektak_font = (\<lambda>_ _. None), fresh_address = (\<lambda>_. 0)\<rparr>"

lemma sys_page: "Part 0 a + 1 \<le> 4096 \<Longrightarrow> unat a div 4096 = 0xFFFF800000000 \<Longrightarrow> user_page sys_world a 11"
proof -
  let ?w = "set_sched (empty_TaskManager\<lparr>tasks := [1 \<mapsto> (new_Task 1)\<lparr>task_files := [Some 0, None, Some 0]\<rparr>], run_queue := (\<lambda>_. [1])\<rparr>)
       (shell_world\<lparr>machine := sample_machine\<rparr>)"
  have l: "length (shell_dest @ 0 # replicate 4083 0) = 4096" by (simp add: shell_dest_def)
  have "user_page ?w 0xFFFF800000000000 11"
    using sample_machine_ok sample_walk[of "[256, 0, 0, 0]" 11] fault_parts(1,4)
    by (simp add: user_page_def set_sched_def translate_def sample_machine_simps user_path_def)
  then have u: "user_page sys_world 0xFFFF800000000000 11" unfolding sys_world_def by (rule user_page_put[OF _ l])
  assume "Part 0 a + 1 \<le> 4096" "unat a div 4096 = 0xFFFF800000000"
  have p0: "Part 0 x = unat x mod 4096" for x :: u64
    by (simp add: Part_def part_bits_def unsigned_take_bit_eq) (simp add: take_bit_eq_mod)
  have "unat a = 0xFFFF800000000000 + unat a mod 4096"
    using \<open>unat a div 4096 = 0xFFFF800000000\<close> div_mult_mod_eq[of "unat a" 4096] by linarith
  then have "(of_nat (unat a) :: u64) = of_nat (0xFFFF800000000000 + unat a mod 4096)" by (rule arg_cong)
  then have "a = 0xFFFF800000000000 + of_nat (unat a mod 4096)" by (simp only: of_nat_add of_nat_numeral, simp)
  then show "user_page sys_world a 11"
    using user_page_next[OF u, of "unat a mod 4096"] p0[of "0xFFFF800000000000"] by simp
qed

lemma shell_file:
  "file_ok shell_volume sample_entry [3, 4]" "file_data shell_volume sample_entry [3, 4] = replicate 64 1 @ replicate 6 2"
proof -
  have b: "bytes_per_cluster shell_volume = 64" by (simp add: bytes_per_cluster_def shell_volume_def sample_files_def sample_volume_def)
  show "file_ok shell_volume sample_entry [3, 4]"
    using b by (simp add: file_ok_def FirstCluster_def sample_entry_def shell_volume_def IsEndOfClusterchain_def)
  show "file_data shell_volume sample_entry [3, 4] = replicate 64 1 @ replicate 6 2"
    by (simp add: file_data_def cluster_data_def shell_volume_def sample_files_def sample_entry_def)
qed

theorem OpenFile_ReadFile_content_witness:
  "\<exists>w1 w2. OpenFile 0xFFFF800000000000 0 sys_world = Some (w1, 1, 0) \<and>
     ReadFile sys_env 1 0xFFFF800000000100 4 w1 = Some (w2, 4, 0) \<and>
     user_bytes 4 0xFFFF800000000100 w2 = Some (w2, [1, 1, 1, 1])"
proof -
  let ?task = "(new_Task 1)\<lparr>task_files := [Some 0, None, Some 0]\<rparr> :: nat Task"
  have cur: "current sys_world = Some (1, ?task)" "volume sys_world = shell_volume"
    by (simp_all add: current_simps sys_world_def put_page_def set_sched_def sched_def CurrentTask_def shell_world_def)
  have p0: "Part 0 x = unat x mod 4096" for x :: u64
    by (simp add: Part_def part_bits_def unsigned_take_bit_eq) (simp add: take_bit_eq_mod)
  have pages: "user_page sys_world 0xFFFF800000000000 11" "user_page sys_world 0xFFFF800000000100 11"
    by (rule sys_page; simp add: p0)+
  have "phys (machine sys_world) 11 = shell_dest @ 0 # replicate 4083 0" by (simp add: sys_world_def put_page_def)
  then have path: "user_string 0xFFFF800000000000 sys_world = Some (sys_world, shell_dest)"
    using user_string_page[OF pages(1), of shell_dest "replicate 4083 0"] by (simp add: p0 shell_dest_def)
  have ns: "shell_dest \<noteq> str ''@stdin''" by (simp add: shell_dest_def str_def)
  note c = shell_file
  have len: "length (file_data shell_volume sample_entry [3, 4]) = 70" "take 4 (file_data shell_volume sample_entry [3, 4]) = [1, 1, 1, 1]"
    unfolding c(2) by (simp_all add: eval_nat_numeral)
  have h: "length (task_files ?task) < 2 ^ 31 - 1" "FindFile (volume sys_world) shell_dest 0 = Some (Some (2, 0), False)"
    "volume_ok (volume sys_world)" "valid_ptr (volume sys_world) (2, 0)"
    "file_ok (volume sys_world) (entry_at (volume sys_world) (2, 0)) [3, 4]" "Part 0 0xFFFF800000000100 + 4 \<le> 4096"
    using shell_volume_find shell_volume_ok(1-3) c(1) unfolding cur(2) by (simp_all add: p0)
  have m: "min 4 (length (file_data shell_volume sample_entry [3, 4])) = 4" using len(1) by simp
  note run = OpenFile_ReadFile_content[OF cur(1) h(1) path ns h(2-5) pages(2) h(6), of 0 sys_env, unfolded cur(2) shell_volume_ok(3) m len(2)]
  obtain w1 w2 fd where r: "OpenFile 0xFFFF800000000000 0 sys_world = Some (w1, of_nat fd, 0)"
    "ReadFile sys_env (of_nat fd) 0xFFFF800000000100 (of_nat 4) w1 = Some (w2, of_nat 4, 0)"
    "user_bytes 4 0xFFFF800000000100 w2 = Some (w2, [1, 1, 1, 1])" "fd \<le> length (task_files ?task)"
    "fd < length (task_files ?task) \<longrightarrow> task_files ?task ! fd = None" "\<forall>k < fd. task_files ?task ! k \<noteq> None"
    using run by blast
  have "fd = 1"
  proof (rule ccontr)
    assume "fd \<noteq> 1"
    then consider "fd = 0" | "1 < fd" by linarith
    then show False using r(5,6) by cases (auto dest: spec[of _ 1])
  qed
  then show ?thesis using r(1-3) by (intro exI[of _ w1] exI[of _ w2]) simp
qed

subsection \<open>Mapped files\<close>

lemma skip_clusters_ok:
  assumes "volume_ok v" and "chain (table v) c cs" and "off div bytes_per_cluster v + i \<le> length cs"
  shows "skip_clusters v (chain_pos cs i) off = Some (chain_pos cs (i + off div bytes_per_cluster v), off mod bytes_per_cluster v)"
  using assms(3)
proof (induction off arbitrary: i rule: less_induct)
  case (less off)
  let ?b = "bytes_per_cluster v"
  have b: "0 < ?b" using assms(1) by (rule volume_bytes_pos)
  show ?case
  proof (cases "?b \<le> off")
    case False
    then show ?thesis by (subst skip_clusters.simps) (use b in simp)
  next
    case True
    have d: "off div ?b = Suc ((off - ?b) div ?b)" "off mod ?b = (off - ?b) mod ?b"
      using True b by (simp_all add: le_div_geq le_mod_geq)
    have i: "i < length cs" using less.prems d(1) by simp
    have "skip_clusters v (chain_pos cs (Suc i)) (off - ?b) =
        Some (chain_pos cs (Suc i + (off - ?b) div ?b), (off - ?b) mod ?b)"
      by (rule less.IH) (use True b less.prems d(1) in simp_all)
    then show ?thesis using True b chain_step(1)[OF assms(1,2) i] d
      by (subst skip_clusters.simps) simp
  qed
qed

lemma fat_Load_ok:
  assumes v: "volume_ok v" and e: "get_entry v (fat_entry fd) = Some e" and f: "file_ok v e cs" and off: "off < unat (file_size e)"
  shows "fat_Load v fd n off = Some (take n (drop off (file_data v e cs)))"
proof -
  let ?b = "bytes_per_cluster v"
  have b: "0 < ?b" using v by (rule volume_bytes_pos)
  have nz: "FirstCluster e \<noteq> 0" using f off by (auto simp: file_ok_def)
  then have ch: "chain (table v) (unat (FirstCluster e)) cs" and cap: "unat (file_size e) \<le> length cs * ?b"
    using f by (auto simp: file_ok_def)
  have q: "off div ?b < length cs" using off cap b by (simp add: div_less_iff_less_mult)
  have h: "unat (FirstCluster e) = chain_pos cs 0" using chain_head[OF ch] by (auto simp: chain_pos_def)
  have sk: "skip_clusters v (unat (FirstCluster e)) off = Some (chain_pos cs (off div ?b), off mod ?b)"
    using skip_clusters_ok[OF v ch, of off 0] q unfolding h by simp
  let ?fd = "(new_FatFD (fat_entry fd))\<lparr>rd_off := off, rd_cluster := chain_pos cs (off div ?b), rd_cluster_off := off mod ?b\<rparr>"
  have nz': "chain_pos cs (off div ?b) \<noteq> 0" using chain_pos_nonzero[OF ch] q by simp
  have "off div ?b * ?b + off mod ?b = off" "off mod ?b < ?b" using b by (simp_all add: div_mult_mod_eq)
  then have "fd_reads v cs ?fd" using v e f off nz' unfolding fd_reads_def new_FatFD_def by auto
  from fat_Read_ok[OF this, of n] have "map_option snd (fat_Read v ?fd n) = Some (take n (fd_rest v cs ?fd))" by auto
  moreover have "fd_rest v cs ?fd = drop off (file_data v e cs)" using e by (simp add: fd_rest_def new_FatFD_def)
  ultimately show ?thesis using e sk by (auto simp: fat_Load_def split: bind_splits)
qed

text \<open>Rounding an address down to its page.\<close>

lemma page_mask: "unat (a AND 0xfffffffffffff000 :: u64) = unat a - unat a mod 4096"
proof -
  have "(0xfffffffffffff000 :: u64) = NOT (mask 12)" by (simp add: mask_eq_exp_minus_1)
  then have "a AND 0xfffffffffffff000 = SetPart 0 0 a" by (simp add: SetPart_def part_bits_def)
  then show ?thesis by (simp add: unat_page_base)
qed

lemma user_Part: "0xFFFF800000000000 \<le> unat a \<Longrightarrow> 256 \<le> Part 4 a"
proof -
  assume "0xFFFF800000000000 \<le> unat a"
  then have "0xFFFF800000000000 div 2 ^ 39 \<le> unat a div 2 ^ 39" by (rule div_le_mono)
  moreover have "unat a < 18446744073709551616" using unsigned_less[of a, where 'a = nat] by simp
  then have "unat a div 2 ^ 39 < 2 ^ 25" by (simp add: div_less_iff_less_mult)
  ultimately have "\<exists>j. unat a div 2 ^ 39 = 256 + j + 512 * 65535 \<and> j < 256" by (intro exI[of _ "unat a div 2 ^ 39 - 33554176"]) simp
  then obtain j where j: "unat a div 2 ^ 39 = 256 + j + 512 * 65535" "j < 256" by blast
  have "Part 4 a = (256 + j + 512 * 65535) mod 512" by (simp only: Part_div[of 4] flip: j(1)) simp
  also have "\<dots> = 256 + j" using j(2) by (simp only: mod_mult_self2) simp
  finally show ?thesis by simp
qed

lemma FindFileMapping_append:
  "(\<forall>m \<in> set ms. a < vaddr_begin m) \<Longrightarrow> FindFileMapping (ms @ [m]) a = (if vaddr_begin m \<le> a \<and> a < vaddr_end m then Some m else None)"
  by (induction ms) auto

text \<open>A page that is not there is brought in by a read.\<close>

lemma fd_load_file: "fd_store w h = Some (FileFd f) \<Longrightarrow> n < 2 ^ 64 \<Longrightarrow> fd_load w h len (int n) = fat_Load (volume w) f len n"
  by (simp add: fd_load_def)

lemma user_byte_mapped:
  assumes sp: "space_ok (machine w)" and cur: "current w = Some (t, task)" and k: "k < unat (file_size en)"
    and fd: "task_file task fd = Some h" "fd_store w h = Some (FileFd f)"
    and vol: "volume_ok (volume w)" "get_entry (volume w) (fat_entry f) = Some en" "file_ok (volume w) en cs"
    and m: "FindFileMapping (file_maps task) (B + k) = Some \<lparr>map_fd = int fd, vaddr_begin = B, vaddr_end = E\<rparr>"
    and B: "4096 dvd B" "0xFFFF800000000000 \<le> B" "B + k < E" "E < 2 ^ 64" "dpaging_end task \<le> B"
    and a: "unat a = B + k" "translate (machine w) a = None"
  shows "(\<exists>w'. user_byte a w = Some (w', file_data (volume w) en cs ! k)) \<or>
    (\<exists>st. HandlePageFault (fd_load w) (sched w) (machine w) 0 a = Some (st, kNoEnoughMemory) \<and> out_of_frames st)"
proof -
  let ?D = "file_data (volume w) en cs" and ?off = "k - k mod 4096"
  have D: "length ?D = unat (file_size en)"
    using vol length_cluster_data[OF vol(1)] by (cases "FirstCluster en = 0") (auto simp: file_data_def file_ok_def)
  have c: "CurrentTask (sched w) = Some t" "tasks (sched w) t = Some task" using cur by (simp_all add: current_simps)
  have am: "unat a mod 4096 = k mod 4096" using B(1) a(1) by (simp add: mod_add_left_eq dvd_imp_mod_0 flip: mod_add_left_eq)
  have p4: "256 \<le> Part 4 a" by (rule user_Part) (use a(1) B(2) in simp)
  have "unat a - unat a mod 4096 = B + k - k mod 4096" unfolding am unfolding a(1) ..
  then have off: "int (unat a - unat a mod 4096 - B) = int ?off" by simp
  have kk: "?off < unat (file_size en)" "?off \<le> k" using k by simp_all
  have load: "fd_load w h 4096 (int (unat a - unat a mod 4096 - B)) = Some (take 4096 (drop ?off ?D))"
  proof -
    have "?off < 2 ^ 64" using B(3,4) kk(2) by linarith
    from fd_load_file[OF fd(2) this] show ?thesis unfolding off using fat_Load_ok[OF vol kk(1)] by simp
  qed
  have dp: "\<not> (dpaging_begin task \<le> unat a \<and> unat a < dpaging_end task)" using B(5) a(1) by simp
  have tf: "int fd < int (length (task_files task))" "task_files task ! nat (int fd) = Some h"
    using fd(1) by (auto simp: task_file_def split: if_splits)
  have far: "E \<le> B + 2 ^ 63" using B(2,4) by simp
  obtain st er where st: "HandlePageFault (fd_load w) (sched w) (machine w) 0 a = Some (st, er)"
    "er = kNoEnoughMemory \<and> out_of_frames st \<or> er = kSuccess \<and> space_ok st \<and> (\<exists>g. translate st a = Some g \<and>
      \<not> used (mm (machine w)) g \<and> phys st g = take 4096 (drop ?off ?D) @ replicate (4096 - length (take 4096 (drop ?off ?D))) 0)"
    using mapped_file_fault_loads_page[OF sp c _ dp p4 m[folded a(1)], of 0 h "fd_load w" "take 4096 (drop ?off ?D)"]
      B(1) far tf load a(2) by auto
  from st(2) show ?thesis
  proof
    assume "er = kNoEnoughMemory \<and> out_of_frames st"
    then show ?thesis using st(1) by blast
  next
    assume "er = kSuccess \<and> space_ok st \<and> (\<exists>g. translate st a = Some g \<and>
      \<not> used (mm (machine w)) g \<and> phys st g = take 4096 (drop ?off ?D) @ replicate (4096 - length (take 4096 (drop ?off ?D))) 0)"
    then obtain g where g: "er = kSuccess" "space_ok st" "translate st a = Some g"
      "phys st g = take 4096 (drop ?off ?D) @ replicate (4096 - length (take 4096 (drop ?off ?D))) 0" by blast
    have f1: "frame_at (machine w) a = None" using frame_at_translate[OF sp p4] a(2) by simp
    have f2: "frame_at st a = Some g" using frame_at_translate[OF g(2) p4] g(3) by simp
    have p0: "Part 0 a = k mod 4096"
      using am by (simp add: Part_def part_bits_def unsigned_take_bit_eq) (simp add: take_bit_eq_mod)
    have r: "k mod 4096 < 4096" "?off + k mod 4096 = k" by simp_all
    then have r2: "k mod 4096 < length (drop ?off ?D)" using k unfolding length_drop D by linarith
    have "phys st g ! Part 0 a = drop ?off ?D ! (k mod 4096)" unfolding g(4) p0 nth_append using r(1) r2 by simp
    also have "\<dots> = ?D ! k" using r2 r(2) by (subst nth_drop) (use D k in simp_all)
    finally have "phys st g ! Part 0 a = ?D ! k" .
    then show ?thesis using st(1) g(1) f1 f2 by (simp add: user_byte_def page_in_def is_error_def)
  qed
qed

text \<open>C36: A mapped file shows the file. Mapping an open file reserves, below all earlier mappings, the smallest whole
  number of pages that hold it, stores its size and leaves the region below it for the next mapping; afterwards
  reading any byte of the region that is not in memory yet, through the page fault, gives the byte of the file at
  that place, or there is no frame left.\<close>

theorem MapFile_shows_file:
  assumes cur: "current w = Some (t, task)" and fd: "task_file task fd = Some h" "fd < 2 ^ 31" "fd_store w h = Some (FileFd f)"
    and vol: "volume_ok (volume w)" "get_entry (volume w) (fat_entry f) = Some en" "file_ok (volume w) en cs"
    and buf: "user_page w arg2 g" "Part 0 arg2 + 8 \<le> 4096"
    and room: "4096 dvd file_map_end task" "file_map_end task < 2 ^ 64" "0xFFFF800000000000 + unat (file_size en) \<le> file_map_end task"
    and earlier: "\<forall>m \<in> set (file_maps task). file_map_end task \<le> vaddr_begin m"
  defines "B \<equiv> (file_map_end task - unat (file_size en)) - (file_map_end task - unat (file_size en)) mod 4096"
  assumes demand: "dpaging_end task \<le> B"
  shows "\<exists>w' task'. MapFile (of_nat fd) arg2 w = Some (w', of_nat B, 0) \<and>
    user_bytes 8 arg2 w' = Some (w', to_bytes 8 (of_nat (unat (file_size en)) :: u64)) \<and>
    4096 dvd B \<and> B + unat (file_size en) \<le> file_map_end task \<and> file_map_end task < B + unat (file_size en) + 4096 \<and>
    (\<forall>b. 256 \<le> Part 4 b \<longrightarrow> translate (machine w') b = translate (machine w) b) \<and>
    current w' = Some (t, task') \<and> file_map_end task' = B \<and> (\<forall>m \<in> set (file_maps task'). B \<le> vaddr_begin m) \<and>
    (\<forall>k < unat (file_size en). translate (machine w') (of_nat (B + k)) = None \<longrightarrow>
      (\<exists>w''. user_byte (of_nat (B + k)) w' = Some (w'', file_data (volume w) en cs ! k)) \<or>
      (\<exists>st. HandlePageFault (fd_load w') (sched w') (machine w') 0 (of_nat (B + k)) = Some (st, kNoEnoughMemory) \<and> out_of_frames st))"
proof -
  let ?E = "file_map_end task"
  define S where "S = unat (file_size en)"
  note S = room(3)[folded S_def] and Bd = B_def[folded S_def]
  let ?bytes = "to_bytes 8 (of_nat S :: u64)"
  have lb: "length ?bytes = 8" by simp
  define w1 where "w1 = put_page g (blit (Part 0 arg2) ?bytes (phys (machine w) g)) w"
  have st: "user_store arg2 ?bytes w = Some w1" unfolding w1_def by (rule user_store_page[OF buf(1)]) (use buf(2) lb in simp)
  have pl: "length (blit (Part 0 arg2) ?bytes (phys (machine w) g)) = 4096"
    using user_pageD(2)[OF buf(1)] buf(2) lb by (simp add: blit_def)
  have up1: "user_page w1 arg2 g" unfolding w1_def by (rule user_page_put[OF buf(1) pl])
  have E: "unat (of_nat ?E :: u64) = ?E" using room(2) by (simp add: unat_of_nat)
  have Su: "unat (of_nat S :: u64) = S" using S room(2) by (simp add: unat_of_nat)
  have d: "unat (of_nat ?E - of_nat S :: u64) = ?E - S"
    using E Su S by (subst unat_sub) (simp_all only: word_le_nat_alt)
  have Bu: "unat ((of_nat ?E - of_nat S :: u64) AND 0xfffffffffffff000) = B" unfolding page_mask d Bd ..
  then have Bw: "(of_nat ?E - of_nat S :: u64) AND 0xfffffffffffff000 = of_nat B"
    unfolding Bu[symmetric] by (simp only: of_nat_unat ucast_id)
  have B: "4096 dvd B" "B + S \<le> ?E" "?E < B + S + 4096" "0xFFFF800000000000 \<le> B"
  proof -
    have m: "B = (?E - S) div 4096 * 4096" unfolding Bd by (rule minus_mod_eq_div_mult)
    show "4096 dvd B" unfolding m by simp
    have "0xFFFF800000000000 div 4096 \<le> (?E - S) div 4096" using S by (intro div_le_mono) simp
    then show "0xFFFF800000000000 \<le> B" unfolding m by simp
    have "(?E - S) mod 4096 < 4096" by simp
    then show "B + S \<le> ?E" "?E < B + S + 4096" using S unfolding Bd by linarith+
  qed
  let ?m = "\<lparr>map_fd = int fd, vaddr_begin = B, vaddr_end = ?E\<rparr>"
  define task' where "task' = task\<lparr>file_map_end := B, file_maps := file_maps task @ [?m]\<rparr>"
  define w' where "w' = set_sched (upd_task t (\<lambda>_. task') (sched w1)) w1"
  have c1: "CurrentTask (sched w) = Some t" "tasks (sched w) t = Some task" using cur by (simp_all add: current_simps)
  have fs: "fd_size w h = Some S" using fd(3) vol(2) by (simp add: fd_size_def fat_Size_def S_def)
  have w1s: "sched w1 = sched w" by (simp add: w1_def put_page_def sched_def)
  have upd: "upd_task t (\<lambda>k. k\<lparr>file_map_end := B, file_maps := file_maps k @ [?m]\<rparr>) (sched w1) = upd_task t (\<lambda>_. task') (sched w1)"
    using c1(2) unfolding w1s by (simp add: upd_task_def task'_def)
  have run: "MapFile (of_nat fd) arg2 w = Some (w', of_nat B, 0)"
    using cur fd(1) fs st upd unfolding MapFile_def to_int_of_nat[OF fd(2)] w'_def by (simp add: Let_def Bw Bu[unfolded Bw] E)
  have w': "machine w' = machine w1" "volume w' = volume w" "fd_store w' = fd_store w" "current w' = Some (t, task')"
    using c1 w1s by (simp_all add: w'_def w1_def put_page_def current_simps set_sched_def sched_def upd_task_def CurrentTask_def)
  have sp: "space_ok (machine w')" using up1 by (simp add: w'(1) user_page_def)
  have "user_page w' arg2 g" using up1 by (simp add: user_page_def w'(1))
  from user_bytes_page[OF this buf(2)] have size: "user_bytes 8 arg2 w' = Some (w', ?bytes)"
    using user_pageD(2)[OF buf(1)] buf(2) lb by (simp add: w'(1)) (simp add: w1_def put_page_def blit_def)
  have tr: "\<forall>b. 256 \<le> Part 4 b \<longrightarrow> translate (machine w') b = translate (machine w) b"
    using write_page(3)[of "machine w" arg2 g, OF _ _ _ pl] buf(1) unfolding w'(1) by (simp add: w1_def put_page_def user_page_def)
  have maps: "\<forall>m \<in> set (file_maps task'). B \<le> vaddr_begin m" using earlier B(2) by (auto simp: task'_def)
  have byte: "(\<exists>w''. user_byte (of_nat (B + k)) w' = Some (w'', file_data (volume w) en cs ! k)) \<or>
      (\<exists>st. HandlePageFault (fd_load w') (sched w') (machine w') 0 (of_nat (B + k)) = Some (st, kNoEnoughMemory) \<and> out_of_frames st)"
    if k: "k < S" and nt: "translate (machine w') (of_nat (B + k)) = None" for k
  proof (rule user_byte_mapped[OF sp w'(4) k[unfolded S_def] _ _ _ _ _ _ B(1) B(4) _ room(2), unfolded w'(2), OF _ _ vol])
    show "task_file task' fd = Some h" using fd(1) by (auto simp: task_file_def task'_def split: if_splits)
    show "fd_store w' h = Some (FileFd f)" using fd(3) w'(3) by simp
    have "\<forall>m \<in> set (file_maps task). B + k < vaddr_begin m" using earlier B(2) k by fastforce
    then show "FindFileMapping (file_maps task') (B + k) = Some ?m"
      using B(2) k FindFileMapping_append[of "file_maps task" "B + k" ?m] by (simp add: task'_def)
    show "B + k < ?E" using B(2) k by simp
    show "dpaging_end task' \<le> B" using demand by (simp add: task'_def)
    show "unat (of_nat (B + k) :: u64) = B + k" using B(2) k room(2) by (simp add: unat_of_nat del: of_nat_add)
  qed (rule nt)
  show ?thesis unfolding S_def[symmetric] using run size B w'(4) maps byte tr by (intro exI[of _ w'] exI[of _ task']) (simp add: task'_def)
qed

text \<open>The task of the example above maps its file; the argument is the second half of its page.\<close>

definition map_world :: World where
  "map_world = put_page 11 (replicate 4096 0) (set_sched (empty_TaskManager\<lparr>tasks := [1 \<mapsto> (new_Task 1)\<lparr>task_files := [Some 0],
     file_map_end := 0xFFFF900000000000\<rparr>], run_queue := (\<lambda>_. [1])\<rparr>)
     (sys_world\<lparr>fd_store := [0 \<mapsto> FileFd (new_FatFD (2, 0))]\<rparr>))"

theorem MapFile_shows_file_witness:
  "\<exists>w'. MapFile 0 0xFFFF800000000100 map_world = Some (w', 0xFFFF8FFFFFFFF000, 0) \<and>
     ((\<exists>w''. user_byte 0xFFFF8FFFFFFFF041 w' = Some (w'', 2)) \<or>
      (\<exists>st. HandlePageFault (fd_load w') (sched w') (machine w') 0 0xFFFF8FFFFFFFF041 = Some (st, kNoEnoughMemory) \<and> out_of_frames st))"
proof -
  let ?task = "(new_Task 1)\<lparr>task_files := [Some 0], file_map_end := 0xFFFF900000000000\<rparr> :: nat Task"
  have p0: "Part 0 x = unat x mod 4096" for x :: u64
    by (simp add: Part_def part_bits_def unsigned_take_bit_eq) (simp add: take_bit_eq_mod)
  have cur: "current map_world = Some (1, ?task)" "volume map_world = shell_volume"
      "fd_store map_world 0 = Some (FileFd (new_FatFD (2, 0)))"
    by (simp_all add: current_simps map_world_def sys_world_def put_page_def set_sched_def sched_def CurrentTask_def shell_world_def)
  have "user_page sys_world 0xFFFF800000000100 11" by (rule sys_page) (simp_all add: p0)
  then have "user_page (set_sched (empty_TaskManager\<lparr>tasks := [1 \<mapsto> ?task], run_queue := (\<lambda>_. [1])\<rparr>)
     (sys_world\<lparr>fd_store := [0 \<mapsto> FileFd (new_FatFD (2, 0))]\<rparr>)) 0xFFFF800000000100 11"
    by (simp add: user_page_def set_sched_def)
  from user_page_put[OF this, of "replicate 4096 0"] have buf: "user_page map_world 0xFFFF800000000100 11"
    unfolding map_world_def by simp
  have vol: "volume_ok (volume map_world)" "get_entry (volume map_world) (fat_entry (new_FatFD (2, 0))) = Some sample_entry"
    "file_ok (volume map_world) sample_entry [3, 4]"
    using shell_volume_ok(1) get_entry_at[OF shell_volume_ok(1,2)] shell_volume_ok(3) shell_file(1)
    unfolding cur(2) by (simp_all add: new_FatFD_def)
  have S: "unat (file_size sample_entry) = 70" by (simp add: sample_entry_def)
  have tf: "task_file ?task 0 = Some 0" by (simp add: task_file_def)
  have em: "file_map_end ?task = 0xFFFF900000000000" "file_maps ?task = []" "dpaging_end ?task = 0" by (simp_all add: new_Task_def)
  obtain w' where w': "MapFile (of_nat 0) 0xFFFF800000000100 map_world = Some (w', of_nat 0xFFFF8FFFFFFFF000, 0)"
    "\<forall>b. 256 \<le> Part 4 b \<longrightarrow> translate (machine w') b = translate (machine map_world) b"
    "\<forall>k < 70. translate (machine w') (of_nat (0xFFFF8FFFFFFFF000 + k)) = None \<longrightarrow>
      (\<exists>w''. user_byte (of_nat (0xFFFF8FFFFFFFF000 + k)) w' = Some (w'', file_data (volume map_world) sample_entry [3, 4] ! k)) \<or>
      (\<exists>st. HandlePageFault (fd_load w') (sched w') (machine w') 0 (of_nat (0xFFFF8FFFFFFFF000 + k)) = Some (st, kNoEnoughMemory) \<and> out_of_frames st)"
    using MapFile_shows_file[OF cur(1) tf _ cur(3) vol buf] unfolding em S by (simp add: p0) blast
  have ix: "indices 0xFFFF8FFFFFFFF041 = [287, 511, 511, 511]" by (simp add: indices_def Part_div)
  have p4: "256 \<le> Part 4 0xFFFF8FFFFFFFF041" by (simp add: Part_div)
  have put: "translate (machine (put_page 11 page v)) 0xFFFF8FFFFFFFF041 = translate (machine v) 0xFFFF8FFFFFFFF041"
    if "user_page v a 11" "length page = 4096" for v a page
    using write_page(3)[of "machine v" a 11 page, OF _ _ _ that(2) p4] that(1) by (simp add: put_page_def user_page_def)
  have "translate sample_machine 0xFFFF8FFFFFFFF041 = None"
  proof (cases "translate sample_machine 0xFFFF8FFFFFFFF041")
    case (Some f)
    then show ?thesis using sample_walk[of "[287, 511, 511, 511]" f] by (simp add: translate_def ix sample_machine_simps user_path_def)
  qed simp
  moreover have "machine map_world = machine (put_page 11 (replicate 4096 0) sys_world)"
    by (simp add: map_world_def put_page_def set_sched_def)
  moreover have "machine sys_world = machine (put_page 11 (shell_dest @ 0 # replicate 4083 0) (shell_world\<lparr>machine := sample_machine\<rparr>))"
    by (simp add: sys_world_def put_page_def set_sched_def)
  moreover have "user_page (shell_world\<lparr>machine := sample_machine\<rparr>) 0xFFFF800000000000 11"
    using sample_machine_ok sample_walk[of "[256, 0, 0, 0]" 11] fault_parts(1,4)
    by (simp add: user_page_def translate_def sample_machine_simps user_path_def)
  moreover have "user_page sys_world 0xFFFF800000000100 11" by (rule sys_page) (simp_all add: p0)
  ultimately have "translate (machine map_world) 0xFFFF8FFFFFFFF041 = None"
    using put[of "shell_world\<lparr>machine := sample_machine\<rparr>" _ "shell_dest @ 0 # replicate 4083 0"] put[of sys_world _ "replicate 4096 0"]
    by (simp add: shell_dest_def)
  then have nt: "translate (machine w') (of_nat (0xFFFF8FFFFFFFF000 + 65)) = None" using w'(2) p4 by simp
  have D: "file_data (volume map_world) sample_entry [3, 4] ! 65 = 2" unfolding cur(2) shell_file(2) by (simp add: nth_append)
  have "(\<exists>w''. user_byte (of_nat (0xFFFF8FFFFFFFF000 + 65)) w' = Some (w'', 2)) \<or>
      (\<exists>st. HandlePageFault (fd_load w') (sched w') (machine w') 0 (of_nat (0xFFFF8FFFFFFFF000 + 65)) = Some (st, kNoEnoughMemory) \<and> out_of_frames st)"
    using w'(3)[rule_format, of 65] nt unfolding D by simp
  then show ?thesis using w'(1) by (intro exI[of _ w']) simp
qed

end
