(* ===== verification/Acpi.thy ===== *)
theory Acpi
  imports Timer Shell
begin

text \<open>
  The ACPI tables and the power management timer: \<^verbatim>\<open>kernel/acpi.cpp\<close>, \<^verbatim>\<open>kernel/acpi.hpp\<close>. \<open>mem\<close> is the memory of the
  machine by address, \<open>io k\<close> the value of the \<open>k\<close>-th read of the timer port.
\<close>

subsection \<open>Tables\<close>

definition load_bytes :: "(u64 \<Rightarrow> u8) \<Rightarrow> u64 \<Rightarrow> nat \<Rightarrow> u8 list" where
  "load_bytes mem a n = map (\<lambda>i. mem (a + of_nat i)) [0..<n]"

record RSDP =
  rsdp_signature :: "u8 list"
  rsdp_revision :: u8
  xsdt_address :: u64

definition load_RSDP :: "(u64 \<Rightarrow> u8) \<Rightarrow> u64 \<Rightarrow> RSDP" where
  "load_RSDP mem a = \<lparr>rsdp_signature = load_bytes mem a 8, rsdp_revision = mem (a + 15),
     xsdt_address = of_bytes (load_bytes mem (a + 24) 8)\<rparr>"

record DescriptionHeader =
  dh_signature :: "u8 list"
  dh_length :: u32

definition sizeof_DescriptionHeader :: u64 where "sizeof_DescriptionHeader = 36"

definition load_DescriptionHeader :: "(u64 \<Rightarrow> u8) \<Rightarrow> u64 \<Rightarrow> DescriptionHeader" where
  "load_DescriptionHeader mem a = \<lparr>dh_signature = load_bytes mem a 4, dh_length = of_bytes (load_bytes mem (a + 4) 4)\<rparr>"

record FADT =
  pm_tmr_blk :: u32
  fadt_flags :: u32

definition load_FADT :: "(u64 \<Rightarrow> u8) \<Rightarrow> u64 \<Rightarrow> FADT" where
  "load_FADT mem a = \<lparr>pm_tmr_blk = of_bytes (load_bytes mem (a + 76) 4), fadt_flags = of_bytes (load_bytes mem (a + 112) 4)\<rparr>"

definition SumBytes :: "(u64 \<Rightarrow> u8) \<Rightarrow> u64 \<Rightarrow> nat \<Rightarrow> u8" where
  "SumBytes mem data bytes = foldl (+) 0 (load_bytes mem data bytes)"

text \<open>The signatures compared have no zero byte, so \<open>strncmp\<close> is a comparison of all bytes.\<close>

definition RSDP_IsValid :: "(u64 \<Rightarrow> u8) \<Rightarrow> u64 \<Rightarrow> bool" where
  "RSDP_IsValid mem a =
     (if rsdp_signature (load_RSDP mem a) \<noteq> str ''RSD PTR '' then False
      else if rsdp_revision (load_RSDP mem a) \<noteq> 2 then False
      else if SumBytes mem a 20 \<noteq> 0 then False
      else if SumBytes mem a 36 \<noteq> 0 then False
      else True)"

definition Header_IsValid :: "(u64 \<Rightarrow> u8) \<Rightarrow> u8 list \<Rightarrow> u64 \<Rightarrow> bool" where
  "Header_IsValid mem expected_signature a =
     (let h = load_DescriptionHeader mem a
      in if dh_signature h \<noteq> expected_signature then False
         else if SumBytes mem a (unat (dh_length h)) \<noteq> 0 then False
         else True)"

definition XSDT_at :: "(u64 \<Rightarrow> u8) \<Rightarrow> u64 \<Rightarrow> nat \<Rightarrow> u64" where
  "XSDT_at mem xsdt i = of_bytes (load_bytes mem (xsdt + sizeof_DescriptionHeader + 8 * of_nat i) 8)"

definition XSDT_Count :: "(u64 \<Rightarrow> u8) \<Rightarrow> u64 \<Rightarrow> u64" where
  "XSDT_Count mem xsdt = (ucast (dh_length (load_DescriptionHeader mem xsdt)) - sizeof_DescriptionHeader) div 8"

text \<open>The loop of \<open>Initialize\<close>, with \<open>n\<close> entries left; its counter is an \<open>int\<close>, which must not overflow.\<close>

fun find_FADT :: "(u64 \<Rightarrow> u8) \<Rightarrow> u64 \<Rightarrow> nat \<Rightarrow> nat \<Rightarrow> u64 option option" where
  "find_FADT mem xsdt i 0 = Some None"
| "find_FADT mem xsdt i (Suc n) =
     (if 2 ^ 31 \<le> i then None
      else let entry = XSDT_at mem xsdt i
      in if Header_IsValid mem (str ''FACP'') entry then Some (Some entry) else find_FADT mem xsdt (Suc i) n)"

text \<open>\<open>Inl\<close> is the message of the log before \<open>exit(1)\<close>.\<close>

definition Acpi_Initialize :: "(u64 \<Rightarrow> u8) \<Rightarrow> u64 \<Rightarrow> (string + u64) option" where
  "Acpi_Initialize mem rsdp =
     (if \<not> RSDP_IsValid mem rsdp then Some (Inl ''RSDP is not valid'')
      else let xsdt = xsdt_address (load_RSDP mem rsdp)
      in if \<not> Header_IsValid mem (str ''XSDT'') xsdt then Some (Inl ''XSDT is not valid'')
         else do {
           fadt \<leftarrow> find_FADT mem xsdt 0 (unat (XSDT_Count mem xsdt));
           Some (case fadt of None \<Rightarrow> Inl ''FADT is not found'' | Some a \<Rightarrow> Inr a) })"

subsection \<open>The timer\<close>

definition kPMTimerFreq :: u64 where "kPMTimerFreq = 3579545"

text \<open>A loop that reads the port while the value is in the way; the result is the number of the next read.\<close>

partial_function (option) read_while :: "(u32 \<Rightarrow> bool) \<Rightarrow> (nat \<Rightarrow> u32) \<Rightarrow> nat \<Rightarrow> nat option" where
  "read_while c io k = (if c (io k) then read_while c io (Suc k) else Some (Suc k))"

definition WaitMilliseconds :: "FADT \<Rightarrow> (nat \<Rightarrow> u32) \<Rightarrow> u64 \<Rightarrow> nat option" where
  "WaitMilliseconds fadt io msec = do {
     let pm_timer_32 = bit (fadt_flags fadt) 8;
     let start_value = io 0;
     let end0 = (ucast (ucast start_value + kPMTimerFreq * msec div 1000) :: u32);
     let end_value = (if pm_timer_32 then end0 else end0 AND 0x00ffffff);
     k \<leftarrow> (if end_value < start_value then read_while (\<lambda>v. start_value \<le> v) io 1 else Some 1);
     read_while (\<lambda>v. v < end_value) io k }"

subsection \<open>Finding the table\<close>

lemma find_FADT_find:
  "i + n \<le> 2 ^ 31 \<Longrightarrow> find_FADT mem xsdt i n = Some (find (Header_IsValid mem (str ''FACP'')) (map (XSDT_at mem xsdt) [i..<i + n]))"
proof (induction n arbitrary: i)
  case (Suc n)
  have "[i..<i + Suc n] = i # [Suc i..<Suc i + n]" by (simp add: upt_conv_Cons del: upt_Suc)
  then show ?case using Suc by (simp add: Let_def del: upt_Suc)
qed simp

lemma XSDT_Count_entries:
  assumes "36 \<le> unat (dh_length (load_DescriptionHeader mem xsdt))"
  shows "unat (XSDT_Count mem xsdt) = (unat (dh_length (load_DescriptionHeader mem xsdt)) - 36) div 8"
proof -
  let ?l = "dh_length (load_DescriptionHeader mem xsdt)"
  have u: "unat (ucast ?l :: u64) = unat ?l" by (rule unat_ucast_up) simp
  have "unat ((ucast ?l :: u64) - 36) = unat ?l - 36" using assms u by (simp add: unat_sub_if')
  then show ?thesis by (simp add: XSDT_Count_def sizeof_DescriptionHeader_def unat_div_distrib)
qed

text \<open>The start up takes the first valid FADT of the table, and nothing if a check sum is wrong.\<close>

lemma Acpi_Initialize_finds:
  assumes "RSDP_IsValid mem rsdp" and "x = xsdt_address (load_RSDP mem rsdp)" and "Header_IsValid mem (str ''XSDT'') x"
    and "l = unat (dh_length (load_DescriptionHeader mem x))" and "36 \<le> l"
  shows "Acpi_Initialize mem rsdp = Some (case find (Header_IsValid mem (str ''FACP'')) (map (XSDT_at mem x) [0..<(l - 36) div 8]) of
    None \<Rightarrow> Inl ''FADT is not found'' | Some a \<Rightarrow> Inr a)"
proof -
  have n: "unat (XSDT_Count mem x) = (l - 36) div 8" using XSDT_Count_entries assms(4,5) by simp
  have "l < 2 ^ 32" unfolding assms(4) using unsigned_less[of "dh_length (load_DescriptionHeader mem x)", where 'a = nat] by simp
  then have "0 + (l - 36) div 8 \<le> 2 ^ 31" by simp
  from find_FADT_find[OF this] show ?thesis
    using assms(1-3) n by (simp add: Acpi_Initialize_def Let_def)
qed

subsection \<open>Waiting\<close>

text \<open>The counter at the \<open>k\<close>-th read: \<open>at k\<close> ticks have passed, and the reads are less than \<open>slack\<close> ticks apart.\<close>

definition counts :: "(nat \<Rightarrow> nat) \<Rightarrow> nat \<Rightarrow> bool" where
  "counts at slack \<longleftrightarrow> (\<forall>k. at k \<le> at (Suc k) \<and> at (Suc k) < at k + slack) \<and> (\<forall>m. \<exists>k. m \<le> at k)"

lemma counts_mono: "counts at slack \<Longrightarrow> j \<le> k \<Longrightarrow> at j \<le> at k"
  by (metis counts_def lift_Suc_mono_le)

lemma read_while_steps:
  "(\<forall>i. k \<le> i \<and> i < k + n \<longrightarrow> c (io i)) \<Longrightarrow> \<not> c (io (k + n)) \<Longrightarrow> read_while c io k = Some (Suc (k + n))"
proof (induction n arbitrary: k)
  case 0
  then show ?case by (subst read_while.simps) simp
next
  case (Suc n)
  have "read_while c io (Suc k) = Some (Suc (Suc k + n))" using Suc.prems by (intro Suc.IH) auto
  then show ?case using Suc.prems(1) by (subst read_while.simps) simp
qed

lemma read_while_until:
  assumes cnt: "counts at slack" and before: "\<forall>j \<ge> k. at j < T \<longrightarrow> c (io j)"
    and after: "\<forall>j \<ge> k. T \<le> at j \<longrightarrow> at j < T + d \<longrightarrow> \<not> c (io j)" and start: "at k < T + d" "slack \<le> d"
  shows "\<exists>n > k. read_while c io k = Some n \<and> T \<le> at (n - 1) \<and> at (n - 1) < T + d"
proof -
  define j where "j = (LEAST j. k \<le> j \<and> T \<le> at j)"
  obtain m where "T \<le> at m" using cnt by (auto simp: counts_def)
  then have "k \<le> max k m \<and> T \<le> at (max k m)" using counts_mono[OF cnt, of m "max k m"] by simp
  then have j: "k \<le> j \<and> T \<le> at j" unfolding j_def by (rule LeastI)
  have less: "at i < T" if "k \<le> i" "i < j" for i
    using not_less_Least[of i "\<lambda>j. k \<le> j \<and> T \<le> at j"] that by (auto simp: j_def)
  have up: "at j < T + d"
  proof (cases "j = k")
    case False
    then obtain i where i: "j = Suc i" "k \<le> i" using j by (cases j) auto
    have "at (Suc i) < at i + slack" using cnt by (simp add: counts_def)
    then show ?thesis using less[of i] i start(2) by simp
  qed (use start in simp)
  have "read_while c io k = Some (Suc (k + (j - k)))"
    by (rule read_while_steps) (use before after j up less in auto)
  then show ?thesis using j up by (intro exI[of _ "Suc j"]) simp
qed

lemma mod_window:
  fixes B :: nat
  assumes "B mod M = 0" and "B \<le> t" and "t < B + M"
  shows "t mod M = t - B"
proof -
  obtain q where "B = M * q" using assms(1) by (auto simp: mod_eq_0_iff_dvd dvd_def)
  then have "t = (t - B) + M * q" "t - B < M" using assms(2,3) by linarith+
  then show ?thesis by (metis mod_mult_self2 mod_less)
qed

definition timer_period :: "FADT \<Rightarrow> nat" where
  "timer_period fadt = (if bit (fadt_flags fadt) 8 then 2 ^ 32 else 2 ^ 24)"

definition wait_ticks :: "u64 \<Rightarrow> nat" where
  "wait_ticks msec = 3579545 * unat msec div 1000"

text \<open>The end of the wait, reduced to the width of the counter.\<close>

lemma wait_end:
  fixes s :: u32
  assumes "unat s < timer_period fadt" and "wait_ticks msec < 2 ^ 32"
  shows "unat (let e = (ucast (ucast s + kPMTimerFreq * msec div 1000) :: u32)
      in if bit (fadt_flags fadt) 8 then e else e AND 0x00ffffff) = (unat s + wait_ticks msec) mod timer_period fadt"
proof -
  have "3579545 * unat msec < 2 ^ 32 * 1000"
    using assms(2) unfolding wait_ticks_def by linarith
  then have "unat (kPMTimerFreq * msec) = 3579545 * unat msec"
    by (simp add: kPMTimerFreq_def unat_mult_lem[THEN iffD1])
  then have n: "unat (kPMTimerFreq * msec div 1000) = wait_ticks msec"
    by (simp add: unat_div_distrib wait_ticks_def)
  have u: "unat (ucast s :: u64) = unat s" by (rule unat_ucast_up) simp
  have s: "unat s < 2 ^ 32" using unsigned_less[of s, where 'a = nat] by simp
  have "unat ((ucast s :: u64) + kPMTimerFreq * msec div 1000) = unat s + wait_ticks msec"
    using n u s assms(2) by (simp add: unat_word_ariths)
  then have e: "unat (ucast (ucast s + kPMTimerFreq * msec div 1000) :: u32) = (unat s + wait_ticks msec) mod 2 ^ 32"
    by (simp add: unsigned_ucast_eq take_bit_eq_mod)
  have m: "unat (x AND 0x00ffffff) = unat x mod 2 ^ 24" for x :: u32
  proof -
    have "x AND 0x00ffffff = take_bit 24 x" unfolding take_bit_eq_mask by (simp add: mask_eq_exp_minus_1)
    then show ?thesis by (simp only: unsigned_take_bit_eq) (simp add: take_bit_eq_mod)
  qed
  have "(unat s + wait_ticks msec) mod 2 ^ 32 mod 2 ^ 24 = (unat s + wait_ticks msec) mod 2 ^ 24"
    by (rule mod_mod_cancel) (simp add: le_imp_power_dvd)
  then show ?thesis using e m by (simp add: timer_period_def Let_def)
qed

text \<open>Within a turn of the counter that began at \<open>B\<close> the reads find the time \<open>T\<close>.\<close>

lemma reads_until_value:
  fixes e :: u32
  assumes cnt: "counts at slack" and val: "\<And>j. B \<le> at j \<Longrightarrow> at j < B + M \<Longrightarrow> unat (io j) = at j - B"
    and k: "B \<le> at k" "at k < T + 2 * slack" and T: "unat e = T - B" "B \<le> T" "T + 2 * slack \<le> B + M"
  shows "\<exists>n > k. read_while (\<lambda>v. v < e) io k = Some n \<and> T \<le> at (n - 1) \<and> at (n - 1) < T + 2 * slack"
proof (rule read_while_until[OF cnt])
  have low: "B \<le> at j" if "k \<le> j" for j using counts_mono[OF cnt that] k(1) by simp
  show "\<forall>j\<ge>k. at j < T \<longrightarrow> io j < e"
  proof (intro allI impI)
    fix j assume j: "k \<le> j" "at j < T"
    then show "io j < e" using val[OF low[OF j(1)]] low[OF j(1)] T by (simp add: word_less_nat_alt)
  qed
  show "\<forall>j\<ge>k. T \<le> at j \<longrightarrow> at j < T + 2 * slack \<longrightarrow> \<not> io j < e"
    using val[OF low] T by (auto simp: word_less_nat_alt)
qed (use k in simp_all)

text \<open>A read of a smaller value than the first one is a read in the next turn.\<close>

lemma reads_until_wrap:
  fixes io :: "nat \<Rightarrow> u32"
  assumes cnt: "counts at slack" and val: "\<And>j. B \<le> at j \<Longrightarrow> at j < B + M \<Longrightarrow> unat (io j) = at j - B"
    and val2: "\<And>j. B + M \<le> at j \<Longrightarrow> at j < B + M + M \<Longrightarrow> unat (io j) = at j - (B + M)"
    and start: "B \<le> at 0" "at 0 < B + M" "slack \<le> at 0 - B"
  shows "\<exists>n > 1. read_while (\<lambda>v. io 0 \<le> v) io 1 = Some n \<and> B + M \<le> at (n - 1) \<and> at (n - 1) < B + M + slack"
proof (rule read_while_until[OF cnt])
  have i0: "unat (io 0) = at 0 - B" using val[OF start(1,2)] .
  have ge: "at 0 \<le> at j" for j using counts_mono[OF cnt, of 0 j] by simp
  show "\<forall>j\<ge>1. at j < B + M \<longrightarrow> io 0 \<le> io j"
  proof (intro allI impI)
    fix j assume "at j < B + M"
    then show "io 0 \<le> io j" using val[of j] i0 ge[of j] start(1) by (simp add: word_le_nat_alt)
  qed
  show "\<forall>j\<ge>1. B + M \<le> at j \<longrightarrow> at j < B + M + slack \<longrightarrow> \<not> io 0 \<le> io j"
    using val2 i0 start by (auto simp: word_le_nat_alt)
  have "at 1 < at 0 + slack" using cnt by (simp add: counts_def)
  then show "at 1 < B + M + slack" using start(2) by simp
qed simp

text \<open>C39: A wait of less than a turn of the counter is long enough, and no longer than it should. If the counter of the hardware counts \<open>at k\<close> ticks up to the
  \<open>k\<close>-th read, modulo its width of 24 or 32 bits, and reads are less than \<open>slack\<close> ticks apart, then
  \<open>WaitMilliseconds\<close> returns, at least the demanded number of ticks after it started and less than \<open>2 * slack\<close>
  later, also when the counter wraps in between. Excluded is an end among the last \<open>2 * slack\<close> values of the
  counter, which a read can miss, and a time longer than a turn of the counter.\<close>

theorem WaitMilliseconds_waits:
  assumes cnt: "counts at slack" and io: "\<forall>k. unat (io k) = at k mod timer_period fadt"
    and N: "wait_ticks msec + 2 * slack \<le> timer_period fadt"
    and last: "at 0 mod timer_period fadt + wait_ticks msec + 2 * slack \<le> timer_period fadt \<or>
      timer_period fadt \<le> at 0 mod timer_period fadt + wait_ticks msec"
  shows "\<exists>n. WaitMilliseconds fadt io msec = Some n \<and> at 0 + wait_ticks msec \<le> at (n - 1) \<and>
    at (n - 1) < at 0 + wait_ticks msec + 2 * slack"
proof -
  let ?M = "timer_period fadt" and ?N = "wait_ticks msec"
  define s B where "s = at 0 mod ?M" and "B = at 0 div ?M * ?M"
  define e where "e = (let e = (ucast (ucast (io 0) + kPMTimerFreq * msec div 1000) :: u32)
      in if bit (fadt_flags fadt) 8 then e else e AND 0x00ffffff)"
  have M: "0 < ?M" "?M \<le> 2 ^ 32" by (simp_all add: timer_period_def)
  have slack: "0 < slack" "at 0 \<le> at 1" "at 1 < at 0 + slack" using cnt unfolding counts_def by (metis One_nat_def add_0_right le_less_trans less_irrefl neq0_conv)+
  have sB: "at 0 = B + s" "s < ?M" "B mod ?M = 0" "B \<le> at 0"
    using M by (simp_all add: s_def B_def)
  have val: "unat (io j) = at j - B" if "B \<le> at j" "at j < B + ?M" for j
    using io mod_window[OF sB(3) that] by simp
  have val2: "unat (io j) = at j - (B + ?M)" if "B + ?M \<le> at j" "at j < B + ?M + ?M" for j
    using io mod_window[of "B + ?M" ?M "at j"] sB(3) that by simp
  have i0: "unat (io 0) = s" using val[of 0] sB by simp
  have eM: "unat e = (s + ?N) mod ?M"
    unfolding e_def using wait_end[of "io 0" fadt msec] i0 sB(2) N slack(1) M(2) by simp
  have W: "WaitMilliseconds fadt io msec =
      Option.bind (if e < io 0 then read_while (\<lambda>v. io 0 \<le> v) io 1 else Some 1) (read_while (\<lambda>v. v < e) io)"
    by (simp add: WaitMilliseconds_def Let_def e_def)
  show ?thesis
  proof (cases "?M \<le> s + ?N")
    case False
    then have lim: "s + ?N + 2 * slack \<le> ?M" using last by (simp add: s_def)
    then have e: "unat e = s + ?N" using eM slack(1) by simp
    have "\<not> e < io 0" using e i0 by (simp add: word_less_nat_alt)
    then show ?thesis
      using reads_until_value[where M = ?M and k = 1 and T = "at 0 + ?N" and e = e, OF cnt val] W slack e lim sB by auto
  next
    case True
    then have e: "unat e = s + ?N - ?M" using eM sB(2) N mod_window[of ?M ?M "s + ?N"] slack(1) by simp
    have lim: "s + ?N - ?M + 2 * slack \<le> s" "s + ?N - ?M < s" using True N slack(1) by simp_all
    then have less: "e < io 0" using e i0 by (simp add: word_less_nat_alt)
    obtain n where n: "1 < n" "read_while (\<lambda>v. io 0 \<le> v) io 1 = Some n" "B + ?M \<le> at (n - 1)" "at (n - 1) < B + ?M + slack"
      using reads_until_wrap[where M = ?M, OF cnt val val2] sB lim by auto
    have after_n: "at (n - 1) \<le> at n" "at n < at (n - 1) + slack" using cnt n(1) unfolding counts_def by (metis Suc_diff_1 less_trans zero_less_one)+
    have T: "at 0 + ?N = B + ?M + unat e" using e True sB(1) by simp
    then show ?thesis
      using reads_until_value[where M = ?M and k = n and T = "at 0 + ?N" and e = e, OF cnt val2] W less n after_n lim e sB(2) by auto
  qed
qed

text \<open>Example: a 24 bit counter that starts 4 ticks before its end, read every tick; a wait of one millisecond.\<close>

theorem WaitMilliseconds_waits_witness:
  "\<exists>n. WaitMilliseconds \<lparr>pm_tmr_blk = 0, fadt_flags = 0\<rparr> (\<lambda>k. of_nat ((2 ^ 24 - 4 + k) mod 2 ^ 24)) 1 = Some n \<and>
     2 ^ 24 - 4 + 3579 \<le> 2 ^ 24 - 4 + (n - 1)"
proof -
  let ?at = "\<lambda>k. 2 ^ 24 - 4 + k :: nat" and ?f = "\<lparr>pm_tmr_blk = 0, fadt_flags = 0\<rparr>"
  have p: "timer_period ?f = 2 ^ 24" "wait_ticks 1 = 3579" by (simp_all add: timer_period_def wait_ticks_def)
  have "\<exists>k. m \<le> ?at k" for m by (rule exI[of _ m]) simp
  then have c: "counts ?at 2" by (simp add: counts_def)
  have io: "\<forall>k. unat (of_nat (?at k mod 2 ^ 24) :: u32) = ?at k mod timer_period ?f"
    unfolding p by (simp add: unat_of_nat)
  show ?thesis
    using WaitMilliseconds_waits[OF c io, of 1] unfolding p by auto
qed

end
