(* ===== verification/Cpu.thy ===== *)
theory Cpu
  imports Bits Shell PageFault
begin

text \<open>
  Segments and interrupts: \<^verbatim>\<open>kernel/segment.cpp\<close>, \<^verbatim>\<open>kernel/interrupt.cpp\<close>, \<^verbatim>\<open>kernel/x86_descriptor.hpp\<close>. The
  descriptor tables are lists; loading them into the processor is an instruction and not modelled. An interrupt handler
  returns, leaves the application, or halts with its last picture on the screen.
\<close>

subsection \<open>Segments\<close>

definition kTSSAvailable :: u64 where "kTSSAvailable = 9"
definition kInterruptGate :: u64 where "kInterruptGate = 14"
definition kReadWrite :: u64 where "kReadWrite = 2"
definition kExecuteRead :: u64 where "kExecuteRead = 10"

text \<open>A descriptor is its 64 bits; the fields have the offsets of the bit fields of \<open>SegmentDescriptor\<close>.\<close>

definition SetCodeSegment :: "u64 \<Rightarrow> u64 \<Rightarrow> u32 \<Rightarrow> u32 \<Rightarrow> u64" where
  "SetCodeSegment type descriptor_privilege_level base limit =
     (let d1 = set_field 16 16 (ucast (base AND 0xffff)) 0;
          d2 = set_field 32 8 (ucast (drop_bit 16 base AND 0xff)) d1;
          d3 = set_field 56 8 (ucast (drop_bit 24 base AND 0xff)) d2;
          d4 = set_field 0 16 (ucast (limit AND 0xffff)) d3;
          d5 = set_field 48 4 (ucast (drop_bit 16 limit AND 0xf)) d4;
          d6 = set_field 40 4 type d5;
          d7 = set_field 44 1 1 d6;
          d8 = set_field 45 2 descriptor_privilege_level d7;
          d9 = set_field 47 1 1 d8;
          d10 = set_field 52 1 0 d9;
          d11 = set_field 53 1 1 d10;
          d12 = set_field 54 1 0 d11
      in set_field 55 1 1 d12)"

definition SetDataSegment :: "u64 \<Rightarrow> u64 \<Rightarrow> u32 \<Rightarrow> u32 \<Rightarrow> u64" where
  "SetDataSegment type descriptor_privilege_level base limit =
     set_field 54 1 1 (set_field 53 1 0 (SetCodeSegment type descriptor_privilege_level base limit))"

definition SetSystemSegment :: "u64 \<Rightarrow> u64 \<Rightarrow> u32 \<Rightarrow> u32 \<Rightarrow> u64" where
  "SetSystemSegment type descriptor_privilege_level base limit =
     set_field 53 1 0 (set_field 44 1 0 (SetCodeSegment type descriptor_privilege_level base limit))"

definition SetupSegments :: "u64 list \<Rightarrow> u64 list" where
  "SetupSegments gdt = gdt[0 := 0, 1 := SetCodeSegment kExecuteRead 0 0 0xfffff, 2 := SetDataSegment kReadWrite 0 0 0xfffff,
     3 := SetDataSegment kReadWrite 3 0 0xfffff, 4 := SetCodeSegment kExecuteRead 3 0 0xfffff]"

definition kTSS :: nat where "kTSS = 40"
definition kISTForTimer :: nat where "kISTForTimer = 1"

definition SetTSS :: "nat \<Rightarrow> u64 \<Rightarrow> u32 list \<Rightarrow> u32 list option" where
  "SetTSS index v tss = (if length tss \<le> index + 1 then None
     else Some (tss[index := ucast (v AND 0xffffffff), index + 1 := ucast (drop_bit 32 v)]))"

text \<open>\<open>Inl\<close> is the error of the log before \<open>exit(1)\<close>.\<close>

definition AllocateStackArea :: "nat \<Rightarrow> BitmapMemoryManager \<Rightarrow> (BitmapMemoryManager \<times> (Error_Code + u64)) option" where
  "AllocateStackArea num_4kframes m = do {
     (m', stk, err) \<leftarrow> Allocate m num_4kframes;
     Some (m', if is_error err then Inl err else Inr (of_nat (stk * kBytesPerFrame) + of_nat (num_4kframes * 4096))) }"

record CpuTables =
  cpu_mm :: BitmapMemoryManager
  gdt :: "u64 list"
  tss :: "u32 list"

text \<open>\<open>tss_addr\<close> is the address of the array \<open>tss\<close>. The result tells whether the kernel goes on.\<close>

definition InitializeTSS :: "u64 \<Rightarrow> CpuTables \<Rightarrow> (CpuTables \<times> bool) option" where
  "InitializeTSS tss_addr c = do {
     (mm1, r1) \<leftarrow> AllocateStackArea 8 (cpu_mm c);
     (case r1 of
        Inl _ \<Rightarrow> Some (c\<lparr>cpu_mm := mm1\<rparr>, False)
      | Inr stk1 \<Rightarrow> do {
          tss1 \<leftarrow> SetTSS 1 stk1 (tss c);
          (mm2, r2) \<leftarrow> AllocateStackArea 8 mm1;
          (case r2 of
             Inl _ \<Rightarrow> Some (c\<lparr>cpu_mm := mm2, tss := tss1\<rparr>, False)
           | Inr stk2 \<Rightarrow> do {
               tss2 \<leftarrow> SetTSS (7 + 2 * kISTForTimer) stk2 tss1;
               let i = drop_bit 3 kTSS;
               if length (gdt c) \<le> i + 1 then None
               else Some (c\<lparr>cpu_mm := mm2, tss := tss2,
                      gdt := (gdt c)[i := SetSystemSegment kTSSAvailable 0 (ucast (tss_addr AND 0xffffffff)) (of_nat (4 * length tss2 - 1)),
                                     i + 1 := drop_bit 32 tss_addr]\<rparr>, True) }) }) }"

subsection \<open>The interrupt table\<close>

record InterruptDescriptor =
  offset_low :: u16
  segment_selector :: u16
  attr_data :: u16
  offset_middle :: u16
  offset_high :: u32
  id_reserved :: u32

definition MakeIDTAttr :: "u64 \<Rightarrow> u8 \<Rightarrow> bool \<Rightarrow> u8 \<Rightarrow> u16" where
  "MakeIDTAttr type descriptor_privilege_level is_present interrupt_stack_table =
     set_field 15 1 (of_bool is_present) (set_field 13 2 (ucast descriptor_privilege_level)
       (set_field 8 4 (ucast type) (set_field 0 3 (ucast interrupt_stack_table) 0)))"

definition SetIDTEntry :: "u16 \<Rightarrow> u64 \<Rightarrow> u16 \<Rightarrow> InterruptDescriptor \<Rightarrow> InterruptDescriptor" where
  "SetIDTEntry a offset selector desc = desc\<lparr>attr_data := a, offset_low := ucast (offset AND 0xffff),
     offset_middle := ucast (drop_bit 16 offset AND 0xffff), offset_high := ucast (drop_bit 32 offset), segment_selector := selector\<rparr>"

definition InterruptVector_kXHCI :: nat where "InterruptVector_kXHCI = 0x40"

definition fault_vectors :: "nat list" where
  "fault_vectors = [0, 1, 3, 4, 5, 6, 7, 8, 10, 11, 12, 13, 14, 16, 17, 18, 19, 20]"

definition set_idt_entry :: "(nat \<Rightarrow> u64) \<Rightarrow> nat \<Rightarrow> InterruptDescriptor list \<Rightarrow> InterruptDescriptor list" where
  "set_idt_entry handler irq idt = idt[irq := SetIDTEntry (MakeIDTAttr kInterruptGate 0 True 0) (handler irq) (ucast kKernelCS) (idt ! irq)]"

text \<open>\<open>handler v\<close> is the address of the handler function for vector \<open>v\<close>.\<close>

definition InitializeInterrupt :: "(nat \<Rightarrow> u64) \<Rightarrow> InterruptDescriptor list \<Rightarrow> InterruptDescriptor list" where
  "InitializeInterrupt handler idt =
     (let idt1 = set_idt_entry handler InterruptVector_kXHCI idt;
          v = unat InterruptVector_kLAPICTimer;
          idt2 = idt1[v := SetIDTEntry (MakeIDTAttr kInterruptGate 0 True (of_nat kISTForTimer)) (handler v) (ucast kKernelCS) (idt1 ! v)]
      in foldl (\<lambda>idt irq. set_idt_entry handler irq idt) idt2 fault_vectors)"

subsection \<open>Handlers\<close>

record InterruptFrame =
  frame_rip :: u64
  frame_cs :: u64
  frame_rflags :: u64
  frame_rsp :: u64
  frame_ss :: u64

text \<open>How a handler ends: it returns, \<open>ExitApp\<close> goes back to the caller of \<open>CallApp\<close> with the stack pointer and the
  exit code, or it halts for ever with its drawing on the screen.\<close>

datatype Fault_End = Returns | ExitsApp u64 int | Halts Drawing

definition IntHandlerXHCI :: "'f TaskManager \<Rightarrow> 'f TaskManager option" where
  "IntHandlerXHCI tm = map_option fst (SendMessage tm 1 (mk_Message kInterruptXHCI))"

definition hex_char :: "u64 \<Rightarrow> nat \<Rightarrow> nat \<Rightarrow> u8" where
  "hex_char v digits i =
     (let x = ucast (drop_bit (4 * (digits - i - 1)) v AND 0xf)
      in if 10 \<le> x then x + (of_char CHR ''a'' - 10) else x + of_char CHR ''0'')"

definition PrintHex :: "Fonts \<Rightarrow> u64 \<Rightarrow> nat \<Rightarrow> Vector2D \<Rightarrow> Drawing" where
  "PrintHex fonts v digits pos =
     concat (map (\<lambda>i. WriteAscii fonts (pos + Vec (8 * int i) 0) (hex_char v digits i) (Color 0 0 0)) [0..<digits])"

definition print_label :: "Fonts \<Rightarrow> int \<Rightarrow> string \<Rightarrow> Drawing option" where
  "print_label fonts line s = map_option fst (WriteUTF8String fonts (Vec 500 (16 * line)) (str s @ [0]) (Color 0 0 0))"

definition PrintFrame :: "Fonts \<Rightarrow> InterruptFrame \<Rightarrow> string \<Rightarrow> Drawing option" where
  "PrintFrame fonts frame exp_name = do {
     d0 \<leftarrow> print_label fonts 0 exp_name;
     d1 \<leftarrow> print_label fonts 1 ''CS:RIP'';
     let h1 = PrintHex fonts (frame_cs frame) 4 (Vec (500 + 8 * 7) (16 * 1));
     let h2 = PrintHex fonts (frame_rip frame) 16 (Vec (500 + 8 * 12) (16 * 1));
     d2 \<leftarrow> print_label fonts 2 ''RFLAGS'';
     let h3 = PrintHex fonts (frame_rflags frame) 16 (Vec (500 + 8 * 7) (16 * 2));
     d3 \<leftarrow> print_label fonts 3 ''SS:RSP'';
     let h4 = PrintHex fonts (frame_ss frame) 4 (Vec (500 + 8 * 7) (16 * 3));
     let h5 = PrintHex fonts (frame_rsp frame) 16 (Vec (500 + 8 * 12) (16 * 3));
     Some (d0 @ d1 @ h1 @ h2 @ d2 @ h3 @ d3 @ h4 @ h5) }"

text \<open>\<open>None\<close> inside is a return to the handler.\<close>

definition SIGSEGV :: int where "SIGSEGV = 11"

definition KillApp :: "InterruptFrame \<Rightarrow> 'f TaskManager \<Rightarrow> Fault_End option option" where
  "KillApp frame tm =
     (if frame_cs frame AND 3 \<noteq> 3 then Some None
      else do {
        t \<leftarrow> CurrentTask tm;
        k \<leftarrow> tasks tm t;
        Some (Some (ExitsApp (os_stack_ptr k) (128 + SIGSEGV))) })"

definition print_error_code :: "Fonts \<Rightarrow> u64 \<Rightarrow> Drawing option" where
  "print_error_code fonts error_code = do {
     d \<leftarrow> print_label fonts 4 ''ERR'';
     Some (d @ PrintHex fonts error_code 16 (Vec (500 + 8 * 4) (16 * 4))) }"

definition FaultHandlerWithError :: "string \<Rightarrow> Fonts \<Rightarrow> InterruptFrame \<Rightarrow> u64 \<Rightarrow> 'f TaskManager \<Rightarrow> Fault_End option" where
  "FaultHandlerWithError fault_name fonts frame error_code tm = do {
     killed \<leftarrow> KillApp frame tm;
     (case killed of
        Some r \<Rightarrow> Some r
      | None \<Rightarrow> do {
          d \<leftarrow> PrintFrame fonts frame (''#'' @ fault_name);
          e \<leftarrow> print_error_code fonts error_code;
          Some (Halts (d @ e)) }) }"

definition FaultHandlerNoError :: "string \<Rightarrow> Fonts \<Rightarrow> InterruptFrame \<Rightarrow> 'f TaskManager \<Rightarrow> Fault_End option" where
  "FaultHandlerNoError fault_name fonts frame tm = do {
     killed \<leftarrow> KillApp frame tm;
     (case killed of
        Some r \<Rightarrow> Some r
      | None \<Rightarrow> map_option Halts (PrintFrame fonts frame (''#'' @ fault_name))) }"

definition IntHandlerPF ::
  "('f \<Rightarrow> nat \<Rightarrow> int \<Rightarrow> u8 list option) \<Rightarrow> Fonts \<Rightarrow> InterruptFrame \<Rightarrow> u64 \<Rightarrow> u64 \<Rightarrow> 'f TaskManager \<Rightarrow> Machine \<Rightarrow>
   (Machine \<times> Fault_End) option" where
  "IntHandlerPF load fonts frame error_code cr2 tm st = do {
     (st', err) \<leftarrow> HandlePageFault load tm st error_code cr2;
     if \<not> is_error err then Some (st', Returns)
     else map_option (Pair st') (FaultHandlerWithError ''PF'' fonts frame error_code tm) }"

subsection \<open>What the processor reads\<close>

definition segment_base :: "u64 \<Rightarrow> u64" where
  "segment_base d = get_field 16 16 d OR push_bit 16 (get_field 32 8 d) OR push_bit 24 (get_field 56 8 d)"

definition segment_limit :: "u64 \<Rightarrow> u64" where
  "segment_limit d = get_field 0 16 d OR push_bit 16 (get_field 48 4 d)"

lemma segment_fields:
  "get_field 16 16 (SetCodeSegment type dpl base limit) = take_bit 16 (ucast base)"
  "get_field 32 8 (SetCodeSegment type dpl base limit) = take_bit 8 (drop_bit 16 (ucast base))"
  "get_field 56 8 (SetCodeSegment type dpl base limit) = take_bit 8 (drop_bit 24 (ucast base))"
  "get_field 0 16 (SetCodeSegment type dpl base limit) = take_bit 16 (ucast limit)"
  "get_field 48 4 (SetCodeSegment type dpl base limit) = take_bit 4 (drop_bit 16 (ucast limit))"
  "get_field 40 4 (SetCodeSegment type dpl base limit) = take_bit 4 type"
  "get_field 45 2 (SetCodeSegment type dpl base limit) = take_bit 2 dpl"
proof -
  have m: "(0xffff :: u32) = mask 16" "(0xff :: u32) = mask 8" "(0xf :: u32) = mask 4"
    by (simp_all add: mask_eq_exp_minus_1)
  have t: "take_bit n (ucast (drop_bit k x AND mask n) :: u64) = take_bit n (drop_bit k (ucast x))" for n k and x :: u32
    by (rule bit_word_eqI) (auto simp: bit_take_bit_iff bit_ucast_iff bit_and_iff bit_mask_iff bit_drop_bit_eq dest: bit_imp_le_length)
  have t0: "take_bit n (ucast (x AND mask n) :: u64) = take_bit n (ucast x)" for n and x :: u32
    using t[of n 0 x] by simp
  have u: "ucast (drop_bit k x) = drop_bit k (ucast x :: u64)" for k and x :: u32
    by (rule bit_word_eqI) (auto simp: bit_ucast_iff bit_drop_bit_eq dest: bit_imp_le_length)
  show "get_field 16 16 (SetCodeSegment type dpl base limit) = take_bit 16 (ucast base)"
    "get_field 32 8 (SetCodeSegment type dpl base limit) = take_bit 8 (drop_bit 16 (ucast base))"
    "get_field 56 8 (SetCodeSegment type dpl base limit) = take_bit 8 (drop_bit 24 (ucast base))"
    "get_field 0 16 (SetCodeSegment type dpl base limit) = take_bit 16 (ucast limit)"
    "get_field 48 4 (SetCodeSegment type dpl base limit) = take_bit 4 (drop_bit 16 (ucast limit))"
    "get_field 40 4 (SetCodeSegment type dpl base limit) = take_bit 4 type"
    "get_field 45 2 (SetCodeSegment type dpl base limit) = take_bit 2 dpl"
    unfolding SetCodeSegment_def Let_def m by (simp_all add: fields t t0 u)
qed

lemma segment_base_of: "segment_base (SetCodeSegment type dpl base limit) = ucast base"
  unfolding segment_base_def segment_fields
  by (rule bit_word_eqI)
    (auto simp: bit_or_iff bit_take_bit_iff bit_push_bit_iff bit_drop_bit_eq bit_ucast_iff dest: bit_imp_le_length)

lemma segment_limit_of: "segment_limit (SetCodeSegment type dpl base limit) = take_bit 20 (ucast limit)"
  unfolding segment_limit_def segment_fields
  by (rule bit_word_eqI)
    (auto simp: bit_or_iff bit_take_bit_iff bit_push_bit_iff bit_drop_bit_eq bit_ucast_iff dest: bit_imp_le_length)

lemma system_segment:
  "segment_base (SetSystemSegment type dpl base limit) = ucast base"
  "segment_limit (SetSystemSegment type dpl base limit) = take_bit 20 (ucast limit)"
  using segment_base_of segment_limit_of
  by (simp_all add: SetSystemSegment_def segment_base_def segment_limit_def fields)

text \<open>The start up of the task state: two fresh stacks, and a descriptor of the task state segment.\<close>

definition tss_word :: "nat \<Rightarrow> u32 list \<Rightarrow> u64" where
  "tss_word i t = ucast (t ! i) OR push_bit 32 (ucast (t ! (i + 1)))"

lemma split_word: "ucast (ucast (v AND 0xffffffff) :: u32) OR push_bit 32 (ucast (ucast (drop_bit 32 v) :: u32)) = (v :: u64)"
proof -
  have m: "(0xffffffff :: u64) = mask 32" by (simp add: mask_eq_exp_minus_1)
  show ?thesis unfolding m
    by (rule bit_word_eqI)
      (auto simp: bit_or_iff bit_ucast_iff bit_push_bit_iff bit_drop_bit_eq bit_and_iff bit_mask_iff)
qed

lemma join_word: "ucast (ucast (v AND 0xffffffff) :: u32) OR push_bit 32 (drop_bit 32 v) = (v :: u64)"
proof -
  have m: "(0xffffffff :: u64) = mask 32" by (simp add: mask_eq_exp_minus_1)
  show ?thesis unfolding m
    by (rule bit_word_eqI)
      (auto simp: bit_or_iff bit_ucast_iff bit_push_bit_iff bit_drop_bit_eq bit_and_iff bit_mask_iff, (metis le_add_diff_inverse not_less)+)
qed

lemma SetTSS_word:
  "SetTSS i v t = Some t' \<Longrightarrow> tss_word i t' = v \<and> length t' = length t \<and> (\<forall>j. j \<noteq> i \<longrightarrow> j \<noteq> i + 1 \<longrightarrow> t' ! j = t ! j)"
  using split_word[of v] by (auto simp: SetTSS_def tss_word_def split: if_splits)

theorem InitializeTSS_stacks:
  assumes "mm_inv (cpu_mm c)" and "length (tss c) = 26" and "length (gdt c) = 7"
  shows "\<exists>c' ok. InitializeTSS tss_addr c = Some (c', ok) \<and> (ok \<longrightarrow>
    (\<exists>s1 s2. (\<forall>g. s1 \<le> g \<and> g < s1 + 8 \<longrightarrow> \<not> used (cpu_mm c) g) \<and> (\<forall>g. s2 \<le> g \<and> g < s2 + 8 \<longrightarrow> \<not> used (cpu_mm c) g) \<and>
      (s1 + 8 \<le> s2 \<or> s2 + 8 \<le> s1) \<and>
      (\<forall>g. used (cpu_mm c') g \<longleftrightarrow> used (cpu_mm c) g \<or> s1 \<le> g \<and> g < s1 + 8 \<or> s2 \<le> g \<and> g < s2 + 8) \<and>
      tss_word 1 (tss c') = of_nat ((s1 + 8) * 4096) \<and> tss_word 9 (tss c') = of_nat ((s2 + 8) * 4096)) \<and>
    segment_base (gdt c' ! 5) OR push_bit 32 (gdt c' ! 6) = tss_addr \<and> segment_limit (gdt c' ! 5) = 103 \<and>
    get_field 40 4 (gdt c' ! 5) = kTSSAvailable \<and> (\<forall>i < 5. gdt c' ! i = gdt c ! i))"
proof -
  have stack: "\<exists>m' r. AllocateStackArea 8 m = Some (m', r) \<and> mm_inv m' \<and> (\<forall>stk. r = Inr stk \<longrightarrow>
      (\<exists>s. stk = of_nat ((s + 8) * 4096) \<and> (\<forall>g. used m' g \<longleftrightarrow> used m g \<or> s \<le> g \<and> g < s + 8) \<and>
        (\<forall>g. s \<le> g \<and> g < s + 8 \<longrightarrow> \<not> used m g)))" if inv: "mm_inv m" for m
  proof -
    obtain m' s e where a: "Allocate m 8 = Some (m', s, e)" using frames.alloc_total[OF inv] by blast
    have i: "mm_inv m'" by (rule frames.alloc_inv[OF inv a])
    have "\<not> is_error e \<Longrightarrow> (\<forall>g. used m' g \<longleftrightarrow> used m g \<or> s \<le> g \<and> g < s + 8) \<and> (\<forall>g. s \<le> g \<and> g < s + 8 \<longrightarrow> \<not> used m g)"
      using frames.alloc_taken[OF inv a] frames.alloc_fresh[OF inv a] by blast
    moreover have "(of_nat (s * kBytesPerFrame) + of_nat (8 * 4096) :: u64) = of_nat ((s + 8) * 4096)"
      by (simp add: kBytesPerFrame_def)
    ultimately show ?thesis using a i by (auto simp: AllocateStackArea_def)
  qed
  obtain m1 r1 where A: "AllocateStackArea 8 (cpu_mm c) = Some (m1, r1)" "mm_inv m1"
    "\<And>stk. r1 = Inr stk \<Longrightarrow> \<exists>s. stk = of_nat ((s + 8) * 4096) \<and> (\<forall>g. used m1 g \<longleftrightarrow> used (cpu_mm c) g \<or> s \<le> g \<and> g < s + 8) \<and>
        (\<forall>g. s \<le> g \<and> g < s + 8 \<longrightarrow> \<not> used (cpu_mm c) g)"
    using stack[OF assms(1)] by blast
  show ?thesis
  proof (cases r1)
    case (Inl err)
    then have "InitializeTSS tss_addr c = Some (c\<lparr>cpu_mm := m1\<rparr>, False)" using A(1) by (simp add: InitializeTSS_def)
    then show ?thesis by blast
  next
    case (Inr stk1)
    obtain m2 r2 where B: "AllocateStackArea 8 m1 = Some (m2, r2)" "mm_inv m2"
      "\<And>stk. r2 = Inr stk \<Longrightarrow> \<exists>s. stk = of_nat ((s + 8) * 4096) \<and> (\<forall>g. used m2 g \<longleftrightarrow> used m1 g \<or> s \<le> g \<and> g < s + 8) \<and>
        (\<forall>g. s \<le> g \<and> g < s + 8 \<longrightarrow> \<not> used m1 g)"
      using stack[OF A(2)] by blast
    obtain t1 where t1: "SetTSS 1 stk1 (tss c) = Some t1" using assms(2) by (simp add: SetTSS_def)
    show ?thesis
    proof (cases r2)
      case (Inl err)
      then have "InitializeTSS tss_addr c = Some (c\<lparr>cpu_mm := m2, tss := t1\<rparr>, False)"
        using A(1) B(1) t1 Inr by (simp add: InitializeTSS_def)
      then show ?thesis by blast
    next
      case r2: (Inr stk2)
      have l1: "length t1 = 26" using SetTSS_word[OF t1] assms(2) by simp
      obtain t2 where t2: "SetTSS 9 stk2 t1 = Some t2" using l1 by (simp add: SetTSS_def)
      have w: "tss_word 9 t2 = stk2" "tss_word 1 t2 = stk1" "length t2 = 26"
        using SetTSS_word[OF t2] SetTSS_word[OF t1] l1 by (simp_all add: tss_word_def)
      let ?d = "SetSystemSegment kTSSAvailable 0 (ucast (tss_addr AND 0xffffffff)) 103"
      let ?c = "c\<lparr>cpu_mm := m2, tss := t2, gdt := (gdt c)[5 := ?d, 6 := drop_bit 32 tss_addr]\<rparr>"
      have i: "drop_bit 3 kTSS = 5" by (simp add: kTSS_def drop_bit_eq_div)
      have run: "InitializeTSS tss_addr c = Some (?c, True)"
        using A(1) B(1) t1 t2 Inr r2 assms(3) w(3) i by (simp add: InitializeTSS_def kISTForTimer_def)
      obtain s1 where s1: "stk1 = of_nat ((s1 + 8) * 4096)" "\<forall>g. used m1 g \<longleftrightarrow> used (cpu_mm c) g \<or> s1 \<le> g \<and> g < s1 + 8"
        "\<forall>g. s1 \<le> g \<and> g < s1 + 8 \<longrightarrow> \<not> used (cpu_mm c) g" using A(3)[OF Inr] by blast
      obtain s2 where s2: "stk2 = of_nat ((s2 + 8) * 4096)" "\<forall>g. used m2 g \<longleftrightarrow> used m1 g \<or> s2 \<le> g \<and> g < s2 + 8"
        "\<forall>g. s2 \<le> g \<and> g < s2 + 8 \<longrightarrow> \<not> used m1 g" using B(3)[OF r2] by blast
      have dis: "s1 + 8 \<le> s2 \<or> s2 + 8 \<le> s1"
      proof (rule ccontr)
        assume "\<not> ?thesis"
        then have "s2 \<le> max s1 s2 \<and> max s1 s2 < s2 + 8" "s1 \<le> max s1 s2 \<and> max s1 s2 < s1 + 8" by auto
        then show False using s1(2) s2(3) by blast
      qed
      have g: "gdt ?c ! 5 = ?d" "gdt ?c ! 6 = drop_bit 32 tss_addr" "\<forall>i < 5. gdt ?c ! i = gdt c ! i"
        using assms(3) by simp_all
      have "segment_base ?d OR push_bit 32 (drop_bit 32 tss_addr) = tss_addr"
        unfolding system_segment by (rule join_word)
      moreover have "segment_limit ?d = 103" unfolding system_segment by simp
      moreover have "get_field 40 4 ?d = kTSSAvailable"
        using segment_fields(6) by (simp add: SetSystemSegment_def fields kTSSAvailable_def)
      moreover have "\<exists>s1 s2. (\<forall>g. s1 \<le> g \<and> g < s1 + 8 \<longrightarrow> \<not> used (cpu_mm c) g) \<and> (\<forall>g. s2 \<le> g \<and> g < s2 + 8 \<longrightarrow> \<not> used (cpu_mm c) g) \<and>
          (s1 + 8 \<le> s2 \<or> s2 + 8 \<le> s1) \<and>
          (\<forall>g. used m2 g \<longleftrightarrow> used (cpu_mm c) g \<or> s1 \<le> g \<and> g < s1 + 8 \<or> s2 \<le> g \<and> g < s2 + 8) \<and>
          stk1 = of_nat ((s1 + 8) * 4096) \<and> stk2 = of_nat ((s2 + 8) * 4096)"
        using s1 s2 dis by (intro exI[of _ s1] exI[of _ s2]) blast
      ultimately show ?thesis using run g w by (intro exI[of _ ?c] exI[of _ True]) simp
    qed
  qed
qed

subsection \<open>What the gates say\<close>

definition gate_offset :: "InterruptDescriptor \<Rightarrow> u64" where
  "gate_offset d = ucast (offset_low d) OR push_bit 16 (ucast (offset_middle d)) OR push_bit 32 (ucast (offset_high d))"

lemma gate_offset_of: "gate_offset (SetIDTEntry a v selector d) = v"
proof -
  have m: "(0xffff :: u64) = mask 16" by (simp add: mask_eq_exp_minus_1)
  have three: "n < 16 \<or> 16 \<le> n \<and> n < 32 \<or> 32 \<le> n" for n :: nat by auto
  show ?thesis unfolding gate_offset_def SetIDTEntry_def m
    by (rule bit_word_eqI, subgoal_tac "n < 16 \<or> 16 \<le> n \<and> n < 32 \<or> 32 \<le> n")
      (auto simp: bit_or_iff bit_ucast_iff bit_push_bit_iff bit_drop_bit_eq bit_and_iff bit_mask_iff)
qed

lemma MakeIDTAttr_fields:
  "get_field 0 3 (MakeIDTAttr type dpl p ist) = take_bit 3 (ucast ist)"
  "get_field 8 4 (MakeIDTAttr type dpl p ist) = take_bit 4 (ucast type)"
  "get_field 13 2 (MakeIDTAttr type dpl p ist) = take_bit 2 (ucast dpl)"
  "get_field 15 1 (MakeIDTAttr type dpl p ist) = of_bool p"
  by (simp_all add: MakeIDTAttr_def fields)

lemma set_idt_entries:
  "distinct vs \<Longrightarrow> \<forall>v \<in> set vs. v < length idt \<Longrightarrow>
   length (foldl (\<lambda>idt irq. set_idt_entry handler irq idt) idt vs) = length idt \<and>
   (\<forall>i. foldl (\<lambda>idt irq. set_idt_entry handler irq idt) idt vs ! i =
     (if i \<in> set vs then SetIDTEntry (MakeIDTAttr kInterruptGate 0 True 0) (handler i) (ucast kKernelCS) (idt ! i) else idt ! i))"
proof (induction vs arbitrary: idt)
  case (Cons v vs)
  have "length (set_idt_entry handler v idt) = length idt" by (simp add: set_idt_entry_def)
  moreover have "set_idt_entry handler v idt ! i =
      (if i = v then SetIDTEntry (MakeIDTAttr kInterruptGate 0 True 0) (handler v) (ucast kKernelCS) (idt ! v) else idt ! i)" for i
    using Cons.prems(2) by (simp add: set_idt_entry_def)
  ultimately show ?case using Cons.IH[of "set_idt_entry handler v idt"] Cons.prems by auto
qed simp

text \<open>Every fault and both interrupts have a present gate of the kernel, that leads to their handler and that no application can
  call; the timer alone changes to a stack of its own. The other entries are untouched.\<close>

theorem InitializeInterrupt_gates:
  assumes "length idt = 256"
  shows "v \<in> set (0x40 # 0x41 # fault_vectors) \<Longrightarrow> gate_offset (InitializeInterrupt handler idt ! v) = handler v \<and>
      segment_selector (InitializeInterrupt handler idt ! v) = 8 \<and>
      get_field 8 4 (attr_data (InitializeInterrupt handler idt ! v)) = 14 \<and>
      get_field 13 2 (attr_data (InitializeInterrupt handler idt ! v)) = 0 \<and>
      get_field 15 1 (attr_data (InitializeInterrupt handler idt ! v)) = 1 \<and>
      get_field 0 3 (attr_data (InitializeInterrupt handler idt ! v)) = (if v = 0x41 then 1 else 0)"
    and "v \<notin> set (0x40 # 0x41 # fault_vectors) \<Longrightarrow> InitializeInterrupt handler idt ! v = idt ! v"
proof -
  let ?gate = "\<lambda>ist. SetIDTEntry (MakeIDTAttr kInterruptGate 0 True ist) (handler v) (ucast kKernelCS) (idt ! v)"
  have fv: "distinct fault_vectors" "\<forall>v \<in> set fault_vectors. v < 0x40" by (simp_all add: fault_vectors_def)
  have t: "unat InterruptVector_kLAPICTimer = 0x41" by (simp add: InterruptVector_kLAPICTimer_def)
  have all: "InitializeInterrupt handler idt ! v =
    (if v \<in> set fault_vectors then ?gate 0 else if v = 0x41 then ?gate 1 else if v = 0x40 then ?gate 0 else idt ! v)"
  proof -
    define idt2 where "idt2 = (set_idt_entry handler InterruptVector_kXHCI idt)[0x41 := SetIDTEntry
      (MakeIDTAttr kInterruptGate 0 True (of_nat kISTForTimer)) (handler 0x41) (ucast kKernelCS)
      (set_idt_entry handler InterruptVector_kXHCI idt ! 0x41)]"
    have l: "length idt2 = 256" using assms by (simp add: idt2_def set_idt_entry_def)
    have n: "idt2 ! v = (if v = 0x41 then ?gate 1 else if v = 0x40 then ?gate 0 else idt ! v)"
      using assms by (simp add: idt2_def set_idt_entry_def InterruptVector_kXHCI_def kISTForTimer_def nth_list_update)
    have "\<forall>v \<in> set fault_vectors. v < length idt2" using fv(2) l by auto
    then have "foldl (\<lambda>idt irq. set_idt_entry handler irq idt) idt2 fault_vectors ! v =
        (if v \<in> set fault_vectors then SetIDTEntry (MakeIDTAttr kInterruptGate 0 True 0) (handler v) (ucast kKernelCS) (idt2 ! v) else idt2 ! v)"
      using set_idt_entries[OF fv(1), of idt2 handler] by simp
    moreover have "v \<in> set fault_vectors \<Longrightarrow> idt2 ! v = idt ! v" using n fv(2) by auto
    ultimately show ?thesis using n unfolding InitializeInterrupt_def Let_def t idt2_def by simp
  qed
  have g: "gate_offset (?gate ist) = handler v \<and> segment_selector (?gate ist) = 8 \<and> get_field 8 4 (attr_data (?gate ist)) = 14 \<and>
      get_field 13 2 (attr_data (?gate ist)) = 0 \<and> get_field 15 1 (attr_data (?gate ist)) = 1 \<and>
      get_field 0 3 (attr_data (?gate ist)) = take_bit 3 (ucast ist)" for ist
    using gate_offset_of MakeIDTAttr_fields by (simp add: SetIDTEntry_def kKernelCS_def kInterruptGate_def)
  show "v \<in> set (0x40 # 0x41 # fault_vectors) \<Longrightarrow> gate_offset (InitializeInterrupt handler idt ! v) = handler v \<and>
      segment_selector (InitializeInterrupt handler idt ! v) = 8 \<and>
      get_field 8 4 (attr_data (InitializeInterrupt handler idt ! v)) = 14 \<and>
      get_field 13 2 (attr_data (InitializeInterrupt handler idt ! v)) = 0 \<and>
      get_field 15 1 (attr_data (InitializeInterrupt handler idt ! v)) = 1 \<and>
      get_field 0 3 (attr_data (InitializeInterrupt handler idt ! v)) = (if v = 0x41 then 1 else 0)"
    unfolding all using g[of 0] g[of 1] fv(2) by auto
  show "v \<notin> set (0x40 # 0x41 # fault_vectors) \<Longrightarrow> InitializeInterrupt handler idt ! v = idt ! v"
    unfolding all by simp
qed

subsection \<open>What a fault does\<close>

text \<open>The digits on the screen are those of the value.\<close>

lemma PrintHex_digits: "i < n \<Longrightarrow> hex_char v n i = hex_pad n (unat v) ! i"
proof -
  assume i: "i < n"
  have m: "(0xf :: u64) = mask 4" by (simp add: mask_eq_exp_minus_1)
  let ?d = "unat v div 16 ^ (n - i - 1) mod 16"
  have "unat (drop_bit (4 * (n - i - 1)) v AND 0xf) = ?d"
    unfolding m take_bit_eq_mask[symmetric] unsigned_take_bit_eq unsigned_drop_bit_eq
    using unsigned_less[of v, where 'a = nat] by (simp add: drop_bit_eq_div take_bit_eq_mod power_mult)
  moreover have "?d < 256" by (rule less_trans[of _ 16]) simp_all
  ultimately have "unat (ucast (drop_bit (4 * (n - i - 1)) v AND 0xf) :: u8) = ?d" "unat (of_nat ?d :: u8) = ?d"
    by (simp_all only: unsigned_ucast_eq unat_of_nat) (simp_all add: take_bit_eq_mod)
  then have u: "(ucast (drop_bit (4 * (n - i - 1)) v AND 0xf) :: u8) = of_nat ?d"
    by (simp only: word_unat_eq_iff)
  have digit: "(let x = of_nat d :: u8 in if 10 \<le> x then x + (of_char CHR ''a'' - 10) else x + of_char CHR ''0'') =
      of_nat (if d < 10 then 48 + d else 87 + d)" if "d < 16" for d
    using that by (simp add: Let_def word_le_nat_alt unat_of_nat of_char_def)
  have "hex_char v n i = (of_nat (if ?d < 10 then 48 + ?d else 87 + ?d) :: u8)"
    unfolding hex_char_def u by (rule digit) simp
  moreover have "rev [0..<n] ! i = n - i - 1" using i by (simp add: rev_nth)
  ultimately show ?thesis using i by (simp add: hex_pad_def Let_def)
qed

text \<open>A fault of an application that the page fault handler cannot resolve ends the application with the exit code 139, on the stack
  its caller saved, and leaves the kernel running; a fault of the kernel halts.\<close>

lemma IntHandlerPF_ends:
  assumes "HandlePageFault load tm st error_code cr2 = Some (st', err)" and "CurrentTask tm = Some t" and "tasks tm t = Some k"
  shows "\<not> is_error err \<Longrightarrow> IntHandlerPF load fonts frame error_code cr2 tm st = Some (st', Returns)"
    and "is_error err \<Longrightarrow> frame_cs frame AND 3 = 3 \<Longrightarrow>
      IntHandlerPF load fonts frame error_code cr2 tm st = Some (st', ExitsApp (os_stack_ptr k) 139)"
    and "is_error err \<Longrightarrow> frame_cs frame AND 3 \<noteq> 3 \<Longrightarrow> IntHandlerPF load fonts frame error_code cr2 tm st = Some r \<Longrightarrow>
      \<exists>d. r = (st', Halts d)"
  using assms by (auto simp: IntHandlerPF_def FaultHandlerWithError_def KillApp_def SIGSEGV_def bind_eq_Some_conv)

end
