(* ===== verification/MainLoop.thy ===== *)
theory MainLoop
  imports Syscall TextBox IME
begin

text \<open>
  The main task: the shrinking of the screen around the banner and the loop over messages of \<^verbatim>\<open>kernel/main.cpp\<close>. The
  picture of the banner is data of \<^verbatim>\<open>osbanner.c\<close> and an argument. The events of the host controller run the driver of the
  theories \<open>Xhci\<close>, \<open>Keyboard\<close> and \<open>Mouse\<close>, whose state lies outside of this one: \<open>process_events\<close> is what they do to the desktop.
\<close>

subsection \<open>The banner and the screen\<close>

record OsBannerPixels =
  banner_width :: u32
  banner_height :: u32
  bytes_per_pixel :: u32
  pixel_data :: "u8 list"

definition FIXED_HORIZONTAL_RES :: u32 where "FIXED_HORIZONTAL_RES = 768"
definition FIXED_VERTICAL_RES :: u32 where "FIXED_VERTICAL_RES = 543"

text \<open>The body of the two loops.\<close>

definition write_banner_pixel :: "OsBannerPixels \<Rightarrow> u32 \<Rightarrow> int \<Rightarrow> int \<Rightarrow> int \<Rightarrow> FrameBufferConfig \<Rightarrow> FrameBufferConfig option" where
  "write_banner_pixel banner y_start x_left x y old_config = do {
     let p = unat ((banner_width banner * (of_int y - y_start) + of_int (x - x_left)) * bytes_per_pixel banner);
     if length (pixel_data banner) \<le> p + 2 then None
     else map_option fst (PrimitivelyWritePixel old_config x y
            (Color (pixel_data banner ! p) (pixel_data banner ! (p + 1)) (pixel_data banner ! (p + 2)))) }"

fun write_banner :: "OsBannerPixels \<Rightarrow> u32 \<Rightarrow> int \<Rightarrow> (int \<times> int) list \<Rightarrow> FrameBufferConfig \<Rightarrow> FrameBufferConfig option" where
  "write_banner banner y_start x_left [] old_config = Some old_config"
| "write_banner banner y_start x_left ((x, y) # ps) old_config =
     (case write_banner_pixel banner y_start x_left x y old_config of
        None \<Rightarrow> None
      | Some config \<Rightarrow> write_banner banner y_start x_left ps config)"

text \<open>The result is the memory after the writes and the new screen, whose memory is the rest of the old one. \<open>None\<close>: an assertion
  fails, the coordinates overflow, or memory is left.\<close>

definition DrawBannerAndShrinkScreenTo768x543 :: "OsBannerPixels \<Rightarrow> FrameBufferConfig \<Rightarrow> (FrameBufferConfig \<times> FrameBufferConfig) option" where
  "DrawBannerAndShrinkScreenTo768x543 banner old_config =
     (if horizontal_resolution old_config < FIXED_HORIZONTAL_RES \<or> vertical_resolution old_config < FIXED_VERTICAL_RES then None
      else do {
        let margin_left = (horizontal_resolution old_config - FIXED_HORIZONTAL_RES) div 2;
        let margin_top = (vertical_resolution old_config - FIXED_VERTICAL_RES) div 3;
        let y_start = FIXED_VERTICAL_RES + margin_top;
        let y_end = min (y_start + banner_height banner) (vertical_resolution old_config);
        let x_center = sint (FIXED_HORIZONTAL_RES div 2 + margin_left);
        let x_left = sint (of_int x_center - banner_width banner div 2 :: u32);
        let x_right = sint (of_int x_left + banner_width banner);
        let x_start = max x_left 0;
        let x_end = min x_right (sint (horizontal_resolution old_config));
        if 2 ^ 31 \<le> unat y_end then None
        else do {
          config \<leftarrow> write_banner banner y_start x_left
                     (concat (map (\<lambda>y. map (\<lambda>x. (x, y)) [x_start..x_end - 1]) [int (unat y_start)..int (unat y_end) - 1])) old_config;
          m \<leftarrow> frame_buffer config;
          let offset = unat (of_int (BytesPerPixel (pixel_format config)) *
                         (pixels_per_scan_line config * margin_top + margin_left) :: u32);
          if length m < offset then None
          else Some (config, \<lparr>frame_buffer = Some (drop offset m), pixels_per_scan_line = pixels_per_scan_line config,
                 horizontal_resolution = FIXED_HORIZONTAL_RES, vertical_resolution = FIXED_VERTICAL_RES,
                 pixel_format = pixel_format config\<rparr>) } })"

subsection \<open>The state of the main task\<close>

record MainTask =
  main_world :: World
  main_log :: Logger
  normal_text_window :: PrivilegedCursoredTextBox
  bhat_text_window :: PrivilegedCursoredTextBox
  bhat_content :: "u32 list"
  pekzep_text_window :: PrivilegedCursoredTextBox
  pekzep_state :: IMEState
  counter_window :: nat
  counter_window_layer_id :: nat

record MainEnv =
  main_env :: Env
  process_events :: "MainTask \<Rightarrow> MainTask option"

definition main_manager :: "MainTask \<Rightarrow> LayerManager" where
  "main_manager m = manager (desktop (main_world m))"

definition set_main_manager :: "LayerManager \<Rightarrow> MainTask \<Rightarrow> MainTask" where
  "set_main_manager lm m = m\<lparr>main_world := (main_world m)\<lparr>desktop := (desktop (main_world m))\<lparr>manager := lm\<rparr>\<rparr>\<rparr>"

definition InitializeCounterWindow :: "Fonts \<Rightarrow> nat \<Rightarrow> LayerManager \<Rightarrow> (LayerManager \<times> nat) option" where
  "InitializeCounterWindow fonts p lm = do {
     w \<leftarrow> new_ToplevelWindow fonts 160 52 (pixel_format (screen lm)) (str ''kinfiter'') True;
     let (lm1, i) = NewLayer (lm\<lparr>windows := (windows lm)(p \<mapsto> w)\<rparr>);
     let lm2 = Layer_Move i (Vec 320 70) (SetDraggable i True (SetWindow i p lm1));
     lm3 \<leftarrow> UpDown i (2 ^ 31 - 1) lm2;
     Some (lm3, i) }"

text \<open>The first lines of the loop: the tick in ten digits.\<close>

definition dec_pad :: "nat \<Rightarrow> nat \<Rightarrow> u8 list" where
  "dec_pad digits n = (let s = dec_nat n in replicate (digits - length s) 48 @ s)"

definition draw_counter :: "Fonts \<Rightarrow> MainTask \<Rightarrow> MainTask option" where
  "draw_counter fonts m = do {
     let lm = main_manager m;
     w \<leftarrow> windows lm (counter_window m);
     (ds, _) \<leftarrow> WriteUTF8String fonts (Vec 20 4) (dec_pad 10 (unat (tick (timer_mgr (main_world m)))) @ [0]) (Color 0 0 0);
     w' \<leftarrow> draw_on Window_Write (inner (FillRectangle (Vec 20 4) (Vec (8 * 10) 16) (Color 0xc6 0xc6 0xc6) @ ds)) w;
     lm' \<leftarrow> Draw_id (counter_window_layer_id m) (lm\<lparr>windows := (windows lm)(counter_window m \<mapsto> w')\<rparr>);
     Some (set_main_manager lm' m) }"

subsection \<open>Messages\<close>

definition manage_cursor :: "u64 \<Rightarrow> PrivilegedCursoredTextBox \<Rightarrow> MainTask \<Rightarrow> (PrivilegedCursoredTextBox \<times> MainTask) option" where
  "manage_cursor timeout box m = do {
     (box', tm, lm) \<leftarrow> ManageCursor timeout box (timer_mgr (main_world m)) (main_manager m);
     let m' = set_main_manager lm m;
     Some (box', m'\<lparr>main_world := (main_world m')\<lparr>timer_mgr := tm\<rparr>\<rparr>) }"

definition main_timer :: "u64 \<Rightarrow> int \<Rightarrow> MainTask \<Rightarrow> MainTask option" where
  "main_timer timeout v m =
     (if v = cursorTimer (normal_text_window m) then
        map_option (\<lambda>(b, m'). m'\<lparr>normal_text_window := b\<rparr>) (manage_cursor timeout (normal_text_window m) m)
      else if v = cursorTimer (bhat_text_window m) then
        map_option (\<lambda>(b, m'). m'\<lparr>bhat_text_window := b\<rparr>) (manage_cursor timeout (bhat_text_window m) m)
      else if v = cursorTimer (pekzep_text_window m) then
        map_option (\<lambda>(b, m'). m'\<lparr>pekzep_text_window := b\<rparr>) (manage_cursor timeout (pekzep_text_window m) m)
      else Some m)"

definition main_printk :: "Fonts \<Rightarrow> u8 list \<Rightarrow> MainTask \<Rightarrow> MainTask option" where
  "main_printk fonts s m = map_option (\<lambda>(l, _). m\<lparr>main_log := l\<rparr>) (printk fonts True s (main_log m))"

text \<open>F2: a task that runs a terminal.\<close>

definition new_terminal :: "Env \<Rightarrow> World \<Rightarrow> World option" where
  "new_terminal e w = do {
     let (tm, i) = NewTask (sched w);
     let tm1 = upd_task i (InitContext (of_nat (4096 * CR3 (machine w))) (stack_of e i) (task_terminal e) 0) tm;
     tm2 \<leftarrow> Wakeup tm1 i (-1);
     Some (set_sched tm2 w) }"

definition send_to :: "nat \<Rightarrow> Message \<Rightarrow> MainTask \<Rightarrow> MainTask option" where
  "send_to i msg m = map_option (\<lambda>(tm, _). m\<lparr>main_world := set_sched tm (main_world m)\<rparr>) (SendMessage (sched (main_world m)) i msg)"

definition main_key :: "MainEnv \<Rightarrow> Message \<Rightarrow> u8 \<Rightarrow> u8 \<Rightarrow> u32 \<Rightarrow> bool \<Rightarrow> MainTask \<Rightarrow> MainTask option" where
  "main_key e msg modifier keycode unicode press m =
     (let d = desktop (main_world m); act = active_layer d; lm = main_manager m; fonts = env_fonts (main_env e)
      in if act = text_window_layer_id (normal_text_window m) then
           (if press then map_option (\<lambda>(b, lm'). (set_main_manager lm' m)\<lparr>normal_text_window := b\<rparr>)
              (InputTextWindow fonts unicode (normal_text_window m) lm) else Some m)
         else if act = text_window_layer_id (bhat_text_window m) then
           (if press then map_option (\<lambda>(b, c, lm'). (set_main_manager lm' m)\<lparr>bhat_text_window := b, bhat_content := c\<rparr>)
              (InputTextWindowBhat fonts unicode modifier (bhat_text_window m) (bhat_content m) lm) else Some m)
         else if act = text_window_layer_id (pekzep_text_window m) then
           (if press then map_option (\<lambda>(b, st, lm'). (set_main_manager lm' m)\<lparr>pekzep_text_window := b, pekzep_state := st\<rparr>)
              (InputTextWindowPekzep fonts unicode modifier keycode (pekzep_text_window m) (pekzep_state m) lm) else Some m)
         else if press \<and> keycode = 59 then
           map_option (\<lambda>w. m\<lparr>main_world := w\<rparr>) (new_terminal (main_env e) (main_world m))
         else (case layer_task_map d act of
             Some i \<Rightarrow> send_to i msg m
           | None \<Rightarrow> main_printk fonts (str ''slahurfaeso veles niv ferleso. lysolarakrapt m'' @ [39] @ str ''es '' @
               dec_int (int (unat keycode)) @ str '', lyjotrakrapt es '' @ dec_int (sint unicode) @ str ''.'' @ [10]) m))"

definition main_message :: "MainEnv \<Rightarrow> Message \<Rightarrow> MainTask \<Rightarrow> MainTask option" where
  "main_message e msg m = (case arg msg of
     kInterruptXHCI \<Rightarrow> process_events e m
   | kTimerTimeout timeout v \<Rightarrow> main_timer (of_nat timeout) v m
   | kKeyPush modifier keycode unicode press \<Rightarrow> main_key e msg modifier keycode unicode press m
   | kLayer op i x y w h \<Rightarrow> do {
       lm \<leftarrow> ProcessLayerMessage msg (main_manager m);
       send_to (src_task msg) (mk_Message kLayerFinish) (set_main_manager lm m) }
   | a \<Rightarrow> map_option (\<lambda>(l, _). m\<lparr>main_log := l\<rparr>) (Log (env_fonts (main_env e)) True LogLevel_kError
       (str ''Unknown message type: '' @ dec_nat (message_type a) @ [10]) (main_log m)))"

text \<open>One turn of the loop; the main task is task 1.\<close>

definition main_turn :: "MainEnv \<Rightarrow> MainTask \<Rightarrow> MainTask option" where
  "main_turn e m = do {
     m1 \<leftarrow> draw_counter (env_fonts (main_env e)) m;
     let w = main_world m1;
     (tm, msg) \<leftarrow> ReceiveMessage (sched w) 1;
     (case msg of
        None \<Rightarrow> do {
          s \<leftarrow> Sleep tm (registers w) 1;
          Some (m1\<lparr>main_world := set_sched_cpu s w\<rparr>) }
      | Some msg \<Rightarrow> main_message e msg (m1\<lparr>main_world := set_sched tm w\<rparr>)) }"

subsection \<open>The screen of the kernel\<close>

definition banner_ok :: "OsBannerPixels \<Rightarrow> bool" where
  "banner_ok b \<longleftrightarrow> unat (banner_width b) < 2 ^ 30 \<and> unat (banner_height b) < 2 ^ 30 \<and> 3 \<le> unat (bytes_per_pixel b) \<and>
     unat (banner_width b) * unat (banner_height b) * unat (bytes_per_pixel b) < 2 ^ 32 \<and>
     unat (banner_width b) * unat (banner_height b) * unat (bytes_per_pixel b) \<le> length (pixel_data b)"

text \<open>The pixel of the picture at a position inside of it.\<close>

definition banner_pixel :: "OsBannerPixels \<Rightarrow> Vector2D \<Rightarrow> PixelColor" where
  "banner_pixel b p = (let i = (unat (banner_width b) * nat (vy p) + nat (vx p)) * unat (bytes_per_pixel b)
     in Color (pixel_data b ! i) (pixel_data b ! (i + 1)) (pixel_data b ! (i + 2)))"

lemma sint_small: "unat (w :: u32) < 2 ^ 31 \<Longrightarrow> sint w = int (unat w)"
proof -
  assume h: "unat w < 2 ^ 31"
  then have "int (unat w) < int (2 ^ 31)" by (simp only: of_nat_less_iff)
  then have "uint w < 2 ^ 31" by simp
  moreover have "0 \<le> uint w" by simp
  ultimately have "signed_take_bit 31 (uint w) = uint w" by (intro signed_take_bit_int_eq_self) linarith+
  then show ?thesis by (simp add: sint_uint)
qed

lemma PrimitivelyWritePixel_Write:
  assumes "fb_ok fb" and "in_rect (Vec x y) (fb_area fb)"
  shows "PrimitivelyWritePixel fb x y c = map_option (\<lambda>f. (f, 0)) (FrameBuffer_Write fb (Vec x y) c)"
proof -
  define n where "n = unat (pixels_per_scan_line fb) * nat y + nat x"
  have xy: "0 \<le> x" "0 \<le> y" "x < int (width fb)" "y < int (height fb)" using assms(2) by (simp_all add: in_rect_def fb_area_def)
  have off: "pixel_offset fb (Vec x y) = 4 * n" by (simp add: pixel_offset_def stride_def n_def)
  have "4 * n < 2 ^ 31" using offset_bound[OF assms] assms(1) off by (simp add: fb_ok_def)
  then have n: "n < 2 ^ 29" by simp
  have "(pixels_per_scan_line fb * of_int y + of_int x :: u32) = of_nat n"
    using xy by (simp add: n_def flip: of_nat_nat)
  moreover have "unat (of_nat n :: u32) = n" using n by (simp only: unat_of_nat) simp
  ultimately have s: "sint (pixels_per_scan_line fb * of_int y + of_int x :: u32) = int n"
    using sint_small[of "of_nat n"] n by simp
  have at: "PixelAt fb (Vec x y) = 4 * n"
    using offset_word[OF assms(1), of "Vec x y"] xy off by (simp add: PixelAt_def)
  obtain bs where "color_bytes (pixel_format fb) c = Some bs"
    using assms(1) by (auto simp: fb_ok_def color_bytes_def)
  then show ?thesis unfolding PrimitivelyWritePixel_def FrameBuffer_Write_def s at Let_def by (simp add: nat_mult_distrib)
qed

lemma banner_index:
  assumes "banner_ok b" and "0 \<le> dx" "dx < int (unat (banner_width b))" and "0 \<le> dy" "dy < int (unat (banner_height b))"
  shows "unat ((banner_width b * of_int dy + of_int dx) * bytes_per_pixel b) =
      (unat (banner_width b) * nat dy + nat dx) * unat (bytes_per_pixel b)"
    and "(unat (banner_width b) * nat dy + nat dx) * unat (bytes_per_pixel b) + 2 < length (pixel_data b)"
proof -
  let ?w = "unat (banner_width b)" and ?h = "unat (banner_height b)" and ?n = "unat (bytes_per_pixel b)"
  let ?i = "(?w * nat dy + nat dx) * ?n"
  have "?w * (nat dy + 1) \<le> ?w * ?h" by (intro mult_le_mono2) (use assms in linarith)
  moreover have "nat dx + 1 \<le> ?w" using assms(2,3) by linarith
  ultimately have "?w * nat dy + nat dx + 1 \<le> ?w * ?h" by (simp only: distrib_left mult_1_right)
  then have "(?w * nat dy + nat dx + 1) * ?n \<le> ?w * ?h * ?n" by (rule mult_le_mono1)
  then have i: "?i + ?n \<le> ?w * ?h * ?n" by (simp add: algebra_simps)
  then show "?i + 2 < length (pixel_data b)" using assms(1) by (simp add: banner_ok_def)
  have "?i < 2 ^ 32" using i assms(1) by (simp add: banner_ok_def)
  moreover have "(banner_width b * of_int dy + of_int dx) * bytes_per_pixel b = of_nat ?i"
    using assms(2,4) by (simp flip: of_nat_nat)
  ultimately show "unat ((banner_width b * of_int dy + of_int dx) * bytes_per_pixel b) = ?i"
    by (simp only: unat_of_nat) simp
qed

definition banner_drawing :: "OsBannerPixels \<Rightarrow> int \<Rightarrow> int \<Rightarrow> (int \<times> int) list \<Rightarrow> Drawing" where
  "banner_drawing b x_left y_start ps = map (\<lambda>(x, y). (Vec x y, banner_pixel b (Vec (x - x_left) (y - y_start)))) ps"

lemma write_banner_draws:
  assumes "fb_ok fb" and "banner_ok b" and "y0 = int (unat ys)"
    and "\<forall>(x, y) \<in> set ps. in_rect (Vec x y) (fb_area fb) \<and> x_left \<le> x \<and> x < x_left + int (unat (banner_width b)) \<and>
      y0 \<le> y \<and> y < y0 + int (unat (banner_height b))"
  shows "write_banner b ys x_left ps fb = draw_on FrameBuffer_Write (banner_drawing b x_left y0 ps) fb"
  using assms(1,4)
proof (induction ps arbitrary: fb)
  case (Cons p ps)
  obtain x y where p: "p = (x, y)" by (cases p)
  have d: "in_rect (Vec x y) (fb_area fb)" "0 \<le> x - x_left" "x - x_left < int (unat (banner_width b))"
    "0 \<le> y - y0" "y - y0 < int (unat (banner_height b))" using Cons.prems(2) p by auto
  let ?c = "banner_pixel b (Vec (x - x_left) (y - y0))"
  obtain fb' where w: "FrameBuffer_Write fb (Vec x y) ?c = Some fb'" "fb_ok fb'" "fb_area fb' = fb_area fb"
    using FrameBuffer_Write_ok[OF Cons.prems(1) d(1)] by blast
  have "(of_int y - ys :: u32) = of_int (y - y0)" using assms(3) by simp
  then have "write_banner_pixel b ys x_left x y fb = Some fb'"
    using banner_index[OF assms(2) d(2-5)] w(1)
    by (simp add: write_banner_pixel_def PrimitivelyWritePixel_Write[OF Cons.prems(1) d(1)] banner_pixel_def Let_def)
  moreover have "write_banner b ys x_left ps fb' = draw_on FrameBuffer_Write (banner_drawing b x_left y0 ps) fb'"
    by (rule Cons.IH) (use w Cons.prems(2) in auto)
  ultimately show ?case using w(1) p by (simp add: banner_drawing_def)
qed (simp add: banner_drawing_def)

lemma drawn_by_position:
  assumes "\<forall>(p, c) \<in> set ds. c = g p"
  shows "drawn ds q = (if q \<in> fst ` set ds then Some (g q) else None)"
proof -
  have "map_of es q = (if q \<in> fst ` set es then Some (g q) else None)" if "\<forall>(p, c) \<in> set es. c = g p" for es
    using that by (induction es) auto
  from this[of "rev ds"] show ?thesis using assms by (simp add: drawn_def)
qed

lemma drawn_banner:
  "drawn (banner_drawing b x_left y0 (concat (map (\<lambda>y. map (\<lambda>x. (x, y)) [x0..x1 - 1]) [y0..y1 - 1]))) q =
    (if x0 \<le> vx q \<and> vx q < x1 \<and> y0 \<le> vy q \<and> vy q < y1 then Some (banner_pixel b (q - Vec x_left y0)) else None)"
proof -
  let ?ps = "concat (map (\<lambda>y. map (\<lambda>x. (x, y)) [x0..x1 - 1]) [y0..y1 - 1])"
  have "fst ` set (banner_drawing b x_left y0 ?ps) = {Vec x y | x y. x0 \<le> x \<and> x < x1 \<and> y0 \<le> y \<and> y < y1}"
    by (force simp: banner_drawing_def image_iff)
  then have "q \<in> fst ` set (banner_drawing b x_left y0 ?ps) \<longleftrightarrow> x0 \<le> vx q \<and> vx q < x1 \<and> y0 \<le> vy q \<and> vy q < y1"
    by (cases q) auto
  moreover have "\<forall>(p, c) \<in> set (banner_drawing b x_left y0 ?ps). c = banner_pixel b (p - Vec x_left y0)"
    by (auto simp: banner_drawing_def minus_Vector2D_def)
  ultimately show ?thesis by (simp only: drawn_by_position)
qed

lemma banner_words:
  fixes res :: u32
  assumes "k \<le> unat res" and that: "0 < d" "d < 2 ^ 32"
  shows "unat ((res - of_nat k) div of_nat d) = (unat res - k) div d"
proof -
  have k: "k < 2 ^ 32" using assms unsigned_less[of res, where 'a = nat] by simp
  then have "unat (of_nat k :: u32) = k" "unat (of_nat d :: u32) = d" using that by (simp_all add: unat_of_nat)
  moreover from this have "unat (res - of_nat k) = unat res - k" using assms by (simp add: unat_sub word_le_nat_alt)
  ultimately show ?thesis by (simp add: unat_div_distrib)
qed

text \<open>Where the banner and the screen lie.\<close>

definition screen_corner :: "FrameBufferConfig \<Rightarrow> Vector2D" where
  "screen_corner fb = Vec ((int (width fb) - 768) div 2) ((int (height fb) - 543) div 3)"

definition banner_corner :: "OsBannerPixels \<Rightarrow> FrameBufferConfig \<Rightarrow> Vector2D" where
  "banner_corner b fb = Vec (384 + vx (screen_corner fb) - int (unat (banner_width b) div 2)) (543 + vy (screen_corner fb))"

text \<open>The memory behind a corner of a well-formed buffer is a well-formed buffer, if a line is left below it.\<close>

lemma shrunk_ok:
  assumes ok: "fb_ok fb" and m: "frame_buffer fb = Some m" and l: "l + w \<le> width fb" and t: "t + h + 1 \<le> height fb"
    and new: "new = fb\<lparr>frame_buffer := Some (drop (pixel_offset fb (Vec (int l) (int t))) m),
      horizontal_resolution := of_nat w, vertical_resolution := of_nat h\<rparr>"
  shows "fb_ok new" and "fb_area new = Rect (Vec 0 0) (Vec (int w) (int h))" and "pixel_offset fb (Vec (int l) (int t)) \<le> length m"
    and "in_rect p (fb_area new) \<Longrightarrow>
      in_rect (p + Vec (int l) (int t)) (fb_area fb) \<and> pixel new p = pixel fb (p + Vec (int l) (int t))"
proof -
  let ?o = "pixel_offset fb (Vec (int l) (int t))" and ?s = "stride fb"
  have s: "4 * width fb \<le> ?s" "?s * height fb < 2 ^ 31" "?s * height fb \<le> length m" "?s < 2 ^ 31" "height fb < 2 ^ 31"
    using ok m by (auto simp: fb_ok_def)
  have o: "?o = ?s * t + 4 * l" by (simp add: pixel_offset_def)
  have "?s * (t + h + 1) \<le> ?s * height fb" using t by (rule mult_le_mono2)
  then have rows: "?s * t + ?s * h + ?s \<le> ?s * height fb" by (simp add: algebra_simps)
  have l4: "4 * l + 4 * w \<le> ?s" using l s(1) by simp
  show o_le: "?o \<le> length m" using rows l4 s(3) o by linarith
  have wh: "w < 2 ^ 32" "h < 2 ^ 32" using l4 s(4,5) t by simp_all
  have dims: "width new = w" "height new = h" "stride new = ?s" "pixel_format new = pixel_format fb"
    "frame_buffer new = Some (drop ?o m)"
    using wh by (simp_all add: new width_def height_def stride_def unat_of_nat)
  have len: "?s * h \<le> length (drop ?o m)" using rows l4 s(3) o by simp linarith?
  have "?s * h < 2 ^ 31" using rows s(2) by linarith
  then show "fb_ok new" using ok len l4 s(4) wh t s(5) by (simp add: fb_ok_def dims)
  show area: "fb_area new = Rect (Vec 0 0) (Vec (int w) (int h))" by (simp add: fb_area_def dims)
  assume p: "in_rect p (fb_area new)"
  then have b: "0 \<le> vx p" "vx p < int w" "0 \<le> vy p" "vy p < int h" by (simp_all add: area in_rect_def)
  then have q: "in_rect (p + Vec (int l) (int t)) (fb_area fb)" using l t by (simp add: in_rect_def fb_area_def)
  have "nat (vy p + int t) = nat (vy p) + t" "nat (vx p + int l) = nat (vx p) + l" using b by simp_all
  then have off: "pixel_offset fb (p + Vec (int l) (int t)) = ?o + pixel_offset new p"
    by (simp add: o pixel_offset_def dims algebra_simps)
  have "drop ?o m ! (pixel_offset new p + k) = m ! (?o + pixel_offset new p + k)" for k
    using o_le by (simp add: add.assoc)
  from this[of 0] this[of 1] this[of 2] have "pixel new p = pixel fb (p + Vec (int l) (int t))"
    unfolding pixel_def Let_def dims m option.sel off by simp
  then show "in_rect (p + Vec (int l) (int t)) (fb_area fb) \<and> pixel new p = pixel fb (p + Vec (int l) (int t))" using q by simp
qed

lemma sint_of_int_small: "- (2 ^ 31) \<le> k \<Longrightarrow> k < 2 ^ 31 \<Longrightarrow> sint (of_int k :: u32) = k"
proof -
  assume h: "- (2 ^ 31) \<le> k" "k < 2 ^ 31"
  have "signed_take_bit 31 k = k" by (intro signed_take_bit_int_eq_self) (use h in linarith)+
  then show ?thesis by (simp add: signed_of_int)
qed

text \<open>The numbers of the function.\<close>

lemma shrink_numbers:
  assumes ok: "fb_ok fb" and W: "768 \<le> width fb" and H: "543 < height fb" and b: "banner_ok b"
  defines "l \<equiv> (width fb - 768) div 2" and "t \<equiv> (height fb - 543) div 3"
  defines "ml \<equiv> (horizontal_resolution fb - 768) div 2" and "mt \<equiv> (vertical_resolution fb - 543) div 3"
  shows "ml = of_nat l" "mt = of_nat t" "unat (543 + mt) = 543 + t" "543 + t < height fb"
    and "unat (min (543 + mt + banner_height b) (vertical_resolution fb)) = min (543 + t + unat (banner_height b)) (height fb)"
    and "sint (384 + ml) = 384 + int l"
    and "sint (of_int (384 + int l) - banner_width b div 2 :: u32) = 384 + int l - int (unat (banner_width b) div 2)"
    and "sint (of_int (384 + int l - int (unat (banner_width b) div 2)) + banner_width b) =
      384 + int l - int (unat (banner_width b) div 2) + int (unat (banner_width b))"
    and "sint (horizontal_resolution fb) = int (width fb)" and "l < 2 ^ 29"
proof -
  have dims: "4 * width fb * 544 < 2 ^ 31" "height fb < 2 ^ 31"
  proof -
    have "4 * width fb * 544 \<le> stride fb * height fb" using ok H by (intro mult_le_mono) (auto simp: fb_ok_def)
    then show "4 * width fb * 544 < 2 ^ 31" "height fb < 2 ^ 31" using ok by (auto simp: fb_ok_def)
  qed
  have bw: "unat (banner_width b) < 2 ^ 30" "unat (banner_height b) < 2 ^ 30" using b by (simp_all add: banner_ok_def)
  have l: "l < 2 ^ 29" "l + 768 \<le> width fb" using dims(1) W by (simp_all add: l_def)
  have t: "t < 2 ^ 30" "543 + t < height fb" using dims(2) H by (simp_all add: t_def) linarith?
  show "l < 2 ^ 29" by (rule l)
  have uml: "unat ml = l" using banner_words[of 768 "horizontal_resolution fb" 2] W by (simp add: ml_def l_def width_def)
  have umt: "unat mt = t" using banner_words[of 543 "vertical_resolution fb" 3] H by (simp add: mt_def t_def height_def)
  show ml: "ml = of_nat l" by (simp flip: uml)
  show mt: "mt = of_nat t" by (simp flip: umt)
  show ys: "unat (543 + mt) = 543 + t" using t(1) umt by (simp add: unat_word_ariths)
  show "543 + t < height fb" by (rule t)
  have "unat (543 + mt + banner_height b) = 543 + t + unat (banner_height b)"
    using ys t(1) bw by (simp add: unat_word_ariths)
  then show "unat (min (543 + mt + banner_height b) (vertical_resolution fb)) = min (543 + t + unat (banner_height b)) (height fb)"
    by (simp add: min_def word_le_nat_alt height_def)
  have "unat (384 + ml) = 384 + l" using l(1) uml by (simp add: unat_word_ariths)
  then show "sint (384 + ml) = 384 + int l" using sint_small[of "384 + ml"] l(1) by simp
  let ?w = "unat (banner_width b)"
  have half: "banner_width b div 2 = of_int (int (?w div 2))"
    by (rule word_unat_eq_iff[THEN iffD2]) (use bw in \<open>simp add: unat_div_distrib unat_of_nat\<close>)
  have "(of_int (384 + int l) - banner_width b div 2 :: u32) = of_int (384 + int l - int (?w div 2))"
    unfolding half by simp
  then show "sint (of_int (384 + int l) - banner_width b div 2 :: u32) = 384 + int l - int (?w div 2)"
    using sint_of_int_small[of "384 + int l - int (?w div 2)"] l(1) bw(1) by simp
  have "of_int (384 + int l - int (?w div 2)) + banner_width b = of_int (384 + int l - int (?w div 2) + int ?w)" by simp
  moreover have bound: "- (2 ^ 31) \<le> 384 + int i - int (j div 2) + int j \<and> 384 + int i - int (j div 2) + int j < 2 ^ 31"
    if "i < 2 ^ 29" "j < 2 ^ 30" for i j :: nat
    using that div_le_dividend[of j 2] by simp
  note bound[OF l(1) bw(1)]
  ultimately show "sint (of_int (384 + int l - int (?w div 2)) + banner_width b) = 384 + int l - int (?w div 2) + int ?w"
    using sint_of_int_small by metis
  have "width fb < 2 ^ 31" using dims(1) by simp
  then show "sint (horizontal_resolution fb) = int (width fb)" using sint_small by (simp add: width_def)
qed

text \<open>The kernel gets a screen of 768 x 543 pixels inside of the frame buffer, and the banner stays outside of it. On every
  well-formed frame buffer of at least 768 x 544 pixels the function returns a well-formed screen of this size, every pixel of
  which is the pixel of the frame buffer at the same distance from the corner of the screen (so nothing the kernel draws later
  leaves the frame buffer) and is not touched by the banner; the rows below the screen show the picture of the banner, cut
  at the edges of the frame buffer, and all other pixels are kept.\<close>

theorem DrawBanner_screen:
  assumes ok: "fb_ok fb" and size: "768 \<le> width fb" "543 < height fb" and b: "banner_ok b"
  shows "\<exists>fb' new. DrawBannerAndShrinkScreenTo768x543 b fb = Some (fb', new) \<and> fb_ok fb' \<and> fb_area fb' = fb_area fb \<and>
    fb_ok new \<and> fb_area new = Rect (Vec 0 0) (Vec 768 543) \<and>
    (\<forall>p. in_rect p (fb_area new) \<longrightarrow> in_rect (p + screen_corner fb) (fb_area fb) \<and> pixel new p = pixel fb (p + screen_corner fb)) \<and>
    (\<forall>q. in_rect q (fb_area fb) \<longrightarrow> pixel fb' q =
      (if in_rect q (Rect (banner_corner b fb) (Vec (int (unat (banner_width b))) (int (unat (banner_height b)))))
       then banner_pixel b (q - banner_corner b fb) else pixel fb q))"
proof -
  define l t where "l = (width fb - 768) div 2" and "t = (height fb - 543) div 3"
  let ?w = "unat (banner_width b)" and ?h = "unat (banner_height b)"
  note num = shrink_numbers[OF ok size b, folded l_def t_def]
  define xl y0 where "xl = 384 + int l - int (?w div 2)" and "y0 = int (543 + t)"
  have sc: "screen_corner fb = Vec (int l) (int t)"
    using size by (simp add: screen_corner_def l_def t_def zdiv_int of_nat_diff)
  have bc: "banner_corner b fb = Vec xl y0" by (simp add: banner_corner_def sc xl_def y0_def)
  let ?x1 = "min (xl + int ?w) (int (width fb))" and ?y1 = "min (y0 + int ?h) (int (height fb))"
  let ?ps = "concat (map (\<lambda>y. map (\<lambda>x. (x, y)) [max xl 0..?x1 - 1]) [y0..?y1 - 1])"
  have ys: "y0 = int (unat (543 + (vertical_resolution fb - 543) div 3))" using num(3) by (simp add: y0_def)
  have inside: "\<forall>(x, y) \<in> set ?ps. in_rect (Vec x y) (fb_area fb) \<and> xl \<le> x \<and> x < xl + int ?w \<and> y0 \<le> y \<and> y < y0 + int ?h"
    by (auto simp: in_rect_def fb_area_def y0_def)
  have w: "write_banner b (543 + (vertical_resolution fb - 543) div 3) xl ?ps fb =
      draw_on FrameBuffer_Write (banner_drawing b xl y0 ?ps) fb"
    by (rule write_banner_draws[OF ok b ys inside])
  have "\<forall>(p, c) \<in> set (banner_drawing b xl y0 ?ps). in_rect p (fb_area fb)"
    using inside by (auto simp: banner_drawing_def)
  from fb_writer.draw_ok[OF ok this] obtain fb' where fb': "draw_on FrameBuffer_Write (banner_drawing b xl y0 ?ps) fb = Some fb'"
    "fb_ok fb'" "fb_area fb' = fb_area fb"
    and pix: "\<forall>q. in_rect q (fb_area fb) \<longrightarrow> pixel fb' q = (case drawn (banner_drawing b xl y0 ?ps) q of None \<Rightarrow> pixel fb q | Some c \<Rightarrow> c)"
    by blast
  have banner: "pixel fb' q = (if in_rect q (Rect (Vec xl y0) (Vec (int ?w) (int ?h))) then banner_pixel b (q - Vec xl y0) else pixel fb q)"
    if q: "in_rect q (fb_area fb)" for q
    using pix[rule_format, OF q] q unfolding drawn_banner by (auto simp: in_rect_def fb_area_def y0_def)
  obtain m where m: "frame_buffer fb' = Some m" using fb'(2) by (auto simp: fb_ok_def)
  have dims: "width fb' = width fb" "height fb' = height fb" using fb'(3) by (simp_all add: fb_area_def)
  have fits: "l + 768 \<le> width fb'" "t + 543 + 1 \<le> height fb'" using size num(4) by (simp_all add: dims l_def)
  let ?o = "pixel_offset fb' (Vec (int l) (int t))"
  define new where "new = fb'\<lparr>frame_buffer := Some (drop ?o m), horizontal_resolution := of_nat 768, vertical_resolution := of_nat 543\<rparr>"
  note S = shrunk_ok[OF fb'(2) m fits new_def]
  have bpp: "BytesPerPixel (pixel_format fb') = 4" using fb'(2) by (auto simp: fb_ok_def BytesPerPixel_def)
  have off: "unat (of_int (BytesPerPixel (pixel_format fb')) * (pixels_per_scan_line fb' * ((vertical_resolution fb - 543) div 3) +
      (horizontal_resolution fb - 768) div 2) :: u32) = ?o"
    using offset_word[OF fb'(2), of "Vec (int l) (int t)"] fits unfolding bpp num(1,2) by simp
  have y1: "int (unat (min (543 + (vertical_resolution fb - 543) div 3 + banner_height b) (vertical_resolution fb))) = ?y1"
    unfolding num(5) by (simp only: of_nat_min y0_def of_nat_add)
  have hb: "\<not> 2 ^ 31 \<le> min (543 + t + ?h) (height fb)" using ok by (auto simp: fb_ok_def)
  have ge: "\<not> horizontal_resolution fb < 768" "\<not> vertical_resolution fb < 543"
    using size by (simp_all add: word_less_nat_alt width_def height_def)
  have xr: "sint (of_int xl + banner_width b) = xl + int ?w" using num(8) by (simp only: xl_def)
  have half: "(768 :: u32) div 2 = 384" by simp
  have new_eq: "new = \<lparr>frame_buffer = Some (drop ?o m), pixels_per_scan_line = pixels_per_scan_line fb',
      horizontal_resolution = 768, vertical_resolution = 543, pixel_format = pixel_format fb'\<rparr>"
    by (cases fb') (simp add: new_def)
  have run: "DrawBannerAndShrinkScreenTo768x543 b fb = Some (fb', new)"
    unfolding DrawBannerAndShrinkScreenTo768x543_def FIXED_HORIZONTAL_RES_def FIXED_VERTICAL_RES_def Let_def half num(6)
      num(7)[folded xl_def] xr num(9) y1 num(3) y0_def[symmetric] new_eq
    unfolding num(5)
    using ge hb w[unfolded fb'(1)] m off S(3) by simp
  have "pixel fb' (p + Vec (int l) (int t)) = pixel fb (p + Vec (int l) (int t))" if "in_rect p (fb_area new)" for p
  proof -
    have "vy p < 543" using that S(2) by (simp add: in_rect_def)
    then have "\<not> in_rect (p + Vec (int l) (int t)) (Rect (Vec xl y0) (Vec (int ?w) (int ?h)))" by (simp add: in_rect_def y0_def)
    then show ?thesis using banner S(4)[OF that] fb'(3) by simp
  qed
  then show ?thesis using run fb'(2,3) S(1,2) S(4) banner unfolding sc bc by (intro exI[of _ fb'] exI[of _ new]) simp
qed

text \<open>Example: a buffer of 768 x 544 pixels, with a banner of one pixel.\<close>

definition small_banner :: OsBannerPixels where
  "small_banner = \<lparr>banner_width = 1, banner_height = 1, bytes_per_pixel = 3, pixel_data = [1, 2, 3]\<rparr>"

definition small_screen :: FrameBufferConfig where
  "small_screen = \<lparr>frame_buffer = Some (replicate (4 * 768 * 544) 7), pixels_per_scan_line = 768, horizontal_resolution = 768,
     vertical_resolution = 544, pixel_format = kPixelRGBResv8BitPerColor\<rparr>"

theorem DrawBanner_screen_witness:
  "\<exists>fb' new. DrawBannerAndShrinkScreenTo768x543 small_banner small_screen = Some (fb', new) \<and>
     pixel new (Vec 767 542) = Color 7 7 7 \<and> pixel fb' (Vec 384 543) = Color 1 2 3 \<and> pixel fb' (Vec 385 543) = Color 7 7 7"
proof -
  have d: "width small_screen = 768" "height small_screen = 544" "stride small_screen = 4 * 768"
    by (simp_all add: small_screen_def width_def height_def stride_def)
  have ok: "fb_ok small_screen" unfolding fb_ok_def d by (simp add: small_screen_def)
  have b: "banner_ok small_banner" by (simp add: banner_ok_def small_banner_def)
  have c: "screen_corner small_screen = Vec 0 0" "banner_corner small_banner small_screen = Vec 384 543"
    by (simp_all add: screen_corner_def banner_corner_def d small_banner_def)
  have a: "fb_area small_screen = Rect (Vec 0 0) (Vec 768 544)" by (simp add: fb_area_def d)
  have seven: "pixel small_screen p = Color 7 7 7" if "in_rect p (fb_area small_screen)" for p
  proof -
    have "pixel_offset small_screen p + 4 \<le> 4 * 768 * 544" using offset_bound[OF ok that] by (simp add: d)
    then show ?thesis by (simp add: pixel_def Let_def) (simp add: small_screen_def)
  qed
  have s: "768 \<le> width small_screen" "543 < height small_screen" by (simp_all add: d)
  from DrawBanner_screen[OF ok s b] obtain fb' new where
    r: "DrawBannerAndShrinkScreenTo768x543 small_banner small_screen = Some (fb', new)"
    and n: "fb_area new = Rect (Vec 0 0) (Vec 768 543)"
    and p1: "\<forall>p. in_rect p (fb_area new) \<longrightarrow> in_rect (p + Vec 0 0) (fb_area small_screen) \<and> pixel new p = pixel small_screen (p + Vec 0 0)"
    and p2: "\<forall>q. in_rect q (fb_area small_screen) \<longrightarrow> pixel fb' q =
      (if in_rect q (Rect (Vec 384 543) (Vec (int (unat (banner_width small_banner))) (int (unat (banner_height small_banner)))))
       then banner_pixel small_banner (q - Vec 384 543) else pixel small_screen q)"
    unfolding c by blast
  have "pixel new (Vec 767 542) = Color 7 7 7" using p1[rule_format, of "Vec 767 542"] seven n by (simp add: in_rect_def)
  moreover have "pixel fb' (Vec 384 543) = Color 1 2 3"
    using p2[rule_format, of "Vec 384 543"] by (simp add: in_rect_def a small_banner_def banner_pixel_def)
  moreover have "pixel fb' (Vec 385 543) = Color 7 7 7"
    using p2[rule_format, of "Vec 385 543"] seven[of "Vec 385 543"] by (simp add: in_rect_def a small_banner_def)
  ultimately show ?thesis using r by blast
qed

subsection \<open>Where keys go\<close>

lemma set_main_manager_simps [simp]:
  "sched (main_world (set_main_manager lm m)) = sched (main_world m)"
  "normal_text_window (set_main_manager lm m) = normal_text_window m" "bhat_text_window (set_main_manager lm m) = bhat_text_window m"
  "bhat_content (set_main_manager lm m) = bhat_content m" "pekzep_text_window (set_main_manager lm m) = pekzep_text_window m"
  "pekzep_state (set_main_manager lm m) = pekzep_state m"
  by (simp_all add: set_main_manager_def sched_def)

lemma sched_set_sched [simp]: "sched (set_sched tm w) = tm"
  by (simp add: sched_def set_sched_def)

text \<open>A terminal on F2 is a new task that will run \<open>TaskTerminal\<close>; no other task is touched.\<close>

lemma new_terminal_task_created:
  assumes "new_terminal v w = Some w'" and "sched_inv (sched w)" and "j = latest_id (sched w) + 1"
  shows "\<exists>k. tasks (sched w') = (tasks (sched w))(j \<mapsto> k) \<and> tasks (sched w) j = None \<and> msgs k = [] \<and> task_running k \<and>
    task_level k = kDefaultLevel \<and> rip (task_context k) = task_terminal v \<and> rdi (task_context k) = of_nat j \<and>
    rsi (task_context k) = 0 \<and> cr3 (task_context k) = of_nat (4096 * CR3 (machine w)) \<and>
    run_queue (sched w') = (run_queue (sched w))(kDefaultLevel := run_queue (sched w) kDefaultLevel @ [j]) \<and>
    w' = set_sched (sched w') w"
proof -
  have "tasks (sched w) j = None" using NewTask_ok[OF assms(2)] assms(3) by (simp add: NewTask_def Let_def)
  then show ?thesis using assms(1,3)
    by (auto simp: new_terminal_def NewTask_def Let_def upd_task_def Wakeup_def upd_queue_def new_Task_def InitContext_def bind_eq_Some_conv
        split: if_splits)
qed

lemma send_to_mail:
  assumes "sched_inv (sched (main_world m))"
  shows "\<exists>tm. send_to i msg m = Some (m\<lparr>main_world := set_sched tm (main_world m)\<rparr>) \<and>
    mailbox tm = (case mailbox (sched (main_world m)) i of None \<Rightarrow> mailbox (sched (main_world m))
      | Some ms \<Rightarrow> (mailbox (sched (main_world m)))(i \<mapsto> ms @ [msg]))"
proof (cases "mailbox (sched (main_world m)) i")
  case None
  then show ?thesis using task_mail.send_unknown[OF assms None]
    by (intro exI[of _ "sched (main_world m)"]) (simp add: send_to_def)
next
  case (Some ms)
  then show ?thesis using task_mail.send_known[OF assms Some, of msg] by (auto simp: send_to_def)
qed

text \<open>C38: A key has one receiver. When the main task handles a key message, only the text box whose layer is active can change,
  with its text or candidates; with no text box active, a pressed F2 adds one task, which is ready to run at the default level,
  starts in \<open>TaskTerminal\<close> with its id and no descriptor as arguments and shares the page table, and leaves all
  other tasks, their mailboxes and the rest of the system as they are, and any other key arrives in the mailbox of the task that owns the active layer, behind what is there, and
  nowhere else.\<close>

theorem main_key_one_receiver:
  assumes inv: "sched_inv (sched (main_world m))" and msg: "arg msg = kKeyPush modifier keycode unicode press"
    and run: "main_message e msg m = Some m'" and act: "act = active_layer (desktop (main_world m))"
  shows "(act = text_window_layer_id (normal_text_window m) \<and> press \<or> normal_text_window m' = normal_text_window m) \<and>
    (act = text_window_layer_id (bhat_text_window m) \<and> press \<or>
      bhat_text_window m' = bhat_text_window m \<and> bhat_content m' = bhat_content m) \<and>
    (act = text_window_layer_id (pekzep_text_window m) \<and> press \<or>
      pekzep_text_window m' = pekzep_text_window m \<and> pekzep_state m' = pekzep_state m) \<and>
    mailbox (sched (main_world m')) = (let mail = mailbox (sched (main_world m)) in
      if act \<in> text_window_layer_id ` {normal_text_window m, bhat_text_window m, pekzep_text_window m} then mail
      else if press \<and> keycode = 59 then mail(latest_id (sched (main_world m)) + 1 \<mapsto> [])
      else case layer_task_map (desktop (main_world m)) act of None \<Rightarrow> mail
        | Some i \<Rightarrow> (case mail i of None \<Rightarrow> mail | Some ms \<Rightarrow> mail(i \<mapsto> ms @ [msg]))) \<and>
    (act \<notin> text_window_layer_id ` {normal_text_window m, bhat_text_window m, pekzep_text_window m} \<and> press \<and> keycode = 59 \<longrightarrow>
      (let w = main_world m; w' = main_world m'; j = latest_id (sched w) + 1 in \<exists>k.
        tasks (sched w') = (tasks (sched w))(j \<mapsto> k) \<and> tasks (sched w) j = None \<and> msgs k = [] \<and> task_running k \<and>
        task_level k = kDefaultLevel \<and> rip (task_context k) = task_terminal (main_env e) \<and> rdi (task_context k) = of_nat j \<and>
        rsi (task_context k) = 0 \<and> cr3 (task_context k) = of_nat (4096 * CR3 (machine w)) \<and>
        run_queue (sched w') = (run_queue (sched w))(kDefaultLevel := run_queue (sched w) kDefaultLevel @ [j]) \<and>
        w' = set_sched (sched w') w))"
proof -
  have key: "main_key e msg modifier keycode unicode press m = Some m'" using run msg by (simp add: main_message_def)
  let ?n = "act = text_window_layer_id (normal_text_window m)" and ?b = "act = text_window_layer_id (bhat_text_window m)"
    and ?p = "act = text_window_layer_id (pekzep_text_window m)"
  consider (box) "?n \<or> ?b \<or> ?p" | (f2) "\<not> ?n" "\<not> ?b" "\<not> ?p" "press" "keycode = 59"
    | (task) i where "\<not> ?n" "\<not> ?b" "\<not> ?p" "\<not> (press \<and> keycode = 59)" "layer_task_map (desktop (main_world m)) act = Some i"
    | (none) "\<not> ?n" "\<not> ?b" "\<not> ?p" "\<not> (press \<and> keycode = 59)" "layer_task_map (desktop (main_world m)) act = None"
    by (cases "layer_task_map (desktop (main_world m)) act") auto
  then show ?thesis
  proof cases
    case box
    then show ?thesis using key act by (auto simp: main_key_def Let_def split: if_splits)
  next
    case f2
    then obtain w where w: "new_terminal (main_env e) (main_world m) = Some w" "m' = m\<lparr>main_world := w\<rparr>"
      using key act by (auto simp: main_key_def Let_def)
    note T = new_terminal_task_created[OF w(1) inv refl]
    have "mailbox (sched w) = (mailbox (sched (main_world m)))(latest_id (sched (main_world m)) + 1 \<mapsto> [])"
      using T by (auto simp: mailbox_def)
    then show ?thesis using f2 act T w(2) by (auto simp: Let_def)
  next
    case task
    then have "send_to i msg m = Some m'" using key act by (auto simp: main_key_def Let_def)
    then show ?thesis using task act send_to_mail[OF inv, of i msg] by (auto simp: Let_def)
  next
    case none
    then show ?thesis using key act by (auto simp: main_key_def main_printk_def Let_def)
  qed
qed

text \<open>Example: layer 0 is active and belongs to task 2, the boxes have layer 1; the key a is pressed.\<close>

definition main_example :: "Logger \<Rightarrow> MainTask" where
  "main_example l = \<lparr>main_world = shell_world\<lparr>desktop := (desktop shell_world)\<lparr>layer_task_map := [0 \<mapsto> 2]\<rparr>\<rparr>, main_log = l,
     normal_text_window = sample_box, bhat_text_window = sample_box, bhat_content = [], pekzep_text_window = sample_box,
     pekzep_state = new_IMEState, counter_window = 0, counter_window_layer_id = 0\<rparr>"

definition main_env_example :: MainEnv where
  "main_env_example = \<lparr>main_env = shell_env, process_events = Some\<rparr>"

theorem main_key_one_receiver_witness:
  "\<forall>l. (\<exists>m'. main_message main_env_example (mk_Message (kKeyPush 0 4 0x61 True)) (main_example l) = Some m' \<and>
       normal_text_window m' = sample_box \<and>
       mailbox (sched (main_world m')) 2 = Some [mk_Message (kKeyPush 0 4 0x61 True)] \<and>
       mailbox (sched (main_world m')) 1 = Some []) \<and>
     (\<exists>m' k. main_message main_env_example (mk_Message (kKeyPush 0 59 0 True)) (main_example l) = Some m' \<and>
       tasks (sched (main_world m')) 3 = Some k \<and> task_running k \<and> rip (task_context k) = task_terminal shell_env)"
proof (intro allI conjI)
  fix l
  let ?m = "main_example l" and ?msg = "mk_Message (kKeyPush 0 4 0x61 True)" and ?f2 = "mk_Message (kKeyPush 0 59 0 True)"
  have tm: "sched (main_world ?m) = new_TaskManager 0 0 0" by (simp add: main_example_def sched_def shell_world_def)
  then have inv: "sched_inv (sched (main_world ?m))" by (simp add: new_TaskManager_ok)
  have mail: "mailbox (sched (main_world ?m)) 2 = Some []" "mailbox (sched (main_world ?m)) 1 = Some []"
    unfolding tm by (simp_all add: mailbox_def new_TaskManager_def NewTask_def empty_TaskManager_def upd_task_def upd_queue_def
        Let_def new_Task_def InitContext_def)
  have d: "active_layer (desktop (main_world ?m)) = 0" "layer_task_map (desktop (main_world ?m)) 0 = Some 2"
    "text_window_layer_id (normal_text_window ?m) = 1" "text_window_layer_id (bhat_text_window ?m) = 1"
    "text_window_layer_id (pekzep_text_window ?m) = 1" "normal_text_window ?m = sample_box"
    by (simp_all add: main_example_def shell_world_def sample_box_def)
  have "main_message main_env_example ?msg ?m = send_to 2 ?msg ?m"
    using d by (simp add: main_message_def main_key_def mk_Message_def Let_def)
  then obtain m' where r: "main_message main_env_example ?msg ?m = Some m'"
    using send_to_mail[OF inv, of 2 ?msg] by auto
  have "arg ?msg = kKeyPush 0 4 0x61 True" by (simp add: mk_Message_def)
  from main_key_one_receiver[OF inv this r refl] show "\<exists>m'. main_message main_env_example ?msg ?m = Some m' \<and>
     normal_text_window m' = sample_box \<and> mailbox (sched (main_world m')) 2 = Some [?msg] \<and> mailbox (sched (main_world m')) 1 = Some []"
    using r d mail by (simp add: Let_def)
  have "\<exists>w. new_terminal (main_env main_env_example) (main_world ?m) = Some w"
    unfolding new_terminal_def tm
    by (simp add: new_TaskManager_def NewTask_def empty_TaskManager_def upd_task_def upd_queue_def Wakeup_def
        Let_def new_Task_def InitContext_def kDefaultLevel_def kMaxLevel_def)
  then obtain m' where r2: "main_message main_env_example ?f2 ?m = Some m'"
    using d by (auto simp: main_message_def main_key_def mk_Message_def Let_def)
  have a: "arg ?f2 = kKeyPush 0 59 0 True" by (simp add: mk_Message_def)
  have id: "latest_id (new_TaskManager 0 0 0 :: nat TaskManager) = 2"
    by (simp add: new_TaskManager_def NewTask_def empty_TaskManager_def upd_task_def upd_queue_def Let_def)
  obtain k where "tasks (sched (main_world m')) = (tasks (sched (main_world ?m)))(3 \<mapsto> k)" "task_running k"
    "rip (task_context k) = task_terminal (main_env main_env_example)"
    using main_key_one_receiver[OF inv a r2 refl] d tm id by (auto simp: Let_def)
  then show "\<exists>m' k. main_message main_env_example ?f2 ?m = Some m' \<and>
     tasks (sched (main_world m')) 3 = Some k \<and> task_running k \<and> rip (task_context k) = task_terminal shell_env"
    using r2 by (intro exI[of _ m'] exI[of _ k]) (simp add: main_env_example_def)
qed

end
