(* ===== verification/Loader.thy ===== *)
theory Loader
  imports AppLoad Acpi
begin

text \<open>
  The boot loader: \<^verbatim>\<open>MikanLoaderPkg/Main.c\<close>. The firmware is an argument: \<open>Firmware\<close> holds its services, which act on the
  memory and on a state of its own and return an \<open>EFI_STATUS\<close>. Its numbers for memory types and pixel formats are in the
  order of the tests below. \<open>Print\<close> is not modelled. \<open>None\<close> is \<open>Halt\<close>, or a loop that
  does not end.
\<close>

subsection \<open>The firmware\<close>

record MemoryMap =
  buffer_size :: u64
  map_buffer :: u64
  map_size :: u64
  map_key :: u64
  descriptor_size :: u64
  descriptor_version :: u32

datatype Guid = LoadedImageProtocolGuid | SimpleFileSystemProtocolGuid | GraphicsOutputProtocolGuid | BlockIoProtocolGuid

record GopMode =
  FrameBufferBase :: u64
  FrameBufferSize :: u64
  HorizontalResolution :: u32
  VerticalResolution :: u32
  PixelsPerScanLine :: u32
  gop_PixelFormat :: u32

record Media =
  MediaId :: u32
  BlockSize :: u32
  LastBlock :: u64

record 's Boot =
  boot_mem :: "u64 \<Rightarrow> u8"
  boot_fw :: 's

text \<open>The two functions of \<^verbatim>\<open>BaseMemoryLib\<close> on memory: destination, source and length; start, length and value.\<close>

record BaseMemoryLib =
  lib_CopyMem :: "u64 \<Rightarrow> u64 \<Rightarrow> u64 \<Rightarrow> (u64 \<Rightarrow> u8) \<Rightarrow> u64 \<Rightarrow> u8"
  lib_SetMem :: "u64 \<Rightarrow> u64 \<Rightarrow> u8 \<Rightarrow> (u64 \<Rightarrow> u8) \<Rightarrow> u64 \<Rightarrow> u8"

record 's Firmware =
  fw_EFI_ERROR :: "u64 \<Rightarrow> bool"
  fw_EFI_SUCCESS :: u64
  fw_EFI_BUFFER_TOO_SMALL :: u64
  fw_memory_lib :: BaseMemoryLib
  fw_GetMemoryMap :: "MemoryMap \<Rightarrow> 's Boot \<Rightarrow> 's Boot \<times> MemoryMap \<times> u64"
  fw_OpenProtocol :: "nat \<Rightarrow> Guid \<Rightarrow> nat \<Rightarrow> 's Boot \<Rightarrow> 's Boot \<times> nat \<times> u64"
  fw_LocateHandleBuffer :: "Guid \<Rightarrow> 's Boot \<Rightarrow> 's Boot \<times> nat list \<times> u64"
  fw_FreePool :: "u64 \<Rightarrow> 's Boot \<Rightarrow> 's Boot \<times> unit \<times> u64"
  fw_FreeHandles :: "nat list \<Rightarrow> 's Boot \<Rightarrow> 's Boot"
  fw_AllocatePool :: "u64 \<Rightarrow> 's Boot \<Rightarrow> 's Boot \<times> u64 \<times> u64"
  fw_AllocatePages :: "u64 \<Rightarrow> u64 \<Rightarrow> 's Boot \<Rightarrow> 's Boot \<times> unit \<times> u64"
  fw_ExitBootServices :: "nat \<Rightarrow> u64 \<Rightarrow> 's Boot \<Rightarrow> 's Boot \<times> unit \<times> u64"
  fw_DeviceHandle :: "nat \<Rightarrow> nat"
  fw_OpenVolume :: "nat \<Rightarrow> 's Boot \<Rightarrow> 's Boot \<times> nat \<times> u64"
  fw_Open :: "nat \<Rightarrow> string \<Rightarrow> bool \<Rightarrow> 's Boot \<Rightarrow> 's Boot \<times> nat \<times> u64"
  fw_Close :: "nat \<Rightarrow> 's Boot \<Rightarrow> 's Boot \<times> unit \<times> u64"
  fw_Write :: "nat \<Rightarrow> u8 list \<Rightarrow> 's Boot \<Rightarrow> 's Boot \<times> unit \<times> u64"
  fw_FileSize :: "nat \<Rightarrow> 's Boot \<Rightarrow> 's Boot \<times> u64 \<times> u64"
  fw_Read :: "nat \<Rightarrow> u64 \<Rightarrow> u64 \<Rightarrow> 's Boot \<Rightarrow> 's Boot \<times> unit \<times> u64"
  fw_Mode :: "nat \<Rightarrow> GopMode"
  fw_Media :: "nat \<Rightarrow> Media"
  fw_ReadBlocks :: "nat \<Rightarrow> u32 \<Rightarrow> u64 \<Rightarrow> u64 \<Rightarrow> u64 \<Rightarrow> 's Boot \<Rightarrow> 's Boot \<times> unit \<times> u64"
  fw_ConfigurationTable :: "(bool \<times> u64) list"
  fw_SPrint :: "nat \<Rightarrow> u32 \<Rightarrow> string \<Rightarrow> u64 \<Rightarrow> u64 \<Rightarrow> u64 \<Rightarrow> u8 list"

text \<open>The test of a status that is followed by \<open>Halt\<close>.\<close>

definition ok :: "'s Firmware \<Rightarrow> 's Boot \<times> 'a \<times> u64 \<Rightarrow> ('s Boot \<times> 'a) option" where
  "ok fw r = (if fw_EFI_ERROR fw (snd (snd r)) then None else Some (fst r, fst (snd r)))"

subsection \<open>The memory map\<close>

definition GetMemoryMap :: "'s Firmware \<Rightarrow> MemoryMap \<Rightarrow> 's Boot \<Rightarrow> 's Boot \<times> MemoryMap \<times> u64" where
  "GetMemoryMap fw memmap b =
     (if map_buffer memmap = 0 then (b, memmap, fw_EFI_BUFFER_TOO_SMALL fw)
      else fw_GetMemoryMap fw (memmap\<lparr>map_size := buffer_size memmap\<rparr>) b)"

definition GetMemoryTypeUnicode :: "u32 \<Rightarrow> string" where
  "GetMemoryTypeUnicode type =
     (let names = [''EfiReservedMemoryType'', ''EfiLoaderCode'', ''EfiLoaderData'', ''EfiBootServicesCode'',
        ''EfiBootServicesData'', ''EfiRuntimeServicesCode'', ''EfiRuntimeServicesData'', ''EfiConventionalMemory'',
        ''EfiUnusableMemory'', ''EfiACPIReclaimMemory'', ''EfiACPIMemoryNVS'', ''EfiMemoryMappedIO'',
        ''EfiMemoryMappedIOPortSpace'', ''EfiPalCode'', ''EfiPersistentMemory'', ''EfiMaxMemoryType'']
      in if unat type < length names then names ! unat type else ''InvalidMemoryType'')"

definition load_u32 :: "(u64 \<Rightarrow> u8) \<Rightarrow> u64 \<Rightarrow> u32" where "load_u32 mem a = of_bytes (load_bytes mem a 4)"
definition load_u64 :: "(u64 \<Rightarrow> u8) \<Rightarrow> u64 \<Rightarrow> u64" where "load_u64 mem a = of_bytes (load_bytes mem a 8)"

partial_function (option) save_descriptors ::
  "'s Firmware \<Rightarrow> MemoryMap \<Rightarrow> nat \<Rightarrow> u64 \<Rightarrow> nat \<Rightarrow> 's Boot \<Rightarrow> ('s Boot \<times> u64) option" where
  "save_descriptors fw memmap file iter i b =
     (if map_buffer memmap + map_size memmap \<le> iter then Some (b, fw_EFI_SUCCESS fw)
      else let type = load_u32 (boot_mem b) iter;
               line = fw_SPrint fw i type (GetMemoryTypeUnicode type) (load_u64 (boot_mem b) (iter + 8))
                        (load_u64 (boot_mem b) (iter + 24)) (load_u64 (boot_mem b) (iter + 32) AND 0xffffff);
               r = fw_Write fw file line b
      in if fw_EFI_ERROR fw (snd (snd r)) then Some (fst r, snd (snd r))
         else save_descriptors fw memmap file (iter + descriptor_size memmap) (i + 1) (fst r))"

definition SaveMemoryMap :: "'s Firmware \<Rightarrow> MemoryMap \<Rightarrow> nat \<Rightarrow> 's Boot \<Rightarrow> ('s Boot \<times> u64) option" where
  "SaveMemoryMap fw memmap file b =
     (let r = fw_Write fw file (str ''Index, Type, Type(name), PhysicalStart, NumberOfPages, Attribute'' @ [10]) b
      in if fw_EFI_ERROR fw (snd (snd r)) then Some (fst r, snd (snd r))
         else save_descriptors fw memmap file (map_buffer memmap) 0 (fst r))"

subsection \<open>Protocols\<close>

definition OpenRootDir :: "'s Firmware \<Rightarrow> nat \<Rightarrow> 's Boot \<Rightarrow> 's Boot \<times> nat \<times> u64" where
  "OpenRootDir fw image_handle b =
     (let (b1, loaded_image, s1) = fw_OpenProtocol fw image_handle LoadedImageProtocolGuid image_handle b
      in if fw_EFI_ERROR fw s1 then (b1, 0, s1)
         else let (b2, fs, s2) = fw_OpenProtocol fw (fw_DeviceHandle fw loaded_image) SimpleFileSystemProtocolGuid image_handle b1
         in if fw_EFI_ERROR fw s2 then (b2, 0, s2) else fw_OpenVolume fw fs b2)"

text \<open>The first handle of an empty buffer is undefined; the handle 0 stands for it.\<close>

definition OpenGOP :: "'s Firmware \<Rightarrow> nat \<Rightarrow> 's Boot \<Rightarrow> 's Boot \<times> nat \<times> u64" where
  "OpenGOP fw image_handle b =
     (let (b1, gop_handles, s1) = fw_LocateHandleBuffer fw GraphicsOutputProtocolGuid b
      in if fw_EFI_ERROR fw s1 then (b1, 0, s1)
         else let (b2, gop, s2) = fw_OpenProtocol fw (case gop_handles of h # _ \<Rightarrow> h | [] \<Rightarrow> 0) GraphicsOutputProtocolGuid image_handle b1
         in if fw_EFI_ERROR fw s2 then (b2, gop, s2) else (fw_FreeHandles fw gop_handles b2, gop, fw_EFI_SUCCESS fw))"

definition GetPixelFormatUnicode :: "u32 \<Rightarrow> string" where
  "GetPixelFormatUnicode fmt =
     (let names = [''PixelRedGreenBlueReserved8BitPerColor'', ''PixelBlueGreenRedReserved8BitPerColor'', ''PixelBitMask'',
        ''PixelBltOnly'', ''PixelFormatMax'']
      in if unat fmt < length names then names ! unat fmt else ''InvalidPixelFormat'')"

definition Loader_ReadFile :: "'s Firmware \<Rightarrow> nat \<Rightarrow> 's Boot \<Rightarrow> 's Boot \<times> u64 \<times> u64" where
  "Loader_ReadFile fw file b =
     (let (b1, file_size, s1) = fw_FileSize fw file b
      in if fw_EFI_ERROR fw s1 then (b1, 0, s1)
         else let (b2, buffer, s2) = fw_AllocatePool fw file_size b1
         in if fw_EFI_ERROR fw s2 then (b2, buffer, s2)
            else let (b3, _, s3) = fw_Read fw file file_size buffer b2 in (b3, buffer, s3))"

definition OpenBlockIoProtocolForLoadedImage :: "'s Firmware \<Rightarrow> nat \<Rightarrow> 's Boot \<Rightarrow> 's Boot \<times> nat \<times> u64" where
  "OpenBlockIoProtocolForLoadedImage fw image_handle b =
     (let (b1, loaded_image, s1) = fw_OpenProtocol fw image_handle LoadedImageProtocolGuid image_handle b
      in if fw_EFI_ERROR fw s1 then (b1, 0, s1)
         else fw_OpenProtocol fw (fw_DeviceHandle fw loaded_image) BlockIoProtocolGuid image_handle b1)"

definition ReadBlocks :: "'s Firmware \<Rightarrow> nat \<Rightarrow> u32 \<Rightarrow> u64 \<Rightarrow> 's Boot \<Rightarrow> 's Boot \<times> u64 \<times> u64" where
  "ReadBlocks fw block_io media_id num_bytes b =
     (let (b1, buffer, s1) = fw_AllocatePool fw num_bytes b
      in if fw_EFI_ERROR fw s1 then (b1, buffer, s1)
         else let (b2, _, s2) = fw_ReadBlocks fw block_io media_id 0 num_bytes buffer b1 in (b2, buffer, s2))"

subsection \<open>Loading the kernel\<close>

definition load_e_phoff :: "(u64 \<Rightarrow> u8) \<Rightarrow> u64 \<Rightarrow> u64" where "load_e_phoff mem ehdr = load_u64 mem (ehdr + 32)"
definition load_e_phnum :: "(u64 \<Rightarrow> u8) \<Rightarrow> u64 \<Rightarrow> u16" where "load_e_phnum mem ehdr = of_bytes (load_bytes mem (ehdr + 56) 2)"
definition load_Phdr :: "(u64 \<Rightarrow> u8) \<Rightarrow> u64 \<Rightarrow> nat \<Rightarrow> Phdr" where
  "load_Phdr mem phdr i = decode_Phdr (load_bytes mem (phdr + of_nat (sizeof_Phdr * i)) sizeof_Phdr)"

definition CalcLoadAddressRange :: "(u64 \<Rightarrow> u8) \<Rightarrow> u64 \<Rightarrow> u64 \<times> u64" where
  "CalcLoadAddressRange mem ehdr =
     (let phdr = ehdr + load_e_phoff mem ehdr
      in fold (\<lambda>i (first, last). let p = load_Phdr mem phdr i
           in if p_type p \<noteq> PT_LOAD then (first, last)
              else (min first (p_vaddr p), max last (p_vaddr p + p_memsz p)))
         [0..<unat (load_e_phnum mem ehdr)] (0xffffffffffffffff, 0))"

definition place_segment :: "BaseMemoryLib \<Rightarrow> u64 \<Rightarrow> Phdr \<Rightarrow> (u64 \<Rightarrow> u8) \<Rightarrow> u64 \<Rightarrow> u8" where
  "place_segment lib ehdr p mem =
     (if p_type p \<noteq> PT_LOAD then mem
      else lib_SetMem lib (p_vaddr p + p_filesz p) (p_memsz p - p_filesz p) 0 (lib_CopyMem lib (p_vaddr p) (ehdr + p_offset p) (p_filesz p) mem))"

text \<open>The loop reads the number of segments and every header when it needs it, from memory it may have changed.\<close>

function place_segments :: "BaseMemoryLib \<Rightarrow> u64 \<Rightarrow> u64 \<Rightarrow> nat \<Rightarrow> (u64 \<Rightarrow> u8) \<Rightarrow> u64 \<Rightarrow> u8" where
  "place_segments lib ehdr phdr i mem =
     (if unat (load_e_phnum mem ehdr) \<le> i then mem
      else place_segments lib ehdr phdr (Suc i) (place_segment lib ehdr (load_Phdr mem phdr i) mem))"
  by pat_completeness auto
termination
proof (relation "measure (\<lambda>(_, _, _, i, _). 2 ^ 16 - i)")
  fix lib mem ehdr phdr i
  assume "\<not> unat (load_e_phnum mem ehdr) \<le> i"
  then have "i < 2 ^ 16" using unsigned_less[of "load_e_phnum mem ehdr", where 'a = nat] by simp
  then show "((lib, ehdr, phdr, Suc i, place_segment lib ehdr (load_Phdr mem phdr i) mem), lib, ehdr, phdr, i, mem)
    \<in> measure (\<lambda>(_, _, _, i, _). 2 ^ 16 - i)" by simp
qed simp

declare place_segments.simps [simp del]

definition Loader_CopyLoadSegments :: "BaseMemoryLib \<Rightarrow> (u64 \<Rightarrow> u8) \<Rightarrow> u64 \<Rightarrow> u64 \<Rightarrow> u8" where
  "Loader_CopyLoadSegments lib mem ehdr = place_segments lib ehdr (ehdr + load_e_phoff mem ehdr) 0 mem"

definition kernel_pages :: "u64 \<Rightarrow> u64 \<Rightarrow> u64" where
  "kernel_pages first_addr last_addr = (last_addr - first_addr + 0xfff) div 0x1000"

subsection \<open>Booting\<close>

text \<open>What the kernel gets.\<close>

record Handover =
  ho_frame_buffer :: u64
  ho_pixels_per_scan_line :: u32
  ho_horizontal_resolution :: u32
  ho_vertical_resolution :: u32
  ho_pixel_format :: PixelFormat
  ho_memmap :: MemoryMap
  ho_acpi_table :: "u64 option"
  ho_volume_image :: u64
  ho_entry :: u64

text \<open>Lines that end in \<open>Halt\<close> when a service fails are uses of \<open>ok\<close>.\<close>

definition save_memmap_file :: "'s Firmware \<Rightarrow> nat \<Rightarrow> MemoryMap \<Rightarrow> 's Boot \<Rightarrow> 's Boot option" where
  "save_memmap_file fw root_dir memmap b =
     (let (b1, file, s1) = fw_Open fw root_dir (CHR 0x5c # ''memmap'') True b
      in if fw_EFI_ERROR fw s1 then Some b1
         else do {
           (b2, s2) \<leftarrow> SaveMemoryMap fw memmap file b1;
           if fw_EFI_ERROR fw s2 then None
           else do { (b3, _) \<leftarrow> ok fw (fw_Close fw file b2); Some b3 } })"

definition fill_bytes :: "u64 \<Rightarrow> u64 \<Rightarrow> u8 \<Rightarrow> (u64 \<Rightarrow> u8) \<Rightarrow> u64 \<Rightarrow> u8" where
  "fill_bytes dst len v mem = (\<lambda>a. if a - dst < len then v else mem a)"

definition fill_frame_buffer :: "GopMode \<Rightarrow> 's Boot \<Rightarrow> 's Boot" where
  "fill_frame_buffer mode b = b\<lparr>boot_mem := fill_bytes (FrameBufferBase mode) (FrameBufferSize mode) 255 (boot_mem b)\<rparr>"

text \<open>The result is the address of the first page.\<close>

definition load_kernel :: "'s Firmware \<Rightarrow> nat \<Rightarrow> 's Boot \<Rightarrow> ('s Boot \<times> u64) option" where
  "load_kernel fw root_dir b = do {
     (b1, kernel_file) \<leftarrow> ok fw (fw_Open fw root_dir (CHR 0x5c # ''kernel.elf'') False b);
     (b2, kernel_ehdr) \<leftarrow> ok fw (Loader_ReadFile fw kernel_file b1);
     let (first_addr, last_addr) = CalcLoadAddressRange (boot_mem b2) kernel_ehdr;
     (b3, _) \<leftarrow> ok fw (fw_AllocatePages fw (kernel_pages first_addr last_addr) first_addr b2);
     let b4 = b3\<lparr>boot_mem := Loader_CopyLoadSegments (fw_memory_lib fw) (boot_mem b3) kernel_ehdr\<rparr>;
     (b5, _) \<leftarrow> ok fw (fw_FreePool fw kernel_ehdr b4);
     Some (b5, first_addr) }"

definition volume_bytes :: "Media \<Rightarrow> u64" where
  "volume_bytes block_media = (let n = ucast (BlockSize block_media) * (LastBlock block_media + 1)
     in if n > 32 * 1024 * 1024 then 32 * 1024 * 1024 else n)"

definition load_volume :: "'s Firmware \<Rightarrow> nat \<Rightarrow> nat \<Rightarrow> 's Boot \<Rightarrow> ('s Boot \<times> u64) option" where
  "load_volume fw image_handle root_dir b =
     (let (b1, volume_file, status) = fw_Open fw root_dir (CHR 0x5c # ''fat_disk'') False b
      in if status = fw_EFI_SUCCESS fw then ok fw (Loader_ReadFile fw volume_file b1)
         else do {
           (b2, block_io) \<leftarrow> ok fw (OpenBlockIoProtocolForLoadedImage fw image_handle b1);
           let block_media = fw_Media fw block_io;
           ok fw (ReadBlocks fw block_io (MediaId block_media) (volume_bytes block_media) b2) })"

text \<open>The map that was read at the start is usually out of date; then it is read again.\<close>

definition exit_boot_services :: "'s Firmware \<Rightarrow> nat \<Rightarrow> MemoryMap \<Rightarrow> 's Boot \<Rightarrow> ('s Boot \<times> MemoryMap) option" where
  "exit_boot_services fw image_handle memmap b =
     (let (b1, _, status) = fw_ExitBootServices fw image_handle (map_key memmap) b
      in if fw_EFI_ERROR fw status then do {
           (b2, memmap2) \<leftarrow> ok fw (GetMemoryMap fw memmap b1);
           (b3, _) \<leftarrow> ok fw (fw_ExitBootServices fw image_handle (map_key memmap2) b2);
           Some (b3, memmap2) }
         else Some (b1, memmap))"

definition convert_pixel_format :: "u32 \<Rightarrow> PixelFormat option" where
  "convert_pixel_format f =
     (if f = 0 then Some kPixelRGBResv8BitPerColor else if f = 1 then Some kPixelBGRResv8BitPerColor else None)"

definition find_acpi_table :: "(bool \<times> u64) list \<Rightarrow> u64 option" where
  "find_acpi_table tables = map_option snd (find fst tables)"

text \<open>\<open>memmap_buf\<close> is the address of the array on the stack. The result is the call of the kernel.\<close>

definition UefiMain :: "'s Firmware \<Rightarrow> nat \<Rightarrow> u64 \<Rightarrow> 's Boot \<Rightarrow> ('s Boot \<times> Handover) option" where
  "UefiMain fw image_handle memmap_buf b0 = do {
     (b1, memmap) \<leftarrow> ok fw (GetMemoryMap fw \<lparr>buffer_size = 4096 * 4, map_buffer = memmap_buf, map_size = 0, map_key = 0,
                             descriptor_size = 0, descriptor_version = 0\<rparr> b0);
     (b2, root_dir) \<leftarrow> ok fw (OpenRootDir fw image_handle b1);
     b3 \<leftarrow> save_memmap_file fw root_dir memmap b2;
     (b4, gop) \<leftarrow> ok fw (OpenGOP fw image_handle b3);
     let mode = fw_Mode fw gop;
     (b6, first_addr) \<leftarrow> load_kernel fw root_dir (fill_frame_buffer mode b4);
     (b7, volume_image) \<leftarrow> load_volume fw image_handle root_dir b6;
     (b8, memmap2) \<leftarrow> exit_boot_services fw image_handle memmap b7;
     let entry_addr = load_u64 (boot_mem b8) (first_addr + 24);
     format \<leftarrow> convert_pixel_format (gop_PixelFormat mode);
     Some (b8, \<lparr>ho_frame_buffer = FrameBufferBase mode, ho_pixels_per_scan_line = PixelsPerScanLine mode,
       ho_horizontal_resolution = HorizontalResolution mode, ho_vertical_resolution = VerticalResolution mode,
       ho_pixel_format = format, ho_memmap = memmap2, ho_acpi_table = find_acpi_table (fw_ConfigurationTable fw),
       ho_volume_image = volume_image, ho_entry = entry_addr\<rparr>) }"

subsection \<open>The loaded image\<close>

text \<open>The documented behaviour of \<open>CopyMem\<close> and \<open>SetMem\<close>.\<close>

definition copy_bytes :: "u64 \<Rightarrow> u64 \<Rightarrow> u64 \<Rightarrow> (u64 \<Rightarrow> u8) \<Rightarrow> u64 \<Rightarrow> u8" where
  "copy_bytes dst src len mem = (\<lambda>a. if a - dst < len then mem (src + (a - dst)) else mem a)"

definition memory_lib_ok :: "BaseMemoryLib \<Rightarrow> bool" where
  "memory_lib_ok lib \<longleftrightarrow> lib_CopyMem lib = copy_bytes \<and> lib_SetMem lib = fill_bytes"

definition in_segment :: "Phdr \<Rightarrow> u64 \<Rightarrow> bool" where
  "in_segment p a \<longleftrightarrow> a - p_vaddr p < p_memsz p"

definition in_block :: "u64 \<Rightarrow> nat \<Rightarrow> u64 \<Rightarrow> bool" where
  "in_block start_addr n a \<longleftrightarrow> unat (a - start_addr) < n"

definition load_headers :: "(u64 \<Rightarrow> u8) \<Rightarrow> u64 \<Rightarrow> Phdr list" where
  "load_headers mem ehdr = map (load_Phdr mem (ehdr + load_e_phoff mem ehdr)) [0..<unat (load_e_phnum mem ehdr)]"

definition load_segments :: "(u64 \<Rightarrow> u8) \<Rightarrow> u64 \<Rightarrow> Phdr list" where
  "load_segments mem ehdr = filter (\<lambda>p. p_type p = PT_LOAD) (load_headers mem ehdr)"

text \<open>The byte of the file for an address of a segment; what the file does not have is zero.\<close>

definition image_byte :: "(u64 \<Rightarrow> u8) \<Rightarrow> u64 \<Rightarrow> Phdr \<Rightarrow> u64 \<Rightarrow> u8" where
  "image_byte mem ehdr p a = (if a - p_vaddr p < p_filesz p then mem (ehdr + p_offset p + (a - p_vaddr p)) else 0)"

text \<open>A file of \<open>n\<close> bytes whose header, table and segments lie inside of it, and which no segment is loaded over; segments do not
  overlap and lie in the lower half of the address space.\<close>

definition image_ok :: "(u64 \<Rightarrow> u8) \<Rightarrow> u64 \<Rightarrow> nat \<Rightarrow> bool" where
  "image_ok mem ehdr n \<longleftrightarrow> n < 2 ^ 63 \<and> sizeof_Ehdr \<le> n \<and>
     unat (load_e_phoff mem ehdr) + sizeof_Phdr * unat (load_e_phnum mem ehdr) \<le> n \<and>
     (\<forall>p \<in> set (load_segments mem ehdr). p_filesz p \<le> p_memsz p \<and> unat (p_offset p) + unat (p_filesz p) \<le> n \<and>
        unat (p_vaddr p) + unat (p_memsz p) < 2 ^ 63 \<and> (\<forall>a. in_segment p a \<longrightarrow> \<not> in_block ehdr n a)) \<and>
     sorted_wrt (\<lambda>p q. \<forall>a. \<not> (in_segment p a \<and> in_segment q a)) (load_segments mem ehdr)"

lemma word_diff_less:
  fixes x f n :: u64
  assumes "f \<le> n"
  shows "x - f < n - f \<longleftrightarrow> f \<le> x \<and> x < n"
  using assms unsigned_less[of x, where 'a = nat] unsigned_less[of n, where 'a = nat]
  by (auto simp: word_less_nat_alt word_le_nat_alt unat_sub_if')

lemma place_segment_at:
  assumes "memory_lib_ok lib" and "p_type p = PT_LOAD" and "p_filesz p \<le> p_memsz p"
  shows "place_segment lib ehdr p mem a = (if in_segment p a then image_byte mem ehdr p a else mem a)"
proof -
  have d: "a - (p_vaddr p + p_filesz p) = a - p_vaddr p - p_filesz p" by (simp add: algebra_simps)
  have "a - p_vaddr p < p_filesz p \<Longrightarrow> a - p_vaddr p < p_memsz p" using assms(3) less_le_trans by blast
  then show ?thesis
    using assms by (auto simp: place_segment_def memory_lib_ok_def fill_bytes_def copy_bytes_def in_segment_def image_byte_def d word_diff_less)
qed

lemma in_block_add: "k < n \<Longrightarrow> n < 2 ^ 63 \<Longrightarrow> in_block ehdr n (ehdr + of_nat k)"
  by (simp add: in_block_def unat_of_nat)

lemma place_segment_keeps:
  assumes "memory_lib_ok lib" and "p_type p = PT_LOAD \<longrightarrow> p_filesz p \<le> p_memsz p \<and> (\<forall>a. in_segment p a \<longrightarrow> \<not> in_block ehdr n a)" and "in_block ehdr n a"
  shows "place_segment lib ehdr p m a = m a"
proof (cases "p_type p = PT_LOAD")
  case True
  then show ?thesis using assms place_segment_at[of lib p ehdr m a] by auto
qed (simp add: place_segment_def)

text \<open>Loading the rest of the segments from memory that still has the file.\<close>

lemma place_list:
  assumes lib: "memory_lib_ok lib" and "\<forall>p \<in> set ps. p_type p = PT_LOAD \<longrightarrow> p_filesz p \<le> p_memsz p \<and> unat (p_offset p) + unat (p_filesz p) \<le> n \<and>
      (\<forall>a. in_segment p a \<longrightarrow> \<not> in_block ehdr n a)"
    and "n < 2 ^ 63" and "\<forall>a. in_block ehdr n a \<longrightarrow> m a = mem a"
    and "sorted_wrt (\<lambda>p q. \<forall>a. \<not> (in_segment p a \<and> in_segment q a)) (filter (\<lambda>p. p_type p = PT_LOAD) ps)"
  shows "fold (place_segment lib ehdr) ps m a = (case find (\<lambda>p. in_segment p a) (filter (\<lambda>p. p_type p = PT_LOAD) ps) of
      None \<Rightarrow> m a | Some p \<Rightarrow> image_byte mem ehdr p a) \<and>
    (\<forall>a. in_block ehdr n a \<longrightarrow> fold (place_segment lib ehdr) ps m a = mem a)"
  using assms(2,4,5)
proof (induction ps arbitrary: m)
  case (Cons p ps)
  let ?m = "place_segment lib ehdr p m" and ?L = "filter (\<lambda>p. p_type p = PT_LOAD)"
  show ?case
  proof (cases "p_type p = PT_LOAD")
    case True
    have p: "p_filesz p \<le> p_memsz p" "unat (p_offset p) + unat (p_filesz p) \<le> n" "\<forall>a. in_segment p a \<longrightarrow> \<not> in_block ehdr n a"
      using Cons.prems(1) True by simp_all
    have at: "?m a = (if in_segment p a then image_byte m ehdr p a else m a)" for a
      by (rule place_segment_at[OF lib True p(1)])
    have same: "image_byte m ehdr p a = image_byte mem ehdr p a" for a
    proof (cases "a - p_vaddr p < p_filesz p")
      case lt: True
      let ?k = "unat (p_offset p) + unat (a - p_vaddr p)"
      have "?k < n" using lt p(2) by (simp add: word_less_nat_alt)
      moreover have "ehdr + p_offset p + (a - p_vaddr p) = ehdr + of_nat ?k" by simp
      ultimately have "in_block ehdr n (ehdr + p_offset p + (a - p_vaddr p))" using in_block_add[of ?k n ehdr] assms(3) by (simp add: add.assoc)
      then show ?thesis using Cons.prems(2) by (simp add: image_byte_def)
    qed (simp add: image_byte_def)
    have keep: "\<forall>a. in_block ehdr n a \<longrightarrow> ?m a = mem a" using at p(3) Cons.prems(2) by auto
    have rest: "\<forall>q \<in> set (?L ps). \<forall>a. \<not> (in_segment p a \<and> in_segment q a)"
      "sorted_wrt (\<lambda>p q. \<forall>a. \<not> (in_segment p a \<and> in_segment q a)) (?L ps)"
      using Cons.prems(3) True by simp_all
    have none: "in_segment p a \<Longrightarrow> find (\<lambda>p. in_segment p a) (?L ps) = None"
      using rest(1) by (auto simp: find_None_iff)
    have prem: "\<forall>p \<in> set ps. p_type p = PT_LOAD \<longrightarrow> p_filesz p \<le> p_memsz p \<and> unat (p_offset p) + unat (p_filesz p) \<le> n \<and>
      (\<forall>a. in_segment p a \<longrightarrow> \<not> in_block ehdr n a)" using Cons.prems(1) by simp
    note IH = Cons.IH[OF prem keep rest(2)]
    have "fold (place_segment lib ehdr) (p # ps) m a = (case find (\<lambda>p. in_segment p a) (?L (p # ps)) of
        None \<Rightarrow> m a | Some p \<Rightarrow> image_byte mem ehdr p a)"
    proof (cases "in_segment p a")
      case a: True
      then show ?thesis using conjunct1[OF IH] True none[OF a] a by (simp add: at[of a] same)
    next
      case False
      then show ?thesis using conjunct1[OF IH] True by (simp add: at[of a] split: option.splits)
    qed
    then show ?thesis using conjunct2[OF IH] by simp
  next
    case False
    then have "?m = m" by (simp add: place_segment_def)
    then show ?thesis using Cons.IH[of m] Cons.prems False by simp
  qed
qed simp

lemma load_bytes_kept:
  assumes "\<forall>a. in_block ehdr n a \<longrightarrow> m a = mem a" and "k + l \<le> n" and "n < 2 ^ 63"
  shows "load_bytes m (ehdr + of_nat k) l = load_bytes mem (ehdr + of_nat k) l"
proof -
  have "m (ehdr + of_nat k + of_nat i) = mem (ehdr + of_nat k + of_nat i)" if "i < l" for i
    using in_block_add[of "k + i" n ehdr] assms that by (simp add: add.assoc)
  then show ?thesis by (simp add: load_bytes_def)
qed

lemma headers_kept:
  assumes ok: "image_ok mem ehdr n" and m: "\<forall>a. in_block ehdr n a \<longrightarrow> m a = mem a"
  shows "load_e_phnum m ehdr = load_e_phnum mem ehdr"
    and "i < unat (load_e_phnum mem ehdr) \<Longrightarrow>
      load_Phdr m (ehdr + load_e_phoff mem ehdr) i = load_Phdr mem (ehdr + load_e_phoff mem ehdr) i"
proof -
  have n: "n < 2 ^ 63" "64 \<le> n" using ok by (simp_all add: image_ok_def sizeof_Ehdr_def)
  show "load_e_phnum m ehdr = load_e_phnum mem ehdr"
    using load_bytes_kept[OF m, of 56 2] n by (simp add: load_e_phnum_def)
  assume i: "i < unat (load_e_phnum mem ehdr)"
  let ?k = "unat (load_e_phoff mem ehdr) + sizeof_Phdr * i"
  have "sizeof_Phdr * (i + 1) \<le> sizeof_Phdr * unat (load_e_phnum mem ehdr)" using i by (intro mult_le_mono2) simp
  then have "?k + sizeof_Phdr \<le> n" using ok by (simp add: image_ok_def)
  from load_bytes_kept[OF m this n(1)]
  show "load_Phdr m (ehdr + load_e_phoff mem ehdr) i = load_Phdr mem (ehdr + load_e_phoff mem ehdr) i"
    by (simp add: load_Phdr_def add.assoc)
qed

lemma place_segments_fold:
  assumes lib: "memory_lib_ok lib" and ok: "image_ok mem ehdr n" and "\<forall>a. in_block ehdr n a \<longrightarrow> m a = mem a" and "i + k = unat (load_e_phnum mem ehdr)"
  shows "place_segments lib ehdr (ehdr + load_e_phoff mem ehdr) i m = fold (place_segment lib ehdr) (drop i (load_headers mem ehdr)) m"
  using assms(3,4)
proof (induction k arbitrary: i m)
  case 0
  then show ?case using headers_kept(1)[OF ok 0(1)] by (subst place_segments.simps) (simp add: load_headers_def)
next
  case (Suc k)
  let ?p = "load_Phdr mem (ehdr + load_e_phoff mem ehdr) i"
  have i: "i < unat (load_e_phnum mem ehdr)" using Suc.prems(2) by simp
  have h: "load_headers mem ehdr ! i = ?p" "i < length (load_headers mem ehdr)" using i by (simp_all add: load_headers_def)
  have "?p \<in> set (load_headers mem ehdr)" using h by (metis nth_mem)
  then have p: "p_type ?p = PT_LOAD \<longrightarrow> p_filesz ?p \<le> p_memsz ?p \<and> unat (p_offset ?p) + unat (p_filesz ?p) \<le> n \<and>
      (\<forall>a. in_segment ?p a \<longrightarrow> \<not> in_block ehdr n a)"
    using ok by (simp add: image_ok_def load_segments_def)
  have "\<forall>a. in_block ehdr n a \<longrightarrow> place_segment lib ehdr ?p m a = mem a"
    using place_segment_keeps[OF lib, of ?p ehdr n _ m] p Suc.prems(1) by simp
  from Suc.IH[OF this] have "place_segments lib ehdr (ehdr + load_e_phoff mem ehdr) (Suc i) (place_segment lib ehdr ?p m) =
      fold (place_segment lib ehdr) (drop (Suc i) (load_headers mem ehdr)) (place_segment lib ehdr ?p m)"
    using Suc.prems(2) by simp
  moreover have "drop i (load_headers mem ehdr) = ?p # drop (Suc i) (load_headers mem ehdr)"
    using h by (metis Cons_nth_drop_Suc)
  ultimately show ?case
    using i headers_kept[OF ok Suc.prems(1)] by (subst place_segments.simps) simp
qed

text \<open>The address range covers every segment and stays in the lower half when they do.\<close>

lemma range_low:
  "fold (\<lambda>p (f, l). if p_type p \<noteq> PT_LOAD then (f, l) else (min f (p_vaddr p), max l (p_vaddr p + p_memsz p))) ps (f0, l0) = (f, l) \<Longrightarrow>
   \<forall>p \<in> set ps. p_type p = PT_LOAD \<longrightarrow> p_vaddr p + p_memsz p < c \<Longrightarrow> l0 < c \<Longrightarrow> l < c"
proof (induction ps arbitrary: f0 l0)
  case (Cons p ps)
  show ?case
  proof (cases "p_type p = PT_LOAD")
    case True
    then show ?thesis using Cons.IH[of "min f0 (p_vaddr p)" "max l0 (p_vaddr p + p_memsz p)"] Cons.prems by simp
  next
    case False
    then show ?thesis using Cons.IH[of f0 l0] Cons.prems by simp
  qed
qed simp

lemma range_covers:
  "fold (\<lambda>p (f, l). if p_type p \<noteq> PT_LOAD then (f, l) else (min f (p_vaddr p), max l (p_vaddr p + p_memsz p))) ps (f0, l0) = (f, l) \<Longrightarrow>
   f \<le> f0 \<and> l0 \<le> l \<and> (\<forall>p \<in> set ps. p_type p = PT_LOAD \<longrightarrow> f \<le> p_vaddr p \<and> p_vaddr p + p_memsz p \<le> l)"
proof (induction ps arbitrary: f0 l0)
  case (Cons p ps)
  show ?case
  proof (cases "p_type p = PT_LOAD")
    case True
    then show ?thesis using Cons.IH[of "min f0 (p_vaddr p)" "max l0 (p_vaddr p + p_memsz p)"] Cons.prems by auto
  next
    case False
    then show ?thesis using Cons.IH[of f0 l0] Cons.prems by auto
  qed
qed simp

lemma CalcLoadAddressRange_headers:
  "CalcLoadAddressRange mem ehdr =
    fold (\<lambda>p (f, l). if p_type p \<noteq> PT_LOAD then (f, l) else (min f (p_vaddr p), max l (p_vaddr p + p_memsz p)))
      (load_headers mem ehdr) (0xffffffffffffffff, 0)"
  by (simp add: CalcLoadAddressRange_def load_headers_def fold_map o_def Let_def)

lemma pages_cover:
  assumes "unat f \<le> unat v" and "unat v + unat k \<le> unat l" and "unat l < 2 ^ 63" and "a - v < k"
  shows "in_block f (4096 * unat (kernel_pages f l)) a"
proof -
  have s: "unat (l - f) = unat l - unat f" using assms(1,2) by (simp add: unat_sub word_le_nat_alt)
  then have "unat (l - f + 0xfff) = unat l - unat f + 0xfff" using assms(3) by (simp add: unat_word_ariths)
  then have p: "unat (kernel_pages f l) = (unat l - unat f + 0xfff) div 0x1000" by (simp add: kernel_pages_def unat_div_distrib)
  have vf: "unat (v - f) = unat v - unat f" using assms(1) by (simp add: unat_sub word_le_nat_alt)
  have "unat (a - v) < unat k" using assms(4) by (simp add: word_less_nat_alt)
  then have lt: "unat (a - v) + (unat v - unat f) < unat l - unat f" using assms(1,2) by linarith
  have "unat (a - f) = unat ((a - v) + (v - f))" by simp
  also have "\<dots> = (unat (a - v) + unat (v - f)) mod 2 ^ 64" by (simp only: unat_word_ariths) simp
  also have "\<dots> = unat (a - v) + (unat v - unat f)" using lt assms(3) unfolding vf by (intro mod_less) simp
  finally show ?thesis using lt unfolding in_block_def p by linarith
qed

text \<open>C40: The loader puts the kernel where it belongs and nowhere else. For a well-formed image, \<open>CopyLoadSegments\<close> leaves at every
  address of a load segment the byte of the file, or zero behind the part that is in the file, and no other address changes; and
  every byte it writes lies in the pages that were allocated for the range of \<open>CalcLoadAddressRange\<close>.\<close>

theorem loader_places_image:
  assumes lib: "memory_lib_ok lib" and ok: "image_ok mem ehdr n" and range: "CalcLoadAddressRange mem ehdr = (first_addr, last_addr)"
  shows "(\<forall>a. Loader_CopyLoadSegments lib mem ehdr a =
      (case find (\<lambda>p. in_segment p a) (load_segments mem ehdr) of None \<Rightarrow> mem a | Some p \<Rightarrow> image_byte mem ehdr p a)) \<and>
    (\<forall>p \<in> set (load_segments mem ehdr). \<forall>a. in_segment p a \<longrightarrow>
      in_block first_addr (4096 * unat (kernel_pages first_addr last_addr)) a)"
proof -
  have n: "n < 2 ^ 63" using ok by (simp add: image_ok_def)
  have segs: "\<forall>p \<in> set (load_headers mem ehdr). p_type p = PT_LOAD \<longrightarrow> p_filesz p \<le> p_memsz p \<and>
      unat (p_offset p) + unat (p_filesz p) \<le> n \<and> (\<forall>a. in_segment p a \<longrightarrow> \<not> in_block ehdr n a)"
    "sorted_wrt (\<lambda>p q. \<forall>a. \<not> (in_segment p a \<and> in_segment q a)) (filter (\<lambda>p. p_type p = PT_LOAD) (load_headers mem ehdr))"
    using ok by (simp_all add: image_ok_def load_segments_def)
  have "Loader_CopyLoadSegments lib mem ehdr = fold (place_segment lib ehdr) (load_headers mem ehdr) mem"
    using place_segments_fold[OF lib ok, of mem 0 "unat (load_e_phnum mem ehdr)"] by (simp add: Loader_CopyLoadSegments_def)
  then have image: "Loader_CopyLoadSegments lib mem ehdr a =
      (case find (\<lambda>p. in_segment p a) (load_segments mem ehdr) of None \<Rightarrow> mem a | Some p \<Rightarrow> image_byte mem ehdr p a)" for a
    using place_list[OF lib segs(1) n _ segs(2), of mem] by (simp add: load_segments_def)
  have "in_block first_addr (4096 * unat (kernel_pages first_addr last_addr)) a"
    if p: "p \<in> set (load_segments mem ehdr)" and a: "in_segment p a" for p a
  proof -
    have cover: "first_addr \<le> p_vaddr p" "p_vaddr p + p_memsz p \<le> last_addr"
      using range_covers[OF range[unfolded CalcLoadAddressRange_headers]] p by (auto simp: load_segments_def)
    have v: "unat (p_vaddr p) + unat (p_memsz p) < 2 ^ 63" using ok p by (simp add: image_ok_def)
    have sum: "unat (p_vaddr q + p_memsz q) = unat (p_vaddr q) + unat (p_memsz q)"
      "unat (p_vaddr q) + unat (p_memsz q) < 2 ^ 63" if "q \<in> set (load_segments mem ehdr)" for q
    proof -
      show v: "unat (p_vaddr q) + unat (p_memsz q) < 2 ^ 63" using ok that by (simp add: image_ok_def)
      then show "unat (p_vaddr q + p_memsz q) = unat (p_vaddr q) + unat (p_memsz q)" by (simp add: unat_word_ariths)
    qed
    have "last_addr < 2 ^ 63"
      using range_low[OF range[unfolded CalcLoadAddressRange_headers], of "2 ^ 63"] sum
      by (simp add: load_segments_def word_less_nat_alt)
    then have "unat last_addr < 2 ^ 63" by (simp add: word_less_nat_alt)
    then show ?thesis using pages_cover[of first_addr "p_vaddr p" "p_memsz p" last_addr a] cover v a
      by (simp add: word_le_nat_alt unat_word_ariths in_segment_def)
  qed
  then show ?thesis using image by blast
qed

text \<open>A file of 122 bytes with one segment of four bytes, two of them in the file.\<close>

definition loader_file :: "u8 list" where
  "loader_file = replicate 32 0 @ [64, 0, 0, 0, 0, 0, 0, 0] @ replicate 16 0 @ [1, 0] @ replicate 6 0 @
     [1, 0, 0, 0, 0, 0, 0, 0] @ [120, 0, 0, 0, 0, 0, 0, 0] @ [0, 0, 0x20, 0, 0, 0, 0, 0] @ replicate 8 0 @
     [2, 0, 0, 0, 0, 0, 0, 0] @ [4, 0, 0, 0, 0, 0, 0, 0] @ replicate 8 0 @ [0xaa, 0xbb]"

definition loader_mem :: "u64 \<Rightarrow> u8" where
  "loader_mem a = (if unat (a - 0x100000) < 122 then loader_file ! unat (a - 0x100000) else 7)"

definition loader_phdr :: Phdr where
  "loader_phdr = \<lparr>p_type = 1, p_offset = 120, p_vaddr = 0x200000, p_filesz = 2, p_memsz = 4\<rparr>"

lemma loader_file_simps: "length loader_file = 122" "loader_file ! 121 = 0xbb"
  by (simp add: loader_file_def) code_simp

lemma loader_mem_bytes:
  assumes "k + l \<le> 122"
  shows "load_bytes loader_mem (0x100000 + of_nat k) l = take l (drop k loader_file)"
proof (rule nth_equalityI)
  show "length (load_bytes loader_mem (0x100000 + of_nat k) l) = length (take l (drop k loader_file))"
    using assms by (simp add: load_bytes_def loader_file_simps)
  fix i assume "i < length (load_bytes loader_mem (0x100000 + of_nat k) l)"
  then have i: "i < l" by (simp add: load_bytes_def)
  have "unat (of_nat k + of_nat i :: u64) = k + i" using i assms by (simp add: unat_of_nat flip: of_nat_add)
  then show "load_bytes loader_mem (0x100000 + of_nat k) l ! i = take l (drop k loader_file) ! i"
    using i assms by (simp add: load_bytes_def loader_mem_def loader_file_simps add.assoc)
qed

lemma loader_headers:
  "load_e_phoff loader_mem 0x100000 = 64" "load_e_phnum loader_mem 0x100000 = 1"
  "load_segments loader_mem 0x100000 = [loader_phdr]"
  "CalcLoadAddressRange loader_mem 0x100000 = (0x200000, 0x200004)"
proof -
  have bytes: "load_bytes loader_mem 0x100020 8 = take 8 (drop 32 loader_file)" "load_bytes loader_mem 0x100038 2 = take 2 (drop 56 loader_file)"
    "load_bytes loader_mem 0x100040 56 = take 56 (drop 64 loader_file)"
    using loader_mem_bytes[of 32 8] loader_mem_bytes[of 56 2] loader_mem_bytes[of 64 56] by simp_all
  show off: "load_e_phoff loader_mem 0x100000 = 64" by (simp add: load_e_phoff_def load_u64_def bytes) (simp add: loader_file_def)
  show num: "load_e_phnum loader_mem 0x100000 = 1" by (simp add: load_e_phnum_def bytes) (simp add: loader_file_def)
  have "decode_Phdr (take 56 (drop 64 loader_file)) = loader_phdr" by code_simp
  then have phdr: "load_Phdr loader_mem 0x100040 0 = loader_phdr" by (simp add: load_Phdr_def sizeof_Phdr_def bytes)
  then have headers: "load_headers loader_mem 0x100000 = [loader_phdr]" by (simp add: load_headers_def off num)
  then show "load_segments loader_mem 0x100000 = [loader_phdr]" by (simp add: load_segments_def loader_phdr_def PT_LOAD_def)
  show "CalcLoadAddressRange loader_mem 0x100000 = (0x200000, 0x200004)"
    by (simp add: CalcLoadAddressRange_headers headers) (simp add: loader_phdr_def PT_LOAD_def)
qed

lemma loader_image_ok: "image_ok loader_mem 0x100000 122"
proof -
  have "\<not> in_block 0x100000 122 a" if "in_segment loader_phdr a" for a
  proof -
    have d: "unat (a - 0x200000) < 4" using that by (simp add: in_segment_def loader_phdr_def word_less_nat_alt)
    have "unat (a - 0x100000) = unat ((a - 0x200000) + 0x100000)" by simp
    also have "\<dots> = unat (a - 0x200000) + 0x100000" using d by (subst unat_add_lem[THEN iffD1]) simp_all
    finally show ?thesis by (simp add: in_block_def)
  qed
  moreover have "p_filesz loader_phdr \<le> p_memsz loader_phdr" "unat (p_offset loader_phdr) + unat (p_filesz loader_phdr) \<le> 122"
    "unat (p_vaddr loader_phdr) + unat (p_memsz loader_phdr) < 2 ^ 63"
    by (simp_all add: loader_phdr_def)
  ultimately show ?thesis unfolding image_ok_def loader_headers by (simp add: sizeof_Ehdr_def sizeof_Phdr_def)
qed

definition loader_lib :: BaseMemoryLib where "loader_lib = \<lparr>lib_CopyMem = copy_bytes, lib_SetMem = fill_bytes\<rparr>"

theorem loader_places_image_witness:
  "Loader_CopyLoadSegments loader_lib loader_mem 0x100000 0x200001 = 0xbb \<and>
   Loader_CopyLoadSegments loader_lib loader_mem 0x100000 0x200003 = 0 \<and>
   Loader_CopyLoadSegments loader_lib loader_mem 0x100000 0x200004 = 7"
proof -
  have c: "in_segment loader_phdr 0x200001" "in_segment loader_phdr 0x200003" "\<not> in_segment loader_phdr 0x200004"
    "image_byte loader_mem 0x100000 loader_phdr 0x200001 = 0xbb"
    "image_byte loader_mem 0x100000 loader_phdr 0x200003 = 0" "loader_mem 0x200004 = 7"
    by (simp_all add: in_segment_def loader_phdr_def image_byte_def loader_mem_def loader_file_simps)
  have lib: "memory_lib_ok loader_lib" by (simp add: memory_lib_ok_def loader_lib_def)
  have "Loader_CopyLoadSegments loader_lib loader_mem 0x100000 a =
      (case find (\<lambda>p. in_segment p a) [loader_phdr] of None \<Rightarrow> loader_mem a | Some p \<Rightarrow> image_byte loader_mem 0x100000 p a)" for a
    using loader_places_image[OF lib loader_image_ok loader_headers(4)] by (simp add: loader_headers(3))
  then show ?thesis by (simp add: c)
qed

subsection \<open>The end of boot services\<close>

text \<open>Saving the memory map ends when the firmware gives descriptors a size.\<close>

lemma save_descriptors_ends:
  assumes "descriptor_size memmap \<noteq> 0"
    and "unat (map_buffer memmap) + unat (map_size memmap) + unat (descriptor_size memmap) < 2 ^ 64"
  shows "save_descriptors fw memmap f iter i b \<noteq> None"
proof (induction "unat (map_buffer memmap + map_size memmap) - unat iter" arbitrary: iter i b rule: less_induct)
  case less
  let ?e = "map_buffer memmap + map_size memmap" and ?n = "iter + descriptor_size memmap"
  show ?case
  proof (cases "?e \<le> iter")
    case True
    then show ?thesis by (subst save_descriptors.simps) simp
  next
    case False
    have e: "unat ?e = unat (map_buffer memmap) + unat (map_size memmap)" using assms(2) by (simp add: unat_word_ariths)
    have lt: "unat iter < unat ?e" using False by (simp only: not_le word_less_nat_alt)
    then have "unat iter + unat (descriptor_size memmap) < 2 ^ 64" using assms(2) e by linarith
    then have "unat ?n = unat iter + unat (descriptor_size memmap)" by (simp add: unat_word_ariths)
    moreover have "0 < unat (descriptor_size memmap)" using assms(1) by (simp add: unat_gt_0)
    ultimately have "unat ?e - unat ?n < unat ?e - unat iter" using lt by linarith
    then show ?thesis using False less by (subst save_descriptors.simps) (simp add: Let_def)
  qed
qed

text \<open>The map that is handed over is the one whose key the firmware has accepted.\<close>

lemma exit_boot_services_map:
  assumes "exit_boot_services fw image_handle memmap b = Some (b', memmap')"
  shows "\<exists>b1. fst (fw_ExitBootServices fw image_handle (map_key memmap') b1) = b' \<and>
    \<not> fw_EFI_ERROR fw (snd (snd (fw_ExitBootServices fw image_handle (map_key memmap') b1)))"
proof (cases "fw_EFI_ERROR fw (snd (snd (fw_ExitBootServices fw image_handle (map_key memmap) b)))")
  case True
  then show ?thesis
    using assms by (auto simp: exit_boot_services_def ok_def split: prod.splits if_splits option.splits Option.bind_splits)
next
  case False
  then have "fst (fw_ExitBootServices fw image_handle (map_key memmap) b) = b' \<and> memmap = memmap'"
    using assms by (auto simp: exit_boot_services_def split: prod.splits)
  then show ?thesis using False by auto
qed

lemma UefiMain_hands_over:
  assumes "UefiMain fw image_handle buf b0 = Some (b, h)"
  shows "(\<exists>b1. fst (fw_ExitBootServices fw image_handle (map_key (ho_memmap h)) b1) = b \<and>
      \<not> fw_EFI_ERROR fw (snd (snd (fw_ExitBootServices fw image_handle (map_key (ho_memmap h)) b1)))) \<and>
    (\<exists>first_addr. ho_entry h = load_u64 (boot_mem b) (first_addr + 24))"
  using assms exit_boot_services_map[of fw image_handle _ _ b "ho_memmap h"]
  by (auto simp: UefiMain_def Let_def split: Option.bind_splits prod.splits)

end
