(* ===== verification/Spec2Isabelle.thy ===== *)
theory Spec2Isabelle
  imports MemoryManager Message Task Timer Fat FatFile Paging PageFault Graphics Font Window Layer Console TextBox IME Pci Channel UsbMemory Trb UsbRing Keyboard UsbDevice Xhci Mouse Pipe Terminal AppLoad Shell ShellSession TermTask Logger Pektak Syscall Acpi Cpu MainLoop Loader
begin

text \<open>
  A verification library of the kernel under \<^verbatim>\<open>src/kernel\<close>, a descendant of MikanOS with multilingual
  text input, and of its loader under \<^verbatim>\<open>src/MikanLoaderPkg\<close>.

  \<^bold>\<open>The program.\<close> The loader hands over a UEFI memory map and a frame buffer. The kernel sets up its
  physical memory manager and page tables, scans the PCI bus for an xHCI controller and starts the USB
  keyboard and mouse. Everything then runs as cooperating tasks: interrupt handlers post messages to the
  main task, the main loop dispatches them to layers, text boxes, the input method and the tasks of
  terminals, and applications enter the kernel through system calls. The screen is a stack of layers,
  each with a window; files live in a FAT volume in memory.

  \<^bold>\<open>Conventions\<close> are in \<^verbatim>\<open>Prelude\<close>: a class is a record, a method a function that returns it updated;
  \<open>None\<close> is behaviour that C++ leaves undefined or a loop that does not end; errors the code reports are
  values of \<open>Error_Code\<close>. Words keep their width where the code computes with bits or may wrap.
  Definitions have the names of the code, with a suffix where HOL has the name already.
  Hardware and code outside the repository (the firmware, the FreeType rasteriser, interrupt timing,
  configuration space) are parameters of the definitions that use them; what is assumed of them is a
  hypothesis of the theorem and a witness discharges it on a concrete function.

  \<^bold>\<open>Theories\<close>, in the order of their dependencies, with the files they model.

  \<^item> \<^verbatim>\<open>Prelude\<close> (\<^verbatim>\<open>error.hpp\<close>): error codes, little-endian bytes, stretches of arrays, single bits of words.
    \<^verbatim>\<open>Bits\<close>: bit fields of words, for the device drivers.
  \<^item> \<^verbatim>\<open>MemoryManager\<close> (\<^verbatim>\<open>memory_manager.cpp\<close>, \<^verbatim>\<open>memory_map.hpp\<close>): the frame bitmap is a function from
    line numbers to 64-bit words. \<open>Allocate\<close> is first fit, hands out frames nobody owns, and \<open>Free\<close>
    undoes it; after start-up from a UEFI map no reserved frame is ever handed out. The locale of
    frame allocators is interpreted here and used by the paging theories.
  \<^item> \<^verbatim>\<open>Message\<close>, \<^verbatim>\<open>Task\<close> (\<^verbatim>\<open>message.hpp\<close>, \<^verbatim>\<open>task.cpp\<close>): \<open>TaskManager\<close> holds the table of tasks and one run
    queue per level. \<open>sched_inv\<close> (every running task is in exactly the queue of its level, the idle task
    is always there) is an invariant of every operation; switching picks the highest level, round robin
    inside a level; messages wake their receiver; finishing wakes the waiter.
    The locale \<open>messenger\<close> is what senders rely on; the task manager provides it.
  \<^item> \<^verbatim>\<open>Timer\<close> (\<^verbatim>\<open>timer.cpp\<close>): the timer queue over the locale of priority queues; a tick fires the due
    timers in order, rearms the time slice timer and terminates.
  \<^item> \<^verbatim>\<open>Fat\<close>, \<^verbatim>\<open>FatFile\<close> (\<^verbatim>\<open>fat.cpp\<close>, \<^verbatim>\<open>file.cpp\<close>): clusters, chains, packed directory entries, 8.3 names, path
    search, creation; reading, writing and reading lines through file descriptors. \<open>fat_Write\<close> is
    specified for writes that do not straddle a cluster, and its overrun is a theorem.
  \<^item> \<^verbatim>\<open>Paging\<close>, \<^verbatim>\<open>PageFault\<close> (\<^verbatim>\<open>paging.cpp\<close>): \<open>Machine\<close> has physical frames of 512 words, the page tables in
    them and CR3. The recursive table functions are modelled with their recursion; the fault handler is
    specified for demand paging, mapped files and copy on write.
  \<^item> \<^verbatim>\<open>Graphics\<close>, \<^verbatim>\<open>Font\<close>, \<^verbatim>\<open>Window\<close>, \<^verbatim>\<open>Layer\<close> (\<^verbatim>\<open>graphics.hpp\<close>, \<^verbatim>\<open>frame_buffer.cpp\<close>, \<^verbatim>\<open>lang/font.cpp\<close>,
    \<^verbatim>\<open>window.cpp\<close>, \<^verbatim>\<open>layer.cpp\<close>): drawings are lists of pixel writes, frame buffers byte arrays with a
    row stride. The screen shows, pixel by pixel, the topmost window that covers it
    (\<open>synced\<close>), and every layer message, activation and close keeps that.
  \<^item> \<^verbatim>\<open>Console\<close>, \<^verbatim>\<open>TextBox\<close>, \<^verbatim>\<open>IME\<close> (\<^verbatim>\<open>console.cpp\<close>, \<^verbatim>\<open>cursored_textbox.cpp\<close>, \<^verbatim>\<open>lang/textwindowbhat.cpp\<close>,
    \<^verbatim>\<open>lang/textwindowpekzep.cpp\<close>, \<^verbatim>\<open>lang/praige_r_dict.cpp\<close>): the console shows the last lines of what was
    printed; the text boxes are editors whose picture and content agree; the input method refines an
    editor of committed text, a reading and a choice of candidates.
  \<^item> \<^verbatim>\<open>Pci\<close> (\<^verbatim>\<open>pci.cpp\<close>): configuration accesses over a hardware parameter, the recursive bus scan
    (fuel: the number of nested buses; 33 is enough because every nested bus takes one of the 32 places
    of the device table), base addresses, MSI set-up.
  \<^item> \<^verbatim>\<open>Channel\<close>: the locale of FIFO channels. \<^verbatim>\<open>UsbMemory\<close>, \<^verbatim>\<open>Trb\<close>, \<^verbatim>\<open>UsbRing\<close> (\<^verbatim>\<open>usb/memory.cpp\<close>,
    \<^verbatim>\<open>usb/arraymap.hpp\<close>, \<^verbatim>\<open>usb/xhci/trb.hpp\<close>, \<^verbatim>\<open>usb/xhci/ring.cpp\<close>): the bump allocator of the USB driver
    with the wrap-around of addresses written out, the transfer blocks as four words with bit fields, and the rings shared with the host controller. Both
    kinds of ring are channels: what one side puts the other gets, in order, whatever the wraps.
  \<^item> \<^verbatim>\<open>Keyboard\<close> (\<^verbatim>\<open>keyboard.cpp\<close>, \<^verbatim>\<open>usb/classdriver\<close>): boot reports become key messages; replaying the
    messages gives the keys that are held.
  \<^item> \<^verbatim>\<open>UsbDevice\<close> (\<^verbatim>\<open>usb/device.cpp\<close>, \<^verbatim>\<open>usb/xhci/device.cpp\<close>, \<^verbatim>\<open>usb/classdriver/hid.cpp\<close>): control and
    interrupt transfers, the reader of configuration descriptors (a partial function: a descriptor of
    length zero keeps it forever), the start up phases and the dispatch of finished transfers.
  \<^item> \<^verbatim>\<open>Xhci\<close> (\<^verbatim>\<open>usb/xhci/xhci.cpp\<close>, \<^verbatim>\<open>devmgr.cpp\<close>, \<^verbatim>\<open>port.cpp\<close>, \<^verbatim>\<open>context.hpp\<close>): the host controller driver as
    a step relation over events, start-up and arbitrary changes by the hardware; at most one port is
    between reset and addressing, and every port goes through its phases in order.
  \<^item> \<^verbatim>\<open>Mouse\<close> (\<^verbatim>\<open>mouse.cpp\<close>): the pointer layer, the reports that move it, activate, drag and close windows, and
    the messages to the active task; a dragged window follows the pointer inside the screen.
  \<^item> \<^verbatim>\<open>Pipe\<close> (\<^verbatim>\<open>terminal.cpp\<close>, \<open>PipeDescriptor\<close>): the byte stream between two commands over the messages of a
    task; the locale \<open>byte_pipe\<close> is its contract: nothing lost or reordered, and the end is seen.
  \<^item> \<^verbatim>\<open>Terminal\<close> (\<^verbatim>\<open>terminal.cpp\<close>): printing and scrolling as effects on the window, and the line editor with its
    history. The locale \<open>line_executor\<close> says what it needs of what runs a line; inside it the keys refine an
    editor on lists.
  \<^item> \<^verbatim>\<open>AppLoad\<close> (\<^verbatim>\<open>terminal.cpp\<close>, \<^verbatim>\<open>elf.hpp\<close>): the argument vector, the program headers, the copy of the load
    segments through fresh page maps and the table of loaded applications; a malformed file is \<open>None\<close>.
  \<^item> \<^verbatim>\<open>Shell\<close> (\<^verbatim>\<open>terminal.cpp\<close>, \<^verbatim>\<open>file.cpp\<close>): the descriptors behind handles, the parser of a line, every built-in
    command, redirection, pipes to a second task and the start of applications. \<open>World\<close> is the state a command
    can reach; the run of the application and of the other tasks are parameters of \<open>Env\<close>, so the loops that
    wait for them are partial functions.
  \<^item> \<^verbatim>\<open>ShellSession\<close> (\<^verbatim>\<open>terminal.cpp\<close>): \<open>line_executor\<close> on the shell itself: typed lines run in \<open>ExecuteLine\<close>. It covers
    empty lines, lines that print, clear the screen or name no command, and the redirection of a text to a file.
  \<^item> \<^verbatim>\<open>TermTask\<close> (\<^verbatim>\<open>terminal.cpp\<close>): the constructor of a terminal and \<open>TaskTerminal\<close>, its start and its loop
    over messages; a command of a pipe runs exactly its line in a task of its own and ends with its exit code.
  \<^item> \<^verbatim>\<open>Logger\<close> (\<^verbatim>\<open>logger.cpp\<close>, \<^verbatim>\<open>newlib_support.c\<close>): the log and its level, \<open>printk\<close>, and the heap of the C library;
    blocks of \<open>sbrk\<close> never overlap.
  \<^item> \<^verbatim>\<open>Pektak\<close> (\<^verbatim>\<open>lang/fontpktk.cpp\<close>): text in the script pektak over a parameter for FreeType.
  \<^item> \<^verbatim>\<open>Syscall\<close> (\<^verbatim>\<open>syscall.cpp\<close>, \<^verbatim>\<open>app_event.hpp\<close>): all eighteen system calls and the table, with the memory of
    the application behind the page maps and the page fault handler; a file that is opened can be read.
  \<^item> \<^verbatim>\<open>Acpi\<close> (\<^verbatim>\<open>acpi.cpp\<close>): the tables in memory with their check sums, and the wait on the power management timer,
    which ends in time whatever the width of the counter.
  \<^item> \<^verbatim>\<open>Cpu\<close> (\<^verbatim>\<open>segment.cpp\<close>, \<^verbatim>\<open>interrupt.cpp\<close>): segment and gate descriptors with what the processor reads from
    them, the stacks of the task state segment, and how a fault ends: an application is left, the kernel halts.
  \<^item> \<^verbatim>\<open>MainLoop\<close> (\<^verbatim>\<open>main.cpp\<close>): the screen around the banner and the turn of the main task over its messages; a key
    has one receiver.
  \<^item> \<^verbatim>\<open>Loader\<close> (\<^verbatim>\<open>MikanLoaderPkg/Main.c\<close>): the boot loader over a firmware that is an argument; the segments of the
    kernel land where they belong, inside the pages allocated for them, and the kernel gets the memory map whose key
    the firmware accepted.

  \<^bold>\<open>Loops that may not end\<close> are partial functions in the option monad (walks along cluster chains, the
  timer loop, capability lists) or have fuel whose sufficiency is proved; the other recursions have
  termination proofs.

  \<^bold>\<open>Not modelled.\<close> Assembly (context switch, port and control register access) is represented by its
  documented effect where a modelled function uses it. The log and \<^verbatim>\<open>printf\<close> formatting, the FreeType
  rasteriser, and \<^verbatim>\<open>osbanner.c\<close> and \<^verbatim>\<open>stb_image.h\<close> (data and third-party code) are left out. Further left out: the order of the initialisations in \<^verbatim>\<open>main.cpp\<close>, whose parts are modelled where they are
  defined, the reset and start of the host controller (loops that wait for register bits), the texts of the log, and
  the applications under \<^verbatim>\<open>src/apps\<close>, which are examples over the system calls. In \<^verbatim>\<open>MainLoop\<close> the events of the
  host controller are an argument, because the driver has a state of its own.
\<close>

end
